(* ===== verification/Credb_Prelude.thy ===== *)
theory Credb_Prelude
  imports Main "HOL-Library.Word"
begin

unbundle bit_operations_syntax

text \<open>
  Shared vocabulary of the CreDB development: the machine integer types of the C++ sources,
  the values that stand for C++ exceptions and process aborts, the result type of fallible
  operations with its composition, an ordered-container model of \<open>std::set\<close>, and the generic
  lemmas the component theories rely on.
\<close>

section \<open>Machine integers\<close>

type_synonym u8 = "8 word"
type_synonym u16 = "16 word"
type_synonym u32 = "32 word"
type_synonym u64 = "64 word"

section \<open>Errors and results\<close>

text \<open>
  One constructor per way an operation of the sources can fail to return normally:
  a \<open>std::runtime_error\<close>, the exceptions declared by CreDB itself, and the
  \<open>log_fatal\<close> / \<open>LOG(FATAL)\<close> / \<open>abort()\<close> paths that end the process. \<open>Blocked\<close> stands for an
  operation that waits for a step of another thread, \<open>JsonError\<close> for an access to a JSON document
  that has no such element.
\<close>

datatype error =
    RuntimeError string
  | StalenessDetected
  | WouldBlock
  | AttestationError string
  | Fatal string
  | JsonError
  | Blocked

type_synonym 'a result = "error + 'a"

definition rbind :: "'a result \<Rightarrow> ('a \<Rightarrow> 'b result) \<Rightarrow> 'b result" where
  "rbind r f = (case r of Inl e \<Rightarrow> Inl e | Inr x \<Rightarrow> f x)"

definition is_ok :: "'a result \<Rightarrow> bool" where
  "is_ok r = (case r of Inl _ \<Rightarrow> False | Inr _ \<Rightarrow> True)"

named_theorems result_simps "evaluation of results"

lemma rbind_Inl [simp, result_simps]: "rbind (Inl e) f = Inl e"
  by (simp add: rbind_def)

lemma rbind_Inr [simp, result_simps]: "rbind (Inr x) f = f x"
  by (simp add: rbind_def)

lemma is_ok_simps [simp, result_simps]: "\<not> is_ok (Inl e)" "is_ok (Inr x)"
  by (simp_all add: is_ok_def)

lemma rbind_eq_Inr [result_simps]:
  "rbind r f = Inr y \<longleftrightarrow> (\<exists>x. r = Inr x \<and> f x = Inr y)"
  by (cases r) simp_all

lemma rbind_eq_Inl:
  "rbind r f = Inl e \<longleftrightarrow> r = Inl e \<or> (\<exists>x. r = Inr x \<and> f x = Inl e)"
  by (cases r) simp_all

lemma rbind_assoc: "rbind (rbind r f) g = rbind r (\<lambda>x. rbind (f x) g)"
  by (cases r) simp_all

section \<open>Ordered sets\<close>

text \<open>
  A \<open>std::set\<close> with comparator \<open>lt\<close>, as the list of its elements in iteration order.
  As in the standard library, two elements neither of which is less than the other count as
  the same element: insertion of an equivalent element leaves the set unchanged, and erasure
  removes the equivalent elements and returns how many there were.
\<close>

fun sset_insert :: "('a \<Rightarrow> 'a \<Rightarrow> bool) \<Rightarrow> 'a \<Rightarrow> 'a list \<Rightarrow> 'a list" where
  "sset_insert lt x [] = [x]"
| "sset_insert lt x (y # ys) =
     (if lt x y then x # y # ys
      else if lt y x then y # sset_insert lt x ys
      else y # ys)"

definition sset_erase :: "('a \<Rightarrow> 'a \<Rightarrow> bool) \<Rightarrow> 'a \<Rightarrow> 'a list \<Rightarrow> nat \<times> 'a list" where
  "sset_erase lt x xs =
     (length (filter (\<lambda>y. \<not> lt x y \<and> \<not> lt y x) xs), filter (\<lambda>y. lt x y \<or> lt y x) xs)"

text \<open>What the standard library requires of the comparator.\<close>

definition strict_weak_order :: "('a \<Rightarrow> 'a \<Rightarrow> bool) \<Rightarrow> bool" where
  "strict_weak_order lt \<longleftrightarrow>
     (\<forall>x. \<not> lt x x) \<and>
     (\<forall>x y z. lt x y \<longrightarrow> lt y z \<longrightarrow> lt x z) \<and>
     (\<forall>x y z. \<not> lt x y \<and> \<not> lt y x \<longrightarrow> \<not> lt y z \<and> \<not> lt z y \<longrightarrow> \<not> lt x z \<and> \<not> lt z x)"

section \<open>Characters\<close>

text \<open>\<open>isalnum\<close> of the C locale.\<close>

definition is_alnum :: "char \<Rightarrow> bool" where
  "is_alnum c =
     (let n = of_char c :: nat in (48 \<le> n \<and> n \<le> 57) \<or> (65 \<le> n \<and> n \<le> 90) \<or> (97 \<le> n \<and> n \<le> 122))"

text \<open>Conversion between \<open>char\<close> and \<open>uint8_t\<close>.\<close>

definition byte_char :: "u8 \<Rightarrow> char" where
  "byte_char b = char_of (unat b)"

definition char_byte :: "char \<Rightarrow> u8" where
  "char_byte c = of_nat (of_char c)"

lemma byte_char_inverse [simp]: "char_byte (byte_char b) = b" "byte_char (char_byte c) = c"
proof -
  have "unat b < 256" using unsigned_less [where 'a = nat, of b] by simp
  then show "char_byte (byte_char b) = b" by (simp add: byte_char_def char_byte_def)
  have "(of_char c :: nat) < 256" by simp
  then show "byte_char (char_byte c) = c" by (simp add: byte_char_def char_byte_def unat_of_nat)
qed

section \<open>Words in memory\<close>

text \<open>The bytes of an integer as they stand in memory, least significant byte first, and the way back.\<close>

definition le_bytes :: "nat \<Rightarrow> 'a::len word \<Rightarrow> u8 list" where
  "le_bytes n w = map (\<lambda>i. ucast (drop_bit (8 * i) w)) [0..<n]"

fun le_word :: "u8 list \<Rightarrow> 'a::len word" where
  "le_word [] = 0"
| "le_word (b # bs) = ucast b OR push_bit 8 (le_word bs)"

lemma length_le_bytes [simp]: "length (le_bytes n w) = n"
  by (simp add: le_bytes_def)

lemma le_bytes_Suc: "le_bytes (Suc n) w = ucast w # le_bytes n (drop_bit 8 w)"
  by (simp add: le_bytes_def upt_conv_Cons del: upt_Suc) (simp add: map_Suc_upt [symmetric] comp_def drop_bit_drop_bit algebra_simps del: upt_Suc)

lemma le_word_bytes: "LENGTH('a) \<le> 8 * n \<Longrightarrow> le_word (le_bytes n w) = (w :: 'a::len word)"
proof -
  have "le_word (le_bytes n w) = take_bit (8 * n) w"
  proof (induction n arbitrary: w)
    case 0
    then show ?case by (simp add: le_bytes_def)
  next
    case (Suc n)
    show ?case
      by (rule bit_word_eqI) (auto simp: le_bytes_Suc Suc bit_simps)
  qed
  moreover assume "LENGTH('a) \<le> 8 * n"
  ultimately show ?thesis by (simp add: take_bit_word_eq_self)
qed

section \<open>Decimal numbers\<close>

text \<open>\<open>std::to_string\<close> of an unsigned number.\<close>

definition digit_char :: "nat \<Rightarrow> char" where
  "digit_char d = char_of (48 + d)"

fun to_string_nat :: "nat \<Rightarrow> string" where
  "to_string_nat n =
     (if n < 10 then [digit_char n] else to_string_nat (n div 10) @ [digit_char (n mod 10)])"

declare to_string_nat.simps [simp del]

fun of_decimal :: "string \<Rightarrow> nat" where
  "of_decimal s = foldl (\<lambda>acc c. 10 * acc + (of_char c - 48)) 0 s"

lemma of_char_digit: "d < 10 \<Longrightarrow> of_char (digit_char d) = 48 + d"
  by (simp add: digit_char_def)

lemma of_decimal_to_string_nat: "of_decimal (to_string_nat n) = n"
proof (induction n rule: to_string_nat.induct)
  case (1 n)
  then show ?case
    by (subst to_string_nat.simps) (auto simp: of_char_digit)
qed

lemma to_string_nat_inject [simp]: "to_string_nat a = to_string_nat b \<longleftrightarrow> a = b"
  by (metis of_decimal_to_string_nat)

section \<open>Generic lemmas\<close>

lemma set_sset_insert_subset: "set (sset_insert lt x xs) \<subseteq> insert x (set xs)"
  by (induction xs) auto

lemma set_sset_insert_superset: "set xs \<subseteq> set (sset_insert lt x xs)"
  by (induction xs) auto

lemma sset_insert_total:
  assumes "\<And>y. y \<in> set xs \<Longrightarrow> y = x \<or> lt x y \<or> lt y x"
  shows "set (sset_insert lt x xs) = insert x (set xs)"
  using assms by (induction xs) auto

section \<open>Refinement of operations\<close>

text \<open>
  A component and its specification, both as a step function on commands: the component refines
  the specification when every step that returns gives the output the specification gives on the
  abstract state, and keeps the invariant.
\<close>

fun run_steps :: "('op \<Rightarrow> 's \<Rightarrow> ('o \<times> 's) result) \<Rightarrow> 'op list \<Rightarrow> 's \<Rightarrow> ('o list \<times> 's) result" where
  "run_steps step [] s = Inr ([], s)"
| "run_steps step (op # ops) s =
     rbind (step op s) (\<lambda>(out, s'). rbind (run_steps step ops s') (\<lambda>(outs, s''). Inr (out # outs, s'')))"

locale step_refinement =
  fixes step :: "'op \<Rightarrow> 's \<Rightarrow> ('o \<times> 's) result"
    and spec :: "'op \<Rightarrow> 'a \<Rightarrow> ('o \<times> 'a) result"
    and abs :: "'s \<Rightarrow> 'a"
    and inv :: "'s \<Rightarrow> bool"
  assumes sim: "inv s \<Longrightarrow> step op s = Inr (out, s') \<Longrightarrow> spec op (abs s) = Inr (out, abs s') \<and> inv s'"
begin

lemma run_refines:
  "inv s \<Longrightarrow> run_steps step ops s = Inr (outs, s') \<Longrightarrow>
   run_steps spec ops (abs s) = Inr (outs, abs s') \<and> inv s'"
proof (induction ops arbitrary: s outs)
  case (Cons op ops)
  then obtain out s1 outs' where "step op s = Inr (out, s1)" "run_steps step ops s1 = Inr (outs', s')"
    and outs: "outs = out # outs'"
    by (auto simp: rbind_eq_Inr)
  with sim [OF Cons.prems(1)] Cons.IH [of s1] show ?case by auto
qed simp

end

text \<open>
  A component that gives exactly the outcomes of its specification, errors included, on the commands that
  satisfy \<open>ok\<close>.
\<close>

definition outcome_of :: "('s \<Rightarrow> 'a) \<Rightarrow> ('o \<times> 's) result \<Rightarrow> ('o \<times> 'a) result" where
  "outcome_of f r = (case r of Inl e \<Rightarrow> Inl e | Inr (x, s) \<Rightarrow> Inr (x, f s))"

lemma outcome_of_simps [simp]: "outcome_of f (Inl e) = Inl e" "outcome_of f (Inr (x, s)) = Inr (x, f s)"
  by (simp_all add: outcome_of_def)

lemma outcome_of_eq_Inr: "outcome_of f r = Inr (x, y) \<longleftrightarrow> (\<exists>s. r = Inr (x, s) \<and> f s = y)"
  by (cases r) auto

locale step_equivalence =
  fixes step :: "'op \<Rightarrow> 's \<Rightarrow> ('o \<times> 's) result"
    and spec :: "'op \<Rightarrow> 'a \<Rightarrow> ('o \<times> 'a) result"
    and abs :: "'s \<Rightarrow> 'a"
    and inv :: "'s \<Rightarrow> bool"
    and ok :: "'op \<Rightarrow> bool"
  assumes same: "inv s \<Longrightarrow> ok op \<Longrightarrow> spec op (abs s) = outcome_of abs (step op s)"
    and keeps: "inv s \<Longrightarrow> ok op \<Longrightarrow> step op s = Inr (out, s') \<Longrightarrow> inv s'"
begin

lemma run_equivalent:
  "inv s \<Longrightarrow> \<forall>op \<in> set ops. ok op \<Longrightarrow> run_steps spec ops (abs s) = outcome_of abs (run_steps step ops s)"
proof (induction ops arbitrary: s)
  case (Cons op ops)
  have op: "spec op (abs s) = outcome_of abs (step op s)" using same Cons.prems by simp
  show ?case
  proof (cases "step op s")
    case (Inr r)
    obtain out s1 where r: "r = (out, s1)" by (cases r)
    then have "inv s1" using keeps [of s op out s1] Cons.prems Inr by simp
    then have "run_steps spec ops (abs s1) = outcome_of abs (run_steps step ops s1)" using Cons by simp
    with op Inr r show ?thesis by (cases "run_steps step ops s1") auto
  qed (use op in simp)
qed simp

end

section \<open>Components whose loops may not return\<close>

definition obind :: "'a result option \<Rightarrow> ('a \<Rightarrow> 'b result) \<Rightarrow> 'b result option" where
  "obind r f = (case r of None \<Rightarrow> None | Some x \<Rightarrow> Some (rbind x f))"

lemma obind_Some [simp]: "obind (Some r) f = Some (rbind r f)"
  by (simp add: obind_def)

fun run_partial :: "('op \<Rightarrow> 's \<Rightarrow> ('o \<times> 's) result option) \<Rightarrow> 'op list \<Rightarrow> 's \<Rightarrow> ('o list \<times> 's) result option" where
  "run_partial step [] s = Some (Inr ([], s))"
| "run_partial step (op # ops) s =
     (case step op s of
        None \<Rightarrow> None
      | Some (Inl e) \<Rightarrow> Some (Inl e)
      | Some (Inr (out, s')) \<Rightarrow> obind (run_partial step ops s') (\<lambda>(outs, s''). Inr (out # outs, s'')))"

fun run_total :: "('op \<Rightarrow> 'a \<Rightarrow> 'o \<times> 'a) \<Rightarrow> 'op list \<Rightarrow> 'a \<Rightarrow> 'o list \<times> 'a" where
  "run_total spec [] a = ([], a)"
| "run_total spec (op # ops) a = (let (out, a') = spec op a; (outs, a'') = run_total spec ops a' in (out # outs, a''))"

text \<open>
  A component that returns and gives the outputs of its specification. The relation carries the number
  of further commands for which there is room.
\<close>

locale total_simulation =
  fixes step :: "'op \<Rightarrow> 's \<Rightarrow> ('o \<times> 's) result option"
    and spec :: "'op \<Rightarrow> 'a \<Rightarrow> 'o \<times> 'a"
    and rel :: "nat \<Rightarrow> 's \<Rightarrow> 'a \<Rightarrow> bool"
    and ok :: "'op \<Rightarrow> bool"
  assumes sim: "rel (Suc n) s a \<Longrightarrow> ok op \<Longrightarrow> \<exists>s'. step op s = Some (Inr (fst (spec op a), s')) \<and> rel n s' (snd (spec op a))"
begin

lemma run_returns:
  "rel (length ops + n) s a \<Longrightarrow> \<forall>op\<in>set ops. ok op \<Longrightarrow>
   \<exists>s'. run_partial step ops s = Some (Inr (fst (run_total spec ops a), s')) \<and> rel n s' (snd (run_total spec ops a))"
proof (induction ops arbitrary: s a)
  case (Cons op ops)
  obtain s1 where s1: "step op s = Some (Inr (fst (spec op a), s1))" "rel (length ops + n) s1 (snd (spec op a))"
    using sim [of "length ops + n" s a op] Cons.prems by auto
  then obtain s' where "run_partial step ops s1 = Some (Inr (fst (run_total spec ops (snd (spec op a))), s'))"
    "rel n s' (snd (run_total spec ops (snd (spec op a))))"
    using Cons.IH [of s1] Cons.prems by auto
  then show ?case using s1(1) by (auto simp: split_beta Let_def)
qed auto

end

end
