(* ===== verification/Version_Number.thy ===== *)
theory Version_Number
  imports Credb_Prelude
begin

text \<open>
  The wrap-around version numbers of \<open>src/src/enclave/version_number.h\<close>. They are stored in
  the index nodes and in the references to them, and freshness of a page is decided by
  comparing the two.
\<close>

section \<open>Model\<close>

type_synonym version_number = u16

definition MAX_VALUE :: u16 where
  "MAX_VALUE = 65535"

definition WINDOW_SIZE :: u16 where
  "WINDOW_SIZE = MAX_VALUE div 2"

text \<open>The C++ computes \<open>(m_value + 1) % MAX_VALUE\<close> in \<open>int\<close> and truncates to 16 bits.\<close>

definition increment :: "version_number \<Rightarrow> version_number" where
  "increment v = word_of_nat ((unat v + 1) mod unat MAX_VALUE)"

text \<open>\<open>operator<\<close>; the differences are C++ \<open>int\<close>s, and both are positive where they are used.\<close>

definition version_less :: "version_number \<Rightarrow> version_number \<Rightarrow> bool" where
  "version_less first second =
     (if first = second then False
      else if first < second then unat second - unat first < unat WINDOW_SIZE
      else unat first - unat second > unat WINDOW_SIZE)"

fun increments :: "nat \<Rightarrow> version_number \<Rightarrow> version_number" where
  "increments 0 v = v"
| "increments (Suc n) v = increments n (increment v)"

section \<open>Basic facts\<close>

lemma unat_MAX_VALUE [simp]: "unat MAX_VALUE = 65535"
  by (simp add: MAX_VALUE_def)

lemma unat_WINDOW_SIZE [simp]: "unat WINDOW_SIZE = 32767"
  by (simp add: WINDOW_SIZE_def MAX_VALUE_def)

lemma unat_increment: "unat (increment v) = (unat v + 1) mod 65535"
proof -
  have "(unat v + 1) mod 65535 < 2 ^ 16"
    by (rule less_le_trans [of _ 65535]) simp_all
  then show ?thesis
    by (simp add: increment_def unat_of_nat take_bit_nat_eq_self)
qed

lemma increment_bound: "unat (increment v) < 65535"
  by (simp add: unat_increment)

lemma unat_increments: "unat v < 65535 \<Longrightarrow> unat (increments n v) = (unat v + n) mod 65535"
proof (induction n arbitrary: v)
  case 0
  then show ?case by simp
next
  case (Suc n)
  have "unat (increments (Suc n) v) = (unat (increment v) + n) mod 65535"
    using Suc.IH [OF increment_bound] by simp
  then show ?case
    by (simp add: unat_increment mod_simps)
qed

lemma increment_neq: "increment v \<noteq> v"
proof
  assume inc: "increment v = v"
  then have v: "unat v < 65535" using increment_bound [of v] by simp
  from inc have "(unat v + 1) mod 65535 = unat v" using unat_increment [of v] by simp
  with v show False by (cases "unat v = 65534") simp_all
qed

lemma increments_neq:
  assumes "unat v < 65535" and "0 < k" and "k < 65535"
  shows "increments k v \<noteq> v"
proof
  assume "increments k v = v"
  then have eq: "(unat v + k) mod 65535 = unat v"
    using unat_increments [OF assms(1), of k] by simp
  show False
  proof (cases "unat v + k < 65535")
    case True
    with eq assms(2) show False by simp
  next
    case False
    with assms have "(unat v + k) mod 65535 = unat v + k - 65535"
      by (simp add: mod_if)
    with eq False assms(3) show False by linarith
  qed
qed

lemma version_less_unat:
  "version_less a b \<longleftrightarrow>
     (unat a < unat b \<and> unat b - unat a < 32767) \<or> (unat b < unat a \<and> unat a - unat b > 32767)"
  by (auto simp: version_less_def word_less_nat_alt dest: word_unat_eq_iff [THEN iffD2])

section \<open>Properties\<close>

text \<open>
  Version numbers order correctly across the wrap-around: as long as fewer than
  \<open>WINDOW_SIZE\<close> increments lie between two versions of the same page, the older one compares
  as less than the newer one, the newer one does not compare as less, and the two differ.
\<close>

lemma version_order_in_window:
  assumes "unat v < unat MAX_VALUE" and "0 < k" and "k < unat WINDOW_SIZE"
  shows "version_less v (increments k v) \<and> \<not> version_less (increments k v) v
    \<and> increments k v \<noteq> v"
proof -
  have "unat (increments k v) = (unat v + k) mod 65535"
    using unat_increments [of v k] assms(1) by simp
  then show ?thesis
    using assms increments_neq [of v k] by (auto simp: version_less_unat mod_if)
qed

end
