(* ===== verification/Event_Id.thy ===== *)
theory Event_Id
  imports Credb_Prelude
begin

text \<open>
  Positions on the ledger and their order: \<open>src/include/credb/event_id.h\<close> (event identifiers,
  event ranges, transaction bounds and the three overloads of \<open>order\<close>) and
  \<open>src/src/enclave/ledger_pos.h\<close> (positions on the transaction ledger).
\<close>

section \<open>Event identifiers\<close>

type_synonym shard_id_t = u16
type_synonym block_id_t = u32
type_synonym block_index_t = u16
type_synonym version_number_t = u32

definition INVALID_VERSION_NO :: version_number_t where "INVALID_VERSION_NO = 0"
definition INITIAL_VERSION_NO :: version_number_t where "INITIAL_VERSION_NO = 1"
definition INVALID_BLOCK :: block_id_t where "INVALID_BLOCK = 0"
definition INITIAL_BLOCK :: block_id_t where "INITIAL_BLOCK = 1"

record event_id_t =
  ev_shard :: shard_id_t
  ev_index :: block_index_t
  ev_block :: block_id_t

definition mk_event_id :: "shard_id_t \<Rightarrow> block_id_t \<Rightarrow> block_index_t \<Rightarrow> event_id_t" where
  "mk_event_id s b i = \<lparr>ev_shard = s, ev_index = i, ev_block = b\<rparr>"

definition is_valid :: "event_id_t \<Rightarrow> bool" where
  "is_valid e \<longleftrightarrow> ev_block e \<noteq> INVALID_BLOCK"

definition INVALID_EVENT :: event_id_t where
  "INVALID_EVENT = mk_event_id (ucast INVALID_BLOCK) INVALID_BLOCK 0"

definition UNCOMMITTED_EVENT :: event_id_t where
  "UNCOMMITTED_EVENT = mk_event_id (-2) (-2) (-2)"

datatype OrderResult = Unknown | Equal | OlderThan | NewerThan | Concurrent

text \<open>
  \<open>operator==\<close> is a \<open>memcmp\<close> over the packed structure, that is, equality of all fields.
\<close>

definition order_event :: "event_id_t \<Rightarrow> event_id_t \<Rightarrow> OrderResult" where
  "order_event first second =
     (if ev_shard first \<noteq> ev_shard second then Unknown
      else if ev_block first < ev_block second then OlderThan
      else if ev_block first = ev_block second \<and> ev_index first < ev_index second then OlderThan
      else if first = second then Equal
      else NewerThan)"

definition event_less :: "event_id_t \<Rightarrow> event_id_t \<Rightarrow> bool" where
  "event_less first second \<longleftrightarrow> order_event first second = OlderThan"

section \<open>Event ranges and transaction bounds\<close>

record event_range_t =
  start_block :: block_id_t
  end_block :: block_id_t
  start_index :: block_index_t
  end_index :: block_index_t

definition event_before_range :: "event_id_t \<Rightarrow> event_range_t \<Rightarrow> bool" where
  "event_before_range e r =
     (if ev_block e < start_block r then True
      else if ev_block e = start_block r then ev_index e < start_index r
      else False)"

definition event_after_range :: "event_id_t \<Rightarrow> event_range_t \<Rightarrow> bool" where
  "event_after_range e r =
     (if ev_block e > end_block r then True
      else if ev_block e = end_block r then ev_index e > end_index r
      else False)"

definition order_range :: "event_range_t \<Rightarrow> event_range_t \<Rightarrow> OrderResult" where
  "order_range first second =
     (if end_block first < start_block second
         \<or> (end_block first = start_block second \<and> end_index first < start_index second)
      then OlderThan
      else if start_block first > end_block second
         \<or> (end_block first = start_block second \<and> start_index first > end_index second)
      then NewerThan
      else Concurrent)"

text \<open>
  \<open>transaction_bounds_t\<close> is a \<open>std::map\<close> from shards to ranges: the association list of its
  entries in key order.
\<close>

type_synonym transaction_bounds_t = "(shard_id_t \<times> event_range_t) list"

fun order_bounds :: "transaction_bounds_t \<Rightarrow> transaction_bounds_t \<Rightarrow> OrderResult" where
  "order_bounds [] second = Unknown"
| "order_bounds ((sh, range1) # first) second =
     (case map_of second sh of
        None \<Rightarrow> order_bounds first second
      | Some range2 \<Rightarrow> order_range range1 range2)"

section \<open>Positions on the transaction ledger\<close>

record ledger_pos_t =
  lp_block :: block_id_t
  lp_index :: block_index_t

definition INVALID_LEDGER_POS :: ledger_pos_t where
  "INVALID_LEDGER_POS = \<lparr>lp_block = 0, lp_index = 0\<rparr>"

definition order_ledger_pos :: "ledger_pos_t \<Rightarrow> ledger_pos_t \<Rightarrow> OrderResult" where
  "order_ledger_pos first second =
     (if lp_block first < lp_block second then OlderThan
      else if lp_block first = lp_block second \<and> lp_index first < lp_index second then OlderThan
      else if first = second then Equal
      else NewerThan)"

section \<open>The order contract\<close>

text \<open>
  Event identifiers of one shard and positions on the transaction ledger are ordered by the
  same rule: first by block, then by index. The contract is stated once; its consequences hold
  for both.
\<close>

locale position_order =
  fixes ord :: "'a \<Rightarrow> 'a \<Rightarrow> OrderResult"
    and blk :: "'a \<Rightarrow> block_id_t"
    and idx :: "'a \<Rightarrow> block_index_t"
    and same_line :: "'a \<Rightarrow> 'a \<Rightarrow> bool"
  assumes line_refl: "same_line x x"
    and line_sym: "same_line x y \<Longrightarrow> same_line y x"
    and line_trans: "same_line x y \<Longrightarrow> same_line y z \<Longrightarrow> same_line x z"
    and older_iff: "same_line x y \<Longrightarrow>
          ord x y = OlderThan \<longleftrightarrow> blk x < blk y \<or> (blk x = blk y \<and> idx x < idx y)"
    and equal_iff: "same_line x y \<Longrightarrow> ord x y = Equal \<longleftrightarrow> x = y"
    and pos_unique: "same_line x y \<Longrightarrow> blk x = blk y \<Longrightarrow> idx x = idx y \<Longrightarrow> x = y"
    and ordered: "same_line x y \<Longrightarrow> ord x y \<in> {OlderThan, Equal, NewerThan}"
begin

lemma older_irrefl: "ord x x \<noteq> OlderThan"
  using equal_iff [OF line_refl [of x]] by simp

lemma older_trans:
  assumes "same_line x y" "same_line y z" "ord x y = OlderThan" "ord y z = OlderThan"
  shows "ord x z = OlderThan"
proof -
  have "same_line x z" using assms(1,2) by (rule line_trans)
  then show ?thesis using assms older_iff by fastforce
qed

lemma older_total: "same_line x y \<Longrightarrow> x = y \<or> ord x y = OlderThan \<or> ord y x = OlderThan"
  using older_iff [of x y] older_iff [of y x] pos_unique [of x y] line_sym [of x y]
  by (metis linorder_neqE)

lemma older_asym: "same_line x y \<Longrightarrow> ord x y = OlderThan \<Longrightarrow> ord y x \<noteq> OlderThan"
  using older_irrefl older_trans line_sym by blast

lemma newer_iff:
  assumes "same_line x y"
  shows "ord x y = NewerThan \<longleftrightarrow> ord y x = OlderThan"
proof (cases "x = y")
  case True
  with equal_iff [OF line_refl [of y]] show ?thesis by simp
next
  case False
  with assms have "ord x y \<in> {OlderThan, NewerThan}"
    using ordered equal_iff by blast
  with assms False show ?thesis
    using older_total older_asym by fastforce
qed

end

interpretation event: position_order order_event ev_block ev_index "\<lambda>x y. ev_shard x = ev_shard y"
proof unfold_locales
  fix x y :: event_id_t
  show "ev_shard x = ev_shard y \<Longrightarrow> ev_block x = ev_block y \<Longrightarrow> ev_index x = ev_index y \<Longrightarrow> x = y"
    by simp
qed (auto simp: order_event_def split: if_splits)

interpretation ledger_pos: position_order order_ledger_pos lp_block lp_index "\<lambda>_ _. True"
proof unfold_locales
  fix x y :: ledger_pos_t
  show "lp_block x = lp_block y \<Longrightarrow> lp_index x = lp_index y \<Longrightarrow> x = y"
    by simp
qed (auto simp: order_ledger_pos_def split: if_splits)

section \<open>Ordered sets of events\<close>

lemma event_less_other_shard: "ev_shard a \<noteq> ev_shard b \<Longrightarrow> \<not> event_less a b"
  by (simp add: event_less_def order_event_def)

lemma event_less_older:
  "event_less a b \<longleftrightarrow>
     ev_shard a = ev_shard b \<and>
     (ev_block a < ev_block b \<or> (ev_block a = ev_block b \<and> ev_index a < ev_index b))"
  by (simp add: event_less_def order_event_def)

lemma sset_insert_one_shard:
  assumes "\<And>y. y \<in> set xs \<Longrightarrow> ev_shard y = ev_shard x"
  shows "set (sset_insert event_less x xs) = insert x (set xs)"
proof (rule sset_insert_total)
  fix y assume "y \<in> set xs"
  then have "ev_shard x = ev_shard y" using assms by simp
  then show "y = x \<or> event_less x y \<or> event_less y x"
    using event.older_total [of x y] unfolding event_less_def by blast
qed

section \<open>Ranges\<close>

definition range_wf :: "event_range_t \<Rightarrow> bool" where
  "range_wf r \<longleftrightarrow> start_block r < end_block r
      \<or> (start_block r = end_block r \<and> start_index r \<le> end_index r)"

definition in_range :: "event_id_t \<Rightarrow> event_range_t \<Rightarrow> bool" where
  "in_range e r \<longleftrightarrow> \<not> event_before_range e r \<and> \<not> event_after_range e r"

lemma range_ends_in:
  assumes "range_wf r"
  shows "in_range (mk_event_id s (start_block r) (start_index r)) r"
    and "in_range (mk_event_id s (end_block r) (end_index r)) r"
  using assms
  by (auto simp: range_wf_def in_range_def event_before_range_def event_after_range_def
      mk_event_id_def)

lemma in_range_start:
  "in_range e r \<Longrightarrow> start_block r < ev_block e \<or> (start_block r = ev_block e \<and> start_index r \<le> ev_index e)"
  by (auto simp: in_range_def event_before_range_def split: if_splits)

lemma in_range_end:
  "in_range e r \<Longrightarrow> ev_block e < end_block r \<or> (ev_block e = end_block r \<and> ev_index e \<le> end_index r)"
  by (auto simp: in_range_def event_after_range_def split: if_splits)

section \<open>Properties\<close>

text \<open>
  The events of one shard are totally ordered: any two of them are equal or one is
  older, \<open>NewerThan\<close> is exactly the converse of \<open>OlderThan\<close>, being older is transitive, and
  events of different shards are reported as \<open>Unknown\<close>.
\<close>

lemma event_order_total:
  "(ev_shard a \<noteq> ev_shard b \<longrightarrow> order_event a b = Unknown) \<and>
   (ev_shard a = ev_shard b \<longrightarrow>
      (order_event a b = NewerThan \<longleftrightarrow> order_event b a = OlderThan) \<and>
      (order_event a b = Equal \<longleftrightarrow> a = b) \<and>
      (a = b \<or> order_event a b = OlderThan \<or> order_event b a = OlderThan)) \<and>
   (order_event a b = OlderThan \<longrightarrow> order_event b c = OlderThan \<longrightarrow> order_event a c = OlderThan)"
proof (intro conjI impI)
  assume "ev_shard a = ev_shard b"
  then show "order_event a b = NewerThan \<longleftrightarrow> order_event b a = OlderThan"
    and "order_event a b = Equal \<longleftrightarrow> a = b"
    and "a = b \<or> order_event a b = OlderThan \<or> order_event b a = OlderThan"
    by (rule event.newer_iff event.equal_iff event.older_total)+
next
  assume "order_event a b = OlderThan" "order_event b c = OlderThan"
  moreover from this have "ev_shard a = ev_shard b" "ev_shard b = ev_shard c"
    by (auto simp: order_event_def split: if_splits)
  ultimately show "order_event a c = OlderThan"
    by (metis event.older_trans)
qed (simp add: order_event_def)

text \<open>
  The comparison \<open>operator<\<close> on event identifiers is not a strict weak order, so it
  does not meet the requirement of \<open>std::set\<close>: a set that holds an event of one shard silently
  drops an event of any other shard, although sets over a single shard behave as sets.
\<close>

lemma event_sets_drop_other_shards:
  "\<not> strict_weak_order event_less \<and>
   (ev_shard a \<noteq> ev_shard b \<longrightarrow> sset_insert event_less b [a] = [a]) \<and>
   ((\<forall>y\<in>set xs. ev_shard y = ev_shard x) \<longrightarrow>
      set (sset_insert event_less x xs) = insert x (set xs))"
proof (intro conjI impI)
  let ?x = "mk_event_id 0 1 0" and ?y = "mk_event_id 1 1 0" and ?z = "mk_event_id 0 2 0"
  have "\<not> event_less ?x ?y \<and> \<not> event_less ?y ?x \<and> \<not> event_less ?y ?z \<and> \<not> event_less ?z ?y"
    and "event_less ?x ?z"
    by (simp_all add: event_less_older mk_event_id_def)
  then show "\<not> strict_weak_order event_less"
    unfolding strict_weak_order_def by blast
qed (auto simp: event_less_other_shard sset_insert_one_shard)

text \<open>
  Two well-formed event ranges of a shard are ordered \<open>OlderThan\<close> exactly when every
  event of the first precedes every event of the second.
\<close>

lemma order_range_older_exact:
  assumes "range_wf r1" and "range_wf r2"
  shows "order_range r1 r2 = OlderThan \<longleftrightarrow>
    (\<forall>e1 e2. ev_shard e1 = ev_shard e2 \<longrightarrow> in_range e1 r1 \<longrightarrow> in_range e2 r2 \<longrightarrow> event_less e1 e2)"
proof
  assume "order_range r1 r2 = OlderThan"
  then have "end_block r1 < start_block r2
      \<or> (end_block r1 = start_block r2 \<and> end_index r1 < start_index r2)"
    by (auto simp: order_range_def split: if_splits)
  then show "\<forall>e1 e2. ev_shard e1 = ev_shard e2 \<longrightarrow> in_range e1 r1 \<longrightarrow> in_range e2 r2 \<longrightarrow> event_less e1 e2"
    by (fastforce simp: event_less_older dest: in_range_end in_range_start)
next
  assume "\<forall>e1 e2. ev_shard e1 = ev_shard e2 \<longrightarrow> in_range e1 r1 \<longrightarrow> in_range e2 r2 \<longrightarrow> event_less e1 e2"
  then have "event_less (mk_event_id 0 (end_block r1) (end_index r1))
      (mk_event_id 0 (start_block r2) (start_index r2))"
    using range_ends_in [OF assms(1)] range_ends_in [OF assms(2)] by (simp add: mk_event_id_def)
  then show "order_range r1 r2 = OlderThan"
    by (simp add: event_less_older order_range_def mk_event_id_def)
qed

text \<open>
  The \<open>NewerThan\<close> branch of the range order compares the wrong pair of blocks
  (\<open>first.end_block == second.start_block\<close> instead of \<open>first.start_block == second.end_block\<close>):
  there are well-formed ranges of which the second is wholly older and the answer is
  \<open>Concurrent\<close>, and there are overlapping ranges for which the answer is \<open>NewerThan\<close>.
\<close>

lemma order_range_newer_wrong:
  "(\<exists>r1 r2. range_wf r1 \<and> range_wf r2 \<and> order_range r2 r1 = OlderThan \<and> order_range r1 r2 = Concurrent)
   \<and> (\<exists>r1 r2 e. range_wf r1 \<and> range_wf r2 \<and> in_range e r1 \<and> in_range e r2 \<and> order_range r1 r2 = NewerThan)"
proof (intro conjI)
  let ?r1 = "\<lparr>start_block = 5, end_block = 5, start_index = 7, end_index = 7\<rparr>"
  let ?r2 = "\<lparr>start_block = 4, end_block = 5, start_index = 0, end_index = 3\<rparr>"
  have "range_wf ?r1 \<and> range_wf ?r2 \<and> order_range ?r2 ?r1 = OlderThan \<and> order_range ?r1 ?r2 = Concurrent"
    by (simp add: range_wf_def order_range_def)
  then show "\<exists>r1 r2. range_wf r1 \<and> range_wf r2 \<and> order_range r2 r1 = OlderThan \<and> order_range r1 r2 = Concurrent"
    by blast
next
  let ?r1 = "\<lparr>start_block = 4, end_block = 5, start_index = 9, end_index = 1\<rparr>"
  let ?r2 = "\<lparr>start_block = 5, end_block = 5, start_index = 0, end_index = 3\<rparr>"
  let ?e = "mk_event_id 0 5 1"
  have "range_wf ?r1 \<and> range_wf ?r2 \<and> in_range ?e ?r1 \<and> in_range ?e ?r2 \<and> order_range ?r1 ?r2 = NewerThan"
    by (simp add: range_wf_def order_range_def in_range_def event_before_range_def
        event_after_range_def mk_event_id_def)
  then show "\<exists>r1 r2 e. range_wf r1 \<and> range_wf r2 \<and> in_range e r1 \<and> in_range e r2 \<and> order_range r1 r2 = NewerThan"
    by blast
qed

end
