(* ===== verification/Page_Store.thy ===== *)
theory Page_Store
  imports Version_Number Event_Id
begin

text \<open>
  What the users of the buffer manager see of it: numbered pages that are created, read and
  modified. The theory \<open>Buffer_Manager\<close> models the cache behind this view (pinning, dirty pages,
  eviction, the files on disk) and shows that it implements it.
\<close>

type_synonym page_no_t = u32

definition INVALID_PAGE_NO :: page_no_t where "INVALID_PAGE_NO = -1"

record 'p page_store =
  pages :: "page_no_t \<rightharpoonup> 'p"
  m_next_page_no :: page_no_t

definition get_page :: "page_no_t \<Rightarrow> 'p page_store \<Rightarrow> 'p result" where
  "get_page page_no st =
     (if page_no = INVALID_PAGE_NO then Inl (Fatal ''Got invalid page id'')
      else case pages st page_no of
             None \<Rightarrow> Inl (Fatal ''Failed to read_from_disk'')
           | Some p \<Rightarrow> Inr p)"

definition new_page :: "'p \<Rightarrow> 'p page_store \<Rightarrow> page_no_t \<times> 'p page_store" where
  "new_page p st =
     (m_next_page_no st,
      st\<lparr>pages := (pages st)(m_next_page_no st \<mapsto> p), m_next_page_no := m_next_page_no st + 1\<rparr>)"

text \<open>A modification through a page handle, followed by \<open>mark_page_dirty\<close>.\<close>

definition put_page :: "page_no_t \<Rightarrow> 'p \<Rightarrow> 'p page_store \<Rightarrow> 'p page_store" where
  "put_page page_no p st = st\<lparr>pages := (pages st)(page_no \<mapsto> p)\<rparr>"

text \<open>
  Page numbers are handed out in increasing order; the counter must stay below
  \<open>INVALID_PAGE_NO\<close> for the page it hands out to be usable.
\<close>

definition store_wf :: "'p page_store \<Rightarrow> bool" where
  "store_wf st \<longleftrightarrow> (\<forall>p\<in>dom (pages st). p < m_next_page_no st)"

definition can_allocate :: "'p page_store \<Rightarrow> bool" where
  "can_allocate st \<longleftrightarrow> m_next_page_no st < INVALID_PAGE_NO"

lemma unat_INVALID_PAGE_NO [simp]: "unat INVALID_PAGE_NO = 2 ^ 32 - 1"
  by (simp add: INVALID_PAGE_NO_def unsigned_minus_1_eq_mask mask_eq_exp_minus_1)

named_theorems store_simps "reading back from the page store"

lemma pages_put_page [simp, store_simps]: "pages (put_page p n st) = (pages st)(p \<mapsto> n)"
  by (simp add: put_page_def)

lemma next_put_page [simp, store_simps]: "m_next_page_no (put_page p n st) = m_next_page_no st"
  by (simp add: put_page_def)

lemma get_page_Inr [store_simps]:
  "get_page p st = Inr n \<longleftrightarrow> p \<noteq> INVALID_PAGE_NO \<and> pages st p = Some n"
  by (simp add: get_page_def split: option.splits)

lemma can_allocate_put_page [simp]: "can_allocate (put_page p n st) = can_allocate st"
  by (simp add: can_allocate_def)

lemma store_wf_put_page: "store_wf st \<Longrightarrow> p \<in> dom (pages st) \<Longrightarrow> store_wf (put_page p n st)"
  by (auto simp: store_wf_def)

lemma next_fresh: "store_wf st \<Longrightarrow> pages st (m_next_page_no st) = None"
  by (auto simp: store_wf_def)

lemma next_usable: "can_allocate st \<Longrightarrow> m_next_page_no st \<noteq> INVALID_PAGE_NO"
  by (auto simp: can_allocate_def)

lemma plus_one_greater: "(a::u32) < INVALID_PAGE_NO \<Longrightarrow> a < a + 1"
  unfolding INVALID_PAGE_NO_def by uint_arith

lemma page_valid: "store_wf st \<Longrightarrow> pages st p = Some n \<Longrightarrow> p \<noteq> INVALID_PAGE_NO"
  unfolding store_wf_def INVALID_PAGE_NO_def by (metis domI word_order.extremum_strict)

lemma store_wf_new_page:
  assumes "store_wf st" and "can_allocate st"
  shows "store_wf (snd (new_page n st))"
proof -
  have "m_next_page_no st < m_next_page_no st + 1"
    using assms(2) by (simp add: can_allocate_def plus_one_greater)
  with assms(1) show ?thesis
    by (auto simp: store_wf_def new_page_def intro: less_trans)
qed

end
