(* ===== verification/Abstract_Map.thy ===== *)
theory Abstract_Map
  imports Page_Store
begin

text \<open>
  The code the two paged hash tables share: \<open>src/src/enclave/AbstractMap.h\<close> (buckets, lookup of
  the node chain of a bucket, the version check that detects stale pages) and the node header of
  \<open>src/src/enclave/HashMapNode.h\<close>. The functions are executed under the lock of the bucket's
  shard and are modelled as sequential steps. A node's \<open>bitstream\<close> buffer is represented by the
  header and the sequence of the entries written to it.
\<close>

section \<open>Nodes\<close>

record ('k, 'v) node =
  n_version :: version_number
  n_successor :: page_no_t
  n_successor_version :: version_number
  n_size :: nat
  n_entries :: "('k \<times> 'v) list"

definition empty_node :: "('k, 'v) node" where
  "empty_node = \<lparr>n_version = 0, n_successor = INVALID_PAGE_NO, n_successor_version = 0,
                  n_size = 0, n_entries = []\<rparr>"

definition increment_version_no :: "('k, 'v) node \<Rightarrow> ('k, 'v) node" where
  "increment_version_no n = n\<lparr>n_version := increment (n_version n)\<rparr>"

definition increment_successor_version :: "('k, 'v) node \<Rightarrow> ('k, 'v) node" where
  "increment_successor_version n = n\<lparr>n_successor_version := increment (n_successor_version n)\<rparr>"

definition set_successor :: "page_no_t \<Rightarrow> ('k, 'v) node \<Rightarrow> ('k, 'v) node" where
  "set_successor succ n = n\<lparr>n_successor := succ\<rparr>"

section \<open>Buckets\<close>

definition NUM_BUCKETS :: nat where "NUM_BUCKETS = 8192"

record bucket_t =
  b_page_no :: page_no_t
  b_version :: version_number

record abstract_map =
  m_size :: u64
  m_buckets :: "nat \<Rightarrow> bucket_t"

definition empty_map :: abstract_map where
  "empty_map = \<lparr>m_size = 0, m_buckets = (\<lambda>_. \<lparr>b_page_no = INVALID_PAGE_NO, b_version = 0\<rparr>)\<rparr>"

definition to_bucket :: "('k \<Rightarrow> u64) \<Rightarrow> 'k \<Rightarrow> nat" where
  "to_bucket hash key = unat (hash key) mod NUM_BUCKETS"

definition set_bucket :: "nat \<Rightarrow> bucket_t \<Rightarrow> abstract_map \<Rightarrow> abstract_map" where
  "set_bucket bid b m = m\<lparr>m_buckets := (m_buckets m)(bid := b)\<rparr>"

text \<open>The bucket array as it is written to and read from a downstream server.\<close>

definition serialize_root :: "abstract_map \<Rightarrow> bucket_t list" where
  "serialize_root m = map (m_buckets m) [0..<NUM_BUCKETS]"

definition load_root :: "bucket_t list \<Rightarrow> abstract_map \<Rightarrow> abstract_map" where
  "load_root bs m = m\<lparr>m_buckets := (\<lambda>b. if b < length bs then bs ! b else m_buckets m b)\<rparr>"

section \<open>Following references between pages\<close>

text \<open>
  A page handle is a page number, or \<open>None\<close> for the empty handle. On a downstream server, whose disk
  is remote, the page is fetched until it has the expected version: \<open>remote_get_node\<close> takes the
  contents of the page that successive reads find, and returns what the loop does between the reads
  and the page it returns, if the expected version has arrived.
\<close>

datatype remote_action = ReloadPage | WaitForUpdate

fun remote_get_node ::
  "version_number \<Rightarrow> ('k, 'v) node list \<Rightarrow> remote_action list \<times> ('k, 'v) node option" where
  "remote_get_node expected_version [] = ([], None)"
| "remote_get_node expected_version (node # later) =
     (if version_less (n_version node) expected_version
      then (case remote_get_node expected_version later of (as, r) \<Rightarrow> (ReloadPage # as, r))
      else if n_version node = expected_version then ([], Some node)
      else (case remote_get_node expected_version later of (as, r) \<Rightarrow> (WaitForUpdate # as, r)))"

definition get_node_internal ::
  "page_no_t \<Rightarrow> version_number \<Rightarrow> bool \<Rightarrow> ('k, 'v) node page_store
    \<Rightarrow> (page_no_t option \<times> ('k, 'v) node page_store) result" where
  "get_node_internal page_no expected_version create st =
     (if page_no = INVALID_PAGE_NO
      then (if create then (case new_page empty_node st of (p, st') \<Rightarrow> Inr (Some p, st'))
            else Inr (None, st))
      else rbind (get_page page_no st) (\<lambda>node.
             if n_version node = expected_version then Inr (Some page_no, st)
             else Inl StalenessDetected))"

definition get_successor ::
  "page_no_t \<Rightarrow> bool \<Rightarrow> bool \<Rightarrow> ('k, 'v) node page_store
    \<Rightarrow> (page_no_t option \<times> ('k, 'v) node page_store) result" where
  "get_successor prev create modify st =
     rbind (get_page prev st) (\<lambda>pn.
       let succ = n_successor pn;
           will_modify = (create \<or> (modify \<and> succ \<noteq> INVALID_PAGE_NO));
           st1 = (if will_modify then put_page prev (increment_version_no pn) st else st)
       in rbind (get_node_internal succ (n_successor_version pn) create st1) (\<lambda>(node, st2).
            if will_modify
            then (case node of
                    None \<Rightarrow> Inl (RuntimeError ''Invalid state!'')
                  | Some q \<Rightarrow> rbind (get_page prev st2) (\<lambda>pn2.
                      Inr (Some q, put_page prev (increment_successor_version (set_successor q pn2)) st2)))
            else Inr (node, st2)))"

definition get_node ::
  "nat \<Rightarrow> bool \<Rightarrow> bool \<Rightarrow> abstract_map \<Rightarrow> ('k, 'v) node page_store
    \<Rightarrow> (page_no_t option \<times> abstract_map \<times> ('k, 'v) node page_store) result" where
  "get_node bid create modify m st =
     (let bucket = m_buckets m bid;
          will_modify = (create \<or> (modify \<and> b_page_no bucket \<noteq> INVALID_PAGE_NO))
      in rbind (get_node_internal (b_page_no bucket) (b_version bucket) create st) (\<lambda>(node, st1).
           if will_modify
           then (case node of
                   None \<Rightarrow> Inl (Fatal ''empty page handle'')
                 | Some q \<Rightarrow>
                     Inr (Some q,
                          set_bucket bid \<lparr>b_page_no = q, b_version = increment (b_version bucket)\<rparr> m,
                          st1))
           else Inr (node, m, st1)))"

text \<open>\<open>apply_changes\<close> on a downstream server: install a newer bucket, ignore an outdated one.\<close>

definition apply_changes :: "nat \<Rightarrow> bucket_t \<Rightarrow> abstract_map \<Rightarrow> abstract_map" where
  "apply_changes bid new_val m =
     (if version_less (b_version new_val) (b_version (m_buckets m bid)) then m
      else set_bucket bid new_val m)"

lemma load_serialize_root:
  "b < NUM_BUCKETS \<Longrightarrow> m_buckets (load_root (serialize_root m) m') b = m_buckets m b"
  by (simp add: load_root_def serialize_root_def)

lemma remote_get_node_version:
  "snd (remote_get_node v ns) = Some n \<Longrightarrow> n_version n = v \<and> n \<in> set ns"
  by (induction v ns rule: remote_get_node.induct) (auto split: if_splits prod.splits)

lemma version_less_irrefl: "\<not> version_less v v"
  by (simp add: version_less_def)

lemma remote_get_node_arrives:
  "n \<in> set ns \<Longrightarrow> n_version n = v \<Longrightarrow> \<exists>n'. snd (remote_get_node v ns) = Some n'"
  by (induction ns) (auto simp: version_less_irrefl split: prod.splits)

section \<open>Chains of nodes\<close>

text \<open>
  \<open>chain st p v qs\<close>: the reference to page \<open>p\<close> with expected version \<open>v\<close> leads through exactly the
  pages \<open>qs\<close>, and at every link the expected version is the version of the page.
\<close>

fun chain :: "('k, 'v) node page_store \<Rightarrow> page_no_t \<Rightarrow> version_number \<Rightarrow> page_no_t list \<Rightarrow> bool" where
  "chain st p v [] \<longleftrightarrow> p = INVALID_PAGE_NO \<and> v = 0"
| "chain st p v (q # qs) \<longleftrightarrow>
     p = q \<and> q \<noteq> INVALID_PAGE_NO \<and>
     (case pages st q of
        None \<Rightarrow> False
      | Some n \<Rightarrow> n_version n = v \<and> chain st (n_successor n) (n_successor_version n) qs)"

definition node_at :: "('k, 'v) node page_store \<Rightarrow> page_no_t \<Rightarrow> ('k, 'v) node" where
  "node_at st q = the (pages st q)"

definition chain_entries :: "('k, 'v) node page_store \<Rightarrow> page_no_t list \<Rightarrow> ('k \<times> 'v) list" where
  "chain_entries st qs = concat (map (\<lambda>q. n_entries (node_at st q)) qs)"

lemma node_at_simps [simp]:
  "node_at (put_page p n st) q = (if q = p then n else node_at st q)"
  "pages st q = Some n \<Longrightarrow> node_at st q = n"
  by (simp_all add: node_at_def)

lemma chain_entries_simps [simp]:
  "chain_entries st [] = []"
  "chain_entries st (q # qs) = n_entries (node_at st q) @ chain_entries st qs"
  by (simp_all add: chain_entries_def)

lemma chain_entries_append [simp]:
  "chain_entries st (qs @ rs) = chain_entries st qs @ chain_entries st rs"
  by (simp add: chain_entries_def)

lemma chain_cong:
  "(\<And>q. q \<in> set qs \<Longrightarrow> pages st' q = pages st q) \<Longrightarrow> chain st' p v qs = chain st p v qs"
  by (induction qs arbitrary: p v) (auto split: option.splits)

lemma chain_entries_cong:
  "(\<And>q. q \<in> set qs \<Longrightarrow> pages st' q = pages st q) \<Longrightarrow> chain_entries st' qs = chain_entries st qs"
  by (induction qs) (auto simp: node_at_def)

lemma chain_pages: "chain st p v qs \<Longrightarrow> q \<in> set qs \<Longrightarrow> \<exists>n. pages st q = Some n"
  by (induction qs arbitrary: p v) (auto split: option.splits)

lemma chain_valid: "chain st p v qs \<Longrightarrow> q \<in> set qs \<Longrightarrow> q \<noteq> INVALID_PAGE_NO"
  by (induction qs arbitrary: p v) (auto split: option.splits)

lemma chain_next: "store_wf st \<Longrightarrow> chain st p v qs \<Longrightarrow> m_next_page_no st \<notin> set qs"
  using chain_pages next_fresh by fastforce

lemma chain_unique: "chain st p v qs \<Longrightarrow> chain st p v rs \<Longrightarrow> qs = rs"
proof (induction qs arbitrary: p v rs)
  case Nil
  then show ?case by (cases rs) auto
next
  case (Cons q qs)
  then show ?case by (cases rs) (auto split: option.splits)
qed

lemma empty_node_simps [simp]:
  "n_version empty_node = 0" "n_successor empty_node = INVALID_PAGE_NO"
  "n_successor_version empty_node = 0" "n_size empty_node = 0" "n_entries empty_node = []"
  by (simp_all add: empty_node_def)

section \<open>Following a chain\<close>

lemma get_node_internal_chain:
  "chain st p v qs \<Longrightarrow>
   get_node_internal p v False st = Inr (case qs of [] \<Rightarrow> None | q # _ \<Rightarrow> Some q, st)"
  by (cases qs) (auto simp: get_node_internal_def get_page_def split: option.splits)

lemma get_node_internal_stale:
  "p \<noteq> INVALID_PAGE_NO \<Longrightarrow> pages st p = Some n \<Longrightarrow> n_version n \<noteq> v \<Longrightarrow>
   get_node_internal p v create st = Inl StalenessDetected"
  by (simp add: get_node_internal_def get_page_def)

lemma get_successor_read:
  assumes "pages st q = Some n" and "q \<noteq> INVALID_PAGE_NO"
    and "chain st (n_successor n) (n_successor_version n) qs"
  shows "get_successor q False False st = Inr (case qs of [] \<Rightarrow> None | r # _ \<Rightarrow> Some r, st)"
  using assms by (simp add: get_successor_def get_page_def get_node_internal_chain)

text \<open>The node a modifying step leaves behind when it moves on to page \<open>r\<close>.\<close>

definition linked_node :: "page_no_t \<Rightarrow> ('k, 'v) node \<Rightarrow> ('k, 'v) node" where
  "linked_node r n = n\<lparr>n_version := increment (n_version n), n_successor := r,
                         n_successor_version := increment (n_successor_version n)\<rparr>"

lemma linked_node_simps [simp]:
  "n_version (linked_node r n) = increment (n_version n)"
  "n_successor (linked_node r n) = r"
  "n_successor_version (linked_node r n) = increment (n_successor_version n)"
  "n_size (linked_node r n) = n_size n"
  "n_entries (linked_node r n) = n_entries n"
  by (simp_all add: linked_node_def)

lemma linked_node_eq:
  "increment_successor_version (set_successor r (increment_version_no n)) = linked_node r n"
  by (simp add: linked_node_def increment_successor_version_def set_successor_def
      increment_version_no_def)

lemma get_successor_modify:
  assumes "pages st q = Some n" and "q \<noteq> INVALID_PAGE_NO" and "r \<noteq> q"
    and "chain st (n_successor n) (n_successor_version n) (r # rs)" and "create \<or> modify"
  shows "get_successor q create modify st = Inr (Some r, put_page q (linked_node r n) st)"
  using assms
  by (auto simp: get_successor_def get_page_def get_node_internal_def linked_node_eq Let_def
      put_page_def split: option.splits)

lemma get_successor_create:
  assumes "pages st q = Some n" and "q \<noteq> INVALID_PAGE_NO" and "q \<noteq> m_next_page_no st"
    and "n_successor n = INVALID_PAGE_NO"
  shows "get_successor q True modify st =
    Inr (Some (m_next_page_no st),
         put_page q (linked_node (m_next_page_no st) n) (snd (new_page empty_node st)))"
  using assms
  by (auto simp: get_successor_def get_page_def get_node_internal_def linked_node_eq Let_def
      put_page_def new_page_def fun_upd_twist)

lemma get_successor_end:
  assumes "pages st q = Some n" and "q \<noteq> INVALID_PAGE_NO" and "n_successor n = INVALID_PAGE_NO"
  shows "get_successor q False modify st = Inr (None, st)"
  using assms by (simp add: get_successor_def get_page_def get_node_internal_def)

lemma get_node_read:
  "chain st (b_page_no (m_buckets m b)) (b_version (m_buckets m b)) qs \<Longrightarrow>
   get_node b False False m st = Inr (case qs of [] \<Rightarrow> None | q # _ \<Rightarrow> Some q, m, st)"
  by (simp add: get_node_def get_node_internal_chain)

lemma get_node_modify:
  assumes "chain st (b_page_no (m_buckets m b)) (b_version (m_buckets m b)) (q # qs)"
    and "create \<or> modify"
  shows "get_node b create modify m st =
    Inr (Some q, set_bucket b \<lparr>b_page_no = q, b_version = increment (b_version (m_buckets m b))\<rparr> m, st)"
  using assms by (auto simp: get_node_def get_node_internal_def get_page_def split: option.splits)

lemma get_node_create:
  assumes "b_page_no (m_buckets m b) = INVALID_PAGE_NO"
  shows "get_node b True modify m st =
    Inr (Some (m_next_page_no st),
         set_bucket b \<lparr>b_page_no = m_next_page_no st, b_version = increment (b_version (m_buckets m b))\<rparr> m,
         snd (new_page empty_node st))"
  using assms by (simp add: get_node_def get_node_internal_def new_page_def)

end
