(* ===== verification/Murmur_Hash.thy ===== *)
theory Murmur_Hash
  imports Event_Id
begin

unbundle bit_operations_syntax

text \<open>
  The hash function behind bucket and shard selection: \<open>MurmurHash64A\<close> of
  \<open>src/src/common/util/MurmurHash2.cpp\<close>, its wrappers in \<open>src/src/common/util/hash.h\<close>, and
  \<open>Ledger::get_shard\<close>. The code reads the buffer as little-endian 64-bit words.
\<close>

section \<open>Model\<close>

definition murmur_m :: u64 where "murmur_m = 0xc6a4a7935bd1e995"

definition murmur_r :: nat where "murmur_r = 47"

definition le64 :: "u8 list \<Rightarrow> u64" where
  "le64 bs = foldr (\<lambda>b acc. ucast b OR push_bit 8 acc) bs 0"

definition murmur_mix :: "u64 \<Rightarrow> u64 \<Rightarrow> u64" where
  "murmur_mix h k0 =
     (let k1 = k0 * murmur_m;
          k2 = k1 XOR drop_bit murmur_r k1;
          k3 = k2 * murmur_m
      in (h XOR k3) * murmur_m)"

text \<open>The main loop consumes whole 8-byte words and leaves the tail.\<close>

fun murmur_loop :: "u8 list \<Rightarrow> u64 \<Rightarrow> u64 \<times> u8 list" where
  "murmur_loop (b0 # b1 # b2 # b3 # b4 # b5 # b6 # b7 # rest) h =
     murmur_loop rest (murmur_mix h (le64 [b0, b1, b2, b3, b4, b5, b6, b7]))"
| "murmur_loop tail h = (h, tail)"

text \<open>The \<open>switch\<close> on the tail length with its fall-through cases.\<close>

fun murmur_switch :: "nat \<Rightarrow> u8 list \<Rightarrow> u64 \<Rightarrow> u64" where
  "murmur_switch 0 data2 h = h"
| "murmur_switch (Suc n) data2 h =
     (let h' = h XOR push_bit (8 * n) (ucast (data2 ! n))
      in if n = 0 then h' * murmur_m else murmur_switch n data2 h')"

definition MurmurHash64A :: "u8 list \<Rightarrow> u64 \<Rightarrow> u64" where
  "MurmurHash64A key seed =
     (let h0 = seed XOR (word_of_nat (length key) * murmur_m);
          (h1, data2) = murmur_loop key h0;
          h2 = murmur_switch (length key mod 8) data2 h1;
          h3 = h2 XOR drop_bit murmur_r h2;
          h4 = h3 * murmur_m
      in h4 XOR drop_bit murmur_r h4)"

definition hash_buffer :: "u8 list \<Rightarrow> u64" where
  "hash_buffer array = MurmurHash64A array 0x4126f4492047c28f"

definition string_bytes :: "string \<Rightarrow> u8 list" where
  "string_bytes s = map of_char s"

definition hash_string :: "string \<Rightarrow> u64" where
  "hash_string str = hash_buffer (string_bytes str)"

text \<open>\<open>hash<int64_t>\<close> hashes the eight bytes of the value as they lie in memory.\<close>

definition int64_bytes :: "u64 \<Rightarrow> u8 list" where
  "int64_bytes x = map (\<lambda>i. ucast (drop_bit (8 * i) x)) [0..<8]"

definition hash_int64 :: "u64 \<Rightarrow> u64" where
  "hash_int64 x = hash_buffer (int64_bytes x)"

definition NUM_SHARDS :: nat where "NUM_SHARDS = 64"

definition get_shard :: "string \<Rightarrow> string \<Rightarrow> shard_id_t" where
  "get_shard collection key =
     (ucast (hash_string (collection @ ''/'' @ key)) :: u16) mod word_of_nat NUM_SHARDS"

section \<open>Lemmas\<close>


lemma le64_Nil [simp]: "le64 [] = 0"
  by (simp add: le64_def)

lemma le64_Cons [simp]: "le64 (b # bs) = ucast b OR push_bit 8 (le64 bs)"
  by (simp add: le64_def)

lemma le64_append: "le64 (bs @ [b]) = le64 bs OR push_bit (8 * length bs) (ucast b)"
  by (induction bs) (simp_all add: push_bit_or or.assoc add.commute)

lemma bit_le64: "bit (le64 bs) n \<Longrightarrow> n < 8 * length bs"
proof (induction bs arbitrary: n)
  case (Cons b bs)
  from Cons.prems consider "bit (ucast b :: u64) n" | "bit (push_bit 8 (le64 bs)) n"
    by (auto simp: bit_or_iff)
  then show ?case
  proof cases
    case 1
    then have "n < 8" by (auto simp: bit_ucast_iff dest: bit_imp_le_length)
    then show ?thesis by simp
  next
    case 2
    then have "8 \<le> n" "bit (le64 bs) (n - 8)" by (simp_all add: bit_push_bit_iff)
    with Cons.IH [of "n - 8"] show ?thesis by simp
  qed
qed simp

lemma le64_snoc_xor: "le64 (bs @ [b]) = push_bit (8 * length bs) (ucast b) XOR le64 bs"
  unfolding le64_append
  by (rule bit_word_eqI) (auto simp: bit_or_iff bit_xor_iff bit_push_bit_iff dest: bit_le64)

lemma murmur_switch_le64:
  "n \<le> length d \<Longrightarrow> murmur_switch n d h = (if n = 0 then h else (h XOR le64 (take n d)) * murmur_m)"
proof (induction n arbitrary: h)
  case (Suc n)
  then have "take (Suc n) d = take n d @ [d ! n]" and len: "length (take n d) = n"
    by (simp_all add: take_Suc_conv_app_nth)
  then have "le64 (take (Suc n) d) = push_bit (8 * n) (ucast (d ! n)) XOR le64 (take n d)"
    by (simp add: le64_snoc_xor)
  with Suc show ?case
    by (simp add: Let_def xor.assoc)
qed simp

lemma length_murmur_loop: "length (snd (murmur_loop bs h)) = length bs mod 8"
  by (induction bs h rule: murmur_loop.induct) simp_all

lemma unat_NUM_SHARDS [simp]: "unat (word_of_nat NUM_SHARDS :: u16) = 64"
  by (simp add: NUM_SHARDS_def)

lemma unat_get_shard: "unat (get_shard c k) = unat (hash_string (c @ ''/'' @ k)) mod 64"
proof -
  have "unat (get_shard c k) = unat (ucast (hash_string (c @ ''/'' @ k)) :: u16) mod 64"
    by (simp add: get_shard_def unat_mod)
  also have "\<dots> = unat (hash_string (c @ ''/'' @ k)) mod 2 ^ 16 mod 64"
    by (simp add: unsigned_ucast_eq take_bit_eq_mod)
  finally show ?thesis by (simp add: mod_mod_cancel)
qed

section \<open>Properties\<close>

text \<open>
  \<open>MurmurHash64A\<close> handles the 0 to 7 bytes after the last whole word as one
  zero-padded little-endian word: the fall-through \<open>switch\<close> is the same as one exclusive-or
  followed by one multiplication, which is skipped when there is no tail.
\<close>

lemma murmur_tail_word:
  "murmur_switch (length key mod 8) (snd (murmur_loop key h0)) h =
     (if length key mod 8 = 0 then h
      else (h XOR le64 (snd (murmur_loop key h0))) * murmur_m)"
  using length_murmur_loop [of key h0]
    murmur_switch_le64 [of "length key mod 8" "snd (murmur_loop key h0)" h]
  by (metis order_refl take_all)

text \<open>
  Every object is assigned one of the 64 shards, and although the 64-bit hash is
  cut to 16 bits before it is reduced, the shard is the full hash modulo 64.
\<close>

lemma get_shard_in_range:
  "unat (get_shard collection key) < NUM_SHARDS \<and>
   unat (get_shard collection key) = unat (hash_string (collection @ ''/'' @ key)) mod NUM_SHARDS"
  by (simp add: unat_get_shard NUM_SHARDS_def)

text \<open>The rules that evaluate a hash value on a literal.\<close>

lemma murmur_switch_numeral:
  "murmur_switch (numeral w) data2 h =
     (let n = pred_numeral w; h' = h XOR push_bit (8 * n) (ucast (data2 ! n))
      in if n = 0 then h' * murmur_m else murmur_switch n data2 h')"
  by (simp add: numeral_eq_Suc Let_def)

lemmas murmur_eval = murmur_switch_numeral hash_string_def string_bytes_def of_char_def hash_buffer_def MurmurHash64A_def
  murmur_m_def murmur_r_def

end
