(* ===== verification/Hash_Map.thy ===== *)
theory Hash_Map
  imports Abstract_Map Murmur_Hash "HOL-Library.Multiset"
begin

text \<open>
  The paged hash table that maps object keys to the identifier of their latest event, the primary
  index of a collection: \<open>src/src/enclave/HashMap.cpp\<close> and the entry operations of
  \<open>src/src/enclave/HashMapNode.h\<close>. The size in bytes of a node is a parameter \<open>bs\<close> of the model
  (it depends on the serialisation of the external \<open>bitstream\<close> library); \<open>node_layout\<close> states what
  the code relies on.
\<close>

section \<open>Nodes\<close>

type_synonym hm_node = "(string, event_id_t) node"
type_synonym hm_entries = "(string \<times> event_id_t) list"
type_synonym hm_store = "hm_node page_store"

definition MAX_NODE_SIZE :: nat where "MAX_NODE_SIZE = 1024"

definition node_layout :: "(('k \<times> 'v) list \<Rightarrow> nat) \<Rightarrow> bool" where
  "node_layout bs \<longleftrightarrow>
     bs [] < MAX_NODE_SIZE \<and>
     (\<forall>es es'. map fst es = map fst es' \<longrightarrow> bs es = bs es')"

fun hnode_get :: "'k \<Rightarrow> ('k \<times> 'v) list \<Rightarrow> 'v option" where
  "hnode_get key [] = None"
| "hnode_get key ((k, v) # es) = (if key = k then Some v else hnode_get key es)"

fun hnode_has_entry :: "'k \<Rightarrow> 'v \<Rightarrow> ('k \<times> 'v) list \<Rightarrow> bool" where
  "hnode_has_entry key value [] = False"
| "hnode_has_entry key value ((k, v) # es) =
     (if key = k \<and> value = v then True else hnode_has_entry key value es)"

definition hnode_get_at :: "nat \<Rightarrow> ('k, 'v) node \<Rightarrow> ('k \<times> 'v) result" where
  "hnode_get_at pos n =
     (if pos < length (n_entries n) then Inr (n_entries n ! pos)
      else Inl (RuntimeError ''HashMapNode::get falied: Out of bounds!''))"

text \<open>The scan of \<open>insert\<close>: overwrite the value of every entry with the key.\<close>

fun update_entries :: "'k \<Rightarrow> 'v \<Rightarrow> ('k \<times> 'v) list \<Rightarrow> bool \<times> ('k \<times> 'v) list" where
  "update_entries key value [] = (False, [])"
| "update_entries key value ((k, v) # es) =
     (case update_entries key value es of (updated, es') \<Rightarrow>
        if key = k then (True, (k, value) # es') else (updated, (k, v) # es'))"

definition hnode_insert ::
  "(('k \<times> 'v) list \<Rightarrow> nat) \<Rightarrow> 'k \<Rightarrow> 'v \<Rightarrow> ('k, 'v) node \<Rightarrow> bool \<times> ('k, 'v) node" where
  "hnode_insert bs key value n =
     (case update_entries key value (n_entries n) of (updated, es) \<Rightarrow>
        if updated \<or> bs es < MAX_NODE_SIZE
        then (True,
              n\<lparr>n_entries := (if updated then es else es @ [(key, value)]),
                 n_size := (if updated then n_size n else n_size n + 1),
                 n_version := increment (n_version n)\<rparr>)
        else (False, n))"

section \<open>The table\<close>

partial_function (option) hm_insert_loop ::
  "(hm_entries \<Rightarrow> nat) \<Rightarrow> string \<Rightarrow> event_id_t \<Rightarrow> page_no_t \<Rightarrow> hm_store \<Rightarrow> hm_store result option" where
  "hm_insert_loop bs key value q st =
     (case get_page q st of
        Inl e \<Rightarrow> Some (Inl e)
      | Inr n \<Rightarrow>
         (case hnode_insert bs key value n of (done, n') \<Rightarrow>
            if done then Some (Inr (put_page q n' st))
            else
              (case get_successor q True False (put_page q n' st) of
                 Inl e \<Rightarrow> Some (Inl e)
               | Inr res \<Rightarrow>
                  (case fst res of
                     None \<Rightarrow> Some (Inl (Fatal ''empty page handle''))
                   | Some r \<Rightarrow> hm_insert_loop bs key value r (snd res)))))"

definition hm_insert ::
  "(hm_entries \<Rightarrow> nat) \<Rightarrow> string \<Rightarrow> event_id_t \<Rightarrow> abstract_map \<Rightarrow> hm_store
    \<Rightarrow> (abstract_map \<times> hm_store) result option" where
  "hm_insert bs key value m st =
     (case get_node (to_bucket hash_string key) True False m st of
        Inl e \<Rightarrow> Some (Inl e)
      | Inr (None, _) \<Rightarrow> Some (Inl (Fatal ''empty page handle''))
      | Inr (Some q, m1, st1) \<Rightarrow>
         (case hm_insert_loop bs key value q st1 of
            None \<Rightarrow> None
          | Some (Inl e) \<Rightarrow> Some (Inl e)
          | Some (Inr st2) \<Rightarrow> Some (Inr (m1\<lparr>m_size := m_size m1 + 1\<rparr>, st2))))"

text \<open>What \<open>insert\<close> and \<open>set_value\<close> write to \<open>out_changes\<close> for the downstream servers.\<close>

definition hm_changes :: "nat \<Rightarrow> abstract_map \<Rightarrow> nat \<times> bucket_t" where
  "hm_changes bid m = (bid, m_buckets m bid)"

partial_function (option) hm_get_loop ::
  "string \<Rightarrow> page_no_t option \<Rightarrow> hm_store \<Rightarrow> event_id_t option result option" where
  "hm_get_loop key node st =
     (case node of
        None \<Rightarrow> Some (Inr None)
      | Some q \<Rightarrow>
         (case get_page q st of
            Inl e \<Rightarrow> Some (Inl e)
          | Inr n \<Rightarrow>
             (case hnode_get key (n_entries n) of
                Some v \<Rightarrow> Some (Inr (Some v))
              | None \<Rightarrow>
                 (case get_successor q False False st of
                    Inl e \<Rightarrow> Some (Inl e)
                  | Inr res \<Rightarrow> hm_get_loop key (fst res) (snd res)))))"

definition hm_get :: "string \<Rightarrow> abstract_map \<Rightarrow> hm_store \<Rightarrow> event_id_t option result option" where
  "hm_get key m st =
     (case get_node (to_bucket hash_string key) False False m st of
        Inl e \<Rightarrow> Some (Inl e)
      | Inr (node, m1, st1) \<Rightarrow> hm_get_loop key node st1)"

section \<open>Entry lists\<close>

definition al_update :: "'k \<Rightarrow> 'v \<Rightarrow> ('k \<times> 'v) list \<Rightarrow> ('k \<times> 'v) list" where
  "al_update k v es = map (\<lambda>(k', v'). (k', if k' = k then v else v')) es"

definition al_put :: "'k \<Rightarrow> 'v \<Rightarrow> ('k \<times> 'v) list \<Rightarrow> ('k \<times> 'v) list" where
  "al_put k v es = (if k \<in> fst ` set es then al_update k v es else es @ [(k, v)])"

lemma hnode_get_map_of: "hnode_get k es = map_of es k"
  by (induction k es rule: hnode_get.induct) auto

lemma hnode_has_entry_iff: "hnode_has_entry k v es \<longleftrightarrow> (k, v) \<in> set es"
  by (induction k v es rule: hnode_has_entry.induct) auto

lemma al_update_simps [simp]:
  "al_update k v [] = []"
  "al_update k v ((k', v') # es) = (k', if k' = k then v else v') # al_update k v es"
  "al_update k v (es @ fs) = al_update k v es @ al_update k v fs"
  by (simp_all add: al_update_def)

lemma update_entries_eq: "update_entries k v es = (k \<in> fst ` set es, al_update k v es)"
  by (induction k v es rule: update_entries.induct) (auto simp: image_iff)

lemma map_fst_al_update [simp]: "map fst (al_update k v es) = map fst es"
  by (induction es) auto

lemma al_update_Nil_iff [simp]: "al_update k v es = [] \<longleftrightarrow> es = []"
  by (simp add: al_update_def)

lemma length_al_update [simp]: "length (al_update k v es) = length es"
  by (simp add: al_update_def)

lemma img_fst: "(a, b) \<in> S \<Longrightarrow> a \<in> fst ` S"
  by force

lemma al_update_absent: "k \<notin> fst ` set es \<Longrightarrow> al_update k v es = es"
  by (induction es) auto

lemma map_of_al_update:
  "map_of (al_update k v es) x = (if x = k then (if k \<in> fst ` set es then Some v else None) else map_of es x)"
  by (induction es) (auto intro: img_fst)

lemma al_put_append_left:
  assumes "k \<in> fst ` set es" and "distinct (map fst (es @ fs))"
  shows "al_put k v (es @ fs) = al_update k v es @ fs"
proof -
  have "k \<notin> fst ` set fs" using assms by auto
  with assms(1) show ?thesis by (simp add: al_put_def al_update_absent image_Un)
qed

lemma al_put_append_right:
  "k \<notin> fst ` set es \<Longrightarrow> al_put k v (es @ fs) = es @ al_put k v fs"
  by (auto simp: al_put_def al_update_absent)

lemma map_fst_al_put:
  "map fst (al_put k v es) = (if k \<in> fst ` set es then map fst es else map fst es @ [k])"
  by (simp add: al_put_def)

lemma map_of_snoc: "k \<notin> fst ` set es \<Longrightarrow> map_of (es @ [(k, v)]) = (map_of es)(k \<mapsto> v)"
  by (induction es) (auto simp: fun_eq_iff)

lemma map_of_al_put: "map_of (al_put k v es) = (map_of es)(k \<mapsto> v)"
proof (cases "k \<in> fst ` set es")
  case True
  then show ?thesis by (auto simp: al_put_def map_of_al_update fun_eq_iff)
next
  case False
  then show ?thesis by (simp add: al_put_def map_of_snoc del: map_of_append)
qed

lemma distinct_al_put: "distinct (map fst es) \<Longrightarrow> distinct (map fst (al_put k v es))"
  by (auto simp: map_fst_al_put)

section \<open>Insertion into a chain\<close>

definition full_prefix :: "(('k \<times> 'v) list \<Rightarrow> nat) \<Rightarrow> ('k, 'v) node page_store \<Rightarrow> page_no_t list \<Rightarrow> bool" where
  "full_prefix bs st qs \<longleftrightarrow> (\<forall>q\<in>set (butlast qs). MAX_NODE_SIZE \<le> bs (n_entries (node_at st q)))"

definition node_ok :: "('k, 'v) node \<Rightarrow> bool" where
  "node_ok n \<longleftrightarrow> n_size n = length (n_entries n) \<and> n_entries n \<noteq> []"

text \<open>Pages that an operation may have changed: those listed, and pages created by it.\<close>

definition unchanged_outside ::
  "page_no_t set \<Rightarrow> 'p page_store \<Rightarrow> 'p page_store \<Rightarrow> bool" where
  "unchanged_outside P st st' \<longleftrightarrow>
     (\<forall>p. p \<notin> P \<longrightarrow> p < m_next_page_no st \<longrightarrow> pages st' p = pages st p) \<and>
     m_next_page_no st \<le> m_next_page_no st' \<and>
     m_next_page_no st' \<in> {m_next_page_no st, m_next_page_no st + 1}"

lemma node_layout_empty: "node_layout bs \<Longrightarrow> bs [] < MAX_NODE_SIZE"
  unfolding node_layout_def by blast

lemma node_layout_keys: "node_layout bs \<Longrightarrow> map fst es = map fst es' \<Longrightarrow> bs es = bs es'"
  unfolding node_layout_def by blast

lemma hnode_insert_full:
  "k \<notin> fst ` set (n_entries n) \<Longrightarrow> MAX_NODE_SIZE \<le> bs (n_entries n) \<Longrightarrow> hnode_insert bs k v n = (False, n)"
  by (simp add: hnode_insert_def update_entries_eq al_update_absent)

lemma hnode_insert_room:
  assumes "k \<in> fst ` set (n_entries n) \<or> bs (n_entries n) < MAX_NODE_SIZE"
  shows "hnode_insert bs k v n =
     (True, n\<lparr>n_entries := al_put k v (n_entries n),
              n_size := (if k \<in> fst ` set (n_entries n) then n_size n else n_size n + 1),
              n_version := increment (n_version n)\<rparr>)"
proof (cases "k \<in> fst ` set (n_entries n)")
  case True
  then show ?thesis by (simp add: hnode_insert_def update_entries_eq al_put_def)
next
  case False
  with assms show ?thesis
    by (simp add: hnode_insert_def update_entries_eq al_put_def al_update_absent)
qed

lemma hm_insert_loop_done:
  assumes "pages st q = Some n" and "q \<noteq> INVALID_PAGE_NO"
    and "k \<in> fst ` set (n_entries n) \<or> bs (n_entries n) < MAX_NODE_SIZE"
  shows "hm_insert_loop bs k v q st =
    Some (Inr (put_page q (snd (hnode_insert bs k v n)) st))"
  using assms
  by (subst hm_insert_loop.simps) (simp add: get_page_def hnode_insert_room)

lemma hm_insert_loop_step:
  assumes "pages st q = Some n" and "q \<noteq> INVALID_PAGE_NO"
    and "k \<notin> fst ` set (n_entries n)" and "MAX_NODE_SIZE \<le> bs (n_entries n)"
    and "get_successor q True False st = Inr (Some r, st')"
  shows "hm_insert_loop bs k v q st = hm_insert_loop bs k v r st'"
proof -
  have "put_page q n st = st"
    using assms(1) by (simp add: put_page_def fun_upd_idem)
  with assms show ?thesis
    by (subst hm_insert_loop.simps) (simp add: get_page_def hnode_insert_full)
qed

text \<open>
  The effect of an insertion on a chain, as a relation between the state before and after.
\<close>

definition chain_inserted ::
  "(hm_entries \<Rightarrow> nat) \<Rightarrow> string \<Rightarrow> event_id_t \<Rightarrow> page_no_t \<Rightarrow> page_no_t list \<Rightarrow> hm_store \<Rightarrow> hm_store \<Rightarrow> page_no_t list \<Rightarrow> bool" where
  "chain_inserted bs k v q qs st st' qs' \<longleftrightarrow>
     chain st' q (increment (n_version (node_at st q))) (q # qs') \<and>
     chain_entries st' (q # qs') = al_put k v (chain_entries st (q # qs)) \<and>
     (qs' = qs \<or> qs' = qs @ [m_next_page_no st]) \<and>
     full_prefix bs st' (q # qs') \<and>
     (\<forall>r\<in>set (q # qs'). node_ok (node_at st' r)) \<and>
     store_wf st' \<and> unchanged_outside (set (q # qs)) st st'"

lemma insert_into_last:
  assumes st: "pages st q = Some n" "q \<noteq> INVALID_PAGE_NO" "store_wf st" "node_layout bs"
    and ch: "chain st (n_successor n) (n_successor_version n) qs" "distinct (q # qs)"
    and keys: "distinct (map fst (chain_entries st (q # qs)))"
    and full: "full_prefix bs st (q # qs)"
    and ok: "n_size n = length (n_entries n)" "\<forall>r\<in>set qs. node_ok (node_at st r)"
    and room: "k \<in> fst ` set (n_entries n) \<or> (qs = [] \<and> bs (n_entries n) < MAX_NODE_SIZE)"
  shows "chain_inserted bs k v q qs st (put_page q (snd (hnode_insert bs k v n)) st) qs"
proof -
  let ?n = "n\<lparr>n_entries := al_put k v (n_entries n),
              n_size := (if k \<in> fst ` set (n_entries n) then n_size n else n_size n + 1),
              n_version := increment (n_version n)\<rparr>"
  let ?st = "put_page q ?n st"
  have ins: "snd (hnode_insert bs k v n) = ?n"
    using room by (subst hnode_insert_room) auto
  have same: "\<And>r. r \<in> set qs \<Longrightarrow> pages ?st r = pages st r" and q: "q \<notin> set qs"
    using ch(2) by auto
  have "chain ?st q (increment (n_version n)) (q # qs)"
    using st(2) ch(1) chain_cong [OF same] by simp
  moreover have "chain_entries ?st (q # qs) = al_put k v (chain_entries st (q # qs))"
  proof -
    have "chain_entries ?st qs = chain_entries st qs" by (rule chain_entries_cong [OF same])
    moreover have "al_put k v (n_entries n @ chain_entries st qs) = al_put k v (n_entries n) @ chain_entries st qs"
    proof (cases "k \<in> fst ` set (n_entries n)")
      case True
      moreover have "distinct (map fst (n_entries n @ chain_entries st qs))" using keys st(1) by simp
      ultimately show ?thesis by (simp only: al_put_append_left) (simp add: al_put_def)
    next
      case False
      with room show ?thesis by simp
    qed
    ultimately show ?thesis using st(1) by simp
  qed
  moreover have "full_prefix bs ?st (q # qs)"
  proof (cases "k \<in> fst ` set (n_entries n)")
    case True
    then have "map fst (al_put k v (n_entries n)) = map fst (n_entries n)"
      by (simp add: map_fst_al_put)
    then have "bs (al_put k v (n_entries n)) = bs (n_entries n)"
      by (rule node_layout_keys [OF st(4)])
    with full st(1) show ?thesis by (auto simp: full_prefix_def)
  next
    case False
    with room show ?thesis by (simp add: full_prefix_def)
  qed
  moreover have "\<forall>r\<in>set (q # qs). node_ok (node_at ?st r)"
    using ok q by (auto simp: node_ok_def al_put_def)
  moreover have "store_wf ?st" using st by (auto intro: store_wf_put_page)
  ultimately show ?thesis
    unfolding chain_inserted_def ins using st(1) by (auto simp: unchanged_outside_def)
qed

lemma insert_new_last:
  assumes st: "pages st q = Some n" "q \<noteq> INVALID_PAGE_NO" "store_wf st" "can_allocate st" "node_layout bs"
    and n: "n_successor n = INVALID_PAGE_NO" "n_successor_version n = 0" "node_ok n"
    and full: "k \<notin> fst ` set (n_entries n)" "MAX_NODE_SIZE \<le> bs (n_entries n)"
  shows "\<exists>st'. hm_insert_loop bs k v q st = Some (Inr st')
           \<and> chain_inserted bs k v q [] st st' [m_next_page_no st]"
proof -
  let ?r = "m_next_page_no st"
  let ?st1 = "put_page q (linked_node ?r n) (snd (new_page empty_node st))"
  let ?e = "snd (hnode_insert bs k v empty_node)"
  let ?st2 = "put_page ?r ?e ?st1"
  have rq: "?r \<noteq> q" using next_fresh [OF st(3)] st(1) by auto
  have r: "?r \<noteq> INVALID_PAGE_NO" using st(4) by (rule next_usable)
  have room: "bs [] < MAX_NODE_SIZE" using st(5) by (rule node_layout_empty)
  have e: "?e = empty_node\<lparr>n_entries := [(k, v)], n_size := 1, n_version := increment 0\<rparr>"
    using room by (simp add: hnode_insert_room al_put_def)
  have pg: "pages ?st1 ?r = Some empty_node" using rq by (simp add: new_page_def)
  have "hm_insert_loop bs k v q st = hm_insert_loop bs k v ?r ?st1"
    using st(1,2) full n rq by (intro hm_insert_loop_step get_successor_create) auto
  also have "\<dots> = Some (Inr ?st2)"
    using pg r room by (intro hm_insert_loop_done) auto
  finally have run: "hm_insert_loop bs k v q st = Some (Inr ?st2)" .
  have nxt: "?r < ?r + 1" using st(4) by (simp add: can_allocate_def plus_one_greater)
  have wf: "store_wf ?st2"
    using store_wf_new_page [OF st(3,4), of empty_node] st(1) rq
    by (intro store_wf_put_page) (auto simp: new_page_def)
  have pq: "pages ?st2 q = Some (linked_node ?r n)" and pr: "pages ?st2 ?r = Some ?e"
    using rq by simp_all
  have "chain ?st2 q (increment (n_version (node_at st q))) [q, ?r]"
    using st(1,2) r pq pr n(2) by (simp add: e)
  moreover have "chain_entries ?st2 [q, ?r] = al_put k v (chain_entries st [q])"
    using st(1) full(1) rq [symmetric] by (simp add: e al_put_def)
  moreover have "full_prefix bs ?st2 [q, ?r]"
    using rq [symmetric] full(2) by (simp add: full_prefix_def)
  moreover have "\<forall>p\<in>set [q, ?r]. node_ok (node_at ?st2 p)"
    using rq n(3) by (simp add: e node_ok_def)
  moreover have "unchanged_outside {q} st ?st2"
    using nxt by (auto simp: unchanged_outside_def new_page_def)
  ultimately have "chain_inserted bs k v q [] st ?st2 [?r]"
    using wf unfolding chain_inserted_def by simp
  with run show ?thesis by blast
qed

lemma insert_further_down:
  assumes st: "pages st q = Some n" "q \<noteq> INVALID_PAGE_NO"
    and ch: "chain st (n_successor n) (n_successor_version n) (r # rs)" "q \<notin> set (r # rs)"
    and wf: "store_wf st" and n: "node_ok n"
    and full: "k \<notin> fst ` set (n_entries n)" "MAX_NODE_SIZE \<le> bs (n_entries n)"
    and down: "chain_inserted bs k v r rs (put_page q (linked_node r n) st) st' rs'"
  shows "chain_inserted bs k v q (r # rs) st st' (r # rs')"
proof -
  let ?st1 = "put_page q (linked_node r n) st"
  have q_old: "q < m_next_page_no st" and q_fresh: "q \<noteq> m_next_page_no st"
    using st(1) wf by (auto simp: store_wf_def)
  have same: "\<And>p. p \<in> set (r # rs) \<Longrightarrow> pages ?st1 p = pages st p" using ch(2) by auto
  have qn: "pages st' q = Some (linked_node r n)"
    using down ch(2) q_old by (auto simp: chain_inserted_def unchanged_outside_def)
  have qrs': "q \<notin> set rs'" using down ch(2) q_fresh by (auto simp: chain_inserted_def)
  obtain m where m: "pages st r = Some m" "n_version m = n_successor_version n"
    using ch(1) by (auto split: option.splits)
  then have ver: "n_version (node_at ?st1 r) = n_successor_version n"
    using ch(2) by auto
  have "chain st' q (increment (n_version n)) (q # r # rs')"
  proof -
    have "chain st' r (increment (n_successor_version n)) (r # rs')"
      using down unfolding chain_inserted_def ver by blast
    then show ?thesis using qn st(2) by simp
  qed
  moreover have "chain_entries st' (q # r # rs') = al_put k v (chain_entries st (q # r # rs))"
  proof -
    have "chain_entries st' (r # rs') = al_put k v (chain_entries ?st1 (r # rs))"
      using down by (simp add: chain_inserted_def)
    also have "chain_entries ?st1 (r # rs) = chain_entries st (r # rs)"
      by (rule chain_entries_cong [OF same])
    finally show ?thesis using qn st(1) al_put_append_right [OF full(1)] by simp
  qed
  moreover have "full_prefix bs st' (q # r # rs')"
    using down full(2) qn by (auto simp: chain_inserted_def full_prefix_def)
  moreover have "\<forall>p\<in>set (q # r # rs'). node_ok (node_at st' p)"
    using down qn n by (auto simp: chain_inserted_def node_ok_def)
  moreover have "unchanged_outside (set (q # r # rs)) st st'"
    using down by (auto simp: chain_inserted_def unchanged_outside_def)
  ultimately show ?thesis
    using down st(1) unfolding chain_inserted_def by auto
qed

lemma hm_insert_loop_correct:
  assumes "pages st q = Some n" "q \<noteq> INVALID_PAGE_NO" "store_wf st" "can_allocate st" "node_layout bs"
    and "chain st (n_successor n) (n_successor_version n) qs" "distinct (q # qs)"
    and "distinct (map fst (chain_entries st (q # qs)))" "full_prefix bs st (q # qs)"
    and "node_ok n \<or> (n_entries n = [] \<and> n_size n = 0 \<and> qs = [])" "\<forall>r\<in>set qs. node_ok (node_at st r)"
  shows "\<exists>st' qs'. hm_insert_loop bs k v q st = Some (Inr st') \<and> chain_inserted bs k v q qs st st' qs'"
  using assms
proof (induction qs arbitrary: q n st)
  case Nil
  note st = Nil.prems
  show ?case
  proof (cases "k \<in> fst ` set (n_entries n) \<or> bs (n_entries n) < MAX_NODE_SIZE")
    case True
    with insert_into_last [of st q n bs "[]" k v] hm_insert_loop_done [of st q n k bs v] st
    show ?thesis by (auto simp: node_ok_def)
  next
    case False
    then have "node_ok n" using st node_layout_empty [of bs] by auto
    with False st insert_new_last [of st q n bs k v] show ?thesis by auto
  qed
next
  case (Cons r rs)
  note st = Cons.prems
  have ok: "node_ok n" using st by auto
  show ?case
  proof (cases "k \<in> fst ` set (n_entries n)")
    case True
    with insert_into_last [of st q n bs "r # rs" k v] hm_insert_loop_done [of st q n k bs v] st ok
    show ?thesis by (auto simp: node_ok_def)
  next
    case False
    let ?st1 = "put_page q (linked_node r n) st"
    have full: "MAX_NODE_SIZE \<le> bs (n_entries n)" using st by (simp add: full_prefix_def)
    have same: "\<And>p. p \<in> set (r # rs) \<Longrightarrow> pages ?st1 p = pages st p" using st by auto
    obtain m where m: "pages st r = Some m" "chain st (n_successor m) (n_successor_version m) rs"
      and r: "r \<noteq> INVALID_PAGE_NO"
      using st by (auto split: option.splits)
    have "get_successor q True False st = Inr (Some r, ?st1)"
      using st by (intro get_successor_modify) auto
    then have step: "hm_insert_loop bs k v q st = hm_insert_loop bs k v r ?st1"
      using st False full by (intro hm_insert_loop_step) auto
    have "\<exists>st' qs'. hm_insert_loop bs k v r ?st1 = Some (Inr st') \<and> chain_inserted bs k v r rs ?st1 st' qs'"
    proof (rule Cons.IH)
      show "pages ?st1 r = Some m" using m(1) st by auto
      show "chain ?st1 (n_successor m) (n_successor_version m) rs"
        using m(2) same by (subst chain_cong [of rs ?st1 st]) auto
      show "distinct (map fst (chain_entries ?st1 (r # rs)))"
        using st by (subst chain_entries_cong [OF same]) auto
      show "full_prefix bs ?st1 (r # rs)" "\<forall>p\<in>set rs. node_ok (node_at ?st1 p)"
        "node_ok m \<or> (n_entries m = [] \<and> n_size m = 0 \<and> rs = [])"
        using st m(1) by (auto simp: full_prefix_def)
    qed (use st r in \<open>auto intro: store_wf_put_page\<close>)
    then obtain st' qs' where "hm_insert_loop bs k v r ?st1 = Some (Inr st')"
      and down: "chain_inserted bs k v r rs ?st1 st' qs'" by blast
    moreover have "chain_inserted bs k v q (r # rs) st st' (r # qs')"
      using st False full ok down by (intro insert_further_down) auto
    ultimately show ?thesis using step by auto
  qed
qed

section \<open>Lookup in a chain\<close>

definition chain_head :: "page_no_t list \<Rightarrow> page_no_t option" where
  "chain_head qs = (case qs of [] \<Rightarrow> None | q # _ \<Rightarrow> Some q)"

lemma chain_head_simps [simp]: "chain_head [] = None" "chain_head (q # qs) = Some q"
  by (simp_all add: chain_head_def)

lemma hm_get_loop_correct:
  "chain st p v qs \<Longrightarrow> hm_get_loop k (chain_head qs) st = Some (Inr (map_of (chain_entries st qs) k))"
proof (induction qs arbitrary: p v)
  case Nil
  then show ?case by (simp add: hm_get_loop.simps)
next
  case (Cons q qs)
  then obtain n where n: "pages st q = Some n" "q \<noteq> INVALID_PAGE_NO"
    and ch: "chain st (n_successor n) (n_successor_version n) qs"
    by (auto split: option.splits)
  have "get_successor q False False st = Inr (chain_head qs, st)"
    using get_successor_read [OF n ch] by (simp add: chain_head_def)
  with n Cons.IH [OF ch] show ?case
    by (subst hm_get_loop.simps)
      (auto simp: get_page_def hnode_get_map_of map_add_def split: option.splits)
qed

section \<open>The invariant of the table\<close>

definition bucket_rep ::
  "(hm_entries \<Rightarrow> nat) \<Rightarrow> nat \<Rightarrow> bucket_t \<Rightarrow> hm_store \<Rightarrow> page_no_t list \<Rightarrow> bool" where
  "bucket_rep bs b bk st qs \<longleftrightarrow>
     chain st (b_page_no bk) (b_version bk) qs \<and> distinct qs \<and>
     distinct (map fst (chain_entries st qs)) \<and>
     (\<forall>k\<in>fst ` set (chain_entries st qs). to_bucket hash_string k = b) \<and>
     full_prefix bs st qs \<and> (\<forall>q\<in>set qs. node_ok (node_at st q))"

definition hm_rep ::
  "(hm_entries \<Rightarrow> nat) \<Rightarrow> abstract_map \<Rightarrow> hm_store \<Rightarrow> (nat \<Rightarrow> page_no_t list) \<Rightarrow> bool" where
  "hm_rep bs m st C \<longleftrightarrow>
     node_layout bs \<and> store_wf st \<and>
     (\<forall>b. bucket_rep bs b (m_buckets m b) st (C b)) \<and>
     (\<forall>b b'. b \<noteq> b' \<longrightarrow> set (C b) \<inter> set (C b') = {})"

definition hm_abs :: "hm_store \<Rightarrow> (nat \<Rightarrow> page_no_t list) \<Rightarrow> string \<rightharpoonup> event_id_t" where
  "hm_abs st C k = map_of (chain_entries st (C (to_bucket hash_string k))) k"

lemma hm_repD:
  assumes "hm_rep bs m st C"
  shows "node_layout bs" "store_wf st" "bucket_rep bs b (m_buckets m b) st (C b)"
    "chain st (b_page_no (m_buckets m b)) (b_version (m_buckets m b)) (C b)"
    "b \<noteq> b' \<Longrightarrow> set (C b) \<inter> set (C b') = {}"
  using assms by (auto simp: hm_rep_def bucket_rep_def)

lemma bucket_rep_cong:
  assumes "\<And>q. q \<in> set qs \<Longrightarrow> pages st' q = pages st q"
  shows "bucket_rep bs b bk st' qs = bucket_rep bs b bk st qs"
proof -
  have "full_prefix bs st' qs = full_prefix bs st qs"
    using assms unfolding full_prefix_def node_at_def by (metis in_set_butlastD)
  moreover have "(\<forall>q\<in>set qs. node_ok (node_at st' q)) = (\<forall>q\<in>set qs. node_ok (node_at st q))"
    using assms by (simp add: node_at_def)
  ultimately show ?thesis
    using chain_cong [of qs st' st, OF assms] chain_entries_cong [of qs st' st, OF assms]
    by (simp add: bucket_rep_def)
qed

lemma chain_old: "store_wf st \<Longrightarrow> chain st p v qs \<Longrightarrow> q \<in> set qs \<Longrightarrow> q < m_next_page_no st"
  unfolding store_wf_def using chain_pages by fastforce

theorem hm_get_correct: "hm_rep bs m st C \<Longrightarrow> hm_get k m st = Some (Inr (hm_abs st C k))"
proof -
  assume "hm_rep bs m st C"
  from hm_repD(4) [OF this, of "to_bucket hash_string k"] show ?thesis
    by (simp add: hm_get_def get_node_read hm_get_loop_correct hm_abs_def chain_head_def [symmetric])
qed

lemma hm_rep_old: "hm_rep bs m st C \<Longrightarrow> q \<in> set (C b) \<Longrightarrow> q < m_next_page_no st"
  using chain_old hm_repD(2,4) by blast

lemma hm_rep_same:
  assumes "hm_rep bs m st C" "unchanged_outside (set (C b)) st st'" "b' \<noteq> b" "q \<in> set (C b')"
  shows "pages st' q = pages st q"
  using assms(2,4) hm_rep_old [OF assms(1,4)] hm_repD(5) [OF assms(1,3)]
  unfolding unchanged_outside_def by blast

text \<open>Replacing the chain of one bucket by the result of an insertion keeps the invariant.\<close>

lemma hm_rep_replace:
  assumes rep: "hm_rep bs m st C"
    and new: "bucket_rep bs b bk st' qs" "store_wf st'"
    and frame: "unchanged_outside (set (C b)) st st'" "set qs \<subseteq> set (C b) \<union> {m_next_page_no st}"
  shows "hm_rep bs (set_bucket b bk m) st' (C(b := qs))"
proof -
  note old = hm_rep_old [OF rep] and same = hm_rep_same [OF rep frame(1)]
  have "bucket_rep bs b' (m_buckets m b') st' (C b')" if "b' \<noteq> b" for b'
    using bucket_rep_cong [of "C b'" st' st, OF same [OF that]] hm_repD(3) [OF rep] by simp
  moreover have "set qs \<inter> set (C b') = {}" if "b' \<noteq> b" for b'
    using frame(2) hm_repD(5) [OF rep that] old [of _ b'] by fastforce
  ultimately show ?thesis
    using hm_repD(1,5) [OF rep] new
    by (auto simp: hm_rep_def set_bucket_def)
qed

lemma bucket_rep_inserted:
  assumes "chain_inserted bs k v q qs st st' qs'" "distinct (q # qs)" "m_next_page_no st \<notin> set (q # qs)"
    and "distinct (map fst (chain_entries st (q # qs)))"
    and "\<forall>x\<in>fst ` set (chain_entries st (q # qs)). to_bucket hash_string x = b"
    and "to_bucket hash_string k = b" "vn = n_version (node_at st q)"
  shows "bucket_rep bs b \<lparr>b_page_no = q, b_version = increment vn\<rparr> st' (q # qs')"
proof -
  have e: "chain_entries st' (q # qs') = al_put k v (chain_entries st (q # qs))"
    using assms(1) unfolding chain_inserted_def by blast
  have "fst ` set (al_put k v es) = insert k (fst ` set es)" for es :: hm_entries
    using arg_cong [where f = set, OF map_fst_al_put [of k v es]] by auto
  then have "\<forall>x\<in>fst ` set (chain_entries st' (q # qs')). to_bucket hash_string x = b"
    unfolding e using assms(5,6) by simp
  moreover have "distinct (map fst (chain_entries st' (q # qs')))"
    unfolding e using assms(4) by (rule distinct_al_put)
  moreover have "distinct (q # qs')" using assms(1-3) by (auto simp: chain_inserted_def)
  ultimately show ?thesis
    using assms(1) unfolding bucket_rep_def chain_inserted_def assms(7) by (simp del: chain_entries_simps)
qed

text \<open>The effect of \<open>hm_insert\<close> on the bucket of the key, whose chain was \<open>qs\<close> and becomes \<open>qs'\<close>.\<close>

definition bucket_inserted ::
  "(hm_entries \<Rightarrow> nat) \<Rightarrow> string \<Rightarrow> event_id_t \<Rightarrow> abstract_map \<Rightarrow> hm_store \<Rightarrow> page_no_t list
    \<Rightarrow> bucket_t \<Rightarrow> hm_store \<Rightarrow> page_no_t list \<Rightarrow> bool" where
  "bucket_inserted bs k v m st qs bk st' qs' \<longleftrightarrow>
     hm_insert bs k v m st =
       Some (Inr ((set_bucket (to_bucket hash_string k) bk m)\<lparr>m_size := m_size m + 1\<rparr>, st')) \<and>
     bucket_rep bs (to_bucket hash_string k) bk st' qs' \<and> store_wf st' \<and>
     unchanged_outside (set qs) st st' \<and> set qs' \<subseteq> set qs \<union> {m_next_page_no st} \<and>
     chain_entries st' qs' = al_put k v (chain_entries st qs)"

lemma m_size_set_bucket [simp]: "m_size (set_bucket b bk m) = m_size m"
  by (simp add: set_bucket_def)

lemma insert_new_bucket:
  assumes rep: "hm_rep bs m st C" and alloc: "can_allocate st"
    and empty: "C (to_bucket hash_string k) = []"
  shows "\<exists>bk st' qs'. bucket_inserted bs k v m st [] bk st' qs'"
proof -
  let ?b = "to_bucket hash_string k" and ?r = "m_next_page_no st"
  let ?st1 = "snd (new_page empty_node st)"
  let ?st2 = "put_page ?r (snd (hnode_insert bs k v empty_node)) ?st1"
  let ?bk = "\<lparr>b_page_no = ?r, b_version = increment 0\<rparr>"
  have b: "b_page_no (m_buckets m ?b) = INVALID_PAGE_NO" "b_version (m_buckets m ?b) = 0"
    using hm_repD(4) [OF rep, of ?b] empty by simp_all
  have room: "bs [] < MAX_NODE_SIZE" using rep by (intro node_layout_empty hm_repD)
  have r: "?r \<noteq> INVALID_PAGE_NO" using alloc by (rule next_usable)
  have pg: "pages ?st1 ?r = Some empty_node" by (simp add: new_page_def)
  have nxt: "?r < ?r + 1" using alloc by (simp add: can_allocate_def plus_one_greater)
  have loop: "hm_insert_loop bs k v ?r ?st1 = Some (Inr ?st2)"
    using pg r room by (intro hm_insert_loop_done) auto
  have run: "hm_insert bs k v m st = Some (Inr ((set_bucket ?b ?bk m)\<lparr>m_size := m_size m + 1\<rparr>, ?st2))"
    using loop by (simp add: hm_insert_def get_node_create b)
  have ins: "chain_inserted bs k v ?r [] ?st1 ?st2 []"
    using pg r room store_wf_new_page [OF hm_repD(2) [OF rep] alloc] hm_repD(1) [OF rep]
    by (intro insert_into_last) (auto simp: full_prefix_def)
  have "bucket_rep bs ?b ?bk ?st2 [?r]"
    using ins pg nxt by (intro bucket_rep_inserted [where k = k and v = v and st = ?st1]) (auto simp: new_page_def)
  moreover have "chain_entries ?st2 [?r] = al_put k v []" "store_wf ?st2"
    using ins pg unfolding chain_inserted_def by simp_all
  moreover have "unchanged_outside {} st ?st2"
    using nxt by (auto simp: unchanged_outside_def new_page_def)
  ultimately have "bucket_inserted bs k v m st [] ?bk ?st2 [?r]"
    using run unfolding bucket_inserted_def by simp
  then show ?thesis by blast
qed

lemma insert_old_bucket:
  assumes rep: "hm_rep bs m st C" and alloc: "can_allocate st"
    and nonempty: "C (to_bucket hash_string k) = q # qs"
  shows "\<exists>bk st' qs'. bucket_inserted bs k v m st (q # qs) bk st' qs'"
proof -
  let ?b = "to_bucket hash_string k"
  let ?bk = "\<lparr>b_page_no = q, b_version = increment (b_version (m_buckets m ?b))\<rparr>"
  note br = hm_repD(3) [OF rep, of ?b, unfolded bucket_rep_def nonempty]
  note wf = hm_repD(2) [OF rep]
  obtain n where n: "pages st q = Some n" "q \<noteq> INVALID_PAGE_NO" "b_version (m_buckets m ?b) = n_version n"
    and ch: "chain st (n_successor n) (n_successor_version n) qs"
    using br by (auto split: option.splits)
  have "\<exists>st' qs'. hm_insert_loop bs k v q st = Some (Inr st') \<and> chain_inserted bs k v q qs st st' qs'"
    using br n ch wf alloc hm_repD(1) [OF rep] by (intro hm_insert_loop_correct) auto
  then obtain st' qs' where loop: "hm_insert_loop bs k v q st = Some (Inr st')"
    and ins: "chain_inserted bs k v q qs st st' qs'" by blast
  have run: "hm_insert bs k v m st = Some (Inr ((set_bucket ?b ?bk m)\<lparr>m_size := m_size m + 1\<rparr>, st'))"
    using loop br by (simp add: hm_insert_def get_node_modify [where q = q and qs = qs])
  have "bucket_rep bs ?b ?bk st' (q # qs')"
    using ins br n chain_next [OF wf, of _ _ "q # qs"]
    by (intro bucket_rep_inserted [where k = k and v = v and st = st and qs = qs]) auto
  moreover have "chain_entries st' (q # qs') = al_put k v (chain_entries st (q # qs))" "store_wf st'"
    "unchanged_outside (set (q # qs)) st st'" "set (q # qs') \<subseteq> set (q # qs) \<union> {m_next_page_no st}"
    using ins unfolding chain_inserted_def by auto
  ultimately have "bucket_inserted bs k v m st (q # qs) ?bk st' (q # qs')"
    using run unfolding bucket_inserted_def by simp
  then show ?thesis by blast
qed

lemma hm_rep_update:
  assumes rep: "hm_rep bs m st C" and b: "b = to_bucket hash_string k"
    and new: "bucket_rep bs b bk st' qs" "store_wf st'"
    and frame: "unchanged_outside (set (C b)) st st'" "set qs \<subseteq> set (C b) \<union> {m_next_page_no st}"
    and entries: "chain_entries st' qs = al_put k v (chain_entries st (C b))"
  shows "hm_rep bs (set_bucket b bk m) st' (C(b := qs)) \<and> hm_abs st' (C(b := qs)) = (hm_abs st C)(k \<mapsto> v)"
proof
  show "hm_rep bs (set_bucket b bk m) st' (C(b := qs))" by (rule hm_rep_replace [OF rep new frame])
  show "hm_abs st' (C(b := qs)) = (hm_abs st C)(k \<mapsto> v)"
  proof
    fix x
    show "hm_abs st' (C(b := qs)) x = ((hm_abs st C)(k \<mapsto> v)) x"
    proof (cases "to_bucket hash_string x = b")
      case True
      with entries show ?thesis by (simp add: hm_abs_def map_of_al_put)
    next
      case False
      have "chain_entries st' (C (to_bucket hash_string x)) = chain_entries st (C (to_bucket hash_string x))"
        using hm_rep_same [OF rep frame(1) False] by (intro chain_entries_cong) auto
      with False b show ?thesis by (auto simp: hm_abs_def)
    qed
  qed
qed

lemma hm_insert_correct:
  assumes rep: "hm_rep bs m st C" and alloc: "can_allocate st"
  shows "\<exists>m' st' C'. hm_insert bs k v m st = Some (Inr (m', st')) \<and> hm_rep bs m' st' C' \<and>
           hm_abs st' C' = (hm_abs st C)(k \<mapsto> v) \<and> m_size m' = m_size m + 1 \<and>
           unchanged_outside (set (C (to_bucket hash_string k))) st st'"
proof -
  let ?b = "to_bucket hash_string k"
  obtain bk st' qs' where ins: "bucket_inserted bs k v m st (C ?b) bk st' qs'"
    using insert_new_bucket [OF rep alloc] insert_old_bucket [OF rep alloc]
    by (cases "C ?b") metis+
  let ?m' = "(set_bucket ?b bk m)\<lparr>m_size := m_size m + 1\<rparr>"
  have "hm_rep bs (set_bucket ?b bk m) st' (C(?b := qs')) \<and> hm_abs st' (C(?b := qs')) = (hm_abs st C)(k \<mapsto> v)"
    using ins by (intro hm_rep_update [OF rep]) (auto simp: bucket_inserted_def)
  moreover from this have "hm_rep bs ?m' st' (C(?b := qs'))" by (simp add: hm_rep_def)
  ultimately show ?thesis using ins unfolding bucket_inserted_def by fastforce
qed

section \<open>The interface of a key-value map\<close>

text \<open>
  What a client of the primary index relies on. \<open>avail\<close> bounds the insertions that still fit (each
  may allocate a page).
\<close>

fun insert_all ::
  "('k \<Rightarrow> 'v \<Rightarrow> 's \<Rightarrow> 's result option) \<Rightarrow> ('k \<times> 'v) list \<Rightarrow> 's \<Rightarrow> 's result option" where
  "insert_all ins [] s = Some (Inr s)"
| "insert_all ins ((k, v) # kvs) s =
     (case ins k v s of
        None \<Rightarrow> None
      | Some (Inl e) \<Rightarrow> Some (Inl e)
      | Some (Inr s') \<Rightarrow> insert_all ins kvs s')"

locale kv_map =
  fixes ins :: "'k \<Rightarrow> 'v \<Rightarrow> 's \<Rightarrow> 's result option"
    and lookup :: "'k \<Rightarrow> 's \<Rightarrow> 'v option result option"
    and inv :: "'s \<Rightarrow> bool"
    and avail :: "'s \<Rightarrow> nat"
  assumes ins_ok: "inv s \<Longrightarrow> 0 < avail s \<Longrightarrow>
      \<exists>s'. ins k v s = Some (Inr s') \<and> inv s' \<and> avail s \<le> avail s' + 1 \<and>
           (\<forall>x. lookup x s' = (if x = k then Some (Inr (Some v)) else lookup x s))"
begin

lemma insert_all_ok:
  "inv s \<Longrightarrow> length kvs \<le> avail s \<Longrightarrow>
   \<exists>s'. insert_all ins kvs s = Some (Inr s') \<and> inv s' \<and> avail s \<le> avail s' + length kvs \<and>
        (\<forall>k. lookup k s' = (case map_of (rev kvs) k of None \<Rightarrow> lookup k s | Some v \<Rightarrow> Some (Inr (Some v))))"
proof (induction kvs arbitrary: s)
  case Nil
  then show ?case by simp
next
  case (Cons kv kvs)
  obtain k v where kv: "kv = (k, v)" by (cases kv)
  obtain s1 where s1: "ins k v s = Some (Inr s1)" "inv s1" "avail s \<le> avail s1 + 1"
    "\<forall>x. lookup x s1 = (if x = k then Some (Inr (Some v)) else lookup x s)"
    using ins_ok [of s k v] Cons.prems by auto
  then obtain s' where "insert_all ins kvs s1 = Some (Inr s')" "inv s'" "avail s1 \<le> avail s' + length kvs"
    "\<forall>x. lookup x s' = (case map_of (rev kvs) x of None \<Rightarrow> lookup x s1 | Some v \<Rightarrow> Some (Inr (Some v)))"
    using Cons.IH [of s1] Cons.prems by auto
  with s1 show ?case
    by (auto simp: kv map_add_def split: option.splits)
qed

end

definition hm_ins ::
  "(hm_entries \<Rightarrow> nat) \<Rightarrow> string \<Rightarrow> event_id_t \<Rightarrow> abstract_map \<times> hm_store \<Rightarrow> (abstract_map \<times> hm_store) result option" where
  "hm_ins bs k v s = hm_insert bs k v (fst s) (snd s)"

definition hm_lookup :: "string \<Rightarrow> abstract_map \<times> hm_store \<Rightarrow> event_id_t option result option" where
  "hm_lookup k s = hm_get k (fst s) (snd s)"

definition hm_inv :: "(hm_entries \<Rightarrow> nat) \<Rightarrow> abstract_map \<times> hm_store \<Rightarrow> bool" where
  "hm_inv bs s \<longleftrightarrow> (\<exists>C. hm_rep bs (fst s) (snd s) C)"

definition pages_left :: "'p page_store \<Rightarrow> nat" where
  "pages_left st = unat INVALID_PAGE_NO - unat (m_next_page_no st)"

definition empty_store :: "'p page_store" where
  "empty_store = \<lparr>pages = Map.empty, m_next_page_no = 1\<rparr>"

lemma pages_left_pos: "0 < pages_left st \<longleftrightarrow> can_allocate st"
  by (simp add: pages_left_def can_allocate_def word_less_nat_alt)

lemma pages_left_step:
  assumes "unchanged_outside P st st'"
  shows "pages_left st \<le> pages_left st' + 1"
proof -
  have "unat (m_next_page_no st + 1) \<le> unat (m_next_page_no st) + 1"
    by (metis One_nat_def le_refl unat_1 unat_plus_if' Suc_eq_plus1 diff_le_self)
  with assms show ?thesis by (auto simp: unchanged_outside_def pages_left_def)
qed

interpretation hm: kv_map "hm_ins bs" hm_lookup "hm_inv bs" "\<lambda>s. pages_left (snd s)" for bs
proof
  fix s :: "abstract_map \<times> hm_store" and k v
  assume "hm_inv bs s" and room: "0 < pages_left (snd s)"
  then obtain C where C: "hm_rep bs (fst s) (snd s) C" by (auto simp: hm_inv_def)
  obtain m' st' C' where "hm_insert bs k v (fst s) (snd s) = Some (Inr (m', st'))"
    and C': "hm_rep bs m' st' C'" "hm_abs st' C' = (hm_abs (snd s) C)(k \<mapsto> v)"
    and "pages_left (snd s) \<le> pages_left st' + 1"
    using hm_insert_correct [OF C, of k v] room pages_left_step by (metis pages_left_pos)
  then show "\<exists>s'. hm_ins bs k v s = Some (Inr s') \<and> hm_inv bs s' \<and>
          pages_left (snd s) \<le> pages_left (snd s') + 1 \<and>
          (\<forall>x. hm_lookup x s' = (if x = k then Some (Inr (Some v)) else hm_lookup x s))"
    by (intro exI [of _ "(m', st')"])
      (auto simp: hm_ins_def hm_inv_def hm_lookup_def hm_get_correct [OF C'(1)] hm_get_correct [OF C])
qed

lemma hm_rep_empty: "node_layout bs \<Longrightarrow> hm_rep bs empty_map empty_store (\<lambda>_. [])"
  by (simp add: hm_rep_def empty_map_def empty_store_def store_wf_def bucket_rep_def full_prefix_def)

section \<open>Detection of stale pages\<close>

lemma hm_get_loop_skip:
  assumes "chain st p v (ps @ qs)" and "k \<notin> fst ` set (chain_entries st ps)"
    and "\<And>q. q \<in> set ps \<Longrightarrow> pages st' q = pages st q" and "ps \<noteq> []"
    and "get_successor (last ps) False False st' = r" 
  shows "hm_get_loop k (chain_head (ps @ qs)) st' =
    (case r of Inl e \<Rightarrow> Some (Inl e) | Inr res \<Rightarrow> hm_get_loop k (fst res) (snd res))"
  using assms
proof (induction ps arbitrary: p v)
  case Nil
  then show ?case by simp
next
  case (Cons q ps)
  then obtain n where n: "pages st q = Some n" "q \<noteq> INVALID_PAGE_NO"
    and ch: "chain st (n_successor n) (n_successor_version n) (ps @ qs)"
    by (auto split: option.splits)
  have n': "pages st' q = Some n" and absent: "map_of (n_entries n) k = None"
    using Cons.prems n by (auto simp: map_of_eq_None_iff)
  show ?case
  proof (cases ps)
    case Nil
    with Cons.prems n n' absent show ?thesis
      by (subst hm_get_loop.simps) (auto simp: get_page_def hnode_get_map_of split: sum.splits)
  next
    case (Cons q' ps')
    have eq: "pages st' q' = pages st q'" using Cons.prems(3) Cons by simp
    have "get_successor q False False st' = Inr (chain_head (ps @ qs), st')"
      using n(2) n' ch eq by (auto simp: Cons get_successor_def get_page_def get_node_internal_def split: option.splits)
    moreover have "hm_get_loop k (chain_head (ps @ qs)) st' =
        (case r of Inl e \<Rightarrow> Some (Inl e) | Inr res \<Rightarrow> hm_get_loop k (fst res) (snd res))"
      using Cons.IH [OF ch] Cons.prems(2-5) Cons by (simp add: image_Un)
    ultimately show ?thesis using n n' absent
      by (subst hm_get_loop.simps) (simp add: get_page_def hnode_get_map_of)
  qed
qed

lemma chain_link:
  "chain st p v (ps @ q # qs) \<Longrightarrow> ps \<noteq> [] \<Longrightarrow>
   n_successor (node_at st (last ps)) = q \<and> n_successor_version (node_at st (last ps)) = n_version (node_at st q)
   \<and> q \<noteq> INVALID_PAGE_NO \<and> last ps \<noteq> INVALID_PAGE_NO"
proof (induction ps arbitrary: p v)
  case (Cons a ps)
  then obtain n where n: "pages st a = Some n" "a \<noteq> INVALID_PAGE_NO"
    and ch: "chain st (n_successor n) (n_successor_version n) (ps @ q # qs)"
    by (auto split: option.splits)
  show ?case
  proof (cases ps)
    case Nil
    with n ch show ?thesis by (auto split: option.splits)
  next
    case Cons
    then show ?thesis using Cons.IH [OF ch] by simp
  qed
qed simp

lemma chain_tail:
  "chain st p v (ps @ q # qs) \<Longrightarrow>
   chain st (n_successor (node_at st q)) (n_successor_version (node_at st q)) qs"
  by (induction ps arbitrary: p v) (auto split: option.splits)

lemma hm_get_stale:
  assumes rep: "hm_rep bs m st C" and C: "C (to_bucket hash_string k) = ps @ q # qs"
    and absent: "k \<notin> fst ` set (chain_entries st ps)"
    and other: "n_version n' \<noteq> n_version (node_at st q)"
  shows "hm_get k m (put_page q n' st) = Some (Inl StalenessDetected)"
proof -
  let ?b = "to_bucket hash_string k" and ?st = "put_page q n' st"
  note br = hm_repD(3) [OF rep, of ?b, unfolded bucket_rep_def C]
  show ?thesis
  proof (cases ps)
    case Nil
    then show ?thesis using br other
      by (auto simp: hm_get_def get_node_def get_node_internal_def get_page_def split: option.splits)
  next
    case (Cons p ps')
    have same: "pages ?st x = pages st x" if "x \<in> set ps" for x using br that by auto
    have last: "last ps \<in> set ps" "last ps \<noteq> q" using Cons br by auto
    then obtain l where l: "pages st (last ps) = Some l"
      using chain_pages [OF conjunct1 [OF br], of "last ps"] by auto
    have "get_successor (last ps) False False ?st = Inl StalenessDetected"
      using chain_link [OF conjunct1 [OF br]] other last l Cons
      by (simp add: get_successor_def get_page_def get_node_internal_def)
    then have "hm_get_loop k (chain_head (ps @ q # qs)) ?st = Some (Inl StalenessDetected)"
      using br same absent Cons by (subst hm_get_loop_skip [where qs = "q # qs"]) auto
    moreover have "get_node ?b False False m ?st = Inr (Some p, m, ?st)"
      using br Cons same [of p] by (auto simp: get_node_def get_node_internal_def get_page_def split: option.splits)
    ultimately show ?thesis using Cons by (simp add: hm_get_def)
  qed
qed

section \<open>Properties\<close>

text \<open>
  Property C3. For any sequence of insertions into an empty table (at most as many as there are
  page numbers), every \<open>insert\<close> returns without an error, and afterwards \<open>get\<close> returns for every key
  the value inserted last, or "not found" if the key was never inserted: the chained pages with
  their version checks implement a finite map.
\<close>

theorem hash_map_implements_map:
  assumes "node_layout bs" and "length kvs < 2 ^ 32 - 1"
  shows "\<exists>m st. insert_all (hm_ins bs) kvs (empty_map, empty_store) = Some (Inr (m, st)) \<and>
           (\<forall>k. hm_get k m st = Some (Inr (map_of (rev kvs) k)))"
proof -
  have inv: "hm_inv bs (empty_map, empty_store)"
    using hm_rep_empty [OF assms(1)] by (auto simp: hm_inv_def)
  have empty: "hm_lookup k (empty_map, empty_store) = Some (Inr None)" for k
    using hm_get_correct [OF hm_rep_empty [OF assms(1)]] by (simp add: hm_lookup_def hm_abs_def)
  have "length kvs \<le> pages_left (snd (empty_map, empty_store :: hm_store))"
    using assms(2) by (simp add: pages_left_def empty_store_def)
  from hm.insert_all_ok [OF inv this] obtain s' where "insert_all (hm_ins bs) kvs (empty_map, empty_store) = Some (Inr s')"
    and "\<forall>k. hm_lookup k s' = Some (Inr (map_of (rev kvs) k))"
    by (auto simp: empty split: option.splits) (metis (no_types, lifting) option.exhaust)
  then show ?thesis by (cases s') (auto simp: hm_lookup_def)
qed

lemma node_layout_linear: "a < MAX_NODE_SIZE \<Longrightarrow> node_layout (\<lambda>es. a + c * length es)"
  unfolding node_layout_def by (auto dest: map_eq_imp_length_eq)

theorem hash_map_implements_map_witness:
  "\<exists>m st. insert_all (hm_ins (\<lambda>es. 24 + 600 * length es))
        [(''a'', mk_event_id 1 2 3), (''b'', mk_event_id 1 2 4), (''a'', mk_event_id 1 2 5)]
        (empty_map, empty_store) = Some (Inr (m, st)) \<and>
      (\<forall>k. hm_get k m st = Some (Inr (map_of
        (rev [(''a'', mk_event_id 1 2 3), (''b'', mk_event_id 1 2 4), (''a'', mk_event_id 1 2 5)]) k)))"
  by (intro hash_map_implements_map node_layout_linear) (simp_all add: MAX_NODE_SIZE_def)

text \<open>
  In any well-formed state \<open>insert\<close> returns and refines the update of the abstract map;
  the invariant (unbroken chains with matching versions, distinct keys in the bucket of their hash,
  only the last page of a chain has room) is kept, and no page of another table changes.
\<close>

lemma hash_map_insert_refines_update:
  assumes "hm_rep bs m st C" and "can_allocate st"
  shows "\<exists>m' st' C'. hm_insert bs k v m st = Some (Inr (m', st')) \<and> hm_rep bs m' st' C' \<and>
           hm_abs st' C' = (hm_abs st C)(k \<mapsto> v) \<and>
           (\<forall>p. p < m_next_page_no st \<longrightarrow> p \<notin> set (C (to_bucket hash_string k)) \<longrightarrow> pages st' p = pages st p)"
  using hm_insert_correct [OF assms, of k v] unfolding unchanged_outside_def by blast

text \<open>
  Property C9. Freshness: if the untrusted storage supplies, for any page of a bucket's chain, a
  node whose version is not the one its predecessor (or the bucket) expects, then a lookup that has
  to read this page fails with a staleness error and returns no value.
\<close>

theorem stale_page_detected:
  assumes "hm_rep bs m st C" and "C (to_bucket hash_string k) = ps @ q # qs"
    and "k \<notin> fst ` set (chain_entries st ps)"
    and "n_version n' \<noteq> n_version (node_at st q)"
  shows "hm_get k m (put_page q n' st) = Some (Inl StalenessDetected)"
  using assms by (rule hm_get_stale)

text \<open>A table with one entry on one page, for the examples.\<close>

definition one_node :: hm_node where
  "one_node = \<lparr>n_version = 1, n_successor = INVALID_PAGE_NO, n_successor_version = 0, n_size = 1,
                n_entries = [(''a'', INVALID_EVENT)]\<rparr>"

definition one_map :: abstract_map where
  "one_map = set_bucket (to_bucket hash_string ''a'') \<lparr>b_page_no = 1, b_version = 1\<rparr> empty_map"

definition one_store :: hm_store where
  "one_store = \<lparr>pages = [1 \<mapsto> one_node], m_next_page_no = 2\<rparr>"

definition one_chain :: "nat \<Rightarrow> page_no_t list" where
  "one_chain b = (if b = to_bucket hash_string ''a'' then [1] else [])"

lemma one_rep: "hm_rep (\<lambda>es. 24 + 100 * length es) one_map one_store one_chain"
proof -
  have "store_wf one_store" by (simp add: store_wf_def one_store_def)
  moreover have "bucket_rep (\<lambda>es. 24 + 100 * length es) b (m_buckets one_map b) one_store (one_chain b)" for b
    by (simp add: bucket_rep_def one_map_def one_store_def one_node_def one_chain_def set_bucket_def
        empty_map_def node_at_def full_prefix_def node_ok_def INVALID_PAGE_NO_def)
  ultimately show ?thesis
    using node_layout_linear [of 24 100] by (auto simp: hm_rep_def one_chain_def MAX_NODE_SIZE_def)
qed

theorem stale_page_detected_witness:
  "hm_get ''a'' one_map (put_page 1 (one_node\<lparr>n_version := 7\<rparr>) one_store) = Some (Inl StalenessDetected)"
  by (rule stale_page_detected [OF one_rep, where ps = "[]" and qs = "[]"])
    (simp_all add: one_chain_def one_store_def one_node_def)

text \<open>
  Property C12. Rollback: once \<open>insert\<close> has changed a bucket, presenting the first page of the bucket
  as it was before the insertion makes every lookup in that bucket fail with a staleness error.
\<close>

theorem bucket_rollback_detected:
  assumes "hm_rep bs m st C" and "C (to_bucket hash_string k) = q # qs"
    and "hm_insert bs k v m st = Some (Inr (m', st'))"
    and "to_bucket hash_string x = to_bucket hash_string k"
  shows "hm_get x m' (put_page q (node_at st q) st') = Some (Inl StalenessDetected)"
proof -
  let ?b = "to_bucket hash_string k"
  note ch = hm_repD(4) [OF assms(1), of ?b, unfolded assms(2)]
  then obtain n where n: "pages st q = Some n" "q \<noteq> INVALID_PAGE_NO" "n_version n = b_version (m_buckets m ?b)"
    by (auto split: option.splits)
  have "m_buckets m' ?b = \<lparr>b_page_no = q, b_version = increment (n_version n)\<rparr>"
    using assms(3) n(3)
    by (auto simp: hm_insert_def get_node_modify [OF ch] set_bucket_def split: option.splits sum.splits)
  with n assms(4) increment_neq [of "n_version n", symmetric] show ?thesis
    by (simp add: hm_get_def get_node_def get_node_internal_def get_page_def)
qed

theorem bucket_rollback_detected_witness:
  "\<exists>m' st'. hm_insert (\<lambda>es. 24 + 100 * length es) ''a'' (mk_event_id 1 1 1) one_map one_store = Some (Inr (m', st')) \<and>
     hm_get ''a'' m' (put_page 1 (node_at one_store 1) st') = Some (Inl StalenessDetected)"
proof -
  have "can_allocate one_store"
    by (simp add: can_allocate_def one_store_def word_less_nat_alt)
  from hm_insert_correct [OF one_rep this] obtain m' st' where
    ins: "hm_insert (\<lambda>es. 24 + 100 * length es) ''a'' (mk_event_id 1 1 1) one_map one_store = Some (Inr (m', st'))"
    by blast
  with bucket_rollback_detected [OF one_rep _ ins] show ?thesis by (auto simp: one_chain_def)
qed

end
