(* ===== verification/Hash_Map_Iter.thy ===== *)
theory Hash_Map_Iter
  imports Hash_Map
begin

text \<open>
  The iterators of the paged hash table (\<open>iterator_t\<close> and \<open>LinearScanKeyProvider\<close> of
  \<open>src/src/enclave/HashMap.cpp\<close>). An iterator is the bucket, the pages of its chain visited so far
  and the position on the last of them. The theorems state that a scan lists every key once, and
  what \<open>set_value\<close> does to a chain.
\<close>

section \<open>Iterators\<close>

record hm_iter =
  it_bucket :: nat
  it_nodes :: "page_no_t list"
  it_pos :: nat

definition it_clear :: "hm_iter \<Rightarrow> hm_iter" where
  "it_clear it = it\<lparr>it_nodes := [], it_bucket := NUM_BUCKETS\<rparr>"

definition at_end :: "hm_iter \<Rightarrow> bool" where
  "at_end it \<longleftrightarrow> NUM_BUCKETS \<le> it_bucket it"

function next_bucket :: "abstract_map \<Rightarrow> hm_store \<Rightarrow> hm_iter \<Rightarrow> hm_iter result" where
  "next_bucket m st it =
     (if it_bucket it < NUM_BUCKETS
      then (case get_node (it_bucket it) False False m st of
              Inl e \<Rightarrow> Inl e
            | Inr (Some q, _) \<Rightarrow> Inr (it\<lparr>it_nodes := [q]\<rparr>)
            | Inr (None, _) \<Rightarrow> next_bucket m st (it\<lparr>it_nodes := [], it_bucket := it_bucket it + 1\<rparr>))
      else if it_bucket it = NUM_BUCKETS then Inr (it_clear it) else Inr it)"
  by pat_completeness auto

termination by (relation "measure (\<lambda>(m, st, it). NUM_BUCKETS - it_bucket it)") auto

declare next_bucket.simps [simp del]

definition iterator_at :: "nat \<Rightarrow> abstract_map \<Rightarrow> hm_store \<Rightarrow> hm_iter result" where
  "iterator_at bpos m st =
     (let it = \<lparr>it_bucket = bpos, it_nodes = [], it_pos = 0\<rparr>
      in if bpos < NUM_BUCKETS then next_bucket m st it else Inr it)"

definition it_begin :: "abstract_map \<Rightarrow> hm_store \<Rightarrow> hm_iter result" where
  "it_begin m st = iterator_at 0 m st"

definition it_end :: "abstract_map \<Rightarrow> hm_store \<Rightarrow> hm_iter result" where
  "it_end m st = iterator_at NUM_BUCKETS m st"

definition it_entry :: "hm_store \<Rightarrow> hm_iter \<Rightarrow> (string \<times> event_id_t) result" where
  "it_entry st it =
     (if at_end it then Inl (RuntimeError ''Alreayd at end'')
      else rbind (get_page (last (it_nodes it)) st) (hnode_get_at (it_pos it)))"

definition it_key :: "hm_store \<Rightarrow> hm_iter \<Rightarrow> string result" where
  "it_key st it = rbind (it_entry st it) (\<lambda>e. Inr (fst e))"

definition it_value :: "hm_store \<Rightarrow> hm_iter \<Rightarrow> event_id_t result" where
  "it_value st it = rbind (it_entry st it) (\<lambda>e. Inr (snd e))"

definition it_next :: "abstract_map \<Rightarrow> hm_store \<Rightarrow> hm_iter \<Rightarrow> hm_iter result" where
  "it_next m st it =
     (if at_end it then Inl (RuntimeError ''Alreayd at end'')
      else if it_nodes it = [] then Inl (RuntimeError ''Cannot increment HashMap iterator: invalid state'')
      else
        rbind (get_page (last (it_nodes it)) st) (\<lambda>current.
          if n_size current \<le> it_pos it + 1
          then rbind (get_successor (last (it_nodes it)) False False st) (\<lambda>(succ, _).
                 case succ of
                   Some q \<Rightarrow> Inr (it\<lparr>it_pos := 0, it_nodes := it_nodes it @ [q]\<rparr>)
                 | None \<Rightarrow> next_bucket m st (it\<lparr>it_pos := 0, it_bucket := it_bucket it + 1\<rparr>))
          else Inr (it\<lparr>it_pos := it_pos it + 1\<rparr>)))"

definition it_equal :: "hm_iter \<Rightarrow> hm_iter \<Rightarrow> bool" where
  "it_equal a b \<longleftrightarrow> it_bucket a = it_bucket b \<and> length (it_nodes a) = length (it_nodes b) \<and> it_pos a = it_pos b"

section \<open>Linear scans\<close>

definition get_next_key :: "abstract_map \<Rightarrow> hm_store \<Rightarrow> hm_iter \<Rightarrow> (string option \<times> hm_iter) result" where
  "get_next_key m st it =
     (if at_end it then Inr (None, it)
      else rbind (it_key st it) (\<lambda>key. rbind (it_next m st it) (\<lambda>it'. Inr (Some key, it'))))"

text \<open>The keys a client of the provider obtains by calling \<open>get_next_key\<close> until it returns false.\<close>

partial_function (option) scan_keys ::
  "abstract_map \<Rightarrow> hm_store \<Rightarrow> hm_iter \<Rightarrow> string list \<Rightarrow> string list result option" where
  "scan_keys m st it acc =
     (case get_next_key m st it of
        Inl e \<Rightarrow> Some (Inl e)
      | Inr r \<Rightarrow>
         (case fst r of
            None \<Rightarrow> Some (Inr (rev acc))
          | Some key \<Rightarrow> scan_keys m st (snd r) (key # acc)))"

partial_function (option) count_rest ::
  "abstract_map \<Rightarrow> hm_store \<Rightarrow> hm_iter \<Rightarrow> nat \<Rightarrow> nat result option" where
  "count_rest m st it cnt =
     (if at_end it then Some (Inr cnt)
      else (case it_next m st it of
              Inl e \<Rightarrow> Some (Inl e)
            | Inr it' \<Rightarrow> count_rest m st it' (cnt + 1)))"

section \<open>Overwriting a value\<close>

fun increment_all :: "page_no_t list \<Rightarrow> hm_store \<Rightarrow> hm_store result" where
  "increment_all [] st = Inr st"
| "increment_all (q # qs) st =
     rbind (get_page q st) (\<lambda>n. increment_all qs (put_page q (increment_version_no n) st))"

definition set_value ::
  "(hm_entries \<Rightarrow> nat) \<Rightarrow> event_id_t \<Rightarrow> hm_iter \<Rightarrow> abstract_map \<Rightarrow> hm_store \<Rightarrow> (abstract_map \<times> hm_store) result" where
  "set_value bs new_value it m st =
     (if it_nodes it = [] then Inl (Fatal ''empty vector'')
      else rbind (it_key st it) (\<lambda>key.
           rbind (get_page (last (it_nodes it)) st) (\<lambda>current.
             let st1 = put_page (last (it_nodes it)) (snd (hnode_insert bs key new_value current)) st
             in rbind (increment_all (rev (butlast (it_nodes it))) st1) (\<lambda>st2.
                  let bucket = m_buckets m (it_bucket it)
                  in Inr (set_bucket (it_bucket it) (bucket\<lparr>b_version := increment (b_version bucket)\<rparr>) m, st2)))))"

section \<open>A scan visits every entry\<close>

definition chain_keys :: "hm_store \<Rightarrow> page_no_t list \<Rightarrow> string list" where
  "chain_keys st qs = map fst (chain_entries st qs)"

definition keys_from :: "hm_store \<Rightarrow> (nat \<Rightarrow> page_no_t list) \<Rightarrow> nat \<Rightarrow> string list" where
  "keys_from st C b = concat (map (\<lambda>b. chain_keys st (C b)) [b..<NUM_BUCKETS])"

text \<open>\<open>it_at st C it ks\<close>: the iterator is valid and \<open>ks\<close> are the keys it has still to visit.\<close>

definition it_at :: "hm_store \<Rightarrow> (nat \<Rightarrow> page_no_t list) \<Rightarrow> hm_iter \<Rightarrow> string list \<Rightarrow> bool" where
  "it_at st C it ks \<longleftrightarrow>
     (at_end it \<and> ks = []) \<or>
     (it_bucket it < NUM_BUCKETS \<and>
      (\<exists>ps q qs. it_nodes it = ps @ [q] \<and> C (it_bucket it) = ps @ q # qs \<and>
         it_pos it < length (n_entries (node_at st q)) \<and>
         ks = drop (it_pos it) (map fst (n_entries (node_at st q))) @ chain_keys st qs
              @ keys_from st C (it_bucket it + 1)))"

lemma chain_keys_simps [simp]:
  "chain_keys st [] = []"
  "chain_keys st (q # qs) = map fst (n_entries (node_at st q)) @ chain_keys st qs"
  by (simp_all add: chain_keys_def)

lemma keys_from_step: "b < NUM_BUCKETS \<Longrightarrow> keys_from st C b = chain_keys st (C b) @ keys_from st C (b + 1)"
  by (simp add: keys_from_def upt_conv_Cons)

lemma keys_from_end [simp]: "NUM_BUCKETS \<le> b \<Longrightarrow> keys_from st C b = []"
  by (simp add: keys_from_def)

lemma next_bucket_correct:
  assumes "hm_rep bs m st C" and "it_pos it = 0" and "it_bucket it \<le> NUM_BUCKETS"
  shows "\<exists>it'. next_bucket m st it = Inr it' \<and> it_at st C it' (keys_from st C (it_bucket it))"
  using assms(2,3)
proof (induction "NUM_BUCKETS - it_bucket it" arbitrary: it)
  case 0
  then show ?case
    by (auto simp: next_bucket.simps [of m st it] it_at_def at_end_def it_clear_def)
next
  case (Suc d)
  then have b: "it_bucket it < NUM_BUCKETS" by simp
  note ch = hm_repD(4) [OF assms(1), of "it_bucket it"]
  show ?case
  proof (cases "C (it_bucket it)")
    case Nil
    have "get_node (it_bucket it) False False m st = Inr (None, m, st)"
      using get_node_read [OF ch] Nil by simp
    then have "next_bucket m st it = next_bucket m st (it\<lparr>it_nodes := [], it_bucket := it_bucket it + 1\<rparr>)"
      using b by (subst next_bucket.simps) simp
    with Suc.hyps(1) [of "it\<lparr>it_nodes := [], it_bucket := it_bucket it + 1\<rparr>"] Suc.hyps(2) Suc.prems b Nil
    show ?thesis by (simp add: keys_from_step)
  next
    case (Cons q qs)
    have ne: "n_entries (node_at st q) \<noteq> []"
      using hm_repD(3) [OF assms(1), of "it_bucket it"] Cons by (simp add: bucket_rep_def node_ok_def)
    have "get_node (it_bucket it) False False m st = Inr (Some q, m, st)"
      using get_node_read [OF ch] Cons by simp
    then have "next_bucket m st it = Inr (it\<lparr>it_nodes := [q]\<rparr>)"
      using b by (subst next_bucket.simps) simp
    with Suc.prems b Cons ne show ?thesis
      by (auto simp: it_at_def keys_from_step)
  qed
qed

lemma it_next_correct:
  assumes rep: "hm_rep bs m st C" and it: "it_at st C it (k # ks)"
  shows "it_key st it = Inr k \<and> (\<exists>it'. it_next m st it = Inr it' \<and> it_at st C it' ks)"
proof -
  let ?b = "it_bucket it"
  obtain ps q qs where b: "?b < NUM_BUCKETS" and nodes: "it_nodes it = ps @ [q]"
    and C: "C ?b = ps @ q # qs" and pos: "it_pos it < length (n_entries (node_at st q))"
    and ks: "k # ks = drop (it_pos it) (map fst (n_entries (node_at st q))) @ chain_keys st qs @ keys_from st C (?b + 1)"
    using it by (auto simp: it_at_def)
  note br = hm_repD(3) [OF rep, of ?b, unfolded bucket_rep_def C]
  have ne: "\<not> at_end it" using b by (simp add: at_end_def)
  obtain n where n: "pages st q = Some n" "q \<noteq> INVALID_PAGE_NO"
    using chain_pages [OF conjunct1 [OF br], of q] chain_valid [OF conjunct1 [OF br], of q] by auto
  have size: "n_size n = length (n_entries n)" using br n by (auto simp: node_ok_def)
  have key: "it_key st it = Inr k"
    using ks pos ne n
    by (auto simp: it_key_def it_entry_def nodes get_page_def hnode_get_at_def Cons_nth_drop_Suc [symmetric])
  have ks': "ks = drop (it_pos it + 1) (map fst (n_entries n)) @ chain_keys st qs @ keys_from st C (?b + 1)"
    using ks pos n by (simp add: Cons_nth_drop_Suc [symmetric])
  show ?thesis
  proof (cases "it_pos it + 1 < length (n_entries n)")
    case True
    with n size ne nodes have "it_next m st it = Inr (it\<lparr>it_pos := it_pos it + 1\<rparr>)"
      by (simp add: it_next_def get_page_def)
    with key True b nodes C ks' n show ?thesis by (auto simp: it_at_def)
  next
    case False
    have tail: "chain st (n_successor n) (n_successor_version n) qs"
      using chain_tail [OF conjunct1 [OF br]] n by simp
    note succ = get_successor_read [OF n tail]
    show ?thesis
    proof (cases qs)
      case Nil
      with False n size ne nodes succ
      have "it_next m st it = next_bucket m st (it\<lparr>it_pos := 0, it_bucket := ?b + 1\<rparr>)"
        by (simp add: it_next_def get_page_def)
      with next_bucket_correct [OF rep, of "it\<lparr>it_pos := 0, it_bucket := ?b + 1\<rparr>"] key b ks' Nil False
      show ?thesis by simp
    next
      case (Cons r rs)
      with False n size ne nodes succ
      have "it_next m st it = Inr (it\<lparr>it_pos := 0, it_nodes := it_nodes it @ [r]\<rparr>)"
        by (simp add: it_next_def get_page_def)
      moreover have "n_entries (node_at st r) \<noteq> []" using br Cons by (simp add: node_ok_def)
      ultimately show ?thesis using key b nodes C ks' Cons False
        by (auto simp: it_at_def intro!: exI [of _ "ps @ [q]"])
    qed
  qed
qed

lemma it_at_Nil: "it_at st C it [] \<Longrightarrow> at_end it"
  by (auto simp: it_at_def)

lemma it_at_Cons: "it_at st C it (k # ks) \<Longrightarrow> \<not> at_end it"
  by (auto simp: it_at_def at_end_def)

lemma scan_keys_correct:
  "hm_rep bs m st C \<Longrightarrow> it_at st C it ks \<Longrightarrow> scan_keys m st it acc = Some (Inr (rev acc @ ks))"
proof (induction ks arbitrary: it acc)
  case Nil
  then show ?case by (subst scan_keys.simps) (simp add: get_next_key_def it_at_Nil)
next
  case (Cons k ks)
  with it_next_correct [OF Cons.prems] obtain it' where
    "it_key st it = Inr k" "it_next m st it = Inr it'" "it_at st C it' ks" by blast
  with Cons.IH [OF Cons.prems(1)] it_at_Cons [OF Cons.prems(2)] show ?case
    by (subst scan_keys.simps) (simp add: get_next_key_def)
qed

lemma count_rest_correct:
  "hm_rep bs m st C \<Longrightarrow> it_at st C it ks \<Longrightarrow> count_rest m st it cnt = Some (Inr (cnt + length ks))"
proof (induction ks arbitrary: it cnt)
  case Nil
  then show ?case by (subst count_rest.simps) (simp add: it_at_Nil)
next
  case (Cons k ks)
  with it_next_correct [OF Cons.prems] obtain it' where
    "it_next m st it = Inr it'" "it_at st C it' ks" by blast
  with Cons.IH [OF Cons.prems(1)] it_at_Cons [OF Cons.prems(2)] show ?case
    by (subst count_rest.simps) simp
qed

section \<open>Properties\<close>

lemma to_bucket_less: "to_bucket h k < NUM_BUCKETS"
  by (simp add: to_bucket_def NUM_BUCKETS_def)

lemma keys_from_set:
  assumes "hm_rep bs m st C"
  shows "set (keys_from st C 0) = dom (hm_abs st C)"
proof -
  have "k \<in> set (chain_keys st (C b)) \<Longrightarrow> to_bucket hash_string k = b" for k b
    using hm_repD(3) [OF assms, of b] by (auto simp: bucket_rep_def chain_keys_def)
  moreover have "k \<in> set (keys_from st C 0) \<longleftrightarrow> (\<exists>b<NUM_BUCKETS. k \<in> set (chain_keys st (C b)))" for k
    by (auto simp: keys_from_def)
  moreover have "k \<in> dom (hm_abs st C) \<longleftrightarrow> k \<in> set (chain_keys st (C (to_bucket hash_string k)))" for k
    by (simp add: hm_abs_def chain_keys_def dom_def map_of_eq_None_iff)
  ultimately have "k \<in> set (keys_from st C 0) \<longleftrightarrow> k \<in> dom (hm_abs st C)" for k
    using to_bucket_less [of hash_string k] by metis
  then show ?thesis by blast
qed

lemma keys_from_distinct:
  assumes "hm_rep bs m st C"
  shows "distinct (keys_from st C b)"
proof -
  have hash: "k \<in> set (chain_keys st (C b)) \<Longrightarrow> to_bucket hash_string k = b" for k b
    using hm_repD(3) [OF assms, of b] by (auto simp: bucket_rep_def chain_keys_def)
  have "distinct (chain_keys st (C b))" for b
    using hm_repD(3) [OF assms, of b] by (simp add: bucket_rep_def chain_keys_def)
  moreover have "b < b' \<Longrightarrow> set (chain_keys st (C b)) \<inter> set (chain_keys st (C b')) = {}" for b b'
    using hash by blast
  ultimately have "distinct (concat (map (\<lambda>b. chain_keys st (C b)) [b..<n]))" for n
    by (induction n) (auto simp: disjoint_iff dest: hash)
  then show ?thesis by (simp add: keys_from_def)
qed

text \<open>
  Property C14. A linear scan with \<open>LinearScanKeyProvider\<close> ends and returns every key of the table
  exactly once and nothing else, and \<open>count_rest\<close> of a fresh provider is the number of keys.
\<close>

theorem linear_scan_complete:
  assumes "hm_rep bs m st C"
  shows "\<exists>it ks. it_begin m st = Inr it \<and> scan_keys m st it [] = Some (Inr ks) \<and> distinct ks \<and>
           set ks = dom (hm_abs st C) \<and> count_rest m st it 0 = Some (Inr (length ks))"
proof -
  have "NUM_BUCKETS > 0" by (simp add: NUM_BUCKETS_def)
  then obtain it where "it_begin m st = Inr it" "it_at st C it (keys_from st C 0)"
    using next_bucket_correct [OF assms, of "\<lparr>it_bucket = 0, it_nodes = [], it_pos = 0\<rparr>"]
    by (auto simp: it_begin_def iterator_at_def)
  with scan_keys_correct [OF assms] count_rest_correct [OF assms] keys_from_set [OF assms] keys_from_distinct [OF assms]
  show ?thesis by fastforce
qed

theorem linear_scan_complete_witness:
  "\<exists>it ks. it_begin one_map one_store = Inr it \<and> scan_keys one_map one_store it [] = Some (Inr ks) \<and> distinct ks \<and>
     set ks = dom (hm_abs one_store one_chain) \<and> count_rest one_map one_store it 0 = Some (Inr (length ks))"
  by (rule linear_scan_complete [OF one_rep])

lemma set_value_first:
  assumes rep: "hm_rep bs m st C" and it: "it_at st C it (k # ks)" and one: "it_nodes it = [q]"
  shows "\<exists>m' st'. set_value bs v it m st = Inr (m', st') \<and> hm_rep bs m' st' C \<and>
           hm_abs st' C = (hm_abs st C)(k \<mapsto> v) \<and> (\<forall>b. chain_keys st' (C b) = chain_keys st (C b))"
proof -
  let ?b = "it_bucket it"
  obtain qs where C: "C ?b = q # qs" and pos: "it_pos it < length (n_entries (node_at st q))"
    and k: "k = fst (n_entries (node_at st q) ! it_pos it)" and ne: "\<not> at_end it"
    using it one by (auto simp: it_at_def at_end_def Cons_nth_drop_Suc [symmetric])
  note br = hm_repD(3) [OF rep, of ?b, unfolded bucket_rep_def C]
  obtain n where n: "pages st q = Some n" "q \<noteq> INVALID_PAGE_NO" "n_version n = b_version (m_buckets m ?b)"
      "b_page_no (m_buckets m ?b) = q"
    and ch: "chain st (n_successor n) (n_successor_version n) qs"
    using br by (auto split: option.splits)
  let ?st' = "put_page q (snd (hnode_insert bs k v n)) st"
  let ?bk = "\<lparr>b_page_no = q, b_version = increment (n_version n)\<rparr>"
  have kin: "k \<in> fst ` set (n_entries n)" using k pos n by simp
  then have kb: "to_bucket hash_string k = ?b" using br n by auto
  have "it_key st it = Inr k" using it_next_correct [OF rep it] by simp
  then have run: "set_value bs v it m st = Inr (set_bucket ?b ?bk m, ?st')"
    using n by (cases "m_buckets m ?b") (simp add: set_value_def one get_page_def Let_def)
  have ins: "chain_inserted bs k v q qs st ?st' qs"
    using br n ch kin hm_repD(1,2) [OF rep] by (intro insert_into_last) (auto simp: node_ok_def)
  have new: "bucket_rep bs ?b ?bk ?st' (q # qs)"
    using ins br n kb chain_next [OF hm_repD(2) [OF rep], of _ _ "q # qs"]
    by (intro bucket_rep_inserted [where k = k and v = v and st = st and qs = qs]) auto
  have "hm_rep bs (set_bucket ?b ?bk m) ?st' (C(?b := q # qs)) \<and>
        hm_abs ?st' (C(?b := q # qs)) = (hm_abs st C)(k \<mapsto> v)"
    using ins C by (intro hm_rep_update [OF rep kb [symmetric] new]) (auto simp: chain_inserted_def)
  moreover have "C(?b := q # qs) = C" using C by auto
  moreover have "chain_keys ?st' (C b) = chain_keys st (C b)" for b
  proof (cases "b = ?b")
    case True
    then show ?thesis using ins C kin n by (simp add: chain_keys_def chain_inserted_def map_fst_al_put image_Un)
  next
    case False
    have "unchanged_outside (set (C ?b)) st ?st'" using ins C by (simp add: chain_inserted_def)
    then show ?thesis using hm_rep_same [OF rep _ False] unfolding chain_keys_def by (metis chain_entries_cong)
  qed
  ultimately show ?thesis using run by auto
qed

lemma increment_all_pages:
  assumes "distinct qs" and "\<And>q. q \<in> set qs \<Longrightarrow> q \<noteq> INVALID_PAGE_NO \<and> pages st q \<noteq> None"
  shows "\<exists>st'. increment_all qs st = Inr st' \<and>
           (\<forall>x. pages st' x = (if x \<in> set qs then Some (increment_version_no (node_at st x)) else pages st x))"
  using assms
proof (induction qs arbitrary: st)
  case (Cons q qs)
  from Cons.prems(2) [of q] obtain n where n: "pages st q = Some n" "q \<noteq> INVALID_PAGE_NO" by auto
  let ?st1 = "put_page q (increment_version_no n) st"
  have "x \<in> set qs \<Longrightarrow> x \<noteq> INVALID_PAGE_NO \<and> pages ?st1 x \<noteq> None" for x
    using Cons.prems(2) [of x] by auto
  with Cons.IH [of ?st1] Cons.prems(1) obtain st' where "increment_all qs ?st1 = Inr st'"
    "\<forall>x. pages st' x = (if x \<in> set qs then Some (increment_version_no (node_at ?st1 x)) else pages ?st1 x)"
    by auto
  with Cons.prems(1) n show ?case by (auto simp: get_page_def)
qed simp

text \<open>
  \<open>set_value\<close> on an entry of the first page of a chain updates exactly this key.
\<close>

lemma set_value_on_first_page:
  assumes "hm_rep bs m st C" and "it_at st C it (k # ks)" and "it_nodes it = [q]"
  shows "\<exists>m' st'. set_value bs v it m st = Inr (m', st') \<and> hm_rep bs m' st' C \<and>
           hm_abs st' C = (hm_abs st C)(k \<mapsto> v)"
  using set_value_first [OF assms] by blast

text \<open>A lookup that finds the second page of the chain with another version than expected.\<close>

lemma hm_get_stale_second:
  assumes "b_page_no (m_buckets m (to_bucket hash_string k)) = p" "p \<noteq> INVALID_PAGE_NO"
    and "pages st p = Some n" "n_version n = b_version (m_buckets m (to_bucket hash_string k))"
    and "k \<notin> fst ` set (n_entries n)" "n_successor n = r" "r \<noteq> INVALID_PAGE_NO"
    and "pages st r = Some n'" "n_version n' \<noteq> n_successor_version n"
  shows "hm_get k m st = Some (Inl StalenessDetected)"
proof -
  have "get_node (to_bucket hash_string k) False False m st = Inr (Some p, m, st)"
    using assms by (simp add: get_node_def get_node_internal_def get_page_def)
  moreover have "get_successor p False False st = Inl StalenessDetected"
    using assms by (simp add: get_successor_def get_page_def get_node_internal_def)
  moreover have "hnode_get k (n_entries n) = None"
    using assms(5) by (simp add: hnode_get_map_of map_of_eq_None_iff)
  ultimately show ?thesis using assms(2,3)
    by (simp add: hm_get_def hm_get_loop.simps get_page_def)
qed

lemma set_value_later:
  assumes rep: "hm_rep bs m st C" and it: "it_at st C it (k # ks)" and nodes: "it_nodes it = p # us @ [q]"
  shows "\<exists>m' st'. set_value bs v it m st = Inr (m', st') \<and> hm_get k m' st' = Some (Inl StalenessDetected)"
proof -
  let ?b = "it_bucket it" and ?r = "hd (us @ [q])"
  obtain qs where C: "C ?b = p # us @ q # qs" and k: "k = fst (n_entries (node_at st q) ! it_pos it)"
    and pos: "it_pos it < length (n_entries (node_at st q))"
    using it nodes by (auto simp: it_at_def at_end_def Cons_nth_drop_Suc [symmetric] append_eq_Cons_conv)
  note br = hm_repD(3) [OF rep, of ?b, unfolded bucket_rep_def C]
  have kin: "k \<in> fst ` set (n_entries (node_at st q))" using k pos by simp
  then have kb: "to_bucket hash_string k = ?b" and kp: "k \<notin> fst ` set (n_entries (node_at st p))"
    using br by (simp_all add: image_Un) blast+
  have live: "x \<noteq> INVALID_PAGE_NO \<and> (\<exists>n. pages st x = Some n)" if "x \<in> set (p # us @ q # qs)" for x
    using chain_pages [OF conjunct1 [OF br] that] chain_valid [OF conjunct1 [OF br] that] by blast
  obtain n np where n: "pages st q = Some n" "q \<noteq> INVALID_PAGE_NO" and np: "pages st p = Some np" "p \<noteq> INVALID_PAGE_NO"
    using live [of q] live [of p] by auto
  have ver: "n_version np = b_version (m_buckets m ?b)" "b_page_no (m_buckets m ?b) = p"
    using br np by auto
  have link: "n_successor np = ?r \<and> n_successor_version np = n_version (node_at st ?r) \<and> ?r \<noteq> INVALID_PAGE_NO"
    using br np by (cases us) (auto split: option.splits)
  let ?n1 = "snd (hnode_insert bs k v n)"
  let ?st1 = "put_page q ?n1 st"
  have dist: "distinct (rev (p # us))" "q \<notin> set (p # us)" using br by auto
  obtain st2 where st2: "increment_all (rev (p # us)) ?st1 = Inr st2"
    "\<And>x. pages st2 x = (if x \<in> set (rev (p # us)) then Some (increment_version_no (node_at ?st1 x)) else pages ?st1 x)"
  proof -
    have "x \<noteq> INVALID_PAGE_NO \<and> pages ?st1 x \<noteq> None" if "x \<in> set (rev (p # us))" for x
      using live [of x] that by auto
    from increment_all_pages [OF dist(1) this] that show thesis by blast
  qed
  let ?bk = "(m_buckets m ?b)\<lparr>b_version := increment (b_version (m_buckets m ?b))\<rparr>"
  have "it_key st it = Inr k" using it_next_correct [OF rep it] by simp
  then have run: "set_value bs v it m st = Inr (set_bucket ?b ?bk m, st2)"
    using n st2(1) by (simp add: set_value_def nodes get_page_def Let_def butlast_append)
  have "n_version ?n1 = increment (n_version n)"
    using kin n by (simp add: hnode_insert_room)
  then have "\<exists>nr. pages st2 ?r = Some nr \<and> n_version nr = increment (n_version (node_at st ?r))"
    using st2(2) [of ?r] dist n by (cases us) (auto simp: increment_version_no_def)
  then obtain nr where nr: "pages st2 ?r = Some nr" "n_version nr \<noteq> n_successor_version np"
    using link increment_neq by metis
  have "hm_get k (set_bucket ?b ?bk m) st2 = Some (Inl StalenessDetected)"
    using st2(2) [of p] dist np ver link kp nr kb
    by (intro hm_get_stale_second [where n = "increment_version_no np" and r = ?r and p = p and n' = nr])
      (auto simp: increment_version_no_def set_bucket_def)
  with run show ?thesis by blast
qed

text \<open>
  \<open>set_value\<close> on an entry of a later page of a chain makes the table unreadable at this
  key: it increments the versions of the pages on the way but not the successor versions recorded
  in them, so the next lookup of the key reports a stale page although no page was tampered with.
\<close>

lemma set_value_on_later_page_breaks_chain:
  assumes "hm_rep bs m st C" and "it_at st C it (k # ks)" and "it_nodes it = p # us @ [q]"
  shows "\<exists>m' st'. set_value bs v it m st = Inr (m', st') \<and> hm_get k m' st' = Some (Inl StalenessDetected)"
  using assms by (rule set_value_later)

text \<open>A bucket with two pages: the keys \<open>a\<close> and \<open>cuj\<close> have the same bucket.\<close>

lemma bucket_a: "to_bucket hash_string ''a'' = 2021"
  by (simp add: to_bucket_def murmur_eval NUM_BUCKETS_def)

lemma bucket_cuj: "to_bucket hash_string ''cuj'' = 2021"
  by (simp add: to_bucket_def murmur_eval NUM_BUCKETS_def)

definition two_store :: hm_store where
  "two_store = \<lparr>pages = [1 \<mapsto> one_node\<lparr>n_successor := 2, n_successor_version := 1\<rparr>,
                         2 \<mapsto> one_node\<lparr>n_entries := [(''cuj'', INVALID_EVENT)]\<rparr>], m_next_page_no = 3\<rparr>"

definition two_chain :: "nat \<Rightarrow> page_no_t list" where
  "two_chain b = (if b = 2021 then [1, 2] else [])"

lemma two_rep: "hm_rep (\<lambda>es. 24 + 1000 * length es) one_map two_store two_chain"
proof -
  have "store_wf two_store" by (simp add: store_wf_def two_store_def)
  moreover have "bucket_rep (\<lambda>es. 24 + 1000 * length es) b (m_buckets one_map b) two_store (two_chain b)" for b
    by (simp add: bucket_rep_def one_map_def two_store_def one_node_def two_chain_def set_bucket_def
        empty_map_def node_at_def full_prefix_def node_ok_def INVALID_PAGE_NO_def bucket_a bucket_cuj MAX_NODE_SIZE_def)
  ultimately show ?thesis
    using node_layout_linear [of 24 1000] by (auto simp: hm_rep_def two_chain_def MAX_NODE_SIZE_def)
qed

end
