(* ===== verification/Multi_Map.thy ===== *)
theory Multi_Map
  imports Hash_Map
begin

text \<open>
  The paged multi-map of the secondary indexes: \<open>src/src/enclave/MultiMap.cpp\<close> and the entry
  operations of \<open>src/src/enclave/MultiMapNode.h\<close>. It maps the 64-bit hash of the indexed part of a
  document to the keys of the objects that have this hash. Result sets
  (\<open>std::unordered_set\<close>) are lists of their elements; the order of a list has no meaning.
\<close>

section \<open>Nodes\<close>

type_synonym mm_node = "(u64, string) node"
type_synonym mm_entries = "(u64 \<times> string) list"
type_synonym mm_store = "mm_node page_store"

fun remove_entry :: "'k \<Rightarrow> 'v \<Rightarrow> ('k \<times> 'v) list \<Rightarrow> ('k \<times> 'v) list option" where
  "remove_entry key value [] = None"
| "remove_entry key value ((k, v) # es) =
     (if key = k \<and> value = v then Some es else map_option ((#) (k, v)) (remove_entry key value es))"

definition mnode_remove :: "'k \<Rightarrow> 'v \<Rightarrow> ('k, 'v) node \<Rightarrow> bool \<times> ('k, 'v) node" where
  "mnode_remove key value n =
     (case remove_entry key value (n_entries n) of
        None \<Rightarrow> (False, n)
      | Some es \<Rightarrow> (True, n\<lparr>n_entries := es, n_size := n_size n - 1, n_version := increment (n_version n)\<rparr>))"

definition mnode_clear :: "('k, 'v) node \<Rightarrow> nat \<times> ('k, 'v) node" where
  "mnode_clear n = (n_size n, n\<lparr>n_entries := [], n_size := 0\<rparr>)"

fun mnode_find_union :: "'k \<Rightarrow> ('k \<times> 'v) list \<Rightarrow> 'v list \<Rightarrow> 'v list" where
  "mnode_find_union key [] out = out"
| "mnode_find_union key ((k, v) # es) out = mnode_find_union key es (if key = k then List.insert v out else out)"

definition mnode_insert ::
  "(('k \<times> 'v) list \<Rightarrow> nat) \<Rightarrow> 'k \<Rightarrow> 'v \<Rightarrow> ('k, 'v) node \<Rightarrow> bool \<times> ('k, 'v) node" where
  "mnode_insert bs key value n =
     (if MAX_NODE_SIZE \<le> bs (n_entries n) then (False, n)
      else (True, n\<lparr>n_entries := n_entries n @ [(key, value)], n_size := n_size n + 1,
                     n_version := increment (n_version n)\<rparr>))"

fun mnode_value_count :: "'k \<Rightarrow> ('k \<times> 'v) list \<Rightarrow> nat \<Rightarrow> nat" where
  "mnode_value_count key [] cnt = cnt"
| "mnode_value_count key ((k, v) # es) cnt = mnode_value_count key es (if key = k then cnt + 1 else cnt)"

section \<open>The table\<close>

partial_function (option) mm_insert_loop ::
  "(mm_entries \<Rightarrow> nat) \<Rightarrow> u64 \<Rightarrow> string \<Rightarrow> page_no_t \<Rightarrow> mm_store \<Rightarrow> mm_store result option" where
  "mm_insert_loop bs key value q st =
     (case get_page q st of
        Inl e \<Rightarrow> Some (Inl e)
      | Inr n \<Rightarrow>
         (case mnode_insert bs key value n of (created, n') \<Rightarrow>
            if created then Some (Inr (put_page q n' st))
            else
              (case get_successor q True False st of
                 Inl e \<Rightarrow> Some (Inl e)
               | Inr res \<Rightarrow>
                  (case fst res of
                     None \<Rightarrow> Some (Inl (Fatal ''empty page handle''))
                   | Some r \<Rightarrow> mm_insert_loop bs key value r (snd res)))))"

definition mm_insert ::
  "(mm_entries \<Rightarrow> nat) \<Rightarrow> u64 \<Rightarrow> string \<Rightarrow> abstract_map \<Rightarrow> mm_store \<Rightarrow> (abstract_map \<times> mm_store) result option" where
  "mm_insert bs key value m st =
     (case get_node (to_bucket hash_int64 key) True False m st of
        Inl e \<Rightarrow> Some (Inl e)
      | Inr (None, _) \<Rightarrow> Some (Inl (Fatal ''empty page handle''))
      | Inr (Some q, m1, st1) \<Rightarrow>
         (case mm_insert_loop bs key value q st1 of
            None \<Rightarrow> None
          | Some (Inl e) \<Rightarrow> Some (Inl e)
          | Some (Inr st2) \<Rightarrow> Some (Inr (m1\<lparr>m_size := m_size m1 + 1\<rparr>, st2))))"

partial_function (option) mm_remove_loop ::
  "u64 \<Rightarrow> string \<Rightarrow> page_no_t option \<Rightarrow> mm_store \<Rightarrow> (bool \<times> mm_store) result option" where
  "mm_remove_loop key value node st =
     (case node of
        None \<Rightarrow> Some (Inr (False, st))
      | Some q \<Rightarrow>
         (case get_page q st of
            Inl e \<Rightarrow> Some (Inl e)
          | Inr n \<Rightarrow>
             (case mnode_remove key value n of (removed, n') \<Rightarrow>
                if removed then Some (Inr (True, put_page q n' st))
                else
                  (case get_successor q False True st of
                     Inl e \<Rightarrow> Some (Inl e)
                   | Inr res \<Rightarrow> mm_remove_loop key value (fst res) (snd res)))))"

definition mm_remove ::
  "u64 \<Rightarrow> string \<Rightarrow> abstract_map \<Rightarrow> mm_store \<Rightarrow> (bool \<times> abstract_map \<times> mm_store) result option" where
  "mm_remove key value m st =
     (case get_node (to_bucket hash_int64 key) False True m st of
        Inl e \<Rightarrow> Some (Inl e)
      | Inr (node, m1, st1) \<Rightarrow>
         (case mm_remove_loop key value node st1 of
            None \<Rightarrow> None
          | Some (Inl e) \<Rightarrow> Some (Inl e)
          | Some (Inr (removed, st2)) \<Rightarrow>
              Some (Inr (removed, (if removed then m1\<lparr>m_size := m_size m1 - 1\<rparr> else m1), st2))))"

text \<open>The read-only walks over a chain share the loop; \<open>f\<close> is the operation on a node.\<close>

partial_function (option) mm_walk ::
  "(mm_entries \<Rightarrow> 'a \<Rightarrow> 'a) \<Rightarrow> page_no_t option \<Rightarrow> mm_store \<Rightarrow> 'a \<Rightarrow> 'a result option" where
  "mm_walk f node st acc =
     (case node of
        None \<Rightarrow> Some (Inr acc)
      | Some q \<Rightarrow>
         (case get_page q st of
            Inl e \<Rightarrow> Some (Inl e)
          | Inr n \<Rightarrow>
             (case get_successor q False False st of
                Inl e \<Rightarrow> Some (Inl e)
              | Inr res \<Rightarrow> mm_walk f (fst res) (snd res) (f (n_entries n) acc))))"

definition mm_read ::
  "(mm_entries \<Rightarrow> 'a \<Rightarrow> 'a) \<Rightarrow> u64 \<Rightarrow> abstract_map \<Rightarrow> mm_store \<Rightarrow> 'a \<Rightarrow> 'a result option" where
  "mm_read f key m st acc =
     (case get_node (to_bucket hash_int64 key) False False m st of
        Inl e \<Rightarrow> Some (Inl e)
      | Inr (node, m1, st1) \<Rightarrow> mm_walk f node st1 acc)"

definition mm_find_union :: "u64 \<Rightarrow> abstract_map \<Rightarrow> mm_store \<Rightarrow> string list \<Rightarrow> string list result option" where
  "mm_find_union key m st out = mm_read (mnode_find_union key) key m st out"

definition mm_estimate_value_count :: "u64 \<Rightarrow> abstract_map \<Rightarrow> mm_store \<Rightarrow> nat result option" where
  "mm_estimate_value_count key m st = mm_read (mnode_value_count key) key m st 0"

partial_function (option) mm_has_entry_loop ::
  "u64 \<Rightarrow> string \<Rightarrow> page_no_t option \<Rightarrow> mm_store \<Rightarrow> bool result option" where
  "mm_has_entry_loop key value node st =
     (case node of
        None \<Rightarrow> Some (Inr False)
      | Some q \<Rightarrow>
         (case get_page q st of
            Inl e \<Rightarrow> Some (Inl e)
          | Inr n \<Rightarrow>
             if hnode_has_entry key value (n_entries n) then Some (Inr True)
             else
               (case get_successor q False False st of
                  Inl e \<Rightarrow> Some (Inl e)
                | Inr res \<Rightarrow> mm_has_entry_loop key value (fst res) (snd res))))"

definition mm_has_entry :: "u64 \<Rightarrow> string \<Rightarrow> abstract_map \<Rightarrow> mm_store \<Rightarrow> bool result option" where
  "mm_has_entry key value m st =
     (case get_node (to_bucket hash_int64 key) False False m st of
        Inl e \<Rightarrow> Some (Inl e)
      | Inr (node, m1, st1) \<Rightarrow> mm_has_entry_loop key value node st1)"

fun mm_find_intersect :: "u64 \<Rightarrow> abstract_map \<Rightarrow> mm_store \<Rightarrow> string list \<Rightarrow> string list result option" where
  "mm_find_intersect key m st [] = Some (Inr [])"
| "mm_find_intersect key m st (v # vs) =
     (case mm_has_entry key v m st of
        None \<Rightarrow> None
      | Some (Inl e) \<Rightarrow> Some (Inl e)
      | Some (Inr found) \<Rightarrow>
         (case mm_find_intersect key m st vs of
            None \<Rightarrow> None
          | Some (Inl e) \<Rightarrow> Some (Inl e)
          | Some (Inr rest) \<Rightarrow> Some (Inr (if found then v # rest else rest))))"

datatype SetOperation = Intersect | Union

definition mm_find ::
  "u64 \<Rightarrow> abstract_map \<Rightarrow> mm_store \<Rightarrow> string list \<Rightarrow> SetOperation \<Rightarrow> string list result option" where
  "mm_find key m st out op =
     (case op of
        Intersect \<Rightarrow> mm_find_intersect key m st out
      | Union \<Rightarrow> mm_find_union key m st out)"

partial_function (option) mm_clear_chain ::
  "page_no_t option \<Rightarrow> u64 \<Rightarrow> mm_store \<Rightarrow> (u64 \<times> mm_store) result option" where
  "mm_clear_chain node sz st =
     (case node of
        None \<Rightarrow> Some (Inr (sz, st))
      | Some q \<Rightarrow>
         (case get_page q st of
            Inl e \<Rightarrow> Some (Inl e)
          | Inr n \<Rightarrow>
             (case mnode_clear n of (diff, n') \<Rightarrow>
                (case get_successor q False False (put_page q n' st) of
                   Inl e \<Rightarrow> Some (Inl e)
                 | Inr res \<Rightarrow> mm_clear_chain (fst res) (sz - word_of_nat diff) (snd res)))))"

fun mm_clear_from :: "nat list \<Rightarrow> abstract_map \<Rightarrow> mm_store \<Rightarrow> (abstract_map \<times> mm_store) result option" where
  "mm_clear_from [] m st = Some (Inr (m, st))"
| "mm_clear_from (i # is) m st =
     (case get_node i False False m st of
        Inl e \<Rightarrow> Some (Inl e)
      | Inr (node, m1, st1) \<Rightarrow>
         (case mm_clear_chain node (m_size m1) st1 of
            None \<Rightarrow> None
          | Some (Inl e) \<Rightarrow> Some (Inl e)
          | Some (Inr (sz, st2)) \<Rightarrow> mm_clear_from is (m1\<lparr>m_size := sz\<rparr>) st2))"

definition mm_clear :: "abstract_map \<Rightarrow> mm_store \<Rightarrow> (abstract_map \<times> mm_store) result option" where
  "mm_clear m st = mm_clear_from [0..<NUM_BUCKETS] m st"

section \<open>Entry lists\<close>

lemma remove_entry_eq:
  "remove_entry k v es = (if (k, v) \<in> set es then Some (remove1 (k, v) es) else None)"
  by (induction k v es rule: remove_entry.induct) auto

lemma mnode_remove_eq:
  "mnode_remove k v n =
     (if (k, v) \<in> set (n_entries n)
      then (True, n\<lparr>n_entries := remove1 (k, v) (n_entries n), n_size := n_size n - 1,
                     n_version := increment (n_version n)\<rparr>)
      else (False, n))"
  by (simp add: mnode_remove_def remove_entry_eq)

lemma set_mnode_find_union: "set (mnode_find_union k es out) = set out \<union> {v. (k, v) \<in> set es}"
  by (induction k es out rule: mnode_find_union.induct) auto

lemma mnode_value_count_eq: "mnode_value_count k es c = c + length (filter (\<lambda>e. fst e = k) es)"
  by (induction k es c rule: mnode_value_count.induct) auto

section \<open>Reading a chain\<close>

lemma mm_walk_correct:
  "chain st p v qs \<Longrightarrow>
   mm_walk f (chain_head qs) st acc = Some (Inr (fold (\<lambda>q. f (n_entries (node_at st q))) qs acc))"
proof (induction qs arbitrary: p v acc)
  case Nil
  then show ?case by (simp add: mm_walk.simps)
next
  case (Cons q qs)
  then obtain n where n: "pages st q = Some n" "q \<noteq> INVALID_PAGE_NO"
    and ch: "chain st (n_successor n) (n_successor_version n) qs"
    by (auto split: option.splits)
  have "get_successor q False False st = Inr (chain_head qs, st)"
    using get_successor_read [OF n ch] by (simp add: chain_head_def)
  with n Cons.IH [OF ch] show ?case by (subst mm_walk.simps) (simp add: get_page_def)
qed

lemma mm_has_entry_loop_correct:
  "chain st p v qs \<Longrightarrow>
   mm_has_entry_loop key value (chain_head qs) st = Some (Inr ((key, value) \<in> set (chain_entries st qs)))"
proof (induction qs arbitrary: p v)
  case Nil
  then show ?case by (simp add: mm_has_entry_loop.simps)
next
  case (Cons q qs)
  then obtain n where n: "pages st q = Some n" "q \<noteq> INVALID_PAGE_NO"
    and ch: "chain st (n_successor n) (n_successor_version n) qs"
    by (auto split: option.splits)
  have "get_successor q False False st = Inr (chain_head qs, st)"
    using get_successor_read [OF n ch] by (simp add: chain_head_def)
  with n Cons.IH [OF ch] show ?case
    by (subst mm_has_entry_loop.simps) (simp add: get_page_def hnode_has_entry_iff)
qed

lemma fold_find_union:
  "set (fold (\<lambda>q. mnode_find_union k (n_entries (node_at st q))) qs out) =
   set out \<union> {v. (k, v) \<in> set (chain_entries st qs)}"
  by (induction qs arbitrary: out) (auto simp: set_mnode_find_union)

lemma fold_value_count:
  "fold (\<lambda>q. mnode_value_count k (n_entries (node_at st q))) qs c =
   c + length (filter (\<lambda>e. fst e = k) (chain_entries st qs))"
  by (induction qs arbitrary: c) (simp_all add: mnode_value_count_eq)

section \<open>Changing a chain\<close>

definition size_ok :: "('k, 'v) node \<Rightarrow> bool" where
  "size_ok n \<longleftrightarrow> n_size n = length (n_entries n)"

text \<open>\<open>f\<close> is the effect on the multiset of the entries of the chain.\<close>

definition chain_updated ::
  "(('k \<times> 'v) multiset \<Rightarrow> ('k \<times> 'v) multiset) \<Rightarrow> page_no_t \<Rightarrow> page_no_t list \<Rightarrow> ('k, 'v) node page_store
    \<Rightarrow> ('k, 'v) node page_store \<Rightarrow> page_no_t list \<Rightarrow> bool" where
  "chain_updated f q qs st st' qs' \<longleftrightarrow>
     chain st' q (increment (n_version (node_at st q))) (q # qs') \<and>
     mset (chain_entries st' (q # qs')) = f (mset (chain_entries st (q # qs))) \<and>
     (qs' = qs \<or> qs' = qs @ [m_next_page_no st]) \<and>
     (\<forall>r\<in>set (q # qs'). size_ok (node_at st' r)) \<and>
     store_wf st' \<and> unchanged_outside (set (q # qs)) st st'"

lemma chain_updated_here:
  assumes st: "pages st q = Some n" "q \<noteq> INVALID_PAGE_NO" "store_wf st"
    and ch: "chain st (n_successor n) (n_successor_version n) qs" "q \<notin> set qs"
    and n': "n_version n' = increment (n_version n)" "n_successor n' = n_successor n"
      "n_successor_version n' = n_successor_version n" "size_ok n'"
    and ok: "\<forall>r\<in>set qs. size_ok (node_at st r)"
    and f: "f (mset (n_entries n) + mset (chain_entries st qs)) = mset (n_entries n') + mset (chain_entries st qs)"
  shows "chain_updated f q qs st (put_page q n' st) qs"
proof -
  let ?st = "put_page q n' st"
  have same: "\<And>r. r \<in> set qs \<Longrightarrow> pages ?st r = pages st r" using ch(2) by auto
  have "chain ?st q (increment (n_version n)) (q # qs)"
    using st(2) ch(1) chain_cong [OF same] n' by simp
  moreover have "chain_entries ?st qs = chain_entries st qs" by (rule chain_entries_cong [OF same])
  moreover have "\<forall>r\<in>set (q # qs). size_ok (node_at ?st r)" using ok n'(4) ch(2) by auto
  moreover have "store_wf ?st" using st by (auto intro: store_wf_put_page)
  ultimately show ?thesis
    unfolding chain_updated_def using st(1) f by (auto simp: unchanged_outside_def)
qed

lemma chain_updated_below:
  assumes st: "pages st q = Some n" "q \<noteq> INVALID_PAGE_NO" "store_wf st"
    and ch: "chain st (n_successor n) (n_successor_version n) (r # rs)" "q \<notin> set (r # rs)"
    and n: "size_ok n"
    and down: "chain_updated f r rs (put_page q (linked_node r n) st) st' rs'"
    and f: "f (mset (n_entries n) + mset (chain_entries st (r # rs))) = mset (n_entries n) + f (mset (chain_entries st (r # rs)))"
  shows "chain_updated f q (r # rs) st st' (r # rs')"
proof -
  let ?st1 = "put_page q (linked_node r n) st"
  have q_old: "q < m_next_page_no st" and q_fresh: "q \<noteq> m_next_page_no st"
    using st(1,3) by (auto simp: store_wf_def)
  have same: "\<And>p. p \<in> set (r # rs) \<Longrightarrow> pages ?st1 p = pages st p" using ch(2) by auto
  have qn: "pages st' q = Some (linked_node r n)"
    using down ch(2) q_old by (auto simp: chain_updated_def unchanged_outside_def)
  have ver: "n_version (node_at ?st1 r) = n_successor_version n"
    using ch by (auto split: option.splits)
  have "chain st' q (increment (n_version n)) (q # r # rs')"
  proof -
    have "chain st' r (increment (n_successor_version n)) (r # rs')"
      using down unfolding chain_updated_def ver by blast
    then show ?thesis using qn st(2) by simp
  qed
  moreover have "mset (chain_entries st' (q # r # rs')) = f (mset (chain_entries st (q # r # rs)))"
  proof -
    have eq: "chain_entries ?st1 (r # rs) = chain_entries st (r # rs)" by (rule chain_entries_cong [OF same])
    have "mset (chain_entries st' (r # rs')) = f (mset (chain_entries st (r # rs)))"
      using down unfolding chain_updated_def eq by blast
    then show ?thesis using qn st(1) f by simp
  qed
  moreover have "\<forall>p\<in>set (q # r # rs'). size_ok (node_at st' p)"
    using down qn n by (auto simp: chain_updated_def size_ok_def)
  moreover have "unchanged_outside (set (q # r # rs)) st st'"
    using down by (auto simp: chain_updated_def unchanged_outside_def)
  ultimately show ?thesis
    using down st(1) unfolding chain_updated_def by (auto simp del: chain_entries_simps)
qed

lemma mm_insert_here:
  assumes "pages st q = Some n" "q \<noteq> INVALID_PAGE_NO" "store_wf st"
    and "chain st (n_successor n) (n_successor_version n) qs" "q \<notin> set qs"
    and "\<forall>r\<in>set (q # qs). size_ok (node_at st r)" and "bs (n_entries n) < MAX_NODE_SIZE"
  shows "\<exists>st'. mm_insert_loop bs k v q st = Some (Inr st') \<and> chain_updated (add_mset (k, v)) q qs st st' qs \<and>
           st' = put_page q (snd (mnode_insert bs k v n)) st"
proof -
  have "mm_insert_loop bs k v q st = Some (Inr (put_page q (snd (mnode_insert bs k v n)) st))"
    using assms by (subst mm_insert_loop.simps) (simp add: get_page_def mnode_insert_def)
  moreover have "chain_updated (add_mset (k, v)) q qs st (put_page q (snd (mnode_insert bs k v n)) st) qs"
    using assms by (intro chain_updated_here) (auto simp: mnode_insert_def size_ok_def)
  ultimately show ?thesis by simp
qed

lemma mm_insert_step:
  assumes "pages st q = Some n" "q \<noteq> INVALID_PAGE_NO" "MAX_NODE_SIZE \<le> bs (n_entries n)"
    and "get_successor q True False st = Inr (Some r, st')"
  shows "mm_insert_loop bs k v q st = mm_insert_loop bs k v r st'"
  using assms by (subst mm_insert_loop.simps) (simp add: get_page_def mnode_insert_def)

lemma mm_insert_new_last:
  assumes st: "pages st q = Some n" "q \<noteq> INVALID_PAGE_NO" "store_wf st" "can_allocate st" "bs [] < MAX_NODE_SIZE"
    and n: "n_successor n = INVALID_PAGE_NO" "n_successor_version n = 0" "size_ok n"
    and full: "MAX_NODE_SIZE \<le> bs (n_entries n)"
  shows "\<exists>st'. mm_insert_loop bs k v q st = Some (Inr st')
           \<and> chain_updated (add_mset (k, v)) q [] st st' [m_next_page_no st]"
proof -
  let ?r = "m_next_page_no st"
  let ?st1 = "put_page q (linked_node ?r n) (snd (new_page empty_node st))"
  let ?e = "snd (mnode_insert bs k v empty_node)"
  let ?st2 = "put_page ?r ?e ?st1"
  have rq: "?r \<noteq> q" using next_fresh [OF st(3)] st(1) by auto
  have r: "?r \<noteq> INVALID_PAGE_NO" using st(4) by (rule next_usable)
  have e: "?e = empty_node\<lparr>n_entries := [(k, v)], n_size := 1, n_version := increment 0\<rparr>"
    using st(5) by (simp add: mnode_insert_def)
  have pg: "pages ?st1 ?r = Some empty_node" using rq by (simp add: new_page_def)
  have "mm_insert_loop bs k v q st = mm_insert_loop bs k v ?r ?st1"
    using st(1,2) full n rq by (intro mm_insert_step get_successor_create) auto
  also have "\<dots> = Some (Inr ?st2)"
    using pg r st(5) by (subst mm_insert_loop.simps) (simp add: get_page_def mnode_insert_def)
  finally have run: "mm_insert_loop bs k v q st = Some (Inr ?st2)" .
  have nxt: "?r < ?r + 1" using st(4) by (simp add: can_allocate_def plus_one_greater)
  have wf: "store_wf ?st2"
    using store_wf_new_page [OF st(3,4), of empty_node] st(1) rq
    by (intro store_wf_put_page) (auto simp: new_page_def)
  have "chain ?st2 q (increment (n_version (node_at st q))) [q, ?r]"
    using st(1,2) r rq [symmetric] n(2) by (simp add: e)
  moreover have "mset (chain_entries ?st2 [q, ?r]) = add_mset (k, v) (mset (chain_entries st [q]))"
    using st(1) rq [symmetric] by (simp add: e)
  moreover have "\<forall>p\<in>set [q, ?r]. size_ok (node_at ?st2 p)"
    using rq n(3) by (simp add: e size_ok_def)
  moreover have "unchanged_outside {q} st ?st2"
    using nxt by (auto simp: unchanged_outside_def new_page_def)
  ultimately have "chain_updated (add_mset (k, v)) q [] st ?st2 [?r]"
    using wf unfolding chain_updated_def by simp
  with run show ?thesis by blast
qed

lemma mm_insert_loop_correct:
  assumes "pages st q = Some n" "q \<noteq> INVALID_PAGE_NO" "store_wf st" "can_allocate st" "bs [] < MAX_NODE_SIZE"
    and "chain st (n_successor n) (n_successor_version n) qs" "distinct (q # qs)"
    and "\<forall>r\<in>set (q # qs). size_ok (node_at st r)"
  shows "\<exists>st' qs'. mm_insert_loop bs k v q st = Some (Inr st') \<and> chain_updated (add_mset (k, v)) q qs st st' qs'"
  using assms
proof (induction qs arbitrary: q n st)
  case Nil
  then show ?case
    using mm_insert_here [of st q n "[]" bs k v] mm_insert_new_last [of st q n bs k v]
    by (cases "bs (n_entries n) < MAX_NODE_SIZE") auto
next
  case (Cons r rs)
  note st = Cons.prems
  show ?case
  proof (cases "bs (n_entries n) < MAX_NODE_SIZE")
    case True
    with st mm_insert_here [of st q n "r # rs" bs k v] show ?thesis by auto
  next
    case False
    let ?st1 = "put_page q (linked_node r n) st"
    have same: "\<And>p. p \<in> set (r # rs) \<Longrightarrow> pages ?st1 p = pages st p" using st by auto
    obtain m where m: "pages st r = Some m" "chain st (n_successor m) (n_successor_version m) rs"
      and r: "r \<noteq> INVALID_PAGE_NO"
      using st by (auto split: option.splits)
    have "get_successor q True False st = Inr (Some r, ?st1)"
      using st by (intro get_successor_modify) auto
    then have step: "mm_insert_loop bs k v q st = mm_insert_loop bs k v r ?st1"
      using st False by (intro mm_insert_step) auto
    have "\<exists>st' qs'. mm_insert_loop bs k v r ?st1 = Some (Inr st') \<and> chain_updated (add_mset (k, v)) r rs ?st1 st' qs'"
    proof (rule Cons.IH)
      show "pages ?st1 r = Some m" using m(1) st by auto
      show "chain ?st1 (n_successor m) (n_successor_version m) rs"
        using m(2) same by (subst chain_cong [of rs ?st1 st]) auto
    qed (use st r in \<open>auto intro: store_wf_put_page\<close>)
    then obtain st' qs' where "mm_insert_loop bs k v r ?st1 = Some (Inr st')"
      and down: "chain_updated (add_mset (k, v)) r rs ?st1 st' qs'" by blast
    moreover have "chain_updated (add_mset (k, v)) q (r # rs) st st' (r # qs')"
      using st down by (intro chain_updated_below) auto
    ultimately show ?thesis using step by auto
  qed
qed

lemma mm_remove_here:
  assumes "pages st q = Some n" "q \<noteq> INVALID_PAGE_NO" "store_wf st"
    and "chain st (n_successor n) (n_successor_version n) qs" "q \<notin> set qs"
    and "\<forall>r\<in>set (q # qs). size_ok (node_at st r)" and "(k, v) \<in> set (n_entries n)"
  shows "\<exists>st'. mm_remove_loop k v (Some q) st = Some (Inr (True, st')) \<and>
           chain_updated (\<lambda>M. M - {#(k, v)#}) q qs st st' qs"
proof -
  let ?n = "snd (mnode_remove k v n)"
  have "mm_remove_loop k v (Some q) st = Some (Inr (True, put_page q ?n st))"
    using assms by (subst mm_remove_loop.simps) (simp add: get_page_def mnode_remove_eq)
  moreover have "chain_updated (\<lambda>M. M - {#(k, v)#}) q qs st (put_page q ?n st) qs"
    using assms by (intro chain_updated_here) (auto simp: mnode_remove_eq size_ok_def length_remove1)
  ultimately show ?thesis by blast
qed

lemma mm_remove_loop_correct:
  assumes "pages st q = Some n" "q \<noteq> INVALID_PAGE_NO" "store_wf st"
    and "chain st (n_successor n) (n_successor_version n) qs" "distinct (q # qs)"
    and "\<forall>r\<in>set (q # qs). size_ok (node_at st r)"
    and "(k, v) \<in> set (chain_entries st (q # qs))"
  shows "\<exists>st'. mm_remove_loop k v (Some q) st = Some (Inr (True, st')) \<and>
           chain_updated (\<lambda>M. M - {#(k, v)#}) q qs st st' qs"
  using assms
proof (induction qs arbitrary: q n st)
  case Nil
  then show ?case using mm_remove_here [of st q n "[]" k v] by simp
next
  case (Cons r rs)
  note st = Cons.prems
  show ?case
  proof (cases "(k, v) \<in> set (n_entries n)")
    case True
    with st mm_remove_here [of st q n "r # rs" k v] show ?thesis by auto
  next
    case False
    let ?st1 = "put_page q (linked_node r n) st"
    have same: "\<And>p. p \<in> set (r # rs) \<Longrightarrow> pages ?st1 p = pages st p" using st by auto
    obtain m where m: "pages st r = Some m" "chain st (n_successor m) (n_successor_version m) rs"
      and r: "r \<noteq> INVALID_PAGE_NO"
      using st by (auto split: option.splits)
    have "get_successor q False True st = Inr (Some r, ?st1)"
      using st by (intro get_successor_modify) auto
    then have step: "mm_remove_loop k v (Some q) st = mm_remove_loop k v (Some r) ?st1"
      using st False by (subst mm_remove_loop.simps) (simp add: get_page_def mnode_remove_eq)
    have kv: "(k, v) \<in> set (chain_entries st (r # rs))" using st False by simp
    have "\<exists>st'. mm_remove_loop k v (Some r) ?st1 = Some (Inr (True, st')) \<and>
            chain_updated (\<lambda>M. M - {#(k, v)#}) r rs ?st1 st' rs"
    proof (rule Cons.IH)
      show "pages ?st1 r = Some m" using m(1) st by auto
      show "chain ?st1 (n_successor m) (n_successor_version m) rs"
        using m(2) same by (subst chain_cong [of rs ?st1 st]) auto
      show "(k, v) \<in> set (chain_entries ?st1 (r # rs))"
        using kv chain_entries_cong [of "r # rs" ?st1 st, OF same] by simp
    qed (use st r in \<open>auto intro: store_wf_put_page\<close>)
    then obtain st' where "mm_remove_loop k v (Some r) ?st1 = Some (Inr (True, st'))"
      and down: "chain_updated (\<lambda>M. M - {#(k, v)#}) r rs ?st1 st' rs" by blast
    moreover have "chain_updated (\<lambda>M. M - {#(k, v)#}) q (r # rs) st st' (r # rs)"
    proof (rule chain_updated_below)
      show "mset (n_entries n) + mset (chain_entries st (r # rs)) - {#(k, v)#} =
          mset (n_entries n) + (mset (chain_entries st (r # rs)) - {#(k, v)#})"
        using kv by (intro diff_union_single_conv) simp
    qed (use st down in auto)
    ultimately show ?thesis using step by auto
  qed
qed

section \<open>The invariant of the table\<close>

definition mm_bucket_rep :: "nat \<Rightarrow> bucket_t \<Rightarrow> mm_store \<Rightarrow> page_no_t list \<Rightarrow> bool" where
  "mm_bucket_rep b bk st qs \<longleftrightarrow>
     chain st (b_page_no bk) (b_version bk) qs \<and> distinct qs \<and>
     (\<forall>q\<in>set qs. size_ok (node_at st q)) \<and>
     (\<forall>e\<in>set (chain_entries st qs). to_bucket hash_int64 (fst e) = b)"

definition mm_rep :: "abstract_map \<Rightarrow> mm_store \<Rightarrow> (nat \<Rightarrow> page_no_t list) \<Rightarrow> bool" where
  "mm_rep m st C \<longleftrightarrow>
     store_wf st \<and> (\<forall>b. mm_bucket_rep b (m_buckets m b) st (C b)) \<and>
     (\<forall>b b'. b \<noteq> b' \<longrightarrow> set (C b) \<inter> set (C b') = {})"

definition values_of :: "'k \<Rightarrow> ('k \<times> 'v) multiset \<Rightarrow> 'v multiset" where
  "values_of k M = image_mset snd (filter_mset (\<lambda>e. fst e = k) M)"

definition mm_abs :: "mm_store \<Rightarrow> (nat \<Rightarrow> page_no_t list) \<Rightarrow> u64 \<Rightarrow> string multiset" where
  "mm_abs st C k = values_of k (mset (chain_entries st (C (to_bucket hash_int64 k))))"

lemma values_of_add: "values_of x (add_mset (k, v) M) = (if x = k then add_mset v (values_of x M) else values_of x M)"
  by (simp add: values_of_def)

lemma values_of_remove:
  assumes "(k, v) \<in># M"
  shows "values_of x (M - {#(k, v)#}) = (if x = k then values_of x M - {#v#} else values_of x M)"
proof -
  obtain N where "M = add_mset (k, v) N" using assms by (metis insert_DiffM)
  then show ?thesis by (simp add: values_of_add)
qed

lemma in_values_of: "v \<in># values_of k M \<longleftrightarrow> (k, v) \<in># M"
  by (force simp: values_of_def)

lemma mm_repD:
  assumes "mm_rep m st C"
  shows "store_wf st" "mm_bucket_rep b (m_buckets m b) st (C b)"
    "chain st (b_page_no (m_buckets m b)) (b_version (m_buckets m b)) (C b)"
    "b \<noteq> b' \<Longrightarrow> set (C b) \<inter> set (C b') = {}"
  using assms by (auto simp: mm_rep_def mm_bucket_rep_def)

lemma mm_bucket_rep_cong:
  assumes "\<And>q. q \<in> set qs \<Longrightarrow> pages st' q = pages st q"
  shows "mm_bucket_rep b bk st' qs = mm_bucket_rep b bk st qs"
  using chain_cong [of qs st' st, OF assms] chain_entries_cong [of qs st' st, OF assms] assms
  by (simp add: mm_bucket_rep_def node_at_def)

lemma mm_rep_same:
  assumes "mm_rep m st C" "unchanged_outside (set (C b)) st st'" "b' \<noteq> b" "q \<in> set (C b')"
  shows "pages st' q = pages st q"
  using assms(2,4) chain_old [OF mm_repD(1,3) [OF assms(1)] assms(4)] mm_repD(4) [OF assms(1,3)]
  unfolding unchanged_outside_def by blast

text \<open>\<open>f\<close> is the effect on the entries of the bucket of \<open>k\<close>, \<open>g\<close> that on the values of \<open>k\<close>.\<close>

lemma mm_rep_update:
  assumes rep: "mm_rep m st C" and b: "b = to_bucket hash_int64 k"
    and new: "mm_bucket_rep b bk st' qs" "store_wf st'"
    and frame: "unchanged_outside (set (C b)) st st'" "set qs \<subseteq> set (C b) \<union> {m_next_page_no st}"
    and entries: "mset (chain_entries st' qs) = f (mset (chain_entries st (C b)))"
    and f: "\<And>x. values_of x (f (mset (chain_entries st (C b)))) =
              (if x = k then g (values_of x (mset (chain_entries st (C b)))) else values_of x (mset (chain_entries st (C b))))"
  shows "mm_rep (set_bucket b bk m) st' (C(b := qs)) \<and>
         mm_abs st' (C(b := qs)) = (mm_abs st C)(k := g (mm_abs st C k))"
proof
  note same = mm_rep_same [OF rep frame(1)]
  have old: "q < m_next_page_no st" if "q \<in> set (C b')" for q b'
    using chain_old [OF mm_repD(1,3) [OF rep] that] .
  have "mm_bucket_rep b' (m_buckets m b') st' (C b')" if "b' \<noteq> b" for b'
    using mm_bucket_rep_cong [of "C b'" st' st, OF same [OF that]] mm_repD(2) [OF rep] by simp
  moreover have "set qs \<inter> set (C b') = {}" if "b' \<noteq> b" for b'
    using frame(2) mm_repD(4) [OF rep that] old [of _ b'] by fastforce
  ultimately show "mm_rep (set_bucket b bk m) st' (C(b := qs))"
    using mm_repD(4) [OF rep] new by (auto simp: mm_rep_def set_bucket_def)
  show "mm_abs st' (C(b := qs)) = (mm_abs st C)(k := g (mm_abs st C k))"
  proof
    fix x
    show "mm_abs st' (C(b := qs)) x = ((mm_abs st C)(k := g (mm_abs st C k))) x"
    proof (cases "to_bucket hash_int64 x = b")
      case True
      with entries f b show ?thesis by (simp add: mm_abs_def)
    next
      case False
      have "chain_entries st' (C (to_bucket hash_int64 x)) = chain_entries st (C (to_bucket hash_int64 x))"
        using same [OF False] by (intro chain_entries_cong) auto
      with False b show ?thesis by (auto simp: mm_abs_def)
    qed
  qed
qed

lemma mm_bucket_rep_updated:
  assumes "chain_updated f q qs st st' qs'" "distinct (q # qs)" "m_next_page_no st \<notin> set (q # qs)"
    and "\<forall>e\<in>#f (mset (chain_entries st (q # qs))). to_bucket hash_int64 (fst e) = b"
    and "vn = n_version (node_at st q)"
  shows "mm_bucket_rep b \<lparr>b_page_no = q, b_version = increment vn\<rparr> st' (q # qs')"
proof -
  have "set (chain_entries st' (q # qs')) = set_mset (f (mset (chain_entries st (q # qs))))"
    using assms(1) unfolding chain_updated_def by (metis set_mset_mset)
  then have "\<forall>e\<in>set (chain_entries st' (q # qs')). to_bucket hash_int64 (fst e) = b"
    using assms(4) by blast
  moreover have "distinct (q # qs')" using assms(1-3) by (auto simp: chain_updated_def)
  ultimately show ?thesis
    using assms(1) unfolding mm_bucket_rep_def chain_updated_def assms(5) by (simp del: chain_entries_simps)
qed

definition mm_bucket_updated ::
  "(mm_entries \<Rightarrow> mm_entries \<Rightarrow> bool) \<Rightarrow> nat \<Rightarrow> mm_store \<Rightarrow> page_no_t list \<Rightarrow> bucket_t \<Rightarrow> mm_store \<Rightarrow> page_no_t list \<Rightarrow> bool" where
  "mm_bucket_updated R b st qs bk st' qs' \<longleftrightarrow>
     mm_bucket_rep b bk st' qs' \<and> store_wf st' \<and> unchanged_outside (set qs) st st' \<and>
     set qs' \<subseteq> set qs \<union> {m_next_page_no st} \<and> R (chain_entries st qs) (chain_entries st' qs')"

lemma mm_bucket_updatedI:
  assumes upd: "chain_updated f q qs st st' qs'" and rep: "mm_bucket_rep b bk st (q # qs)" and wf: "store_wf st"
    and hash: "\<forall>e\<in>#f (mset (chain_entries st (q # qs))). to_bucket hash_int64 (fst e) = b"
  shows "mm_bucket_updated (\<lambda>es es'. mset es' = f (mset es)) b st (q # qs)
           \<lparr>b_page_no = q, b_version = increment (b_version bk)\<rparr> st' (q # qs')"
proof -
  have ver: "b_version bk = n_version (node_at st q)"
    using rep by (auto simp: mm_bucket_rep_def split: option.splits)
  have "m_next_page_no st \<notin> set (q # qs)"
    using rep chain_next [OF wf] unfolding mm_bucket_rep_def by blast
  then have "mm_bucket_rep b \<lparr>b_page_no = q, b_version = increment (b_version bk)\<rparr> st' (q # qs')"
    using rep hash by (intro mm_bucket_rep_updated [OF upd _ _ _ ver]) (auto simp: mm_bucket_rep_def)
  then show ?thesis
    using upd unfolding mm_bucket_updated_def chain_updated_def by (auto simp del: chain_entries_simps)
qed

lemma mm_insert_new_bucket:
  assumes rep: "mm_rep m st C" and alloc: "can_allocate st" and lay: "bs [] < MAX_NODE_SIZE"
    and empty: "C (to_bucket hash_int64 k) = []"
  shows "\<exists>bk st' qs'. mm_insert bs k v m st =
        Some (Inr ((set_bucket (to_bucket hash_int64 k) bk m)\<lparr>m_size := m_size m + 1\<rparr>, st')) \<and>
      mm_bucket_updated (\<lambda>es es'. mset es' = add_mset (k, v) (mset es)) (to_bucket hash_int64 k) st [] bk st' qs'"
proof -
  let ?b = "to_bucket hash_int64 k" and ?r = "m_next_page_no st"
  let ?st1 = "snd (new_page empty_node st)"
  let ?bk = "\<lparr>b_page_no = ?r, b_version = increment 0\<rparr>"
  have b: "b_page_no (m_buckets m ?b) = INVALID_PAGE_NO" "b_version (m_buckets m ?b) = 0"
    using mm_repD(3) [OF rep, of ?b] empty by simp_all
  have r: "?r \<noteq> INVALID_PAGE_NO" using alloc by (rule next_usable)
  have pg: "pages ?st1 ?r = Some empty_node" by (simp add: new_page_def)
  have nxt: "?r < ?r + 1" using alloc by (simp add: can_allocate_def plus_one_greater)
  have "\<exists>st'. mm_insert_loop bs k v ?r ?st1 = Some (Inr st') \<and> chain_updated (add_mset (k, v)) ?r [] ?st1 st' [] \<and>
         st' = put_page ?r (snd (mnode_insert bs k v empty_node)) ?st1"
    using pg r lay store_wf_new_page [OF mm_repD(1) [OF rep] alloc]
    by (intro mm_insert_here) (auto simp: size_ok_def)
  then obtain st' where loop: "mm_insert_loop bs k v ?r ?st1 = Some (Inr st')"
    and upd: "chain_updated (add_mset (k, v)) ?r [] ?st1 st' []"
    and st': "st' = put_page ?r (snd (mnode_insert bs k v empty_node)) ?st1" by blast
  have run: "mm_insert bs k v m st = Some (Inr ((set_bucket ?b ?bk m)\<lparr>m_size := m_size m + 1\<rparr>, st'))"
    using loop by (simp add: mm_insert_def get_node_create b)
  have "mm_bucket_rep ?b ?bk st' [?r]"
    using upd pg nxt by (intro mm_bucket_rep_updated [where st = ?st1]) (auto simp: new_page_def)
  moreover have "mset (chain_entries st' [?r]) = add_mset (k, v) {#}" "store_wf st'"
    using upd pg unfolding chain_updated_def by simp_all
  moreover have "unchanged_outside {} st st'"
    using nxt unfolding st' by (auto simp: unchanged_outside_def new_page_def)
  ultimately have "mm_bucket_updated (\<lambda>es es'. mset es' = add_mset (k, v) (mset es)) ?b st [] ?bk st' [?r]"
    by (simp add: mm_bucket_updated_def)
  with run show ?thesis by blast
qed

lemma mm_insert_old_bucket:
  assumes rep: "mm_rep m st C" and alloc: "can_allocate st" and lay: "bs [] < MAX_NODE_SIZE"
    and nonempty: "C (to_bucket hash_int64 k) = q # qs"
  shows "\<exists>bk st' qs'. mm_insert bs k v m st =
        Some (Inr ((set_bucket (to_bucket hash_int64 k) bk m)\<lparr>m_size := m_size m + 1\<rparr>, st')) \<and>
      mm_bucket_updated (\<lambda>es es'. mset es' = add_mset (k, v) (mset es)) (to_bucket hash_int64 k) st (q # qs) bk st' qs'"
proof -
  let ?b = "to_bucket hash_int64 k"
  note br = mm_repD(2) [OF rep, of ?b, unfolded nonempty]
  note ch = mm_repD(3) [OF rep, of ?b, unfolded nonempty]
  obtain n where n: "pages st q = Some n" "q \<noteq> INVALID_PAGE_NO"
    and tl: "chain st (n_successor n) (n_successor_version n) qs"
    using ch by (auto split: option.splits)
  have "\<exists>st' qs'. mm_insert_loop bs k v q st = Some (Inr st') \<and> chain_updated (add_mset (k, v)) q qs st st' qs'"
    using br n tl mm_repD(1) [OF rep] alloc lay by (intro mm_insert_loop_correct) (auto simp: mm_bucket_rep_def)
  then obtain st' qs' where loop: "mm_insert_loop bs k v q st = Some (Inr st')"
    and upd: "chain_updated (add_mset (k, v)) q qs st st' qs'" by blast
  have "mm_insert bs k v m st =
      Some (Inr ((set_bucket ?b \<lparr>b_page_no = q, b_version = increment (b_version (m_buckets m ?b))\<rparr> m)\<lparr>m_size := m_size m + 1\<rparr>, st'))"
    using loop by (simp add: mm_insert_def get_node_modify [OF ch])
  moreover have "mm_bucket_updated (\<lambda>es es'. mset es' = add_mset (k, v) (mset es)) ?b st (q # qs)
       \<lparr>b_page_no = q, b_version = increment (b_version (m_buckets m ?b))\<rparr> st' (q # qs')"
    using br by (intro mm_bucket_updatedI [OF upd br mm_repD(1) [OF rep]]) (auto simp: mm_bucket_rep_def)
  ultimately show ?thesis by blast
qed

lemma m_rep_m_size [simp]: "mm_rep (m\<lparr>m_size := s\<rparr>) st C = mm_rep m st C"
  by (simp add: mm_rep_def)

lemma mm_insert_correct:
  assumes rep: "mm_rep m st C" and alloc: "can_allocate st" and lay: "bs [] < MAX_NODE_SIZE"
  shows "\<exists>m' st' C'. mm_insert bs k v m st = Some (Inr (m', st')) \<and> mm_rep m' st' C' \<and>
           mm_abs st' C' = (mm_abs st C)(k := add_mset v (mm_abs st C k)) \<and> m_size m' = m_size m + 1"
proof -
  let ?b = "to_bucket hash_int64 k"
  obtain bk st' qs' where run: "mm_insert bs k v m st = Some (Inr ((set_bucket ?b bk m)\<lparr>m_size := m_size m + 1\<rparr>, st'))"
    and upd: "mm_bucket_updated (\<lambda>es es'. mset es' = add_mset (k, v) (mset es)) ?b st (C ?b) bk st' qs'"
  proof (cases "C ?b")
    case Nil
    with mm_insert_new_bucket [OF rep alloc, of bs k v] lay that show thesis by auto
  next
    case (Cons q qs)
    with mm_insert_old_bucket [OF rep alloc, of bs k q qs v] lay that show thesis by auto
  qed
  have "mm_rep (set_bucket ?b bk m) st' (C(?b := qs')) \<and>
        mm_abs st' (C(?b := qs')) = (mm_abs st C)(k := add_mset v (mm_abs st C k))"
    using upd by (intro mm_rep_update [OF rep refl, where f = "add_mset (k, v)" and g = "add_mset v"])
      (auto simp: mm_bucket_updated_def values_of_add)
  with run show ?thesis by fastforce
qed

lemma mm_remove_correct:
  assumes rep: "mm_rep m st C" and mem: "v \<in># mm_abs st C k"
  shows "\<exists>m' st'. mm_remove k v m st = Some (Inr (True, m', st')) \<and> mm_rep m' st' C \<and>
           mm_abs st' C = (mm_abs st C)(k := mm_abs st C k - {#v#}) \<and> m_size m' = m_size m - 1"
proof -
  let ?b = "to_bucket hash_int64 k"
  have kv: "(k, v) \<in> set (chain_entries st (C ?b))" using mem by (simp add: mm_abs_def in_values_of)
  then obtain q qs where nonempty: "C ?b = q # qs" by (cases "C ?b") auto
  note br = mm_repD(2) [OF rep, of ?b, unfolded nonempty]
  note ch = mm_repD(3) [OF rep, of ?b, unfolded nonempty]
  let ?bk = "\<lparr>b_page_no = q, b_version = increment (b_version (m_buckets m ?b))\<rparr>"
  obtain n where n: "pages st q = Some n" "q \<noteq> INVALID_PAGE_NO"
    and tl: "chain st (n_successor n) (n_successor_version n) qs"
    using ch by (auto split: option.splits)
  have "\<exists>st'. mm_remove_loop k v (Some q) st = Some (Inr (True, st')) \<and> chain_updated (\<lambda>M. M - {#(k, v)#}) q qs st st' qs"
    using br n tl mm_repD(1) [OF rep] kv nonempty by (intro mm_remove_loop_correct) (auto simp: mm_bucket_rep_def)
  then obtain st' where loop: "mm_remove_loop k v (Some q) st = Some (Inr (True, st'))"
    and upd: "chain_updated (\<lambda>M. M - {#(k, v)#}) q qs st st' qs" by blast
  have run: "mm_remove k v m st = Some (Inr (True, (set_bucket ?b ?bk m)\<lparr>m_size := m_size m - 1\<rparr>, st'))"
    using loop by (simp add: mm_remove_def get_node_modify [OF ch])
  have "mm_bucket_updated (\<lambda>es es'. mset es' = mset es - {#(k, v)#}) ?b st (C ?b) ?bk st' (C ?b)"
    unfolding nonempty using br
    by (intro mm_bucket_updatedI [OF upd br mm_repD(1) [OF rep]]) (auto simp: mm_bucket_rep_def dest!: in_diffD)
  then have "mm_rep (set_bucket ?b ?bk m) st' (C(?b := C ?b)) \<and>
        mm_abs st' (C(?b := C ?b)) = (mm_abs st C)(k := mm_abs st C k - {#v#})"
    using kv by (intro mm_rep_update [OF rep refl, where f = "\<lambda>M. M - {#(k, v)#}" and g = "\<lambda>M. M - {#v#}"])
      (auto simp: mm_bucket_updated_def values_of_remove)
  with run show ?thesis by fastforce
qed

lemma mm_read_correct:
  "mm_rep m st C \<Longrightarrow>
   mm_read f k m st acc =
     Some (Inr (fold (\<lambda>q. f (n_entries (node_at st q))) (C (to_bucket hash_int64 k)) acc))"
  using mm_repD(3) [of m st C "to_bucket hash_int64 k"]
  by (simp add: mm_read_def get_node_read mm_walk_correct chain_head_def [symmetric])

lemma mm_has_entry_correct:
  "mm_rep m st C \<Longrightarrow> mm_has_entry k v m st = Some (Inr (v \<in># mm_abs st C k))"
  using mm_repD(3) [of m st C "to_bucket hash_int64 k"]
  by (simp add: mm_has_entry_def get_node_read mm_has_entry_loop_correct chain_head_def [symmetric]
      mm_abs_def in_values_of)

lemma mm_find_intersect_correct:
  "mm_rep m st C \<Longrightarrow> mm_find_intersect k m st out = Some (Inr (filter (\<lambda>v. v \<in># mm_abs st C k) out))"
  by (induction out) (simp_all add: mm_has_entry_correct)

lemma mm_find_union_correct:
  assumes "mm_rep m st C"
  shows "\<exists>vs. mm_find_union k m st out = Some (Inr vs) \<and> set vs = set out \<union> set_mset (mm_abs st C k)"
  using fold_find_union [of k st "C (to_bucket hash_int64 k)" out]
  by (simp add: mm_find_union_def mm_read_correct [OF assms] mm_abs_def values_of_def) force

lemma mm_estimate_value_count_correct:
  assumes "mm_rep m st C"
  shows "mm_estimate_value_count k m st = Some (Inr (size (mm_abs st C k)))"
  by (simp add: mm_estimate_value_count_def mm_read_correct [OF assms] fold_value_count mm_abs_def
      values_of_def flip: mset_filter)

section \<open>Removing an absent entry\<close>

definition stale_from :: "mm_store \<Rightarrow> page_no_t \<Rightarrow> version_number \<Rightarrow> bool" where
  "stale_from st q v \<longleftrightarrow>
     get_node_internal q v False st = Inl StalenessDetected \<or>
     (get_node_internal q v False st = Inr (Some q, st) \<and>
      (\<forall>(f :: mm_entries \<Rightarrow> string list \<Rightarrow> string list) acc. mm_walk f (Some q) st acc = Some (Inl StalenessDetected)))"

lemma mm_remove_loop_absent:
  assumes "pages st q = Some n" "q \<noteq> INVALID_PAGE_NO"
    and "chain st (n_successor n) (n_successor_version n) qs" "distinct (q # qs)"
    and "(k, v) \<notin> set (chain_entries st (q # qs))"
  shows "\<exists>st'. mm_remove_loop k v (Some q) st = Some (Inr (False, st')) \<and>
           stale_from st' q (increment (n_version n)) \<and> (\<forall>x. x \<notin> set (q # qs) \<longrightarrow> pages st' x = pages st x)"
  using assms
proof (induction qs arbitrary: q n st)
  case Nil
  then have "mm_remove_loop k v (Some q) st = Some (Inr (False, st))"
    by (subst mm_remove_loop.simps)
      (simp add: get_page_def mnode_remove_eq get_successor_end mm_remove_loop.simps [of k v None])
  moreover have "stale_from st q (increment (n_version n))"
    using Nil increment_neq [of "n_version n"]
    by (auto simp: stale_from_def intro!: get_node_internal_stale)
  ultimately show ?case by blast
next
  case (Cons r rs)
  note st = Cons.prems
  let ?st1 = "put_page q (linked_node r n) st"
  have same: "\<And>p. p \<in> set (r # rs) \<Longrightarrow> pages ?st1 p = pages st p" using st by auto
  obtain m where m: "pages st r = Some m" "chain st (n_successor m) (n_successor_version m) rs"
    "n_version m = n_successor_version n" "n_successor n = r" and r: "r \<noteq> INVALID_PAGE_NO"
    using st by (auto split: option.splits)
  have "get_successor q False True st = Inr (Some r, ?st1)"
    using st by (intro get_successor_modify) auto
  then have step: "mm_remove_loop k v (Some q) st = mm_remove_loop k v (Some r) ?st1"
    using st by (subst mm_remove_loop.simps) (simp add: get_page_def mnode_remove_eq)
  have "\<exists>st'. mm_remove_loop k v (Some r) ?st1 = Some (Inr (False, st')) \<and>
      stale_from st' r (increment (n_version m)) \<and> (\<forall>x. x \<notin> set (r # rs) \<longrightarrow> pages st' x = pages ?st1 x)"
  proof (rule Cons.IH)
    show "pages ?st1 r = Some m" using m(1) st by auto
    show "chain ?st1 (n_successor m) (n_successor_version m) rs"
      using m(2) same by (subst chain_cong [of rs ?st1 st]) auto
    show "(k, v) \<notin> set (chain_entries ?st1 (r # rs))"
      using st chain_entries_cong [of "r # rs" ?st1 st, OF same] by simp
  qed (use st r in auto)
  then obtain st' where run: "mm_remove_loop k v (Some r) ?st1 = Some (Inr (False, st'))"
    and stale: "stale_from st' r (increment (n_version m))"
    and frame: "\<forall>x. x \<notin> set (r # rs) \<longrightarrow> pages st' x = pages ?st1 x" by blast
  have q: "pages st' q = Some (linked_node r n)" using frame st by auto
  then have head: "get_node_internal q (increment (n_version n)) False st' = Inr (Some q, st')"
    using st by (simp add: get_node_internal_def get_page_def)
  have succ: "get_successor q False False st' = get_node_internal r (increment (n_version m)) False st'"
    using st q m by (simp add: get_successor_def get_page_def) (auto simp: rbind_def split: sum.splits)
  have "mm_walk f (Some q) st' acc = Some (Inl StalenessDetected)" for f :: "mm_entries \<Rightarrow> string list \<Rightarrow> string list" and acc
    using stale st(2) q succ by (subst mm_walk.simps) (auto simp: stale_from_def get_page_def)
  then show ?case using step run head frame by (auto simp: stale_from_def)
qed

section \<open>Clearing the table\<close>

lemma mm_clear_chain_correct:
  "chain st p v qs \<Longrightarrow> distinct qs \<Longrightarrow> store_wf st \<Longrightarrow>
   \<exists>sz' st'. mm_clear_chain (chain_head qs) sz st = Some (Inr (sz', st')) \<and> chain st' p v qs \<and>
     chain_entries st' qs = [] \<and> (\<forall>q\<in>set qs. size_ok (node_at st' q)) \<and> store_wf st' \<and>
     (\<forall>x. x \<notin> set qs \<longrightarrow> pages st' x = pages st x)"
proof (induction qs arbitrary: p v sz st)
  case Nil
  then show ?case by (simp add: mm_clear_chain.simps)
next
  case (Cons q qs)
  then obtain n where n: "pages st q = Some n" "q \<noteq> INVALID_PAGE_NO" "n_version n = v" "p = q"
    and ch: "chain st (n_successor n) (n_successor_version n) qs"
    by (auto split: option.splits)
  let ?n = "n\<lparr>n_entries := [], n_size := 0\<rparr>"
  let ?st1 = "put_page q ?n st"
  have ch1: "chain ?st1 (n_successor n) (n_successor_version n) qs"
    using ch Cons.prems(2) by (subst chain_cong [of qs ?st1 st]) auto
  have "get_successor q False False ?st1 = Inr (chain_head qs, ?st1)"
    using get_successor_read [of ?st1 q ?n qs] n ch1 by (simp add: chain_head_def)
  then have step: "mm_clear_chain (chain_head (q # qs)) sz st =
      mm_clear_chain (chain_head qs) (sz - word_of_nat (n_size n)) ?st1"
    using n by (subst mm_clear_chain.simps) (simp add: get_page_def mnode_clear_def)
  have "store_wf ?st1" using Cons.prems(3) n by (auto intro: store_wf_put_page)
  with Cons.IH [OF ch1, of "sz - word_of_nat (n_size n)"] Cons.prems(2) obtain sz' st' where
    run: "mm_clear_chain (chain_head qs) (sz - word_of_nat (n_size n)) ?st1 = Some (Inr (sz', st'))"
    and st': "chain st' (n_successor n) (n_successor_version n) qs" "chain_entries st' qs = []"
      "\<forall>q\<in>set qs. size_ok (node_at st' q)" "store_wf st'" "\<forall>x. x \<notin> set qs \<longrightarrow> pages st' x = pages ?st1 x"
    by auto
  have "pages st' q = Some ?n" using st'(5) Cons.prems(2) by simp
  with st' n step run show ?case by (auto simp: size_ok_def)
qed

lemma mm_clear_from_correct:
  "mm_rep m st C \<Longrightarrow>
   \<exists>m' st'. mm_clear_from is m st = Some (Inr (m', st')) \<and> mm_rep m' st' C \<and> m_buckets m' = m_buckets m \<and>
     (\<forall>b. b \<in> set is \<or> chain_entries st (C b) = [] \<longrightarrow> chain_entries st' (C b) = [])"
proof (induction "is" arbitrary: m st)
  case Nil
  then show ?case by auto
next
  case (Cons i "is")
  note rep = Cons.prems
  note br = mm_repD(2) [OF rep, of i, unfolded mm_bucket_rep_def]
  obtain sz st1 where run: "mm_clear_chain (chain_head (C i)) (m_size m) st = Some (Inr (sz, st1))"
    and st1: "chain st1 (b_page_no (m_buckets m i)) (b_version (m_buckets m i)) (C i)" "chain_entries st1 (C i) = []"
      "\<forall>q\<in>set (C i). size_ok (node_at st1 q)" "store_wf st1"
    and frame: "\<forall>x. x \<notin> set (C i) \<longrightarrow> pages st1 x = pages st x"
    using mm_clear_chain_correct [of st _ _ "C i" "m_size m"] br mm_repD(1) [OF rep] by blast
  let ?m1 = "m\<lparr>m_size := sz\<rparr>"
  have same: "pages st1 q = pages st q" if "b \<noteq> i" "q \<in> set (C b)" for b q
    using frame mm_repD(4) [OF rep that(1)] that(2) by blast
  have "mm_bucket_rep b (m_buckets m b) st1 (C b)" for b
    using st1 br mm_bucket_rep_cong [of "C b" st1 st, OF same] mm_repD(2) [OF rep, of b]
    by (cases "b = i") (auto simp: mm_bucket_rep_def)
  then have rep1: "mm_rep ?m1 st1 C" using st1(4) mm_repD(4) [OF rep] by (simp add: mm_rep_def)
  have step: "mm_clear_from (i # is) m st = mm_clear_from is ?m1 st1"
    using run get_node_read [OF conjunct1 [OF br]] by (simp add: chain_head_def)
  have keep: "chain_entries st1 (C b) = []" if "b = i \<or> chain_entries st (C b) = []" for b
    using that st1(2) chain_entries_cong [of "C b" st1 st, OF same] by (cases "b = i") auto
  from Cons.IH [OF rep1] obtain m' st' where "mm_clear_from is ?m1 st1 = Some (Inr (m', st'))" "mm_rep m' st' C"
    "m_buckets m' = m_buckets m" "\<forall>b. b \<in> set is \<or> chain_entries st1 (C b) = [] \<longrightarrow> chain_entries st' (C b) = []"
    by auto
  with step keep show ?case by auto
qed

lemma mm_clear_correct:
  assumes "mm_rep m st C"
  shows "\<exists>m' st'. mm_clear m st = Some (Inr (m', st')) \<and> mm_rep m' st' C \<and> m_buckets m' = m_buckets m \<and>
           mm_abs st' C = (\<lambda>_. {#})"
proof -
  have "to_bucket hash_int64 k \<in> set [0..<NUM_BUCKETS]" for k
    by (simp add: to_bucket_def NUM_BUCKETS_def)
  with mm_clear_from_correct [OF assms, of "[0..<NUM_BUCKETS]"] show ?thesis
    by (fastforce simp: mm_clear_def mm_abs_def values_of_def)
qed

section \<open>Properties\<close>

text \<open>A table with one entry, for the examples.\<close>

definition one_mm_node :: mm_node where
  "one_mm_node = \<lparr>n_version = 1, n_successor = INVALID_PAGE_NO, n_successor_version = 0, n_size = 1,
                   n_entries = [(7, ''a'')]\<rparr>"

definition one_mm :: abstract_map where
  "one_mm = set_bucket (to_bucket hash_int64 7) \<lparr>b_page_no = 1, b_version = 1\<rparr> empty_map"

definition one_mm_store :: mm_store where
  "one_mm_store = \<lparr>pages = [1 \<mapsto> one_mm_node], m_next_page_no = 2\<rparr>"

definition one_mm_chain :: "nat \<Rightarrow> page_no_t list" where
  "one_mm_chain b = (if b = to_bucket hash_int64 7 then [1] else [])"

lemma one_mm_rep: "mm_rep one_mm one_mm_store one_mm_chain"
proof -
  have "store_wf one_mm_store" by (simp add: store_wf_def one_mm_store_def)
  moreover have "mm_bucket_rep b (m_buckets one_mm b) one_mm_store (one_mm_chain b)" for b
    by (simp add: mm_bucket_rep_def one_mm_def one_mm_store_def one_mm_node_def one_mm_chain_def set_bucket_def
        empty_map_def node_at_def size_ok_def INVALID_PAGE_NO_def)
  ultimately show ?thesis by (auto simp: mm_rep_def one_mm_chain_def)
qed

lemma one_mm_abs: "mm_abs one_mm_store one_mm_chain 7 = {#''a''#}"
  by (simp add: mm_abs_def values_of_def one_mm_chain_def one_mm_store_def one_mm_node_def node_at_def)

lemma one_mm_alloc: "can_allocate one_mm_store"
  by (simp add: can_allocate_def one_mm_store_def word_less_nat_alt)

text \<open>
  Property C18. The secondary-index table is a multi-map: \<open>insert\<close> returns without an error, keeps the
  invariant, and adds the value to the values of its key and to no other key.
\<close>

theorem multi_map_insert_refines:
  assumes "mm_rep m st C" and "can_allocate st" and "bs [] < MAX_NODE_SIZE"
  shows "\<exists>m' st' C'. mm_insert bs k v m st = Some (Inr (m', st')) \<and> mm_rep m' st' C' \<and>
           mm_abs st' C' = (mm_abs st C)(k := add_mset v (mm_abs st C k)) \<and> m_size m' = m_size m + 1"
  using assms by (rule mm_insert_correct)

theorem multi_map_insert_refines_witness:
  "\<exists>m' st' C'. mm_insert (\<lambda>es. 24 + 1000 * length es) 7 ''b'' one_mm one_mm_store = Some (Inr (m', st')) \<and> mm_rep m' st' C' \<and>
     mm_abs st' C' = (mm_abs one_mm_store one_mm_chain)(7 := add_mset ''b'' (mm_abs one_mm_store one_mm_chain 7)) \<and>
     m_size m' = m_size one_mm + 1"
  by (rule multi_map_insert_refines [OF one_mm_rep one_mm_alloc]) (simp add: MAX_NODE_SIZE_def)

text \<open>
  Property C20. \<open>find\<close> with \<open>Union\<close> adds exactly the values of the key to the result set, with
  \<open>Intersect\<close> it keeps exactly those elements of the set that are values of the key, and
  \<open>estimate_value_count\<close> is the number of entries with the key; none of them fails.
\<close>

theorem multi_map_find_exact:
  assumes "mm_rep m st C"
  shows "(\<exists>vs. mm_find k m st out Union = Some (Inr vs) \<and> set vs = set out \<union> set_mset (mm_abs st C k)) \<and>
         (\<exists>vs. mm_find k m st out Intersect = Some (Inr vs) \<and> set vs = set out \<inter> set_mset (mm_abs st C k)) \<and>
         mm_estimate_value_count k m st = Some (Inr (size (mm_abs st C k)))"
  using mm_find_union_correct [OF assms] mm_find_intersect_correct [OF assms] mm_estimate_value_count_correct [OF assms]
  by (auto simp: mm_find_def)

theorem multi_map_find_exact_witness:
  "(\<exists>vs. mm_find 7 one_mm one_mm_store [''x''] Union = Some (Inr vs) \<and>
      set vs = set [''x''] \<union> set_mset (mm_abs one_mm_store one_mm_chain 7)) \<and>
   (\<exists>vs. mm_find 7 one_mm one_mm_store [''x''] Intersect = Some (Inr vs) \<and>
      set vs = set [''x''] \<inter> set_mset (mm_abs one_mm_store one_mm_chain 7)) \<and>
   mm_estimate_value_count 7 one_mm one_mm_store = Some (Inr (size (mm_abs one_mm_store one_mm_chain 7)))"
  by (rule multi_map_find_exact [OF one_mm_rep])

text \<open>
  Property C22. \<open>remove\<close> of an entry that is in the table removes one occurrence of it, keeps the
  invariant and reports success.
\<close>

theorem multi_map_remove_present:
  assumes "mm_rep m st C" and "v \<in># mm_abs st C k"
  shows "\<exists>m' st'. mm_remove k v m st = Some (Inr (True, m', st')) \<and> mm_rep m' st' C \<and>
           mm_abs st' C = (mm_abs st C)(k := mm_abs st C k - {#v#}) \<and> m_size m' = m_size m - 1"
  using assms by (rule mm_remove_correct)

theorem multi_map_remove_present_witness:
  "\<exists>m' st'. mm_remove 7 ''a'' one_mm one_mm_store = Some (Inr (True, m', st')) \<and> mm_rep m' st' one_mm_chain \<and>
     mm_abs st' one_mm_chain = (mm_abs one_mm_store one_mm_chain)(7 := mm_abs one_mm_store one_mm_chain 7 - {#''a''#}) \<and>
     m_size m' = m_size one_mm - 1"
  by (rule multi_map_remove_present [OF one_mm_rep]) (simp add: one_mm_abs)

text \<open>
  \<open>remove\<close> of an entry that is not in its (non-empty) bucket returns false but leaves the
  bucket unreadable: the version expected of the last page has been incremented, the page's own
  version has not, so every later lookup in this bucket reports a stale page.
\<close>

lemma multi_map_remove_absent_breaks_bucket:
  assumes "mm_rep m st C" and "v \<notin># mm_abs st C k" and "C (to_bucket hash_int64 k) \<noteq> []"
    and "to_bucket hash_int64 x = to_bucket hash_int64 k"
  shows "\<exists>m' st'. mm_remove k v m st = Some (Inr (False, m', st')) \<and>
           mm_find x m' st' out Union = Some (Inl StalenessDetected)"
proof -
  let ?b = "to_bucket hash_int64 k"
  obtain q qs where C: "C ?b = q # qs" using assms(3) by (cases "C ?b") auto
  note ch = mm_repD(3) [OF assms(1), of ?b, unfolded C]
  then obtain n where n: "pages st q = Some n" "q \<noteq> INVALID_PAGE_NO" "n_version n = b_version (m_buckets m ?b)"
    and tl: "chain st (n_successor n) (n_successor_version n) qs"
    by (auto split: option.splits)
  have "distinct (q # qs)" "(k, v) \<notin> set (chain_entries st (q # qs))"
    using mm_repD(2) [OF assms(1), of ?b] assms(2) C by (auto simp: mm_bucket_rep_def mm_abs_def in_values_of)
  from mm_remove_loop_absent [OF n(1,2) tl this] obtain st' where
    loop: "mm_remove_loop k v (Some q) st = Some (Inr (False, st'))"
    and stale: "stale_from st' q (increment (n_version n))" by blast
  let ?m' = "set_bucket ?b \<lparr>b_page_no = q, b_version = increment (n_version n)\<rparr> m"
  have "mm_remove k v m st = Some (Inr (False, ?m', st'))"
    using loop n(3) by (simp add: mm_remove_def get_node_modify [OF ch])
  moreover have "mm_find x ?m' st' out Union = Some (Inl StalenessDetected)"
    using stale assms(4)
    by (auto simp: mm_find_def mm_find_union_def mm_read_def get_node_def set_bucket_def stale_from_def)
  ultimately show ?thesis by blast
qed

text \<open>
  \<open>clear\<close> empties the table, but leaves all versions as they are: if the storage presents
  the pages as they were before the call, every lookup succeeds and returns the removed values, so
  a rollback of \<open>clear\<close> is not detected.
\<close>

lemma multi_map_clear_rollback_undetected:
  assumes "mm_rep m st C"
  shows "\<exists>m' st'. mm_clear m st = Some (Inr (m', st')) \<and> mm_rep m' st' C \<and> mm_abs st' C = (\<lambda>_. {#}) \<and>
           (\<forall>k out. mm_find k m' st out Union = mm_find k m st out Union)"
proof -
  obtain m' st' where clear: "mm_clear m st = Some (Inr (m', st'))" "mm_rep m' st' C" "mm_abs st' C = (\<lambda>_. {#})"
    and same: "m_buckets m' = m_buckets m"
    using mm_clear_correct [OF assms] by blast
  have "mm_rep m' st C" using assms same by (simp add: mm_rep_def)
  then have "mm_find k m' st out Union = mm_find k m st out Union" for k out
    by (simp add: mm_find_def mm_find_union_def mm_read_correct [OF assms] mm_read_correct [of m'])
  with clear show ?thesis by blast
qed

end
