(* ===== verification/Buffer_Manager.thy ===== *)
theory Buffer_Manager
  imports Page_Store "HOL-Library.AList"
begin

text \<open>
  The buffer manager of \<open>src/src/enclave/BufferManager.cpp\<close>, \<open>BufferManager.h\<close> and
  \<open>BufferManager.inl\<close>: shards of cached pages with pin counts, dirty flags and a list of the pages
  that may be evicted, in front of one file per page. Page classes and their serialisation are a
  parameter (\<open>page_class\<close>). The operations of one shard run under its lock and are modelled as
  sequential steps; where the code waits for another thread to unpin a page, the step returns
  \<open>Blocked\<close>. The main result is that the cache implements the plain numbered pages of
  \<open>Page_Store\<close>.
\<close>

section \<open>Pages and their metadata\<close>

record ('p, 'b) page_class =
  pc_serialize :: "'p \<Rightarrow> 'b"
  pc_load :: "'b \<Rightarrow> 'p"
  pc_byte_size :: "'p \<Rightarrow> nat"
  pc_meta_size :: nat

record 'p page_meta =
  pm_page :: 'p
  pm_dirty :: bool
  pm_size :: nat
  cnt_pin :: nat
  pm_listed :: bool

type_synonym 'p metas = "(page_no_t \<times> 'p page_meta) list"
type_synonym 'b disk = "string \<rightharpoonup> 'b"

definition meta_size :: "('p, 'b) page_class \<Rightarrow> 'p page_meta \<Rightarrow> nat" where
  "meta_size pc meta = pc_meta_size pc + pm_size meta"

definition new_meta :: "('p, 'b) page_class \<Rightarrow> 'p \<Rightarrow> 'p page_meta" where
  "new_meta pc page = \<lparr>pm_page = page, pm_dirty = False, pm_size = pc_byte_size pc page, cnt_pin = 0, pm_listed = False\<rparr>"

record 'p buffer_shard =
  m_buffer_size :: nat
  m_metas :: "'p metas"
  m_loaded_size :: nat
  m_evict_list :: "page_no_t list"

definition page_filename :: "string \<Rightarrow> page_no_t \<Rightarrow> string" where
  "page_filename prefix page_no = prefix @ ''_page_'' @ to_string_nat (unat page_no)"

section \<open>Operations of a shard\<close>

definition find_meta :: "page_no_t \<Rightarrow> 'p buffer_shard \<Rightarrow> 'p page_meta result" where
  "find_meta page_no sh =
     (case map_of (m_metas sh) page_no of
        None \<Rightarrow> Inl (Fatal ''Invalid state: no such meta'')
      | Some meta \<Rightarrow> Inr meta)"

definition set_meta :: "page_no_t \<Rightarrow> 'p page_meta \<Rightarrow> 'p buffer_shard \<Rightarrow> 'p buffer_shard" where
  "set_meta page_no meta sh = sh\<lparr>m_metas := AList.update page_no meta (m_metas sh)\<rparr>"

definition pin_page :: "page_no_t \<Rightarrow> 'p buffer_shard \<Rightarrow> 'p buffer_shard result" where
  "pin_page page_no sh =
     rbind (find_meta page_no sh) (\<lambda>meta.
       if cnt_pin meta = 0
       then Inr (set_meta page_no (meta\<lparr>cnt_pin := 1, pm_listed := False\<rparr>)
              (sh\<lparr>m_evict_list := (if pm_listed meta then remove1 page_no (m_evict_list sh) else m_evict_list sh)\<rparr>))
       else Inr (set_meta page_no (meta\<lparr>cnt_pin := cnt_pin meta + 1\<rparr>) sh))"

definition unpin_page :: "page_no_t \<Rightarrow> 'p buffer_shard \<Rightarrow> 'p buffer_shard result" where
  "unpin_page page_no sh =
     rbind (find_meta page_no sh) (\<lambda>meta.
       if cnt_pin meta = 0 then Inl (Fatal ''Invalid state: pin count is 0'')
       else if cnt_pin meta = 1 \<and> \<not> pm_listed meta
       then Inr (set_meta page_no (meta\<lparr>cnt_pin := 0, pm_listed := True\<rparr>) (sh\<lparr>m_evict_list := page_no # m_evict_list sh\<rparr>))
       else Inr (set_meta page_no (meta\<lparr>cnt_pin := cnt_pin meta - 1\<rparr>) sh))"

definition mark_page_dirty :: "('p, 'b) page_class \<Rightarrow> page_no_t \<Rightarrow> 'p buffer_shard \<Rightarrow> 'p buffer_shard result" where
  "mark_page_dirty pc page_no sh =
     rbind (find_meta page_no sh) (\<lambda>meta.
       let meta' = meta\<lparr>pm_dirty := True, pm_size := pc_byte_size pc (pm_page meta)\<rparr>
       in Inr ((set_meta page_no meta' sh)
            \<lparr>m_loaded_size := m_loaded_size sh + meta_size pc meta' - meta_size pc meta\<rparr>))"

definition write_to_disk :: "string \<Rightarrow> page_no_t \<Rightarrow> 'b \<Rightarrow> 'b disk \<Rightarrow> 'b disk" where
  "write_to_disk prefix page_no data disk = disk(page_filename prefix page_no \<mapsto> data)"

definition read_from_disk :: "string \<Rightarrow> page_no_t \<Rightarrow> 'b disk \<Rightarrow> 'b result" where
  "read_from_disk prefix page_no disk =
     (case disk (page_filename prefix page_no) of
        None \<Rightarrow> Inl (Fatal ''Failed to read_from_disk'')
      | Some data \<Rightarrow> Inr data)"

definition flush_page_internal ::
  "('p, 'b) page_class \<Rightarrow> string \<Rightarrow> page_no_t \<Rightarrow> 'p page_meta \<Rightarrow> 'b disk \<Rightarrow> 'p page_meta \<times> 'b disk" where
  "flush_page_internal pc prefix page_no meta disk =
     (meta\<lparr>pm_dirty := False\<rparr>,
      if pm_dirty meta then write_to_disk prefix page_no (pc_serialize pc (pm_page meta)) disk else disk)"

definition flush_page ::
  "('p, 'b) page_class \<Rightarrow> string \<Rightarrow> page_no_t \<Rightarrow> 'p buffer_shard \<Rightarrow> 'b disk \<Rightarrow> ('p buffer_shard \<times> 'b disk) result" where
  "flush_page pc prefix page_no sh disk =
     rbind (find_meta page_no sh) (\<lambda>meta.
       case flush_page_internal pc prefix page_no meta disk of (meta', disk') \<Rightarrow>
         Inr (set_meta page_no meta' sh, disk'))"

fun flush_metas ::
  "('p, 'b) page_class \<Rightarrow> string \<Rightarrow> 'p metas \<Rightarrow> 'b disk \<Rightarrow> 'p metas \<times> 'b disk" where
  "flush_metas pc prefix [] disk = ([], disk)"
| "flush_metas pc prefix ((p, meta) # ms) disk =
     (case flush_page_internal pc prefix p meta disk of (meta', disk') \<Rightarrow>
        (case flush_metas pc prefix ms disk' of (ms', disk'') \<Rightarrow> ((p, meta') # ms', disk'')))"

definition flush_all_pages ::
  "('p, 'b) page_class \<Rightarrow> string \<Rightarrow> 'p buffer_shard \<Rightarrow> 'b disk \<Rightarrow> 'p buffer_shard \<times> 'b disk" where
  "flush_all_pages pc prefix sh disk =
     (case flush_metas pc prefix (m_metas sh) disk of (ms, disk') \<Rightarrow> (sh\<lparr>m_metas := ms\<rparr>, disk'))"

definition unload_page ::
  "('p, 'b) page_class \<Rightarrow> string \<Rightarrow> page_no_t \<Rightarrow> 'p buffer_shard \<Rightarrow> 'b disk \<Rightarrow> ('p buffer_shard \<times> 'b disk) result" where
  "unload_page pc prefix page_no sh disk =
     rbind (find_meta page_no sh) (\<lambda>meta.
       if cnt_pin meta \<noteq> 0 then Inl (Fatal ''Invalid state: pin count is != 0'')
       else Inr (sh\<lparr>m_metas := AList.delete page_no (m_metas sh),
                    m_loaded_size := m_loaded_size sh - meta_size pc meta\<rparr>,
                 snd (flush_page_internal pc prefix page_no meta disk)))"

lemma unload_page_evict_list [simp]:
  "unload_page pc prefix p sh disk = Inr (sh', disk') \<Longrightarrow> m_evict_list sh' = m_evict_list sh"
  by (auto simp: unload_page_def rbind_eq_Inr split: if_splits)

text \<open>The loop of \<open>check_evict\<close>: unload the least recently used pages until the limit is reached.\<close>

function evict_loop ::
  "('p, 'b) page_class \<Rightarrow> string \<Rightarrow> nat \<Rightarrow> 'p buffer_shard \<Rightarrow> 'b disk \<Rightarrow> ('p buffer_shard \<times> 'b disk) result" where
  "evict_loop pc prefix expected sh disk =
     (if m_loaded_size sh \<le> expected then Inr (sh, disk)
      else if m_evict_list sh = [] then Inl Blocked
      else
        (case unload_page pc prefix (last (m_evict_list sh)) (sh\<lparr>m_evict_list := butlast (m_evict_list sh)\<rparr>) disk of
           Inl e \<Rightarrow> Inl e
         | Inr (sh', disk') \<Rightarrow> evict_loop pc prefix expected sh' disk'))"
  by pat_completeness auto

termination
  by (relation "measure (\<lambda>(pc, prefix, expected, sh, disk). length (m_evict_list sh))") auto

declare evict_loop.simps [simp del]

definition check_evict ::
  "('p, 'b) page_class \<Rightarrow> string \<Rightarrow> 'p buffer_shard \<Rightarrow> 'b disk \<Rightarrow> ('p buffer_shard \<times> 'b disk) result" where
  "check_evict pc prefix sh disk =
     (if m_loaded_size sh < m_buffer_size sh then Inr (sh, disk)
      else evict_loop pc prefix (4 * m_buffer_size sh div 5) sh disk)"

text \<open>\<open>get_page_internal\<close> returns the page pinned; \<open>None\<close> if it is not cached and must not be loaded.\<close>

definition pin_and_return :: "page_no_t \<Rightarrow> 'p buffer_shard \<Rightarrow> 'b disk \<Rightarrow> ('p option \<times> 'p buffer_shard \<times> 'b disk) result" where
  "pin_and_return page_no sh disk =
     rbind (find_meta page_no sh) (\<lambda>meta.
       rbind (pin_page page_no sh) (\<lambda>sh'. Inr (Some (pm_page meta), sh', disk)))"

definition get_page_internal ::
  "('p, 'b) page_class \<Rightarrow> string \<Rightarrow> page_no_t \<Rightarrow> bool \<Rightarrow> 'p buffer_shard \<Rightarrow> 'b disk
    \<Rightarrow> ('p option \<times> 'p buffer_shard \<times> 'b disk) result" where
  "get_page_internal pc prefix page_no load sh disk =
     (if page_no = INVALID_PAGE_NO then Inl (Fatal ''Got invalid page id'')
      else case map_of (m_metas sh) page_no of
        Some _ \<Rightarrow> pin_and_return page_no sh disk
      | None \<Rightarrow>
         if \<not> load then Inr (None, sh, disk)
         else
           rbind (check_evict pc prefix sh disk) (\<lambda>(sh1, disk1).
           rbind (read_from_disk prefix page_no disk1) (\<lambda>data.
             let meta = new_meta pc (pc_load pc data);
                 sh2 = (case map_of (m_metas sh1) page_no of
                          Some _ \<Rightarrow> sh1
                        | None \<Rightarrow> (set_meta page_no meta sh1)\<lparr>m_loaded_size := m_loaded_size sh1 + meta_size pc meta\<rparr>)
             in pin_and_return page_no sh2 disk1)))"

definition shard_new_page ::
  "('p, 'b) page_class \<Rightarrow> string \<Rightarrow> page_no_t \<Rightarrow> 'p \<Rightarrow> 'p buffer_shard \<Rightarrow> 'b disk
    \<Rightarrow> ('p option \<times> 'p buffer_shard \<times> 'b disk) result" where
  "shard_new_page pc prefix page_no page sh disk =
     rbind (check_evict pc prefix sh disk) (\<lambda>(sh1, disk1).
       let meta = (new_meta pc page)\<lparr>pm_dirty := True\<rparr>;
           sh2 = (set_meta page_no meta sh1)\<lparr>m_loaded_size := m_loaded_size sh1 + meta_size pc meta\<rparr>
       in get_page_internal pc prefix page_no True sh2 disk1)"

definition reload_page ::
  "('p, 'b) page_class \<Rightarrow> string \<Rightarrow> page_no_t \<Rightarrow> 'p buffer_shard \<Rightarrow> 'b disk \<Rightarrow> 'p buffer_shard result" where
  "reload_page pc prefix page_no sh disk =
     rbind (find_meta page_no sh) (\<lambda>meta.
     rbind (read_from_disk prefix page_no disk) (\<lambda>data.
       let page = pc_load pc data;
           meta' = meta\<lparr>pm_page := page, pm_size := pc_byte_size pc page\<rparr>
       in Inr ((set_meta page_no meta' sh)
            \<lparr>m_loaded_size := m_loaded_size sh - meta_size pc meta + meta_size pc meta'\<rparr>)))"

fun clear_metas ::
  "('p, 'b) page_class \<Rightarrow> string \<Rightarrow> page_no_t list \<Rightarrow> 'p buffer_shard \<Rightarrow> 'b disk \<Rightarrow> ('p buffer_shard \<times> 'b disk) result" where
  "clear_metas pc prefix [] sh disk = Inr (sh, disk)"
| "clear_metas pc prefix (p # ps) sh disk =
     rbind (find_meta p sh) (\<lambda>meta.
       if cnt_pin meta \<noteq> 0 then clear_metas pc prefix ps sh disk
       else rbind (unload_page pc prefix p (sh\<lparr>m_evict_list := remove1 p (m_evict_list sh)\<rparr>) disk)
              (\<lambda>(sh', disk'). clear_metas pc prefix ps sh' disk'))"

definition clear_cache ::
  "('p, 'b) page_class \<Rightarrow> string \<Rightarrow> 'p buffer_shard \<Rightarrow> 'b disk \<Rightarrow> ('p buffer_shard \<times> 'b disk) result" where
  "clear_cache pc prefix sh disk = clear_metas pc prefix (map fst (m_metas sh)) sh disk"

definition discard_meta :: "('p, 'b) page_class \<Rightarrow> page_no_t \<Rightarrow> 'p page_meta \<Rightarrow> 'p buffer_shard \<Rightarrow> 'p buffer_shard result" where
  "discard_meta pc page_no meta sh =
     (if cnt_pin meta \<noteq> 0 then Inl (Fatal ''Invalid state: pin count > 0'')
      else Inr (sh\<lparr>m_loaded_size := m_loaded_size sh - meta_size pc meta,
                   m_metas := AList.delete page_no (m_metas sh)\<rparr>))"

definition discard_cache :: "('p, 'b) page_class \<Rightarrow> page_no_t \<Rightarrow> 'p buffer_shard \<Rightarrow> 'p buffer_shard result" where
  "discard_cache pc page_no sh =
     (case map_of (m_metas sh) page_no of
        None \<Rightarrow> Inr sh
      | Some meta \<Rightarrow>
          discard_meta pc page_no meta
            (sh\<lparr>m_evict_list := (if pm_listed meta then remove1 page_no (m_evict_list sh) else m_evict_list sh)\<rparr>))"

fun discard_all :: "('p, 'b) page_class \<Rightarrow> 'p metas \<Rightarrow> 'p buffer_shard \<Rightarrow> 'p buffer_shard result" where
  "discard_all pc [] sh = Inr sh"
| "discard_all pc ((p, meta) # ms) sh = rbind (discard_meta pc p meta sh) (discard_all pc ms)"

definition discard_all_cache :: "('p, 'b) page_class \<Rightarrow> 'p buffer_shard \<Rightarrow> 'p buffer_shard result" where
  "discard_all_cache pc sh = discard_all pc (m_metas sh) sh"

section \<open>The buffer manager\<close>

record ('p, 'b) buffer_manager =
  m_file_prefix :: string
  bm_next_page_no :: page_no_t
  m_shards :: "nat \<Rightarrow> 'p buffer_shard"
  bm_disk :: "'b disk"

definition NUM_BUFFER_SHARDS :: nat where "NUM_BUFFER_SHARDS = 32"

definition shard_of :: "page_no_t \<Rightarrow> nat" where
  "shard_of page_no = unat page_no mod NUM_BUFFER_SHARDS"

definition new_buffer_manager :: "string \<Rightarrow> nat \<Rightarrow> 'b disk \<Rightarrow> ('p, 'b) buffer_manager" where
  "new_buffer_manager file_prefix buffer_size disk =
     \<lparr>m_file_prefix = file_prefix, bm_next_page_no = 1,
      m_shards = (\<lambda>_. \<lparr>m_buffer_size = buffer_size div NUM_BUFFER_SHARDS, m_metas = [], m_loaded_size = 0, m_evict_list = []\<rparr>),
      bm_disk = disk\<rparr>"

definition with_shard ::
  "nat \<Rightarrow> ('p buffer_shard \<Rightarrow> 'b disk \<Rightarrow> ('a \<times> 'p buffer_shard \<times> 'b disk) result)
    \<Rightarrow> ('p, 'b) buffer_manager \<Rightarrow> ('a \<times> ('p, 'b) buffer_manager) result" where
  "with_shard i f b =
     rbind (f (m_shards b i) (bm_disk b)) (\<lambda>(x, sh, disk).
       Inr (x, b\<lparr>m_shards := (m_shards b)(i := sh), bm_disk := disk\<rparr>))"

definition bm_get_page ::
  "('p, 'b) page_class \<Rightarrow> page_no_t \<Rightarrow> ('p, 'b) buffer_manager \<Rightarrow> ('p option \<times> ('p, 'b) buffer_manager) result" where
  "bm_get_page pc page_no b =
     with_shard (shard_of page_no) (get_page_internal pc (m_file_prefix b) page_no True) b"

definition bm_get_page_if_cached ::
  "('p, 'b) page_class \<Rightarrow> page_no_t \<Rightarrow> ('p, 'b) buffer_manager \<Rightarrow> ('p option \<times> ('p, 'b) buffer_manager) result" where
  "bm_get_page_if_cached pc page_no b =
     with_shard (shard_of page_no) (get_page_internal pc (m_file_prefix b) page_no False) b"

definition bm_new_page ::
  "('p, 'b) page_class \<Rightarrow> 'p \<Rightarrow> ('p, 'b) buffer_manager \<Rightarrow> (page_no_t \<times> ('p, 'b) buffer_manager) result" where
  "bm_new_page pc page b =
     (let page_no = bm_next_page_no b
      in rbind (with_shard (shard_of page_no) (shard_new_page pc (m_file_prefix b) page_no page)
                  (b\<lparr>bm_next_page_no := page_no + 1\<rparr>))
           (\<lambda>(_, b'). Inr (page_no, b')))"

text \<open>A change of a page through its handle: the page object is modified and marked as dirty.\<close>

definition bm_modify_page ::
  "('p, 'b) page_class \<Rightarrow> page_no_t \<Rightarrow> ('p \<Rightarrow> 'p) \<Rightarrow> ('p, 'b) buffer_manager \<Rightarrow> (unit \<times> ('p, 'b) buffer_manager) result" where
  "bm_modify_page pc page_no f b =
     with_shard (shard_of page_no) (\<lambda>sh disk.
       rbind (find_meta page_no sh) (\<lambda>meta.
       rbind (mark_page_dirty pc page_no (set_meta page_no (meta\<lparr>pm_page := f (pm_page meta)\<rparr>) sh)) (\<lambda>sh'.
         Inr ((), sh', disk)))) b"

definition bm_unpin_page :: "page_no_t \<Rightarrow> ('p, 'b) buffer_manager \<Rightarrow> (unit \<times> ('p, 'b) buffer_manager) result" where
  "bm_unpin_page page_no b =
     with_shard (shard_of page_no) (\<lambda>sh disk. rbind (unpin_page page_no sh) (\<lambda>sh'. Inr ((), sh', disk))) b"

definition bm_flush_page ::
  "('p, 'b) page_class \<Rightarrow> page_no_t \<Rightarrow> ('p, 'b) buffer_manager \<Rightarrow> (unit \<times> ('p, 'b) buffer_manager) result" where
  "bm_flush_page pc page_no b =
     with_shard (shard_of page_no) (\<lambda>sh disk.
       rbind (flush_page pc (m_file_prefix b) page_no sh disk) (\<lambda>(sh', disk'). Inr ((), sh', disk'))) b"

fun for_shards ::
  "nat list \<Rightarrow> ('p buffer_shard \<Rightarrow> 'b disk \<Rightarrow> ('p buffer_shard \<times> 'b disk) result)
    \<Rightarrow> ('p, 'b) buffer_manager \<Rightarrow> ('p, 'b) buffer_manager result" where
  "for_shards [] f b = Inr b"
| "for_shards (i # is) f b =
     rbind (with_shard i (\<lambda>sh disk. rbind (f sh disk) (\<lambda>(sh', disk'). Inr ((), sh', disk'))) b)
       (\<lambda>(_, b'). for_shards is f b')"

definition bm_flush_all_pages :: "('p, 'b) page_class \<Rightarrow> ('p, 'b) buffer_manager \<Rightarrow> ('p, 'b) buffer_manager result" where
  "bm_flush_all_pages pc b =
     for_shards [0..<NUM_BUFFER_SHARDS] (\<lambda>sh disk. Inr (flush_all_pages pc (m_file_prefix b) sh disk)) b"

definition bm_clear_cache :: "('p, 'b) page_class \<Rightarrow> ('p, 'b) buffer_manager \<Rightarrow> ('p, 'b) buffer_manager result" where
  "bm_clear_cache pc b = for_shards [0..<NUM_BUFFER_SHARDS] (clear_cache pc (m_file_prefix b)) b"

definition bm_discard_all_cache :: "('p, 'b) page_class \<Rightarrow> ('p, 'b) buffer_manager \<Rightarrow> ('p, 'b) buffer_manager result" where
  "bm_discard_all_cache pc b =
     for_shards [0..<NUM_BUFFER_SHARDS] (\<lambda>sh disk. rbind (discard_all_cache pc sh) (\<lambda>sh'. Inr (sh', disk))) b"

section \<open>Lemmas on the table of cached pages\<close>

definition total_size :: "('p, 'b) page_class \<Rightarrow> 'p metas \<Rightarrow> nat" where
  "total_size pc ms = sum_list (map (\<lambda>(p, m). meta_size pc m) ms)"

lemma total_size_update:
  "total_size pc (AList.update p m ms) + (case map_of ms p of None \<Rightarrow> 0 | Some m' \<Rightarrow> meta_size pc m') =
   total_size pc ms + meta_size pc m"
  by (induction ms) (auto simp: total_size_def)

lemma total_size_delete:
  "distinct (map fst ms) \<Longrightarrow>
   total_size pc (AList.delete p ms) + (case map_of ms p of None \<Rightarrow> 0 | Some m \<Rightarrow> meta_size pc m) = total_size pc ms"
  by (induction ms) (auto simp: total_size_def AList.delete_eq map_of_eq_None_iff [symmetric] filter_id_conv image_iff
      split: option.splits)

lemma update_update_same: "AList.update k v (AList.update k w xs) = AList.update k v xs"
  by (induction xs) auto

lemma map_of_flush_metas:
  "distinct (map fst ms) \<Longrightarrow>
   map_of (fst (flush_metas pc prefix ms disk)) p = map_option (\<lambda>m. m\<lparr>pm_dirty := False\<rparr>) (map_of ms p)"
  by (induction pc prefix ms disk rule: flush_metas.induct)
    (auto simp: flush_page_internal_def split: prod.splits)

lemma page_filename_inject [simp]: "page_filename prefix p = page_filename prefix q \<longleftrightarrow> p = q"
  by (simp add: page_filename_def word_unat_eq_iff)

section \<open>The invariant of a shard\<close>

definition meta_ok ::
  "('p, 'b) page_class \<Rightarrow> string \<Rightarrow> 'b disk \<Rightarrow> page_no_t list \<Rightarrow> page_no_t \<Rightarrow> 'p page_meta \<Rightarrow> bool" where
  "meta_ok pc prefix disk ev p meta \<longleftrightarrow>
     (\<not> pm_dirty meta \<longrightarrow> map_option (pc_load pc) (disk (page_filename prefix p)) = Some (pm_page meta)) \<and>
     (cnt_pin meta = 0 \<longleftrightarrow> p \<in> set ev) \<and> (pm_listed meta \<longleftrightarrow> p \<in> set ev)"

definition shard_inv :: "('p, 'b) page_class \<Rightarrow> string \<Rightarrow> 'p buffer_shard \<Rightarrow> 'b disk \<Rightarrow> bool" where
  "shard_inv pc prefix sh disk \<longleftrightarrow>
     distinct (map fst (m_metas sh)) \<and> distinct (m_evict_list sh) \<and>
     set (m_evict_list sh) \<subseteq> dom (map_of (m_metas sh)) \<and>
     (\<forall>p meta. map_of (m_metas sh) p = Some meta \<longrightarrow> meta_ok pc prefix disk (m_evict_list sh) p meta) \<and>
     m_loaded_size sh = total_size pc (m_metas sh)"

text \<open>The content of a page as its users see it.\<close>

definition page_view :: "('p, 'b) page_class \<Rightarrow> string \<Rightarrow> 'p buffer_shard \<Rightarrow> 'b disk \<Rightarrow> page_no_t \<rightharpoonup> 'p" where
  "page_view pc prefix sh disk p =
     (case map_of (m_metas sh) p of
        Some meta \<Rightarrow> Some (pm_page meta)
      | None \<Rightarrow> map_option (pc_load pc) (disk (page_filename prefix p)))"

text \<open>
  A step that changes no page: every view is kept, files of pages that were not cached are kept,
  and pages are only added to the cache from \<open>S\<close>.
\<close>

definition view_kept ::
  "('p, 'b) page_class \<Rightarrow> string \<Rightarrow> page_no_t set \<Rightarrow> 'p buffer_shard \<Rightarrow> 'b disk \<Rightarrow> 'p buffer_shard \<Rightarrow> 'b disk \<Rightarrow> bool" where
  "view_kept pc prefix S sh disk sh' disk' \<longleftrightarrow>
     (\<forall>p. page_view pc prefix sh' disk' p = page_view pc prefix sh disk p) \<and>
     (\<forall>p. p \<notin> dom (map_of (m_metas sh)) \<longrightarrow> disk' (page_filename prefix p) = disk (page_filename prefix p)) \<and>
     dom (map_of (m_metas sh')) \<subseteq> dom (map_of (m_metas sh)) \<union> S \<and>
     m_buffer_size sh' = m_buffer_size sh"

definition pages_roundtrip :: "('p, 'b) page_class \<Rightarrow> bool" where
  "pages_roundtrip pc \<longleftrightarrow> (\<forall>p. pc_load pc (pc_serialize pc p) = p)"

lemma view_kept_refl [simp]: "view_kept pc prefix S sh disk sh disk"
  by (auto simp: view_kept_def)

lemma view_kept_trans:
  assumes "view_kept pc prefix S sh disk sh1 disk1" and "view_kept pc prefix {} sh1 disk1 sh2 disk2"
    and "\<And>p. p \<in> S \<Longrightarrow> p \<in> dom (map_of (m_metas sh1)) \<Longrightarrow> p \<in> dom (map_of (m_metas sh))"
  shows "view_kept pc prefix S sh disk sh2 disk2"
  using assms unfolding view_kept_def by (metis (no_types, lifting) Un_iff subset_iff sup_bot_right)

lemmas shard_defs = find_meta_def set_meta_def update_conv' AList.delete_conv'

lemma total_size_replace:
  "map_of ms p = Some m \<Longrightarrow> total_size pc (AList.update p m' ms) + meta_size pc m = total_size pc ms + meta_size pc m'"
  using total_size_update [of pc p m' ms] by simp

lemma total_size_insert:
  "map_of ms p = None \<Longrightarrow> total_size pc (AList.update p m ms) = total_size pc ms + meta_size pc m"
  using total_size_update [of pc p m ms] by simp

lemma total_size_remove:
  "distinct (map fst ms) \<Longrightarrow> map_of ms p = Some m \<Longrightarrow> total_size pc (AList.delete p ms) = total_size pc ms - meta_size pc m"
  using total_size_delete [of ms pc p] by simp

lemma unload_page_ok:
  assumes inv: "shard_inv pc prefix sh disk" and rt: "pages_roundtrip pc"
    and m: "map_of (m_metas sh) p = Some meta" "cnt_pin meta = 0"
  shows "\<exists>sh' disk'. unload_page pc prefix p (sh\<lparr>m_evict_list := remove1 p (m_evict_list sh)\<rparr>) disk = Inr (sh', disk') \<and>
     shard_inv pc prefix sh' disk' \<and> view_kept pc prefix {} sh disk sh' disk' \<and>
     m_evict_list sh' = remove1 p (m_evict_list sh) \<and> map_of (m_metas sh') = (map_of (m_metas sh))(p := None)"
proof -
  let ?sh' = "sh\<lparr>m_evict_list := remove1 p (m_evict_list sh), m_metas := AList.delete p (m_metas sh),
                 m_loaded_size := m_loaded_size sh - meta_size pc meta\<rparr>"
  let ?disk' = "snd (flush_page_internal pc prefix p meta disk)"
  have run: "unload_page pc prefix p (sh\<lparr>m_evict_list := remove1 p (m_evict_list sh)\<rparr>) disk = Inr (?sh', ?disk')"
    using m by (simp add: unload_page_def find_meta_def)
  have other: "?disk' (page_filename prefix q) = disk (page_filename prefix q)" if "q \<noteq> p" for q
    using that by (simp add: flush_page_internal_def write_to_disk_def)
  have saved: "map_option (pc_load pc) (?disk' (page_filename prefix p)) = Some (pm_page meta)"
    using inv m rt by (auto simp: flush_page_internal_def write_to_disk_def shard_inv_def meta_ok_def pages_roundtrip_def)
  have "shard_inv pc prefix ?sh' ?disk'"
    using inv m other unfolding shard_inv_def
    by (auto simp: AList.delete_conv' AList.distinct_delete total_size_remove meta_ok_def split: if_splits)
  moreover have "page_view pc prefix ?sh' ?disk' q = page_view pc prefix sh disk q" for q
    using m other [of q] saved
    by (cases "q = p") (auto simp: page_view_def AList.delete_conv' split: option.splits)
  moreover have "?disk' (page_filename prefix q) = disk (page_filename prefix q)" if "q \<notin> dom (map_of (m_metas sh))" for q
    using other [of q] m(1) that by (cases "q = p") auto
  ultimately show ?thesis using run by (auto simp: AList.delete_conv' view_kept_def)
qed

definition pinned_size :: "('p, 'b) page_class \<Rightarrow> 'p metas \<Rightarrow> nat" where
  "pinned_size pc ms = sum_list (map (\<lambda>(p, m). if cnt_pin m = 0 then 0 else meta_size pc m) ms)"

lemma pinned_size_delete:
  "distinct (map fst ms) \<Longrightarrow> map_of ms p = Some m \<Longrightarrow> cnt_pin m = 0 \<Longrightarrow>
   pinned_size pc (AList.delete p ms) = pinned_size pc ms"
proof (induction ms)
  case (Cons a ms)
  obtain q m' where a: "a = (q, m')" by (cases a)
  show ?case
  proof (cases "q = p")
    case True
    then have "AList.delete p ms = ms" using Cons.prems a by (intro AList.delete_id) simp
    then show ?thesis using True Cons.prems a by (simp add: pinned_size_def)
  next
    case False
    then show ?thesis using Cons a by (simp add: pinned_size_def)
  qed
qed simp

lemma total_size_all_pinned:
  "\<forall>e\<in>set ms. cnt_pin (snd e) \<noteq> 0 \<Longrightarrow> total_size pc ms = pinned_size pc ms"
  by (induction ms) (auto simp: total_size_def pinned_size_def)

lemma remove1_last: "distinct xs \<Longrightarrow> xs \<noteq> [] \<Longrightarrow> remove1 (last xs) xs = butlast xs"
  by (induction xs rule: rev_induct) (auto simp: remove1_append)

definition evicted ::
  "('p, 'b) page_class \<Rightarrow> string \<Rightarrow> 'p buffer_shard \<Rightarrow> 'b disk \<Rightarrow> 'p buffer_shard \<Rightarrow> 'b disk \<Rightarrow> bool" where
  "evicted pc prefix sh disk sh' disk' \<longleftrightarrow>
     shard_inv pc prefix sh' disk' \<and> view_kept pc prefix {} sh disk sh' disk' \<and>
     pinned_size pc (m_metas sh') = pinned_size pc (m_metas sh) \<and>
     (\<forall>p meta. map_of (m_metas sh) p = Some meta \<longrightarrow> cnt_pin meta \<noteq> 0 \<longrightarrow> map_of (m_metas sh') p = Some meta)"

lemma evicted_trans:
  "evicted pc prefix sh disk sh1 disk1 \<Longrightarrow> evicted pc prefix sh1 disk1 sh2 disk2 \<Longrightarrow> evicted pc prefix sh disk sh2 disk2"
  unfolding evicted_def using view_kept_trans [of pc prefix "{}" sh disk sh1 disk1 sh2 disk2] by simp

lemma evict_one_ok:
  assumes inv: "shard_inv pc prefix sh disk" and rt: "pages_roundtrip pc" and ne: "m_evict_list sh \<noteq> []"
  shows "\<exists>sh' disk'. unload_page pc prefix (last (m_evict_list sh)) (sh\<lparr>m_evict_list := butlast (m_evict_list sh)\<rparr>) disk =
           Inr (sh', disk') \<and> evicted pc prefix sh disk sh' disk' \<and> m_evict_list sh' = butlast (m_evict_list sh)"
proof -
  let ?p = "last (m_evict_list sh)"
  have "?p \<in> set (m_evict_list sh)" using ne by simp
  then obtain meta where m: "map_of (m_metas sh) ?p = Some meta" "cnt_pin meta = 0"
    using inv unfolding shard_inv_def meta_ok_def by blast
  have "remove1 ?p (m_evict_list sh) = butlast (m_evict_list sh)"
    using inv ne by (intro remove1_last) (simp_all add: shard_inv_def)
  with unload_page_ok [OF inv rt m] obtain sh' disk' where
    run: "unload_page pc prefix ?p (sh\<lparr>m_evict_list := butlast (m_evict_list sh)\<rparr>) disk = Inr (sh', disk')"
    and ok: "shard_inv pc prefix sh' disk'" "view_kept pc prefix {} sh disk sh' disk'"
      "m_evict_list sh' = butlast (m_evict_list sh)" "map_of (m_metas sh') = (map_of (m_metas sh))(?p := None)"
    by auto
  have "m_metas sh' = AList.delete ?p (m_metas sh)"
    using run m by (auto simp: unload_page_def find_meta_def)
  then have "pinned_size pc (m_metas sh') = pinned_size pc (m_metas sh)"
    using inv m by (simp add: shard_inv_def pinned_size_delete)
  with run ok m show ?thesis by (auto simp: evicted_def)
qed

lemma evict_loop_ok:
  assumes "shard_inv pc prefix sh disk" "pages_roundtrip pc"
  shows "(\<exists>sh' disk'. evict_loop pc prefix expected sh disk = Inr (sh', disk') \<and> evicted pc prefix sh disk sh' disk' \<and>
            m_loaded_size sh' \<le> expected) \<or>
         (evict_loop pc prefix expected sh disk = Inl Blocked \<and> expected < pinned_size pc (m_metas sh))"
  using assms
proof (induction "length (m_evict_list sh)" arbitrary: sh disk rule: less_induct)
  case less
  note inv = less.prems(1)
  consider "m_loaded_size sh \<le> expected" | "expected < m_loaded_size sh" "m_evict_list sh = []"
    | "expected < m_loaded_size sh" "m_evict_list sh \<noteq> []" by linarith
  then show ?case
  proof cases
    case 1
    then show ?thesis using inv by (subst (1 2) evict_loop.simps) (simp add: evicted_def)
  next
    case 2
    have "\<forall>e\<in>set (m_metas sh). cnt_pin (snd e) \<noteq> 0"
      using inv 2 by (auto simp: shard_inv_def meta_ok_def)
    then have "m_loaded_size sh = pinned_size pc (m_metas sh)"
      using inv total_size_all_pinned [of "m_metas sh" pc] by (simp add: shard_inv_def)
    with 2 show ?thesis by (subst (1 2) evict_loop.simps) simp
  next
    case 3
    obtain sh1 disk1 where run: "unload_page pc prefix (last (m_evict_list sh)) (sh\<lparr>m_evict_list := butlast (m_evict_list sh)\<rparr>) disk = Inr (sh1, disk1)"
      and ev: "evicted pc prefix sh disk sh1 disk1" and len: "m_evict_list sh1 = butlast (m_evict_list sh)"
      using evict_one_ok [OF inv less.prems(2) 3(2)] by blast
    have step: "evict_loop pc prefix expected sh disk = evict_loop pc prefix expected sh1 disk1"
      using 3 run by (subst evict_loop.simps) simp
    have "length (m_evict_list sh1) < length (m_evict_list sh)" using len 3(2) by simp
    moreover have "shard_inv pc prefix sh1 disk1" "pinned_size pc (m_metas sh1) = pinned_size pc (m_metas sh)"
      using ev by (auto simp: evicted_def)
    ultimately show ?thesis
      using less.hyps [of sh1 disk1] less.prems(2) evicted_trans [OF ev] unfolding step by auto
  qed
qed

lemma check_evict_ok:
  assumes "shard_inv pc prefix sh disk" "pages_roundtrip pc"
  shows "(\<exists>sh' disk'. check_evict pc prefix sh disk = Inr (sh', disk') \<and> evicted pc prefix sh disk sh' disk') \<or>
         (check_evict pc prefix sh disk = Inl Blocked \<and> 4 * m_buffer_size sh div 5 < pinned_size pc (m_metas sh))"
  using evict_loop_ok [OF assms, of "4 * m_buffer_size sh div 5"] assms(1)
  by (auto simp: check_evict_def evicted_def)

section \<open>Steps of a shard\<close>

text \<open>
  A step of a shard after which the pages are \<open>V\<close>: it keeps the invariant, the files of pages that
  were not cached, and caches at most the pages \<open>S\<close> in addition.
\<close>

definition shard_step ::
  "('p, 'b) page_class \<Rightarrow> string \<Rightarrow> (page_no_t \<rightharpoonup> 'p) \<Rightarrow> page_no_t set \<Rightarrow> 'p buffer_shard \<Rightarrow> 'b disk
    \<Rightarrow> 'p buffer_shard \<Rightarrow> 'b disk \<Rightarrow> bool" where
  "shard_step pc prefix V S sh disk sh' disk' \<longleftrightarrow>
     shard_inv pc prefix sh' disk' \<and> page_view pc prefix sh' disk' = V \<and>
     (\<forall>p. p \<notin> dom (map_of (m_metas sh)) \<longrightarrow> disk' (page_filename prefix p) = disk (page_filename prefix p)) \<and>
     dom (map_of (m_metas sh')) \<subseteq> dom (map_of (m_metas sh)) \<union> S"

lemma shard_step_view_kept:
  "shard_inv pc prefix sh' disk' \<Longrightarrow> view_kept pc prefix S sh disk sh' disk' \<Longrightarrow>
   shard_step pc prefix (page_view pc prefix sh disk) S sh disk sh' disk'"
  by (auto simp: shard_step_def view_kept_def)

lemma shard_step_after:
  assumes "view_kept pc prefix {} sh disk sh1 disk1" "shard_step pc prefix V S sh1 disk1 sh2 disk2"
  shows "shard_step pc prefix V S sh disk sh2 disk2"
proof -
  have sub: "dom (map_of (m_metas sh1)) \<subseteq> dom (map_of (m_metas sh))"
    using assms(1) by (simp add: view_kept_def)
  have "disk2 (page_filename prefix p) = disk (page_filename prefix p)" if p: "p \<notin> dom (map_of (m_metas sh))" for p
  proof -
    have "p \<notin> dom (map_of (m_metas sh1))" using sub p by blast
    then have "disk2 (page_filename prefix p) = disk1 (page_filename prefix p)"
      using assms(2) unfolding shard_step_def by blast
    also have "\<dots> = disk (page_filename prefix p)" using assms(1) p unfolding view_kept_def by blast
    finally show ?thesis .
  qed
  moreover have "dom (map_of (m_metas sh2)) \<subseteq> dom (map_of (m_metas sh)) \<union> S"
    using assms(2) sub unfolding shard_step_def by blast
  ultimately show ?thesis using assms(2) by (simp add: shard_step_def)
qed

lemma shard_step_mono:
  "shard_step pc prefix V {} sh disk sh' disk' \<Longrightarrow> shard_step pc prefix V S sh disk sh' disk'"
  unfolding shard_step_def by blast

lemma shard_replace_meta:
  assumes inv: "shard_inv pc prefix sh disk" and m: "map_of (m_metas sh) p = Some meta"
    and ev: "distinct ev" "set ev - {p} = set (m_evict_list sh) - {p}"
    and ok: "meta_ok pc prefix disk ev p meta'"
    and size: "L + meta_size pc meta = m_loaded_size sh + meta_size pc meta'"
  shows "shard_step pc prefix ((page_view pc prefix sh disk)(p \<mapsto> pm_page meta')) {} sh disk
           (sh\<lparr>m_metas := AList.update p meta' (m_metas sh), m_evict_list := ev, m_loaded_size := L\<rparr>) disk"
proof -
  have other: "meta_ok pc prefix disk ev q m'" if "q \<noteq> p" "map_of (m_metas sh) q = Some m'" for q m'
  proof -
    have "q \<in> set ev \<longleftrightarrow> q \<in> set (m_evict_list sh)" using ev(2) that(1) by blast
    with inv that(2) show ?thesis by (auto simp: shard_inv_def meta_ok_def)
  qed
  have "\<forall>q m'. map_of (AList.update p meta' (m_metas sh)) q = Some m' \<longrightarrow> meta_ok pc prefix disk ev q m'"
    using other ok by (simp add: update_conv')
  moreover have "set ev \<subseteq> dom (map_of (AList.update p meta' (m_metas sh)))"
  proof
    fix q assume "q \<in> set ev"
    then have "q = p \<or> q \<in> set (m_evict_list sh)" using ev(2) by blast
    then show "q \<in> dom (map_of (AList.update p meta' (m_metas sh)))"
      using inv by (auto simp: update_conv' shard_inv_def)
  qed
  moreover have "distinct (map fst (AList.update p meta' (m_metas sh)))"
    using inv by (simp add: shard_inv_def AList.distinct_update)
  moreover have "L = total_size pc (AList.update p meta' (m_metas sh))"
    using size total_size_replace [OF m, of pc meta'] inv by (simp add: shard_inv_def)
  ultimately have "shard_inv pc prefix (sh\<lparr>m_metas := AList.update p meta' (m_metas sh), m_evict_list := ev, m_loaded_size := L\<rparr>) disk"
    using ev(1) by (simp add: shard_inv_def)
  moreover have "page_view pc prefix (sh\<lparr>m_metas := AList.update p meta' (m_metas sh), m_evict_list := ev, m_loaded_size := L\<rparr>) disk
      = (page_view pc prefix sh disk)(p \<mapsto> pm_page meta')"
    by (auto simp: page_view_def update_conv' fun_eq_iff)
  ultimately show ?thesis using m by (auto simp: shard_step_def update_conv')
qed

lemma shard_insert_meta:
  assumes inv: "shard_inv pc prefix sh disk" and m: "map_of (m_metas sh) p = None"
    and ok: "meta_ok pc prefix disk (m_evict_list sh) p meta"
    and ev: "p \<notin> set (m_evict_list sh)"
  shows "shard_step pc prefix ((page_view pc prefix sh disk)(p \<mapsto> pm_page meta)) {p} sh disk
           ((set_meta p meta sh)\<lparr>m_loaded_size := m_loaded_size sh + meta_size pc meta\<rparr>) disk"
proof -
  let ?sh = "(set_meta p meta sh)\<lparr>m_loaded_size := m_loaded_size sh + meta_size pc meta\<rparr>"
  have "shard_inv pc prefix ?sh disk"
    using inv ok ev m unfolding shard_inv_def
    by (auto simp: set_meta_def update_conv' AList.distinct_update total_size_insert)
  moreover have "page_view pc prefix ?sh disk = (page_view pc prefix sh disk)(p \<mapsto> pm_page meta)"
    by (auto simp: page_view_def update_conv' fun_eq_iff set_meta_def)
  ultimately show ?thesis by (auto simp: shard_step_def update_conv' set_meta_def)
qed

lemma view_self: "map_of (m_metas sh) p = Some meta \<Longrightarrow>
    (page_view pc prefix sh disk)(p \<mapsto> pm_page meta) = page_view pc prefix sh disk"
  by (auto simp: page_view_def fun_eq_iff)

lemma meta_size_simps [simp]:
  "meta_size pc (meta\<lparr>pm_dirty := d\<rparr>) = meta_size pc meta"
  "meta_size pc (meta\<lparr>cnt_pin := c\<rparr>) = meta_size pc meta"
  "meta_size pc (meta\<lparr>pm_listed := l\<rparr>) = meta_size pc meta"
  "meta_size pc (meta\<lparr>pm_page := g\<rparr>) = meta_size pc meta"
  by (simp_all add: meta_size_def)

lemma meta_okD:
  assumes "shard_inv pc prefix sh disk" "map_of (m_metas sh) p = Some meta"
  shows "meta_ok pc prefix disk (m_evict_list sh) p meta"
  using assms by (simp add: shard_inv_def)

lemma pin_ok:
  assumes inv: "shard_inv pc prefix sh disk" and m: "map_of (m_metas sh) p = Some meta"
  shows "\<exists>sh'. pin_and_return p sh disk = Inr (Some (pm_page meta), sh', disk) \<and>
           shard_step pc prefix (page_view pc prefix sh disk) {} sh disk sh' disk"
proof -
  let ?ev = "if cnt_pin meta = 0 \<and> pm_listed meta then remove1 p (m_evict_list sh) else m_evict_list sh"
  let ?meta = "meta\<lparr>cnt_pin := cnt_pin meta + 1, pm_listed := (if cnt_pin meta = 0 then False else pm_listed meta)\<rparr>"
  let ?sh = "sh\<lparr>m_metas := AList.update p ?meta (m_metas sh), m_evict_list := ?ev, m_loaded_size := m_loaded_size sh\<rparr>"
  note ok = meta_okD [OF inv m]
  have dist: "distinct (m_evict_list sh)" using inv by (simp add: shard_inv_def)
  have "shard_step pc prefix ((page_view pc prefix sh disk)(p \<mapsto> pm_page ?meta)) {} sh disk ?sh disk"
    using ok dist by (intro shard_replace_meta [OF inv m]) (auto simp: meta_ok_def)
  then have "shard_step pc prefix (page_view pc prefix sh disk) {} sh disk ?sh disk"
    using view_self [OF m, of pc prefix disk] by simp
  moreover have "pin_and_return p sh disk = Inr (Some (pm_page meta), ?sh, disk)"
    using m by (cases meta) (simp add: pin_and_return_def pin_page_def find_meta_def set_meta_def)
  ultimately show ?thesis by blast
qed

lemma unpin_ok:
  assumes inv: "shard_inv pc prefix sh disk" and m: "map_of (m_metas sh) p = Some meta" "cnt_pin meta \<noteq> 0"
  shows "\<exists>sh'. unpin_page p sh = Inr sh' \<and> shard_step pc prefix (page_view pc prefix sh disk) {} sh disk sh' disk"
proof -
  note ok = meta_okD [OF inv m(1)]
  have nl: "\<not> pm_listed meta" "p \<notin> set (m_evict_list sh)" using ok m(2) by (auto simp: meta_ok_def)
  let ?ev = "if cnt_pin meta = 1 then p # m_evict_list sh else m_evict_list sh"
  let ?meta = "meta\<lparr>cnt_pin := cnt_pin meta - 1, pm_listed := (cnt_pin meta = 1)\<rparr>"
  let ?sh = "sh\<lparr>m_metas := AList.update p ?meta (m_metas sh), m_evict_list := ?ev, m_loaded_size := m_loaded_size sh\<rparr>"
  have dist: "distinct (m_evict_list sh)" using inv by (simp add: shard_inv_def)
  have "shard_step pc prefix ((page_view pc prefix sh disk)(p \<mapsto> pm_page ?meta)) {} sh disk ?sh disk"
    using ok dist nl m(2) by (intro shard_replace_meta [OF inv m(1)]) (auto simp: meta_ok_def)
  then have "shard_step pc prefix (page_view pc prefix sh disk) {} sh disk ?sh disk"
    using view_self [OF m(1), of pc prefix disk] by simp
  moreover have "unpin_page p sh = Inr ?sh"
    using m nl by (cases meta) (simp add: unpin_page_def find_meta_def set_meta_def)
  ultimately show ?thesis by blast
qed

lemma modify_ok:
  assumes inv: "shard_inv pc prefix sh disk" and m: "map_of (m_metas sh) p = Some meta"
  shows "\<exists>sh'. rbind (mark_page_dirty pc p (set_meta p (meta\<lparr>pm_page := f (pm_page meta)\<rparr>) sh)) (\<lambda>sh'. Inr ((), sh', disk)) =
             Inr ((), sh', disk) \<and>
           shard_step pc prefix ((page_view pc prefix sh disk)(p \<mapsto> f (pm_page meta))) {} sh disk sh' disk"
proof -
  note ok = meta_okD [OF inv m]
  let ?meta = "meta\<lparr>pm_page := f (pm_page meta), pm_dirty := True, pm_size := pc_byte_size pc (f (pm_page meta))\<rparr>"
  let ?L = "m_loaded_size sh + meta_size pc ?meta - meta_size pc meta"
  let ?sh = "sh\<lparr>m_metas := AList.update p ?meta (m_metas sh), m_evict_list := m_evict_list sh, m_loaded_size := ?L\<rparr>"
  have "meta_size pc meta \<le> m_loaded_size sh"
    using inv total_size_replace [OF m, of pc meta] total_size_delete [of "m_metas sh" pc p] m
    by (simp add: shard_inv_def)
  then have "shard_step pc prefix ((page_view pc prefix sh disk)(p \<mapsto> pm_page ?meta)) {} sh disk ?sh disk"
    using ok inv by (intro shard_replace_meta [OF inv m]) (auto simp: meta_ok_def shard_inv_def)
  moreover have "mark_page_dirty pc p (set_meta p (meta\<lparr>pm_page := f (pm_page meta)\<rparr>) sh) = Inr ?sh"
    by (simp add: mark_page_dirty_def find_meta_def set_meta_def update_conv' update_update_same Let_def)
  ultimately show ?thesis by auto
qed

lemma flush_ok:
  assumes inv: "shard_inv pc prefix sh disk" and rt: "pages_roundtrip pc" and m: "map_of (m_metas sh) p = Some meta"
  shows "\<exists>sh' disk'. flush_page pc prefix p sh disk = Inr (sh', disk') \<and>
           shard_step pc prefix (page_view pc prefix sh disk) {} sh disk sh' disk'"
proof -
  let ?disk = "snd (flush_page_internal pc prefix p meta disk)"
  let ?sh = "set_meta p (meta\<lparr>pm_dirty := False\<rparr>) sh"
  note ok = meta_okD [OF inv m]
  have saved: "map_option (pc_load pc) (?disk (page_filename prefix p)) = Some (pm_page meta)"
    using ok rt by (auto simp: flush_page_internal_def write_to_disk_def meta_ok_def pages_roundtrip_def)
  have other: "?disk (page_filename prefix q) = disk (page_filename prefix q)" if "q \<noteq> p" for q
    using that by (simp add: flush_page_internal_def write_to_disk_def)
  have "meta_ok pc prefix ?disk (m_evict_list sh) q m'" if "map_of (m_metas ?sh) q = Some m'" for q m'
    using that inv ok saved other [of q] by (auto simp: set_meta_def update_conv' meta_ok_def shard_inv_def split: if_splits)
  then have "shard_inv pc prefix ?sh ?disk"
    using inv total_size_replace [OF m, of pc "meta\<lparr>pm_dirty := False\<rparr>"]
    by (auto simp: shard_inv_def set_meta_def update_conv' AList.distinct_update)
  moreover have "page_view pc prefix ?sh ?disk q = page_view pc prefix sh disk q" for q
    using m other [of q] by (cases "q = p") (auto simp: page_view_def set_meta_def update_conv' split: option.splits)
  moreover have "?disk (page_filename prefix q) = disk (page_filename prefix q)" if "q \<notin> dom (map_of (m_metas sh))" for q
    using other [of q] m that by (cases "q = p") auto
  ultimately have "shard_step pc prefix (page_view pc prefix sh disk) {} sh disk ?sh ?disk"
    using m by (auto simp: shard_step_def set_meta_def update_conv' fun_eq_iff)
  moreover have "flush_page pc prefix p sh disk = Inr (?sh, ?disk)"
    using m by (simp add: flush_page_def find_meta_def flush_page_internal_def)
  ultimately show ?thesis by blast
qed

text \<open>Pages that are created or loaded enter the cache pinned.\<close>

lemma enter_ok:
  assumes inv: "shard_inv pc prefix sh disk" and m: "map_of (m_metas sh) p = None"
    and meta: "cnt_pin meta = 0" "\<not> pm_listed meta"
      "\<not> pm_dirty meta \<longrightarrow> map_option (pc_load pc) (disk (page_filename prefix p)) = Some (pm_page meta)"
  shows "\<exists>sh'. pin_and_return p ((set_meta p meta sh)\<lparr>m_loaded_size := m_loaded_size sh + meta_size pc meta\<rparr>) disk =
             Inr (Some (pm_page meta), sh', disk) \<and>
           shard_step pc prefix ((page_view pc prefix sh disk)(p \<mapsto> pm_page meta)) {p} sh disk sh' disk"
proof -
  let ?meta = "meta\<lparr>cnt_pin := 1, pm_listed := False\<rparr>"
  let ?sh = "(set_meta p ?meta sh)\<lparr>m_loaded_size := m_loaded_size sh + meta_size pc ?meta\<rparr>"
  have ev: "p \<notin> set (m_evict_list sh)" using inv m by (auto simp: shard_inv_def)
  then have "shard_step pc prefix ((page_view pc prefix sh disk)(p \<mapsto> pm_page ?meta)) {p} sh disk ?sh disk"
    using meta by (intro shard_insert_meta [OF inv m]) (auto simp: meta_ok_def)
  moreover have "pin_and_return p ((set_meta p meta sh)\<lparr>m_loaded_size := m_loaded_size sh + meta_size pc meta\<rparr>) disk =
      Inr (Some (pm_page meta), ?sh, disk)"
    using meta by (simp add: pin_and_return_def pin_page_def find_meta_def set_meta_def update_conv' update_update_same)
  ultimately show ?thesis by auto
qed

definition shard_blocked :: "('p, 'b) page_class \<Rightarrow> 'p buffer_shard \<Rightarrow> bool" where
  "shard_blocked pc sh \<longleftrightarrow> 4 * m_buffer_size sh div 5 < pinned_size pc (m_metas sh)"

lemma get_page_ok:
  assumes inv: "shard_inv pc prefix sh disk" and rt: "pages_roundtrip pc"
    and p: "p \<noteq> INVALID_PAGE_NO" "page_view pc prefix sh disk p = Some page"
  shows "(\<exists>sh' disk'. get_page_internal pc prefix p True sh disk = Inr (Some page, sh', disk') \<and>
            shard_step pc prefix (page_view pc prefix sh disk) {p} sh disk sh' disk') \<or>
         (get_page_internal pc prefix p True sh disk = Inl Blocked \<and> shard_blocked pc sh)"
proof (cases "map_of (m_metas sh) p")
  case (Some meta)
  then have "pm_page meta = page" using p(2) by (simp add: page_view_def)
  with pin_ok [OF inv Some] Some p(1) show ?thesis
    using shard_step_mono by (fastforce simp: get_page_internal_def)
next
  case None
  from check_evict_ok [OF inv rt] show ?thesis
  proof
    assume "\<exists>sh' disk'. check_evict pc prefix sh disk = Inr (sh', disk') \<and> evicted pc prefix sh disk sh' disk'"
    then obtain sh1 disk1 where run: "check_evict pc prefix sh disk = Inr (sh1, disk1)"
      and inv1: "shard_inv pc prefix sh1 disk1" and kept: "view_kept pc prefix {} sh disk sh1 disk1"
      by (auto simp: evicted_def)
    have None1: "map_of (m_metas sh1) p = None"
      using kept None by (auto simp: view_kept_def dom_def subset_iff)
    have view1: "page_view pc prefix sh1 disk1 = page_view pc prefix sh disk" using kept by (auto simp: view_kept_def)
    obtain data where data: "disk1 (page_filename prefix p) = Some data" "pc_load pc data = page"
      using p(2) None1 view1 [symmetric] by (auto simp: page_view_def)
    obtain sh' where "pin_and_return p ((set_meta p (new_meta pc page) sh1)
          \<lparr>m_loaded_size := m_loaded_size sh1 + meta_size pc (new_meta pc page)\<rparr>) disk1 = Inr (Some page, sh', disk1)"
      and step: "shard_step pc prefix ((page_view pc prefix sh1 disk1)(p \<mapsto> page)) {p} sh1 disk1 sh' disk1"
      using enter_ok [OF inv1 None1, of "new_meta pc page"] data by (auto simp: new_meta_def)
    then have "get_page_internal pc prefix p True sh disk = Inr (Some page, sh', disk1)"
      using None None1 run data p(1) by (simp add: get_page_internal_def read_from_disk_def Let_def)
    moreover have "(page_view pc prefix sh1 disk1)(p \<mapsto> page) = page_view pc prefix sh disk"
      using view1 p(2) by auto
    ultimately show ?thesis using shard_step_after [OF kept] step by auto
  next
    assume "check_evict pc prefix sh disk = Inl Blocked \<and> 4 * m_buffer_size sh div 5 < pinned_size pc (m_metas sh)"
    with None p(1) show ?thesis by (simp add: get_page_internal_def shard_blocked_def)
  qed
qed

lemma new_page_ok:
  assumes inv: "shard_inv pc prefix sh disk" and rt: "pages_roundtrip pc"
    and p: "p \<noteq> INVALID_PAGE_NO" "p \<notin> dom (map_of (m_metas sh))"
  shows "(\<exists>sh' disk'. shard_new_page pc prefix p page sh disk = Inr (Some page, sh', disk') \<and>
            shard_step pc prefix ((page_view pc prefix sh disk)(p \<mapsto> page)) {p} sh disk sh' disk') \<or>
         (shard_new_page pc prefix p page sh disk = Inl Blocked \<and> shard_blocked pc sh)"
  using check_evict_ok [OF inv rt]
proof
  assume "\<exists>sh' disk'. check_evict pc prefix sh disk = Inr (sh', disk') \<and> evicted pc prefix sh disk sh' disk'"
  then obtain sh1 disk1 where run: "check_evict pc prefix sh disk = Inr (sh1, disk1)"
    and inv1: "shard_inv pc prefix sh1 disk1" and kept: "view_kept pc prefix {} sh disk sh1 disk1"
    by (auto simp: evicted_def)
  have None1: "map_of (m_metas sh1) p = None"
    using kept p(2) by (auto simp: view_kept_def dom_def subset_iff)
  have view1: "page_view pc prefix sh1 disk1 = page_view pc prefix sh disk" using kept by (auto simp: view_kept_def)
  let ?meta = "(new_meta pc page)\<lparr>pm_dirty := True\<rparr>"
  let ?sh2 = "(set_meta p ?meta sh1)\<lparr>m_loaded_size := m_loaded_size sh1 + meta_size pc ?meta\<rparr>"
  obtain sh' where pin: "pin_and_return p ?sh2 disk1 = Inr (Some page, sh', disk1)"
    and step: "shard_step pc prefix ((page_view pc prefix sh1 disk1)(p \<mapsto> page)) {p} sh1 disk1 sh' disk1"
    using enter_ok [OF inv1 None1, of ?meta] by (auto simp: new_meta_def)
  have "map_of (m_metas ?sh2) p = Some ?meta" by (simp add: set_meta_def update_conv')
  then have "shard_new_page pc prefix p page sh disk = Inr (Some page, sh', disk1)"
    using run pin p(1) by (simp add: shard_new_page_def get_page_internal_def Let_def)
  then show ?thesis using shard_step_after [OF kept step] view1 by auto
next
  assume "check_evict pc prefix sh disk = Inl Blocked \<and> 4 * m_buffer_size sh div 5 < pinned_size pc (m_metas sh)"
  then show ?thesis by (simp add: shard_new_page_def shard_blocked_def)
qed

lemma clear_metas_ok:
  assumes "shard_inv pc prefix sh disk" "pages_roundtrip pc" "distinct ps" "set ps \<subseteq> dom (map_of (m_metas sh))"
  shows "\<exists>sh' disk'. clear_metas pc prefix ps sh disk = Inr (sh', disk') \<and> shard_inv pc prefix sh' disk' \<and>
           view_kept pc prefix {} sh disk sh' disk'"
  using assms
proof (induction ps arbitrary: sh disk)
  case Nil
  then show ?case by simp
next
  case (Cons p ps)
  then obtain meta where m: "map_of (m_metas sh) p = Some meta" by auto
  show ?case
  proof (cases "cnt_pin meta = 0")
    case True
    obtain sh1 disk1 where run: "unload_page pc prefix p (sh\<lparr>m_evict_list := remove1 p (m_evict_list sh)\<rparr>) disk = Inr (sh1, disk1)"
      and ok: "shard_inv pc prefix sh1 disk1" "view_kept pc prefix {} sh disk sh1 disk1"
        "map_of (m_metas sh1) = (map_of (m_metas sh))(p := None)"
      using unload_page_ok [OF Cons.prems(1,2) m True] by blast
    have "set ps \<subseteq> dom (map_of (m_metas sh1))" using ok(3) Cons.prems(3,4) by auto
    then obtain sh' disk' where "clear_metas pc prefix ps sh1 disk1 = Inr (sh', disk')"
      "shard_inv pc prefix sh' disk'" "view_kept pc prefix {} sh1 disk1 sh' disk'"
      using Cons.IH [OF ok(1)] Cons.prems(2,3) by auto
    with run m True view_kept_trans [OF ok(2)] show ?thesis by (simp add: find_meta_def)
  next
    case False
    with Cons m show ?thesis by (simp add: find_meta_def)
  qed
qed

lemma clear_cache_ok:
  assumes "shard_inv pc prefix sh disk" "pages_roundtrip pc"
  shows "\<exists>sh' disk'. clear_cache pc prefix sh disk = Inr (sh', disk') \<and>
           shard_step pc prefix (page_view pc prefix sh disk) {} sh disk sh' disk'"
proof -
  have "distinct (map fst (m_metas sh))" "set (map fst (m_metas sh)) \<subseteq> dom (map_of (m_metas sh))"
    using assms(1) by (auto simp: shard_inv_def dom_map_of_conv_image_fst)
  from clear_metas_ok [OF assms this] show ?thesis
    using shard_step_view_kept by (fastforce simp: clear_cache_def)
qed

lemma flush_metas_disk:
  "distinct (map fst ms) \<Longrightarrow>
   snd (flush_metas pc prefix ms disk) (page_filename prefix p) =
     (case map_of ms p of
        Some m \<Rightarrow> if pm_dirty m then Some (pc_serialize pc (pm_page m)) else disk (page_filename prefix p)
      | None \<Rightarrow> disk (page_filename prefix p))"
proof (induction ms arbitrary: disk)
  case (Cons a ms)
  obtain q meta where a: "a = (q, meta)" by (cases a)
  let ?disk = "snd (flush_page_internal pc prefix q meta disk)"
  have q: "map_of ms q = None" using Cons.prems a by (simp add: map_of_eq_None_iff)
  have "snd (flush_metas pc prefix (a # ms) disk) = snd (flush_metas pc prefix ms ?disk)"
    by (simp add: a split: prod.splits)
  moreover have "snd (flush_metas pc prefix ms ?disk) (page_filename prefix p) =
     (case map_of ms p of
        Some m \<Rightarrow> if pm_dirty m then Some (pc_serialize pc (pm_page m)) else ?disk (page_filename prefix p)
      | None \<Rightarrow> ?disk (page_filename prefix p))"
    using Cons by simp
  ultimately show ?case
    using q by (cases "p = q"; cases "map_of ms p") (simp_all add: a flush_page_internal_def write_to_disk_def)
qed simp

lemma flush_metas_keys: "map fst (fst (flush_metas pc prefix ms disk)) = map fst ms"
  by (induction pc prefix ms disk rule: flush_metas.induct) (auto split: prod.splits)

lemma flush_metas_size: "total_size pc' (fst (flush_metas pc prefix ms disk)) = total_size pc' ms"
  by (induction pc prefix ms disk rule: flush_metas.induct)
    (auto simp: total_size_def flush_page_internal_def meta_size_def split: prod.splits)

lemma flush_all_ok:
  assumes inv: "shard_inv pc prefix sh disk" and rt: "pages_roundtrip pc"
  shows "\<exists>sh' disk'. flush_all_pages pc prefix sh disk = (sh', disk') \<and>
           shard_step pc prefix (page_view pc prefix sh disk) {} sh disk sh' disk'"
proof -
  let ?r = "flush_metas pc prefix (m_metas sh) disk"
  let ?sh = "sh\<lparr>m_metas := fst ?r\<rparr>"
  have dist: "distinct (map fst (m_metas sh))" using inv by (simp add: shard_inv_def)
  note mo = map_of_flush_metas [OF dist, of pc prefix disk] and dk = flush_metas_disk [OF dist, of pc prefix disk]
  have "meta_ok pc prefix (snd ?r) (m_evict_list sh) p m" if "map_of (fst ?r) p = Some m" for p m
    using that inv rt by (auto simp: mo dk shard_inv_def meta_ok_def pages_roundtrip_def)
  moreover have "dom (map_of (fst ?r)) = dom (map_of (m_metas sh))" by (auto simp: mo)
  ultimately have "shard_inv pc prefix ?sh (snd ?r)"
    using inv by (simp add: shard_inv_def flush_metas_keys flush_metas_size)
  moreover have "page_view pc prefix ?sh (snd ?r) p = page_view pc prefix sh disk p" for p
    by (auto simp: page_view_def mo dk split: option.splits)
  ultimately have "shard_step pc prefix (page_view pc prefix sh disk) {} sh disk ?sh (snd ?r)"
    by (auto simp: shard_step_def dk mo fun_eq_iff split: option.splits)
  then show ?thesis by (simp add: flush_all_pages_def split: prod.splits) auto
qed

section \<open>The buffer manager implements the page store\<close>

definition buf_abs :: "('p, 'b) page_class \<Rightarrow> ('p, 'b) buffer_manager \<Rightarrow> 'p page_store" where
  "buf_abs pc b =
     \<lparr>pages = (\<lambda>p. page_view pc (m_file_prefix b) (m_shards b (shard_of p)) (bm_disk b) p),
      m_next_page_no = bm_next_page_no b\<rparr>"

definition shards_inv :: "('p, 'b) page_class \<Rightarrow> ('p, 'b) buffer_manager \<Rightarrow> bool" where
  "shards_inv pc b \<longleftrightarrow>
     (\<forall>i. shard_inv pc (m_file_prefix b) (m_shards b i) (bm_disk b)) \<and>
     (\<forall>i. \<forall>p\<in>dom (map_of (m_metas (m_shards b i))). shard_of p = i)"

definition buf_inv :: "('p, 'b) page_class \<Rightarrow> ('p, 'b) buffer_manager \<Rightarrow> bool" where
  "buf_inv pc b \<longleftrightarrow> pages_roundtrip pc \<and> shards_inv pc b \<and> store_wf (buf_abs pc b)"

lemma shard_inv_disk:
  assumes "shard_inv pc prefix sh disk"
    and "\<And>p. p \<in> dom (map_of (m_metas sh)) \<Longrightarrow> disk' (page_filename prefix p) = disk (page_filename prefix p)"
  shows "shard_inv pc prefix sh disk'"
proof -
  have "meta_ok pc prefix disk' ev p m = meta_ok pc prefix disk ev p m" if "map_of (m_metas sh) p = Some m" for p m ev
  proof -
    have "disk' (page_filename prefix p) = disk (page_filename prefix p)" using assms(2) [of p] that by blast
    then show ?thesis by (simp add: meta_ok_def)
  qed
  with assms(1) show ?thesis by (simp add: shard_inv_def)
qed

lemma with_shard_ok:
  assumes inv: "shards_inv pc b"
    and run: "f (m_shards b i) (bm_disk b) = Inr (x, sh', disk')"
    and step: "shard_step pc (m_file_prefix b) V S (m_shards b i) (bm_disk b) sh' disk'"
    and S: "\<And>p. p \<in> S \<Longrightarrow> shard_of p = i"
  shows "\<exists>b'. with_shard i f b = Inr (x, b') \<and> shards_inv pc b' \<and> bm_next_page_no b' = bm_next_page_no b \<and>
           m_file_prefix b' = m_file_prefix b \<and>
           (\<forall>p. pages (buf_abs pc b') p = (if shard_of p = i then V p else pages (buf_abs pc b) p))"
proof -
  let ?b = "b\<lparr>m_shards := (m_shards b)(i := sh'), bm_disk := disk'\<rparr>"
  have place: "p \<in> dom (map_of (m_metas (m_shards b j))) \<Longrightarrow> shard_of p = j" for p j
    using inv by (simp add: shards_inv_def)
  have frame: "disk' (page_filename (m_file_prefix b) p) = bm_disk b (page_filename (m_file_prefix b) p)" if "shard_of p \<noteq> i" for p
    using step place [of p i] that unfolding shard_step_def by blast
  have "shard_inv pc (m_file_prefix b) (m_shards ?b j) disk'" for j
  proof (cases "j = i")
    case True
    then show ?thesis using step by (simp add: shard_step_def)
  next
    case False
    have "shard_inv pc (m_file_prefix b) (m_shards b j) (bm_disk b)" using inv by (simp add: shards_inv_def)
    then have "shard_inv pc (m_file_prefix b) (m_shards b j) disk'"
      by (rule shard_inv_disk) (use place frame False in blast)
    with False show ?thesis by simp
  qed
  moreover have "\<forall>p\<in>dom (map_of (m_metas (m_shards ?b j))). shard_of p = j" for j
  proof (cases "j = i")
    case True
    have "dom (map_of (m_metas sh')) \<subseteq> dom (map_of (m_metas (m_shards b i))) \<union> S"
      using step unfolding shard_step_def by blast
    then have "\<forall>p\<in>dom (map_of (m_metas sh')). shard_of p = i" using place [of _ i] S by blast
    with True show ?thesis by simp
  next
    case False
    then show ?thesis using place [of _ j] by simp
  qed
  ultimately have "shards_inv pc ?b" by (simp add: shards_inv_def)
  moreover have "pages (buf_abs pc ?b) p = (if shard_of p = i then V p else pages (buf_abs pc b) p)" for p
    using step frame [of p] by (auto simp: buf_abs_def shard_step_def page_view_def split: option.splits)
  ultimately show ?thesis using run by (simp add: with_shard_def)
qed

text \<open>
  The operations of the two layers, as commands. Those that discard or reload pages on a downstream server throw away what was
  modified, by intent, and are not among them.
\<close>

datatype 'p buf_op =
    GetPage page_no_t
  | NewPage 'p
  | ModifyPage page_no_t "'p \<Rightarrow> 'p"
  | UnpinPage page_no_t
  | FlushPage page_no_t
  | FlushAll
  | ClearCache

datatype 'p buf_out = OutPage 'p | OutNumber page_no_t | OutUnit

definition buf_step ::
  "('p, 'b) page_class \<Rightarrow> 'p buf_op \<Rightarrow> ('p, 'b) buffer_manager \<Rightarrow> ('p buf_out \<times> ('p, 'b) buffer_manager) result" where
  "buf_step pc op b =
     (case op of
        GetPage p \<Rightarrow> rbind (bm_get_page pc p b) (\<lambda>(r, b'). case r of
                       None \<Rightarrow> Inl (Fatal ''empty page handle'') | Some page \<Rightarrow> Inr (OutPage page, b'))
      | NewPage page \<Rightarrow> rbind (bm_new_page pc page b) (\<lambda>(p, b'). Inr (OutNumber p, b'))
      | ModifyPage p f \<Rightarrow> rbind (bm_modify_page pc p f b) (\<lambda>(_, b'). Inr (OutUnit, b'))
      | UnpinPage p \<Rightarrow> rbind (bm_unpin_page p b) (\<lambda>(_, b'). Inr (OutUnit, b'))
      | FlushPage p \<Rightarrow> rbind (bm_flush_page pc p b) (\<lambda>(_, b'). Inr (OutUnit, b'))
      | FlushAll \<Rightarrow> rbind (bm_flush_all_pages pc b) (\<lambda>b'. Inr (OutUnit, b'))
      | ClearCache \<Rightarrow> rbind (bm_clear_cache pc b) (\<lambda>b'. Inr (OutUnit, b')))"

definition store_step :: "'p buf_op \<Rightarrow> 'p page_store \<Rightarrow> ('p buf_out \<times> 'p page_store) result" where
  "store_step op st =
     (case op of
        GetPage p \<Rightarrow> rbind (get_page p st) (\<lambda>page. Inr (OutPage page, st))
      | NewPage page \<Rightarrow> (case new_page page st of (p, st') \<Rightarrow> Inr (OutNumber p, st'))
      | ModifyPage p f \<Rightarrow> rbind (get_page p st) (\<lambda>page. Inr (OutUnit, put_page p (f page) st))
      | _ \<Rightarrow> Inr (OutUnit, st))"

lemma get_page_none:
  assumes inv: "shard_inv pc prefix sh disk" and rt: "pages_roundtrip pc" and p: "page_view pc prefix sh disk p = None"
  shows "\<exists>e. get_page_internal pc prefix p True sh disk = Inl e"
proof -
  have None: "map_of (m_metas sh) p = None" "disk (page_filename prefix p) = None"
    using p by (auto simp: page_view_def split: option.splits)
  show ?thesis
  proof (cases "check_evict pc prefix sh disk")
    case (Inl e)
    with None show ?thesis by (simp add: get_page_internal_def)
  next
    case (Inr r)
    then obtain sh1 disk1 where r: "r = (sh1, disk1)" "view_kept pc prefix {} sh disk sh1 disk1"
      using check_evict_ok [OF inv rt] by (auto simp: evicted_def)
    have "p \<notin> dom (map_of (m_metas sh))" using None(1) by blast
    then have "disk1 (page_filename prefix p) = None" using r(2) None(2) unfolding view_kept_def by simp
    with Inr r None show ?thesis by (simp add: get_page_internal_def read_from_disk_def)
  qed
qed

lemma buf_abs_simps [simp]:
  "pages (buf_abs pc b) p = page_view pc (m_file_prefix b) (m_shards b (shard_of p)) (bm_disk b) p"
  "m_next_page_no (buf_abs pc b) = bm_next_page_no b"
  by (simp_all add: buf_abs_def)

lemma shards_invD: "shards_inv pc b \<Longrightarrow> shard_inv pc (m_file_prefix b) (m_shards b i) (bm_disk b)"
  by (simp add: shards_inv_def)

lemma buf_kept:
  assumes "buf_inv pc b" "shards_inv pc b'" "bm_next_page_no b' = bm_next_page_no b"
    and "\<And>p. pages (buf_abs pc b') p = pages (buf_abs pc b) p"
  shows "buf_inv pc b' \<and> buf_abs pc b' = buf_abs pc b"
proof -
  have "buf_abs pc b' = buf_abs pc b" using assms(3,4) by (intro page_store.equality) (auto simp: fun_eq_iff)
  with assms(1,2) show ?thesis by (simp add: buf_inv_def)
qed

lemma buf_put:
  assumes "buf_inv pc b" "shards_inv pc b'" "bm_next_page_no b' = bm_next_page_no b"
    and "\<And>q. pages (buf_abs pc b') q = (if q = p then Some page else pages (buf_abs pc b) q)"
    and "p \<in> dom (pages (buf_abs pc b))"
  shows "buf_inv pc b' \<and> buf_abs pc b' = put_page p page (buf_abs pc b)"
proof -
  have eq: "buf_abs pc b' = put_page p page (buf_abs pc b)"
    using assms(3,4) by (intro page_store.equality) (auto simp: fun_eq_iff put_page_def)
  moreover have "store_wf (put_page p page (buf_abs pc b))"
    using assms(1,5) by (intro store_wf_put_page) (simp_all add: buf_inv_def)
  ultimately show ?thesis using assms(1,2) by (simp add: buf_inv_def)
qed

lemma sim_get_page:
  assumes inv: "buf_inv pc b" and run: "bm_get_page pc p b = Inr (r, b')"
  shows "\<exists>page. r = Some page \<and> get_page p (buf_abs pc b) = Inr page \<and> buf_inv pc b' \<and> buf_abs pc b' = buf_abs pc b"
proof -
  let ?sh = "m_shards b (shard_of p)" and ?f = "get_page_internal pc (m_file_prefix b) p True"
  have si: "shards_inv pc b" and rt: "pages_roundtrip pc" using inv by (simp_all add: buf_inv_def)
  have p: "p \<noteq> INVALID_PAGE_NO"
    using run by (auto simp: bm_get_page_def with_shard_def get_page_internal_def)
  obtain page where view: "page_view pc (m_file_prefix b) ?sh (bm_disk b) p = Some page"
    using get_page_none [OF shards_invD [OF si] rt, of "shard_of p" p] run
    by (cases "page_view pc (m_file_prefix b) ?sh (bm_disk b) p") (auto simp: bm_get_page_def with_shard_def)
  from get_page_ok [OF shards_invD [OF si] rt p view] obtain sh' disk' where
    f: "?f ?sh (bm_disk b) = Inr (Some page, sh', disk')"
    and step: "shard_step pc (m_file_prefix b) (page_view pc (m_file_prefix b) ?sh (bm_disk b)) {p} ?sh (bm_disk b) sh' disk'"
    using run by (auto simp: bm_get_page_def with_shard_def)
  have "\<exists>b'. with_shard (shard_of p) ?f b = Inr (Some page, b') \<and> shards_inv pc b' \<and>
      bm_next_page_no b' = bm_next_page_no b \<and> m_file_prefix b' = m_file_prefix b \<and>
      (\<forall>q. pages (buf_abs pc b') q = (if shard_of q = shard_of p
         then page_view pc (m_file_prefix b) ?sh (bm_disk b) q else pages (buf_abs pc b) q))"
    using f step by (intro with_shard_ok [OF si, where S = "{p}"]) auto
  then have "r = Some page" "shards_inv pc b'" "bm_next_page_no b' = bm_next_page_no b"
    "\<And>q. pages (buf_abs pc b') q = pages (buf_abs pc b) q"
    using run by (auto simp: bm_get_page_def)
  with buf_kept [OF inv] p view show ?thesis by (simp add: get_page_def)
qed

lemma sim_new_page:
  assumes inv: "buf_inv pc b" and run: "bm_new_page pc page b = Inr (p, b')"
  shows "new_page page (buf_abs pc b) = (p, buf_abs pc b') \<and> buf_inv pc b'"
proof -
  let ?p = "bm_next_page_no b" and ?b = "b\<lparr>bm_next_page_no := bm_next_page_no b + 1\<rparr>"
  let ?sh = "m_shards b (shard_of ?p)" and ?f = "shard_new_page pc (m_file_prefix b) ?p page"
  have si: "shards_inv pc b" and rt: "pages_roundtrip pc" and wf: "store_wf (buf_abs pc b)"
    using inv by (simp_all add: buf_inv_def)
  have si': "shards_inv pc ?b" using si by (simp add: shards_inv_def)
  have fresh: "?p \<notin> dom (map_of (m_metas ?sh))"
    using next_fresh [OF wf] by (auto simp: page_view_def split: option.splits)
  have "?p \<noteq> INVALID_PAGE_NO"
  proof
    assume "?p = INVALID_PAGE_NO"
    then have "\<exists>e. ?f ?sh (bm_disk b) = Inl e"
      by (cases "check_evict pc (m_file_prefix b) ?sh (bm_disk b)")
        (auto simp: shard_new_page_def get_page_internal_def Let_def)
    with run show False by (auto simp: bm_new_page_def with_shard_def Let_def)
  qed
  from new_page_ok [OF shards_invD [OF si] rt this fresh, of page] obtain sh' disk' where
    f: "?f ?sh (bm_disk b) = Inr (Some page, sh', disk')"
    and step: "shard_step pc (m_file_prefix b) ((page_view pc (m_file_prefix b) ?sh (bm_disk b))(?p \<mapsto> page)) {?p} ?sh (bm_disk b) sh' disk'"
    using run by (auto simp: bm_new_page_def with_shard_def Let_def)
  have "\<exists>b'. with_shard (shard_of ?p) ?f ?b = Inr (Some page, b') \<and> shards_inv pc b' \<and>
      bm_next_page_no b' = bm_next_page_no ?b \<and> m_file_prefix b' = m_file_prefix ?b \<and>
      (\<forall>q. pages (buf_abs pc b') q = (if shard_of q = shard_of ?p
         then ((page_view pc (m_file_prefix b) ?sh (bm_disk b))(?p \<mapsto> page)) q else pages (buf_abs pc ?b) q))"
    by (rule with_shard_ok [OF si', where S = "{?p}"
          and V = "(page_view pc (m_file_prefix b) ?sh (bm_disk b))(?p \<mapsto> page)"])
      (use f step in simp_all)
  then have r: "p = ?p" "shards_inv pc b'" "bm_next_page_no b' = ?p + 1"
    "\<And>q. pages (buf_abs pc b') q = (if q = ?p then Some page else pages (buf_abs pc b) q)"
    using run by (auto simp: bm_new_page_def Let_def)
  have eq: "buf_abs pc b' = snd (new_page page (buf_abs pc b))"
    using r by (intro page_store.equality) (auto simp: fun_eq_iff new_page_def)
  have "?p < INVALID_PAGE_NO" using \<open>?p \<noteq> INVALID_PAGE_NO\<close> by (simp add: INVALID_PAGE_NO_def word_order.not_eq_extremum)
  then have "store_wf (buf_abs pc b')"
    unfolding eq using wf by (intro store_wf_new_page) (simp_all add: can_allocate_def)
  with r eq rt show ?thesis by (simp add: buf_inv_def new_page_def)
qed

lemma sim_modify_page:
  assumes inv: "buf_inv pc b" and run: "bm_modify_page pc p f b = Inr (u, b')"
  shows "\<exists>page. get_page p (buf_abs pc b) = Inr page \<and> buf_inv pc b' \<and> buf_abs pc b' = put_page p (f page) (buf_abs pc b)"
proof -
  let ?sh = "m_shards b (shard_of p)"
  let ?f = "\<lambda>sh disk. rbind (find_meta p sh) (\<lambda>meta.
       rbind (mark_page_dirty pc p (set_meta p (meta\<lparr>pm_page := f (pm_page meta)\<rparr>) sh)) (\<lambda>sh'. Inr ((), sh', disk)))"
  have si: "shards_inv pc b" using inv by (simp add: buf_inv_def)
  obtain meta where m: "map_of (m_metas ?sh) p = Some meta"
    using run by (auto simp: bm_modify_page_def with_shard_def find_meta_def split: option.splits)
  obtain sh' where f: "?f ?sh (bm_disk b) = Inr ((), sh', bm_disk b)"
    and step: "shard_step pc (m_file_prefix b) ((page_view pc (m_file_prefix b) ?sh (bm_disk b))(p \<mapsto> f (pm_page meta))) {} ?sh (bm_disk b) sh' (bm_disk b)"
    using modify_ok [OF shards_invD [OF si] m, of f] m by (auto simp: find_meta_def)
  have "\<exists>b'. with_shard (shard_of p) ?f b = Inr ((), b') \<and> shards_inv pc b' \<and>
      bm_next_page_no b' = bm_next_page_no b \<and> m_file_prefix b' = m_file_prefix b \<and>
      (\<forall>q. pages (buf_abs pc b') q = (if shard_of q = shard_of p
         then ((page_view pc (m_file_prefix b) ?sh (bm_disk b))(p \<mapsto> f (pm_page meta))) q else pages (buf_abs pc b) q))"
    by (rule with_shard_ok [OF si, where S = "{}"
          and V = "(page_view pc (m_file_prefix b) ?sh (bm_disk b))(p \<mapsto> f (pm_page meta))"])
      (use f step in simp_all)
  then have r: "shards_inv pc b'" "bm_next_page_no b' = bm_next_page_no b"
    "\<And>q. pages (buf_abs pc b') q = (if q = p then Some (f (pm_page meta)) else pages (buf_abs pc b) q)"
    using run by (auto simp: bm_modify_page_def)
  have view: "pages (buf_abs pc b) p = Some (pm_page meta)" using m by (simp add: page_view_def)
  then have "buf_inv pc b' \<and> buf_abs pc b' = put_page p (f (pm_page meta)) (buf_abs pc b)"
    by (intro buf_put [OF inv r(1,2) r(3)]) blast
  moreover have "p \<noteq> INVALID_PAGE_NO" using page_valid [of "buf_abs pc b" p] view inv by (auto simp: buf_inv_def)
  ultimately show ?thesis using view by (simp add: get_page_def)
qed

text \<open>Operations that change no page.\<close>

lemma sim_shard_kept:
  assumes inv: "buf_inv pc b"
    and f: "f (m_shards b i) (bm_disk b) = Inr (x, sh', disk')"
    and step: "shard_step pc (m_file_prefix b) (page_view pc (m_file_prefix b) (m_shards b i) (bm_disk b)) {} (m_shards b i) (bm_disk b) sh' disk'"
  shows "\<exists>b'. with_shard i f b = Inr (x, b') \<and> buf_inv pc b' \<and> buf_abs pc b' = buf_abs pc b \<and> m_file_prefix b' = m_file_prefix b"
proof -
  have si: "shards_inv pc b" using inv by (simp add: buf_inv_def)
  have "\<exists>b'. with_shard i f b = Inr (x, b') \<and> shards_inv pc b' \<and>
      bm_next_page_no b' = bm_next_page_no b \<and> m_file_prefix b' = m_file_prefix b \<and>
      (\<forall>q. pages (buf_abs pc b') q = (if shard_of q = i
         then page_view pc (m_file_prefix b) (m_shards b i) (bm_disk b) q else pages (buf_abs pc b) q))"
    by (rule with_shard_ok [OF si, where S = "{}"]) (use f step in simp_all)
  then obtain b' where b': "with_shard i f b = Inr (x, b')" "shards_inv pc b'" "bm_next_page_no b' = bm_next_page_no b"
    "m_file_prefix b' = m_file_prefix b" and pg: "\<And>q. pages (buf_abs pc b') q = pages (buf_abs pc b) q"
    by auto
  with buf_kept [OF inv b'(2,3) pg] show ?thesis by blast
qed

lemma sim_unpin_page:
  assumes inv: "buf_inv pc b" and run: "bm_unpin_page p b = Inr (u, b')"
  shows "buf_inv pc b' \<and> buf_abs pc b' = buf_abs pc b"
proof -
  let ?sh = "m_shards b (shard_of p)"
  have si: "shards_inv pc b" using inv by (simp add: buf_inv_def)
  obtain meta where m: "map_of (m_metas ?sh) p = Some meta" "cnt_pin meta \<noteq> 0"
    using run by (auto simp: bm_unpin_page_def with_shard_def find_meta_def unpin_page_def rbind_eq_Inr split: option.splits if_splits)
  with unpin_ok [OF shards_invD [OF si] m] obtain sh' where "unpin_page p ?sh = Inr sh'"
    "shard_step pc (m_file_prefix b) (page_view pc (m_file_prefix b) ?sh (bm_disk b)) {} ?sh (bm_disk b) sh' (bm_disk b)"
    by blast
  then have "\<exists>b'. with_shard (shard_of p) (\<lambda>sh disk. rbind (unpin_page p sh) (\<lambda>sh'. Inr ((), sh', disk))) b = Inr ((), b') \<and>
      buf_inv pc b' \<and> buf_abs pc b' = buf_abs pc b \<and> m_file_prefix b' = m_file_prefix b"
    by (intro sim_shard_kept [OF inv]) auto
  with run show ?thesis by (auto simp: bm_unpin_page_def)
qed

lemma sim_flush_page:
  assumes inv: "buf_inv pc b" and run: "bm_flush_page pc p b = Inr (u, b')"
  shows "buf_inv pc b' \<and> buf_abs pc b' = buf_abs pc b"
proof -
  let ?sh = "m_shards b (shard_of p)"
  have si: "shards_inv pc b" and rt: "pages_roundtrip pc" using inv by (simp_all add: buf_inv_def)
  obtain meta where m: "map_of (m_metas ?sh) p = Some meta"
    using run by (auto simp: bm_flush_page_def with_shard_def find_meta_def flush_page_def split: option.splits)
  with flush_ok [OF shards_invD [OF si] rt m] obtain sh' disk' where "flush_page pc (m_file_prefix b) p ?sh (bm_disk b) = Inr (sh', disk')"
    "shard_step pc (m_file_prefix b) (page_view pc (m_file_prefix b) ?sh (bm_disk b)) {} ?sh (bm_disk b) sh' disk'"
    by blast
  then have "\<exists>b'. with_shard (shard_of p) (\<lambda>sh disk. rbind (flush_page pc (m_file_prefix b) p sh disk)
        (\<lambda>(sh', disk'). Inr ((), sh', disk'))) b = Inr ((), b') \<and>
      buf_inv pc b' \<and> buf_abs pc b' = buf_abs pc b \<and> m_file_prefix b' = m_file_prefix b"
    by (intro sim_shard_kept [OF inv]) auto
  with run show ?thesis by (auto simp: bm_flush_page_def)
qed

lemma sim_for_shards:
  assumes "buf_inv pc b"
    and "\<And>sh disk. shard_inv pc (m_file_prefix b) sh disk \<Longrightarrow>
      \<exists>sh' disk'. f sh disk = Inr (sh', disk') \<and>
        shard_step pc (m_file_prefix b) (page_view pc (m_file_prefix b) sh disk) {} sh disk sh' disk'"
  shows "\<exists>b'. for_shards is f b = Inr b' \<and> buf_inv pc b' \<and> buf_abs pc b' = buf_abs pc b"
  using assms
proof (induction "is" arbitrary: b)
  case (Cons i "is")
  obtain sh' disk' where "f (m_shards b i) (bm_disk b) = Inr (sh', disk')"
    "shard_step pc (m_file_prefix b) (page_view pc (m_file_prefix b) (m_shards b i) (bm_disk b)) {} (m_shards b i) (bm_disk b) sh' disk'"
    using Cons.prems by (metis buf_inv_def shards_invD)
  then have "\<exists>b'. with_shard i (\<lambda>sh disk. rbind (f sh disk) (\<lambda>(sh', disk'). Inr ((), sh', disk'))) b = Inr ((), b') \<and>
      buf_inv pc b' \<and> buf_abs pc b' = buf_abs pc b \<and> m_file_prefix b' = m_file_prefix b"
    by (intro sim_shard_kept [OF Cons.prems(1)]) auto
  then obtain b1 where b1: "with_shard i (\<lambda>sh disk. rbind (f sh disk) (\<lambda>(sh', disk'). Inr ((), sh', disk'))) b = Inr ((), b1)"
      "buf_inv pc b1" "buf_abs pc b1 = buf_abs pc b" "m_file_prefix b1 = m_file_prefix b" by blast
  have "\<exists>b'. for_shards is f b1 = Inr b' \<and> buf_inv pc b' \<and> buf_abs pc b' = buf_abs pc b1"
    using b1(4) Cons.prems(2) by (intro Cons.IH [OF b1(2)]) simp
  with b1 show ?case by simp
qed simp

lemma buf_step_sim:
  assumes inv: "buf_inv pc b" and run: "buf_step pc op b = Inr (out, b')"
  shows "store_step op (buf_abs pc b) = Inr (out, buf_abs pc b') \<and> buf_inv pc b'"
proof (cases op)
  case (GetPage p)
  with run obtain page where "bm_get_page pc p b = Inr (Some page, b')" "out = OutPage page"
    by (auto simp: buf_step_def rbind_eq_Inr split: option.splits)
  with sim_get_page [OF inv] GetPage show ?thesis by (fastforce simp: store_step_def)
next
  case (NewPage page)
  with run obtain p where "bm_new_page pc page b = Inr (p, b')" "out = OutNumber p"
    by (auto simp: buf_step_def rbind_eq_Inr)
  with sim_new_page [OF inv] NewPage show ?thesis by (fastforce simp: store_step_def)
next
  case (ModifyPage p f)
  with run obtain u where "bm_modify_page pc p f b = Inr (u, b')" "out = OutUnit"
    by (auto simp: buf_step_def rbind_eq_Inr)
  with sim_modify_page [OF inv] ModifyPage show ?thesis by (fastforce simp: store_step_def)
next
  case (UnpinPage p)
  with run sim_unpin_page [OF inv] show ?thesis
    by (fastforce simp: buf_step_def store_step_def rbind_eq_Inr)
next
  case (FlushPage p)
  with run sim_flush_page [OF inv] show ?thesis
    by (fastforce simp: buf_step_def store_step_def rbind_eq_Inr)
next
  case FlushAll
  have "\<exists>b'. bm_flush_all_pages pc b = Inr b' \<and> buf_inv pc b' \<and> buf_abs pc b' = buf_abs pc b"
    unfolding bm_flush_all_pages_def using inv flush_all_ok [of pc "m_file_prefix b"]
    by (intro sim_for_shards [OF inv]) (auto simp: buf_inv_def)
  with FlushAll run show ?thesis by (auto simp: buf_step_def store_step_def)
next
  case ClearCache
  have "\<exists>b'. bm_clear_cache pc b = Inr b' \<and> buf_inv pc b' \<and> buf_abs pc b' = buf_abs pc b"
    unfolding bm_clear_cache_def using inv clear_cache_ok [of pc "m_file_prefix b"]
    by (intro sim_for_shards [OF inv]) (auto simp: buf_inv_def)
  with ClearCache run show ?thesis by (auto simp: buf_step_def store_step_def)
qed

interpretation buf: step_refinement "buf_step pc" store_step "buf_abs pc" "buf_inv pc" for pc
  by unfold_locales (rule buf_step_sim)

section \<open>Properties\<close>

text \<open>
  Property C16. The buffer manager, with its caching, write-back, eviction and reloading of pages,
  implements the plain page store: whatever sequence of operations returns, it returns what the
  page store returns, and the pages are afterwards those of the page store.
\<close>

theorem buffer_refines_page_store:
  assumes "buf_inv pc b" and "run_steps (buf_step pc) ops b = Inr (outs, b')"
  shows "run_steps store_step ops (buf_abs pc b) = Inr (outs, buf_abs pc b') \<and> buf_inv pc b'"
  using assms by (rule buf.run_refines)

text \<open>Pages that are numbers, of constant size, for the examples.\<close>

definition nat_pages :: "(nat, nat) page_class" where
  "nat_pages = \<lparr>pc_serialize = (\<lambda>p. p), pc_load = (\<lambda>b. b), pc_byte_size = (\<lambda>_. 40), pc_meta_size = 8\<rparr>"

lemma nat_pages_init: "buf_inv nat_pages (new_buffer_manager prefix bsize Map.empty)"
  by (simp add: buf_inv_def shards_inv_def shard_inv_def new_buffer_manager_def pages_roundtrip_def nat_pages_def
      total_size_def store_wf_def buf_abs_def page_view_def dom_def)

lemmas buf_eval = bm_get_page_def bm_new_page_def bm_modify_page_def bm_unpin_page_def bm_flush_page_def
  bm_clear_cache_def with_shard_def shard_new_page_def get_page_internal_def check_evict_def pin_and_return_def
  find_meta_def set_meta_def pin_page_def unpin_page_def mark_page_dirty_def flush_page_def flush_page_internal_def
  unload_page_def clear_cache_def write_to_disk_def read_from_disk_def new_meta_def meta_size_def nat_pages_def
  new_buffer_manager_def NUM_BUFFER_SHARDS_def shard_of_def INVALID_PAGE_NO_def upt_rec Let_def

definition evict_example :: "nat buf_op list" where
  "evict_example = [NewPage 5, ModifyPage 1 Suc, UnpinPage 1, ClearCache, GetPage 1]"

theorem buffer_refines_page_store_witness:
  "\<exists>b'. run_steps (buf_step nat_pages) evict_example (new_buffer_manager ''x'' 3200 Map.empty) =
        Inr ([OutNumber 1, OutUnit, OutUnit, OutUnit, OutPage 6], b') \<and>
      run_steps store_step evict_example (buf_abs nat_pages (new_buffer_manager ''x'' 3200 Map.empty)) =
        Inr ([OutNumber 1, OutUnit, OutUnit, OutUnit, OutPage 6], buf_abs nat_pages b') \<and> buf_inv nat_pages b'"
proof -
  have "\<exists>b'. run_steps (buf_step nat_pages) evict_example (new_buffer_manager ''x'' 3200 Map.empty) =
      Inr ([OutNumber 1, OutUnit, OutUnit, OutUnit, OutPage 6], b')"
    by (simp add: evict_example_def buf_step_def buf_eval)
  with buffer_refines_page_store [OF nat_pages_init] show ?thesis by blast
qed

text \<open>
  Property C26. A page that exists can always be fetched when the pinned pages of its shard take at
  most four fifths of the shard's memory: the call neither blocks nor aborts.
\<close>

theorem buffer_get_page_returns:
  assumes "buf_inv pc b" and "get_page p (buf_abs pc b) = Inr page"
    and "\<not> shard_blocked pc (m_shards b (shard_of p))"
  shows "\<exists>b'. bm_get_page pc p b = Inr (Some page, b') \<and> buf_inv pc b' \<and> buf_abs pc b' = buf_abs pc b"
proof -
  have p: "p \<noteq> INVALID_PAGE_NO"
    and view: "page_view pc (m_file_prefix b) (m_shards b (shard_of p)) (bm_disk b) p = Some page"
    using assms(2) by (auto simp: get_page_Inr)
  have si: "shards_inv pc b" and rt: "pages_roundtrip pc" using assms(1) by (simp_all add: buf_inv_def)
  obtain b' where run: "bm_get_page pc p b = Inr (Some page, b')"
    using get_page_ok [OF shards_invD [OF si] rt p view] assms(3)
    by (auto simp: bm_get_page_def with_shard_def)
  with sim_get_page [OF assms(1) run] show ?thesis by auto
qed

definition one_page_buffer :: "(nat, nat) buffer_manager" where
  "one_page_buffer = (new_buffer_manager ''x'' 3200 [page_filename ''x'' 1 \<mapsto> 7])\<lparr>bm_next_page_no := 2\<rparr>"

lemma one_page_buffer_inv: "buf_inv nat_pages one_page_buffer"
  by (auto simp: one_page_buffer_def buf_inv_def shards_inv_def shard_inv_def new_buffer_manager_def pages_roundtrip_def
      nat_pages_def total_size_def store_wf_def buf_abs_def page_view_def split: if_splits)

theorem buffer_get_page_returns_witness:
  "\<exists>b'. bm_get_page nat_pages 1 one_page_buffer = Inr (Some 7, b') \<and> buf_inv nat_pages b' \<and>
      buf_abs nat_pages b' = buf_abs nat_pages one_page_buffer"
  by (rule buffer_get_page_returns [OF one_page_buffer_inv])
    (simp_all add: one_page_buffer_def new_buffer_manager_def get_page_def buf_abs_def page_view_def nat_pages_def
      INVALID_PAGE_NO_def shard_blocked_def pinned_size_def)

text \<open>
  Property C17. Making room in a shard never unloads a pinned page, never changes the content of any
  page, and leaves the shard below its memory limit.
\<close>

theorem eviction_safe:
  assumes "shard_inv pc prefix sh disk" and "pages_roundtrip pc" and "0 < m_buffer_size sh"
    and "check_evict pc prefix sh disk = Inr (sh', disk')"
  shows "(\<forall>p meta. map_of (m_metas sh) p = Some meta \<and> cnt_pin meta \<noteq> 0 \<longrightarrow> map_of (m_metas sh') p = Some meta) \<and>
         page_view pc prefix sh' disk' = page_view pc prefix sh disk \<and> m_loaded_size sh' < m_buffer_size sh"
proof -
  have "4 * m_buffer_size sh div 5 < m_buffer_size sh" using assms(3) by simp
  then have "m_loaded_size sh' < m_buffer_size sh"
    using assms(4) evict_loop_ok [OF assms(1,2), of "4 * m_buffer_size sh div 5"]
    by (auto simp: check_evict_def split: if_splits)
  moreover have "evicted pc prefix sh disk sh' disk'" using check_evict_ok [OF assms(1,2)] assms(4) by auto
  ultimately show ?thesis by (auto simp: evicted_def view_kept_def)
qed

definition full_shard :: "nat buffer_shard" where
  "full_shard = \<lparr>m_buffer_size = 60,
     m_metas = [(1, \<lparr>pm_page = 5, pm_dirty = True, pm_size = 40, cnt_pin = 1, pm_listed = False\<rparr>),
                (33, \<lparr>pm_page = 6, pm_dirty = True, pm_size = 40, cnt_pin = 0, pm_listed = True\<rparr>)],
     m_loaded_size = 96, m_evict_list = [33]\<rparr>"

lemma full_shard_inv: "shard_inv nat_pages ''x'' full_shard Map.empty"
  by (auto simp: full_shard_def shard_inv_def meta_ok_def total_size_def meta_size_def nat_pages_def split: if_splits)

lemma nat_pages_roundtrip: "pages_roundtrip nat_pages"
  by (simp add: pages_roundtrip_def nat_pages_def)

theorem eviction_safe_witness:
  "\<exists>sh' disk'. check_evict nat_pages ''x'' full_shard Map.empty = Inr (sh', disk') \<and>
     (\<forall>p meta. map_of (m_metas full_shard) p = Some meta \<and> cnt_pin meta \<noteq> 0 \<longrightarrow> map_of (m_metas sh') p = Some meta) \<and>
     page_view nat_pages ''x'' sh' disk' = page_view nat_pages ''x'' full_shard Map.empty \<and>
     m_loaded_size sh' < m_buffer_size full_shard"
proof -
  have "\<exists>sh' disk'. check_evict nat_pages ''x'' full_shard Map.empty = Inr (sh', disk')"
    by (simp add: full_shard_def check_evict_def evict_loop.simps unload_page_def find_meta_def nat_pages_def
        meta_size_def flush_page_internal_def)
  moreover have "0 < m_buffer_size full_shard" by (simp add: full_shard_def)
  ultimately show ?thesis
    using eviction_safe [OF full_shard_inv nat_pages_roundtrip] by blast
qed

lemma discard_all_run:
  assumes "\<forall>e\<in>set ms. cnt_pin (snd e) = 0"
  shows "\<exists>L. discard_all pc ms s = Inr (s\<lparr>m_metas := filter (\<lambda>e. fst e \<notin> fst ` set ms) (m_metas s), m_loaded_size := L\<rparr>)"
  using assms
proof (induction ms arbitrary: s)
  case Nil
  then show ?case by (cases s) simp
next
  case (Cons a ms)
  obtain p meta where a: "a = (p, meta)" by (cases a)
  let ?s1 = "s\<lparr>m_loaded_size := m_loaded_size s - meta_size pc meta, m_metas := AList.delete p (m_metas s)\<rparr>"
  have f: "filter (\<lambda>e. fst e \<notin> fst ` set ms) (AList.delete p (m_metas s)) =
      filter (\<lambda>e. fst e \<notin> fst ` set (a # ms)) (m_metas s)"
    by (auto simp: a AList.delete_eq intro: filter_cong)
  from Cons.IH [of ?s1] Cons.prems obtain L where
    "discard_all pc ms ?s1 = Inr (?s1\<lparr>m_metas := filter (\<lambda>e. fst e \<notin> fst ` set ms) (m_metas ?s1), m_loaded_size := L\<rparr>)"
    by auto
  with Cons.prems f show ?case by (auto simp: a discard_meta_def)
qed

text \<open>
  \<open>discard_all_cache\<close> empties the table of cached pages but leaves the list of evictable
  pages as it is. Once the shard is full again, making room takes a discarded page from that list
  and ends in the fatal state "no such meta".
\<close>

lemma discard_all_leaves_dangling_list:
  assumes "shard_inv pc prefix sh disk" and "\<forall>e\<in>set (m_metas sh). cnt_pin (snd e) = 0" and "m_metas sh \<noteq> []"
    and "0 < m_buffer_size sh"
  shows "\<exists>sh'. discard_all_cache pc sh = Inr sh' \<and> m_metas sh' = [] \<and> m_evict_list sh' = m_evict_list sh \<and>
           m_evict_list sh' \<noteq> [] \<and>
           (\<forall>ms loaded. m_buffer_size sh \<le> loaded \<longrightarrow> last (m_evict_list sh) \<notin> dom (map_of ms) \<longrightarrow>
              check_evict pc prefix (sh'\<lparr>m_metas := ms, m_loaded_size := loaded\<rparr>) disk =
                Inl (Fatal ''Invalid state: no such meta''))"
proof -
  obtain L where L: "discard_all_cache pc sh = Inr (sh\<lparr>m_metas := [], m_loaded_size := L\<rparr>)"
  proof -
    have "filter (\<lambda>e. fst e \<notin> fst ` set (m_metas sh)) (m_metas sh) = []" by (auto simp: filter_empty_conv)
    with discard_all_run [OF assms(2), of pc sh] that show thesis by (auto simp: discard_all_cache_def)
  qed
  obtain p meta where "(p, meta) \<in> set (m_metas sh)" using assms(3) by (cases "m_metas sh") auto
  then have "map_of (m_metas sh) p = Some meta" "cnt_pin meta = 0"
    using assms(1,2) by (auto simp: shard_inv_def)
  then have ne: "m_evict_list sh \<noteq> []" using assms(1) by (auto simp: shard_inv_def meta_ok_def)
  have "check_evict pc prefix (sh\<lparr>m_metas := ms, m_loaded_size := loaded\<rparr>) disk = Inl (Fatal ''Invalid state: no such meta'')"
    if "m_buffer_size sh \<le> loaded" "last (m_evict_list sh) \<notin> dom (map_of ms)" for ms loaded
    using that ne assms(4) by (simp add: check_evict_def evict_loop.simps unload_page_def find_meta_def domIff)
  with L ne show ?thesis by auto
qed

end
