(* ===== verification/Lru_Eviction.thy ===== *)
theory Lru_Eviction
  imports Page_Store
begin

text \<open>
  The stand-alone eviction policy of \<open>src/src/enclave/EvictionAlgorithm.h\<close>: a list of pages, the
  most recently touched first, with a map from pages to their position in the list.
\<close>

record lru_eviction =
  m_list :: "page_no_t list"
  m_map :: "page_no_t set"

definition lru_empty :: lru_eviction where
  "lru_empty = \<lparr>m_list = [], m_map = {}\<rparr>"

definition lru_remove :: "page_no_t \<Rightarrow> lru_eviction \<Rightarrow> lru_eviction" where
  "lru_remove page_no s =
     (if page_no \<in> m_map s
      then s\<lparr>m_list := remove1 page_no (m_list s), m_map := m_map s - {page_no}\<rparr>
      else s)"

definition lru_touch :: "page_no_t \<Rightarrow> lru_eviction \<Rightarrow> lru_eviction" where
  "lru_touch page_no s =
     (let s' = lru_remove page_no s
      in s'\<lparr>m_list := page_no # m_list s', m_map := insert page_no (m_map s')\<rparr>)"

definition lru_evict :: "lru_eviction \<Rightarrow> page_no_t \<times> lru_eviction" where
  "lru_evict s =
     (if m_map s = {} then (INVALID_PAGE_NO, s)
      else let page_no = last (m_list s)
           in (page_no, s\<lparr>m_map := m_map s - {page_no}, m_list := butlast (m_list s)\<rparr>))"

definition lru_inv :: "lru_eviction \<Rightarrow> bool" where
  "lru_inv s \<longleftrightarrow> distinct (m_list s) \<and> m_map s = set (m_list s)"

lemma lru_inv_ops:
  assumes "lru_inv s"
  shows "lru_inv (lru_remove p s)" "lru_inv (lru_touch p s)" "lru_inv (snd (lru_evict s))"
proof -
  show "lru_inv (lru_remove p s)" "lru_inv (lru_touch p s)"
    using assms by (auto simp: lru_inv_def lru_remove_def lru_touch_def Let_def)
  have "set (butlast xs) = set xs - {last xs}" if "distinct xs" "xs \<noteq> []" for xs :: "page_no_t list"
  proof -
    have "xs = butlast xs @ [last xs]" using that by simp
    with that(1) show ?thesis by (metis Diff_insert_absorb Un_insert_right distinct_append distinct_butlast
        list.simps(15) list.set(1) not_distinct_conv_prefix set_append sup_bot_right)
  qed
  with assms show "lru_inv (snd (lru_evict s))"
    by (auto simp: lru_inv_def lru_evict_def Let_def distinct_butlast)
qed

lemma lru_touch_list: "lru_inv s \<Longrightarrow> m_list (lru_touch p s) = p # removeAll p (m_list s)"
  by (auto simp: lru_touch_def lru_remove_def lru_inv_def Let_def distinct_remove1_removeAll)

lemma lru_touches:
  "lru_inv (fold lru_touch ps lru_empty) \<and> m_list (fold lru_touch ps lru_empty) = rev (remdups ps)"
proof (induction ps rule: rev_induct)
  case Nil
  then show ?case by (simp add: lru_inv_def lru_empty_def)
next
  case (snoc p ps)
  have "remdups (ps @ [p]) = filter (\<lambda>x. p \<noteq> x) (remdups ps) @ [p]"
    by (induction ps) auto
  with snoc show ?case
    by (simp add: lru_touch_list lru_inv_ops removeAll_filter_not_eq rev_filter)
qed

text \<open>
  After any sequence of touched pages, \<open>evict\<close> returns the page whose last touch is the
  longest ago.
\<close>

lemma lru_evicts_oldest:
  assumes "ps \<noteq> []"
  shows "fst (lru_evict (fold lru_touch ps lru_empty)) = hd (remdups ps)"
proof -
  let ?s = "fold lru_touch ps lru_empty"
  have "m_list ?s = rev (remdups ps)" "m_map ?s = set (m_list ?s)"
    using lru_touches [of ps] by (auto simp: lru_inv_def)
  with assms show ?thesis by (simp add: lru_evict_def Let_def last_rev)
qed

end
