(* ===== verification/RW_Lock.thy ===== *)
theory RW_Lock
  imports Credb_Prelude
begin

text \<open>
  The readers-writer lock of \<open>src/src/common/util/RWLockable.inl\<close>: one atomic counter, the number of
  readers, or \<open>-1\<close> when a writer holds the lock. The loops around \<open>compare_exchange_weak\<close> are
  modelled at the granularity of the atomic accesses: any number of threads interleave their loads,
  compare-and-swaps (which may fail spuriously) and stores. The counter is an integer; it stays
  within the range of \<open>int32_t\<close> as long as there are fewer than \<open>2 ^ 31\<close> threads.
\<close>

section \<open>The loop bodies\<close>

datatype LockType = Read | Write

datatype lock_op = TryReadLock | ReadLock | ReadToWriteLock | WriteToReadLock | TryWriteLock | WriteLock

text \<open>What a loop body does with the value it has loaded.\<close>

datatype decision = Spin | ReturnFalse | Throw string | CompareExchange int

definition try_read_lock_body :: "int \<Rightarrow> decision" where
  "try_read_lock_body val = (if val < 0 then ReturnFalse else CompareExchange (val + 1))"

definition read_to_write_lock_body :: "int \<Rightarrow> decision" where
  "read_to_write_lock_body val =
     (if val < 0 then Throw ''read_to_write_lock: invalid state''
      else if val > 1 then Spin
      else CompareExchange (-1))"

definition read_lock_body :: "int \<Rightarrow> decision" where
  "read_lock_body val = (if val < 0 then Spin else CompareExchange (val + 1))"

definition write_to_read_lock_body :: "int \<Rightarrow> decision" where
  "write_to_read_lock_body val =
     (if val \<noteq> -1 then Throw ''write_to_read_lock: invalid state!'' else CompareExchange 1)"

definition try_write_lock_body :: "int \<Rightarrow> decision" where
  "try_write_lock_body val = (if val < 0 \<or> val > 0 then ReturnFalse else CompareExchange (-1))"

definition write_lock_body :: "int \<Rightarrow> decision" where
  "write_lock_body val = (if val < 0 \<or> val > 0 then Spin else CompareExchange (-1))"

fun loop_body :: "lock_op \<Rightarrow> int \<Rightarrow> decision" where
  "loop_body TryReadLock = try_read_lock_body"
| "loop_body ReadLock = read_lock_body"
| "loop_body ReadToWriteLock = read_to_write_lock_body"
| "loop_body WriteToReadLock = write_to_read_lock_body"
| "loop_body TryWriteLock = try_write_lock_body"
| "loop_body WriteLock = write_lock_body"

lemmas loop_body_defs = try_read_lock_body_def read_lock_body_def read_to_write_lock_body_def
  write_to_read_lock_body_def try_write_lock_body_def write_lock_body_def

section \<open>Interleaving threads\<close>

text \<open>The lock type a thread holds before an operation, and after its compare-and-swap succeeded.\<close>

fun held_before :: "lock_op \<Rightarrow> LockType option" where
  "held_before ReadToWriteLock = Some Read"
| "held_before WriteToReadLock = Some Write"
| "held_before _ = None"

fun held_after :: "lock_op \<Rightarrow> LockType" where
  "held_after TryReadLock = Read"
| "held_after ReadLock = Read"
| "held_after WriteToReadLock = Read"
| "held_after _ = Write"

text \<open>
  A thread is outside any operation and holds a lock or none, is about to load the counter, or has
  loaded a value; an exception ends it.
\<close>

datatype thread_state =
    Holding "LockType option"
  | Calling lock_op
  | Loaded lock_op int
  | Thrown string

fun held :: "thread_state \<Rightarrow> LockType option" where
  "held (Holding l) = l"
| "held (Calling op) = held_before op"
| "held (Loaded op v) = held_before op"
| "held (Thrown msg) = None"

type_synonym lock_sys = "int \<times> (nat \<Rightarrow> thread_state)"

inductive lock_step :: "lock_sys \<Rightarrow> lock_sys \<Rightarrow> bool" where
  call: "ts t = Holding (held_before op) \<Longrightarrow> lock_step (c, ts) (c, ts(t := Calling op))"
| load: "ts t = Calling op \<Longrightarrow> lock_step (c, ts) (c, ts(t := Loaded op c))"
| spin: "ts t = Loaded op v \<Longrightarrow> loop_body op v = Spin \<Longrightarrow> lock_step (c, ts) (c, ts(t := Calling op))"
| return_false: "ts t = Loaded op v \<Longrightarrow> loop_body op v = ReturnFalse \<Longrightarrow>
    lock_step (c, ts) (c, ts(t := Holding None))"
| throw: "ts t = Loaded op v \<Longrightarrow> loop_body op v = Throw msg \<Longrightarrow> lock_step (c, ts) (c, ts(t := Thrown msg))"
| exchange: "ts t = Loaded op v \<Longrightarrow> loop_body op v = CompareExchange new \<Longrightarrow> c = v \<Longrightarrow>
    lock_step (c, ts) (new, ts(t := Holding (Some (held_after op))))"
| exchange_fails: "ts t = Loaded op v \<Longrightarrow> loop_body op v = CompareExchange new \<Longrightarrow>
    lock_step (c, ts) (c, ts(t := Calling op))"
| read_unlock: "ts t = Holding (Some Read) \<Longrightarrow> lock_step (c, ts) (c - 1, ts(t := Holding None))"
| write_unlock: "ts t = Holding (Some Write) \<Longrightarrow> lock_step (c, ts) (0, ts(t := Holding None))"
| try_read_to_write_lock: "ts t = Holding (Some Read) \<Longrightarrow>
    lock_step (c, ts) (c - 1, ts(t := Calling TryWriteLock))"

definition unlocked :: lock_sys where
  "unlocked = (0, \<lambda>_. Holding None)"

abbreviation lock_steps :: "lock_sys \<Rightarrow> lock_sys \<Rightarrow> bool" where
  "lock_steps \<equiv> lock_step\<^sup>*\<^sup>*"

section \<open>The invariant\<close>

definition readers :: "(nat \<Rightarrow> thread_state) \<Rightarrow> nat set" where
  "readers ts = {t. held (ts t) = Some Read}"

definition writers :: "(nat \<Rightarrow> thread_state) \<Rightarrow> nat set" where
  "writers ts = {t. held (ts t) = Some Write}"

definition lock_inv :: "lock_sys \<Rightarrow> bool" where
  "lock_inv s \<longleftrightarrow>
     (case s of (c, ts) \<Rightarrow>
        finite (readers ts) \<and>
        ((writers ts = {} \<and> c = int (card (readers ts))) \<or> (\<exists>t. writers ts = {t} \<and> readers ts = {} \<and> c = -1)) \<and>
        (\<forall>t msg. ts t \<noteq> Thrown msg) \<and>
        (\<forall>t v. ts t = Loaded ReadToWriteLock v \<longrightarrow> 0 < v) \<and>
        (\<forall>t v. ts t = Loaded WriteToReadLock v \<longrightarrow> v = -1))"

lemma readers_upd: "readers (ts(t := x)) = (if held x = Some Read then insert t (readers ts) else readers ts - {t})"
  by (auto simp: readers_def)

lemma writers_upd: "writers (ts(t := x)) = (if held x = Some Write then insert t (writers ts) else writers ts - {t})"
  by (auto simp: writers_def)

lemmas holders_upd = readers_upd writers_upd

lemma in_holders [simp]: "t \<in> readers ts \<longleftrightarrow> held (ts t) = Some Read" "t \<in> writers ts \<longleftrightarrow> held (ts t) = Some Write"
  by (simp_all add: readers_def writers_def)

text \<open>Steps that neither change the counter nor what the thread holds.\<close>

lemma lock_inv_same_held:
  assumes "lock_inv (c, ts)" and "held x = held (ts t)" and "\<And>msg. x \<noteq> Thrown msg"
    and "\<And>v. x = Loaded ReadToWriteLock v \<Longrightarrow> 0 < v" and "\<And>v. x = Loaded WriteToReadLock v \<Longrightarrow> v = -1"
  shows "lock_inv (c, ts(t := x))"
proof -
  have "readers (ts(t := x)) = readers ts" "writers (ts(t := x)) = writers ts"
    using assms(2) by (auto simp: holders_upd readers_def writers_def)
  with assms(1,3-5) show ?thesis by (auto simp: lock_inv_def)
qed

lemma reader_counter:
  assumes "lock_inv (c, ts)" and "held (ts t) = Some Read"
  shows "0 < c \<and> writers ts = {} \<and> c = int (card (readers ts))"
proof -
  have "t \<in> readers ts" using assms(2) by simp
  then have "readers ts \<noteq> {}" by blast
  with assms(1) show ?thesis by (auto simp: lock_inv_def card_gt_0_iff)
qed

lemma writer_counter:
  assumes "lock_inv (c, ts)" and "held (ts t) = Some Write"
  shows "c = -1 \<and> writers ts = {t} \<and> readers ts = {}"
proof -
  have "t \<in> writers ts" using assms(2) by simp
  with assms(1) show ?thesis unfolding lock_inv_def by (auto simp del: in_holders)
qed

lemma lock_inv_counter:
  assumes "lock_inv (c, ts)"
  shows "0 \<le> c \<Longrightarrow> writers ts = {} \<and> c = int (card (readers ts))"
    and "c = 0 \<Longrightarrow> readers ts = {} \<and> writers ts = {}" and "finite (readers ts)"
  using assms by (auto simp: lock_inv_def)

text \<open>Steps after which the thread holds \<open>l\<close> and is outside any critical loop.\<close>

lemma lock_inv_upd:
  assumes "lock_inv (c, ts)" and "\<And>msg. x \<noteq> Thrown msg" and "\<And>v. x \<noteq> Loaded ReadToWriteLock v" and "\<And>v. x \<noteq> Loaded WriteToReadLock v"
    and "finite (readers (ts(t := x)))"
    and "(writers (ts(t := x)) = {} \<and> c' = int (card (readers (ts(t := x))))) \<or>
         (writers (ts(t := x)) = {t} \<and> readers (ts(t := x)) = {} \<and> c' = -1)"
  shows "lock_inv (c', ts(t := x))"
  using assms by (auto simp: lock_inv_def)

lemma lock_inv_read_unlock:
  assumes inv: "lock_inv (c, ts)" and t: "held (ts t) = Some Read" and x: "held x = None" "\<And>msg. x \<noteq> Thrown msg"
    "\<And>op v. x \<noteq> Loaded op v"
  shows "lock_inv (c - 1, ts(t := x))"
proof -
  note rc = reader_counter [OF inv t] and fin = lock_inv_counter(3) [OF inv]
  have "t \<in> readers ts" using t by simp
  then have "card (readers ts - {t}) = card (readers ts) - 1" "card (readers ts) > 0"
    using fin by (auto simp: card_gt_0_iff)
  with rc fin x show ?thesis
    by (intro lock_inv_upd [OF inv]) (auto simp: holders_upd)
qed

lemma lock_inv_exchange:
  assumes inv: "lock_inv (c, ts)" and t: "ts t = Loaded op c" and body: "loop_body op c = CompareExchange new"
  shows "lock_inv (new, ts(t := Holding (Some (held_after op))))"
proof -
  have held: "held (ts t) = held_before op" using t by simp
  note fin = lock_inv_counter(3) [OF inv]
  consider "op = TryReadLock \<or> op = ReadLock" | "op = ReadToWriteLock" | "op = WriteToReadLock" | "op = TryWriteLock \<or> op = WriteLock"
    by (cases op) auto
  then show ?thesis
  proof cases
    case 1
    then have c: "0 \<le> c" "new = c + 1"
      using body by (auto simp: try_read_lock_body_def read_lock_body_def split: if_splits)
    have "t \<notin> readers ts" using held 1 by auto
    with lock_inv_counter(1) [OF inv c(1)] c fin 1 show ?thesis
      by (intro lock_inv_upd [OF inv]) (auto simp: holders_upd)
  next
    case 2
    have "0 < c" using inv t 2 unfolding lock_inv_def by blast
    then have c: "c = 1" "new = -1" using body 2 by (auto simp: read_to_write_lock_body_def split: if_splits)
    have "held (ts t) = Some Read" using held 2 by simp
    with reader_counter [OF inv this] c have "writers ts = {}" "card (readers ts) = 1" "t \<in> readers ts" by auto
    then have "readers ts = {t}" by (metis card_1_singletonE singletonD)
    with \<open>writers ts = {}\<close> c 2 show ?thesis
      by (intro lock_inv_upd [OF inv]) (auto simp: holders_upd)
  next
    case 3
    then have new: "new = 1" using body by (auto simp: write_to_read_lock_body_def split: if_splits)
    have "held (ts t) = Some Write" using held 3 by simp
    with writer_counter [OF inv this] new 3 show ?thesis
      by (intro lock_inv_upd [OF inv]) (auto simp: holders_upd)
  next
    case 4
    then have "c = 0" "new = -1"
      using body by (auto simp: try_write_lock_body_def write_lock_body_def split: if_splits)
    with lock_inv_counter(2) [OF inv] 4 show ?thesis
      by (intro lock_inv_upd [OF inv]) (auto simp: holders_upd)
  qed
qed

lemma lock_inv_load:
  assumes inv: "lock_inv (c, ts)" and t: "ts t = Calling op"
  shows "lock_inv (c, ts(t := Loaded op c))"
proof (rule lock_inv_same_held [OF inv])
  show "held (Loaded op c) = held (ts t)" using t by simp
  show "0 < v" if "Loaded op c = Loaded ReadToWriteLock v" for v
    using reader_counter [OF inv, of t] t that by simp
  show "v = -1" if "Loaded op c = Loaded WriteToReadLock v" for v
    using writer_counter [OF inv, of t] t that by simp
qed simp

lemma body_no_throw:
  assumes "lock_inv (c, ts)" and "ts t = Loaded op v"
  shows "loop_body op v \<noteq> Throw msg"
proof -
  have "op = ReadToWriteLock \<Longrightarrow> 0 < v" "op = WriteToReadLock \<Longrightarrow> v = -1"
    using assms unfolding lock_inv_def by blast+
  then show ?thesis by (cases op) (auto simp: loop_body_defs split: if_splits)
qed

lemma body_return_false: "loop_body op v = ReturnFalse \<Longrightarrow> held_before op = None"
  by (cases op) (auto simp: loop_body_defs split: if_splits)

lemma lock_inv_step: "lock_step s s' \<Longrightarrow> lock_inv s \<Longrightarrow> lock_inv s'"
proof (induction rule: lock_step.induct)
  case (return_false ts t op v c)
  then show ?case using body_return_false [of op v] by (intro lock_inv_same_held) auto
next
  case (throw ts t op v msg c)
  then show ?case using body_no_throw by blast
next
  case (exchange ts t op v new c)
  then show ?case using lock_inv_exchange by blast
next
  case (write_unlock ts t c)
  then have "held (ts t) = Some Write" by simp
  with writer_counter [OF write_unlock(2) this] write_unlock(2) show ?case
    by (intro lock_inv_upd [of c]) (auto simp: holders_upd)
qed (auto intro: lock_inv_same_held lock_inv_load lock_inv_read_unlock)

lemma lock_inv_unlocked: "lock_inv unlocked"
  by (simp add: unlocked_def lock_inv_def readers_def writers_def)

lemma lock_inv_reachable: "lock_steps unlocked s \<Longrightarrow> lock_inv s"
  by (induction rule: rtranclp_induct) (auto intro: lock_inv_unlocked lock_inv_step)

section \<open>Properties\<close>

text \<open>
  Property C23. In every interleaving of any number of threads that use the lock as documented, a
  writer excludes every other reader and writer, the counter is the number of readers or \<open>-1\<close> with
  a writer, and no operation ever throws its "invalid state" exception.
\<close>

theorem rw_lock_exclusion:
  assumes "lock_steps unlocked (c, ts)"
  shows "(\<forall>t u. held (ts t) = Some Write \<and> t \<noteq> u \<longrightarrow> held (ts u) = None) \<and>
         (c = (if \<exists>t. held (ts t) = Some Write then -1 else int (card {t. held (ts t) = Some Read}))) \<and>
         (\<forall>t msg. ts t \<noteq> Thrown msg)"
proof -
  note inv = lock_inv_reachable [OF assms]
  have "held (ts u) = None" if "held (ts t) = Some Write" "t \<noteq> u" for t u
    using writer_counter [OF inv that(1)] that(2) in_holders(1) [of u ts] in_holders(2) [of u ts]
    by (cases "held (ts u)") (auto simp del: in_holders intro: LockType.exhaust)
  moreover have "c = (if \<exists>t. held (ts t) = Some Write then -1 else int (card {t. held (ts t) = Some Read}))"
    using inv unfolding lock_inv_def readers_def writers_def by auto
  ultimately show ?thesis using inv by (auto simp: lock_inv_def)
qed

text \<open>Thread 0 takes a read lock, thread 1 as well, and both call \<open>read_to_write_lock\<close>.\<close>

definition two_upgraders :: "nat \<Rightarrow> thread_state" where
  "two_upgraders = (\<lambda>_. Holding None)(0 := Calling ReadToWriteLock, 1 := Calling ReadToWriteLock)"

lemma thread_read_locks:
  assumes "0 \<le> c" and "ts t = Holding None"
  shows "lock_steps (c, ts) (c + 1, ts(t := Holding (Some Read)))"
proof -
  have "lock_steps (c, ts) (c, ts(t := Calling ReadLock))"
    using assms(2) by (intro r_into_rtranclp lock_step.call) simp
  also have "lock_step (c, ts(t := Calling ReadLock)) (c, ts(t := Loaded ReadLock c))"
    using lock_step.load [of "ts(t := Calling ReadLock)" t ReadLock c] by simp
  also have "lock_step (c, ts(t := Loaded ReadLock c)) (c + 1, ts(t := Holding (Some Read)))"
    using lock_step.exchange [of "ts(t := Loaded ReadLock c)" t ReadLock c "c + 1" c] assms(1)
    by (simp add: read_lock_body_def)
  finally show ?thesis .
qed

lemma two_upgraders_reachable: "lock_steps unlocked (2, two_upgraders)"
proof -
  let ?r = "(\<lambda>_. Holding None)(0 := Holding (Some Read), 1 := Holding (Some Read))"
  have "lock_steps unlocked (1, (\<lambda>_. Holding None)(0 := Holding (Some Read)))"
    using thread_read_locks [of 0 "\<lambda>_. Holding None" 0] by (simp add: unlocked_def)
  also have "lock_steps \<dots> (2, ?r)"
    using thread_read_locks [of 1 "(\<lambda>_. Holding None)(0 := Holding (Some Read))" 1] by simp
  also have "lock_step (2, ?r) (2, ?r(0 := Calling ReadToWriteLock))"
    by (rule lock_step.call) simp
  also have "lock_step \<dots> (2, ?r(0 := Calling ReadToWriteLock, 1 := Calling ReadToWriteLock))"
    by (rule lock_step.call) simp
  finally show ?thesis by (simp add: two_upgraders_def fun_upd_twist)
qed

theorem rw_lock_exclusion_witness:
  "lock_steps unlocked (2, two_upgraders) \<and>
   2 = (if \<exists>t. held (two_upgraders t) = Some Write then -1 else int (card {t. held (two_upgraders t) = Some Read})) \<and>
   (\<forall>t msg. two_upgraders t \<noteq> Thrown msg)"
  using rw_lock_exclusion [OF two_upgraders_reachable] two_upgraders_reachable by blast

definition upgrading :: "thread_state \<Rightarrow> bool" where
  "upgrading x \<longleftrightarrow> (case x of Calling op \<Rightarrow> op = ReadToWriteLock | Loaded op v \<Rightarrow> op = ReadToWriteLock | _ \<Rightarrow> False)"

lemma upgrading_step:
  assumes "lock_step s s'" "lock_inv s" "upgrading (snd s t)" "upgrading (snd s u)" "t \<noteq> u"
  shows "upgrading (snd s' t) \<and> upgrading (snd s' u)"
proof -
  have held: "held (snd s t) = Some Read" "held (snd s u) = Some Read"
    using assms(3,4) by (auto simp: upgrading_def split: thread_state.splits)
  have two: "2 \<le> fst s"
  proof -
    have "{t, u} \<subseteq> readers (snd s)" using held by simp
    then have "2 \<le> card (readers (snd s))"
      using card_mono [of "readers (snd s)" "{t, u}"] assms(2,5) by (cases s) (auto simp: lock_inv_def)
    with reader_counter [of "fst s" "snd s" t] assms(2) held(1) show ?thesis by auto
  qed
  have "\<forall>t v. snd s t = Loaded ReadToWriteLock v \<longrightarrow> 0 < v"
    using assms(2) by (cases s) (simp add: lock_inv_def)
  from assms(1,3,4) two this show ?thesis
    by (induction rule: lock_step.induct)
      (fastforce simp: upgrading_def read_to_write_lock_body_def split: thread_state.splits if_splits)+
qed

text \<open>
  Property C34. Two readers that both call the blocking \<open>read_to_write_lock\<close> wait for each other for
  ever: whatever the other threads do, neither call returns.
\<close>

theorem rw_lock_upgrade_deadlock:
  assumes "lock_steps unlocked (c, ts)" and "upgrading (ts t)" and "upgrading (ts u)" and "t \<noteq> u"
    and "lock_steps (c, ts) (c', ts')"
  shows "upgrading (ts' t) \<and> upgrading (ts' u)"
proof -
  from assms(5) have "lock_inv (c', ts') \<and> upgrading (snd (c', ts') t) \<and> upgrading (snd (c', ts') u)"
  proof (induction rule: rtranclp_induct)
    case base
    then show ?case using assms(1-3) lock_inv_reachable by simp
  next
    case (step s s')
    then show ?case using upgrading_step [OF step(2)] lock_inv_step [OF step(2)] assms(4) by blast
  qed
  then show ?thesis by simp
qed

theorem rw_lock_upgrade_deadlock_witness:
  "upgrading ((two_upgraders(0 := Loaded ReadToWriteLock 2)) 0) \<and> upgrading ((two_upgraders(0 := Loaded ReadToWriteLock 2)) 1)"
proof (rule rw_lock_upgrade_deadlock [OF two_upgraders_reachable])
  show "lock_steps (2, two_upgraders) (2, two_upgraders(0 := Loaded ReadToWriteLock 2))"
    by (rule r_into_rtranclp, rule lock_step.load) (simp add: two_upgraders_def)
qed (simp_all add: two_upgraders_def upgrading_def)

end
