(* ===== verification/Lock_Handle.thy ===== *)
theory Lock_Handle
  imports RW_Lock Event_Id
begin

text \<open>
  Lock handles (\<open>src/src/enclave/LockHandle.cpp\<close>): the locks on ledger shards that one operation or
  transaction holds, counted per shard, with handles that acquire through a parent handle. A call
  of the shard's lock runs without interference (\<open>lock_call\<close>); where it would spin, the result is
  \<open>Blocked\<close>. Since exceptions leave changed state behind, an operation returns the error, if any,
  together with the new state. Handles are numbered in the order of their creation.
\<close>

section \<open>State\<close>

record lock_info =
  read_count :: u16
  write_count :: u16

record handle =
  h_parent :: "nat option"
  h_locks :: "(shard_id_t \<times> lock_info) list"
  h_nonblocking :: bool

record lock_world =
  w_handles :: "nat \<Rightarrow> handle"
  w_count :: "shard_id_t \<Rightarrow> int"

type_synonym outcome = "error option \<times> lock_world"

definition new_lock_info :: "LockType \<Rightarrow> lock_info" where
  "new_lock_info lock_type =
     (if lock_type = Read then \<lparr>read_count = 1, write_count = 0\<rparr> else \<lparr>read_count = 0, write_count = 1\<rparr>)"

definition info_lock_type :: "lock_info \<Rightarrow> LockType" where
  "info_lock_type info = (if 0 < write_count info then Write else Read)"

definition new_handle :: "nat option \<Rightarrow> bool \<Rightarrow> handle" where
  "new_handle parent nonblocking = \<lparr>h_parent = parent, h_locks = [], h_nonblocking = nonblocking\<rparr>"

definition has_parent :: "handle \<Rightarrow> bool" where
  "has_parent hdl = (h_parent hdl \<noteq> None)"

definition num_locks :: "handle \<Rightarrow> nat" where
  "num_locks hdl = length (h_locks hdl)"

definition set_blocking :: "bool \<Rightarrow> handle \<Rightarrow> handle" where
  "set_blocking val hdl = hdl\<lparr>h_nonblocking := \<not> val\<rparr>"

definition count_up :: "LockType \<Rightarrow> lock_info \<Rightarrow> lock_info" where
  "count_up lock_type info =
     (if lock_type = Write then info\<lparr>write_count := write_count info + 1\<rparr>
      else info\<lparr>read_count := read_count info + 1\<rparr>)"

definition count_down :: "LockType \<Rightarrow> lock_info \<Rightarrow> lock_info" where
  "count_down lock_type info =
     (if lock_type = Read then info\<lparr>read_count := read_count info - 1\<rparr>
      else info\<lparr>write_count := write_count info - 1\<rparr>)"

fun locks_put :: "shard_id_t \<Rightarrow> lock_info \<Rightarrow> (shard_id_t \<times> lock_info) list \<Rightarrow> (shard_id_t \<times> lock_info) list" where
  "locks_put s info [] = [(s, info)]"
| "locks_put s info ((s', i) # ls) = (if s' = s then (s, info) # ls else (s', i) # locks_put s info ls)"

definition locks_erase :: "shard_id_t \<Rightarrow> (shard_id_t \<times> lock_info) list \<Rightarrow> (shard_id_t \<times> lock_info) list" where
  "locks_erase s ls = filter (\<lambda>l. fst l \<noteq> s) ls"

definition put_lock :: "nat \<Rightarrow> shard_id_t \<Rightarrow> lock_info \<Rightarrow> lock_world \<Rightarrow> lock_world" where
  "put_lock h s info w =
     w\<lparr>w_handles := (w_handles w)(h := (w_handles w h)\<lparr>h_locks := locks_put s info (h_locks (w_handles w h))\<rparr>)\<rparr>"

definition erase_lock :: "nat \<Rightarrow> shard_id_t \<Rightarrow> lock_world \<Rightarrow> lock_world" where
  "erase_lock h s w =
     w\<lparr>w_handles := (w_handles w)(h := (w_handles w h)\<lparr>h_locks := locks_erase s (h_locks (w_handles w h))\<rparr>)\<rparr>"

definition set_count :: "shard_id_t \<Rightarrow> int \<Rightarrow> lock_world \<Rightarrow> lock_world" where
  "set_count s c w = w\<lparr>w_count := (w_count w)(s := c)\<rparr>"

section \<open>Operations\<close>

text \<open>A whole call of an operation of the shard's lock.\<close>

definition lock_call :: "lock_op \<Rightarrow> int \<Rightarrow> error option \<times> int" where
  "lock_call op c =
     (case loop_body op c of
        Spin \<Rightarrow> (Some Blocked, c)
      | ReturnFalse \<Rightarrow> (Some WouldBlock, c)
      | Throw msg \<Rightarrow> (Some (RuntimeError msg), c)
      | CompareExchange new \<Rightarrow> (None, new))"

definition first_lock_op :: "LockType \<Rightarrow> bool \<Rightarrow> lock_op" where
  "first_lock_op lock_type nonblocking =
     (if lock_type = Write then (if nonblocking then TryWriteLock else WriteLock)
      else (if nonblocking then TryReadLock else ReadLock))"

text \<open>\<open>get_shard\<close> of a handle without a parent, for a shard it does not hold and for one it holds.\<close>

definition acquire_first :: "nat \<Rightarrow> shard_id_t \<Rightarrow> LockType \<Rightarrow> bool \<Rightarrow> lock_world \<Rightarrow> outcome" where
  "acquire_first h s lock_type nonblocking w =
     (case lock_call (first_lock_op lock_type nonblocking) (w_count w s) of
        (Some e, c) \<Rightarrow> (Some e, set_count s c w)
      | (None, c) \<Rightarrow> (None, put_lock h s (new_lock_info lock_type) (set_count s c w)))"

definition acquire_again :: "nat \<Rightarrow> shard_id_t \<Rightarrow> lock_info \<Rightarrow> LockType \<Rightarrow> bool \<Rightarrow> lock_world \<Rightarrow> outcome" where
  "acquire_again h s info lock_type nonblocking w =
     (if lock_type = Write \<and> write_count info = 0
      then if read_count info = 0 then (Some (Fatal ''Invalid state: read count is 0''), w)
      else if nonblocking
      then (case lock_call TryWriteLock (w_count w s - 1) of
              (None, c) \<Rightarrow> (None, put_lock h s (count_up lock_type info) (set_count s c w))
            | (Some e, c) \<Rightarrow> (Some WouldBlock, erase_lock h s (set_count s c w)))
      else (case lock_call ReadToWriteLock (w_count w s) of
              (None, c) \<Rightarrow> (None, put_lock h s (count_up lock_type info) (set_count s c w))
            | (Some e, c) \<Rightarrow> (Some e, set_count s c w))
      else (None, put_lock h s (count_up lock_type info) w))"

function get_shard_lock :: "nat \<Rightarrow> shard_id_t \<Rightarrow> LockType \<Rightarrow> bool \<Rightarrow> lock_world \<Rightarrow> outcome" where
  "get_shard_lock h s lock_type nonblocking0 w =
     (let nonblocking = (nonblocking0 \<or> h_nonblocking (w_handles w h))
      in case h_parent (w_handles w h) of
           None \<Rightarrow>
             (case map_of (h_locks (w_handles w h)) s of
                None \<Rightarrow> acquire_first h s lock_type nonblocking w
              | Some info \<Rightarrow> acquire_again h s info lock_type nonblocking w)
         | Some p \<Rightarrow>
             if h \<le> p then (Some (Fatal ''parent created after its child''), w)
             else
               (case get_shard_lock p s lock_type nonblocking w of
                  (None, w') \<Rightarrow>
                    (case map_of (h_locks (w_handles w h)) s of
                       None \<Rightarrow> (None, put_lock h s (new_lock_info lock_type) w')
                     | Some info \<Rightarrow> (None, put_lock h s (count_up lock_type info) w'))
                | (Some e, w') \<Rightarrow>
                    if e = WouldBlock \<and> map_of (h_locks (w_handles w h)) s \<noteq> None
                    then (Some e, erase_lock h s w')
                    else (Some e, w')))"
  by pat_completeness auto

termination by (relation "measure (\<lambda>(h, s, lt, nb, w). h)") auto

declare get_shard_lock.simps [simp del]

definition release_root :: "nat \<Rightarrow> shard_id_t \<Rightarrow> lock_info \<Rightarrow> LockType \<Rightarrow> lock_world \<Rightarrow> outcome" where
  "release_root h s info0 lock_type w =
     (let info = count_down lock_type info0
      in if read_count info = 0 \<and> write_count info = 0
         then (None, erase_lock h s (set_count s (if lock_type = Read then w_count w s - 1 else 0) w))
         else if lock_type = Write \<and> write_count info = 0
         then (case lock_call WriteToReadLock (w_count w s) of
                 (e, c) \<Rightarrow> (e, put_lock h s info (set_count s c w)))
         else (None, put_lock h s info w))"

function release_shard :: "nat \<Rightarrow> shard_id_t \<Rightarrow> LockType \<Rightarrow> lock_world \<Rightarrow> outcome" where
  "release_shard h s lock_type w =
     (case map_of (h_locks (w_handles w h)) s of
        None \<Rightarrow> (Some (RuntimeError ''No such lock!''), w)
      | Some info \<Rightarrow>
         (case h_parent (w_handles w h) of
            None \<Rightarrow> release_root h s info lock_type w
          | Some p \<Rightarrow>
              if h \<le> p then (Some (Fatal ''parent created after its child''), w)
              else
                let info' = count_down lock_type info
                in case release_shard p s lock_type (put_lock h s info' w) of
                     (Some e, w') \<Rightarrow> (Some e, w')
                   | (None, w') \<Rightarrow>
                       (None, if write_count info' = 0 \<and> read_count info' = 0 then erase_lock h s w' else w')))"
  by pat_completeness auto

termination by (relation "measure (\<lambda>(h, s, lt, w). h)") auto

declare release_shard.simps [simp del]

fun release_times :: "nat \<Rightarrow> nat \<Rightarrow> shard_id_t \<Rightarrow> LockType \<Rightarrow> lock_world \<Rightarrow> outcome" where
  "release_times 0 p s lock_type w = (None, w)"
| "release_times (Suc n) p s lock_type w =
     (case release_shard p s lock_type w of
        (Some e, w') \<Rightarrow> (Some e, w')
      | (None, w') \<Rightarrow> release_times n p s lock_type w')"

fun clear_through_parent :: "nat \<Rightarrow> (shard_id_t \<times> lock_info) list \<Rightarrow> lock_world \<Rightarrow> outcome" where
  "clear_through_parent p [] w = (None, w)"
| "clear_through_parent p ((s, info) # ls) w =
     (case release_times (unat (read_count info)) p s Read w of
        (Some e, w1) \<Rightarrow> (Some e, w1)
      | (None, w1) \<Rightarrow>
         (case release_times (unat (write_count info)) p s Write w1 of
            (Some e, w2) \<Rightarrow> (Some e, w2)
          | (None, w2) \<Rightarrow> clear_through_parent p ls w2))"

fun clear_root :: "(shard_id_t \<times> lock_info) list \<Rightarrow> lock_world \<Rightarrow> lock_world" where
  "clear_root [] w = w"
| "clear_root ((s, info) # ls) w =
     clear_root ls (set_count s (if info_lock_type info = Write then 0 else w_count w s - 1) w)"

definition clear_handle :: "nat \<Rightarrow> lock_world \<Rightarrow> outcome" where
  "clear_handle h w =
     (let ls = h_locks (w_handles w h);
          forget = (\<lambda>w'. w'\<lparr>w_handles := (w_handles w')(h := (w_handles w' h)\<lparr>h_locks := []\<rparr>)\<rparr>)
      in case h_parent (w_handles w h) of
           None \<Rightarrow> (None, forget (clear_root ls w))
         | Some p \<Rightarrow>
             (case clear_through_parent p ls w of
                (Some e, w') \<Rightarrow> (Some e, w')
              | (None, w') \<Rightarrow> (None, forget w')))"

definition release_block :: "nat \<Rightarrow> shard_id_t \<Rightarrow> block_id_t \<Rightarrow> LockType \<Rightarrow> lock_world \<Rightarrow> outcome" where
  "release_block h s block lock_type w =
     (if block = INVALID_BLOCK then (None, w) else release_shard h s lock_type w)"

section \<open>Accounting of a handle without a parent\<close>

text \<open>
  \<open>shard_ok l e c\<close>: what the handle's entry \<open>l\<close> for a shard says agrees with the shard's counter \<open>c\<close>,
  where \<open>e\<close> is the counter without this handle.
\<close>

fun shard_ok :: "lock_info option \<Rightarrow> int \<Rightarrow> int \<Rightarrow> bool" where
  "shard_ok None e c \<longleftrightarrow> c = e \<and> -1 \<le> e"
| "shard_ok (Some i) e c \<longleftrightarrow>
     (if write_count i \<noteq> 0 then e = 0 \<and> c = -1 else read_count i \<noteq> 0 \<and> 0 \<le> e \<and> c = e + 1)"

definition root_inv :: "nat \<Rightarrow> (shard_id_t \<Rightarrow> int) \<Rightarrow> lock_world \<Rightarrow> bool" where
  "root_inv h env w \<longleftrightarrow>
     h_parent (w_handles w h) = None \<and> distinct (map fst (h_locks (w_handles w h))) \<and>
     (\<forall>s. shard_ok (map_of (h_locks (w_handles w h)) s) (env s) (w_count w s))"

definition holds :: "nat \<Rightarrow> shard_id_t \<Rightarrow> LockType \<Rightarrow> lock_world \<Rightarrow> bool" where
  "holds h s lock_type w \<longleftrightarrow>
     (case map_of (h_locks (w_handles w h)) s of
        None \<Rightarrow> False
      | Some i \<Rightarrow> (if lock_type = Read then read_count i else write_count i) \<noteq> 0)"

text \<open>The 16-bit counters of the entry are not at their maximum.\<close>

definition countable_lock :: "nat \<Rightarrow> shard_id_t \<Rightarrow> lock_world \<Rightarrow> bool" where
  "countable_lock h s w \<longleftrightarrow>
     (\<forall>i. map_of (h_locks (w_handles w h)) s = Some i \<longrightarrow> read_count i \<noteq> -1 \<and> write_count i \<noteq> -1)"

lemma map_of_locks_put [simp]: "map_of (locks_put s i ls) = (map_of ls)(s \<mapsto> i)"
  by (induction ls) auto

lemma set_locks_put: "fst ` set (locks_put s i ls) = insert s (fst ` set ls)"
  by (simp add: dom_map_of_conv_image_fst [symmetric])

lemma distinct_locks_put: "distinct (map fst ls) \<Longrightarrow> distinct (map fst (locks_put s i ls))"
  by (induction ls) (auto simp: set_locks_put)

lemma map_of_locks_erase [simp]: "map_of (locks_erase s ls) = (map_of ls)(s := None)"
  by (induction ls) (auto simp: locks_erase_def)

lemma distinct_locks_erase: "distinct (map fst ls) \<Longrightarrow> distinct (map fst (locks_erase s ls))"
  by (simp add: locks_erase_def distinct_map_filter)

lemma world_simps [simp]:
  "h_parent (w_handles (put_lock h s i w) x) = h_parent (w_handles w x)"
  "h_parent (w_handles (erase_lock h s w) x) = h_parent (w_handles w x)"
  "w_handles (set_count s c w) = w_handles w"
  "w_count (put_lock h s i w) = w_count w" "w_count (erase_lock h s w) = w_count w"
  "w_count (set_count s c w) = (w_count w)(s := c)"
  "h_locks (w_handles (put_lock h s i w) h) = locks_put s i (h_locks (w_handles w h))"
  "h_locks (w_handles (erase_lock h s w) h) = locks_erase s (h_locks (w_handles w h))"
  by (simp_all add: put_lock_def erase_lock_def set_count_def)

lemma root_inv_put:
  "root_inv h env w \<Longrightarrow> shard_ok (Some i) (env s) c \<Longrightarrow> root_inv h env (put_lock h s i (set_count s c w))"
  by (auto simp: root_inv_def distinct_locks_put)

lemma root_inv_put_same:
  "root_inv h env w \<Longrightarrow> shard_ok (Some i) (env s) (w_count w s) \<Longrightarrow> root_inv h env (put_lock h s i w)"
  by (auto simp: root_inv_def distinct_locks_put)

lemma root_inv_erase:
  "root_inv h env w \<Longrightarrow> -1 \<le> env s \<Longrightarrow> root_inv h env (erase_lock h s (set_count s (env s) w))"
  by (auto simp: root_inv_def distinct_locks_erase)

lemma root_inv_count: "root_inv h env w \<Longrightarrow> root_inv h env (set_count s (w_count w s) w)"
  by (simp add: root_inv_def)

lemma u16_incr: "(x::u16) \<noteq> -1 \<Longrightarrow> x + 1 \<noteq> 0"
  by (metis add.commute add_eq_0_iff)

lemma acquire_first_ok:
  assumes inv: "root_inv h env w" and none: "map_of (h_locks (w_handles w h)) s = None"
    and run: "acquire_first h s lt nb w = (r, w')"
  shows "root_inv h env w' \<and> (r = None \<longrightarrow> holds h s lt w')"
proof -
  have c: "w_count w s = env s" "-1 \<le> env s" using inv none by (auto simp: root_inv_def dest: spec [of _ s])
  obtain e c' where lc: "lock_call (first_lock_op lt nb) (w_count w s) = (e, c')" by fastforce
  show ?thesis
  proof (cases e)
    case None
    have "shard_ok (Some (new_lock_info lt)) (env s) c'"
      using lc None c by (cases lt) (auto simp: first_lock_op_def lock_call_def loop_body_defs new_lock_info_def split: if_splits)
    with inv run lc None show ?thesis
      by (auto simp: acquire_first_def root_inv_put holds_def new_lock_info_def)
  next
    case (Some err)
    have "c' = w_count w s" using lc Some by (auto simp: lock_call_def split: decision.splits)
    with inv run lc Some show ?thesis by (auto simp: acquire_first_def root_inv_count)
  qed
qed

lemma upgrade_calls:
  "0 \<le> e \<Longrightarrow> lock_call TryWriteLock e = (if e = 0 then (None, -1) else (Some WouldBlock, e))"
  "1 \<le> e \<Longrightarrow> lock_call ReadToWriteLock e = (if e = 1 then (None, -1) else (Some Blocked, e))"
  by (simp_all add: lock_call_def loop_body_defs)

lemma count_up_pos:
  "write_count i \<noteq> -1 \<Longrightarrow> write_count (count_up Write i) \<noteq> 0"
  "read_count i \<noteq> -1 \<Longrightarrow> read_count (count_up Read i) \<noteq> 0"
  using u16_incr by (auto simp: count_up_def)

lemma acquire_upgrade_ok:
  assumes inv: "root_inv h env w" and some: "map_of (h_locks (w_handles w h)) s = Some i"
    and i: "write_count i = 0" "write_count i \<noteq> -1"
    and run: "acquire_again h s i Write nb w = (r, w')"
  shows "root_inv h env w' \<and> (r = None \<longrightarrow> holds h s Write w')"
proof -
  have "shard_ok (Some i) (env s) (w_count w s)" using inv some by (auto simp: root_inv_def dest: spec [of _ s])
  then have c: "read_count i \<noteq> 0" "0 \<le> env s" "w_count w s = env s + 1" using i by auto
  show ?thesis
  proof (cases "env s = 0")
    case True
    with run i c have "r = None" "w' = put_lock h s (count_up Write i) (set_count s (-1) w)"
      by (auto simp: acquire_again_def upgrade_calls split: if_splits)
    then show ?thesis using True count_up_pos(1) [OF i(2)] by (auto simp: holds_def intro!: root_inv_put [OF inv])
  next
    case False
    with run i c have "r \<noteq> None \<and> (w' = erase_lock h s (set_count s (env s) w) \<or> w' = set_count s (w_count w s) w)"
      by (auto simp: acquire_again_def upgrade_calls split: if_splits)
    then show ?thesis using c root_inv_erase [OF inv, of s] root_inv_count [OF inv, of s] by auto
  qed
qed

lemma acquire_again_ok:
  assumes inv: "root_inv h env w" and some: "map_of (h_locks (w_handles w h)) s = Some i"
    and room: "read_count i \<noteq> -1" "write_count i \<noteq> -1"
    and run: "acquire_again h s i lt nb w = (r, w')"
  shows "root_inv h env w' \<and> (r = None \<longrightarrow> holds h s lt w')"
proof (cases "lt = Write \<and> write_count i = 0")
  case True
  with acquire_upgrade_ok [OF inv some _ room(2)] run show ?thesis by blast
next
  case False
  then have w': "r = None" "w' = put_lock h s (count_up lt i) w"
    using run by (auto simp: acquire_again_def)
  have ok: "shard_ok (Some i) (env s) (w_count w s)"
    using inv some by (auto simp: root_inv_def dest: spec [of _ s])
  note up = count_up_pos(1) [OF room(2)] count_up_pos(2) [OF room(1)]
  have "shard_ok (Some (count_up lt i)) (env s) (w_count w s)"
    using ok up False by (cases lt) (auto simp: count_up_def split: if_splits)
  then show ?thesis using w' up inv by (cases lt) (auto simp: holds_def intro!: root_inv_put_same)
qed

lemma get_shard_lock_root:
  assumes inv: "root_inv h env w" and room: "countable_lock h s w" and run: "get_shard_lock h s lt nb w = (r, w')"
  shows "root_inv h env w' \<and> (r = None \<longrightarrow> holds h s lt w')"
proof (cases "map_of (h_locks (w_handles w h)) s")
  case None
  have "get_shard_lock h s lt nb w = acquire_first h s lt (nb \<or> h_nonblocking (w_handles w h)) w"
    using inv None by (subst get_shard_lock.simps) (simp add: root_inv_def Let_def)
  with acquire_first_ok [OF inv None] run show ?thesis by simp
next
  case (Some i)
  have "get_shard_lock h s lt nb w = acquire_again h s i lt (nb \<or> h_nonblocking (w_handles w h)) w"
    using inv Some by (subst get_shard_lock.simps) (simp add: root_inv_def Let_def)
  with acquire_again_ok [OF inv Some] run room Some show ?thesis by (simp add: countable_lock_def)
qed

lemma release_shard_root:
  assumes inv: "root_inv h env w" and held: "holds h s lt w"
  shows "\<exists>w'. release_shard h s lt w = (None, w') \<and> root_inv h env w'"
proof -
  obtain i where some: "map_of (h_locks (w_handles w h)) s = Some i"
    and cnt: "(if lt = Read then read_count i else write_count i) \<noteq> 0"
    using held by (auto simp: holds_def split: option.splits)
  have ok: "shard_ok (Some i) (env s) (w_count w s)"
    using inv some by (auto simp: root_inv_def dest: spec [of _ s])
  let ?i = "count_down lt i"
  have run: "release_shard h s lt w = release_root h s i lt w"
    using inv some by (subst release_shard.simps) (simp add: root_inv_def)
  consider "read_count ?i = 0 \<and> write_count ?i = 0"
    | "\<not> (read_count ?i = 0 \<and> write_count ?i = 0)" "lt = Write" "write_count ?i = 0"
    | "\<not> (read_count ?i = 0 \<and> write_count ?i = 0)" "\<not> (lt = Write \<and> write_count ?i = 0)" by blast
  then show ?thesis
  proof cases
    case 1
    then have "(if lt = Read then w_count w s - 1 else 0) = env s" "-1 \<le> env s"
      using ok cnt by (auto simp: count_down_def split: if_splits)
    then have "root_inv h env (erase_lock h s (set_count s (if lt = Read then w_count w s - 1 else 0) w))"
      using root_inv_erase [OF inv, of s] by simp
    with 1 show ?thesis unfolding run by (simp add: release_root_def Let_def)
  next
    case 2
    then have "w_count w s = -1" "env s = 0" using ok cnt by (auto split: if_splits)
    then have "lock_call WriteToReadLock (w_count w s) = (None, 1)" "shard_ok (Some ?i) (env s) 1"
      using 2 by (auto simp: lock_call_def loop_body_defs)
    with 2 root_inv_put [OF inv] show ?thesis unfolding run by (auto simp: release_root_def Let_def)
  next
    case 3
    then have "shard_ok (Some ?i) (env s) (w_count w s)"
      using ok cnt by (cases lt) (auto simp: count_down_def split: if_splits)
    with 3 root_inv_put_same [OF inv] show ?thesis unfolding run by (auto simp: release_root_def Let_def)
  qed
qed

lemma clear_root_simps:
  "w_handles (clear_root ls w) = w_handles w"
  "distinct (map fst ls) \<Longrightarrow> w_count (clear_root ls w) s =
     (case map_of ls s of None \<Rightarrow> w_count w s
      | Some i \<Rightarrow> if info_lock_type i = Write then 0 else w_count w s - 1)"
proof -
  show "w_handles (clear_root ls w) = w_handles w" by (induction ls w rule: clear_root.induct) auto
  show "w_count (clear_root ls w) s =
     (case map_of ls s of None \<Rightarrow> w_count w s
      | Some i \<Rightarrow> if info_lock_type i = Write then 0 else w_count w s - 1)" if "distinct (map fst ls)"
    using that
  proof (induction ls w rule: clear_root.induct)
    case (2 s' i ls w)
    then have "map_of ls s' = None" by (simp add: map_of_eq_None_iff)
    with 2 show ?case by (cases "s = s'"; cases "map_of ls s") auto
  qed simp
qed

lemma clear_handle_root:
  assumes inv: "root_inv h env w"
  shows "\<exists>w'. clear_handle h w = (None, w') \<and> h_locks (w_handles w' h) = [] \<and> w_count w' = env"
proof -
  let ?ls = "h_locks (w_handles w h)"
  have par: "h_parent (w_handles w h) = None" and dist: "distinct (map fst ?ls)" using inv by (simp_all add: root_inv_def)
  have "w_count (clear_root ?ls w) s = env s" for s
  proof -
    have "shard_ok (map_of ?ls s) (env s) (w_count w s)" using inv by (simp add: root_inv_def)
    then show ?thesis
      unfolding clear_root_simps(2) [OF dist]
      by (cases "map_of ?ls s") (auto simp: info_lock_type_def word_gt_0 split: if_splits)
  qed
  then have "w_count (clear_root ?ls w) = env" by blast
  with par show ?thesis by (auto simp: clear_handle_def Let_def clear_root_simps(1))
qed

section \<open>Properties\<close>

text \<open>
  Property C24. A handle without a parent keeps exact account of the shard locks: every acquisition,
  successful or not, and every release of a held lock leaves the shard's counter equal to what the
  other holders contribute plus this handle's own lock; a successful acquisition holds the requested
  lock, and \<open>clear\<close> gives back everything, so that only the other holders' locks remain.
\<close>

theorem lock_handle_accounting:
  assumes "root_inv h env w"
  shows "(\<forall>s lt nb r w'. countable_lock h s w \<and> get_shard_lock h s lt nb w = (r, w') \<longrightarrow>
            root_inv h env w' \<and> (r = None \<longrightarrow> holds h s lt w')) \<and>
         (\<forall>s lt. holds h s lt w \<longrightarrow> (\<exists>w'. release_shard h s lt w = (None, w') \<and> root_inv h env w')) \<and>
         (\<exists>w'. clear_handle h w = (None, w') \<and> h_locks (w_handles w' h) = [] \<and> w_count w' = env)"
  using get_shard_lock_root [OF assms] release_shard_root [OF assms] clear_handle_root [OF assms] by blast

definition example_world :: lock_world where
  "example_world = \<lparr>w_handles = (\<lambda>n. new_handle (if n = 0 then None else Some 0) True), w_count = (\<lambda>_. 0)\<rparr>"

lemmas lock_eval = get_shard_lock.simps release_shard.simps acquire_first_def acquire_again_def lock_call_def first_lock_op_def
  loop_body_defs put_lock_def erase_lock_def set_count_def new_lock_info_def count_up_def clear_handle_def locks_erase_def
  Let_def release_root_def count_down_def

theorem lock_handle_accounting_witness:
  "\<exists>w'. get_shard_lock 0 5 Write True example_world = (None, w') \<and> root_inv 0 (\<lambda>_. 0) w' \<and> holds 0 5 Write w'"
proof -
  have inv: "root_inv 0 (\<lambda>_. 0) example_world" by (simp add: root_inv_def example_world_def new_handle_def)
  obtain w' where w': "get_shard_lock 0 5 Write True example_world = (None, w')"
    by (simp add: lock_eval example_world_def new_handle_def)
  have "countable_lock 0 5 example_world" by (simp add: countable_lock_def example_world_def new_handle_def)
  then show ?thesis using lock_handle_accounting [OF inv] w' by blast
qed

definition sibling_scenario :: "lock_world \<Rightarrow> error option list \<times> lock_world" where
  "sibling_scenario w0 =
     (let w1 = set_count 5 1 w0;
          (r1, w2) = get_shard_lock 1 5 Read True w1;
          (r2, w3) = get_shard_lock 2 5 Read True w2;
          (r3, w4) = get_shard_lock 1 5 Write True w3;
          (r4, w5) = clear_handle 2 w4
      in ([r1, r2, r3, r4], w5))"

text \<open>
  Two handles that share a parent both hold a read lock on a shard, and another party
  reads the shard as well. When one of them asks for the write lock without blocking, the request is
  refused and the parent forgets the shard although the second handle still counts its lock. When the
  second handle is cleared (also by its destructor), the release fails with "No such lock!".
\<close>

lemma failed_upgrade_breaks_sibling:
  "fst (sibling_scenario example_world) = [None, None, Some WouldBlock, Some (RuntimeError ''No such lock!'')]"
  by (simp add: sibling_scenario_def example_world_def new_handle_def lock_eval)

end
