(* ===== verification/Block.thy ===== *)
theory Block
  imports Page_Store
begin

text \<open>
  Ledger blocks (\<open>src/src/enclave/Block.h\<close>, \<open>Block.inl\<close>): an append-only page with a header, an index
  of entry offsets that grows in steps of 50, and the entries' bytes. The buffer of the block is
  represented by these three parts; positions are those in the buffer, with a header of
  \<open>HEADER_SIZE\<close> bytes and four bytes per index entry.
\<close>

section \<open>State and operations\<close>

definition HEADER_SIZE :: nat where "HEADER_SIZE = 4"
definition ENTRY_SIZE :: nat where "ENTRY_SIZE = 4"
definition FILE_INCREASE :: u16 where "FILE_INCREASE = 50"
definition MIN_BLOCK_SIZE :: nat where "MIN_BLOCK_SIZE = 5 * 1024"

record block =
  bl_sealed :: bool
  bl_num_files :: u16
  bl_index :: "u32 list"
  bl_data :: "u8 list"
  m_file_pos :: block_index_t

text \<open>What is written to disk: the buffer, without the position counter.\<close>

record block_image =
  bi_sealed :: bool
  bi_num_files :: u16
  bi_index :: "u32 list"
  bi_data :: "u8 list"

definition new_block :: block where
  "new_block = \<lparr>bl_sealed = False, bl_num_files = 50, bl_index = replicate 50 0, bl_data = [], m_file_pos = 0\<rparr>"

fun count_files :: "nat \<Rightarrow> u32 list \<Rightarrow> u16 \<Rightarrow> u16" where
  "count_files 0 idx pos = pos"
| "count_files (Suc n) [] pos = pos"
| "count_files (Suc n) (x # idx) pos = (if x = 0 then pos else count_files n idx (pos + 1))"

definition load_block :: "block_image \<Rightarrow> block" where
  "load_block im =
     \<lparr>bl_sealed = bi_sealed im, bl_num_files = bi_num_files im, bl_index = bi_index im, bl_data = bi_data im,
      m_file_pos = count_files (unat (bi_num_files im)) (bi_index im) 0\<rparr>"

definition serialize_block :: "block \<Rightarrow> block_image" where
  "serialize_block b =
     \<lparr>bi_sealed = bl_sealed b, bi_num_files = bl_num_files b, bi_index = bl_index b, bi_data = bl_data b\<rparr>"

definition is_pending :: "block \<Rightarrow> bool" where
  "is_pending b = (\<not> bl_sealed b)"

definition index_size :: "block \<Rightarrow> nat" where
  "index_size b = unat (bl_num_files b) * ENTRY_SIZE"

definition data_pos :: "block \<Rightarrow> nat" where
  "data_pos b = HEADER_SIZE + index_size b + length (bl_data b)"

definition get_data_size :: "block \<Rightarrow> nat" where
  "get_data_size b = data_pos b"

definition num_entries :: "block \<Rightarrow> block_index_t" where
  "num_entries b = m_file_pos b + 1"

text \<open>A read of the index; the code does not check the position after the last entry of the index.\<close>

definition index_at :: "nat \<Rightarrow> block \<Rightarrow> u32 result" where
  "index_at i b = (if i < length (bl_index b) then Inr (bl_index b ! i) else Inl (Fatal ''read past the index''))"

definition block_get :: "block_index_t \<Rightarrow> block \<Rightarrow> u8 list result" where
  "block_get pos b =
     (if bl_num_files b \<le> pos then Inl (RuntimeError ''Block::get_event_failed: out of bounds'')
      else rbind (index_at (unat pos) b) (\<lambda>offset.
        if offset = 0 then Inl (RuntimeError ''Block::get_event failed: no such entry'')
        else rbind (index_at (unat pos + 1) b) (\<lambda>nxt.
          let next_pos = (if nxt = 0 then word_of_nat (data_pos b) else nxt + word_of_nat (index_size b));
              offset_pos = offset + word_of_nat (index_size b)
          in Inr (take (unat (next_pos - offset_pos)) (drop (unat offset_pos - (HEADER_SIZE + index_size b)) (bl_data b))))))"

definition seal :: "block \<Rightarrow> block result" where
  "seal b = (if bl_sealed b then Inl (RuntimeError ''Block is already sealed'') else Inr (b\<lparr>bl_sealed := True\<rparr>))"

definition unseal :: "block \<Rightarrow> block result" where
  "unseal b = (if \<not> bl_sealed b then Inl (RuntimeError ''Block is not sealed'') else Inr (b\<lparr>bl_sealed := False\<rparr>))"

definition grow_index :: "block \<Rightarrow> block" where
  "grow_index b =
     (if bl_num_files b \<le> num_entries b
      then b\<lparr>bl_num_files := bl_num_files b + FILE_INCREASE, bl_index := bl_index b @ replicate (unat FILE_INCREASE) 0\<rparr>
      else b)"

definition block_insert :: "u8 list \<Rightarrow> block \<Rightarrow> (block_index_t \<times> block) result" where
  "block_insert event b =
     (if bl_sealed b then Inl (RuntimeError ''cannot insert. block is already sealed'')
      else let b1 = grow_index b;
               b2 = b1\<lparr>bl_index := (bl_index b1)[unat (m_file_pos b1) := word_of_nat (data_pos b1 - index_size b1)],
                       bl_data := bl_data b1 @ event,
                       m_file_pos := m_file_pos b1 + 1\<rparr>
           in Inr (m_file_pos b2 - 1, b2))"

section \<open>The invariant\<close>

definition entry_offset :: "u8 list list \<Rightarrow> nat \<Rightarrow> nat" where
  "entry_offset es i = HEADER_SIZE + length (concat (take i es))"

text \<open>With a 16-bit number of files, the index never takes more than \<open>2 ^ 18\<close> bytes.\<close>

definition DATA_LIMIT :: nat where "DATA_LIMIT = 2 ^ 32 - 2 ^ 18"

text \<open>\<open>block_inv b es\<close>: the block holds the entries \<open>es\<close>.\<close>

definition block_inv :: "block \<Rightarrow> u8 list list \<Rightarrow> bool" where
  "block_inv b es \<longleftrightarrow>
     unat (m_file_pos b) = length es \<and> length (bl_index b) = unat (bl_num_files b) \<and>
     length es < unat (bl_num_files b) \<and> bl_data b = concat es \<and>
     entry_offset es (length es) < DATA_LIMIT \<and>
     (\<forall>i<length (bl_index b). bl_index b ! i = (if i < length es then word_of_nat (entry_offset es i) else 0))"

lemma new_block_inv: "block_inv new_block []"
  by (simp add: block_inv_def new_block_def entry_offset_def HEADER_SIZE_def DATA_LIMIT_def)

lemma entry_offset_mono: "i \<le> length es \<Longrightarrow> entry_offset es i \<le> entry_offset es (length es)"
proof -
  have "length (concat (take i es)) \<le> length (concat es)"
    using append_take_drop_id [of i es] by (metis concat_append length_append le_add1)
  then show ?thesis by (simp add: entry_offset_def)
qed

lemma entry_offset_append: "i \<le> length es \<Longrightarrow> entry_offset (es @ [e]) i = entry_offset es i"
  by (simp add: entry_offset_def)

lemma unat_entry_offset:
  "block_inv b es \<Longrightarrow> i \<le> length es \<Longrightarrow> unat (word_of_nat (entry_offset es i) :: u32) = entry_offset es i"
  using entry_offset_mono [of i es] by (simp add: block_inv_def unat_of_nat take_bit_nat_eq_self DATA_LIMIT_def)

lemma entry_slice:
  "i < length es \<Longrightarrow>
   take (length (concat (take (Suc i) es)) - length (concat (take i es))) (drop (length (concat (take i es))) (concat es)) = es ! i"
proof -
  assume i: "i < length es"
  have "es = take i es @ es ! i # drop (Suc i) es" using i by (simp add: id_take_nth_drop)
  then have "concat es = concat (take i es) @ es ! i @ concat (drop (Suc i) es)"
    by (metis concat.simps(2) concat_append)
  moreover have "concat (take (Suc i) es) = concat (take i es) @ es ! i"
    using i by (simp add: take_Suc_conv_app_nth)
  ultimately show ?thesis by simp
qed

lemma word_of_nat_offset_nonzero: "block_inv b es \<Longrightarrow> i \<le> length es \<Longrightarrow> (word_of_nat (entry_offset es i) :: u32) \<noteq> 0"
  using unat_entry_offset [of b es i] by (auto simp: entry_offset_def HEADER_SIZE_def)

lemma index_size_less: "index_size b < 2 ^ 18"
  using unsigned_less [of "bl_num_files b"] by (simp add: index_size_def ENTRY_SIZE_def)

lemma block_positions:
  assumes inv: "block_inv b es" and i: "i < length es"
  shows "unat (word_of_nat (entry_offset es i + index_size b) :: u32) = entry_offset es i + index_size b"
    and "unat (word_of_nat (entry_offset es (Suc i) + index_size b) - word_of_nat (entry_offset es i + index_size b) :: u32) =
      entry_offset es (Suc i) - entry_offset es i"
proof -
  have le: "entry_offset es i \<le> entry_offset es (Suc i)"
    using i by (simp add: entry_offset_def take_Suc_conv_app_nth)
  have lim: "entry_offset es (Suc i) + index_size b < 2 ^ 32"
    using entry_offset_mono [of "Suc i" es] i inv index_size_less [of b] by (simp add: block_inv_def DATA_LIMIT_def)
  show off: "unat (word_of_nat (entry_offset es i + index_size b) :: u32) = entry_offset es i + index_size b"
    using le lim by (simp only: unat_of_nat) (simp add: take_bit_nat_eq_self)
  have nxt: "unat (word_of_nat (entry_offset es (Suc i) + index_size b) :: u32) = entry_offset es (Suc i) + index_size b"
    using lim by (simp only: unat_of_nat) (simp add: take_bit_nat_eq_self)
  show "unat (word_of_nat (entry_offset es (Suc i) + index_size b) - word_of_nat (entry_offset es i + index_size b) :: u32) =
      entry_offset es (Suc i) - entry_offset es i"
    using le by (subst unat_sub) (simp_all only: word_le_nat_alt off nxt add_le_mono1 diff_cancel2)
qed

lemma block_get_present:
  assumes inv: "block_inv b es" and i: "unat pos < length es"
  shows "block_get pos b = Inr (es ! unat pos)"
proof -
  let ?i = "unat pos"
  have len: "?i < length (bl_index b)" "Suc ?i < length (bl_index b)" "pos < bl_num_files b"
    using inv i by (auto simp: block_inv_def word_less_nat_alt)
  have idx: "bl_index b ! ?i = word_of_nat (entry_offset es ?i)"
    "bl_index b ! Suc ?i = (if Suc ?i < length es then word_of_nat (entry_offset es (Suc ?i)) else 0)"
    using inv i len by (auto simp: block_inv_def)
  note nz = word_of_nat_offset_nonzero [OF inv, of ?i] word_of_nat_offset_nonzero [OF inv, of "Suc ?i"]
  have nxt: "(if bl_index b ! Suc ?i = 0 then word_of_nat (data_pos b) else bl_index b ! Suc ?i + word_of_nat (index_size b)) =
      (word_of_nat (entry_offset es (Suc ?i) + index_size b) :: u32)"
  proof (cases "Suc ?i < length es")
    case True
    then show ?thesis using idx(2) nz(2) by simp
  next
    case False
    then have "Suc ?i = length es" using i by simp
    then show ?thesis using idx(2) inv by (simp add: data_pos_def entry_offset_def block_inv_def add_ac)
  qed
  have "block_get pos b = (let n = word_of_nat (entry_offset es (Suc ?i) + index_size b) :: u32;
        off = word_of_nat (entry_offset es ?i + index_size b)
      in Inr (take (unat (n - off)) (drop (unat off - (HEADER_SIZE + index_size b)) (bl_data b))))"
    unfolding nxt [symmetric] using len idx(1) nz(1) i by (simp add: block_get_def index_at_def Let_def not_le)
  also have "\<dots> = Inr (take (entry_offset es (Suc ?i) - entry_offset es ?i) (drop (entry_offset es ?i - HEADER_SIZE) (bl_data b)))"
    using block_positions [OF inv i] by (simp add: Let_def)
  also have "\<dots> = Inr (es ! ?i)"
    using entry_slice [OF i] inv by (simp add: entry_offset_def block_inv_def)
  finally show ?thesis .
qed

lemma block_get_absent:
  assumes inv: "block_inv b es" and i: "length es \<le> unat pos"
  shows "\<exists>msg. block_get pos b = Inl (RuntimeError msg)"
proof (cases "bl_num_files b \<le> pos")
  case False
  then have "unat pos < length (bl_index b)" using inv by (simp add: block_inv_def word_le_nat_alt)
  with inv i False show ?thesis by (auto simp: block_get_def index_at_def block_inv_def)
qed (simp add: block_get_def)

lemma block_inv_unique:
  assumes b: "block_inv b es" and b': "block_inv b es'"
  shows "es = es'"
proof (rule nth_equalityI)
  show len: "length es = length es'" using b b' by (simp add: block_inv_def)
  fix i assume i: "i < length es"
  have "length es < 2 ^ 16"
    using b unsigned_less [where 'a = nat, of "m_file_pos b"] by (simp add: block_inv_def)
  then have u: "unat (word_of_nat i :: block_index_t) = i"
    using i by (simp add: unat_of_nat take_bit_nat_eq_self)
  show "es ! i = es' ! i"
    using block_get_present [OF b, of "word_of_nat i"] block_get_present [OF b', of "word_of_nat i"] i len
    unfolding u by simp
qed

lemma grow_index_inv:
  assumes inv: "block_inv b es" and len: "length es + 51 < 2 ^ 16"
  shows "block_inv (grow_index b) es" and "length es + 1 < unat (bl_num_files (grow_index b))"
    and "bl_sealed (grow_index b) = bl_sealed b" and "m_file_pos (grow_index b) = m_file_pos b"
    and "bl_data (grow_index b) = bl_data b"
proof -
  have ne: "unat (num_entries b) = length es + 1"
    using inv len by (simp add: num_entries_def block_inv_def unat_word_ariths)
  have grown: "unat (bl_num_files b + 50) = unat (bl_num_files b) + 50" if "bl_num_files b \<le> num_entries b"
    using that ne len by (simp add: word_le_nat_alt unat_word_ariths)
  show "block_inv (grow_index b) es"
    using inv grown by (auto simp: grow_index_def block_inv_def FILE_INCREASE_def nth_append)
  show "length es + 1 < unat (bl_num_files (grow_index b))"
    using inv grown ne by (auto simp: grow_index_def block_inv_def FILE_INCREASE_def word_le_nat_alt)
qed (simp_all add: grow_index_def)

lemma block_insert_step:
  assumes inv: "block_inv b es" and pending: "\<not> bl_sealed b" and len: "length es + 51 < 2 ^ 16"
    and room: "entry_offset (es @ [e]) (Suc (length es)) < DATA_LIMIT"
  obtains i b' where "block_insert e b = Inr (i, b')" "unat i = length es" "block_inv b' (es @ [e])"
    "\<not> bl_sealed b'"
proof -
  let ?g = "grow_index b"
  note g = grow_index_inv [OF inv len]
  let ?b = "?g\<lparr>bl_index := (bl_index ?g)[unat (m_file_pos ?g) := word_of_nat (data_pos ?g - index_size ?g)],
               bl_data := bl_data ?g @ e, m_file_pos := m_file_pos ?g + 1\<rparr>"
  have off: "data_pos ?g - index_size ?g = entry_offset es (length es)"
    using g(1) by (simp add: data_pos_def entry_offset_def block_inv_def)
  have pos: "unat (m_file_pos ?g) = length es" using g(1) by (simp add: block_inv_def)
  have pos1: "unat (m_file_pos ?g + 1) = Suc (length es)" using pos len by (simp add: unat_word_ariths)
  have idx: "bl_index ?b ! i = (if i < Suc (length es) then word_of_nat (entry_offset (es @ [e]) i) else 0)"
    if "i < length (bl_index ?g)" for i
    using that g(1) off pos by (auto simp: block_inv_def nth_list_update entry_offset_append less_Suc_eq)
  have "block_inv ?b (es @ [e])"
    using g(1,2) pos1 idx room by (simp add: block_inv_def)
  then show ?thesis
    using that [of "m_file_pos ?g" ?b] pending g(3) pos by (simp add: block_insert_def Let_def)
qed

lemma count_files_spec:
  "k \<le> n \<Longrightarrow> k < length idx \<or> n = k \<Longrightarrow> (\<forall>i<length idx. (idx ! i = 0) = (k \<le> i)) \<Longrightarrow> k \<le> length idx \<Longrightarrow>
   count_files n idx pos = pos + word_of_nat k"
proof (induction n idx pos arbitrary: k rule: count_files.induct)
  case (3 n x idx pos)
  show ?case
  proof (cases k)
    case 0
    then have "x = 0" using "3.prems"(3) by force
    then show ?thesis using 0 by simp
  next
    case (Suc k')
    have all: "\<forall>i<length idx. (idx ! i = 0) = (k' \<le> i)"
    proof (intro allI impI)
      fix i assume "i < length idx"
      then show "(idx ! i = 0) = (k' \<le> i)" using "3.prems"(3) [rule_format, of "Suc i"] Suc by simp
    qed
    have x: "x \<noteq> 0" using "3.prems"(3) [rule_format, of 0] Suc by simp
    have "count_files n idx (pos + 1) = pos + 1 + word_of_nat k'"
      using "3.IH" [OF x, of k'] "3.prems" all Suc by simp
    then show ?thesis using x Suc by simp
  qed
qed auto

lemma block_image_round_trip:
  assumes inv: "block_inv b es"
  shows "load_block (serialize_block b) = b"
proof -
  have "\<forall>i<length (bl_index b). (bl_index b ! i = 0) = (length es \<le> i)"
    using inv word_of_nat_offset_nonzero [OF inv] by (auto simp: block_inv_def)
  then have "count_files (unat (bl_num_files b)) (bl_index b) 0 = 0 + word_of_nat (length es)"
    using inv by (intro count_files_spec) (auto simp: block_inv_def)
  also have "\<dots> = m_file_pos b" using inv by (auto simp: block_inv_def dest: sym)
  finally show ?thesis by (simp add: load_block_def serialize_block_def)
qed

section \<open>Appending a sequence of entries\<close>

fun insert_entries :: "u8 list list \<Rightarrow> block \<Rightarrow> block result" where
  "insert_entries [] b = Inr b"
| "insert_entries (e # es) b = rbind (block_insert e b) (\<lambda>(i, b'). insert_entries es b')"

lemma insert_entries_inv:
  "block_inv b ds \<Longrightarrow> \<not> bl_sealed b \<Longrightarrow> length (ds @ es) + 50 < 2 ^ 16 \<Longrightarrow>
   entry_offset (ds @ es) (length (ds @ es)) < DATA_LIMIT \<Longrightarrow>
   \<exists>b'. insert_entries es b = Inr b' \<and> block_inv b' (ds @ es) \<and> \<not> bl_sealed b'"
proof (induction es arbitrary: b ds)
  case (Cons e es)
  have room: "entry_offset (ds @ [e]) (Suc (length ds)) < DATA_LIMIT"
    using Cons.prems(4) by (simp add: entry_offset_def)
  have len: "length ds + 51 < 2 ^ 16" using Cons.prems(3) by simp
  obtain i b' where "block_insert e b = Inr (i, b')" and b': "block_inv b' (ds @ [e])" "\<not> bl_sealed b'"
    by (rule block_insert_step [OF Cons.prems(1,2) len room])
  then show ?case using Cons.IH [OF b'] Cons.prems(3,4) by simp
qed auto

section \<open>Properties\<close>

text \<open>
  Property C10. A block filled from empty holds exactly the inserted entries: every insertion below the
  16-bit index and 32-bit offset limits succeeds, across all growths of the index; \<open>get\<close> then returns the
  bytes of each entry by its position and raises an error at every other position, and the block
  written to disk and loaded again is the same block.
\<close>

theorem block_stores_entries:
  assumes "length es + 50 < 2 ^ 16" and "HEADER_SIZE + length (concat es) < DATA_LIMIT"
  shows "\<exists>b. insert_entries es new_block = Inr b \<and> load_block (serialize_block b) = b \<and>
     (\<forall>pos. if unat pos < length es then block_get pos b = Inr (es ! unat pos)
            else \<exists>msg. block_get pos b = Inl (RuntimeError msg))"
proof -
  obtain b where b: "insert_entries es new_block = Inr b" "block_inv b es"
    using insert_entries_inv [OF new_block_inv, of es] assms by (auto simp: new_block_def entry_offset_def)
  then show ?thesis
    using block_get_present [OF b(2)] block_get_absent [OF b(2)] block_image_round_trip [OF b(2)]
    by (auto simp: not_less)
qed

theorem block_stores_entries_witness:
  "\<exists>b. insert_entries [[1, 2], [], [3]] new_block = Inr b \<and> block_get 2 b = Inr [3]"
proof -
  obtain b where "insert_entries [[1, 2], [], [3]] new_block = Inr b"
    and "\<forall>pos. if unat pos < length [[1, 2], [], [3 :: u8]] then block_get pos b = Inr ([[1, 2], [], [3]] ! unat pos)
            else \<exists>msg. block_get pos b = Inl (RuntimeError msg)"
    using block_stores_entries [of "[[1, 2], [], [3]]"] by (auto simp: HEADER_SIZE_def DATA_LIMIT_def)
  then show ?thesis by (auto dest: spec [of _ 2])
qed

text \<open>
  Property C32. A sealed block is immutable: no insertion and no second seal succeeds, and sealing keeps
  every entry readable.
\<close>

theorem sealed_block_immutable:
  assumes "seal b = Inr b'"
  shows "\<not> is_pending b' \<and> block_insert e b' = Inl (RuntimeError ''cannot insert. block is already sealed'') \<and>
    seal b' = Inl (RuntimeError ''Block is already sealed'') \<and> block_get pos b' = block_get pos b \<and> unseal b' = Inr b"
proof -
  have b': "b' = b\<lparr>bl_sealed := True\<rparr>" and sealed: "\<not> bl_sealed b" using assms by (simp_all add: seal_def split: if_splits)
  have "block_get pos b' = block_get pos b"
    unfolding b' by (simp add: block_get_def index_at_def data_pos_def index_size_def)
  moreover have "unseal b' = Inr b"
    using sealed unfolding b' by (cases b) (simp add: unseal_def)
  ultimately show ?thesis unfolding b' by (simp add: is_pending_def block_insert_def seal_def)
qed

theorem sealed_block_immutable_witness:
  "seal new_block = Inr (new_block\<lparr>bl_sealed := True\<rparr>) \<and>
   block_insert [7] (new_block\<lparr>bl_sealed := True\<rparr>) = Inl (RuntimeError ''cannot insert. block is already sealed'')"
  using sealed_block_immutable [of new_block "new_block\<lparr>bl_sealed := True\<rparr>" "[7]"]
  by (simp add: seal_def new_block_def)

text \<open>
  \<open>num_entries\<close> is documented as the number of events in the block, but after any
  insertion history it is one more than that: the position of the next entry is \<open>num_entries() - 1\<close>.
\<close>

lemma num_entries_counts_one_more:
  assumes "length es + 50 < 2 ^ 16" and "HEADER_SIZE + length (concat es) < DATA_LIMIT"
  shows "\<exists>b. insert_entries es new_block = Inr b \<and> unat (num_entries b) = length es + 1 \<and>
    (\<exists>msg. block_get (num_entries b - 1) b = Inl (RuntimeError msg))"
proof -
  obtain b where b: "insert_entries es new_block = Inr b" "block_inv b es"
    using insert_entries_inv [OF new_block_inv, of es] assms by (auto simp: new_block_def entry_offset_def)
  then have "unat (num_entries b) = length es + 1"
    using assms(1) by (simp add: num_entries_def block_inv_def unat_word_ariths)
  then show ?thesis
    using b block_get_absent [OF b(2), of "m_file_pos b"] by (auto simp: num_entries_def block_inv_def)
qed

end
