(* ===== verification/Shard.thy ===== *)
theory Shard
  imports Block
begin

text \<open>
  Ledger shards (\<open>src/src/enclave/Shard.h\<close>, \<open>Shard.cpp\<close>): each shard appends to one pending block and
  replaces it when it is full. Blocks live in the page store; a block older than the pending one has
  been sealed, so an unsealed copy of it is a rolled-back page. On a downstream server pages come
  from an upstream server, and the shard asks again until the copy is recent enough.
\<close>

type_synonym block_store = "block page_store"

record shard =
  m_pending_block_id :: page_no_t
  m_num_pending_events :: block_index_t
  m_pending_block :: "page_no_t option"

definition generate_block :: "shard \<Rightarrow> block_store \<Rightarrow> page_no_t \<times> shard \<times> block_store" where
  "generate_block sh st =
     (let (page_no, st') = new_page new_block st
      in (page_no, sh\<lparr>m_pending_block := Some page_no, m_pending_block_id := page_no\<rparr>, st'))"

definition get_block :: "block_id_t \<Rightarrow> shard \<Rightarrow> block_store \<Rightarrow> block result" where
  "get_block page_no sh st =
     (if page_no = m_pending_block_id sh then get_page page_no st
      else if page_no < m_pending_block_id sh then
        rbind (get_page page_no st) (\<lambda>hdl. if is_pending hdl then Inl StalenessDetected else Inr hdl)
      else get_page page_no st)"

text \<open>
  The downstream case: \<open>copies n\<close> is what the \<open>n\<close>-th request of the page gives, and the loop asks again
  while the copy is outdated.
\<close>

partial_function (option) reload_while :: "(block \<Rightarrow> bool) \<Rightarrow> (nat \<Rightarrow> block) \<Rightarrow> nat \<Rightarrow> block option" where
  "reload_while outdated copies n =
     (if outdated (copies n) then reload_while outdated copies (Suc n) else Some (copies n))"

definition get_block_remote :: "block_id_t \<Rightarrow> shard \<Rightarrow> (nat \<Rightarrow> block) \<Rightarrow> block option" where
  "get_block_remote page_no sh copies =
     (if page_no = m_pending_block_id sh
      then reload_while (\<lambda>hdl. num_entries hdl < m_num_pending_events sh) copies 0
      else if page_no < m_pending_block_id sh then reload_while is_pending copies 0
      else Some (copies 0))"

text \<open>
  The pending block may change while the block is fetched without the lock: \<open>pids n\<close> is the pending
  block before the \<open>n\<close>-th try, and \<open>fetch\<close> the block obtained.
\<close>

partial_function (option) get_pending_block_from ::
  "(nat \<Rightarrow> page_no_t) \<Rightarrow> (nat \<Rightarrow> page_no_t \<Rightarrow> block option) \<Rightarrow> nat \<Rightarrow> (page_no_t \<times> block) option" where
  "get_pending_block_from pids fetch n =
     (case fetch n (pids n) of
        None \<Rightarrow> None
      | Some b \<Rightarrow> if pids n = pids (Suc n) then Some (pids n, b) else get_pending_block_from pids fetch (Suc n))"

text \<open>With the lock held throughout, the first try succeeds.\<close>

definition get_pending_block :: "shard \<Rightarrow> block_store \<Rightarrow> block result" where
  "get_pending_block sh st = get_block (m_pending_block_id sh) sh st"

definition set_pending_block :: "page_no_t \<Rightarrow> block_index_t \<Rightarrow> shard \<Rightarrow> shard" where
  "set_pending_block page_no num_events sh = sh\<lparr>m_pending_block_id := page_no, m_num_pending_events := num_events\<rparr>"

text \<open>The two discarding operations drop the shard's handle and name the page to drop from the cache.\<close>

definition discard_pending_block :: "shard \<Rightarrow> (page_no_t \<times> shard) result" where
  "discard_pending_block sh =
     (case m_pending_block sh of
        None \<Rightarrow> Inl (Fatal ''null page handle'')
      | Some page_no \<Rightarrow> Inr (page_no, sh\<lparr>m_pending_block := None\<rparr>))"

definition discard_cached_block :: "page_no_t \<Rightarrow> shard \<Rightarrow> page_no_t \<times> shard" where
  "discard_cached_block page_no sh =
     (page_no, if m_pending_block_id sh = page_no then sh\<lparr>m_pending_block := None\<rparr> else sh)"

definition unload_everything :: "shard \<Rightarrow> shard" where
  "unload_everything sh = sh\<lparr>m_pending_block := None\<rparr>"

definition dump_metadata :: "shard \<Rightarrow> page_no_t result" where
  "dump_metadata sh =
     (case m_pending_block sh of None \<Rightarrow> Inl (Fatal ''null page handle'') | Some page_no \<Rightarrow> Inr page_no)"

definition load_metadata :: "page_no_t \<Rightarrow> shard \<Rightarrow> block_store \<Rightarrow> (shard \<times> block_store) result" where
  "load_metadata page_no sh st =
     rbind (get_page page_no st) (\<lambda>b.
     rbind (unseal b) (\<lambda>b'.
     Inr (sh\<lparr>m_pending_block := Some page_no\<rparr>, put_page page_no b' st)))"

lemma reload_while_returns:
  "\<not> outdated (copies (n + k)) \<Longrightarrow> \<exists>m\<ge>n. m \<le> n + k \<and> reload_while outdated copies n = Some (copies m) \<and> \<not> outdated (copies m)"
proof (induction k arbitrary: n)
  case (Suc k)
  show ?case
  proof (cases "outdated (copies n)")
    case True
    then have eq: "reload_while outdated copies n = reload_while outdated copies (Suc n)"
      by (simp add: reload_while.simps [of _ _ n])
    obtain m where "m \<ge> Suc n" "m \<le> Suc n + k" "reload_while outdated copies (Suc n) = Some (copies m)" "\<not> outdated (copies m)"
      using Suc.IH [of "Suc n"] Suc.prems by auto
    then show ?thesis unfolding eq by (intro exI [of _ m]) auto
  next
    case False
    then show ?thesis by (intro exI [of _ n]) (simp add: reload_while.simps [of _ _ n])
  qed
qed (auto simp: reload_while.simps)

lemma reload_while_fresh: "reload_while outdated copies n = Some b \<Longrightarrow> \<not> outdated b"
  by (rule reload_while.raw_induct [where P = "\<lambda>outdated copies n b. \<not> outdated b"]) (auto split: if_splits)

lemma get_block_pending [simp]: "get_block (m_pending_block_id sh) sh st = get_page (m_pending_block_id sh) st"
  by (simp add: get_block_def)

lemma get_block_readable:
  "pages st p = Some b \<Longrightarrow> p \<noteq> INVALID_PAGE_NO \<Longrightarrow> p = m_pending_block_id sh \<or> \<not> is_pending b \<Longrightarrow> get_block p sh st = Inr b"
  by (auto simp: get_block_def get_page_def)

text \<open>
  A shard never hands out an outdated copy of a closed block: when the block precedes the
  pending one, the local server returns it only if it is sealed and reports staleness otherwise, and a
  downstream server returns only a sealed copy, and does return as soon as one request gives such a
  copy.
\<close>

lemma shard_old_block_fresh:
  assumes old: "page_no < m_pending_block_id sh" and page: "page_no \<noteq> INVALID_PAGE_NO" "pages st page_no = Some b"
  shows "get_block page_no sh st = (if bl_sealed b then Inr b else Inl StalenessDetected) \<and>
     (get_block_remote page_no sh copies = Some c \<longrightarrow> bl_sealed c) \<and>
     (bl_sealed (copies n) \<longrightarrow> (\<exists>m\<le>n. get_block_remote page_no sh copies = Some (copies m)))"
proof -
  have "get_block_remote page_no sh copies = reload_while is_pending copies 0"
    using old by (auto simp: get_block_remote_def)
  moreover have "get_block page_no sh st = (if bl_sealed b then Inr b else Inl StalenessDetected)"
    using old page less_imp_neq [OF old] by (simp add: get_block_def get_page_def is_pending_def)
  ultimately show ?thesis
    using reload_while_fresh [of is_pending copies 0 c] reload_while_returns [of is_pending copies 0 n]
    by (auto simp: is_pending_def)
qed

end
