(* ===== verification/Object_Event.thy ===== *)
theory Object_Event
  imports Event_Id
begin

text \<open>
  Object events (\<open>src/src/enclave/ObjectEventHandle.h\<close>, \<open>.cpp\<close>) and the identity an operation runs
  under (\<open>OpContext.h\<close>, \<open>util/Identity.h\<close>). An event is a JSON array of integers, strings and
  documents; a handle is the array or nothing. Documents belong to the JSON library and are a type
  parameter. The two writers are those of \<open>Ledger::put_next_version\<close> and \<open>Ledger::put_tombstone\<close>.
\<close>

section \<open>Identities\<close>

datatype IdentityType = Server | Client

record identity =
  id_type :: IdentityType
  id_name :: string

definition INVALID_IDENTITY :: identity where
  "INVALID_IDENTITY = \<lparr>id_type = Server, id_name = ''''\<rparr>"

definition identity_eq :: "identity \<Rightarrow> identity \<Rightarrow> bool" where
  "identity_eq a b = (id_name a = id_name b)"

definition identity_to_string :: "identity \<Rightarrow> string" where
  "identity_to_string i = (case id_type i of Server \<Rightarrow> ''server://'' @ id_name i | Client \<Rightarrow> ''client://'' @ id_name i)"

record op_context =
  oc_identity :: identity
  oc_program :: string

definition context_valid :: "op_context \<Rightarrow> bool" where
  "context_valid c = (\<not> identity_eq (oc_identity c) INVALID_IDENTITY)"

definition called_by_program :: "op_context \<Rightarrow> bool" where
  "called_by_program c = (oc_program c \<noteq> '''')"

definition context_to_string :: "op_context \<Rightarrow> string" where
  "context_to_string c =
     (if called_by_program c then identity_to_string (oc_identity c) @ '':'' @ oc_program c
      else identity_to_string (oc_identity c))"

definition empty_context :: op_context where
  "empty_context = \<lparr>oc_identity = INVALID_IDENTITY, oc_program = ''''\<rparr>"

lemma empty_context_invalid [simp]: "\<not> context_valid empty_context"
  by (simp add: context_valid_def empty_context_def identity_eq_def)

section \<open>Events and handles\<close>

datatype ObjectEventType = NewVersion | Read | Deletion | OtherEvent int

definition event_type_code :: "ObjectEventType \<Rightarrow> int" where
  "event_type_code t = (case t of NewVersion \<Rightarrow> 0 | Read \<Rightarrow> 1 | Deletion \<Rightarrow> 2 | OtherEvent i \<Rightarrow> i)"

definition event_type_of :: "int \<Rightarrow> ObjectEventType" where
  "event_type_of i = (if i = 0 then NewVersion else if i = 1 then Read else if i = 2 then Deletion else OtherEvent i)"

datatype 'd json_field = JInt int | JString string | JDoc 'd

type_synonym 'd content = "'d json_field list"
type_synonym 'd event_handle = "'d content option"

definition FIELD_TYPE :: nat where "FIELD_TYPE = 0"
definition FIELD_SOURCE :: nat where "FIELD_SOURCE = 1"
definition FIELD_PREVIOUS_BLOCK :: nat where "FIELD_PREVIOUS_BLOCK = 2"
definition FIELD_PREVIOUS_INDEX :: nat where "FIELD_PREVIOUS_INDEX = 3"
definition FIELD_VALUE :: nat where "FIELD_VALUE = 4"
definition FIELD_VERSION_NO :: nat where "FIELD_VERSION_NO = 5"
definition FIELD_TRANSACTION_BLOCK :: nat where "FIELD_TRANSACTION_BLOCK = 6"
definition FIELD_TRANSACTION_INDEX :: nat where "FIELD_TRANSACTION_INDEX = 7"

lemmas FIELD_defs = FIELD_TYPE_def FIELD_SOURCE_def FIELD_PREVIOUS_BLOCK_def FIELD_PREVIOUS_INDEX_def
  FIELD_VALUE_def FIELD_VERSION_NO_def FIELD_TRANSACTION_BLOCK_def FIELD_TRANSACTION_INDEX_def

definition event_valid :: "'d event_handle \<Rightarrow> bool" where
  "event_valid h = (h \<noteq> None)"

definition field :: "nat \<Rightarrow> 'd event_handle \<Rightarrow> 'd json_field result" where
  "field n h = (case h of None \<Rightarrow> Inl JsonError | Some c \<Rightarrow> if n < length c then Inr (c ! n) else Inl JsonError)"

definition as_integer :: "'d json_field \<Rightarrow> int result" where
  "as_integer f = (case f of JInt i \<Rightarrow> Inr i | _ \<Rightarrow> Inl JsonError)"

definition as_string :: "'d json_field \<Rightarrow> string result" where
  "as_string f = (case f of JString s \<Rightarrow> Inr s | _ \<Rightarrow> Inl JsonError)"

definition as_document :: "'d json_field \<Rightarrow> 'd result" where
  "as_document f = (case f of JDoc d \<Rightarrow> Inr d | _ \<Rightarrow> Inl JsonError)"

definition source :: "'d event_handle \<Rightarrow> string result" where
  "source h = rbind (field FIELD_SOURCE h) as_string"

definition previous_index :: "'d event_handle \<Rightarrow> block_index_t result" where
  "previous_index h = rbind (rbind (field FIELD_PREVIOUS_INDEX h) as_integer) (\<lambda>i. Inr (word_of_int i))"

definition previous_block :: "'d event_handle \<Rightarrow> block_id_t result" where
  "previous_block h = rbind (rbind (field FIELD_PREVIOUS_BLOCK h) as_integer) (\<lambda>i. Inr (word_of_int i))"

definition has_predecessor :: "'d event_handle \<Rightarrow> bool result" where
  "has_predecessor h = rbind (previous_block h) (\<lambda>b. Inr (b \<noteq> INVALID_BLOCK))"

definition get_type :: "'d event_handle \<Rightarrow> ObjectEventType result" where
  "get_type h = rbind (rbind (field FIELD_TYPE h) as_integer) (\<lambda>i. Inr (event_type_of i))"

definition transaction_ref :: "'d event_handle \<Rightarrow> ledger_pos_t result" where
  "transaction_ref h =
     rbind (rbind (field FIELD_TRANSACTION_BLOCK h) as_integer) (\<lambda>b.
     rbind (rbind (field FIELD_TRANSACTION_INDEX h) as_integer) (\<lambda>i.
     Inr \<lparr>lp_block = word_of_int b, lp_index = word_of_int i\<rparr>))"

definition event_version :: "'d event_handle \<Rightarrow> version_number_t result" where
  "event_version h = rbind (rbind (field FIELD_VERSION_NO h) as_integer) (\<lambda>i. Inr (word_of_int i))"

definition is_initial_version :: "'d event_handle \<Rightarrow> bool result" where
  "is_initial_version h = rbind (event_version h) (\<lambda>v. Inr (v = INITIAL_VERSION_NO))"

definition event_value :: "'d event_handle \<Rightarrow> 'd result" where
  "event_value h =
     (if \<not> event_valid h then Inl (RuntimeError ''Cannot get object value: not a valid handle!'')
      else rbind (field FIELD_VALUE h) as_document)"

section \<open>The two kinds of events the ledger writes\<close>

definition new_version_event ::
  "string \<Rightarrow> block_id_t \<Rightarrow> block_index_t \<Rightarrow> 'd \<Rightarrow> version_number_t \<Rightarrow> ledger_pos_t \<Rightarrow> 'd content" where
  "new_version_event src prev_block prev_index doc version tx =
     [JInt (event_type_code NewVersion), JString src, JInt (uint prev_block), JInt (uint prev_index), JDoc doc,
      JInt (uint version), JInt (uint (lp_block tx)), JInt (uint (lp_index tx))]"

definition tombstone_event :: "string \<Rightarrow> block_id_t \<Rightarrow> block_index_t \<Rightarrow> ledger_pos_t \<Rightarrow> 'd content" where
  "tombstone_event src prev_block prev_index tx =
     [JInt (event_type_code Deletion), JString src, JInt (uint prev_block), JInt (uint prev_index),
      JInt (uint (lp_block tx)), JInt (uint (lp_index tx))]"

named_theorems event_simps "reading the fields of the events that the ledger writes"

lemmas accessor_defs = source_def previous_index_def previous_block_def has_predecessor_def get_type_def transaction_ref_def
  event_version_def is_initial_version_def event_value_def field_def as_integer_def as_string_def as_document_def
  event_valid_def FIELD_defs

lemma event_valid_simps [simp]: "\<not> event_valid None" "event_valid (Some c)"
  by (simp_all add: event_valid_def)

lemma new_version_fields [event_simps]:
  "get_type (Some (new_version_event src pb pi doc v tx)) = Inr NewVersion"
  "source (Some (new_version_event src pb pi doc v tx)) = Inr src"
  "previous_block (Some (new_version_event src pb pi doc v tx)) = Inr pb"
  "previous_index (Some (new_version_event src pb pi doc v tx)) = Inr pi"
  "has_predecessor (Some (new_version_event src pb pi doc v tx)) = Inr (pb \<noteq> INVALID_BLOCK)"
  "event_value (Some (new_version_event src pb pi doc v tx)) = Inr doc"
  "event_version (Some (new_version_event src pb pi doc v tx)) = Inr v"
  "transaction_ref (Some (new_version_event src pb pi doc v tx)) = Inr tx"
  by (simp_all add: accessor_defs new_version_event_def event_type_code_def event_type_of_def)

lemma tombstone_fields [event_simps]:
  "get_type (Some (tombstone_event src pb pi tx)) = Inr Deletion"
  "source (Some (tombstone_event src pb pi tx)) = Inr src"
  "previous_block (Some (tombstone_event src pb pi tx)) = Inr pb"
  "previous_index (Some (tombstone_event src pb pi tx)) = Inr pi"
  "has_predecessor (Some (tombstone_event src pb pi tx)) = Inr (pb \<noteq> INVALID_BLOCK)"
  by (simp_all add: accessor_defs tombstone_event_def event_type_code_def event_type_of_def)

end
