(* ===== verification/Collection.thy ===== *)
theory Collection
  imports Object_Event Multi_Map
begin

text \<open>
  Collections and their secondary indexes (\<open>src/src/enclave/Collection.cpp\<close>, \<open>Index.cpp\<close>). The JSON
  library is not part of the sources: the record \<open>json_lib\<close> collects the operations that are used of
  it and every definition takes it as an argument. The two page-level maps appear here by what they
  implement: a primary index (\<open>Hash_Map\<close>) as a partial function, the map of a secondary index
  (\<open>Multi_Map\<close>) as a function from hashes to multisets of keys.
\<close>

section \<open>The JSON library\<close>

record 'd json_lib =
  js_write :: "'d content \<Rightarrow> u8 list"
  js_parse :: "u8 list \<Rightarrow> 'd content option"
  js_valid :: "'d \<Rightarrow> bool"
  js_empty :: "'d \<Rightarrow> bool"
  js_path :: "'d \<Rightarrow> string \<Rightarrow> 'd"
  js_force_path :: "'d \<Rightarrow> string \<Rightarrow> 'd option"
  js_select :: "'d \<Rightarrow> string list \<Rightarrow> 'd"
  js_force_select :: "'d \<Rightarrow> string list \<Rightarrow> 'd option"
  js_hash :: "'d \<Rightarrow> u64"
  js_eq :: "'d \<Rightarrow> 'd \<Rightarrow> bool"
  js_keys :: "'d \<Rightarrow> string list option"
  js_elements :: "'d \<Rightarrow> 'd list option"
  js_singleton :: "string \<Rightarrow> 'd \<Rightarrow> 'd"
  js_add :: "'d \<Rightarrow> string \<Rightarrow> 'd \<Rightarrow> 'd result"
  js_insert :: "'d \<Rightarrow> string \<Rightarrow> 'd \<Rightarrow> 'd result"
  js_matches :: "'d \<Rightarrow> 'd \<Rightarrow> bool"
  js_size :: "'d \<Rightarrow> nat"
  js_blank :: 'd
  js_binary :: "'d \<Rightarrow> u8 list option"
  js_program :: "'d \<Rightarrow> u8 list result"

section \<open>Hash indexes\<close>

record index =
  ix_name :: string
  ix_paths :: "string list"
  ix_map :: "u64 \<Rightarrow> string multiset"

definition new_hash_index :: "string \<Rightarrow> string list \<Rightarrow> index result" where
  "new_hash_index name paths =
     (if length paths \<noteq> 1 then Inl (RuntimeError ''HashIndex doesn't support multiple paths for now'')
      else Inr \<lparr>ix_name = name, ix_paths = paths, ix_map = (\<lambda>_. {#})\<rparr>)"

definition index_compare :: "('d, 'z) json_lib_scheme \<Rightarrow> 'd \<Rightarrow> 'd \<Rightarrow> index \<Rightarrow> bool" where
  "index_compare E first second ix = js_eq E (js_select E first (ix_paths ix)) (js_select E second (ix_paths ix))"

definition only_in_operator :: "string \<Rightarrow> bool" where
  "only_in_operator key = (\<not> (key \<noteq> '''' \<and> hd key = CHR ''$'' \<and> key \<noteq> ''$in''))"

definition matches_query :: "('d, 'z) json_lib_scheme \<Rightarrow> 'd \<Rightarrow> index \<Rightarrow> bool" where
  "matches_query E predicate ix =
     list_all (\<lambda>path. case js_force_path E predicate path of
         None \<Rightarrow> False
       | Some view \<Rightarrow> (case js_keys E view of None \<Rightarrow> True | Some keys \<Rightarrow> list_all only_in_operator keys))
     (ix_paths ix)"

definition index_insert :: "('d, 'z) json_lib_scheme \<Rightarrow> 'd \<Rightarrow> string \<Rightarrow> index \<Rightarrow> bool \<times> index" where
  "index_insert E document key ix =
     (case js_force_select E document (ix_paths ix) of
        None \<Rightarrow> (False, ix)
      | Some view \<Rightarrow>
          (True, ix\<lparr>ix_map := (ix_map ix)(js_hash E view := add_mset key (ix_map ix (js_hash E view)))\<rparr>))"

definition index_clear :: "index \<Rightarrow> index" where
  "index_clear ix = ix\<lparr>ix_map := (\<lambda>_. {#})\<rparr>"

text \<open>
  Removing an entry that is not there leaves the entries as they are, but in the pages of the multimap it breaks the version numbers of the bucket
  (\<open>Multi_Map\<close>), which this model of an index does not show. The ledger
  removes the entry of the previous version, which is there unless the creation of the index has left the object out.
\<close>

definition index_remove :: "('d, 'z) json_lib_scheme \<Rightarrow> 'd \<Rightarrow> string \<Rightarrow> index \<Rightarrow> bool \<times> index" where
  "index_remove E document key ix =
     (case js_force_select E document (ix_paths ix) of
        None \<Rightarrow> (False, ix)
      | Some view \<Rightarrow>
          (key \<in># ix_map ix (js_hash E view),
           ix\<lparr>ix_map := (ix_map ix)(js_hash E view := ix_map ix (js_hash E view) - {#key#})\<rparr>))"



definition map_find :: "u64 \<Rightarrow> string set \<Rightarrow> SetOperation \<Rightarrow> index \<Rightarrow> string set" where
  "map_find h out op ix =
     (case op of Intersect \<Rightarrow> out \<inter> set_mset (ix_map ix h) | Union \<Rightarrow> out \<union> set_mset (ix_map ix h))"

definition index_find :: "('d, 'z) json_lib_scheme \<Rightarrow> 'd \<Rightarrow> string set \<Rightarrow> SetOperation \<Rightarrow> index \<Rightarrow> string set result" where
  "index_find E predicate out op ix =
     (if length (ix_paths ix) \<noteq> 1 then Inl (Fatal ''Invalid state: need exactly one path'')
      else let vkey = hd (ix_paths ix);
               in_doc = js_path E predicate (vkey @ ''.$in'')
           in if js_empty E in_doc then Inr (map_find (js_hash E predicate) out op ix)
              else case js_elements E in_doc of
                     None \<Rightarrow> Inl (RuntimeError ''$in operand is not an array'')
                   | Some views \<Rightarrow>
                       let collect = (\<lambda>start. fold (\<lambda>view found. map_find (js_hash E (js_singleton E vkey view)) found Union ix) views start)
                       in Inr (case op of Union \<Rightarrow> collect out | Intersect \<Rightarrow> out \<inter> collect {}))"

definition index_estimate :: "('d, 'z) json_lib_scheme \<Rightarrow> 'd \<Rightarrow> index \<Rightarrow> nat result" where
  "index_estimate E predicate ix =
     (if length (ix_paths ix) \<noteq> 1 then Inl (Fatal ''Invalid state'')
      else if js_empty E (js_path E predicate (hd (ix_paths ix) @ ''.$in''))
      then Inr (size (ix_map ix (js_hash E predicate))) else Inr 0)"

section \<open>Collections\<close>

type_synonym remote_party_id = u32

record collection =
  c_name :: string
  c_primary :: "string \<rightharpoonup> event_id_t"
  c_secondary :: "(string \<times> index) list"
  c_triggers :: "remote_party_id list"

definition new_collection :: "string \<Rightarrow> collection" where
  "new_collection name = \<lparr>c_name = name, c_primary = (\<lambda>_. None), c_secondary = [], c_triggers = []\<rparr>"

definition drop_index :: "string \<Rightarrow> collection \<Rightarrow> bool \<times> collection" where
  "drop_index name c =
     (case map_of (c_secondary c) name of
        None \<Rightarrow> (False, c)
      | Some ix \<Rightarrow> (True, c\<lparr>c_secondary := filter (\<lambda>(n, _). n \<noteq> name) (c_secondary c)\<rparr>))"

definition add_index :: "string \<Rightarrow> index \<Rightarrow> collection \<Rightarrow> collection" where
  "add_index name ix c = c\<lparr>c_secondary := (name, ix) # filter (\<lambda>(n, _). n \<noteq> name) (c_secondary c)\<rparr>"

definition set_trigger :: "remote_party_id \<Rightarrow> collection \<Rightarrow> collection" where
  "set_trigger party c = c\<lparr>c_triggers := List.insert party (c_triggers c)\<rparr>"

definition unset_trigger :: "remote_party_id \<Rightarrow> collection \<Rightarrow> collection" where
  "unset_trigger party c = c\<lparr>c_triggers := removeAll party (c_triggers c)\<rparr>"

text \<open>The names of the parties that \<open>notify_triggers\<close> sends a message to: those still connected.\<close>

definition notify_triggers :: "(remote_party_id \<Rightarrow> bool) \<Rightarrow> collection \<Rightarrow> (remote_party_id \<times> string) list" where
  "notify_triggers connected c = map (\<lambda>t. (t, c_name c)) (filter connected (c_triggers c))"

definition collection_dump_metadata :: "collection \<Rightarrow> (string \<times> string \<times> string list) list" where
  "collection_dump_metadata c = map (\<lambda>(n, ix). (n, ix_name ix, ix_paths ix)) (c_secondary c)"

fun collection_load_metadata :: "(string \<times> string \<times> string list) list \<Rightarrow> collection \<Rightarrow> collection result" where
  "collection_load_metadata [] c = Inr c"
| "collection_load_metadata ((n, name, paths) # rest) c =
     rbind (new_hash_index name paths) (\<lambda>ix. collection_load_metadata rest (add_index n ix c))"

definition collection_unload_everything :: "collection \<Rightarrow> collection" where
  "collection_unload_everything c = c\<lparr>c_secondary := []\<rparr>"

end
