(* ===== verification/Ledger.thy ===== *)
theory Ledger
  imports Shard Collection Murmur_Hash
begin

text \<open>
  The ledger (\<open>src/src/enclave/Ledger.cpp\<close>, \<open>Ledger.inl\<close>, \<open>ObjectIterator.cpp\<close>): objects as chains of
  events in the blocks of 64 shards, found through the primary index of their collection. The
  definitions follow one thread on the server that owns the data; the locks it takes are the subject
  of \<open>Lock_Handle\<close>. The JSON library and the interpreter that runs the policies are arguments,
  collected in the record \<open>ledger_env\<close>.
\<close>

section \<open>State\<close>

datatype OperationType = GetObject | GetObjectWithWitness | GetObjectHistory | HasObject | CheckObject | PutObject
  | PutObjectWithoutKey | AddToObject | CountObjects | FindObjects | ListPeers | DiffVersions | RemoveObject
  | CreateIndex | DropIndex | Clear | CreateWitness | ExecuteCode | CallProgram | ReadFromUpstreamDisk | TellPeerType
  | Peer | SetTrigger | UnsetTrigger | OrderEvents | ExecuteTransaction | TransactionPrepare | TransactionPromise
  | TransactionCommit | TransactionAbort | GetStatistics | NOP | DumpEverything | LoadEverything

record ledger =
  m_shards :: "shard list"
  m_blocks :: block_store
  m_collections :: "string \<rightharpoonup> collection"
  m_object_count :: u64
  m_version_count :: u64

record 'd ledger_env = "'d json_lib" +
  run_collection_policy :: "u8 list \<Rightarrow> op_context \<Rightarrow> string \<Rightarrow> string \<Rightarrow> string \<Rightarrow> OperationType \<Rightarrow> ledger \<Rightarrow> bool result"
  run_object_policy :: "u8 list \<Rightarrow> op_context \<Rightarrow> string \<Rightarrow> string \<Rightarrow> string \<Rightarrow> OperationType \<Rightarrow> ledger \<Rightarrow> bool result"

fun generate_shards :: "nat \<Rightarrow> block_store \<Rightarrow> shard list \<times> block_store" where
  "generate_shards 0 st = ([], st)"
| "generate_shards (Suc n) st =
     (let (_, sh, st1) = generate_block \<lparr>m_pending_block_id = 0, m_num_pending_events = 0, m_pending_block = None\<rparr> st;
          (shs, st2) = generate_shards n st1
      in (sh # shs, st2))"

definition new_ledger :: "block_store \<Rightarrow> ledger" where
  "new_ledger st =
     (let (shs, st') = generate_shards NUM_SHARDS st
      in \<lparr>m_shards = shs, m_blocks = st', m_collections = (\<lambda>_. None), m_object_count = 0, m_version_count = 0\<rparr>)"

definition set_shard :: "shard_id_t \<Rightarrow> shard \<Rightarrow> ledger \<Rightarrow> ledger" where
  "set_shard s sh l = l\<lparr>m_shards := (m_shards l)[unat s := sh]\<rparr>"

definition shard_at :: "shard_id_t \<Rightarrow> ledger \<Rightarrow> shard result" where
  "shard_at s l = (if unat s < length (m_shards l) then Inr (m_shards l ! unat s) else Inl (Fatal ''no such shard''))"

definition set_collection :: "string \<Rightarrow> collection \<Rightarrow> ledger \<Rightarrow> ledger" where
  "set_collection name c l = l\<lparr>m_collections := (m_collections l)(name \<mapsto> c)\<rparr>"

definition is_valid_key :: "string \<Rightarrow> bool" where
  "is_valid_key str = (str \<noteq> [] \<and> list_all (\<lambda>c. is_alnum c \<or> c = CHR ''_'') str)"

definition get_collection :: "string \<Rightarrow> bool \<Rightarrow> ledger \<Rightarrow> (collection \<times> ledger) result" where
  "get_collection name create l =
     (case m_collections l name of
        Some c \<Rightarrow> Inr (c, l)
      | None \<Rightarrow> if \<not> create then Inl (RuntimeError (''No such collection: '' @ name))
                else Inr (new_collection name, set_collection name (new_collection name) l))"

definition try_get_collection :: "string \<Rightarrow> ledger \<Rightarrow> collection option" where
  "try_get_collection name l = m_collections l name"

section \<open>Reading events\<close>

definition ledger_get_block :: "shard_id_t \<Rightarrow> block_id_t \<Rightarrow> ledger \<Rightarrow> block result" where
  "ledger_get_block s b l = rbind (shard_at s l) (\<lambda>sh. get_block b sh (m_blocks l))"

definition get_event :: "('d, 'z) json_lib_scheme \<Rightarrow> event_id_t \<Rightarrow> ledger \<Rightarrow> 'd event_handle result" where
  "get_event E eid l =
     rbind (ledger_get_block (ev_shard eid) (ev_block eid) l) (\<lambda>b.
     rbind (block_get (ev_index eid) b) (\<lambda>bytes. Inr (js_parse E bytes)))"

definition get_latest_event ::
  "('d, 'z) json_lib_scheme \<Rightarrow> string \<Rightarrow> string \<Rightarrow> ledger \<Rightarrow> (event_id_t \<times> 'd event_handle) result" where
  "get_latest_event E collection key l =
     (if key = [] then Inr (INVALID_EVENT, None)
      else case try_get_collection collection l of
             None \<Rightarrow> Inr (INVALID_EVENT, None)
           | Some col \<Rightarrow>
               (case c_primary col key of
                  None \<Rightarrow> Inr (INVALID_EVENT, None)
                | Some eid \<Rightarrow> rbind (get_event E eid l) (\<lambda>h. Inr (eid, h))))"

definition predecessor_id :: "shard_id_t \<Rightarrow> 'd event_handle \<Rightarrow> event_id_t result" where
  "predecessor_id s h = rbind (previous_block h) (\<lambda>b. rbind (previous_index h) (\<lambda>i. Inr (mk_event_id s b i)))"

definition get_previous_event ::
  "('d, 'z) json_lib_scheme \<Rightarrow> shard_id_t \<Rightarrow> 'd event_handle \<Rightarrow> ledger \<Rightarrow> 'd event_handle result" where
  "get_previous_event E s current l =
     rbind (has_predecessor current) (\<lambda>has.
       if \<not> has then Inr None else rbind (predecessor_id s current) (\<lambda>eid. get_event E eid l))"

partial_function (option) get_previous_version ::
  "('d, 'z) json_lib_scheme \<Rightarrow> shard_id_t \<Rightarrow> ledger \<Rightarrow> 'd event_handle \<Rightarrow> 'd event_handle result option" where
  "get_previous_version E s l event =
     (if \<not> event_valid event then Some (Inr event)
      else case get_type event of
        Inl e \<Rightarrow> Some (Inl e)
      | Inr t \<Rightarrow>
          if t = NewVersion then Some (Inr event)
          else if t = Deletion then Some (Inr None)
          else case has_predecessor event of
            Inl e \<Rightarrow> Some (Inl e)
          | Inr has \<Rightarrow>
              if \<not> has then Some (Inr None)
              else case rbind (predecessor_id s event) (\<lambda>eid. get_event E eid l) of
                Inl e \<Rightarrow> Some (Inl e)
              | Inr event' \<Rightarrow> get_previous_version E s l event')"

section \<open>Policies\<close>

definition get_policy :: "('d, 'z) json_lib_scheme \<Rightarrow> 'd event_handle \<Rightarrow> 'd result" where
  "get_policy E h = rbind (event_value h) (\<lambda>v. Inr (js_path E v ''policy''))"

text \<open>A policy program that raises an exception denies the access.\<close>

definition execute_policy :: "bool result \<Rightarrow> bool" where
  "execute_policy r = (case r of Inr b \<Rightarrow> b | Inl e \<Rightarrow> False)"

definition check_object_policy ::
  "('d, 'z) ledger_env_scheme \<Rightarrow> 'd \<Rightarrow> op_context \<Rightarrow> string \<Rightarrow> string \<Rightarrow> string \<Rightarrow> OperationType \<Rightarrow> ledger \<Rightarrow> bool result" where
  "check_object_policy E policy ctx collection key path type l =
     (if \<not> context_valid ctx then Inr True
      else rbind (js_program E policy) (\<lambda>bs. Inr (execute_policy (run_object_policy E bs ctx collection key path type l))))"

partial_function (option) latest_version_from ::
  "('d, 'z) json_lib_scheme \<Rightarrow> ledger \<Rightarrow> event_id_t \<Rightarrow> 'd event_handle \<Rightarrow> (event_id_t \<times> 'd event_handle) result option" where
  "latest_version_from E l eid event =
     (if \<not> event_valid event then Some (Inr (eid, event))
      else case get_type event of
        Inl e \<Rightarrow> Some (Inl e)
      | Inr t \<Rightarrow>
          if t = NewVersion then Some (Inr (eid, event))
          else if t = Deletion then Some (Inr (INVALID_EVENT, None))
          else case rbind (predecessor_id (ev_shard eid) event) (\<lambda>eid'. rbind (get_event E eid' l) (\<lambda>event'. Inr (eid', event'))) of
            Inl e \<Rightarrow> Some (Inl e)
          | Inr (eid', event') \<Rightarrow> latest_version_from E l eid' event')"

definition get_latest_version ::
  "('d, 'z) ledger_env_scheme \<Rightarrow> op_context \<Rightarrow> string \<Rightarrow> string \<Rightarrow> string \<Rightarrow> OperationType \<Rightarrow> ledger \<Rightarrow>
     (event_id_t \<times> 'd event_handle) result option" where
  "get_latest_version E ctx collection key path access_type l =
     (case get_latest_event E collection key l of
        Inl e \<Rightarrow> Some (Inl e)
      | Inr (eid0, event0) \<Rightarrow>
          (case latest_version_from E l eid0 event0 of
             None \<Rightarrow> None
           | Some r \<Rightarrow> Some (rbind r (\<lambda>(eid, event).
               if \<not> event_valid event then Inr (eid, None)
               else rbind (get_policy E event) (\<lambda>policy.
                 if js_empty E policy then Inr (eid, event)
                 else rbind (check_object_policy E policy ctx collection key path access_type l) (\<lambda>ok.
                   Inr (eid, if ok then event else None)))))))"

definition has_object :: "('d, 'z) json_lib_scheme \<Rightarrow> string \<Rightarrow> string \<Rightarrow> ledger \<Rightarrow> bool result" where
  "has_object E collection key l =
     (case try_get_collection collection l of
        None \<Rightarrow> Inr False
      | Some col \<Rightarrow>
          (case c_primary col key of
             None \<Rightarrow> Inr False
           | Some eid \<Rightarrow> rbind (get_event E eid l) (\<lambda>h. rbind (get_type h) (\<lambda>t. Inr (t = NewVersion)))))"

definition get_transaction_ref :: "('d, 'z) json_lib_scheme \<Rightarrow> event_id_t \<Rightarrow> ledger \<Rightarrow> ledger_pos_t result" where
  "get_transaction_ref E eid l = rbind (get_event E eid l) transaction_ref"

section \<open>Object iterators\<close>

record 'd object_iterator =
  oi_context :: op_context
  oi_collection :: string
  oi_key :: string
  oi_path :: string
  oi_start :: "'d event_handle"
  oi_current_event :: "'d event_handle"
  oi_current_eid :: event_id_t

definition iterate ::
  "('d, 'z) ledger_env_scheme \<Rightarrow> op_context \<Rightarrow> string \<Rightarrow> string \<Rightarrow> string \<Rightarrow> ledger \<Rightarrow> 'd object_iterator result option" where
  "iterate E ctx collection key path l =
     (case get_latest_version E ctx collection key path GetObject l of
        None \<Rightarrow> None
      | Some r \<Rightarrow> Some (rbind r (\<lambda>(eid, start).
          Inr \<lparr>oi_context = ctx, oi_collection = collection, oi_key = key, oi_path = path, oi_start = start,
               oi_current_event = None, oi_current_eid = eid\<rparr>)))"

definition check_event :: "('d, 'z) ledger_env_scheme \<Rightarrow> ledger \<Rightarrow> 'd object_iterator \<Rightarrow> 'd event_handle \<Rightarrow> bool result" where
  "check_event E l it event =
     (if \<not> event_valid event then Inr False
      else rbind (get_type event) (\<lambda>t.
        if t = Deletion then Inr False
        else rbind (get_policy E event) (\<lambda>policy.
          if js_empty E policy then Inr True
          else check_object_policy E policy (oi_context it) (oi_collection it) (oi_key it) (oi_path it) GetObject l)))"

text \<open>
  The loop of \<open>next_handle\<close>: \<open>event\<close> is the event whose predecessor is read next. The result is the
  event identifier and the handle the call gives, with the iterator after it.
\<close>

partial_function (option) next_version_from ::
  "('d, 'z) ledger_env_scheme \<Rightarrow> ledger \<Rightarrow> shard_id_t \<Rightarrow> 'd object_iterator \<Rightarrow> 'd event_handle \<Rightarrow>
     ((event_id_t \<times> 'd event_handle) \<times> 'd object_iterator) result option" where
  "next_version_from E l s it event =
     (case has_predecessor event of
        Inl e \<Rightarrow> Some (Inl e)
      | Inr has \<Rightarrow>
          if \<not> has then Some (Inr ((oi_current_eid it, None), it\<lparr>oi_current_event := None\<rparr>))
          else case rbind (predecessor_id s event) (\<lambda>eid. rbind (get_event E eid l) (\<lambda>event'. Inr (eid, event'))) of
            Inl e \<Rightarrow> Some (Inl e)
          | Inr (eid, event') \<Rightarrow>
              let it1 = (if ev_block eid \<noteq> ev_block (oi_current_eid it) then it\<lparr>oi_current_eid := eid\<rparr> else it)
              in case rbind (check_event E l it1 event') (\<lambda>ok. if ok then rbind (get_type event') (\<lambda>t. Inr (Some t)) else Inr None) of
                   Inl e \<Rightarrow> Some (Inl e)
                 | Inr None \<Rightarrow> Some (Inr ((INVALID_EVENT, None), it1\<lparr>oi_current_eid := INVALID_EVENT\<rparr>))
                 | Inr (Some t) \<Rightarrow>
                     if t = NewVersion then Some (Inr ((oi_current_eid it1, event'), it1\<lparr>oi_current_event := event'\<rparr>))
                     else next_version_from E l s it1 event')"

definition next_handle ::
  "('d, 'z) ledger_env_scheme \<Rightarrow> ledger \<Rightarrow> 'd object_iterator \<Rightarrow>
     ((event_id_t \<times> 'd event_handle) \<times> 'd object_iterator) result option" where
  "next_handle E l it =
     (if \<not> event_valid (oi_current_event it) then
        let it1 = it\<lparr>oi_current_event := oi_start it\<rparr>
        in Some (rbind (check_event E l it1 (oi_start it)) (\<lambda>ok.
             if ok then Inr ((oi_current_eid it1, oi_start it), it1)
             else Inr ((INVALID_EVENT, None), it1\<lparr>oi_current_eid := INVALID_EVENT\<rparr>)))
      else case has_predecessor (oi_current_event it) of
        Inl e \<Rightarrow> Some (Inl e)
      | Inr has \<Rightarrow>
          if \<not> has then Some (Inr ((INVALID_EVENT, None), it))
          else next_version_from E l (get_shard (oi_collection it) (oi_key it)) it (oi_current_event it))"

definition event_value_at :: "('d, 'z) json_lib_scheme \<Rightarrow> string \<Rightarrow> 'd event_handle \<Rightarrow> 'd result" where
  "event_value_at E path h =
     (if path = [] then event_value h
      else rbind (rbind (field FIELD_VALUE h) as_document) (\<lambda>v. Inr (js_path E v path)))"

definition iterator_next ::
  "('d, 'z) ledger_env_scheme \<Rightarrow> ledger \<Rightarrow> 'd object_iterator \<Rightarrow>
     ((event_id_t \<times> 'd option) \<times> 'd object_iterator) result option" where
  "iterator_next E l it =
     (case next_handle E l it of
        None \<Rightarrow> None
      | Some r \<Rightarrow> Some (rbind r (\<lambda>((eid, hdl), it').
          if \<not> event_valid hdl then Inr ((eid, None), it')
          else rbind (event_value_at E (oi_path it') hdl) (\<lambda>v.
            if oi_path it' = [] \<or> js_valid E v then Inr ((eid, Some v), it') else Inr ((INVALID_EVENT, None), it')))))"

definition check_collection_policy ::
  "('d, 'z) ledger_env_scheme \<Rightarrow> op_context \<Rightarrow> string \<Rightarrow> string \<Rightarrow> string \<Rightarrow> OperationType \<Rightarrow> ledger \<Rightarrow> bool result option" where
  "check_collection_policy E ctx collection key path type l =
     (if \<not> context_valid ctx then Some (Inr True)
      else case iterate E empty_context collection ''policy'' [] l of
        None \<Rightarrow> None
      | Some (Inl e) \<Rightarrow> Some (Inl e)
      | Some (Inr it) \<Rightarrow>
          (case iterator_next E l it of
             None \<Rightarrow> None
           | Some r \<Rightarrow> Some (rbind r (\<lambda>((eid, v), it').
               if \<not> is_valid eid then Inr True
               else case v of
                      None \<Rightarrow> Inl JsonError
                    | Some policy \<Rightarrow> rbind (js_program E policy) (\<lambda>bs.
                        Inr (execute_policy (run_collection_policy E bs ctx collection key path type l)))))))"

definition prepare_write ::
  "('d, 'z) ledger_env_scheme \<Rightarrow> op_context \<Rightarrow> string \<Rightarrow> string \<Rightarrow> string \<Rightarrow> OperationType \<Rightarrow> ledger \<Rightarrow> bool result option" where
  "prepare_write E ctx collection key path op_type l =
     (if \<not> is_valid_key key then Some (Inr False)
      else check_collection_policy E ctx collection key path op_type l)"

section \<open>Operations on the history of an object\<close>

partial_function (option) count_from ::
  "('d, 'z) ledger_env_scheme \<Rightarrow> ledger \<Rightarrow> string \<Rightarrow> 'd object_iterator \<Rightarrow> u32 \<Rightarrow> u32 result option" where
  "count_from E l who it res =
     (case next_handle E l it of
        None \<Rightarrow> None
      | Some (Inl e) \<Rightarrow> Some (Inl e)
      | Some (Inr ((eid, hdl), it')) \<Rightarrow>
          if \<not> is_valid eid then Some (Inr res)
          else (case source hdl of
                  Inl e \<Rightarrow> Some (Inl e)
                | Inr src \<Rightarrow> count_from E l who it' (if src = who then res + 1 else res)))"

definition count_writes ::
  "('d, 'z) ledger_env_scheme \<Rightarrow> op_context \<Rightarrow> string \<Rightarrow> string \<Rightarrow> string \<Rightarrow> ledger \<Rightarrow> u32 result option" where
  "count_writes E ctx who collection key l =
     (case iterate E ctx collection key [] l of
        None \<Rightarrow> None
      | Some (Inl e) \<Rightarrow> Some (Inl e)
      | Some (Inr it) \<Rightarrow> count_from E l who it 0)"

text \<open>The newest value of an object, as every reader of an iterator obtains it.\<close>

definition first_value ::
  "('d, 'z) ledger_env_scheme \<Rightarrow> op_context \<Rightarrow> string \<Rightarrow> string \<Rightarrow> string \<Rightarrow> ledger \<Rightarrow> (event_id_t \<times> 'd option) result option" where
  "first_value E ctx collection key path l =
     (case iterate E ctx collection key path l of
        None \<Rightarrow> None
      | Some (Inl e) \<Rightarrow> Some (Inl e)
      | Some (Inr it) \<Rightarrow>
          (case iterator_next E l it of None \<Rightarrow> None | Some r \<Rightarrow> Some (rbind r (\<lambda>(out, it'). Inr out))))"

definition ledger_check ::
  "('d, 'z) ledger_env_scheme \<Rightarrow> op_context \<Rightarrow> string \<Rightarrow> string \<Rightarrow> string \<Rightarrow> 'd \<Rightarrow> ledger \<Rightarrow> bool result option" where
  "ledger_check E ctx collection key path predicate l =
     (case first_value E ctx collection key path l of
        None \<Rightarrow> None
      | Some r \<Rightarrow> Some (rbind r (\<lambda>(eid, v).
          if \<not> is_valid eid then Inr False
          else case v of None \<Rightarrow> Inl JsonError | Some d \<Rightarrow> Inr (js_matches E d predicate))))"

text \<open>\<open>diff\<close> collects the two versions while it walks back; what is computed from their values is up to the JSON library.\<close>

partial_function (option) find_two_versions ::
  "('d, 'z) ledger_env_scheme \<Rightarrow> ledger \<Rightarrow> version_number_t \<Rightarrow> version_number_t \<Rightarrow> 'd object_iterator \<Rightarrow> 'd event_handle \<Rightarrow>
     'd event_handle \<Rightarrow> ('d \<times> 'd) option result option" where
  "find_two_versions E l version1 version2 it hdl1 hdl2 =
     (if event_valid hdl1 \<and> event_valid hdl2
      then Some (rbind (event_value hdl1) (\<lambda>v1. rbind (event_value hdl2) (\<lambda>v2. Inr (Some (v1, v2)))))
      else case next_handle E l it of
        None \<Rightarrow> None
      | Some (Inl e) \<Rightarrow> Some (Inl e)
      | Some (Inr ((eid, h), it')) \<Rightarrow>
          if \<not> is_valid eid then Some (Inr None)
          else (case event_version h of
                  Inl e \<Rightarrow> Some (Inl e)
                | Inr v \<Rightarrow> find_two_versions E l version1 version2 it' (if v = version1 then h else hdl1) (if v = version2 then h else hdl2)))"

section \<open>Writing events\<close>

definition ledger_pending_block :: "shard_id_t \<Rightarrow> ledger \<Rightarrow> (page_no_t \<times> block) result" where
  "ledger_pending_block s l =
     rbind (shard_at s l) (\<lambda>sh. rbind (get_pending_block sh (m_blocks l)) (\<lambda>b. Inr (m_pending_block_id sh, b)))"

definition append_event ::
  "('d, 'z) json_lib_scheme \<Rightarrow> shard_id_t \<Rightarrow> 'd content \<Rightarrow> ledger \<Rightarrow> (event_id_t \<times> ledger) result" where
  "append_event E s event l =
     rbind (ledger_pending_block s l) (\<lambda>(page_no, b).
     rbind (block_insert (js_write E event) b) (\<lambda>(i, b').
     Inr (mk_event_id s page_no i, l\<lparr>m_blocks := put_page page_no b' (m_blocks l)\<rparr>)))"

definition insert_indexes :: "('d, 'z) json_lib_scheme \<Rightarrow> 'd \<Rightarrow> string \<Rightarrow> (string \<times> index) list \<Rightarrow> (string \<times> index) list" where
  "insert_indexes E doc key = map (\<lambda>(n, ix). (n, snd (index_insert E doc key ix)))"

definition replace_in_index :: "('d, 'z) json_lib_scheme \<Rightarrow> 'd \<Rightarrow> 'd \<Rightarrow> string \<Rightarrow> index \<Rightarrow> index" where
  "replace_in_index E old_val doc key ix =
     (if index_compare E old_val doc ix then ix
      else snd (index_insert E doc key (snd (index_remove E old_val key ix))))"

definition update_indexes ::
  "('d, 'z) json_lib_scheme \<Rightarrow> version_number_t \<Rightarrow> 'd event_handle \<Rightarrow> 'd \<Rightarrow> string \<Rightarrow> (string \<times> index) list \<Rightarrow>
     (string \<times> index) list result" where
  "update_indexes E version previous_version doc key ixs =
     rbind (if version = INITIAL_VERSION_NO then Inr (insert_indexes E doc key ixs)
            else if ixs = [] then Inr ixs
            else rbind (event_value previous_version) (\<lambda>old_val.
              Inr (map (\<lambda>(n, ix). (n, replace_in_index E old_val doc key ix)) ixs)))
       (\<lambda>ixs'. Inr (insert_indexes E doc key ixs'))"

definition put_next_version ::
  "('d, 'z) json_lib_scheme \<Rightarrow> op_context \<Rightarrow> string \<Rightarrow> string \<Rightarrow> 'd \<Rightarrow> version_number_t \<Rightarrow> event_id_t \<Rightarrow> 'd event_handle \<Rightarrow>
     ledger_pos_t \<Rightarrow> ledger \<Rightarrow> (event_id_t \<times> ledger) result" where
  "put_next_version E ctx collection key doc version previous_id previous_version tx l =
     (if \<not> context_valid ctx then Inl (RuntimeError ''Cannot modify using invalid identity'')
      else if \<not> js_valid E doc then Inr (INVALID_EVENT, l)
      else rbind (ledger_pending_block (get_shard collection key) l) (\<lambda>_.
        rbind (get_collection collection True l) (\<lambda>(col, l1).
        rbind (update_indexes E version previous_version doc key (c_secondary col)) (\<lambda>ixs.
        rbind (if event_valid previous_version
               then rbind (event_version previous_version) (\<lambda>v. Inr (v + 1)) else Inr INITIAL_VERSION_NO) (\<lambda>number.
        let (prev_block, prev_index) =
              (if version = INITIAL_VERSION_NO then (INVALID_BLOCK, 0) else (ev_block previous_id, ev_index previous_id));
            l2 = (if version = INITIAL_VERSION_NO then l1\<lparr>m_object_count := m_object_count l1 + 1\<rparr> else l1)
        in rbind (append_event E (get_shard collection key)
                    (new_version_event (context_to_string ctx) prev_block prev_index doc number tx) l2) (\<lambda>(eid, l3).
           let col' = col\<lparr>c_secondary := ixs, c_primary := (c_primary col)(key \<mapsto> eid)\<rparr>
           in Inr (eid, (set_collection collection col' l3)\<lparr>m_version_count := m_version_count l3 + 1\<rparr>)))))))"

definition put_tombstone ::
  "('d, 'z) json_lib_scheme \<Rightarrow> op_context \<Rightarrow> event_id_t \<Rightarrow> ledger_pos_t \<Rightarrow> ledger \<Rightarrow> (event_id_t \<times> ledger) result" where
  "put_tombstone E ctx previous_id tx l =
     (if \<not> context_valid ctx then Inl (RuntimeError ''Cannot modify using invalid identity'')
      else append_event E (ev_shard previous_id)
             (tombstone_event (context_to_string ctx) (ev_block previous_id) (ev_index previous_id) tx) l)"

definition organize_ledger :: "shard_id_t \<Rightarrow> ledger \<Rightarrow> ledger result" where
  "organize_ledger s l =
     rbind (shard_at s l) (\<lambda>sh.
     rbind (get_pending_block sh (m_blocks l)) (\<lambda>pending.
       if get_data_size pending < MIN_BLOCK_SIZE then Inr l
       else rbind (seal pending) (\<lambda>sealed_block.
         let (_, sh', st') = generate_block sh (put_page (m_pending_block_id sh) sealed_block (m_blocks l))
         in Inr ((set_shard s sh' l)\<lparr>m_blocks := st'\<rparr>))))"

text \<open>The write itself, once the previous version is known.\<close>

definition write_version ::
  "('d, 'z) ledger_env_scheme \<Rightarrow> op_context \<Rightarrow> string \<Rightarrow> string \<Rightarrow> 'd \<Rightarrow> string \<Rightarrow> OperationType \<Rightarrow> ledger_pos_t \<Rightarrow>
     version_number_t \<Rightarrow> event_id_t \<Rightarrow> 'd event_handle \<Rightarrow> ledger \<Rightarrow> (event_id_t \<times> ledger) result" where
  "write_version E ctx collection key to_write path op_type tx number previous_id previous_version l =
     (let put = (\<lambda>doc. put_next_version E ctx collection key doc number previous_id previous_version tx l)
      in if path \<noteq> [] \<and> \<not> event_valid previous_version then Inr (INVALID_EVENT, l)
         else if \<not> event_valid previous_version then
           (if op_type = RemoveObject then Inr (INVALID_EVENT, l) else put to_write)
         else
           rbind (event_value previous_version) (\<lambda>v.
           rbind (get_policy E previous_version) (\<lambda>policy.
           rbind (if js_empty E policy then Inr True
                  else check_object_policy E policy ctx collection key path op_type l) (\<lambda>ok.
             if \<not> ok then Inr (INVALID_EVENT, l)
             else if op_type = AddToObject then rbind (js_add E v path to_write) put
             else if op_type = PutObject then
               (if path = [] then put to_write else rbind (js_insert E v path to_write) put)
             else if op_type = RemoveObject then
               rbind (put_tombstone E ctx previous_id tx l) (\<lambda>(eid, l1).
               rbind (get_collection collection False l1) (\<lambda>(col, l2).
               let col' = col\<lparr>c_primary := (c_primary col)(key \<mapsto> eid)\<rparr>
               in Inr (eid, (set_collection collection col' l2)\<lparr>m_object_count := m_object_count l2 - 1\<rparr>)))
             else Inl (RuntimeError ''Can't write: unknown op_type'')))))"

text \<open>\<open>nested\<close>: the call runs under the lock handle of a transaction, which leaves the pending block as it is.\<close>

definition apply_write ::
  "('d, 'z) ledger_env_scheme \<Rightarrow> op_context \<Rightarrow> string \<Rightarrow> string \<Rightarrow> 'd \<Rightarrow> string \<Rightarrow> bool \<Rightarrow> OperationType \<Rightarrow> ledger_pos_t \<Rightarrow>
     ledger \<Rightarrow> (event_id_t \<times> ledger) result option" where
  "apply_write E ctx collection key to_write path nested op_type tx l =
     (let s = get_shard collection key
      in case get_latest_event E collection key l of
           Inl e \<Rightarrow> Some (Inl e)
         | Inr (previous_id, previous_event) \<Rightarrow>
             (case get_previous_version E s l previous_event of
                None \<Rightarrow> None
              | Some r \<Rightarrow> Some (rbind r (\<lambda>previous_version.
                  rbind (if event_valid previous_version
                         then rbind (event_version previous_version) (\<lambda>v. Inr (v + 1)) else Inr INITIAL_VERSION_NO) (\<lambda>number.
                  rbind (write_version E ctx collection key to_write path op_type tx number previous_id previous_version l) (\<lambda>(eid, l').
                  if nested then Inr (eid, l') else rbind (organize_ledger s l') (\<lambda>l''. Inr (eid, l''))))))))"

definition checked_write ::
  "('d, 'z) ledger_env_scheme \<Rightarrow> op_context \<Rightarrow> string \<Rightarrow> string \<Rightarrow> 'd \<Rightarrow> string \<Rightarrow> bool \<Rightarrow> OperationType \<Rightarrow> OperationType \<Rightarrow>
     ledger \<Rightarrow> (event_id_t \<times> ledger) result option" where
  "checked_write E ctx collection key to_write path nested checked_type op_type l =
     (case prepare_write E ctx collection key path checked_type l of
        None \<Rightarrow> None
      | Some (Inl e) \<Rightarrow> Some (Inl e)
      | Some (Inr ok) \<Rightarrow>
          if ok then apply_write E ctx collection key to_write path nested op_type INVALID_LEDGER_POS l
          else Some (Inr (INVALID_EVENT, l)))"

definition ledger_add where
  "ledger_add E ctx collection key to_add path nested l =
     checked_write E ctx collection key to_add path nested AddToObject AddToObject l"

definition ledger_put where
  "ledger_put E ctx collection key to_put path nested l =
     checked_write E ctx collection key to_put path nested PutObject PutObject l"

text \<open>\<open>remove\<close> asks the collection policy about an \<open>AddToObject\<close>; \<open>invalid_doc\<close> is the default-constructed document.\<close>

definition ledger_remove where
  "ledger_remove E ctx collection key invalid_doc nested l =
     checked_write E ctx collection key invalid_doc [] nested AddToObject RemoveObject l"

text \<open>Fresh keys come from the random number generator: \<open>keys n\<close> is the \<open>n\<close>-th key drawn.\<close>

partial_function (option) put_fresh_key ::
  "('d, 'z) json_lib_scheme \<Rightarrow> op_context \<Rightarrow> string \<Rightarrow> (nat \<Rightarrow> string) \<Rightarrow> 'd \<Rightarrow> nat \<Rightarrow> ledger \<Rightarrow>
     (event_id_t \<times> string \<times> ledger) result option" where
  "put_fresh_key E ctx collection keys to_put n l =
     (case get_latest_event E collection (keys n) l of
        Inl e \<Rightarrow> Some (Inl e)
      | Inr (prev_id, prev_hdl) \<Rightarrow>
          if event_valid prev_hdl then put_fresh_key E ctx collection keys to_put (Suc n) l
          else case put_next_version E ctx collection (keys n) to_put INITIAL_VERSION_NO prev_id prev_hdl INVALID_LEDGER_POS l of
            Inl e \<Rightarrow> Some (Inl e)
          | Inr (eid, l') \<Rightarrow>
              if eid = INVALID_EVENT then put_fresh_key E ctx collection keys to_put (Suc n) l'
              else Some (Inr (eid, keys n, l')))"

definition put_without_key ::
  "('d, 'z) json_lib_scheme \<Rightarrow> op_context \<Rightarrow> string \<Rightarrow> (nat \<Rightarrow> string) \<Rightarrow> 'd \<Rightarrow> bool \<Rightarrow> ledger \<Rightarrow>
     (event_id_t \<times> string \<times> ledger) result option" where
  "put_without_key E ctx collection keys to_put nested l =
     (case put_fresh_key E ctx collection keys to_put 0 l of
        None \<Rightarrow> None
      | Some r \<Rightarrow> Some (rbind r (\<lambda>(eid, key, l').
          if nested then Inr (eid, key, l')
          else rbind (organize_ledger (get_shard collection key) l') (\<lambda>l''. Inr (eid, key, l'')))))"

definition get_next_event_ids :: "event_id_t list \<Rightarrow> shard_id_t \<Rightarrow> u16 \<Rightarrow> ledger \<Rightarrow> event_id_t list result" where
  "get_next_event_ids out s num l =
     rbind (ledger_pending_block s l) (\<lambda>(page_no, pending).
     Inr (fold (\<lambda>i out. sset_insert event_less (mk_event_id s page_no (num_entries pending + word_of_nat i)) out)
            [0..<unat num] out))"

definition ledger_set_trigger :: "string \<Rightarrow> remote_party_id \<Rightarrow> ledger \<Rightarrow> ledger result" where
  "ledger_set_trigger name party l =
     rbind (get_collection name True l) (\<lambda>(c, l'). Inr (set_collection name (set_trigger party c) l'))"

definition ledger_unset_trigger :: "string \<Rightarrow> remote_party_id \<Rightarrow> ledger \<Rightarrow> bool \<times> ledger" where
  "ledger_unset_trigger name party l =
     (case try_get_collection name l of
        None \<Rightarrow> (False, l)
      | Some c \<Rightarrow> (True, set_collection name (unset_trigger party c) l))"

definition remove_triggers_for :: "remote_party_id \<Rightarrow> ledger \<Rightarrow> ledger" where
  "remove_triggers_for party l =
     l\<lparr>m_collections := (\<lambda>name. map_option (unset_trigger party) (m_collections l name))\<rparr>"

definition ledger_drop_index :: "string \<Rightarrow> string \<Rightarrow> ledger \<Rightarrow> (bool \<times> ledger) result" where
  "ledger_drop_index name index_name l =
     rbind (get_collection name False l) (\<lambda>(c, l'). let (ok, c') = drop_index index_name c in Inr (ok, set_collection name c' l'))"

end
