(* ===== verification/Ledger_Log.thy ===== *)
theory Ledger_Log
  imports Ledger
begin

text \<open>
  The ledger as an append-only log: when a ledger is well-formed, what it means that an event is stored
  under an identifier, and that appending an event and opening a new block keep every stored event.
\<close>

section \<open>Well-formed ledgers\<close>

text \<open>What is relied on of the JSON library to read events back: parsing a written array gives the array.\<close>

definition json_roundtrip :: "('d, 'z) json_lib_scheme \<Rightarrow> bool" where
  "json_roundtrip E \<longleftrightarrow> (\<forall>c. js_parse E (js_write E c) = Some c)"

definition holds_events :: "('d, 'z) json_lib_scheme \<Rightarrow> block \<Rightarrow> 'd content list \<Rightarrow> bool" where
  "holds_events E b cs \<longleftrightarrow> block_inv b (map (js_write E) cs)"

definition pending_id :: "ledger \<Rightarrow> nat \<Rightarrow> page_no_t" where
  "pending_id l s = m_pending_block_id (m_shards l ! s)"

definition ledger_wf :: "('d, 'z) json_lib_scheme \<Rightarrow> ledger \<Rightarrow> bool" where
  "ledger_wf E l \<longleftrightarrow>
     length (m_shards l) = NUM_SHARDS \<and> store_wf (m_blocks l) \<and>
     (\<forall>p b. pages (m_blocks l) p = Some b \<longrightarrow> p \<noteq> INVALID_BLOCK \<and> (\<exists>cs. holds_events E b cs)) \<and>
     inj_on (pending_id l) {..<NUM_SHARDS} \<and>
     (\<forall>s<NUM_SHARDS. \<exists>b. pages (m_blocks l) (pending_id l s) = Some b \<and> is_pending b)"

text \<open>\<open>stored E l eid c\<close>: the event \<open>c\<close> has been written under the identifier \<open>eid\<close>.\<close>

definition stored :: "('d, 'z) json_lib_scheme \<Rightarrow> ledger \<Rightarrow> event_id_t \<Rightarrow> 'd content \<Rightarrow> bool" where
  "stored E l eid c \<longleftrightarrow>
     unat (ev_shard eid) < NUM_SHARDS \<and>
     (\<exists>b cs. pages (m_blocks l) (ev_block eid) = Some b \<and>
        (ev_block eid = pending_id l (unat (ev_shard eid)) \<or> \<not> is_pending b) \<and>
        holds_events E b cs \<and> unat (ev_index eid) < length cs \<and> cs ! unat (ev_index eid) = c)"

definition extends :: "('d, 'z) json_lib_scheme \<Rightarrow> ledger \<Rightarrow> ledger \<Rightarrow> bool" where
  "extends E l l' \<longleftrightarrow> (\<forall>eid c. stored E l eid c \<longrightarrow> stored E l' eid c)"

lemma extends_refl [simp]: "extends E l l"
  by (simp add: extends_def)

lemma extends_trans [trans]: "extends E l l1 \<Longrightarrow> extends E l1 l2 \<Longrightarrow> extends E l l2"
  by (simp add: extends_def)

lemma holds_events_unique:
  assumes "json_roundtrip E" and "holds_events E b cs" and "holds_events E b cs'"
  shows "cs = cs'"
proof -
  have inj: "inj (js_write E)" using assms(1) unfolding json_roundtrip_def by (metis injI option.inject)
  have "map (js_write E) cs = map (js_write E) cs'"
    using assms(2,3) block_inv_unique unfolding holds_events_def by blast
  then show ?thesis using inj by (simp add: inj_map_eq_map)
qed

lemma ledger_wfD:
  assumes "ledger_wf E l"
  shows "length (m_shards l) = NUM_SHARDS" "store_wf (m_blocks l)" "inj_on (pending_id l) {..<NUM_SHARDS}"
    "pages (m_blocks l) p = Some b \<Longrightarrow> p \<noteq> INVALID_BLOCK \<and> p \<noteq> INVALID_PAGE_NO \<and> (\<exists>cs. holds_events E b cs)"
    "s < NUM_SHARDS \<Longrightarrow> \<exists>b. pages (m_blocks l) (pending_id l s) = Some b \<and> is_pending b"
  using assms page_valid [of "m_blocks l" p b] by (simp_all add: ledger_wf_def)

lemma stored_get_event:
  assumes rt: "json_roundtrip E" and wf: "ledger_wf E l" and st: "stored E l eid c"
  shows "get_event E eid l = Inr (Some c)"
proof -
  obtain b cs where b: "pages (m_blocks l) (ev_block eid) = Some b"
      "ev_block eid = pending_id l (unat (ev_shard eid)) \<or> \<not> is_pending b"
    and cs: "holds_events E b cs" "unat (ev_index eid) < length cs" "cs ! unat (ev_index eid) = c"
    using st unfolding stored_def by blast
  have s: "unat (ev_shard eid) < length (m_shards l)" using st wf by (simp add: stored_def ledger_wf_def)
  have "ev_block eid \<noteq> INVALID_PAGE_NO" using ledger_wfD(4) [OF wf b(1)] by simp
  then have "get_block (ev_block eid) (m_shards l ! unat (ev_shard eid)) (m_blocks l) = Inr b"
    using get_block_readable [of "m_blocks l" "ev_block eid" b "m_shards l ! unat (ev_shard eid)"] b
    by (simp add: pending_id_def)
  moreover have "block_get (ev_index eid) b = Inr (js_write E c)"
    using block_get_present [of b "map (js_write E) cs" "ev_index eid"] cs by (simp add: holds_events_def)
  ultimately show ?thesis
    using s rt by (simp add: get_event_def ledger_get_block_def shard_at_def json_roundtrip_def)
qed

lemma stored_valid: "ledger_wf E l \<Longrightarrow> stored E l eid c \<Longrightarrow> ev_block eid \<noteq> INVALID_BLOCK"
  unfolding ledger_wf_def stored_def by blast

lemma pending_id_cong: "m_shards l' = m_shards l \<Longrightarrow> pending_id l' = pending_id l"
  by (simp add: fun_eq_iff pending_id_def)

lemma stored_cong: "m_shards l' = m_shards l \<Longrightarrow> m_blocks l' = m_blocks l \<Longrightarrow> stored E l' = stored E l"
  by (simp add: fun_eq_iff stored_def pending_id_cong [of l' l])

lemma ledger_wf_cong: "m_shards l' = m_shards l \<Longrightarrow> m_blocks l' = m_blocks l \<Longrightarrow> ledger_wf E l' = ledger_wf E l"
  by (simp add: ledger_wf_def pending_id_cong [of l' l])

section \<open>Appending to the ledger\<close>

text \<open>The pending block of the shard can take an event of \<open>n\<close> bytes.\<close>

definition has_room :: "shard_id_t \<Rightarrow> nat \<Rightarrow> ledger \<Rightarrow> bool" where
  "has_room s n l =
     (case pages (m_blocks l) (pending_id l (unat s)) of
        None \<Rightarrow> False
      | Some b \<Rightarrow> unat (m_file_pos b) + 51 < 2 ^ 16 \<and> HEADER_SIZE + length (bl_data b) + n < DATA_LIMIT)"

text \<open>\<open>l'\<close> is \<open>l\<close> with one more entry, of \<open>n\<close> bytes, in the pending block of the shard.\<close>

definition grown :: "shard_id_t \<Rightarrow> nat \<Rightarrow> ledger \<Rightarrow> ledger \<Rightarrow> bool" where
  "grown s n l l' \<longleftrightarrow>
     m_shards l' = m_shards l \<and> m_next_page_no (m_blocks l') = m_next_page_no (m_blocks l) \<and>
     (\<exists>b b'. pages (m_blocks l) (pending_id l (unat s)) = Some b \<and>
        pages (m_blocks l') = (pages (m_blocks l))(pending_id l (unat s) \<mapsto> b') \<and>
        unat (m_file_pos b') = Suc (unat (m_file_pos b)) \<and> length (bl_data b') = length (bl_data b) + n)"

lemma grown_cong:
  "m_shards l1 = m_shards l \<Longrightarrow> m_blocks l1 = m_blocks l \<Longrightarrow> m_shards l2 = m_shards l' \<Longrightarrow> m_blocks l2 = m_blocks l' \<Longrightarrow>
   grown s n l1 l2 = grown s n l l'"
  by (simp add: grown_def pending_id_cong [of l1 l])

lemma get_shard_less: "unat (get_shard collection key) < NUM_SHARDS"
  by (simp add: get_shard_def NUM_SHARDS_def unat_mod)

lemma pending_block_eq:
  assumes "ledger_wf E l" and "unat s < NUM_SHARDS" and "pages (m_blocks l) (pending_id l (unat s)) = Some b"
  shows "ledger_pending_block s l = Inr (pending_id l (unat s), b)"
  using assms ledger_wfD(1,4) [OF assms(1)]
  by (simp add: ledger_pending_block_def shard_at_def get_pending_block_def get_page_def pending_id_def)

text \<open>Replacing the pending block of a shard by one that holds the same events and possibly more.\<close>

lemma ledger_wf_put_pending:
  assumes wf: "ledger_wf E l" and s: "s < NUM_SHARDS" and pend: "is_pending b'" and cs: "holds_events E b' cs'"
  shows "ledger_wf E (l\<lparr>m_blocks := put_page (pending_id l s) b' (m_blocks l)\<rparr>)"
proof -
  obtain b where b: "pages (m_blocks l) (pending_id l s) = Some b" "is_pending b"
    using ledger_wfD(5) [OF wf s] by blast
  have "store_wf (put_page (pending_id l s) b' (m_blocks l))"
    using store_wf_put_page [OF ledger_wfD(2) [OF wf]] b(1) by blast
  moreover have "pending_id (l\<lparr>m_blocks := put_page (pending_id l s) b' (m_blocks l)\<rparr>) = pending_id l"
    by (rule pending_id_cong) simp
  ultimately show ?thesis
    using wf b pend cs by (auto simp: ledger_wf_def)
qed

lemma stored_put_pending:
  assumes rt: "json_roundtrip E" and st: "stored E l eid c" and page: "pages (m_blocks l) p = Some b"
    and old: "holds_events E b cs" and new: "holds_events E b' (cs @ ds)" and pend: "is_pending b' \<Longrightarrow> is_pending b"
  shows "stored E (l\<lparr>m_blocks := put_page p b' (m_blocks l)\<rparr>) eid c"
proof -
  let ?l = "l\<lparr>m_blocks := put_page p b' (m_blocks l)\<rparr>"
  obtain d es where d: "pages (m_blocks l) (ev_block eid) = Some d" "unat (ev_shard eid) < NUM_SHARDS"
      "ev_block eid = pending_id l (unat (ev_shard eid)) \<or> \<not> is_pending d"
    and es: "holds_events E d es" "unat (ev_index eid) < length es" "es ! unat (ev_index eid) = c"
    using st unfolding stored_def by blast
  have pid: "pending_id ?l = pending_id l" by (rule pending_id_cong) simp
  show ?thesis
  proof (cases "ev_block eid = p")
    case True
    then have "d = b" "es = cs" using d(1) page es(1) old holds_events_unique [OF rt] by auto
    then show ?thesis
      using True d es new pend unfolding stored_def pid by (auto simp: nth_append intro!: exI [of _ "cs @ ds"])
  next
    case False
    then show ?thesis using d es unfolding stored_def pid by auto
  qed
qed

lemma append_event_correct:
  assumes rt: "json_roundtrip E" and wf: "ledger_wf E l" and s: "unat s < NUM_SHARDS"
    and room: "has_room s (length (js_write E event)) l"
  obtains eid l' where "append_event E s event l = Inr (eid, l')" "ledger_wf E l'" "extends E l l'"
    "stored E l' eid event" "ev_shard eid = s" "m_collections l' = m_collections l" "grown s (length (js_write E event)) l l'"
proof -
  let ?p = "pending_id l (unat s)"
  obtain b where b: "pages (m_blocks l) ?p = Some b" "is_pending b" using ledger_wfD(5) [OF wf s] by blast
  obtain cs where cs: "holds_events E b cs" using ledger_wfD(4) [OF wf b(1)] by blast
  have len: "length (map (js_write E) cs) + 51 < 2 ^ 16"
    and lim: "entry_offset (map (js_write E) cs @ [js_write E event]) (Suc (length (map (js_write E) cs))) < DATA_LIMIT"
    using room b(1) cs by (auto simp: has_room_def holds_events_def block_inv_def entry_offset_def)
  have unsealed: "\<not> bl_sealed b" using b(2) by (simp add: is_pending_def)
  obtain i b' where ins: "block_insert (js_write E event) b = Inr (i, b')" "unat i = length (map (js_write E) cs)"
      "block_inv b' (map (js_write E) cs @ [js_write E event])" "\<not> bl_sealed b'"
    by (rule block_insert_step [OF cs [unfolded holds_events_def] unsealed len lim])
  have b': "holds_events E b' (cs @ [event])" using ins(3) by (simp add: holds_events_def)
  let ?l = "l\<lparr>m_blocks := put_page ?p b' (m_blocks l)\<rparr>" and ?eid = "mk_event_id s ?p i"
  have wf': "ledger_wf E ?l"
    using ledger_wf_put_pending [OF wf s _ b'] ins(4) by (simp add: is_pending_def)
  have "extends E l ?l"
    using stored_put_pending [OF rt _ b(1) cs b'] b(2) by (simp add: extends_def)
  moreover have "stored E ?l ?eid event"
    using s b' ins(2) pending_id_cong [of ?l l] by (auto simp: stored_def mk_event_id_def nth_append)
  moreover have "append_event E s event l = Inr (?eid, ?l)"
    using pending_block_eq [OF wf s b(1)] ins(1) by (simp add: append_event_def)
  moreover have "grown s (length (js_write E event)) l ?l"
    using b(1) cs ins(3) by (auto simp: grown_def holds_events_def block_inv_def)
  ultimately show ?thesis using that [of ?eid ?l] wf' by (simp add: mk_event_id_def)
qed

lemma seal_pending:
  assumes "is_pending b" and "holds_events E b cs"
  shows "seal b = Inr (b\<lparr>bl_sealed := True\<rparr>)" "holds_events E (b\<lparr>bl_sealed := True\<rparr>) cs"
    "\<not> is_pending (b\<lparr>bl_sealed := True\<rparr>)"
  using assms by (simp_all add: seal_def is_pending_def holds_events_def block_inv_def)

lemma new_block_empty [simp]: "holds_events E new_block []" "is_pending new_block"
  using new_block_inv by (simp_all add: holds_events_def is_pending_def new_block_def)

text \<open>The ledger after \<open>organize_ledger\<close> replaced the pending block \<open>b\<close> of shard \<open>s\<close>.\<close>

definition reorganized :: "shard_id_t \<Rightarrow> block \<Rightarrow> ledger \<Rightarrow> ledger" where
  "reorganized s b l =
     l\<lparr>m_shards := (m_shards l)[unat s := (m_shards l ! unat s)\<lparr>m_pending_block := Some (m_next_page_no (m_blocks l)),
                                                          m_pending_block_id := m_next_page_no (m_blocks l)\<rparr>],
       m_blocks := snd (new_page new_block (put_page (pending_id l (unat s)) (b\<lparr>bl_sealed := True\<rparr>) (m_blocks l)))\<rparr>"

lemma pending_id_reorganized:
  "unat s < length (m_shards l) \<Longrightarrow> t < length (m_shards l) \<Longrightarrow>
   pending_id (reorganized s b l) t = (if t = unat s then m_next_page_no (m_blocks l) else pending_id l t)"
  by (simp add: pending_id_def reorganized_def nth_list_update)

lemma pages_reorganized:
  "pages (m_blocks (reorganized s b l)) =
     (pages (m_blocks l))(pending_id l (unat s) \<mapsto> b\<lparr>bl_sealed := True\<rparr>, m_next_page_no (m_blocks l) \<mapsto> new_block)"
  by (simp add: reorganized_def new_page_def)

lemma reorganized_fields [simp]:
  "length (m_shards (reorganized s b l)) = length (m_shards l)" "m_collections (reorganized s b l) = m_collections l"
  "m_next_page_no (m_blocks (reorganized s b l)) = m_next_page_no (m_blocks l) + 1"
  by (simp_all add: reorganized_def new_page_def)

lemma organize_ledger_eq:
  assumes wf: "ledger_wf E l" and s: "unat s < NUM_SHARDS" and b: "pages (m_blocks l) (pending_id l (unat s)) = Some b" "is_pending b"
  shows "organize_ledger s l = Inr (if get_data_size b < MIN_BLOCK_SIZE then l else reorganized s b l)"
proof -
  obtain cs where cs: "holds_events E b cs" using ledger_wfD(4) [OF wf b(1)] by blast
  have "get_pending_block (m_shards l ! unat s) (m_blocks l) = Inr b"
    using ledger_wfD(4) [OF wf b(1)] b(1) by (simp add: get_pending_block_def get_page_def pending_id_def)
  then show ?thesis
    using s ledger_wfD(1) [OF wf] seal_pending [OF b(2) cs]
    by (simp add: organize_ledger_def shard_at_def generate_block_def reorganized_def new_page_def Let_def set_shard_def pending_id_def)
qed

lemma reorganized_wf:
  assumes wf: "ledger_wf E l" and alloc: "can_allocate (m_blocks l)" and s: "unat s < NUM_SHARDS"
    and b: "pages (m_blocks l) (pending_id l (unat s)) = Some b" "is_pending b"
  shows "ledger_wf E (reorganized s b l)"
proof -
  let ?n = "m_next_page_no (m_blocks l)"
  note D = ledger_wfD [OF wf]
  obtain cs where cs: "holds_events E b cs" using D(4) [OF b(1)] by blast
  have fresh: "pages (m_blocks l) ?n = None" using next_fresh [OF D(2)] .
  have old: "pending_id l t \<noteq> ?n" if "t < NUM_SHARDS" for t using D(5) [OF that] fresh by auto
  have pos: "?n \<noteq> INVALID_BLOCK" using D(2) b(1) unfolding store_wf_def INVALID_BLOCK_def by auto
  have store: "store_wf (m_blocks (reorganized s b l))"
    using store_wf_new_page [of "put_page (pending_id l (unat s)) (b\<lparr>bl_sealed := True\<rparr>) (m_blocks l)"]
      store_wf_put_page [OF D(2)] alloc b(1) by (auto simp: reorganized_def)
  have pid: "pending_id (reorganized s b l) t = (if t = unat s then ?n else pending_id l t)" if "t < NUM_SHARDS" for t
    using pending_id_reorganized [of s l t b] that s D(1) by simp
  have inj: "inj_on (pending_id (reorganized s b l)) {..<NUM_SHARDS}"
    using D(3) old old [symmetric] pid unfolding inj_on_def by (auto split: if_splits)
  have pend: "\<exists>d. pages (m_blocks (reorganized s b l)) (pending_id (reorganized s b l) t) = Some d \<and> is_pending d"
    if t: "t < NUM_SHARDS" for t
  proof (cases "t = unat s")
    case False
    then have "pending_id l t \<noteq> pending_id l (unat s)" using D(3) s t by (auto simp: inj_on_def)
    then show ?thesis using False D(5) [OF t] old [OF t] pid [OF t] by (auto simp: pages_reorganized)
  qed (use pid [OF t] in \<open>simp add: pages_reorganized\<close>)
  have "p \<noteq> INVALID_BLOCK \<and> (\<exists>cs. holds_events E d cs)" if "pages (m_blocks (reorganized s b l)) p = Some d" for p d
    using that D(4) [of p d] D(4) [OF b(1)] pos seal_pending(2) [OF b(2) cs] new_block_empty(1) [of E]
    by (auto simp: pages_reorganized split: if_splits intro: exI [of _ "[]"])
  then show ?thesis using store inj pend D(1) unfolding ledger_wf_def by auto
qed

lemma reorganized_extends:
  assumes rt: "json_roundtrip E" and wf: "ledger_wf E l" and s: "unat s < NUM_SHARDS"
    and b: "pages (m_blocks l) (pending_id l (unat s)) = Some b" "is_pending b"
  shows "extends E l (reorganized s b l)"
  unfolding extends_def
proof (intro allI impI)
  fix eid c assume st: "stored E l eid c"
  let ?n = "m_next_page_no (m_blocks l)"
  obtain d es where d: "pages (m_blocks l) (ev_block eid) = Some d" "unat (ev_shard eid) < NUM_SHARDS"
      "ev_block eid = pending_id l (unat (ev_shard eid)) \<or> \<not> is_pending d"
    and es: "holds_events E d es" "unat (ev_index eid) < length es" "es ! unat (ev_index eid) = c"
    using st unfolding stored_def by blast
  have n: "ev_block eid \<noteq> ?n" using d(1) next_fresh [OF ledger_wfD(2) [OF wf]] by auto
  have pid: "pending_id (reorganized s b l) (unat (ev_shard eid)) = (if unat (ev_shard eid) = unat s then ?n else pending_id l (unat (ev_shard eid)))"
    using pending_id_reorganized [of s l "unat (ev_shard eid)" b] d(2) s ledger_wfD(1) [OF wf] by simp
  show "stored E (reorganized s b l) eid c"
  proof (cases "ev_block eid = pending_id l (unat s)")
    case True
    then have "d = b" using d(1) b(1) by simp
    then show ?thesis
      using True n d(2) es seal_pending(2,3) [OF b(2)] unfolding stored_def by (auto simp: pages_reorganized)
  next
    case False
    then show ?thesis using n d es pid unfolding stored_def by (auto simp: pages_reorganized)
  qed
qed

section \<open>Small pending blocks\<close>

text \<open>
  Between operations that run on their own, every pending block is below the size at which
  \<open>organize_ledger\<close> closes it; then it has room for any event below \<open>EVENT_LIMIT\<close> bytes.
\<close>

definition ledger_small :: "ledger \<Rightarrow> bool" where
  "ledger_small l \<longleftrightarrow>
     (\<forall>s<NUM_SHARDS. \<forall>b. pages (m_blocks l) (pending_id l s) = Some b \<longrightarrow> get_data_size b < MIN_BLOCK_SIZE)"

definition EVENT_LIMIT :: nat where "EVENT_LIMIT = 2 ^ 31"

lemma new_block_small: "get_data_size new_block < MIN_BLOCK_SIZE"
  by (simp add: get_data_size_def data_pos_def index_size_def new_block_def HEADER_SIZE_def ENTRY_SIZE_def MIN_BLOCK_SIZE_def)

text \<open>\<open>small_except S l\<close>: only the pending blocks of the shards in \<open>S\<close> may have outgrown the limit.\<close>

definition small_except :: "nat set \<Rightarrow> ledger \<Rightarrow> bool" where
  "small_except S l \<longleftrightarrow>
     (\<forall>t<NUM_SHARDS. t \<notin> S \<longrightarrow> (\<forall>b. pages (m_blocks l) (pending_id l t) = Some b \<longrightarrow> get_data_size b < MIN_BLOCK_SIZE))"

lemma organize_correct:
  assumes rt: "json_roundtrip E" and wf: "ledger_wf E l" and s: "unat s < NUM_SHARDS"
    and alloc: "can_allocate (m_blocks l)" and small: "small_except S l"
  obtains l' where "organize_ledger s l = Inr l'" "ledger_wf E l'" "extends E l l'" "small_except (S - {unat s}) l'"
    "m_collections l' = m_collections l" "unat (m_next_page_no (m_blocks l')) \<le> unat (m_next_page_no (m_blocks l)) + 1"
proof -
  obtain b where b: "pages (m_blocks l) (pending_id l (unat s)) = Some b" "is_pending b"
    using ledger_wfD(5) [OF wf s] by blast
  show ?thesis
  proof (cases "get_data_size b < MIN_BLOCK_SIZE")
    case True
    then have "small_except (S - {unat s}) l" using small b(1) by (auto simp: small_except_def)
    then show ?thesis using that [of l] organize_ledger_eq [OF wf s b] wf True by simp
  next
    case False
    let ?l = "reorganized s b l"
    have pid: "pending_id ?l t = (if t = unat s then m_next_page_no (m_blocks l) else pending_id l t)"
      if "t < NUM_SHARDS" for t
      using pending_id_reorganized [of s l t b] that s ledger_wfD(1) [OF wf] by simp
    have "small_except (S - {unat s}) ?l"
      unfolding small_except_def
    proof (intro allI impI)
      fix t d assume t: "t < NUM_SHARDS" and S: "t \<notin> S - {unat s}" and d: "pages (m_blocks ?l) (pending_id ?l t) = Some d"
      show "get_data_size d < MIN_BLOCK_SIZE"
      proof (cases "t = unat s")
        case True
        then show ?thesis using d pid [OF t] new_block_small by (simp add: pages_reorganized)
      next
        case False
        moreover have "pending_id l t \<noteq> pending_id l (unat s)"
          using ledger_wfD(3) [OF wf] False s t by (auto simp: inj_on_def)
        ultimately show ?thesis
          using d pid [OF t] small t S new_block_small by (auto simp: pages_reorganized small_except_def split: if_splits)
      qed
    qed
    moreover have "unat (m_next_page_no (m_blocks l) + 1) \<le> unat (m_next_page_no (m_blocks l)) + 1"
      by (simp add: unat_word_ariths)
    ultimately show ?thesis
      using that [of ?l] organize_ledger_eq [OF wf s b] False reorganized_wf [OF wf alloc s b] reorganized_extends [OF rt wf s b]
      by simp
  qed
qed

lemma small_except_empty: "small_except {} l = ledger_small l"
  by (simp add: small_except_def ledger_small_def)

lemma small_except_mono: "small_except S l \<Longrightarrow> S \<subseteq> T \<Longrightarrow> small_except T l"
  by (auto simp: small_except_def)

lemma pending_ids_differ:
  "ledger_wf E l \<Longrightarrow> t < NUM_SHARDS \<Longrightarrow> s < NUM_SHARDS \<Longrightarrow> t \<noteq> s \<Longrightarrow> pending_id l t \<noteq> pending_id l s"
  using ledger_wfD(3) [of E l] by (auto simp: inj_on_def)

lemma grown_small:
  assumes "ledger_wf E l" and "grown s n l l'" and "small_except S l" and "unat s < NUM_SHARDS"
  shows "small_except (insert (unat s) S) l'"
  using assms pending_ids_differ [OF assms(1), of _ "unat s"] pending_id_cong [of l' l]
  by (auto simp: grown_def small_except_def)

text \<open>
  \<open>room_for n B l\<close>: every pending block can take \<open>n\<close> more events of \<open>B\<close> bytes in total. A transaction writes
  all its events before the blocks are looked at again.
\<close>

definition room_for :: "nat \<Rightarrow> nat \<Rightarrow> ledger \<Rightarrow> bool" where
  "room_for n B l \<longleftrightarrow>
     (\<forall>s<NUM_SHARDS. \<forall>b. pages (m_blocks l) (pending_id l s) = Some b \<longrightarrow>
        unat (m_file_pos b) + n + 50 < 2 ^ 16 \<and> HEADER_SIZE + length (bl_data b) + B < DATA_LIMIT)"

lemma room_for_has_room:
  assumes "ledger_wf E l" and "room_for (Suc n) (k + B) l" and "unat s < NUM_SHARDS"
  shows "has_room s k l"
proof -
  obtain b where "pages (m_blocks l) (pending_id l (unat s)) = Some b" using ledger_wfD(5) [OF assms(1,3)] by blast
  then show ?thesis using assms(2,3) by (auto simp: has_room_def room_for_def)
qed

lemma room_for_less: "room_for n B l \<Longrightarrow> n' \<le> n \<Longrightarrow> B' \<le> B \<Longrightarrow> room_for n' B' l"
  by (fastforce simp: room_for_def)

lemma grown_room:
  assumes wf: "ledger_wf E l" and grown: "grown s k l l'" and room: "room_for (Suc n) (k + B) l" and s: "unat s < NUM_SHARDS"
  shows "room_for n B l'"
  unfolding room_for_def
proof (intro allI impI)
  fix t b assume t: "t < NUM_SHARDS" and b: "pages (m_blocks l') (pending_id l' t) = Some b"
  obtain d d' where d: "pages (m_blocks l) (pending_id l (unat s)) = Some d" and pid: "pending_id l' = pending_id l"
    and l': "pages (m_blocks l') = (pages (m_blocks l))(pending_id l (unat s) \<mapsto> d')"
      "unat (m_file_pos d') = Suc (unat (m_file_pos d))" "length (bl_data d') = length (bl_data d) + k"
    using grown pending_id_cong [of l' l] by (auto simp: grown_def)
  show "unat (m_file_pos b) + n + 50 < 2 ^ 16 \<and> HEADER_SIZE + length (bl_data b) + B < DATA_LIMIT"
  proof (cases "t = unat s")
    case True
    then show ?thesis using b d l' pid room s by (auto simp: room_for_def)
  next
    case False
    then have "pages (m_blocks l) (pending_id l t) = Some b" using b l'(1) pid pending_ids_differ [OF wf t s] by auto
    then show ?thesis using room t by (fastforce simp: room_for_def)
  qed
qed

lemma small_room_for:
  assumes wf: "ledger_wf E l" and small: "ledger_small l" and n: "n \<le> 64000" and B: "B < EVENT_LIMIT"
  shows "room_for n B l"
  unfolding room_for_def
proof (intro allI impI)
  fix s b assume s: "s < NUM_SHARDS" and b: "pages (m_blocks l) (pending_id l s) = Some b"
  obtain cs where cs: "holds_events E b cs" using ledger_wfD(4) [OF wf b] by blast
  have "get_data_size b < 5120" using small s b by (simp add: ledger_small_def MIN_BLOCK_SIZE_def)
  then have "4 * unat (bl_num_files b) + length (bl_data b) < 5120"
    by (simp add: get_data_size_def data_pos_def index_size_def ENTRY_SIZE_def HEADER_SIZE_def)
  moreover have "unat (m_file_pos b) < unat (bl_num_files b)" using cs by (simp add: holds_events_def block_inv_def)
  ultimately show "unat (m_file_pos b) + n + 50 < 2 ^ 16 \<and> HEADER_SIZE + length (bl_data b) + B < DATA_LIMIT"
    using n B by (simp add: HEADER_SIZE_def DATA_LIMIT_def EVENT_LIMIT_def)
qed

lemma small_has_room:
  assumes wf: "ledger_wf E l" and small: "ledger_small l" and s: "unat s < NUM_SHARDS" and n: "n < EVENT_LIMIT"
  shows "has_room s n l"
  using room_for_has_room [OF wf _ s, of 0 n 0] small_room_for [OF wf small, of 1 n] n by simp

section \<open>The new ledger\<close>

lemma generate_shards_spec:
  "unat (m_next_page_no st) + k < 2 ^ 32 \<Longrightarrow> generate_shards k st = (shs, st') \<Longrightarrow>
   length shs = k \<and> (\<forall>i<k. unat (m_pending_block_id (shs ! i)) = unat (m_next_page_no st) + i) \<and>
   pages st' = (\<lambda>p. if m_next_page_no st \<le> p \<and> unat p < unat (m_next_page_no st) + k then Some new_block else pages st p) \<and>
   unat (m_next_page_no st') = unat (m_next_page_no st) + k"
proof (induction k arbitrary: st shs)
  case (Suc k)
  let ?st = "snd (new_page new_block st)"
  obtain rest where rest: "generate_shards k ?st = (rest, st')" and shs: "m_pending_block_id (hd shs) = m_next_page_no st" "tl shs = rest" "shs \<noteq> []"
    using Suc.prems(2) by (auto simp: generate_block_def new_page_def Let_def split: prod.splits)
  have n: "unat (m_next_page_no ?st) = Suc (unat (m_next_page_no st))"
    using Suc.prems(1) by (simp add: new_page_def unat_word_ariths)
  have len: "length rest = k" and ids: "unat (m_pending_block_id (rest ! i)) = Suc (unat (m_next_page_no st)) + i" if "i < k" for i
    using Suc.IH [OF _ rest] n Suc.prems(1) that by auto
  have IH: "length rest = k" "unat (m_next_page_no st') = Suc (unat (m_next_page_no st)) + k"
    "pages st' = (\<lambda>p. if m_next_page_no ?st \<le> p \<and> unat p < Suc (unat (m_next_page_no st)) + k then Some new_block else pages ?st p)"
    using Suc.IH [OF _ rest] n Suc.prems(1) by auto
  have cons: "shs = hd shs # rest" using shs by (cases shs) auto
  have "unat (m_pending_block_id (shs ! i)) = unat (m_next_page_no st) + i" if "i < Suc k" for i
    using that ids shs(1) by (subst cons) (cases i, simp_all)
  moreover have "pages st' = (\<lambda>p. if m_next_page_no st \<le> p \<and> unat p < unat (m_next_page_no st) + Suc k then Some new_block else pages st p)"
  proof
    fix p
    have "pages ?st p = (if p = m_next_page_no st then Some new_block else pages st p)" by (simp add: new_page_def)
    moreover have "m_next_page_no ?st \<le> p \<longleftrightarrow> m_next_page_no st \<le> p \<and> p \<noteq> m_next_page_no st"
      unfolding word_le_nat_alt n by (auto simp: le_less Suc_le_eq word_unat_eq_iff)
    ultimately show "pages st' p = (if m_next_page_no st \<le> p \<and> unat p < unat (m_next_page_no st) + Suc k then Some new_block else pages st p)"
      using IH(3) by auto
  qed
  moreover have "length shs = Suc k" using IH(1) by (subst cons) simp
  ultimately show ?case using IH(2) by simp
qed (auto simp: word_le_nat_alt fun_eq_iff)

definition first_store :: block_store where
  "first_store = \<lparr>pages = (\<lambda>_. None), m_next_page_no = 1\<rparr>"

lemma new_ledger_correct:
  shows "ledger_wf E (new_ledger first_store)" and "ledger_small (new_ledger first_store)"
    and "m_collections (new_ledger first_store) = (\<lambda>_. None)"
    and "unat (m_next_page_no (m_blocks (new_ledger first_store))) = 65"
proof -
  obtain shs st where g: "generate_shards 64 first_store = (shs, st)" by fastforce
  let ?l = "new_ledger first_store"
  have l: "m_shards ?l = shs" "m_blocks ?l = st" "m_collections ?l = (\<lambda>_. None)"
    using g by (simp_all add: new_ledger_def NUM_SHARDS_def)
  have spec: "length shs = 64" "\<And>i. i < 64 \<Longrightarrow> unat (m_pending_block_id (shs ! i)) = 1 + i"
    "pages st = (\<lambda>p. if 1 \<le> p \<and> unat p < 65 then Some new_block else None)" "unat (m_next_page_no st) = 65"
    using generate_shards_spec [OF _ g] by (auto simp: first_store_def)
  have pid: "unat (pending_id ?l i) = 1 + i" if "i < 64" for i
    using spec(2) [OF that] l(1) by (simp add: pending_id_def)
  have pend: "pages (m_blocks ?l) (pending_id ?l i) = Some new_block" if "i < 64" for i
    using pid [OF that] that by (simp add: l(2) spec(3) word_le_nat_alt)
  have inj: "inj_on (pending_id ?l) {..<64}"
    using pid by (metis add_left_cancel inj_onI lessThan_iff)
  have pages: "p \<noteq> INVALID_BLOCK \<and> b = new_block \<and> p < m_next_page_no st" if "pages (m_blocks ?l) p = Some b" for p b
    using that spec(4) by (auto simp: l(2) spec(3) INVALID_BLOCK_def word_less_nat_alt split: if_splits)
  then have store: "store_wf st" unfolding store_wf_def by (metis domD l(2))
  have events: "\<exists>cs. holds_events E b cs" if "pages (m_blocks ?l) p = Some b" for p b
    using pages [OF that] new_block_empty(1) [of E] by blast
  show "ledger_wf E ?l"
    unfolding ledger_wf_def NUM_SHARDS_def
    using spec(1) l store inj pages events pend by auto
  show "ledger_small ?l" using pages new_block_small unfolding ledger_small_def by blast
  show "m_collections ?l = (\<lambda>_. None)" "unat (m_next_page_no (m_blocks ?l)) = 65" using l spec(4) by simp_all
qed

end
