(* ===== verification/Ledger_Objects.thy ===== *)
theory Ledger_Objects
  imports Ledger_Log
begin

text \<open>
  The ledger as a store of versioned objects: an object is the list of its versions, newest first, each
  with the identity that wrote it. A deleted object has no versions, and a new object under its key
  starts over. The theory shows that the ledger implements this store.
\<close>

section \<open>Objects in the ledger\<close>

type_synonym 'd versions = "(string \<times> 'd) list"
type_synonym 'd objects = "string \<Rightarrow> string \<Rightarrow> 'd versions"

primrec version_chain :: "('d, 'z) json_lib_scheme \<Rightarrow> ledger \<Rightarrow> shard_id_t \<Rightarrow> 'd content \<Rightarrow> 'd versions \<Rightarrow> bool" where
  "version_chain E l s c [] \<longleftrightarrow> False"
| "version_chain E l s c (v # vs) \<longleftrightarrow>
     (\<exists>pb pi tx. c = new_version_event (fst v) pb pi (snd v) (word_of_nat (Suc (length vs))) tx) \<and>
     (if vs = [] then has_predecessor (Some c) = Inr False
      else \<exists>eid c'. has_predecessor (Some c) = Inr True \<and> predecessor_id s (Some c) = Inr eid \<and> stored E l eid c' \<and>
             version_chain E l s c' vs)"

definition lookup :: "ledger \<Rightarrow> string \<Rightarrow> string \<Rightarrow> event_id_t option" where
  "lookup l collection key = (case m_collections l collection of None \<Rightarrow> None | Some c \<Rightarrow> c_primary c key)"

definition is_tombstone :: "'d content \<Rightarrow> bool" where
  "is_tombstone c \<longleftrightarrow> (\<exists>src pb pi tx. c = tombstone_event src pb pi tx)"

definition object_rep :: "('d, 'z) json_lib_scheme \<Rightarrow> ledger \<Rightarrow> string \<Rightarrow> string \<Rightarrow> 'd versions \<Rightarrow> bool" where
  "object_rep E l collection key vs \<longleftrightarrow>
     (case lookup l collection key of
        None \<Rightarrow> vs = []
      | Some eid \<Rightarrow> key \<noteq> [] \<and> ev_shard eid = get_shard collection key \<and>
          (\<exists>c. stored E l eid c \<and> (if vs = [] then is_tombstone c else version_chain E l (get_shard collection key) c vs)))"

text \<open>
  \<open>ledger_holds\<close>: the ledger holds these objects, possibly in the middle of a transaction.
  \<open>ledger_rep\<close>: and, as between operations, no pending block has outgrown its size.
\<close>

definition ledger_holds :: "('d, 'z) json_lib_scheme \<Rightarrow> ledger \<Rightarrow> 'd objects \<Rightarrow> bool" where
  "ledger_holds E l H \<longleftrightarrow>
     json_roundtrip E \<and> ledger_wf E l \<and> (\<forall>collection key. object_rep E l collection key (H collection key))"

definition ledger_rep :: "('d, 'z) json_lib_scheme \<Rightarrow> ledger \<Rightarrow> 'd objects \<Rightarrow> bool" where
  "ledger_rep E l H \<longleftrightarrow>
     json_roundtrip E \<and> ledger_wf E l \<and> ledger_small l \<and> (\<forall>collection key. object_rep E l collection key (H collection key))"

lemma ledger_rep_holds: "ledger_rep E l H \<Longrightarrow> ledger_holds E l H"
  by (simp add: ledger_rep_def ledger_holds_def)

lemma ledger_rep_iff: "ledger_rep E l H \<longleftrightarrow> ledger_holds E l H \<and> ledger_small l"
  by (auto simp: ledger_rep_def ledger_holds_def)

lemma version_chain_extends: "version_chain E l s c vs \<Longrightarrow> extends E l l' \<Longrightarrow> version_chain E l' s c vs"
proof (induction vs arbitrary: c)
  case (Cons v vs)
  then show ?case unfolding version_chain.simps extends_def by (cases "vs = []") (simp, metis (no_types))
qed simp

lemma object_rep_extends:
  "object_rep E l collection key vs \<Longrightarrow> extends E l l' \<Longrightarrow> lookup l' collection key = lookup l collection key \<Longrightarrow>
   object_rep E l' collection key vs"
proof (cases "lookup l collection key")
  case (Some eid)
  assume rep: "object_rep E l collection key vs" and ext: "extends E l l'"
    and same: "lookup l' collection key = lookup l collection key"
  obtain c where c: "key \<noteq> []" "ev_shard eid = get_shard collection key" "stored E l eid c"
    "if vs = [] then is_tombstone c else version_chain E l (get_shard collection key) c vs"
    using rep Some by (auto simp: object_rep_def)
  have "stored E l' eid c" using c(3) ext by (simp add: extends_def)
  moreover have "if vs = [] then is_tombstone c else version_chain E l' (get_shard collection key) c vs"
    using c(4) version_chain_extends [OF _ ext] by simp
  ultimately show ?thesis using Some same c(1,2) unfolding object_rep_def by auto
qed (simp add: object_rep_def)

lemma version_chainD:
  assumes "version_chain E l s c vs"
  shows "vs \<noteq> []" "get_type (Some c) = Inr NewVersion" "event_value (Some c) = Inr (snd (hd vs))"
    "event_version (Some c) = Inr (word_of_nat (length vs))" "source (Some c) = Inr (fst (hd vs))"
  using assms by (cases vs; auto simp: event_simps)+

section \<open>Reading objects\<close>

lemma latest_event_absent:
  "object_rep E l collection key vs \<Longrightarrow> lookup l collection key = None \<Longrightarrow>
   get_latest_event E collection key l = Inr (INVALID_EVENT, None)"
  by (auto simp: get_latest_event_def lookup_def try_get_collection_def split: option.splits)

lemma latest_event_present:
  assumes "json_roundtrip E" and "ledger_wf E l" and "lookup l collection key = Some eid" and "key \<noteq> []" and "stored E l eid c"
  shows "get_latest_event E collection key l = Inr (eid, Some c)"
  using assms stored_get_event [OF assms(1,2,5)]
  by (auto simp: get_latest_event_def lookup_def try_get_collection_def split: option.splits)

text \<open>The three situations in which an operation finds an object.\<close>

lemma object_cases_holds:
  assumes rep: "ledger_holds E l H"
  obtains
    (absent) "H collection key = []" "lookup l collection key = None" "get_latest_event E collection key l = Inr (INVALID_EVENT, None)"
  | (deleted) eid c where "H collection key = []" "key \<noteq> []" "lookup l collection key = Some eid" "ev_shard eid = get_shard collection key"
      "get_latest_event E collection key l = Inr (eid, Some c)" "get_type (Some c) = Inr Deletion"
  | (live) eid c where "H collection key \<noteq> []" "key \<noteq> []" "lookup l collection key = Some eid" "ev_shard eid = get_shard collection key"
      "get_latest_event E collection key l = Inr (eid, Some c)" "stored E l eid c"
      "version_chain E l (get_shard collection key) c (H collection key)"
proof -
  have rt: "json_roundtrip E" and wf: "ledger_wf E l" and obj: "object_rep E l collection key (H collection key)"
    using rep by (auto simp: ledger_holds_def)
  show ?thesis
  proof (cases "lookup l collection key")
    case None
    then show ?thesis using absent latest_event_absent [OF obj None] obj by (simp add: object_rep_def)
  next
    case (Some eid)
    then obtain c where c: "key \<noteq> []" "ev_shard eid = get_shard collection key" "stored E l eid c"
      "if H collection key = [] then is_tombstone c else version_chain E l (get_shard collection key) c (H collection key)"
      using obj by (auto simp: object_rep_def)
    note ev = latest_event_present [OF rt wf Some c(1,3)]
    show ?thesis
    proof (cases "H collection key = []")
      case True
      then show ?thesis using deleted [OF True c(1) Some c(2) ev] c(4) by (auto simp: is_tombstone_def event_simps)
    next
      case False
      then show ?thesis using live [OF False c(1) Some c(2) ev c(3)] c(4) by simp
    qed
  qed
qed

lemmas object_cases = object_cases_holds [OF ledger_rep_holds, consumes 1, case_names absent deleted live]

lemma previous_version_simps:
  "get_previous_version E s l None = Some (Inr None)"
  "get_type (Some c) = Inr Deletion \<Longrightarrow> get_previous_version E s l (Some c) = Some (Inr None)"
  "get_type (Some c) = Inr NewVersion \<Longrightarrow> get_previous_version E s l (Some c) = Some (Inr (Some c))"
  by (simp_all add: get_previous_version.simps [of E s l])

lemma latest_version_from_simps:
  "latest_version_from E l eid None = Some (Inr (eid, None))"
  "get_type (Some c) = Inr Deletion \<Longrightarrow> latest_version_from E l eid (Some c) = Some (Inr (INVALID_EVENT, None))"
  "get_type (Some c) = Inr NewVersion \<Longrightarrow> latest_version_from E l eid (Some c) = Some (Inr (eid, Some c))"
  by (simp_all add: latest_version_from.simps [of E l eid])

text \<open>The current value of an object has no policy of its own.\<close>

definition no_policy :: "('d, 'z) json_lib_scheme \<Rightarrow> 'd versions \<Rightarrow> bool" where
  "no_policy E vs \<longleftrightarrow> (case vs of [] \<Rightarrow> True | v # _ \<Rightarrow> js_empty E (js_path E (snd v) ''policy''))"

lemma get_latest_version_holds:
  assumes rep: "ledger_holds E l H" and np: "no_policy E (H collection key)"
  shows "if H collection key = [] then \<exists>eid. get_latest_version E ctx collection key path t l = Some (Inr (eid, None)) \<and> \<not> is_valid eid
     else \<exists>eid c. get_latest_version E ctx collection key path t l = Some (Inr (eid, Some c)) \<and>
       lookup l collection key = Some eid \<and> stored E l eid c \<and> version_chain E l (get_shard collection key) c (H collection key)"
  using rep
proof (cases rule: object_cases_holds [where collection = collection and key = key])
  case absent
  then show ?thesis
    by (simp add: get_latest_version_def latest_version_from_simps INVALID_EVENT_def is_valid_def mk_event_id_def)
next
  case (deleted eid c)
  then show ?thesis
    by (simp add: get_latest_version_def latest_version_from_simps INVALID_EVENT_def is_valid_def mk_event_id_def)
next
  case (live eid c)
  note V = version_chainD [OF live(7)]
  have "js_empty E (js_path E (snd (hd (H collection key))) ''policy'')"
    using np live(1) by (cases "H collection key") (simp_all add: no_policy_def)
  then show ?thesis using live V by (simp add: get_latest_version_def latest_version_from_simps get_policy_def)
qed

lemmas get_latest_version_correct = get_latest_version_holds [OF ledger_rep_holds]

lemma has_object_holds:
  assumes rep: "ledger_holds E l H"
  shows "has_object E collection key l = Inr (H collection key \<noteq> [])"
proof -
  have rt: "json_roundtrip E" and wf: "ledger_wf E l" and obj: "object_rep E l collection key (H collection key)"
    using rep by (auto simp: ledger_holds_def)
  show ?thesis
  proof (cases "lookup l collection key")
    case None
    then show ?thesis using obj by (auto simp: has_object_def object_rep_def lookup_def try_get_collection_def split: option.splits)
  next
    case (Some eid)
    then obtain c where c: "stored E l eid c"
      "if H collection key = [] then is_tombstone c else version_chain E l (get_shard collection key) c (H collection key)"
      using obj by (auto simp: object_rep_def)
    have "get_type (Some c) = Inr (if H collection key = [] then Deletion else NewVersion)"
      using c(2) version_chainD(2) by (auto simp: is_tombstone_def event_simps split: if_splits)
    then show ?thesis
      using Some stored_get_event [OF rt wf c(1)]
      by (auto simp: has_object_def lookup_def try_get_collection_def split: option.splits)
  qed
qed

lemmas has_object_correct = has_object_holds [OF ledger_rep_holds]

section \<open>Writing objects\<close>

text \<open>
  The versions after a write. Version numbers have 32 bits; when they wrap around to the initial number,
  the ledger takes the new version for a new object.
\<close>

definition put_version :: "string \<times> 'd \<Rightarrow> 'd versions \<Rightarrow> 'd versions" where
  "put_version v vs = (if (word_of_nat (Suc (length vs)) :: version_number_t) = INITIAL_VERSION_NO then [v] else v # vs)"

text \<open>The ledger \<open>l'\<close> has one more stored event, \<open>eid\<close>, as the latest event of the object.\<close>

definition object_updated ::
  "('d, 'z) json_lib_scheme \<Rightarrow> string \<Rightarrow> string \<Rightarrow> event_id_t \<Rightarrow> 'd content \<Rightarrow> ledger \<Rightarrow> ledger \<Rightarrow> bool" where
  "object_updated E collection key eid c l l' \<longleftrightarrow>
     ledger_wf E l' \<and> extends E l l' \<and> stored E l' eid c \<and> ev_shard eid = get_shard collection key \<and>
     grown (get_shard collection key) (length (js_write E c)) l l' \<and>
     (\<forall>collection' key'. lookup l' collection' key' =
        (if collection' = collection \<and> key' = key then Some eid else lookup l collection' key'))"

lemma small_except_cong:
  "m_shards l' = m_shards l \<Longrightarrow> m_blocks l' = m_blocks l \<Longrightarrow> small_except s l' = small_except s l"
  by (simp add: small_except_def pending_id_cong [of l' l])

lemma ledger_small_cong:
  "m_shards l' = m_shards l \<Longrightarrow> m_blocks l' = m_blocks l \<Longrightarrow> ledger_small l' = ledger_small l"
  by (simp add: ledger_small_def pending_id_cong [of l' l])

lemma object_updatedI:
  assumes s: "s = get_shard collection key"
    and app: "ledger_wf E l3" "extends E l2 l3" "stored E l3 eid c" "ev_shard eid = s" "grown s (length (js_write E c)) l2 l3"
    and l2: "m_shards l2 = m_shards l" "m_blocks l2 = m_blocks l" and l4: "m_shards l4 = m_shards l3" "m_blocks l4 = m_blocks l3"
    and cols: "m_collections l4 = (m_collections l)(collection \<mapsto> col)"
    and col: "c_primary col = (\<lambda>k. if k = key then Some eid else lookup l collection k)"
  shows "object_updated E collection key eid c l l4"
proof -
  have "lookup l4 collection' key' = (if collection' = collection \<and> key' = key then Some eid else lookup l collection' key')"
    for collection' key'
    using col unfolding lookup_def cols by auto
  moreover have "grown s (length (js_write E c)) l l4" using app(5) by (simp only: grown_cong [OF l2 [symmetric] l4])
  moreover have "extends E l l4"
    using app(2) stored_cong [OF l2, of E] stored_cong [OF l4, of E] by (simp add: extends_def)
  ultimately show ?thesis
    using app stored_cong [OF l4, of E] ledger_wf_cong [OF l4, of E] s by (simp add: object_updated_def)
qed

lemma update_indexes_ok:
  "version = INITIAL_VERSION_NO \<or> event_value previous_version = Inr v \<Longrightarrow>
   \<exists>ixs'. update_indexes E version previous_version doc key ixs = Inr ixs'"
  by (auto simp: update_indexes_def)

text \<open>The event that \<open>put_next_version\<close> writes.\<close>

definition next_event :: "string \<Rightarrow> 'd \<Rightarrow> version_number_t \<Rightarrow> event_id_t \<Rightarrow> ledger_pos_t \<Rightarrow> 'd content" where
  "next_event src doc version previous_id tx =
     (if version = INITIAL_VERSION_NO then new_version_event src INVALID_BLOCK 0 doc version tx
      else new_version_event src (ev_block previous_id) (ev_index previous_id) doc version tx)"

lemma next_event_form: "\<exists>pb pi. next_event src doc version pid tx = new_version_event src pb pi doc version tx"
  unfolding next_event_def by (metis (full_types))

lemma put_next_version_correct:
  assumes rt: "json_roundtrip E" and wf: "ledger_wf E l"
    and ctx: "context_valid ctx" and doc: "js_valid E doc"
    and prev: "(if event_valid pv then event_version pv = Inr n \<and> version = n + 1 \<and> event_value pv = Inr old
                else version = INITIAL_VERSION_NO)"
    and room: "has_room (get_shard collection key) (length (js_write E (next_event (context_to_string ctx) doc version pid tx))) l"
  obtains eid l' where "put_next_version E ctx collection key doc version pid pv tx l = Inr (eid, l')"
    "object_updated E collection key eid (next_event (context_to_string ctx) doc version pid tx) l l'"
proof -
  let ?s = "get_shard collection key" and ?c = "next_event (context_to_string ctx) doc version pid tx"
  obtain col l1 where col: "get_collection collection True l = Inr (col, l1)" "m_shards l1 = m_shards l" "m_blocks l1 = m_blocks l"
    "c_primary col = lookup l collection" "\<And>x. (m_collections l1)(collection := x) = (m_collections l)(collection := x)"
    by (cases "m_collections l collection")
      (auto simp: get_collection_def set_collection_def new_collection_def lookup_def fun_eq_iff)
  define l2 where "l2 = (if version = INITIAL_VERSION_NO then l1\<lparr>m_object_count := m_object_count l1 + 1\<rparr> else l1)"
  have l2: "m_shards l2 = m_shards l" "m_blocks l2 = m_blocks l" "m_collections l2 = m_collections l1"
    using col(2,3) by (simp_all add: l2_def)
  have wf2: "ledger_wf E l2" and room2: "has_room ?s (length (js_write E ?c)) l2"
    using wf room ledger_wf_cong [OF l2(1,2), of E] pending_id_cong [OF l2(1)] l2(2) by (simp_all add: has_room_def)
  obtain eid l3 where app: "append_event E ?s ?c l2 = Inr (eid, l3)" and wf3: "ledger_wf E l3" and ext: "extends E l2 l3"
    and st: "stored E l3 eid ?c" and sh: "ev_shard eid = ?s" and cols: "m_collections l3 = m_collections l2"
    and gr: "grown ?s (length (js_write E ?c)) l2 l3"
    by (rule append_event_correct [OF rt wf2 get_shard_less room2])
  obtain ixs where ixs: "update_indexes E version pv doc key (c_secondary col) = Inr ixs"
    using update_indexes_ok prev by (metis (no_types))
  obtain b where b: "pages (m_blocks l) (pending_id l (unat ?s)) = Some b" using ledger_wfD(5) [OF wf get_shard_less] by blast
  define l4 where "l4 = (set_collection collection (col\<lparr>c_secondary := ixs, c_primary := (c_primary col)(key \<mapsto> eid)\<rparr>) l3)
    \<lparr>m_version_count := m_version_count l3 + 1\<rparr>"
  have l4: "m_shards l4 = m_shards l3" "m_blocks l4 = m_blocks l3"
    "m_collections l4 = (m_collections l)(collection \<mapsto> col\<lparr>c_secondary := ixs, c_primary := (c_primary col)(key \<mapsto> eid)\<rparr>)"
    using col(5) cols l2(3) by (simp_all add: l4_def set_collection_def)
  have number: "(if event_valid pv then rbind (event_version pv) (\<lambda>v. Inr (v + 1)) else Inr INITIAL_VERSION_NO) = Inr version"
    using prev by (simp split: if_splits)
  have "put_next_version E ctx collection key doc version pid pv tx l = Inr (eid, l4)"
    using ctx doc pending_block_eq [OF wf get_shard_less b] col(1) ixs number app
    by (simp add: put_next_version_def next_event_def Let_def l2_def l4_def split: if_splits)
  moreover have "object_updated E collection key eid ?c l l4"
    by (rule object_updatedI [OF refl wf3 ext st sh gr l2(1,2) l4]) (auto simp: col(4))
  ultimately show ?thesis by (rule that)
qed

definition set_object :: "string \<Rightarrow> string \<Rightarrow> 'd versions \<Rightarrow> 'd objects \<Rightarrow> 'd objects" where
  "set_object collection key vs H = H(collection := (H collection)(key := vs))"

lemma set_object_same [simp]: "set_object collection key (H collection key) H = H"
  by (simp add: set_object_def)

text \<open>What a write leaves: the new objects, no lost event, no index entry for an object not written, at most one new page.\<close>

definition write_result ::
  "('d, 'z) json_lib_scheme \<Rightarrow> 'd objects \<Rightarrow> ledger \<Rightarrow> ledger \<Rightarrow> bool" where
  "write_result E H' l l' \<longleftrightarrow>
     ledger_rep E l' H' \<and> extends E l l' \<and> unat (m_next_page_no (m_blocks l')) \<le> unat (m_next_page_no (m_blocks l)) + 1 \<and>
     (\<forall>collection key. lookup l collection key = None \<longrightarrow> H' collection key = [] \<longrightarrow> lookup l' collection key = None)"

lemma object_updated_holds:
  assumes rep: "ledger_holds E l H" and upd: "object_updated E collection key eid c l l1" and key: "key \<noteq> []"
    and c: "if vs = [] then is_tombstone c else version_chain E l1 (get_shard collection key) c vs"
  shows "ledger_holds E l1 (set_object collection key vs H)"
proof -
  let ?s = "get_shard collection key"
  have objs: "\<And>collection key. object_rep E l collection key (H collection key)" using rep by (simp add: ledger_holds_def)
  have U: "ledger_wf E l1" "extends E l l1" "stored E l1 eid c" "ev_shard eid = ?s"
    and look: "\<And>collection' key'. lookup l1 collection' key' =
        (if collection' = collection \<and> key' = key then Some eid else lookup l collection' key')"
    using upd by (auto simp: object_updated_def)
  have "object_rep E l1 collection' key' (set_object collection key vs H collection' key')" for collection' key'
  proof (cases "collection' = collection \<and> key' = key")
    case True
    then show ?thesis using key U(3,4) look c by (auto simp: object_rep_def set_object_def)
  next
    case False
    then have "set_object collection key vs H collection' key' = H collection' key'" by (auto simp: set_object_def)
    then show ?thesis using False object_rep_extends [OF objs U(2), of collection' key'] look by auto
  qed
  then show ?thesis using rep U(1) by (simp add: ledger_holds_def)
qed

lemma ledger_holds_extends:
  assumes "ledger_holds E l H" and "ledger_wf E l'" and ext: "extends E l l'" and "lookup l' = lookup l"
  shows "ledger_holds E l' H"
  using assms object_rep_extends [OF _ ext] by (simp add: ledger_holds_def)

lemma object_updatedD:
  assumes "object_updated E collection key eid c l l1" and "ledger_wf E l"
  shows "small_except S l \<Longrightarrow> small_except (insert (unat (get_shard collection key)) S) l1"
    and "room_for (Suc n) (length (js_write E c) + B) l \<Longrightarrow> room_for n B l1"
    and "m_next_page_no (m_blocks l1) = m_next_page_no (m_blocks l)"
proof -
  have grown: "grown (get_shard collection key) (length (js_write E c)) l l1" using assms(1) by (simp add: object_updated_def)
  show "small_except S l \<Longrightarrow> small_except (insert (unat (get_shard collection key)) S) l1"
    by (rule grown_small [OF assms(2) grown _ get_shard_less])
  show "room_for (Suc n) (length (js_write E c) + B) l \<Longrightarrow> room_for n B l1"
    by (rule grown_room [OF assms(2) grown _ get_shard_less])
  show "m_next_page_no (m_blocks l1) = m_next_page_no (m_blocks l)" using grown by (simp add: grown_def)
qed

lemma organize_after_update:
  assumes rep: "ledger_rep E l H" and upd: "object_updated E collection key eid c l l1" and key: "key \<noteq> []"
    and alloc: "can_allocate (m_blocks l)" and prev: "vs = [] \<Longrightarrow> lookup l collection key \<noteq> None"
    and c: "if vs = [] then is_tombstone c else version_chain E l1 (get_shard collection key) c vs"
  obtains l' where "organize_ledger (get_shard collection key) l1 = Inr l'" "write_result E (set_object collection key vs H) l l'"
    "stored E l' eid c" "lookup l' collection key = Some eid"
proof -
  let ?s = "get_shard collection key"
  have rt: "json_roundtrip E" "ledger_wf E l" "small_except {} l" using rep by (auto simp: ledger_rep_def small_except_empty)
  have U: "ledger_wf E l1" "extends E l l1" "stored E l1 eid c"
    and look: "\<And>collection' key'. lookup l1 collection' key' =
        (if collection' = collection \<and> key' = key then Some eid else lookup l collection' key')"
    using upd by (auto simp: object_updated_def)
  note small = object_updatedD(1) [OF upd rt(2,3)] and next_page = object_updatedD(3) [OF upd rt(2)]
  have alloc1: "can_allocate (m_blocks l1)" using alloc next_page by (simp add: can_allocate_def)
  obtain l' where org: "organize_ledger ?s l1 = Inr l'" "ledger_wf E l'" "extends E l1 l'" "small_except ({unat ?s} - {unat ?s}) l'"
    "m_collections l' = m_collections l1" "unat (m_next_page_no (m_blocks l')) \<le> unat (m_next_page_no (m_blocks l1)) + 1"
    by (rule organize_correct [OF rt(1) U(1) get_shard_less alloc1 small])
  have look': "lookup l' = lookup l1" using org(5) by (simp add: lookup_def fun_eq_iff)
  have "ledger_holds E l' (set_object collection key vs H)"
    by (rule ledger_holds_extends [OF object_updated_holds [OF ledger_rep_holds [OF rep] upd key c] org(2,3) look'])
  then have "ledger_rep E l' (set_object collection key vs H)" using org(4) by (simp add: ledger_rep_iff small_except_empty)
  moreover have "lookup l collection' key' = None \<longrightarrow> set_object collection key vs H collection' key' = [] \<longrightarrow>
      lookup l' collection' key' = None" for collection' key'
    using look [of collection' key'] look' prev by (auto simp: set_object_def)
  ultimately show ?thesis
    using that [of l'] org(1,3,6) extends_trans [OF U(2) org(3)] U(3) next_page look look' by (simp add: write_result_def extends_def)
qed

lemma organize_unchanged:
  assumes rep: "ledger_rep E l H" and alloc: "can_allocate (m_blocks l)"
  obtains l' where "organize_ledger (get_shard collection key) l = Inr l'" "write_result E H l l'"
proof -
  have rt: "json_roundtrip E" "ledger_wf E l" and small: "small_except {} l"
    using rep by (auto simp: ledger_rep_def small_except_empty)
  obtain l' where org: "organize_ledger (get_shard collection key) l = Inr l'" "ledger_wf E l'" "extends E l l'"
    "small_except ({} - {unat (get_shard collection key)}) l'"
    "m_collections l' = m_collections l" "unat (m_next_page_no (m_blocks l')) \<le> unat (m_next_page_no (m_blocks l)) + 1"
    by (rule organize_correct [OF rt get_shard_less alloc small])
  have look: "lookup l' = lookup l" using org(5) by (simp add: lookup_def fun_eq_iff)
  then have "ledger_rep E l' H"
    using ledger_holds_extends [OF ledger_rep_holds [OF rep] org(2,3)] org(4) by (simp add: ledger_rep_iff small_except_empty)
  then show ?thesis using that [of l'] org look by (simp add: write_result_def)
qed

text \<open>The object may be written: it has no versions, or no policy, or its policy allows the operation.\<close>

definition write_permitted ::
  "('d, 'z) ledger_env_scheme \<Rightarrow> op_context \<Rightarrow> string \<Rightarrow> string \<Rightarrow> string \<Rightarrow> OperationType \<Rightarrow> 'd versions \<Rightarrow> ledger \<Rightarrow> bool result" where
  "write_permitted E ctx collection key path op_type vs l =
     (case vs of
        [] \<Rightarrow> Inr True
      | v # _ \<Rightarrow> if js_empty E (js_path E (snd v) ''policy'') then Inr True
                 else check_object_policy E (js_path E (snd v) ''policy'') ctx collection key path op_type l)"

lemma next_event_chain:
  assumes "vs = [] \<or> (\<exists>c. version_chain E l s c vs \<and> stored E l pid c \<and> ev_shard pid = s \<and> ev_block pid \<noteq> INVALID_BLOCK)"
  shows "version_chain E l s (next_event src doc (word_of_nat (Suc (length vs))) pid tx) (put_version (src, doc) vs)"
proof (cases "(word_of_nat (Suc (length vs)) :: version_number_t) = INITIAL_VERSION_NO")
  case True
  then show ?thesis by (auto simp: put_version_def next_event_def INITIAL_VERSION_NO_def event_simps)
next
  case False
  then have "vs \<noteq> []" by (auto simp: INITIAL_VERSION_NO_def)
  moreover have "mk_event_id s (ev_block pid) (ev_index pid) = pid" if "ev_shard pid = s"
    using that by (simp add: mk_event_id_def)
  ultimately show ?thesis
    using False assms by (auto simp: put_version_def next_event_def event_simps predecessor_id_def)
qed

text \<open>Every version of the document that an operation can write is below the size limit.\<close>

definition event_fits :: "('d, 'z) json_lib_scheme \<Rightarrow> string \<Rightarrow> 'd \<Rightarrow> bool" where
  "event_fits E src doc \<longleftrightarrow> (\<forall>pb pi v tx. length (js_write E (new_version_event src pb pi doc v tx)) < EVENT_LIMIT)"

definition tombstone_fits :: "('d, 'z) json_lib_scheme \<Rightarrow> string \<Rightarrow> bool" where
  "tombstone_fits E src \<longleftrightarrow> (\<forall>pb pi tx. length (js_write E (tombstone_event src pb pi tx)) < EVENT_LIMIT)"

text \<open>The previous version that \<open>apply_write\<close> works with.\<close>

lemma previous_version_found:
  assumes rep: "ledger_holds E l H"
  obtains pid ev pv where "get_latest_event E collection key l = Inr (pid, ev)"
    "get_previous_version E (get_shard collection key) l ev = Some (Inr pv)"
    "if H collection key = [] then pv = None
     else \<exists>c. pv = Some c \<and> lookup l collection key = Some pid \<and> stored E l pid c \<and> ev_shard pid = get_shard collection key \<and>
       ev_block pid \<noteq> INVALID_BLOCK \<and> version_chain E l (get_shard collection key) c (H collection key)"
  using rep
proof (cases rule: object_cases_holds [where collection = collection and key = key])
  case absent
  then show ?thesis using that previous_version_simps(1) by fastforce
next
  case (deleted eid c)
  then show ?thesis using that previous_version_simps(2) by fastforce
next
  case (live eid c)
  have "ledger_wf E l" using rep by (simp add: ledger_holds_def)
  then have "ev_block eid \<noteq> INVALID_BLOCK" using live(6) by (rule stored_valid)
  then show ?thesis
    using that [OF live(5) previous_version_simps(3)] live version_chainD(2) [OF live(7)] by simp
qed

definition version_of :: "'d event_handle \<Rightarrow> version_number_t result" where
  "version_of pv = (if event_valid pv then rbind (event_version pv) (\<lambda>v. Inr (v + 1)) else Inr INITIAL_VERSION_NO)"

lemma version_of_previous:
  assumes "if vs = [] then pv = None else \<exists>c. pv = Some c \<and> version_chain E l s c vs"
  shows "version_of pv = Inr (word_of_nat (Suc (length vs)))"
proof (cases "vs = []")
  case False
  then obtain c where "pv = Some c" "version_chain E l s c vs" using assms by auto
  then show ?thesis by (simp add: version_of_def version_chainD(4) add.commute)
qed (use assms in \<open>simp add: version_of_def INITIAL_VERSION_NO_def\<close>)

lemma apply_write_cases:
  assumes rep: "ledger_holds E l H"
  obtains pid pv where
    "if H collection key = [] then pv = None
     else \<exists>c. pv = Some c \<and> lookup l collection key = Some pid \<and> stored E l pid c \<and> ev_shard pid = get_shard collection key \<and>
       ev_block pid \<noteq> INVALID_BLOCK \<and> version_chain E l (get_shard collection key) c (H collection key)"
    "\<And>ctx doc path op_type tx. apply_write E ctx collection key doc path False op_type tx l =
       Some (rbind (write_version E ctx collection key doc path op_type tx (word_of_nat (Suc (length (H collection key)))) pid pv l)
         (\<lambda>(eid, l'). rbind (organize_ledger (get_shard collection key) l') (\<lambda>l''. Inr (eid, l''))))"
    "\<And>ctx doc path op_type tx. apply_write E ctx collection key doc path True op_type tx l =
       Some (write_version E ctx collection key doc path op_type tx (word_of_nat (Suc (length (H collection key)))) pid pv l)"
proof -
  obtain pid ev pv where prev: "get_latest_event E collection key l = Inr (pid, ev)"
    "get_previous_version E (get_shard collection key) l ev = Some (Inr pv)"
    and pv: "if H collection key = [] then pv = None
     else \<exists>c. pv = Some c \<and> lookup l collection key = Some pid \<and> stored E l pid c \<and> ev_shard pid = get_shard collection key \<and>
       ev_block pid \<noteq> INVALID_BLOCK \<and> version_chain E l (get_shard collection key) c (H collection key)"
    by (rule previous_version_found [OF rep])
  have "version_of pv = Inr (word_of_nat (Suc (length (H collection key))))"
    using version_of_previous [of "H collection key" pv E l] pv by (auto split: if_splits)
  moreover have "rbind r (\<lambda>(eid, l'). Inr (eid, l')) = r" for r :: "(event_id_t \<times> ledger) result" by (cases r) auto
  ultimately show ?thesis using that [OF pv] prev by (simp add: apply_write_def version_of_def Let_def)
qed

text \<open>A write up to the point where a call that is not part of a transaction looks at the size of the block.\<close>

lemma put_updated:
  assumes rep: "ledger_holds E l H" and ctx: "context_valid ctx" and doc: "js_valid E doc"
    and room: "\<And>pb pi v. has_room (get_shard collection key) (length (js_write E (new_version_event (context_to_string ctx) pb pi doc v tx))) l"
    and permitted: "write_permitted E ctx collection key [] PutObject (H collection key) l = Inr True"
  obtains eid l1 pb pi v where "apply_write E ctx collection key doc [] True PutObject tx l = Some (Inr (eid, l1))"
    "apply_write E ctx collection key doc [] False PutObject tx l =
       Some (rbind (organize_ledger (get_shard collection key) l1) (\<lambda>l'. Inr (eid, l')))"
    "object_updated E collection key eid (new_version_event (context_to_string ctx) pb pi doc v tx) l l1"
    "version_chain E l1 (get_shard collection key) (new_version_event (context_to_string ctx) pb pi doc v tx)
       (put_version (context_to_string ctx, doc) (H collection key))"
proof -
  let ?vs = "H collection key" and ?s = "get_shard collection key" and ?src = "context_to_string ctx"
  let ?n = "word_of_nat (Suc (length ?vs)) :: version_number_t"
  obtain pid pv where pv: "if ?vs = [] then pv = None
     else \<exists>c. pv = Some c \<and> lookup l collection key = Some pid \<and> stored E l pid c \<and> ev_shard pid = ?s \<and>
       ev_block pid \<noteq> INVALID_BLOCK \<and> version_chain E l ?s c ?vs"
    and app: "apply_write E ctx collection key doc [] False PutObject tx l =
       Some (rbind (write_version E ctx collection key doc [] PutObject tx ?n pid pv l)
         (\<lambda>(eid, l'). rbind (organize_ledger ?s l') (\<lambda>l''. Inr (eid, l''))))"
      "apply_write E ctx collection key doc [] True PutObject tx l = Some (write_version E ctx collection key doc [] PutObject tx ?n pid pv l)"
    using apply_write_cases [OF rep] by (metis (no_types, lifting))
  have rt: "json_roundtrip E" "ledger_wf E l" using rep by (auto simp: ledger_holds_def)
  obtain pb pi where event: "next_event ?src doc ?n pid tx = new_version_event ?src pb pi doc ?n tx"
    using next_event_form [of ?src doc ?n pid tx] by blast
  have prev: "if event_valid pv then event_version pv = Inr (word_of_nat (length ?vs)) \<and> ?n = word_of_nat (length ?vs) + 1 \<and>
        event_value pv = Inr (snd (hd ?vs)) else ?n = INITIAL_VERSION_NO"
    using pv version_chainD(3,4) by (auto simp: INITIAL_VERSION_NO_def split: if_splits)
  have room': "has_room ?s (length (js_write E (next_event ?src doc ?n pid tx))) l" using room event by simp
  obtain eid l1 where put: "put_next_version E ctx collection key doc ?n pid pv tx l = Inr (eid, l1)"
    and upd: "object_updated E collection key eid (next_event ?src doc ?n pid tx) l l1"
    by (rule put_next_version_correct [OF rt ctx doc prev room'])
  have wr: "write_version E ctx collection key doc [] PutObject tx ?n pid pv l = Inr (eid, l1)"
    using put prev permitted pv
    by (cases ?vs) (auto simp: write_version_def Let_def get_policy_def write_permitted_def split: if_splits)
  have "version_chain E l ?s (next_event ?src doc ?n pid tx) (put_version (?src, doc) ?vs)"
    using pv by (intro next_event_chain) (auto split: if_splits)
  moreover have "extends E l l1" using upd by (simp add: object_updated_def)
  ultimately have "version_chain E l1 ?s (next_event ?src doc ?n pid tx) (put_version (?src, doc) ?vs)"
    by (rule version_chain_extends)
  then show ?thesis using that [of eid l1 pb pi ?n] app wr upd event by simp
qed

lemma updated_valid: "object_updated E collection key eid c l l1 \<Longrightarrow> is_valid eid"
  using stored_valid [of E l1 eid c] by (simp add: object_updated_def is_valid_def)

lemma apply_put_correct:
  assumes rep: "ledger_rep E l H" and alloc: "can_allocate (m_blocks l)" and key: "key \<noteq> []"
    and ctx: "context_valid ctx" and doc: "js_valid E doc" and fits: "event_fits E (context_to_string ctx) doc"
    and permitted: "write_permitted E ctx collection key [] PutObject (H collection key) l = Inr True"
  obtains eid l' where "apply_write E ctx collection key doc [] False PutObject tx l = Some (Inr (eid, l'))"
    "write_result E (set_object collection key (put_version (context_to_string ctx, doc) (H collection key)) H) l l'"
    "is_valid eid" "lookup l' collection key = Some eid"
proof -
  let ?vs = "put_version (context_to_string ctx, doc) (H collection key)" and ?s = "get_shard collection key"
  have wf: "ledger_wf E l" "ledger_small l" using rep by (auto simp: ledger_rep_def)
  have room: "has_room ?s (length (js_write E (new_version_event (context_to_string ctx) pb pi doc v tx))) l" for pb pi v
    using fits by (intro small_has_room [OF wf get_shard_less]) (simp add: event_fits_def)
  obtain eid l1 pb pi v where
    app: "apply_write E ctx collection key doc [] False PutObject tx l = Some (rbind (organize_ledger ?s l1) (\<lambda>l'. Inr (eid, l')))"
    and upd: "object_updated E collection key eid (new_version_event (context_to_string ctx) pb pi doc v tx) l l1"
    and chain: "version_chain E l1 ?s (new_version_event (context_to_string ctx) pb pi doc v tx) ?vs"
    by (rule put_updated [OF ledger_rep_holds [OF rep] ctx doc room permitted])
  have ne: "?vs \<noteq> []" by (simp add: put_version_def)
  obtain l' where "organize_ledger ?s l1 = Inr l'" "lookup l' collection key = Some eid" "write_result E (set_object collection key ?vs H) l l'"
    by (rule organize_after_update [OF rep upd key alloc]) (use chain ne in auto)
  then show ?thesis using that app updated_valid [OF upd] by simp
qed

lemma apply_remove_absent:
  assumes rep: "ledger_rep E l H" and alloc: "can_allocate (m_blocks l)" and gone: "H collection key = []"
  obtains l' where "apply_write E ctx collection key doc [] False RemoveObject tx l = Some (Inr (INVALID_EVENT, l'))" "write_result E H l l'"
proof -
  obtain pid pv where pv: "pv = None"
    and app: "apply_write E ctx collection key doc [] False RemoveObject tx l =
       Some (rbind (write_version E ctx collection key doc [] RemoveObject tx (word_of_nat (Suc (length (H collection key)))) pid pv l)
         (\<lambda>(eid, l'). rbind (organize_ledger (get_shard collection key) l') (\<lambda>l''. Inr (eid, l''))))"
    using apply_write_cases [OF ledger_rep_holds [OF rep]] gone by (metis (no_types, lifting))
  obtain l' where "organize_ledger (get_shard collection key) l = Inr l'" "write_result E H l l'"
    by (rule organize_unchanged [OF rep alloc])
  then show ?thesis using that [of l'] app pv by (simp add: write_version_def Let_def)
qed

lemma remove_nothing:
  assumes rep: "ledger_holds E l H" and gone: "H collection key = []"
  shows "apply_write E ctx collection key doc [] True RemoveObject tx l = Some (Inr (INVALID_EVENT, l))"
proof -
  obtain pid where "apply_write E ctx collection key doc [] True RemoveObject tx l =
      Some (write_version E ctx collection key doc [] RemoveObject tx (word_of_nat (Suc (length (H collection key)))) pid None l)"
    using apply_write_cases [OF rep] gone by (metis (no_types, lifting))
  then show ?thesis by (simp add: write_version_def Let_def)
qed

lemma remove_updated:
  assumes rep: "ledger_holds E l H" and live: "H collection key \<noteq> []" and ctx: "context_valid ctx"
    and room: "\<And>pb pi. has_room (get_shard collection key) (length (js_write E (tombstone_event (context_to_string ctx) pb pi tx))) l"
    and permitted: "write_permitted E ctx collection key [] RemoveObject (H collection key) l = Inr True"
  obtains eid l1 pb pi where "apply_write E ctx collection key doc [] True RemoveObject tx l = Some (Inr (eid, l1))"
    "apply_write E ctx collection key doc [] False RemoveObject tx l =
       Some (rbind (organize_ledger (get_shard collection key) l1) (\<lambda>l'. Inr (eid, l')))"
    "object_updated E collection key eid (tombstone_event (context_to_string ctx) pb pi tx) l l1" "lookup l collection key \<noteq> None"
proof -
  let ?vs = "H collection key" and ?s = "get_shard collection key" and ?n = "word_of_nat (Suc (length (H collection key))) :: version_number_t"
  obtain pid c where pv: "lookup l collection key = Some pid" "ev_shard pid = ?s" "version_chain E l ?s c ?vs"
    and app: "apply_write E ctx collection key doc [] False RemoveObject tx l =
       Some (rbind (write_version E ctx collection key doc [] RemoveObject tx ?n pid (Some c) l)
         (\<lambda>(eid, l'). rbind (organize_ledger ?s l') (\<lambda>l''. Inr (eid, l''))))"
      "apply_write E ctx collection key doc [] True RemoveObject tx l =
         Some (write_version E ctx collection key doc [] RemoveObject tx ?n pid (Some c) l)"
    using apply_write_cases [OF rep] live by (metis (no_types, lifting))
  obtain col where col: "m_collections l collection = Some col" using pv(1) by (auto simp: lookup_def split: option.splits)
  have rt: "json_roundtrip E" "ledger_wf E l" using rep by (auto simp: ledger_holds_def)
  let ?c = "tombstone_event (context_to_string ctx) (ev_block pid) (ev_index pid) tx"
  obtain eid l1 where tomb: "append_event E ?s ?c l = Inr (eid, l1)" "ledger_wf E l1" "extends E l l1" "stored E l1 eid ?c"
      "ev_shard eid = ?s" "m_collections l1 = m_collections l" "grown ?s (length (js_write E ?c)) l l1"
    by (rule append_event_correct [OF rt get_shard_less room])
  let ?l2 = "(set_collection collection (col\<lparr>c_primary := (c_primary col)(key \<mapsto> eid)\<rparr>) l1)\<lparr>m_object_count := m_object_count l1 - 1\<rparr>"
  have upd: "object_updated E collection key eid ?c l ?l2"
    using col tomb(6) by (intro object_updatedI [OF refl tomb(2-5,7) refl refl]) (auto simp: set_collection_def lookup_def)
  have "write_version E ctx collection key doc [] RemoveObject tx ?n pid (Some c) l = Inr (eid, ?l2)"
    using version_chainD(3) [OF pv(3)] permitted live tomb(1,6) col ctx pv(2)
    by (cases ?vs) (auto simp: write_version_def Let_def get_policy_def write_permitted_def get_collection_def put_tombstone_def split: if_splits)
  then show ?thesis using that [of eid ?l2] app upd pv(1) by simp
qed

lemma apply_remove_present:
  assumes rep: "ledger_rep E l H" and alloc: "can_allocate (m_blocks l)" and key: "key \<noteq> []" and live: "H collection key \<noteq> []"
    and ctx: "context_valid ctx" and fits: "tombstone_fits E (context_to_string ctx)"
    and permitted: "write_permitted E ctx collection key [] RemoveObject (H collection key) l = Inr True"
  obtains eid l' where "apply_write E ctx collection key doc [] False RemoveObject tx l = Some (Inr (eid, l'))"
    "write_result E (set_object collection key [] H) l l'" "is_valid eid"
proof -
  let ?s = "get_shard collection key"
  have wf: "ledger_wf E l" "ledger_small l" using rep by (auto simp: ledger_rep_def)
  have room: "has_room ?s (length (js_write E (tombstone_event (context_to_string ctx) pb pi tx))) l" for pb pi
    using fits by (intro small_has_room [OF wf get_shard_less]) (simp add: tombstone_fits_def)
  obtain eid l1 pb pi where
    app: "apply_write E ctx collection key doc [] False RemoveObject tx l = Some (rbind (organize_ledger ?s l1) (\<lambda>l'. Inr (eid, l')))"
    and upd: "object_updated E collection key eid (tombstone_event (context_to_string ctx) pb pi tx) l l1" "lookup l collection key \<noteq> None"
    by (rule remove_updated [OF ledger_rep_holds [OF rep] live ctx room permitted])
  have tombstone: "if [] = ([] :: 'a versions) then is_tombstone (tombstone_event (context_to_string ctx) pb pi tx)
      else version_chain E l1 ?s (tombstone_event (context_to_string ctx) pb pi tx) []"
    by (auto simp: is_tombstone_def)
  obtain l' where "organize_ledger ?s l1 = Inr l'" "write_result E (set_object collection key [] H) l l'"
    by (rule organize_after_update [OF rep upd(1) key alloc _ tombstone]) (use upd(2) in simp_all)
  then show ?thesis using that app updated_valid [OF upd(1)] by simp
qed

end
