(* ===== verification/Json_Example.thy ===== *)
theory Json_Example
  imports Ledger
begin

text \<open>
  A small instance of the JSON library, for evaluating the ledger on concrete inputs: documents are
  natural numbers without fields, and an array is written as one zero-terminated token per field.
\<close>

section \<open>Tokens\<close>

definition decimal_bytes :: "nat \<Rightarrow> u8 list" where
  "decimal_bytes n = map (\<lambda>c. word_of_nat (of_char c)) (to_string_nat n)"

definition bytes_decimal :: "u8 list \<Rightarrow> nat" where
  "bytes_decimal bs = of_decimal (map (\<lambda>b. char_of (unat b)) bs)"

definition char_bytes :: "char \<Rightarrow> u8 list" where
  "char_bytes c = [word_of_nat (1 + of_char c div 16), word_of_nat (1 + of_char c mod 16)]"

fun bytes_chars :: "u8 list \<Rightarrow> string" where
  "bytes_chars (a # b # bs) = char_of (16 * (unat a - 1) + (unat b - 1)) # bytes_chars bs"
| "bytes_chars _ = []"

fun field_token :: "nat json_field \<Rightarrow> u8 list" where
  "field_token (JInt i) = (if 0 \<le> i then 1 # decimal_bytes (nat i) else 2 # decimal_bytes (nat (- i)))"
| "field_token (JString s) = 3 # concat (map char_bytes s)"
| "field_token (JDoc d) = 4 # decimal_bytes d"

fun token_field :: "u8 list \<Rightarrow> nat json_field" where
  "token_field [] = JInt 0"
| "token_field (t # bs) =
     (if t = 1 then JInt (int (bytes_decimal bs)) else if t = 2 then JInt (- int (bytes_decimal bs))
      else if t = 3 then JString (bytes_chars bs) else JDoc (bytes_decimal bs))"

fun split_tokens :: "u8 list \<Rightarrow> u8 list \<Rightarrow> u8 list list" where
  "split_tokens acc [] = []"
| "split_tokens acc (b # bs) = (if b = 0 then rev acc # split_tokens [] bs else split_tokens (b # acc) bs)"

definition write_fields :: "nat content \<Rightarrow> u8 list" where
  "write_fields c = concat (map (\<lambda>f. field_token f @ [0]) c)"

definition parse_fields :: "u8 list \<Rightarrow> nat content option" where
  "parse_fields bs = Some (map token_field (split_tokens [] bs))"

definition nat_env :: "nat ledger_env" where
  "nat_env = \<lparr>js_write = write_fields, js_parse = parse_fields, js_valid = (\<lambda>_. True), js_empty = (\<lambda>d. d = 0),
     js_path = (\<lambda>_ _. 0), js_force_path = (\<lambda>d _. if d = 0 then None else Some d), js_select = (\<lambda>d _. d), js_force_select = (\<lambda>d _. Some d),
     js_hash = word_of_nat, js_eq = (=), js_keys = (\<lambda>_. None), js_elements = (\<lambda>_. None), js_singleton = (\<lambda>_ d. d),
     js_add = (\<lambda>d _ e. Inr (d + e)), js_insert = (\<lambda>_ _ e. Inr e), js_matches = (\<lambda>d p. p = 0 \<or> d = p), js_size = (\<lambda>_. 1), js_blank = 0, js_binary = (\<lambda>_. None),
     js_program = (\<lambda>_. Inr []),
     run_collection_policy = (\<lambda>_ _ _ _ _ _ _. Inr True), run_object_policy = (\<lambda>_ _ _ _ _ _ _. Inr True)\<rparr>"

section \<open>Round trip and sizes\<close>

lemma split_tokens_app: "0 \<notin> set t \<Longrightarrow> split_tokens acc (t @ 0 # bs) = (rev acc @ t) # split_tokens [] bs"
  by (induction t arbitrary: acc) auto

lemma to_string_digits: "c \<in> set (to_string_nat n) \<Longrightarrow> 48 \<le> (of_char c :: nat) \<and> (of_char c :: nat) \<le> 57"
proof (induction n rule: to_string_nat.induct)
  case (1 n)
  show ?case
  proof (cases "n < 10")
    case True
    then have "to_string_nat n = [digit_char n]" by (simp add: to_string_nat.simps)
    then show ?thesis using "1.prems" True by (simp add: of_char_digit)
  next
    case False
    then have "to_string_nat n = to_string_nat (n div 10) @ [digit_char (n mod 10)]" by (simp add: to_string_nat.simps [of n])
    then show ?thesis using "1.prems" "1.IH" [OF False] by (auto simp: of_char_digit)
  qed
qed

lemma of_char_less: "(of_char c :: nat) < 256"
  by simp

lemma unat_char_byte: "n < 256 \<Longrightarrow> unat (word_of_nat n :: u8) = n"
  by (simp add: unat_of_nat take_bit_nat_eq_self)

lemma decimal_no_zero: "0 \<notin> set (decimal_bytes n)"
proof
  assume "0 \<in> set (decimal_bytes n)"
  then obtain c where c: "c \<in> set (to_string_nat n)" "(word_of_nat (of_char c) :: u8) = 0" by (auto simp: decimal_bytes_def)
  then show False using to_string_digits [OF c(1)] unat_char_byte [OF of_char_less, of c] by simp
qed

lemma bytes_decimal_inverse: "bytes_decimal (decimal_bytes n) = n"
proof -
  have "map (\<lambda>b. char_of (unat b)) (decimal_bytes n) = to_string_nat n"
    by (simp add: decimal_bytes_def comp_def unat_char_byte of_char_less)
  then show ?thesis by (simp only: bytes_decimal_def of_decimal_to_string_nat)
qed

lemma char_bytes_halves:
  "unat (word_of_nat (Suc (of_char c div 16)) :: u8) = Suc (of_char c div 16)"
  "unat (word_of_nat (Suc (of_char c mod 16)) :: u8) = Suc (of_char c mod 16)"
proof -
  have "Suc (of_char c div 16) < 256" "Suc (of_char c mod 16) < 256" using of_char_less [of c] by presburger+
  then show "unat (word_of_nat (Suc (of_char c div 16)) :: u8) = Suc (of_char c div 16)"
    "unat (word_of_nat (Suc (of_char c mod 16)) :: u8) = Suc (of_char c mod 16)"
    by (simp_all only: unat_char_byte)
qed

lemma bytes_chars_inverse: "bytes_chars (concat (map char_bytes s)) = s"
proof (induction s)
  case (Cons c s)
  have "bytes_chars (char_bytes c @ bs) = char_of (16 * (of_char c div 16) + of_char c mod 16 :: nat) # bytes_chars bs" for bs
    by (simp only: char_bytes_def append_Cons append_Nil bytes_chars.simps plus_1_eq_Suc char_bytes_halves diff_Suc_1)
  then show ?case using Cons.IH by simp
qed simp

lemma char_bytes_no_zero: "0 \<notin> set (char_bytes c)"
proof -
  have "(word_of_nat (Suc (of_char c div 16)) :: u8) \<noteq> 0" "(word_of_nat (Suc (of_char c mod 16)) :: u8) \<noteq> 0"
    using char_bytes_halves [of c] by (metis unsigned_0 nat.simps(3))+
  then show ?thesis unfolding char_bytes_def plus_1_eq_Suc by simp
qed

lemma field_token_no_zero: "0 \<notin> set (field_token f)"
  using decimal_no_zero char_bytes_no_zero by (cases f) auto

lemma token_field_inverse: "token_field (field_token f) = f"
  by (cases f) (auto simp: bytes_decimal_inverse bytes_chars_inverse)

lemma write_fields_parse: "parse_fields (write_fields c) = Some c"
proof -
  have "split_tokens [] (write_fields c) = map field_token c"
    by (induction c) (simp_all add: write_fields_def split_tokens_app field_token_no_zero)
  then show ?thesis by (simp add: parse_fields_def comp_def token_field_inverse)
qed

lemma decimal_bytes_length: "n < 10 ^ k \<Longrightarrow> length (decimal_bytes n) \<le> Suc k"
proof (induction k arbitrary: n)
  case 0
  then show ?case by (simp add: decimal_bytes_def to_string_nat.simps)
next
  case (Suc k)
  show ?case
  proof (cases "n < 10")
    case False
    then have "length (decimal_bytes n) = Suc (length (decimal_bytes (n div 10)))"
      by (simp add: decimal_bytes_def to_string_nat.simps [of n])
    moreover have "n div 10 < 10 ^ k" using Suc.prems by (simp add: less_mult_imp_div_less mult.commute)
    ultimately show ?thesis using Suc.IH by fastforce
  qed (simp add: decimal_bytes_def to_string_nat.simps)
qed

lemma word_token_length: "length (field_token (JInt (uint (w :: 'a :: len word)))) \<le> 2 + LENGTH('a)"
proof -
  have "unat w < 2 ^ LENGTH('a)" by (rule unsigned_less)
  also have "\<dots> \<le> 10 ^ LENGTH('a)" by (simp add: power_mono)
  finally have "length (decimal_bytes (unat w)) \<le> Suc LENGTH('a)" by (rule decimal_bytes_length)
  then show ?thesis by simp
qed

lemma nat_env_fields [simp]:
  "js_write nat_env = write_fields" "js_parse nat_env = parse_fields" "js_valid nat_env d" "js_empty nat_env d \<longleftrightarrow> d = 0"
  "js_path nat_env d p = 0" "js_matches nat_env d e \<longleftrightarrow> e = 0 \<or> d = e"
  by (simp_all add: nat_env_def)

lemma event_length:
  "length (write_fields (new_version_event src pb pi d v tx)) \<le> 200 + 2 * length src + length (decimal_bytes d)"
  "length (write_fields (tombstone_event src pb pi tx)) \<le> 200 + 2 * length src"
proof -
  have src: "length (concat (map char_bytes src)) = 2 * length src" by (induction src) (simp_all add: char_bytes_def)
  note word = word_token_length [of pb] word_token_length [of pi] word_token_length [of v] word_token_length [of "lp_block tx"]
    word_token_length [of "lp_index tx"]
  have code: "length (decimal_bytes 0) \<le> 1" "length (decimal_bytes 2) \<le> 1"
    by (simp_all add: decimal_bytes_def to_string_nat.simps)
  show "length (write_fields (new_version_event src pb pi d v tx)) \<le> 200 + 2 * length src + length (decimal_bytes d)"
    using word src code by (simp add: write_fields_def new_version_event_def event_type_code_def)
  show "length (write_fields (tombstone_event src pb pi tx)) \<le> 200 + 2 * length src"
    using word src code by (simp add: write_fields_def tombstone_event_def event_type_code_def)
qed

end
