(* ===== verification/Ledger_Refinement.thy ===== *)
theory Ledger_Refinement
  imports Ledger_Objects Json_Example
begin

text \<open>
  The operations of the ledger against their specification on versioned objects: reading, checking,
  counting, writing and removing, alone and in any sequence from the empty ledger on.
\<close>

section \<open>Iterators over the versions of an object\<close>

declare version_chain.simps(2) [simp del]

lemma invalid_event [simp]: "\<not> is_valid INVALID_EVENT"
  by (simp add: INVALID_EVENT_def is_valid_def mk_event_id_def)

lemma stored_is_valid: "ledger_wf E l \<Longrightarrow> stored E l eid c \<Longrightarrow> is_valid eid"
  using stored_valid by (simp add: is_valid_def)

definition new_iterator :: "op_context \<Rightarrow> string \<Rightarrow> string \<Rightarrow> string \<Rightarrow> event_id_t \<Rightarrow> 'd event_handle \<Rightarrow> 'd object_iterator" where
  "new_iterator ctx collection key path eid start =
     \<lparr>oi_context = ctx, oi_collection = collection, oi_key = key, oi_path = path, oi_start = start,
      oi_current_event = None, oi_current_eid = eid\<rparr>"

lemma new_iterator_fields [simp]:
  "oi_path (new_iterator ctx collection key path eid start) = path"
  "oi_collection (new_iterator ctx collection key path eid start) = collection"
  "oi_key (new_iterator ctx collection key path eid start) = key"
  "oi_current_eid (new_iterator ctx collection key path eid start) = eid"
  by (simp_all add: new_iterator_def)

lemma iterate_correct:
  assumes rep: "ledger_rep E l H" and np: "no_policy E (H collection key)"
  shows "if H collection key = []
     then \<exists>eid. iterate E ctx collection key path l = Some (Inr (new_iterator ctx collection key path eid None))
     else \<exists>eid c. iterate E ctx collection key path l = Some (Inr (new_iterator ctx collection key path eid (Some c))) \<and>
       is_valid eid \<and> lookup l collection key = Some eid \<and> version_chain E l (get_shard collection key) c (H collection key)"
proof -
  have wf: "ledger_wf E l" using rep by (simp add: ledger_rep_def)
  show ?thesis
    using get_latest_version_correct [OF rep np, of ctx path GetObject] stored_is_valid [OF wf]
    by (auto simp: iterate_def new_iterator_def split: if_splits)
qed

lemma check_event_None [simp]: "check_event E l it None = Inr False"
  by (simp add: check_event_def)

lemma check_event_version:
  assumes "version_chain E l s c vs" and "no_policy E vs"
  shows "check_event E l it (Some c) = Inr True"
  using assms version_chainD [OF assms(1)]
  by (cases vs) (auto simp: check_event_def get_policy_def no_policy_def)

lemma next_handle_first:
  "next_handle E l (new_iterator ctx collection key path eid None) =
     Some (Inr ((INVALID_EVENT, None), (new_iterator ctx collection key path INVALID_EVENT None)))"
  "version_chain E l s c vs \<Longrightarrow> no_policy E vs \<Longrightarrow>
   next_handle E l (new_iterator ctx collection key path eid (Some c)) =
     Some (Inr ((eid, Some c), (new_iterator ctx collection key path eid (Some c))\<lparr>oi_current_event := Some c\<rparr>))"
  by (simp_all add: next_handle_def new_iterator_def Let_def check_event_version)

lemma iterator_next_first:
  "iterator_next E l (new_iterator ctx collection key path eid None) =
     Some (Inr ((INVALID_EVENT, None), (new_iterator ctx collection key path INVALID_EVENT None)))"
  "version_chain E l s c vs \<Longrightarrow> no_policy E vs \<Longrightarrow>
   iterator_next E l (new_iterator ctx collection key [] eid (Some c)) =
     Some (Inr ((eid, Some (snd (hd vs))), (new_iterator ctx collection key [] eid (Some c))\<lparr>oi_current_event := Some c\<rparr>))"
  by (simp_all add: iterator_next_def next_handle_first event_value_at_def version_chainD(3))

lemma first_value_correct:
  assumes rep: "ledger_rep E l H" and np: "no_policy E (H collection key)"
  shows "if H collection key = [] then first_value E ctx collection key [] l = Some (Inr (INVALID_EVENT, None))
     else \<exists>eid. first_value E ctx collection key [] l = Some (Inr (eid, Some (snd (hd (H collection key))))) \<and>
       is_valid eid \<and> lookup l collection key = Some eid"
  using iterate_correct [OF rep np, of ctx "[]"] np
  by (auto simp: first_value_def iterator_next_first split: if_splits)

lemma check_correct:
  assumes rep: "ledger_rep E l H" and np: "no_policy E (H collection key)"
  shows "ledger_check E ctx collection key [] predicate l =
     Some (Inr (H collection key \<noteq> [] \<and> js_matches E (snd (hd (H collection key))) predicate))"
  using first_value_correct [OF rep np, of ctx] by (auto simp: ledger_check_def split: if_splits)

text \<open>No object named \<open>policy\<close> in the collection: the collection policy allows everything.\<close>

lemma prepare_write_plain:
  assumes rep: "ledger_rep E l H" and none: "H collection ''policy'' = []" and key: "is_valid_key key"
  shows "prepare_write E ctx collection key path t l = Some (Inr True)"
proof -
  have "no_policy E (H collection ''policy'')" using none by (simp add: no_policy_def)
  then obtain eid where it: "iterate E empty_context collection ''policy'' [] l =
      Some (Inr (new_iterator empty_context collection ''policy'' [] eid None))"
    using iterate_correct [OF rep, of collection "''policy''" empty_context "[]"] none by auto
  show ?thesis
    using key by (simp add: prepare_write_def check_collection_policy_def it iterator_next_first)
qed

section \<open>Counting writes\<close>

definition all_plain :: "('d, 'z) json_lib_scheme \<Rightarrow> 'd versions \<Rightarrow> bool" where
  "all_plain E vs \<longleftrightarrow> (\<forall>v\<in>set vs. js_empty E (js_path E (snd v) ''policy''))"

lemma all_plain_no_policy: "all_plain E vs \<Longrightarrow> no_policy E vs"
  by (cases vs) (simp_all add: all_plain_def no_policy_def)

text \<open>The iterator stands at the event \<open>c\<close>, with the older versions still to come.\<close>

lemma next_handle_later:
  assumes rt: "json_roundtrip E" and wf: "ledger_wf E l" and chain: "version_chain E l s c (v # vs)" and plain: "all_plain E vs"
    and it: "oi_current_event it = Some c" "is_valid (oi_current_eid it)" and s: "s = get_shard (oi_collection it) (oi_key it)"
  shows "if vs = [] then next_handle E l it = Some (Inr ((INVALID_EVENT, None), it))
     else \<exists>it' c'. next_handle E l it = Some (Inr ((oi_current_eid it', Some c'), it')) \<and> version_chain E l s c' vs \<and>
       oi_current_event it' = Some c' \<and> is_valid (oi_current_eid it') \<and>
       oi_collection it' = oi_collection it \<and> oi_key it' = oi_key it"
proof (cases "vs = []")
  case True
  then have "has_predecessor (Some c) = Inr False" using chain by (simp add: version_chain.simps(2))
  then show ?thesis using True it by (simp add: next_handle_def)
next
  case False
  then obtain eid c' where pred: "has_predecessor (Some c) = Inr True" "predecessor_id s (Some c) = Inr eid"
      and st: "stored E l eid c'" and chain': "version_chain E l s c' vs"
    using chain by (auto simp: version_chain.simps(2))
  define it1 where "it1 = (if ev_block eid \<noteq> ev_block (oi_current_eid it) then it\<lparr>oi_current_eid := eid\<rparr> else it)"
  note ev = stored_get_event [OF rt wf st]
  have it1: "is_valid (oi_current_eid it1)" "oi_collection it1 = oi_collection it" "oi_key it1 = oi_key it"
    using it(2) stored_is_valid [OF wf st] by (simp_all add: it1_def)
  have check: "check_event E l it1 (Some c') = Inr True"
    by (rule check_event_version [OF chain' all_plain_no_policy [OF plain]])
  have "next_handle E l it = next_version_from E l s it (Some c)"
    using it pred(1) s by (simp add: next_handle_def)
  also have "\<dots> = Some (Inr ((oi_current_eid it1, Some c'), it1\<lparr>oi_current_event := Some c'\<rparr>))"
    using pred ev check version_chainD(2) [OF chain']
    by (subst next_version_from.simps) (simp only: sum.case option.case prod.case rbind_Inr Let_def it1_def if_True if_False simp_thms)
  finally show ?thesis
    using False chain' it1 by auto
qed

definition writes_of :: "string \<Rightarrow> 'd versions \<Rightarrow> nat" where
  "writes_of who vs = length (filter (\<lambda>v. fst v = who) vs)"

lemma count_from_later:
  assumes rt: "json_roundtrip E" and wf: "ledger_wf E l"
  shows "version_chain E l s c (v # vs) \<Longrightarrow> all_plain E vs \<Longrightarrow> oi_current_event it = Some c \<Longrightarrow> is_valid (oi_current_eid it) \<Longrightarrow>
     s = get_shard (oi_collection it) (oi_key it) \<Longrightarrow> count_from E l who it res = Some (Inr (res + word_of_nat (writes_of who vs)))"
proof (induction vs arbitrary: v c it res)
  case Nil
  then show ?case
    using next_handle_later [OF rt wf Nil.prems] by (subst count_from.simps) (simp add: writes_of_def)
next
  case (Cons w ws)
  obtain it' c' where n: "next_handle E l it = Some (Inr ((oi_current_eid it', Some c'), it'))" "version_chain E l s c' (w # ws)"
    "oi_current_event it' = Some c'" "is_valid (oi_current_eid it')" "oi_collection it' = oi_collection it" "oi_key it' = oi_key it"
    using next_handle_later [OF rt wf Cons.prems] by auto
  have plain: "all_plain E ws" using Cons.prems(2) by (simp add: all_plain_def)
  have s: "s = get_shard (oi_collection it') (oi_key it')" using Cons.prems(5) n(5,6) by simp
  have IH: "count_from E l who it' r = Some (Inr (r + word_of_nat (writes_of who ws)))" for r
    by (rule Cons.IH [OF n(2) plain n(3,4) s])
  have "count_from E l who it res = count_from E l who it' (if fst w = who then res + 1 else res)"
    using n(1,4) version_chainD(5) [OF n(2)] by (subst count_from.simps) simp
  then show ?case using IH by (simp add: writes_of_def)
qed

lemma count_writes_correct:
  assumes rep: "ledger_rep E l H" and plain: "all_plain E (H collection key)"
  shows "count_writes E ctx who collection key l = Some (Inr (word_of_nat (writes_of who (H collection key))))"
proof (cases "H collection key")
  case Nil
  then obtain eid where "iterate E ctx collection key [] l = Some (Inr (new_iterator ctx collection key [] eid None))"
    using iterate_correct [OF rep, of collection key ctx "[]"] by (auto simp: no_policy_def)
  then show ?thesis
    using Nil by (simp add: count_writes_def count_from.simps next_handle_first writes_of_def)
next
  case (Cons v vs)
  have rt: "json_roundtrip E" "ledger_wf E l" using rep by (auto simp: ledger_rep_def)
  have np: "no_policy E (v # vs)" and tail: "all_plain E vs"
    using plain Cons all_plain_no_policy [of E "v # vs"] by (auto simp: all_plain_def)
  obtain eid c where it: "iterate E ctx collection key [] l = Some (Inr (new_iterator ctx collection key [] eid (Some c)))"
    and c: "is_valid eid" "version_chain E l (get_shard collection key) c (v # vs)"
    using iterate_correct [OF rep, of collection key ctx "[]"] Cons np by auto
  let ?it = "(new_iterator ctx collection key [] eid (Some c))\<lparr>oi_current_event := Some c\<rparr>"
  have "count_from E l who ?it r = Some (Inr (r + word_of_nat (writes_of who vs)))" for r
    by (rule count_from_later [OF rt c(2) tail]) (simp_all add: new_iterator_def c(1))
  then show ?thesis
    using it c(1) version_chainD(5) [OF c(2)] Cons
    by (simp add: count_writes_def count_from.simps [of E l who "new_iterator ctx collection key [] eid (Some c)"]
        next_handle_first(2) [OF c(2) np] writes_of_def)
qed

section \<open>Sequences of operations\<close>

datatype 'd ledger_op =
    LPut op_context string string 'd
  | LRemove op_context string string 'd
  | LGet op_context string string
  | LCheck op_context string string 'd
  | LHas string string
  | LCount op_context string string string

datatype 'd ledger_out = OutWritten bool | OutValue "'d option" | OutBool bool | OutCount u32

fun ledger_step :: "('d, 'z) ledger_env_scheme \<Rightarrow> 'd ledger_op \<Rightarrow> ledger \<Rightarrow> ('d ledger_out \<times> ledger) result option" where
  "ledger_step E (LPut ctx c k d) l = obind (ledger_put E ctx c k d [] False l) (\<lambda>(eid, l'). Inr (OutWritten (is_valid eid), l'))"
| "ledger_step E (LRemove ctx c k d) l = obind (ledger_remove E ctx c k d False l) (\<lambda>(eid, l'). Inr (OutWritten (is_valid eid), l'))"
| "ledger_step E (LGet ctx c k) l = obind (first_value E ctx c k [] l) (\<lambda>(eid, v). Inr (OutValue v, l))"
| "ledger_step E (LCheck ctx c k p) l = obind (ledger_check E ctx c k [] p l) (\<lambda>b. Inr (OutBool b, l))"
| "ledger_step E (LHas c k) l = Some (rbind (has_object E c k l) (\<lambda>b. Inr (OutBool b, l)))"
| "ledger_step E (LCount ctx who c k) l = obind (count_writes E ctx who c k l) (\<lambda>n. Inr (OutCount n, l))"

fun run_ledger :: "('d, 'z) ledger_env_scheme \<Rightarrow> 'd ledger_op list \<Rightarrow> ledger \<Rightarrow> ('d ledger_out list \<times> ledger) result option" where
  "run_ledger E [] l = Some (Inr ([], l))"
| "run_ledger E (op # ops) l =
     (case ledger_step E op l of
        None \<Rightarrow> None
      | Some (Inl e) \<Rightarrow> Some (Inl e)
      | Some (Inr (out, l')) \<Rightarrow> obind (run_ledger E ops l') (\<lambda>(outs, l''). Inr (out # outs, l'')))"

text \<open>The specification, on the versions of the objects.\<close>

fun spec_step :: "('d, 'z) json_lib_scheme \<Rightarrow> 'd ledger_op \<Rightarrow> 'd objects \<Rightarrow> 'd ledger_out \<times> 'd objects" where
  "spec_step E (LPut ctx c k d) H = (OutWritten True, set_object c k (put_version (context_to_string ctx, d) (H c k)) H)"
| "spec_step E (LRemove ctx c k d) H = (OutWritten (H c k \<noteq> []), set_object c k [] H)"
| "spec_step E (LGet ctx c k) H = (OutValue (case H c k of [] \<Rightarrow> None | v # _ \<Rightarrow> Some (snd v)), H)"
| "spec_step E (LCheck ctx c k p) H = (OutBool (case H c k of [] \<Rightarrow> False | v # _ \<Rightarrow> js_matches E (snd v) p), H)"
| "spec_step E (LHas c k) H = (OutBool (H c k \<noteq> []), H)"
| "spec_step E (LCount ctx who c k) H = (OutCount (word_of_nat (writes_of who (H c k))), H)"

fun run_spec :: "('d, 'z) json_lib_scheme \<Rightarrow> 'd ledger_op list \<Rightarrow> 'd objects \<Rightarrow> 'd ledger_out list \<times> 'd objects" where
  "run_spec E [] H = ([], H)"
| "run_spec E (op # ops) H =
     (let (out, H') = spec_step E op H; (outs, H'') = run_spec E ops H' in (out # outs, H''))"

lemma spec_step_length: "length (snd (spec_step E op H) c k) \<le> Suc (length (H c k))"
  by (cases op) (auto simp: set_object_def put_version_def)

lemma run_spec_length: "length (snd (run_spec E ops H) c k) \<le> length ops + length (H c k)"
proof (induction ops arbitrary: H)
  case (Cons op ops)
  show ?case
    using Cons [of "snd (spec_step E op H)"] spec_step_length [of E op H c k]
    by (auto simp: split_beta)
qed simp

text \<open>
  Operations within the scope of the specification: writes name a valid key other than \<open>policy\<close>, come
  from a valid identity, and their documents are valid, of bounded size and without a policy.
\<close>

fun op_ok :: "('d, 'z) json_lib_scheme \<Rightarrow> 'd ledger_op \<Rightarrow> bool" where
  "op_ok E (LPut ctx c k d) \<longleftrightarrow> is_valid_key k \<and> k \<noteq> ''policy'' \<and> context_valid ctx \<and> js_valid E d \<and>
     event_fits E (context_to_string ctx) d \<and> js_empty E (js_path E d ''policy'')"
| "op_ok E (LRemove ctx c k d) \<longleftrightarrow> is_valid_key k \<and> k \<noteq> ''policy'' \<and> context_valid ctx \<and> tombstone_fits E (context_to_string ctx)"
| "op_ok E _ \<longleftrightarrow> True"

definition plain_objects :: "('d, 'z) json_lib_scheme \<Rightarrow> 'd objects \<Rightarrow> bool" where
  "plain_objects E H \<longleftrightarrow> (\<forall>c k. all_plain E (H c k)) \<and> (\<forall>c. H c ''policy'' = [])"

lemma plain_no_policy: "plain_objects E H \<Longrightarrow> no_policy E (H c k)"
  by (simp add: plain_objects_def all_plain_no_policy)

lemma plain_permitted: "plain_objects E H \<Longrightarrow> write_permitted E ctx c k path t (H c k) l = Inr True"
  using plain_no_policy [of E H c k] by (cases "H c k") (simp_all add: write_permitted_def no_policy_def)

lemma plain_set_object:
  "plain_objects E H \<Longrightarrow> all_plain E vs \<Longrightarrow> k \<noteq> ''policy'' \<Longrightarrow> plain_objects E (set_object c k vs H)"
  by (simp add: plain_objects_def set_object_def)

lemma plain_put_version: "all_plain E vs \<Longrightarrow> js_empty E (js_path E d ''policy'') \<Longrightarrow> all_plain E (put_version (src, d) vs)"
  by (simp add: all_plain_def put_version_def)

lemma valid_key_nonempty: "is_valid_key k \<Longrightarrow> k \<noteq> []"
  by (simp add: is_valid_key_def)

lemma put_step:
  assumes rep: "ledger_rep E l H" and plain: "plain_objects E H" and alloc: "can_allocate (m_blocks l)"
    and ok: "op_ok E (LPut ctx c k d)"
  shows "\<exists>l'. ledger_step E (LPut ctx c k d) l = Some (Inr (OutWritten True, l')) \<and>
     write_result E (set_object c k (put_version (context_to_string ctx, d) (H c k)) H) l l'"
proof -
  have key: "is_valid_key k" "k \<noteq> []" using ok valid_key_nonempty by auto
  have ctx: "context_valid ctx" and doc: "js_valid E d" and fits: "event_fits E (context_to_string ctx) d" using ok by auto
  have prep: "prepare_write E ctx c k [] PutObject l = Some (Inr True)"
    using prepare_write_plain [OF rep _ key(1)] plain by (simp add: plain_objects_def)
  obtain eid l' where "apply_write E ctx c k d [] False PutObject INVALID_LEDGER_POS l = Some (Inr (eid, l'))" "is_valid eid"
    "write_result E (set_object c k (put_version (context_to_string ctx, d) (H c k)) H) l l'"
    by (rule apply_put_correct [OF rep alloc key(2) ctx doc fits plain_permitted [OF plain]])
  then show ?thesis using prep by (simp add: ledger_put_def checked_write_def)
qed

lemma remove_step:
  assumes rep: "ledger_rep E l H" and plain: "plain_objects E H" and alloc: "can_allocate (m_blocks l)"
    and ok: "op_ok E (LRemove ctx c k d)"
  shows "\<exists>l'. ledger_step E (LRemove ctx c k d) l = Some (Inr (OutWritten (H c k \<noteq> []), l')) \<and>
     write_result E (set_object c k [] H) l l'"
proof -
  have key: "is_valid_key k" "k \<noteq> []" using ok valid_key_nonempty by auto
  have ctx: "context_valid ctx" and fits: "tombstone_fits E (context_to_string ctx)" using ok by auto
  have prep: "prepare_write E ctx c k [] AddToObject l = Some (Inr True)"
    using prepare_write_plain [OF rep _ key(1)] plain by (simp add: plain_objects_def)
  have "\<exists>eid l'. apply_write E ctx c k d [] False RemoveObject INVALID_LEDGER_POS l = Some (Inr (eid, l')) \<and>
      is_valid eid = (H c k \<noteq> []) \<and> write_result E (set_object c k [] H) l l'"
  proof (cases "H c k = []")
    case True
    obtain l' where "apply_write E ctx c k d [] False RemoveObject INVALID_LEDGER_POS l = Some (Inr (INVALID_EVENT, l'))"
      "write_result E H l l'"
      by (rule apply_remove_absent [OF rep alloc True])
    moreover have "set_object c k [] H = H" using set_object_same [of c k H] True by simp
    ultimately show ?thesis using True by auto
  next
    case False
    obtain eid l' where "apply_write E ctx c k d [] False RemoveObject INVALID_LEDGER_POS l = Some (Inr (eid, l'))"
      "write_result E (set_object c k [] H) l l'" "is_valid eid"
      by (rule apply_remove_present [OF rep alloc key(2) False ctx fits plain_permitted [OF plain]])
    then show ?thesis using False by auto
  qed
  then show ?thesis using prep by (auto simp: ledger_remove_def checked_write_def)
qed

lemma ledger_step_correct:
  assumes rep: "ledger_rep E l H" and plain: "plain_objects E H" and alloc: "can_allocate (m_blocks l)" and ok: "op_ok E op"
  shows "\<exists>l'. ledger_step E op l = Some (Inr (fst (spec_step E op H), l')) \<and> write_result E (snd (spec_step E op H)) l l' \<and>
     plain_objects E (snd (spec_step E op H))"
proof -
  have same: "write_result E H l l" using rep by (simp add: write_result_def)
  note np = plain_no_policy [OF plain]
  show ?thesis
  proof (cases op)
    case (LPut ctx c k d)
    then have "plain_objects E (snd (spec_step E op H))"
      using plain ok plain_put_version [of E "H c k" d] by (auto simp: plain_objects_def set_object_def)
    then show ?thesis using put_step [OF rep plain alloc ok [unfolded LPut]] LPut by auto
  next
    case (LRemove ctx c k d)
    then have "plain_objects E (snd (spec_step E op H))" using plain ok by (auto intro!: plain_set_object simp: all_plain_def)
    then show ?thesis using remove_step [OF rep plain alloc ok [unfolded LRemove]] LRemove by auto
  next
    case (LGet ctx c k)
    then show ?thesis
      using first_value_correct [OF rep np, of c k ctx] same plain by (cases "H c k") auto
  next
    case (LCheck ctx c k p)
    then show ?thesis using check_correct [OF rep np, of ctx c k p] same plain by (cases "H c k") auto
  next
    case (LHas c k)
    then show ?thesis using has_object_correct [OF rep, of c k] same plain by auto
  next
    case (LCount ctx who c k)
    then show ?thesis using count_writes_correct [OF rep, of c k ctx who] plain same by (auto simp: plain_objects_def)
  qed
qed

lemma run_ledger_correct:
  "ledger_rep E l H \<Longrightarrow> plain_objects E H \<Longrightarrow> (\<forall>op\<in>set ops. op_ok E op) \<Longrightarrow>
   unat (m_next_page_no (m_blocks l)) + length ops < 2 ^ 32 \<Longrightarrow>
   \<exists>l'. run_ledger E ops l = Some (Inr (fst (run_spec E ops H), l')) \<and> ledger_rep E l' (snd (run_spec E ops H)) \<and>
     plain_objects E (snd (run_spec E ops H)) \<and> extends E l l' \<and>
     unat (m_next_page_no (m_blocks l')) \<le> unat (m_next_page_no (m_blocks l)) + length ops"
proof (induction ops arbitrary: l H)
  case (Cons op ops)
  have alloc: "can_allocate (m_blocks l)" using Cons.prems(4) by (simp add: can_allocate_def word_less_nat_alt)
  obtain l1 where step: "ledger_step E op l = Some (Inr (fst (spec_step E op H), l1))"
    and res: "write_result E (snd (spec_step E op H)) l l1" and plain: "plain_objects E (snd (spec_step E op H))"
    using ledger_step_correct [OF Cons.prems(1,2) alloc, of op] Cons.prems(3) by auto
  have rep1: "ledger_rep E l1 (snd (spec_step E op H))" and ext: "extends E l l1"
    and pg: "unat (m_next_page_no (m_blocks l1)) + length ops < 2 ^ 32"
      "unat (m_next_page_no (m_blocks l1)) \<le> unat (m_next_page_no (m_blocks l)) + 1"
    using res Cons.prems(4) by (auto simp: write_result_def)
  obtain l' where "run_ledger E ops l1 = Some (Inr (fst (run_spec E ops (snd (spec_step E op H))), l'))"
    "ledger_rep E l' (snd (run_spec E ops (snd (spec_step E op H))))" "extends E l1 l'"
    "plain_objects E (snd (run_spec E ops (snd (spec_step E op H))))"
    "unat (m_next_page_no (m_blocks l')) \<le> unat (m_next_page_no (m_blocks l1)) + length ops"
    using Cons.IH [OF rep1 plain _ pg(1)] Cons.prems(3) by auto
  then show ?case using step extends_trans [OF ext] pg(2) by (auto simp: split_beta Let_def)
qed auto

lemma new_ledger_rep: "json_roundtrip E \<Longrightarrow> ledger_rep E (new_ledger first_store) (\<lambda>_ _. [])"
  using new_ledger_correct by (simp add: ledger_rep_def object_rep_def lookup_def)

lemma run_from_new:
  assumes "json_roundtrip E" and "\<forall>op\<in>set ops. op_ok E op" and "length ops + 65 < 2 ^ 32"
  obtains l where "run_ledger E ops (new_ledger first_store) = Some (Inr (fst (run_spec E ops (\<lambda>_ _. [])), l))"
    "ledger_rep E l (snd (run_spec E ops (\<lambda>_ _. [])))" "plain_objects E (snd (run_spec E ops (\<lambda>_ _. [])))"
    "unat (m_next_page_no (m_blocks l)) \<le> 65 + length ops"
proof -
  have "plain_objects E (\<lambda>_ _. [])" by (simp add: plain_objects_def all_plain_def)
  then show ?thesis
    using run_ledger_correct [OF new_ledger_rep [OF assms(1)], of ops] assms(2,3) new_ledger_correct(4) that by auto
qed

section \<open>Examples\<close>

definition alice :: op_context where
  "alice = \<lparr>oc_identity = \<lparr>id_type = Client, id_name = ''alice''\<rparr>, oc_program = []\<rparr>"

lemma alice_valid [simp]: "context_valid alice"
  by (simp add: alice_def context_valid_def identity_eq_def INVALID_IDENTITY_def)

lemma alice_string [simp]: "context_to_string alice = ''client://alice''"
  by (simp add: alice_def context_to_string_def called_by_program_def identity_to_string_def)

lemma nat_env_roundtrip: "json_roundtrip nat_env"
  by (simp add: json_roundtrip_def write_fields_parse)

lemma nat_env_fits: "d < 10 ^ 9 \<Longrightarrow> event_fits nat_env ''client://alice'' d" "tombstone_fits nat_env ''client://alice''"
proof -
  have "length (write_fields (new_version_event ''client://alice'' pb pi d v tx)) < EVENT_LIMIT" if "d < 10 ^ 9" for pb pi v tx
    using event_length(1) [of "''client://alice''" pb pi d v tx] decimal_bytes_length [OF that] by (simp add: EVENT_LIMIT_def)
  then show "d < 10 ^ 9 \<Longrightarrow> event_fits nat_env ''client://alice'' d" by (simp add: event_fits_def)
  have "length (write_fields (tombstone_event ''client://alice'' pb pi tx)) < EVENT_LIMIT" for pb pi tx
    using event_length(2) [of "''client://alice''" pb pi tx] by (simp add: EVENT_LIMIT_def)
  then show "tombstone_fits nat_env ''client://alice''" by (simp add: tombstone_fits_def)
qed

lemma example_keys [simp]: "is_valid_key ''k''" "is_valid_key ''policy''"
  by (simp_all add: is_valid_key_def is_alnum_def Let_def)

section \<open>Properties\<close>

text \<open>
  Property C1. The ledger implements a store of versioned objects: any sequence of puts, removals, reads,
  predicate checks, existence checks and write counts, run on the empty ledger, returns and gives the
  outputs of the specification, in which a put adds a version, a removal ends the history and a count
  runs over all versions since the creation. It holds whatever the sizes and positions of the blocks,
  for documents without policies below two gigabytes.
\<close>

theorem ledger_implements_versioned_store:
  assumes "json_roundtrip E" and "\<forall>op\<in>set ops. op_ok E op" and "length ops + 65 < 2 ^ 32"
  shows "\<exists>l. run_ledger E ops (new_ledger first_store) = Some (Inr (fst (run_spec E ops (\<lambda>_ _. [])), l))"
  using run_from_new [OF assms] by blast

theorem ledger_implements_versioned_store_witness:
  "\<exists>l. run_ledger nat_env [LPut alice ''c'' ''k'' 7, LPut alice ''c'' ''k'' 8, LCount alice ''client://alice'' ''c'' ''k'',
        LGet alice ''c'' ''k'', LRemove alice ''c'' ''k'' 0, LHas ''c'' ''k''] (new_ledger first_store) =
     Some (Inr ([OutWritten True, OutWritten True, OutCount 2, OutValue (Some 8), OutWritten True, OutBool False], l))"
  using ledger_implements_versioned_store [of nat_env "[LPut alice ''c'' ''k'' 7, LPut alice ''c'' ''k'' 8,
      LCount alice ''client://alice'' ''c'' ''k'', LGet alice ''c'' ''k'', LRemove alice ''c'' ''k'' 0, LHas ''c'' ''k'']"]
  by (simp add: nat_env_roundtrip nat_env_fits set_object_def put_version_def INITIAL_VERSION_NO_def writes_of_def)

end
