(* ===== verification/Ledger_Properties.thy ===== *)
theory Ledger_Properties
  imports Ledger_Refinement
begin

text \<open>
  Further properties of the ledger: events are permanent, object policies are enforced, and four places
  where the code departs from what it announces.
\<close>

section \<open>Permanent events\<close>

lemma put_stores_event:
  assumes rep: "ledger_rep E l H" and plain: "plain_objects E H" and alloc: "can_allocate (m_blocks l)"
    and ok: "op_ok E (LPut ctx c k d)" and put: "ledger_put E ctx c k d [] False l = Some (Inr (eid, l'))"
  obtains ev where "stored E l' eid ev" "ev_shard eid = get_shard c k"
    "version_chain E l' (get_shard c k) ev (put_version (context_to_string ctx, d) (H c k))"
    "write_result E (set_object c k (put_version (context_to_string ctx, d) (H c k)) H) l l'"
proof -
  have key: "is_valid_key k" "k \<noteq> []" using ok valid_key_nonempty by auto
  have ctx: "context_valid ctx" and doc: "js_valid E d" and fits: "event_fits E (context_to_string ctx) d" using ok by auto
  have prep: "prepare_write E ctx c k [] PutObject l = Some (Inr True)"
    using prepare_write_plain [OF rep _ key(1)] plain by (simp add: plain_objects_def)
  let ?H = "set_object c k (put_version (context_to_string ctx, d) (H c k)) H"
  obtain eid' l1 where w: "apply_write E ctx c k d [] False PutObject INVALID_LEDGER_POS l = Some (Inr (eid', l1))"
    "lookup l1 c k = Some eid'" "write_result E ?H l l1"
    by (rule apply_put_correct [OF rep alloc key(2) ctx doc fits plain_permitted [OF plain]])
  have same: "eid' = eid" "l1 = l'" using put prep w(1) by (simp_all add: ledger_put_def checked_write_def)
  have H: "?H c k \<noteq> []" "?H c k = put_version (context_to_string ctx, d) (H c k)" by (simp_all add: set_object_def put_version_def)
  have "object_rep E l' c k (?H c k)" using w(3) same by (simp add: write_result_def ledger_rep_def)
  then obtain ev where ev: "stored E l' eid ev" "ev_shard eid = get_shard c k" "version_chain E l' (get_shard c k) ev (?H c k)"
    using w(2) same H(1) by (auto simp: object_rep_def)
  show ?thesis using that [OF ev(1,2)] ev(3) H(2) w(3) same by simp
qed

text \<open>A put after some operations and before others: its event and the versions before it stay in place.\<close>

lemma put_between:
  assumes rt: "json_roundtrip E" and ops: "\<forall>op\<in>set (before @ LPut ctx c k d # after). op_ok E op"
    and len: "length before + length after + 66 < 2 ^ 32"
    and run: "run_ledger E before (new_ledger first_store) = Some (Inr (outs, l1))"
    and put: "ledger_put E ctx c k d [] False l1 = Some (Inr (eid, l2))"
  obtains outs' l3 ev where "run_ledger E after l2 = Some (Inr (outs', l3))" "ledger_wf E l3" "stored E l3 eid ev"
    "ev_shard eid = get_shard c k"
    "version_chain E l3 (get_shard c k) ev (put_version (context_to_string ctx, d) (snd (run_spec E before (\<lambda>_ _. [])) c k))"
proof -
  let ?H = "snd (run_spec E before (\<lambda>_ _. []))"
  have b: "\<forall>op\<in>set before. op_ok E op" "length before + 65 < 2 ^ 32" using ops len by auto
  have rep: "ledger_rep E l1 ?H" "plain_objects E ?H" and pg: "unat (m_next_page_no (m_blocks l1)) \<le> 65 + length before"
    using run_from_new [OF rt b] run by (metis Inr_inject option.inject prod.inject)+
  have alloc: "can_allocate (m_blocks l1)" using pg len by (simp add: can_allocate_def word_less_nat_alt)
  have ok: "op_ok E (LPut ctx c k d)" using ops by simp
  obtain ev where ev: "stored E l2 eid ev" "ev_shard eid = get_shard c k"
    "version_chain E l2 (get_shard c k) ev (put_version (context_to_string ctx, d) (?H c k))"
    and res: "write_result E (set_object c k (put_version (context_to_string ctx, d) (?H c k)) ?H) l1 l2"
    by (rule put_stores_event [OF rep alloc ok put])
  let ?H2 = "set_object c k (put_version (context_to_string ctx, d) (?H c k)) ?H"
  have rep2: "ledger_rep E l2 ?H2" and pg2: "unat (m_next_page_no (m_blocks l2)) + length after < 2 ^ 32"
    using res pg len by (auto simp: write_result_def)
  have plain2: "plain_objects E ?H2"
    using rep(2) ok plain_put_version [of E "?H c k" d] by (auto simp: plain_objects_def set_object_def)
  obtain outs' l3 where run2: "run_ledger E after l2 = Some (Inr (outs', l3))" and rep3: "ledger_wf E l3" and ext: "extends E l2 l3"
    using run_ledger_correct [OF rep2 plain2 _ pg2] ops by (auto simp: ledger_rep_def)
  have "stored E l3 eid ev" using ev(1) ext by (simp add: extends_def)
  then show ?thesis using that [OF run2 rep3] ev(2) version_chain_extends [OF ev(3) ext] by blast
qed

lemma example_put:
  obtains eid l2 where "ledger_put nat_env alice ''c'' ''k'' 7 [] False (new_ledger first_store) = Some (Inr (eid, l2))"
proof -
  have ok: "op_ok nat_env (LPut alice ''c'' ''k'' 7)" by (simp add: nat_env_fits)
  have alloc: "can_allocate (m_blocks (new_ledger first_store))"
    using new_ledger_correct(4) by (simp add: can_allocate_def word_less_nat_alt)
  have "\<exists>r. ledger_step nat_env (LPut alice ''c'' ''k'' 7) (new_ledger first_store) = Some (Inr r)"
    using put_step [OF new_ledger_rep [OF nat_env_roundtrip] _ alloc ok] by (auto simp: plain_objects_def all_plain_def)
  then show thesis using that by (auto simp: obind_def rbind_eq_Inr split: option.splits)
qed

text \<open>
  Property C4. Events are permanent: the identifier a put returns gives the event with the written value
  and the writer's identity, after any further operations, including later versions, the removal of the
  object and the closing of its block.
\<close>

theorem put_event_permanent:
  assumes rt: "json_roundtrip E" and ops: "\<forall>op\<in>set (before @ LPut ctx c k d # after). op_ok E op"
    and len: "length before + length after + 66 < 2 ^ 32"
    and run: "run_ledger E before (new_ledger first_store) = Some (Inr (outs, l1))"
    and put: "ledger_put E ctx c k d [] False l1 = Some (Inr (eid, l2))"
  shows "\<exists>outs' l3 ev. run_ledger E after l2 = Some (Inr (outs', l3)) \<and> get_event E eid l3 = Inr (Some ev) \<and>
     event_value (Some ev) = Inr d \<and> source (Some ev) = Inr (context_to_string ctx)"
  using put_between [OF assms] stored_get_event [OF rt] version_chainD(3,5) by (metis (no_types, lifting) fst_conv snd_conv list.sel(1) put_version_def)

theorem put_event_permanent_witness:
  "\<exists>eid l2 outs' l3 ev. ledger_put nat_env alice ''c'' ''k'' 7 [] False (new_ledger first_store) = Some (Inr (eid, l2)) \<and>
     run_ledger nat_env [LRemove alice ''c'' ''k'' 0] l2 = Some (Inr (outs', l3)) \<and> get_event nat_env eid l3 = Inr (Some ev) \<and>
     event_value (Some ev) = Inr 7"
proof -
  let ?l = "new_ledger first_store"
  have ok: "op_ok nat_env (LPut alice ''c'' ''k'' 7)" "op_ok nat_env (LRemove alice ''c'' ''k'' 0)" by (simp_all add: nat_env_fits)
  have run: "run_ledger nat_env [] ?l = Some (Inr ([], ?l))" by simp
  obtain eid l2 where put: "ledger_put nat_env alice ''c'' ''k'' 7 [] False ?l = Some (Inr (eid, l2))" by (rule example_put)
  have ops: "\<forall>op\<in>set ([] @ LPut alice ''c'' ''k'' 7 # [LRemove alice ''c'' ''k'' 0]). op_ok nat_env op" using ok by simp
  have "\<exists>outs' l3 ev. run_ledger nat_env [LRemove alice ''c'' ''k'' 0] l2 = Some (Inr (outs', l3)) \<and>
     get_event nat_env eid l3 = Inr (Some ev) \<and> event_value (Some ev) = Inr 7 \<and> source (Some ev) = Inr (context_to_string alice)"
    by (rule put_event_permanent [OF nat_env_roundtrip ops _ run put]) simp
  then show ?thesis using put by blast
qed

section \<open>Policies\<close>

text \<open>
  Property C6. An object policy is enforced by the operations that ask for it. When the newest version of an object has
  a policy that denies the operation, or whose program fails, then \<open>apply_write\<close>, through which every put, add and remove goes, alone
  or as part of a transaction, changes no object and returns no event; \<open>get_latest_version\<close>, through which get, check, find and the validation of a
  transaction read, does not give the object; and an iteration over its versions and a check find nothing. Other operations do
  not ask for the policy of the object, and nothing is claimed of them: \<open>has_object\<close>, reading an event by its identifier
  (\<open>get_event\<close>, \<open>create_witness\<close>), and \<open>clear\<close>.
\<close>

theorem object_policy_enforced:
  assumes rep: "ledger_rep E l H" and alloc: "can_allocate (m_blocks l)" and live: "H c k \<noteq> []"
    and denied: "write_permitted E ctx c k path op_type (H c k) l = Inr False"
  shows "(\<exists>l'. apply_write E ctx c k doc path nested op_type tx l = Some (Inr (INVALID_EVENT, l')) \<and>
      ledger_rep E l' H \<and> extends E l l') \<and>
    (\<exists>eid. get_latest_version E ctx c k path op_type l = Some (Inr (eid, None))) \<and>
    (op_type = GetObject \<longrightarrow> first_value E ctx c k path l = Some (Inr (INVALID_EVENT, None)) \<and>
      ledger_check E ctx c k path predicate l = Some (Inr False))"
proof (intro conjI impI)
  let ?policy = "js_path E (snd (hd (H c k))) ''policy''"
  have deny: "\<not> js_empty E ?policy" "check_object_policy E ?policy ctx c k path op_type l = Inr False"
    using denied live by (cases "H c k"; simp add: write_permitted_def split: if_splits)+
  obtain pid cont where pv: "version_chain E l (get_shard c k) cont (H c k)"
    and app: "apply_write E ctx c k doc path False op_type tx l =
       Some (rbind (write_version E ctx c k doc path op_type tx (word_of_nat (Suc (length (H c k)))) pid (Some cont) l)
         (\<lambda>(eid, l'). rbind (organize_ledger (get_shard c k) l') (\<lambda>l''. Inr (eid, l''))))"
      "apply_write E ctx c k doc path True op_type tx l =
       Some (write_version E ctx c k doc path op_type tx (word_of_nat (Suc (length (H c k)))) pid (Some cont) l)"
    using apply_write_cases [OF ledger_rep_holds [OF rep]] live by (metis (no_types, lifting))
  have wr: "write_version E ctx c k doc path op_type tx n pid (Some cont) l = Inr (INVALID_EVENT, l)" for n
    using version_chainD(3) [OF pv] deny by (simp add: write_version_def Let_def get_policy_def)
  obtain l' where "organize_ledger (get_shard c k) l = Inr l'" "write_result E H l l'"
    by (rule organize_unchanged [OF rep alloc])
  then show "\<exists>l'. apply_write E ctx c k doc path nested op_type tx l = Some (Inr (INVALID_EVENT, l')) \<and>
      ledger_rep E l' H \<and> extends E l l'"
    using app wr rep extends_refl [of E l] by (cases nested) (auto simp: write_result_def)
  show latest: "\<exists>eid. get_latest_version E ctx c k path op_type l = Some (Inr (eid, None))"
    using rep
  proof (cases rule: object_cases [where collection = c and key = k])
    case (live eid cont)
    then show ?thesis
      using version_chainD [OF live(7)] deny by (simp add: get_latest_version_def latest_version_from_simps get_policy_def)
  qed (use live in simp_all)
  assume "op_type = GetObject"
  then show "first_value E ctx c k path l = Some (Inr (INVALID_EVENT, None))" "ledger_check E ctx c k path predicate l = Some (Inr False)"
    using latest by (auto simp: first_value_def iterate_def iterator_next_def next_handle_def check_event_def ledger_check_def)
qed

text \<open>The examples: documents that are their own policy, with a program that denies everything.\<close>

definition deny_objects :: "nat ledger_env" where
  "deny_objects = nat_env\<lparr>js_path := (\<lambda>d _. d), run_object_policy := (\<lambda>_ _ _ _ _ _ _. Inr False)\<rparr>"

definition deny_collections :: "nat ledger_env" where
  "deny_collections = nat_env\<lparr>run_collection_policy := (\<lambda>_ _ _ _ _ _ _. Inr False)\<rparr>"

lemma deny_json [simp]:
  "js_write deny_objects = write_fields" "js_write deny_collections = write_fields"
  "js_parse deny_objects = parse_fields" "js_parse deny_collections = parse_fields"
  "js_valid deny_objects d" "js_valid deny_collections d" "js_empty deny_objects d \<longleftrightarrow> d = 0" "js_empty deny_collections d \<longleftrightarrow> d = 0"
  "js_path deny_objects d p = d" "js_path deny_collections d p = 0" "js_program deny_objects d = Inr []" "js_program deny_collections d = Inr []"
  "run_object_policy deny_objects bs ctx c k p t l = Inr False" "run_collection_policy deny_collections bs ctx c k p t l = Inr False"
  by (simp_all add: deny_objects_def deny_collections_def nat_env_def)

lemma deny_roundtrip: "json_roundtrip deny_objects" "json_roundtrip deny_collections"
  using nat_env_roundtrip by (simp_all add: json_roundtrip_def)

lemma deny_fits: "d < 10 ^ 9 \<Longrightarrow> event_fits deny_objects ''client://alice'' d" "d < 10 ^ 9 \<Longrightarrow> event_fits deny_collections ''client://alice'' d"
  using nat_env_fits by (simp_all add: event_fits_def)

lemma new_ledger_allocates: "can_allocate (m_blocks (new_ledger first_store))"
  using new_ledger_correct(4) by (simp add: can_allocate_def word_less_nat_alt)

text \<open>A ledger with one object, written by \<open>alice\<close>.\<close>

lemma one_object_ledger:
  fixes E :: "('d, 'z) ledger_env_scheme"
  assumes "json_roundtrip E" and "event_fits E ''client://alice'' d" and "js_valid E d" and "k \<noteq> []"
  obtains l where "ledger_rep E l (set_object c k [(''client://alice'', d)] (\<lambda>_ _. []))" "can_allocate (m_blocks l)"
    "\<And>c' k'. k' \<noteq> k \<Longrightarrow> lookup l c' k' = None"
proof -
  let ?l = "new_ledger first_store"
  have fits: "event_fits E (context_to_string alice) d" using assms(2) by simp
  have permitted: "write_permitted E alice c k [] PutObject ((\<lambda>_ _. []) c k) ?l = Inr True" by (simp add: write_permitted_def)
  obtain eid l where "write_result E (set_object c k (put_version (context_to_string alice, d) ((\<lambda>_ _. []) c k)) (\<lambda>_ _. [])) ?l l"
    by (rule apply_put_correct [OF new_ledger_rep [OF assms(1)] new_ledger_allocates assms(4) alice_valid assms(3) fits permitted])
  moreover have "lookup ?l c' k' = None" for c' k' by (simp add: lookup_def new_ledger_correct(3))
  ultimately show ?thesis
    using that [of l] new_ledger_correct(4)
    by (simp add: write_result_def put_version_def INITIAL_VERSION_NO_def can_allocate_def word_less_nat_alt set_object_def)
qed

theorem object_policy_enforced_witness:
  "\<exists>l l'. has_object deny_objects ''c'' ''k'' l = Inr True \<and>
     apply_write deny_objects alice ''c'' ''k'' 9 [] False PutObject INVALID_LEDGER_POS l = Some (Inr (INVALID_EVENT, l'))"
proof -
  let ?H = "set_object ''c'' ''k'' [(''client://alice'', 7)] (\<lambda>_ _. [])"
  have fits: "event_fits deny_objects ''client://alice'' 7" by (simp add: deny_fits)
  obtain l where l: "ledger_rep deny_objects l ?H" "can_allocate (m_blocks l)"
    by (rule one_object_ledger [OF deny_roundtrip(1) fits, of "''k''" "''c''"]) simp_all
  have live: "?H ''c'' ''k'' \<noteq> []" by (simp add: set_object_def)
  have "write_permitted deny_objects alice ''c'' ''k'' [] PutObject (?H ''c'' ''k'') l = Inr False"
    by (simp add: write_permitted_def set_object_def check_object_policy_def execute_policy_def)
  then obtain l' where "apply_write deny_objects alice ''c'' ''k'' 9 [] False PutObject INVALID_LEDGER_POS l = Some (Inr (INVALID_EVENT, l'))"
    using object_policy_enforced [OF l live, of alice "[]" PutObject 9 False INVALID_LEDGER_POS] by blast
  moreover have "has_object deny_objects ''c'' ''k'' l = Inr True"
    using has_object_correct [OF l(1), of "''c''" "''k''"] live by simp
  ultimately show ?thesis by blast
qed

lemma put_fresh_key_first:
  assumes rep: "ledger_rep E l H" and ctx: "context_valid ctx" and doc: "js_valid E d"
    and fits: "event_fits E (context_to_string ctx) d" and fresh: "lookup l c (keys n) = None"
  obtains eid l1 pid where "put_fresh_key E ctx c keys d n l = Some (Inr (eid, keys n, l1))" "is_valid eid"
    "object_updated E c (keys n) eid (next_event (context_to_string ctx) d INITIAL_VERSION_NO pid INVALID_LEDGER_POS) l l1"
proof -
  let ?c = "\<lambda>pid. next_event (context_to_string ctx) d INITIAL_VERSION_NO pid INVALID_LEDGER_POS"
  have rt: "json_roundtrip E" "ledger_wf E l" "ledger_small l" using rep by (auto simp: ledger_rep_def)
  have ev: "get_latest_event E c (keys n) l = Inr (INVALID_EVENT, None)"
    using rep latest_event_absent [OF _ fresh] unfolding ledger_rep_def by blast
  have prev: "if event_valid None then event_version None = Inr x \<and> INITIAL_VERSION_NO = x + 1 \<and> event_value None = Inr d
      else INITIAL_VERSION_NO = INITIAL_VERSION_NO" for x by simp
  have room: "has_room (get_shard c (keys n)) (length (js_write E (?c INVALID_EVENT))) l"
    using fits by (intro small_has_room [OF rt(2,3) get_shard_less]) (simp add: event_fits_def next_event_def)
  obtain eid l1 where put: "put_next_version E ctx c (keys n) d INITIAL_VERSION_NO INVALID_EVENT None INVALID_LEDGER_POS l = Inr (eid, l1)"
    and upd: "object_updated E c (keys n) eid (?c INVALID_EVENT) l l1"
    by (rule put_next_version_correct [OF rt(1,2) ctx doc prev room])
  have "ledger_wf E l1" "stored E l1 eid (?c INVALID_EVENT)" using upd by (auto simp: object_updated_def)
  then have valid: "is_valid eid" by (rule stored_is_valid)
  then have "eid \<noteq> INVALID_EVENT" by auto
  then have "put_fresh_key E ctx c keys d n l = Some (Inr (eid, keys n, l1))"
    using ev put by (subst put_fresh_key.simps) simp
  then show ?thesis using that upd valid by blast
qed

text \<open>
  Property C36. Collection policies are not enforced for objects created without a key: when the policy of
  the collection denies the write, a put with that key is rejected, but \<open>put_without_key\<close> stores the
  document under the same key.
\<close>

theorem put_without_key_ignores_policy:
  assumes rep: "ledger_rep E l H" and alloc: "can_allocate (m_blocks l)" and ctx: "context_valid ctx" and doc: "js_valid E d"
    and fits: "event_fits E (context_to_string ctx) d" and fresh: "lookup l c (keys 0) = None" and key: "keys 0 \<noteq> []"
    and denied: "prepare_write E ctx c (keys 0) [] PutObject l = Some (Inr False)"
  shows "ledger_put E ctx c (keys 0) d [] False l = Some (Inr (INVALID_EVENT, l)) \<and>
     (\<exists>eid l'. put_without_key E ctx c keys d False l = Some (Inr (eid, keys 0, l')) \<and> is_valid eid \<and>
        ledger_rep E l' (set_object c (keys 0) [(context_to_string ctx, d)] H))"
proof
  show "ledger_put E ctx c (keys 0) d [] False l = Some (Inr (INVALID_EVENT, l))"
    using denied by (simp add: ledger_put_def checked_write_def)
  obtain eid l1 pid where put: "put_fresh_key E ctx c keys d 0 l = Some (Inr (eid, keys 0, l1))" "is_valid eid"
    and upd: "object_updated E c (keys 0) eid (next_event (context_to_string ctx) d INITIAL_VERSION_NO pid INVALID_LEDGER_POS) l l1"
    by (rule put_fresh_key_first [where n = 0 and keys = keys, OF rep ctx doc fits fresh])
  have chain: "if [(context_to_string ctx, d)] = []
      then is_tombstone (next_event (context_to_string ctx) d INITIAL_VERSION_NO pid INVALID_LEDGER_POS)
      else version_chain E l1 (get_shard c (keys 0)) (next_event (context_to_string ctx) d INITIAL_VERSION_NO pid INVALID_LEDGER_POS)
        [(context_to_string ctx, d)]"
    using next_event_chain [of "[]" E l1 "get_shard c (keys 0)" pid "context_to_string ctx" d INVALID_LEDGER_POS]
    by (simp add: put_version_def INITIAL_VERSION_NO_def)
  obtain l' where "organize_ledger (get_shard c (keys 0)) l1 = Inr l'"
    "write_result E (set_object c (keys 0) [(context_to_string ctx, d)] H) l l'"
    by (rule organize_after_update [OF rep upd key alloc _ chain]) simp_all
  then show "\<exists>eid l'. put_without_key E ctx c keys d False l = Some (Inr (eid, keys 0, l')) \<and> is_valid eid \<and>
        ledger_rep E l' (set_object c (keys 0) [(context_to_string ctx, d)] H)"
    using put by (auto simp: put_without_key_def write_result_def)
qed

lemma collection_policy_denies:
  assumes rep: "ledger_rep deny_collections l (set_object c ''policy'' [(''client://alice'', d)] (\<lambda>_ _. []))"
  shows "prepare_write deny_collections alice c ''k'' [] PutObject l = Some (Inr False)"
proof -
  let ?H = "set_object c ''policy'' [(''client://alice'', d)] (\<lambda>_ _. [])"
  have H: "?H c ''policy'' = [(''client://alice'', d)]" by (simp add: set_object_def)
  have np: "no_policy deny_collections [(''client://alice'', d)]" by (simp add: no_policy_def)
  obtain eid cont where it: "iterate deny_collections empty_context c ''policy'' [] l =
      Some (Inr (new_iterator empty_context c ''policy'' [] eid (Some cont)))" "is_valid eid"
    "version_chain deny_collections l (get_shard c ''policy'') cont [(''client://alice'', d)]"
    using iterate_correct [OF rep, of c "''policy''" empty_context "[]"] H np by auto
  show ?thesis
    by (simp add: prepare_write_def check_collection_policy_def it iterator_next_first(2) [OF it(3) np] execute_policy_def)
qed

theorem put_without_key_ignores_policy_witness:
  "\<exists>l eid l'. ledger_put deny_collections alice ''c'' ''k'' 9 [] False l = Some (Inr (INVALID_EVENT, l)) \<and>
     put_without_key deny_collections alice ''c'' (\<lambda>_. ''k'') 9 False l = Some (Inr (eid, ''k'', l')) \<and> is_valid eid"
proof -
  let ?H = "set_object ''c'' ''policy'' [(''client://alice'', 5)] (\<lambda>_ _. [])"
  have fits: "event_fits deny_collections ''client://alice'' 5" "event_fits deny_collections (context_to_string alice) 9"
    by (simp_all add: deny_fits)
  obtain l where l: "ledger_rep deny_collections l ?H" "can_allocate (m_blocks l)" and fresh: "\<And>c' k'. k' \<noteq> ''policy'' \<Longrightarrow> lookup l c' k' = None"
    by (rule one_object_ledger [OF deny_roundtrip(2) fits(1), of "''policy''" "''c''"]) simp_all
  have "ledger_put deny_collections alice ''c'' ''k'' 9 [] False l = Some (Inr (INVALID_EVENT, l)) \<and>
     (\<exists>eid l'. put_without_key deny_collections alice ''c'' (\<lambda>_. ''k'') 9 False l = Some (Inr (eid, ''k'', l')) \<and> is_valid eid \<and>
        ledger_rep deny_collections l' (set_object ''c'' ''k'' [(context_to_string alice, 9)] ?H))"
    by (rule put_without_key_ignores_policy [where keys = "\<lambda>_. ''k''", OF l alice_valid _ fits(2)])
      (simp_all add: fresh collection_policy_denies [OF l(1)])
  then show ?thesis by blast
qed

text \<open>
  \<open>put_without_key\<close> never returns when it is given an invalid document: the write is refused
  under every key, and the loop draws the next key for ever.
\<close>

lemma put_without_key_invalid_document:
  assumes rep: "ledger_rep E l H" and ctx: "context_valid ctx" and invalid: "\<not> js_valid E d"
  shows "put_without_key E ctx c keys d nested l = None"
proof -
  have latest: "\<exists>r. get_latest_event E c k l = Inr r" for k
    using rep by (cases rule: object_cases [where collection = c and key = k]) auto
  have refused: "put_next_version E ctx c k d INITIAL_VERSION_NO pid h INVALID_LEDGER_POS l = Inr (INVALID_EVENT, l)" for k pid h
    by (simp add: put_next_version_def ctx invalid)
  have "\<not> (E = E \<and> ctx = ctx \<and> c = c \<and> keys = keys \<and> d = d \<and> l = l)" if "put_fresh_key E ctx c keys d n l = Some r" for n r
  proof (rule put_fresh_key.raw_induct [OF _ that, where P = "\<lambda>E' ctx' c' keys' d' n' l' r'.
          \<not> (E' = E \<and> ctx' = ctx \<and> c' = c \<and> keys' = keys \<and> d' = d \<and> l' = l)"], goal_cases)
    case (1 f E' ctx' c' keys' d' n' l' r')
    show ?case using 1(2) 1(1) [of E ctx c keys d "Suc n'" l r'] latest [of "keys n'"] by (auto simp: refused split: if_splits)
  qed
  then have "put_fresh_key E ctx c keys d 0 l = None" by (cases "put_fresh_key E ctx c keys d 0 l") auto
  then show ?thesis by (simp add: put_without_key_def)
qed

section \<open>Announced event identifiers\<close>

text \<open>
  The identifiers that \<open>get_next_event_ids\<close> announces are not those of the next events: the
  first one announced has an index one above the index that the next event of the shard gets.
\<close>

lemma next_event_ids_off_by_one:
  assumes wf: "ledger_wf E l" and s: "unat s < NUM_SHARDS"
  shows "\<exists>p i l'. get_next_event_ids [] s 1 l = Inr [mk_event_id s p (i + 1)] \<and> append_event E s event l = Inr (mk_event_id s p i, l')"
proof -
  obtain b where b: "pages (m_blocks l) (pending_id l (unat s)) = Some b" "is_pending b" using ledger_wfD(5) [OF wf s] by blast
  note pending = pending_block_eq [OF wf s b(1)]
  have "m_file_pos (grow_index b) = m_file_pos b" by (simp add: grow_index_def)
  then obtain b' where "block_insert (js_write E event) b = Inr (m_file_pos b, b')"
    using b(2) by (simp add: block_insert_def is_pending_def Let_def)
  then show ?thesis
    using pending by (intro exI [of _ "pending_id l (unat s)"] exI [of _ "m_file_pos b"])
      (simp add: get_next_event_ids_def append_event_def num_entries_def)
qed

section \<open>Secondary indexes\<close>

text \<open>
  An update leaves the key of the object in a secondary index under its old value: every write
  enters the key twice, and only one entry is removed when the indexed value changes.
\<close>

lemma index_keeps_old_entry:
  assumes view: "js_force_select E d1 (ix_paths ix) = Some v1" "js_force_select E d2 (ix_paths ix) = Some v2"
    and hash: "js_hash E v1 \<noteq> js_hash E v2" and differ: "\<not> index_compare E d1 d2 ix"
    and create: "update_indexes E INITIAL_VERSION_NO None d1 key [(n, ix)] = Inr ixs"
    and version: "version \<noteq> INITIAL_VERSION_NO" "event_value pv = Inr d1"
    and update: "update_indexes E version pv d2 key ixs = Inr ixs'"
  shows "\<exists>ix'. ixs' = [(n, ix')] \<and> key \<in># ix_map ix' (js_hash E v1) \<and>
     count (ix_map ix' (js_hash E v2)) key = count (ix_map ix (js_hash E v2)) key + 2"
  using assms by (auto simp: update_indexes_def insert_indexes_def index_insert_def index_remove_def replace_in_index_def index_compare_def)

end
