(* ===== verification/Ledger_Query.thy ===== *)
theory Ledger_Query
  imports Ledger_Properties "HOL-Library.List_Lexorder" "HOL-Library.Char_ord"
begin

text \<open>
  Queries over a collection (\<open>Ledger::find\<close>, \<open>count_objects\<close>, \<open>create_index\<close> and \<open>prepare_call\<close> of
  \<open>src/src/enclave/Ledger.cpp\<close>, \<open>ObjectListIterator.cpp\<close>, \<open>ObjectKeyProvider.cpp\<close>,
  \<open>Collection::create_index\<close>). A query takes its candidate keys from the secondary indexes that match
  its predicate, or from a scan of the primary index, and filters the current versions of the
  candidates. The order in which a hash table or an unordered set gives its elements is not specified:
  it is the argument \<open>ord\<close>. A list iterator is modelled for a ledger that does not change while it is
  used, so its key provider holds the keys from the start.
\<close>

section \<open>Key providers\<close>

record key_vector =
  m_identifiers :: "string list"
  m_key_position :: nat

definition vector_key_provider :: "string list \<Rightarrow> key_vector" where
  "vector_key_provider identifiers = \<lparr>m_identifiers = identifiers, m_key_position = 0\<rparr>"

definition vector_get_next_key :: "key_vector \<Rightarrow> (string \<times> key_vector) option" where
  "vector_get_next_key kv =
     (if m_key_position kv = length (m_identifiers kv) then None
      else Some (m_identifiers kv ! m_key_position kv, kv\<lparr>m_key_position := m_key_position kv + 1\<rparr>))"

text \<open>The difference of the two positions is taken the wrong way round.\<close>

definition vector_count_rest :: "key_vector \<Rightarrow> u64" where
  "vector_count_rest kv = word_of_nat (length (m_identifiers kv)) - (0 - word_of_nat (m_key_position kv))"

section \<open>List iterators\<close>

record 'd list_iterator =
  li_context :: op_context
  li_collection :: string
  li_predicates :: 'd
  li_keys :: "key_vector option"

definition new_list_iterator :: "op_context \<Rightarrow> string \<Rightarrow> 'd \<Rightarrow> key_vector option \<Rightarrow> 'd list_iterator" where
  "new_list_iterator ctx collection predicates keys =
     \<lparr>li_context = ctx, li_collection = collection, li_predicates = predicates, li_keys = keys\<rparr>"

text \<open>\<open>next\<close> gives the event identifier, the key it stopped at, the event and the iterator after the call.\<close>

partial_function (option) list_next ::
  "('d, 'z) ledger_env_scheme \<Rightarrow> ledger \<Rightarrow> string \<Rightarrow> 'd list_iterator \<Rightarrow>
     ((event_id_t \<times> string \<times> 'd event_handle) \<times> 'd list_iterator) result option" where
  "list_next E l key it =
     (case Option.bind (li_keys it) vector_get_next_key of
        None \<Rightarrow> Some (Inr ((INVALID_EVENT, key, None), it))
      | Some (key', kv) \<Rightarrow>
          let it' = it\<lparr>li_keys := Some kv\<rparr>
          in case get_latest_version E (li_context it) (li_collection it) key' [] GetObject l of
               None \<Rightarrow> None
             | Some (Inl e) \<Rightarrow> Some (Inl e)
             | Some (Inr (eid, res)) \<Rightarrow>
                 if \<not> event_valid res then list_next E l key' it'
                 else case event_value res of
                        Inl e \<Rightarrow> Some (Inl e)
                      | Inr view \<Rightarrow>
                          if js_matches E view (li_predicates it) then Some (Inr ((eid, key', res), it'))
                          else list_next E l key' it')"

text \<open>The loop around \<open>next\<close> that every caller runs, with the caller's state \<open>acc\<close>.\<close>

partial_function (option) for_each_match ::
  "('d, 'z) ledger_env_scheme \<Rightarrow> ledger \<Rightarrow> (string \<Rightarrow> 'd event_handle \<Rightarrow> 'a \<Rightarrow> 'a result) \<Rightarrow> string \<Rightarrow> 'd list_iterator \<Rightarrow> 'a \<Rightarrow>
     'a result option" where
  "for_each_match E l body key it acc =
     (case list_next E l key it of
        None \<Rightarrow> None
      | Some (Inl e) \<Rightarrow> Some (Inl e)
      | Some (Inr ((eid, key', event), it')) \<Rightarrow>
          if \<not> is_valid eid then Some (Inr acc)
          else case body key' event acc of
                 Inl e \<Rightarrow> Some (Inl e)
               | Inr acc' \<Rightarrow> for_each_match E l body key' it' acc')"

section \<open>Choosing the candidates\<close>

fun select_indexes ::
  "('d, 'z) json_lib_scheme \<Rightarrow> 'd \<Rightarrow> (string \<times> index) list \<Rightarrow> string list \<Rightarrow> (nat \<times> index) list \<Rightarrow> (nat \<times> index) list result" where
  "select_indexes E predicates [] paths indexes = Inr indexes"
| "select_indexes E predicates ((name, ix) # rest) paths indexes =
     (if list_all (\<lambda>p. p \<in> set paths) (ix_paths ix) \<or> \<not> matches_query E predicates ix
      then select_indexes E predicates rest paths indexes
      else let view = js_select E predicates (ix_paths ix)
           in if js_empty E view then select_indexes E predicates rest paths indexes
              else if js_size E view > 1 then Inl (RuntimeError ''Fixme'')
              else rbind (index_estimate E view ix) (\<lambda>estimate.
                     select_indexes E predicates rest (ix_paths ix @ paths) (indexes @ [(estimate, ix)])))"

fun merge_candidates ::
  "('d, 'z) json_lib_scheme \<Rightarrow> 'd \<Rightarrow> bool \<Rightarrow> (nat \<times> index) list \<Rightarrow> string set \<Rightarrow> string set result" where
  "merge_candidates E predicates first [] candidates = Inr candidates"
| "merge_candidates E predicates first ((estimate, ix) # rest) candidates =
     (let view = js_select E predicates (ix_paths ix)
      in if js_size E view > 1 then Inl (RuntimeError ''Fixme'')
         else rbind (index_find E view candidates (if first then Union else Intersect) ix)
                (merge_candidates E predicates False rest))"

definition ledger_find ::
  "('d, 'z) ledger_env_scheme \<Rightarrow> (string set \<Rightarrow> string list) \<Rightarrow> op_context \<Rightarrow> string \<Rightarrow> 'd \<Rightarrow> ledger \<Rightarrow> 'd list_iterator result" where
  "ledger_find E ord ctx collection predicates l =
     (case try_get_collection collection l of
        None \<Rightarrow> Inr (new_list_iterator ctx collection predicates None)
      | Some col \<Rightarrow>
          rbind (select_indexes E predicates (c_secondary col) [] []) (\<lambda>indexes.
            if indexes \<noteq> []
            then rbind (merge_candidates E predicates True (sort_key fst indexes) {}) (\<lambda>candidates.
                   Inr (new_list_iterator ctx collection predicates (Some (vector_key_provider (ord candidates)))))
            else Inr (new_list_iterator ctx collection predicates (Some (vector_key_provider (ord (dom (c_primary col))))))))"

definition num_objects :: "ledger \<Rightarrow> u64" where
  "num_objects l = m_object_count l"

definition count_objects ::
  "('d, 'z) ledger_env_scheme \<Rightarrow> (string set \<Rightarrow> string list) \<Rightarrow> op_context \<Rightarrow> string \<Rightarrow> 'd \<Rightarrow> ledger \<Rightarrow> u32 result option" where
  "count_objects E ord ctx collection predicates l =
     (if collection = [] then Some (Inr (ucast (num_objects l)))
      else case ledger_find E ord ctx collection predicates l of
        Inl e \<Rightarrow> Some (Inl e)
      | Inr it \<Rightarrow> for_each_match E l (\<lambda>_ _ count. Inr (count + 1)) [] it 0)"

section \<open>Creating an index\<close>

text \<open>The enclave reads the objects under its own identity, \<open>enclave_context\<close>.\<close>

definition create_index ::
  "('d, 'z) ledger_env_scheme \<Rightarrow> (string set \<Rightarrow> string list) \<Rightarrow> op_context \<Rightarrow> string \<Rightarrow> string list \<Rightarrow> ledger \<Rightarrow> collection \<Rightarrow>
     (bool \<times> collection) result option" where
  "create_index E ord enclave_context name paths l col =
     (if map_of (c_secondary col) name \<noteq> None then Some (Inr (False, col))
      else case new_hash_index name paths of
        Inl e \<Rightarrow> Some (Inl e)
      | Inr ix \<Rightarrow>
          obind (for_each_match E l (\<lambda>key event ix. rbind (event_value event) (\<lambda>view. Inr (snd (index_insert E view key ix)))) []
                   (new_list_iterator enclave_context (c_name col) (js_blank E) (Some (vector_key_provider (ord (dom (c_primary col)))))) ix)
            (\<lambda>ix'. Inr (True, add_index name ix' col)))"

definition ledger_create_index ::
  "('d, 'z) ledger_env_scheme \<Rightarrow> (string set \<Rightarrow> string list) \<Rightarrow> op_context \<Rightarrow> string \<Rightarrow> string \<Rightarrow> string list \<Rightarrow> ledger \<Rightarrow>
     (bool \<times> ledger) result option" where
  "ledger_create_index E ord enclave_context collection name paths l =
     (case get_collection collection True l of
        Inl e \<Rightarrow> Some (Inl e)
      | Inr (col, l1) \<Rightarrow>
          obind (create_index E ord enclave_context name paths l1 col) (\<lambda>(ok, col'). Inr (ok, set_collection collection col' l1)))"

section \<open>Programs and cached blocks\<close>

text \<open>An empty byte string stands for "no such program".\<close>

definition prepare_call ::
  "('d, 'z) ledger_env_scheme \<Rightarrow> op_context \<Rightarrow> string \<Rightarrow> string \<Rightarrow> string \<Rightarrow> ledger \<Rightarrow> u8 list result option" where
  "prepare_call E ctx collection key path l =
     obind (get_latest_version E ctx collection key path CallProgram l) (\<lambda>(eid, hdl).
       if \<not> event_valid hdl then Inr []
       else rbind (event_value_at E path hdl) (\<lambda>val. Inr (case js_binary E val of None \<Rightarrow> [] | Some program \<Rightarrow> program)))"

fun discard_pending_blocks :: "shard list \<Rightarrow> shard list result" where
  "discard_pending_blocks [] = Inr []"
| "discard_pending_blocks (sh # shs) =
     rbind (discard_pending_block sh) (\<lambda>(_, sh'). rbind (discard_pending_blocks shs) (\<lambda>shs'. Inr (sh' # shs')))"

definition clear_cached_blocks :: "ledger \<Rightarrow> ledger result" where
  "clear_cached_blocks l = rbind (discard_pending_blocks (m_shards l)) (\<lambda>shs. Inr (l\<lparr>m_shards := shs\<rparr>))"

section \<open>What a list iterator gives\<close>

definition current :: "'d objects \<Rightarrow> string \<Rightarrow> string \<Rightarrow> 'd option" where
  "current H c k = (case H c k of [] \<Rightarrow> None | v # _ \<Rightarrow> Some (snd v))"

definition matching :: "('d, 'z) json_lib_scheme \<Rightarrow> 'd objects \<Rightarrow> string \<Rightarrow> 'd \<Rightarrow> string \<Rightarrow> bool" where
  "matching E H c p k = (case current H c k of None \<Rightarrow> False | Some d \<Rightarrow> js_matches E d p)"

text \<open>The keys an iterator still has to look at.\<close>

definition keys_left :: "'d list_iterator \<Rightarrow> string list \<Rightarrow> bool" where
  "keys_left it ks = (case li_keys it of
       None \<Rightarrow> ks = []
     | Some kv \<Rightarrow> m_key_position kv \<le> length (m_identifiers kv) \<and> drop (m_key_position kv) (m_identifiers kv) = ks)"

lemma keys_left_Nil: "keys_left it [] \<Longrightarrow> Option.bind (li_keys it) vector_get_next_key = None"
  by (cases "li_keys it") (simp_all add: keys_left_def vector_get_next_key_def)

lemma keys_left_Cons:
  assumes "keys_left it (k # ks)"
  obtains kv where "Option.bind (li_keys it) vector_get_next_key = Some (k, kv)" "keys_left (it\<lparr>li_keys := Some kv\<rparr>) ks"
proof (cases "li_keys it")
  case (Some kv)
  then have d: "drop (m_key_position kv) (m_identifiers kv) = k # ks" and "m_key_position kv \<le> length (m_identifiers kv)"
    using assms by (auto simp: keys_left_def)
  then have less: "m_key_position kv < length (m_identifiers kv)" by (metis drop_all leI list.distinct(1))
  have "m_identifiers kv ! m_key_position kv = k" "drop (Suc (m_key_position kv)) (m_identifiers kv) = ks"
    using d Cons_nth_drop_Suc [OF less] by simp_all
  then show ?thesis
    using that [of "kv\<lparr>m_key_position := m_key_position kv + 1\<rparr>"] Some less
    by (simp add: keys_left_def vector_get_next_key_def)
qed (use assms in \<open>simp add: keys_left_def\<close>)

lemma current_read:
  assumes rep: "ledger_rep E l H" and plain: "plain_objects E H"
  shows "case current H c k of
      None \<Rightarrow> \<exists>eid. get_latest_version E ctx c k path t l = Some (Inr (eid, None))
    | Some d \<Rightarrow> \<exists>eid ev. get_latest_version E ctx c k path t l = Some (Inr (eid, Some ev)) \<and> is_valid eid \<and> event_value (Some ev) = Inr d"
proof -
  have wf: "ledger_wf E l" using rep by (simp add: ledger_rep_def)
  show ?thesis
    using get_latest_version_correct [OF rep plain_no_policy [OF plain], where collection = c and key = k and ctx = ctx and path = path and t = t]
      stored_is_valid [OF wf] version_chainD(3)
    by (cases "H c k") (fastforce simp: current_def)+
qed

lemma list_next_correct:
  assumes rep: "ledger_rep E l H" and plain: "plain_objects E H"
  shows "keys_left it ks \<Longrightarrow>
    (case dropWhile (\<lambda>k. \<not> matching E H (li_collection it) (li_predicates it) k) ks of
       [] \<Rightarrow> \<exists>key' it'. list_next E l key it = Some (Inr ((INVALID_EVENT, key', None), it'))
     | k # rest \<Rightarrow> \<exists>eid ev it' d. list_next E l key it = Some (Inr ((eid, k, Some ev), it')) \<and> is_valid eid \<and>
         current H (li_collection it) k = Some d \<and> event_value (Some ev) = Inr d \<and> keys_left it' rest \<and>
         li_collection it' = li_collection it \<and> li_predicates it' = li_predicates it)"
proof (induction ks arbitrary: it key)
  case Nil
  then show ?case by (subst list_next.simps) (simp add: keys_left_Nil)
next
  case (Cons k ks)
  let ?c = "li_collection it" and ?p = "li_predicates it"
  obtain kv where kv: "Option.bind (li_keys it) vector_get_next_key = Some (k, kv)" "keys_left (it\<lparr>li_keys := Some kv\<rparr>) ks"
    by (rule keys_left_Cons [OF Cons.prems])
  note read = current_read [OF rep plain, where c = ?c and k = k and ctx = "li_context it" and path = "[]" and t = GetObject]
  show ?case
  proof (cases "matching E H ?c ?p k")
    case True
    then obtain d eid ev where "current H ?c k = Some d" "js_matches E d ?p" "is_valid eid" "event_value (Some ev) = Inr d"
      "get_latest_version E (li_context it) ?c k [] GetObject l = Some (Inr (eid, Some ev))"
      using read by (cases "current H ?c k") (auto simp: matching_def)
    then have "list_next E l key it = Some (Inr ((eid, k, Some ev), it\<lparr>li_keys := Some kv\<rparr>))"
      using kv(1) by (subst list_next.simps) (simp add: Let_def)
    then show ?thesis using True kv(2) \<open>current H ?c k = Some d\<close> \<open>is_valid eid\<close> \<open>event_value (Some ev) = Inr d\<close> by simp
  next
    case False
    have "list_next E l key it = list_next E l k (it\<lparr>li_keys := Some kv\<rparr>)"
    proof (cases "current H ?c k")
      case None
      then show ?thesis using read kv(1) by (subst list_next.simps) (auto simp: Let_def)
    next
      case (Some d)
      then have "\<not> js_matches E d ?p" using False by (simp add: matching_def)
      then show ?thesis using read kv(1) Some by (subst list_next.simps) (auto simp: Let_def)
    qed
    with Cons.IH [OF kv(2), of k] False show ?thesis by (simp cong: list.case_cong)
  qed
qed

text \<open>The loop over all matches, for a body that only depends on the key and the value of the object.\<close>

lemma for_each_match_correct:
  assumes rep: "ledger_rep E l H" and plain: "plain_objects E H"
    and body: "\<And>k ev d a. event_value ev = Inr d \<Longrightarrow> body k ev a = Inr (f k d a)"
  shows "keys_left it ks \<Longrightarrow> li_collection it = c \<Longrightarrow> li_predicates it = p \<Longrightarrow>
    for_each_match E l body key it acc =
      Some (Inr (fold (\<lambda>k. f k (the (current H c k))) (filter (matching E H c p) ks) acc))"
proof (induction "length ks" arbitrary: ks it key acc rule: less_induct)
  case less
  show ?case
  proof (cases "dropWhile (\<lambda>k. \<not> matching E H c p k) ks")
    case Nil
    then obtain key' it' where n: "list_next E l key it = Some (Inr ((INVALID_EVENT, key', None), it'))"
      using list_next_correct [OF rep plain less.prems(1), of key, unfolded less.prems(2,3) Nil] by auto
    have "filter (matching E H c p) ks = []" using Nil by (simp add: filter_empty_conv dropWhile_eq_Nil_conv)
    then show ?thesis using n by (subst for_each_match.simps) simp
  next
    case (Cons k rest)
    then obtain eid ev it' d where n: "list_next E l key it = Some (Inr ((eid, k, Some ev), it'))" "is_valid eid"
      "current H c k = Some d" "event_value (Some ev) = Inr d" "keys_left it' rest" "li_collection it' = c" "li_predicates it' = p"
      using list_next_correct [OF rep plain less.prems(1), of key, unfolded less.prems(2,3) Cons] by auto
    have k: "matching E H c p k" using Cons by (metis dropWhile_eq_Cons_conv)
    have "filter (matching E H c p) ks = filter (matching E H c p) (dropWhile (\<lambda>k. \<not> matching E H c p k) ks)"
      by (induction ks) auto
    then have fl: "filter (matching E H c p) ks = k # filter (matching E H c p) rest" using Cons k by simp
    have "length rest < length ks" using Cons length_dropWhile_le [of "\<lambda>k. \<not> matching E H c p k" ks] by simp
    note IH = less.hyps [OF this n(5-7)]
    show ?thesis using n(1-4) body [OF n(4)] IH fl by (subst for_each_match.simps) simp
  qed
qed

section \<open>Indexes cover the collection\<close>

text \<open>
  What the queries rely on. \<open>orders\<close>: the elements of a finite container are given once each.
  \<open>json_index_laws\<close>: the blank predicate matches every document, equal documents have equal hashes, and a
  view along one path has at most one entry. \<open>equality_query\<close>: at a path at which the predicate has no operator
  other than \<open>$in\<close>, a matching document has the value of the predicate, or one of the values listed under \<open>$in\<close>.
\<close>

definition orders :: "(string set \<Rightarrow> string list) \<Rightarrow> bool" where
  "orders ord \<longleftrightarrow> (\<forall>S. finite S \<longrightarrow> set (ord S) = S \<and> distinct (ord S))"

definition listed_values :: "('d, 'z) json_lib_scheme \<Rightarrow> 'd \<Rightarrow> string \<Rightarrow> 'd list option" where
  "listed_values E view path =
     (let in_doc = js_path E view (path @ ''.$in'')
      in if js_empty E in_doc then Some [view] else map_option (map (js_singleton E path)) (js_elements E in_doc))"

definition json_index_laws :: "('d, 'z) json_lib_scheme \<Rightarrow> bool" where
  "json_index_laws E \<longleftrightarrow>
     (\<forall>d. js_matches E d (js_blank E)) \<and>
     (\<forall>d d'. js_eq E d d' \<longrightarrow> js_hash E d = js_hash E d') \<and>
     (\<forall>p path. js_size E (js_select E p [path]) \<le> 1)"

definition equality_query :: "('d, 'z) json_lib_scheme \<Rightarrow> 'd \<Rightarrow> bool" where
  "equality_query E p \<longleftrightarrow>
     (\<forall>path ix. ix_paths ix = [path] \<longrightarrow> matches_query E p ix \<longrightarrow> \<not> js_empty E (js_select E p [path]) \<longrightarrow>
        (\<exists>vs. listed_values E (js_select E p [path]) path = Some vs \<and>
          (\<forall>d. js_matches E d p \<longrightarrow> (\<exists>v view. v \<in> set vs \<and> js_force_select E d [path] = Some view \<and> js_eq E view v))))"

text \<open>Every live object whose document has the path is under its hash, and the scan of the primary index ends.\<close>

definition index_covers :: "('d, 'z) json_lib_scheme \<Rightarrow> (string \<Rightarrow> 'd option) \<Rightarrow> index \<Rightarrow> bool" where
  "index_covers E docs ix \<longleftrightarrow>
     length (ix_paths ix) = 1 \<and>
     (\<forall>k d view. docs k = Some d \<longrightarrow> js_force_select E d (ix_paths ix) = Some view \<longrightarrow> k \<in># ix_map ix (js_hash E view))"

definition collection_covers :: "('d, 'z) json_lib_scheme \<Rightarrow> (string \<Rightarrow> 'd option) \<Rightarrow> string \<Rightarrow> collection \<Rightarrow> bool" where
  "collection_covers E docs c col \<longleftrightarrow>
     c_name col = c \<and> finite (dom (c_primary col)) \<and> (\<forall>ix\<in>snd ` set (c_secondary col). index_covers E docs ix)"

definition indexes_cover :: "('d, 'z) json_lib_scheme \<Rightarrow> 'd objects \<Rightarrow> ledger \<Rightarrow> bool" where
  "indexes_cover E H l \<longleftrightarrow> (\<forall>c col. m_collections l c = Some col \<longrightarrow> collection_covers E (current H c) c col)"

lemma index_coversD:
  "index_covers E docs ix \<Longrightarrow> docs k = Some d \<Longrightarrow> js_force_select E d (ix_paths ix) = Some view \<Longrightarrow> js_hash E view = h \<Longrightarrow>
   k \<in># ix_map ix h"
  by (auto simp: index_covers_def)

lemma index_coversI:
  "length (ix_paths ix) = 1 \<Longrightarrow>
   (\<And>k d view. docs k = Some d \<Longrightarrow> js_force_select E d (ix_paths ix) = Some view \<Longrightarrow> k \<in># ix_map ix (js_hash E view)) \<Longrightarrow>
   index_covers E docs ix"
  by (auto simp: index_covers_def)

lemma index_find_hits:
  assumes paths: "ix_paths ix = [path]" and listed: "listed_values E p path = Some vs"
  shows "index_find E p out op ix =
    Inr (case op of Union \<Rightarrow> out \<union> (\<Union>v\<in>set vs. set_mset (ix_map ix (js_hash E v)))
                  | Intersect \<Rightarrow> out \<inter> (\<Union>v\<in>set vs. set_mset (ix_map ix (js_hash E v))))"
proof (cases "js_empty E (js_path E p (path @ ''.$in''))")
  case True
  then have "vs = [p]" using listed by (simp add: listed_values_def Let_def)
  then show ?thesis using True paths by (simp add: index_find_def Let_def map_find_def split: SetOperation.split)
next
  case False
  then obtain views where views: "js_elements E (js_path E p (path @ ''.$in'')) = Some views" "vs = map (js_singleton E path) views"
    using listed by (auto simp: listed_values_def Let_def)
  have "fold (\<lambda>view found. map_find (js_hash E (js_singleton E path view)) found Union ix) views start =
      start \<union> (\<Union>v\<in>set vs. set_mset (ix_map ix (js_hash E v)))" for start
    unfolding views(2) by (induction views arbitrary: start) (auto simp: map_find_def)
  then show ?thesis using False paths views(1) by (simp add: index_find_def Let_def split: SetOperation.split)
qed

text \<open>A selected index leaves no matching object out.\<close>

lemma index_find_complete:
  assumes laws: "json_index_laws E" "equality_query E p" and covers: "index_covers E docs ix"
    and query: "matches_query E p ix" "\<not> js_empty E (js_select E p (ix_paths ix))"
  obtains hits where "\<forall>out op. index_find E (js_select E p (ix_paths ix)) out op ix =
      Inr (case op of Union \<Rightarrow> out \<union> hits | Intersect \<Rightarrow> out \<inter> hits)"
    "finite hits" "\<forall>k d. docs k = Some d \<longrightarrow> js_matches E d p \<longrightarrow> k \<in> hits"
proof -
  obtain path where path: "ix_paths ix = [path]" using covers by (auto simp: index_covers_def length_Suc_conv)
  obtain vs where vs: "listed_values E (js_select E p [path]) path = Some vs"
    "\<forall>d. js_matches E d p \<longrightarrow> (\<exists>v view. v \<in> set vs \<and> js_force_select E d [path] = Some view \<and> js_eq E view v)"
    using laws(2) [unfolded equality_query_def, rule_format, OF path query(1)] query(2) path by auto
  let ?hits = "\<Union>v\<in>set vs. set_mset (ix_map ix (js_hash E v))"
  show ?thesis
  proof (rule that [of ?hits]; (intro allI impI)?)
    fix k d assume "docs k = Some d" "js_matches E d p"
    then obtain v view where v: "v \<in> set vs" "js_force_select E d [path] = Some view" "js_eq E view v"
      using vs(2) by blast
    have "k \<in># ix_map ix (js_hash E view)" using covers \<open>docs k = Some d\<close> v(2) path by (auto simp: index_covers_def)
    moreover have "js_hash E view = js_hash E v" using laws(1) v(3) by (simp add: json_index_laws_def)
    ultimately show "k \<in> ?hits" using v(1) by auto
  qed (simp_all add: path index_find_hits [OF path vs(1)])
qed

definition usable :: "('d, 'z) json_lib_scheme \<Rightarrow> (string \<Rightarrow> 'd option) \<Rightarrow> 'd \<Rightarrow> index \<Rightarrow> bool" where
  "usable E docs p ix \<longleftrightarrow> index_covers E docs ix \<and> matches_query E p ix \<and> \<not> js_empty E (js_select E p (ix_paths ix))"

lemma select_size: "json_index_laws E \<Longrightarrow> index_covers E docs ix \<Longrightarrow> \<not> 1 < js_size E (js_select E p (ix_paths ix))"
  by (auto simp: json_index_laws_def index_covers_def length_Suc_conv not_less)

lemma select_indexes_usable:
  assumes laws: "json_index_laws E"
  shows "(\<forall>ix\<in>snd ` set ixs. index_covers E docs ix) \<Longrightarrow> (\<forall>ix\<in>snd ` set acc. usable E docs p ix) \<Longrightarrow>
    \<exists>r. select_indexes E p ixs paths acc = Inr r \<and> (\<forall>ix\<in>snd ` set r. usable E docs p ix)"
proof (induction ixs arbitrary: paths acc)
  case (Cons nix ixs)
  obtain n ix where nix: "nix = (n, ix)" by fastforce
  have cov: "index_covers E docs ix" using Cons.prems nix by simp
  then have "\<exists>k. index_estimate E (js_select E p (ix_paths ix)) ix = Inr k"
    by (simp add: index_estimate_def index_covers_def)
  then obtain k where "index_estimate E (js_select E p (ix_paths ix)) ix = Inr k" ..
  moreover have "\<exists>r. select_indexes E p ixs (ix_paths ix @ paths) (acc @ [(k, ix)]) = Inr r \<and> (\<forall>ix\<in>snd ` set r. usable E docs p ix)"
    if "matches_query E p ix" "\<not> js_empty E (js_select E p (ix_paths ix))"
    by (rule Cons.IH) (use Cons.prems cov that in \<open>auto simp: usable_def\<close>)
  moreover have "\<exists>r. select_indexes E p ixs paths acc = Inr r \<and> (\<forall>ix\<in>snd ` set r. usable E docs p ix)"
    by (rule Cons.IH) (use Cons.prems in auto)
  ultimately show ?case using select_size [OF laws cov, of p] by (simp add: nix Let_def)
qed simp

lemma merge_candidates_complete:
  assumes laws: "json_index_laws E" "equality_query E p"
  shows "(\<forall>ix\<in>snd ` set ixs. usable E docs p ix) \<Longrightarrow> finite out \<Longrightarrow> ixs \<noteq> [] \<or> \<not> first \<Longrightarrow>
    (\<not> first \<Longrightarrow> (\<forall>k d. docs k = Some d \<longrightarrow> js_matches E d p \<longrightarrow> k \<in> out)) \<Longrightarrow>
    \<exists>r. merge_candidates E p first ixs out = Inr r \<and> finite r \<and> (\<forall>k d. docs k = Some d \<longrightarrow> js_matches E d p \<longrightarrow> k \<in> r)"
proof (induction ixs arbitrary: first out)
  case (Cons nix ixs)
  obtain n ix where nix: "nix = (n, ix)" by fastforce
  have u: "index_covers E docs ix" "matches_query E p ix" "\<not> js_empty E (js_select E p (ix_paths ix))"
    using Cons.prems(1) nix by (auto simp: usable_def)
  obtain hits where hits: "\<forall>out op. index_find E (js_select E p (ix_paths ix)) out op ix =
      Inr (case op of Union \<Rightarrow> out \<union> hits | Intersect \<Rightarrow> out \<inter> hits)"
    "finite hits" "\<forall>k d. docs k = Some d \<longrightarrow> js_matches E d p \<longrightarrow> k \<in> hits"
    by (rule index_find_complete [OF laws u])
  let ?out = "if first then out \<union> hits else out \<inter> hits"
  have "\<exists>r. merge_candidates E p False ixs ?out = Inr r \<and> finite r \<and> (\<forall>k d. docs k = Some d \<longrightarrow> js_matches E d p \<longrightarrow> k \<in> r)"
    by (rule Cons.IH) (use Cons.prems hits(2,3) in auto)
  then show ?case using hits(1) select_size [OF laws(1) u(1), of p] by (cases first) (simp_all add: nix Let_def)
qed auto

section \<open>Queries\<close>

lemma new_list_iterator_keys: "keys_left (new_list_iterator ctx c p (Some (vector_key_provider ks))) ks"
  by (simp add: keys_left_def new_list_iterator_def vector_key_provider_def)

lemma new_list_iterator_fields [simp]:
  "li_collection (new_list_iterator ctx c p keys) = c" "li_predicates (new_list_iterator ctx c p keys) = p"
  by (simp_all add: new_list_iterator_def)

lemma live_in_primary:
  assumes "ledger_rep E l H" and "m_collections l c = Some col" and "current H c k = Some d"
  shows "k \<in> dom (c_primary col)"
proof -
  have "object_rep E l c k (H c k)" using assms(1) by (simp add: ledger_rep_def)
  then show ?thesis using assms(2,3) by (auto simp: object_rep_def lookup_def current_def split: option.splits list.splits)
qed

lemma no_collection_no_objects:
  assumes "ledger_rep E l H" and "m_collections l c = None"
  shows "current H c k = None"
proof -
  have "object_rep E l c k (H c k)" using assms(1) by (simp add: ledger_rep_def)
  then show ?thesis using assms(2) by (simp add: object_rep_def lookup_def current_def)
qed

text \<open>The candidates of a query contain every matching object, whether they come from indexes or from a scan.\<close>

lemma ledger_find_complete:
  assumes rep: "ledger_rep E l H" and cover: "indexes_cover E H l" and laws: "json_index_laws E" "equality_query E p" and ord: "orders ord"
  obtains it ks where "ledger_find E ord ctx c p l = Inr it" "keys_left it ks" "li_collection it = c" "li_predicates it = p"
    "distinct ks" "{k. matching E H c p k} \<subseteq> set ks"
proof (cases "m_collections l c")
  case None
  then show ?thesis
    using that [of "new_list_iterator ctx c p None" "[]"] no_collection_no_objects [OF rep None]
    by (simp add: ledger_find_def try_get_collection_def keys_left_def new_list_iterator_def matching_def)
next
  case (Some col)
  have cov: "\<forall>ix\<in>snd ` set (c_secondary col). index_covers E (current H c) ix" and fin: "finite (dom (c_primary col))"
    using cover Some by (auto simp: indexes_cover_def collection_covers_def)
  obtain ixs where ixs: "select_indexes E p (c_secondary col) [] [] = Inr ixs" "\<forall>ix\<in>snd ` set ixs. usable E (current H c) p ix"
    using select_indexes_usable [OF laws(1) cov, of "[]" p "[]"] by auto
  obtain cands where cands: "finite cands" "{k. matching E H c p k} \<subseteq> cands"
    "ledger_find E ord ctx c p l = Inr (new_list_iterator ctx c p (Some (vector_key_provider (ord cands))))"
  proof (cases "ixs = []")
    case True
    have "{k. matching E H c p k} \<subseteq> dom (c_primary col)"
      using live_in_primary [OF rep Some] by (auto simp: matching_def split: option.splits)
    then show ?thesis using that [of "dom (c_primary col)"] fin True Some ixs(1) by (simp add: ledger_find_def try_get_collection_def)
  next
    case False
    have sorted: "\<forall>ix\<in>snd ` set (sort_key fst ixs). usable E (current H c) p ix" using ixs(2) by simp
    have nonempty: "sort_key fst ixs \<noteq> []" using False length_sort [of fst ixs] by (metis length_0_conv)
    obtain r where r: "merge_candidates E p True (sort_key fst ixs) {} = Inr r" "finite r"
      "\<forall>k d. current H c k = Some d \<longrightarrow> js_matches E d p \<longrightarrow> k \<in> r"
      using merge_candidates_complete [OF laws sorted, of "{}" True] nonempty by auto
    moreover have "{k. matching E H c p k} \<subseteq> r" using r(3) by (auto simp: matching_def split: option.splits)
    ultimately show ?thesis using that [of r] False Some ixs(1) by (simp add: ledger_find_def try_get_collection_def)
  qed
  have "set (ord cands) = cands" "distinct (ord cands)" using ord cands(1) by (auto simp: orders_def)
  then show ?thesis using that [OF cands(3) new_list_iterator_keys] cands(2) by simp
qed

text \<open>The objects a query finds, as its caller collects them.\<close>

definition find_all ::
  "('d, 'z) ledger_env_scheme \<Rightarrow> (string set \<Rightarrow> string list) \<Rightarrow> op_context \<Rightarrow> string \<Rightarrow> 'd \<Rightarrow> ledger \<Rightarrow> (string \<times> 'd) list result option" where
  "find_all E ord ctx collection predicates l =
     (case ledger_find E ord ctx collection predicates l of
        Inl e \<Rightarrow> Some (Inl e)
      | Inr it \<Rightarrow> for_each_match E l (\<lambda>key event found. rbind (event_value event) (\<lambda>v. Inr (found @ [(key, v)]))) [] it [])"

lemma fold_collect: "fold (\<lambda>k found. found @ [(k, f k)]) ks acc = acc @ map (\<lambda>k. (k, f k)) ks"
  by (induction ks arbitrary: acc) simp_all

lemma fold_count: "fold (\<lambda>k n. n + 1) ks (n :: u32) = n + word_of_nat (length ks)"
  by (induction ks arbitrary: n) simp_all

lemma queries_correct:
  assumes rep: "ledger_rep E l H" and plain: "plain_objects E H" and cover: "indexes_cover E H l"
    and laws: "json_index_laws E" "equality_query E p" and ord: "orders ord"
  obtains ks where "distinct ks" "set ks = {k. matching E H c p k}"
    "find_all E ord ctx c p l = Some (Inr (map (\<lambda>k. (k, the (current H c k))) ks))"
    "c \<noteq> [] \<Longrightarrow> count_objects E ord ctx c p l = Some (Inr (word_of_nat (length ks)))"
proof -
  obtain it ks where it: "ledger_find E ord ctx c p l = Inr it" "keys_left it ks" "li_collection it = c" "li_predicates it = p"
    "distinct ks" "{k. matching E H c p k} \<subseteq> set ks"
    by (rule ledger_find_complete [OF rep cover laws ord])
  let ?ks = "filter (matching E H c p) ks"
  have "find_all E ord ctx c p l = Some (Inr (map (\<lambda>k. (k, the (current H c k))) ?ks))"
    using for_each_match_correct [OF rep plain, where f = "\<lambda>k d found. found @ [(k, d)]", OF _ it(2-4)] it(1)
    by (simp add: find_all_def fold_collect)
  moreover have "count_objects E ord ctx c p l = Some (Inr (word_of_nat (length ?ks)))" if "c \<noteq> []"
    using for_each_match_correct [OF rep plain, where f = "\<lambda>k d n. n + 1 :: u32", OF _ it(2-4)] it(1) that fold_count [of ?ks 0]
    by (simp add: count_objects_def)
  ultimately show ?thesis using that [of ?ks] it(5,6) by auto
qed

section \<open>Writes keep the indexes covering\<close>

lemma index_covers_less: "index_covers E docs ix \<Longrightarrow> index_covers E (docs(key := None)) ix"
  by (simp add: index_covers_def)

lemma index_remove_covers:
  assumes "index_covers E docs ix"
  shows "index_covers E (docs(key := None)) (snd (index_remove E old key ix))"
proof (rule index_coversI)
  fix k d view assume k: "(docs(key := None)) k = Some d" "js_force_select E d (ix_paths (snd (index_remove E old key ix))) = Some view"
  then have "k \<noteq> key" "docs k = Some d" "js_force_select E d (ix_paths ix) = Some view"
    by (auto simp: index_remove_def split: if_splits option.splits)
  then show "k \<in># ix_map (snd (index_remove E old key ix)) (js_hash E view)"
    using index_coversD [OF assms, of k d view] by (auto simp: index_remove_def in_diff_count split: option.split)
qed (use assms in \<open>simp add: index_covers_def index_remove_def split: option.split\<close>)

lemma index_insert_covers:
  assumes "index_covers E (docs(key := None)) ix"
  shows "index_covers E (docs(key \<mapsto> doc)) (snd (index_insert E doc key ix))"
proof (rule index_coversI)
  fix k d view assume k: "(docs(key \<mapsto> doc)) k = Some d" "js_force_select E d (ix_paths (snd (index_insert E doc key ix))) = Some view"
  then show "k \<in># ix_map (snd (index_insert E doc key ix)) (js_hash E view)"
    using index_coversD [OF assms, of k d view] by (auto simp: index_insert_def split: option.splits if_splits)
qed (use assms in \<open>simp add: index_covers_def index_insert_def split: option.split\<close>)

lemma index_insert_keeps:
  assumes "index_covers E docs ix"
  shows "index_covers E docs (snd (index_insert E doc key ix))"
proof (rule index_coversI)
  fix k d view assume k: "docs k = Some d" "js_force_select E d (ix_paths (snd (index_insert E doc key ix))) = Some view"
  then show "k \<in># ix_map (snd (index_insert E doc key ix)) (js_hash E view)"
    using index_coversD [OF assms, of k d view] by (auto simp: index_insert_def split: option.splits)
qed (use assms in \<open>simp add: index_covers_def index_insert_def split: option.split\<close>)

lemma replace_in_index_covers:
  "index_covers E docs ix \<Longrightarrow> index_covers E (docs(key := None)) (replace_in_index E old doc key ix)"
  using index_insert_keeps [OF index_remove_covers [of E docs ix key old], of doc key]
  by (simp add: replace_in_index_def index_covers_less)

lemma update_indexes_covers:
  assumes "update_indexes E version pv doc key ixs = Inr ixs'" and ixs: "\<forall>ix\<in>snd ` set ixs. index_covers E docs ix"
  shows "\<forall>ix\<in>snd ` set ixs'. index_covers E (docs(key \<mapsto> doc)) ix"
proof -
  obtain f ixs1 where ixs1: "ixs1 = map (\<lambda>(n, ix). (n, f ix)) ixs" "ixs' = insert_indexes E doc key ixs1"
    "f = (\<lambda>ix. ix) \<or> f = (\<lambda>ix. snd (index_insert E doc key ix)) \<or> (\<exists>old. f = replace_in_index E old doc key)"
  proof (cases "version = INITIAL_VERSION_NO \<or> ixs = []")
    case True
    then show ?thesis
      using assms(1) that [of _ "\<lambda>ix. snd (index_insert E doc key ix)"] that [of _ "\<lambda>ix. ix"]
      by (auto simp: update_indexes_def insert_indexes_def split: if_splits)
  next
    case False
    then obtain old where "ixs' = insert_indexes E doc key (map (\<lambda>(n, ix). (n, replace_in_index E old doc key ix)) ixs)"
      using assms(1) by (auto simp: update_indexes_def rbind_eq_Inr)
    then show ?thesis using that [OF refl] by blast
  qed
  have "index_covers E (docs(key := None)) (f ix)" if "index_covers E docs ix" for ix
    using ixs1(3) that index_covers_less [OF that] index_insert_keeps [OF index_covers_less [OF that]] replace_in_index_covers [OF that]
    by auto
  then have "\<forall>ix\<in>snd ` set ixs1. index_covers E (docs(key := None)) ix" using ixs by (auto simp: ixs1(1))
  then show ?thesis by (force simp: ixs1(2) insert_indexes_def intro: index_insert_covers)
qed

lemma current_set_object: "current (set_object c k vs H) c' =
    (if c' = c then (current H c)(k := (case vs of [] \<Rightarrow> None | v # _ \<Rightarrow> Some (snd v))) else current H c')"
  by (auto simp: current_def set_object_def fun_eq_iff)

lemma indexes_cover_cong: "m_collections l' = m_collections l \<Longrightarrow> indexes_cover E H l' = indexes_cover E H l"
  by (simp add: indexes_cover_def)

lemma indexes_cover_collection:
  assumes cov: "indexes_cover E H l" and col: "get_collection c create l = Inr (col, l1)"
  shows "indexes_cover E H l1" and "m_collections l1 c = Some col"
proof -
  have new: "collection_covers E docs c (new_collection c)" for docs by (simp add: collection_covers_def new_collection_def)
  show "indexes_cover E H l1"
    using assms new by (auto simp: indexes_cover_def get_collection_def set_collection_def split: option.splits if_splits)
  show "m_collections l1 c = Some col"
    using col by (auto simp: get_collection_def set_collection_def split: option.splits if_splits)
qed

lemma indexes_cover_set:
  assumes "indexes_cover E H l" and "m_collections l' = (m_collections l)(c \<mapsto> col)" and "collection_covers E (current H' c) c col"
    and "\<And>c'. c' \<noteq> c \<Longrightarrow> current H' c' = current H c'"
  shows "indexes_cover E H' l'"
  using assms by (auto simp: indexes_cover_def)

lemma indexes_cover_put:
  assumes cov: "indexes_cover E H l" and put: "put_next_version E ctx c k doc version pid pv tx l = Inr (eid, l')" and eid: "is_valid eid"
  shows "indexes_cover E (set_object c k ((src, doc) # vs) H) l'"
proof -
  obtain col l1 ixs where col: "get_collection c True l = Inr (col, l1)" and ixs: "update_indexes E version pv doc k (c_secondary col) = Inr ixs"
    and l': "m_collections l' = (m_collections l1)(c \<mapsto> col\<lparr>c_secondary := ixs, c_primary := (c_primary col)(k \<mapsto> eid)\<rparr>)"
    using put eid
    by (fastforce simp: put_next_version_def append_event_def rbind_eq_Inr Let_def set_collection_def split: if_splits)
  note c1 = indexes_cover_collection [OF cov col]
  then have "collection_covers E (current H c) c col" by (simp add: indexes_cover_def)
  then have "collection_covers E ((current H c)(k \<mapsto> doc)) c (col\<lparr>c_secondary := ixs, c_primary := (c_primary col)(k \<mapsto> eid)\<rparr>)"
    using update_indexes_covers [OF ixs] by (simp add: collection_covers_def)
  then show ?thesis by (intro indexes_cover_set [OF c1(1) l']) (simp_all add: current_set_object)
qed

lemma organize_collections: "organize_ledger s l = Inr l' \<Longrightarrow> m_collections l' = m_collections l"
  by (auto simp: organize_ledger_def set_shard_def rbind_eq_Inr Let_def split_beta split: if_splits)

lemma put_tombstone_collections: "put_tombstone E ctx pid tx l = Inr (eid, l') \<Longrightarrow> m_collections l' = m_collections l"
  by (auto simp: put_tombstone_def append_event_def rbind_eq_Inr split: if_splits)

lemma indexes_cover_less: "indexes_cover E H l \<Longrightarrow> indexes_cover E (set_object c k [] H) l"
  by (auto simp: indexes_cover_def collection_covers_def current_set_object index_covers_less)

lemma indexes_cover_write:
  assumes cov: "indexes_cover E H l" and w: "apply_write E ctx c k doc [] nested t tx l = Some (Inr (eid, l'))"
  shows "t = PutObject \<Longrightarrow> is_valid eid \<Longrightarrow> indexes_cover E (set_object c k ((src, doc) # vs) H) l'"
    and "t = RemoveObject \<Longrightarrow> indexes_cover E (set_object c k [] H) l'"
proof -
  obtain number pid pv l1 where wv: "write_version E ctx c k doc [] t tx number pid pv l = Inr (eid, l1)"
    and "l' = l1 \<or> organize_ledger (get_shard c k) l1 = Inr l'"
    using w by (auto simp: apply_write_def Let_def rbind_eq_Inr split: sum.splits option.splits prod.splits if_splits)
  then have same: "m_collections l' = m_collections l1" using organize_collections by auto
  show "indexes_cover E (set_object c k ((src, doc) # vs) H) l'" if "t = PutObject" "is_valid eid"
  proof -
    have "put_next_version E ctx c k doc number pid pv tx l = Inr (eid, l1)"
      using wv that by (auto simp: write_version_def Let_def rbind_eq_Inr split: if_splits)
    then show ?thesis using indexes_cover_put [OF cov _ that(2)] indexes_cover_cong [OF same] by blast
  qed
  show "indexes_cover E (set_object c k [] H) l'" if remove: "t = RemoveObject"
  proof -
    consider "l1 = l" | l0 col l2 where "put_tombstone E ctx pid tx l = Inr (eid, l0)" "get_collection c False l0 = Inr (col, l2)"
        "m_collections l1 = (m_collections l2)(c \<mapsto> col\<lparr>c_primary := (c_primary col)(k \<mapsto> eid)\<rparr>)"
      using wv remove by (auto simp: write_version_def Let_def rbind_eq_Inr set_collection_def split: if_splits)
    then have "indexes_cover E H l1"
    proof cases
      case 2
      have "indexes_cover E H l0" using cov by (simp add: indexes_cover_cong [OF put_tombstone_collections [OF 2(1)]])
      note c2 = indexes_cover_collection [OF this 2(2)]
      then have "collection_covers E (current H c) c col" by (simp add: indexes_cover_def)
      then show ?thesis by (intro indexes_cover_set [OF c2(1) 2(3)]) (simp_all add: collection_covers_def)
    qed (use cov in simp)
    then show ?thesis using indexes_cover_less indexes_cover_cong [OF same] by blast
  qed
qed

lemma indexes_cover_step:
  assumes cov: "indexes_cover E H l" and step: "ledger_step E op l = Some (Inr (fst (spec_step E op H), l'))" and ok: "op_ok E op"
  shows "indexes_cover E (snd (spec_step E op H)) l'"
proof (cases op)
  case (LPut ctx c k d)
  then obtain eid where "ledger_put E ctx c k d [] False l = Some (Inr (eid, l'))" "is_valid eid"
    using step by (auto simp: obind_def rbind_eq_Inr split: option.splits)
  then have "apply_write E ctx c k d [] False PutObject INVALID_LEDGER_POS l = Some (Inr (eid, l'))"
    by (auto simp: ledger_put_def checked_write_def split: option.splits sum.splits if_splits)
  then show ?thesis
    using indexes_cover_write(1) [OF cov _ refl \<open>is_valid eid\<close>] LPut by (simp add: put_version_def)
next
  case (LRemove ctx c k d)
  then obtain eid where "ledger_remove E ctx c k d False l = Some (Inr (eid, l'))"
    using step by (auto simp: obind_def rbind_eq_Inr split: option.splits)
  then have "apply_write E ctx c k d [] False RemoveObject INVALID_LEDGER_POS l = Some (Inr (eid, l')) \<or> l' = l"
    by (auto simp: ledger_remove_def checked_write_def split: option.splits sum.splits if_splits)
  then show ?thesis
    using indexes_cover_write(2) [OF cov _ refl] indexes_cover_less [OF cov] LRemove by auto
qed (use step cov in \<open>auto simp: obind_def rbind_eq_Inr split: option.splits\<close>)

section \<open>Creating and dropping indexes\<close>

lemma ledger_rep_cong:
  assumes "ledger_rep E l H" and same: "m_shards l' = m_shards l" "m_blocks l' = m_blocks l" and look: "lookup l' = lookup l"
  shows "ledger_rep E l' H"
proof -
  have "extends E l l'" using stored_cong [OF same, of E] by (simp add: extends_def)
  then show ?thesis
    using assms(1) ledger_wf_cong [OF same, of E] ledger_small_cong [OF same] object_rep_extends [of E l] look
    by (simp add: ledger_rep_def)
qed

lemma get_collection_same:
  assumes "get_collection c create l = Inr (col, l1)"
  shows "m_shards l1 = m_shards l" "m_blocks l1 = m_blocks l" "lookup l1 = lookup l" "c_primary col = lookup l c"
  using assms
  by (auto simp: get_collection_def set_collection_def new_collection_def lookup_def fun_eq_iff split: option.splits if_splits)

lemma lookup_set_collection: "c_primary col = lookup l c \<Longrightarrow> lookup (set_collection c col l) = lookup l"
  by (auto simp: lookup_def set_collection_def fun_eq_iff)

lemma fold_insert_covers:
  "index_covers E (docs |` S) ix \<Longrightarrow> (\<forall>k\<in>set ks. docs k \<noteq> None) \<Longrightarrow>
   index_covers E (docs |` (S \<union> set ks)) (fold (\<lambda>k ix. snd (index_insert E (the (docs k)) k ix)) ks ix)"
proof (induction ks arbitrary: S ix)
  case (Cons k ks)
  obtain d where d: "docs k = Some d" using Cons.prems by auto
  have "index_covers E ((docs |` S)(k \<mapsto> d)) (snd (index_insert E d k ix))"
    by (rule index_insert_covers [OF index_covers_less [OF Cons.prems(1)]])
  moreover have "(docs |` S)(k \<mapsto> d) = docs |` (insert k S)" using d by (auto simp: restrict_map_def)
  ultimately show ?case using Cons.IH [of "insert k S"] Cons.prems(2) d by simp
qed simp

lemma create_index_covers:
  assumes rep: "ledger_rep E l H" and plain: "plain_objects E H" and cov: "collection_covers E (current H c) c col"
    and col: "m_collections l c = Some col" and laws: "json_index_laws E" and ord: "orders ord"
  obtains ok col' where "create_index E ord enc name [path] l col = Some (Inr (ok, col'))"
    "collection_covers E (current H c) c col'" "c_primary col' = c_primary col"
proof (cases "map_of (c_secondary col) name")
  case None
  let ?ks = "ord (dom (c_primary col))" and ?ix0 = "\<lparr>ix_name = name, ix_paths = [path], ix_map = (\<lambda>_. {#})\<rparr>"
  let ?it = "new_list_iterator enc (c_name col) (js_blank E) (Some (vector_key_provider ?ks))"
  let ?live = "filter (matching E H c (js_blank E)) ?ks"
  define ix where "ix = fold (\<lambda>k ix. snd (index_insert E (the (current H c k)) k ix)) ?live ?ix0"
  have "set ?ks = dom (c_primary col)" using ord cov by (simp add: orders_def collection_covers_def)
  then have live: "set ?live = {k. current H c k \<noteq> None}"
    using live_in_primary [OF rep col] laws by (auto simp: matching_def json_index_laws_def split: option.splits)
  have "index_covers E (current H c |` ({} \<union> set ?live)) ix"
    unfolding ix_def by (rule fold_insert_covers) (use live in \<open>auto simp: index_covers_def\<close>)
  moreover have "current H c |` ({} \<union> set ?live) = current H c" unfolding live by (auto simp: restrict_map_def fun_eq_iff)
  ultimately have ix: "index_covers E (current H c) ix" by simp
  have "for_each_match E l (\<lambda>key event ix. rbind (event_value event) (\<lambda>view. Inr (snd (index_insert E view key ix)))) [] ?it ?ix0 = Some (Inr ix)"
    using for_each_match_correct [OF rep plain, where f = "\<lambda>k d ix. snd (index_insert E d k ix)", OF _ new_list_iterator_keys, of _ enc "c_name col" "js_blank E" ?ks c] cov
    by (simp add: ix_def collection_covers_def)
  then have "create_index E ord enc name [path] l col = Some (Inr (True, add_index name ix col))"
    using None by (simp add: create_index_def new_hash_index_def)
  moreover have "collection_covers E (current H c) c (add_index name ix col)"
    using cov ix by (auto simp: collection_covers_def add_index_def)
  ultimately show ?thesis using that by (simp add: add_index_def)
qed (use that [of False col] cov in \<open>simp add: create_index_def\<close>)

section \<open>Sequences of operations and queries\<close>

text \<open>
  Callers of \<open>find\<close> see the objects in an unspecified order, so the output is the set of them. An
  exception of \<open>drop_index\<close>, raised when there is no such collection, leaves the ledger as it was.
\<close>

datatype 'd query_op =
    QLedger "'d ledger_op"
  | QFind op_context string 'd
  | QCount op_context string 'd
  | QCreateIndex string string string
  | QDropIndex string string

datatype 'd query_out = QOut "'d ledger_out" | QFound "(string \<times> 'd) set" | QCounted u32 | QDone

fun query_step ::
  "('d, 'z) ledger_env_scheme \<Rightarrow> (string set \<Rightarrow> string list) \<Rightarrow> op_context \<Rightarrow> 'd query_op \<Rightarrow> ledger \<Rightarrow> ('d query_out \<times> ledger) result option" where
  "query_step E ord enc (QLedger op) l = obind (ledger_step E op l) (\<lambda>(out, l'). Inr (QOut out, l'))"
| "query_step E ord enc (QFind ctx c p) l = obind (find_all E ord ctx c p l) (\<lambda>found. Inr (QFound (set found), l))"
| "query_step E ord enc (QCount ctx c p) l = obind (count_objects E ord ctx c p l) (\<lambda>n. Inr (QCounted n, l))"
| "query_step E ord enc (QCreateIndex c name path) l =
     obind (ledger_create_index E ord enc c name [path] l) (\<lambda>(ok, l'). Inr (QDone, l'))"
| "query_step E ord enc (QDropIndex c name) l =
     Some (Inr (QDone, case ledger_drop_index c name l of Inl e \<Rightarrow> l | Inr (ok, l') \<Rightarrow> l'))"

text \<open>In the specification a query filters the current documents; the indexes do not appear.\<close>

fun query_spec :: "('d, 'z) json_lib_scheme \<Rightarrow> 'd query_op \<Rightarrow> 'd objects \<Rightarrow> 'd query_out \<times> 'd objects" where
  "query_spec E (QLedger op) H = (QOut (fst (spec_step E op H)), snd (spec_step E op H))"
| "query_spec E (QFind ctx c p) H = (QFound {(k, d). current H c k = Some d \<and> js_matches E d p}, H)"
| "query_spec E (QCount ctx c p) H = (QCounted (word_of_nat (card {k. matching E H c p k})), H)"
| "query_spec E (QCreateIndex c name path) H = (QDone, H)"
| "query_spec E (QDropIndex c name) H = (QDone, H)"

fun query_ok :: "('d, 'z) json_lib_scheme \<Rightarrow> 'd query_op \<Rightarrow> bool" where
  "query_ok E (QLedger op) \<longleftrightarrow> op_ok E op"
| "query_ok E (QFind ctx c p) \<longleftrightarrow> equality_query E p"
| "query_ok E (QCount ctx c p) \<longleftrightarrow> c \<noteq> [] \<and> equality_query E p"
| "query_ok E _ \<longleftrightarrow> True"

definition query_rel ::
  "('d, 'z) ledger_env_scheme \<Rightarrow> (string set \<Rightarrow> string list) \<Rightarrow> nat \<Rightarrow> ledger \<Rightarrow> 'd objects \<Rightarrow> bool" where
  "query_rel E ord n l H \<longleftrightarrow>
     ledger_rep E l H \<and> plain_objects E H \<and> indexes_cover E H l \<and> json_index_laws E \<and> orders ord \<and>
     unat (m_next_page_no (m_blocks l)) + n < 2 ^ 32"

lemma query_rel_same_blocks:
  assumes "query_rel E ord n l H" and "m_shards l' = m_shards l" "m_blocks l' = m_blocks l" "lookup l' = lookup l" "indexes_cover E H l'"
  shows "query_rel E ord n l' H"
  using assms ledger_rep_cong [of E l H l'] by (simp add: query_rel_def)

lemma query_rel_less: "query_rel E ord (Suc n) l H \<Longrightarrow> query_rel E ord n l H"
  by (simp add: query_rel_def)

lemma create_index_step:
  assumes rel: "query_rel E ord n l H"
  shows "\<exists>ok l'. ledger_create_index E ord enc c name [path] l = Some (Inr (ok, l')) \<and> query_rel E ord n l' H"
proof -
  have R: "plain_objects E H" "indexes_cover E H l" "json_index_laws E" "orders ord" using rel by (auto simp: query_rel_def)
  obtain col l1 where col: "get_collection c True l = Inr (col, l1)" by (cases "m_collections l c") (auto simp: get_collection_def)
  note same = get_collection_same [OF col] and c1 = indexes_cover_collection [OF R(2) col]
  have rep1: "ledger_rep E l1 H" and cov1: "collection_covers E (current H c) c col"
    using rel c1 ledger_rep_cong [of E l H l1] same by (auto simp: query_rel_def indexes_cover_def)
  obtain ok col' where ci: "create_index E ord enc name [path] l1 col = Some (Inr (ok, col'))"
    "collection_covers E (current H c) c col'" "c_primary col' = c_primary col"
    by (rule create_index_covers [OF rep1 R(1) cov1 c1(2) R(3,4)])
  let ?l = "set_collection c col' l1"
  have "indexes_cover E H ?l"
    by (rule indexes_cover_set [OF c1(1) _ ci(2)]) (simp_all add: set_collection_def)
  then have "query_rel E ord n ?l H"
    using query_rel_same_blocks [OF rel, of ?l] same lookup_set_collection [of col' l1 c] ci(3)
    by (simp add: set_collection_def)
  then show ?thesis using col ci(1) by (simp add: ledger_create_index_def)
qed

lemma drop_index_step:
  assumes rel: "query_rel E ord n l H"
  shows "query_rel E ord n (case ledger_drop_index c name l of Inl e \<Rightarrow> l | Inr (ok, l') \<Rightarrow> l') H"
proof (cases "get_collection c False l")
  case (Inr r)
  obtain col l1 where r: "r = (col, l1)" by (cases r)
  have cov: "indexes_cover E H l" using rel by (simp add: query_rel_def)
  note col = Inr [unfolded r] and same = get_collection_same [OF Inr [unfolded r]]
  note c1 = indexes_cover_collection [OF cov col]
  obtain ok col' where d: "drop_index name col = (ok, col')" by fastforce
  have d': "c_primary col' = c_primary col" "c_name col' = c_name col" "set (c_secondary col') \<subseteq> set (c_secondary col)"
    using d by (auto simp: drop_index_def split: option.splits)
  have "collection_covers E (current H c) c col" using c1 by (simp add: indexes_cover_def)
  then have "collection_covers E (current H c) c col'" using d' by (auto simp: collection_covers_def)
  then have "indexes_cover E H (set_collection c col' l1)"
    by (intro indexes_cover_set [OF c1(1)]) (simp_all add: set_collection_def)
  then have "query_rel E ord n (set_collection c col' l1) H"
    using query_rel_same_blocks [OF rel, of "set_collection c col' l1"] same lookup_set_collection [of col' l1 c] d'(1)
    by (simp add: set_collection_def)
  then show ?thesis using col d by (simp add: ledger_drop_index_def)
qed (use rel in \<open>simp add: ledger_drop_index_def\<close>)

lemma query_step_correct:
  assumes rel: "query_rel E ord (Suc n) l H" and ok: "query_ok E op"
  shows "\<exists>l'. query_step E ord enc op l = Some (Inr (fst (query_spec E op H), l')) \<and> query_rel E ord n l' (snd (query_spec E op H))"
proof -
  have R: "ledger_rep E l H" "plain_objects E H" "indexes_cover E H l" "json_index_laws E" "orders ord"
    "unat (m_next_page_no (m_blocks l)) + Suc n < 2 ^ 32"
    using rel by (auto simp: query_rel_def)
  show ?thesis
  proof (cases op)
    case (QLedger lop)
    have alloc: "can_allocate (m_blocks l)" using R(6) by (simp add: can_allocate_def word_less_nat_alt)
    obtain l' where step: "ledger_step E lop l = Some (Inr (fst (spec_step E lop H), l'))" and
      res: "write_result E (snd (spec_step E lop H)) l l'" "plain_objects E (snd (spec_step E lop H))"
      using ledger_step_correct [OF R(1,2) alloc, of lop] ok QLedger by auto
    have "indexes_cover E (snd (spec_step E lop H)) l'" by (rule indexes_cover_step [OF R(3) step]) (use ok QLedger in simp)
    then show ?thesis using QLedger step res R by (simp add: query_rel_def write_result_def)
  next
    case (QFind ctx c p)
    obtain ks where ks: "set ks = {k. matching E H c p k}" "find_all E ord ctx c p l = Some (Inr (map (\<lambda>k. (k, the (current H c k))) ks))"
      by (rule queries_correct [OF R(1-4) _ R(5), of p c ctx]) (use ok QFind in auto)
    have "set (map (\<lambda>k. (k, the (current H c k))) ks) = {(k, d). current H c k = Some d \<and> js_matches E d p}"
      unfolding set_map ks(1) by (auto simp: matching_def image_iff split: option.splits)
    then show ?thesis using ks(2) QFind query_rel_less [OF rel] by simp
  next
    case (QCount ctx c p)
    obtain ks where ks: "distinct ks" "set ks = {k. matching E H c p k}" "count_objects E ord ctx c p l = Some (Inr (word_of_nat (length ks)))"
      by (rule queries_correct [OF R(1-4) _ R(5), of p c ctx]) (use ok QCount in auto)
    then show ?thesis using QCount query_rel_less [OF rel] distinct_card [OF ks(1)] by simp
  next
    case (QCreateIndex c name path)
    then show ?thesis using create_index_step [OF query_rel_less [OF rel], of enc c name path] by auto
  next
    case (QDropIndex c name)
    then show ?thesis using drop_index_step [OF query_rel_less [OF rel]] by simp
  qed
qed

interpretation query: total_simulation "query_step E ord enc" "query_spec E" "query_rel E ord" "query_ok E"
  by unfold_locales (rule query_step_correct)

section \<open>Properties\<close>

text \<open>
  Property C5. Queries are exact: in any sequence of writes, reads, index creations, index removals and
  queries on the empty ledger, every operation returns, a query finds exactly the current documents that
  match its predicate, and a count is their number. It holds whichever indexes exist and whether the
  candidates come from indexes or from a scan, for predicates that compare indexed fields by equality or
  \<open>$in\<close> and documents without policies. The specification does not mention indexes at all.
\<close>

theorem queries_exact:
  assumes "json_roundtrip E" and "json_index_laws E" and "orders ord" and "\<forall>op\<in>set ops. query_ok E op" and "length ops + 65 < 2 ^ 32"
  shows "\<exists>l. run_partial (query_step E ord enc) ops (new_ledger first_store) =
    Some (Inr (fst (run_total (query_spec E) ops (\<lambda>_ _. [])), l))"
proof -
  have "query_rel E ord (length ops + 0) (new_ledger first_store) (\<lambda>_ _. [])"
    using assms new_ledger_rep [OF assms(1)] new_ledger_correct(3,4)
    by (simp add: query_rel_def plain_objects_def all_plain_def indexes_cover_def)
  then show ?thesis using query.run_returns assms(4) by blast
qed

definition string_order :: "string set \<Rightarrow> string list" where
  "string_order S = sorted_list_of_set S"

lemma string_order_orders: "orders string_order"
  by (simp add: orders_def string_order_def)

lemma nat_env_index_laws: "json_index_laws nat_env" "equality_query nat_env p"
  by (auto simp: json_index_laws_def equality_query_def nat_env_def matches_query_def listed_values_def)

theorem queries_exact_witness:
  "\<exists>l. run_partial (query_step nat_env string_order alice)
      [QLedger (LPut alice ''c'' ''k'' 7), QLedger (LPut alice ''c'' ''policies'' 8), QCreateIndex ''c'' ''i'' ''f'',
       QLedger (LPut alice ''c'' ''k'' 8), QFind alice ''c'' 8, QCount alice ''c'' 8, QCount alice ''c'' 7] (new_ledger first_store) =
    Some (Inr ([QOut (OutWritten True), QOut (OutWritten True), QDone, QOut (OutWritten True),
      QFound {(''k'', 8), (''policies'', 8)}, QCounted 2, QCounted 0], l))"
proof -
  let ?ops = "[QLedger (LPut alice ''c'' ''k'' 7), QLedger (LPut alice ''c'' ''policies'' 8), QCreateIndex ''c'' ''i'' ''f'',
    QLedger (LPut alice ''c'' ''k'' 8), QFind alice ''c'' 8, QCount alice ''c'' 8, QCount alice ''c'' 7]"
  let ?H = "(\<lambda>_ _. [])(''c'' := (\<lambda>_. [])(''policies'' := [(''client://alice'', 8 :: nat)],
    ''k'' := [(''client://alice'', 8), (''client://alice'', 7)]))"
  have current: "current ?H ''c'' = [''k'' \<mapsto> 8, ''policies'' \<mapsto> 8]" by (simp add: current_def fun_eq_iff)
  have "{(k, d). current ?H ''c'' k = Some d \<and> d = 8} = {(''k'', 8), (''policies'', 8)}"
    "Collect (matching nat_env ?H ''c'' 8) = {''k'', ''policies''}" "Collect (matching nat_env ?H ''c'' 7) = {}"
    unfolding matching_def current by (auto split: option.splits if_splits)
  then have "fst (run_total (query_spec nat_env) ?ops (\<lambda>_ _. [])) = [QOut (OutWritten True), QOut (OutWritten True), QDone,
      QOut (OutWritten True), QFound {(''k'', 8), (''policies'', 8)}, QCounted 2, QCounted 0]"
    by (simp add: put_version_def INITIAL_VERSION_NO_def set_object_def del: Collect_empty_eq)
  moreover have "is_valid_key ''policies''" by (simp add: is_valid_key_def is_alnum_def Let_def)
  then have "\<forall>op\<in>set ?ops. query_ok nat_env op" by (simp add: nat_env_index_laws nat_env_fits)
  ultimately show ?thesis
    using queries_exact [OF nat_env_roundtrip nat_env_index_laws(1) string_order_orders, of ?ops alice] by simp
qed

text \<open>After \<open>n\<close> keys a provider of \<open>m\<close> keys counts \<open>m + n\<close> of them as still to come.\<close>

lemma vector_count_rest_wrong:
  "m_key_position kv \<le> length (m_identifiers kv) \<Longrightarrow>
   vector_count_rest kv = word_of_nat (length (m_identifiers kv) + m_key_position kv)"
  by (simp add: vector_count_rest_def)

end
