(* ===== verification/Base64.thy ===== *)
theory Base64
  imports Credb_Prelude
begin

unbundle bit_operations_syntax

text \<open>
  The base64 codec of \<open>src/common/util/base64.cpp\<close>, which witnesses and public keys are printed
  with. The loops are recursions over the remaining input that carry the local variables of the
  source: the fill level \<open>i\<close>, the three-byte and four-byte buffers, and the result string. The
  buffers hold \<open>uint8_t\<close> values, so every shift and sum is one on bytes. Main result: decoding
  gives back what was encoded, except for inputs of fewer than three bytes, which the decoder
  refuses.
\<close>

section \<open>The alphabet\<close>

definition base64_chars :: string where
  "base64_chars = ''ABCDEFGHIJKLMNOPQRSTUVWXYZabcdefghijklmnopqrstuvwxyz0123456789+/''"

definition is_base64 :: "char \<Rightarrow> bool" where
  "is_base64 c \<longleftrightarrow> is_alnum c \<or> c = CHR ''+'' \<or> c = CHR ''/''"

text \<open>
  \<open>strchr\<close> minus the start of the string: the index of the first occurrence. The callers only
  look up characters that passed \<open>is_base64\<close>, which all occur.
\<close>

fun cstr_find :: "string \<Rightarrow> char \<Rightarrow> nat" where
  "cstr_find [] c = 0"
| "cstr_find (d # ds) c = (if d = c then 0 else Suc (cstr_find ds c))"

section \<open>Encoding\<close>

definition quads_of :: "u8 list \<Rightarrow> u8 list" where
  "quads_of a =
     [drop_bit 2 (a ! 0 AND 0xfc),
      push_bit 4 (a ! 0 AND 0x03) + drop_bit 4 (a ! 1 AND 0xf0),
      push_bit 2 (a ! 1 AND 0x0f) + drop_bit 6 (a ! 2 AND 0xc0),
      a ! 2 AND 0x3f]"

definition b64_char :: "u8 \<Rightarrow> char" where
  "b64_char q = base64_chars ! unat q"

fun encode_loop :: "u8 list \<Rightarrow> nat \<Rightarrow> u8 list \<Rightarrow> string \<Rightarrow> nat \<times> u8 list \<times> string" where
  "encode_loop [] i a3 ret = (i, a3, ret)"
| "encode_loop (b # bs) i a3 ret =
     (let a3' = a3[i := b]; i' = Suc i in
      if i' = 3 then encode_loop bs 0 a3' (ret @ map b64_char (quads_of a3'))
      else encode_loop bs i' a3' ret)"

definition encode_tail :: "nat \<Rightarrow> u8 list \<Rightarrow> string \<Rightarrow> string" where
  "encode_tail i a3 ret =
     (if i = 0 then ret
      else ret @ map b64_char (take (i + 1) (quads_of (take i a3 @ replicate (3 - i) 0))) @ replicate (3 - i) (CHR ''=''))"

definition base64_encode :: "u8 list \<Rightarrow> string" where
  "base64_encode bs = (case encode_loop bs 0 [0, 0, 0] [] of (i, a3, ret) \<Rightarrow> encode_tail i a3 ret)"

section \<open>Decoding\<close>

definition triple_of :: "u8 list \<Rightarrow> u8 list" where
  "triple_of q =
     [push_bit 2 (q ! 0) + drop_bit 4 (q ! 1 AND 0x30),
      push_bit 4 (q ! 1 AND 0xf) + drop_bit 2 (q ! 2 AND 0x3c),
      push_bit 6 (q ! 2 AND 0x3) + q ! 3]"

definition find_quad :: "u8 \<Rightarrow> u8" where
  "find_quad b = of_nat (cstr_find base64_chars (byte_char b))"

fun decode_loop :: "string \<Rightarrow> nat \<Rightarrow> nat \<Rightarrow> u8 list \<Rightarrow> string \<Rightarrow> nat \<times> nat \<times> u8 list \<times> string" where
  "decode_loop [] i pos a4 ret = (i, pos, a4, ret)"
| "decode_loop (c # cs) i pos a4 ret =
     (if c \<noteq> CHR ''='' \<and> is_base64 c
      then let a4' = a4[i := char_byte c]; i' = Suc i in
           if i' = 4
           then decode_loop cs 0 (Suc pos) (map find_quad a4') (ret @ map byte_char (triple_of (map find_quad a4')))
           else decode_loop cs i' (Suc pos) a4' ret
      else (i, pos, a4, ret))"

definition decode_tail :: "nat \<Rightarrow> u8 list \<Rightarrow> string \<Rightarrow> string" where
  "decode_tail i a4 ret =
     (if i = 0 then ret
      else ret @ map byte_char (take (i - 1) (triple_of (map find_quad (take i a4) @ drop i a4))))"

definition base64_decode :: "string \<Rightarrow> string result" where
  "base64_decode s =
     (case decode_loop s 0 0 [0, 0, 0, 0] [] of (i, pos, a4, ret) \<Rightarrow>
        if pos < 4 then Inl (RuntimeError ''String not long enough'') else Inr (decode_tail i a4 ret))"

section \<open>One group\<close>

lemma cstr_find_nth: "distinct xs \<Longrightarrow> n < length xs \<Longrightarrow> cstr_find xs (xs ! n) = n"
  by (induction xs arbitrary: n) (auto simp: nth_Cons split: nat.splits)

lemma distinct_base64_chars: "distinct base64_chars" and length_base64_chars: "length base64_chars = 64"
  and base64_chars_ok: "list_all (\<lambda>c. is_base64 c \<and> c \<noteq> CHR ''='') base64_chars"
  by (simp_all add: base64_chars_def is_base64_def is_alnum_def)

lemma b64_char_ok: "q < 64 \<Longrightarrow> is_base64 (b64_char q) \<and> b64_char q \<noteq> CHR ''=''"
  using base64_chars_ok by (simp add: b64_char_def list_all_length length_base64_chars word_less_nat_alt)

lemma find_quad_b64_char: "q < 64 \<Longrightarrow> find_quad (char_byte (b64_char q)) = q"
  using cstr_find_nth [OF distinct_base64_chars, of "unat q"]
  by (simp add: find_quad_def b64_char_def word_less_nat_alt length_base64_chars)

lemma all_bits8: "(\<And>n. n \<in> {0, 1, 2, 3, 4, 5, 6, 7} \<Longrightarrow> bit (a :: u8) n = bit b n) \<Longrightarrow> a = b"
  by (rule bit_word_eqI) (auto simp: less_Suc_eq numeral_eq_Suc)

lemma sum_is_or:
  fixes a b :: u8
  shows "push_bit 4 (a AND 0x03) + drop_bit 4 (b AND 0xf0) = push_bit 4 (a AND 0x03) OR drop_bit 4 (b AND 0xf0)"
    "push_bit 2 (a AND 0x0f) + drop_bit 6 (b AND 0xc0) = push_bit 2 (a AND 0x0f) OR drop_bit 6 (b AND 0xc0)"
    "push_bit 2 a + drop_bit 4 (b AND 0x30) = push_bit 2 a OR drop_bit 4 (b AND 0x30)"
    "push_bit 4 (a AND 0xf) + drop_bit 2 (b AND 0x3c) = push_bit 4 (a AND 0xf) OR drop_bit 2 (b AND 0x3c)"
  by (rule disjunctive_add_eq_or, rule all_bits8, force simp: bit_simps bit_numeral_rec)+

lemma masked_small: "(q :: u8) AND 0x3f = q \<Longrightarrow> q < 64"
  using word_and_le1 [of q "0x3f"] by (simp add: word_less_nat_alt word_le_nat_alt)

lemma quad_masks:
  fixes x y z :: u8
  shows "drop_bit 2 (x AND 0xfc) < 64" "push_bit 4 (x AND 0x03) + drop_bit 4 (y AND 0xf0) < 64"
    "push_bit 2 (y AND 0x0f) + drop_bit 6 (z AND 0xc0) < 64" "z AND 0x3f < 64"
  unfolding sum_is_or by (rule masked_small, rule all_bits8, force simp: bit_simps bit_numeral_rec)+

lemma quads_small: "q \<in> set (quads_of a) \<Longrightarrow> q < 64"
  unfolding quads_of_def list.set insert_iff empty_iff using quad_masks by metis

lemma triple_of_quads_of: "triple_of (quads_of [x, y, z]) = [x, y, z]"
proof -
  have last: "push_bit 6 (c AND 0x3) + (d AND 0x3f) = push_bit 6 (c AND 0x3) OR (d AND 0x3f)" for c d :: u8
    by (rule disjunctive_add_eq_or, rule all_bits8, force simp: bit_simps bit_numeral_rec)
  have 1: "push_bit 2 (drop_bit 2 (x AND 252)) OR drop_bit 4 ((push_bit 4 (x AND 3) OR drop_bit 4 (y AND 240)) AND 48) = x"
    by (rule all_bits8) (auto simp: bit_simps bit_numeral_rec, simp_all add: numeral_2_eq_2 numeral_3_eq_3)
  have 2: "push_bit 4 ((push_bit 4 (x AND 3) OR drop_bit 4 (y AND 240)) AND 15) OR
      drop_bit 2 ((push_bit 2 (y AND 15) OR drop_bit 6 (z AND 192)) AND 60) = y"
    by (rule all_bits8) (force simp: bit_simps bit_numeral_rec)
  have 3: "push_bit 6 ((push_bit 2 (y AND 15) OR drop_bit 6 (z AND 192)) AND 3) OR (z AND 63) = z"
    by (rule all_bits8) (force simp: bit_simps bit_numeral_rec)
  have nth: "[a, b, c, d] ! 0 = a" "[a, b, c, d] ! 1 = b" "[a, b, c, d] ! 2 = c" "[a, b, c, d] ! 3 = d"
    "[a, b, c] ! 0 = a" "[a, b, c] ! 1 = b" "[a, b, c] ! 2 = c" for a b c d :: u8
    by simp_all
  show ?thesis unfolding triple_of_def quads_of_def nth sum_is_or last 1 2 3 ..
qed

section \<open>The loops\<close>

text \<open>The encoder, group by group.\<close>

fun encode_groups :: "u8 list \<Rightarrow> string" where
  "encode_groups [] = []"
| "encode_groups [x] = map b64_char (take 2 (quads_of [x, 0, 0])) @ ''==''"
| "encode_groups [x, y] = map b64_char (take 3 (quads_of [x, y, 0])) @ ''=''"
| "encode_groups (x # y # z # bs) = map b64_char (quads_of [x, y, z]) @ encode_groups bs"

lemma list3_update: "length a3 = 3 \<Longrightarrow> a3[0 := x, Suc 0 := y, 2 := z] = [x, y, z]"
  by (auto simp: numeral_2_eq_2 numeral_3_eq_3 length_Suc_conv)

lemma list3_take: "length a3 = 3 \<Longrightarrow> take 1 (a3[0 := x]) = [x]" "length a3 = 3 \<Longrightarrow> take 2 (a3[0 := x, Suc 0 := y]) = [x, y]"
  by (auto simp: numeral_2_eq_2 numeral_3_eq_3 length_Suc_conv)

lemma encode_loop_groups:
  "length a3 = 3 \<Longrightarrow>
   (case encode_loop bs 0 a3 ret of (i, a, r) \<Rightarrow> encode_tail i a r) = ret @ encode_groups bs"
proof (induction bs arbitrary: a3 ret rule: encode_groups.induct)
  case (2 x)
  then show ?case by (simp add: encode_tail_def list3_take(1) [unfolded One_nat_def] Let_def numeral_2_eq_2)
next
  case (3 x y)
  then show ?case by (simp add: encode_tail_def list3_take [unfolded numeral_2_eq_2] Let_def numeral_2_eq_2 numeral_3_eq_3)
next
  case (4 x y z bs)
  then show ?case by (simp add: Let_def list3_update [unfolded numeral_2_eq_2] numeral_2_eq_2)
qed (simp add: encode_tail_def)

lemma base64_encode_groups: "base64_encode bs = encode_groups bs"
  using encode_loop_groups [of "[0, 0, 0]" bs "[]"] by (simp add: base64_encode_def)

lemma quads_list: "quads_of a = [quads_of a ! 0, quads_of a ! 1, quads_of a ! 2, quads_of a ! 3]"
  by (simp add: quads_of_def)

text \<open>A full group of four characters.\<close>

lemma decode_loop_quad:
  assumes "length a4 = 4" and "\<forall>q \<in> {q0, q1, q2, q3}. q < 64"
  shows "decode_loop (map b64_char [q0, q1, q2, q3] @ cs) 0 pos a4 ret =
    decode_loop cs 0 (pos + 4) [q0, q1, q2, q3] (ret @ map byte_char (triple_of [q0, q1, q2, q3]))"
proof -
  have "a4[0 := p0, Suc 0 := p1, Suc (Suc 0) := p2, Suc (Suc (Suc 0)) := p3] = [p0, p1, p2, p3]" for p0 p1 p2 p3
    using assms(1) by (auto simp: numeral_eq_Suc length_Suc_conv)
  with assms(2) show ?thesis by (simp add: Let_def b64_char_ok find_quad_b64_char numeral_eq_Suc)
qed

text \<open>A last group of two or three characters and its padding.\<close>

lemma decode_loop_part:
  assumes "length a4 = 4" and "\<forall>q \<in> set qs. q < 64" and "length qs \<in> {0, 2, 3}"
    and "pad = [] \<or> hd pad = CHR ''=''"
  obtains a where "decode_loop (map b64_char qs @ pad) 0 pos a4 ret = (length qs, pos + length qs, a, ret)"
    "length a = 4" "map find_quad (take (length qs) a) = qs"
proof -
  have stop: "decode_loop pad i pos a ret = (i, pos, a, ret)" for i pos a
    using assms(4) by (cases pad) auto
  consider "qs = []" | q0 q1 where "qs = [q0, q1]" | q0 q1 q2 where "qs = [q0, q1, q2]"
    using assms(3) by (auto simp: numeral_eq_Suc length_Suc_conv)
  then show thesis
  proof cases
    case 1
    then show ?thesis using that assms(1) by (simp add: stop)
  next
    case 2
    then show ?thesis
      using that [of "a4[0 := char_byte (b64_char q0), Suc 0 := char_byte (b64_char q1)]"] assms(1,2)
      by (auto simp: stop Let_def b64_char_ok find_quad_b64_char numeral_eq_Suc length_Suc_conv)
  next
    case 3
    then show ?thesis
      using that [of "a4[0 := char_byte (b64_char q0), Suc 0 := char_byte (b64_char q1), Suc (Suc 0) := char_byte (b64_char q2)]"]
        assms(1,2)
      by (auto simp: stop Let_def b64_char_ok find_quad_b64_char numeral_eq_Suc length_Suc_conv)
  qed
qed

lemma decode_tail_part:
  assumes "length a = 4" "n \<in> {2, 3}" "map find_quad (take n a) = take n (quads_of [x, y, z])"
  shows "decode_tail n a ret = ret @ map byte_char (take (n - 1) [x, y, z])"
proof -
  let ?q = "take n (quads_of [x, y, z]) @ drop n a"
  have "take (n - 1) (triple_of (take n qs @ drop n a)) = take (n - 1) (triple_of qs)" if "length qs = 4" for qs
    using assms(1,2) that by (auto simp: triple_of_def nth_append)
  moreover have "length (quads_of [x, y, z]) = 4" by (simp add: quads_of_def)
  ultimately have "take (n - 1) (triple_of ?q) = take (n - 1) (triple_of (quads_of [x, y, z]))" by blast
  with assms(2,3) show ?thesis by (auto simp: decode_tail_def triple_of_quads_of)
qed

definition encoded_chars :: "nat \<Rightarrow> nat" where
  "encoded_chars n = 4 * (n div 3) + (if n mod 3 = 0 then 0 else n mod 3 + 1)"

lemma encoded_chars_group: "encoded_chars (Suc (Suc (Suc n))) = 4 + encoded_chars n"
proof -
  have "Suc (Suc (Suc n)) = n + 3" by simp
  then show ?thesis by (simp only: encoded_chars_def div_add_self2 mod_add_self2) simp
qed

lemma decode_loop_encoded:
  "length a4 = 4 \<Longrightarrow>
   (case decode_loop (encode_groups bs) 0 pos a4 ret of (i, p, a, r) \<Rightarrow> (p, decode_tail i a r)) =
   (pos + encoded_chars (length bs), ret @ map byte_char bs)"
proof (induction bs arbitrary: a4 pos ret rule: encode_groups.induct)
  case 1
  then show ?case by (simp add: encoded_chars_def decode_tail_def)
next
  case (2 x)
  have len: "length (take 2 (quads_of [x, 0, 0])) = 2" by (simp add: quads_of_def)
  have small: "\<forall>q \<in> set (take 2 (quads_of [x, 0, 0])). q < 64" by (meson quads_small in_set_takeD)
  obtain a where a: "decode_loop (encode_groups [x]) 0 pos a4 ret = (2, pos + 2, a, ret)"
    "length a = 4" "map find_quad (take 2 a) = take 2 (quads_of [x, 0, 0])"
    using decode_loop_part [OF 2 small, of "''==''" pos ret] len by force
  then show ?case using decode_tail_part [OF a(2) _ a(3)] by (simp add: encoded_chars_def)
next
  case (3 x y)
  have len: "length (take 3 (quads_of [x, y, 0])) = 3" by (simp add: quads_of_def)
  have small: "\<forall>q \<in> set (take 3 (quads_of [x, y, 0])). q < 64" by (meson quads_small in_set_takeD)
  obtain a where a: "decode_loop (encode_groups [x, y]) 0 pos a4 ret = (3, pos + 3, a, ret)"
    "length a = 4" "map find_quad (take 3 a) = take 3 (quads_of [x, y, 0])"
    using decode_loop_part [OF 3 small, of "''=''" pos ret] len by force
  then show ?case using decode_tail_part [OF a(2) _ a(3)] by (simp add: encoded_chars_def numeral_2_eq_2)
next
  case (4 x y z bs)
  let ?q = "quads_of [x, y, z]"
  have small: "\<forall>q \<in> {?q ! 0, ?q ! 1, ?q ! 2, ?q ! 3}. q < 64"
    using quads_small [of _ "[x, y, z]"] quads_list [of "[x, y, z]"] by (metis insert_iff list.set empty_iff)
  have "decode_loop (encode_groups (x # y # z # bs)) 0 pos a4 ret =
      decode_loop (encode_groups bs) 0 (pos + 4) ?q (ret @ map byte_char [x, y, z])"
    using decode_loop_quad [OF 4(2) small, of "encode_groups bs" pos ret]
    unfolding quads_list [symmetric] triple_of_quads_of by simp
  moreover have "length ?q = 4" by (simp add: quads_of_def)
  ultimately show ?case using 4(1) by (simp add: encoded_chars_group)
qed

text \<open>
  The round trip, for every byte string: decoding an encoded string gives back the bytes, except that
  the decoder refuses the encodings of strings of fewer than three bytes (fewer than four characters
  precede their padding), although the encoder produces them.
\<close>

lemma base64_round_trip:
  "base64_decode (base64_encode bs) =
     (if length bs < 3 then Inl (RuntimeError ''String not long enough'') else Inr (map byte_char bs))"
proof -
  obtain i p a r where "decode_loop (encode_groups bs) 0 0 [0, 0, 0, 0] [] = (i, p, a, r)"
    "p = encoded_chars (length bs)" "decode_tail i a r = map byte_char bs"
    using decode_loop_encoded [of "[0, 0, 0, 0]" bs 0 "[]"]
    by (cases "decode_loop (encode_groups bs) 0 0 [0, 0, 0, 0] []") auto
  moreover have "encoded_chars n < 4 \<longleftrightarrow> n < 3" for n
    by (cases "n < 3") (auto simp: encoded_chars_def not_less dest: div_le_mono [of 3 n 3])
  ultimately show ?thesis by (simp add: base64_decode_def base64_encode_groups)
qed

end
