(* ===== verification/Witness.thy ===== *)
theory Witness
  imports Base64 Ledger_Properties "HOL-Library.AList"
begin

text \<open>
  Witnesses (\<open>include/credb/Witness.h\<close>, \<open>src/ledger/Witness.cpp\<close>, \<open>src/enclave/Witness.h\<close>,
  \<open>Ledger::create_witness\<close>): signed digests of events. The JSON writer, the bitstream and the
  signature scheme are libraries, collected in the record \<open>witness_lib\<close>. Shown: the armoured text of a
  witness is read back as the same witness; which events a witness lists and that it is accepted
  under the server's key; and what \<open>get_boundaries\<close> makes of the events of one shard.
\<close>

section \<open>Contents of a witness\<close>

record witness =
  m_data :: "u8 list"
  m_signature :: "u8 list"

text \<open>A signature has 64 bytes. In a witness that is not signed they are uninitialised memory, zeros here.\<close>

definition no_signature :: "u8 list" where
  "no_signature = replicate 64 0"

definition new_witness :: witness where
  "new_witness = \<lparr>m_data = [], m_signature = no_signature\<rparr>"

text \<open>
  One element of the array \<open>create_witness\<close> writes. The loop over the differences writes nothing
  into the array \<open>diff\<close>, so a change carries no document. \<open>Unreported\<close> is the element of an event
  that matches no case: it has no field \<open>type\<close>.
\<close>

datatype 'd witness_change = DeletionEntry | ChangeEntry | CreationEntry 'd | Unreported

record 'd witness_entry =
  we_event :: event_id_t
  we_source :: string
  we_change :: "'d witness_change"

record 'd witness_lib =
  wl_document :: "'d witness_entry list \<Rightarrow> u8 list"
  wl_operations :: "u8 list \<Rightarrow> (int \<times> int \<times> int) result list result"
  wl_put :: "u8 list \<Rightarrow> u8 list \<Rightarrow> u8 list"
  wl_get :: "u8 list \<Rightarrow> (u8 list \<times> u8 list) result"
  wl_sign :: "u8 list \<Rightarrow> u8 list option"
  wl_verify :: "u8 list \<Rightarrow> u8 list \<Rightarrow> u8 list \<Rightarrow> bool"

section \<open>Creating a witness\<close>

definition sign_witness :: "('d, 'y) witness_lib_scheme \<Rightarrow> witness \<Rightarrow> bool \<times> witness" where
  "sign_witness W w =
     (case wl_sign W (m_data w) of None \<Rightarrow> (False, w) | Some sig \<Rightarrow> (True, w\<lparr>m_signature := sig\<rparr>))"

definition change_of :: "'d event_handle \<Rightarrow> 'd event_handle \<Rightarrow> 'd witness_change result" where
  "change_of event prev =
     rbind (get_type event) (\<lambda>t.
       if t = Deletion then Inr DeletionEntry
       else rbind (if event_valid prev then rbind (get_type prev) (\<lambda>pt. Inr (pt \<noteq> Deletion)) else Inr False) (\<lambda>changed.
         if changed then rbind (event_value event) (\<lambda>_. Inr ChangeEntry)
         else if t = NewVersion then rbind (event_value event) (\<lambda>view. Inr (CreationEntry view))
         else Inr Unreported))"

fun witness_entries ::
  "('d, 'z) json_lib_scheme \<Rightarrow> ledger \<Rightarrow> event_id_t list \<Rightarrow> 'd witness_entry list option result" where
  "witness_entries E l [] = Inr (Some [])"
| "witness_entries E l (eid # events) =
     rbind (get_event E eid l) (\<lambda>event.
       if \<not> event_valid event then Inr None
       else rbind (get_previous_event E (ev_shard eid) event l) (\<lambda>prev.
            rbind (source event) (\<lambda>src.
            rbind (change_of event prev) (\<lambda>change.
            rbind (witness_entries E l events) (\<lambda>rest.
              Inr (map_option (\<lambda>es. \<lparr>we_event = eid, we_source = src, we_change = change\<rparr> # es) rest))))))"

definition create_witness ::
  "('d, 'z) json_lib_scheme \<Rightarrow> ('d, 'y) witness_lib_scheme \<Rightarrow> witness \<Rightarrow> event_id_t list \<Rightarrow> ledger \<Rightarrow> (bool \<times> witness) result" where
  "create_witness E W w events l =
     rbind (witness_entries E l events) (\<lambda>es.
       case es of
         None \<Rightarrow> Inr (False, w)
       | Some es \<Rightarrow> Inr (sign_witness W (w\<lparr>m_data := wl_document W es\<rparr>)))"

section \<open>Validation\<close>

definition witness_valid :: "('d, 'y) witness_lib_scheme \<Rightarrow> u8 list \<Rightarrow> witness \<Rightarrow> bool" where
  "witness_valid W public_key w = wl_verify W public_key (m_data w) (m_signature w)"

text \<open>The size of \<open>sgx_ec256_public_t\<close>: two coordinates of 32 bytes.\<close>

definition PUBLIC_KEY_SIZE :: nat where "PUBLIC_KEY_SIZE = 64"

definition witness_is_valid :: "('d, 'y) witness_lib_scheme \<Rightarrow> string \<Rightarrow> witness \<Rightarrow> bool result" where
  "witness_is_valid W public_key_base64 w =
     rbind (base64_decode public_key_base64) (\<lambda>decoded.
       if length decoded \<noteq> PUBLIC_KEY_SIZE then Inl (RuntimeError ''invalid public key length'')
       else Inr (witness_valid W (map char_byte decoded) w))"

section \<open>Textual form\<close>

definition BEGIN_MESSAGE :: string where "BEGIN_MESSAGE = ''-----BEGIN CREDB WITNESS MESSAGE-----''"
definition END_MESSAGE :: string where "END_MESSAGE = ''-----END CREDB WITNESS MESSAGE-----''"

definition newline :: char where "newline = CHR 0x0A"

definition per_line :: nat where "per_line = 64"

text \<open>The loop over \<open>pos\<close>, on the part of the string from \<open>pos\<close> on.\<close>

function armor_lines :: "string \<Rightarrow> string" where
  "armor_lines rest =
     (if per_line < length rest then take per_line rest @ [newline] @ armor_lines (drop per_line rest)
      else if rest \<noteq> [] then rest @ [newline] else [])"
  by pat_completeness auto
termination by (relation "measure length") (auto simp: per_line_def)

declare armor_lines.simps [simp del]

definition armor :: "('d, 'y) witness_lib_scheme \<Rightarrow> witness \<Rightarrow> string" where
  "armor W w =
     BEGIN_MESSAGE @ [newline] @ armor_lines (base64_encode (wl_put W (m_data w) (m_signature w))) @ END_MESSAGE @ [newline]"

text \<open>
  \<open>std::getline\<close> on the unread part of the stream: it fails when nothing is left, and otherwise
  takes the characters up to the next newline, which it drops.
\<close>

definition getline :: "string \<Rightarrow> (string \<times> string) option" where
  "getline s = (if s = [] then None else Some (takeWhile (\<lambda>c. c \<noteq> newline) s, tl (dropWhile (\<lambda>c. c \<noteq> newline) s)))"

lemma getline_shorter: "getline s = Some (line, s') \<Longrightarrow> length s' < length s"
  using length_dropWhile_le [of "\<lambda>c. c \<noteq> newline" s]
  by (cases s) (auto simp: getline_def split: if_splits)

function read_lines :: "string \<Rightarrow> string \<Rightarrow> string result" where
  "read_lines s acc =
     (case getline s of
        None \<Rightarrow> Inl (RuntimeError ''Failed to getline'')
      | Some (line, s') \<Rightarrow> if line = END_MESSAGE then Inr acc else read_lines s' (acc @ line))"
  by pat_completeness auto
termination by (relation "measure (length \<circ> fst)") (auto dest: getline_shorter)

declare read_lines.simps [simp del]

definition read_witness :: "('d, 'y) witness_lib_scheme \<Rightarrow> string \<Rightarrow> witness result" where
  "read_witness W s =
     (case getline s of
        None \<Rightarrow> Inl (RuntimeError ''Failed to getline'')
      | Some (line, s') \<Rightarrow>
          if line \<noteq> BEGIN_MESSAGE then Inl (RuntimeError ''The line doesn't start with BEGIN_MESSAGE'')
          else rbind (read_lines s' []) (\<lambda>b64.
               rbind (base64_decode b64) (\<lambda>decoded.
               rbind (wl_get W (map char_byte decoded)) (\<lambda>(d, sig). Inr \<lparr>m_data = d, m_signature = sig\<rparr>))))"

section \<open>Boundaries\<close>

text \<open>
  \<open>get_boundaries\<close> over the elements of the field \<open>operations\<close>, each with its three integers. The
  second element of a shard is merged into the range of that shard, and the loop ends there.
\<close>

definition merge_range :: "block_id_t \<Rightarrow> block_index_t \<Rightarrow> event_range_t \<Rightarrow> event_range_t" where
  "merge_range block index e =
     (let e1 = (if start_block e > block then e\<lparr>start_block := block, start_index := index\<rparr>
                else if start_block e = block \<or> start_index e > index then e\<lparr>start_index := index\<rparr> else e)
      in if end_block e1 < block then e1\<lparr>end_block := block, end_index := index\<rparr>
         else if end_block e1 = block \<or> end_index e1 < index then e1\<lparr>end_index := index\<rparr> else e1)"

fun boundaries_loop :: "(int \<times> int \<times> int) result list \<Rightarrow> transaction_bounds_t \<Rightarrow> transaction_bounds_t result" where
  "boundaries_loop [] bounds = Inr bounds"
| "boundaries_loop (entry # ops) bounds =
     rbind entry (\<lambda>(s, b, i).
       let shard = word_of_int s; block = word_of_int b; index = word_of_int i
       in case map_of bounds shard of
            None \<Rightarrow> boundaries_loop ops (insort_key fst (shard,
              \<lparr>start_block = block, end_block = block, start_index = index, end_index = index\<rparr>) bounds)
          | Some e \<Rightarrow> Inr (AList.update shard (merge_range block index e) bounds))"

definition get_boundaries :: "('d, 'y) witness_lib_scheme \<Rightarrow> witness \<Rightarrow> transaction_bounds_t result" where
  "get_boundaries W w = rbind (wl_operations W (m_data w)) (\<lambda>ops. boundaries_loop ops [])"

definition order_witness :: "('d, 'y) witness_lib_scheme \<Rightarrow> witness \<Rightarrow> witness \<Rightarrow> OrderResult result" where
  "order_witness W w1 w2 =
     rbind (get_boundaries W w1) (\<lambda>b1. rbind (get_boundaries W w2) (\<lambda>b2. Inr (order_bounds b1 b2)))"

section \<open>Reading back an armoured witness\<close>

lemma getline_line:
  "newline \<notin> set line \<Longrightarrow> getline (line @ newline # s) = Some (line, s)"
  by (induction line) (auto simp: getline_def)

lemma b64_char_in: "q < 64 \<Longrightarrow> b64_char q \<in> set base64_chars"
  by (simp add: b64_char_def length_base64_chars word_less_nat_alt)

lemma set_encode_groups: "set (encode_groups bs) \<subseteq> insert (CHR ''='') (set base64_chars)"
proof (induction bs rule: encode_groups.induct)
  case (2 x)
  show ?case by (auto dest!: in_set_takeD quads_small b64_char_in)
next
  case (3 x y)
  show ?case by (auto dest!: in_set_takeD quads_small b64_char_in)
next
  case (4 x y z bs)
  then show ?case by (auto dest!: quads_small b64_char_in)
qed simp

lemma base64_text: "newline \<notin> set (base64_encode bs)" "CHR ''-'' \<notin> set (base64_encode bs)"
proof -
  have "newline \<notin> insert (CHR ''='') (set base64_chars)" "CHR ''-'' \<notin> insert (CHR ''='') (set base64_chars)"
    by (simp_all add: newline_def base64_chars_def)
  then show "newline \<notin> set (base64_encode bs)" "CHR ''-'' \<notin> set (base64_encode bs)"
    using set_encode_groups [of bs] by (auto simp: base64_encode_groups)
qed

lemma read_lines_line:
  assumes "newline \<notin> set line"
  shows "read_lines (line @ newline # s) acc = (if line = END_MESSAGE then Inr acc else read_lines s (acc @ line))"
  by (subst read_lines.simps) (simp add: getline_line [OF assms])

lemma end_message: "newline \<notin> set END_MESSAGE" "CHR ''-'' \<in> set END_MESSAGE" "newline \<notin> set BEGIN_MESSAGE"
  by (simp_all add: END_MESSAGE_def BEGIN_MESSAGE_def newline_def)

lemma read_armor_lines:
  assumes "newline \<notin> set str" "CHR ''-'' \<notin> set str"
  shows "read_lines (armor_lines str @ END_MESSAGE @ [newline]) acc = Inr (acc @ str)"
  using assms
proof (induction str arbitrary: acc rule: armor_lines.induct)
  case (1 rest)
  have clean: "newline \<notin> set (take n rest)" "newline \<notin> set (drop n rest)"
    "CHR ''-'' \<notin> set (take n rest)" "CHR ''-'' \<notin> set (drop n rest)" for n
    using 1(2,3) by (meson in_set_takeD in_set_dropD)+
  have differs: "take n rest \<noteq> END_MESSAGE" for n using clean(3) end_message(2) by metis
  have last: "read_lines (END_MESSAGE @ [newline]) acc = Inr acc" for acc
    using read_lines_line [OF end_message(1), of "[]"] by simp
  show ?case
  proof (cases "per_line < length rest")
    case True
    have "read_lines (armor_lines rest @ END_MESSAGE @ [newline]) acc =
        read_lines (armor_lines (drop per_line rest) @ END_MESSAGE @ [newline]) (acc @ take per_line rest)"
      using True by (subst armor_lines.simps) (simp add: read_lines_line clean differs)
    also have "\<dots> = Inr ((acc @ take per_line rest) @ drop per_line rest)"
      using 1(1) [OF True clean(2,4)] .
    finally show ?thesis by simp
  next
    case False
    have "rest \<noteq> END_MESSAGE" using differs [of "length rest"] by simp
    with False show ?thesis using 1(2) by (subst armor_lines.simps) (simp add: read_lines_line last)
  qed
qed

section \<open>Properties\<close>

text \<open>
  Property C28. The textual form of a witness is read back as the same witness: the framing lines and
  the line breaks are removed again and the base64 text decodes to the serialised witness, for every
  length that is not a multiple of three as well. Only a witness serialised to fewer than three
  bytes is refused, by the base64 decoder. The bitstream library is assumed to read back what it
  wrote.
\<close>

theorem witness_armor_round_trip:
  assumes "\<And>d sig. wl_get W (wl_put W d sig) = Inr (d, sig)"
  shows "read_witness W (armor W w) =
    (if length (wl_put W (m_data w) (m_signature w)) < 3 then Inl (RuntimeError ''String not long enough'') else Inr w)"
proof -
  let ?bytes = "wl_put W (m_data w) (m_signature w)"
  have "getline (armor W w) = Some (BEGIN_MESSAGE, armor_lines (base64_encode ?bytes) @ END_MESSAGE @ [newline])"
    unfolding armor_def by (simp add: getline_line end_message(3))
  then show ?thesis
    by (simp add: read_witness_def read_armor_lines base64_text assms base64_round_trip comp_def)
qed

text \<open>An example library: lengths in unary, entries by their number, and a one-byte signature.\<close>

definition example_lib :: "nat witness_lib" where
  "example_lib =
     \<lparr>wl_document = (\<lambda>es. replicate (length es) 7),
      wl_operations = (\<lambda>d. Inr (if d = [] then [] else [Inr (3, 9, 1), Inr (3, 9, 4), Inr (3, 8, 0)])),
      wl_put = (\<lambda>d sig. replicate (length d) 1 @ 0 # d @ sig),
      wl_get = (\<lambda>bs. let n = length (takeWhile (\<lambda>b. b = 1) bs) in Inr (take n (drop (Suc n) bs), drop (Suc (2 * n)) bs)),
      wl_sign = (\<lambda>d. Some [5]), wl_verify = (\<lambda>k d sig. sig = [5])\<rparr>"

lemma example_lib_get_put: "wl_get example_lib (wl_put example_lib d sig) = Inr (d, sig)"
proof -
  have "takeWhile (\<lambda>b. b = 1) (replicate n 1 @ (0 :: u8) # xs) = replicate n 1" for n xs by (induction n) auto
  then show ?thesis by (simp add: example_lib_def Let_def mult_2)
qed

theorem witness_armor_round_trip_witness:
  "read_witness example_lib (armor example_lib \<lparr>m_data = [10, 20], m_signature = [5]\<rparr>) = Inr \<lparr>m_data = [10, 20], m_signature = [5]\<rparr>"
  using witness_armor_round_trip [OF example_lib_get_put, of "\<lparr>m_data = [10, 20], m_signature = [5]\<rparr>"]
  by (simp add: example_lib_def)

lemma change_of_version:
  assumes rt: "json_roundtrip E" and wf: "ledger_wf E l" and ch: "version_chain E l s ev (v # vs)"
  shows "rbind (get_previous_event E s (Some ev) l) (change_of (Some ev)) =
    Inr (if vs = [] then CreationEntry (snd v) else ChangeEntry)"
proof (cases "vs = []")
  case True
  then have "has_predecessor (Some ev) = Inr False" using ch by (simp only: version_chain.simps simp_thms if_True)
  with True show ?thesis
    using version_chainD(2,3) [OF ch] by (simp add: get_previous_event_def change_of_def event_valid_def)
next
  case False
  then obtain eid c where "has_predecessor (Some ev) = Inr True" "predecessor_id s (Some ev) = Inr eid" "stored E l eid c"
    "version_chain E l s c vs"
    using ch by (simp only: version_chain.simps if_False) blast
  with False show ?thesis
    using version_chainD(2,3) [OF ch] version_chainD(2) [of E l s c vs] stored_get_event [OF rt wf, of eid c]
    by (simp add: get_previous_event_def change_of_def event_valid_def del: version_chain.simps)
qed

lemma put_version_few: "length vs + 1 < 2 ^ 32 \<Longrightarrow> put_version v vs = v # vs"
proof -
  assume few: "length vs + 1 < 2 ^ 32"
  then have "vs = []" if "(word_of_nat (Suc (length vs)) :: u32) = 1"
  proof -
    have "unat (word_of_nat (Suc (length vs)) :: u32) = Suc (length vs)" using few by (simp only: unsigned_of_nat take_bit_nat_eq_self) (simp add: take_bit_nat_eq_self)
    with that show ?thesis by simp
  qed
  then show ?thesis by (auto simp: put_version_def INITIAL_VERSION_NO_def)
qed

text \<open>
  Property C27. What a witness of a put says, whenever it is created: after any operations before and
  after the put, \<open>create_witness\<close> for the identifier the put returned succeeds exactly when the signature
  can be made, and the signed document has one entry, with the identifier, the writer's identity, and
  the document if the put created the object. For an update the entry says that there was a change and
  nothing about it. When the signature scheme accepts its own signatures the witness is valid.
\<close>

theorem put_witness_content:
  assumes rt: "json_roundtrip E" and ops: "\<forall>op\<in>set (before @ LPut ctx c k d # after). op_ok E op"
    and len: "length before + length after + 66 < 2 ^ 32"
    and run: "run_ledger E before (new_ledger first_store) = Some (Inr (outs, l1))"
    and put: "ledger_put E ctx c k d [] False l1 = Some (Inr (eid, l2))"
    and sign: "\<And>m sig. wl_sign W m = Some sig \<Longrightarrow> wl_verify W key m sig"
  shows "\<exists>outs' l3 es ok w'. run_ledger E after l2 = Some (Inr (outs', l3)) \<and>
     create_witness E W w [eid] l3 = Inr (ok, w') \<and> m_data w' = wl_document W es \<and>
     ok = (wl_sign W (wl_document W es) \<noteq> None) \<and> (ok \<longrightarrow> witness_valid W key w') \<and>
     es = [\<lparr>we_event = eid, we_source = context_to_string ctx,
            we_change = (if snd (run_spec E before (\<lambda>_ _. [])) c k = [] then CreationEntry d else ChangeEntry)\<rparr>]"
proof -
  let ?vs = "snd (run_spec E before (\<lambda>_ _. [])) c k"
  obtain outs' l3 ev where l3: "run_ledger E after l2 = Some (Inr (outs', l3))" "ledger_wf E l3" "stored E l3 eid ev"
    "ev_shard eid = get_shard c k" "version_chain E l3 (get_shard c k) ev ((context_to_string ctx, d) # ?vs)"
  proof -
    have vs: "put_version (context_to_string ctx, d) ?vs = (context_to_string ctx, d) # ?vs"
      using run_spec_length [of E before "\<lambda>_ _. []" c k] len by (intro put_version_few) simp
    show thesis by (rule put_between [OF rt ops len run put]) (rule that, auto simp only: vs)
  qed
  let ?es = "[\<lparr>we_event = eid, we_source = context_to_string ctx, we_change = (if ?vs = [] then CreationEntry d else ChangeEntry)\<rparr>]"
  obtain prev where prev: "get_previous_event E (get_shard c k) (Some ev) l3 = Inr prev"
    "change_of (Some ev) prev = Inr (if ?vs = [] then CreationEntry d else ChangeEntry)"
    using change_of_version [OF rt l3(2,5)] by (auto simp: rbind_eq_Inr)
  have "witness_entries E l3 [eid] = Inr (Some ?es)"
    using stored_get_event [OF rt l3(2,3)] version_chainD(5) [OF l3(5)] prev l3(4) by (simp add: event_valid_def)
  then have "create_witness E W w [eid] l3 = Inr (sign_witness W (w\<lparr>m_data := wl_document W ?es\<rparr>))"
    by (simp add: create_witness_def)
  with l3(1) sign show ?thesis
    by (cases "wl_sign W (wl_document W ?es)") (auto simp: sign_witness_def witness_valid_def intro!: exI [of _ ?es])
qed

theorem put_witness_content_witness:
  "\<exists>eid l2 l3 w'. ledger_put nat_env alice ''c'' ''k'' 7 [] False (new_ledger first_store) = Some (Inr (eid, l2)) \<and>
     run_ledger nat_env [LRemove alice ''c'' ''k'' 0] l2 = Some (Inr ([OutWritten True], l3)) \<and>
     create_witness nat_env example_lib \<lparr>m_data = [], m_signature = []\<rparr> [eid] l3 = Inr (True, w') \<and>
     m_data w' = wl_document example_lib [\<lparr>we_event = eid, we_source = ''client://alice'', we_change = CreationEntry 7\<rparr>] \<and>
     witness_valid example_lib [] w'"
proof -
  let ?l = "new_ledger first_store"
  have ok: "op_ok nat_env (LPut alice ''c'' ''k'' 7)" "op_ok nat_env (LRemove alice ''c'' ''k'' 0)" by (simp_all add: nat_env_fits)
  obtain eid l2 where put: "ledger_put nat_env alice ''c'' ''k'' 7 [] False ?l = Some (Inr (eid, l2))" by (rule example_put)
  have ops: "\<forall>op\<in>set ([] @ LPut alice ''c'' ''k'' 7 # [LRemove alice ''c'' ''k'' 0]). op_ok nat_env op" using ok by simp
  have run: "run_ledger nat_env [] ?l = Some (Inr ([], ?l))" by simp
  have law: "wl_sign example_lib m = Some sig \<Longrightarrow> wl_verify example_lib [] m sig" for m sig by (auto simp: example_lib_def)
  obtain outs' l3 w' where l3: "run_ledger nat_env [LRemove alice ''c'' ''k'' 0] l2 = Some (Inr (outs', l3))"
    "create_witness nat_env example_lib \<lparr>m_data = [], m_signature = []\<rparr> [eid] l3 = Inr (True, w')"
    "m_data w' = wl_document example_lib [\<lparr>we_event = eid, we_source = ''client://alice'', we_change = CreationEntry 7\<rparr>]"
    "witness_valid example_lib [] w'"
    using put_witness_content [OF nat_env_roundtrip ops _ run put law, of "\<lparr>m_data = [], m_signature = []\<rparr>"]
    by (auto simp: example_lib_def)
  obtain l where "run_ledger nat_env [LPut alice ''c'' ''k'' 7, LRemove alice ''c'' ''k'' 0] ?l =
      Some (Inr ([OutWritten True, OutWritten True], l))"
    using run_from_new [OF nat_env_roundtrip, of "[LPut alice ''c'' ''k'' 7, LRemove alice ''c'' ''k'' 0]"] ok
    by (auto simp: set_object_def put_version_def INITIAL_VERSION_NO_def)
  then have "outs' = [OutWritten True]" using put l3(1) by auto
  with put l3 show ?thesis by blast
qed

text \<open>
  The boundaries of a witness need not cover its events. When the first two operations it
  lists are events of one block, in the order of the log, the range computed for their shard starts at the
  second one, so the first event counts as older than the witness that lists it; and no operation after
  these two is looked at.
\<close>

lemma witness_boundaries_skip_event:
  assumes "wl_operations W (m_data w) = Inr (Inr (s, b, i) # Inr (s, b, j) # ops)"
    and "0 \<le> i" and "i < j" and "j < 2 ^ 16"
  shows "\<exists>r. get_boundaries W w = Inr [(word_of_int s, r)] \<and>
     event_before_range (mk_event_id (word_of_int s) (word_of_int b) (word_of_int i)) r"
proof -
  have "(word_of_int i :: block_index_t) < word_of_int j"
    using assms(2-4) by (simp add: word_less_def unsigned_of_int take_bit_int_eq_self)
  then show ?thesis
    using assms(1) by (auto simp: get_boundaries_def Let_def merge_range_def event_before_range_def mk_event_id_def)
qed

end
