(* ===== verification/Disk.thy ===== *)
theory Disk
  imports Credb_Prelude
begin

text \<open>
  The file cache of the server (\<open>src/server/Disk.cpp\<close>, \<open>Disk.h\<close>): 64 shards of files in memory, written
  to the directory \<open>m_disk_path\<close> in batches, or kept in memory only when that path is empty. The file
  system is the record \<open>file_system\<close>: the contents of the files and the paths that can be opened for
  writing. The hash \<open>std::hash<std::string>\<close> that selects the shard is an argument. \<open>LOG(FATAL)\<close> ends
  the process and appears as the error \<open>Fatal\<close>; a lock that is already held makes the operation wait
  forever, which is the error \<open>Blocked\<close>.
\<close>

section \<open>State\<close>

record file_system =
  fs_files :: "string \<rightharpoonup> u8 list"
  fs_writable :: "string \<Rightarrow> bool"

definition DISK_SHARDS :: nat where "DISK_SHARDS = 64"

definition FLUSH_BATCH :: u64 where "FLUSH_BATCH = 2 ^ 20"

text \<open>The hash table \<open>files\<close> is the list of its entries, in the order an iteration visits them.\<close>

record disk_shard =
  flush_pending_size :: u64
  flush_pending_list :: "string list"
  files :: "(string \<times> u8 list) list"
  held :: bool

record disk =
  m_disk_path :: string
  disk_shards :: "nat \<Rightarrow> disk_shard"
  m_num_loads :: u64
  m_byte_size :: u64
  m_num_files :: u64
  file_sys :: file_system

definition empty_shard :: disk_shard where
  "empty_shard = \<lparr>flush_pending_size = 0, flush_pending_list = [], files = [], held = False\<rparr>"

definition new_disk :: "string \<Rightarrow> file_system \<Rightarrow> disk" where
  "new_disk path fs =
     \<lparr>m_disk_path = (if path \<noteq> [] \<and> last path \<noteq> CHR ''/'' then path @ ''/'' else path),
      disk_shards = (\<lambda>_. empty_shard), m_num_loads = 0, m_byte_size = 0, m_num_files = 0, file_sys = fs\<rparr>"

definition to_shard :: "(string \<Rightarrow> nat) \<Rightarrow> string \<Rightarrow> nat" where
  "to_shard hash filename = hash filename mod DISK_SHARDS"

definition file_size :: "u8 list \<Rightarrow> u64" where
  "file_size data = of_nat (length data)"

section \<open>Locks, files and flushing\<close>

definition lock_shard :: "nat \<Rightarrow> disk \<Rightarrow> disk result" where
  "lock_shard i d =
     (if held (disk_shards d i) then Inl Blocked
      else Inr (d\<lparr>disk_shards := (disk_shards d)(i := (disk_shards d i)\<lparr>held := True\<rparr>)\<rparr>))"

definition unlock_shard :: "nat \<Rightarrow> disk \<Rightarrow> disk" where
  "unlock_shard i d = d\<lparr>disk_shards := (disk_shards d)(i := (disk_shards d i)\<lparr>held := False\<rparr>)\<rparr>"

definition set_files :: "nat \<Rightarrow> (string \<times> u8 list) list \<Rightarrow> disk \<Rightarrow> disk" where
  "set_files i fl d = d\<lparr>disk_shards := (disk_shards d)(i := (disk_shards d i)\<lparr>files := fl\<rparr>)\<rparr>"

definition erase_file :: "string \<Rightarrow> (string \<times> u8 list) list \<Rightarrow> (string \<times> u8 list) list" where
  "erase_file filename fl = filter (\<lambda>(n, _). n \<noteq> filename) fl"

definition put_file :: "string \<Rightarrow> u8 list \<Rightarrow> (string \<times> u8 list) list \<Rightarrow> (string \<times> u8 list) list" where
  "put_file filename data fl =
     (if filename \<in> fst ` set fl then map (\<lambda>(n, c). if n = filename then (n, data) else (n, c)) fl
      else (filename, data) # fl)"

definition get_file :: "nat \<Rightarrow> string \<Rightarrow> disk \<Rightarrow> (u8 list option \<times> disk) result" where
  "get_file i filename d =
     (case map_of (files (disk_shards d i)) filename of
        Some data \<Rightarrow> Inr (Some data, d)
      | None \<Rightarrow>
          if m_disk_path d = [] then Inr (None, d)
          else case fs_files (file_sys d) (m_disk_path d @ filename) of
                 None \<Rightarrow> Inl (Fatal (''Failed to open file: '' @ m_disk_path d @ filename))
               | Some data \<Rightarrow> Inr (Some data, set_files i (put_file filename data (files (disk_shards d i))) d))"

text \<open>
  The loop of \<open>flush\<close>. A pending name that is not in \<open>files\<close> is looked up with \<open>operator[]\<close>, which inserts
  a null pointer, and the file is written from there.
\<close>

fun write_pending :: "string \<Rightarrow> (string \<times> u8 list) list \<Rightarrow> string list \<Rightarrow> file_system \<Rightarrow> file_system result" where
  "write_pending path fl [] fs = Inr fs"
| "write_pending path fl (filename # names) fs =
     (if \<not> fs_writable fs (path @ filename) then Inl (Fatal (''Failed to open file: '' @ path @ filename))
      else case map_of fl filename of
             None \<Rightarrow> Inl (Fatal ''null pointer dereference'')
           | Some data \<Rightarrow> write_pending path fl names (fs\<lparr>fs_files := (fs_files fs)(path @ filename \<mapsto> data)\<rparr>))"

definition flush :: "nat \<Rightarrow> bool \<Rightarrow> disk \<Rightarrow> disk result" where
  "flush i batch d =
     (let sh = disk_shards d i in
      if batch \<and> flush_pending_size sh < FLUSH_BATCH then Inr d
      else rbind (if m_disk_path d \<noteq> [] then write_pending (m_disk_path d) (files sh) (flush_pending_list sh) (file_sys d)
                  else Inr (file_sys d)) (\<lambda>fs.
             Inr (d\<lparr>disk_shards := (disk_shards d)(i := sh\<lparr>flush_pending_size := 0, flush_pending_list := []\<rparr>), file_sys := fs\<rparr>)))"

section \<open>Operations\<close>

text \<open>\<open>Disk::~Disk\<close>: what is left is the file system.\<close>

fun flush_shards :: "nat list \<Rightarrow> disk \<Rightarrow> disk result" where
  "flush_shards [] d = Inr d"
| "flush_shards (i # is) d = rbind (flush i False d) (flush_shards is)"

definition close_disk :: "disk \<Rightarrow> file_system result" where
  "close_disk d = rbind (flush_shards [0..<DISK_SHARDS] d) (\<lambda>d'. Inr (file_sys d'))"

text \<open>
  \<open>std::remove\<close> returns 0 when it has removed the file, and the code ends the process exactly then.
\<close>

definition disk_remove :: "(string \<Rightarrow> nat) \<Rightarrow> string \<Rightarrow> disk \<Rightarrow> disk result" where
  "disk_remove hash filename d =
     (let i = to_shard hash filename in
      rbind (lock_shard i d) (\<lambda>d1.
        if filename \<notin> fst ` set (files (disk_shards d1 i)) then Inr (unlock_shard i d1)
        else rbind (flush i False (set_files i (erase_file filename (files (disk_shards d1 i))) d1)) (\<lambda>d2.
          let fullpath = m_disk_path d2 @ filename in
          if fs_files (file_sys d2) fullpath \<noteq> None then Inl (Fatal (''Failed to remove file: '' @ fullpath))
          else Inr (unlock_shard i d2))))"

definition add_pending :: "string \<Rightarrow> u32 \<Rightarrow> disk_shard \<Rightarrow> disk_shard" where
  "add_pending filename len sh =
     sh\<lparr>flush_pending_list := List.insert filename (flush_pending_list sh),
        flush_pending_size := flush_pending_size sh + ucast len\<rparr>"

definition disk_write :: "(string \<Rightarrow> nat) \<Rightarrow> string \<Rightarrow> u8 list \<Rightarrow> disk \<Rightarrow> (bool \<times> disk) result" where
  "disk_write hash filename data d =
     (if CHR ''/'' \<in> set filename then Inl (RuntimeError ''Enclave is not allowed to create folders'')
      else let i = to_shard hash filename in
        rbind (lock_shard i d) (\<lambda>d1.
          let fl = files (disk_shards d1 i);
              d2 = (case map_of fl filename of
                      None \<Rightarrow> d1\<lparr>m_num_files := m_num_files d1 + 1\<rparr>
                    | Some old \<Rightarrow> d1\<lparr>m_byte_size := m_byte_size d1 - file_size old\<rparr>);
              d3 = (set_files i (put_file filename data fl) d2)\<lparr>m_byte_size := m_byte_size d2 + file_size data\<rparr>;
              d4 = d3\<lparr>disk_shards := (disk_shards d3)(i := add_pending filename (of_nat (length data)) (disk_shards d3 i))\<rparr>
          in rbind (flush i True d4) (\<lambda>d5. Inr (True, unlock_shard i d5))))"

definition disk_get_size :: "(string \<Rightarrow> nat) \<Rightarrow> string \<Rightarrow> disk \<Rightarrow> (int \<times> disk) result" where
  "disk_get_size hash filename d =
     (if CHR ''/'' \<in> set filename then Inl (Fatal ''Enclave is not allowed to create folders'')
      else let i = to_shard hash filename in
        rbind (lock_shard i d) (\<lambda>d1.
        rbind (get_file i filename d1) (\<lambda>(f, d2).
          Inr (case f of None \<Rightarrow> -1 | Some data \<Rightarrow> sint (ucast (file_size data) :: 32 word), unlock_shard i d2))))"

definition disk_read :: "(string \<Rightarrow> nat) \<Rightarrow> string \<Rightarrow> u32 \<Rightarrow> disk \<Rightarrow> (u8 list \<times> disk) result" where
  "disk_read hash filename buffer_size d =
     (if CHR ''/'' \<in> set filename then Inl (Fatal ''Enclave is not allowed to create folders'')
      else let i = to_shard hash filename in
        rbind (lock_shard i d) (\<lambda>d1.
        rbind (get_file i filename d1) (\<lambda>(f, d2).
          case f of
            None \<Rightarrow> Inl (Fatal (''No such file: '' @ filename))
          | Some data \<Rightarrow>
              if file_size data \<noteq> ucast buffer_size then Inl (Fatal (''File sizes don't match. filename: '' @ filename))
              else Inr (data, unlock_shard i (d2\<lparr>m_num_loads := m_num_loads d2 + 1\<rparr>)))))"

text \<open>On a missing file this returns without releasing the lock.\<close>

definition read_undecrypted_from_disk :: "(string \<Rightarrow> nat) \<Rightarrow> string \<Rightarrow> disk \<Rightarrow> (u8 list option \<times> disk) result" where
  "read_undecrypted_from_disk hash full_name d =
     (let i = to_shard hash full_name in
      rbind (lock_shard i d) (\<lambda>d1.
        let d2 = d1\<lparr>m_num_loads := m_num_loads d1 + 1\<rparr> in
        case map_of (files (disk_shards d2 i)) full_name of
          None \<Rightarrow> Inr (None, d2)
        | Some data \<Rightarrow> Inr (Some data, unlock_shard i d2)))"

fun clear_shards :: "nat list \<Rightarrow> disk \<Rightarrow> disk result" where
  "clear_shards [] d = Inr d"
| "clear_shards (i # is) d =
     rbind (lock_shard i d) (\<lambda>d1.
       let d2 = d1\<lparr>m_num_files := m_num_files d1 - of_nat (length (files (disk_shards d1 i)))\<rparr>
       in clear_shards is (unlock_shard i (set_files i [] d2)))"

definition disk_clear :: "disk \<Rightarrow> disk result" where
  "disk_clear = clear_shards [0..<DISK_SHARDS]"

section \<open>Dumping and loading everything\<close>

definition dump_file :: "string \<times> u8 list \<Rightarrow> u8 list" where
  "dump_file = (\<lambda>(filename, data).
     let len = (of_nat (length filename) :: u32)
     in le_bytes 4 len @ map char_byte (take (unat len) filename) @ le_bytes 8 (file_size data) @ data)"

definition dump_shard :: "(string \<times> u8 list) list \<Rightarrow> u8 list" where
  "dump_shard fl = le_bytes 4 (of_nat (length fl) :: u32) @ concat (map dump_file fl)"

text \<open>
  Every round of the loop opens the output file, which empties it. At its end the lock is released twice, by
  the call of \<open>unlock\<close> and by the guard. The standard leaves the effect of the second release undefined and the
  debug build ends the process; \<open>tolerant\<close> says whether the process continues.
\<close>

fun dump_shards :: "bool \<Rightarrow> string \<Rightarrow> nat list \<Rightarrow> disk \<Rightarrow> (bool \<times> disk) result" where
  "dump_shards tolerant filename [] d = Inr (True, d)"
| "dump_shards tolerant filename (i # is) d =
     rbind (lock_shard i d) (\<lambda>d1.
       if \<not> fs_writable (file_sys d1) filename then Inr (False, unlock_shard i d1)
       else let fs = file_sys d1;
                d2 = d1\<lparr>file_sys := fs\<lparr>fs_files := (fs_files fs)(filename \<mapsto> dump_shard (files (disk_shards d1 i)))\<rparr>\<rparr>
            in if \<not> tolerant then Inl (Fatal ''Mutex is not locked!'')
               else dump_shards tolerant filename is (unlock_shard i d2))"

definition disk_dump_everything :: "bool \<Rightarrow> string \<Rightarrow> disk \<Rightarrow> (bool \<times> disk) result" where
  "disk_dump_everything tolerant filename d = dump_shards tolerant filename [0..<DISK_SHARDS] d"

text \<open>\<open>std::istream::read\<close> of \<open>n\<close> bytes.\<close>

definition read_bytes :: "nat \<Rightarrow> u8 list \<Rightarrow> (u8 list \<times> u8 list) option" where
  "read_bytes n bs = (if n \<le> length bs then Some (take n bs, drop n bs) else None)"

fun load_files :: "(string \<Rightarrow> nat) \<Rightarrow> nat \<Rightarrow> u8 list \<Rightarrow> disk \<Rightarrow> bool \<times> disk" where
  "load_files hash 0 bs d = (True, d)"
| "load_files hash (Suc n) bs d =
     (case read_bytes 4 bs of
        None \<Rightarrow> (False, d)
      | Some (len, bs1) \<Rightarrow>
          (case read_bytes (unat (le_word len :: u32)) bs1 of
             None \<Rightarrow> (False, d)
           | Some (name, bs2) \<Rightarrow>
               let filename = map byte_char name;
                   i = to_shard hash filename;
                   d1 = (set_files i (erase_file filename (files (disk_shards d i))) d)\<lparr>m_num_files := m_num_files d + 1\<rparr>
               in case read_bytes 8 bs2 of
                    None \<Rightarrow> (False, d1)
                  | Some (sz, bs3) \<Rightarrow>
                      (case read_bytes (unat (le_word sz :: u64)) bs3 of
                         None \<Rightarrow> (False, d1)
                       | Some (data, bs4) \<Rightarrow>
                           load_files hash n bs4 (set_files i (put_file filename data (files (disk_shards d1 i))) d1))))"

fun lock_shards :: "nat list \<Rightarrow> disk \<Rightarrow> disk result" where
  "lock_shards [] d = Inr d"
| "lock_shards (i # is) d = rbind (lock_shard i d) (lock_shards is)"

definition unlock_shards :: "nat list \<Rightarrow> disk \<Rightarrow> disk" where
  "unlock_shards is d = fold unlock_shard is d"

text \<open>An incomplete file makes the function return at once, with every shard locked.\<close>

definition disk_load_everything :: "(string \<Rightarrow> nat) \<Rightarrow> string \<Rightarrow> disk \<Rightarrow> (bool \<times> disk) result" where
  "disk_load_everything hash filename d =
     rbind (lock_shards [0..<DISK_SHARDS] d) (\<lambda>d1.
       case fs_files (file_sys d1) filename of
         None \<Rightarrow> Inr (False, unlock_shards [0..<DISK_SHARDS] d1)
       | Some bs \<Rightarrow>
           (case read_bytes 4 bs of
              None \<Rightarrow> Inr (False, d1)
            | Some (n, bs1) \<Rightarrow>
                (case load_files hash (unat (le_word n :: u32)) bs1 d1 of
                   (False, d2) \<Rightarrow> Inr (False, d2)
                 | (True, d2) \<Rightarrow> Inr (True, unlock_shards [0..<DISK_SHARDS] d2))))"

definition DISK_KEY_FILE :: string where "DISK_KEY_FILE = ''___disk_key''"

definition dump_everything :: "(string \<Rightarrow> nat) \<Rightarrow> bool \<Rightarrow> string \<Rightarrow> u8 list \<Rightarrow> disk \<Rightarrow> (bool \<times> disk) result" where
  "dump_everything hash tolerant filename disk_key d =
     rbind (disk_write hash DISK_KEY_FILE disk_key d) (\<lambda>(ok1, d1).
       if \<not> ok1 then Inr (False, d1)
       else rbind (disk_dump_everything tolerant filename d1) (\<lambda>(ok2, d2).
         if \<not> ok2 then Inr (False, d2) else rbind (disk_remove hash DISK_KEY_FILE d2) (\<lambda>d3. Inr (True, d3))))"

text \<open>The size of \<open>sgx_aes_gcm_128bit_key_t\<close>.\<close>

definition DISK_KEY_SIZE :: nat where "DISK_KEY_SIZE = 16"

definition load_everything :: "(string \<Rightarrow> nat) \<Rightarrow> string \<Rightarrow> nat \<Rightarrow> disk \<Rightarrow> (u8 list option \<times> disk) result" where
  "load_everything hash filename len d =
     (if len \<noteq> DISK_KEY_SIZE then Inr (None, d)
      else rbind (disk_load_everything hash filename d) (\<lambda>(ok, d1).
        if \<not> ok then Inr (None, d1)
        else rbind (disk_read hash DISK_KEY_FILE (of_nat len) d1) (\<lambda>(key, d2).
             rbind (disk_remove hash DISK_KEY_FILE d2) (\<lambda>d3. Inr (Some key, d3)))))"

section \<open>Contents and invariant\<close>

definition content :: "(string \<Rightarrow> nat) \<Rightarrow> disk \<Rightarrow> string \<Rightarrow> u8 list option" where
  "content hash d filename =
     (case map_of (files (disk_shards d (to_shard hash filename))) filename of
        Some data \<Rightarrow> Some data
      | None \<Rightarrow> if m_disk_path d = [] then None else fs_files (file_sys d) (m_disk_path d @ filename))"

definition disk_inv :: "(string \<Rightarrow> nat) \<Rightarrow> disk \<Rightarrow> bool" where
  "disk_inv hash d \<longleftrightarrow>
     (\<forall>n. CHR ''/'' \<notin> set n \<longrightarrow> fs_writable (file_sys d) (m_disk_path d @ n)) \<and>
     (\<forall>i n. n \<in> fst ` set (files (disk_shards d i)) \<longrightarrow> to_shard hash n = i) \<and>
     (\<forall>i n. n \<in> set (flush_pending_list (disk_shards d i)) \<longrightarrow>
        n \<in> fst ` set (files (disk_shards d i)) \<and> CHR ''/'' \<notin> set n) \<and>
     (\<forall>i n data. m_disk_path d \<noteq> [] \<and> map_of (files (disk_shards d i)) n = Some data \<and>
        n \<notin> set (flush_pending_list (disk_shards d i)) \<longrightarrow> fs_files (file_sys d) (m_disk_path d @ n) = Some data)"

definition unheld :: "disk \<Rightarrow> bool" where
  "unheld d \<longleftrightarrow> (\<forall>i. \<not> held (disk_shards d i))"

lemma to_shard_less: "to_shard hash n < DISK_SHARDS"
  by (simp add: to_shard_def DISK_SHARDS_def)

lemma map_of_put_file [simp]: "map_of (put_file n data fl) = (map_of fl)(n \<mapsto> data)"
proof (rule ext)
  fix x
  have "map_of (map (\<lambda>(m, c). if m = n then (m, data) else (m, c)) fl) x = (if x = n then map_option (\<lambda>_. data) (map_of fl x) else map_of fl x)"
    by (induction fl) auto
  moreover have "n \<in> fst ` set fl \<Longrightarrow> \<exists>c. map_of fl n = Some c" by (metis map_of_eq_None_iff not_None_eq)
  ultimately show "map_of (put_file n data fl) x = ((map_of fl)(n \<mapsto> data)) x" by (cases "n \<in> fst ` set fl") (auto simp: put_file_def simp del: map_of_eq_None_iff)
qed

lemma dom_put_file [simp]: "fst ` set (put_file n data fl) = insert n (fst ` set fl)"
  using arg_cong [OF map_of_put_file [of n data fl], of dom] by (simp only: dom_map_of_conv_image_fst dom_fun_upd) simp

lemma map_of_erase_file [simp]: "map_of (erase_file n fl) = (map_of fl)(n := None)"
  by (rule ext, induction fl) (auto simp: erase_file_def)

lemma write_pending_ok:
  assumes "\<forall>n \<in> set names. fs_writable fs (path @ n) \<and> n \<in> fst ` set fl"
  shows "write_pending path fl names fs =
    Inr (fs\<lparr>fs_files := (\<lambda>p. if \<exists>n \<in> set names. p = path @ n then map_of fl (drop (length path) p) else fs_files fs p)\<rparr>)"
  using assms
proof (induction names arbitrary: fs)
  case (Cons n names)
  then obtain data where data: "map_of fl n = Some data" by (metis list.set_intros(1) map_of_eq_None_iff not_None_eq)
  let ?fs = "fs\<lparr>fs_files := (fs_files fs)(path @ n \<mapsto> data)\<rparr>"
  have "write_pending path fl (n # names) fs = write_pending path fl names ?fs" using Cons.prems data by simp
  also have "\<dots> = Inr (?fs\<lparr>fs_files := (\<lambda>p. if \<exists>n \<in> set names. p = path @ n then map_of fl (drop (length path) p) else fs_files ?fs p)\<rparr>)"
    using Cons.IH [of ?fs] Cons.prems by simp
  also have "(\<lambda>p. if \<exists>n \<in> set names. p = path @ n then map_of fl (drop (length path) p) else fs_files ?fs p) =
      (\<lambda>p. if \<exists>m \<in> set (n # names). p = path @ m then map_of fl (drop (length path) p) else fs_files fs p)"
    using data by (auto simp: fun_eq_iff)
  finally show ?case by simp
qed simp

text \<open>The disk after a shard has been written.\<close>

definition flushed_fs :: "nat \<Rightarrow> disk \<Rightarrow> file_system" where
  "flushed_fs i d =
     (if m_disk_path d = [] then file_sys d
      else (file_sys d)\<lparr>fs_files := (\<lambda>p. if \<exists>n \<in> set (flush_pending_list (disk_shards d i)). p = m_disk_path d @ n
         then map_of (files (disk_shards d i)) (drop (length (m_disk_path d)) p) else fs_files (file_sys d) p)\<rparr>)"

definition flushed :: "nat \<Rightarrow> disk \<Rightarrow> disk" where
  "flushed i d =
     d\<lparr>disk_shards := (disk_shards d)(i := (disk_shards d i)\<lparr>flush_pending_size := 0, flush_pending_list := []\<rparr>),
       file_sys := flushed_fs i d\<rparr>"

lemma flushed_simps [simp]:
  "m_disk_path (flushed i d) = m_disk_path d" "files (disk_shards (flushed i d) j) = files (disk_shards d j)"
  "held (disk_shards (flushed i d) j) = held (disk_shards d j)"
  "flush_pending_list (disk_shards (flushed i d) j) = (if j = i then [] else flush_pending_list (disk_shards d j))"
  "fs_writable (file_sys (flushed i d)) = fs_writable (file_sys d)"
  by (simp_all add: flushed_def flushed_fs_def)

lemma flushed_file:
  "m_disk_path d \<noteq> [] \<Longrightarrow> fs_files (file_sys (flushed i d)) (m_disk_path d @ n) =
     (if n \<in> set (flush_pending_list (disk_shards d i)) then map_of (files (disk_shards d i)) n
      else fs_files (file_sys d) (m_disk_path d @ n))"
  by (simp add: flushed_def flushed_fs_def)

lemma flush_eq:
  assumes "disk_inv hash d"
  shows "flush i batch d = Inr (if batch \<and> flush_pending_size (disk_shards d i) < FLUSH_BATCH then d else flushed i d)"
proof -
  have "write_pending (m_disk_path d) (files (disk_shards d i)) (flush_pending_list (disk_shards d i)) (file_sys d) =
      Inr (flushed_fs i d)" if "m_disk_path d \<noteq> []"
    using assms that by (subst write_pending_ok) (auto simp: disk_inv_def flushed_fs_def)
  then show ?thesis by (auto simp: flush_def Let_def flushed_def flushed_fs_def)
qed

lemma flushed_inv:
  assumes inv: "disk_inv hash d"
  shows "disk_inv hash (flushed i d)" "content hash (flushed i d) = content hash d"
proof -
  have shard: "to_shard hash n = j" if "n \<in> fst ` set (files (disk_shards d j))" for j n
    using inv that by (simp add: disk_inv_def)
  have pend: "n \<in> fst ` set (files (disk_shards d j))" if "n \<in> set (flush_pending_list (disk_shards d j))" for j n
    using inv that by (simp add: disk_inv_def)
  have saved: "fs_files (file_sys (flushed i d)) (m_disk_path d @ n) = Some data"
    if "m_disk_path d \<noteq> []" "map_of (files (disk_shards d j)) n = Some data"
      "j = i \<or> n \<notin> set (flush_pending_list (disk_shards d j))" for j n data
  proof -
    have "to_shard hash n = j" using that(2) shard by (metis map_of_SomeD image_eqI fst_conv)
    then show ?thesis
      using that inv shard pend unfolding flushed_file [OF that(1)] disk_inv_def by (metis (no_types, lifting))
  qed
  show "disk_inv hash (flushed i d)"
    using inv saved unfolding disk_inv_def by (auto split: if_splits)
  show "content hash (flushed i d) = content hash d"
    using shard pend by (auto simp: content_def flushed_file fun_eq_iff split: option.splits) (metis map_of_eq_None_iff)
qed

text \<open>Locks and counters do not matter for the contents.\<close>

lemma disk_cong:
  assumes "m_disk_path d' = m_disk_path d" "file_sys d' = file_sys d"
    "\<And>i. files (disk_shards d' i) = files (disk_shards d i)"
    "\<And>i. flush_pending_list (disk_shards d' i) = flush_pending_list (disk_shards d i)"
  shows "disk_inv hash d' = disk_inv hash d" "content hash d' = content hash d"
  using assms by (simp_all add: disk_inv_def content_def fun_eq_iff cong: option.case_cong)

lemma lock_shard_simps [simp]:
  "unheld d \<Longrightarrow> lock_shard i d = Inr (d\<lparr>disk_shards := (disk_shards d)(i := (disk_shards d i)\<lparr>held := True\<rparr>)\<rparr>)"
  by (simp add: lock_shard_def unheld_def)

lemma unlock_lock: "unheld d \<Longrightarrow> (disk_shards d)(i := (disk_shards d i)\<lparr>held := False\<rparr>) = disk_shards d"
  by (simp add: unheld_def fun_eq_iff)

lemma put_file_inv:
  assumes inv: "disk_inv hash d" and i: "i = to_shard hash n"
    and new: "m_disk_path d = [] \<or> fs_files (file_sys d) (m_disk_path d @ n) = Some data \<or> n \<in> set pl"
    and pl: "set (flush_pending_list (disk_shards d i)) \<subseteq> set pl" "set pl \<subseteq> insert n (set (flush_pending_list (disk_shards d i)))"
    and slash: "n \<in> set pl \<longrightarrow> CHR ''/'' \<notin> set n"
    and d': "m_disk_path d' = m_disk_path d" "file_sys d' = file_sys d"
      "\<And>j. files (disk_shards d' j) = (if j = i then put_file n data (files (disk_shards d i)) else files (disk_shards d j))"
      "\<And>j. flush_pending_list (disk_shards d' j) = (if j = i then pl else flush_pending_list (disk_shards d j))"
  shows "disk_inv hash d'" "content hash d' = (content hash d)(n \<mapsto> data)"
proof -
  have saved: "fs_files (file_sys d) (m_disk_path d @ m) = Some c"
    if "m_disk_path d \<noteq> []" "map_of (files (disk_shards d' j)) m = Some c" "m \<notin> set (flush_pending_list (disk_shards d' j))" for j m c
  proof (cases "j = i \<and> m = n")
    case True
    then show ?thesis using that new by (auto simp: d')
  next
    case False
    then have "map_of (files (disk_shards d j)) m = Some c" "m \<notin> set (flush_pending_list (disk_shards d j))"
      using that pl(1) by (auto simp: d' split: if_splits)
    then show ?thesis using inv that(1) by (simp add: disk_inv_def)
  qed
  have "n \<in> set pl \<Longrightarrow> CHR ''/'' \<notin> set n" using slash by simp
  then have pending: "m \<in> fst ` set (files (disk_shards d' j)) \<and> CHR ''/'' \<notin> set m"
    if "m \<in> set (flush_pending_list (disk_shards d' j))" for j m
    using that inv pl(2) by (auto simp: d' disk_inv_def split: if_splits)
  have shard: "to_shard hash m = j" if "m \<in> fst ` set (files (disk_shards d' j))" for j m
  proof -
    have "m \<in> fst ` set (files (disk_shards d j)) \<or> j = i \<and> m = n" using that by (cases "j = i") (auto simp: d')
    then show ?thesis using inv i unfolding disk_inv_def by blast
  qed
  show "disk_inv hash d'"
    unfolding disk_inv_def d'(1,2)
  proof (intro conjI allI impI)
    show "fs_writable (file_sys d) (m_disk_path d @ m)" if "CHR ''/'' \<notin> set m" for m
      using inv that unfolding disk_inv_def by blast
  qed (use saved pending shard in \<open>auto simp only:\<close>)
  show "content hash d' = (content hash d)(n \<mapsto> data)"
    using i by (auto simp: content_def d' fun_eq_iff cong: option.case_cong)
qed

lemma set_files_simps [simp]:
  "m_disk_path (set_files i fl d) = m_disk_path d" "file_sys (set_files i fl d) = file_sys d"
  "files (disk_shards (set_files i fl d) j) = (if j = i then fl else files (disk_shards d j))"
  "flush_pending_list (disk_shards (set_files i fl d) j) = flush_pending_list (disk_shards d j)"
  "held (disk_shards (set_files i fl d) j) = held (disk_shards d j)"
  by (simp_all add: set_files_def)

lemma unlock_shard_simps [simp]:
  "m_disk_path (unlock_shard i d) = m_disk_path d" "file_sys (unlock_shard i d) = file_sys d"
  "files (disk_shards (unlock_shard i d) j) = files (disk_shards d j)"
  "flush_pending_list (disk_shards (unlock_shard i d) j) = flush_pending_list (disk_shards d j)"
  "held (disk_shards (unlock_shard i d) j) = (j \<noteq> i \<and> held (disk_shards d j))"
  by (auto simp: unlock_shard_def)

lemma get_file_ok:
  assumes inv: "disk_inv hash d" and i: "i = to_shard hash n"
  shows "case content hash d n of
      None \<Rightarrow> get_file i n d = (if m_disk_path d = [] then Inr (None, d) else Inl (Fatal (''Failed to open file: '' @ m_disk_path d @ n)))
    | Some data \<Rightarrow> \<exists>d'. get_file i n d = Inr (Some data, d') \<and> disk_inv hash d' \<and> content hash d' = content hash d \<and>
        m_disk_path d' = m_disk_path d \<and> (\<forall>j. held (disk_shards d' j) = held (disk_shards d j))"
proof (cases "map_of (files (disk_shards d i)) n")
  case None
  show ?thesis
  proof (cases "m_disk_path d \<noteq> [] \<and> fs_files (file_sys d) (m_disk_path d @ n) \<noteq> None")
    case True
    then obtain data where data: "fs_files (file_sys d) (m_disk_path d @ n) = Some data" by auto
    let ?d = "set_files i (put_file n data (files (disk_shards d i))) d"
    have "n \<notin> set (flush_pending_list (disk_shards d i))"
      using inv None unfolding disk_inv_def by (metis map_of_eq_None_iff)
    then have "disk_inv hash ?d" "content hash ?d = (content hash d)(n \<mapsto> data)"
      by (rule_tac [!] put_file_inv [OF inv i, where data = data and pl = "flush_pending_list (disk_shards d i)"])
        (auto simp: data)
    then show ?thesis using None data True i by (auto simp: get_file_def content_def fun_upd_idem_iff)
  qed (use None i in \<open>auto simp: content_def get_file_def\<close>)
qed (use inv i in \<open>simp add: content_def get_file_def\<close>)

lemma disk_write_ok:
  assumes inv: "disk_inv hash d" and free: "unheld d" and n: "CHR ''/'' \<notin> set n"
  shows "\<exists>d'. disk_write hash n data d = Inr (True, d') \<and> disk_inv hash d' \<and> unheld d' \<and>
    content hash d' = (content hash d)(n \<mapsto> data) \<and> m_disk_path d' = m_disk_path d"
proof -
  let ?i = "to_shard hash n"
  define d1 where "d1 = d\<lparr>disk_shards := (disk_shards d)(?i := (disk_shards d ?i)\<lparr>held := True\<rparr>)\<rparr>"
  define d2 where "d2 = (case map_of (files (disk_shards d1 ?i)) n of
      None \<Rightarrow> d1\<lparr>m_num_files := m_num_files d1 + 1\<rparr> | Some old \<Rightarrow> d1\<lparr>m_byte_size := m_byte_size d1 - file_size old\<rparr>)"
  define d3 where "d3 = (set_files ?i (put_file n data (files (disk_shards d1 ?i))) d2)\<lparr>m_byte_size := m_byte_size d2 + file_size data\<rparr>"
  define d4 where "d4 = d3\<lparr>disk_shards := (disk_shards d3)(?i := add_pending n (of_nat (length data)) (disk_shards d3 ?i))\<rparr>"
  have d2: "m_disk_path d2 = m_disk_path d" "file_sys d2 = file_sys d" "disk_shards d2 = disk_shards d1"
    by (auto simp: d2_def d1_def split: option.splits)
  have d4: "m_disk_path d4 = m_disk_path d" "file_sys d4 = file_sys d"
    "\<And>j. files (disk_shards d4 j) = (if j = ?i then put_file n data (files (disk_shards d ?i)) else files (disk_shards d j))"
    "\<And>j. flush_pending_list (disk_shards d4 j) = (if j = ?i then List.insert n (flush_pending_list (disk_shards d ?i)) else flush_pending_list (disk_shards d j))"
    "\<And>j. held (disk_shards d4 j) \<longleftrightarrow> j = ?i"
    using free by (auto simp: d4_def d3_def d2 d1_def add_pending_def unheld_def set_files_def)
  have ok: "disk_inv hash d4" "content hash d4 = (content hash d)(n \<mapsto> data)"
    using put_file_inv [OF inv refl, of n data "List.insert n (flush_pending_list (disk_shards d ?i))" d4] n d4 by auto
  define d5 where "d5 = (if flush_pending_size (disk_shards d4 ?i) < FLUSH_BATCH then d4 else flushed ?i d4)"
  have lock: "lock_shard ?i d = Inr d1" using free by (simp add: d1_def)
  have "disk_write hash n data d = Inr (True, unlock_shard ?i d5)"
    unfolding disk_write_def Let_def lock rbind_Inr d2_def [symmetric] d3_def [symmetric] d4_def [symmetric]
    using n flush_eq [OF ok(1), of ?i True] by (simp add: d5_def)
  moreover have "disk_inv hash d5" "content hash d5 = (content hash d)(n \<mapsto> data)" "m_disk_path d5 = m_disk_path d"
    "\<And>j. held (disk_shards d5 j) \<longleftrightarrow> j = ?i"
    using ok flushed_inv [OF ok(1)] d4 by (simp_all add: d5_def)
  ultimately show ?thesis
    using disk_cong [of "unlock_shard ?i d5" d5] by (auto simp: unheld_def)
qed

section \<open>The disk as a map of files\<close>

datatype disk_op = DWrite string "u8 list" | DSize string | DRead string u32 | DReopen
datatype disk_out = DDone | DSizeOut int | DData "u8 list"

text \<open>\<open>DReopen\<close> destroys the object and constructs a new one on the same directory.\<close>

fun disk_step :: "(string \<Rightarrow> nat) \<Rightarrow> disk_op \<Rightarrow> disk \<Rightarrow> (disk_out \<times> disk) result" where
  "disk_step hash (DWrite n data) d = rbind (disk_write hash n data d) (\<lambda>(_, d'). Inr (DDone, d'))"
| "disk_step hash (DSize n) d = rbind (disk_get_size hash n d) (\<lambda>(k, d'). Inr (DSizeOut k, d'))"
| "disk_step hash (DRead n sz) d = rbind (disk_read hash n sz d) (\<lambda>(data, d'). Inr (DData data, d'))"
| "disk_step hash DReopen d = rbind (close_disk d) (\<lambda>fs. Inr (DDone, new_disk (m_disk_path d) fs))"

definition missing_file :: "string \<Rightarrow> string \<Rightarrow> error" where
  "missing_file path n = (if path = [] then Fatal (''No such file: '' @ n) else Fatal (''Failed to open file: '' @ path @ n))"

fun file_spec :: "string \<Rightarrow> disk_op \<Rightarrow> (string \<rightharpoonup> u8 list) \<Rightarrow> (disk_out \<times> (string \<rightharpoonup> u8 list)) result" where
  "file_spec path (DWrite n data) m =
     (if CHR ''/'' \<in> set n then Inl (RuntimeError ''Enclave is not allowed to create folders'') else Inr (DDone, m(n \<mapsto> data)))"
| "file_spec path (DSize n) m =
     (if CHR ''/'' \<in> set n then Inl (Fatal ''Enclave is not allowed to create folders'')
      else case m n of
             None \<Rightarrow> if path = [] then Inr (DSizeOut (-1), m) else Inl (missing_file path n)
           | Some data \<Rightarrow> Inr (DSizeOut (sint (of_nat (length data) :: 32 word)), m))"
| "file_spec path (DRead n sz) m =
     (if CHR ''/'' \<in> set n then Inl (Fatal ''Enclave is not allowed to create folders'')
      else case m n of
             None \<Rightarrow> Inl (missing_file path n)
           | Some data \<Rightarrow> if file_size data \<noteq> ucast sz then Inl (Fatal (''File sizes don't match. filename: '' @ n))
                          else Inr (DData data, m))"
| "file_spec path DReopen m = Inr (DDone, if path = [] then Map.empty else m)"

definition disk_ready :: "(string \<Rightarrow> nat) \<Rightarrow> string \<Rightarrow> disk \<Rightarrow> bool" where
  "disk_ready hash path d \<longleftrightarrow> disk_inv hash d \<and> unheld d \<and> m_disk_path d = path \<and> (path = [] \<or> last path = CHR ''/'')"

text \<open>The outcome of a step, compared with the outcome on the contents.\<close>

definition step_ok :: "(string \<Rightarrow> nat) \<Rightarrow> string \<Rightarrow> ('a \<times> disk) result \<Rightarrow> ('a \<times> (string \<rightharpoonup> u8 list)) result \<Rightarrow> bool" where
  "step_ok hash path r q \<longleftrightarrow>
     (case r of Inl e \<Rightarrow> q = Inl e | Inr (x, d') \<Rightarrow> q = Inr (x, content hash d') \<and> disk_ready hash path d')"

lemma locked_ready:
  assumes "disk_ready hash path d"
  obtains d1 where "lock_shard i d = Inr d1" "disk_inv hash d1" "content hash d1 = content hash d" "m_disk_path d1 = path"
    "\<And>j. held (disk_shards d1 j) \<longleftrightarrow> j = i" "path = [] \<or> last path = CHR ''/''"
proof
  let ?d = "d\<lparr>disk_shards := (disk_shards d)(i := (disk_shards d i)\<lparr>held := True\<rparr>)\<rparr>"
  show "lock_shard i d = Inr ?d" "m_disk_path ?d = path" "\<And>j. held (disk_shards ?d j) \<longleftrightarrow> j = i" "path = [] \<or> last path = CHR ''/''"
    using assms by (auto simp: disk_ready_def unheld_def)
  show "disk_inv hash ?d" "content hash ?d = content hash d"
    using assms disk_cong [of ?d d] by (simp_all add: disk_ready_def)
qed

lemma unlock_ready:
  assumes "disk_inv hash d" "m_disk_path d = path" "\<And>j. held (disk_shards d j) \<longleftrightarrow> j = i" "path = [] \<or> last path = CHR ''/''"
  shows "disk_ready hash path (unlock_shard i d)" "content hash (unlock_shard i d) = content hash d"
  using assms disk_cong [of "unlock_shard i d" d] by (auto simp: disk_ready_def unheld_def)

lemma file_access_cases:
  assumes ready: "disk_ready hash path d" and i: "i = to_shard hash n"
  obtains
    (missing) d1 where "content hash d n = None" "lock_shard i d = Inr d1"
      "get_file i n d1 = (if path = [] then Inr (None, d1) else Inl (missing_file path n))"
      "disk_ready hash path (unlock_shard i d1)" "content hash (unlock_shard i d1) = content hash d"
  | (present) d1 d2 data where "content hash d n = Some data" "lock_shard i d = Inr d1" "get_file i n d1 = Inr (Some data, d2)"
      "\<And>k. disk_ready hash path (unlock_shard i (d2\<lparr>m_num_loads := k\<rparr>))"
      "\<And>k. content hash (unlock_shard i (d2\<lparr>m_num_loads := k\<rparr>)) = content hash d"
proof -
  obtain d1 where d1: "lock_shard i d = Inr d1" "disk_inv hash d1" "content hash d1 = content hash d" "m_disk_path d1 = path"
    "\<And>j. held (disk_shards d1 j) \<longleftrightarrow> j = i" "path = [] \<or> last path = CHR ''/''"
    using locked_ready [OF ready, of i] by metis
  note gf = get_file_ok [OF d1(2) i]
  show thesis
  proof (cases "content hash d n")
    case None
    then show thesis
      using missing [OF None d1(1)] gf d1(3,4) unlock_ready [OF d1(2,4,5,6)] by (simp add: missing_file_def)
  next
    case (Some data)
    then obtain d2 where d2: "get_file i n d1 = Inr (Some data, d2)" "disk_inv hash d2" "content hash d2 = content hash d"
      "m_disk_path d2 = path" "\<And>j. held (disk_shards d2 j) \<longleftrightarrow> j = i"
      using gf d1(3-5) by auto
    have "disk_inv hash (d2\<lparr>m_num_loads := k\<rparr>) \<and> content hash (d2\<lparr>m_num_loads := k\<rparr>) = content hash d" for k
      using disk_cong [of "d2\<lparr>m_num_loads := k\<rparr>" d2] d2 by simp
    then show thesis
      using present [OF Some d1(1) d2(1)] d2(4,5) d1(6) unlock_ready [of hash "d2\<lparr>m_num_loads := k\<rparr>" path i for k] by simp
  qed
qed

lemma flush_shards_ok:
  "disk_inv hash d \<Longrightarrow> \<exists>d'. flush_shards is d = Inr d' \<and> disk_inv hash d' \<and> content hash d' = content hash d \<and>
     m_disk_path d' = m_disk_path d \<and> fs_writable (file_sys d') = fs_writable (file_sys d) \<and>
     (\<forall>i. i \<in> set is \<or> flush_pending_list (disk_shards d i) = [] \<longrightarrow> flush_pending_list (disk_shards d' i) = [])"
proof (induction "is" arbitrary: d)
  case (Cons i "is")
  have "flush i False d = Inr (flushed i d)" using flush_eq [OF Cons.prems] by simp
  with Cons.IH [OF flushed_inv(1) [OF Cons.prems, of i]] flushed_inv(2) [OF Cons.prems, of i] show ?case by auto
qed auto

lemma new_disk_ready:
  assumes "\<forall>n. CHR ''/'' \<notin> set n \<longrightarrow> fs_writable fs (path @ n)" and "path = [] \<or> last path = CHR ''/''"
  shows "disk_ready hash path (new_disk path fs)"
    "content hash (new_disk path fs) = (if path = [] then Map.empty else (\<lambda>n. fs_files fs (path @ n)))"
  using assms by (auto simp: disk_ready_def disk_inv_def unheld_def new_disk_def empty_shard_def content_def fun_eq_iff)

lemma reopen_ok:
  assumes ready: "disk_ready hash path d"
  shows "\<exists>fs. close_disk d = Inr fs \<and> disk_ready hash path (new_disk path fs) \<and>
    content hash (new_disk path fs) = (if path = [] then Map.empty else content hash d)"
proof -
  obtain d' where d': "flush_shards [0..<DISK_SHARDS] d = Inr d'" "disk_inv hash d'" "content hash d' = content hash d"
    "m_disk_path d' = path" "\<forall>i < DISK_SHARDS. flush_pending_list (disk_shards d' i) = []"
    using flush_shards_ok [of hash d "[0..<DISK_SHARDS]"] ready by (auto simp: disk_ready_def)
  have "content hash d' n = fs_files (file_sys d') (path @ n)" if "path \<noteq> []" for n
  proof (cases "map_of (files (disk_shards d' (to_shard hash n))) n")
    case (Some data)
    moreover have "flush_pending_list (disk_shards d' (to_shard hash n)) = []" using d'(5) to_shard_less by blast
    moreover have "fs_files (file_sys d') (path @ m) = Some c"
      if "map_of (files (disk_shards d' i)) m = Some c" "m \<notin> set (flush_pending_list (disk_shards d' i))" for i m c
      using d'(2,4) that \<open>path \<noteq> []\<close> unfolding disk_inv_def by blast
    ultimately show ?thesis by (simp add: content_def)
  qed (use d'(4) that in \<open>simp add: content_def\<close>)
  then have "content hash d n = fs_files (file_sys d') (path @ n)" if "path \<noteq> []" for n using that d'(3) by simp
  moreover have "\<forall>n. CHR ''/'' \<notin> set n \<longrightarrow> fs_writable (file_sys d') (path @ n)"
    using d'(2,4) by (simp add: disk_inv_def)
  ultimately show ?thesis
    using d'(1) new_disk_ready [of "file_sys d'" path hash] ready by (auto simp: close_disk_def disk_ready_def fun_eq_iff)
qed

lemma disk_step_ok:
  assumes ready: "disk_ready hash path d"
  shows "step_ok hash path (disk_step hash op d) (file_spec path op (content hash d))"
proof (cases op)
  case (DWrite n data)
  then show ?thesis
    using disk_write_ok [of hash d n data] ready by (auto simp: step_ok_def disk_ready_def disk_write_def)
next
  case (DSize n)
  show ?thesis
  proof (cases rule: file_access_cases [OF ready refl, of n])
    case (1 d1)
    then show ?thesis using DSize by (auto simp: step_ok_def disk_get_size_def Let_def)
  next
    case (2 d1 d2 data)
    have "(ucast (file_size data) :: 32 word) = of_nat (length data)" by (simp add: file_size_def word_unat_eq_iff unsigned_ucast_eq unsigned_of_nat)
    with 2(1-3) 2(4,5) [of "m_num_loads d2"] show ?thesis
      using DSize by (auto simp: step_ok_def disk_get_size_def Let_def)
  qed
next
  case (DRead n sz)
  show ?thesis
  proof (cases rule: file_access_cases [OF ready refl, of n])
    case (1 d1)
    then show ?thesis using DRead by (auto simp: step_ok_def disk_read_def Let_def missing_file_def)
  next
    case (2 d1 d2 data)
    then show ?thesis using DRead by (auto simp: step_ok_def disk_read_def Let_def)
  qed
next
  case DReopen
  then show ?thesis using reopen_ok [OF ready] ready by (auto simp: step_ok_def disk_ready_def)
qed

interpretation dsk: step_equivalence "disk_step hash" "file_spec path" "content hash" "disk_ready hash path" "\<lambda>_. True"
  for hash path
proof unfold_locales
  fix s op out s'
  assume ready: "disk_ready hash path s"
  note ok = disk_step_ok [OF ready, of op]
  show "file_spec path op (content hash s) = outcome_of (content hash) (disk_step hash op s)"
    using ok by (auto simp: step_ok_def split: sum.splits)
  show "disk_step hash op s = Inr (out, s') \<Longrightarrow> disk_ready hash path s'"
    using ok by (simp add: step_ok_def)
qed

section \<open>Properties\<close>

text \<open>
  Property C29. The file cache implements a map from names to contents, for every sequence of writes,
  reads, size queries and restarts: it gives exactly the outputs and errors of the map, whatever the hash
  function, the distribution over shards and the points where batches are flushed. A restart on a
  directory keeps every file, also those not flushed yet; without a directory it loses all of
  them. The directory is assumed to be writable.
\<close>

theorem disk_implements_files:
  assumes "\<forall>n. CHR ''/'' \<notin> set n \<longrightarrow> fs_writable fs (path @ n)" and "path = [] \<or> last path = CHR ''/''"
  shows "run_steps (file_spec path) ops (if path = [] then Map.empty else (\<lambda>n. fs_files fs (path @ n))) =
     outcome_of (content hash) (run_steps (disk_step hash) ops (new_disk path fs))"
  using dsk.run_equivalent [OF new_disk_ready(1) [OF assms, of hash], of ops] by (simp add: new_disk_ready(2) [OF assms])

definition example_fs :: file_system where
  "example_fs = \<lparr>fs_files = Map.empty, fs_writable = (\<lambda>_. True)\<rparr>"

theorem disk_implements_files_witness:
  "\<exists>d. run_steps (disk_step length) [DWrite ''a'' [1, 2], DReopen, DSize ''a'', DRead ''a'' 2] (new_disk ''dir/'' example_fs) =
     Inr ([DDone, DDone, DSizeOut 2, DData [1, 2]], d) \<and> content length d = [''a'' \<mapsto> [1, 2]]"
proof -
  let ?ops = "[DWrite ''a'' [1, 2], DReopen, DSize ''a'', DRead ''a'' 2]"
  have "run_steps (file_spec ''dir/'') ?ops (\<lambda>n. fs_files example_fs (''dir/'' @ n)) =
      Inr ([DDone, DDone, DSizeOut 2, DData [1, 2]], [''a'' \<mapsto> [1, 2]])"
    by (simp add: example_fs_def file_size_def)
  then show ?thesis
    using disk_implements_files [of example_fs "''dir/''" ?ops length] by (simp add: example_fs_def outcome_of_eq_Inr [symmetric])
qed

lemma write_pending_missing:
  "\<forall>n \<in> set names. fs_writable fs (path @ n) \<Longrightarrow> m \<in> set names \<Longrightarrow> map_of fl m = None \<Longrightarrow>
   write_pending path fl names fs = Inl (Fatal ''null pointer dereference'')"
  by (induction names arbitrary: fs) (auto split: option.splits)

text \<open>
  Removing a file never succeeds on a server with a directory: whenever the file is
  cached, in memory and up to date or waiting to be written, the process ends. If the write is pending, the flush follows a
  null pointer, because the entry has been erased before; otherwise the file is removed and the success of
  the removal is taken for its failure.
\<close>

lemma disk_remove_fatal:
  assumes "disk_ready hash path d" and "path \<noteq> []" and "n \<in> fst ` set (files (disk_shards d (to_shard hash n)))"
  shows "\<exists>msg. disk_remove hash n d = Inl (Fatal msg)"
proof -
  let ?i = "to_shard hash n"
  obtain d1 where d1: "lock_shard ?i d = Inr d1" "disk_inv hash d1" "m_disk_path d1 = path"
    and n: "n \<in> fst ` set (files (disk_shards d1 ?i))"
  proof
    let ?d = "d\<lparr>disk_shards := (disk_shards d)(?i := (disk_shards d ?i)\<lparr>held := True\<rparr>)\<rparr>"
    show "lock_shard ?i d = Inr ?d" "disk_inv hash ?d" "m_disk_path ?d = path" "n \<in> fst ` set (files (disk_shards ?d ?i))"
      using assms disk_cong(1) [of ?d d hash] by (simp_all add: disk_ready_def)
  qed
  let ?sh = "disk_shards d1 ?i" and ?fs = "file_sys d1"
  have writable: "fs_writable ?fs (path @ m)" if "m \<in> set (flush_pending_list ?sh)" for m
    using d1(2,3) that unfolding disk_inv_def by blast
  have remove: "disk_remove hash n d = rbind (write_pending path (erase_file n (files ?sh)) (flush_pending_list ?sh) ?fs) (\<lambda>fs.
      if fs_files fs (path @ n) \<noteq> None then Inl (Fatal (''Failed to remove file: '' @ path @ n)) else disk_remove hash n d)"
    using d1 n assms(2) by (cases "write_pending path (erase_file n (files ?sh)) (flush_pending_list ?sh) ?fs")
      (auto simp: disk_remove_def Let_def flush_def set_files_def)
  show ?thesis
  proof (cases "n \<in> set (flush_pending_list ?sh)")
    case True
    then show ?thesis using remove write_pending_missing [of "flush_pending_list ?sh" ?fs path n "erase_file n (files ?sh)"] writable by simp
  next
    case False
    have "m \<in> fst ` set (erase_file n (files ?sh))" if "m \<in> set (flush_pending_list ?sh)" for m
    proof -
      have "m \<in> fst ` set (files ?sh)" using d1(2) that unfolding disk_inv_def by blast
      moreover have "m \<noteq> n" using that False by auto
      ultimately show ?thesis by (auto simp: erase_file_def)
    qed
    then have "write_pending path (erase_file n (files ?sh)) (flush_pending_list ?sh) ?fs = Inr (?fs\<lparr>fs_files := (\<lambda>p.
        if \<exists>m \<in> set (flush_pending_list ?sh). p = path @ m then map_of (erase_file n (files ?sh)) (drop (length path) p) else fs_files ?fs p)\<rparr>)"
      using writable by (intro write_pending_ok) simp
    moreover have "fs_files ?fs (path @ n) \<noteq> None"
    proof -
      obtain data where "map_of (files ?sh) n = Some data" using n by (metis map_of_eq_None_iff not_None_eq)
      then have "fs_files ?fs (m_disk_path d1 @ n) = Some data"
        using d1(2,3) False assms(2) unfolding disk_inv_def by blast
      then show ?thesis using d1(3) by simp
    qed
    ultimately show ?thesis using remove False by auto
  qed
qed

section \<open>What a dump keeps\<close>

definition file_ok :: "string \<times> u8 list \<Rightarrow> bool" where
  "file_ok f \<longleftrightarrow> length (fst f) < 2 ^ 32 \<and> length (snd f) < 2 ^ 64"

definition cached :: "(string \<Rightarrow> nat) \<Rightarrow> disk \<Rightarrow> string \<Rightarrow> u8 list option" where
  "cached hash d n = map_of (files (disk_shards d (to_shard hash n))) n"

lemma read_bytes_append [simp]: "read_bytes (length bs) (bs @ rest) = Some (bs, rest)"
  by (simp add: read_bytes_def)

lemma read_le_bytes: "read_bytes k (le_bytes k w @ rest) = Some (le_bytes k w, rest)"
  using read_bytes_append [of "le_bytes k w" rest] by simp

lemma small_word: "n < 2 ^ LENGTH('a) \<Longrightarrow> unat (of_nat n :: 'a::len word) = n"
  by (simp add: unsigned_of_nat take_bit_nat_eq_self)

lemma load_files_dump:
  assumes "list_all file_ok fl"
  shows "\<exists>d'. load_files hash (length fl) (concat (map dump_file fl) @ rest) d = (True, d') \<and>
    cached hash d' = cached hash d ++ map_of (rev fl) \<and> m_disk_path d' = m_disk_path d \<and> file_sys d' = file_sys d"
  using assms
proof (induction fl arbitrary: d)
  case (Cons f fl)
  obtain n data where f: "f = (n, data)" by (cases f)
  have ok: "length n < 2 ^ 32" "length data < 2 ^ 64" using Cons.prems f by (simp_all add: file_ok_def)
  let ?bs = "concat (map dump_file fl) @ rest"
  let ?i = "to_shard hash n"
  let ?d1 = "(set_files ?i (erase_file n (files (disk_shards d ?i))) d)\<lparr>m_num_files := m_num_files d + 1\<rparr>"
  let ?d2 = "set_files ?i (put_file n data (files (disk_shards ?d1 ?i))) ?d1"
  have len: "unat (of_nat (length n) :: u32) = length n" "unat (file_size data) = length data"
    using ok small_word [where 'a = 32] small_word [where 'a = 64] by (simp_all add: file_size_def)
  have bytes: "concat (map dump_file (f # fl)) @ rest =
      le_bytes 4 (of_nat (length n) :: u32) @ map char_byte n @ le_bytes 8 (file_size data) @ data @ ?bs"
    using len by (simp add: f dump_file_def Let_def)
  have name: "read_bytes (length n) (map char_byte n @ r) = Some (map char_byte n, r)" for r
    using read_bytes_append [of "map char_byte n" r] by simp
  have "load_files hash (length (f # fl)) (concat (map dump_file (f # fl)) @ rest) d = load_files hash (length fl) ?bs ?d2"
    unfolding bytes using len by (simp add: read_le_bytes le_word_bytes name Let_def comp_def)
  moreover have "cached hash ?d2 = (cached hash d)(n \<mapsto> data)"
    by (auto simp: cached_def fun_eq_iff)
  ultimately show ?case using Cons.IH [of ?d2] Cons.prems f by (auto simp: map_add_upd_left map_add_def fun_eq_iff split: option.splits)
qed simp

lemma dump_shards_ok:
  assumes "unheld d" "fs_writable (file_sys d) filename" "is \<noteq> []"
  shows "dump_shards True filename is d = Inr (True, d\<lparr>file_sys := (file_sys d)\<lparr>fs_files :=
    (fs_files (file_sys d))(filename \<mapsto> dump_shard (files (disk_shards d (last is))))\<rparr>\<rparr>)"
  using assms
proof (induction "is" arbitrary: d)
  case (Cons i "is")
  let ?d = "d\<lparr>file_sys := (file_sys d)\<lparr>fs_files := (fs_files (file_sys d))(filename \<mapsto> dump_shard (files (disk_shards d i)))\<rparr>\<rparr>"
  have same: "(disk_shards d)(i := (disk_shards d i)\<lparr>held := False\<rparr>) = disk_shards d" using Cons.prems(1) by (rule unlock_lock)
  have eq: "dump_shards True filename (i # is) d = dump_shards True filename is ?d"
    using Cons.prems same by (simp add: unlock_shard_def Let_def)
  have "unheld ?d" using Cons.prems(1) by (simp add: unheld_def)
  then show ?case unfolding eq using Cons.IH [of ?d] Cons.prems(2) by (cases "is = []") (simp_all add: fun_upd_def cong: if_cong)
qed simp

lemma lock_shards_ok:
  "distinct is \<Longrightarrow> \<forall>i \<in> set is. \<not> held (disk_shards d i) \<Longrightarrow>
   \<exists>d1. lock_shards is d = Inr d1 \<and> cached hash d1 = cached hash d \<and> m_disk_path d1 = m_disk_path d \<and> file_sys d1 = file_sys d"
proof (induction "is" arbitrary: d)
  case (Cons i "is")
  let ?d = "d\<lparr>disk_shards := (disk_shards d)(i := (disk_shards d i)\<lparr>held := True\<rparr>)\<rparr>"
  have "cached hash ?d = cached hash d" by (simp add: cached_def fun_eq_iff)
  moreover have "\<forall>j \<in> set is. \<not> held (disk_shards ?d j)" using Cons.prems by auto
  ultimately show ?case using Cons.IH [of ?d] Cons.prems by (simp add: lock_shard_def)
qed simp

lemma unlock_shards_ok:
  "cached hash (unlock_shards is d) = cached hash d" "m_disk_path (unlock_shards is d) = m_disk_path d"
  "file_sys (unlock_shards is d) = file_sys d" "held (disk_shards (unlock_shards is d) i) \<longleftrightarrow> i \<notin> set is \<and> held (disk_shards d i)"
  by (induction "is" arbitrary: d) (auto simp: unlock_shards_def cached_def fun_eq_iff)

lemma content_in_memory: "m_disk_path d = [] \<Longrightarrow> content hash d = cached hash d"
  by (auto simp: content_def cached_def fun_eq_iff split: option.splits)

lemma map_of_rev_distinct: "distinct (map fst fl) \<Longrightarrow> map_of (rev fl) = map_of fl"
  using map_of_inject_set [of "rev fl" fl] by (simp add: rev_map [symmetric])

lemma load_dump:
  assumes fl: "list_all file_ok fl" "length fl < 2 ^ 32" "distinct (map fst fl)" and fs: "fs_files fs filename = Some (dump_shard fl)"
  shows "\<exists>d2. disk_load_everything hash filename (new_disk [] fs) = Inr (True, d2) \<and> content hash d2 = map_of fl \<and>
    cached hash d2 = map_of fl \<and> m_disk_path d2 = [] \<and> (\<forall>i < DISK_SHARDS. \<not> held (disk_shards d2 i))"
proof -
  obtain d1 where d1: "lock_shards [0..<DISK_SHARDS] (new_disk [] fs) = Inr d1" "cached hash d1 = cached hash (new_disk [] fs)"
    "m_disk_path d1 = []" "file_sys d1 = fs"
    using lock_shards_ok [of "[0..<DISK_SHARDS]" "new_disk [] fs" hash] by (auto simp: new_disk_def empty_shard_def)
  obtain d2 where d2: "load_files hash (length fl) (concat (map dump_file fl)) d1 = (True, d2)"
    "cached hash d2 = cached hash d1 ++ map_of (rev fl)" "m_disk_path d2 = []"
    using load_files_dump [OF fl(1), of hash "[]" d1] d1(3) by auto
  have "cached hash (new_disk [] fs) = Map.empty" by (simp add: cached_def new_disk_def empty_shard_def fun_eq_iff)
  then have "cached hash d2 = map_of fl" using d2(2) d1(2) fl(3) by (simp add: map_of_rev_distinct)
  then have "cached hash (unlock_shards [0..<DISK_SHARDS] d2) = map_of fl" by (simp add: unlock_shards_ok)
  moreover from this have "content hash (unlock_shards [0..<DISK_SHARDS] d2) = map_of fl"
    using d2(3) by (simp add: content_in_memory unlock_shards_ok)
  moreover have "disk_load_everything hash filename (new_disk [] fs) = Inr (True, unlock_shards [0..<DISK_SHARDS] d2)"
    using d1 d2(1) fs small_word [of "length fl", where 'a = 32] fl(2)
    by (simp add: disk_load_everything_def dump_shard_def read_le_bytes le_word_bytes)
  ultimately show ?thesis using d2(3) by (auto simp: unlock_shards_ok)
qed

lemma read_missing_in_memory:
  assumes "m_disk_path d = []" "cached hash d n = None" "\<not> held (disk_shards d (to_shard hash n))" "CHR ''/'' \<notin> set n"
  shows "disk_read hash n sz d = Inl (Fatal (''No such file: '' @ n))"
  using assms by (simp add: disk_read_def lock_shard_def get_file_def cached_def Let_def)

text \<open>
  A dump keeps one shard of 64: the output file is emptied for every shard, so after a dump that reports
  success it holds the files of the last shard, in a format from which loading recovers exactly them. As the
  disk key is stored as one of the files, loading the dump into a new server ends the process unless the key's
  name happens to fall into the last shard.
\<close>

lemma dump_keeps_last_shard:
  assumes ready: "disk_ready hash path d" and out: "fs_writable (file_sys d) filename"
    and fl: "list_all file_ok (files (disk_shards d 63))" "length (files (disk_shards d 63)) < 2 ^ 32"
      "distinct (map fst (files (disk_shards d 63)))"
    and key: "to_shard hash DISK_KEY_FILE \<noteq> 63"
  shows "\<exists>d1 d2. disk_dump_everything True filename d = Inr (True, d1) \<and>
     disk_load_everything hash filename (new_disk [] (file_sys d1)) = Inr (True, d2) \<and>
     content hash d2 = map_of (files (disk_shards d 63)) \<and>
     load_everything hash filename DISK_KEY_SIZE (new_disk [] (file_sys d1)) = Inl (Fatal (''No such file: '' @ DISK_KEY_FILE))"
proof -
  let ?fl = "files (disk_shards d 63)"
  let ?d1 = "d\<lparr>file_sys := (file_sys d)\<lparr>fs_files := (fs_files (file_sys d))(filename \<mapsto> dump_shard ?fl)\<rparr>\<rparr>"
  have last: "[0..<DISK_SHARDS] \<noteq> []" "last [0..<DISK_SHARDS] = 63" by (simp_all add: DISK_SHARDS_def)
  have dump: "disk_dump_everything True filename d = Inr (True, ?d1)"
    using dump_shards_ok [OF _ out last(1)] ready last(2) by (simp add: disk_dump_everything_def disk_ready_def)
  obtain d2 where d2: "disk_load_everything hash filename (new_disk [] (file_sys ?d1)) = Inr (True, d2)" "content hash d2 = map_of ?fl"
    "cached hash d2 = map_of ?fl" "m_disk_path d2 = []" "\<forall>i < DISK_SHARDS. \<not> held (disk_shards d2 i)"
    using load_dump [OF fl, of "file_sys ?d1" filename hash] by auto
  have "DISK_KEY_FILE \<notin> fst ` set ?fl" using ready key unfolding disk_ready_def disk_inv_def by blast
  then have "disk_read hash DISK_KEY_FILE sz d2 = Inl (Fatal (''No such file: '' @ DISK_KEY_FILE))" for sz
    using d2(3-5) to_shard_less [of hash DISK_KEY_FILE]
    by (intro read_missing_in_memory) (simp_all add: map_of_eq_None_iff DISK_KEY_FILE_def)
  then have "load_everything hash filename DISK_KEY_SIZE (new_disk [] (file_sys ?d1)) = Inl (Fatal (''No such file: '' @ DISK_KEY_FILE))"
    using d2(1) by (simp add: load_everything_def)
  with dump d2 show ?thesis by blast
qed

end
