(* ===== verification/Encrypted_IO.thy ===== *)
theory Encrypted_IO
  imports Disk
begin

text \<open>
  The enclave's access to files (\<open>src/enclave/EncryptedIO.cpp\<close>, \<open>LocalEncryptedIO.cpp\<close>,
  \<open>RemoteEncryptedIO.cpp\<close>), on top of the server's file cache. AES-GCM is a library: \<open>aes_gcm\<close> collects its
  two functions. The flag \<open>encrypt\<close> is the build option \<open>ENCRYPT_FILES\<close>. Shown: what the enclave writes it
  reads back, through encryption, cache, flushes and restarts; and an encrypted file carries neither its name nor its
  version, so a copy of another file of the same server is accepted in its place.
\<close>

section \<open>Definitions\<close>

record aes_gcm =
  gcm_encrypt :: "u8 list \<Rightarrow> u8 list \<Rightarrow> u8 list \<Rightarrow> (u8 list \<times> u8 list) option"
  gcm_decrypt :: "u8 list \<Rightarrow> u8 list \<Rightarrow> u8 list \<Rightarrow> u8 list \<Rightarrow> u8 list option"

definition MAC_SIZE :: nat where "MAC_SIZE = 16"

text \<open>The initialisation vector is the same twelve zero bytes for every file.\<close>

definition aes_gcm_iv :: "u8 list" where "aes_gcm_iv = replicate 12 0"

text \<open>A name passes the enclave boundary as a C string, a length as a 32-bit integer.\<close>

definition c_str :: "string \<Rightarrow> string" where
  "c_str s = takeWhile (\<lambda>c. c \<noteq> CHR 0x00) s"

definition write_to_disk_call :: "(string \<Rightarrow> nat) \<Rightarrow> string \<Rightarrow> u8 list \<Rightarrow> disk \<Rightarrow> (bool \<times> disk) result" where
  "write_to_disk_call hash filename data d =
     disk_write hash (c_str filename) (take (unat (of_nat (length data) :: u32)) data) d"

definition decrypt_disk :: "bool \<Rightarrow> aes_gcm \<Rightarrow> u8 list \<Rightarrow> u8 list \<Rightarrow> u8 list option result" where
  "decrypt_disk encrypt G disk_key buffer =
     (if \<not> encrypt then Inr (Some buffer)
      else if length buffer < MAC_SIZE then Inl (Fatal ''assertion failed'')
      else Inr (gcm_decrypt G disk_key aes_gcm_iv (drop MAC_SIZE buffer) (take MAC_SIZE buffer)))"

definition io_read_from_disk ::
  "bool \<Rightarrow> aes_gcm \<Rightarrow> u8 list \<Rightarrow> (string \<Rightarrow> nat) \<Rightarrow> string \<Rightarrow> disk \<Rightarrow> (u8 list option \<times> disk) result" where
  "io_read_from_disk encrypt G disk_key hash filename d =
     rbind (disk_get_size hash (c_str filename) d) (\<lambda>(size, d1).
       if size < 0 then Inr (None, d1)
       else rbind (disk_read hash (c_str filename) (word_of_int size) d1) (\<lambda>(buffer, d2).
            rbind (decrypt_disk encrypt G disk_key buffer) (\<lambda>data. Inr (data, d2))))"

definition io_write_to_disk ::
  "bool \<Rightarrow> aes_gcm \<Rightarrow> u8 list \<Rightarrow> (string \<Rightarrow> nat) \<Rightarrow> string \<Rightarrow> u8 list \<Rightarrow> disk \<Rightarrow> (bool \<times> disk) result" where
  "io_write_to_disk encrypt G disk_key hash filename data d =
     (if \<not> encrypt then write_to_disk_call hash filename data d
      else case gcm_encrypt G disk_key aes_gcm_iv data of
             None \<Rightarrow> Inr (False, d)
           | Some (cdata, tag) \<Rightarrow> write_to_disk_call hash filename (tag @ cdata) d)"

text \<open>On a downstream server, files are read from the upstream server and writes do nothing.\<close>

definition remote_read_from_disk :: "(string \<Rightarrow> u8 list option) \<Rightarrow> string \<Rightarrow> u8 list option" where
  "remote_read_from_disk upstream filename = upstream filename"

definition remote_write_to_disk :: "string \<Rightarrow> u8 list \<Rightarrow> disk \<Rightarrow> bool \<times> disk" where
  "remote_write_to_disk filename data d = (True, d)"

section \<open>What is read after a write\<close>

text \<open>
  What is assumed of AES-GCM: encryption succeeds, keeps the length, gives a tag of 16 bytes, and is
  reversed by decryption under the same key and vector.
\<close>

definition gcm_correct :: "aes_gcm \<Rightarrow> bool" where
  "gcm_correct G \<longleftrightarrow>
     (\<forall>key iv data. \<exists>cdata tag. gcm_encrypt G key iv data = Some (cdata, tag) \<and> length cdata = length data \<and>
        length tag = MAC_SIZE \<and> gcm_decrypt G key iv cdata tag = Some data)"

definition file_image :: "bool \<Rightarrow> aes_gcm \<Rightarrow> u8 list \<Rightarrow> u8 list \<Rightarrow> u8 list" where
  "file_image encrypt G key data =
     (if encrypt then case gcm_encrypt G key aes_gcm_iv data of None \<Rightarrow> [] | Some (cdata, tag) \<Rightarrow> tag @ cdata else data)"

definition plain_name :: "string \<Rightarrow> bool" where
  "plain_name n \<longleftrightarrow> CHR ''/'' \<notin> set n \<and> CHR 0x00 \<notin> set n"

lemma c_str_plain: "plain_name n \<Longrightarrow> c_str n = n"
  by (auto simp: c_str_def plain_name_def takeWhile_eq_all_conv)

lemma file_image_decrypt:
  assumes "gcm_correct G"
  shows "decrypt_disk encrypt G key (file_image encrypt G key data) = Inr (Some data)"
    "length (file_image encrypt G key data) = length data + (if encrypt then MAC_SIZE else 0)"
proof -
  obtain cdata tag where "gcm_encrypt G key aes_gcm_iv data = Some (cdata, tag)" "length cdata = length data" "length tag = MAC_SIZE"
    "gcm_decrypt G key aes_gcm_iv cdata tag = Some data"
    using assms unfolding gcm_correct_def by blast
  then show "decrypt_disk encrypt G key (file_image encrypt G key data) = Inr (Some data)"
    "length (file_image encrypt G key data) = length data + (if encrypt then MAC_SIZE else 0)"
    by (auto simp: decrypt_disk_def file_image_def)
qed

lemma io_write_image:
  assumes "gcm_correct G" "plain_name n" "length data < 2 ^ 31 - MAC_SIZE"
  shows "io_write_to_disk encrypt G key hash n data d = disk_write hash n (file_image encrypt G key data) d"
proof -
  have "length (file_image encrypt G key data) < 2 ^ 32"
    using assms(3) file_image_decrypt(2) [OF assms(1), of encrypt key data] by (simp split: if_splits)
  then have "take (unat (of_nat (length (file_image encrypt G key data)) :: u32)) (file_image encrypt G key data) = file_image encrypt G key data"
    by (simp add: small_word)
  moreover have "gcm_encrypt G key aes_gcm_iv data \<noteq> None" using assms(1) unfolding gcm_correct_def by fastforce
  ultimately show ?thesis
    using c_str_plain [OF assms(2)] by (auto simp: io_write_to_disk_def write_to_disk_call_def file_image_def split: if_splits)
qed

section \<open>The files of the enclave\<close>

datatype io_op = IWrite string "u8 list" | IRead string | IRestart
datatype io_out = IWritten bool | IData "u8 list option" | IRestarted

fun io_step :: "bool \<Rightarrow> aes_gcm \<Rightarrow> u8 list \<Rightarrow> (string \<Rightarrow> nat) \<Rightarrow> io_op \<Rightarrow> disk \<Rightarrow> (io_out \<times> disk) result" where
  "io_step encrypt G key hash (IWrite n data) d = rbind (io_write_to_disk encrypt G key hash n data d) (\<lambda>(ok, d'). Inr (IWritten ok, d'))"
| "io_step encrypt G key hash (IRead n) d = rbind (io_read_from_disk encrypt G key hash n d) (\<lambda>(data, d'). Inr (IData data, d'))"
| "io_step encrypt G key hash IRestart d = rbind (close_disk d) (\<lambda>fs. Inr (IRestarted, new_disk (m_disk_path d) fs))"

fun io_spec :: "string \<Rightarrow> io_op \<Rightarrow> (string \<rightharpoonup> u8 list) \<Rightarrow> (io_out \<times> (string \<rightharpoonup> u8 list)) result" where
  "io_spec path (IWrite n data) m = Inr (IWritten True, m(n \<mapsto> data))"
| "io_spec path (IRead n) m =
     (case m n of
        None \<Rightarrow> if path = [] then Inr (IData None, m) else Inl (missing_file path n)
      | Some data \<Rightarrow> Inr (IData (Some data), m))"
| "io_spec path IRestart m = Inr (IRestarted, if path = [] then Map.empty else m)"

fun io_ok :: "io_op \<Rightarrow> bool" where
  "io_ok (IWrite n data) \<longleftrightarrow> plain_name n \<and> length data < 2 ^ 31 - MAC_SIZE"
| "io_ok (IRead n) \<longleftrightarrow> plain_name n"
| "io_ok IRestart \<longleftrightarrow> True"

definition decoded :: "bool \<Rightarrow> aes_gcm \<Rightarrow> u8 list \<Rightarrow> (string \<rightharpoonup> u8 list) \<Rightarrow> string \<rightharpoonup> u8 list" where
  "decoded encrypt G key m n =
     (case m n of None \<Rightarrow> None | Some bs \<Rightarrow> (case decrypt_disk encrypt G key bs of Inl e \<Rightarrow> None | Inr data \<Rightarrow> data))"

definition all_images :: "bool \<Rightarrow> aes_gcm \<Rightarrow> u8 list \<Rightarrow> (string \<rightharpoonup> u8 list) \<Rightarrow> bool" where
  "all_images encrypt G key m \<longleftrightarrow>
     (\<forall>bs \<in> ran m. \<exists>data. bs = file_image encrypt G key data \<and> length data < 2 ^ 31 - MAC_SIZE)"

definition io_ready :: "bool \<Rightarrow> aes_gcm \<Rightarrow> u8 list \<Rightarrow> (string \<Rightarrow> nat) \<Rightarrow> string \<Rightarrow> disk \<Rightarrow> bool" where
  "io_ready encrypt G key hash path d \<longleftrightarrow>
     gcm_correct G \<and> disk_ready hash path d \<and> all_images encrypt G key (content hash d)"

lemma decoded_update:
  "gcm_correct G \<Longrightarrow> decoded encrypt G key (m(n \<mapsto> file_image encrypt G key data)) = (decoded encrypt G key m)(n \<mapsto> data)"
  by (auto simp: decoded_def file_image_decrypt fun_eq_iff)

lemma io_write_step:
  assumes ready: "io_ready encrypt G key hash path d" and ok: "plain_name n" "length data < 2 ^ 31 - MAC_SIZE"
  obtains d' where "io_write_to_disk encrypt G key hash n data d = Inr (True, d')" "io_ready encrypt G key hash path d'"
    "decoded encrypt G key (content hash d') = (decoded encrypt G key (content hash d))(n \<mapsto> data)"
proof -
  have G: "gcm_correct G" using ready by (simp add: io_ready_def)
  obtain d' where d': "disk_write hash n (file_image encrypt G key data) d = Inr (True, d')" "disk_ready hash path d'"
    "content hash d' = (content hash d)(n \<mapsto> file_image encrypt G key data)"
    using ready ok(1) disk_write_ok [of hash d n "file_image encrypt G key data"] by (auto simp: io_ready_def disk_ready_def plain_name_def)
  have "all_images encrypt G key (content hash d')"
    using ready ok(2) unfolding d'(3) all_images_def io_ready_def by (auto simp: ran_def split: if_splits)
  then show thesis using that [of d'] d' G io_write_image [OF G ok] decoded_update [OF G] by (simp add: io_ready_def)
qed

lemma size_of_image:
  assumes "gcm_correct G" "length data < 2 ^ 31 - MAC_SIZE"
  shows "sint (of_nat (length (file_image encrypt G key data)) :: 32 word) = int (length (file_image encrypt G key data))"
proof -
  have "length (file_image encrypt G key data) < 2 ^ 31"
    using assms(2) file_image_decrypt(2) [OF assms(1), of encrypt key data] by (simp split: if_splits)
  then show ?thesis by (simp add: signed_of_nat signed_take_bit_int_eq_self)
qed

lemma io_read_cases:
  assumes ready: "io_ready encrypt G key hash path d" and ok: "plain_name n"
  shows "case decoded encrypt G key (content hash d) n of
      None \<Rightarrow> if path = [] then \<exists>d1. io_read_from_disk encrypt G key hash n d = Inr (None, d1) \<and> disk_ready hash path d1 \<and> content hash d1 = content hash d
              else io_read_from_disk encrypt G key hash n d = Inl (missing_file path n)
    | Some data \<Rightarrow> \<exists>d1. io_read_from_disk encrypt G key hash n d = Inr (Some data, d1) \<and> disk_ready hash path d1 \<and> content hash d1 = content hash d"
proof -
  have G: "gcm_correct G" and disk: "disk_ready hash path d" and im: "all_images encrypt G key (content hash d)"
    using ready by (auto simp: io_ready_def)
  have n: "CHR ''/'' \<notin> set n" "c_str n = n" using ok c_str_plain by (auto simp: plain_name_def)
  have sz: "step_ok hash path (rbind (disk_get_size hash n d) (\<lambda>(k, d'). Inr (DSizeOut k, d'))) (file_spec path (DSize n) (content hash d))"
    using disk_step_ok [OF disk, of "DSize n"] by simp
  show ?thesis
  proof (cases "content hash d n")
    case None
    then show ?thesis
      using sz n by (cases "disk_get_size hash n d") (auto simp: step_ok_def decoded_def io_read_from_disk_def split: if_splits)
  next
    case (Some bs)
    then obtain data where data: "bs = file_image encrypt G key data" "length data < 2 ^ 31 - MAC_SIZE"
      using im unfolding all_images_def by (metis ranI)
    note size = size_of_image [OF G data(2), of encrypt key]
    obtain d1 where d1: "disk_get_size hash n d = Inr (int (length bs), d1)" "disk_ready hash path d1" "content hash d1 = content hash d"
      using sz n Some size data(1) by (cases "disk_get_size hash n d") (auto simp: step_ok_def)
    have "step_ok hash path (rbind (disk_read hash n (of_nat (length bs)) d1) (\<lambda>(data, d'). Inr (DData data, d')))
        (file_spec path (DRead n (of_nat (length bs))) (content hash d1))"
      using disk_step_ok [OF d1(2), of "DRead n (of_nat (length bs))"] by simp
    moreover have "file_size bs = ucast (of_nat (length bs) :: u32)"
    proof -
      have "length bs < 2 ^ 32" using data file_image_decrypt(2) [OF G, of encrypt key data] by (simp split: if_splits)
      then show ?thesis by (simp add: file_size_def word_unat_eq_iff unsigned_ucast_eq unsigned_of_nat take_bit_nat_eq_self)
    qed
    ultimately obtain d2 where "disk_read hash n (of_nat (length bs)) d1 = Inr (bs, d2)" "disk_ready hash path d2" "content hash d2 = content hash d"
      using n Some d1(3) by (cases "disk_read hash n (of_nat (length bs)) d1") (auto simp: step_ok_def)
    then show ?thesis
      using Some d1 n data(1) file_image_decrypt(1) [OF G, of encrypt key data] by (simp add: decoded_def io_read_from_disk_def)
  qed
qed

interpretation eio: step_equivalence "io_step encrypt G key hash" "io_spec path" "\<lambda>d. decoded encrypt G key (content hash d)"
  "io_ready encrypt G key hash path" io_ok
  for encrypt G key hash path
proof unfold_locales
  fix s op out s'
  assume ready: "io_ready encrypt G key hash path s" and ok: "io_ok op"
  have "io_spec path op (decoded encrypt G key (content hash s)) = outcome_of (\<lambda>d. decoded encrypt G key (content hash d)) (io_step encrypt G key hash op s) \<and>
      (\<forall>out s'. io_step encrypt G key hash op s = Inr (out, s') \<longrightarrow> io_ready encrypt G key hash path s')"
  proof (cases op)
    case (IWrite n data)
    then obtain d' where "io_write_to_disk encrypt G key hash n data s = Inr (True, d')" "io_ready encrypt G key hash path d'"
      "decoded encrypt G key (content hash d') = (decoded encrypt G key (content hash s))(n \<mapsto> data)"
      using io_write_step [OF ready, of n data] ok by (metis io_ok.simps(1))
    with IWrite show ?thesis by simp
  next
    case (IRead n)
    then show ?thesis
      using io_read_cases [OF ready, of n] ok ready by (auto simp: io_ready_def split: option.splits if_splits)
  next
    case IRestart
    obtain fs where "close_disk s = Inr fs" "disk_ready hash path (new_disk path fs)"
      "content hash (new_disk path fs) = (if path = [] then Map.empty else content hash s)"
      using reopen_ok [of hash path s] ready by (auto simp: io_ready_def)
    moreover have "m_disk_path s = path" "decoded encrypt G key Map.empty = Map.empty" "all_images encrypt G key Map.empty"
      using ready by (simp_all add: io_ready_def disk_ready_def decoded_def all_images_def fun_eq_iff)
    ultimately show ?thesis using IRestart ready by (simp add: io_ready_def)
  qed
  then show "io_spec path op (decoded encrypt G key (content hash s)) = outcome_of (\<lambda>d. decoded encrypt G key (content hash d)) (io_step encrypt G key hash op s)"
    "io_step encrypt G key hash op s = Inr (out, s') \<Longrightarrow> io_ready encrypt G key hash path s'"
    by blast+
qed

section \<open>Properties\<close>

text \<open>
  Property C25. The enclave reads back what it wrote: for every sequence of writes, reads and restarts of the
  server's file cache on an empty directory (or without one), with or without encryption, the results are those of a map
  from names to contents. A file may have any content below two gigabytes, less the size of the tag.
\<close>

theorem encrypted_files_read_back:
  assumes "gcm_correct G" and "\<forall>n. CHR ''/'' \<notin> set n \<longrightarrow> fs_writable fs (path @ n)" and "path = [] \<or> last path = CHR ''/''"
    and "\<forall>n. fs_files fs (path @ n) = None" and "\<forall>op \<in> set ops. io_ok op"
  shows "run_steps (io_spec path) ops Map.empty =
     outcome_of (\<lambda>d. decoded encrypt G key (content hash d)) (run_steps (io_step encrypt G key hash) ops (new_disk path fs))"
proof -
  have empty: "content hash (new_disk path fs) = Map.empty" using new_disk_ready(2) [OF assms(2,3)] assms(4) by simp
  have "io_ready encrypt G key hash path (new_disk path fs)"
    using assms(1) new_disk_ready(1) [OF assms(2,3)] by (simp add: io_ready_def all_images_def empty)
  moreover have "decoded encrypt G key Map.empty = Map.empty" by (simp add: decoded_def fun_eq_iff)
  ultimately show ?thesis using eio.run_equivalent [of encrypt G key hash path "new_disk path fs" ops] assms(5) empty by simp
qed

definition example_gcm :: aes_gcm where
  "example_gcm = \<lparr>gcm_encrypt = (\<lambda>key iv data. Some (map (\<lambda>b. b + 1) data, replicate 16 0)),
     gcm_decrypt = (\<lambda>key iv cdata tag. Some (map (\<lambda>b. b - 1) cdata))\<rparr>"

lemma example_gcm_correct: "gcm_correct example_gcm"
  by (simp add: gcm_correct_def example_gcm_def MAC_SIZE_def comp_def)

theorem encrypted_files_read_back_witness:
  "\<exists>d. run_steps (io_step True example_gcm [7] length) [IWrite ''a'' [1, 2], IRestart, IRead ''a''] (new_disk ''dir/'' example_fs) =
     Inr ([IWritten True, IRestarted, IData (Some [1, 2])], d)"
proof -
  let ?ops = "[IWrite ''a'' [1, 2], IRestart, IRead ''a'']"
  have spec: "run_steps (io_spec ''dir/'') ?ops Map.empty = Inr ([IWritten True, IRestarted, IData (Some [1, 2])], [''a'' \<mapsto> [1, 2]])" by simp
  have "run_steps (io_spec ''dir/'') ?ops Map.empty = outcome_of (\<lambda>d. decoded True example_gcm [7] (content length d))
      (run_steps (io_step True example_gcm [7] length) ?ops (new_disk ''dir/'' example_fs))"
    by (rule encrypted_files_read_back [OF example_gcm_correct]) (simp_all add: example_fs_def plain_name_def MAC_SIZE_def)
  from this [unfolded spec, symmetric, unfolded outcome_of_eq_Inr] show ?thesis by blast
qed

text \<open>
  Encryption does not bind a file to its name: whoever controls the disk can put the current bytes of one file in
  the place of another, and the enclave accepts them.
\<close>

lemma exchanged_file_accepted:
  assumes ready: "io_ready encrypt G key hash path d" and names: "plain_name a" "plain_name b"
    and a: "content hash d a = Some bs" "decoded encrypt G key (content hash d) a = Some data"
  shows "\<exists>d1 d2. disk_write hash b bs d = Inr (True, d1) \<and> io_read_from_disk encrypt G key hash b d1 = Inr (Some data, d2)"
proof -
  obtain d1 where d1: "disk_write hash b bs d = Inr (True, d1)" "disk_ready hash path d1" "content hash d1 = (content hash d)(b \<mapsto> bs)"
    using ready names(2) disk_write_ok [of hash d b bs] by (auto simp: io_ready_def disk_ready_def plain_name_def)
  have "all_images encrypt G key (content hash d1)"
    using ready a(1) unfolding d1(3) all_images_def io_ready_def by (auto simp: ran_def split: if_splits)
  then have "io_ready encrypt G key hash path d1" using ready d1(2) by (simp add: io_ready_def)
  moreover have "decoded encrypt G key (content hash d1) b = Some data" using a d1(3) by (simp add: decoded_def)
  ultimately show ?thesis using io_read_cases [of encrypt G key hash path d1 b] names(2) d1(1) by auto
qed

end
