(* ===== verification/Transaction_Ledger.thy ===== *)
theory Transaction_Ledger
  imports Json_Example "HOL-Library.AList"
begin

text \<open>
  The ledger of committed transactions (\<open>src/src/enclave/TransactionLedger.{h,cpp}\<close>) and the handle that
  reads its records (\<open>TransactionHandle.{h,cpp}\<close>). A record is a JSON array; \<open>json_value\<close> is the tree
  the writer builds, and the encoding of trees as bytes belongs to the JSON library, which is the
  argument \<open>J\<close>. The ledger's blocks are kept in a page store of their own.
\<close>

section \<open>Records\<close>

datatype json_value = VInt int | VString string | VArray "json_value list" | VMap "(string \<times> json_value) list"

record value_lib =
  v_write :: "json_value \<Rightarrow> u8 list"
  v_parse :: "u8 list \<Rightarrow> json_value option"

type_synonym identity_uid_t = u64
type_synonym transaction_id_t = u32
type_synonym taskid_t = u32

record op_set_t =
  reads :: "event_id_t list"
  writes :: "event_id_t list"

definition write_event_ids :: "event_id_t list \<Rightarrow> json_value" where
  "write_event_ids es =
     VArray (concat (map (\<lambda>e. [VInt (uint (ev_shard e)), VInt (uint (ev_block e)), VInt (uint (ev_index e))]) es))"

definition write_op_set :: "op_set_t \<Rightarrow> json_value list" where
  "write_op_set ops = [write_event_ids (reads ops), write_event_ids (writes ops)]"

definition transaction_record ::
  "(taskid_t \<times> op_context) list \<Rightarrow> identity_uid_t \<Rightarrow> transaction_id_t \<Rightarrow> op_set_t \<Rightarrow> (identity_uid_t \<times> op_set_t) list \<Rightarrow> json_value" where
  "transaction_record op_contexts tx_root tx_id local_ops remote_ops =
     VArray [VMap (map (\<lambda>(task, ctx). (to_string_nat (unat task), VString (context_to_string ctx))) op_contexts),
       VInt (uint tx_root), VInt (uint tx_id), VArray (write_op_set local_ops),
       VArray (concat (map (\<lambda>(idty, ops). VInt (uint idty) # write_op_set ops) remote_ops))]"

section \<open>Reading a record\<close>

text \<open>Views of the JSON library; taking a view that does not exist, or as the wrong type, is an error.\<close>

definition value_at :: "nat \<Rightarrow> json_value \<Rightarrow> json_value result" where
  "value_at i v = (case v of VArray vs \<Rightarrow> if i < length vs then Inr (vs ! i) else Inl JsonError | _ \<Rightarrow> Inl JsonError)"

definition value_field :: "string \<Rightarrow> json_value \<Rightarrow> json_value result" where
  "value_field k v =
     (case v of VMap es \<Rightarrow> (case map_of es k of Some x \<Rightarrow> Inr x | None \<Rightarrow> Inl JsonError) | _ \<Rightarrow> Inl JsonError)"

definition as_integer :: "json_value \<Rightarrow> int result" where
  "as_integer v = (case v of VInt i \<Rightarrow> Inr i | _ \<Rightarrow> Inl JsonError)"

definition as_string :: "json_value \<Rightarrow> string result" where
  "as_string v = (case v of VString s \<Rightarrow> Inr s | _ \<Rightarrow> Inl JsonError)"

definition array_of :: "json_value \<Rightarrow> json_value list result" where
  "array_of v = (case v of VArray vs \<Rightarrow> Inr vs | _ \<Rightarrow> Inl JsonError)"

definition tx_op_context :: "taskid_t \<Rightarrow> json_value \<Rightarrow> string result" where
  "tx_op_context task doc = rbind (value_at 0 doc) (\<lambda>view. rbind (value_field (to_string_nat (unat task)) view) as_string)"

definition transaction_root :: "json_value \<Rightarrow> identity_uid_t result" where
  "transaction_root doc = rbind (value_at 1 doc) (\<lambda>view. rbind (as_integer view) (\<lambda>i. Inr (word_of_int i)))"

definition transaction_id :: "json_value \<Rightarrow> transaction_id_t result" where
  "transaction_id doc = rbind (value_at 2 doc) (\<lambda>view. rbind (as_integer view) (\<lambda>i. Inr (word_of_int i)))"

fun read_ops_loop :: "json_value list \<Rightarrow> event_id_t list \<Rightarrow> event_id_t list result" where
  "read_ops_loop (a # b # c # vs) result =
     rbind (as_integer a) (\<lambda>shard. rbind (as_integer b) (\<lambda>block. rbind (as_integer c) (\<lambda>index.
       read_ops_loop vs (sset_insert event_less (mk_event_id (word_of_int shard) (word_of_int block) (word_of_int index)) result))))"
| "read_ops_loop vs result = Inr result"

definition read_ops :: "json_value \<Rightarrow> event_id_t list result" where
  "read_ops doc = rbind (array_of doc) (\<lambda>vs.
     if length vs mod 3 \<noteq> 0 then Inl (RuntimeError ''Invalid data format!'') else read_ops_loop vs [])"

definition local_ops :: "json_value \<Rightarrow> op_set_t result" where
  "local_ops doc = rbind (value_at 3 doc) (\<lambda>ops.
     rbind (value_at 0 ops) (\<lambda>read_set. rbind (value_at 1 ops) (\<lambda>write_set.
     rbind (read_ops read_set) (\<lambda>r. rbind (read_ops write_set) (\<lambda>w. Inr \<lparr>reads = r, writes = w\<rparr>)))))"

text \<open>\<open>emplace\<close> on the resulting map keeps the entry of an identity that is already there.\<close>

fun remote_ops_loop :: "json_value list \<Rightarrow> (identity_uid_t \<times> op_set_t) list \<Rightarrow> (identity_uid_t \<times> op_set_t) list result" where
  "remote_ops_loop (a # b # c # vs) result =
     rbind (as_integer a) (\<lambda>idty. rbind (read_ops b) (\<lambda>r. rbind (read_ops c) (\<lambda>w.
       let uid = word_of_int idty
       in remote_ops_loop vs
            (if map_of result uid = None then insort_key fst (uid, \<lparr>reads = r, writes = w\<rparr>) result else result))))"
| "remote_ops_loop vs result = Inr result"

definition remote_ops :: "json_value \<Rightarrow> (identity_uid_t \<times> op_set_t) list result" where
  "remote_ops doc = rbind (value_at 4 doc) (\<lambda>ops. rbind (array_of ops) (\<lambda>vs.
     if length vs mod 3 \<noteq> 0 then Inl (RuntimeError ''Invalid data format!'') else remote_ops_loop vs []))"

definition parse_op :: "event_id_t \<Rightarrow> transaction_bounds_t \<Rightarrow> transaction_bounds_t" where
  "parse_op eid bounds =
     (case map_of bounds (ev_shard eid) of
        None \<Rightarrow> insort_key fst (ev_shard eid,
          \<lparr>start_block = ev_block eid, end_block = ev_block eid, start_index = ev_index eid, end_index = ev_index eid\<rparr>) bounds
      | Some e \<Rightarrow>
          if event_before_range eid e
          then AList.update (ev_shard eid) (e\<lparr>start_block := ev_block eid, start_index := ev_index eid\<rparr>) bounds
          else if event_after_range eid e
          then AList.update (ev_shard eid) (e\<lparr>end_block := ev_block eid, end_index := ev_index eid\<rparr>) bounds
          else bounds)"

definition tx_boundaries :: "json_value \<Rightarrow> transaction_bounds_t result" where
  "tx_boundaries doc = rbind (local_ops doc) (\<lambda>ops. Inr (fold parse_op (writes ops) (fold parse_op (reads ops) [])))"

definition order_transactions :: "json_value \<Rightarrow> json_value \<Rightarrow> OrderResult result" where
  "order_transactions first second =
     rbind (tx_boundaries first) (\<lambda>b1. rbind (tx_boundaries second) (\<lambda>b2. Inr (order_bounds b1 b2)))"

section \<open>The ledger\<close>

record tx_ledger =
  tl_blocks :: "block page_store"
  tl_pending_block_id :: page_no_t
  tl_num_pending_events :: block_index_t

definition tl_generate_block :: "tx_ledger \<Rightarrow> tx_ledger" where
  "tl_generate_block t =
     (let (page_no, st) = new_page new_block (tl_blocks t) in t\<lparr>tl_blocks := st, tl_pending_block_id := page_no\<rparr>)"

definition new_tx_ledger :: "block page_store \<Rightarrow> tx_ledger" where
  "new_tx_ledger st = tl_generate_block \<lparr>tl_blocks = st, tl_pending_block_id = INVALID_BLOCK, tl_num_pending_events = 0\<rparr>"

definition tl_get_block :: "block_id_t \<Rightarrow> tx_ledger \<Rightarrow> block result" where
  "tl_get_block identifier t = get_page identifier (tl_blocks t)"

text \<open>The loop waits until the pending block is not sealed; only another thread can bring that about.\<close>

definition tl_get_pending_block :: "tx_ledger \<Rightarrow> block result" where
  "tl_get_pending_block t =
     rbind (tl_get_block (tl_pending_block_id t) t) (\<lambda>b. if is_pending b then Inr b else Inl Blocked)"

definition tl_organize_ledger :: "tx_ledger \<Rightarrow> tx_ledger result" where
  "tl_organize_ledger t =
     rbind (tl_get_block (tl_pending_block_id t) t) (\<lambda>pending.
       if get_data_size pending < MIN_BLOCK_SIZE then Inr t
       else let t1 = tl_generate_block t
            in rbind (seal pending) (\<lambda>b. Inr (t1\<lparr>tl_blocks := put_page (tl_pending_block_id t) b (tl_blocks t1)\<rparr>)))"

definition tl_insert ::
  "value_lib \<Rightarrow> (taskid_t \<times> op_context) list \<Rightarrow> identity_uid_t \<Rightarrow> transaction_id_t \<Rightarrow> op_set_t \<Rightarrow> (identity_uid_t \<times> op_set_t) list \<Rightarrow>
     tx_ledger \<Rightarrow> (ledger_pos_t \<times> tx_ledger) result" where
  "tl_insert J op_contexts tx_root tx_id locals remotes t =
     rbind (tl_get_pending_block t) (\<lambda>b.
     rbind (block_insert (v_write J (transaction_record op_contexts tx_root tx_id locals remotes)) b) (\<lambda>(idx, b').
       let pos = \<lparr>lp_block = tl_pending_block_id t, lp_index = idx\<rparr>;
           t1 = t\<lparr>tl_blocks := put_page (tl_pending_block_id t) b' (tl_blocks t), tl_num_pending_events := idx\<rparr>
       in if MIN_BLOCK_SIZE \<le> get_data_size b' then rbind (tl_organize_ledger t1) (\<lambda>t2. Inr (pos, t2))
          else Inr (pos, t1)))"

text \<open>\<open>get\<close> gives a handle for the record; \<open>None\<close> is a document that does not parse.\<close>

definition tl_get :: "value_lib \<Rightarrow> ledger_pos_t \<Rightarrow> tx_ledger \<Rightarrow> json_value option result" where
  "tl_get J pos t = rbind (tl_get_block (lp_block pos) t) (\<lambda>b. rbind (block_get (lp_index pos) b) (\<lambda>bytes. Inr (v_parse J bytes)))"

section \<open>Reading back a record\<close>

text \<open>Event sets as the \<open>std::set\<close> of events holds them: in increasing order.\<close>

lemma event_less_trans: "event_less a b \<Longrightarrow> event_less b c \<Longrightarrow> event_less a c"
  by (auto simp: event_less_older)

lemma event_less_asym: "event_less a b \<Longrightarrow> \<not> event_less b a"
  by (auto simp: event_less_older)

lemma sset_insert_sorted: "sorted_wrt event_less es \<Longrightarrow> sorted_wrt event_less (sset_insert event_less e es)"
proof (induction es)
  case (Cons x es)
  have "event_less x y" if "y \<in> set (sset_insert event_less e es)" "event_less x e" for y
    using Cons.prems that set_sset_insert_subset [of event_less e es] by auto
  moreover have "event_less e y" if "event_less e x" "y \<in> set es" for y
    using event_less_trans [OF that(1)] Cons.prems that(2) by simp
  ultimately show ?case using Cons by simp
qed simp

lemma sset_insert_last: "sorted_wrt event_less (es @ [e]) \<Longrightarrow> sset_insert event_less e es = es @ [e]"
  by (induction es) (auto simp: sorted_wrt_append event_less_asym)

lemma read_ops_loop_written:
  "sorted_wrt event_less (acc @ es) \<Longrightarrow>
   read_ops_loop (concat (map (\<lambda>e. [VInt (uint (ev_shard e)), VInt (uint (ev_block e)), VInt (uint (ev_index e))]) es)) acc = Inr (acc @ es)"
proof (induction es arbitrary: acc)
  case (Cons e es)
  have "mk_event_id (ev_shard e) (ev_block e) (ev_index e) = e" by (simp add: mk_event_id_def)
  moreover have "sset_insert event_less e acc = acc @ [e]"
    using Cons.prems by (intro sset_insert_last) (simp add: sorted_wrt_append)
  ultimately show ?case using Cons by (simp add: as_integer_def)
qed simp

lemma read_ops_written: "sorted_wrt event_less es \<Longrightarrow> read_ops (write_event_ids es) = Inr es"
proof -
  have "length (concat (map (\<lambda>e. [f e, g e, h e]) es)) mod 3 = 0" for f g h :: "event_id_t \<Rightarrow> json_value"
    by (induction es) simp_all
  then show "sorted_wrt event_less es \<Longrightarrow> read_ops (write_event_ids es) = Inr es"
    using read_ops_loop_written [of "[]" es] by (simp add: read_ops_def write_event_ids_def array_of_def)
qed

definition event_sets :: "op_set_t \<Rightarrow> bool" where
  "event_sets ops \<longleftrightarrow> sorted_wrt event_less (reads ops) \<and> sorted_wrt event_less (writes ops)"

lemma insort_last: "sorted_wrt (<) (map fst (xs @ [x])) \<Longrightarrow> insort_key fst x xs = xs @ [(x :: 'a::linorder \<times> 'b)]"
proof (induction xs)
  case (Cons y xs)
  then have "fst y < fst x" by simp
  then show ?case using Cons by auto
qed simp

lemma map_of_unused: "x \<notin> set (map fst xs) \<Longrightarrow> map_of xs x = None"
  by (simp add: map_of_eq_None_iff)

lemma remote_ops_loop_written:
  "sorted_wrt (<) (map fst (acc @ rs)) \<Longrightarrow> (\<forall>(u, ops)\<in>set rs. event_sets ops) \<Longrightarrow>
   remote_ops_loop (concat (map (\<lambda>(idty, ops). VInt (uint idty) # write_op_set ops) rs)) acc = Inr (acc @ rs)"
proof (induction rs arbitrary: acc)
  case (Cons r rs)
  obtain u rd wr where r: "r = (u, \<lparr>reads = rd, writes = wr\<rparr>)" by (cases r, cases "snd r") auto
  have "map_of acc u = None" using Cons.prems(1) r by (intro map_of_unused) (auto simp: sorted_wrt_append)
  moreover have "insort_key fst r acc = acc @ [r]" using Cons.prems(1) by (intro insort_last) (simp add: sorted_wrt_append)
  moreover have "read_ops (write_event_ids rd) = Inr rd" "read_ops (write_event_ids wr) = Inr wr"
    using Cons.prems(2) r by (auto simp: event_sets_def intro: read_ops_written)
  ultimately show ?case using Cons r by (simp add: write_op_set_def as_integer_def)
qed simp

lemma map_of_contexts:
  "map_of (map (\<lambda>(task, ctx). (to_string_nat (unat task), VString (context_to_string ctx))) cs) (to_string_nat (unat task)) =
   map_option (\<lambda>ctx. VString (context_to_string ctx)) (map_of cs task)"
  for task :: taskid_t
  by (induction cs) (auto simp: unsigned_word_eqI word_unat_eq_iff)

record tx_entry =
  te_contexts :: "(taskid_t \<times> op_context) list"
  te_root :: identity_uid_t
  te_id :: transaction_id_t
  te_local :: op_set_t
  te_remote :: "(identity_uid_t \<times> op_set_t) list"

abbreviation entry_record :: "tx_entry \<Rightarrow> json_value" where
  "entry_record e \<equiv> transaction_record (te_contexts e) (te_root e) (te_id e) (te_local e) (te_remote e)"

text \<open>What the containers of the code guarantee: sets and maps are in order.\<close>

definition entry_ok :: "tx_entry \<Rightarrow> bool" where
  "entry_ok e \<longleftrightarrow> event_sets (te_local e) \<and> sorted_wrt (<) (map fst (te_remote e)) \<and> (\<forall>(u, ops)\<in>set (te_remote e). event_sets ops)"

definition reads_as :: "json_value \<Rightarrow> tx_entry \<Rightarrow> bool" where
  "reads_as doc e \<longleftrightarrow>
     transaction_root doc = Inr (te_root e) \<and> transaction_id doc = Inr (te_id e) \<and> local_ops doc = Inr (te_local e) \<and>
     remote_ops doc = Inr (te_remote e) \<and>
     (\<forall>task ctx. map_of (te_contexts e) task = Some ctx \<longrightarrow> tx_op_context task doc = Inr (context_to_string ctx))"

lemma record_reads_as:
  assumes "entry_ok e"
  shows "reads_as (entry_record e) e"
proof -
  have "remote_ops_loop (concat (map (\<lambda>(idty, ops). VInt (uint idty) # write_op_set ops) (te_remote e))) [] = Inr (te_remote e)"
    using assms remote_ops_loop_written [of "[]" "te_remote e"] by (simp add: entry_ok_def)
  moreover have "length (concat (map (\<lambda>(idty, ops). VInt (uint idty) # write_op_set ops) rs)) mod 3 = 0" for rs
    by (induction rs) (auto simp: write_op_set_def)
  ultimately show ?thesis
    using assms read_ops_written
    by (simp add: reads_as_def entry_ok_def event_sets_def transaction_record_def transaction_root_def transaction_id_def local_ops_def
        remote_ops_def tx_op_context_def value_at_def value_field_def as_integer_def as_string_def array_of_def write_op_set_def map_of_contexts)
qed

section \<open>The ledger keeps its records\<close>

definition tl_wf :: "tx_ledger \<Rightarrow> bool" where
  "tl_wf t \<longleftrightarrow>
     store_wf (tl_blocks t) \<and> (\<forall>p b. pages (tl_blocks t) p = Some b \<longrightarrow> (\<exists>es. block_inv b es)) \<and>
     (\<exists>b. pages (tl_blocks t) (tl_pending_block_id t) = Some b \<and> is_pending b \<and> get_data_size b < MIN_BLOCK_SIZE)"

definition tl_stored :: "value_lib \<Rightarrow> tx_ledger \<Rightarrow> ledger_pos_t \<Rightarrow> json_value \<Rightarrow> bool" where
  "tl_stored J t pos v \<longleftrightarrow>
     (\<exists>b es. pages (tl_blocks t) (lp_block pos) = Some b \<and> block_inv b es \<and> unat (lp_index pos) < length es \<and>
        es ! unat (lp_index pos) = v_write J v)"

definition value_roundtrip :: "value_lib \<Rightarrow> bool" where
  "value_roundtrip J \<longleftrightarrow> (\<forall>v. v_parse J (v_write J v) = Some v)"

lemma tl_stored_get:
  assumes "tl_wf t" and "value_roundtrip J" and "tl_stored J t pos v"
  shows "tl_get J pos t = Inr (Some v)"
proof -
  obtain b es where b: "pages (tl_blocks t) (lp_block pos) = Some b" "block_inv b es" "unat (lp_index pos) < length es"
    "es ! unat (lp_index pos) = v_write J v"
    using assms(3) by (auto simp: tl_stored_def)
  have "lp_block pos \<noteq> INVALID_PAGE_NO" using page_valid [of "tl_blocks t" "lp_block pos" b] b(1) assms(1) by (simp add: tl_wf_def)
  then show ?thesis
    using b block_get_present [OF b(2,3)] assms(2) by (simp add: tl_get_def tl_get_block_def get_page_def value_roundtrip_def)
qed

text \<open>Replacing a page by one that holds the same entries and possibly more.\<close>

lemma tl_stored_put:
  assumes st: "tl_stored J t pos v" and b: "pages (tl_blocks t) p = Some b" "block_inv b es" and b': "block_inv b' (es @ ds)"
    and t': "pages (tl_blocks t') = (pages (tl_blocks t))(p \<mapsto> b')"
  shows "tl_stored J t' pos v"
proof (cases "lp_block pos = p")
  case True
  obtain es' where "block_inv b es'" "unat (lp_index pos) < length es'" "es' ! unat (lp_index pos) = v_write J v"
    using st b(1) True by (auto simp: tl_stored_def)
  moreover have "es' = es" using block_inv_unique [OF \<open>block_inv b es'\<close> b(2)] .
  ultimately show ?thesis using b' t' True unfolding tl_stored_def by (auto simp: nth_append intro!: exI [of _ "es @ ds"])
qed (use st t' in \<open>auto simp: tl_stored_def\<close>)

lemma tl_stored_new_page:
  assumes "tl_stored J t pos v" and "tl_wf t" and "tl_blocks t' = snd (new_page new_block (tl_blocks t))"
  shows "tl_stored J t' pos v"
proof -
  have "lp_block pos \<noteq> m_next_page_no (tl_blocks t)"
    using assms(1,2) next_fresh [of "tl_blocks t"] by (auto simp: tl_stored_def tl_wf_def)
  then show ?thesis using assms(1,3) by (auto simp: tl_stored_def new_page_def)
qed

lemma tl_put_wf:
  assumes "tl_wf t" and "pages (tl_blocks t) (tl_pending_block_id t) = Some b" and "block_inv b' es"
  shows "store_wf (put_page (tl_pending_block_id t) b' (tl_blocks t))"
    and "pages (put_page (tl_pending_block_id t) b' (tl_blocks t)) p = Some d \<Longrightarrow> \<exists>es. block_inv d es"
  using assms store_wf_put_page [of "tl_blocks t" "tl_pending_block_id t" b'] by (auto simp: tl_wf_def split: if_splits)

lemma block_pos_valid: "tl_wf t \<Longrightarrow> pages (tl_blocks t) p = Some b \<Longrightarrow> p \<noteq> INVALID_PAGE_NO"
  using page_valid [of "tl_blocks t" p b] by (simp add: tl_wf_def)

lemma tl_organize_correct:
  assumes wf: "store_wf (tl_blocks t)" "\<And>p b. pages (tl_blocks t) p = Some b \<Longrightarrow> \<exists>es. block_inv b es"
    and b: "pages (tl_blocks t) (tl_pending_block_id t) = Some b" "is_pending b" "MIN_BLOCK_SIZE \<le> get_data_size b"
    and alloc: "can_allocate (tl_blocks t)"
  obtains t' where "tl_organize_ledger t = Inr t'" "tl_wf t'" "\<And>pos v. tl_stored J t pos v \<Longrightarrow> tl_stored J t' pos v"
    "unat (m_next_page_no (tl_blocks t')) \<le> unat (m_next_page_no (tl_blocks t)) + 1"
proof -
  let ?p = "tl_pending_block_id t" and ?n = "m_next_page_no (tl_blocks t)" and ?s = "b\<lparr>bl_sealed := True\<rparr>"
  define t1 where "t1 = tl_generate_block t"
  define t' where "t' = t1\<lparr>tl_blocks := put_page ?p ?s (tl_blocks t1)\<rparr>"
  have fresh: "?p \<noteq> ?n" using b(1) next_fresh [OF wf(1)] by auto
  have valid: "?p \<noteq> INVALID_PAGE_NO" using page_valid [OF wf(1) b(1)] .
  obtain es where es: "block_inv b es" using wf(2) [OF b(1)] by blast
  then have es': "block_inv ?s es" by (simp add: block_inv_def)
  have pages': "pages (tl_blocks t') = (pages (tl_blocks t))(?n \<mapsto> new_block, ?p \<mapsto> ?s)" "tl_pending_block_id t' = ?n"
    "m_next_page_no (tl_blocks t') = ?n + 1"
    by (simp_all add: t'_def t1_def tl_generate_block_def new_page_def)
  have store: "store_wf (tl_blocks t')"
    using store_wf_put_page [OF store_wf_new_page [OF wf(1) alloc], of ?p new_block ?s] b(1) fresh
    by (auto simp: t'_def t1_def tl_generate_block_def new_page_def)
  have "get_data_size new_block < MIN_BLOCK_SIZE" "is_pending new_block"
    by (simp_all add: get_data_size_def data_pos_def index_size_def new_block_def HEADER_SIZE_def ENTRY_SIZE_def MIN_BLOCK_SIZE_def is_pending_def)
  then have "tl_wf t'"
    using store pages' wf(2) es' new_block_inv fresh unfolding tl_wf_def by (auto split: if_splits)
  moreover have "tl_stored J t' pos v" if "tl_stored J t pos v" for pos v
  proof -
    have "tl_stored J t1 pos v"
      using that next_fresh [OF wf(1)] by (auto simp: tl_stored_def t1_def tl_generate_block_def new_page_def)
    moreover have "pages (tl_blocks t1) ?p = Some b" using b(1) fresh by (simp add: t1_def tl_generate_block_def new_page_def)
    ultimately show ?thesis using es es' by (rule_tac tl_stored_put [where ds = "[]"]) (simp_all add: t'_def)
  qed
  moreover have "tl_organize_ledger t = Inr t'"
    using b valid by (simp add: tl_organize_ledger_def tl_get_block_def get_page_def Let_def seal_def is_pending_def t'_def t1_def)
  moreover have "unat (?n + 1) \<le> unat ?n + 1" by (simp add: unat_word_ariths)
  ultimately show ?thesis using that pages'(3) by simp
qed

lemma tl_insert_correct:
  assumes wf: "tl_wf t" and alloc: "can_allocate (tl_blocks t)" and fits: "length (v_write J (entry_record e)) < 2 ^ 31"
  obtains pos t' where "tl_insert J (te_contexts e) (te_root e) (te_id e) (te_local e) (te_remote e) t = Inr (pos, t')" "tl_wf t'"
    "tl_stored J t' pos (entry_record e)" "\<And>pos v. tl_stored J t pos v \<Longrightarrow> tl_stored J t' pos v"
    "unat (m_next_page_no (tl_blocks t')) \<le> unat (m_next_page_no (tl_blocks t)) + 1"
proof -
  let ?p = "tl_pending_block_id t" and ?d = "v_write J (entry_record e)"
  obtain b where b: "pages (tl_blocks t) ?p = Some b" "is_pending b" "get_data_size b < MIN_BLOCK_SIZE" using wf by (auto simp: tl_wf_def)
  obtain es where es: "block_inv b es" using wf b(1) by (auto simp: tl_wf_def)
  have "4 * unat (bl_num_files b) + length (concat es) < 5120"
    using b(3) es by (simp add: get_data_size_def data_pos_def index_size_def ENTRY_SIZE_def HEADER_SIZE_def MIN_BLOCK_SIZE_def block_inv_def)
  then have room: "length es + 51 < 2 ^ 16" "entry_offset (es @ [?d]) (Suc (length es)) < DATA_LIMIT"
    using es fits by (simp_all add: block_inv_def entry_offset_def HEADER_SIZE_def DATA_LIMIT_def)
  have unsealed: "\<not> bl_sealed b" using b(2) by (simp add: is_pending_def)
  obtain i b' where ins: "block_insert ?d b = Inr (i, b')" "unat i = length es" "block_inv b' (es @ [?d])" "\<not> bl_sealed b'"
    by (rule block_insert_step [OF es unsealed room])
  define t1 where "t1 = t\<lparr>tl_blocks := put_page ?p b' (tl_blocks t), tl_num_pending_events := i\<rparr>"
  let ?pos = "\<lparr>lp_block = ?p, lp_index = i\<rparr>"
  have valid: "?p \<noteq> INVALID_PAGE_NO" by (rule block_pos_valid [OF wf b(1)])
  have run: "tl_insert J (te_contexts e) (te_root e) (te_id e) (te_local e) (te_remote e) t =
      (if MIN_BLOCK_SIZE \<le> get_data_size b' then rbind (tl_organize_ledger t1) (\<lambda>t2. Inr (?pos, t2)) else Inr (?pos, t1))"
    using b valid ins(1) by (simp add: tl_insert_def tl_get_pending_block_def tl_get_block_def get_page_def Let_def t1_def)
  have stored: "tl_stored J t1 ?pos (entry_record e)" using ins(2,3) by (auto simp: tl_stored_def t1_def)
  have keeps: "tl_stored J t1 pos v" if "tl_stored J t pos v" for pos v
    by (rule tl_stored_put [OF that b(1) es ins(3)]) (simp add: t1_def)
  have t1: "tl_pending_block_id t1 = ?p" "tl_blocks t1 = put_page ?p b' (tl_blocks t)" by (simp_all add: t1_def)
  note wf1 = tl_put_wf [OF wf b(1) ins(3), folded t1(2)]
  show ?thesis
  proof (cases "MIN_BLOCK_SIZE \<le> get_data_size b'")
    case True
    have alloc1: "can_allocate (tl_blocks t1)" using alloc by (simp add: t1(2) can_allocate_def)
    have b1: "pages (tl_blocks t1) (tl_pending_block_id t1) = Some b'" "is_pending b'" using ins(4) by (simp_all add: t1 is_pending_def)
    obtain t' where "tl_organize_ledger t1 = Inr t'" "tl_wf t'" "\<And>pos v. tl_stored J t1 pos v \<Longrightarrow> tl_stored J t' pos v"
      "unat (m_next_page_no (tl_blocks t')) \<le> unat (m_next_page_no (tl_blocks t1)) + 1"
      using tl_organize_correct [OF wf1(1) _ b1 True alloc1, of J] wf1(2) by blast
    then show ?thesis using that [of ?pos t'] run True stored keeps t1(2) by simp
  next
    case False
    then have "tl_wf t1" using wf1 ins(4) t1 unfolding tl_wf_def is_pending_def by auto
    then show ?thesis using that [of ?pos t1] run False stored keeps t1(2) by simp
  qed
qed

definition tl_step :: "value_lib \<Rightarrow> tx_entry \<Rightarrow> tx_ledger \<Rightarrow> (ledger_pos_t \<times> tx_ledger) result" where
  "tl_step J e t = tl_insert J (te_contexts e) (te_root e) (te_id e) (te_local e) (te_remote e) t"

lemma run_inserts:
  "tl_wf t \<Longrightarrow> unat (m_next_page_no (tl_blocks t)) + length entries < 2 ^ 32 \<Longrightarrow>
   (\<forall>e\<in>set entries. length (v_write J (entry_record e)) < 2 ^ 31) \<Longrightarrow>
   \<exists>ps t'. run_steps (tl_step J) entries t = Inr (ps, t') \<and> tl_wf t' \<and> length ps = length entries \<and>
     (\<forall>pos v. tl_stored J t pos v \<longrightarrow> tl_stored J t' pos v) \<and>
     (\<forall>i<length entries. tl_stored J t' (ps ! i) (entry_record (entries ! i)))"
proof (induction entries arbitrary: t)
  case (Cons e entries)
  have alloc: "can_allocate (tl_blocks t)" using Cons.prems(2) by (simp add: can_allocate_def word_less_nat_alt)
  obtain pos t1 where ins: "tl_insert J (te_contexts e) (te_root e) (te_id e) (te_local e) (te_remote e) t = Inr (pos, t1)" "tl_wf t1"
    "tl_stored J t1 pos (entry_record e)" "\<And>pos v. tl_stored J t pos v \<Longrightarrow> tl_stored J t1 pos v"
    "unat (m_next_page_no (tl_blocks t1)) \<le> unat (m_next_page_no (tl_blocks t)) + 1"
    using tl_insert_correct [OF Cons.prems(1) alloc, of J e] Cons.prems(3) by auto
  obtain ps t' where "run_steps (tl_step J) entries t1 = Inr (ps, t')" "tl_wf t'" "length ps = length entries"
    "\<forall>pos v. tl_stored J t1 pos v \<longrightarrow> tl_stored J t' pos v"
    "\<forall>i<length entries. tl_stored J t' (ps ! i) (entry_record (entries ! i))"
    using Cons.IH [OF ins(2)] Cons.prems(2,3) ins(5) by auto
  moreover have "tl_step J e t = Inr (pos, t1)" using ins(1) by (simp add: tl_step_def)
  ultimately show ?case using ins(3,4) by (auto simp: nth_Cons intro!: exI [of _ "pos # ps"] split: nat.splits)
qed simp

lemma new_tx_ledger_wf:
  assumes "store_wf st" and "can_allocate st" and "\<And>p b. pages st p = Some b \<Longrightarrow> \<exists>es. block_inv b es"
  shows "tl_wf (new_tx_ledger st)"
proof -
  have "get_data_size new_block < MIN_BLOCK_SIZE" "is_pending new_block"
    by (simp_all add: get_data_size_def data_pos_def index_size_def new_block_def HEADER_SIZE_def ENTRY_SIZE_def MIN_BLOCK_SIZE_def is_pending_def)
  then show ?thesis
    using store_wf_new_page [OF assms(1,2), of new_block] assms(3) new_block_inv
    by (auto simp: tl_wf_def new_tx_ledger_def tl_generate_block_def new_page_def split: if_splits)
qed

section \<open>The bounds of a transaction\<close>

text \<open>\<open>covers_events es bounds\<close>: there is a range for exactly the shards of the events, and it reaches from the first to the last of them.\<close>

definition covers_events :: "event_id_t set \<Rightarrow> transaction_bounds_t \<Rightarrow> bool" where
  "covers_events es bounds \<longleftrightarrow>
     (\<forall>e\<in>es. \<exists>r. map_of bounds (ev_shard e) = Some r \<and> in_range e r) \<and>
     (\<forall>s r. map_of bounds s = Some r \<longrightarrow>
        mk_event_id s (start_block r) (start_index r) \<in> es \<and> mk_event_id s (end_block r) (end_index r) \<in> es)"

lemma map_of_insort:
  "map_of xs k = None \<Longrightarrow> map_of (insort_key fst (k, v) xs) = (map_of xs)(k \<mapsto> v)"
  for k :: "'a::linorder"
  by (induction xs) (auto simp: fun_eq_iff split: if_splits)

lemma in_range_trans:
  "in_range e r \<Longrightarrow> event_before_range e' r \<Longrightarrow> in_range e (r\<lparr>start_block := ev_block e', start_index := ev_index e'\<rparr>)"
  "in_range e r \<Longrightarrow> event_after_range e' r \<Longrightarrow> in_range e (r\<lparr>end_block := ev_block e', end_index := ev_index e'\<rparr>)"
  by (auto simp: in_range_def event_before_range_def event_after_range_def split: if_splits)

lemma in_range_new:
  "in_range (mk_event_id s (end_block r) (end_index r)) r \<Longrightarrow> event_before_range e r \<Longrightarrow>
   in_range e (r\<lparr>start_block := ev_block e, start_index := ev_index e\<rparr>)"
  "in_range (mk_event_id s (start_block r) (start_index r)) r \<Longrightarrow> event_after_range e r \<Longrightarrow>
   in_range e (r\<lparr>end_block := ev_block e, end_index := ev_index e\<rparr>)"
  by (auto simp: in_range_def event_before_range_def event_after_range_def mk_event_id_def split: if_splits)

lemma parse_op_covers:
  assumes cov: "covers_events es bounds"
  shows "covers_events (insert e es) (parse_op e bounds)"
proof (cases "map_of bounds (ev_shard e)")
  case None
  let ?r = "\<lparr>start_block = ev_block e, end_block = ev_block e, start_index = ev_index e, end_index = ev_index e\<rparr>"
  have "map_of (parse_op e bounds) = (map_of bounds)(ev_shard e \<mapsto> ?r)" using None by (simp add: parse_op_def map_of_insort)
  moreover have "in_range e ?r" by (simp add: in_range_def event_before_range_def event_after_range_def)
  moreover have "mk_event_id (ev_shard e) (ev_block e) (ev_index e) = e" by (simp add: mk_event_id_def)
  moreover have "ev_shard e' \<noteq> ev_shard e" if "e' \<in> es" for e' using cov that None by (auto simp: covers_events_def)
  ultimately show ?thesis using cov unfolding covers_events_def by auto
next
  case (Some r)
  have ends: "mk_event_id (ev_shard e) (start_block r) (start_index r) \<in> es" "mk_event_id (ev_shard e) (end_block r) (end_index r) \<in> es"
    using cov Some by (auto simp: covers_events_def)
  have inr: "in_range e' r" if "e' \<in> es" "ev_shard e' = ev_shard e" for e'
    using cov that Some unfolding covers_events_def by fastforce
  have ends': "in_range (mk_event_id (ev_shard e) (start_block r) (start_index r)) r" "in_range (mk_event_id (ev_shard e) (end_block r) (end_index r)) r"
    using inr ends by (simp_all add: mk_event_id_def)
  obtain r' where r': "map_of (parse_op e bounds) = (map_of bounds)(ev_shard e \<mapsto> r')" "in_range e r'"
    "\<And>e'. in_range e' r \<Longrightarrow> in_range e' r'"
    "mk_event_id (ev_shard e) (start_block r') (start_index r') \<in> insert e es" "mk_event_id (ev_shard e) (end_block r') (end_index r') \<in> insert e es"
  proof -
    have e: "mk_event_id (ev_shard e) (ev_block e) (ev_index e) = e" by (simp add: mk_event_id_def)
    consider "event_before_range e r" | "\<not> event_before_range e r" "event_after_range e r" | "in_range e r"
      by (auto simp: in_range_def)
    then show ?thesis
    proof cases
      case 1
      then show ?thesis
        using that [of "r\<lparr>start_block := ev_block e, start_index := ev_index e\<rparr>"] Some in_range_new(1) [OF ends'(2)] in_range_trans(1) ends e
        by (simp add: parse_op_def update_conv')
    next
      case 2
      then show ?thesis
        using that [of "r\<lparr>end_block := ev_block e, end_index := ev_index e\<rparr>"] Some in_range_new(2) [OF ends'(1)] in_range_trans(2) ends e
        by (simp add: parse_op_def update_conv')
    next
      case 3
      then have "parse_op e bounds = bounds" using Some by (simp add: parse_op_def in_range_def)
      then show ?thesis using that [of r] 3 Some ends by (simp add: fun_upd_idem)
    qed
  qed
  have "\<exists>r. map_of (parse_op e bounds) (ev_shard e') = Some r \<and> in_range e' r" if "e' \<in> insert e es" for e'
    using that r' inr cov unfolding covers_events_def r'(1) by (cases "ev_shard e' = ev_shard e") auto
  then show ?thesis using r'(4,5) cov unfolding covers_events_def r'(1) by auto
qed

lemma fold_parse_op_covers: "covers_events S bounds \<Longrightarrow> covers_events (S \<union> set es) (fold parse_op es bounds)"
proof (induction es arbitrary: S bounds)
  case (Cons e es)
  show ?case using Cons.IH [OF parse_op_covers [OF Cons.prems, of e]] by simp
qed simp

section \<open>An instance of the encoding\<close>

text \<open>Trees in postfix order, one zero-terminated token per node.\<close>

fun value_tokens :: "json_value \<Rightarrow> u8 list list" where
  "value_tokens (VInt i) = [if 0 \<le> i then 1 # decimal_bytes (nat i) else 2 # decimal_bytes (nat (- i))]"
| "value_tokens (VString s) = [3 # concat (map char_bytes s)]"
| "value_tokens (VArray vs) = concat (map value_tokens vs) @ [5 # decimal_bytes (length vs)]"
| "value_tokens (VMap es) =
     concat (map (\<lambda>(k, v). value_tokens v @ [3 # concat (map char_bytes k)]) es) @ [6 # decimal_bytes (length es)]"

fun pair_up :: "json_value list \<Rightarrow> (string \<times> json_value) list" where
  "pair_up (VString k # v # vs) = pair_up vs @ [(k, v)]"
| "pair_up _ = []"

fun read_token :: "u8 list \<Rightarrow> json_value list \<Rightarrow> json_value list" where
  "read_token [] st = st"
| "read_token (t # bs) st =
     (if t = 1 then VInt (int (bytes_decimal bs)) # st else if t = 2 then VInt (- int (bytes_decimal bs)) # st
      else if t = 3 then VString (bytes_chars bs) # st
      else if t = 5 then VArray (rev (take (bytes_decimal bs) st)) # drop (bytes_decimal bs) st
      else VMap (pair_up (take (2 * bytes_decimal bs) st)) # drop (2 * bytes_decimal bs) st)"

definition token_lib :: value_lib where
  "token_lib = \<lparr>v_write = (\<lambda>v. concat (map (\<lambda>t. t @ [0]) (value_tokens v))),
     v_parse = (\<lambda>bs. case fold read_token (split_tokens [] bs) [] of [v] \<Rightarrow> Some v | _ \<Rightarrow> None)\<rparr>"

lemma read_value_tokens: "fold read_token (value_tokens v) st = v # st"
proof (induction v arbitrary: st)
  case (VArray vs)
  have "fold read_token (concat (map value_tokens vs)) st = rev vs @ st"
    using VArray by (induction vs arbitrary: st) simp_all
  then show ?case by (simp add: bytes_decimal_inverse)
next
  case (VMap es)
  let ?f = "\<lambda>(k, v). value_tokens v @ [3 # concat (map char_bytes k)]"
  have "\<forall>(k, v)\<in>set es. \<forall>st. fold read_token (value_tokens v) st = v # st" using VMap by fastforce
  then have "fold read_token (concat (map ?f es)) st = concat (map (\<lambda>(k, v). [VString k, v]) (rev es)) @ st"
    by (induction es arbitrary: st) (auto simp: bytes_chars_inverse)
  moreover have "pair_up (concat (map (\<lambda>(k, v). [VString k, v]) (rev es))) = es"
    by (induction es rule: rev_induct) auto
  moreover have "length (concat (map (\<lambda>(k, v). [VString k, v]) (rev es))) = 2 * length es" by (induction es) auto
  ultimately show ?case by (simp add: bytes_decimal_inverse)
qed (simp_all add: bytes_decimal_inverse bytes_chars_inverse)

lemma value_tokens_no_zero: "t \<in> set (value_tokens v) \<Longrightarrow> 0 \<notin> set t"
  by (induction v) (auto simp: decimal_no_zero char_bytes_no_zero split: if_splits, blast)

lemma split_tokens_concat: "(\<forall>t\<in>set ts. 0 \<notin> set t) \<Longrightarrow> split_tokens [] (concat (map (\<lambda>t. t @ [0]) ts)) = ts"
  by (induction ts) (simp_all add: split_tokens_app)

lemma token_lib_roundtrip: "value_roundtrip token_lib"
  by (simp add: value_roundtrip_def token_lib_def split_tokens_concat value_tokens_no_zero read_value_tokens)

section \<open>Properties\<close>

text \<open>
  Property C30. The transaction ledger gives back what was recorded: after any sequence of insertions into
  a new ledger, each of which returns a position, reading at any of these positions gives a record whose
  root, identifier, local and remote read and write sets and contexts are those inserted there, whichever
  blocks were closed in between.
\<close>

theorem transaction_ledger_round_trip:
  assumes "value_roundtrip J" and "store_wf st" and "\<forall>p b. pages st p = Some b \<longrightarrow> (\<exists>es. block_inv b es)"
    and "unat (m_next_page_no st) + length entries + 2 < 2 ^ 32"
    and "\<forall>e\<in>set entries. entry_ok e \<and> length (v_write J (entry_record e)) < 2 ^ 31"
  shows "\<exists>ps t. run_steps (tl_step J) entries (new_tx_ledger st) = Inr (ps, t) \<and> length ps = length entries \<and>
    (\<forall>i<length entries. \<exists>doc. tl_get J (ps ! i) t = Inr (Some doc) \<and> reads_as doc (entries ! i))"
proof -
  have alloc: "can_allocate st" using assms(4) by (simp add: can_allocate_def word_less_nat_alt)
  have wf: "tl_wf (new_tx_ledger st)" using new_tx_ledger_wf [OF assms(2) alloc] assms(3) by blast
  have "unat (m_next_page_no (tl_blocks (new_tx_ledger st))) = unat (m_next_page_no st) + 1"
    using assms(4) by (simp add: new_tx_ledger_def tl_generate_block_def new_page_def unat_word_ariths)
  then obtain ps t where run: "run_steps (tl_step J) entries (new_tx_ledger st) = Inr (ps, t)" "length ps = length entries"
    and t: "tl_wf t" "\<forall>i<length entries. tl_stored J t (ps ! i) (entry_record (entries ! i))"
    using run_inserts [OF wf, of entries J] assms(4,5) by auto
  have "\<exists>doc. tl_get J (ps ! i) t = Inr (Some doc) \<and> reads_as doc (entries ! i)" if "i < length entries" for i
    using tl_stored_get [OF t(1) assms(1)] t(2) that record_reads_as assms(5) nth_mem [OF that] by blast
  then show ?thesis using run by blast
qed

definition example_entry :: tx_entry where
  "example_entry = \<lparr>te_contexts = [(3, \<lparr>oc_identity = \<lparr>id_type = Client, id_name = ''alice''\<rparr>, oc_program = []\<rparr>)], te_root = 7, te_id = 1,
     te_local = \<lparr>reads = [mk_event_id 2 1 0], writes = [mk_event_id 2 1 1, mk_event_id 2 1 2]\<rparr>, te_remote = [(9, \<lparr>reads = [], writes = []\<rparr>)]\<rparr>"

lemma example_entry_ok: "entry_ok example_entry" "length (v_write token_lib (entry_record example_entry)) < 2 ^ 31"
  by (simp_all add: entry_ok_def example_entry_def event_sets_def event_less_older mk_event_id_def transaction_record_def write_op_set_def
      write_event_ids_def token_lib_def decimal_bytes_def to_string_nat.simps char_bytes_def context_to_string_def called_by_program_def
      identity_to_string_def)

theorem transaction_ledger_round_trip_witness:
  "\<exists>ps t doc. run_steps (tl_step token_lib) [example_entry, example_entry] (new_tx_ledger \<lparr>pages = (\<lambda>_. None), m_next_page_no = 1\<rparr>) = Inr (ps, t) \<and>
     tl_get token_lib (ps ! 1) t = Inr (Some doc) \<and> transaction_root doc = Inr 7 \<and>
     local_ops doc = Inr \<lparr>reads = [mk_event_id 2 1 0], writes = [mk_event_id 2 1 1, mk_event_id 2 1 2]\<rparr>"
proof -
  have "store_wf (\<lparr>pages = (\<lambda>_. None), m_next_page_no = 1\<rparr> :: block page_store)" by (simp add: store_wf_def)
  note trip = transaction_ledger_round_trip [OF token_lib_roundtrip this, of "[example_entry, example_entry]"]
  have "\<forall>e\<in>set [example_entry, example_entry]. entry_ok e \<and> length (v_write token_lib (entry_record e)) < 2 ^ 31"
    using example_entry_ok by simp
  then obtain ps t where run: "run_steps (tl_step token_lib) [example_entry, example_entry] (new_tx_ledger \<lparr>pages = (\<lambda>_. None), m_next_page_no = 1\<rparr>) = Inr (ps, t)"
    and docs: "\<forall>i<length [example_entry, example_entry]. \<exists>doc. tl_get token_lib (ps ! i) t = Inr (Some doc) \<and>
      reads_as doc ([example_entry, example_entry] ! i)"
    using trip by (simp del: run_steps.simps) blast
  obtain doc where "tl_get token_lib (ps ! 1) t = Inr (Some doc)" "reads_as doc example_entry" using docs [rule_format, of 1] by auto
  moreover have "te_root example_entry = 7" "te_local example_entry = \<lparr>reads = [mk_event_id 2 1 0], writes = [mk_event_id 2 1 1, mk_event_id 2 1 2]\<rparr>"
    by (simp_all add: example_entry_def)
  ultimately show ?thesis using run unfolding reads_as_def by metis
qed

text \<open>
  Property C40. The bounds of a committed transaction are exact: there is a range for every shard in which the
  transaction read or wrote, every one of its local events lies in the range of its shard, and both ends of
  every range are events of the transaction.
\<close>

theorem transaction_bounds_exact:
  assumes "entry_ok e"
  shows "\<exists>bounds. tx_boundaries (entry_record e) = Inr bounds \<and>
    covers_events (set (reads (te_local e)) \<union> set (writes (te_local e))) bounds"
proof -
  have "local_ops (entry_record e) = Inr (te_local e)" using record_reads_as [OF assms] by (simp add: reads_as_def)
  moreover have "covers_events ({} \<union> set (reads (te_local e)) \<union> set (writes (te_local e)))
      (fold parse_op (writes (te_local e)) (fold parse_op (reads (te_local e)) []))"
    by (intro fold_parse_op_covers) (simp add: covers_events_def)
  ultimately show ?thesis by (simp add: tx_boundaries_def)
qed

theorem transaction_bounds_exact_witness:
  "\<exists>bounds. tx_boundaries (entry_record example_entry) = Inr bounds \<and>
    covers_events {mk_event_id 2 1 0, mk_event_id 2 1 1, mk_event_id 2 1 2} bounds"
  using transaction_bounds_exact [OF example_entry_ok(1)] by (simp add: example_entry_def insert_commute)

end
