(* ===== verification/Transaction.thy ===== *)
theory Transaction
  imports Ledger_Query Transaction_Ledger Lock_Handle Witness
begin

text \<open>
  Transactions (\<open>src/src/enclave/Transaction.{h,cpp}\<close>, \<open>op_info.{h,cpp}\<close>, \<open>TransactionManager.{h,cpp}\<close>):
  the operations a client has executed, their validation when the transaction is prepared, and the
  writes of the commit. A transaction holds a root lock handle of its own; the locks that the ledger
  operations take through it in addition are not part of the ledger model.
\<close>

section \<open>State\<close>

datatype IsolationLevel = ReadCommitted | RepeatableRead | Serializable

datatype TransactionState = Pending | Prepared | Committed | Aborted

datatype 'd operation_info_t =
    check_obj_info_t (op_task: taskid_t) (op_collection: string) string 'd bool
  | has_obj_info_t (op_task: taskid_t) (op_collection: string) string bool
  | get_info_t (op_task: taskid_t) (op_collection: string) string event_id_t
  | put_info_t (op_task: taskid_t) (op_collection: string) string 'd
  | add_info_t (op_task: taskid_t) (op_collection: string) string 'd
  | remove_info_t (op_task: taskid_t) (op_collection: string) string
  | find_info_t (op_task: taskid_t) (op_collection: string) 'd "string list" int "(string \<times> event_id_t) list"

text \<open>One element of the array of operations in the witness of a transaction.\<close>

datatype 'd op_witness =
    HasObjectEntry string bool
  | GetObjectEntry string event_id_t 'd
  | PutObjectEntry string string event_id_t 'd
  | AddObjectEntry string event_id_t 'd
  | RemoveObjectEntry string event_id_t
  | FindObjectsEntry string 'd "string list" int "(string \<times> event_id_t \<times> 'd) list"

record 'd transaction =
  m_isolation :: IsolationLevel
  m_op_contexts :: "(taskid_t \<times> op_context) list"
  m_lock_handle :: nat
  m_shard_lock_types :: "(shard_id_t \<times> LockType) list"
  m_error :: string
  m_root :: identity_uid_t
  m_identifier :: transaction_id_t
  m_is_remote :: bool
  m_children :: "identity_uid_t list"
  m_ops :: "'d operation_info_t list"
  m_state :: TransactionState
  m_writer :: "'d op_witness list"

text \<open>
  What the transactions share: the two ledgers, the locks, and the manager's table of running transactions.
  Transactions are shared objects; the table refers to them by the number of the object, which is also
  the number of its lock handle.
\<close>

record 'd tx_world =
  tw_ledger :: ledger
  tw_tx_ledger :: tx_ledger
  tw_locks :: lock_world
  tw_objects :: "nat \<Rightarrow> 'd transaction"
  tw_next_object :: nat
  tw_transactions :: "((identity_uid_t \<times> transaction_id_t) \<times> nat) list"
  tw_id_counter :: u32

text \<open>
  What is used of libraries besides the JSON library of the ledger: the encoding of transaction records,
  the iteration order of unordered containers, the document of a witness, its signature, and the
  default-constructed document.
\<close>

record 'd tx_env = "'d ledger_env" +
  tx_values :: value_lib
  tx_order :: "string set \<Rightarrow> string list"
  tx_document :: "IsolationLevel \<Rightarrow> 'd op_witness list \<Rightarrow> u8 list"
  tx_sign :: "u8 list \<Rightarrow> u8 list option"
  tx_no_document :: 'd

definition new_transaction ::
  "IsolationLevel \<Rightarrow> nat \<Rightarrow> identity_uid_t \<Rightarrow> transaction_id_t \<Rightarrow> bool \<Rightarrow> 'd transaction" where
  "new_transaction isolation handle root tx_id is_remote =
     \<lparr>m_isolation = isolation, m_op_contexts = [], m_lock_handle = handle, m_shard_lock_types = [], m_error = [], m_root = root,
      m_identifier = tx_id, m_is_remote = is_remote, m_children = [], m_ops = [], m_state = Pending, m_writer = []\<rparr>"

text \<open>\<open>std::map::emplace\<close> and assignment through \<open>operator[]\<close>.\<close>

definition smap_emplace :: "'k::linorder \<Rightarrow> 'v \<Rightarrow> ('k \<times> 'v) list \<Rightarrow> ('k \<times> 'v) list" where
  "smap_emplace k v m = (if map_of m k = None then insort_key fst (k, v) m else m)"

definition smap_put :: "'k::linorder \<Rightarrow> 'v \<Rightarrow> ('k \<times> 'v) list \<Rightarrow> ('k \<times> 'v) list" where
  "smap_put k v m = (if map_of m k = None then insort_key fst (k, v) m else AList.update k v m)"

definition init_task :: "taskid_t \<Rightarrow> op_context \<Rightarrow> 'd transaction \<Rightarrow> 'd transaction" where
  "init_task tid ctx tx = tx\<lparr>m_op_contexts := smap_emplace tid ctx (m_op_contexts tx)\<rparr>"

definition set_error :: "string \<Rightarrow> 'd transaction \<Rightarrow> 'd transaction" where
  "set_error err tx = tx\<lparr>m_error := err\<rparr>"

definition has_error :: "'d transaction \<Rightarrow> bool" where
  "has_error tx = (m_error tx \<noteq> [])"

definition is_done :: "'d transaction \<Rightarrow> bool" where
  "is_done tx = (m_state tx = Committed \<or> m_state tx = Aborted)"

definition get_op_context :: "taskid_t \<Rightarrow> 'd transaction \<Rightarrow> op_context result" where
  "get_op_context task tx =
     (case map_of (m_op_contexts tx) task of None \<Rightarrow> Inl (RuntimeError ''No such op context!'') | Some ctx \<Rightarrow> Inr ctx)"

definition add_child :: "identity_uid_t \<Rightarrow> 'd transaction \<Rightarrow> 'd transaction" where
  "add_child idty tx = (if m_state tx \<noteq> Pending then tx else tx\<lparr>m_children := List.insert idty (m_children tx)\<rparr>)"

definition is_distributed :: "'d transaction \<Rightarrow> bool" where
  "is_distributed tx = (m_is_remote tx \<or> m_children tx \<noteq> [])"

section \<open>Operations and their shards\<close>

definition parse_path :: "string \<Rightarrow> string \<times> string" where
  "parse_path full_path =
     (if CHR ''.'' \<in> set full_path
      then (takeWhile (\<lambda>c. c \<noteq> CHR ''.'') full_path, tl (dropWhile (\<lambda>c. c \<noteq> CHR ''.'') full_path))
      else (full_path, []))"

definition op_get_shard :: "string \<Rightarrow> string \<Rightarrow> shard_id_t" where
  "op_get_shard collection full_path = get_shard collection (fst (parse_path full_path))"

definition set_read_lock :: "shard_id_t \<Rightarrow> 'd transaction \<Rightarrow> 'd transaction" where
  "set_read_lock sid tx =
     (if map_of (m_shard_lock_types tx) sid = None then tx\<lparr>m_shard_lock_types := smap_put sid Read (m_shard_lock_types tx)\<rparr> else tx)"

definition set_write_lock :: "shard_id_t \<Rightarrow> 'd transaction \<Rightarrow> 'd transaction" where
  "set_write_lock sid tx = tx\<lparr>m_shard_lock_types := smap_put sid Write (m_shard_lock_types tx)\<rparr>"

fun collect_shard_lock_type :: "'d operation_info_t \<Rightarrow> 'd transaction \<Rightarrow> 'd transaction" where
  "collect_shard_lock_type (check_obj_info_t task c k p res) tx = set_read_lock (op_get_shard c k) tx"
| "collect_shard_lock_type (has_obj_info_t task c k res) tx = set_read_lock (op_get_shard c k) tx"
| "collect_shard_lock_type (get_info_t task c k eid) tx = set_read_lock (op_get_shard c k) tx"
| "collect_shard_lock_type (put_info_t task c k doc) tx = set_write_lock (op_get_shard c k) tx"
| "collect_shard_lock_type (add_info_t task c k doc) tx = set_write_lock (op_get_shard c k) tx"
| "collect_shard_lock_type (remove_info_t task c k) tx = set_write_lock (get_shard c k) tx"
| "collect_shard_lock_type (find_info_t task c p proj lim results) tx =
     (if m_isolation tx = Serializable then fold (\<lambda>i. set_read_lock (word_of_nat i)) [0..<NUM_SHARDS] tx
      else fold (\<lambda>(key, eid). set_read_lock (get_shard c key)) results tx)"

definition register_operation :: "'d operation_info_t \<Rightarrow> 'd transaction \<Rightarrow> 'd transaction" where
  "register_operation op tx = collect_shard_lock_type op (tx\<lparr>m_ops := m_ops tx @ [op]\<rparr>)"

text \<open>\<open>check_obj_info_t\<close> and \<open>has_obj_info_t\<close> do not report what they read.\<close>

fun extract_reads :: "'d operation_info_t \<Rightarrow> event_id_t list \<Rightarrow> event_id_t list" where
  "extract_reads (get_info_t task c k eid) read_set = sset_insert event_less eid read_set"
| "extract_reads (find_info_t task c p proj lim results) read_set = fold (\<lambda>(key, eid). sset_insert event_less eid) results read_set"
| "extract_reads _ read_set = read_set"

definition count_write :: "shard_id_t \<Rightarrow> u16 list \<Rightarrow> u16 list" where
  "count_write sid write_set = write_set[unat sid := write_set ! unat sid + 1]"

fun extract_writes :: "'d operation_info_t \<Rightarrow> u16 list \<Rightarrow> u16 list" where
  "extract_writes (put_info_t task c k doc) write_set = count_write (op_get_shard c k) write_set"
| "extract_writes (add_info_t task c k doc) write_set = count_write (op_get_shard c k) write_set"
| "extract_writes (remove_info_t task c k) write_set = count_write (get_shard c k) write_set"
| "extract_writes _ write_set = write_set"

section \<open>Validation\<close>

text \<open>
  The outcome of a method of the transaction: its result or exception, and the transaction after it.
  \<open>tbind\<close> continues with the value of a call that does not change the transaction.
\<close>

type_synonym ('a, 'd) tx_result = "('a result \<times> 'd transaction) option"

definition tbind :: "'a result option \<Rightarrow> 'd transaction \<Rightarrow> ('a \<Rightarrow> ('b, 'd) tx_result) \<Rightarrow> ('b, 'd) tx_result" where
  "tbind r tx f = (case r of None \<Rightarrow> None | Some (Inl e) \<Rightarrow> Some (Inl e, tx) | Some (Inr x) \<Rightarrow> f x)"

lemma tbind_simps [simp]:
  "tbind None tx f = None" "tbind (Some (Inl e)) tx f = Some (Inl e, tx)" "tbind (Some (Inr x)) tx f = f x"
  by (simp_all add: tbind_def)

definition write_entry :: "bool \<Rightarrow> 'd op_witness \<Rightarrow> 'd transaction \<Rightarrow> 'd transaction" where
  "write_entry generate_witness entry tx = (if generate_witness then tx\<lparr>m_writer := m_writer tx @ [entry]\<rparr> else tx)"

text \<open>The object, or \<open>None\<close> when the check fails. Looking up the lock type of the shard creates it where it is missing.\<close>

definition check_repeatable_read ::
  "('d, 'z) ledger_env_scheme \<Rightarrow> string \<Rightarrow> string \<Rightarrow> shard_id_t \<Rightarrow> event_id_t \<Rightarrow> taskid_t \<Rightarrow> ledger \<Rightarrow> 'd transaction \<Rightarrow>
     ('d event_handle, 'd) tx_result" where
  "check_repeatable_read E collection full_path sid expected_eid task l tx0 =
     (let key = fst (parse_path full_path);
          tx = set_read_lock sid tx0
      in tbind (Some (get_op_context task tx)) tx (\<lambda>ctx.
         tbind (get_latest_version E ctx collection key [] GetObject l) tx (\<lambda>(latest_eid, obj).
           if \<not> event_valid obj \<or> latest_eid \<noteq> expected_eid
           then Some (Inr None, set_error (''Non-repeatable read: key ['' @ key @ ''] reads outdated value'') tx)
           else Some (Inr obj, tx))))"

definition find_write_witness ::
  "bool \<Rightarrow> string \<Rightarrow> event_id_t \<Rightarrow> ('d \<Rightarrow> 'd) \<Rightarrow> 'd event_handle \<Rightarrow> (string \<times> event_id_t \<times> 'd) list \<Rightarrow> (string \<times> event_id_t \<times> 'd) list result" where
  "find_write_witness gw key eid filtered hdl items =
     (if gw then rbind (event_value hdl) (\<lambda>v. Inr (items @ [(key, eid, filtered v)])) else Inr items)"

fun validate_no_dirty_read ::
  "('d, 'z) ledger_env_scheme \<Rightarrow> bool \<Rightarrow> taskid_t \<Rightarrow> string \<Rightarrow> ledger \<Rightarrow> (string \<times> event_id_t) list \<Rightarrow> (string \<times> event_id_t \<times> 'd) list \<Rightarrow>
     'd transaction \<Rightarrow> ((string \<times> event_id_t \<times> 'd) list option, 'd) tx_result" where
  "validate_no_dirty_read E gw task c l [] items tx = Some (Inr (Some items), tx)"
| "validate_no_dirty_read E gw task c l ((key, eid) # results) items tx =
     tbind (Some (get_op_context task tx)) tx (\<lambda>ctx.
     tbind (get_latest_version E ctx c key [] GetObject l) tx (\<lambda>(latest_eid, hdl).
       if \<not> event_valid hdl then Some (Inr None, set_error (''Dirty read: key ['' @ key @ ''] reads outdated value'') tx)
       else tbind (Some (find_write_witness gw key eid id hdl items)) tx (\<lambda>items'.
              validate_no_dirty_read E gw task c l results items' tx)))"

fun validate_repeatable_read ::
  "('d, 'z) ledger_env_scheme \<Rightarrow> bool \<Rightarrow> taskid_t \<Rightarrow> string \<Rightarrow> ledger \<Rightarrow> (string \<times> event_id_t) list \<Rightarrow> (string \<times> event_id_t \<times> 'd) list \<Rightarrow>
     'd transaction \<Rightarrow> ((string \<times> event_id_t \<times> 'd) list option, 'd) tx_result" where
  "validate_repeatable_read E gw task c l [] items tx = Some (Inr (Some items), tx)"
| "validate_repeatable_read E gw task c l ((key, eid) # results) items tx =
     (case check_repeatable_read E c key (get_shard c key) eid task l tx of
        None \<Rightarrow> None
      | Some (Inl e, tx') \<Rightarrow> Some (Inl e, tx')
      | Some (Inr obj, tx') \<Rightarrow>
          if \<not> event_valid obj then Some (Inr None, tx')
          else tbind (Some (find_write_witness gw key eid id obj items)) tx' (\<lambda>items'.
                 validate_repeatable_read E gw task c l results items' tx'))"

partial_function (option) phantom_loop ::
  "('d, 'z) ledger_env_scheme \<Rightarrow> bool \<Rightarrow> string list \<Rightarrow> ledger \<Rightarrow> string \<Rightarrow> 'd list_iterator \<Rightarrow> event_id_t list \<Rightarrow>
     (string \<times> event_id_t \<times> 'd) list \<Rightarrow> 'd transaction \<Rightarrow> ((string \<times> event_id_t \<times> 'd) list option, 'd) tx_result" where
  "phantom_loop E gw projection l key it eids items tx =
     (case list_next E l key it of
        None \<Rightarrow> None
      | Some (Inl e) \<Rightarrow> Some (Inl e, tx)
      | Some (Inr ((eid, key', hdl), it')) \<Rightarrow>
          if \<not> event_valid hdl
          then (if eids \<noteq> [] then Some (Inr None, set_error ''Phantom read: too few results'' tx) else Some (Inr (Some items), tx))
          else case sset_erase event_less eid eids of
                 (cnt, eids') \<Rightarrow>
                   if cnt = 0 then Some (Inr None, set_error (''Phantom read: key='' @ key') tx)
                   else (case find_write_witness gw key' eid (\<lambda>v. if projection = [] then v else js_select E v projection) hdl items of
                           Inl e \<Rightarrow> Some (Inl e, tx)
                         | Inr items' \<Rightarrow> phantom_loop E gw projection l key' it' eids' items' tx))"

definition validate_no_phantom ::
  "('d, 'z) tx_env_scheme \<Rightarrow> bool \<Rightarrow> taskid_t \<Rightarrow> string \<Rightarrow> 'd \<Rightarrow> string list \<Rightarrow> ledger \<Rightarrow> (string \<times> event_id_t) list \<Rightarrow> 'd transaction \<Rightarrow>
     ((string \<times> event_id_t \<times> 'd) list option, 'd) tx_result" where
  "validate_no_phantom E gw task c predicates projection l results tx =
     (let eids = fold (\<lambda>(key, eid). sset_insert event_less eid) results []
      in tbind (Some (get_op_context task tx)) tx (\<lambda>ctx.
         tbind (Some (ledger_find E (tx_order E) ctx c predicates l)) tx (\<lambda>it.
           phantom_loop E gw projection l [] it eids [] tx)))"

text \<open>A failed validation leaves the array of results in the writer open; the writer is not used again then.\<close>

definition validate_find ::
  "('d, 'z) tx_env_scheme \<Rightarrow> bool \<Rightarrow> taskid_t \<Rightarrow> string \<Rightarrow> 'd \<Rightarrow> string list \<Rightarrow> int \<Rightarrow> (string \<times> event_id_t) list \<Rightarrow> ledger \<Rightarrow> 'd transaction \<Rightarrow>
     (bool, 'd) tx_result" where
  "validate_find E generate_witness task c predicates projection lim results l tx =
     (case (case m_isolation tx of
              ReadCommitted \<Rightarrow> validate_no_dirty_read E generate_witness task c l results [] tx
            | RepeatableRead \<Rightarrow> validate_repeatable_read E generate_witness task c l results [] tx
            | Serializable \<Rightarrow> validate_no_phantom E generate_witness task c predicates projection l results tx) of
        None \<Rightarrow> None
      | Some (Inl e, tx') \<Rightarrow> Some (Inl e, tx')
      | Some (Inr None, tx') \<Rightarrow> Some (Inr False, tx')
      | Some (Inr (Some items), tx') \<Rightarrow>
          Some (Inr True, write_entry generate_witness (FindObjectsEntry c predicates projection lim items) tx'))"

definition validate_write ::
  "('d, 'z) ledger_env_scheme \<Rightarrow> taskid_t \<Rightarrow> string \<Rightarrow> string \<Rightarrow> string \<Rightarrow> OperationType \<Rightarrow> ledger \<Rightarrow> 'd transaction \<Rightarrow> (bool, 'd) tx_result" where
  "validate_write E task c key path op_type l tx =
     tbind (Some (get_op_context task tx)) tx (\<lambda>ctx.
     tbind (prepare_write E ctx c key path op_type l) tx (\<lambda>res.
       Some (Inr res, if res then tx else set_error ''Failed to prepare write'' tx)))"

definition validate_get ::
  "('d, 'z) ledger_env_scheme \<Rightarrow> bool \<Rightarrow> taskid_t \<Rightarrow> string \<Rightarrow> string \<Rightarrow> event_id_t \<Rightarrow> ledger \<Rightarrow> 'd transaction \<Rightarrow> (bool, 'd) tx_result" where
  "validate_get E generate_witness task c k eid l tx =
     (case (if m_isolation tx \<noteq> ReadCommitted then check_repeatable_read E c k (op_get_shard c k) eid task l tx
            else tbind (Some (get_op_context task tx)) tx (\<lambda>ctx.
                 tbind (get_latest_version E ctx c k [] GetObject l) tx (\<lambda>(latest_eid, obj). Some (Inr obj, tx)))) of
        None \<Rightarrow> None
      | Some (Inl e, tx') \<Rightarrow> Some (Inl e, tx')
      | Some (Inr obj, tx') \<Rightarrow>
          if \<not> event_valid obj then Some (Inr False, tx')
          else if generate_witness then tbind (Some (event_value obj)) tx' (\<lambda>v. Some (Inr True, write_entry True (GetObjectEntry k eid v) tx'))
          else Some (Inr True, tx'))"

text \<open>
  \<open>check_obj_info_t\<close> does not pass the lock handle of the transaction on: the ledger takes a read lock of
  its own, and waits for it.
\<close>

definition validate_check ::
  "('d, 'z) ledger_env_scheme \<Rightarrow> bool \<Rightarrow> taskid_t \<Rightarrow> string \<Rightarrow> string \<Rightarrow> 'd \<Rightarrow> bool \<Rightarrow> lock_world \<Rightarrow> ledger \<Rightarrow> 'd transaction \<Rightarrow>
     (bool, 'd) tx_result" where
  "validate_check E gw task c k p expected lw l tx =
     tbind (Some (get_op_context task tx)) tx (\<lambda>ctx.
       case fst (lock_call ReadLock (w_count lw (get_shard c k))) of
         Some e \<Rightarrow> Some (Inl e, tx)
       | None \<Rightarrow>
           tbind (ledger_check E ctx c k [] p l) tx (\<lambda>res.
             if res \<noteq> expected then Some (Inr False, set_error (''check object ['' @ k @ ''] reads outdated value'') tx)
             else Some (Inr True, write_entry gw (HasObjectEntry k expected) tx)))"

definition validate_has ::
  "('d, 'z) json_lib_scheme \<Rightarrow> bool \<Rightarrow> string \<Rightarrow> string \<Rightarrow> bool \<Rightarrow> ledger \<Rightarrow> 'd transaction \<Rightarrow> (bool, 'd) tx_result" where
  "validate_has E gw c k expected l tx =
     tbind (Some (has_object E c k l)) tx (\<lambda>res.
       if res \<noteq> expected then Some (Inr False, set_error (''has object ['' @ k @ ''] reads outdated value'') tx)
       else Some (Inr True, write_entry gw (HasObjectEntry k expected) tx))"

definition validate_put :: "('d, 'z) ledger_env_scheme \<Rightarrow> taskid_t \<Rightarrow> string \<Rightarrow> string \<Rightarrow> ledger \<Rightarrow> 'd transaction \<Rightarrow> (bool, 'd) tx_result" where
  "validate_put E task c k l tx = (case parse_path k of (key, path) \<Rightarrow> validate_write E task c key path PutObject l tx)"

definition validate_add :: "('d, 'z) ledger_env_scheme \<Rightarrow> taskid_t \<Rightarrow> string \<Rightarrow> string \<Rightarrow> ledger \<Rightarrow> 'd transaction \<Rightarrow> (bool, 'd) tx_result" where
  "validate_add E task c k l tx = (case parse_path k of (key, path) \<Rightarrow> validate_write E task c key path AddToObject l tx)"

definition validate_remove :: "('d, 'z) ledger_env_scheme \<Rightarrow> taskid_t \<Rightarrow> string \<Rightarrow> string \<Rightarrow> ledger \<Rightarrow> 'd transaction \<Rightarrow> (bool, 'd) tx_result" where
  "validate_remove E task c k l tx = validate_write E task c k [] RemoveObject l tx"

lemmas validate_defs = validate_check_def validate_has_def validate_put_def validate_add_def validate_remove_def

fun validate ::
  "('d, 'z) tx_env_scheme \<Rightarrow> bool \<Rightarrow> 'd operation_info_t \<Rightarrow> lock_world \<Rightarrow> ledger \<Rightarrow> 'd transaction \<Rightarrow> (bool, 'd) tx_result" where
  "validate E gw (check_obj_info_t task c k p expected) lw l tx = validate_check E gw task c k p expected lw l tx"
| "validate E gw (has_obj_info_t task c k expected) lw l tx = validate_has E gw c k expected l tx"
| "validate E gw (get_info_t task c k eid) lw l tx = validate_get E gw task c k eid l tx"
| "validate E gw (put_info_t task c k doc) lw l tx = validate_put E task c k l tx"
| "validate E gw (add_info_t task c k doc) lw l tx = validate_add E task c k l tx"
| "validate E gw (remove_info_t task c k) lw l tx = validate_remove E task c k l tx"
| "validate E gw (find_info_t task c p projection lim results) lw l tx = validate_find E gw task c p projection lim results l tx"

section \<open>Prepare, abort and commit\<close>

type_synonym ('a, 'd) tx_outcome = "('a result \<times> 'd transaction \<times> 'd tx_world) option"

definition obind_tx :: "('a, 'd) tx_outcome \<Rightarrow> ('a \<Rightarrow> 'd transaction \<Rightarrow> 'd tx_world \<Rightarrow> ('b, 'd) tx_outcome) \<Rightarrow> ('b, 'd) tx_outcome" where
  "obind_tx r f =
     (case r of None \<Rightarrow> None | Some (Inl e, tx, w) \<Rightarrow> Some (Inl e, tx, w) | Some (Inr x, tx, w) \<Rightarrow> f x tx w)"

lemma obind_tx_simps [simp]:
  "obind_tx None f = None" "obind_tx (Some (Inl e, tx, w)) f = Some (Inl e, tx, w)" "obind_tx (Some (Inr x, tx, w)) f = f x tx w"
  by (simp_all add: obind_tx_def)

definition remove_transaction :: "'d transaction \<Rightarrow> 'd tx_world \<Rightarrow> 'd tx_world result" where
  "remove_transaction tx w =
     (case map_of (tw_transactions w) (m_root tx, m_identifier tx) of
        None \<Rightarrow> Inl (RuntimeError ''Cannot remove; no such transaction!'')
      | Some _ \<Rightarrow> Inr (w\<lparr>tw_transactions := AList.delete (m_root tx, m_identifier tx) (tw_transactions w)\<rparr>))"

fun organize_shards :: "(shard_id_t \<times> LockType) list \<Rightarrow> ledger \<Rightarrow> error option \<times> ledger" where
  "organize_shards [] l = (None, l)"
| "organize_shards ((s, lock_type) # ls) l =
     (if lock_type = Write
      then (case organize_ledger s l of Inl e \<Rightarrow> (Some e, l) | Inr l' \<Rightarrow> organize_shards ls l')
      else organize_shards ls l)"

definition clear_and_remove :: "'d transaction \<Rightarrow> 'd tx_world \<Rightarrow> (unit, 'd) tx_outcome" where
  "clear_and_remove tx w =
     (case clear_handle (m_lock_handle tx) (tw_locks w) of
        (Some e, lw) \<Rightarrow> Some (Inl e, tx, w\<lparr>tw_locks := lw\<rparr>)
      | (None, lw) \<Rightarrow>
          let tx' = tx\<lparr>m_ops := []\<rparr>;
              w' = w\<lparr>tw_locks := lw\<rparr>
          in (case remove_transaction tx' w' of Inl e \<Rightarrow> Some (Inl e, tx', w') | Inr w'' \<Rightarrow> Some (Inr (), tx', w'')))"

definition cleanup :: "'d transaction \<Rightarrow> 'd tx_world \<Rightarrow> (unit, 'd) tx_outcome" where
  "cleanup tx w =
     (if \<not> has_parent (w_handles (tw_locks w) (m_lock_handle tx)) \<and> m_state tx = Committed
      then (case organize_shards (m_shard_lock_types tx) (tw_ledger w) of
              (Some e, l) \<Rightarrow> Some (Inl e, tx, w\<lparr>tw_ledger := l\<rparr>)
            | (None, l) \<Rightarrow> clear_and_remove tx (w\<lparr>tw_ledger := l\<rparr>))
      else clear_and_remove tx w)"

definition abort :: "'d transaction \<Rightarrow> 'd tx_world \<Rightarrow> (unit, 'd) tx_outcome" where
  "abort tx w =
     (case m_state tx of
        Aborted \<Rightarrow> Some (Inr (), tx, w)
      | Committed \<Rightarrow> Some (Inl (RuntimeError ''Cannot abort transaction: invalid state!''), tx, w)
      | _ \<Rightarrow> cleanup (tx\<lparr>m_state := Aborted\<rparr>) w)"

fun acquire_locks :: "nat \<Rightarrow> (shard_id_t \<times> LockType) list \<Rightarrow> lock_world \<Rightarrow> outcome" where
  "acquire_locks h [] lw = (None, lw)"
| "acquire_locks h ((s, lock_type) # ls) lw =
     (case get_shard_lock h s lock_type False lw of
        (None, lw') \<Rightarrow> acquire_locks h ls lw'
      | (Some e, lw') \<Rightarrow> (Some e, lw'))"

fun validate_all :: "('d, 'z) tx_env_scheme \<Rightarrow> bool \<Rightarrow> 'd operation_info_t list \<Rightarrow> lock_world \<Rightarrow> ledger \<Rightarrow> 'd transaction \<Rightarrow>
     (bool, 'd) tx_result" where
  "validate_all E gw [] lw l tx = Some (Inr True, tx)"
| "validate_all E gw (op # ops) lw l tx =
     (case validate E gw op lw l tx of
        None \<Rightarrow> None
      | Some (Inl e, tx') \<Rightarrow> Some (Inl e, tx')
      | Some (Inr ok, tx') \<Rightarrow> if ok then validate_all E gw ops lw l tx' else Some (Inr False, tx'))"

definition prepare :: "('d, 'z) tx_env_scheme \<Rightarrow> bool \<Rightarrow> 'd transaction \<Rightarrow> 'd tx_world \<Rightarrow> (bool, 'd) tx_outcome" where
  "prepare E generate_witness tx w =
     (if m_state tx \<noteq> Pending then Some (Inl (RuntimeError ''Cannot prepare: invalid state''), tx, w)
      else case acquire_locks (m_lock_handle tx) (m_shard_lock_types tx) (tw_locks w) of
             (Some e, lw) \<Rightarrow>
               if e = WouldBlock
               then obind_tx (abort (set_error ''Lock contention'' tx) (w\<lparr>tw_locks := lw\<rparr>)) (\<lambda>_ tx' w'. Some (Inr False, tx', w'))
               else Some (Inl e, tx, w\<lparr>tw_locks := lw\<rparr>)
           | (None, lw) \<Rightarrow>
               (case validate_all E generate_witness (m_ops tx) lw (tw_ledger w) tx of
                  None \<Rightarrow> None
                | Some (Inl e, tx') \<Rightarrow> Some (Inl e, tx', w\<lparr>tw_locks := lw\<rparr>)
                | Some (Inr ok, tx') \<Rightarrow>
                    if ok then Some (Inr True, tx'\<lparr>m_state := Prepared\<rparr>, w\<lparr>tw_locks := lw\<rparr>)
                    else obind_tx (abort tx' (w\<lparr>tw_locks := lw\<rparr>)) (\<lambda>_ tx'' w'. Some (Inr False, tx'', w'))))"

definition apply_op ::
  "('d, 'z) ledger_env_scheme \<Rightarrow> taskid_t \<Rightarrow> string \<Rightarrow> string \<Rightarrow> 'd \<Rightarrow> string \<Rightarrow> OperationType \<Rightarrow> ledger_pos_t \<Rightarrow>
     (event_id_t \<Rightarrow> 'd transaction \<Rightarrow> 'd transaction) \<Rightarrow> 'd transaction \<Rightarrow> 'd tx_world \<Rightarrow> (unit, 'd) tx_outcome" where
  "apply_op E task c key doc path op_type tx_ref report tx w =
     (case get_op_context task tx of
        Inl e \<Rightarrow> Some (Inl e, tx, w)
      | Inr ctx \<Rightarrow>
          (case apply_write E ctx c key doc path True op_type tx_ref (tw_ledger w) of
             None \<Rightarrow> None
           | Some (Inl e) \<Rightarrow> Some (Inl e, tx, w)
           | Some (Inr (new_eid, l)) \<Rightarrow> Some (Inr (), report new_eid tx, w\<lparr>tw_ledger := l\<rparr>)))"

definition do_write_put ::
  "('d, 'z) ledger_env_scheme \<Rightarrow> ledger_pos_t \<Rightarrow> bool \<Rightarrow> taskid_t \<Rightarrow> string \<Rightarrow> string \<Rightarrow> 'd \<Rightarrow> 'd transaction \<Rightarrow> 'd tx_world \<Rightarrow> (unit, 'd) tx_outcome" where
  "do_write_put E tx_ref gw task c k doc tx w =
     (case parse_path k of (key, path) \<Rightarrow>
        apply_op E task c key doc path PutObject tx_ref (\<lambda>eid. write_entry (is_valid eid \<and> gw) (PutObjectEntry c k eid doc)) tx w)"

definition do_write_add ::
  "('d, 'z) ledger_env_scheme \<Rightarrow> ledger_pos_t \<Rightarrow> bool \<Rightarrow> taskid_t \<Rightarrow> string \<Rightarrow> string \<Rightarrow> 'd \<Rightarrow> 'd transaction \<Rightarrow> 'd tx_world \<Rightarrow> (unit, 'd) tx_outcome" where
  "do_write_add E tx_ref gw task c k doc tx w =
     (case parse_path k of (key, path) \<Rightarrow>
        apply_op E task c key doc path AddToObject tx_ref (\<lambda>eid. write_entry gw (AddObjectEntry k eid doc)) tx w)"

definition do_write_remove ::
  "('d, 'z) tx_env_scheme \<Rightarrow> ledger_pos_t \<Rightarrow> bool \<Rightarrow> taskid_t \<Rightarrow> string \<Rightarrow> string \<Rightarrow> 'd transaction \<Rightarrow> 'd tx_world \<Rightarrow> (unit, 'd) tx_outcome" where
  "do_write_remove E tx_ref gw task c k tx w =
     apply_op E task c k (tx_no_document E) [] RemoveObject tx_ref (\<lambda>eid. write_entry gw (RemoveObjectEntry k eid)) tx w"

fun do_write ::
  "('d, 'z) tx_env_scheme \<Rightarrow> ledger_pos_t \<Rightarrow> bool \<Rightarrow> 'd operation_info_t \<Rightarrow> 'd transaction \<Rightarrow> 'd tx_world \<Rightarrow> (unit, 'd) tx_outcome" where
  "do_write E tx_ref gw (put_info_t task c k doc) tx w = do_write_put E tx_ref gw task c k doc tx w"
| "do_write E tx_ref gw (add_info_t task c k doc) tx w = do_write_add E tx_ref gw task c k doc tx w"
| "do_write E tx_ref gw (remove_info_t task c k) tx w = do_write_remove E tx_ref gw task c k tx w"
| "do_write E tx_ref gw _ tx w = Some (Inr (), tx, w)"

fun do_writes ::
  "('d, 'z) tx_env_scheme \<Rightarrow> ledger_pos_t \<Rightarrow> bool \<Rightarrow> 'd operation_info_t list \<Rightarrow> 'd transaction \<Rightarrow> 'd tx_world \<Rightarrow> (unit, 'd) tx_outcome" where
  "do_writes E tx_ref gw [] tx w = Some (Inr (), tx, w)"
| "do_writes E tx_ref gw (op # ops) tx w = obind_tx (do_write E tx_ref gw op tx w) (\<lambda>_ tx' w'. do_writes E tx_ref gw ops tx' w')"

fun collect_write_set :: "shard_id_t list \<Rightarrow> u16 list \<Rightarrow> event_id_t list \<Rightarrow> ledger \<Rightarrow> event_id_t list result" where
  "collect_write_set [] write_shards write_set l = Inr write_set"
| "collect_write_set (s # ss) write_shards write_set l =
     (let num = write_shards ! unat s
      in if 0 < num then rbind (get_next_event_ids write_set s num l) (\<lambda>write_set'. collect_write_set ss write_shards write_set' l)
         else collect_write_set ss write_shards write_set l)"

definition commit_op_sets :: "'d transaction \<Rightarrow> ledger \<Rightarrow> op_set_t result" where
  "commit_op_sets tx l =
     (let read_set = fold extract_reads (m_ops tx) [];
          write_shards = fold extract_writes (m_ops tx) (replicate NUM_SHARDS 0)
      in rbind (collect_write_set (map word_of_nat [0..<NUM_SHARDS]) write_shards [] l) (\<lambda>write_set.
           Inr \<lparr>reads = read_set, writes = write_set\<rparr>))"

definition commit_witness :: "('d, 'z) tx_env_scheme \<Rightarrow> bool \<Rightarrow> 'd transaction \<Rightarrow> witness" where
  "commit_witness E generate_witness tx =
     (if generate_witness
      then let data = tx_document E (m_isolation tx) (m_writer tx)
           in \<lparr>m_data = data, m_signature = (case tx_sign E data of None \<Rightarrow> no_signature | Some sig \<Rightarrow> sig)\<rparr>
      else new_witness)"

definition commit :: "('d, 'z) tx_env_scheme \<Rightarrow> bool \<Rightarrow> 'd transaction \<Rightarrow> 'd tx_world \<Rightarrow> (witness, 'd) tx_outcome" where
  "commit E generate_witness tx w =
     (if m_state tx \<noteq> Prepared then Some (Inl (RuntimeError ''Cannot commit: invalid state''), tx, w)
      else case commit_op_sets tx (tw_ledger w) of
             Inl e \<Rightarrow> Some (Inl e, tx, w)
           | Inr sets \<Rightarrow>
               (case tl_insert (tx_values E) (m_op_contexts tx) (m_root tx) (m_identifier tx) sets [] (tw_tx_ledger w) of
                  Inl e \<Rightarrow> Some (Inl e, tx, w)
                | Inr (tx_ref, t) \<Rightarrow>
                    obind_tx (do_writes E tx_ref generate_witness (m_ops tx) tx (w\<lparr>tw_tx_ledger := t\<rparr>)) (\<lambda>_ tx1 w1.
                    let result = commit_witness E generate_witness tx1
                    in obind_tx (cleanup (tx1\<lparr>m_state := Committed\<rparr>) w1) (\<lambda>_ tx2 w2. Some (Inr result, tx2, w2)))))"

section \<open>The transaction manager\<close>

text \<open>A new transaction has a lock handle without a parent that does not block.\<close>

definition create_transaction ::
  "IsolationLevel \<Rightarrow> identity_uid_t \<Rightarrow> transaction_id_t \<Rightarrow> bool \<Rightarrow> 'd tx_world \<Rightarrow> nat \<times> 'd tx_world" where
  "create_transaction isolation root tx_id is_remote w =
     (let p = tw_next_object w
      in (p, w\<lparr>tw_locks := (tw_locks w)\<lparr>w_handles := (w_handles (tw_locks w))(p := new_handle None True)\<rparr>,
               tw_objects := (tw_objects w)(p := new_transaction isolation p root tx_id is_remote), tw_next_object := p + 1,
               tw_transactions := AList.update (root, tx_id) p (tw_transactions w)\<rparr>))"

definition init_local_transaction :: "identity_uid_t \<Rightarrow> IsolationLevel \<Rightarrow> 'd tx_world \<Rightarrow> nat \<times> 'd tx_world" where
  "init_local_transaction uid isolation w =
     (let lid = tw_id_counter w
      in create_transaction isolation uid lid False (w\<lparr>tw_id_counter := lid + 1\<rparr>))"

definition init_remote_transaction ::
  "(identity_uid_t \<Rightarrow> bool) \<Rightarrow> identity_uid_t \<Rightarrow> transaction_id_t \<Rightarrow> IsolationLevel \<Rightarrow> 'd tx_world \<Rightarrow> (nat \<times> 'd tx_world) result" where
  "init_remote_transaction has_identity root tx_id isolation w =
     (case map_of (tw_transactions w) (root, tx_id) of
        Some p \<Rightarrow> Inr (p, w)
      | None \<Rightarrow>
          if \<not> has_identity root then Inl (RuntimeError ''Invalid transaction root'')
          else Inr (create_transaction isolation root tx_id True w))"

definition get_transaction :: "identity_uid_t \<Rightarrow> transaction_id_t \<Rightarrow> 'd tx_world \<Rightarrow> nat option" where
  "get_transaction node_id tx_id w = map_of (tw_transactions w) (node_id, tx_id)"

definition num_pending_transactions :: "'d tx_world \<Rightarrow> nat" where
  "num_pending_transactions w = length (tw_transactions w)"

text \<open>A method call on the object \<open>p\<close>.\<close>

definition tx_call :: "nat \<Rightarrow> ('d transaction \<Rightarrow> 'd tx_world \<Rightarrow> ('a, 'd) tx_outcome) \<Rightarrow> 'd tx_world \<Rightarrow> ('a result \<times> 'd tx_world) option" where
  "tx_call p f w =
     (case f (tw_objects w p) w of
        None \<Rightarrow> None
      | Some (r, tx, w') \<Rightarrow> Some (r, w'\<lparr>tw_objects := (tw_objects w')(p := tx)\<rparr>))"

text \<open>The destructor aborts what the table lists, one transaction after the other, until the table is empty.\<close>

partial_function (option) abort_all :: "'d tx_world \<Rightarrow> (unit result \<times> 'd tx_world) option" where
  "abort_all w =
     (case tw_transactions w of
        [] \<Rightarrow> Some (Inr (), w)
      | (_, p) # _ \<Rightarrow>
          (case tx_call p abort w of
             None \<Rightarrow> None
           | Some (Inl e, w') \<Rightarrow> Some (Inl e, w')
           | Some (Inr u, w') \<Rightarrow> abort_all w'))"

end
