(* ===== verification/Lock_Table.thy ===== *)
theory Lock_Table
  imports Lock_Handle
begin

text \<open>
  The locks of several handles without a parent, as the running transactions hold them: the counter of a
  shard is the sum of what the handles hold, and a write lock excludes every other handle. Any step that
  keeps the account of the handle that takes it (\<open>root_inv\<close>) keeps the table of all of them.
\<close>

section \<open>The table of all handles\<close>

abbreviation lock_entry :: "lock_world \<Rightarrow> nat \<Rightarrow> shard_id_t \<Rightarrow> lock_info option" where
  "lock_entry w h s \<equiv> map_of (h_locks (w_handles w h)) s"

fun contribution :: "lock_info option \<Rightarrow> int" where
  "contribution None = 0"
| "contribution (Some i) = (if write_count i \<noteq> 0 then -1 else 1)"

definition others :: "nat set \<Rightarrow> lock_world \<Rightarrow> nat \<Rightarrow> shard_id_t \<Rightarrow> int" where
  "others hs w h s = (\<Sum>h'\<in>hs - {h}. contribution (lock_entry w h' s))"

definition write_locked :: "lock_world \<Rightarrow> nat \<Rightarrow> shard_id_t \<Rightarrow> bool" where
  "write_locked w h s \<longleftrightarrow> contribution (lock_entry w h s) = -1"

definition lock_table :: "nat set \<Rightarrow> lock_world \<Rightarrow> bool" where
  "lock_table hs w \<longleftrightarrow> finite hs \<and>
     (\<forall>h\<in>hs. h_parent (w_handles w h) = None \<and> distinct (map fst (h_locks (w_handles w h)))) \<and>
     (\<forall>s. w_count w s = (\<Sum>h\<in>hs. contribution (lock_entry w h s))) \<and>
     (\<forall>s. \<forall>h\<in>hs. \<forall>i. lock_entry w h s = Some i \<longrightarrow> write_count i \<noteq> 0 \<or> read_count i \<noteq> 0) \<and>
     (\<forall>s. \<forall>h\<in>hs. write_locked w h s \<longrightarrow> (\<forall>h'\<in>hs. h' \<noteq> h \<longrightarrow> lock_entry w h' s = None))"

lemma contribution_zero: "contribution x = 0 \<longleftrightarrow> x = None"
  by (cases x) auto

lemma contribution_nonneg: "contribution x \<noteq> -1 \<Longrightarrow> 0 \<le> contribution x"
  by (cases x) (auto split: if_splits)

lemma shard_ok_contribution: "shard_ok x e c \<Longrightarrow> c = e + contribution x"
  by (cases x) (auto split: if_splits)

lemma table_sum: "lock_table hs w \<Longrightarrow> h \<in> hs \<Longrightarrow> w_count w s = others hs w h s + contribution (lock_entry w h s)"
  by (simp add: lock_table_def others_def sum.remove)

text \<open>What the other handles contribute: a writer alone, or the number of readers.\<close>

lemma others_cases:
  assumes tab: "lock_table hs w"
  obtains (writer) h2 where "h2 \<in> hs" "h2 \<noteq> h" "write_locked w h2 s" "others hs w h s = -1" "\<forall>h'\<in>hs. h' \<noteq> h2 \<longrightarrow> lock_entry w h' s = None"
  | (readers) "\<forall>h'\<in>hs. h' \<noteq> h \<longrightarrow> \<not> write_locked w h' s" "0 \<le> others hs w h s"
      "others hs w h s = 0 \<longleftrightarrow> (\<forall>h'\<in>hs. h' \<noteq> h \<longrightarrow> lock_entry w h' s = None)"
proof (cases "\<exists>h2\<in>hs - {h}. write_locked w h2 s")
  case True
  then obtain h2 where h2: "h2 \<in> hs" "h2 \<noteq> h" "write_locked w h2 s" by auto
  then have none: "\<forall>h'\<in>hs. h' \<noteq> h2 \<longrightarrow> lock_entry w h' s = None" using tab by (auto simp: lock_table_def)
  have "others hs w h s = contribution (lock_entry w h2 s) + (\<Sum>h'\<in>hs - {h} - {h2}. contribution (lock_entry w h' s))"
    using h2 tab by (simp add: others_def lock_table_def sum.remove)
  also have "(\<Sum>h'\<in>hs - {h} - {h2}. contribution (lock_entry w h' s)) = 0" using none by (intro sum.neutral) simp
  finally show ?thesis using writer h2 none by (simp add: write_locked_def)
next
  case False
  then have nonneg: "\<forall>h'\<in>hs - {h}. 0 \<le> contribution (lock_entry w h' s)" by (auto simp: write_locked_def contribution_nonneg)
  moreover have "finite (hs - {h})" using tab by (simp add: lock_table_def)
  ultimately have "others hs w h s = 0 \<longleftrightarrow> (\<forall>h'\<in>hs - {h}. contribution (lock_entry w h' s) = 0)"
    unfolding others_def by (intro sum_nonneg_eq_0_iff) auto
  moreover have "0 \<le> others hs w h s" unfolding others_def using nonneg by (intro sum_nonneg) auto
  ultimately show ?thesis using readers False by (auto simp: contribution_zero)
qed

lemma table_root_inv:
  assumes tab: "lock_table hs w" and h: "h \<in> hs"
  shows "root_inv h (others hs w h) w"
proof -
  have "shard_ok (lock_entry w h s) (others hs w h s) (w_count w s)" for s
  proof -
    note sum = table_sum [OF tab h, of s]
    have pos: "\<And>i. lock_entry w h s = Some i \<Longrightarrow> write_count i \<noteq> 0 \<or> read_count i \<noteq> 0" using tab h by (auto simp: lock_table_def)
    have excl: "write_locked w h s \<Longrightarrow> others hs w h s = 0"
      using tab h unfolding others_def lock_table_def by (intro sum.neutral) auto
    from tab show ?thesis
    proof (cases rule: others_cases [where h = h and s = s])
      case (writer h2)
      then have "lock_entry w h s = None" using h by auto
      then show ?thesis using sum writer by simp
    next
      case readers
      then show ?thesis using sum pos excl by (cases "lock_entry w h s") (auto simp: write_locked_def split: if_splits)
    qed
  qed
  then show ?thesis using tab h by (simp add: root_inv_def lock_table_def)
qed

text \<open>One handle changes what it holds, keeping its own account.\<close>

lemma lock_table_step:
  assumes tab: "lock_table hs w" and h: "h \<in> hs" and other: "\<And>h'. h' \<noteq> h \<Longrightarrow> w_handles w' h' = w_handles w h'"
    and inv: "root_inv h (others hs w h) w'"
  shows "lock_table hs w'"
proof -
  have entry: "lock_entry w' h' s = lock_entry w h' s" if "h' \<noteq> h" for h' s using other [OF that] by simp
  have oth: "others hs w' h s = others hs w h s" for s unfolding others_def by (rule sum.cong) (simp_all add: entry)
  have ok: "shard_ok (lock_entry w' h s) (others hs w h s) (w_count w' s)" for s using inv by (simp add: root_inv_def)
  have "w_count w' s = (\<Sum>h'\<in>hs. contribution (lock_entry w' h' s))" for s
    using shard_ok_contribution [OF ok, of s] oth [of s] h tab by (simp add: others_def lock_table_def sum.remove [where x = h])
  moreover have "write_count i \<noteq> 0 \<or> read_count i \<noteq> 0" if "h' \<in> hs" "lock_entry w' h' s = Some i" for h' s i
    using that ok [of s] tab entry [of h' s] by (cases "h' = h") (auto simp: lock_table_def split: if_splits)
  moreover have "lock_entry w' h2 s = None" if "h1 \<in> hs" "write_locked w' h1 s" "h2 \<in> hs" "h2 \<noteq> h1" for h1 h2 s
    using tab
  proof (cases rule: others_cases [where h = h and s = s])
    case (writer h3)
    then have "lock_entry w' h s = None" using ok [of s] by (cases "lock_entry w' h s") (auto split: if_splits)
    moreover have "h1 = h3"
    proof (rule ccontr)
      assume "h1 \<noteq> h3"
      then have "lock_entry w' h1 s = None" using writer(5) that(1) calculation entry [of h1 s] by (cases "h1 = h") auto
      then show False using that(2) by (simp add: write_locked_def)
    qed
    ultimately show ?thesis using writer(5) that entry [of h2 s] by (cases "h2 = h") auto
  next
    case readers
    have "h1 = h"
    proof (rule ccontr)
      assume "h1 \<noteq> h"
      then have "write_locked w h1 s" using that(2) entry [of h1 s] by (simp add: write_locked_def)
      then show False using readers(1) that(1) \<open>h1 \<noteq> h\<close> by blast
    qed
    then have "others hs w h s = 0" using that(2) ok [of s] by (cases "lock_entry w' h s") (auto simp: write_locked_def split: if_splits)
    then show ?thesis using readers(3) that \<open>h1 = h\<close> entry [of h2 s] by auto
  qed
  ultimately show ?thesis using tab inv other unfolding lock_table_def by (auto simp: root_inv_def) metis+
qed

lemma lock_table_empty: "lock_table {} \<lparr>w_handles = hdl, w_count = (\<lambda>_. 0)\<rparr>"
  by (simp add: lock_table_def)

text \<open>A new handle holds nothing.\<close>

lemma lock_table_insert:
  assumes tab: "lock_table hs w" and new: "h \<notin> hs" and parent: "h_parent hdl = None" and locks: "h_locks hdl = []"
  shows "lock_table (insert h hs) (w\<lparr>w_handles := (w_handles w)(h := hdl)\<rparr>)"
proof -
  let ?w = "w\<lparr>w_handles := (w_handles w)(h := hdl)\<rparr>"
  have same: "h' \<in> hs \<Longrightarrow> w_handles ?w h' = w_handles w h'" for h' using new by auto
  have "(\<Sum>h'\<in>hs. contribution (lock_entry ?w h' s)) = (\<Sum>h'\<in>hs. contribution (lock_entry w h' s))" for s
    using same by (intro sum.cong) auto
  then have "w_count ?w s = (\<Sum>h'\<in>insert h hs. contribution (lock_entry ?w h' s))" for s
    using tab new locks by (simp add: lock_table_def)
  moreover have "write_locked ?w h' s \<longleftrightarrow> h' \<noteq> h \<and> write_locked w h' s" for h' s using locks by (simp add: write_locked_def)
  ultimately show ?thesis
    using tab parent locks same unfolding lock_table_def by (simp del: sum.insert)
qed

section \<open>Steps of one handle\<close>

lemma get_shard_lock_frame:
  assumes "h_parent (w_handles w h) = None" and "get_shard_lock h s lt nb w = (r, w')"
  shows "h' \<noteq> h \<Longrightarrow> w_handles w' h' = w_handles w h'"
    and "h_nonblocking (w_handles w' h) = h_nonblocking (w_handles w h)"
    and "s' \<noteq> s \<Longrightarrow> lock_entry w' h s' = lock_entry w h s'"
  using assms
  by (subst (asm) get_shard_lock.simps,
      auto simp: Let_def acquire_first_def acquire_again_def put_lock_def erase_lock_def set_count_def split: option.splits prod.splits if_splits)+

lemma get_shard_lock_table:
  assumes tab: "lock_table hs w" and h: "h \<in> hs" and none: "lock_entry w h s = None" and run: "get_shard_lock h s lt nb w = (r, w')"
  shows "lock_table hs w'" and "r = None \<Longrightarrow> holds h s lt w'"
proof -
  have "countable_lock h s w" using none by (simp add: countable_lock_def)
  note step = get_shard_lock_root [OF table_root_inv [OF tab h] this run]
  have "h_parent (w_handles w h) = None" using tab h by (simp add: lock_table_def)
  then show "lock_table hs w'" using lock_table_step [OF tab h] get_shard_lock_frame(1) [OF _ run] step by blast
  show "r = None \<Longrightarrow> holds h s lt w'" using step by blast
qed

lemma get_shard_lock_new:
  assumes "h_parent (w_handles w h) = None" and "lock_entry w h s = None" and "get_shard_lock h s lt nb w = (None, w')"
  shows "lock_entry w' h s = Some (new_lock_info lt)"
  using assms by (subst (asm) get_shard_lock.simps) (auto simp: Let_def acquire_first_def split: prod.splits option.splits)

text \<open>A handle that does not block fails in one way only.\<close>

lemma get_shard_lock_error:
  assumes "h_parent (w_handles w h) = None" and "h_nonblocking (w_handles w h)" and "lock_entry w h s = None"
    and "get_shard_lock h s lt nb w = (Some e, w')"
  shows "e = WouldBlock"
  using assms
  by (subst (asm) get_shard_lock.simps)
    (auto simp: Let_def acquire_first_def lock_call_def first_lock_op_def loop_body_defs split: if_splits)

lemma clear_handle_table:
  assumes tab: "lock_table hs w" and h: "h \<in> hs"
  obtains w' where "clear_handle h w = (None, w')" "lock_table hs w'" "h_locks (w_handles w' h) = []"
    "h_nonblocking (w_handles w' h) = h_nonblocking (w_handles w h)" "\<forall>h'. h' \<noteq> h \<longrightarrow> w_handles w' h' = w_handles w h'"
    "w_count w' = others hs w h"
proof -
  note inv = table_root_inv [OF tab h]
  obtain w' where w': "clear_handle h w = (None, w')" "h_locks (w_handles w' h) = []" "w_count w' = others hs w h"
    using clear_handle_root [OF inv] by blast
  have par: "h_parent (w_handles w h) = None" using inv by (simp add: root_inv_def)
  then have other: "h_nonblocking (w_handles w' h) = h_nonblocking (w_handles w h)" "h_parent (w_handles w' h) = None"
      "\<forall>h'. h' \<noteq> h \<longrightarrow> w_handles w' h' = w_handles w h'"
    using w'(1) by (auto simp: clear_handle_def Let_def clear_root_simps)
  have "-1 \<le> others hs w h s" for s by (cases rule: others_cases [OF tab, where h = h and s = s]) auto
  then have "root_inv h (others hs w h) w'" using w' other by (simp add: root_inv_def)
  then show ?thesis using that lock_table_step [OF tab h] w' other by blast
qed

text \<open>A shard on which one handle holds a write lock is not locked by another.\<close>

lemma holds_excludes:
  assumes tab: "lock_table hs w" and h: "h \<in> hs" "h' \<in> hs" "h' \<noteq> h" and held: "holds h s Write w"
  shows "lock_entry w h' s = None"
proof -
  have "write_locked w h s" using held by (auto simp: holds_def write_locked_def split: option.splits)
  then show ?thesis using tab h by (auto simp: lock_table_def)
qed

end
