(* ===== verification/Transaction_Effects.thy ===== *)
theory Transaction_Effects
  imports Transaction Lock_Table
begin

text \<open>
  What the phases of one transaction do to the objects of the ledger: validation succeeds only when every
  read is still current, and the writes of the commit give the objects that executing them one after the
  other gives. Throughout, no object carries a policy of its own.
\<close>

section \<open>Requests\<close>

text \<open>What a transaction keeps while its operations are validated and executed.\<close>

definition same_request :: "'d transaction \<Rightarrow> 'd transaction \<Rightarrow> bool" where
  "same_request tx tx' \<longleftrightarrow> tx' = tx\<lparr>m_error := m_error tx', m_writer := m_writer tx'\<rparr>"

lemma same_request_refl [simp]: "same_request tx tx"
  by (simp add: same_request_def)

lemma same_request_fields:
  assumes "same_request tx tx'"
  shows "m_isolation tx' = m_isolation tx" "m_op_contexts tx' = m_op_contexts tx" "m_lock_handle tx' = m_lock_handle tx"
    "m_shard_lock_types tx' = m_shard_lock_types tx" "m_root tx' = m_root tx" "m_identifier tx' = m_identifier tx"
    "m_ops tx' = m_ops tx" "m_state tx' = m_state tx" "m_children tx' = m_children tx" "m_is_remote tx' = m_is_remote tx"
  by (subst assms [unfolded same_request_def], simp)+

lemma same_request_trans: "same_request tx tx1 \<Longrightarrow> same_request tx1 tx2 \<Longrightarrow> same_request tx tx2"
  unfolding same_request_def by (cases tx; cases tx1; cases tx2) simp

lemma same_request_error [simp]: "same_request tx (set_error e tx)"
  and same_request_entry [simp]: "same_request tx (write_entry gw entry tx)"
  by (simp_all add: same_request_def set_error_def write_entry_def)

definition dot_free :: "string \<Rightarrow> bool" where
  "dot_free k \<longleftrightarrow> CHR ''.'' \<notin> set k"

lemma parse_path_dot_free [simp]: "dot_free k \<Longrightarrow> parse_path k = (k, [])"
  by (simp add: dot_free_def parse_path_def)

lemma valid_key_dot_free: "is_valid_key k \<Longrightarrow> dot_free k"
  by (auto simp: is_valid_key_def dot_free_def list_all_iff is_alnum_def)

text \<open>Bounds: a transaction has at most this many operations, and an event at most this size.\<close>

definition MAX_OPS :: nat where "MAX_OPS = 2000"
definition MAX_EVENT :: nat where "MAX_EVENT = 2 ^ 20"

definition request_fits :: "('d, 'z) json_lib_scheme \<Rightarrow> string \<Rightarrow> 'd operation_info_t \<Rightarrow> bool" where
  "request_fits E src op \<longleftrightarrow>
     (case op of
        put_info_t task c k doc \<Rightarrow> \<forall>pb pi v tx. length (js_write E (new_version_event src pb pi doc v tx)) \<le> MAX_EVENT
      | remove_info_t task c k \<Rightarrow> \<forall>pb pi tx. length (js_write E (tombstone_event src pb pi tx)) \<le> MAX_EVENT
      | _ \<Rightarrow> True)"

text \<open>
  Operations for which the transaction gives its guarantees: written documents are valid and without a policy,
  reads name objects (a path only where it is cut off), and queries are not checked for phantoms.
\<close>

fun request_ok :: "('d, 'z) json_lib_scheme \<Rightarrow> IsolationLevel \<Rightarrow> 'd operation_info_t \<Rightarrow> bool" where
  "request_ok E level (check_obj_info_t task c k p expected) \<longleftrightarrow> dot_free k"
| "request_ok E level (has_obj_info_t task c k expected) \<longleftrightarrow> dot_free k"
| "request_ok E level (get_info_t task c k eid) \<longleftrightarrow> level = ReadCommitted \<longrightarrow> dot_free k"
| "request_ok E level (put_info_t task c k doc) \<longleftrightarrow>
     is_valid_key k \<and> k \<noteq> ''policy'' \<and> js_valid E doc \<and> js_empty E (js_path E doc ''policy'')"
| "request_ok E level (add_info_t task c k doc) \<longleftrightarrow> False"
| "request_ok E level (remove_info_t task c k) \<longleftrightarrow> is_valid_key k \<and> k \<noteq> ''policy''"
| "request_ok E level (find_info_t task c p proj lim results) \<longleftrightarrow> level \<noteq> Serializable \<and> (\<forall>(k, eid)\<in>set results. dot_free k)"

definition context_ok :: "('d, 'z) json_lib_scheme \<Rightarrow> (taskid_t \<times> op_context) list \<Rightarrow> 'd operation_info_t \<Rightarrow> bool" where
  "context_ok E ctxs op \<longleftrightarrow>
     (case map_of ctxs (op_task op) of None \<Rightarrow> False | Some ctx \<Rightarrow> context_valid ctx \<and> request_fits E (context_to_string ctx) op)"

lemma get_op_context_ok:
  assumes "context_ok E (m_op_contexts tx) op"
  obtains ctx where "get_op_context (op_task op) tx = Inr ctx" "map_of (m_op_contexts tx) (op_task op) = Some ctx"
    "context_valid ctx" "request_fits E (context_to_string ctx) op"
  using assms by (auto simp: context_ok_def get_op_context_def split: option.splits)

section \<open>Reads\<close>

text \<open>
  What a transaction has read, against the objects \<open>H\<close>: \<open>R eid d\<close> says that the event \<open>eid\<close> holds the document \<open>d\<close>.
  A transaction that only reads committed data may have seen an older version.
\<close>

definition version_read :: "(event_id_t \<Rightarrow> 'd \<Rightarrow> bool) \<Rightarrow> IsolationLevel \<Rightarrow> 'd versions \<Rightarrow> event_id_t \<Rightarrow> bool" where
  "version_read R level vs eid \<longleftrightarrow> vs \<noteq> [] \<and> (level \<noteq> ReadCommitted \<longrightarrow> R eid (snd (hd vs)))"

fun reads_current ::
  "('d, 'z) json_lib_scheme \<Rightarrow> (event_id_t \<Rightarrow> 'd \<Rightarrow> bool) \<Rightarrow> IsolationLevel \<Rightarrow> 'd objects \<Rightarrow> 'd operation_info_t \<Rightarrow> bool" where
  "reads_current E R level H (check_obj_info_t task c k p expected) \<longleftrightarrow>
     expected = (H c k \<noteq> [] \<and> js_matches E (snd (hd (H c k))) p)"
| "reads_current E R level H (has_obj_info_t task c k expected) \<longleftrightarrow> expected = (H c k \<noteq> [])"
| "reads_current E R level H (get_info_t task c k eid) \<longleftrightarrow> version_read R level (H c (fst (parse_path k))) eid"
| "reads_current E R level H (find_info_t task c p proj lim results) \<longleftrightarrow> (\<forall>(k, eid)\<in>set results. version_read R level (H c k) eid)"
| "reads_current E R level H _ \<longleftrightarrow> True"

definition event_holds :: "('d, 'z) json_lib_scheme \<Rightarrow> ledger \<Rightarrow> event_id_t \<Rightarrow> 'd \<Rightarrow> bool" where
  "event_holds E l eid d \<longleftrightarrow> (\<exists>c. stored E l eid c \<and> event_value (Some c) = Inr d)"

lemma event_holds_extends: "extends E l l' \<Longrightarrow> event_holds E l eid d \<Longrightarrow> event_holds E l' eid d"
  by (auto simp: event_holds_def extends_def)

lemma event_holds_value:
  "json_roundtrip E \<Longrightarrow> ledger_wf E l \<Longrightarrow> event_holds E l eid d \<Longrightarrow> rbind (get_event E eid l) event_value = Inr d"
  by (auto simp: event_holds_def stored_get_event)

lemma reads_current_mono:
  assumes "\<And>eid d. R eid d \<Longrightarrow> R' eid d" and "reads_current E R level H op"
  shows "reads_current E R' level H op"
  using assms by (cases op) (auto simp: version_read_def)

text \<open>The shards an operation reads or writes.\<close>

fun read_shards :: "'d operation_info_t \<Rightarrow> shard_id_t set" where
  "read_shards (check_obj_info_t task c k p expected) = {op_get_shard c k}"
| "read_shards (has_obj_info_t task c k expected) = {op_get_shard c k}"
| "read_shards (get_info_t task c k eid) = {op_get_shard c k}"
| "read_shards (find_info_t task c p proj lim results) = (\<lambda>(k, eid). get_shard c k) ` set results"
| "read_shards _ = {}"

fun write_shards :: "'d operation_info_t \<Rightarrow> shard_id_t set" where
  "write_shards (put_info_t task c k doc) = {op_get_shard c k}"
| "write_shards (add_info_t task c k doc) = {op_get_shard c k}"
| "write_shards (remove_info_t task c k) = {get_shard c k}"
| "write_shards _ = {}"

lemma reads_current_frame:
  assumes "\<And>c k. get_shard c k \<in> read_shards op \<Longrightarrow> H' c k = H c k" and "request_ok E level op" and "reads_current E R level H op"
  shows "reads_current E R level H' op"
  using assms by (cases op) (force simp: op_get_shard_def)+

definition locks_cover :: "(shard_id_t \<times> LockType) list \<Rightarrow> 'd operation_info_t \<Rightarrow> bool" where
  "locks_cover types op \<longleftrightarrow> (\<forall>s\<in>read_shards op. map_of types s \<noteq> None) \<and> (\<forall>s\<in>write_shards op. map_of types s = Some Write)"

lemma set_read_lock_held: "map_of (m_shard_lock_types tx) s \<noteq> None \<Longrightarrow> set_read_lock s tx = tx"
  by (auto simp: set_read_lock_def)

section \<open>Validation\<close>

lemma latest_version_cases:
  assumes rep: "ledger_rep E l H" and plain: "plain_objects E H"
  obtains (absent) eid where "H c k = []" "get_latest_version E ctx c k [] GetObject l = Some (Inr (eid, None))"
  | (present) eid ev where "H c k \<noteq> []" "get_latest_version E ctx c k [] GetObject l = Some (Inr (eid, Some ev))"
      "event_holds E l eid (snd (hd (H c k)))" "event_value (Some ev) = Inr (snd (hd (H c k)))"
proof (cases "H c k = []")
  case True
  then show ?thesis using absent get_latest_version_correct [OF rep plain_no_policy [OF plain], of c k ctx "[]" GetObject] by auto
next
  case False
  obtain eid ev where ev: "get_latest_version E ctx c k [] GetObject l = Some (Inr (eid, Some ev))" "stored E l eid ev"
      "version_chain E l (get_shard c k) ev (H c k)"
    using get_latest_version_correct [OF rep plain_no_policy [OF plain], of c k ctx "[]" GetObject] False by auto
  note val = version_chainD(3) [OF ev(3)]
  have "event_holds E l eid (snd (hd (H c k)))" unfolding event_holds_def using ev(2) val by blast
  then show ?thesis using present [OF False ev(1)] val by blast
qed

text \<open>The outcome of a validation: it returns, keeps the request, and success means that the reads are current.\<close>

definition validated :: "('d, 'z) json_lib_scheme \<Rightarrow> ledger \<Rightarrow> 'd objects \<Rightarrow> 'd transaction \<Rightarrow> bool \<Rightarrow> (bool, 'd) tx_result \<Rightarrow> bool" where
  "validated E l H tx ok r \<longleftrightarrow> (\<exists>b tx'. r = Some (Inr b, tx') \<and> same_request tx tx' \<and> (b \<longrightarrow> ok))"

lemma validatedI: "same_request tx tx' \<Longrightarrow> (b \<Longrightarrow> ok) \<Longrightarrow> validated E l H tx ok (Some (Inr b, tx'))"
  by (auto simp: validated_def)

lemma check_repeatable_read_cases:
  assumes rep: "ledger_rep E l H" and plain: "plain_objects E H" and ctx: "get_op_context task tx = Inr ctx"
    and lock: "map_of (m_shard_lock_types tx) s \<noteq> None"
  obtains (outdated) tx' where "check_repeatable_read E c k s eid task l tx = Some (Inr None, tx')" "same_request tx tx'"
  | (current) ev where "check_repeatable_read E c k s eid task l tx = Some (Inr (Some ev), tx)" "H c (fst (parse_path k)) \<noteq> []"
      "event_holds E l eid (snd (hd (H c (fst (parse_path k)))))" "event_value (Some ev) = Inr (snd (hd (H c (fst (parse_path k)))))"
  using rep plain
proof (cases rule: latest_version_cases [where c = c and k = "fst (parse_path k)" and ctx = ctx])
  case (absent eid')
  then show ?thesis
    using outdated [of "set_error (''Non-repeatable read: key ['' @ fst (parse_path k) @ ''] reads outdated value'') tx"] ctx
    by (simp add: check_repeatable_read_def set_read_lock_held [OF lock] Let_def)
next
  case (present eid' ev)
  show ?thesis
  proof (cases "eid' = eid")
    case True
    then show ?thesis using present current ctx by (simp add: check_repeatable_read_def set_read_lock_held [OF lock] Let_def)
  next
    case False
    then show ?thesis
      using present ctx outdated [of "set_error (''Non-repeatable read: key ['' @ fst (parse_path k) @ ''] reads outdated value'') tx"]
      by (simp add: check_repeatable_read_def set_read_lock_held [OF lock] Let_def)
  qed
qed

lemma validate_get_current:
  assumes rep: "ledger_rep E l H" and plain: "plain_objects E H" and ctx: "get_op_context task tx = Inr ctx"
    and lock: "map_of (m_shard_lock_types tx) (op_get_shard c k) \<noteq> None" and k: "m_isolation tx = ReadCommitted \<Longrightarrow> dot_free k"
  shows "validated E l H tx (version_read (event_holds E l) (m_isolation tx) (H c (fst (parse_path k))) eid)
           (validate_get E gw task c k eid l tx)"
proof (cases "m_isolation tx = ReadCommitted")
  case True
  from rep plain show ?thesis
  proof (cases rule: latest_version_cases [where c = c and k = k and ctx = ctx])
    case (absent eid')
    then show ?thesis using True ctx by (simp add: validate_get_def validatedI)
  next
    case (present eid' ev)
    then show ?thesis using True ctx k by (auto simp: validate_get_def version_read_def intro!: validatedI)
  qed
next
  case False
  from rep plain ctx lock show ?thesis
  proof (cases rule: check_repeatable_read_cases [where c = c and k = k and eid = eid])
    case (outdated tx')
    then show ?thesis using False by (simp add: validate_get_def validatedI)
  next
    case (current ev)
    then show ?thesis using False by (auto simp: validate_get_def version_read_def intro!: validatedI)
  qed
qed

lemma find_write_witness_ok: "event_value hdl = Inr d \<Longrightarrow> \<exists>items'. find_write_witness gw k eid f hdl items = Inr items'"
  by (simp add: find_write_witness_def)

lemma validate_no_dirty_read_current:
  assumes rep: "ledger_rep E l H" and plain: "plain_objects E H" and ctx: "get_op_context task tx = Inr ctx"
  shows "\<exists>res tx'. validate_no_dirty_read E gw task c l results items tx = Some (Inr res, tx') \<and> same_request tx tx' \<and>
     (res \<noteq> None \<longrightarrow> (\<forall>(k, eid)\<in>set results. H c k \<noteq> []))"
proof (induction results arbitrary: items)
  case (Cons r results)
  obtain k eid where r: "r = (k, eid)" by force
  from rep plain show ?case
  proof (cases rule: latest_version_cases [where c = c and k = k and ctx = ctx])
    case (absent eid')
    then show ?thesis using ctx r by simp
  next
    case (present eid' ev)
    obtain items' where "find_write_witness gw k eid id (Some ev) items = Inr items'" using find_write_witness_ok [OF present(4)] by blast
    then show ?thesis using present ctx r Cons [of items'] by auto
  qed
qed simp

lemma validate_repeatable_read_current:
  assumes rep: "ledger_rep E l H" and plain: "plain_objects E H" and ctx: "get_op_context task tx = Inr ctx"
  shows "(\<forall>(k, eid)\<in>set results. dot_free k \<and> map_of (m_shard_lock_types tx) (get_shard c k) \<noteq> None) \<Longrightarrow>
     \<exists>res tx'. validate_repeatable_read E gw task c l results items tx = Some (Inr res, tx') \<and> same_request tx tx' \<and>
     (res \<noteq> None \<longrightarrow> (\<forall>(k, eid)\<in>set results. H c k \<noteq> [] \<and> event_holds E l eid (snd (hd (H c k)))))"
proof (induction results arbitrary: items)
  case (Cons r results)
  obtain k eid where r: "r = (k, eid)" by force
  have lock: "map_of (m_shard_lock_types tx) (get_shard c k) \<noteq> None" and k: "dot_free k" using Cons.prems r by auto
  from rep plain ctx lock show ?case
  proof (cases rule: check_repeatable_read_cases [where c = c and k = k and eid = eid])
    case (outdated tx')
    then show ?thesis using r by simp
  next
    case (current ev)
    obtain items' where "find_write_witness gw k eid id (Some ev) items = Inr items'" using find_write_witness_ok [OF current(4)] by blast
    then show ?thesis using current r k Cons.IH [of items'] Cons.prems by auto
  qed
qed simp

lemma validate_find_current:
  assumes rep: "ledger_rep E l H" and plain: "plain_objects E H" and ctx: "get_op_context task tx = Inr ctx"
    and level: "m_isolation tx \<noteq> Serializable"
    and results: "\<forall>(k, eid)\<in>set results. dot_free k \<and> map_of (m_shard_lock_types tx) (get_shard c k) \<noteq> None"
  shows "validated E l H tx (\<forall>(k, eid)\<in>set results. version_read (event_holds E l) (m_isolation tx) (H c k) eid)
           (validate_find E gw task c p proj lim results l tx)"
proof (cases "m_isolation tx")
  case ReadCommitted
  obtain res tx' where "validate_no_dirty_read E gw task c l results [] tx = Some (Inr res, tx')" "same_request tx tx'"
      "res \<noteq> None \<longrightarrow> (\<forall>(k, eid)\<in>set results. H c k \<noteq> [])"
    using validate_no_dirty_read_current [OF rep plain ctx] by blast
  then show ?thesis
    using ReadCommitted by (cases res) (auto simp: validate_find_def version_read_def intro!: validatedI intro: same_request_trans)
next
  case RepeatableRead
  obtain res tx' where "validate_repeatable_read E gw task c l results [] tx = Some (Inr res, tx')" "same_request tx tx'"
      "res \<noteq> None \<longrightarrow> (\<forall>(k, eid)\<in>set results. H c k \<noteq> [] \<and> event_holds E l eid (snd (hd (H c k))))"
    using validate_repeatable_read_current [OF rep plain ctx results] by blast
  then show ?thesis
    using RepeatableRead by (cases res) (auto simp: validate_find_def version_read_def intro!: validatedI intro: same_request_trans)
qed (use level in simp)

lemma validate_write_ok:
  assumes rep: "ledger_rep E l H" and plain: "plain_objects E H" and ctx: "get_op_context task tx = Inr ctx" and k: "is_valid_key k"
  shows "validate_write E task c k path t l tx = Some (Inr True, tx)"
  using prepare_write_plain [OF rep _ k, of c ctx path t] plain ctx by (simp add: validate_write_def plain_objects_def)

text \<open>No shard that the transaction writes is read by a check.\<close>

definition no_self_block :: "'d transaction \<Rightarrow> bool" where
  "no_self_block tx \<longleftrightarrow>
     (\<forall>op\<in>set (m_ops tx). case op of check_obj_info_t task c k p e \<Rightarrow> map_of (m_shard_lock_types tx) (get_shard c k) = Some Read | _ \<Rightarrow> True)"

definition check_unblocked :: "lock_world \<Rightarrow> 'd operation_info_t \<Rightarrow> bool" where
  "check_unblocked lw op \<longleftrightarrow> (case op of check_obj_info_t task c k p e \<Rightarrow> 0 \<le> w_count lw (get_shard c k) | _ \<Rightarrow> True)"

lemma validate_current:
  assumes rep: "ledger_rep E l H" and plain: "plain_objects E H"
    and ok: "request_ok E (m_isolation tx) op" and ctx: "context_ok E (m_op_contexts tx) op"
    and cover: "locks_cover (m_shard_lock_types tx) op" and free: "check_unblocked lw op"
  shows "validated E l H tx (reads_current E (event_holds E l) (m_isolation tx) H op) (validate E gw op lw l tx)"
proof -
  obtain ctx where c: "get_op_context (op_task op) tx = Inr ctx" by (rule get_op_context_ok [OF ctx])
  show ?thesis
  proof (cases op)
    case (check_obj_info_t task c k p e)
    have "lock_call ReadLock n = (None, n + 1)" if "0 \<le> n" for n using that by (simp add: lock_call_def loop_body_defs)
    then have "lock_call ReadLock (w_count lw (get_shard c k)) = (None, w_count lw (get_shard c k) + 1)"
      using free check_obj_info_t by (simp add: check_unblocked_def)
    then show ?thesis
      using check_obj_info_t \<open>get_op_context (op_task op) tx = Inr ctx\<close> check_correct [OF rep plain_no_policy [OF plain], of ctx c k p]
      by (auto simp: validate_defs intro!: validatedI)
  next
    case (has_obj_info_t task c k e)
    then show ?thesis using has_object_correct [OF rep, of c k] by (auto simp: validate_defs intro!: validatedI)
  next
    case (get_info_t task c k eid)
    then show ?thesis
      using validate_get_current [OF rep plain, of task tx ctx c k] c cover ok by (auto simp: locks_cover_def)
  next
    case (put_info_t task c k doc)
    then show ?thesis
      using validate_write_ok [OF rep plain] c ok valid_key_dot_free [of k] by (auto simp: validate_defs intro!: validatedI)
  next
    case (remove_info_t task c k)
    then show ?thesis using validate_write_ok [OF rep plain] c ok by (auto simp: validate_defs intro!: validatedI)
  next
    case (find_info_t task c p proj lim results)
    have "\<forall>(k, eid)\<in>set results. dot_free k \<and> map_of (m_shard_lock_types tx) (get_shard c k) \<noteq> None"
      using find_info_t cover ok by (auto simp: locks_cover_def)
    then show ?thesis using validate_find_current [OF rep plain, of task tx ctx] c find_info_t ok by auto
  qed (use ok in simp)
qed

lemma validate_all_current:
  assumes rep: "ledger_rep E l H" and plain: "plain_objects E H"
  shows "(\<forall>op\<in>set ops. request_ok E (m_isolation tx) op \<and> context_ok E (m_op_contexts tx) op \<and>
      locks_cover (m_shard_lock_types tx) op \<and> check_unblocked lw op) \<Longrightarrow>
    validated E l H tx (\<forall>op\<in>set ops. reads_current E (event_holds E l) (m_isolation tx) H op) (validate_all E gw ops lw l tx)"
proof (induction ops arbitrary: tx)
  case (Cons op ops)
  have ok: "request_ok E (m_isolation tx) op" "context_ok E (m_op_contexts tx) op" "locks_cover (m_shard_lock_types tx) op"
    "check_unblocked lw op" using Cons.prems by auto
  obtain b tx' where v: "validate E gw op lw l tx = Some (Inr b, tx')" "same_request tx tx'"
      "b \<longrightarrow> reads_current E (event_holds E l) (m_isolation tx) H op"
    using validate_current [OF rep plain ok] unfolding validated_def by blast
  note same = same_request_fields [OF v(2)]
  have "validated E l H tx' (\<forall>op\<in>set ops. reads_current E (event_holds E l) (m_isolation tx) H op) (validate_all E gw ops lw l tx')"
    using Cons.IH [of tx'] Cons.prems same by simp
  then show ?case using v same_request_trans [OF v(2)] by (auto simp: validated_def)
qed (simp add: validatedI)

section \<open>Writes\<close>

fun write_request :: "(taskid_t \<times> op_context) list \<Rightarrow> 'd operation_info_t \<Rightarrow> 'd objects \<Rightarrow> 'd objects" where
  "write_request ctxs (put_info_t task c k doc) H =
     (case map_of ctxs task of None \<Rightarrow> H | Some ctx \<Rightarrow> set_object c k (put_version (context_to_string ctx, doc) (H c k)) H)"
| "write_request ctxs (remove_info_t task c k) H = set_object c k [] H"
| "write_request ctxs _ H = H"

definition apply_requests :: "'d transaction \<Rightarrow> 'd objects \<Rightarrow> 'd objects" where
  "apply_requests tx H = fold (write_request (m_op_contexts tx)) (m_ops tx) H"

lemma write_request_frame:
  assumes "get_shard c k \<notin> write_shards op" and "request_ok E level op"
  shows "write_request ctxs op H c k = H c k"
  using assms valid_key_dot_free by (cases op) (auto simp: set_object_def op_get_shard_def split: option.splits)

lemma write_requests_frame:
  "(\<forall>op\<in>set ops. get_shard c k \<notin> write_shards op \<and> request_ok E level op) \<Longrightarrow> fold (write_request ctxs) ops H c k = H c k"
  by (induction ops arbitrary: H) (auto simp: write_request_frame)

text \<open>The state of the ledger between the writes of a transaction.\<close>

definition written :: "('d, 'z) json_lib_scheme \<Rightarrow> nat set \<Rightarrow> 'd objects \<Rightarrow> ledger \<Rightarrow> ledger \<Rightarrow> bool" where
  "written E S H l l' \<longleftrightarrow> ledger_holds E l' H \<and> plain_objects E H \<and> small_except S l' \<and> extends E l l' \<and>
     m_next_page_no (m_blocks l') = m_next_page_no (m_blocks l)"

lemma written_trans: "written E S H1 l l1 \<Longrightarrow> written E T H2 l1 l2 \<Longrightarrow> written E T H2 l l2"
  unfolding written_def using extends_trans by fastforce

lemma written_update:
  assumes rep: "ledger_holds E l H" and upd: "object_updated E c k eid ev l l1" and key: "k \<noteq> []" "k \<noteq> ''policy''"
    and ev: "if vs = [] then is_tombstone ev else version_chain E l1 (get_shard c k) ev vs" and plain: "plain_objects E H" "all_plain E vs"
    and small: "small_except S l"
  shows "written E (insert (unat (get_shard c k)) S) (set_object c k vs H) l l1"
proof -
  have wf: "ledger_wf E l" using rep by (simp add: ledger_holds_def)
  show ?thesis
    unfolding written_def
    using object_updated_holds [OF rep upd key(1) ev] plain_set_object [OF plain key(2)] object_updatedD(1,3) [OF upd wf] small upd
    by (simp add: object_updated_def)
qed

lemma put_written:
  assumes w: "ledger_holds E l H" "plain_objects E H" "small_except S l" and room: "room_for (Suc n) (MAX_EVENT + B) l"
    and ok: "request_ok E level (put_info_t task c k doc)" and ctx: "context_valid ctx"
    and fits: "request_fits E (context_to_string ctx) (put_info_t task c k doc)"
  obtains eid l1 where "apply_write E ctx c k doc [] True PutObject ref l = Some (Inr (eid, l1))" "room_for n B l1"
    "written E (insert (unat (get_shard c k)) S) (set_object c k (put_version (context_to_string ctx, doc) (H c k)) H) l l1"
proof -
  have wf: "ledger_wf E l" using w(1) by (simp add: ledger_holds_def)
  have key: "k \<noteq> []" "k \<noteq> ''policy''" and doc: "js_valid E doc" "js_empty E (js_path E doc ''policy'')" using ok by (auto simp: is_valid_key_def)
  have le: "length (js_write E (new_version_event (context_to_string ctx) pb pi doc v tx)) \<le> MAX_EVENT" for pb pi v tx
    using fits by (simp add: request_fits_def)
  have room1: "room_for (Suc n) (length (js_write E (new_version_event (context_to_string ctx) pb pi doc v ref)) + B) l" for pb pi v
    using le [of pb pi v ref] by (intro room_for_less [OF room]) simp_all
  note has = room_for_has_room [OF wf room1 get_shard_less]
  obtain eid l1 pb pi v where app: "apply_write E ctx c k doc [] True PutObject ref l = Some (Inr (eid, l1))"
    and upd: "object_updated E c k eid (new_version_event (context_to_string ctx) pb pi doc v ref) l l1"
    and chain: "version_chain E l1 (get_shard c k) (new_version_event (context_to_string ctx) pb pi doc v ref)
       (put_version (context_to_string ctx, doc) (H c k))"
    by (rule put_updated [OF w(1) ctx doc(1) has plain_permitted [OF w(2)]])
  have "all_plain E (put_version (context_to_string ctx, doc) (H c k))" using w(2) doc(2) by (simp add: plain_put_version plain_objects_def)
  moreover have "put_version (context_to_string ctx, doc) (H c k) \<noteq> []" by (simp add: put_version_def)
  ultimately have "written E (insert (unat (get_shard c k)) S) (set_object c k (put_version (context_to_string ctx, doc) (H c k)) H) l l1"
    using chain by (intro written_update [OF w(1) upd key _ w(2) _ w(3)]) simp_all
  then show ?thesis using that app object_updatedD(2) [OF upd wf room1] by blast
qed

lemma remove_written:
  assumes w: "ledger_holds E l H" "plain_objects E H" "small_except S l" and room: "room_for (Suc n) (MAX_EVENT + B) l"
    and ok: "request_ok E level (remove_info_t task c k)" and ctx: "context_valid ctx"
    and fits: "request_fits E (context_to_string ctx) (remove_info_t task c k)"
  obtains eid l1 where "apply_write E ctx c k doc [] True RemoveObject ref l = Some (Inr (eid, l1))" "room_for n B l1"
    "written E (insert (unat (get_shard c k)) S) (set_object c k [] H) l l1"
proof (cases "H c k = []")
  case True
  then have "set_object c k [] H = H" by (metis set_object_same)
  then have "written E (insert (unat (get_shard c k)) S) (set_object c k [] H) l l"
    using w small_except_mono [OF w(3)] by (auto simp: written_def)
  then show ?thesis using that remove_nothing [OF w(1) True] room_for_less [OF room, of n B] by simp
next
  case False
  have wf: "ledger_wf E l" using w(1) by (simp add: ledger_holds_def)
  have key: "k \<noteq> []" "k \<noteq> ''policy''" using ok by (auto simp: is_valid_key_def)
  have le: "length (js_write E (tombstone_event (context_to_string ctx) pb pi tx)) \<le> MAX_EVENT" for pb pi tx
    using fits by (simp add: request_fits_def)
  have room1: "room_for (Suc n) (length (js_write E (tombstone_event (context_to_string ctx) pb pi ref)) + B) l" for pb pi
    using le [of pb pi ref] by (intro room_for_less [OF room]) simp_all
  note has = room_for_has_room [OF wf room1 get_shard_less]
  obtain eid l1 pb pi where app: "apply_write E ctx c k doc [] True RemoveObject ref l = Some (Inr (eid, l1))"
    and upd: "object_updated E c k eid (tombstone_event (context_to_string ctx) pb pi ref) l l1"
    by (rule remove_updated [OF w(1) False ctx has plain_permitted [OF w(2)]])
  have "is_tombstone (tombstone_event (context_to_string ctx) pb pi ref)" by (auto simp: is_tombstone_def)
  then have "written E (insert (unat (get_shard c k)) S) (set_object c k [] H) l l1"
    by (intro written_update [OF w(1) upd key _ w(2) _ w(3)]) (simp_all add: all_plain_def)
  then show ?thesis using that app object_updatedD(2) [OF upd wf room1] by blast
qed

lemma do_write_written:
  assumes w: "ledger_holds E (tw_ledger w) H" "plain_objects E H" "small_except S (tw_ledger w)"
    and room: "room_for (Suc n) (MAX_EVENT + B) (tw_ledger w)"
    and ok: "request_ok E level op" and ctx: "context_ok E (m_op_contexts tx) op"
  obtains tx' l' where "do_write E ref gw op tx w = Some (Inr (), tx', w\<lparr>tw_ledger := l'\<rparr>)" "same_request tx tx'" "room_for n B l'"
    "written E (S \<union> unat ` write_shards op) (write_request (m_op_contexts tx) op H) (tw_ledger w) l'"
proof -
  obtain cx where c: "get_op_context (op_task op) tx = Inr cx" "map_of (m_op_contexts tx) (op_task op) = Some cx"
    "context_valid cx" "request_fits E (context_to_string cx) op" by (rule get_op_context_ok [OF ctx])
  note result = that
  have skip: ?thesis if "do_write E ref gw op tx w = Some (Inr (), tx, w)" "write_shards op = {}" "write_request (m_op_contexts tx) op H = H"
    using that assms room_for_less [OF room, of n B] result [of tx "tw_ledger w"] by (simp add: written_def)
  show ?thesis
  proof (cases op)
    case (put_info_t task c k doc)
    obtain eid l1 where l1: "apply_write E cx c k doc [] True PutObject ref (tw_ledger w) = Some (Inr (eid, l1))" "room_for n B l1"
      "written E (insert (unat (get_shard c k)) S) (set_object c k (put_version (context_to_string cx, doc) (H c k)) H) (tw_ledger w) l1"
      using put_written [OF w room] ok c(3,4) put_info_t by blast
    have "dot_free k" using ok put_info_t by (simp add: valid_key_dot_free)
    then show ?thesis
      using that [of "write_entry (is_valid eid \<and> gw) (PutObjectEntry c k eid doc) tx" l1] put_info_t l1 c
      by (simp add: do_write_put_def apply_op_def op_get_shard_def)
  next
    case (remove_info_t task c k)
    obtain eid l1 where l1: "apply_write E cx c k (tx_no_document E) [] True RemoveObject ref (tw_ledger w) = Some (Inr (eid, l1))"
      "room_for n B l1" "written E (insert (unat (get_shard c k)) S) (set_object c k [] H) (tw_ledger w) l1"
      using remove_written [OF w room] ok c(3,4) remove_info_t by blast
    then show ?thesis
      using that [of "write_entry gw (RemoveObjectEntry k eid) tx" l1] remove_info_t c by (simp add: do_write_remove_def apply_op_def)
  qed (use skip ok in simp_all)
qed

lemma do_writes_written:
  assumes "ledger_holds E (tw_ledger w) H" "plain_objects E H" "small_except S (tw_ledger w)"
    and "room_for (length ops) (length ops * MAX_EVENT) (tw_ledger w)"
    and "\<forall>op\<in>set ops. request_ok E level op \<and> context_ok E (m_op_contexts tx) op"
  shows "\<exists>tx' l'. do_writes E ref gw ops tx w = Some (Inr (), tx', w\<lparr>tw_ledger := l'\<rparr>) \<and> same_request tx tx' \<and>
    written E (S \<union> unat ` (\<Union>op\<in>set ops. write_shards op)) (fold (write_request (m_op_contexts tx)) ops H) (tw_ledger w) l'"
  using assms
proof (induction ops arbitrary: tx w H S)
  case Nil
  then show ?case by (auto simp: written_def intro!: exI [of _ tx] exI [of _ "tw_ledger w"])
next
  case (Cons op ops)
  have room: "room_for (Suc (length ops)) (MAX_EVENT + length ops * MAX_EVENT) (tw_ledger w)" using Cons.prems(4) by simp
  have ok: "request_ok E level op" "context_ok E (m_op_contexts tx) op" using Cons.prems(5) by auto
  obtain tx1 l1 where one: "do_write E ref gw op tx w = Some (Inr (), tx1, w\<lparr>tw_ledger := l1\<rparr>)" "same_request tx tx1"
      "room_for (length ops) (length ops * MAX_EVENT) l1"
      "written E (S \<union> unat ` write_shards op) (write_request (m_op_contexts tx) op H) (tw_ledger w) l1"
    by (rule do_write_written [OF Cons.prems(1-3) room ok])
  let ?H = "write_request (m_op_contexts tx) op H" and ?S = "S \<union> unat ` write_shards op"
  have st: "ledger_holds E l1 ?H" "plain_objects E ?H" "small_except ?S l1" using one(4) by (auto simp: written_def)
  note same = same_request_fields [OF one(2)]
  obtain tx2 l2 where "do_writes E ref gw ops tx1 (w\<lparr>tw_ledger := l1\<rparr>) = Some (Inr (), tx2, w\<lparr>tw_ledger := l2\<rparr>)" "same_request tx1 tx2"
      "written E (?S \<union> unat ` (\<Union>op\<in>set ops. write_shards op)) (fold (write_request (m_op_contexts tx)) ops ?H) l1 l2"
    using Cons.IH [of "w\<lparr>tw_ledger := l1\<rparr>" ?H ?S tx1] st one(3) Cons.prems(5) same by auto
  then show ?case
    using one(1) same_request_trans [OF one(2)] written_trans [OF one(4)] by (auto simp: image_Un Un_assoc)
qed

section \<open>Locks\<close>

lemma acquire_locks_table:
  assumes "lock_table hs lw" and "h \<in> hs" and "h_nonblocking (w_handles lw h)" and "distinct (map fst types)"
    and "\<forall>(s, t)\<in>set types. lock_entry lw h s = None" and "acquire_locks h types lw = (r, lw')"
  shows "lock_table hs lw' \<and> (\<forall>h'. h' \<noteq> h \<longrightarrow> w_handles lw' h' = w_handles lw h') \<and> h_nonblocking (w_handles lw' h) \<and>
    (case r of None \<Rightarrow> (\<forall>(s, t)\<in>set types. lock_entry lw' h s = Some (new_lock_info t)) | Some e \<Rightarrow> e = WouldBlock) \<and>
    (\<forall>s. s \<notin> fst ` set types \<longrightarrow> lock_entry lw' h s = lock_entry lw h s)"
  using assms
proof (induction types arbitrary: lw)
  case (Cons st types)
  obtain s t where st: "st = (s, t)" by force
  have root: "h_parent (w_handles lw h) = None" using Cons.prems(1,2) by (simp add: lock_table_def)
  have none: "lock_entry lw h s = None" using Cons.prems(5) st by simp
  obtain r1 lw1 where run: "get_shard_lock h s t False lw = (r1, lw1)" by force
  note tab = get_shard_lock_table [OF Cons.prems(1,2) none run]
  note frame = get_shard_lock_frame [OF root run]
  show ?case
  proof (cases r1)
    case None
    have fresh: "\<forall>(s', t')\<in>set types. lock_entry lw1 h s' = None"
      using Cons.prems(4,5) st frame(3) by (fastforce simp: image_iff)
    have "acquire_locks h types lw1 = (r, lw')" using Cons.prems(6) None st run by simp
    with Cons.IH [of lw1] tab Cons.prems(2,3,4) frame fresh None
    have IH: "lock_table hs lw'" "\<forall>h'. h' \<noteq> h \<longrightarrow> w_handles lw' h' = w_handles lw1 h'" "h_nonblocking (w_handles lw' h)"
      "case r of None \<Rightarrow> (\<forall>(s, t)\<in>set types. lock_entry lw' h s = Some (new_lock_info t)) | Some e \<Rightarrow> e = WouldBlock"
      "\<forall>s. s \<notin> fst ` set types \<longrightarrow> lock_entry lw' h s = lock_entry lw1 h s" by auto
    have "lock_entry lw' h s = lock_entry lw1 h s" using IH(5) Cons.prems(4) st by auto
    then have "lock_entry lw' h s = Some (new_lock_info t)" using get_shard_lock_new [OF root none] run None by simp
    then show ?thesis using IH frame st by (auto split: option.splits)
  next
    case (Some e)
    then show ?thesis
      using Cons.prems(6) st run tab(1) frame get_shard_lock_error [OF root Cons.prems(3) none] by (auto simp: Cons.prems(3))
  qed
qed simp

lemma read_lock_count:
  assumes tab: "lock_table hs w" and h: "h \<in> hs" and held: "lock_entry w h s = Some (new_lock_info Read)"
  shows "0 \<le> w_count w s"
proof -
  have "shard_ok (lock_entry w h s) (others hs w h s) (w_count w s)" using table_root_inv [OF tab h] by (simp add: root_inv_def)
  then show ?thesis using held by (simp add: new_lock_info_def)
qed

lemma write_lock_count:
  assumes tab: "lock_table hs w" and h: "h \<in> hs" and held: "lock_entry w h s = Some (new_lock_info Write)"
  shows "w_count w s < 0"
proof -
  have "shard_ok (lock_entry w h s) (others hs w h s) (w_count w s)" using table_root_inv [OF tab h] by (simp add: root_inv_def)
  then show ?thesis using held by (simp add: new_lock_info_def)
qed

text \<open>A check whose shard the transaction has locked for writing waits, unless an operation before it is refused.\<close>

lemma validate_all_blocked:
  assumes rep: "ledger_rep E l H" and plain: "plain_objects E H"
  shows "(\<forall>op\<in>set ops. request_ok E (m_isolation tx) op \<and> context_ok E (m_op_contexts tx) op \<and> locks_cover (m_shard_lock_types tx) op) \<Longrightarrow>
    (\<exists>op\<in>set ops. \<not> check_unblocked lw op) \<Longrightarrow>
    \<exists>r tx'. validate_all E gw ops lw l tx = Some (r, tx') \<and> same_request tx tx' \<and> (r = Inr False \<or> r = Inl Blocked)"
proof (induction ops arbitrary: tx)
  case (Cons op ops)
  have ok: "request_ok E (m_isolation tx) op" "context_ok E (m_op_contexts tx) op" "locks_cover (m_shard_lock_types tx) op"
    using Cons.prems(1) by auto
  show ?case
  proof (cases "check_unblocked lw op")
    case True
    obtain b tx' where v: "validate E gw op lw l tx = Some (Inr b, tx')" "same_request tx tx'"
      using validate_current [OF rep plain ok True] unfolding validated_def by blast
    note same = same_request_fields [OF v(2)]
    have "\<exists>r tx''. validate_all E gw ops lw l tx' = Some (r, tx'') \<and> same_request tx' tx'' \<and> (r = Inr False \<or> r = Inl Blocked)"
      using Cons.IH [of tx'] Cons.prems True same by simp
    then show ?thesis using v same_request_trans [OF v(2)] by (cases b) auto
  next
    case False
    then obtain task c k p e where op: "op = check_obj_info_t task c k p e" "w_count lw (get_shard c k) < 0"
      by (cases op) (auto simp: check_unblocked_def)
    then have "fst (lock_call ReadLock (w_count lw (get_shard c k))) = Some Blocked" by (simp add: lock_call_def loop_body_defs)
    moreover obtain ctx where "get_op_context task tx = Inr ctx" using get_op_context_ok [OF ok(2)] op(1) by auto
    ultimately show ?thesis using op(1) by (auto simp: validate_defs)
  qed
qed simp

end
