(* ===== verification/Transaction_System.thy ===== *)
theory Transaction_System
  imports Transaction_Effects
begin

text \<open>
  Any number of transactions, with their operations in any order: each is created, collects operations, is
  prepared, committed or aborted, while the others do the same. \<open>tx_step\<close> is one call of the code; \<open>tx_steps\<close>
  are the sequences of calls that respect the bounds of the data structures. Shown by rule induction over
  them: the objects of the ledger are what the committed transactions give when they are executed one after
  the other in the order of their commits, and in that execution each of them reads what it has read; every
  call returns; the destructor of the manager ends and gives back all locks.
\<close>

section \<open>Calls\<close>

datatype 'd tx_command =
    TxBegin identity_uid_t IsolationLevel taskid_t op_context
  | TxRegister nat "'d operation_info_t"
  | TxPrepare nat bool
  | TxCommit nat bool
  | TxAbort nat

datatype tx_reply = Began nat | Registered | Voted bool | Applied witness | Discarded

definition map_reply :: "('a \<Rightarrow> tx_reply) \<Rightarrow> ('a result \<times> 'd tx_world) option \<Rightarrow> (tx_reply result \<times> 'd tx_world) option" where
  "map_reply f r = map_option (\<lambda>(x, w). (rbind x (\<lambda>v. Inr (f v)), w)) r"

definition update_object :: "nat \<Rightarrow> 'd transaction \<Rightarrow> 'd tx_world \<Rightarrow> 'd tx_world" where
  "update_object p tx w = w\<lparr>tw_objects := (tw_objects w)(p := tx)\<rparr>"

fun tx_step :: "('d, 'z) tx_env_scheme \<Rightarrow> 'd tx_command \<Rightarrow> 'd tx_world \<Rightarrow> (tx_reply result \<times> 'd tx_world) option" where
  "tx_step E (TxBegin uid level task ctx) w =
     (let (p, w') = init_local_transaction uid level w in Some (Inr (Began p), update_object p (init_task task ctx (tw_objects w' p)) w'))"
| "tx_step E (TxRegister p op) w = Some (Inr Registered, update_object p (register_operation op (tw_objects w p)) w)"
| "tx_step E (TxPrepare p gw) w = map_reply Voted (tx_call p (prepare E gw) w)"
| "tx_step E (TxCommit p gw) w = map_reply Applied (tx_call p (commit E gw) w)"
| "tx_step E (TxAbort p) w = map_reply (\<lambda>_. Discarded) (tx_call p abort w)"

text \<open>
  The calls the development speaks about: identifiers of running transactions do not repeat, operations are
  added only while the transaction is pending, and the page numbers and the record of the transaction
  stay within their bounds.
\<close>

definition record_fits :: "('d, 'z) tx_env_scheme \<Rightarrow> 'd transaction \<Rightarrow> ledger \<Rightarrow> bool" where
  "record_fits E tx l \<longleftrightarrow>
     (case commit_op_sets tx l of
        Inl e \<Rightarrow> True
      | Inr sets \<Rightarrow> length (v_write (tx_values E) (transaction_record (m_op_contexts tx) (m_root tx) (m_identifier tx) sets [])) < 2 ^ 31)"

fun command_ok :: "('d, 'z) tx_env_scheme \<Rightarrow> 'd tx_world \<Rightarrow> 'd tx_command \<Rightarrow> bool" where
  "command_ok E w (TxBegin uid level task ctx) \<longleftrightarrow> map_of (tw_transactions w) (uid, tw_id_counter w) = None"
| "command_ok E w (TxRegister p op) \<longleftrightarrow> p < tw_next_object w \<and> m_state (tw_objects w p) = Pending \<and>
     request_ok E (m_isolation (tw_objects w p)) op \<and> context_ok E (m_op_contexts (tw_objects w p)) op \<and>
     length (m_ops (tw_objects w p)) < MAX_OPS"
| "command_ok E w (TxPrepare p gw) \<longleftrightarrow> p < tw_next_object w"
| "command_ok E w (TxCommit p gw) \<longleftrightarrow> p < tw_next_object w \<and> can_allocate (tl_blocks (tw_tx_ledger w)) \<and>
     unat (m_next_page_no (m_blocks (tw_ledger w))) + NUM_SHARDS < 2 ^ 32 - 1 \<and> record_fits E (tw_objects w p) (tw_ledger w)"
| "command_ok E w (TxAbort p) \<longleftrightarrow> p < tw_next_object w"

text \<open>
  A transaction that checks a condition on an object and writes to the same shard waits for its own lock when it is prepared, since the check
  takes a lock of its own (\<open>op_info.cpp\<close>, line 47). The call does not return; the sequences of calls below leave it out.
\<close>

fun waits_for_itself :: "'d tx_world \<Rightarrow> 'd tx_command \<Rightarrow> bool" where
  "waits_for_itself w (TxPrepare p gw) \<longleftrightarrow> m_state (tw_objects w p) = Pending \<and> \<not> no_self_block (tw_objects w p)"
| "waits_for_itself w cmd \<longleftrightarrow> False"

fun committed_by :: "'d tx_command \<Rightarrow> tx_reply result \<Rightarrow> 'd tx_world \<Rightarrow> 'd transaction list" where
  "committed_by (TxCommit p gw) (Inr _) w = [tw_objects w p]"
| "committed_by _ _ w = []"

inductive tx_steps :: "('d, 'z) tx_env_scheme \<Rightarrow> 'd tx_world \<Rightarrow> 'd transaction list \<Rightarrow> 'd tx_world \<Rightarrow> bool" for E w0 where
  start: "tx_steps E w0 [] w0"
| step: "tx_steps E w0 hist w \<Longrightarrow> command_ok E w cmd \<Longrightarrow> \<not> waits_for_itself w cmd \<Longrightarrow> tx_step E cmd w = Some (r, w') \<Longrightarrow>
     tx_steps E w0 (hist @ committed_by cmd r w) w'"

section \<open>The invariant\<close>

definition running :: "'d transaction \<Rightarrow> bool" where
  "running tx \<longleftrightarrow> m_state tx = Pending \<or> m_state tx = Prepared"

definition object_inv ::
  "('d, 'z) tx_env_scheme \<Rightarrow> ledger \<Rightarrow> 'd objects \<Rightarrow> handle \<Rightarrow> ((identity_uid_t \<times> transaction_id_t) \<times> nat) list \<Rightarrow> nat \<Rightarrow> 'd transaction \<Rightarrow> bool" where
  "object_inv E l H hdl table p tx \<longleftrightarrow>
     m_lock_handle tx = p \<and> h_nonblocking hdl \<and> distinct (map fst (m_shard_lock_types tx)) \<and>
     (\<forall>(s, t)\<in>set (m_shard_lock_types tx). unat s < NUM_SHARDS) \<and> length (m_ops tx) \<le> MAX_OPS \<and>
     (\<forall>op\<in>set (m_ops tx). request_ok E (m_isolation tx) op \<and> context_ok E (m_op_contexts tx) op \<and> locks_cover (m_shard_lock_types tx) op) \<and>
     (map_of table (m_root tx, m_identifier tx) = Some p \<longleftrightarrow> running tx) \<and>
     (if m_state tx = Prepared
      then (\<forall>(s, t)\<in>set (m_shard_lock_types tx). map_of (h_locks hdl) s = Some (new_lock_info t)) \<and>
           (\<forall>op\<in>set (m_ops tx). reads_current E (event_holds E l) (m_isolation tx) H op)
      else h_locks hdl = [])"

definition tx_inv :: "('d, 'z) tx_env_scheme \<Rightarrow> 'd objects \<Rightarrow> 'd tx_world \<Rightarrow> bool" where
  "tx_inv E H w \<longleftrightarrow>
     ledger_rep E (tw_ledger w) H \<and> plain_objects E H \<and> tl_wf (tw_tx_ledger w) \<and> lock_table {..<tw_next_object w} (tw_locks w) \<and>
     distinct (map fst (tw_transactions w)) \<and>
     (\<forall>(key, p)\<in>set (tw_transactions w). p < tw_next_object w \<and> key = (m_root (tw_objects w p), m_identifier (tw_objects w p))) \<and>
     (\<forall>p<tw_next_object w. object_inv E (tw_ledger w) H (w_handles (tw_locks w) p) (tw_transactions w) p (tw_objects w p))"

lemma object_inv_frame:
  assumes inv: "object_inv E l H hdl table q tx" and ext: "extends E l l'"
    and table: "map_of table' (m_root tx, m_identifier tx) = Some q \<longleftrightarrow> map_of table (m_root tx, m_identifier tx) = Some q"
    and H: "\<And>op c k. m_state tx = Prepared \<Longrightarrow> op \<in> set (m_ops tx) \<Longrightarrow> get_shard c k \<in> read_shards op \<Longrightarrow> H' c k = H c k"
  shows "object_inv E l' H' hdl table' q tx"
proof -
  have "reads_current E (event_holds E l') (m_isolation tx) H' op"
    if "m_state tx = Prepared" "op \<in> set (m_ops tx)" for op
  proof -
    have "reads_current E (event_holds E l) (m_isolation tx) H op" "request_ok E (m_isolation tx) op" using inv that by (auto simp: object_inv_def)
    then have "reads_current E (event_holds E l) (m_isolation tx) H' op"
      using H that by (intro reads_current_frame [of op H' H E]) auto
    then show ?thesis by (rule reads_current_mono [rotated]) (rule event_holds_extends [OF ext])
  qed
  then show ?thesis using inv table by (simp add: object_inv_def)
qed

lemma tx_invD:
  assumes "tx_inv E H w"
  shows "ledger_rep E (tw_ledger w) H" "plain_objects E H" "tl_wf (tw_tx_ledger w)" "lock_table {..<tw_next_object w} (tw_locks w)"
    "distinct (map fst (tw_transactions w))"
    "\<And>key p. (key, p) \<in> set (tw_transactions w) \<Longrightarrow> p < tw_next_object w \<and> key = (m_root (tw_objects w p), m_identifier (tw_objects w p))"
    "\<And>p. p < tw_next_object w \<Longrightarrow> object_inv E (tw_ledger w) H (w_handles (tw_locks w) p) (tw_transactions w) p (tw_objects w p)"
  using assms by (auto simp: tx_inv_def)

text \<open>
  One transaction moves on; the others keep their objects and handles. The table stays as it is, or loses
  the entry of the transaction.
\<close>

definition table_change :: "'d tx_world \<Rightarrow> nat \<Rightarrow> ((identity_uid_t \<times> transaction_id_t) \<times> nat) list \<Rightarrow> bool" where
  "table_change w p table \<longleftrightarrow> table = tw_transactions w \<or>
     running (tw_objects w p) \<and> table = AList.delete (m_root (tw_objects w p), m_identifier (tw_objects w p)) (tw_transactions w)"

lemma table_change_other:
  assumes inv: "tx_inv E H w" and p: "p < tw_next_object w" "q < tw_next_object w" "q \<noteq> p" and table: "table_change w p table"
  shows "map_of table (m_root (tw_objects w q), m_identifier (tw_objects w q)) = Some q \<longleftrightarrow>
    map_of (tw_transactions w) (m_root (tw_objects w q), m_identifier (tw_objects w q)) = Some q"
  using table tx_invD(7) [OF inv p(1)] p(3) by (auto simp: table_change_def delete_conv' object_inv_def split: if_splits)

lemma tx_inv_update:
  assumes inv: "tx_inv E H w" and p: "p < tw_next_object w"
    and ledger: "ledger_rep E (tw_ledger w') H'" "plain_objects E H'" "extends E (tw_ledger w) (tw_ledger w')" and tl: "tl_wf (tw_tx_ledger w')"
    and lks: "lock_table {..<tw_next_object w} (tw_locks w')"
      "\<And>q. q \<noteq> p \<Longrightarrow> w_handles (tw_locks w') q = w_handles (tw_locks w) q"
    and table: "table_change w p (tw_transactions w')"
    and objs: "tw_next_object w' = tw_next_object w" "tw_objects w' = (tw_objects w)(p := tx')"
      "m_root tx' = m_root (tw_objects w p)" "m_identifier tx' = m_identifier (tw_objects w p)"
    and own: "object_inv E (tw_ledger w') H' (w_handles (tw_locks w') p) (tw_transactions w') p tx'"
    and H: "\<And>q op c k. q < tw_next_object w \<Longrightarrow> q \<noteq> p \<Longrightarrow> m_state (tw_objects w q) = Prepared \<Longrightarrow>
      op \<in> set (m_ops (tw_objects w q)) \<Longrightarrow> get_shard c k \<in> read_shards op \<Longrightarrow> H' c k = H c k"
  shows "tx_inv E H' w'"
proof -
  have "object_inv E (tw_ledger w') H' (w_handles (tw_locks w') q) (tw_transactions w') q (tw_objects w' q)" if "q < tw_next_object w" for q
  proof (cases "q = p")
    case False
    have "object_inv E (tw_ledger w') H' (w_handles (tw_locks w) q) (tw_transactions w') q (tw_objects w q)"
      using object_inv_frame [OF tx_invD(7) [OF inv that] ledger(3) table_change_other [OF inv p that False table]] H [OF that False] by blast
    then show ?thesis using lks(2) [OF False] objs(2) False by simp
  qed (use own objs in simp)
  moreover have sub: "set (tw_transactions w') \<subseteq> set (tw_transactions w)" "distinct (map fst (tw_transactions w'))"
    using table tx_invD(5) [OF inv] filter_is_subset [of _ "tw_transactions w"] distinct_delete
    by (fastforce simp: table_change_def AList.delete_eq)+
  moreover have "q < tw_next_object w \<and> key = (m_root (tw_objects w' q), m_identifier (tw_objects w' q))" if "(key, q) \<in> set (tw_transactions w')" for key q
    using tx_invD(6) [OF inv, of key q] sub(1) that objs by auto
  ultimately show ?thesis using ledger tl lks(1) objs(1) by (auto simp: tx_inv_def)
qed

section \<open>Every call keeps the invariant\<close>

lemma clear_and_remove_ok:
  assumes inv: "tx_inv E H w" and p: "p < tw_next_object w" and run: "running (tw_objects w p)"
    and tab: "lock_table {..<tw_next_object w} (tw_locks w1)" "\<And>q. q \<noteq> p \<Longrightarrow> w_handles (tw_locks w1) q = w_handles (tw_locks w) q"
      "h_nonblocking (w_handles (tw_locks w1) p)"
    and w1: "tw_next_object w1 = tw_next_object w" "tw_objects w1 = tw_objects w" "tw_transactions w1 = tw_transactions w"
    and ledger: "ledger_rep E (tw_ledger w1) H'" "plain_objects E H'" "extends E (tw_ledger w) (tw_ledger w1)" and tl: "tl_wf (tw_tx_ledger w1)"
    and tx: "same_request (tw_objects w p) (tx\<lparr>m_state := m_state (tw_objects w p)\<rparr>)" "\<not> running tx"
    and H: "\<And>q op c k. q < tw_next_object w \<Longrightarrow> q \<noteq> p \<Longrightarrow> m_state (tw_objects w q) = Prepared \<Longrightarrow>
      op \<in> set (m_ops (tw_objects w q)) \<Longrightarrow> get_shard c k \<in> read_shards op \<Longrightarrow> H' c k = H c k"
  obtains w2 where "clear_and_remove tx w1 = Some (Inr (), tx\<lparr>m_ops := []\<rparr>, w2)" "tx_inv E H' (update_object p (tx\<lparr>m_ops := []\<rparr>) w2)"
    "tw_ledger w2 = tw_ledger w1" "tw_next_object w2 = tw_next_object w" "tw_objects w2 = tw_objects w"
    "tw_transactions w2 = AList.delete (m_root tx, m_identifier tx) (tw_transactions w)" "h_locks (w_handles (tw_locks w2) p) = []"
proof -
  note own = tx_invD(7) [OF inv p]
  have tx': "m_lock_handle tx = p" "m_root tx = m_root (tw_objects w p)" "m_identifier tx = m_identifier (tw_objects w p)"
      "m_shard_lock_types tx = m_shard_lock_types (tw_objects w p)"
    using same_request_fields [OF tx(1)] own by (auto simp: object_inv_def)
  have reg: "map_of (tw_transactions w) (m_root tx, m_identifier tx) = Some p" using own run tx' by (simp add: object_inv_def)
  have pin: "p \<in> {..<tw_next_object w}" using p by simp
  obtain lw where lw: "clear_handle p (tw_locks w1) = (None, lw)" "lock_table {..<tw_next_object w} lw" "h_locks (w_handles lw p) = []"
      "h_nonblocking (w_handles lw p) = h_nonblocking (w_handles (tw_locks w1) p)"
      "\<forall>h'. h' \<noteq> p \<longrightarrow> w_handles lw h' = w_handles (tw_locks w1) h'"
    by (rule clear_handle_table [OF tab(1) pin])
  let ?table = "AList.delete (m_root tx, m_identifier tx) (tw_transactions w)"
  let ?w = "w1\<lparr>tw_locks := lw, tw_transactions := ?table\<rparr>"
  have run': "clear_and_remove tx w1 = Some (Inr (), tx\<lparr>m_ops := []\<rparr>, ?w)"
    using lw(1) reg tx'(1) w1 by (simp add: clear_and_remove_def remove_transaction_def)
  have oi: "object_inv E (tw_ledger ?w) H' (w_handles lw p) ?table p (tx\<lparr>m_ops := []\<rparr>)"
    using own tx' lw(3,4) tab(3) tx(2) by (auto simp: object_inv_def running_def delete_conv')
  have "tx_inv E H' (update_object p (tx\<lparr>m_ops := []\<rparr>) ?w)"
    by (rule tx_inv_update [OF inv p, where tx' = "tx\<lparr>m_ops := []\<rparr>"])
      (use ledger tl lw tab(2) w1 tx' run oi H in \<open>simp_all add: update_object_def table_change_def\<close>)
  then show ?thesis using that [OF run'] w1 lw(3) by simp
qed

lemma abort_ok:
  assumes inv: "tx_inv E H w" and p: "p < tw_next_object w" and run: "running (tw_objects w p)"
    and tab: "lock_table {..<tw_next_object w} lw" "\<And>q. q \<noteq> p \<Longrightarrow> w_handles lw q = w_handles (tw_locks w) q"
      "h_nonblocking (w_handles lw p)" and tx: "same_request (tw_objects w p) tx"
  obtains w2 where "abort tx (w\<lparr>tw_locks := lw\<rparr>) = Some (Inr (), tx\<lparr>m_state := Aborted, m_ops := []\<rparr>, w2)"
    "tx_inv E H (update_object p (tx\<lparr>m_state := Aborted, m_ops := []\<rparr>) w2)"
    "tw_ledger w2 = tw_ledger w" "tw_next_object w2 = tw_next_object w" "tw_objects w2 = tw_objects w"
    "tw_transactions w2 = AList.delete (m_root tx, m_identifier tx) (tw_transactions w)" "h_locks (w_handles (tw_locks w2) p) = []"
proof -
  note invs = tx_invD [OF inv]
  have same: "same_request (tw_objects w p) ((tx\<lparr>m_state := Aborted\<rparr>)\<lparr>m_state := m_state (tw_objects w p)\<rparr>)"
    using tx unfolding same_request_def by (cases tx; cases "tw_objects w p") simp
  obtain w2 where w2: "clear_and_remove (tx\<lparr>m_state := Aborted\<rparr>) (w\<lparr>tw_locks := lw\<rparr>) = Some (Inr (), tx\<lparr>m_state := Aborted, m_ops := []\<rparr>, w2)"
    "tx_inv E H (update_object p (tx\<lparr>m_state := Aborted, m_ops := []\<rparr>) w2)"
    "tw_ledger w2 = tw_ledger w" "tw_next_object w2 = tw_next_object w" "tw_objects w2 = tw_objects w"
    "tw_transactions w2 = AList.delete (m_root tx, m_identifier tx) (tw_transactions w)" "h_locks (w_handles (tw_locks w2) p) = []"
    by (rule clear_and_remove_ok [OF inv p run, where ?w1.0 = "w\<lparr>tw_locks := lw\<rparr>" and tx = "tx\<lparr>m_state := Aborted\<rparr>" and H' = H])
      (use tab invs same in \<open>simp_all add: running_def\<close>)
  have "m_state tx = Pending \<or> m_state tx = Prepared" using run same_request_fields(8) [OF tx] by (simp add: running_def)
  then have "abort tx (w\<lparr>tw_locks := lw\<rparr>) = Some (Inr (), tx\<lparr>m_state := Aborted, m_ops := []\<rparr>, w2)"
    using w2(1) by (auto simp: abort_def cleanup_def)
  then show ?thesis using that w2 by blast
qed

lemma tx_call_eq: "f (tw_objects w p) w = Some (r, tx, w') \<Longrightarrow> tx_call p f w = Some (r, update_object p tx w')"
  by (simp add: tx_call_def update_object_def)

lemma update_object_same [simp]: "update_object p (tw_objects w p) w = w"
  by (simp add: update_object_def)

lemma update_object_fields [simp]:
  "tw_objects (update_object p tx w) = (tw_objects w)(p := tx)" "tw_ledger (update_object p tx w) = tw_ledger w"
  "tw_next_object (update_object p tx w) = tw_next_object w" "tw_transactions (update_object p tx w) = tw_transactions w"
  "tw_locks (update_object p tx w) = tw_locks w" "tw_tx_ledger (update_object p tx w) = tw_tx_ledger w"
  by (simp_all add: update_object_def)

lemma same_request_running: "same_request tx tx' \<Longrightarrow> running tx' \<longleftrightarrow> running tx"
  by (simp add: running_def same_request_fields)

text \<open>What the call says, and what it leaves: a vote against the transaction discards it.\<close>

definition vote_result :: "nat \<Rightarrow> 'd tx_world \<Rightarrow> bool \<Rightarrow> 'd tx_world \<Rightarrow> bool" where
  "vote_result p w b w' \<longleftrightarrow> tw_ledger w' = tw_ledger w \<and> tw_next_object w' = tw_next_object w \<and>
     m_children (tw_objects w' p) = m_children (tw_objects w p) \<and> m_is_remote (tw_objects w' p) = m_is_remote (tw_objects w p) \<and>
     (if b then m_state (tw_objects w' p) = Prepared \<and> same_request ((tw_objects w p)\<lparr>m_state := Prepared\<rparr>) (tw_objects w' p) \<and>
        tw_tx_ledger w' = tw_tx_ledger w
      else m_state (tw_objects w' p) = Aborted \<and> h_locks (w_handles (tw_locks w') p) = [] \<and>
        tw_transactions w' = AList.delete (m_root (tw_objects w p), m_identifier (tw_objects w p)) (tw_transactions w))"

lemma prepare_abort:
  assumes inv: "tx_inv E H w" and p: "p < tw_next_object w" and run: "running (tw_objects w p)"
    and tab: "lock_table {..<tw_next_object w} lw" "\<And>q. q \<noteq> p \<Longrightarrow> w_handles lw q = w_handles (tw_locks w) q"
      "h_nonblocking (w_handles lw p)" and tx: "same_request (tw_objects w p) tx"
  shows "\<exists>tx' w'. obind_tx (abort tx (w\<lparr>tw_locks := lw\<rparr>)) (\<lambda>_ tx'' w'. Some (Inr False, tx'', w')) = Some (Inr False, tx', w') \<and>
    tx_inv E H (update_object p tx' w') \<and> vote_result p w False (update_object p tx' w')"
proof -
  let ?tx = "tx\<lparr>m_state := Aborted, m_ops := []\<rparr>"
  obtain w2 where w2: "abort tx (w\<lparr>tw_locks := lw\<rparr>) = Some (Inr (), ?tx, w2)" "tx_inv E H (update_object p ?tx w2)"
    "tw_ledger w2 = tw_ledger w" "tw_next_object w2 = tw_next_object w" "tw_objects w2 = tw_objects w"
    "tw_transactions w2 = AList.delete (m_root tx, m_identifier tx) (tw_transactions w)" "h_locks (w_handles (tw_locks w2) p) = []"
    by (rule abort_ok [OF inv p run tab tx])
  have "vote_result p w False (update_object p ?tx w2)"
    using w2 same_request_fields(5,6,9,10) [OF tx] by (simp add: vote_result_def)
  then show ?thesis using w2(1,2) by (intro exI [of _ ?tx] exI [of _ w2]) simp
qed

lemma prepare_ok:
  assumes inv: "tx_inv E H w" and p: "p < tw_next_object w" and free: "no_self_block (tw_objects w p)" and st: "m_state (tw_objects w p) = Pending"
  shows "\<exists>b w'. tx_call p (prepare E gw) w = Some (Inr b, w') \<and> tx_inv E H w' \<and> vote_result p w b w'"
proof -
  let ?tx = "tw_objects w p" and ?hs = "{..<tw_next_object w}"
  note own = tx_invD(7) [OF inv p]
  have run: "running ?tx" using st by (simp add: running_def)
  have h: "m_lock_handle ?tx = p" "h_nonblocking (w_handles (tw_locks w) p)" "distinct (map fst (m_shard_lock_types ?tx))"
    "\<forall>(s, t)\<in>set (m_shard_lock_types ?tx). lock_entry (tw_locks w) p s = None" using own st by (auto simp: object_inv_def)
  obtain r lw where acq: "acquire_locks p (m_shard_lock_types ?tx) (tw_locks w) = (r, lw)" by force
  note table = acquire_locks_table [OF tx_invD(4) [OF inv] _ h(2-4) acq]
  have tab: "lock_table ?hs lw" "\<And>q. q \<noteq> p \<Longrightarrow> w_handles lw q = w_handles (tw_locks w) q" "h_nonblocking (w_handles lw p)"
    using table p by auto
  have call: ?thesis
    if "\<exists>tx' w' b. prepare E gw ?tx w = Some (Inr b, tx', w') \<and> tx_inv E H (update_object p tx' w') \<and> vote_result p w b (update_object p tx' w')"
    using that tx_call_eq [of "prepare E gw" w p] by blast
  show ?thesis
  proof (cases r)
    case (Some e)
    then have "e = WouldBlock" using table p by simp
    then show ?thesis
      using prepare_abort [OF inv p run tab, of "set_error ''Lock contention'' ?tx"] acq Some h(1) st by (intro call) (auto simp: prepare_def)
  next
    case None
    then have held: "\<forall>(s, t)\<in>set (m_shard_lock_types ?tx). lock_entry lw p s = Some (new_lock_info t)" using table p by simp
    have unblocked: "check_unblocked lw op" if "op \<in> set (m_ops ?tx)" for op
    proof (cases op)
      case (check_obj_info_t task c k e)
      then have "map_of (m_shard_lock_types ?tx) (get_shard c k) = Some Read" using free that by (auto simp: no_self_block_def)
      then have "lock_entry lw p (get_shard c k) = Some (new_lock_info Read)" using held by (auto dest: map_of_SomeD)
      then show ?thesis using read_lock_count [OF tab(1)] p check_obj_info_t by (simp add: check_unblocked_def)
    qed (simp_all add: check_unblocked_def)
    have "validated E (tw_ledger w) H ?tx (\<forall>op\<in>set (m_ops ?tx). reads_current E (event_holds E (tw_ledger w)) (m_isolation ?tx) H op)
        (validate_all E gw (m_ops ?tx) lw (tw_ledger w) ?tx)"
      using own unblocked by (intro validate_all_current [OF tx_invD(1,2) [OF inv]]) (auto simp: object_inv_def)
    then obtain b tx' where v: "validate_all E gw (m_ops ?tx) lw (tw_ledger w) ?tx = Some (Inr b, tx')" "same_request ?tx tx'"
        "b \<longrightarrow> (\<forall>op\<in>set (m_ops ?tx). reads_current E (event_holds E (tw_ledger w)) (m_isolation ?tx) H op)"
      by (auto simp: validated_def)
    show ?thesis
    proof (cases b)
      case False
      then show ?thesis using prepare_abort [OF inv p run tab v(2)] acq None h(1) st v(1) by (intro call) (auto simp: prepare_def)
    next
      case True
      let ?tx' = "tx'\<lparr>m_state := Prepared\<rparr>" and ?w = "w\<lparr>tw_locks := lw\<rparr>"
      note same = same_request_fields [OF v(2)]
      have "object_inv E (tw_ledger w) H (w_handles lw p) (tw_transactions w) p ?tx'"
        using own same held tab(3) v(3) True st by (simp add: object_inv_def running_def)
      then have "tx_inv E H (update_object p ?tx' ?w)"
        by (intro tx_inv_update [OF inv p, where tx' = ?tx' and H' = H])
          (use tx_invD [OF inv] tab same in \<open>simp_all add: table_change_def\<close>)
      moreover have "prepare E gw ?tx w = Some (Inr True, ?tx', ?w)" using acq None h(1) st v(1) True by (simp add: prepare_def)
      moreover have "same_request (?tx\<lparr>m_state := Prepared\<rparr>) ?tx'" using v(2) unfolding same_request_def by (cases ?tx; cases tx') simp
      ultimately show ?thesis
        using same(9,10) by (intro call exI [of _ ?tx'] exI [of _ ?w] exI [of _ True]) (simp add: vote_result_def)
    qed
  qed
qed

lemma prepare_self_block:
  assumes inv: "tx_inv E H w" and p: "p < tw_next_object w" and blocks: "\<not> no_self_block (tw_objects w p)"
    and st: "m_state (tw_objects w p) = Pending"
  shows "\<exists>r w'. tx_call p (prepare E gw) w = Some (r, w') \<and> (r = Inr False \<and> vote_result p w False w' \<or> r = Inl Blocked)"
proof -
  let ?tx = "tw_objects w p" and ?hs = "{..<tw_next_object w}"
  note own = tx_invD(7) [OF inv p]
  have run: "running ?tx" using st by (simp add: running_def)
  have h: "m_lock_handle ?tx = p" "h_nonblocking (w_handles (tw_locks w) p)" "distinct (map fst (m_shard_lock_types ?tx))"
    "\<forall>(s, t)\<in>set (m_shard_lock_types ?tx). lock_entry (tw_locks w) p s = None" using own st by (auto simp: object_inv_def)
  obtain r lw where acq: "acquire_locks p (m_shard_lock_types ?tx) (tw_locks w) = (r, lw)" by force
  note table = acquire_locks_table [OF tx_invD(4) [OF inv] _ h(2-4) acq]
  have tab: "lock_table ?hs lw" "\<And>q. q \<noteq> p \<Longrightarrow> w_handles lw q = w_handles (tw_locks w) q" "h_nonblocking (w_handles lw p)"
    using table p by auto
  show ?thesis
  proof (cases r)
    case (Some e)
    then have "e = WouldBlock" using table p by simp
    then show ?thesis
      using prepare_abort [OF inv p run tab, of "set_error ''Lock contention'' ?tx"] acq Some h(1) st
        tx_call_eq [of "prepare E gw" w p] by (fastforce simp: prepare_def)
  next
    case None
    then have held: "\<forall>(s, t)\<in>set (m_shard_lock_types ?tx). lock_entry lw p s = Some (new_lock_info t)" using table p by simp
    have ok: "\<forall>op\<in>set (m_ops ?tx). request_ok E (m_isolation ?tx) op \<and> context_ok E (m_op_contexts ?tx) op \<and> locks_cover (m_shard_lock_types ?tx) op"
      using own by (simp add: object_inv_def)
    obtain op0 where "op0 \<in> set (m_ops ?tx)" "\<not> (case op0 of check_obj_info_t task c k q e \<Rightarrow> map_of (m_shard_lock_types ?tx) (get_shard c k) = Some Read | _ \<Rightarrow> True)"
      using blocks unfolding no_self_block_def by blast
    then obtain task c k q e where op: "check_obj_info_t task c k q e \<in> set (m_ops ?tx)" "map_of (m_shard_lock_types ?tx) (get_shard c k) \<noteq> Some Read"
      by - (cases op0; auto)
    have "map_of (m_shard_lock_types ?tx) (get_shard c k) \<noteq> None"
      using ok op(1) by (force simp: locks_cover_def op_get_shard_def)
    then have "map_of (m_shard_lock_types ?tx) (get_shard c k) = Some Write" using op(2) by (metis LockType.exhaust option.exhaust)
    then have "lock_entry lw p (get_shard c k) = Some (new_lock_info Write)" using held by (auto dest: map_of_SomeD)
    then have "w_count lw (get_shard c k) < 0" using write_lock_count [OF tab(1)] p by simp
    then have "\<exists>op\<in>set (m_ops ?tx). \<not> check_unblocked lw op" using op(1) by (force simp: check_unblocked_def)
    from validate_all_blocked [OF tx_invD(1,2) [OF inv] ok this] obtain r' tx' where
      v: "validate_all E gw (m_ops ?tx) lw (tw_ledger w) ?tx = Some (r', tx')" "same_request ?tx tx'" "r' = Inr False \<or> r' = Inl Blocked" by blast
    from v(3) show ?thesis
    proof
      assume "r' = Inr False"
      then show ?thesis
        using prepare_abort [OF inv p run tab v(2)] acq None h(1) st v(1) tx_call_eq [of "prepare E gw" w p] by (fastforce simp: prepare_def)
    next
      assume "r' = Inl Blocked"
      then show ?thesis using acq None h(1) st v(1) by (simp add: tx_call_def prepare_def)
    qed
  qed
qed

lemma collect_write_set_ok:
  assumes wf: "ledger_wf E l"
  shows "(\<forall>s\<in>set ss. unat s < NUM_SHARDS) \<Longrightarrow> \<exists>ws. collect_write_set ss counts acc l = Inr ws"
proof (induction ss arbitrary: acc)
  case (Cons s ss)
  then have "unat s < NUM_SHARDS" by simp
  then obtain b where "pages (m_blocks l) (pending_id l (unat s)) = Some b" using ledger_wfD(5) [OF wf] by blast
  then have "ledger_pending_block s l = Inr (pending_id l (unat s), b)" using pending_block_eq [OF wf] Cons.prems by simp
  then show ?case using Cons by (simp add: get_next_event_ids_def Let_def)
qed simp

lemma commit_op_sets_ok:
  assumes "ledger_wf E l"
  obtains sets where "commit_op_sets tx l = Inr sets"
proof -
  have "\<forall>s\<in>set (map word_of_nat [0..<NUM_SHARDS]). unat (s :: shard_id_t) < NUM_SHARDS" by (simp add: NUM_SHARDS_def unat_of_nat)
  note ok = collect_write_set_ok [OF assms this, of "fold extract_writes (m_ops tx) (replicate NUM_SHARDS 0)" "[]"]
  then show ?thesis using that by (auto simp: commit_op_sets_def Let_def)
qed

lemma organize_shards_ok:
  assumes "ledger_holds E l H" and "small_except S l" and "\<forall>(s, t)\<in>set types. unat s < NUM_SHARDS"
    and "unat (m_next_page_no (m_blocks l)) + length types < 2 ^ 32 - 1"
  shows "\<exists>l'. organize_shards types l = (None, l') \<and> ledger_holds E l' H \<and> extends E l l' \<and>
    small_except (S - unat ` {s. (s, Write) \<in> set types}) l'"
  using assms
proof (induction types arbitrary: l S)
  case (Cons st types)
  obtain s t where st: "st = (s, t)" by force
  show ?case
  proof (cases "t = Write")
    case True
    have wf: "json_roundtrip E" "ledger_wf E l" using Cons.prems(1) by (auto simp: ledger_holds_def)
    have s: "unat s < NUM_SHARDS" using Cons.prems(3) st by simp
    have alloc: "can_allocate (m_blocks l)" using Cons.prems(4) by (simp add: can_allocate_def word_less_nat_alt)
    obtain l1 where l1: "organize_ledger s l = Inr l1" "ledger_wf E l1" "extends E l l1" "small_except (S - {unat s}) l1"
      "m_collections l1 = m_collections l" "unat (m_next_page_no (m_blocks l1)) \<le> unat (m_next_page_no (m_blocks l)) + 1"
      by (rule organize_correct [OF wf s alloc Cons.prems(2)])
    have look: "lookup l1 = lookup l" using l1(5) by (simp add: lookup_def fun_eq_iff)
    have holds: "ledger_holds E l1 H" by (rule ledger_holds_extends [OF Cons.prems(1) l1(2,3) look])
    obtain l' where l': "organize_shards types l1 = (None, l')" "ledger_holds E l' H" "extends E l1 l'"
        "small_except (S - {unat s} - unat ` {s. (s, Write) \<in> set types}) l'"
      using Cons.IH [OF holds l1(4)] Cons.prems(3,4) l1(6) by auto
    have "S - {unat s} - unat ` {s. (s, Write) \<in> set types} = S - unat ` {s'. (s', Write) \<in> set (st # types)}"
      using st True by auto
    then show ?thesis using l' l1(1) extends_trans [OF l1(3) l'(3)] st True by simp
  next
    case False
    obtain l' where l': "organize_shards types l = (None, l')" "ledger_holds E l' H" "extends E l l'"
        "small_except (S - unat ` {s. (s, Write) \<in> set types}) l'"
      using Cons.IH [OF Cons.prems(1,2)] Cons.prems(3,4) by auto
    then show ?thesis using st False by simp
  qed
qed simp

lemma distinct_shards_length:
  assumes "distinct (map fst types)" and "\<forall>(s, t)\<in>set types. unat (s :: shard_id_t) < NUM_SHARDS"
  shows "length types \<le> NUM_SHARDS"
proof -
  have "length types = card (unat ` set (map fst types))"
    using assms(1) by (metis card_image distinct_card inj_onI length_map word_unat_eq_iff)
  also have "\<dots> \<le> card {..<NUM_SHARDS}" using assms(2) by (intro card_mono) auto
  finally show ?thesis by simp
qed

text \<open>A prepared transaction excludes the others from the shards it writes.\<close>

lemma writes_excluded:
  assumes inv: "tx_inv E H w" and p: "p < tw_next_object w" "m_state (tw_objects w p) = Prepared"
    and q: "q < tw_next_object w" "q \<noteq> p" "m_state (tw_objects w q) = Prepared"
    and op: "op \<in> set (m_ops (tw_objects w q))" "get_shard c k \<in> read_shards op"
  shows "apply_requests (tw_objects w p) H c k = H c k"
proof -
  let ?s = "get_shard c k" and ?tx = "tw_objects w p"
  note own = tx_invD(7) [OF inv p(1)] and other = tx_invD(7) [OF inv q(1)]
  have "map_of (m_shard_lock_types (tw_objects w q)) ?s \<noteq> None"
    using other op by (auto simp: object_inv_def locks_cover_def)
  then obtain t where "(?s, t) \<in> set (m_shard_lock_types (tw_objects w q))" by (auto dest: map_of_SomeD)
  then have q_locked: "lock_entry (tw_locks w) q ?s \<noteq> None" using other q(3) by (auto simp: object_inv_def)
  have "?s \<notin> write_shards op'" if "op' \<in> set (m_ops ?tx)" for op'
  proof
    assume "?s \<in> write_shards op'"
    then have "map_of (m_shard_lock_types ?tx) ?s = Some Write" using own that by (auto simp: object_inv_def locks_cover_def)
    then have "lock_entry (tw_locks w) p ?s = Some (new_lock_info Write)" using own p(2) by (auto simp: object_inv_def dest: map_of_SomeD)
    then have "holds p ?s Write (tw_locks w)" by (simp add: holds_def new_lock_info_def)
    then show False using holds_excludes [OF tx_invD(4) [OF inv]] p(1) q(1,2) q_locked by auto
  qed
  then show ?thesis using own write_requests_frame [of "m_ops ?tx" c k E "m_isolation ?tx"]
    by (auto simp: apply_requests_def object_inv_def)
qed

text \<open>The writes of a transaction, followed by the look at the size of the blocks that it has written to.\<close>

lemma writes_organized:
  assumes inv: "tx_inv E H w" and p: "p < tw_next_object w" and pages: "unat (m_next_page_no (m_blocks (tw_ledger w))) + NUM_SHARDS < 2 ^ 32 - 1"
  obtains tx1 l1 l2 where
    "do_writes E ref gw (m_ops (tw_objects w p)) (tw_objects w p) (w\<lparr>tw_tx_ledger := t\<rparr>) = Some (Inr (), tx1, w\<lparr>tw_tx_ledger := t, tw_ledger := l1\<rparr>)"
    "same_request (tw_objects w p) tx1" "organize_shards (m_shard_lock_types (tw_objects w p)) l1 = (None, l2)"
    "ledger_rep E l2 (apply_requests (tw_objects w p) H)" "plain_objects E (apply_requests (tw_objects w p) H)" "extends E (tw_ledger w) l2"
proof -
  let ?tx = "tw_objects w p" and ?l = "tw_ledger w" and ?H = "apply_requests (tw_objects w p) H" and ?w1 = "w\<lparr>tw_tx_ledger := t\<rparr>"
  let ?S = "unat ` (\<Union>op\<in>set (m_ops ?tx). write_shards op)"
  note own = tx_invD(7) [OF inv p] and rep = tx_invD(1) [OF inv]
  have wf: "ledger_wf E ?l" "ledger_small ?l" using rep by (auto simp: ledger_rep_def)
  have bound: "length (m_ops ?tx) \<le> 64000" "length (m_ops ?tx) * MAX_EVENT < EVENT_LIMIT"
    using own by (auto simp: object_inv_def MAX_OPS_def MAX_EVENT_def EVENT_LIMIT_def)
  have "\<forall>op\<in>set (m_ops ?tx). request_ok E (m_isolation ?tx) op \<and> context_ok E (m_op_contexts ?tx) op" using own by (simp add: object_inv_def)
  then obtain tx1 l1 where dw: "do_writes E ref gw (m_ops ?tx) ?tx ?w1 = Some (Inr (), tx1, ?w1\<lparr>tw_ledger := l1\<rparr>)" "same_request ?tx tx1"
      "written E ({} \<union> ?S) ?H ?l l1"
    using do_writes_written [of E ?w1 H "{}" "m_ops ?tx" "m_isolation ?tx" ?tx ref gw] ledger_rep_holds [OF rep] tx_invD(2) [OF inv] wf(2)
      small_room_for [OF wf bound] by (auto simp: small_except_empty apply_requests_def)
  have W: "ledger_holds E l1 ?H" "small_except ?S l1" "plain_objects E ?H" "extends E ?l l1"
      "m_next_page_no (m_blocks l1) = m_next_page_no (m_blocks ?l)" using dw(3) by (auto simp: written_def)
  have shards: "\<forall>(s, t)\<in>set (m_shard_lock_types ?tx). unat s < NUM_SHARDS" using own by (simp add: object_inv_def)
  have "length (m_shard_lock_types ?tx) \<le> NUM_SHARDS" using own by (intro distinct_shards_length) (auto simp: object_inv_def)
  then have room: "unat (m_next_page_no (m_blocks l1)) + length (m_shard_lock_types ?tx) < 2 ^ 32 - 1" using pages W(5) by simp
  obtain l2 where l2: "organize_shards (m_shard_lock_types ?tx) l1 = (None, l2)" "ledger_holds E l2 ?H" "extends E l1 l2"
      "small_except (?S - unat ` {s. (s, Write) \<in> set (m_shard_lock_types ?tx)}) l2"
    using organize_shards_ok [OF W(1,2) shards room] by blast
  have "(\<Union>op\<in>set (m_ops ?tx). write_shards op) \<subseteq> {s. (s, Write) \<in> set (m_shard_lock_types ?tx)}"
    using own by (auto simp: object_inv_def locks_cover_def dest!: map_of_SomeD)
  then have "small_except {} l2" by (intro small_except_mono [OF l2(4)]) blast
  then have "ledger_rep E l2 ?H" using l2(2) by (simp add: ledger_rep_iff small_except_empty)
  then show ?thesis using that dw(1,2) l2(1) W(3) extends_trans [OF W(4) l2(3)] by simp
qed

lemma record_inserted:
  assumes inv: "tx_inv E H w" and alloc: "can_allocate (tl_blocks (tw_tx_ledger w))" and fits: "record_fits E tx (tw_ledger w)"
  obtains sets ref t where "commit_op_sets tx (tw_ledger w) = Inr sets"
    "tl_insert (tx_values E) (m_op_contexts tx) (m_root tx) (m_identifier tx) sets [] (tw_tx_ledger w) = Inr (ref, t)" "tl_wf t"
proof -
  have "ledger_wf E (tw_ledger w)" using tx_invD(1) [OF inv] by (auto simp: ledger_rep_def)
  then obtain sets where sets: "commit_op_sets tx (tw_ledger w) = Inr sets" by (rule commit_op_sets_ok)
  let ?e = "\<lparr>te_contexts = m_op_contexts tx, te_root = m_root tx, te_id = m_identifier tx, te_local = sets, te_remote = []\<rparr>"
  have "length (v_write (tx_values E) (entry_record ?e)) < 2 ^ 31" using fits sets by (simp add: record_fits_def)
  then show ?thesis by (rule tl_insert_correct [OF tx_invD(3) [OF inv] alloc]) (use that sets in simp)
qed

definition commit_result :: "('d, 'z) json_lib_scheme \<Rightarrow> nat \<Rightarrow> 'd tx_world \<Rightarrow> 'd tx_world \<Rightarrow> bool" where
  "commit_result E p w w' \<longleftrightarrow> extends E (tw_ledger w) (tw_ledger w') \<and> m_state (tw_objects w' p) = Committed \<and>
     h_locks (w_handles (tw_locks w') p) = [] \<and>
     tw_transactions w' = AList.delete (m_root (tw_objects w p), m_identifier (tw_objects w p)) (tw_transactions w)"

lemma commit_ok:
  assumes inv: "tx_inv E H w" and ok: "command_ok E w (TxCommit p gw)" and st: "m_state (tw_objects w p) = Prepared"
  shows "\<exists>wit w'. tx_call p (commit E gw) w = Some (Inr wit, w') \<and> tx_inv E (apply_requests (tw_objects w p) H) w' \<and> commit_result E p w w'"
proof -
  let ?tx = "tw_objects w p" and ?H = "apply_requests (tw_objects w p) H"
  have p: "p < tw_next_object w" and alloc: "can_allocate (tl_blocks (tw_tx_ledger w))"
    and pages: "unat (m_next_page_no (m_blocks (tw_ledger w))) + NUM_SHARDS < 2 ^ 32 - 1"
    and fits: "record_fits E ?tx (tw_ledger w)" using ok by auto
  note own = tx_invD(7) [OF inv p]
  have run: "running ?tx" and h: "m_lock_handle ?tx = p" and nb: "h_nonblocking (w_handles (tw_locks w) p)"
    using st own by (auto simp: running_def object_inv_def)
  obtain sets ref t where ins: "commit_op_sets ?tx (tw_ledger w) = Inr sets"
    "tl_insert (tx_values E) (m_op_contexts ?tx) (m_root ?tx) (m_identifier ?tx) sets [] (tw_tx_ledger w) = Inr (ref, t)" "tl_wf t"
    by (rule record_inserted [OF inv alloc fits])
  obtain tx1 l1 l2 where dw: "do_writes E ref gw (m_ops ?tx) ?tx (w\<lparr>tw_tx_ledger := t\<rparr>) = Some (Inr (), tx1, w\<lparr>tw_tx_ledger := t, tw_ledger := l1\<rparr>)"
    "same_request ?tx tx1" "organize_shards (m_shard_lock_types ?tx) l1 = (None, l2)" "ledger_rep E l2 ?H" "plain_objects E ?H"
    "extends E (tw_ledger w) l2" by (rule writes_organized [OF inv p pages])
  let ?tx1 = "tx1\<lparr>m_state := Committed\<rparr>" and ?w2 = "w\<lparr>tw_tx_ledger := t, tw_ledger := l2\<rparr>"
  have same: "same_request ?tx (?tx1\<lparr>m_state := m_state ?tx\<rparr>)"
    using dw(2) unfolding same_request_def by (cases tx1; cases ?tx) simp
  obtain w3 where w3: "clear_and_remove ?tx1 ?w2 = Some (Inr (), ?tx1\<lparr>m_ops := []\<rparr>, w3)" "tx_inv E ?H (update_object p (?tx1\<lparr>m_ops := []\<rparr>) w3)"
    "tw_ledger w3 = l2" "tw_objects w3 = tw_objects w"
    "tw_transactions w3 = AList.delete (m_root ?tx1, m_identifier ?tx1) (tw_transactions w)" "h_locks (w_handles (tw_locks w3) p) = []"
    by (rule clear_and_remove_ok [OF inv p run, where ?w1.0 = ?w2 and tx = ?tx1 and H' = ?H])
      (use tx_invD(4) [OF inv] nb dw(4-6) ins(3) same writes_excluded [OF inv p st] in \<open>simp_all add: running_def\<close>)
  have parent: "\<not> has_parent (w_handles (tw_locks w) p)" using tx_invD(4) [OF inv] p by (simp add: lock_table_def has_parent_def)
  have "commit E gw ?tx w = Some (Inr (commit_witness E gw tx1), ?tx1\<lparr>m_ops := []\<rparr>, w3)"
    using st ins(1,2) dw(1,3) parent h w3(1) same_request_fields(3,4) [OF dw(2)] by (simp add: commit_def cleanup_def)
  from tx_call_eq [of "commit E gw", OF this] show ?thesis
    using w3 dw(6) same_request_fields(5,6) [OF dw(2)] by (simp add: commit_result_def)
qed

section \<open>New transactions and operations\<close>

lemma map_fst_insort: "map fst (insort_key fst x m) = insort (fst x) (map fst m)"
  by (induction m) auto

lemma map_of_smap_put [simp]: "map_of (smap_put k v m) = (map_of m)(k \<mapsto> v)"
  by (simp add: smap_put_def map_of_insort update_conv')

lemma distinct_smap_put: "distinct (map fst m) \<Longrightarrow> distinct (map fst (smap_put k v m))"
  by (simp add: smap_put_def map_fst_insort distinct_insort map_of_eq_None_iff distinct_update)

lemma set_smap_put: "fst ` set (smap_put k v m) = insert k (fst ` set m)"
  by (metis dom_fun_upd dom_map_of_conv_image_fst map_of_smap_put option.discI)

text \<open>Collecting the lock types of an operation: only the lock types change, none is lost or weakened.\<close>

definition types_le :: "shard_id_t set \<Rightarrow> (shard_id_t \<times> LockType) list \<Rightarrow> (shard_id_t \<times> LockType) list \<Rightarrow> bool" where
  "types_le S m m' \<longleftrightarrow> fst ` set m' \<subseteq> S \<union> fst ` set m \<and> (distinct (map fst m) \<longrightarrow> distinct (map fst m')) \<and>
     (\<forall>s. map_of m s \<noteq> None \<longrightarrow> map_of m' s \<noteq> None) \<and> (\<forall>s. map_of m s = Some Write \<longrightarrow> map_of m' s = Some Write)"

definition types_grow :: "shard_id_t set \<Rightarrow> 'd transaction \<Rightarrow> 'd transaction \<Rightarrow> bool" where
  "types_grow S tx tx' \<longleftrightarrow> tx' = tx\<lparr>m_shard_lock_types := m_shard_lock_types tx'\<rparr> \<and> types_le S (m_shard_lock_types tx) (m_shard_lock_types tx')"

lemma types_grow_refl: "types_grow S tx tx"
  by (simp add: types_grow_def types_le_def)

lemma types_le_trans: "types_le S m m1 \<Longrightarrow> types_le S m1 m2 \<Longrightarrow> types_le S m m2"
proof -
  assume a: "types_le S m m1" "types_le S m1 m2"
  have "fst ` set m2 \<subseteq> S \<union> fst ` set m" using a unfolding types_le_def by (meson Un_least Un_upper1 order_trans)
  then show "types_le S m m2" using a by (simp add: types_le_def)
qed

lemma types_grow_trans: "types_grow S tx tx1 \<Longrightarrow> types_grow S tx1 tx2 \<Longrightarrow> types_grow S tx tx2"
proof -
  assume a: "types_grow S tx tx1" "types_grow S tx1 tx2"
  have "tx2 = tx1\<lparr>m_shard_lock_types := m_shard_lock_types tx2\<rparr>" "tx1 = tx\<lparr>m_shard_lock_types := m_shard_lock_types tx1\<rparr>"
    using a by (simp_all only: types_grow_def simp_thms)
  then have "tx2 = tx\<lparr>m_shard_lock_types := m_shard_lock_types tx2\<rparr>" by (cases tx; cases tx1; cases tx2) simp
  moreover have "types_le S (m_shard_lock_types tx) (m_shard_lock_types tx2)"
    using a types_le_trans by (simp only: types_grow_def) blast
  ultimately show "types_grow S tx tx2" by (simp only: types_grow_def simp_thms)
qed

lemma types_grow_read: "s \<in> S \<Longrightarrow> types_grow S tx (set_read_lock s tx)" "map_of (m_shard_lock_types (set_read_lock s tx)) s \<noteq> None"
  by (auto simp: types_grow_def types_le_def set_read_lock_def set_smap_put distinct_smap_put)

lemma types_grow_write: "s \<in> S \<Longrightarrow> types_grow S tx (set_write_lock s tx)" "map_of (m_shard_lock_types (set_write_lock s tx)) s = Some Write"
  by (auto simp: types_grow_def types_le_def set_write_lock_def set_smap_put distinct_smap_put)

lemma types_grow_fold:
  "(\<forall>x\<in>set xs. f x \<in> S) \<Longrightarrow> types_grow S tx (fold (\<lambda>x. set_read_lock (f x)) xs tx)"
  by (induction xs arbitrary: tx) (auto intro: types_grow_refl types_grow_trans types_grow_read)

lemma types_grow_held: "types_grow S tx tx' \<Longrightarrow> map_of (m_shard_lock_types tx) s \<noteq> None \<Longrightarrow> map_of (m_shard_lock_types tx') s \<noteq> None"
  by (simp only: types_grow_def types_le_def simp_thms)

lemma fold_read_locks: "x \<in> set xs \<Longrightarrow> map_of (m_shard_lock_types (fold (\<lambda>x. set_read_lock (f x)) xs tx)) (f x) \<noteq> None"
proof (induction xs arbitrary: tx)
  case (Cons y ys)
  have "types_grow UNIV (set_read_lock (f y) tx) (fold (\<lambda>x. set_read_lock (f x)) ys (set_read_lock (f y) tx))"
    by (rule types_grow_fold) simp
  from types_grow_held [OF this types_grow_read(2)] show ?case using Cons by (cases "x = y") auto
qed simp

lemma collect_types:
  assumes "request_ok E (m_isolation tx) op"
  shows "types_grow {s. unat s < NUM_SHARDS} tx (collect_shard_lock_type op tx)" "locks_cover (m_shard_lock_types (collect_shard_lock_type op tx)) op"
proof -
  have s: "unat (op_get_shard c k) < NUM_SHARDS" "unat (get_shard c k) < NUM_SHARDS" for c k by (simp_all add: op_get_shard_def get_shard_less)
  show "types_grow {s. unat s < NUM_SHARDS} tx (collect_shard_lock_type op tx)"
    using assms s by (cases op) (auto simp: case_prod_beta' intro!: types_grow_read types_grow_write types_grow_fold)
  show "locks_cover (m_shard_lock_types (collect_shard_lock_type op tx)) op"
    using assms types_grow_read(2) types_grow_write(2) fold_read_locks [where f = "\<lambda>x. get_shard (op_collection op) (fst x)"]
    by (cases op) (auto simp: locks_cover_def case_prod_beta')
qed

lemma locks_cover_grow: "types_grow S tx tx' \<Longrightarrow> locks_cover (m_shard_lock_types tx) op \<Longrightarrow> locks_cover (m_shard_lock_types tx') op"
  unfolding types_grow_def types_le_def locks_cover_def by blast

lemma register_ok:
  assumes inv: "tx_inv E H w" and ok: "command_ok E w (TxRegister p op)"
  shows "tx_inv E H (update_object p (register_operation op (tw_objects w p)) w)"
proof -
  let ?tx = "tw_objects w p" and ?tx' = "register_operation op (tw_objects w p)"
  have p: "p < tw_next_object w" and st: "m_state ?tx = Pending" using ok by auto
  note own = tx_invD(7) [OF inv p]
  have req: "request_ok E (m_isolation (?tx\<lparr>m_ops := m_ops ?tx @ [op]\<rparr>)) op" using ok by simp
  note grow = collect_types [OF req]
  obtain types where tx': "?tx' = ?tx\<lparr>m_ops := m_ops ?tx @ [op], m_shard_lock_types := types\<rparr>"
      "types_le {s. unat s < NUM_SHARDS} (m_shard_lock_types ?tx) types"
    using grow(1) that [of "m_shard_lock_types ?tx'"] by (simp add: types_grow_def register_operation_def)
  have types: "distinct (map fst types)" "\<forall>(s, t)\<in>set types. unat s < NUM_SHARDS"
    using tx'(2) own unfolding types_le_def object_inv_def by fastforce+
  have old: "locks_cover types op'" if "op' \<in> set (m_ops ?tx)" for op'
    using own that locks_cover_grow [OF grow(1), of op'] tx'(1) by (auto simp: object_inv_def register_operation_def)
  have new: "locks_cover types op" using grow(2) tx'(1) by (simp add: register_operation_def)
  have "object_inv E (tw_ledger w) H (w_handles (tw_locks w) p) (tw_transactions w) p ?tx'"
    using own ok st old new types unfolding tx'(1) by (auto simp: object_inv_def running_def)
  then show ?thesis
    by (intro tx_inv_update [OF inv p, where tx' = ?tx' and H' = H]) (use tx_invD [OF inv] tx'(1) in \<open>simp_all add: table_change_def\<close>)
qed

lemma begin_ok:
  assumes inv: "tx_inv E H w" and new: "map_of (tw_transactions w) (uid, tw_id_counter w) = None"
    and run: "init_local_transaction uid level w = (p, w1)"
  shows "tx_inv E H (update_object p (init_task task ctx (tw_objects w1 p)) w1)"
    and "tw_ledger w1 = tw_ledger w"
proof -
  let ?n = "tw_next_object w" and ?tx = "new_transaction level p uid (tw_id_counter w) False :: 'a transaction"
  have p: "p = ?n" and w1: "tw_ledger w1 = tw_ledger w" "tw_tx_ledger w1 = tw_tx_ledger w" "tw_next_object w1 = Suc ?n"
    "tw_locks w1 = (tw_locks w)\<lparr>w_handles := (w_handles (tw_locks w))(?n := new_handle None True)\<rparr>"
    "tw_objects w1 = (tw_objects w)(?n := ?tx)" "tw_transactions w1 = AList.update (uid, tw_id_counter w) ?n (tw_transactions w)"
    using run by (auto simp: init_local_transaction_def create_transaction_def Let_def)
  show "tw_ledger w1 = tw_ledger w" by (rule w1)
  let ?w = "update_object p (init_task task ctx (tw_objects w1 p)) w1"
  have tab: "lock_table {..<Suc ?n} (tw_locks w1)"
    using lock_table_insert [OF tx_invD(4) [OF inv], of ?n "new_handle None True"] w1(4) by (simp add: lessThan_Suc new_handle_def)
  have table: "map_of (tw_transactions w1) = (map_of (tw_transactions w))((uid, tw_id_counter w) \<mapsto> ?n)" using w1(6) by (simp add: update_conv')
  have "object_inv E (tw_ledger w) H (w_handles (tw_locks w1) q) (tw_transactions w1) q (tw_objects ?w q)" if "q < Suc ?n" for q
  proof (cases "q = ?n")
    case True
    then show ?thesis
      using w1 p table by (simp add: object_inv_def init_task_def new_transaction_def new_handle_def running_def)
  next
    case False
    then have q: "q < ?n" using that by simp
    have "map_of (tw_transactions w1) (m_root (tw_objects w q), m_identifier (tw_objects w q)) = Some q \<longleftrightarrow>
        map_of (tw_transactions w) (m_root (tw_objects w q), m_identifier (tw_objects w q)) = Some q"
      using table new False by auto
    then show ?thesis
      using object_inv_frame [OF tx_invD(7) [OF inv q] extends_refl] False w1 p by simp
  qed
  moreover have "q < Suc ?n \<and> key = (m_root (tw_objects ?w q), m_identifier (tw_objects ?w q))" if "(key, q) \<in> set (tw_transactions w1)" for key q
  proof -
    have "(key, q) = ((uid, tw_id_counter w), ?n) \<or> (key, q) \<in> set (tw_transactions w)" using that w1(6) update_Some_unfold
      by (metis (no_types, lifting) distinct_update map_of_SomeD map_of_is_SomeI table tx_invD(5) [OF inv] fun_upd_apply option.inject)
    then show ?thesis using tx_invD(6) [OF inv, of key q] w1 p by (auto simp: init_task_def new_transaction_def)
  qed
  moreover have "distinct (map fst (tw_transactions w1))" using tx_invD(5) [OF inv] w1(6) by (simp add: distinct_update)
  ultimately show "tx_inv E H ?w"
    using tx_invD(1-3) [OF inv] tab unfolding tx_inv_def update_object_fields w1(1-3) by blast
qed

section \<open>All calls\<close>

lemma wrong_state:
  "m_state (tw_objects w p) \<noteq> Pending \<Longrightarrow> tx_call p (prepare E gw) w = Some (Inl (RuntimeError ''Cannot prepare: invalid state''), w)"
  "m_state (tw_objects w p) \<noteq> Prepared \<Longrightarrow> tx_call p (commit E gw) w = Some (Inl (RuntimeError ''Cannot commit: invalid state''), w)"
  "m_state (tw_objects w p) = Committed \<Longrightarrow> tx_call p abort w = Some (Inl (RuntimeError ''Cannot abort transaction: invalid state!''), w)"
  "m_state (tw_objects w p) = Aborted \<Longrightarrow> tx_call p abort w = Some (Inr (), w)"
  by (simp_all add: tx_call_def prepare_def commit_def abort_def)

lemma abort_call_ok:
  assumes inv: "tx_inv E H w" and p: "p < tw_next_object w" and run: "running (tw_objects w p)"
  shows "\<exists>w'. tx_call p abort w = Some (Inr (), w') \<and> tx_inv E H w' \<and> vote_result p w False w' \<and> tw_next_object w' = tw_next_object w"
proof -
  let ?tx = "tw_objects w p"
  have nb: "h_nonblocking (w_handles (tw_locks w) p)" using tx_invD(7) [OF inv p] by (simp add: object_inv_def)
  obtain w2 where w2: "abort ?tx (w\<lparr>tw_locks := tw_locks w\<rparr>) = Some (Inr (), ?tx\<lparr>m_state := Aborted, m_ops := []\<rparr>, w2)"
    "tx_inv E H (update_object p (?tx\<lparr>m_state := Aborted, m_ops := []\<rparr>) w2)"
    "tw_ledger w2 = tw_ledger w" "tw_next_object w2 = tw_next_object w" "tw_objects w2 = tw_objects w"
    "tw_transactions w2 = AList.delete (m_root ?tx, m_identifier ?tx) (tw_transactions w)" "h_locks (w_handles (tw_locks w2) p) = []"
    by (rule abort_ok [OF inv p run tx_invD(4) [OF inv] _ nb same_request_refl]) simp_all
  then show ?thesis using tx_call_eq [of abort w p] by (simp add: vote_result_def)
qed

text \<open>The reply of each call.\<close>

fun reply_ok :: "('d, 'z) json_lib_scheme \<Rightarrow> 'd tx_command \<Rightarrow> 'd tx_world \<Rightarrow> tx_reply result \<Rightarrow> 'd tx_world \<Rightarrow> bool" where
  "reply_ok E (TxBegin uid level task ctx) w r w' \<longleftrightarrow>
     r = Inr (Began (tw_next_object w)) \<and> m_state (tw_objects w' (tw_next_object w)) = Pending"
| "reply_ok E (TxRegister p op) w r w' \<longleftrightarrow> r = Inr Registered \<and> m_ops (tw_objects w' p) = m_ops (tw_objects w p) @ [op]"
| "reply_ok E (TxPrepare p gw) w r w' \<longleftrightarrow>
     (if m_state (tw_objects w p) = Pending then \<exists>b. r = Inr (Voted b) \<and> vote_result p w b w'
      else r = Inl (RuntimeError ''Cannot prepare: invalid state'') \<and> w' = w)"
| "reply_ok E (TxCommit p gw) w r w' \<longleftrightarrow>
     (if m_state (tw_objects w p) = Prepared then \<exists>wit. r = Inr (Applied wit) \<and> commit_result E p w w'
      else r = Inl (RuntimeError ''Cannot commit: invalid state'') \<and> w' = w)"
| "reply_ok E (TxAbort p) w r w' \<longleftrightarrow>
     (case m_state (tw_objects w p) of
        Committed \<Rightarrow> r = Inl (RuntimeError ''Cannot abort transaction: invalid state!'') \<and> w' = w
      | Aborted \<Rightarrow> r = Inr Discarded \<and> w' = w
      | _ \<Rightarrow> r = Inr Discarded \<and> vote_result p w False w')"

lemma types_grow_ops: "types_grow S tx tx' \<Longrightarrow> m_ops tx' = m_ops tx"
  unfolding types_grow_def by (cases tx; cases tx') simp

lemma register_ops: "request_ok E (m_isolation tx) op \<Longrightarrow> m_ops (register_operation op tx) = m_ops tx @ [op]"
  using types_grow_ops [OF collect_types(1) [of E "tx\<lparr>m_ops := m_ops tx @ [op]\<rparr>" op]] by (simp add: register_operation_def)

lemma tx_step_ok:
  assumes inv: "tx_inv E H w" and ok: "command_ok E w cmd" and free: "\<not> waits_for_itself w cmd"
  shows "\<exists>r w'. tx_step E cmd w = Some (r, w') \<and> reply_ok E cmd w r w' \<and> tx_inv E (fold apply_requests (committed_by cmd r w) H) w' \<and>
    extends E (tw_ledger w) (tw_ledger w') \<and>
    (\<forall>tx\<in>set (committed_by cmd r w). \<forall>op\<in>set (m_ops tx). reads_current E (event_holds E (tw_ledger w)) (m_isolation tx) H op)"
proof (cases cmd)
  case (TxBegin uid level task ctx)
  obtain p w1 where run: "init_local_transaction uid level w = (p, w1)" by force
  then have "p = tw_next_object w" "m_state (tw_objects w1 p) = Pending"
    by (auto simp: init_local_transaction_def create_transaction_def new_transaction_def Let_def)
  then show ?thesis using TxBegin begin_ok(1) [OF inv _ run, where task = task and ctx = ctx] begin_ok(2) [OF inv _ run] ok run by (auto simp: init_task_def)
next
  case (TxRegister p op)
  then show ?thesis using register_ok [OF inv, of p op] register_ops ok by auto
next
  case (TxPrepare p gw)
  show ?thesis
  proof (cases "m_state (tw_objects w p) = Pending")
    case True
    then obtain b w' where "tx_call p (prepare E gw) w = Some (Inr b, w')" "tx_inv E H w'" "vote_result p w b w'"
      using prepare_ok [OF inv, of p gw] ok free TxPrepare by auto
    then show ?thesis using TxPrepare True by (auto simp: map_reply_def vote_result_def)
  qed (use TxPrepare wrong_state(1) [of w p E gw] inv in \<open>auto simp: map_reply_def\<close>)
next
  case (TxCommit p gw)
  show ?thesis
  proof (cases "m_state (tw_objects w p) = Prepared")
    case True
    then obtain wit w' where "tx_call p (commit E gw) w = Some (Inr wit, w')" "tx_inv E (apply_requests (tw_objects w p) H) w'" "commit_result E p w w'"
      using commit_ok [OF inv, of p gw] ok TxCommit by auto
    moreover have "\<forall>op\<in>set (m_ops (tw_objects w p)). reads_current E (event_holds E (tw_ledger w)) (m_isolation (tw_objects w p)) H op"
      using tx_invD(7) [OF inv, of p] ok TxCommit True by (simp add: object_inv_def)
    ultimately show ?thesis using TxCommit True by (auto simp: map_reply_def commit_result_def)
  qed (use TxCommit wrong_state(2) [of w p E gw] inv in \<open>auto simp: map_reply_def\<close>)
next
  case (TxAbort p)
  show ?thesis
  proof (cases "running (tw_objects w p)")
    case True
    obtain w' where "tx_call p abort w = Some (Inr (), w')" "tx_inv E H w'" "vote_result p w False w'"
      using abort_call_ok [OF inv, of p] ok TxAbort True by auto
    then show ?thesis using TxAbort True by (auto simp: map_reply_def vote_result_def running_def)
  next
    case False
    then show ?thesis using TxAbort wrong_state(3,4) [of w p] inv by (cases "m_state (tw_objects w p)") (auto simp: map_reply_def running_def)
  qed
qed

section \<open>Serial execution\<close>

text \<open>The committed transactions one after the other: each reads what it has read, then its writes take effect.\<close>

fun serial_reads :: "('d, 'z) json_lib_scheme \<Rightarrow> (event_id_t \<Rightarrow> 'd \<Rightarrow> bool) \<Rightarrow> 'd objects \<Rightarrow> 'd transaction list \<Rightarrow> bool" where
  "serial_reads E R H [] \<longleftrightarrow> True"
| "serial_reads E R H (tx # txs) \<longleftrightarrow>
     (\<forall>op\<in>set (m_ops tx). reads_current E R (m_isolation tx) H op) \<and> serial_reads E R (apply_requests tx H) txs"

lemma serial_reads_append:
  "serial_reads E R H (txs @ txs') \<longleftrightarrow> serial_reads E R H txs \<and> serial_reads E R (fold apply_requests txs H) txs'"
  by (induction txs arbitrary: H) auto

lemma serial_reads_mono: "(\<And>eid d. R eid d \<Longrightarrow> R' eid d) \<Longrightarrow> serial_reads E R H txs \<Longrightarrow> serial_reads E R' H txs"
proof (induction txs arbitrary: H)
  case (Cons tx txs)
  then show ?case using reads_current_mono [of R R' E] by (meson serial_reads.simps(2))
qed simp

definition tx_initial :: "('d, 'z) tx_env_scheme \<Rightarrow> 'd objects \<Rightarrow> 'd tx_world \<Rightarrow> bool" where
  "tx_initial E H w \<longleftrightarrow> ledger_rep E (tw_ledger w) H \<and> plain_objects E H \<and> tl_wf (tw_tx_ledger w) \<and>
     tw_next_object w = 0 \<and> tw_transactions w = [] \<and> (\<forall>s. w_count (tw_locks w) s = 0)"

lemma tx_initial_inv: "tx_initial E H w \<Longrightarrow> tx_inv E H w"
  by (simp add: tx_initial_def tx_inv_def lock_table_def)

lemma tx_steps_inv:
  assumes "tx_steps E w0 hist w" and "tx_initial E H w0"
  shows "tx_inv E (fold apply_requests hist H) w \<and> serial_reads E (event_holds E (tw_ledger w)) H hist"
  using assms(1)
proof induction
  case start
  then show ?case using tx_initial_inv [OF assms(2)] by simp
next
  case (step hist w cmd r w')
  let ?H = "fold apply_requests hist H"
  have next_step: "tx_inv E (fold apply_requests (committed_by cmd r w) ?H) w'" "extends E (tw_ledger w) (tw_ledger w')"
    "\<forall>tx\<in>set (committed_by cmd r w). \<forall>op\<in>set (m_ops tx). reads_current E (event_holds E (tw_ledger w)) (m_isolation tx) ?H op"
    using tx_step_ok [of E ?H w cmd] step by auto
  have "committed_by cmd r w = [] \<or> (\<exists>tx. committed_by cmd r w = [tx])" by (cases "(cmd, r, w)" rule: committed_by.cases) auto
  then have "serial_reads E (event_holds E (tw_ledger w)) ?H (committed_by cmd r w)" using next_step(3) by auto
  then have "serial_reads E (event_holds E (tw_ledger w)) H (hist @ committed_by cmd r w)" using step.IH by (simp add: serial_reads_append)
  then have "serial_reads E (event_holds E (tw_ledger w')) H (hist @ committed_by cmd r w)"
    by (rule serial_reads_mono [rotated]) (rule event_holds_extends [OF next_step(2)])
  then show ?case using next_step(1) by simp
qed

section \<open>Example\<close>

definition tx_nat_env :: "nat tx_env" where
  "tx_nat_env = ledger_env.extend nat_env (tx_env.fields token_lib string_order (\<lambda>_ _. []) (\<lambda>_. None) 0)"

lemma tx_nat_env_fields [simp]:
  "js_write tx_nat_env = write_fields" "js_parse tx_nat_env = parse_fields" "js_valid tx_nat_env d" "js_empty tx_nat_env d \<longleftrightarrow> d = 0"
  "js_path tx_nat_env d p = 0" "tx_values tx_nat_env = token_lib"
  by (simp_all add: tx_nat_env_def nat_env_def ledger_env.defs tx_env.defs)

lemma tx_nat_env_roundtrip: "json_roundtrip tx_nat_env"
  by (simp add: json_roundtrip_def write_fields_parse)

definition empty_world :: "nat tx_world" where
  "empty_world = \<lparr>tw_ledger = new_ledger first_store, tw_tx_ledger = new_tx_ledger \<lparr>pages = (\<lambda>_. None), m_next_page_no = 1\<rparr>,
     tw_locks = \<lparr>w_handles = (\<lambda>_. new_handle None True), w_count = (\<lambda>_. 0)\<rparr>, tw_objects = (\<lambda>_. new_transaction RepeatableRead 0 0 0 False),
     tw_next_object = 0, tw_transactions = [], tw_id_counter = 1\<rparr>"

lemma empty_world_initial: "tx_initial tx_nat_env (\<lambda>_ _. []) empty_world"
proof -
  have "store_wf (\<lparr>pages = (\<lambda>_. None), m_next_page_no = 1\<rparr> :: block page_store)" by (simp add: store_wf_def)
  then have "tl_wf (new_tx_ledger \<lparr>pages = (\<lambda>_. None), m_next_page_no = 1\<rparr>)"
    by (rule new_tx_ledger_wf) (simp_all add: can_allocate_def word_less_nat_alt)
  then show ?thesis
    using new_ledger_rep [OF tx_nat_env_roundtrip] by (simp add: tx_initial_def empty_world_def plain_objects_def all_plain_def)
qed

text \<open>A transaction with one put is created, prepared and committed.\<close>

abbreviation example_put_op :: "nat operation_info_t" where
  "example_put_op \<equiv> put_info_t 3 ''c'' ''k'' 7"

definition example_tx :: "nat transaction" where
  "example_tx = \<lparr>m_isolation = RepeatableRead, m_op_contexts = [(3, alice)], m_lock_handle = 0,
     m_shard_lock_types = [(get_shard ''c'' ''k'', Write)], m_error = [], m_root = 9, m_identifier = 1, m_is_remote = False,
     m_children = [], m_ops = [example_put_op], m_state = Pending, m_writer = []\<rparr>"

definition pending_world :: "nat tx_world" where
  "pending_world = empty_world\<lparr>tw_objects := (tw_objects empty_world)(0 := example_tx), tw_next_object := 1,
     tw_transactions := [((9, 1), 0)], tw_id_counter := 2\<rparr>"

lemma example_fits: "request_fits tx_nat_env (context_to_string alice) example_put_op"
proof -
  have "length (write_fields (new_version_event ''client://alice'' pb pi 7 v tx)) \<le> MAX_EVENT" for pb pi v tx
    using event_length(1) [of "''client://alice''" pb pi 7 v tx] decimal_bytes_length [of 7 1] by (simp add: MAX_EVENT_def)
  then show ?thesis by (simp add: request_fits_def)
qed

lemma pending_reached: "tx_steps tx_nat_env empty_world [] pending_world"
proof -
  let ?w = "update_object 0 (init_task 3 alice (new_transaction RepeatableRead 0 9 1 False))
    (snd (init_local_transaction 9 RepeatableRead empty_world)) :: nat tx_world"
  have run: "tx_step tx_nat_env (TxBegin 9 RepeatableRead 3 alice) empty_world = Some (Inr (Began 0), ?w)"
    by (simp add: init_local_transaction_def create_transaction_def empty_world_def update_object_def Let_def)
  have one: "tx_steps tx_nat_env empty_world [] ?w"
    using tx_steps.step [OF tx_steps.start _ _ run] by (simp add: empty_world_def)
  have "command_ok tx_nat_env ?w (TxRegister 0 example_put_op)"
    using example_fits
    by (simp add: init_local_transaction_def create_transaction_def empty_world_def Let_def new_transaction_def init_task_def smap_emplace_def
        is_valid_key_def is_alnum_def context_ok_def MAX_OPS_def)
  moreover have "tx_step tx_nat_env (TxRegister 0 example_put_op) ?w = Some (Inr Registered, pending_world)"
    by (simp add: init_local_transaction_def create_transaction_def empty_world_def Let_def new_transaction_def init_task_def smap_emplace_def
        register_operation_def set_write_lock_def smap_put_def op_get_shard_def parse_path_def pending_world_def example_tx_def update_object_def fun_eq_iff
        new_handle_def)
  ultimately show ?thesis using tx_steps.step [OF one] by fastforce
qed

lemma collect_one_write:
  assumes s: "unat s < NUM_SHARDS" and pending: "ledger_pending_block s l = Inr (page, b)" and counts: "counts = (replicate NUM_SHARDS 0)[unat s := 1]"
  shows "distinct ss \<Longrightarrow> (\<forall>s'\<in>set ss. unat s' < NUM_SHARDS) \<Longrightarrow>
    collect_write_set ss counts acc l = Inr (if s \<in> set ss then sset_insert event_less (mk_event_id s page (num_entries b)) acc else acc)"
proof (induction ss arbitrary: acc)
  case (Cons s' ss)
  have "counts ! unat s' = (if s' = s then 1 else 0)" using Cons.prems(2) s counts by (auto simp: nth_list_update word_unat_eq_iff)
  then show ?case using Cons pending by (auto simp: get_next_event_ids_def Let_def)
qed simp

lemma shard_list: "distinct (map word_of_nat [0..<NUM_SHARDS] :: shard_id_t list)" "unat s < NUM_SHARDS \<Longrightarrow> s \<in> set (map word_of_nat [0..<NUM_SHARDS])"
  "s \<in> set (map word_of_nat [0..<NUM_SHARDS]) \<Longrightarrow> unat s < NUM_SHARDS" for s :: shard_id_t
proof -
  have u: "unat (word_of_nat n :: shard_id_t) = n" if "n < NUM_SHARDS" for n using that by (simp add: unat_of_nat NUM_SHARDS_def take_bit_nat_eq_self)
  have "inj_on (word_of_nat :: nat \<Rightarrow> shard_id_t) {0..<NUM_SHARDS}" using u by (intro inj_onI) (metis atLeastLessThan_iff)
  then show "distinct (map word_of_nat [0..<NUM_SHARDS] :: shard_id_t list)" by (simp add: distinct_map)
  show "unat s < NUM_SHARDS \<Longrightarrow> s \<in> set (map word_of_nat [0..<NUM_SHARDS])" for s :: shard_id_t
    by (auto simp: image_iff intro!: bexI [of _ "unat s"])
  show "s \<in> set (map word_of_nat [0..<NUM_SHARDS]) \<Longrightarrow> unat s < NUM_SHARDS" for s :: shard_id_t using u by auto
qed

lemma example_sets:
  assumes "ledger_wf tx_nat_env l" and "m_ops tx = [example_put_op]"
  obtains eid where "commit_op_sets tx l = Inr \<lparr>reads = [], writes = [eid]\<rparr>"
proof -
  let ?s = "get_shard ''c'' ''k''"
  obtain b where b: "pages (m_blocks l) (pending_id l (unat ?s)) = Some b" using ledger_wfD(5) [OF assms(1) get_shard_less] by blast
  note pending = pending_block_eq [OF assms(1) get_shard_less b]
  have "fold extract_writes (m_ops tx) (replicate NUM_SHARDS 0) = (replicate NUM_SHARDS 0)[unat ?s := 1]"
    using assms(2) get_shard_less [of "''c''" "''k''"] by (simp add: count_write_def op_get_shard_def parse_path_def)
  from collect_one_write [OF get_shard_less pending this shard_list(1), of "[]"] show ?thesis
    using that assms(2) shard_list(2) [OF get_shard_less] shard_list(3) by (auto simp: commit_op_sets_def Let_def)
qed

lemma decimal_word_length: "length (decimal_bytes (unat (x :: 'a :: len word))) \<le> Suc LENGTH('a)"
proof -
  have "unat x < 2 ^ LENGTH('a)" by (rule unsigned_less)
  also have "\<dots> \<le> 10 ^ LENGTH('a)" by (simp add: power_mono)
  finally show ?thesis by (rule decimal_bytes_length)
qed

lemma example_record_fits:
  assumes "ledger_wf tx_nat_env l" and "m_ops tx = [example_put_op]" and "m_op_contexts tx = [(3, alice)]"
  shows "record_fits tx_nat_env tx l"
proof -
  obtain eid where sets: "commit_op_sets tx l = Inr \<lparr>reads = [], writes = [eid]\<rparr>" by (rule example_sets [OF assms(1,2)])
  note len = decimal_word_length [of "m_root tx"] decimal_word_length [of "m_identifier tx"] decimal_word_length [of "ev_shard eid"]
    decimal_word_length [of "ev_block eid"] decimal_word_length [of "ev_index eid"]
  have small: "length (decimal_bytes n) \<le> 2" if "n < 10" for n using decimal_bytes_length [of n 1] that by simp
  note lits = small [of 0] small [of "Suc 0"] small [of "Suc (Suc 0)"] small [of "Suc (Suc (Suc 0))"] small [of "Suc (Suc (Suc (Suc (Suc 0))))"]
  obtain ch where three: "to_string_nat 3 = [ch]" by (simp add: to_string_nat.simps)
  show ?thesis
    using len lits sets assms(3) three
    by (simp add: record_fits_def transaction_record_def write_op_set_def write_event_ids_def token_lib_def char_bytes_def)
qed

lemma committed_reached: "\<exists>w. tx_steps tx_nat_env empty_world [example_tx\<lparr>m_state := Prepared\<rparr>] w"
proof -
  let ?s = "get_shard ''c'' ''k''" and ?E = tx_nat_env and ?tx = "example_tx\<lparr>m_state := Prepared\<rparr>" and ?w = pending_world
  have rep: "ledger_rep ?E (tw_ledger ?w) (\<lambda>_ _. [])" "plain_objects ?E (\<lambda>_ _. [])"
    using tx_steps_inv [OF pending_reached empty_world_initial] by (auto simp: tx_inv_def)
  obtain lw where lw: "acquire_locks 0 [(?s, Write)] (tw_locks ?w) = (None, lw)"
    by (simp add: lock_eval pending_world_def empty_world_def new_handle_def)
  have "get_op_context 3 example_tx = Inr alice" by (simp add: example_tx_def get_op_context_def)
  then have "validate_write ?E 3 ''c'' ''k'' [] PutObject (tw_ledger ?w) example_tx = Some (Inr True, example_tx)"
    by (rule validate_write_ok [OF rep]) (simp add: is_valid_key_def is_alnum_def)
  then have "prepare ?E False example_tx ?w = Some (Inr True, ?tx, ?w\<lparr>tw_locks := lw\<rparr>)"
    using lw by (simp add: prepare_def example_tx_def parse_path_def validate_defs)
  then have step: "tx_step ?E (TxPrepare 0 False) ?w = Some (Inr (Voted True), update_object 0 ?tx (?w\<lparr>tw_locks := lw\<rparr>))"
    using tx_call_eq [of "prepare ?E False" ?w 0] by (simp add: map_reply_def pending_world_def)
  let ?w1 = "update_object 0 ?tx (?w\<lparr>tw_locks := lw\<rparr>)"
  have "command_ok ?E ?w (TxPrepare 0 False)" "\<not> waits_for_itself ?w (TxPrepare 0 False)"
    by (simp_all add: pending_world_def no_self_block_def example_tx_def)
  then have steps: "tx_steps ?E empty_world [] ?w1" using tx_steps.step [OF pending_reached _ _ step] by simp
  have inv: "tx_inv ?E (\<lambda>_ _. []) ?w1" using tx_steps_inv [OF steps empty_world_initial] by simp
  have wf: "ledger_wf ?E (tw_ledger ?w)" using rep(1) by (simp add: ledger_rep_def)
  have ok: "command_ok ?E ?w1 (TxCommit 0 False)"
    using example_record_fits [OF wf, of ?tx] new_ledger_correct(4)
    by (simp add: pending_world_def empty_world_def example_tx_def new_tx_ledger_def tl_generate_block_def new_page_def can_allocate_def
        word_less_nat_alt NUM_SHARDS_def)
  have "m_state (tw_objects ?w1 0) = Prepared" by simp
  then obtain wit w' where "tx_call 0 (commit ?E False) ?w1 = Some (Inr wit, w')" using commit_ok [OF inv ok] by blast
  then have "tx_step ?E (TxCommit 0 False) ?w1 = Some (Inr (Applied wit), w')" by (simp add: map_reply_def)
  then show ?thesis using tx_steps.step [OF steps ok] by fastforce
qed

section \<open>Properties\<close>

text \<open>
  Property C2. Transactions are serializable. Take any sequence of calls that create transactions, add
  operations, prepare, commit and abort them, in any interleaving, from a state without transactions.
  Then the ledger holds exactly the objects that result from executing the committed transactions one
  after the other in the order of their commits; and in this serial execution every check and existence
  test gives the answer the transaction has recorded, and every event that a get or a query of a
  transaction above \<open>ReadCommitted\<close> has returned holds the current value of its object. (At
  \<open>ReadCommitted\<close>, the object exists.) Queries of serializable transactions and \<open>add\<close> are excluded by
  \<open>command_ok\<close>, and a prepare that waits for its own lock by \<open>waits_for_itself\<close>.
\<close>

theorem transactions_serializable:
  assumes steps: "tx_steps E w0 hist w" and init: "tx_initial E H w0"
  shows "ledger_rep E (tw_ledger w) (fold apply_requests hist H) \<and>
    serial_reads E (\<lambda>eid d. rbind (get_event E eid (tw_ledger w)) event_value = Inr d) H hist"
proof -
  have inv: "tx_inv E (fold apply_requests hist H) w" and reads: "serial_reads E (event_holds E (tw_ledger w)) H hist"
    using tx_steps_inv [OF steps init] by auto
  have wf: "json_roundtrip E" "ledger_wf E (tw_ledger w)" using tx_invD(1) [OF inv] by (auto simp: ledger_rep_def)
  show ?thesis using tx_invD(1) [OF inv] serial_reads_mono [OF event_holds_value [OF wf] reads] by simp
qed

theorem transactions_serializable_witness:
  "\<exists>w. tx_steps tx_nat_env empty_world [example_tx\<lparr>m_state := Prepared\<rparr>] w \<and>
     ledger_rep tx_nat_env (tw_ledger w) (\<lambda>c k. if c = ''c'' \<and> k = ''k'' then [(''client://alice'', 7)] else [])"
proof -
  obtain w where w: "tx_steps tx_nat_env empty_world [example_tx\<lparr>m_state := Prepared\<rparr>] w" using committed_reached by blast
  have "fold apply_requests [example_tx\<lparr>m_state := Prepared\<rparr>] (\<lambda>_ _. []) = (\<lambda>c k. if c = ''c'' \<and> k = ''k'' then [(''client://alice'', 7)] else [])"
    by (simp add: apply_requests_def example_tx_def set_object_def put_version_def INITIAL_VERSION_NO_def fun_eq_iff)
  then show ?thesis using transactions_serializable [OF w empty_world_initial] w by auto
qed



text \<open>The destructor of the manager.\<close>

lemma abort_all_ok:
  "tx_inv E H w \<Longrightarrow> \<exists>w'. abort_all w = Some (Inr (), w') \<and> tx_inv E H w' \<and> tw_transactions w' = [] \<and> tw_ledger w' = tw_ledger w"
proof (induction "length (tw_transactions w)" arbitrary: w)
  case 0
  then show ?case by (subst abort_all.simps) simp
next
  case (Suc n)
  obtain key p table where t: "tw_transactions w = (key, p) # table" using Suc.hyps(2) by (cases "tw_transactions w") auto
  have p: "p < tw_next_object w" "key = (m_root (tw_objects w p), m_identifier (tw_objects w p))" using tx_invD(6) [OF Suc.prems, of key p] t by auto
  have run: "running (tw_objects w p)" using tx_invD(7) [OF Suc.prems p(1)] t p(2) by (simp add: object_inv_def)
  obtain w1 where w1: "tx_call p abort w = Some (Inr (), w1)" "tx_inv E H w1" "vote_result p w False w1"
    using abort_call_ok [OF Suc.prems p(1) run] by blast
  have "key \<notin> fst ` set table" using tx_invD(5) [OF Suc.prems] t by simp
  then have "tw_transactions w1 = table" "tw_ledger w1 = tw_ledger w" using w1(3) t p(2) by (simp_all add: vote_result_def)
  then obtain w' where "abort_all w1 = Some (Inr (), w')" "tx_inv E H w'" "tw_transactions w' = []" "tw_ledger w' = tw_ledger w"
    using Suc.hyps(1) [OF _ w1(2)] Suc.hyps(2) t by auto
  then show ?case using t w1(1) by (subst abort_all.simps) simp
qed

lemma no_transactions_no_locks:
  assumes inv: "tx_inv E H w" and none: "tw_transactions w = []"
  shows "w_count (tw_locks w) s = 0"
proof -
  have "h_locks (w_handles (tw_locks w) p) = []" if "p < tw_next_object w" for p
    using tx_invD(7) [OF inv that] none by (auto simp: object_inv_def running_def split: if_splits)
  then have "(\<Sum>h<tw_next_object w. contribution (lock_entry (tw_locks w) h s)) = 0" by (intro sum.neutral) simp
  then show ?thesis using tx_invD(4) [OF inv] by (simp add: lock_table_def)
qed

text \<open>
  Property C37. The transaction manager can be destroyed at any time: its destructor, which aborts the
  listed transactions until none is left, ends; afterwards no shard is locked, and the ledger is what it was.
\<close>

theorem manager_destructor_ends:
  assumes steps: "tx_steps E w0 hist w" and init: "tx_initial E H w0"
  shows "\<exists>w'. abort_all w = Some (Inr (), w') \<and> num_pending_transactions w' = 0 \<and> tw_ledger w' = tw_ledger w \<and>
    (\<forall>s. w_count (tw_locks w') s = 0)"
proof -
  obtain w' where "abort_all w = Some (Inr (), w')" "tx_inv E (fold apply_requests hist H) w'" "tw_transactions w' = []" "tw_ledger w' = tw_ledger w"
    using abort_all_ok [OF conjunct1 [OF tx_steps_inv [OF steps init]]] by blast
  then show ?thesis using no_transactions_no_locks by (auto simp: num_pending_transactions_def)
qed

theorem manager_destructor_ends_witness:
  "num_pending_transactions pending_world = 1 \<and> (\<exists>w'. abort_all pending_world = Some (Inr (), w') \<and> num_pending_transactions w' = 0)"
  using manager_destructor_ends [OF pending_reached empty_world_initial] by (auto simp: num_pending_transactions_def pending_world_def)

end
