(* ===== verification/Ledger_Clear.thy ===== *)
theory Ledger_Clear
  imports Ledger_Query
begin

text \<open>
  \<open>Ledger::clear\<close>: every object of a collection gets a tombstone, in the order the primary index is iterated
  (the argument \<open>ord\<close>). The index entry is replaced through the iterator; here, as everywhere in the ledger, the
  index is a map. The code on the pages of the index is in \<open>Index_Clear\<close>, with the proof that this is what it does as long as no
  bucket of the index has more than one page; with more pages \<open>set_value\<close> makes the index unreadable (\<open>Hash_Map_Iter\<close>).
\<close>

section \<open>Definitions\<close>

definition clear_entry ::
  "('d, 'z) json_lib_scheme \<Rightarrow> op_context \<Rightarrow> string \<Rightarrow> string \<Rightarrow> ledger \<Rightarrow> ledger result" where
  "clear_entry E ctx collection key l =
     rbind (get_collection collection False l) (\<lambda>(col, l1).
       case c_primary col key of
         None \<Rightarrow> Inr l1
       | Some previous_id \<Rightarrow>
           rbind (get_event E previous_id l1) (\<lambda>previous_event.
             if \<not> event_valid previous_event then Inl (RuntimeError ''Broken object reference'')
             else rbind (get_type previous_event) (\<lambda>t.
               if t = Deletion then Inr l1
               else rbind (put_tombstone E ctx previous_id INVALID_LEDGER_POS l1) (\<lambda>(eid, l2).
                 let col' = col\<lparr>c_primary := (c_primary col)(key \<mapsto> eid)\<rparr>
                 in Inr ((set_collection collection col' l2)\<lparr>m_object_count := m_object_count l2 - 1\<rparr>)))))"

fun clear_entries ::
  "('d, 'z) json_lib_scheme \<Rightarrow> op_context \<Rightarrow> string \<Rightarrow> string list \<Rightarrow> ledger \<Rightarrow> ledger result" where
  "clear_entries E ctx collection [] l = Inr l"
| "clear_entries E ctx collection (key # keys) l = rbind (clear_entry E ctx collection key l) (clear_entries E ctx collection keys)"

fun organize_all :: "shard_id_t list \<Rightarrow> ledger \<Rightarrow> ledger result" where
  "organize_all [] l = Inr l"
| "organize_all (s # ss) l = rbind (organize_ledger s l) (organize_all ss)"

definition ledger_clear ::
  "('d, 'z) json_lib_scheme \<Rightarrow> (string set \<Rightarrow> string list) \<Rightarrow> op_context \<Rightarrow> string \<Rightarrow> ledger \<Rightarrow> (bool \<times> ledger) result" where
  "ledger_clear E ord ctx collection l =
     rbind (get_collection collection False l) (\<lambda>(col, l1).
     rbind (clear_entries E ctx collection (ord (dom (c_primary col))) l1) (\<lambda>l2.
     rbind (organize_all (map word_of_nat [0..<NUM_SHARDS]) l2) (\<lambda>l3. Inr (True, l3))))"

section \<open>Closing the blocks of several shards\<close>

lemma organize_all_ok:
  assumes "ledger_holds E l H" and "small_except S l" and "\<forall>s\<in>set ss. unat s < NUM_SHARDS"
    and "unat (m_next_page_no (m_blocks l)) + length ss < 2 ^ 32 - 1"
  shows "\<exists>l'. organize_all ss l = Inr l' \<and> ledger_holds E l' H \<and> extends E l l' \<and> small_except (S - unat ` set ss) l' \<and>
    unat (m_next_page_no (m_blocks l')) \<le> unat (m_next_page_no (m_blocks l)) + length ss"
  using assms
proof (induction ss arbitrary: l S)
  case (Cons s ss)
  have wf: "json_roundtrip E" "ledger_wf E l" using Cons.prems(1) by (auto simp: ledger_holds_def)
  have s: "unat s < NUM_SHARDS" using Cons.prems(3) by simp
  have alloc: "can_allocate (m_blocks l)" using Cons.prems(4) by (simp add: can_allocate_def word_less_nat_alt)
  obtain l1 where l1: "organize_ledger s l = Inr l1" "ledger_wf E l1" "extends E l l1" "small_except (S - {unat s}) l1"
    "m_collections l1 = m_collections l" "unat (m_next_page_no (m_blocks l1)) \<le> unat (m_next_page_no (m_blocks l)) + 1"
    by (rule organize_correct [OF wf s alloc Cons.prems(2)])
  have look: "lookup l1 = lookup l" using l1(5) by (simp add: lookup_def fun_eq_iff)
  have holds: "ledger_holds E l1 H" by (rule ledger_holds_extends [OF Cons.prems(1) l1(2,3) look])
  obtain l' where l': "organize_all ss l1 = Inr l'" "ledger_holds E l' H" "extends E l1 l'"
      "small_except (S - {unat s} - unat ` set ss) l'"
      "unat (m_next_page_no (m_blocks l')) \<le> unat (m_next_page_no (m_blocks l1)) + length ss"
    using Cons.IH [OF holds l1(4)] Cons.prems(3,4) l1(6) by auto
  have "S - {unat s} - unat ` set ss = S - unat ` set (s # ss)" by auto
  then show ?case using l' l1(1,6) extends_trans [OF l1(3) l'(3)] by auto
qed simp

section \<open>What \<open>clear\<close> does\<close>

definition cleared :: "string \<Rightarrow> string set \<Rightarrow> 'd objects \<Rightarrow> 'd objects" where
  "cleared collection keys H = (\<lambda>c k. if c = collection \<and> k \<in> keys then [] else H c k)"

lemma cleared_insert:
  "set_object collection key [] (cleared collection keys H) = cleared collection (insert key keys) H"
  by (auto simp: cleared_def set_object_def fun_eq_iff)

text \<open>The tombstones of a context take at most \<open>M\<close> bytes.\<close>

definition tombstone_size :: "('d, 'z) json_lib_scheme \<Rightarrow> op_context \<Rightarrow> nat \<Rightarrow> bool" where
  "tombstone_size E ctx M \<longleftrightarrow> (\<forall>pb pi tx. length (js_write E (tombstone_event (context_to_string ctx) pb pi tx)) \<le> M)"

lemma clear_entry_ok:
  assumes rep: "ledger_holds E l H" and ctx: "context_valid ctx" and size: "tombstone_size E ctx M"
    and room: "room_for (Suc n) (M + B) l" and small: "small_except S l" and col: "m_collections l collection \<noteq> None"
  obtains l' S' where "clear_entry E ctx collection key l = Inr l'" "ledger_holds E l' (set_object collection key [] H)"
    "room_for n B l'" "small_except S' l'" "m_next_page_no (m_blocks l') = m_next_page_no (m_blocks l)" "m_collections l' collection \<noteq> None"
proof -
  obtain c where c: "m_collections l collection = Some c" using col by blast
  have rt: "json_roundtrip E" "ledger_wf E l" using rep by (auto simp: ledger_holds_def)
  have look: "lookup l collection key = c_primary c key" using c by (simp add: lookup_def)
  have unchanged: "ledger_holds E l (set_object collection key [] H)" "room_for n B l" if "H collection key = []"
    using rep that set_object_same [of collection key H] room_for_less [OF room, of n B] by simp_all
  note same = that [of l S, OF _ unchanged small refl col]
  from rep show ?thesis
  proof (cases rule: object_cases_holds [where collection = collection and key = key])
    case absent
    then have prim: "c_primary c key = None" using look by simp
    show ?thesis using absent by (intro same) (simp_all add: clear_entry_def get_collection_def c prim)
  next
    case (deleted eid ev)
    then have prim: "c_primary c key = Some eid" using look by simp
    then have "get_event E eid l = Inr (Some ev)" using c deleted by (auto simp: get_latest_event_def try_get_collection_def rbind_eq_Inr)
    then show ?thesis using deleted by (intro same) (simp_all add: clear_entry_def get_collection_def c prim)
  next
    case (live eid ev)
    have ev: "get_event E eid l = Inr (Some ev)" "get_type (Some ev) = Inr NewVersion"
      using stored_get_event [OF rt live(6)] version_chainD(2) [OF live(7)] by simp_all
    let ?s = "get_shard collection key"
    let ?t = "tombstone_event (context_to_string ctx) (ev_block eid) (ev_index eid) INVALID_LEDGER_POS :: 'a content"
    have len: "length (js_write E ?t) \<le> M" using size by (simp add: tombstone_size_def)
    have room': "room_for (Suc n) (length (js_write E ?t) + B) l" using room_for_less [OF room] len by simp
    obtain new l1 where tomb: "append_event E ?s ?t l = Inr (new, l1)" "ledger_wf E l1" "extends E l l1" "stored E l1 new ?t"
        "ev_shard new = ?s" "m_collections l1 = m_collections l" "grown ?s (length (js_write E ?t)) l l1"
      by (rule append_event_correct [OF rt get_shard_less room_for_has_room [OF rt(2) room' get_shard_less]])
    let ?l2 = "(set_collection collection (c\<lparr>c_primary := (c_primary c)(key \<mapsto> new)\<rparr>) l1)\<lparr>m_object_count := m_object_count l1 - 1\<rparr>"
    have upd: "object_updated E collection key new ?t l ?l2"
      using c tomb(6) by (intro object_updatedI [OF refl tomb(2-5,7) refl refl]) (auto simp: set_collection_def lookup_def)
    have prim: "c_primary c key = Some eid" using live(3) look by simp
    have "clear_entry E ctx collection key l = Inr ?l2"
      using live(4) ev tomb(1) ctx by (simp add: clear_entry_def get_collection_def put_tombstone_def c prim)
    moreover have "ledger_holds E ?l2 (set_object collection key [] H)"
      by (rule object_updated_holds [OF rep upd live(2)]) (auto simp: is_tombstone_def)
    ultimately show ?thesis
      using that object_updatedD(1) [OF upd rt(2) small] object_updatedD(2) [OF upd rt(2) room'] object_updatedD(3) [OF upd rt(2)]
      by (simp add: set_collection_def)
  qed
qed

lemma clear_entries_ok:
  assumes "ledger_holds E l H" and "context_valid ctx" and "tombstone_size E ctx M"
    and "room_for (length keys) (length keys * M) l" and "small_except S l" and "m_collections l collection \<noteq> None"
  shows "\<exists>l' S'. clear_entries E ctx collection keys l = Inr l' \<and> ledger_holds E l' (cleared collection (set keys) H) \<and>
    small_except S' l' \<and> m_next_page_no (m_blocks l') = m_next_page_no (m_blocks l)"
  using assms
proof (induction keys arbitrary: l H S)
  case Nil
  then show ?case by (auto simp: cleared_def)
next
  case (Cons key keys)
  have room: "room_for (Suc (length keys)) (M + length keys * M) l" using Cons.prems(4) by simp
  obtain l1 S1 where l1: "clear_entry E ctx collection key l = Inr l1" "ledger_holds E l1 (set_object collection key [] H)"
    "room_for (length keys) (length keys * M) l1" "small_except S1 l1" "m_next_page_no (m_blocks l1) = m_next_page_no (m_blocks l)"
    "m_collections l1 collection \<noteq> None"
    by (rule clear_entry_ok [OF Cons.prems(1-3) room Cons.prems(5,6)])
  have "cleared collection (set keys) (set_object collection key [] H) = cleared collection (set (key # keys)) H"
    by (auto simp: cleared_def set_object_def fun_eq_iff)
  then show ?case using Cons.IH [OF l1(2) Cons.prems(2,3) l1(3,4,6)] l1(1,5) by simp
qed

text \<open>
  Clearing a collection succeeds and leaves it empty, whatever the order of the keys: afterwards no key of it names an object, the objects of every other
  collection have the versions they had, and the ledger is in order.
\<close>

lemma clear_in_order:
  assumes rep: "ledger_rep E l H" and ord: "set (ord (dom (c_primary col))) = dom (c_primary col)" "distinct (ord (dom (c_primary col)))" and ctx: "context_valid ctx"
    and col: "m_collections l collection = Some col"
    and few: "card (dom (c_primary col)) \<le> 64000" and size: "tombstone_size E ctx M" "card (dom (c_primary col)) * M < EVENT_LIMIT"
    and pages: "unat (m_next_page_no (m_blocks l)) + NUM_SHARDS < 2 ^ 32 - 1"
  shows "\<exists>l'. ledger_clear E ord ctx collection l = Inr (True, l') \<and>
    ledger_rep E l' (\<lambda>c k. if c = collection then [] else H c k) \<and> (\<forall>key. has_object E collection key l' = Inr False)"
proof -
  let ?keys = "ord (dom (c_primary col))" and ?H = "\<lambda>c k. if c = collection then [] else H c k"
  have keys: "set ?keys = dom (c_primary col)" "length ?keys = card (dom (c_primary col))"
    using ord distinct_card [of ?keys] by auto
  have wf: "ledger_wf E l" "ledger_small l" using rep by (auto simp: ledger_rep_def)
  have room: "room_for (length ?keys) (length ?keys * M) l" using small_room_for [OF wf] few size(2) keys(2) by simp
  have small: "small_except {} l" using wf(2) by (simp add: small_except_empty)
  obtain l1 S where l1: "clear_entries E ctx collection ?keys l = Inr l1" "ledger_holds E l1 (cleared collection (set ?keys) H)"
    "small_except S l1" "m_next_page_no (m_blocks l1) = m_next_page_no (m_blocks l)"
    using clear_entries_ok [OF ledger_rep_holds [OF rep] ctx size(1) room small, of collection] col by auto
  have "H collection k = []" if "k \<notin> dom (c_primary col)" for k
  proof -
    have "object_rep E l collection k (H collection k)" using rep by (simp add: ledger_rep_def)
    moreover have "lookup l collection k = None" using that col by (simp add: lookup_def domIff)
    ultimately show ?thesis by (simp add: object_rep_def)
  qed
  then have H: "cleared collection (set ?keys) H = ?H" unfolding keys(1) by (auto simp: cleared_def fun_eq_iff)
  let ?ss = "map word_of_nat [0..<NUM_SHARDS] :: shard_id_t list"
  have shard: "unat (word_of_nat n :: shard_id_t) = n" if "n < NUM_SHARDS" for n
    using that by (simp add: NUM_SHARDS_def unat_of_nat take_bit_nat_eq_self)
  obtain l' where l': "organize_all ?ss l1 = Inr l'" "ledger_holds E l' ?H" "small_except (S - unat ` set ?ss) l'"
    using organize_all_ok [OF l1(2,3), of ?ss] pages l1(4) shard unfolding H by auto
  have "unat ` set ?ss = {..<NUM_SHARDS}" using shard by (force simp: image_image)
  then have "ledger_small l'" using l'(3) by (auto simp: small_except_def ledger_small_def)
  then have "ledger_rep E l' ?H" using l'(2) by (simp add: ledger_rep_iff)
  moreover have "has_object E collection key l' = Inr False" for key using has_object_correct [OF calculation, of collection key] by simp
  ultimately show ?thesis using l1(1) l'(1) col by (simp add: ledger_clear_def get_collection_def)
qed

end
