(* ===== verification/Index_Clear.thy ===== *)
theory Index_Clear
  imports Ledger_Clear Hash_Map_Iter
begin

text \<open>
  \<open>Ledger::clear\<close> on the pages of the primary index: the iterator, the tombstones, and \<open>set_value\<close>, which
  replaces the entry under the iterator. Shown: as long as every bucket of the index is a single page, this has the effect of
  \<open>ledger_clear\<close>, in which the index is a map, and the collection is empty afterwards.
\<close>

section \<open>The loop\<close>

definition clear_current ::
  "('d, 'z) json_lib_scheme \<Rightarrow> (hm_entries \<Rightarrow> nat) \<Rightarrow> op_context \<Rightarrow> hm_iter \<Rightarrow> abstract_map \<Rightarrow> hm_store \<Rightarrow> ledger \<Rightarrow>
     (abstract_map \<times> hm_store \<times> ledger) result" where
  "clear_current E bs ctx it m st l =
     rbind (it_key st it) (\<lambda>key. rbind (it_value st it) (\<lambda>previous_id.
     rbind (get_event E previous_id l) (\<lambda>previous_event.
       if \<not> event_valid previous_event then Inl (RuntimeError ''Broken object reference'')
       else rbind (get_type previous_event) (\<lambda>t.
         if t = Deletion then Inr (m, st, l)
         else rbind (put_tombstone E ctx previous_id INVALID_LEDGER_POS l) (\<lambda>(eid, l1).
              rbind (set_value bs eid it m st) (\<lambda>(m1, st1). Inr (m1, st1, l1\<lparr>m_object_count := m_object_count l1 - 1\<rparr>)))))))"

partial_function (option) clear_pages ::
  "('d, 'z) json_lib_scheme \<Rightarrow> (hm_entries \<Rightarrow> nat) \<Rightarrow> op_context \<Rightarrow> hm_iter \<Rightarrow> abstract_map \<Rightarrow> hm_store \<Rightarrow> ledger \<Rightarrow>
     (abstract_map \<times> hm_store \<times> ledger) result option" where
  "clear_pages E bs ctx it m st l =
     (if at_end it then Some (Inr (m, st, l))
      else case clear_current E bs ctx it m st l of
             Inl e \<Rightarrow> Some (Inl e)
           | Inr (m1, st1, l1) \<Rightarrow>
               (case it_next m1 st1 it of
                  Inl e \<Rightarrow> Some (Inl e)
                | Inr it1 \<Rightarrow> clear_pages E bs ctx it1 m1 st1 l1))"

definition ledger_clear_pages ::
  "('d, 'z) json_lib_scheme \<Rightarrow> (hm_entries \<Rightarrow> nat) \<Rightarrow> op_context \<Rightarrow> abstract_map \<Rightarrow> hm_store \<Rightarrow> ledger \<Rightarrow>
     (abstract_map \<times> hm_store \<times> ledger) result option" where
  "ledger_clear_pages E bs ctx m st l =
     (case it_begin m st of
        Inl e \<Rightarrow> Some (Inl e)
      | Inr it \<Rightarrow>
          (case clear_pages E bs ctx it m st l of
             None \<Rightarrow> None
           | Some (Inl e) \<Rightarrow> Some (Inl e)
           | Some (Inr (m1, st1, l1)) \<Rightarrow>
               Some (rbind (organize_all (map word_of_nat [0..<NUM_SHARDS]) l1) (\<lambda>l2. Inr (m1, st1, l2)))))"

section \<open>The ledger with the contents of the pages as index\<close>

definition with_index :: "string \<Rightarrow> collection \<Rightarrow> (string \<rightharpoonup> event_id_t) \<Rightarrow> ledger \<Rightarrow> ledger" where
  "with_index collection col f l = set_collection collection (col\<lparr>c_primary := f\<rparr>) l"

lemma with_index_same: "m_collections l collection = Some col \<Longrightarrow> with_index collection col (c_primary col) l = l"
  by (simp add: with_index_def set_collection_def fun_upd_idem)

lemma with_index_collection [simp]: "m_collections (with_index collection col f l) collection = Some (col\<lparr>c_primary := f\<rparr>)"
  by (simp add: with_index_def set_collection_def)

lemma with_index_replace:
  "(set_collection collection (col\<lparr>c_primary := f'\<rparr>) (with_index collection col f l))\<lparr>m_object_count := n\<rparr> = with_index collection col f' (l\<lparr>m_object_count := n\<rparr>)"
  "m_object_count (with_index collection col f l) = m_object_count l"
  by (simp_all add: with_index_def set_collection_def)

lemma shard_at_index [simp]: "shard_at s (with_index collection col f l) = shard_at s l"
  by (simp add: with_index_def set_collection_def shard_at_def)

lemma get_event_index [simp]: "get_event E eid (with_index collection col f l) = get_event E eid l"
  by (simp add: get_event_def ledger_get_block_def) (simp add: with_index_def set_collection_def)

lemma put_tombstone_index:
  "put_tombstone E ctx previous_id tx (with_index collection col f l) =
     rbind (put_tombstone E ctx previous_id tx l) (\<lambda>(eid, l1). Inr (eid, with_index collection col f l1))"
  by (auto simp: put_tombstone_def append_event_def ledger_pending_block_def with_index_def set_collection_def shard_at_def rbind_def split: sum.splits)

lemma organize_ledger_index:
  "organize_ledger s (with_index collection col f l) = rbind (organize_ledger s l) (\<lambda>l1. Inr (with_index collection col f l1))"
  by (auto simp: organize_ledger_def with_index_def set_collection_def shard_at_def set_shard_def rbind_def Let_def split: sum.splits prod.splits)

lemma organize_all_index:
  "organize_all ss (with_index collection col f l) = rbind (organize_all ss l) (\<lambda>l1. Inr (with_index collection col f l1))"
proof (induction ss arbitrary: l)
  case (Cons s ss)
  then show ?case by (cases "organize_ledger s l") (simp_all add: organize_ledger_index)
qed simp

section \<open>Single pages\<close>

definition single_pages :: "(nat \<Rightarrow> page_no_t list) \<Rightarrow> bool" where
  "single_pages C \<longleftrightarrow> (\<forall>b. length (C b) \<le> 1)"

lemma single_page_node: "single_pages C \<Longrightarrow> it_at st C it (k # ks) \<Longrightarrow> \<exists>q. it_nodes it = [q] \<and> C (it_bucket it) = [q]"
  unfolding single_pages_def it_at_def
  by (metis (no_types, lifting) One_nat_def append_eq_Cons_conv append_is_Nil_conv length_0_conv length_Suc_conv le_SucE le_zero_eq list.distinct(1) list.sel(3) append_Nil)

lemma it_value_correct:
  assumes rep: "hm_rep bs m st C" and it: "it_at st C it (k # ks)" and single: "single_pages C"
  shows "\<exists>v. it_value st it = Inr v \<and> hm_abs st C k = Some v"
proof -
  obtain q where q: "it_nodes it = [q]" "C (it_bucket it) = [q]" using single_page_node [OF single it] by blast
  note br = hm_repD(3) [OF rep, of "it_bucket it", unfolded bucket_rep_def q]
  obtain n where n: "pages st q = Some n" "q \<noteq> INVALID_PAGE_NO"
    using chain_pages [OF conjunct1 [OF br], of q] chain_valid [OF conjunct1 [OF br], of q] by auto
  have pos: "it_pos it < length (n_entries n)" and k: "k = fst (n_entries n ! it_pos it)" and ne: "\<not> at_end it"
    using it q n by (auto simp: it_at_def at_end_def Cons_nth_drop_Suc [symmetric])
  let ?e = "n_entries n ! it_pos it"
  have mem: "?e \<in> set (n_entries n)" using pos by simp
  have "to_bucket hash_string k = it_bucket it" using br n mem k by auto
  then have "hm_abs st C k = map_of (n_entries n) k" using q n by (simp add: hm_abs_def)
  moreover have "map_of (n_entries n) k = Some (snd ?e)" using br n mem k by (intro map_of_is_SomeI) auto
  moreover have "it_value st it = Inr (snd ?e)" using pos ne n q by (simp add: it_value_def it_entry_def get_page_def hnode_get_at_def)
  ultimately show ?thesis by simp
qed

text \<open>Pages with other values and the same keys do not concern an iterator.\<close>

lemma it_at_same_keys:
  assumes single: "single_pages C" and keys: "\<forall>b. chain_keys st' (C b) = chain_keys st (C b)" and it: "it_at st C it (k # ks)"
  shows "it_at st' C it (k # ks)"
proof -
  obtain q where q: "it_nodes it = [q]" "C (it_bucket it) = [q]" using single_page_node [OF single it] by blast
  have node: "map fst (n_entries (node_at st' q)) = map fst (n_entries (node_at st q))" using spec [OF keys, of "it_bucket it"] q by simp
  then have "length (n_entries (node_at st' q)) = length (n_entries (node_at st q))" by (metis length_map)
  moreover have "keys_from st' C b = keys_from st C b" for b using keys by (simp add: keys_from_def)
  ultimately show ?thesis using it q node by (auto simp: it_at_def)
qed

section \<open>Simulation\<close>

lemma clear_current_ok:
  assumes rep: "hm_rep bs m st C" and it: "it_at st C it (k # ks)" and single: "single_pages C"
    and step: "clear_entry E ctx collection k (with_index collection col (hm_abs st C) l) = Inr L"
  obtains m' st' l' where "clear_current E bs ctx it m st l = Inr (m', st', l')" "L = with_index collection col (hm_abs st' C) l'"
    "hm_rep bs m' st' C" "it_at st' C it (k # ks)"
proof -
  obtain v where v: "it_value st it = Inr v" "hm_abs st C k = Some v" using it_value_correct [OF rep it single] by blast
  have key: "it_key st it = Inr k" using it_next_correct [OF rep it] by blast
  obtain q where q: "it_nodes it = [q]" using single_page_node [OF single it] by blast
  obtain ev t where ev: "get_event E v l = Inr ev" "event_valid ev" "get_type ev = Inr t"
    using step v(2) by (auto simp: clear_entry_def get_collection_def rbind_eq_Inr split: if_splits)
  show thesis
  proof (cases "t = Deletion")
    case True
    then have "L = with_index collection col (hm_abs st C) l" using step v(2) ev by (simp add: clear_entry_def get_collection_def)
    with True show thesis using that [of m st l] rep it key v(1) ev by (simp add: clear_current_def)
  next
    case False
    then have "rbind (put_tombstone E ctx v INVALID_LEDGER_POS l)
        (\<lambda>(eid, l1). Inr (with_index collection col ((hm_abs st C)(k \<mapsto> eid)) (l1\<lparr>m_object_count := m_object_count l1 - 1\<rparr>))) = Inr L"
      using step v(2) ev
      by (cases "put_tombstone E ctx v INVALID_LEDGER_POS l") (auto simp: clear_entry_def get_collection_def put_tombstone_index with_index_replace)
    then obtain eid l1 where l1: "put_tombstone E ctx v INVALID_LEDGER_POS l = Inr (eid, l1)"
      and L: "L = with_index collection col ((hm_abs st C)(k \<mapsto> eid)) (l1\<lparr>m_object_count := m_object_count l1 - 1\<rparr>)"
      by (auto simp: rbind_eq_Inr)
    obtain m' st' where s: "set_value bs eid it m st = Inr (m', st')" "hm_rep bs m' st' C" "hm_abs st' C = (hm_abs st C)(k \<mapsto> eid)"
      "\<forall>b. chain_keys st' (C b) = chain_keys st (C b)" using set_value_first [OF rep it q] by blast
    show thesis
      using that [of m' st' "l1\<lparr>m_object_count := m_object_count l1 - 1\<rparr>"] s l1 False key v(1) ev L it_at_same_keys [OF single s(4) it]
      by (simp add: clear_current_def)
  qed
qed

lemma clear_pages_ok:
  assumes "hm_rep bs m st C" "it_at st C it ks" "single_pages C"
    and "clear_entries E ctx collection ks (with_index collection col (hm_abs st C) l) = Inr L"
  shows "\<exists>m' st' l'. clear_pages E bs ctx it m st l = Some (Inr (m', st', l')) \<and> L = with_index collection col (hm_abs st' C) l' \<and> hm_rep bs m' st' C"
  using assms
proof (induction ks arbitrary: it m st l)
  case Nil
  then show ?case by (subst clear_pages.simps) (auto simp: it_at_Nil)
next
  case (Cons k ks)
  obtain L1 where L1: "clear_entry E ctx collection k (with_index collection col (hm_abs st C) l) = Inr L1" "clear_entries E ctx collection ks L1 = Inr L"
    using Cons.prems(4) by (auto simp: rbind_eq_Inr)
  obtain m1 st1 l1 where 1: "clear_current E bs ctx it m st l = Inr (m1, st1, l1)" "L1 = with_index collection col (hm_abs st1 C) l1"
    "hm_rep bs m1 st1 C" "it_at st1 C it (k # ks)" by (rule clear_current_ok [OF Cons.prems(1-3) L1(1)])
  obtain it1 where "it_next m1 st1 it = Inr it1" "it_at st1 C it1 ks" using it_next_correct [OF 1(3,4)] by blast
  with Cons.IH [OF 1(3) _ Cons.prems(3)] L1(2) 1(1,2) it_at_Cons [OF Cons.prems(2)] show ?case
    by (subst clear_pages.simps) auto
qed

text \<open>
  Property C33. Clearing a collection succeeds and leaves it empty, on the pages of its primary index. Take an index in which every bucket has at most one page, and
  blocks with room for the tombstones. The loop over the index ends without an error and the index is in order; with its contents as the index of
  the collection the ledger is the one that \<^const>\<open>ledger_clear\<close> gives, no key of the collection names an object any more, and the objects of every other
  collection have the versions they had. Nothing is assumed of the policies of the collection or of its objects, because \<open>clear\<close> asks none of them. With two pages in
  a bucket this does not hold: \<open>set_value\<close> makes the keys of the second page unreadable.
\<close>

theorem clear_empties_collection:
  assumes rep: "ledger_rep E l H" and ctx: "context_valid ctx" and col: "m_collections l collection = Some col"
    and index: "hm_rep bs m st C" "hm_abs st C = c_primary col" "single_pages C"
    and few: "card (dom (c_primary col)) \<le> 64000" and size: "tombstone_size E ctx M" "card (dom (c_primary col)) * M < EVENT_LIMIT"
    and pages: "unat (m_next_page_no (m_blocks l)) + NUM_SHARDS < 2 ^ 32 - 1"
  shows "\<exists>m' st' l' l''. ledger_clear_pages E bs ctx m st l = Some (Inr (m', st', l')) \<and> hm_rep bs m' st' C \<and>
    l'' = with_index collection col (hm_abs st' C) l' \<and> ledger_clear E (\<lambda>_. keys_from st C 0) ctx collection l = Inr (True, l'') \<and>
    ledger_rep E l'' (\<lambda>c k. if c = collection then [] else H c k) \<and> (\<forall>key. has_object E collection key l'' = Inr False)"
proof -
  let ?keys = "keys_from st C 0" and ?ss = "map word_of_nat [0..<NUM_SHARDS] :: shard_id_t list"
  have keys: "set ?keys = dom (c_primary col)" "distinct ?keys" using keys_from_set [OF index(1)] keys_from_distinct [OF index(1)] index(2) by simp_all
  obtain l'' where l'': "ledger_clear E (\<lambda>_. ?keys) ctx collection l = Inr (True, l'')" "ledger_rep E l'' (\<lambda>c k. if c = collection then [] else H c k)"
    "\<forall>key. has_object E collection key l'' = Inr False"
    using clear_in_order [OF rep, where ord = "\<lambda>_. ?keys", OF _ _ ctx col few size pages] keys by blast
  then obtain L where L: "clear_entries E ctx collection ?keys l = Inr L" "organize_all ?ss L = Inr l''"
    using col by (auto simp: ledger_clear_def get_collection_def rbind_eq_Inr)
  have "NUM_BUCKETS > 0" by (simp add: NUM_BUCKETS_def)
  then obtain it where it: "it_begin m st = Inr it" "it_at st C it ?keys"
    using next_bucket_correct [OF index(1), of "\<lparr>it_bucket = 0, it_nodes = [], it_pos = 0\<rparr>"] by (auto simp: it_begin_def iterator_at_def)
  have "clear_entries E ctx collection ?keys (with_index collection col (hm_abs st C) l) = Inr L" using L(1) with_index_same [OF col] index(2) by simp
  from clear_pages_ok [OF index(1) it(2) index(3) this] obtain m' st' l1 where
    loop: "clear_pages E bs ctx it m st l = Some (Inr (m', st', l1))" "L = with_index collection col (hm_abs st' C) l1" "hm_rep bs m' st' C" by blast
  then obtain l' where "organize_all ?ss l1 = Inr l'" "l'' = with_index collection col (hm_abs st' C) l'"
    using L(2) by (auto simp: organize_all_index rbind_eq_Inr)
  then show ?thesis using l'' it(1) loop by (auto simp: ledger_clear_pages_def)
qed

section \<open>An example\<close>

text \<open>An index with one key has a single page.\<close>

lemma one_key_single_pages:
  assumes rep: "hm_rep bs m st C" and one: "dom (hm_abs st C) \<subseteq> {k}"
  shows "single_pages C"
proof (rule ccontr)
  assume "\<not> single_pages C"
  then obtain b where "\<not> length (C b) \<le> 1" by (auto simp: single_pages_def)
  then obtain p q qs where C: "C b = p # q # qs" by (metis One_nat_def Suc_le_length_iff not_less_eq_eq length_Suc_conv)
  note br = hm_repD(3) [OF rep, of b, unfolded bucket_rep_def C]
  have "n_entries (node_at st p) \<noteq> []" "n_entries (node_at st q) \<noteq> []" using br by (simp_all add: node_ok_def)
  then obtain e f where ef: "e \<in> set (n_entries (node_at st p))" "f \<in> set (n_entries (node_at st q))" by (meson last_in_set)
  then have "fst e \<noteq> fst f" using br by (auto simp: disjoint_iff)
  moreover have "fst x = k" if "x \<in> set (chain_entries st (C b))" for x
  proof -
    have "to_bucket hash_string (fst x) = b" using br that C by auto
    then have "hm_abs st C (fst x) \<noteq> None" using that by (auto simp: hm_abs_def map_of_eq_None_iff)
    then show ?thesis using one by auto
  qed
  then have "fst e = k" "fst f = k" using ef C by simp_all
  ultimately show False by simp
qed

theorem clear_empties_collection_witness:
  "\<exists>eid l m st m' st' l' C. ledger_put nat_env alice ''c'' ''k'' 7 [] False (new_ledger first_store) = Some (Inr (eid, l)) \<and>
     has_object nat_env ''c'' ''k'' l = Inr True \<and> hm_get ''k'' m st = Some (Inr (Some eid)) \<and>
     ledger_clear_pages nat_env (\<lambda>es. 24 + 100 * length es) alice m st l = Some (Inr (m', st', l')) \<and>
     has_object nat_env ''c'' ''k'' (with_index ''c'' (the (m_collections l ''c'')) (hm_abs st' C) l') = Inr False"
proof -
  let ?bs = "\<lambda>es :: hm_entries. 24 + 100 * length es"
  let ?l0 = "new_ledger first_store" and ?H0 = "(\<lambda>_ _. []) :: nat objects"
  have rep: "ledger_rep nat_env ?l0 ?H0" by (rule new_ledger_rep [OF nat_env_roundtrip])
  have plain: "plain_objects nat_env ?H0" by (simp add: plain_objects_def all_plain_def)
  have fits: "event_fits nat_env (context_to_string alice) (7 :: nat)" by (simp add: nat_env_fits)
  have pages0: "unat (m_next_page_no (m_blocks ?l0)) = 65" by (rule new_ledger_correct(4))
  have alloc: "can_allocate (m_blocks ?l0)" using pages0 by (simp add: can_allocate_def word_less_nat_alt)
  have valid: "js_valid nat_env (7 :: nat)" by simp
  obtain eid l where put: "apply_write nat_env alice ''c'' ''k'' 7 [] False PutObject INVALID_LEDGER_POS ?l0 = Some (Inr (eid, l))"
    "write_result nat_env (set_object ''c'' ''k'' (put_version (context_to_string alice, 7) (?H0 ''c'' ''k'')) ?H0) ?l0 l"
    "lookup l ''c'' ''k'' = Some eid"
    by (rule apply_put_correct [OF rep alloc _ alice_valid valid fits plain_permitted [OF plain]]) auto
  let ?H = "set_object ''c'' ''k'' (put_version (context_to_string alice, 7) (?H0 ''c'' ''k'')) ?H0"
  have none: "lookup ?l0 c k = None" for c k by (simp add: lookup_def new_ledger_correct(3))
  have l: "ledger_rep nat_env l ?H" "unat (m_next_page_no (m_blocks l)) \<le> 66"
    using put(2) pages0 by (simp_all add: write_result_def)
  have other: "lookup l ''c'' k = None" if "k \<noteq> ''k''" for k using put(2) none that by (simp add: write_result_def set_object_def)
  obtain col where col: "m_collections l ''c'' = Some col" using put(3) by (auto simp: lookup_def split: option.splits)
  have prim: "c_primary col k = (if k = ''k'' then Some eid else None)" for k using other [of k] put(3) col by (simp add: lookup_def)
  then have dom: "dom (c_primary col) = {''k''}" by (auto simp: dom_def split: if_splits)
  have size: "tombstone_size nat_env alice 10000"
    unfolding tombstone_size_def using order_trans [OF event_length(2) [of "context_to_string alice"], of 10000] by simp
  obtain m st C where tab: "hm_rep ?bs m st C" "hm_abs st C = Map.empty(''k'' \<mapsto> eid)"
  proof -
    have layout: "node_layout ?bs" using node_layout_linear [of 24 100] by (simp add: MAX_NODE_SIZE_def)
    have "can_allocate empty_store" by (simp add: can_allocate_def empty_store_def word_less_nat_alt)
    moreover have "hm_abs empty_store (\<lambda>_. []) = Map.empty" by (simp add: hm_abs_def fun_eq_iff)
    ultimately show thesis using that hm_insert_correct [OF hm_rep_empty [OF layout], of "''k''" eid] by auto
  qed
  have index: "hm_abs st C = c_primary col" using prim tab(2) by (auto simp: fun_eq_iff)
  have single: "single_pages C" by (rule one_key_single_pages [OF tab(1), of "''k''"]) (simp add: tab(2))
  obtain m' st' l' where l': "ledger_clear_pages nat_env ?bs alice m st l = Some (Inr (m', st', l'))"
    "has_object nat_env ''c'' ''k'' (with_index ''c'' col (hm_abs st' C) l') = Inr False"
    using clear_empties_collection [OF l(1) alice_valid col tab(1) index single, of 10000] dom size l(2)
    by (auto simp: EVENT_LIMIT_def NUM_SHARDS_def)
  have found: "hm_get ''k'' m st = Some (Inr (Some eid))" using hm_get_correct [OF tab(1), of "''k''"] tab(2) by simp
  have "prepare_write nat_env alice ''c'' ''k'' [] PutObject ?l0 = Some (Inr True)"
    using prepare_write_plain [OF rep] plain by (simp add: plain_objects_def)
  moreover have "has_object nat_env ''c'' ''k'' l = Inr True"
    using has_object_correct [OF l(1), of "''c''" "''k''"] by (simp add: set_object_def put_version_def)
  ultimately show ?thesis using put(1) l' found col
    by - (rule exI [of _ eid], rule exI [of _ l], rule exI [of _ m], rule exI [of _ st], rule exI [of _ m'], rule exI [of _ st'], rule exI [of _ l'],
      rule exI [of _ C], simp add: ledger_put_def checked_write_def)
qed

end
