(* ===== verification/Remote_Parties.thy ===== *)
theory Remote_Parties
  imports Transaction_Ledger
begin

text \<open>
  Who an enclave talks to: the known identities (\<open>util/IdentityDatabase.cpp\<close>) and the connected clients and servers with the
  tables that find them by name and by the identifier made of their key (\<open>enclave/RemoteParties.cpp\<close>, the state of
  \<open>RemoteParty.h\<close>, \<open>Peer.h\<close>). Unordered containers are association lists. The hash of a key is the argument \<open>uid_of\<close>.
  Shown: the tables never name a party that is gone or has another identity, whatever order parties come, identify themselves and go.
\<close>

section \<open>Known identities\<close>

type_synonym public_key = "u8 list"

definition INVALID_PUBLIC_KEY :: public_key where
  "INVALID_PUBLIC_KEY = replicate 64 0"

record known_identity =
  ki_identity :: identity
  ki_key :: public_key

type_synonym identity_database = "(string \<times> known_identity) list"

definition runs_in_tee :: "IdentityType \<Rightarrow> bool" where
  "runs_in_tee t = (t = Server)"

definition identity_get :: "string \<Rightarrow> public_key \<Rightarrow> identity_database \<Rightarrow> (known_identity \<times> identity_database) result" where
  "identity_get name key db =
     (if key = INVALID_PUBLIC_KEY then Inl (AttestationError ''Not a valid public key!'')
      else case map_of db name of
        None \<Rightarrow>
          let i = \<lparr>ki_identity = \<lparr>id_type = Server, id_name = name\<rparr>, ki_key = key\<rparr>
          in Inr (i, AList.update name i db)
      | Some i \<Rightarrow>
          if ki_key i \<noteq> key then Inl (AttestationError (''Key's for '' @ [CHR 0x22] @ name @ [CHR 0x22] @ '' don't match'')) else Inr (i, db))"

definition has_identity_name :: "string \<Rightarrow> identity_database \<Rightarrow> bool" where
  "has_identity_name name db = (map_of db name \<noteq> None)"

definition has_identity_uid :: "(public_key \<Rightarrow> identity_uid_t) \<Rightarrow> identity_uid_t \<Rightarrow> identity_database \<Rightarrow> bool" where
  "has_identity_uid uid_of uid db = list_ex (\<lambda>(name, i). uid_of (ki_key i) = uid) db"

section \<open>Remote parties\<close>

datatype PeerType = UnknownPeer | ClientPeer | PeerServer | DownstreamServer

record remote_party =
  rp_is_peer :: bool
  rp_hostname :: string
  rp_port :: u16
  rp_peer_type :: PeerType
  rp_identity :: "known_identity option"

record remote_parties =
  m_name_mapping :: "(string \<times> remote_party_id) list"
  m_uid_mapping :: "(identity_uid_t \<times> remote_party_id) list"
  m_downstream_set :: "remote_party_id list"
  m_remote_parties :: "(remote_party_id \<times> remote_party) list"

definition no_parties :: remote_parties where
  "no_parties = \<lparr>m_name_mapping = [], m_uid_mapping = [], m_downstream_set = [], m_remote_parties = []\<rparr>"

definition party_name :: "remote_party \<Rightarrow> string result" where
  "party_name p =
     (case rp_identity p of None \<Rightarrow> Inl (RuntimeError ''Identity not set up yet!'') | Some i \<Rightarrow> Inr (id_name (ki_identity i)))"

text \<open>\<open>insert\<close> keeps a party that is already there.\<close>

definition insert_party :: "remote_party_id \<Rightarrow> remote_party \<Rightarrow> remote_parties \<Rightarrow> remote_parties" where
  "insert_party i p r =
     (if map_of (m_remote_parties r) i = None then r\<lparr>m_remote_parties := (i, p) # m_remote_parties r\<rparr> else r)"

definition init_peer :: "remote_party_id \<Rightarrow> string \<Rightarrow> u16 \<Rightarrow> remote_parties \<Rightarrow> remote_parties" where
  "init_peer i hostname port =
     insert_party i \<lparr>rp_is_peer = True, rp_hostname = hostname, rp_port = port, rp_peer_type = UnknownPeer, rp_identity = None\<rparr>"

definition init_client :: "remote_party_id \<Rightarrow> remote_parties \<Rightarrow> remote_parties" where
  "init_client i =
     insert_party i \<lparr>rp_is_peer = False, rp_hostname = [], rp_port = 0, rp_peer_type = UnknownPeer, rp_identity = None\<rparr>"

definition find_party :: "remote_party_id \<Rightarrow> remote_parties \<Rightarrow> remote_party option" where
  "find_party i r = map_of (m_remote_parties r) i"

definition find_by_uid :: "identity_uid_t \<Rightarrow> remote_parties \<Rightarrow> remote_party option" where
  "find_by_uid uid r = (case map_of (m_uid_mapping r) uid of None \<Rightarrow> None | Some i \<Rightarrow> find_party i r)"

definition find_by_name :: "string \<Rightarrow> remote_parties \<Rightarrow> remote_party option" where
  "find_by_name name r = (case map_of (m_name_mapping r) name of None \<Rightarrow> None | Some i \<Rightarrow> find_party i r)"

text \<open>A peer that has not told its name yet makes the listing fail.\<close>

fun peer_infos :: "(remote_party_id \<times> remote_party) list \<Rightarrow> (string \<times> string \<times> u16) list result" where
  "peer_infos [] = Inr []"
| "peer_infos ((i, p) # ps) =
     (if \<not> rp_is_peer p then peer_infos ps
      else rbind (party_name p) (\<lambda>name. rbind (peer_infos ps) (\<lambda>rest. Inr ((name, rp_hostname p, rp_port p) # rest))))"

definition get_peer_infos :: "remote_parties \<Rightarrow> (string \<times> string \<times> u16) list result" where
  "get_peer_infos r = peer_infos (m_remote_parties r)"

definition add_downstream_server :: "remote_party_id \<Rightarrow> remote_parties \<Rightarrow> remote_parties" where
  "add_downstream_server i r = r\<lparr>m_downstream_set := List.insert i (m_downstream_set r)\<rparr>"

definition set_peer_type :: "remote_party_id \<Rightarrow> PeerType \<Rightarrow> remote_parties \<Rightarrow> remote_parties" where
  "set_peer_type i t r =
     (case find_party i r of
        None \<Rightarrow> r
      | Some p \<Rightarrow>
          let r' = r\<lparr>m_remote_parties := AList.update i (p\<lparr>rp_peer_type := t\<rparr>) (m_remote_parties r)\<rparr>
          in if t = DownstreamServer then add_downstream_server i r' else r')"

definition erase_mapping :: "'k \<Rightarrow> remote_party_id \<Rightarrow> ('k \<times> remote_party_id) list \<Rightarrow> ('k \<times> remote_party_id) list" where
  "erase_mapping k i m = (if map_of m k = Some i then AList.delete k m else m)"

definition handle_disconnect :: "(public_key \<Rightarrow> identity_uid_t) \<Rightarrow> remote_party_id \<Rightarrow> remote_parties \<Rightarrow> remote_parties" where
  "handle_disconnect uid_of local_id r =
     (case find_party local_id r of
        None \<Rightarrow> r
      | Some p \<Rightarrow>
          let r1 = (case rp_identity p of
                      None \<Rightarrow> r
                    | Some i \<Rightarrow> r\<lparr>m_name_mapping := erase_mapping (id_name (ki_identity i)) local_id (m_name_mapping r),
                                  m_uid_mapping := erase_mapping (uid_of (ki_key i)) local_id (m_uid_mapping r)\<rparr>);
              r2 = (if rp_is_peer p \<and> rp_peer_type p = DownstreamServer
                    then r1\<lparr>m_downstream_set := removeAll local_id (m_downstream_set r1)\<rparr> else r1)
          in r2\<lparr>m_remote_parties := AList.delete local_id (m_remote_parties r2)\<rparr>)"

text \<open>The second component is the party that is told to disconnect. A table entry for a party that is gone would be a null pointer.\<close>

definition set_identity ::
  "(public_key \<Rightarrow> identity_uid_t) \<Rightarrow> remote_party_id \<Rightarrow> known_identity \<Rightarrow> remote_parties \<Rightarrow>
     (remote_party_id option \<times> remote_parties) result" where
  "set_identity uid_of local_id i r =
     (let uid = uid_of (ki_key i);
          r' = r\<lparr>m_uid_mapping := AList.update uid local_id (m_uid_mapping r),
                 m_name_mapping := AList.update (id_name (ki_identity i)) local_id (m_name_mapping r)\<rparr>
      in case map_of (m_uid_mapping r) uid of
           None \<Rightarrow> Inr (None, r')
         | Some other \<Rightarrow>
             (case find_party other r of
                None \<Rightarrow> Inl (Fatal ''null pointer'')
              | Some p \<Rightarrow> rbind (party_name p) (\<lambda>_. Inr (Some other, r'))))"

text \<open>
  The part of \<open>handle_groupid_response\<close> that identifies a party: only the first name counts. \<open>own\<close> is the enclave's own identity.
\<close>

definition identify ::
  "(public_key \<Rightarrow> identity_uid_t) \<Rightarrow> identity \<Rightarrow> remote_party_id \<Rightarrow> string \<Rightarrow> public_key \<Rightarrow> identity_database \<Rightarrow> remote_parties \<Rightarrow>
     (remote_party_id option \<times> identity_database \<times> remote_parties) result" where
  "identify uid_of own local_id name key db r =
     (case find_party local_id r of
        None \<Rightarrow> Inl (Fatal ''no such party'')
      | Some p \<Rightarrow>
          if rp_identity p \<noteq> None then Inr (None, db, r)
          else rbind (identity_get name key db) (\<lambda>(i, db').
            if identity_eq (ki_identity i) own then Inl (Fatal ''looks like we connected to ourselves'')
            else let r1 = r\<lparr>m_remote_parties := AList.update local_id (p\<lparr>rp_identity := Some i\<rparr>) (m_remote_parties r)\<rparr>
                 in rbind (set_identity uid_of local_id i r1) (\<lambda>(drop, r2). Inr (drop, db', r2))))"

section \<open>The tables and the parties\<close>

definition mapping_ok :: "(known_identity \<Rightarrow> 'k) \<Rightarrow> ('k \<times> remote_party_id) list \<Rightarrow> remote_parties \<Rightarrow> bool" where
  "mapping_ok key m r \<longleftrightarrow>
     distinct (map fst m) \<and> (\<forall>k i. map_of m k = Some i \<longrightarrow> (\<exists>p known. find_party i r = Some p \<and> rp_identity p = Some known \<and> key known = k))"

definition parties_inv :: "(public_key \<Rightarrow> identity_uid_t) \<Rightarrow> identity_database \<Rightarrow> remote_parties \<Rightarrow> bool" where
  "parties_inv uid_of db r \<longleftrightarrow>
     distinct (map fst (m_remote_parties r)) \<and>
     mapping_ok (\<lambda>i. uid_of (ki_key i)) (m_uid_mapping r) r \<and> mapping_ok (\<lambda>i. id_name (ki_identity i)) (m_name_mapping r) r \<and>
     (\<forall>j p i. find_party j r = Some p \<and> rp_identity p = Some i \<longrightarrow> map_of db (id_name (ki_identity i)) = Some i) \<and>
     (\<forall>name i. map_of db name = Some i \<longrightarrow> id_name (ki_identity i) = name \<and> id_type (ki_identity i) = Server \<and> ki_key i \<noteq> INVALID_PUBLIC_KEY)"

datatype party_event =
    PeerArrives remote_party_id string u16
  | ClientArrives remote_party_id
  | Identifies remote_party_id string public_key
  | TellsPeerType remote_party_id PeerType
  | Disconnects remote_party_id

fun party_step ::
  "(public_key \<Rightarrow> identity_uid_t) \<Rightarrow> identity \<Rightarrow> party_event \<Rightarrow> identity_database \<times> remote_parties \<Rightarrow>
     (identity_database \<times> remote_parties) result" where
  "party_step uid_of own (PeerArrives i hostname port) (db, r) = Inr (db, init_peer i hostname port r)"
| "party_step uid_of own (ClientArrives i) (db, r) = Inr (db, init_client i r)"
| "party_step uid_of own (Identifies i name key) (db, r) = rbind (identify uid_of own i name key db r) (\<lambda>(drop, db', r'). Inr (db', r'))"
| "party_step uid_of own (TellsPeerType i t) (db, r) = Inr (db, set_peer_type i t r)"
| "party_step uid_of own (Disconnects i) (db, r) = Inr (db, handle_disconnect uid_of i r)"

inductive parties_reached :: "(public_key \<Rightarrow> identity_uid_t) \<Rightarrow> identity \<Rightarrow> identity_database \<times> remote_parties \<Rightarrow> bool"
  for uid_of own where
  start: "parties_reached uid_of own ([], no_parties)"
| step: "parties_reached uid_of own s \<Longrightarrow> party_step uid_of own ev s = Inr s' \<Longrightarrow> parties_reached uid_of own s'"

text \<open>A mapping stays right when the parties it names keep their identities.\<close>

lemma mapping_ok_frame:
  assumes "mapping_ok key m r"
    and "\<And>i p. find_party i r = Some p \<Longrightarrow> rp_identity p \<noteq> None \<Longrightarrow> \<exists>p'. find_party i r' = Some p' \<and> rp_identity p' = rp_identity p"
  shows "mapping_ok key m r'"
  using assms unfolding mapping_ok_def by (metis option.distinct(1))

lemma mapping_ok_update:
  assumes "mapping_ok key m r" and "find_party i r = Some p" "rp_identity p = Some known"
  shows "mapping_ok key (AList.update (key known) i m) r"
  using assms by (auto simp: mapping_ok_def update_conv' distinct_update)

lemma mapping_ok_erase:
  assumes m: "mapping_ok key m r" and p: "find_party i r = Some p"
    and rest: "\<And>j q. j \<noteq> i \<Longrightarrow> find_party j r = Some q \<Longrightarrow> find_party j r' = Some q"
  shows "mapping_ok key (case rp_identity p of None \<Rightarrow> m | Some known \<Rightarrow> erase_mapping (key known) i m) r'"
proof -
  have other: "\<exists>q known. find_party j r' = Some q \<and> rp_identity q = Some known \<and> key known = k"
    if "map_of m k = Some j" "j \<noteq> i" for k j
    using m rest that unfolding mapping_ok_def by metis
  have own: "rp_identity p \<noteq> None \<and> key (the (rp_identity p)) = k" if "map_of m k = Some i" for k
    using m p that unfolding mapping_ok_def by (metis option.inject option.sel option.distinct(1))
  let ?m = "case rp_identity p of None \<Rightarrow> m | Some known \<Rightarrow> erase_mapping (key known) i m"
  have "map_of m k = Some j \<and> j \<noteq> i" if "map_of ?m k = Some j" for k j
  proof (cases "rp_identity p")
    case None
    then show ?thesis using that own by auto
  next
    case (Some known)
    then have "map_of m k = Some j \<and> \<not> (map_of m (key known) = Some i \<and> k = key known)"
      using that by (auto simp: erase_mapping_def delete_conv' split: if_splits)
    then show ?thesis using own [of k] Some by auto
  qed
  moreover have "distinct (map fst ?m)" using m by (auto simp: mapping_ok_def erase_mapping_def distinct_delete split: option.splits)
  ultimately show ?thesis unfolding mapping_ok_def using other by blast
qed

lemma find_party_simps [simp]:
  "find_party j (insert_party i p r) = (if j = i \<and> find_party i r = None then Some p else find_party j r)"
  "find_party j (r\<lparr>m_remote_parties := AList.update i p ps\<rparr>) = (if j = i then Some p else map_of ps j)"
  "find_party j (r\<lparr>m_remote_parties := AList.delete i ps\<rparr>) = (if j = i then None else map_of ps j)"
  "find_party j (r\<lparr>m_name_mapping := nm\<rparr>) = find_party j r" "find_party j (r\<lparr>m_uid_mapping := um\<rparr>) = find_party j r"
  "find_party j (r\<lparr>m_downstream_set := ds\<rparr>) = find_party j r"
  by (auto simp: find_party_def insert_party_def update_conv' delete_conv')

lemma find_party_fold: "map_of (m_remote_parties r) j = find_party j r"
  by (simp add: find_party_def)

text \<open>A change after which the parties have kept their identities and no new one has an identity.\<close>

lemma parties_inv_frame:
  assumes inv: "parties_inv uid_of db r" and dist: "distinct (map fst (m_remote_parties r'))"
    and maps: "m_uid_mapping r' = m_uid_mapping r" "m_name_mapping r' = m_name_mapping r"
    and kept: "\<And>i p. find_party i r = Some p \<Longrightarrow> rp_identity p \<noteq> None \<Longrightarrow> \<exists>p'. find_party i r' = Some p' \<and> rp_identity p' = rp_identity p"
    and new: "\<And>i p' known. find_party i r' = Some p' \<Longrightarrow> rp_identity p' = Some known \<Longrightarrow> \<exists>p. find_party i r = Some p \<and> rp_identity p = Some known"
  shows "parties_inv uid_of db r'"
proof -
  have "mapping_ok (\<lambda>i. uid_of (ki_key i)) (m_uid_mapping r') r'" "mapping_ok (\<lambda>i. id_name (ki_identity i)) (m_name_mapping r') r'"
    using inv unfolding maps parties_inv_def by (blast intro: mapping_ok_frame [OF _ kept])+
  moreover have "map_of db (id_name (ki_identity i)) = Some i" if "find_party j r' = Some p" "rp_identity p = Some i" for j p i
    using inv new [OF that] unfolding parties_inv_def by blast
  ultimately show ?thesis using inv dist unfolding parties_inv_def by blast
qed

lemma insert_party_inv:
  assumes inv: "parties_inv uid_of db r" and p: "rp_identity p = None"
  shows "parties_inv uid_of db (insert_party i p r)"
proof (rule parties_inv_frame [OF inv])
  show "distinct (map fst (m_remote_parties (insert_party i p r)))"
    using inv by (auto simp: parties_inv_def insert_party_def map_of_eq_None_iff)
  show "m_uid_mapping (insert_party i p r) = m_uid_mapping r" "m_name_mapping (insert_party i p r) = m_name_mapping r"
    by (simp_all add: insert_party_def)
qed (use p in \<open>auto split: if_splits\<close>)

lemma set_peer_type_inv: "parties_inv uid_of db r \<Longrightarrow> parties_inv uid_of db (set_peer_type i t r)"
proof (cases "find_party i r")
  case (Some p)
  let ?r = "r\<lparr>m_remote_parties := AList.update i (p\<lparr>rp_peer_type := t\<rparr>) (m_remote_parties r)\<rparr>"
  assume inv: "parties_inv uid_of db r"
  then have "parties_inv uid_of db (?r\<lparr>m_downstream_set := ds\<rparr>)" for ds
    by (rule parties_inv_frame)
      (use inv Some in \<open>auto simp: parties_inv_def distinct_update find_party_fold split: if_splits\<close>)
  from this [of "m_downstream_set ?r"] this [of "List.insert i (m_downstream_set ?r)"]
  show ?thesis using Some by (cases "t = DownstreamServer") (simp_all add: set_peer_type_def Let_def add_downstream_server_def)
qed (simp add: set_peer_type_def)

lemma disconnect_inv: "parties_inv uid_of db r \<Longrightarrow> parties_inv uid_of db (handle_disconnect uid_of i r)"
proof (cases "find_party i r")
  case (Some p)
  assume inv: "parties_inv uid_of db r"
  let ?r' = "handle_disconnect uid_of i r"
  have find: "find_party j ?r' = (if j = i then None else find_party j r)" for j
    using Some by (auto simp: handle_disconnect_def Let_def find_party_fold split: option.splits)
  have maps: "m_uid_mapping ?r' = (case rp_identity p of None \<Rightarrow> m_uid_mapping r | Some k \<Rightarrow> erase_mapping (uid_of (ki_key k)) i (m_uid_mapping r))"
    "m_name_mapping ?r' = (case rp_identity p of None \<Rightarrow> m_name_mapping r | Some k \<Rightarrow> erase_mapping (id_name (ki_identity k)) i (m_name_mapping r))"
    "m_remote_parties ?r' = AList.delete i (m_remote_parties r)"
    using Some by (auto simp: handle_disconnect_def Let_def split: option.splits)
  have "mapping_ok (\<lambda>i. uid_of (ki_key i)) (m_uid_mapping ?r') ?r'" "mapping_ok (\<lambda>i. id_name (ki_identity i)) (m_name_mapping ?r') ?r'"
    using inv unfolding maps parties_inv_def by (intro mapping_ok_erase [OF _ Some]; simp add: find)+
  moreover have "distinct (map fst (m_remote_parties ?r'))" using inv unfolding maps by (simp add: parties_inv_def distinct_delete)
  ultimately show ?thesis using inv unfolding parties_inv_def by (auto simp: find split: if_splits)
qed (simp add: handle_disconnect_def)

lemma identity_get_db:
  assumes "identity_get name key db = Inr (i, db')"
    and "\<forall>n k. map_of db n = Some k \<longrightarrow> id_name (ki_identity k) = n \<and> id_type (ki_identity k) = Server \<and> ki_key k \<noteq> INVALID_PUBLIC_KEY"
  shows "map_of db' name = Some i" "id_name (ki_identity i) = name" "ki_key i = key" "map_of db n = Some k \<Longrightarrow> map_of db' n = Some k"
    "\<forall>n k. map_of db' n = Some k \<longrightarrow> id_name (ki_identity k) = n \<and> id_type (ki_identity k) = Server \<and> ki_key k \<noteq> INVALID_PUBLIC_KEY"
  using assms by (auto simp: identity_get_def Let_def update_conv' split: if_splits option.splits)

lemma identify_inv:
  assumes inv: "parties_inv uid_of db r" and step: "identify uid_of own i name key db r = Inr (old, db', r')"
  shows "parties_inv uid_of db' r'"
proof -
  obtain p where p: "find_party i r = Some p" using step by (auto simp: identify_def split: option.splits)
  show ?thesis
  proof (cases "rp_identity p")
    case (Some known)
    then show ?thesis using step p inv by (simp add: identify_def)
  next
    case None
    let ?r1 = "\<lambda>k. r\<lparr>m_remote_parties := AList.update i (p\<lparr>rp_identity := Some k\<rparr>) (m_remote_parties r)\<rparr>"
    obtain k where get: "identity_get name key db = Inr (k, db')" and set: "set_identity uid_of i k (?r1 k) = Inr (old, r')"
      using step p None by (auto simp: identify_def Let_def rbind_eq_Inr split: if_splits)
    have known: "\<forall>n k. map_of db n = Some k \<longrightarrow> id_name (ki_identity k) = n \<and> id_type (ki_identity k) = Server \<and> ki_key k \<noteq> INVALID_PUBLIC_KEY"
      using inv unfolding parties_inv_def by blast
    note db' = identity_get_db [OF get known]
    have find: "find_party j (?r1 k) = (if j = i then Some (p\<lparr>rp_identity := Some k\<rparr>) else find_party j r)" for j
      by (simp add: find_party_fold)
    have kept: "\<exists>q'. find_party j (?r1 k) = Some q' \<and> rp_identity q' = rp_identity q"
      if "find_party j r = Some q" "rp_identity q \<noteq> None" for j q
      using that p None find by auto
    have maps: "mapping_ok (\<lambda>i. uid_of (ki_key i)) (m_uid_mapping r) (?r1 k)" "mapping_ok (\<lambda>i. id_name (ki_identity i)) (m_name_mapping r) (?r1 k)"
      using inv unfolding parties_inv_def by (blast intro: mapping_ok_frame [OF _ kept])+
    have r': "r' = (?r1 k)\<lparr>m_uid_mapping := AList.update (uid_of (ki_key k)) i (m_uid_mapping r),
        m_name_mapping := AList.update (id_name (ki_identity k)) i (m_name_mapping r)\<rparr>"
      using set by (auto simp: set_identity_def Let_def rbind_eq_Inr split: option.splits)
    have find': "find_party j r' = find_party j (?r1 k)" for j unfolding r' by simp
    have "mapping_ok (\<lambda>i. uid_of (ki_key i)) (AList.update (uid_of (ki_key k)) i (m_uid_mapping r)) (?r1 k)"
      "mapping_ok (\<lambda>i. id_name (ki_identity i)) (AList.update (id_name (ki_identity k)) i (m_name_mapping r)) (?r1 k)"
      using mapping_ok_update [OF maps(1), of i] mapping_ok_update [OF maps(2), of i] find [of i] by auto
    then have "mapping_ok (\<lambda>i. uid_of (ki_key i)) (m_uid_mapping r') r'" "mapping_ok (\<lambda>i. id_name (ki_identity i)) (m_name_mapping r') r'"
      unfolding r' by (auto simp: mapping_ok_def)
    moreover have "distinct (map fst (m_remote_parties r'))" using inv unfolding r' by (simp add: parties_inv_def distinct_update)
    moreover have "map_of db' (id_name (ki_identity k')) = Some k'" if "find_party j r' = Some q" "rp_identity q = Some k'" for j q k'
      using that inv db'(1,2,4) unfolding find' find parties_inv_def by (auto split: if_splits)
    ultimately show ?thesis using db'(5) unfolding parties_inv_def by blast
  qed
qed

lemma identify_not_null:
  assumes inv: "parties_inv uid_of db r" and i: "find_party i r \<noteq> None"
  shows "identify uid_of own i name key db r \<noteq> Inl (Fatal ''null pointer'')"
proof -
  have "set_identity uid_of i k (r\<lparr>m_remote_parties := AList.update i (p\<lparr>rp_identity := Some k\<rparr>) (m_remote_parties r)\<rparr>) \<noteq>
      Inl (Fatal ''null pointer'')" if p: "find_party i r = Some p" for p k
  proof (cases "map_of (m_uid_mapping r) (uid_of (ki_key k))")
    case (Some j)
    then obtain q where "find_party j r = Some q" "rp_identity q \<noteq> None"
      using inv unfolding parties_inv_def mapping_ok_def by blast
    then show ?thesis using Some by (auto simp: set_identity_def Let_def find_party_fold party_name_def)
  qed (simp add: set_identity_def Let_def)
  moreover have "identity_get name key db \<noteq> Inl (Fatal ''null pointer'')" by (auto simp: identity_get_def Let_def split: option.splits)
  ultimately show ?thesis using i by (auto simp: identify_def Let_def rbind_eq_Inl split: option.splits if_splits)
qed

lemma parties_reached_inv: "parties_reached uid_of own s \<Longrightarrow> parties_inv uid_of (fst s) (snd s)"
proof (induction rule: parties_reached.induct)
  case start
  then show ?case by (simp add: parties_inv_def no_parties_def mapping_ok_def find_party_def)
next
  case (step s ev s')
  obtain db r where s: "s = (db, r)" by fastforce
  then have inv: "parties_inv uid_of db r" using step.IH by simp
  show ?case
    using step.hyps(2) inv identify_inv [OF inv] insert_party_inv [OF inv] set_peer_type_inv [OF inv] disconnect_inv [OF inv] unfolding s
    by (cases ev) (auto simp: init_peer_def init_client_def rbind_eq_Inr)
qed

text \<open>
  Property C35. The tables of remote parties are right in every state that arrivals, identifications, disconnections and
  announcements of a peer's role can reach, in any order: an entry found under the identifier of a key or under a name is a party that is
  still connected and has identified itself with that key or name; a name belongs to one key, the first one it was used with; and
  identifying a connected party never runs into an entry whose party is gone. Two connected parties may have the same identity for a while: the
  entries lead to the later one, and the older one is only marked to be disconnected.
\<close>

theorem remote_party_tables_sound:
  assumes "parties_reached uid_of own (db, r)"
  shows "(\<forall>uid p. find_by_uid uid r = Some p \<longrightarrow> (\<exists>k. rp_identity p = Some k \<and> uid_of (ki_key k) = uid)) \<and>
    (\<forall>name p. find_by_name name r = Some p \<longrightarrow> (\<exists>k. rp_identity p = Some k \<and> id_name (ki_identity k) = name)) \<and>
    (\<forall>i p k. find_party i r = Some p \<and> rp_identity p = Some k \<longrightarrow> map_of db (id_name (ki_identity k)) = Some k) \<and>
    (\<forall>uid i. map_of (m_uid_mapping r) uid = Some i \<longrightarrow> find_party i r \<noteq> None) \<and>
    (\<forall>i name key. find_party i r \<noteq> None \<longrightarrow> identify uid_of own i name key db r \<noteq> Inl (Fatal ''null pointer''))"
proof -
  have inv: "parties_inv uid_of db r" using parties_reached_inv [OF assms] by simp
  then have "map_of (m_uid_mapping r) uid = Some i \<Longrightarrow> \<exists>p k. find_party i r = Some p \<and> rp_identity p = Some k \<and> uid_of (ki_key k) = uid"
    "map_of (m_name_mapping r) name = Some i \<Longrightarrow> \<exists>p k. find_party i r = Some p \<and> rp_identity p = Some k \<and> id_name (ki_identity k) = name"
    "find_party i r = Some p \<and> rp_identity p = Some k \<Longrightarrow> map_of db (id_name (ki_identity k)) = Some k" for uid i name p k
    unfolding parties_inv_def mapping_ok_def by blast+
  then show ?thesis
    using identify_not_null [OF inv] unfolding find_by_uid_def find_by_name_def
    by (auto split: option.splits dest: spec) (metis option.inject option.distinct(1))+
qed

lemma short_key_valid [simp]: "[b] \<noteq> INVALID_PUBLIC_KEY"
  by (auto simp: INVALID_PUBLIC_KEY_def dest: arg_cong [where f = length])

theorem remote_party_tables_sound_witness:
  "\<exists>db r p k. parties_reached (\<lambda>key. ucast (hd key)) \<lparr>id_type = Server, id_name = ''me''\<rparr> (db, r) \<and>
     find_by_uid 2 r = Some p \<and> rp_identity p = Some k \<and> ucast (hd (ki_key k)) = (2 :: identity_uid_t) \<and> find_by_uid 1 r = None"
proof -
  let ?uid = "(\<lambda>key. ucast (hd key)) :: public_key \<Rightarrow> identity_uid_t" and ?me = "\<lparr>id_type = Server, id_name = ''me''\<rparr>"
  note steps = find_party_def init_client_def init_peer_def insert_party_def no_parties_def identify_def identity_get_def set_identity_def
    handle_disconnect_def erase_mapping_def identity_eq_def party_name_def Let_def
  obtain s1 where s1: "party_step ?uid ?me (ClientArrives 1) ([], no_parties) = Inr s1" by simp
  obtain s2 where s2: "party_step ?uid ?me (Identifies 1 ''alice'' [1]) s1 = Inr s2" using s1 by (auto simp: steps)
  obtain s3 where s3: "party_step ?uid ?me (PeerArrives 2 ''host'' 80) s2 = Inr s3" using s1 s2 by (auto simp: steps)
  obtain s4 where s4: "party_step ?uid ?me (Identifies 2 ''bob'' [2]) s3 = Inr s4" using s1 s2 s3 by (auto simp: steps)
  obtain db r where s5: "party_step ?uid ?me (Disconnects 1) s4 = Inr (db, r)" using s1 s2 s3 s4 by (auto simp: steps)
  have reached: "parties_reached ?uid ?me (db, r)"
    by (rule parties_reached.step [OF parties_reached.step [OF parties_reached.step [OF parties_reached.step [OF parties_reached.step
          [OF parties_reached.start s1] s2] s3] s4] s5])
  moreover have "find_by_uid 2 r \<noteq> None" "find_by_uid 1 r = None"
    using s1 s2 s3 s4 s5 by (auto simp: steps find_by_uid_def)
  ultimately show ?thesis using remote_party_tables_sound [OF reached] by blast
qed

end
