(* ===== verification/Wire.thy ===== *)
theory Wire
  imports Transaction Encrypted_IO
begin

text \<open>
  Messages as bytes. The bit stream library and the stream operators of the JSON library are not part of the
  sources: \<open>bitstream_lib\<close> has, for every type the sources put on a stream, its writer and its reader, and
  \<open>wire_laws\<close> says what is relied on, that a reader takes exactly what the writer of the same type
  has put there. Defined here is what the sources add to it: the numbers of the message, operation and encryption
  types (\<open>util/MessageType.h\<close>, \<open>util/OperationType.h\<close>, \<open>util/EncryptionType.h\<close>), the form of
  a witness (\<open>Witness.h\<close>), lists as a count and a loop, and the encrypted frame around a message
  (\<open>RemoteParty::encrypt\<close>, \<open>decrypt\<close>).
\<close>

section \<open>Readers and writers\<close>

record 'a codec =
  to_bytes :: "'a \<Rightarrow> u8 list"
  of_bytes :: "u8 list \<Rightarrow> ('a \<times> u8 list) option"

definition codec_law :: "('a \<Rightarrow> bool) \<Rightarrow> 'a codec \<Rightarrow> bool" where
  "codec_law fits c \<longleftrightarrow> (\<forall>x rest. fits x \<longrightarrow> of_bytes c (to_bytes c x @ rest) = Some (x, rest))"

record 'd bitstream_lib =
  bs_bool :: "bool codec"
  bs_u8 :: "u8 codec"
  bs_u32 :: "u32 codec"
  bs_u64 :: "u64 codec"
  bs_i32 :: "int codec"
  bs_string :: "string codec"
  bs_strings :: "string list codec"
  bs_event :: "event_id_t codec"
  bs_events :: "event_id_t list codec"
  bs_order :: "OrderResult codec"
  bs_signature :: "u8 list codec"
  bs_raw :: "nat \<Rightarrow> u8 list \<Rightarrow> (u8 list \<times> u8 list) option"
  bs_nested :: "u8 list codec"
  bs_document :: "'d codec"
  bs_data :: "'d \<Rightarrow> u8 list"
  bs_of_data :: "u8 list \<Rightarrow> 'd"

text \<open>Lengths travel as 32-bit integers.\<close>

definition small :: "'a list \<Rightarrow> bool" where
  "small xs = (length xs < 2 ^ 32)"

definition wire_laws :: "('d, 'y) bitstream_lib_scheme \<Rightarrow> bool" where
  "wire_laws B \<longleftrightarrow>
     codec_law (\<lambda>_. True) (bs_bool B) \<and> codec_law (\<lambda>_. True) (bs_u8 B) \<and> codec_law (\<lambda>_. True) (bs_u32 B) \<and>
     codec_law (\<lambda>_. True) (bs_u64 B) \<and> codec_law (\<lambda>i. - (2 ^ 31) \<le> i \<and> i < 2 ^ 31) (bs_i32 B) \<and>
     codec_law small (bs_string B) \<and> codec_law (\<lambda>ss. small ss \<and> list_all small ss) (bs_strings B) \<and>
     codec_law (\<lambda>_. True) (bs_event B) \<and> codec_law small (bs_events B) \<and> codec_law (\<lambda>_. True) (bs_order B) \<and>
     codec_law (\<lambda>s. length s = 64) (bs_signature B) \<and> (\<forall>bs rest. bs_raw B (length bs) (bs @ rest) = Some (bs, rest)) \<and>
     codec_law small (bs_nested B) \<and> codec_law (\<lambda>d. small (bs_data B d)) (bs_document B)"

text \<open>
  A document on a stream is the length of its data and the data: requests are written with the stream operator of
  \<open>json::Document\<close>, and some handlers read the length and the data themselves.
\<close>

definition document_laws :: "('d, 'y) bitstream_lib_scheme \<Rightarrow> bool" where
  "document_laws B \<longleftrightarrow>
     (\<forall>d. bs_of_data B (bs_data B d) = d) \<and>
     (\<forall>d. to_bytes (bs_document B) d =
            to_bytes (bs_u32 B) (word_of_nat (length (bs_data B d))) @ bs_data B d) \<and>
     (\<forall>d. to_bytes (bs_document B) d = to_bytes (bs_nested B) (bs_data B d))"

lemma wire_reads [simp]:
  assumes "wire_laws B"
  shows "of_bytes (bs_bool B) (to_bytes (bs_bool B) b @ rest) = Some (b, rest)"
    and "of_bytes (bs_u8 B) (to_bytes (bs_u8 B) w8 @ rest) = Some (w8, rest)"
    and "of_bytes (bs_u32 B) (to_bytes (bs_u32 B) w32 @ rest) = Some (w32, rest)"
    and "of_bytes (bs_u64 B) (to_bytes (bs_u64 B) w64 @ rest) = Some (w64, rest)"
    and "- (2 ^ 31) \<le> i \<Longrightarrow> i < 2 ^ 31 \<Longrightarrow> of_bytes (bs_i32 B) (to_bytes (bs_i32 B) i @ rest) = Some (i, rest)"
    and "small s \<Longrightarrow> of_bytes (bs_string B) (to_bytes (bs_string B) s @ rest) = Some (s, rest)"
    and "small ss \<Longrightarrow> list_all small ss \<Longrightarrow> of_bytes (bs_strings B) (to_bytes (bs_strings B) ss @ rest) = Some (ss, rest)"
    and "of_bytes (bs_event B) (to_bytes (bs_event B) eid @ rest) = Some (eid, rest)"
    and "small es \<Longrightarrow> of_bytes (bs_events B) (to_bytes (bs_events B) es @ rest) = Some (es, rest)"
    and "of_bytes (bs_order B) (to_bytes (bs_order B) r @ rest) = Some (r, rest)"
    and "length sig = 64 \<Longrightarrow> of_bytes (bs_signature B) (to_bytes (bs_signature B) sig @ rest) = Some (sig, rest)"
    and "length bs = n \<Longrightarrow> bs_raw B n (bs @ rest) = Some (bs, rest)"
    and "small bs \<Longrightarrow> of_bytes (bs_nested B) (to_bytes (bs_nested B) bs @ rest) = Some (bs, rest)"
    and "small (bs_data B d) \<Longrightarrow> of_bytes (bs_document B) (to_bytes (bs_document B) d @ rest) = Some (d, rest)"
  using assms by (auto simp: wire_laws_def codec_law_def)

lemmas wire_reads_last [simp] = wire_reads [where rest = "[]", simplified]

text \<open>A read that fails raises an exception.\<close>

definition receive :: "'a codec \<Rightarrow> u8 list \<Rightarrow> ('a \<times> u8 list) result" where
  "receive c input = (case of_bytes c input of None \<Rightarrow> Inl (RuntimeError ''bitstream'') | Some p \<Rightarrow> Inr p)"

lemma receive_Some [simp]: "of_bytes c input = Some p \<Longrightarrow> receive c input = Inr p"
  by (simp add: receive_def)

text \<open>Calls that may not return, one after the other.\<close>

definition pbind :: "'a result option \<Rightarrow> ('a \<Rightarrow> 'b result option) \<Rightarrow> 'b result option" where
  "pbind r f = (case r of None \<Rightarrow> None | Some (Inl e) \<Rightarrow> Some (Inl e) | Some (Inr x) \<Rightarrow> f x)"

lemma pbind_simps [simp]:
  "pbind None f = None" "pbind (Some (Inl e)) f = Some (Inl e)" "pbind (Some (Inr x)) f = f x"
  by (simp_all add: pbind_def)

lemma pbind_assoc: "pbind (pbind r f) g = pbind r (\<lambda>x. pbind (f x) g)"
  by (simp add: pbind_def split: option.splits sum.splits)

lemma pbind_eq_Some: "pbind r f = Some (Inr y) \<longleftrightarrow> (\<exists>x. r = Some (Inr x) \<and> f x = Some (Inr y))"
  by (auto simp: pbind_def split: option.splits sum.splits)

definition read_then :: "'a codec \<Rightarrow> u8 list \<Rightarrow> ('a \<Rightarrow> u8 list \<Rightarrow> 'b result option) \<Rightarrow> 'b result option" where
  "read_then c input f = pbind (Some (receive c input)) (\<lambda>(x, rest). f x rest)"

lemma read_then_Some [simp]: "of_bytes c input = Some (x, rest) \<Longrightarrow> read_then c input f = f x rest"
  by (simp add: read_then_def)

section \<open>Message, operation and encryption types\<close>

datatype MessageType = TellGroupId | GroupIdResponse | AttestationMessage1 | AttestationMessage2 | AttestationMessage3
  | AttestationResult | OperationRequest | OperationResponse | ForwardedOperationRequest | PushIndexUpdate | NotifyTrigger

datatype EncryptionType = PlainText | Encrypted | Attestation

definition message_types :: "MessageType list" where
  "message_types = [TellGroupId, GroupIdResponse, AttestationMessage1, AttestationMessage2, AttestationMessage3,
     AttestationResult, OperationRequest, OperationResponse, ForwardedOperationRequest, PushIndexUpdate, NotifyTrigger]"

definition operation_types :: "OperationType list" where
  "operation_types = [GetObject, GetObjectWithWitness, GetObjectHistory, HasObject, CheckObject, PutObject, PutObjectWithoutKey,
     AddToObject, CountObjects, FindObjects, ListPeers, DiffVersions, RemoveObject, CreateIndex, DropIndex, Clear, CreateWitness,
     ExecuteCode, CallProgram, ReadFromUpstreamDisk, TellPeerType, Peer, SetTrigger, UnsetTrigger, OrderEvents,
     ExecuteTransaction, TransactionPrepare, TransactionPromise, TransactionCommit, TransactionAbort, GetStatistics, NOP,
     DumpEverything, LoadEverything]"

definition encryption_types :: "EncryptionType list" where
  "encryption_types = [PlainText, Encrypted, Attestation]"

definition isolation_levels :: "IsolationLevel list" where
  "isolation_levels = [ReadCommitted, RepeatableRead, Serializable]"

text \<open>An enumerator is its position; a number that is none of them stays a number (\<open>None\<close>).\<close>

fun position :: "'a \<Rightarrow> 'a list \<Rightarrow> nat" where
  "position x [] = 0"
| "position x (y # ys) = (if x = y then 0 else Suc (position x ys))"

definition enum_number :: "'a list \<Rightarrow> 'a \<Rightarrow> u8" where
  "enum_number es e = word_of_nat (position e es)"

definition enum_value :: "'a list \<Rightarrow> u8 \<Rightarrow> 'a option" where
  "enum_value es n = (if unat n < length es then Some (es ! unat n) else None)"

lemma position_less: "e \<in> set es \<Longrightarrow> position e es < length es"
  by (induction es) auto

lemma nth_position: "e \<in> set es \<Longrightarrow> es ! position e es = e"
  by (induction es) auto

lemma enum_value_number:
  "e \<in> set es \<Longrightarrow> length es \<le> 256 \<Longrightarrow> enum_value es (enum_number es e) = Some e"
proof -
  assume e: "e \<in> set es" "length es \<le> 256"
  have "position e es < 2 ^ LENGTH(8)" using position_less [OF e(1)] e(2) by simp
  then have "unat (word_of_nat (position e es) :: u8) = position e es" by (simp add: unat_of_nat take_bit_nat_eq_self)
  then show ?thesis using position_less [OF e(1)] nth_position [OF e(1)] by (simp add: enum_value_def enum_number_def)
qed

lemma enum_number_inject:
  "e \<in> set es \<Longrightarrow> e' \<in> set es \<Longrightarrow> length es \<le> 256 \<Longrightarrow> enum_number es e = enum_number es e' \<longleftrightarrow> e = e'"
  by (metis enum_value_number option.inject)

lemma message_types_all [simp]: "t \<in> set message_types" by (cases t) (simp_all add: message_types_def)
lemma operation_types_all [simp]: "t \<in> set operation_types" by (cases t) (simp_all add: operation_types_def)
lemma encryption_types_all [simp]: "t \<in> set encryption_types" by (cases t) (simp_all add: encryption_types_def)
lemma isolation_levels_all [simp]: "t \<in> set isolation_levels" by (cases t) (simp_all add: isolation_levels_def)

lemma enum_values [simp]:
  "enum_value message_types (enum_number message_types mt) = Some mt"
  "enum_value operation_types (enum_number operation_types ot) = Some ot"
  "enum_value encryption_types (enum_number encryption_types et) = Some et"
  "enum_value isolation_levels (enum_number isolation_levels lv) = Some lv"
proof -
  note intro = enum_value_number [OF message_types_all, of mt] enum_value_number [OF operation_types_all, of ot]
    enum_value_number [OF encryption_types_all, of et] enum_value_number [OF isolation_levels_all, of lv]
  have "length message_types \<le> 256" "length operation_types \<le> 256" "length encryption_types \<le> 256" "length isolation_levels \<le> 256"
    by (simp_all add: message_types_def operation_types_def encryption_types_def isolation_levels_def)
  then show "enum_value message_types (enum_number message_types mt) = Some mt"
    "enum_value operation_types (enum_number operation_types ot) = Some ot"
    "enum_value encryption_types (enum_number encryption_types et) = Some et"
    "enum_value isolation_levels (enum_number isolation_levels lv) = Some lv"
    using intro by blast+
qed

section \<open>Lists and witnesses on a stream\<close>

text \<open>A loop that reads \<open>n\<close> elements with a reader of one element.\<close>

fun read_times :: "nat \<Rightarrow> (u8 list \<Rightarrow> ('a \<times> u8 list) result) \<Rightarrow> u8 list \<Rightarrow> ('a list \<times> u8 list) result" where
  "read_times 0 rd input = Inr ([], input)"
| "read_times (Suc n) rd input =
     rbind (rd input) (\<lambda>(x, input'). rbind (read_times n rd input') (\<lambda>(xs, input''). Inr (x # xs, input'')))"

text \<open>A type with a writer and a reader of its own: the reader takes what the writer has put.\<close>

locale stream_format =
  fixes put :: "'a \<Rightarrow> u8 list" and get :: "u8 list \<Rightarrow> ('a \<times> u8 list) result" and fits :: "'a \<Rightarrow> bool"
  assumes round_trip: "fits x \<Longrightarrow> get (put x @ rest) = Inr (x, rest)"
begin

lemma list_round_trip: "list_all fits xs \<Longrightarrow> read_times (length xs) get (concat (map put xs) @ rest) = Inr (xs, rest)"
  by (induction xs) (simp_all add: round_trip)

lemma put_inject: "fits x \<Longrightarrow> fits y \<Longrightarrow> put x @ rest = put y @ rest' \<Longrightarrow> x = y \<and> rest = rest'"
  by (metis round_trip Pair_inject sum.inject(2))

end

definition put_witness :: "('d, 'y) bitstream_lib_scheme \<Rightarrow> witness \<Rightarrow> u8 list" where
  "put_witness B w = to_bytes (bs_nested B) (m_data w) @ to_bytes (bs_signature B) (m_signature w)"

definition get_witness :: "('d, 'y) bitstream_lib_scheme \<Rightarrow> u8 list \<Rightarrow> (witness \<times> u8 list) result" where
  "get_witness B input =
     rbind (receive (bs_nested B) input) (\<lambda>(data, input1).
     rbind (receive (bs_signature B) input1) (\<lambda>(sig, input2). Inr (\<lparr>m_data = data, m_signature = sig\<rparr>, input2)))"

definition witness_fits :: "witness \<Rightarrow> bool" where
  "witness_fits w = (small (m_data w) \<and> length (m_signature w) = 64)"

interpretation witness_format: stream_format "put_witness B" "get_witness B" "\<lambda>w. wire_laws B \<and> witness_fits w" for B
  by unfold_locales (simp add: put_witness_def get_witness_def witness_fits_def)

section \<open>Frames\<close>

text \<open>
  What the channel of a remote party uses: AES-GCM, the bit stream library, and \<open>residue\<close>, what a failed decryption leaves in
  the output buffer. The key is \<open>None\<close> until the handshake is over; every message of a session is
  encrypted with the same key and the same initialisation vector.
\<close>

record 'd channel =
  ch_gcm :: aes_gcm
  ch_bits :: "'d bitstream_lib"
  ch_residue :: "u8 list \<Rightarrow> u8 list"

definition put_etype :: "('d, 'y) bitstream_lib_scheme \<Rightarrow> EncryptionType \<Rightarrow> u8 list" where
  "put_etype B e = to_bytes (bs_u8 B) (enum_number encryption_types e)"

definition put_mtype :: "('d, 'y) bitstream_lib_scheme \<Rightarrow> MessageType \<Rightarrow> u8 list" where
  "put_mtype B t = to_bytes (bs_u8 B) (enum_number message_types t)"

definition party_encrypt :: "('d, 'z) channel_scheme \<Rightarrow> u8 list option \<Rightarrow> u8 list \<Rightarrow> u8 list option" where
  "party_encrypt C sk data =
     (case sk of
        None \<Rightarrow> Some (put_etype (ch_bits C) PlainText @ data)
      | Some key \<Rightarrow>
          (let payload_len = word_of_nat (length data) :: u32
           in case gcm_encrypt (ch_gcm C) key aes_gcm_iv (take (unat payload_len) data) of
                None \<Rightarrow> None
              | Some (cdata, tag) \<Rightarrow> Some (put_etype (ch_bits C) Encrypted @ to_bytes (bs_u32 (ch_bits C)) payload_len @ cdata @ tag)))"

text \<open>The result of \<open>decrypt\<close>: whether it reports success, and the content of the inner stream.\<close>

definition party_decrypt :: "('d, 'z) channel_scheme \<Rightarrow> u8 list option \<Rightarrow> u8 list \<Rightarrow> (bool \<times> u8 list) result" where
  "party_decrypt C sk in_data =
     (case sk of
        None \<Rightarrow> Inr (True, in_data)
      | Some key \<Rightarrow>
          rbind (receive (bs_u8 (ch_bits C)) in_data) (\<lambda>(encryption, input1).
          rbind (receive (bs_u32 (ch_bits C)) input1) (\<lambda>(payload_size, input2).
          case bs_raw (ch_bits C) (unat payload_size) input2 of
            None \<Rightarrow> Inl (RuntimeError ''bitstream'')
          | Some (payload, input3) \<Rightarrow>
              if enum_value encryption_types encryption \<noteq> Some Encrypted then Inr (False, [])
              else case bs_raw (ch_bits C) MAC_SIZE input3 of
                None \<Rightarrow> Inl (RuntimeError ''bitstream'')
              | Some (tag, input4) \<Rightarrow>
                  (case gcm_decrypt (ch_gcm C) key aes_gcm_iv payload tag of
                     None \<Rightarrow> Inr (False, ch_residue C payload)
                   | Some data \<Rightarrow> Inr (True, data)))))"

lemma unat_small [simp]: "small xs \<Longrightarrow> unat (word_of_nat (length xs) :: u32) = length xs"
  by (simp add: small_def unat_of_nat take_bit_nat_eq_self)

text \<open>What the sender encrypts the receiver decrypts, under the same key.\<close>

definition channel_laws :: "('d, 'z) channel_scheme \<Rightarrow> bool" where
  "channel_laws C \<longleftrightarrow> gcm_correct (ch_gcm C) \<and> wire_laws (ch_bits C)"

lemma frame_round_trip:
  assumes C: "channel_laws C" and data: "small data"
  obtains frame where "party_encrypt C (Some key) data = Some frame" "party_decrypt C (Some key) frame = Inr (True, data)"
    "\<exists>rest. frame = put_etype (ch_bits C) Encrypted @ rest"
proof -
  have W: "wire_laws (ch_bits C)" using C by (simp add: channel_laws_def)
  obtain cdata tag where enc: "gcm_encrypt (ch_gcm C) key aes_gcm_iv data = Some (cdata, tag)" "length cdata = length data"
    "length tag = MAC_SIZE" "gcm_decrypt (ch_gcm C) key aes_gcm_iv cdata tag = Some data"
    using C unfolding channel_laws_def gcm_correct_def by blast
  let ?frame = "put_etype (ch_bits C) Encrypted @ to_bytes (bs_u32 (ch_bits C)) (word_of_nat (length data)) @ cdata @ tag"
  have "party_encrypt C (Some key) data = Some ?frame" using enc data by (simp add: party_encrypt_def)
  moreover have "bs_raw (ch_bits C) (length data) (cdata @ tag) = Some (cdata, tag)" "bs_raw (ch_bits C) MAC_SIZE tag = Some (tag, [])"
    using wire_reads(12) [OF W enc(2), of tag] wire_reads(12) [OF W enc(3), of "[]"] by simp_all
  then have "party_decrypt C (Some key) ?frame = Inr (True, data)" using enc data W by (simp add: party_decrypt_def put_etype_def)
  ultimately show ?thesis using that by blast
qed

text \<open>A codec for two values does not write nothing for one of them.\<close>

lemma codec_nonempty:
  assumes "codec_law (\<lambda>_. True) c" "x \<noteq> y"
  shows "to_bytes c x \<noteq> []"
proof
  assume "to_bytes c x = []"
  then have "of_bytes c rest = Some (x, rest)" for rest using assms(1) unfolding codec_law_def by (metis append_Nil)
  then have "of_bytes c (to_bytes c y) = Some (x, to_bytes c y)" .
  moreover have "of_bytes c (to_bytes c y @ []) = Some (y, [])" using assms(1) unfolding codec_law_def by blast
  ultimately show False using assms(2) by simp
qed

lemma type_bytes_nonempty: "wire_laws B \<Longrightarrow> put_etype B e \<noteq> [] \<and> put_mtype B t \<noteq> []"
proof -
  assume "wire_laws B"
  then have law: "codec_law (\<lambda>_. True) (bs_u8 B)" unfolding wire_laws_def by blast
  have "to_bytes (bs_u8 B) w \<noteq> []" for w
  proof (cases "w = 0")
    case True
    then show ?thesis using codec_nonempty [OF law, of w 1] by simp
  qed (use codec_nonempty [OF law, of w 0] in simp)
  then show ?thesis by (simp add: put_etype_def put_mtype_def)
qed

end
