(* ===== verification/Transaction_Executor.thy ===== *)
theory Transaction_Executor
  imports Wire
begin

text \<open>
  Executing a transaction, alone or with other servers: \<open>TransactionExecutor.cpp\<close> and the transactions clients send as one
  request, \<open>TransactionProxy.cpp\<close>. Other servers are an argument: \<open>peers\<close> says what
  a peer answers to a request, what the rest of the system is afterwards, and whether there is such a peer at all. A peer
  handles a request when it is sent; its answer is looked at when the code waits for it.
\<close>

section \<open>The two phases\<close>

type_synonym 'n peers = "identity_uid_t \<Rightarrow> OperationType \<Rightarrow> u8 list \<Rightarrow> 'n \<Rightarrow> (bool \<times> 'n) option"

text \<open>Send a request to every child: whether all of them were found, and whether all that were found agreed.\<close>

fun ask_children :: "'n peers \<Rightarrow> OperationType \<Rightarrow> u8 list \<Rightarrow> identity_uid_t list \<Rightarrow> 'n \<Rightarrow> bool \<times> bool \<times> 'n" where
  "ask_children P op_type body [] n = (True, True, n)"
| "ask_children P op_type body (child # children) n =
     (case P child op_type body n of
        None \<Rightarrow> (case ask_children P op_type body children n of (found, ok, n') \<Rightarrow> (False, ok, n'))
      | Some (answer, n1) \<Rightarrow> (case ask_children P op_type body children n1 of (found, ok, n') \<Rightarrow> (found, answer \<and> ok, n')))"

definition abort_request :: "('d, 'y) bitstream_lib_scheme \<Rightarrow> 'd transaction \<Rightarrow> u8 list" where
  "abort_request B tx = to_bytes (bs_u64 B) (m_root tx) @ to_bytes (bs_u32 B) (m_identifier tx)"

definition vote_request :: "('d, 'y) bitstream_lib_scheme \<Rightarrow> bool \<Rightarrow> 'd transaction \<Rightarrow> u8 list" where
  "vote_request B generate_witness tx = abort_request B tx @ to_bytes (bs_bool B) generate_witness"

type_synonym ('a, 'd, 'n) execution = "('a result \<times> 'd tx_world \<times> 'n) option"

text \<open>\<open>p\<close> is the object of the transaction; it runs in a task.\<close>

definition executor_abort ::
  "('d, 'y) bitstream_lib_scheme \<Rightarrow> 'n peers \<Rightarrow> nat \<Rightarrow> 'd tx_world \<Rightarrow> 'n \<Rightarrow> (unit, 'd, 'n) execution" where
  "executor_abort B P p w n =
     (let tx = tw_objects w p
      in if m_is_remote tx then Some (Inl (RuntimeError ''Cannot abort remote transaction''), w, n)
         else case ask_children P TransactionAbort (abort_request B tx) (m_children tx) n of
                (found, ok, n') \<Rightarrow> (case tx_call p abort w of None \<Rightarrow> None | Some (r, w') \<Rightarrow> Some (r, w', n')))"

definition handle_nonblocking :: "nat \<Rightarrow> 'd tx_world \<Rightarrow> 'd tx_world" where
  "handle_nonblocking h w =
     w\<lparr>tw_locks := (tw_locks w)\<lparr>w_handles := (w_handles (tw_locks w))(h := set_blocking False (w_handles (tw_locks w) h))\<rparr>\<rparr>"

definition phase_one ::
  "('d, 'z) tx_env_scheme \<Rightarrow> ('d, 'y) bitstream_lib_scheme \<Rightarrow> 'n peers \<Rightarrow> bool \<Rightarrow> nat \<Rightarrow> 'd tx_world \<Rightarrow> 'n \<Rightarrow>
     (bool, 'd, 'n) execution" where
  "phase_one E B P generate_witness p w n =
     (let tx = tw_objects w p
      in if m_is_remote tx then Some (Inl (RuntimeError ''Cannot commit remote transaction''), w, n)
         else let (found, ok, n1) = ask_children P TransactionPrepare (vote_request B generate_witness tx) (m_children tx) n;
                  w1 = (if is_distributed tx then handle_nonblocking (m_lock_handle tx) w else w)
              in case tx_call p (prepare E generate_witness) w1 of
                   None \<Rightarrow> None
                 | Some (Inl e, w2) \<Rightarrow> Some (Inl e, w2, n1)
                 | Some (Inr prepared, w2) \<Rightarrow>
                     (let success = (found \<and> prepared \<and> ok)
                      in if success then Some (Inr True, w2, n1)
                         else case executor_abort B P p w2 n1 of
                                None \<Rightarrow> None
                              | Some (Inl e, w3, n2) \<Rightarrow> Some (Inl e, w3, n2)
                              | Some (Inr u, w3, n2) \<Rightarrow> Some (Inr False, w3, n2)))"

definition phase_two ::
  "('d, 'z) tx_env_scheme \<Rightarrow> ('d, 'y) bitstream_lib_scheme \<Rightarrow> 'n peers \<Rightarrow> bool \<Rightarrow> nat \<Rightarrow> 'd tx_world \<Rightarrow> 'n \<Rightarrow>
     (witness, 'd, 'n) execution" where
  "phase_two E B P generate_witness p w n =
     (let tx = tw_objects w p
      in if m_is_remote tx then Some (Inl (Fatal ''Invalid state: Cannot commit remote transaction''), w, n)
         else case ask_children P TransactionCommit (vote_request B generate_witness tx) (m_children tx) n of
                (found, ok, n') \<Rightarrow>
                  (case tx_call p (commit E generate_witness) w of None \<Rightarrow> None | Some (r, w') \<Rightarrow> Some (r, w', n')))"

section \<open>Transactions of clients\<close>

text \<open>The constructors that read an operation from a request; \<open>None\<close> is an operation that cannot be part of a transaction.\<close>

definition read_result :: "('d, 'y) bitstream_lib_scheme \<Rightarrow> u8 list \<Rightarrow> ((string \<times> event_id_t) \<times> u8 list) result" where
  "read_result B input =
     rbind (receive (bs_string B) input) (\<lambda>(key, input1).
     rbind (receive (bs_event B) input1) (\<lambda>(eid, input2). Inr ((key, eid), input2)))"

definition read_find_info :: "('d, 'y) bitstream_lib_scheme \<Rightarrow> taskid_t \<Rightarrow> u8 list \<Rightarrow> ('d operation_info_t \<times> u8 list) result" where
  "read_find_info B task input =
     rbind (receive (bs_string B) input) (\<lambda>(collection, input1).
     rbind (receive (bs_document B) input1) (\<lambda>(predicates, input2).
     rbind (receive (bs_strings B) input2) (\<lambda>(projection, input3).
     rbind (receive (bs_i32 B) input3) (\<lambda>(lim, input4).
     rbind (receive (bs_u32 B) input4) (\<lambda>(size, input5).
     rbind (read_times (unat size) (read_result B) input5) (\<lambda>(results, input6).
       Inr (find_info_t task collection predicates projection lim results, input6)))))))"

definition read_op_with ::
  "('d, 'y) bitstream_lib_scheme \<Rightarrow> (string \<Rightarrow> string \<Rightarrow> u8 list \<Rightarrow> ('d operation_info_t \<times> u8 list) result) \<Rightarrow> u8 list \<Rightarrow>
     ('d operation_info_t \<times> u8 list) result" where
  "read_op_with B rest input =
     rbind (receive (bs_string B) input) (\<lambda>(collection, input1).
     rbind (receive (bs_string B) input1) (\<lambda>(key, input2). rest collection key input2))"

definition read_check_obj_info :: "('d, 'y) bitstream_lib_scheme \<Rightarrow> taskid_t \<Rightarrow> u8 list \<Rightarrow> ('d operation_info_t \<times> u8 list) result" where
  "read_check_obj_info B task = read_op_with B (\<lambda>c k input.
     rbind (receive (bs_document B) input) (\<lambda>(predicates, input1).
     rbind (receive (bs_bool B) input1) (\<lambda>(res, input2). Inr (check_obj_info_t task c k predicates res, input2))))"

definition read_has_obj_info :: "('d, 'y) bitstream_lib_scheme \<Rightarrow> taskid_t \<Rightarrow> u8 list \<Rightarrow> ('d operation_info_t \<times> u8 list) result" where
  "read_has_obj_info B task = read_op_with B (\<lambda>c k input.
     rbind (receive (bs_bool B) input) (\<lambda>(res, input1). Inr (has_obj_info_t task c k res, input1)))"

definition read_get_info :: "('d, 'y) bitstream_lib_scheme \<Rightarrow> taskid_t \<Rightarrow> u8 list \<Rightarrow> ('d operation_info_t \<times> u8 list) result" where
  "read_get_info B task = read_op_with B (\<lambda>c k input.
     rbind (receive (bs_event B) input) (\<lambda>(eid, input1). Inr (get_info_t task c k eid, input1)))"

definition read_put_info :: "('d, 'y) bitstream_lib_scheme \<Rightarrow> taskid_t \<Rightarrow> u8 list \<Rightarrow> ('d operation_info_t \<times> u8 list) result" where
  "read_put_info B task = read_op_with B (\<lambda>c k input.
     rbind (receive (bs_document B) input) (\<lambda>(doc, input1). Inr (put_info_t task c k doc, input1)))"

definition read_add_info :: "('d, 'y) bitstream_lib_scheme \<Rightarrow> taskid_t \<Rightarrow> u8 list \<Rightarrow> ('d operation_info_t \<times> u8 list) result" where
  "read_add_info B task = read_op_with B (\<lambda>c k input.
     rbind (receive (bs_document B) input) (\<lambda>(doc, input1). Inr (add_info_t task c k doc, input1)))"

definition read_remove_info :: "('d, 'y) bitstream_lib_scheme \<Rightarrow> taskid_t \<Rightarrow> u8 list \<Rightarrow> ('d operation_info_t \<times> u8 list) result" where
  "read_remove_info B task = read_op_with B (\<lambda>c k input. Inr (remove_info_t task c k, input))"

lemmas read_op_defs = read_check_obj_info_def read_has_obj_info_def read_get_info_def read_put_info_def read_add_info_def
  read_remove_info_def read_find_info_def read_op_with_def read_result_def

definition new_operation_info_from_req ::
  "('d, 'y) bitstream_lib_scheme \<Rightarrow> taskid_t \<Rightarrow> u8 list \<Rightarrow> ((u8 + 'd operation_info_t) \<times> u8 list) result" where
  "new_operation_info_from_req B task input =
     rbind (receive (bs_u8 B) input) (\<lambda>(number, input1).
       let found = (\<lambda>r. rbind r (\<lambda>(op, input2). Inr (Inr op, input2)))
       in case enum_value operation_types number of
            Some GetObject \<Rightarrow> found (read_get_info B task input1)
          | Some HasObject \<Rightarrow> found (read_has_obj_info B task input1)
          | Some CheckObject \<Rightarrow> found (read_check_obj_info B task input1)
          | Some PutObject \<Rightarrow> found (read_put_info B task input1)
          | Some AddToObject \<Rightarrow> found (read_add_info B task input1)
          | Some FindObjects \<Rightarrow> found (read_find_info B task input1)
          | Some RemoveObject \<Rightarrow> found (read_remove_info B task input1)
          | _ \<Rightarrow> Inr (Inl number, input1))"

text \<open>The loop of the constructor: an unknown operation aborts the transaction and ends the loop.\<close>

definition unknown_operation :: "u8 \<Rightarrow> 'd transaction \<Rightarrow> 'd tx_world \<Rightarrow> (unit, 'd) tx_outcome" where
  "unknown_operation number tx w = abort (set_error (''Unknown OperationType '' @ to_string_nat (unat number)) tx) w"

fun register_operations ::
  "('d, 'y) bitstream_lib_scheme \<Rightarrow> taskid_t \<Rightarrow> nat \<Rightarrow> nat \<Rightarrow> u8 list \<Rightarrow> 'd tx_world \<Rightarrow> (unit result \<times> 'd tx_world) option" where
  "register_operations B task 0 p input w = Some (Inr (), w)"
| "register_operations B task (Suc n) p input w =
     (case new_operation_info_from_req B task input of
        Inl e \<Rightarrow> Some (Inl e, w)
      | Inr (Inl number, input') \<Rightarrow> tx_call p (unknown_operation number) w
      | Inr (Inr op, input') \<Rightarrow>
          register_operations B task n p input' (w\<lparr>tw_objects := (tw_objects w)(p := register_operation op (tw_objects w p))\<rparr>))"

text \<open>
  The constructor gives the object of the transaction and whether a witness is wanted. Isolation levels other than the three of the
  enumeration are not modelled: the request fails.
\<close>

definition new_proxy ::
  "('d, 'y) bitstream_lib_scheme \<Rightarrow> identity_uid_t \<Rightarrow> taskid_t \<Rightarrow> op_context \<Rightarrow> u8 list \<Rightarrow> 'd tx_world \<Rightarrow>
     ((nat \<times> bool) result \<times> 'd tx_world) option" where
  "new_proxy B uid task ctx input w =
     (case rbind (receive (bs_u8 B) input) (\<lambda>(level, input1). rbind (receive (bs_bool B) input1) (\<lambda>(gw, input2).
             case enum_value isolation_levels level of
               None \<Rightarrow> Inl (Fatal ''no such isolation level'')
             | Some isolation \<Rightarrow> Inr (isolation, gw, input2))) of
        Inl e \<Rightarrow> Some (Inl e, w)
      | Inr (isolation, gw, input2) \<Rightarrow>
          let (p, w1) = init_local_transaction uid isolation w;
              w2 = w1\<lparr>tw_objects := (tw_objects w1)(p := init_task task ctx (tw_objects w1 p))\<rparr>
          in case receive (bs_u32 B) input2 of
               Inl e \<Rightarrow> Some (Inl e, w2)
             | Inr (ops_size, input3) \<Rightarrow>
                 (case register_operations B task (unat ops_size) p input3 w2 of
                    None \<Rightarrow> None
                  | Some (Inl e, w3) \<Rightarrow> Some (Inl e, w3)
                  | Some (Inr u, w3) \<Rightarrow> Some (Inr (p, gw), w3)))"

definition proxy_work ::
  "('d, 'z) tx_env_scheme \<Rightarrow> ('d, 'y) bitstream_lib_scheme \<Rightarrow> 'n peers \<Rightarrow> bool \<Rightarrow> nat \<Rightarrow> 'd tx_world \<Rightarrow> 'n \<Rightarrow>
     (u8 list, 'd, 'n) execution" where
  "proxy_work E B P gw p w n =
     (case phase_one E B P gw p w n of
        None \<Rightarrow> None
      | Some (Inl e, w1, n1) \<Rightarrow> Some (Inl e, w1, n1)
      | Some (Inr False, w1, n1) \<Rightarrow>
          Some (Inr (to_bytes (bs_bool B) False @ to_bytes (bs_string B) (m_error (tw_objects w1 p))), w1, n1)
      | Some (Inr True, w1, n1) \<Rightarrow>
          (case phase_two E B P gw p w1 n1 of
             None \<Rightarrow> None
           | Some (Inl e, w2, n2) \<Rightarrow> Some (Inl e, w2, n2)
           | Some (Inr witness, w2, n2) \<Rightarrow> Some (Inr (to_bytes (bs_bool B) True @ put_witness B witness), w2, n2)))"

text \<open>
  \<open>process\<close> runs \<open>work\<close> directly unless the transaction has children, which a transaction made from a request
  does not.
\<close>

definition proxy_process ::
  "('d, 'z) tx_env_scheme \<Rightarrow> ('d, 'y) bitstream_lib_scheme \<Rightarrow> 'n peers \<Rightarrow> bool \<Rightarrow> nat \<Rightarrow> 'd tx_world \<Rightarrow> 'n \<Rightarrow>
     (u8 list, 'd, 'n) execution" where
  "proxy_process E B P gw p w n = proxy_work E B P gw p w n"

lemma register_operation_children [simp]:
  "m_children (register_operation op tx) = m_children tx" "m_is_remote (register_operation op tx) = m_is_remote tx"
proof -
  have fold: "m_children (fold (\<lambda>x. set_read_lock (f x)) xs tx') = m_children tx' \<and>
    m_is_remote (fold (\<lambda>x. set_read_lock (f x)) xs tx') = m_is_remote tx'" for f and xs :: "'b list" and tx' :: "'a transaction"
    by (induction xs arbitrary: tx') (simp_all add: set_read_lock_def)
  show "m_children (register_operation op tx) = m_children tx" "m_is_remote (register_operation op tx) = m_is_remote tx"
    by (cases op; simp add: register_operation_def set_read_lock_def set_write_lock_def fold split_def)+
qed

end
