(* ===== verification/Request_Handler.thy ===== *)
theory Request_Handler
  imports Transaction_Executor Ledger_Clear
begin

text \<open>
  The requests an enclave answers (\<open>RemoteParty.cpp\<close>): a request is decoded, the ledger or the transaction manager is
  called, and the result is encoded. A definition per request, then the dispatch for a server that owns its data
  (\<open>handle_request_upstream_mode\<close>), for one that reads from another server (\<open>handle_request_downstream_mode\<close>),
  and for a request as it arrives (\<open>handle_op_request\<close>). A request is handled in one step, at the moment it has the locks it
  needs. \<open>None\<close> is a call that does not return, an error is an exception or a fatal error of the handler.
\<close>

section \<open>State and parameters\<close>

record 'd enclave =
  en_world :: "'d tx_world"
  en_downstream :: bool
  en_triggers :: "(string \<times> remote_party_id list) list"
  en_peers :: "(string \<times> string \<times> u16) list"
  en_next_task :: taskid_t
  en_upstream_op :: u32

text \<open>
  What the handlers use besides the ledger's libraries: the bit stream library; the signatures; the server's own identity; the random
  keys; the documents the JSON writer makes of the statistics and of a peer; the differences of two documents in
  their stream form; the interpreter, which gives the messages it sends; the requests for debugging and for the start of a downstream server;
  and what the upstream server answers.
\<close>

record 'd enclave_env = "'d tx_env" +
  ee_bits :: "'d bitstream_lib"
  ee_witness :: "'d witness_lib"
  ee_uid :: identity_uid_t
  ee_identity :: identity
  ee_keys :: "nat \<Rightarrow> string"
  ee_statistics :: "ledger \<Rightarrow> 'd"
  ee_peer_document :: "string \<times> string \<times> u16 \<Rightarrow> 'd"
  ee_diffs :: "'d \<Rightarrow> 'd \<Rightarrow> u8 list list"
  ee_run :: "u8 list \<Rightarrow> string list \<Rightarrow> string \<times> string \<Rightarrow> identity_uid_t \<times> transaction_id_t \<Rightarrow> taskid_t \<times> u32 \<Rightarrow> 'd enclave \<Rightarrow> (u8 list list \<times> 'd enclave) result option"
  ee_debug :: "OperationType \<Rightarrow> u8 list \<Rightarrow> 'd enclave \<Rightarrow> (u8 list \<times> 'd enclave) result option"
  ee_upstream :: "u8 list \<Rightarrow> u8 list option"

type_synonym 'd handled = "(u8 list \<times> 'd enclave) result option"

definition ledger_of :: "'d enclave \<Rightarrow> ledger" where
  "ledger_of s = tw_ledger (en_world s)"

definition set_ledger :: "ledger \<Rightarrow> 'd enclave \<Rightarrow> 'd enclave" where
  "set_ledger l s = s\<lparr>en_world := (en_world s)\<lparr>tw_ledger := l\<rparr>\<rparr>"

definition reply :: "('a \<Rightarrow> u8 list) \<Rightarrow> 'd enclave \<Rightarrow> 'a result option \<Rightarrow> 'd handled" where
  "reply out s r = pbind r (\<lambda>x. Some (Inr (out x, s)))"

definition reply_changed :: "('a \<Rightarrow> u8 list) \<Rightarrow> 'd enclave \<Rightarrow> ('a \<times> ledger) result option \<Rightarrow> 'd handled" where
  "reply_changed out s r = pbind r (\<lambda>(x, l). Some (Inr (out x, set_ledger l s)))"

section \<open>Requests about objects\<close>

definition handle_request_has_object :: "('d, 'z) enclave_env_scheme \<Rightarrow> u8 list \<Rightarrow> 'd enclave \<Rightarrow> 'd handled" where
  "handle_request_has_object E input s =
     read_then (bs_string (ee_bits E)) input (\<lambda>collection input1.
     read_then (bs_string (ee_bits E)) input1 (\<lambda>full_path input2.
       case parse_path full_path of (key, path) \<Rightarrow>
         reply (to_bytes (bs_bool (ee_bits E))) s (Some (has_object E collection key (ledger_of s)))))"

definition handle_request_check_object :: "('d, 'z) enclave_env_scheme \<Rightarrow> op_context \<Rightarrow> u8 list \<Rightarrow> 'd enclave \<Rightarrow> 'd handled" where
  "handle_request_check_object E ctx input s =
     read_then (bs_string (ee_bits E)) input (\<lambda>collection input1.
     read_then (bs_string (ee_bits E)) input1 (\<lambda>full_path input2.
     read_then (bs_document (ee_bits E)) input2 (\<lambda>predicates input3.
       case parse_path full_path of (key, path) \<Rightarrow>
         reply (to_bytes (bs_bool (ee_bits E))) s (ledger_check E ctx collection key path predicates (ledger_of s)))))"

definition object_witness :: "('d, 'z) enclave_env_scheme \<Rightarrow> event_id_t list \<Rightarrow> 'd enclave \<Rightarrow> u8 list result" where
  "object_witness E eids s =
     rbind (create_witness E (ee_witness E) new_witness eids (ledger_of s)) (\<lambda>(ok, w).
       Inr (if ok then to_bytes (bs_bool (ee_bits E)) True @ put_witness (ee_bits E) w else to_bytes (bs_bool (ee_bits E)) False))"

definition object_reply :: "('d, 'z) enclave_env_scheme \<Rightarrow> bool \<Rightarrow> 'd enclave \<Rightarrow> event_id_t \<times> 'd option \<Rightarrow> u8 list result" where
  "object_reply E generate_witness s = (\<lambda>(eid, v).
     if eid = INVALID_EVENT then Inr (to_bytes (bs_event (ee_bits E)) INVALID_EVENT)
     else case v of
       None \<Rightarrow> Inl JsonError
     | Some d \<Rightarrow>
         rbind (if generate_witness then object_witness E [eid] s else Inr []) (\<lambda>w.
           Inr (to_bytes (bs_event (ee_bits E)) eid @ to_bytes (bs_document (ee_bits E)) d @ w)))"

definition handle_request_get_object ::
  "('d, 'z) enclave_env_scheme \<Rightarrow> op_context \<Rightarrow> u8 list \<Rightarrow> bool \<Rightarrow> 'd enclave \<Rightarrow> 'd handled" where
  "handle_request_get_object E ctx input generate_witness s =
     read_then (bs_string (ee_bits E)) input (\<lambda>collection input1.
     read_then (bs_string (ee_bits E)) input1 (\<lambda>full_path input2.
       case parse_path full_path of (key, path) \<Rightarrow>
         reply (\<lambda>out. if generate_witness then to_bytes (bs_nested (ee_bits E)) out else out) s
           (obind (first_value E ctx collection key path (ledger_of s)) (object_reply E generate_witness s))))"

text \<open>A document read as its length and its data; a request that is too short is answered with nothing.\<close>

definition read_value_then ::
  "('d, 'y) bitstream_lib_scheme \<Rightarrow> u8 list \<Rightarrow> 'd enclave \<Rightarrow> ('d \<Rightarrow> 'd handled) \<Rightarrow> 'd handled" where
  "read_value_then B input s f =
     read_then (bs_u32 B) input (\<lambda>val_len input1.
       case bs_raw B (unat val_len) input1 of
         None \<Rightarrow> Some (Inr ([], s))
       | Some (value, input2) \<Rightarrow> f (bs_of_data B value))"

definition handle_put_without_key :: "('d, 'z) enclave_env_scheme \<Rightarrow> op_context \<Rightarrow> u8 list \<Rightarrow> 'd enclave \<Rightarrow> 'd handled" where
  "handle_put_without_key E ctx input s =
     read_then (bs_string (ee_bits E)) input (\<lambda>collection input1.
     read_value_then (ee_bits E) input1 s (\<lambda>doc.
       reply_changed (\<lambda>(eid, key). to_bytes (bs_event (ee_bits E)) eid @ to_bytes (bs_string (ee_bits E)) key) s
         (obind (put_without_key E ctx collection (ee_keys E) doc False (ledger_of s)) (\<lambda>(eid, key, l). Inr ((eid, key), l)))))"

definition write_allowed :: "('d, 'z) enclave_env_scheme \<Rightarrow> string \<Rightarrow> string \<times> string \<Rightarrow> 'd enclave \<Rightarrow> bool result" where
  "write_allowed E collection = (\<lambda>(key, path) s.
     if path \<noteq> [] then has_object E collection key (ledger_of s) else Inr (is_valid_key key))"

definition handle_put_or_add :: "('d, 'z) enclave_env_scheme \<Rightarrow> op_context \<Rightarrow> OperationType \<Rightarrow> u8 list \<Rightarrow> 'd enclave \<Rightarrow> 'd handled" where
  "handle_put_or_add E ctx op_type input s =
     read_then (bs_string (ee_bits E)) input (\<lambda>collection input1.
     read_then (bs_string (ee_bits E)) input1 (\<lambda>full_path input2.
     read_value_then (ee_bits E) input2 s (\<lambda>doc.
       case parse_path full_path of (key, path) \<Rightarrow>
         pbind (Some (write_allowed E collection (key, path) s)) (\<lambda>allowed.
           if \<not> allowed then Some (Inr (to_bytes (bs_event (ee_bits E)) INVALID_EVENT, s))
           else reply_changed (to_bytes (bs_event (ee_bits E))) s
                  (if op_type = AddToObject then ledger_add E ctx collection key doc path False (ledger_of s)
                   else ledger_put E ctx collection key doc path False (ledger_of s))))))"

definition handle_remove :: "('d, 'z) enclave_env_scheme \<Rightarrow> op_context \<Rightarrow> u8 list \<Rightarrow> 'd enclave \<Rightarrow> 'd handled" where
  "handle_remove E ctx input s =
     read_then (bs_string (ee_bits E)) input (\<lambda>collection input1.
     read_then (bs_string (ee_bits E)) input1 (\<lambda>key input2.
       reply_changed (to_bytes (bs_event (ee_bits E))) s
         (ledger_remove E ctx collection key (tx_no_document E) False (ledger_of s))))"

text \<open>The loops that write a list first leave room for its length and fill it in at the end.\<close>

partial_function (option) history_from ::
  "('d, 'z) enclave_env_scheme \<Rightarrow> ledger \<Rightarrow> 'd object_iterator \<Rightarrow> u32 \<Rightarrow> u8 list \<Rightarrow> (u32 \<times> u8 list) result option" where
  "history_from E l it num out =
     (case next_handle E l it of
        None \<Rightarrow> None
      | Some (Inl e) \<Rightarrow> Some (Inl e)
      | Some (Inr ((eid, elem), it')) \<Rightarrow>
          if \<not> is_valid eid then Some (Inr (num, out))
          else case event_value elem of
                 Inl e \<Rightarrow> Some (Inl e)
               | Inr val \<Rightarrow> history_from E l it' (num + 1) (out @ to_bytes (bs_nested (ee_bits E)) (bs_data (ee_bits E) val)))"

definition handle_history :: "('d, 'z) enclave_env_scheme \<Rightarrow> op_context \<Rightarrow> u8 list \<Rightarrow> 'd enclave \<Rightarrow> 'd handled" where
  "handle_history E ctx input s =
     read_then (bs_string (ee_bits E)) input (\<lambda>collection input1.
     read_then (bs_string (ee_bits E)) input1 (\<lambda>key input2.
     pbind (iterate E ctx collection key [] (ledger_of s)) (\<lambda>it.
       reply (\<lambda>(num, out). to_bytes (bs_bool (ee_bits E)) True @ to_bytes (bs_u32 (ee_bits E)) num @ out) s
         (history_from E (ledger_of s) it 0 []))))"

section \<open>Queries\<close>

definition handle_count :: "('d, 'z) enclave_env_scheme \<Rightarrow> op_context \<Rightarrow> u8 list \<Rightarrow> 'd enclave \<Rightarrow> 'd handled" where
  "handle_count E ctx input s =
     read_then (bs_string (ee_bits E)) input (\<lambda>collection input1.
     read_then (bs_document (ee_bits E)) input1 (\<lambda>predicates input2.
       reply (to_bytes (bs_u32 (ee_bits E))) s (count_objects E (tx_order E) ctx collection predicates (ledger_of s))))"

definition found_object :: "('d, 'z) enclave_env_scheme \<Rightarrow> string list \<Rightarrow> string \<Rightarrow> event_id_t \<Rightarrow> 'd \<Rightarrow> u8 list" where
  "found_object E projection key eid d =
     to_bytes (bs_string (ee_bits E)) key @ to_bytes (bs_event (ee_bits E)) eid @
     to_bytes (bs_document (ee_bits E)) (if projection \<noteq> [] then js_select E d projection else d)"

partial_function (option) find_loop ::
  "('d, 'z) enclave_env_scheme \<Rightarrow> ledger \<Rightarrow> string list \<Rightarrow> int \<Rightarrow> string \<Rightarrow> 'd list_iterator \<Rightarrow> u32 \<Rightarrow> u8 list \<Rightarrow>
     (u32 \<times> u8 list) result option" where
  "find_loop E l projection lim key it num out =
     (case list_next E l key it of
        None \<Rightarrow> None
      | Some (Inl e) \<Rightarrow> Some (Inl e)
      | Some (Inr ((eid, key', hdl), it')) \<Rightarrow>
          if \<not> event_valid hdl then Some (Inr (num, out))
          else case event_value hdl of
                 Inl e \<Rightarrow> Some (Inl e)
               | Inr d \<Rightarrow>
                   let num' = num + 1; out' = out @ found_object E projection key' eid d
                   in if lim > 0 \<and> num' = word_of_int lim then Some (Inr (num', out'))
                      else find_loop E l projection lim key' it' num' out')"

definition handle_find :: "('d, 'z) enclave_env_scheme \<Rightarrow> op_context \<Rightarrow> u8 list \<Rightarrow> 'd enclave \<Rightarrow> 'd handled" where
  "handle_find E ctx input s =
     read_then (bs_string (ee_bits E)) input (\<lambda>collection input1.
     read_then (bs_document (ee_bits E)) input1 (\<lambda>predicates input2.
     read_then (bs_strings (ee_bits E)) input2 (\<lambda>projection input3.
     read_then (bs_i32 (ee_bits E)) input3 (\<lambda>lim input4.
       if lim = 0 then Some (Inl (Fatal ''Got invalid value for limit''))
       else pbind (Some (ledger_find E (tx_order E) ctx collection predicates (ledger_of s))) (\<lambda>it.
              reply (\<lambda>(num, out). to_bytes (bs_u32 (ee_bits E)) num @ out) s
                (find_loop E (ledger_of s) projection lim [] it 0 []))))))"

definition handle_create_index :: "('d, 'z) enclave_env_scheme \<Rightarrow> u8 list \<Rightarrow> 'd enclave \<Rightarrow> 'd handled" where
  "handle_create_index E input s =
     read_then (bs_string (ee_bits E)) input (\<lambda>collection input1.
     read_then (bs_string (ee_bits E)) input1 (\<lambda>name input2.
     read_then (bs_strings (ee_bits E)) input2 (\<lambda>paths input3.
       reply_changed (to_bytes (bs_bool (ee_bits E))) s
         (ledger_create_index E (tx_order E) \<lparr>oc_identity = ee_identity E, oc_program = []\<rparr> collection name paths (ledger_of s)))))"

definition handle_drop_index :: "('d, 'z) enclave_env_scheme \<Rightarrow> u8 list \<Rightarrow> 'd enclave \<Rightarrow> 'd handled" where
  "handle_drop_index E input s =
     read_then (bs_string (ee_bits E)) input (\<lambda>collection input1.
     read_then (bs_string (ee_bits E)) input1 (\<lambda>name input2.
       reply_changed (to_bytes (bs_bool (ee_bits E))) s (Some (ledger_drop_index collection name (ledger_of s)))))"

definition handle_clear :: "('d, 'z) enclave_env_scheme \<Rightarrow> op_context \<Rightarrow> u8 list \<Rightarrow> 'd enclave \<Rightarrow> 'd handled" where
  "handle_clear E ctx input s =
     read_then (bs_string (ee_bits E)) input (\<lambda>collection input1.
       reply_changed (to_bytes (bs_bool (ee_bits E))) s (Some (ledger_clear E (tx_order E) ctx collection (ledger_of s))))"

section \<open>Witnesses, versions, order, triggers and peers\<close>

definition handle_create_witness :: "('d, 'z) enclave_env_scheme \<Rightarrow> u8 list \<Rightarrow> 'd enclave \<Rightarrow> 'd handled" where
  "handle_create_witness E input s =
     read_then (bs_events (ee_bits E)) input (\<lambda>events input1. reply id s (Some (object_witness E events s)))"

definition handle_diff :: "('d, 'z) enclave_env_scheme \<Rightarrow> op_context \<Rightarrow> u8 list \<Rightarrow> 'd enclave \<Rightarrow> 'd handled" where
  "handle_diff E ctx input s =
     read_then (bs_string (ee_bits E)) input (\<lambda>collection input1.
     read_then (bs_string (ee_bits E)) input1 (\<lambda>key input2.
     read_then (bs_u32 (ee_bits E)) input2 (\<lambda>version1 input3.
     read_then (bs_u32 (ee_bits E)) input3 (\<lambda>version2 input4.
     pbind (iterate E ctx collection key [] (ledger_of s)) (\<lambda>it.
       reply (\<lambda>r. case r of
                 None \<Rightarrow> to_bytes (bs_bool (ee_bits E)) False
               | Some (val1, val2) \<Rightarrow>
                   (let diffs = ee_diffs E val1 val2
                    in to_bytes (bs_bool (ee_bits E)) True @ to_bytes (bs_u32 (ee_bits E)) (word_of_nat (length diffs)) @ concat diffs)) s
         (find_two_versions E (ledger_of s) version1 version2 it None None))))))"

definition order_events :: "('d, 'z) enclave_env_scheme \<Rightarrow> event_id_t \<Rightarrow> event_id_t \<Rightarrow> 'd enclave \<Rightarrow> OrderResult result" where
  "order_events E first second s =
     (let res = order_event first second
      in if res \<noteq> Unknown then Inr res
         else rbind (get_transaction_ref E first (ledger_of s)) (\<lambda>ref1.
              rbind (get_transaction_ref E second (ledger_of s)) (\<lambda>ref2.
                if ref1 = INVALID_LEDGER_POS \<or> ref2 = INVALID_LEDGER_POS then Inr res
                else if ref1 = ref2 then Inr Equal
                else rbind (tl_get (tx_values E) ref1 (tw_tx_ledger (en_world s))) (\<lambda>tx1.
                     rbind (tl_get (tx_values E) ref2 (tw_tx_ledger (en_world s))) (\<lambda>tx2.
                       case (tx1, tx2) of (Some r1, Some r2) \<Rightarrow> order_transactions r1 r2 | _ \<Rightarrow> Inl JsonError)))))"

definition handle_order_events :: "('d, 'z) enclave_env_scheme \<Rightarrow> u8 list \<Rightarrow> 'd enclave \<Rightarrow> 'd handled" where
  "handle_order_events E input s =
     read_then (bs_event (ee_bits E)) input (\<lambda>first input1.
     read_then (bs_event (ee_bits E)) input1 (\<lambda>second input2.
       reply (to_bytes (bs_order (ee_bits E))) s (Some (order_events E first second s))))"

definition handle_set_trigger :: "('d, 'z) enclave_env_scheme \<Rightarrow> remote_party_id \<Rightarrow> u8 list \<Rightarrow> 'd enclave \<Rightarrow> 'd handled" where
  "handle_set_trigger E party input s =
     read_then (bs_string (ee_bits E)) input (\<lambda>collection input1.
       reply_changed (to_bytes (bs_bool (ee_bits E))) s
         (Some (rbind (ledger_set_trigger collection party (ledger_of s)) (\<lambda>l. Inr (True, l)))))"

definition handle_unset_trigger :: "('d, 'z) enclave_env_scheme \<Rightarrow> remote_party_id \<Rightarrow> u8 list \<Rightarrow> 'd enclave \<Rightarrow> 'd handled" where
  "handle_unset_trigger E party input s =
     read_then (bs_string (ee_bits E)) input (\<lambda>collection input1.
       reply_changed (to_bytes (bs_bool (ee_bits E))) s (Some (Inr (ledger_unset_trigger collection party (ledger_of s)))))"

definition handle_list_peers :: "('d, 'z) enclave_env_scheme \<Rightarrow> 'd enclave \<Rightarrow> 'd handled" where
  "handle_list_peers E s =
     Some (Inr (to_bytes (bs_u64 (ee_bits E)) (word_of_nat (length (en_peers s))) @
       concat (map (\<lambda>info. to_bytes (bs_document (ee_bits E)) (ee_peer_document E info)) (en_peers s)), s))"

section \<open>Requests about transactions\<close>

definition set_world :: "'d tx_world \<Rightarrow> 'd enclave \<Rightarrow> 'd enclave" where
  "set_world w s = s\<lparr>en_world := w\<rparr>"

definition read_transaction_then ::
  "('d, 'z) enclave_env_scheme \<Rightarrow> u8 list \<Rightarrow> 'd enclave \<Rightarrow> (nat option \<Rightarrow> u8 list \<Rightarrow> 'd handled) \<Rightarrow> 'd handled" where
  "read_transaction_then E input s f =
     read_then (bs_u64 (ee_bits E)) input (\<lambda>tx_root input1.
     read_then (bs_u32 (ee_bits E)) input1 (\<lambda>tx_id input2. f (get_transaction tx_root tx_id (en_world s)) input2))"

definition handle_transaction_abort :: "('d, 'z) enclave_env_scheme \<Rightarrow> u8 list \<Rightarrow> 'd enclave \<Rightarrow> 'd handled" where
  "handle_transaction_abort E input s =
     read_transaction_then E input s (\<lambda>tx input1.
       case tx of
         None \<Rightarrow> Some (Inr (to_bytes (bs_bool (ee_bits E)) False, s))
       | Some p \<Rightarrow>
           if is_done (tw_objects (en_world s) p) then Some (Inr (to_bytes (bs_bool (ee_bits E)) False, s))
           else if \<not> m_is_remote (tw_objects (en_world s) p) then Some (Inl (Fatal ''Cannot abort: not a remote transaction''))
           else case tx_call p abort (en_world s) of
                  None \<Rightarrow> None
                | Some (Inl e, w) \<Rightarrow> Some (Inl e)
                | Some (Inr u, w) \<Rightarrow> Some (Inr (to_bytes (bs_bool (ee_bits E)) True, set_world w s)))"

text \<open>Two kinds of exceptions are caught and count as a vote against the transaction, which stays as it is.\<close>

definition caught_by_prepare :: "error \<Rightarrow> bool" where
  "caught_by_prepare e = (case e of RuntimeError _ \<Rightarrow> True | WouldBlock \<Rightarrow> True | _ \<Rightarrow> False)"

definition handle_transaction_prepare :: "('d, 'z) enclave_env_scheme \<Rightarrow> u8 list \<Rightarrow> 'd enclave \<Rightarrow> 'd handled" where
  "handle_transaction_prepare E input s =
     read_transaction_then E input s (\<lambda>tx input1.
     read_then (bs_bool (ee_bits E)) input1 (\<lambda>generate_witness input2.
       case tx of
         None \<Rightarrow> Some (Inr (to_bytes (bs_bool (ee_bits E)) False, s))
       | Some p \<Rightarrow>
           if \<not> m_is_remote (tw_objects (en_world s) p) then Some (Inl (Fatal ''Cannot prepare: not a remote transaction''))
           else case tx_call p (prepare E generate_witness) (en_world s) of
                  None \<Rightarrow> None
                | Some (Inr res, w) \<Rightarrow> Some (Inr (to_bytes (bs_bool (ee_bits E)) res, set_world w s))
                | Some (Inl e, w) \<Rightarrow>
                    if caught_by_prepare e then Some (Inr (to_bytes (bs_bool (ee_bits E)) False, set_world w s)) else Some (Inl e)))"

definition handle_transaction_commit :: "('d, 'z) enclave_env_scheme \<Rightarrow> u8 list \<Rightarrow> 'd enclave \<Rightarrow> 'd handled" where
  "handle_transaction_commit E input s =
     read_transaction_then E input s (\<lambda>tx input1.
     read_then (bs_bool (ee_bits E)) input1 (\<lambda>generate_witness input2.
       case tx of
         None \<Rightarrow> Some (Inr (to_bytes (bs_bool (ee_bits E)) False, s))
       | Some p \<Rightarrow>
           if \<not> m_is_remote (tw_objects (en_world s) p) then Some (Inl (Fatal ''Cannot commit: not a remote transaction''))
           else case tx_call p (commit E generate_witness) (en_world s) of
                  None \<Rightarrow> None
                | Some (Inl e, w) \<Rightarrow> Some (Inl e)
                | Some (Inr res, w) \<Rightarrow>
                    Some (Inr (to_bytes (bs_bool (ee_bits E)) True @ put_witness (ee_bits E) res, set_world w s))))"

text \<open>A transaction of a client has no children, so no peer is asked.\<close>

definition no_peers :: "unit peers" where
  "no_peers child op_type body n = None"

definition handle_execute_transaction :: "('d, 'z) enclave_env_scheme \<Rightarrow> op_context \<Rightarrow> u8 list \<Rightarrow> 'd enclave \<Rightarrow> 'd handled" where
  "handle_execute_transaction E ctx input s =
     (case new_proxy (ee_bits E) (ee_uid E) (en_next_task s) ctx input (en_world s) of
        None \<Rightarrow> None
      | Some (Inl e, w) \<Rightarrow> Some (Inl e)
      | Some (Inr (p, gw), w) \<Rightarrow>
          (case proxy_process E (ee_bits E) no_peers gw p w () of
             None \<Rightarrow> None
           | Some (Inl e, w', n) \<Rightarrow> Some (Inl e)
           | Some (Inr bs, w', n) \<Rightarrow>
               Some (Inr (to_bytes (bs_nested (ee_bits E)) bs, set_world w' (s\<lparr>en_next_task := en_next_task s + 1\<rparr>)))))"

section \<open>Dispatch\<close>

text \<open>
  The announcement of a server is handled with the sessions of servers; from a client, the cast to a server gives a null pointer.
\<close>

definition handle_request_upstream_mode ::
  "('d, 'z) enclave_env_scheme \<Rightarrow> remote_party_id \<Rightarrow> op_context \<Rightarrow> OperationType option \<Rightarrow> u8 list \<Rightarrow> 'd enclave \<Rightarrow> 'd handled" where
  "handle_request_upstream_mode E party ctx op_type input s =
     (case op_type of
        Some NOP \<Rightarrow> Some (Inr (to_bytes (bs_bool (ee_bits E)) True, s))
      | Some GetStatistics \<Rightarrow> Some (Inr (to_bytes (bs_document (ee_bits E)) (ee_statistics E (ledger_of s)), s))
      | Some DumpEverything \<Rightarrow> ee_debug E DumpEverything input s
      | Some LoadEverything \<Rightarrow> ee_debug E LoadEverything input s
      | Some CreateWitness \<Rightarrow> handle_create_witness E input s
      | Some DiffVersions \<Rightarrow> handle_diff E ctx input s
      | Some ListPeers \<Rightarrow> handle_list_peers E s
      | Some SetTrigger \<Rightarrow> handle_set_trigger E party input s
      | Some UnsetTrigger \<Rightarrow> handle_unset_trigger E party input s
      | Some PutObjectWithoutKey \<Rightarrow> handle_put_without_key E ctx input s
      | Some AddToObject \<Rightarrow> handle_put_or_add E ctx AddToObject input s
      | Some PutObject \<Rightarrow> handle_put_or_add E ctx PutObject input s
      | Some RemoveObject \<Rightarrow> handle_remove E ctx input s
      | Some GetObjectHistory \<Rightarrow> handle_history E ctx input s
      | Some HasObject \<Rightarrow> handle_request_has_object E input s
      | Some CheckObject \<Rightarrow> handle_request_check_object E ctx input s
      | Some GetObject \<Rightarrow> handle_request_get_object E ctx input False s
      | Some GetObjectWithWitness \<Rightarrow> handle_request_get_object E ctx input True s
      | Some CountObjects \<Rightarrow> handle_count E ctx input s
      | Some CreateIndex \<Rightarrow> handle_create_index E input s
      | Some DropIndex \<Rightarrow> handle_drop_index E input s
      | Some Clear \<Rightarrow> handle_clear E ctx input s
      | Some FindObjects \<Rightarrow> handle_find E ctx input s
      | Some TransactionAbort \<Rightarrow> handle_transaction_abort E input s
      | Some TransactionPrepare \<Rightarrow> handle_transaction_prepare E input s
      | Some TransactionCommit \<Rightarrow> handle_transaction_commit E input s
      | Some ExecuteTransaction \<Rightarrow> handle_execute_transaction E ctx input s
      | Some OrderEvents \<Rightarrow> handle_order_events E input s
      | Some TellPeerType \<Rightarrow> Some (Inl (Fatal ''null pointer''))
      | _ \<Rightarrow> Some (Inr (to_bytes (bs_bool (ee_bits E)) False, s)))"

text \<open>The triggers a downstream server keeps for its clients; it registers once for a collection with its upstream server.\<close>

definition upstream_request :: "('d, 'z) enclave_env_scheme \<Rightarrow> OperationType \<Rightarrow> string \<Rightarrow> 'd enclave \<Rightarrow> u8 list" where
  "upstream_request E op_type collection s =
     put_mtype (ee_bits E) OperationRequest @ to_bytes (bs_u32 (ee_bits E)) 0 @ to_bytes (bs_u32 (ee_bits E)) (en_upstream_op s) @
     to_bytes (bs_u8 (ee_bits E)) (enum_number operation_types op_type) @ to_bytes (bs_string (ee_bits E)) collection"

definition next_upstream_op :: "'d enclave \<Rightarrow> 'd enclave" where
  "next_upstream_op s = s\<lparr>en_upstream_op := en_upstream_op s + 1\<rparr>"

definition enclave_set_trigger ::
  "('d, 'z) enclave_env_scheme \<Rightarrow> string \<Rightarrow> remote_party_id \<Rightarrow> 'd enclave \<Rightarrow> (bool \<times> 'd enclave) result" where
  "enclave_set_trigger E collection party s =
     (case map_of (en_triggers s) collection of
        Some parties \<Rightarrow> Inr (True, s\<lparr>en_triggers := AList.update collection (List.insert party parties) (en_triggers s)\<rparr>)
      | None \<Rightarrow>
          (case ee_upstream E (upstream_request E SetTrigger collection s) of
             None \<Rightarrow> Inr (False, s)
           | Some resp \<Rightarrow>
               rbind (receive (bs_bool (ee_bits E)) resp) (\<lambda>(ok, rest).
                 let s' = next_upstream_op s
                 in if \<not> ok then Inr (False, s')
                    else Inr (True, s'\<lparr>en_triggers := AList.update collection [party] (en_triggers s')\<rparr>))))"

definition get_triggers :: "string \<Rightarrow> 'd enclave \<Rightarrow> remote_party_id list" where
  "get_triggers collection s = (case map_of (en_triggers s) collection of None \<Rightarrow> [] | Some parties \<Rightarrow> parties)"

definition enclave_unset_trigger ::
  "('d, 'z) enclave_env_scheme \<Rightarrow> string \<Rightarrow> remote_party_id \<Rightarrow> 'd enclave \<Rightarrow> (bool \<times> 'd enclave) result" where
  "enclave_unset_trigger E collection party s =
     (case map_of (en_triggers s) collection of
        None \<Rightarrow> Inr (False, s)
      | Some parties \<Rightarrow>
          if party \<notin> set parties then Inr (False, s)
          else let parties' = removeAll party parties;
                   s' = s\<lparr>en_triggers := AList.update collection parties' (en_triggers s)\<rparr>
               in if parties' \<noteq> [] then Inr (True, s')
                  else case ee_upstream E (upstream_request E UnsetTrigger collection s) of
                         None \<Rightarrow> Inr (False, s')
                       | Some resp \<Rightarrow>
                           rbind (receive (bs_bool (ee_bits E)) resp) (\<lambda>(ok, rest).
                             Inr (ok, next_upstream_op (s'\<lparr>en_triggers := AList.delete collection (en_triggers s')\<rparr>))))"

text \<open>Requests that a downstream server passes on; \<open>message\<close> is the whole request as it came from the client.\<close>

definition forwarded :: "OperationType \<Rightarrow> bool" where
  "forwarded op_type = (op_type \<in> {GetStatistics, NOP, DiffVersions, AddToObject, PutObject, PutObjectWithoutKey, CreateIndex, CountObjects,
     DropIndex, RemoveObject, Clear, GetObjectHistory, FindObjects, ExecuteTransaction, OrderEvents})"

definition forward_request :: "('d, 'z) enclave_env_scheme \<Rightarrow> u8 list \<Rightarrow> 'd enclave \<Rightarrow> u8 list" where
  "forward_request E message s =
     put_mtype (ee_bits E) ForwardedOperationRequest @ to_bytes (bs_u32 (ee_bits E)) 0 @ to_bytes (bs_u32 (ee_bits E)) (en_upstream_op s) @
     to_bytes (bs_nested (ee_bits E)) message"

text \<open>The result says whether \<open>output\<close> replaces what was written before (\<open>True\<close>) or is added to it.\<close>

definition handle_request_downstream_mode ::
  "('d, 'z) enclave_env_scheme \<Rightarrow> remote_party_id \<Rightarrow> op_context \<Rightarrow> OperationType option \<Rightarrow> u8 list \<Rightarrow> u8 list \<Rightarrow> 'd enclave \<Rightarrow>
     (bool \<times> u8 list \<times> 'd enclave) result option" where
  "handle_request_downstream_mode E party ctx op_type message input s =
     (let added = (\<lambda>r. pbind r (\<lambda>(out, s'). Some (Inr (False, out, s'))))
      in case op_type of
           Some GetObject \<Rightarrow> added (handle_request_get_object E ctx input False s)
         | Some HasObject \<Rightarrow> added (handle_request_has_object E input s)
         | Some GetObjectWithWitness \<Rightarrow> added (handle_request_get_object E ctx input True s)
         | Some SetTrigger \<Rightarrow>
             read_then (bs_string (ee_bits E)) input (\<lambda>collection input1.
               pbind (Some (enclave_set_trigger E collection party s)) (\<lambda>(res, s').
                 Some (Inr (False, to_bytes (bs_bool (ee_bits E)) res, s'))))
         | Some UnsetTrigger \<Rightarrow>
             read_then (bs_string (ee_bits E)) input (\<lambda>collection input1.
               pbind (Some (enclave_unset_trigger E collection party s)) (\<lambda>(res, s').
                 Some (Inr (False, to_bytes (bs_bool (ee_bits E)) res, s'))))
         | Some t \<Rightarrow>
             if forwarded t
             then (case ee_upstream E (forward_request E message s) of
                     None \<Rightarrow> Some (Inr (False, [], s))
                   | Some resp \<Rightarrow>
                       read_then (bs_nested (ee_bits E)) resp (\<lambda>out rest. Some (Inr (True, out, next_upstream_op s))))
             else Some (Inr (False, to_bytes (bs_bool (ee_bits E)) False, s))
         | None \<Rightarrow> Some (Inr (False, to_bytes (bs_bool (ee_bits E)) False, s)))"

section \<open>Programs\<close>

definition response_header :: "('d, 'y) bitstream_lib_scheme \<Rightarrow> taskid_t \<Rightarrow> u32 \<Rightarrow> u8 list" where
  "response_header B task_id op_id = put_mtype B OperationResponse @ to_bytes (bs_u32 B) task_id @ to_bytes (bs_u32 B) op_id"

definition POLICY_REJECTED :: u8 where "POLICY_REJECTED = 3"

text \<open>A program runs in a thread of its own: the result is the messages sent to the client.\<close>

definition handle_call_request ::
  "('d, 'z) enclave_env_scheme \<Rightarrow> op_context \<Rightarrow> taskid_t \<Rightarrow> u32 \<Rightarrow> u8 list \<Rightarrow> 'd enclave \<Rightarrow> (u8 list list \<times> 'd enclave) result option" where
  "handle_call_request E ctx task_id op_id input s =
     read_then (bs_string (ee_bits E)) input (\<lambda>collection input1.
     read_then (bs_string (ee_bits E)) input1 (\<lambda>key input2.
     read_then (bs_string (ee_bits E)) input2 (\<lambda>path input3.
     read_then (bs_strings (ee_bits E)) input3 (\<lambda>args input4.
     read_then (bs_u64 (ee_bits E)) input4 (\<lambda>tx_root input5.
     read_then (bs_u32 (ee_bits E)) input5 (\<lambda>tx_id input6.
     pbind (prepare_call E ctx collection key path (ledger_of s)) (\<lambda>data.
       if data = [] then Some (Inr ([response_header (ee_bits E) task_id op_id @ to_bytes (bs_u8 (ee_bits E)) POLICY_REJECTED], s))
       else ee_run E data args (collection, key) (tx_root, tx_id) (task_id, op_id) s)))))))"

definition handle_execute_request ::
  "('d, 'z) enclave_env_scheme \<Rightarrow> taskid_t \<Rightarrow> u32 \<Rightarrow> u8 list \<Rightarrow> 'd enclave \<Rightarrow> (u8 list list \<times> 'd enclave) result option" where
  "handle_execute_request E task_id op_id input s =
     read_then (bs_document (ee_bits E)) input (\<lambda>binary input1.
     read_then (bs_u32 (ee_bits E)) input1 (\<lambda>num_args input2.
       case js_binary E binary of
         None \<Rightarrow> Some (Inr ([], s))
       | Some program \<Rightarrow>
           pbind (Some (read_times (unat num_args) (receive (bs_string (ee_bits E))) input2)) (\<lambda>(args, input3).
             ee_run E program args ([], []) (0, 0) (task_id, op_id) s)))"

text \<open>A request: the messages that are sent back.\<close>

definition handle_op_request ::
  "('d, 'z) enclave_env_scheme \<Rightarrow> remote_party_id \<Rightarrow> op_context \<Rightarrow> u8 list \<Rightarrow> u8 list \<Rightarrow> 'd enclave \<Rightarrow>
     (u8 list list \<times> 'd enclave) result option" where
  "handle_op_request E party ctx message input s =
     read_then (bs_u32 (ee_bits E)) input (\<lambda>task_id input1.
     read_then (bs_u32 (ee_bits E)) input1 (\<lambda>op_id input2.
     read_then (bs_u8 (ee_bits E)) input2 (\<lambda>number input3.
       let op_type = enum_value operation_types number; header = response_header (ee_bits E) task_id op_id
       in if en_downstream s
          then pbind (handle_request_downstream_mode E party ctx op_type message input3 s) (\<lambda>(replace, out, s').
                 Some (Inr ([if replace then out else header @ out], s')))
          else if op_type = Some CallProgram then handle_call_request E ctx task_id op_id input3 s
          else if op_type = Some ExecuteCode then handle_execute_request E task_id op_id input3 s
          else pbind (handle_request_upstream_mode E party ctx op_type input3 s) (\<lambda>(out, s'). Some (Inr ([header @ out], s'))))))"

end
