(* ===== verification/Key_Exchange.thy ===== *)
theory Key_Exchange
  imports Wire
begin

text \<open>
  The verifying side of the SGX key exchange, which the client library (\<open>ClientImpl::process_message_one\<close>,
  \<open>process_message_three\<close>) and a server (\<open>Peer::handle_attestation_message_one\<close>, \<open>_three\<close>) both contain, and the derivation of
  the session keys (\<open>key_derivation.h\<close>). The cryptographic primitives and the layout of the SGX messages are the
  parameter \<open>attest_lib\<close>. The client only writes to its log when a check of message three fails; a server
  stops there.
\<close>

section \<open>Keys\<close>

text \<open>
  A new key pair, the shared secret of a private and a public key, signatures, MACs and hashes, the public key in message one, the part of message
  two that is authenticated, the fields of message three, and the content of the platform information, which is never set.
\<close>

record attest_lib =
  al_key_pair :: "(u8 list \<times> u8 list) option"
  al_shared :: "u8 list \<Rightarrow> u8 list \<Rightarrow> u8 list option"
  al_sign :: "u8 list \<Rightarrow> u8 list \<Rightarrow> u8 list option"
  al_cmac :: "u8 list \<Rightarrow> u8 list \<Rightarrow> u8 list option"
  al_sha :: "u8 list \<Rightarrow> u8 list option"
  al_msg1_size :: nat
  al_msg1_g_a :: "u8 list \<Rightarrow> u8 list"
  al_msg2 :: "u8 list \<Rightarrow> u8 list \<Rightarrow> u8 list"
  al_msg3_g_a :: "u8 list \<Rightarrow> u8 list"
  al_msg3_mac :: "u8 list \<Rightarrow> u8 list"
  al_msg3_report :: "u8 list \<Rightarrow> u8 list"
  al_info_blob :: "u8 list"

datatype key_type = SMK | SK | MK | VK

definition key_label :: "key_type \<Rightarrow> u8 list" where
  "key_label t = map (\<lambda>c. word_of_nat (of_char c)) (case t of SMK \<Rightarrow> ''SMK'' | SK \<Rightarrow> ''SK'' | MK \<Rightarrow> ''MK'' | VK \<Rightarrow> ''VK'')"

definition MAC_KEY_SIZE :: nat where "MAC_KEY_SIZE = 16"

definition derivation_buffer :: "u8 list \<Rightarrow> u8 list" where
  "derivation_buffer label = [0x01] @ label @ [0x00] @ [0x80, 0x00]"

definition derive_key :: "('y) attest_lib_scheme \<Rightarrow> u8 list \<Rightarrow> key_type \<Rightarrow> u8 list option" where
  "derive_key A shared_key key_id =
     (case al_cmac A (replicate MAC_KEY_SIZE 0) shared_key of
        None \<Rightarrow> None
      | Some key_derive_key \<Rightarrow> al_cmac A key_derive_key (derivation_buffer (key_label key_id)))"

record dh_keys =
  dk_other_public :: "u8 list"
  dk_public :: "u8 list"
  dk_private :: "u8 list"
  dk_smk :: "u8 list"
  dk_mk :: "u8 list"
  dk_sk :: "u8 list"
  dk_vk :: "u8 list"

text \<open>The four keys in the order they are derived; a failure keeps those that were.\<close>

definition derive_keys :: "('y) attest_lib_scheme \<Rightarrow> u8 list \<Rightarrow> dh_keys \<Rightarrow> bool \<times> dh_keys" where
  "derive_keys A dh k =
     (case derive_key A dh SMK of None \<Rightarrow> (False, k) | Some smk \<Rightarrow>
      let k1 = k\<lparr>dk_smk := smk\<rparr> in
      case derive_key A dh MK of None \<Rightarrow> (False, k1) | Some mk \<Rightarrow>
      let k2 = k1\<lparr>dk_mk := mk\<rparr> in
      case derive_key A dh SK of None \<Rightarrow> (False, k2) | Some sk \<Rightarrow>
      let k3 = k2\<lparr>dk_sk := sk\<rparr> in
      case derive_key A dh VK of None \<Rightarrow> (False, k3) | Some vk \<Rightarrow> (True, k3\<lparr>dk_vk := vk\<rparr>))"

section \<open>Message one\<close>

text \<open>
  The message a server answers with, if any. Of the two public keys only as many bytes are signed as the array has elements.
\<close>

definition peer_message_one :: "('y) attest_lib_scheme \<Rightarrow> u8 list \<Rightarrow> u8 list \<Rightarrow> dh_keys \<Rightarrow> u8 list option \<times> dh_keys" where
  "peer_message_one A private_key msg1 k =
     (let g_a = al_msg1_g_a A msg1; k1 = k\<lparr>dk_other_public := g_a\<rparr> in
      case al_key_pair A of None \<Rightarrow> (None, k1) | Some (priv, pub) \<Rightarrow>
      let k2 = k1\<lparr>dk_private := priv, dk_public := pub\<rparr> in
      case al_shared A priv g_a of None \<Rightarrow> (None, k2) | Some dh \<Rightarrow>
      case derive_keys A dh k2 of (ok, k3) \<Rightarrow>
      if \<not> ok then (None, k3) else
      case al_sign A private_key (take 2 (pub @ g_a)) of None \<Rightarrow> (None, k3) | Some sign_gb_ga \<Rightarrow>
      let msg2 = al_msg2 A pub sign_gb_ga in
      case al_cmac A (dk_smk k3) msg2 of None \<Rightarrow> (None, k3) | Some mac \<Rightarrow> (Some (msg2 @ mac), k3))"

text \<open>The client ends the process when a call fails. Without a secure server it derives no keys.\<close>

definition client_message_one :: "('y) attest_lib_scheme \<Rightarrow> bool \<Rightarrow> u8 list \<Rightarrow> u8 list \<Rightarrow> dh_keys \<Rightarrow> (u8 list \<times> dh_keys) result" where
  "client_message_one A unsafe private_key msg1 k =
     (let g_a = al_msg1_g_a A msg1; k1 = k\<lparr>dk_other_public := g_a\<rparr> in
      case al_key_pair A of None \<Rightarrow> Inl (Fatal ''cannot generate key pair'') | Some (priv, pub) \<Rightarrow>
      let k2 = k1\<lparr>dk_private := priv, dk_public := pub\<rparr> in
      rbind (if unsafe then Inr k2
             else case al_shared A priv g_a of None \<Rightarrow> Inl (Fatal ''Failed to compute shared key'')
                  | Some dh \<Rightarrow> (case derive_keys A dh k2 of (ok, k3) \<Rightarrow> if ok then Inr k3 else Inl (Fatal ''Failed to derive key''))) (\<lambda>k3.
      case al_sign A private_key (pub @ g_a) of None \<Rightarrow> Inl (Fatal ''failed to sign ga_gb'') | Some sign_gb_ga \<Rightarrow>
      let msg2 = al_msg2 A (if unsafe then [] else pub) sign_gb_ga in
      case al_cmac A (dk_smk k3) msg2 of None \<Rightarrow> Inl (Fatal ''cmac fail in'') | Some mac \<Rightarrow> Inr (msg2 @ mac, k3)))"

section \<open>Message three\<close>

text \<open>The hash that the quote must contain; its second half is zero.\<close>

definition expected_report :: "('y) attest_lib_scheme \<Rightarrow> dh_keys \<Rightarrow> u8 list option" where
  "expected_report A k = map_option (\<lambda>h. h @ replicate 32 0) (al_sha A (dk_other_public k @ dk_public k @ dk_vk k))"

text \<open>A message shorter than its MAC has a negative size after it, which wraps around: memory after the message is read.\<close>

definition peer_message_three :: "('y) attest_lib_scheme \<Rightarrow> dh_keys \<Rightarrow> u8 list \<Rightarrow> u8 list option result" where
  "peer_message_three A k msg3 =
     (if al_msg3_g_a A msg3 \<noteq> dk_other_public k then Inr None
      else if length msg3 < MAC_SIZE then Inl (Fatal ''out of bounds'')
      else case al_cmac A (dk_smk k) (drop MAC_SIZE msg3) of None \<Rightarrow> Inr None | Some mac \<Rightarrow>
      if al_msg3_mac A msg3 \<noteq> mac then Inr None
      else case expected_report A k of None \<Rightarrow> Inr None | Some report_data \<Rightarrow>
      if al_msg3_report A msg3 \<noteq> report_data then Inr None
      else case al_cmac A (dk_mk k) (al_info_blob A) of None \<Rightarrow> Inr None | Some blob_mac \<Rightarrow> Inr (Some (al_info_blob A @ blob_mac)))"

text \<open>The client: the errors it logs, and the rest of the message it answers with.\<close>

definition log_if :: "bool \<Rightarrow> string \<Rightarrow> string list" where
  "log_if b msg = (if b then [msg] else [])"

definition client_message_three :: "('y) attest_lib_scheme \<Rightarrow> dh_keys \<Rightarrow> u8 list \<Rightarrow> (string list \<times> u8 list) result" where
  "client_message_three A k msg3 =
     (if length msg3 < MAC_SIZE then Inl (Fatal ''out of bounds'')
      else let mac = al_cmac A (dk_smk k) (drop MAC_SIZE msg3); blob_mac = al_cmac A (dk_mk k) (al_info_blob A) in
      case expected_report A k of None \<Rightarrow> Inl (RuntimeError ''ias verification failed'') | Some report_data \<Rightarrow>
      Inr (log_if (al_msg3_g_a A msg3 \<noteq> dk_other_public k) ''Error, g_a is not same'' @
           log_if (mac = None) ''Error, cmac fail'' @
           log_if (al_msg3_mac A msg3 \<noteq> (case mac of None \<Rightarrow> replicate MAC_SIZE 0 | Some m \<Rightarrow> m)) ''Error, verify cmac fail'' @
           log_if (al_msg3_report A msg3 \<noteq> report_data) ''Compare hash failed'' @
           log_if (blob_mac = None) ''cmac fail in [%s].'',
           al_info_blob A @ (case blob_mac of None \<Rightarrow> replicate MAC_SIZE 0 | Some m \<Rightarrow> m)))"

text \<open>Every derived key is a MAC of a different text.\<close>

lemma derivation_buffer_inject: "derivation_buffer (key_label t) = derivation_buffer (key_label t') \<longleftrightarrow> t = t'"
  by (cases t; cases t') (simp_all add: derivation_buffer_def key_label_def)

lemma derive_keys_ok:
  assumes "derive_keys A dh k = (True, k')"
  shows "derive_key A dh SMK = Some (dk_smk k')" "derive_key A dh MK = Some (dk_mk k')" "derive_key A dh SK = Some (dk_sk k')"
    "derive_key A dh VK = Some (dk_vk k')" "dk_public k' = dk_public k" "dk_other_public k' = dk_other_public k"
  using assms by (auto simp: derive_keys_def Let_def split: option.splits)

end
