(* ===== verification/Client_Library.thy ===== *)
theory Client_Library
  imports Key_Exchange
begin

text \<open>
  The client library (\<open>client/ClientImpl.cpp\<close>, \<open>CollectionImpl.cpp\<close>, \<open>TransactionImpl.cpp\<close>, \<open>TransactionCollectionImpl.cpp\<close>,
  \<open>op_info.h\<close>, \<open>Pending*Response.h\<close>): the connection with its handshake, the table of answers, and the calls an application
  makes. A call is the type of the operation, the bytes that follow the header of the request, and the parser of the
  answer; the part of the method that sends and the part that waits are separate steps, since other messages may arrive between them.
  Sockets, threads and files are not modelled: what is sent is an action, and waiting for an answer that is not there is \<open>None\<close>.
\<close>

section \<open>State\<close>

datatype ClientState = WaitingForGroupId | WaitingForMsg1 | WaitingForMsg3 | Connected | Failure | Closed

record 'f client_impl =
  cl_name :: string
  cl_server_name :: string
  cl_unsafe_mode :: bool
  cl_state :: ClientState
  cl_socket_open :: bool
  cl_error_str :: string
  cl_db_groupid :: u32
  cl_downstream_mode :: bool
  cl_client_private_key :: "u8 list"
  cl_client_public_key :: "u8 list"
  cl_server_public_key :: "u8 list"
  cl_upstream_public_key :: "u8 list"
  cl_keys :: dh_keys
  cl_next_operation_id :: u32
  cl_responses :: "(u32 \<times> u8 list) list"
  cl_triggers :: "(string \<times> 'f) list"

text \<open>The channel, the key exchange, the compiler of programs, and the reader of the values they return.\<close>

record ('d, 'v) client_env = "'d channel" +
  ce_attest :: attest_lib
  ce_compile :: "string \<Rightarrow> 'd"
  ce_read_value :: "u8 list \<Rightarrow> 'v result"

datatype 'f client_action = SendBytes "u8 list" | RunTrigger 'f | LogError string

definition new_client :: "string \<Rightarrow> string \<Rightarrow> bool \<Rightarrow> u8 list \<times> u8 list \<Rightarrow> dh_keys \<Rightarrow> 'f client_impl" where
  "new_client name server_name unsafe key_pair memory =
     \<lparr>cl_name = name, cl_server_name = server_name, cl_unsafe_mode = unsafe, cl_state = WaitingForGroupId, cl_socket_open = True, cl_error_str = [],
      cl_db_groupid = 0, cl_downstream_mode = False, cl_client_private_key = fst key_pair, cl_client_public_key = snd key_pair,
      cl_server_public_key = [], cl_upstream_public_key = [], cl_keys = memory, cl_next_operation_id = 1, cl_responses = [], cl_triggers = []\<rparr>"

definition client_close :: "'f client_impl \<Rightarrow> 'f client_impl" where
  "client_close c = (if cl_socket_open c then c\<lparr>cl_state := Closed, cl_socket_open := False\<rparr> else c)"

text \<open>What \<open>setup\<close> does once it stops waiting; \<open>None\<close> while it waits.\<close>

definition client_setup :: "'f client_impl \<Rightarrow> unit result option" where
  "client_setup c =
     (if cl_state c \<noteq> Connected \<and> cl_state c \<noteq> Failure \<and> cl_socket_open c then None
      else if \<not> cl_socket_open c \<or> cl_state c = Failure then Some (Inl (RuntimeError (''Failed to setup server connection: '' @ cl_error_str c)))
      else Some (Inr ()))"

definition get_server_cert :: "'f client_impl \<Rightarrow> u8 list" where
  "get_server_cert c = (if cl_downstream_mode c then cl_upstream_public_key c else cl_server_public_key c)"

definition client_on_disconnect :: "'f client_impl \<Rightarrow> unit result" where
  "client_on_disconnect c =
     (if cl_state c \<noteq> Failure \<and> cl_state c \<noteq> Closed then Inl (Fatal ''Lost connection to server'') else Inr ())"

section \<open>Frames\<close>

definition client_encrypt :: "('d, 'v, 'z) client_env_scheme \<Rightarrow> 'f client_impl \<Rightarrow> u8 list \<Rightarrow> u8 list result" where
  "client_encrypt C c data =
     (let len = word_of_nat (length data) :: u32; head = put_etype (ch_bits C) Encrypted @ to_bytes (bs_u32 (ch_bits C)) len
      in if cl_unsafe_mode c then Inr (head @ data)
         else case gcm_encrypt (ch_gcm C) (dk_sk (cl_keys c)) aes_gcm_iv (take (unat len) data) of
                None \<Rightarrow> Inl (Fatal ''Encryption failed!'')
              | Some (cdata, tag) \<Rightarrow> Inr (head @ cdata @ tag))"

definition read_raw :: "('d, 'y) bitstream_lib_scheme \<Rightarrow> nat \<Rightarrow> u8 list \<Rightarrow> (u8 list \<times> u8 list) result" where
  "read_raw B n input = (case bs_raw B n input of None \<Rightarrow> Inl (RuntimeError ''bitstream'') | Some r \<Rightarrow> Inr r)"

definition client_decrypt :: "('d, 'v, 'z) client_env_scheme \<Rightarrow> 'f client_impl \<Rightarrow> u8 list \<Rightarrow> u8 list result" where
  "client_decrypt C c data =
     (if cl_state c \<noteq> Connected then Inr data
      else rbind (receive (bs_u8 (ch_bits C)) data) (\<lambda>(encryption, input1).
           rbind (receive (bs_u32 (ch_bits C)) input1) (\<lambda>(payload_len, input2).
             if cl_unsafe_mode c then Inr (take (unat payload_len) input2)
             else if enum_value encryption_types encryption \<noteq> Some Encrypted then Inl (Fatal ''Failed to decrypt message: not encrypted'')
             else rbind (read_raw (ch_bits C) (unat payload_len) input2) (\<lambda>(payload, input3).
                  rbind (read_raw (ch_bits C) MAC_SIZE input3) (\<lambda>(tag, input4).
                    case gcm_decrypt (ch_gcm C) (dk_sk (cl_keys c)) aes_gcm_iv payload tag of
                      None \<Rightarrow> Inl (Fatal ''Could not decode server message'')
                    | Some out \<Rightarrow> Inr out)))))"

definition send_encrypted :: "('d, 'v, 'z) client_env_scheme \<Rightarrow> 'f client_impl \<Rightarrow> u8 list \<Rightarrow> 'f client_action result" where
  "send_encrypted C c msg = rbind (client_encrypt C c msg) (\<lambda>frame. Inr (SendBytes frame))"

definition send_plain :: "('d, 'v, 'z) client_env_scheme \<Rightarrow> u8 list \<Rightarrow> 'f client_action" where
  "send_plain C msg = SendBytes (put_etype (ch_bits C) PlainText @ msg)"

section \<open>Attestation\<close>

type_synonym 'f client_outcome = "('f client_action list \<times> 'f client_impl) result"

definition tell_group_id :: "('d, 'v, 'z) client_env_scheme \<Rightarrow> u8 list \<Rightarrow> 'f client_impl \<Rightarrow> 'f client_outcome" where
  "tell_group_id C input c =
     (if cl_state c \<noteq> WaitingForGroupId then Inl (RuntimeError ''Client and server state mismatch!'')
      else rbind (receive (bs_u32 (ch_bits C)) input) (\<lambda>(groupid, input1).
           rbind (receive (bs_string (ch_bits C)) input1) (\<lambda>(name, input2).
           rbind (read_raw (ch_bits C) 64 input2) (\<lambda>(server_key, input3).
           rbind (receive (bs_bool (ch_bits C)) input3) (\<lambda>(downstream, input4).
           rbind (if downstream then read_raw (ch_bits C) 64 input4 else Inr (cl_upstream_public_key c, input4)) (\<lambda>(upstream_key, input5).
             let c' = c\<lparr>cl_db_groupid := groupid, cl_server_public_key := server_key, cl_downstream_mode := downstream, cl_upstream_public_key := upstream_key\<rparr>
             in if name \<noteq> cl_server_name c
                then Inr ([], c'\<lparr>cl_socket_open := False, cl_state := Failure, cl_error_str := ''Server names don't match. Cowardly refusing to connect.''\<rparr>)
                else Inr ([SendBytes (put_etype (ch_bits C) Attestation @ put_mtype (ch_bits C) GroupIdResponse @ to_bytes (bs_bool (ch_bits C)) True @
                             to_bytes (bs_string (ch_bits C)) (cl_name c) @ cl_client_public_key c)],
                          c'\<lparr>cl_state := WaitingForMsg1\<rparr>)))))))"

definition process_message_one :: "('d, 'v, 'z) client_env_scheme \<Rightarrow> u8 list \<Rightarrow> 'f client_impl \<Rightarrow> 'f client_outcome" where
  "process_message_one C input c =
     (if cl_state c \<noteq> WaitingForMsg1 then Inl (RuntimeError ''Client and server state mismatch!'')
      else rbind (read_raw (ch_bits C) (al_msg1_size (ce_attest C)) input) (\<lambda>(msg1, rest).
           rbind (client_message_one (ce_attest C) (cl_unsafe_mode c) (cl_client_private_key c) msg1 (cl_keys c)) (\<lambda>(msg2, keys).
             Inr ([SendBytes (put_etype (ch_bits C) Attestation @ put_mtype (ch_bits C) AttestationMessage2 @
                     to_bytes (bs_u32 (ch_bits C)) (word_of_nat (length msg2)) @ msg2)],
                  c\<lparr>cl_keys := keys, cl_state := WaitingForMsg3\<rparr>))))"

definition process_message_three :: "('d, 'v, 'z) client_env_scheme \<Rightarrow> u8 list \<Rightarrow> 'f client_impl \<Rightarrow> 'f client_outcome" where
  "process_message_three C input c =
     (if cl_state c \<noteq> WaitingForMsg3 then Inl (RuntimeError ''Client and server state mismatch!'')
      else let answer = put_etype (ch_bits C) Attestation @ put_mtype (ch_bits C) AttestationResult @ to_bytes (bs_i32 (ch_bits C)) 0 @ to_bytes (bs_i32 (ch_bits C)) 0
           in rbind (receive (bs_u32 (ch_bits C)) input) (\<lambda>(msg3_size, input1).
                if cl_unsafe_mode c then Inr ([SendBytes answer], c\<lparr>cl_state := Connected\<rparr>)
                else rbind (read_raw (ch_bits C) (unat msg3_size) input1) (\<lambda>(msg3, input2).
                     rbind (client_message_three (ce_attest C) (cl_keys c) msg3) (\<lambda>(logs, blob).
                       Inr (map LogError logs @ [SendBytes (answer @ blob)], c\<lparr>cl_state := Connected\<rparr>)))))"

definition handle_attestation_message :: "('d, 'v, 'z) client_env_scheme \<Rightarrow> u8 list \<Rightarrow> 'f client_impl \<Rightarrow> 'f client_outcome" where
  "handle_attestation_message C input c =
     rbind (receive (bs_u8 (ch_bits C)) input) (\<lambda>(number, input1).
       case enum_value message_types number of
         Some TellGroupId \<Rightarrow> tell_group_id C input1 c
       | Some AttestationMessage1 \<Rightarrow> process_message_one C input1 c
       | Some AttestationMessage3 \<Rightarrow> process_message_three C input1 c
       | _ \<Rightarrow> Inr ([LogError ''Received unknown message type''], c))"

section \<open>Messages\<close>

text \<open>\<open>emplace\<close> keeps an answer that is already there.\<close>

definition handle_operation_response :: "('d, 'v, 'z) client_env_scheme \<Rightarrow> u8 list \<Rightarrow> 'f client_impl \<Rightarrow> 'f client_outcome" where
  "handle_operation_response C input c =
     rbind (receive (bs_u32 (ch_bits C)) input) (\<lambda>(task_id, input1).
     rbind (receive (bs_u32 (ch_bits C)) input1) (\<lambda>(op_id, input2).
       Inr ([], if map_of (cl_responses c) op_id = None then c\<lparr>cl_responses := (op_id, input2) # cl_responses c\<rparr> else c)))"

definition client_handle :: "('d, 'v, 'z) client_env_scheme \<Rightarrow> u8 list \<Rightarrow> 'f client_impl \<Rightarrow> 'f client_outcome" where
  "client_handle C input c =
     (if cl_state c \<noteq> Connected then Inl (Fatal ''Not connected yet'')
      else rbind (receive (bs_u8 (ch_bits C)) input) (\<lambda>(number, input1).
             case enum_value message_types number of
               Some OperationResponse \<Rightarrow> handle_operation_response C input1 c
             | Some NotifyTrigger \<Rightarrow>
                 rbind (receive (bs_string (ch_bits C)) input1) (\<lambda>(collection, input2).
                   case map_of (cl_triggers c) collection of None \<Rightarrow> Inr ([], c) | Some func \<Rightarrow> Inr ([RunTrigger func], c))
             | _ \<Rightarrow> Inl (RuntimeError ''Failed to handle message in connected state'')))"

definition on_network_message :: "('d, 'v, 'z) client_env_scheme \<Rightarrow> u8 list \<Rightarrow> 'f client_impl \<Rightarrow> 'f client_outcome" where
  "on_network_message C msg c =
     (if length msg < 2 then Inr ([LogError ''Received too small message!''], c)
      else rbind (receive (bs_u8 (ch_bits C)) msg) (\<lambda>(encryption, peeker).
             case enum_value encryption_types encryption of
               Some Attestation \<Rightarrow> handle_attestation_message C peeker c
             | Some Encrypted \<Rightarrow> rbind (client_decrypt C c msg) (\<lambda>input. client_handle C input c)
             | Some PlainText \<Rightarrow> client_handle C peeker c
             | None \<Rightarrow> Inr ([LogError ''Unknown encryption header field''], c)))"

definition receive_response :: "u32 \<Rightarrow> 'f client_impl \<Rightarrow> (u8 list \<times> 'f client_impl) option" where
  "receive_response msg_id c =
     (case map_of (cl_responses c) msg_id of
        None \<Rightarrow> None
      | Some resp \<Rightarrow> Some (resp, c\<lparr>cl_responses := AList.delete msg_id (cl_responses c)\<rparr>))"

definition client_set_trigger :: "string \<Rightarrow> 'f \<Rightarrow> 'f client_impl \<Rightarrow> 'f client_impl" where
  "client_set_trigger collection func c =
     (if map_of (cl_triggers c) collection = None then c\<lparr>cl_triggers := (collection, func) # cl_triggers c\<rparr> else c)"

definition client_unset_trigger :: "string \<Rightarrow> 'f client_impl \<Rightarrow> 'f client_impl result" where
  "client_unset_trigger collection c =
     (if map_of (cl_triggers c) collection = None then Inl (RuntimeError ''no such trigger'')
      else Inr (c\<lparr>cl_triggers := AList.delete collection (cl_triggers c)\<rparr>))"

section \<open>Calls\<close>

definition get_next_operation_id :: "'f client_impl \<Rightarrow> u32 \<times> 'f client_impl" where
  "get_next_operation_id c = (cl_next_operation_id c, c\<lparr>cl_next_operation_id := cl_next_operation_id c + 1\<rparr>)"

definition generate_op_request :: "('d, 'y) bitstream_lib_scheme \<Rightarrow> u32 \<Rightarrow> OperationType \<Rightarrow> u8 list" where
  "generate_op_request B op_id op_type =
     put_mtype B OperationRequest @ to_bytes (bs_u32 B) 0 @ to_bytes (bs_u32 B) op_id @ to_bytes (bs_u8 B) (enum_number operation_types op_type)"

type_synonym 'a call = "OperationType \<times> u8 list \<times> (u8 list \<Rightarrow> 'a result)"

definition begin_call :: "('d, 'v, 'z) client_env_scheme \<Rightarrow> 'a call \<Rightarrow> 'f client_impl \<Rightarrow> (u32 \<times> 'f client_action \<times> 'f client_impl) result" where
  "begin_call C m c =
     (case m of (op_type, body, parse) \<Rightarrow>
        case get_next_operation_id c of (op_id, c') \<Rightarrow>
          rbind (send_encrypted C c' (generate_op_request (ch_bits C) op_id op_type @ body)) (\<lambda>act. Inr (op_id, act, c')))"

text \<open>The result of the method, which may be an exception, once the answer is there.\<close>

definition end_call :: "'a call \<Rightarrow> u32 \<Rightarrow> 'f client_impl \<Rightarrow> ('a result \<times> 'f client_impl) option" where
  "end_call m op_id c =
     (case m of (op_type, body, parse) \<Rightarrow>
        case receive_response op_id c of None \<Rightarrow> None | Some (resp, c') \<Rightarrow> Some (parse resp, c'))"

section \<open>Parsers of answers\<close>

definition parse_last :: "'a codec \<Rightarrow> u8 list \<Rightarrow> 'a result" where
  "parse_last cd msg = rbind (receive cd msg) (\<lambda>(x, rest). Inr x)"

definition parse_bool :: "('d, 'y) bitstream_lib_scheme \<Rightarrow> u8 list \<Rightarrow> bool result" where
  "parse_bool B = parse_last (bs_bool B)"

definition parse_order :: "('d, 'y) bitstream_lib_scheme \<Rightarrow> u8 list \<Rightarrow> OrderResult result" where
  "parse_order B = parse_last (bs_order B)"

definition parse_event_id :: "('d, 'y) bitstream_lib_scheme \<Rightarrow> u8 list \<Rightarrow> event_id_t result" where
  "parse_event_id B = parse_last (bs_event B)"

definition parse_size :: "('d, 'y) bitstream_lib_scheme \<Rightarrow> u8 list \<Rightarrow> u32 result" where
  "parse_size B = parse_last (bs_u32 B)"

definition parse_document :: "('d, 'y) bitstream_lib_scheme \<Rightarrow> u8 list \<Rightarrow> 'd result" where
  "parse_document B = parse_last (bs_document B)"

definition parse_nested :: "('d, 'y) bitstream_lib_scheme \<Rightarrow> u8 list \<Rightarrow> u8 list result" where
  "parse_nested B = parse_last (bs_nested B)"

definition parse_get :: "('d, 'y) bitstream_lib_scheme \<Rightarrow> u8 list \<Rightarrow> (event_id_t \<times> 'd option) result" where
  "parse_get B msg =
     rbind (receive (bs_event B) msg) (\<lambda>(eid, msg1).
       if is_valid eid then rbind (receive (bs_document B) msg1) (\<lambda>(d, msg2). Inr (eid, Some d)) else Inr (eid, None))"

definition parse_put_without_key :: "('d, 'y) bitstream_lib_scheme \<Rightarrow> u8 list \<Rightarrow> (event_id_t \<times> string) result" where
  "parse_put_without_key B msg =
     rbind (receive (bs_event B) msg) (\<lambda>(eid, msg1). rbind (receive (bs_string B) msg1) (\<lambda>(key, msg2). Inr (eid, key)))"

definition parse_list :: "('d, 'y) bitstream_lib_scheme \<Rightarrow> u8 list \<Rightarrow> (bool \<times> 'd list) result" where
  "parse_list B msg =
     rbind (receive (bs_bool B) msg) (\<lambda>(success, msg1).
       if \<not> success then Inr (False, [])
       else rbind (receive (bs_u32 B) msg1) (\<lambda>(num_values, msg2).
            rbind (read_times (unat num_values) (receive (bs_document B)) msg2) (\<lambda>(ds, msg3). Inr (True, ds))))"

definition read_found :: "('d, 'y) bitstream_lib_scheme \<Rightarrow> u8 list \<Rightarrow> ((string \<times> event_id_t \<times> 'd) \<times> u8 list) result" where
  "read_found B msg =
     rbind (receive (bs_string B) msg) (\<lambda>(key, msg1). rbind (receive (bs_event B) msg1) (\<lambda>(eid, msg2).
     rbind (receive (bs_document B) msg2) (\<lambda>(d, msg3). Inr ((key, eid, d), msg3))))"

definition parse_internal_find :: "('d, 'y) bitstream_lib_scheme \<Rightarrow> u8 list \<Rightarrow> (string \<times> event_id_t \<times> 'd) list result" where
  "parse_internal_find B msg =
     rbind (receive (bs_u32 B) msg) (\<lambda>(num_values, msg1). rbind (read_times (unat num_values) (read_found B) msg1) (\<lambda>(xs, msg2). Inr xs))"

definition parse_find :: "('d, 'y) bitstream_lib_scheme \<Rightarrow> u8 list \<Rightarrow> (string \<times> 'd) list result" where
  "parse_find B msg = rbind (parse_internal_find B msg) (\<lambda>xs. Inr (map (\<lambda>(key, eid, d). (key, d)) xs))"

definition parse_witness :: "('d, 'y) bitstream_lib_scheme \<Rightarrow> u8 list \<Rightarrow> witness option result" where
  "parse_witness B msg =
     rbind (receive (bs_bool B) msg) (\<lambda>(success, msg1).
       if success then rbind (get_witness B msg1) (\<lambda>(w, msg2). Inr (Some w)) else Inr None)"

datatype 'v FunctionCallResult = CallUnknown | CallSuccess 'v | ExecutionLimitReached | ProgramFailure string

definition parse_call :: "('d, 'v, 'z) client_env_scheme \<Rightarrow> u8 list \<Rightarrow> 'v FunctionCallResult result" where
  "parse_call C msg =
     rbind (receive (bs_u8 (ch_bits C)) msg) (\<lambda>(res, msg1).
       if res = 1 then rbind (ce_read_value C msg1) (\<lambda>v. Inr (CallSuccess v))
       else if res = 2 then Inr ExecutionLimitReached
       else if res = 4 then rbind (receive (bs_string (ch_bits C)) msg1) (\<lambda>(err, msg2). Inr (ProgramFailure err))
       else Inr CallUnknown)"

definition call_value :: "string \<Rightarrow> 'v FunctionCallResult \<Rightarrow> 'v result" where
  "call_value what r =
     (case r of
        CallSuccess v \<Rightarrow> Inr v
      | CallUnknown \<Rightarrow> Inl (RuntimeError (what @ ''Unknown function call result''))
      | ExecutionLimitReached \<Rightarrow> Inl (RuntimeError what)
      | ProgramFailure err \<Rightarrow> Inl (RuntimeError (what @ err)))"

section \<open>Collections\<close>

definition named :: "('d, 'y) bitstream_lib_scheme \<Rightarrow> string \<Rightarrow> string \<Rightarrow> u8 list" where
  "named B name key = to_bytes (bs_string B) name @ to_bytes (bs_string B) key"

definition c_put_and_generate_key :: "('d, 'y) bitstream_lib_scheme \<Rightarrow> string \<Rightarrow> 'd \<Rightarrow> (string \<times> event_id_t) call" where
  "c_put_and_generate_key B name doc =
     (PutObjectWithoutKey, to_bytes (bs_string B) name @ to_bytes (bs_document B) doc,
      \<lambda>msg. rbind (parse_put_without_key B msg) (\<lambda>(eid, key). if is_valid eid then Inr (key, eid) else Inl (RuntimeError ''Put failed!'')))"

definition c_remove :: "('d, 'y) bitstream_lib_scheme \<Rightarrow> string \<Rightarrow> string \<Rightarrow> event_id_t call" where
  "c_remove B name key = (RemoveObject, named B name key, parse_event_id B)"

definition c_clear :: "('d, 'y) bitstream_lib_scheme \<Rightarrow> string \<Rightarrow> bool call" where
  "c_clear B name = (Clear, to_bytes (bs_string B) name, parse_bool B)"

definition c_set_trigger :: "('d, 'y) bitstream_lib_scheme \<Rightarrow> string \<Rightarrow> 'f \<Rightarrow> 'f client_impl \<Rightarrow> bool call \<times> 'f client_impl" where
  "c_set_trigger B name lambda c = ((SetTrigger, to_bytes (bs_string B) name, parse_bool B), client_set_trigger name lambda c)"

definition c_unset_trigger :: "('d, 'y) bitstream_lib_scheme \<Rightarrow> string \<Rightarrow> 'f client_impl \<Rightarrow> (bool call \<times> 'f client_impl) result" where
  "c_unset_trigger B name c =
     rbind (client_unset_trigger name c) (\<lambda>c'. Inr ((UnsetTrigger, to_bytes (bs_string B) name, parse_bool B), c'))"

definition c_has_object :: "('d, 'y) bitstream_lib_scheme \<Rightarrow> string \<Rightarrow> string \<Rightarrow> bool call" where
  "c_has_object B name key = (HasObject, named B name key, parse_bool B)"

definition c_check :: "('d, 'y) bitstream_lib_scheme \<Rightarrow> string \<Rightarrow> string \<Rightarrow> 'd \<Rightarrow> bool call" where
  "c_check B name key predicate = (CheckObject, named B name key @ to_bytes (bs_document B) predicate, parse_bool B)"

definition failed_to_get :: "string \<Rightarrow> error" where
  "failed_to_get key = RuntimeError (''Failed to get '' @ key)"

definition c_get_with_eid :: "('d, 'y) bitstream_lib_scheme \<Rightarrow> string \<Rightarrow> string \<Rightarrow> ('d \<times> event_id_t) call" where
  "c_get_with_eid B name key =
     (GetObject, named B name key,
      \<lambda>msg. rbind (parse_get B msg) (\<lambda>(eid, d). case d of None \<Rightarrow> Inl (failed_to_get key) | Some doc \<Rightarrow> Inr (doc, eid)))"

definition c_get_with_witness :: "('d, 'y) bitstream_lib_scheme \<Rightarrow> string \<Rightarrow> string \<Rightarrow> ('d \<times> event_id_t \<times> witness) call" where
  "c_get_with_witness B name key =
     (GetObjectWithWitness, named B name key,
      \<lambda>msg. rbind (parse_nested B msg) (\<lambda>bs.
            rbind (receive (bs_event B) bs) (\<lambda>(eid, bs1).
              if \<not> is_valid eid then Inl (failed_to_get key)
              else rbind (receive (bs_document B) bs1) (\<lambda>(doc, bs2).
                   rbind (receive (bs_bool B) bs2) (\<lambda>(ok, bs3).
                     if \<not> ok then Inl (RuntimeError ''Failed to generate witness'')
                     else rbind (get_witness B bs3) (\<lambda>(w, bs4). Inr (doc, eid, w)))))))"

definition c_get_history :: "('d, 'y) bitstream_lib_scheme \<Rightarrow> string \<Rightarrow> string \<Rightarrow> 'd list call" where
  "c_get_history B name key =
     (GetObjectHistory, named B name key,
      \<lambda>msg. rbind (parse_list B msg) (\<lambda>(success, ds). if success then Inr ds else Inl (RuntimeError (''Failed to get ohistory of '' @ key))))"

definition c_create_index :: "('d, 'y) bitstream_lib_scheme \<Rightarrow> string \<Rightarrow> string \<Rightarrow> string list \<Rightarrow> bool call" where
  "c_create_index B name index_name paths = (CreateIndex, named B name index_name @ to_bytes (bs_strings B) paths, parse_bool B)"

definition c_drop_index :: "('d, 'y) bitstream_lib_scheme \<Rightarrow> string \<Rightarrow> string \<Rightarrow> bool call" where
  "c_drop_index B name index_name = (DropIndex, named B name index_name, parse_bool B)"

definition c_call :: "('d, 'v, 'z) client_env_scheme \<Rightarrow> string \<Rightarrow> string \<Rightarrow> string list \<Rightarrow> 'v call" where
  "c_call C name program_name args =
     (case parse_path program_name of (key, path) \<Rightarrow>
        (CallProgram, named (ch_bits C) name key @ to_bytes (bs_string (ch_bits C)) path @ to_bytes (bs_strings (ch_bits C)) args @
           to_bytes (bs_u64 (ch_bits C)) 0 @ to_bytes (bs_u32 (ch_bits C)) 0,
         \<lambda>msg. rbind (parse_call C msg) (call_value ''Program call failed: '')))"

definition c_add :: "('d, 'y) bitstream_lib_scheme \<Rightarrow> string \<Rightarrow> string \<Rightarrow> 'd \<Rightarrow> event_id_t call" where
  "c_add B name key doc = (AddToObject, named B name key @ to_bytes (bs_document B) doc, parse_event_id B)"

definition c_put :: "('d, 'y) bitstream_lib_scheme \<Rightarrow> string \<Rightarrow> string \<Rightarrow> 'd \<Rightarrow> event_id_t call" where
  "c_put B name key doc = (PutObject, named B name key @ to_bytes (bs_document B) doc, parse_event_id B)"

definition c_put_code :: "('d, 'v, 'z) client_env_scheme \<Rightarrow> string \<Rightarrow> string \<Rightarrow> string \<Rightarrow> event_id_t call" where
  "c_put_code C name key code = c_put (ch_bits C) name key (ce_compile C code)"

definition c_diff :: "('d, 'y) bitstream_lib_scheme \<Rightarrow> string \<Rightarrow> string \<Rightarrow> version_number_t \<Rightarrow> version_number_t \<Rightarrow> 'd list call" where
  "c_diff B name key version1 version2 =
     (DiffVersions, named B name key @ to_bytes (bs_u32 B) version1 @ to_bytes (bs_u32 B) version2,
      \<lambda>msg. rbind (parse_list B msg) (\<lambda>(success, ds). if success then Inr ds else Inl (RuntimeError ''Diff request failed'')))"

definition c_count :: "('d, 'y) bitstream_lib_scheme \<Rightarrow> string \<Rightarrow> 'd \<Rightarrow> u32 call" where
  "c_count B name predicates = (CountObjects, to_bytes (bs_string B) name @ to_bytes (bs_document B) predicates, parse_size B)"

definition find_body :: "('d, 'y) bitstream_lib_scheme \<Rightarrow> string \<Rightarrow> 'd \<Rightarrow> string list \<Rightarrow> int \<Rightarrow> u8 list" where
  "find_body B name predicates projection lim =
     to_bytes (bs_string B) name @ to_bytes (bs_document B) predicates @ to_bytes (bs_strings B) projection @ to_bytes (bs_i32 B) lim"

definition c_internal_find :: "('d, 'y) bitstream_lib_scheme \<Rightarrow> string \<Rightarrow> 'd \<Rightarrow> string list \<Rightarrow> int \<Rightarrow> (string \<times> event_id_t \<times> 'd) list call" where
  "c_internal_find B name predicates projection lim = (FindObjects, find_body B name predicates projection lim, parse_internal_find B)"

definition c_find :: "('d, 'y) bitstream_lib_scheme \<Rightarrow> string \<Rightarrow> 'd \<Rightarrow> string list \<Rightarrow> int \<Rightarrow> (string \<times> 'd) list call" where
  "c_find B name predicates projection lim = (FindObjects, find_body B name predicates projection lim, parse_find B)"

definition first_found :: "'a list \<Rightarrow> 'a result" where
  "first_found xs = (case xs of [] \<Rightarrow> Inl (RuntimeError ''didn't find anything!'') | x # _ \<Rightarrow> Inr x)"

definition map_call :: "('a \<Rightarrow> 'b result) \<Rightarrow> 'a call \<Rightarrow> 'b call" where
  "map_call f m = (case m of (t, body, parse) \<Rightarrow> (t, body, \<lambda>msg. rbind (parse msg) f))"

definition c_find_one :: "('d, 'y) bitstream_lib_scheme \<Rightarrow> string \<Rightarrow> 'd \<Rightarrow> string list \<Rightarrow> (string \<times> 'd) call" where
  "c_find_one B name predicates projection = map_call first_found (c_find B name predicates projection 1)"

section \<open>Calls of the client itself\<close>

definition c_create_witness :: "('d, 'y) bitstream_lib_scheme \<Rightarrow> event_id_t list \<Rightarrow> witness option call" where
  "c_create_witness B events = (CreateWitness, to_bytes (bs_events B) events, parse_witness B)"

definition c_list_peers :: "('d, 'y) bitstream_lib_scheme \<Rightarrow> 'd list call" where
  "c_list_peers B = (ListPeers, [], \<lambda>msg. rbind (parse_list B msg) (\<lambda>(success, ds). Inr ds))"

definition c_peer :: "('d, 'v, 'z) client_env_scheme \<Rightarrow> u32 \<Rightarrow> string \<Rightarrow> 'f client_action" where
  "c_peer C op_id remote_address =
     send_plain C (generate_op_request (ch_bits C) op_id Peer @ to_bytes (bs_string (ch_bits C)) remote_address)"

definition c_execute :: "('d, 'v, 'z) client_env_scheme \<Rightarrow> string \<Rightarrow> string list \<Rightarrow> 'v call" where
  "c_execute C code args =
     (ExecuteCode, to_bytes (bs_document (ch_bits C)) (ce_compile C code) @ to_bytes (bs_u32 (ch_bits C)) (word_of_nat (length args)) @
        concat (map (to_bytes (bs_string (ch_bits C))) args),
      \<lambda>msg. rbind (parse_call C msg) (call_value ''ClientImpl Execute failed: ''))"

definition c_named_bool :: "('d, 'y) bitstream_lib_scheme \<Rightarrow> OperationType \<Rightarrow> string \<Rightarrow> bool call" where
  "c_named_bool B t s = (t, to_bytes (bs_string B) s, parse_bool B)"

definition c_nop :: "('d, 'y) bitstream_lib_scheme \<Rightarrow> string \<Rightarrow> bool call" where
  "c_nop B garbage = c_named_bool B NOP garbage"

definition c_dump_everything :: "('d, 'y) bitstream_lib_scheme \<Rightarrow> string \<Rightarrow> bool call" where
  "c_dump_everything B filename = c_named_bool B DumpEverything filename"

definition c_load_everything :: "('d, 'y) bitstream_lib_scheme \<Rightarrow> string \<Rightarrow> bool call" where
  "c_load_everything B filename = c_named_bool B LoadEverything filename"

definition c_get_statistics :: "('d, 'y) bitstream_lib_scheme \<Rightarrow> 'd call" where
  "c_get_statistics B = (GetStatistics, [], parse_document B)"

definition c_order :: "('d, 'y) bitstream_lib_scheme \<Rightarrow> event_id_t \<Rightarrow> event_id_t \<Rightarrow> OrderResult call" where
  "c_order B first second = (OrderEvents, to_bytes (bs_event B) first @ to_bytes (bs_event B) second, parse_order B)"

section \<open>Transactions\<close>

datatype 'd client_op =
    COHas string string bool
  | COCheck string string 'd bool
  | COGet string string event_id_t
  | COPut string string 'd
  | COAdd string string 'd
  | CORemove string string
  | COFind string 'd "string list" int "(string \<times> event_id_t) list"

fun client_op_type :: "'d client_op \<Rightarrow> OperationType" where
  "client_op_type (COHas _ _ _) = HasObject"
| "client_op_type (COCheck _ _ _ _) = HasObject"
| "client_op_type (COGet _ _ _) = GetObject"
| "client_op_type (COPut _ _ _) = PutObject"
| "client_op_type (COAdd _ _ _) = AddToObject"
| "client_op_type (CORemove _ _) = RemoveObject"
| "client_op_type (COFind _ _ _ _ _) = FindObjects"

fun write_to_req :: "('d, 'y) bitstream_lib_scheme \<Rightarrow> 'd client_op \<Rightarrow> u8 list" where
  "write_to_req B (COHas name key res) = named B name key @ to_bytes (bs_bool B) res"
| "write_to_req B (COCheck name key predicates res) = named B name key @ to_bytes (bs_document B) predicates @ to_bytes (bs_bool B) res"
| "write_to_req B (COGet name key eid) = named B name key @ to_bytes (bs_event B) eid"
| "write_to_req B (COPut name key doc) = named B name key @ to_bytes (bs_document B) doc"
| "write_to_req B (COAdd name key doc) = named B name key @ to_bytes (bs_document B) doc"
| "write_to_req B (CORemove name key) = named B name key"
| "write_to_req B (COFind name predicates projection lim res) =
     find_body B name predicates projection lim @ to_bytes (bs_u32 B) (word_of_nat (length res)) @
     concat (map (\<lambda>(key, eid). to_bytes (bs_string B) key @ to_bytes (bs_event B) eid) res)"

record 'd client_tx =
  ct_isolation :: IsolationLevel
  ct_done :: bool
  ct_ops :: "'d client_op list"

definition init_transaction :: "IsolationLevel \<Rightarrow> 'd client_tx" where
  "init_transaction isolation = \<lparr>ct_isolation = isolation, ct_done = False, ct_ops = []\<rparr>"

definition queue_op :: "'d client_op \<Rightarrow> 'd client_tx \<Rightarrow> 'd client_tx" where
  "queue_op info tx = tx\<lparr>ct_ops := ct_ops tx @ [info]\<rparr>"

definition assert_not_committed :: "'d client_tx \<Rightarrow> unit result" where
  "assert_not_committed tx = (if ct_done tx then Inl (RuntimeError ''The transaction has finished.'') else Inr ())"

definition tx_queue :: "'d client_op \<Rightarrow> 'd client_tx \<Rightarrow> (event_id_t \<times> 'd client_tx) result" where
  "tx_queue info tx = rbind (assert_not_committed tx) (\<lambda>_. Inr (INVALID_EVENT, queue_op info tx))"

definition tx_put :: "string \<Rightarrow> string \<Rightarrow> 'd \<Rightarrow> 'd client_tx \<Rightarrow> (event_id_t \<times> 'd client_tx) result" where
  "tx_put name key doc = tx_queue (COPut name key doc)"

definition tx_add :: "string \<Rightarrow> string \<Rightarrow> 'd \<Rightarrow> 'd client_tx \<Rightarrow> (event_id_t \<times> 'd client_tx) result" where
  "tx_add name key doc = tx_queue (COAdd name key doc)"

definition tx_remove :: "string \<Rightarrow> string \<Rightarrow> 'd client_tx \<Rightarrow> (event_id_t \<times> 'd client_tx) result" where
  "tx_remove name key = tx_queue (CORemove name key)"

text \<open>Reads ask the server first and record the answer.\<close>

definition tx_check :: "('d, 'y) bitstream_lib_scheme \<Rightarrow> string \<Rightarrow> string \<Rightarrow> 'd \<Rightarrow> 'd client_tx \<Rightarrow> (bool \<times> 'd client_tx) call result" where
  "tx_check B name key predicates tx =
     rbind (assert_not_committed tx) (\<lambda>_. Inr (map_call (\<lambda>res. Inr (res, queue_op (COCheck name key predicates res) tx)) (c_check B name key predicates)))"

definition tx_has_object :: "('d, 'y) bitstream_lib_scheme \<Rightarrow> string \<Rightarrow> string \<Rightarrow> 'd client_tx \<Rightarrow> (bool \<times> 'd client_tx) call result" where
  "tx_has_object B name key tx =
     rbind (assert_not_committed tx) (\<lambda>_. Inr (map_call (\<lambda>res. Inr (res, queue_op (COHas name key res) tx)) (c_has_object B name key)))"

definition tx_get_with_eid ::
  "('d, 'y) bitstream_lib_scheme \<Rightarrow> string \<Rightarrow> string \<Rightarrow> 'd client_tx \<Rightarrow> (('d \<times> event_id_t) \<times> 'd client_tx) call result" where
  "tx_get_with_eid B name key tx =
     rbind (assert_not_committed tx) (\<lambda>_. Inr (map_call (\<lambda>(doc, eid). Inr ((doc, eid), queue_op (COGet name key eid) tx)) (c_get_with_eid B name key)))"

definition tx_find ::
  "('d, 'y) bitstream_lib_scheme \<Rightarrow> string \<Rightarrow> 'd \<Rightarrow> string list \<Rightarrow> int \<Rightarrow> 'd client_tx \<Rightarrow> ((string \<times> 'd) list \<times> 'd client_tx) call result" where
  "tx_find B name predicates projection lim tx =
     rbind (assert_not_committed tx) (\<lambda>_.
       Inr (map_call (\<lambda>res. Inr (map (\<lambda>(key, eid, doc). (key, doc)) res,
                                queue_op (COFind name predicates projection lim (map (\<lambda>(key, eid, doc). (key, eid)) res)) tx))
              (c_internal_find B name predicates projection lim)))"

definition tx_find_one ::
  "('d, 'y) bitstream_lib_scheme \<Rightarrow> string \<Rightarrow> 'd \<Rightarrow> string list \<Rightarrow> 'd client_tx \<Rightarrow> ((string \<times> 'd) \<times> 'd client_tx) call result" where
  "tx_find_one B name predicates projection tx =
     rbind (tx_find B name predicates projection 1 tx) (\<lambda>m. Inr (map_call (\<lambda>(res, tx'). rbind (first_found res) (\<lambda>x. Inr (x, tx'))) m))"

datatype TransactionResult = TxSuccess witness | TxError string

definition commit_body :: "('d, 'y) bitstream_lib_scheme \<Rightarrow> bool \<Rightarrow> 'd client_tx \<Rightarrow> u8 list" where
  "commit_body B generate_witness tx =
     to_bytes (bs_u8 B) (enum_number isolation_levels (ct_isolation tx)) @ to_bytes (bs_bool B) generate_witness @
     to_bytes (bs_u32 B) (word_of_nat (length (ct_ops tx))) @
     concat (map (\<lambda>op. to_bytes (bs_u8 B) (enum_number operation_types (client_op_type op)) @ write_to_req B op) (ct_ops tx))"

definition parse_transaction_result :: "('d, 'y) bitstream_lib_scheme \<Rightarrow> u8 list \<Rightarrow> TransactionResult result" where
  "parse_transaction_result B msg =
     rbind (parse_nested B msg) (\<lambda>bs.
       if bs = [] then Inr (TxError ''empty response'')
       else rbind (receive (bs_bool B) bs) (\<lambda>(success, bs1).
              if success then rbind (get_witness B bs1) (\<lambda>(w, bs2). Inr (TxSuccess w))
              else rbind (receive (bs_string B) bs1) (\<lambda>(err, bs2). Inr (TxError err))))"

definition c_commit :: "('d, 'y) bitstream_lib_scheme \<Rightarrow> bool \<Rightarrow> 'd client_tx \<Rightarrow> (TransactionResult \<times> 'd client_tx) call result" where
  "c_commit B generate_witness tx =
     (if ct_done tx then Inl (RuntimeError ''Already committed this transaction!'')
      else Inr (ExecuteTransaction, commit_body B generate_witness tx,
                \<lambda>msg. rbind (parse_transaction_result B msg) (\<lambda>res. Inr (res, tx\<lparr>ct_done := True\<rparr>))))"

section \<open>What a client accepts\<close>

text \<open>An answer arrives.\<close>

definition answer_message :: "('d, 'y) bitstream_lib_scheme \<Rightarrow> u32 \<Rightarrow> u32 \<Rightarrow> u8 list \<Rightarrow> u8 list" where
  "answer_message B task_id op_id body = put_mtype B OperationResponse @ to_bytes (bs_u32 B) task_id @ to_bytes (bs_u32 B) op_id @ body"

lemma client_handle_answer:
  assumes "wire_laws (ch_bits C)" "cl_state c = Connected"
  shows "client_handle C (answer_message (ch_bits C) task_id op_id body) c =
    Inr ([], if map_of (cl_responses c) op_id = None then c\<lparr>cl_responses := (op_id, body) # cl_responses c\<rparr> else c)"
  using assms by (simp add: client_handle_def handle_operation_response_def answer_message_def put_mtype_def)

text \<open>The frames of the client and of the enclave are the same.\<close>

lemma client_encrypt_party:
  "\<not> cl_unsafe_mode c \<Longrightarrow> party_encrypt C (Some (dk_sk (cl_keys c))) data = Some frame \<Longrightarrow> client_encrypt C c data = Inr frame"
  by (auto simp: party_encrypt_def client_encrypt_def Let_def split: option.splits prod.splits)

lemma client_decrypt_party:
  assumes "cl_state c = Connected" "\<not> cl_unsafe_mode c" "party_decrypt C (Some (dk_sk (cl_keys c))) frame = Inr (True, data)"
  shows "client_decrypt C c frame = Inr data" "MAC_SIZE \<le> length frame \<Longrightarrow> on_network_message C frame c = client_handle C data c"
proof -
  show dec: "client_decrypt C c frame = Inr data"
    using assms by (auto simp: party_decrypt_def client_decrypt_def read_raw_def rbind_def split: option.splits sum.splits if_splits)
  obtain n rest where "of_bytes (bs_u8 (ch_bits C)) frame = Some (n, rest)" "enum_value encryption_types n = Some Encrypted"
    using assms(3) by (auto simp: party_decrypt_def rbind_def receive_def split: option.splits sum.splits if_splits)
  then show "on_network_message C frame c = client_handle C data c" if "MAC_SIZE \<le> length frame"
    using dec that by (simp add: on_network_message_def MAC_SIZE_def)
qed

lemma frame_length:
  assumes "gcm_correct (ch_gcm C)" "party_encrypt C (Some key) data = Some frame"
  shows "MAC_SIZE \<le> length frame"
proof -
  have "\<exists>cdata tag. gcm_encrypt (ch_gcm C) key aes_gcm_iv (take (unat (word_of_nat (length data) :: u32)) data) = Some (cdata, tag) \<and> length tag = MAC_SIZE"
    using assms(1) unfolding gcm_correct_def by blast
  then show ?thesis using assms(2) by (auto simp: party_encrypt_def Let_def)
qed

text \<open>
  Property C38. Anyone who can put bytes on the connection answers for the server. A connected client, also one that
  insists on encryption, takes an answer in a plain text frame without any check, even for an operation it has not sent yet. The
  answer of the server, which arrives under the key of the session, is then dropped, and the call returns what the forged answer says.
\<close>

theorem forged_answer_accepted:
  assumes C: "channel_laws C" and c: "cl_state c = Connected" "\<not> cl_unsafe_mode c" and fresh: "map_of (cl_responses c) op_id = None"
    and genuine: "party_encrypt C (Some (dk_sk (cl_keys c))) (answer_message (ch_bits C) task_id op_id answer) = Some frame"
    and fits: "small (answer_message (ch_bits C) task_id op_id answer)"
  shows "\<exists>c'. on_network_message C (put_etype (ch_bits C) PlainText @ answer_message (ch_bits C) task_id op_id forged) c = Inr ([], c') \<and>
    on_network_message C frame c' = Inr ([], c') \<and>
    end_call (op_type, body, parse) op_id c' = Some (parse forged, c)"
proof -
  have W: "wire_laws (ch_bits C)" and G: "gcm_correct (ch_gcm C)" using C by (auto simp: channel_laws_def)
  let ?c = "c\<lparr>cl_responses := (op_id, forged) # cl_responses c\<rparr>" and ?msg = "put_etype (ch_bits C) PlainText @ answer_message (ch_bits C) task_id op_id forged"
  have "2 \<le> length ?msg"
    using type_bytes_nonempty [OF W, of PlainText OperationResponse] by (simp add: answer_message_def flip: length_greater_0_conv)
  then have "on_network_message C ?msg c = Inr ([], ?c)"
    using client_handle_answer [OF W c(1), of task_id op_id forged] W fresh by (simp add: on_network_message_def put_etype_def)
  moreover have "party_decrypt C (Some (dk_sk (cl_keys ?c))) frame = Inr (True, answer_message (ch_bits C) task_id op_id answer)"
    using frame_round_trip [OF C fits, of "dk_sk (cl_keys c)"] genuine by fastforce
  then have "on_network_message C frame ?c = Inr ([], ?c)"
    using client_decrypt_party(2) [of ?c C frame] client_handle_answer [OF W, of ?c task_id op_id answer] c frame_length [OF G genuine] by simp
  moreover have "map_of (cl_responses c) op_id = None \<Longrightarrow> AList.delete op_id (cl_responses c) = cl_responses c"
    by (simp add: map_of_eq_None_iff delete_id)
  then have "end_call (op_type, body, parse) op_id ?c = Some (parse forged, c)"
    using fresh by (simp add: end_call_def receive_response_def)
  ultimately show ?thesis by blast
qed

text \<open>
  The client trusts any enclave. In the last step of the handshake a client that insists on encryption becomes connected and
  reports success to the server whatever message three contains, as long as it is not shorter than a MAC:
  a public key that is not the one of message one, a MAC that does not match and a quote that says something else are only logged.
\<close>

lemma client_connects_unverified:
  assumes W: "wire_laws (ch_bits C)" and c: "cl_state c = WaitingForMsg3" "\<not> cl_unsafe_mode c"
    and msg3: "MAC_SIZE \<le> length msg3" "small msg3" and hash: "al_sha (ce_attest C) (dk_other_public (cl_keys c) @ dk_public (cl_keys c) @ dk_vk (cl_keys c)) = Some h"
  shows "\<exists>actions answer. on_network_message C
      (put_etype (ch_bits C) Attestation @ put_mtype (ch_bits C) AttestationMessage3 @ to_bytes (bs_u32 (ch_bits C)) (word_of_nat (length msg3)) @ msg3) c =
      Inr (actions @ [SendBytes (put_etype (ch_bits C) Attestation @ put_mtype (ch_bits C) AttestationResult @ answer)], c\<lparr>cl_state := Connected\<rparr>) \<and>
    (al_msg3_g_a (ce_attest C) msg3 \<noteq> dk_other_public (cl_keys c) \<longrightarrow> LogError ''Error, g_a is not same'' \<in> set actions) \<and>
    (al_msg3_report (ce_attest C) msg3 \<noteq> h @ replicate 32 0 \<longrightarrow> LogError ''Compare hash failed'' \<in> set actions)"
proof -
  let ?B = "ch_bits C" and ?k = "cl_keys c"
  obtain logs blob where three: "client_message_three (ce_attest C) ?k msg3 = Inr (logs, blob)"
    and logged: "al_msg3_g_a (ce_attest C) msg3 \<noteq> dk_other_public ?k \<Longrightarrow> ''Error, g_a is not same'' \<in> set logs"
      "al_msg3_report (ce_attest C) msg3 \<noteq> h @ replicate 32 0 \<Longrightarrow> ''Compare hash failed'' \<in> set logs"
    using msg3 hash by (auto simp: client_message_three_def expected_report_def log_if_def Let_def)
  let ?msg = "put_etype ?B Attestation @ put_mtype ?B AttestationMessage3 @ to_bytes (bs_u32 ?B) (word_of_nat (length msg3)) @ msg3"
  have "bs_raw ?B (length msg3) msg3 = Some (msg3, [])" using wire_reads(12) [OF W refl, of msg3 "[]"] by simp
  then have "process_message_three C (to_bytes (bs_u32 ?B) (word_of_nat (length msg3)) @ msg3) c =
      Inr (map LogError logs @ [SendBytes (put_etype ?B Attestation @ put_mtype ?B AttestationResult @
        (to_bytes (bs_i32 ?B) 0 @ to_bytes (bs_i32 ?B) 0 @ blob))], c\<lparr>cl_state := Connected\<rparr>)"
    using W c msg3 three by (simp add: process_message_three_def read_raw_def Let_def)
  moreover have "on_network_message C ?msg c = process_message_three C (to_bytes (bs_u32 ?B) (word_of_nat (length msg3)) @ msg3) c"
    using W msg3 by (simp add: on_network_message_def handle_attestation_message_def put_etype_def put_mtype_def MAC_SIZE_def)
  ultimately show ?thesis using logged
    by (intro exI [of _ "map LogError logs"] exI [of _ "to_bytes (bs_i32 ?B) 0 @ to_bytes (bs_i32 ?B) 0 @ blob"]) simp
qed

end
