(* ===== verification/Remote_Call.thy ===== *)
theory Remote_Call
  imports Client_Session Client_Library
begin

text \<open>
  The client library and the enclave together. A call of an application is encoded and encrypted by the client, decrypted, decoded
  and executed by the enclave, and its answer travels back the same way. Shown: for every operation on a collection this is the
  same as calling the ledger directly, for any sequence of calls; the operations of a transaction arrive as they were
  queued, except for a check; and the list of peers cannot be read.
\<close>

section \<open>A call and its answer\<close>

fun deliver :: "('d, 'v, 'w) client_env_scheme \<Rightarrow> remote_party_id \<Rightarrow> effect list \<Rightarrow> 'f client_impl \<Rightarrow> 'f client_impl result" where
  "deliver C party [] c = Inr c"
| "deliver C party (SendFrame p frame # effects) c =
     (if p = party then rbind (on_network_message C frame c) (\<lambda>(acts, c'). deliver C party effects c') else deliver C party effects c)"
| "deliver C party (_ # effects) c = deliver C party effects c"

definition exchange ::
  "('d, 'y) enclave_env_scheme \<Rightarrow> ('d, 'z) session_env_scheme \<Rightarrow> ('d, 'v, 'w) client_env_scheme \<Rightarrow> remote_party_id \<Rightarrow> 'a call \<Rightarrow>
     'f client_impl \<times> 'd server \<Rightarrow> ('a result \<times> 'f client_impl \<times> 'd server) result option" where
  "exchange E S C party m = (\<lambda>(c, sv).
     case begin_call C m c of
       Inr (op_id, SendBytes frame, c1) \<Rightarrow>
         pbind (client_handle_message E S party frame sv) (\<lambda>(effects, sv').
         pbind (Some (deliver C party effects c1)) (\<lambda>c2.
           case end_call m op_id c2 of None \<Rightarrow> None | Some (r, c3) \<Rightarrow> Some (Inr (r, c3, sv'))))
     | Inr _ \<Rightarrow> None
     | Inl e \<Rightarrow> Some (Inl e))"

text \<open>A connected client and its session: the same library and key on both sides, no answer that nobody waits for, and a server with its own data.\<close>

definition linked ::
  "('d, 'y) enclave_env_scheme \<Rightarrow> ('d, 'z) session_env_scheme \<Rightarrow> ('d, 'v, 'w) client_env_scheme \<Rightarrow> remote_party_id \<Rightarrow> known_identity \<Rightarrow>
     'f client_impl \<Rightarrow> 'd server \<Rightarrow> bool" where
  "linked E S C party i c sv \<longleftrightarrow>
     channel_laws S \<and> ch_bits S = ee_bits E \<and> ch_bits C = ee_bits E \<and> ch_gcm C = ch_gcm S \<and>
     cl_state c = Connected \<and> \<not> cl_unsafe_mode c \<and> cl_responses c = [] \<and>
     sv_sessions sv party = Some \<lparr>cs_state = IsConnected, cs_sk_key = dk_sk (cl_keys c)\<rparr> \<and>
     party_identity party sv = Some i \<and> \<not> en_downstream (sv_enclave sv)"

definition sent_call :: "'f client_impl \<Rightarrow> 'f client_impl" where
  "sent_call c = c\<lparr>cl_next_operation_id := cl_next_operation_id c + 1\<rparr>"

lemma party_encrypt_same:
  assumes "ch_bits C = ch_bits S" "ch_gcm C = ch_gcm S"
  shows "party_encrypt C sk data = party_encrypt S sk data"
  unfolding party_encrypt_def assms ..

lemma party_decrypt_same:
  "ch_bits C = ch_bits S \<Longrightarrow> ch_gcm C = ch_gcm S \<Longrightarrow> party_decrypt S sk data = Inr (True, msg) \<Longrightarrow> party_decrypt C sk data = Inr (True, msg)"
  by (auto simp: party_decrypt_def rbind_def split: option.splits sum.splits if_splits)

text \<open>The session passes a request on to the handler and encrypts its answer.\<close>

lemma session_request:
  assumes link: "linked E S C party i c sv" and key: "key = dk_sk (cl_keys c)"
    and handled: "handle_request_upstream_mode E party (client_context i) (Some t) body (sv_enclave sv) = Some (Inr (out, s'))"
    and sync: "t \<noteq> CallProgram" "t \<noteq> ExecuteCode"
    and frame: "party_encrypt S (Some key) (generate_op_request (ee_bits E) op_id t @ body) = Some frame"
    and small_req: "small (generate_op_request (ee_bits E) op_id t @ body)"
    and answer: "party_encrypt S (Some key) (answer_message (ee_bits E) 0 op_id out) = Some frame'"
  shows "client_handle_message E S party frame sv = Some (Inr ([SendFrame party frame'], sv\<lparr>sv_enclave := s'\<rparr>))"
proof -
  let ?B = "ee_bits E" and ?req = "generate_op_request (ee_bits E) op_id t @ body"
  have S: "channel_laws S" "ch_bits S = ?B" "wire_laws ?B" using link by (auto simp: linked_def channel_laws_def)
  have dec: "party_decrypt S (Some key) frame = Inr (True, ?req)" and etype: "\<exists>rest. frame = put_etype ?B Encrypted @ rest"
    using frame_round_trip [OF S(1) small_req, of key] frame S(2) by fastforce+
  then obtain rest where "of_bytes (bs_u8 ?B) frame = Some (enum_number encryption_types Encrypted, rest)"
    using S(3) by (auto simp: put_etype_def)
  moreover have "of_bytes (bs_u8 ?B) ?req = Some (enum_number message_types OperationRequest,
      to_bytes (bs_u32 ?B) 0 @ to_bytes (bs_u32 ?B) op_id @ to_bytes (bs_u8 ?B) (enum_number operation_types t) @ body)"
    using S(3) by (simp add: generate_op_request_def put_mtype_def)
  moreover have "handle_op_request E party (client_context i) ?req
      (to_bytes (bs_u32 ?B) 0 @ to_bytes (bs_u32 ?B) op_id @ to_bytes (bs_u8 ?B) (enum_number operation_types t) @ body) (sv_enclave sv) =
      Some (Inr ([answer_message ?B 0 op_id out], s'))"
    using S(3) handled sync link by (simp add: handle_op_request_def Let_def response_header_def answer_message_def linked_def)
  moreover have "answer_message ?B 0 op_id out \<noteq> []" using type_bytes_nonempty [OF S(3)] by (simp add: answer_message_def)
  ultimately show ?thesis
    using link key dec answer S(2)
    by (simp add: client_handle_message_def linked_def get_encryption_key_def connected_request_def party_send_def Let_def)
qed

lemma exchange_correct:
  assumes link: "linked E S C party i c sv"
    and handled: "handle_request_upstream_mode E party (client_context i) (Some t) body (sv_enclave sv) = Some (Inr (out, s'))"
    and sync: "t \<noteq> CallProgram" "t \<noteq> ExecuteCode"
    and fits: "small (generate_op_request (ee_bits E) (cl_next_operation_id c) t @ body)" "small (answer_message (ee_bits E) 0 (cl_next_operation_id c) out)"
  shows "exchange E S C party (t, body, parse) (c, sv) = Some (Inr (parse out, sent_call c, sv\<lparr>sv_enclave := s'\<rparr>))"
proof -
  let ?B = "ee_bits E" and ?key = "dk_sk (cl_keys c)" and ?id = "cl_next_operation_id c" and ?c = "sent_call c"
  have S: "channel_laws S" "ch_bits S = ?B" "ch_bits C = ?B" "ch_gcm C = ch_gcm S" "gcm_correct (ch_gcm C)" "wire_laws ?B" "channel_laws C"
    using link by (auto simp: linked_def channel_laws_def)
  obtain frame where frame: "party_encrypt S (Some ?key) (generate_op_request ?B ?id t @ body) = Some frame"
    using frame_round_trip [OF S(1) fits(1)] by blast
  obtain frame' where frame': "party_encrypt S (Some ?key) (answer_message ?B 0 ?id out) = Some frame'"
    "party_decrypt S (Some ?key) frame' = Inr (True, answer_message ?B 0 ?id out)"
    using frame_round_trip [OF S(1) fits(2)] by blast
  have c: "cl_state ?c = Connected" "\<not> cl_unsafe_mode ?c" "cl_responses ?c = []" "cl_keys ?c = cl_keys c"
    using link by (simp_all add: linked_def sent_call_def)
  have "begin_call C (t, body, parse) c = Inr (?id, SendBytes frame, ?c)"
    using client_encrypt_party [OF c(2), of C "generate_op_request ?B ?id t @ body" frame] frame party_encrypt_same [of C S] S c
    by (simp add: begin_call_def get_next_operation_id_def send_encrypted_def flip: sent_call_def)
  moreover note session_request [OF link refl handled sync frame fits(1) frame'(1)]
  moreover have "on_network_message C frame' ?c = Inr ([], ?c\<lparr>cl_responses := [(?id, out)]\<rparr>)"
    using client_decrypt_party(2) [OF c(1,2), of C frame' "answer_message ?B 0 ?id out"] party_decrypt_same [of C S "Some ?key" frame'] frame' S c
      frame_length [OF S(5), of ?key "answer_message ?B 0 ?id out" frame'] party_encrypt_same [of C S] client_handle_answer [of C ?c 0 ?id out] by simp
  moreover have "end_call (t, body, parse) ?id (?c\<lparr>cl_responses := [(?id, out)]\<rparr>) = Some (parse out, ?c)"
    using c(3) by (simp add: end_call_def receive_response_def)
  ultimately show ?thesis by (simp add: exchange_def)
qed

section \<open>Operations on collections\<close>

datatype 'd app_request =
    AppHas string string
  | AppCheck string string 'd
  | AppGet string string
  | AppPut string string 'd
  | AppAdd string string 'd
  | AppRemove string string
  | AppPutNew string 'd
  | AppHistory string string
  | AppCount string 'd
  | AppFind string 'd "string list" int
  | AppCreateIndex string string "string list"
  | AppDropIndex string string
  | AppClear string

datatype 'd app_answer =
    BoolAnswer bool
  | EventAnswer event_id_t
  | DocAnswer 'd event_id_t
  | KeyAnswer string event_id_t
  | DocsAnswer "'d list"
  | CountAnswer u32
  | FoundAnswer "(string \<times> event_id_t \<times> 'd) list"

fun app_call :: "('d, 'y) bitstream_lib_scheme \<Rightarrow> 'd app_request \<Rightarrow> 'd app_answer call" where
  "app_call B (AppHas name key) = map_call (Inr \<circ> BoolAnswer) (c_has_object B name key)"
| "app_call B (AppCheck name key predicate) = map_call (Inr \<circ> BoolAnswer) (c_check B name key predicate)"
| "app_call B (AppGet name key) = map_call (\<lambda>(doc, eid). Inr (DocAnswer doc eid)) (c_get_with_eid B name key)"
| "app_call B (AppPut name key doc) = map_call (Inr \<circ> EventAnswer) (c_put B name key doc)"
| "app_call B (AppAdd name key doc) = map_call (Inr \<circ> EventAnswer) (c_add B name key doc)"
| "app_call B (AppRemove name key) = map_call (Inr \<circ> EventAnswer) (c_remove B name key)"
| "app_call B (AppPutNew name doc) = map_call (\<lambda>(key, eid). Inr (KeyAnswer key eid)) (c_put_and_generate_key B name doc)"
| "app_call B (AppHistory name key) = map_call (Inr \<circ> DocsAnswer) (c_get_history B name key)"
| "app_call B (AppCount name predicates) = map_call (Inr \<circ> CountAnswer) (c_count B name predicates)"
| "app_call B (AppFind name predicates projection lim) = map_call (Inr \<circ> FoundAnswer) (c_internal_find B name predicates projection lim)"
| "app_call B (AppCreateIndex name index_name paths) = map_call (Inr \<circ> BoolAnswer) (c_create_index B name index_name paths)"
| "app_call B (AppDropIndex name index_name) = map_call (Inr \<circ> BoolAnswer) (c_drop_index B name index_name)"
| "app_call B (AppClear name) = map_call (Inr \<circ> BoolAnswer) (c_clear B name)"

text \<open>The same operations on the ledger of the enclave, without messages.\<close>

type_synonym 'd answered = "('d app_answer result \<times> 'd enclave) result option"

definition answer :: "('a \<Rightarrow> 'd app_answer result) \<Rightarrow> 'd enclave \<Rightarrow> 'a result option \<Rightarrow> 'd answered" where
  "answer f s r = pbind r (\<lambda>x. Some (Inr (f x, s)))"

definition answer_changed :: "('a \<Rightarrow> 'd app_answer result) \<Rightarrow> 'd enclave \<Rightarrow> ('a \<times> ledger) result option \<Rightarrow> 'd answered" where
  "answer_changed f s r = pbind r (\<lambda>(x, l). Some (Inr (f x, set_ledger l s)))"

definition get_answer :: "string \<Rightarrow> event_id_t \<times> 'd option \<Rightarrow> 'd app_answer result result" where
  "get_answer path = (\<lambda>(eid, v).
     if eid = INVALID_EVENT then Inr (Inl (failed_to_get path))
     else case v of
       None \<Rightarrow> Inl JsonError
     | Some d \<Rightarrow> Inr (if is_valid eid then Inr (DocAnswer d eid) else Inl (failed_to_get path)))"

partial_function (option) collect_history ::
  "('d, 'z) enclave_env_scheme \<Rightarrow> ledger \<Rightarrow> 'd object_iterator \<Rightarrow> 'd list \<Rightarrow> 'd list result option" where
  "collect_history E l it vals =
     (case next_handle E l it of
        None \<Rightarrow> None
      | Some (Inl e) \<Rightarrow> Some (Inl e)
      | Some (Inr ((eid, elem), it')) \<Rightarrow>
          if \<not> is_valid eid then Some (Inr vals)
          else case event_value elem of Inl e \<Rightarrow> Some (Inl e) | Inr val \<Rightarrow> collect_history E l it' (vals @ [val]))"

definition projected :: "('d, 'z) enclave_env_scheme \<Rightarrow> string list \<Rightarrow> 'd \<Rightarrow> 'd" where
  "projected E projection d = (if projection \<noteq> [] then js_select E d projection else d)"

partial_function (option) collect_found ::
  "('d, 'z) enclave_env_scheme \<Rightarrow> ledger \<Rightarrow> string list \<Rightarrow> int \<Rightarrow> string \<Rightarrow> 'd list_iterator \<Rightarrow> (string \<times> event_id_t \<times> 'd) list \<Rightarrow>
     (string \<times> event_id_t \<times> 'd) list result option" where
  "collect_found E l projection lim key it xs =
     (case list_next E l key it of
        None \<Rightarrow> None
      | Some (Inl e) \<Rightarrow> Some (Inl e)
      | Some (Inr ((eid, key', hdl), it')) \<Rightarrow>
          if \<not> event_valid hdl then Some (Inr xs)
          else case event_value hdl of
                 Inl e \<Rightarrow> Some (Inl e)
               | Inr d \<Rightarrow>
                   let xs' = xs @ [(key', eid, projected E projection d)]
                   in if lim > 0 \<and> word_of_nat (length xs') = (word_of_int lim :: u32) then Some (Inr xs')
                      else collect_found E l projection lim key' it' xs')"

definition local_write ::
  "('d, 'z) enclave_env_scheme \<Rightarrow> op_context \<Rightarrow> OperationType \<Rightarrow> string \<Rightarrow> string \<Rightarrow> 'd \<Rightarrow> 'd enclave \<Rightarrow> 'd answered" where
  "local_write E ctx op_type name full_path doc s =
     (case parse_path full_path of (key, path) \<Rightarrow>
        pbind (Some (write_allowed E name (key, path) s)) (\<lambda>allowed.
          if \<not> allowed then Some (Inr (Inr (EventAnswer INVALID_EVENT), s))
          else answer_changed (Inr \<circ> EventAnswer) s
                 (if op_type = AddToObject then ledger_add E ctx name key doc path False (ledger_of s)
                  else ledger_put E ctx name key doc path False (ledger_of s))))"

fun local_call :: "('d, 'z) enclave_env_scheme \<Rightarrow> op_context \<Rightarrow> 'd app_request \<Rightarrow> 'd enclave \<Rightarrow> 'd answered" where
  "local_call E ctx (AppHas name full_path) s =
     answer (Inr \<circ> BoolAnswer) s (Some (has_object E name (fst (parse_path full_path)) (ledger_of s)))"
| "local_call E ctx (AppCheck name full_path predicate) s =
     (case parse_path full_path of (key, path) \<Rightarrow> answer (Inr \<circ> BoolAnswer) s (ledger_check E ctx name key path predicate (ledger_of s)))"
| "local_call E ctx (AppGet name full_path) s =
     (case parse_path full_path of (key, path) \<Rightarrow>
        answer id s (obind (first_value E ctx name key path (ledger_of s)) (get_answer full_path)))"
| "local_call E ctx (AppPut name full_path doc) s = local_write E ctx PutObject name full_path doc s"
| "local_call E ctx (AppAdd name full_path doc) s = local_write E ctx AddToObject name full_path doc s"
| "local_call E ctx (AppRemove name key) s =
     answer_changed (Inr \<circ> EventAnswer) s (ledger_remove E ctx name key (tx_no_document E) False (ledger_of s))"
| "local_call E ctx (AppPutNew name doc) s =
     answer_changed (\<lambda>(eid, key). if is_valid eid then Inr (KeyAnswer key eid) else Inl (RuntimeError ''Put failed!'')) s
       (obind (put_without_key E ctx name (ee_keys E) doc False (ledger_of s)) (\<lambda>(eid, key, l). Inr ((eid, key), l)))"
| "local_call E ctx (AppHistory name key) s =
     pbind (iterate E ctx name key [] (ledger_of s)) (\<lambda>it. answer (Inr \<circ> DocsAnswer) s (collect_history E (ledger_of s) it []))"
| "local_call E ctx (AppCount name predicates) s =
     answer (Inr \<circ> CountAnswer) s (count_objects E (tx_order E) ctx name predicates (ledger_of s))"
| "local_call E ctx (AppFind name predicates projection lim) s =
     (if lim = 0 then Some (Inl (Fatal ''Got invalid value for limit''))
      else pbind (Some (ledger_find E (tx_order E) ctx name predicates (ledger_of s))) (\<lambda>it.
             answer (Inr \<circ> FoundAnswer) s (collect_found E (ledger_of s) projection lim [] it [])))"
| "local_call E ctx (AppCreateIndex name index_name paths) s =
     answer_changed (Inr \<circ> BoolAnswer) s
       (ledger_create_index E (tx_order E) \<lparr>oc_identity = ee_identity E, oc_program = []\<rparr> name index_name paths (ledger_of s))"
| "local_call E ctx (AppDropIndex name index_name) s =
     answer_changed (Inr \<circ> BoolAnswer) s (Some (ledger_drop_index name index_name (ledger_of s)))"
| "local_call E ctx (AppClear name) s = answer_changed (Inr \<circ> BoolAnswer) s (Some (ledger_clear E (tx_order E) ctx name (ledger_of s)))"

section \<open>Sizes\<close>

fun call_request_fits :: "('d, 'y) bitstream_lib_scheme \<Rightarrow> 'd app_request \<Rightarrow> bool" where
  "call_request_fits B (AppCheck name key d) = (small name \<and> small key \<and> small (bs_data B d))"
| "call_request_fits B (AppPut name key d) = (small name \<and> small key \<and> small (bs_data B d))"
| "call_request_fits B (AppAdd name key d) = (small name \<and> small key \<and> small (bs_data B d))"
| "call_request_fits B (AppPutNew name d) = (small name \<and> small (bs_data B d))"
| "call_request_fits B (AppCount name d) = (small name \<and> small (bs_data B d))"
| "call_request_fits B (AppFind name d projection lim) =
     (small name \<and> small (bs_data B d) \<and> small projection \<and> list_all small projection \<and> - (2 ^ 31) \<le> lim \<and> lim < 2 ^ 31)"
| "call_request_fits B (AppCreateIndex name index_name paths) = (small name \<and> small index_name \<and> small paths \<and> list_all small paths)"
| "call_request_fits B (AppHas name key) = (small name \<and> small key)"
| "call_request_fits B (AppGet name key) = (small name \<and> small key)"
| "call_request_fits B (AppRemove name key) = (small name \<and> small key)"
| "call_request_fits B (AppHistory name key) = (small name \<and> small key)"
| "call_request_fits B (AppDropIndex name key) = (small name \<and> small key)"
| "call_request_fits B (AppClear name) = small name"

fun answer_fits :: "('d, 'y) bitstream_lib_scheme \<Rightarrow> 'd app_answer \<Rightarrow> bool" where
  "answer_fits B (DocAnswer d eid) = small (bs_data B d)"
| "answer_fits B (KeyAnswer key eid) = small key"
| "answer_fits B (DocsAnswer ds) = (small ds \<and> list_all (\<lambda>d. small (bs_data B d)) ds)"
| "answer_fits B (FoundAnswer xs) = (small xs \<and> list_all (\<lambda>(key, eid, d). small key \<and> small (bs_data B d)) xs)"
| "answer_fits B _ = True"

section \<open>The loops of the server\<close>

text \<open>The server writes the elements one after the other and counts them.\<close>

definition history_bytes :: "('d, 'z) enclave_env_scheme \<Rightarrow> 'd list \<Rightarrow> u32 \<times> u8 list" where
  "history_bytes E vs = (word_of_nat (length vs), concat (map (\<lambda>v. to_bytes (bs_nested (ee_bits E)) (bs_data (ee_bits E) v)) vs))"

definition found_bytes :: "('d, 'y) bitstream_lib_scheme \<Rightarrow> (string \<times> event_id_t \<times> 'd) list \<Rightarrow> u32 \<times> u8 list" where
  "found_bytes B xs = (word_of_nat (length xs),
     concat (map (\<lambda>(key, eid, d). to_bytes (bs_string B) key @ to_bytes (bs_event B) eid @ to_bytes (bs_document B) d) xs))"

lemma history_from_collect:
  assumes "collect_history E l it vals = Some (Inr vs)"
  shows "history_from E l it (fst (history_bytes E vals)) (snd (history_bytes E vals)) = Some (Inr (history_bytes E vs))"
proof -
  have "case r of Inl e \<Rightarrow> True | Inr vs \<Rightarrow>
      history_from E l it (fst (history_bytes E vals)) (snd (history_bytes E vals)) = Some (Inr (history_bytes E vs))"
    if "collect_history E l it vals = Some r" for r
  proof (rule collect_history.raw_induct [OF _ that, where P = "\<lambda>E l it vals r. case r of Inl e \<Rightarrow> True | Inr vs \<Rightarrow>
      history_from E l it (fst (history_bytes E vals)) (snd (history_bytes E vals)) = Some (Inr (history_bytes E vs))"], goal_cases)
    case (1 f E l it vals r)
    have IH: "history_from E l it' (fst (history_bytes E vals) + 1) (snd (history_bytes E vals) @ to_bytes (bs_nested (ee_bits E)) (bs_data (ee_bits E) v)) =
        Some (Inr (history_bytes E vs))" if "f E l it' (vals @ [v]) = Some (Inr vs)" for it' v vs
      using 1(1) [OF that] by (simp add: history_bytes_def add.commute)
    show ?case using 1(2) by (subst history_from.simps) (auto simp: IH split: option.splits sum.splits if_splits prod.splits)
  qed
  then show ?thesis using assms by fastforce
qed

lemma find_loop_collect:
  assumes "collect_found E l projection lim key it xs = Some (Inr ys)"
  shows "find_loop E l projection lim key it (fst (found_bytes (ee_bits E) xs)) (snd (found_bytes (ee_bits E) xs)) =
    Some (Inr (found_bytes (ee_bits E) ys))"
proof -
  have "case r of Inl e \<Rightarrow> True | Inr ys \<Rightarrow>
      find_loop E l projection lim key it (fst (found_bytes (ee_bits E) xs)) (snd (found_bytes (ee_bits E) xs)) = Some (Inr (found_bytes (ee_bits E) ys))"
    if "collect_found E l projection lim key it xs = Some r" for r
  proof (rule collect_found.raw_induct [OF _ that, where P = "\<lambda>E l projection lim key it xs r. case r of Inl e \<Rightarrow> True | Inr ys \<Rightarrow>
      find_loop E l projection lim key it (fst (found_bytes (ee_bits E) xs)) (snd (found_bytes (ee_bits E) xs)) = Some (Inr (found_bytes (ee_bits E) ys))"], goal_cases)
    case (1 f E l projection lim key it xs r)
    have IH: "find_loop E l projection lim key' it' (1 + fst (found_bytes (ee_bits E) xs))
          (snd (found_bytes (ee_bits E) xs) @ found_object E projection key' eid d) = Some (Inr (found_bytes (ee_bits E) ys))"
      if "f E l projection lim key' it' (xs @ [(key', eid, projected E projection d)]) = Some (Inr ys)" for key' it' eid d ys
      using 1(1) [OF that] by (simp add: found_bytes_def found_object_def projected_def)
    have last: "found_bytes (ee_bits E) (xs @ [(key', eid, projected E projection d)]) =
        (1 + fst (found_bytes (ee_bits E) xs), snd (found_bytes (ee_bits E) xs) @ found_object E projection key' eid d)" for key' eid d
      by (simp add: found_bytes_def found_object_def projected_def)
    have num: "word_of_nat (length xs) = fst (found_bytes (ee_bits E) xs)" by (simp add: found_bytes_def)
    show ?case
      using 1(2) by (subst find_loop.simps)
        (auto simp: IH last num Let_def add.commute split: option.splits sum.splits prod.splits if_splits)
  qed
  then show ?thesis using assms by fastforce
qed

section \<open>Requests and answers on the wire\<close>

lemma obind_eq_Inr: "obind r f = Some (Inr y) \<longleftrightarrow> (\<exists>x. r = Some (Inr x) \<and> f x = Inr y)"
  by (auto simp: obind_def rbind_def split: option.splits sum.splits)

lemma nested_document: "document_laws B \<Longrightarrow> to_bytes (bs_nested B) (bs_data B v) = to_bytes (bs_document B) v"
  by (metis document_laws_def)

interpretation document_format: stream_format "to_bytes (bs_document B)" "receive (bs_document B)" "\<lambda>d. wire_laws B \<and> small (bs_data B d)" for B
  by unfold_locales simp

interpretation found_format: stream_format
  "\<lambda>(key, eid, d). to_bytes (bs_string B) key @ to_bytes (bs_event B) eid @ to_bytes (bs_document B) d" "read_found B"
  "\<lambda>(key, eid, d). wire_laws B \<and> small key \<and> small (bs_data B d)" for B
  by unfold_locales (auto simp: read_found_def)

lemma read_value_document:
  assumes "wire_laws B" "document_laws B" "small (bs_data B d)"
  shows "read_value_then B (to_bytes (bs_document B) d) s f = f d"
proof -
  have "bs_raw B (length (bs_data B d)) (bs_data B d) = Some (bs_data B d, [])" using wire_reads(12) [OF assms(1) refl, of "bs_data B d" "[]"] by simp
  then show ?thesis using assms by (simp add: read_value_then_def document_laws_def)
qed

lemma parse_list_round_trip:
  assumes "wire_laws B" "small ds" "list_all (\<lambda>d. small (bs_data B d)) ds"
  shows "parse_list B (to_bytes (bs_bool B) True @ to_bytes (bs_u32 B) (word_of_nat (length ds)) @ concat (map (to_bytes (bs_document B)) ds)) = Inr (True, ds)"
proof -
  have "list_all (\<lambda>d. wire_laws B \<and> small (bs_data B d)) ds" using assms by (simp add: list_all_iff)
  from document_format.list_round_trip [OF this, of "[]"] show ?thesis using assms by (simp add: parse_list_def)
qed

lemma parse_found_round_trip:
  assumes "wire_laws B" "small xs" "list_all (\<lambda>(key, eid, d). small key \<and> small (bs_data B d)) xs"
  shows "parse_internal_find B (to_bytes (bs_u32 B) (fst (found_bytes B xs)) @ snd (found_bytes B xs)) = Inr xs"
proof -
  have "list_all (\<lambda>(key, eid, d). wire_laws B \<and> small key \<and> small (bs_data B d)) xs" using assms by (auto simp: list_all_iff)
  from found_format.list_round_trip [OF this, of "[]"] show ?thesis using assms by (simp add: parse_internal_find_def found_bytes_def)
qed

lemmas call_defs = c_has_object_def c_check_def c_get_with_eid_def c_put_def c_add_def c_remove_def c_put_and_generate_key_def c_get_history_def
  c_count_def c_internal_find_def c_create_index_def c_drop_index_def c_clear_def map_call_def named_def find_body_def
  parse_bool_def parse_event_id_def parse_size_def parse_last_def parse_put_without_key_def

lemmas handler_defs = handle_request_upstream_mode_def handle_request_has_object_def handle_request_check_object_def handle_request_get_object_def
  handle_put_or_add_def handle_remove_def handle_put_without_key_def handle_history_def handle_count_def handle_find_def
  handle_create_index_def handle_drop_index_def handle_clear_def reply_def reply_changed_def answer_def answer_changed_def

text \<open>Reading an object: whatever the ledger returns, the client gets it or the exception that says there is none.\<close>

lemma get_reply:
  assumes W: "wire_laws (ee_bits E)" and got: "get_answer path r = Inr a"
  shows "\<exists>out. object_reply E False s r = Inr out \<and> ((\<forall>x. a = Inr x \<longrightarrow> answer_fits (ee_bits E) x) \<longrightarrow>
     rbind (rbind (parse_get (ee_bits E) out) (\<lambda>(eid, d). case d of None \<Rightarrow> Inl (failed_to_get path) | Some doc \<Rightarrow> Inr (doc, eid)))
       (\<lambda>(doc, eid). Inr (DocAnswer doc eid)) = a)"
  using assms by (cases r; cases "snd r") (auto simp: object_reply_def get_answer_def parse_get_def split: if_splits)

definition serves :: "('d, 'z) enclave_env_scheme \<Rightarrow> remote_party_id \<Rightarrow> op_context \<Rightarrow> 'd app_answer call \<Rightarrow> 'd enclave \<Rightarrow> 'd app_answer result \<Rightarrow> 'd enclave \<Rightarrow> bool" where
  "serves E party ctx m s a s' \<longleftrightarrow>
     (case m of (t, body, parse) \<Rightarrow> t \<noteq> CallProgram \<and> t \<noteq> ExecuteCode \<and>
        (\<exists>out. handle_request_upstream_mode E party ctx (Some t) body s = Some (Inr (out, s')) \<and>
           ((\<forall>x. a = Inr x \<longrightarrow> answer_fits (ee_bits E) x) \<longrightarrow> parse out = a)))"

lemma serves_get:
  assumes laws: "wire_laws (ee_bits E)" and fits: "call_request_fits (ee_bits E) (AppGet name path)"
    and run: "local_call E ctx (AppGet name path) s = Some (Inr (a, s'))"
  shows "serves E party ctx (app_call (ee_bits E) (AppGet name path)) s a s'"
proof -
  obtain key p where path: "parse_path path = (key, p)" by (cases "parse_path path")
  have "pbind (obind (first_value E ctx name key p (ledger_of s)) (get_answer path)) (\<lambda>x. Some (Inr (x, s))) = Some (Inr (a, s'))"
    using run path by (simp add: answer_def)
  then obtain r where r: "first_value E ctx name key p (ledger_of s) = Some (Inr r)" "get_answer path r = Inr a" "s' = s"
    unfolding pbind_eq_Some obind_eq_Inr by blast
  obtain out where out: "object_reply E False s r = Inr out"
    "(\<forall>x. a = Inr x \<longrightarrow> answer_fits (ee_bits E) x) \<Longrightarrow>
       rbind (rbind (parse_get (ee_bits E) out) (\<lambda>(eid, d). case d of None \<Rightarrow> Inl (failed_to_get path) | Some doc \<Rightarrow> Inr (doc, eid)))
         (\<lambda>(doc, eid). Inr (DocAnswer doc eid)) = a"
    using get_reply [OF laws r(2), of s] by blast
  have "handle_request_upstream_mode E party ctx (Some GetObject) (named (ee_bits E) name path) s = Some (Inr (out, s'))"
    using out(1) r laws fits path by (simp add: named_def handler_defs)
  then show ?thesis using out(2) by (simp add: serves_def c_get_with_eid_def map_call_def)
qed

lemma serves_write:
  assumes laws: "wire_laws (ee_bits E)" "document_laws (ee_bits E)" and fits: "small name" "small path" "small (bs_data (ee_bits E) doc)"
    and t: "t = PutObject \<or> t = AddToObject" and run: "local_write E ctx t name path doc s = Some (Inr (a, s'))"
  shows "serves E party ctx (map_call (Inr \<circ> EventAnswer) (t, named (ee_bits E) name path @ to_bytes (bs_document (ee_bits E)) doc, parse_event_id (ee_bits E))) s a s'"
proof -
  obtain key p where path: "parse_path path = (key, p)" by (cases "parse_path path")
  obtain allowed where allowed: "write_allowed E name (key, p) s = Inr allowed"
    using run path by (auto simp: local_write_def pbind_eq_Some)
  obtain eid where a: "a = Inr (EventAnswer eid)" and "handle_put_or_add E ctx t (named (ee_bits E) name path @ to_bytes (bs_document (ee_bits E)) doc) s =
      Some (Inr (to_bytes (bs_event (ee_bits E)) eid, s'))"
    using run path allowed laws fits
    by (cases allowed) (auto simp: local_write_def handle_put_or_add_def named_def read_value_document answer_changed_def reply_changed_def pbind_def
        split: option.splits sum.splits)
  then show ?thesis using t laws by (auto simp: serves_def map_call_def parse_event_id_def parse_last_def handle_request_upstream_mode_def)
qed

lemma put_without_key_key:
  assumes "put_without_key E ctx collection keys to_put nested l = Some (Inr (eid, key, l'))"
  shows "\<exists>n. key = keys n"
proof -
  have "case r of Inl e \<Rightarrow> True | Inr (eid, key, l') \<Rightarrow> \<exists>n. key = keys n" if "put_fresh_key E ctx collection keys to_put n l = Some r" for n r
    by (rule put_fresh_key.raw_induct [OF _ that, where P = "\<lambda>E ctx collection keys to_put n l r. case r of Inl e \<Rightarrow> True | Inr (eid, key, l') \<Rightarrow> \<exists>n. key = keys n"])
       (fastforce split: sum.splits if_splits prod.splits)
  then show ?thesis using assms by (fastforce simp: put_without_key_def rbind_def split: option.splits sum.splits if_splits)
qed

lemma serves_lists:
  assumes laws: "wire_laws (ee_bits E)" "document_laws (ee_bits E)" and fits: "call_request_fits (ee_bits E) req"
    and req: "req = AppHistory name key \<or> req = AppFind name predicates projection lim"
    and run: "local_call E ctx req s = Some (Inr (a, s'))"
  shows "serves E party ctx (app_call (ee_bits E) req) s a s'"
  using req
proof
  assume req: "req = AppHistory name key"
  let ?B = "ee_bits E"
  obtain it vs where it: "iterate E ctx name key [] (ledger_of s) = Some (Inr it)" "collect_history E (ledger_of s) it [] = Some (Inr vs)"
    "a = Inr (DocsAnswer vs)" "s' = s"
    using run req by (auto simp: answer_def pbind_eq_Some)
  have "snd (history_bytes E vs) = concat (map (to_bytes (bs_document ?B)) vs)"
    by (simp add: history_bytes_def nested_document [OF laws(2)])
  then show ?thesis
    using history_from_collect [OF it(2)] it laws fits req parse_list_round_trip [OF laws(1), of vs]
    by (auto simp: serves_def call_defs handler_defs history_bytes_def)
next
  assume req: "req = AppFind name predicates projection lim"
  obtain it xs where it: "lim \<noteq> 0" "ledger_find E (tx_order E) ctx name predicates (ledger_of s) = Inr it"
    "collect_found E (ledger_of s) projection lim [] it [] = Some (Inr xs)" "a = Inr (FoundAnswer xs)" "s' = s"
    using run req by (auto simp: answer_def pbind_eq_Some split: if_splits)
  show ?thesis
    using find_loop_collect [OF it(3)] it laws fits req parse_found_round_trip [OF laws(1), of xs]
    by (auto simp: serves_def call_defs handler_defs found_bytes_def)
qed

lemma request_served:
  assumes laws: "wire_laws (ee_bits E)" "document_laws (ee_bits E)" and fits: "call_request_fits (ee_bits E) req"
    and keys: "\<forall>n. small (ee_keys E n)" and run: "local_call E ctx req s = Some (Inr (a, s'))"
  shows "serves E party ctx (app_call (ee_bits E) req) s a s'"
proof (cases req)
  case (AppGet name path)
  then show ?thesis using serves_get [of E name path] assms by simp
next
  case (AppPut name path doc)
  then show ?thesis using serves_write [OF laws, of name path doc PutObject] fits run by (simp add: c_put_def)
next
  case (AppAdd name path doc)
  then show ?thesis using serves_write [OF laws, of name path doc AddToObject] fits run by (simp add: c_add_def)
next
  case (AppHistory name key)
  then show ?thesis using serves_lists [OF laws fits] run by blast
next
  case (AppFind name predicates projection lim)
  then show ?thesis using serves_lists [OF laws fits] run by blast
next
  case (AppPutNew name doc)
  then obtain eid key l where r: "put_without_key E ctx name (ee_keys E) doc False (ledger_of s) = Some (Inr (eid, key, l))" "s' = set_ledger l s"
    "a = (if is_valid eid then Inr (KeyAnswer key eid) else Inl (RuntimeError ''Put failed!''))"
    using run by (auto simp: answer_changed_def pbind_eq_Some obind_eq_Inr)
  moreover have "small key" using put_without_key_key [OF r(1)] keys by blast
  ultimately show ?thesis
    using AppPutNew laws fits by (simp add: serves_def call_defs handler_defs read_value_document)
qed (use assms in \<open>auto simp: serves_def call_defs handler_defs pbind_eq_Some split: prod.splits\<close>)

section \<open>Sequences of calls\<close>

fun local_calls :: "('d, 'z) enclave_env_scheme \<Rightarrow> op_context \<Rightarrow> 'd app_request list \<Rightarrow> 'd enclave \<Rightarrow> ('d app_answer result list \<times> 'd enclave) result option" where
  "local_calls E ctx [] s = Some (Inr ([], s))"
| "local_calls E ctx (req # reqs) s =
     pbind (local_call E ctx req s) (\<lambda>(a, s1). pbind (local_calls E ctx reqs s1) (\<lambda>(as, s2). Some (Inr (a # as, s2))))"

fun remote_calls ::
  "('d, 'y) enclave_env_scheme \<Rightarrow> ('d, 'z) session_env_scheme \<Rightarrow> ('d, 'v, 'w) client_env_scheme \<Rightarrow> remote_party_id \<Rightarrow> 'd app_request list \<Rightarrow>
     'f client_impl \<times> 'd server \<Rightarrow> ('d app_answer result list \<times> 'f client_impl \<times> 'd server) result option" where
  "remote_calls E S C party [] st = Some (Inr ([], st))"
| "remote_calls E S C party (req # reqs) st =
     pbind (exchange E S C party (app_call (ch_bits C) req) st) (\<lambda>(a, st1).
     pbind (remote_calls E S C party reqs st1) (\<lambda>(as, st2). Some (Inr (a # as, st2))))"

text \<open>Every request and every answer fits into a frame, whose length has 32 bits.\<close>

definition call_fits ::
  "('d, 'z) enclave_env_scheme \<Rightarrow> remote_party_id \<Rightarrow> op_context \<Rightarrow> u32 \<Rightarrow> 'd app_request \<Rightarrow> 'd enclave \<Rightarrow> bool" where
  "call_fits E party ctx op_id req s \<longleftrightarrow>
     call_request_fits (ee_bits E) req \<and>
     (case app_call (ee_bits E) req of (t, body, parse) \<Rightarrow>
        small (generate_op_request (ee_bits E) op_id t @ body) \<and>
        (\<forall>out s'. handle_request_upstream_mode E party ctx (Some t) body s = Some (Inr (out, s')) \<longrightarrow> small (answer_message (ee_bits E) 0 op_id out)))"

fun calls_fit ::
  "('d, 'z) enclave_env_scheme \<Rightarrow> remote_party_id \<Rightarrow> op_context \<Rightarrow> u32 \<Rightarrow> 'd app_request list \<Rightarrow> 'd enclave \<Rightarrow> bool" where
  "calls_fit E party ctx op_id [] s = True"
| "calls_fit E party ctx op_id (req # reqs) s \<longleftrightarrow>
     call_fits E party ctx op_id req s \<and>
     (\<forall>a s'. local_call E ctx req s = Some (Inr (a, s')) \<longrightarrow> (\<forall>x. a = Inr x \<longrightarrow> answer_fits (ee_bits E) x) \<and> calls_fit E party ctx (op_id + 1) reqs s')"

lemma set_ledger_same [simp]: "set_ledger (ledger_of s) s = s"
  by (simp add: set_ledger_def ledger_of_def)

lemma answer_changed_ledger: "answer_changed f s r = Some (Inr (a, s')) \<Longrightarrow> \<exists>l. s' = set_ledger l s"
  by (auto simp: answer_changed_def pbind_eq_Some)

lemma local_call_ledger:
  assumes "local_call E ctx req s = Some (Inr (a, s'))"
  shows "\<exists>l. s' = set_ledger l s"
proof (cases "s' = s")
  case False
  then show ?thesis
    using assms by (cases req) (auto simp: answer_def pbind_eq_Some local_write_def dest: answer_changed_ledger split: prod.splits if_splits)
qed (metis set_ledger_same)

lemma linked_next: "linked E S C party i c sv \<Longrightarrow> linked E S C party i (sent_call c) (sv\<lparr>sv_enclave := set_ledger l (sv_enclave sv)\<rparr>)"
  by (simp add: linked_def sent_call_def party_identity_def set_ledger_def)

lemma exchange_local:
  assumes link: "linked E S C party i c sv" and laws: "document_laws (ee_bits E)" "\<forall>n. small (ee_keys E n)"
    and fits: "call_fits E party (client_context i) (cl_next_operation_id c) req (sv_enclave sv)"
    and run: "local_call E (client_context i) req (sv_enclave sv) = Some (Inr (a, s'))" "\<forall>x. a = Inr x \<longrightarrow> answer_fits (ee_bits E) x"
  shows "exchange E S C party (app_call (ch_bits C) req) (c, sv) = Some (Inr (a, sent_call c, sv\<lparr>sv_enclave := s'\<rparr>)) \<and>
    linked E S C party i (sent_call c) (sv\<lparr>sv_enclave := s'\<rparr>)"
proof -
  obtain t body parse where m: "app_call (ee_bits E) req = (t, body, parse)" by (cases "app_call (ee_bits E) req")
  have W: "wire_laws (ee_bits E)" and B: "ch_bits C = ee_bits E" using link by (auto simp: linked_def channel_laws_def)
  have "call_request_fits (ee_bits E) req" using fits by (simp add: call_fits_def)
  from request_served [OF W laws(1) this laws(2) run(1), of party] obtain out where
    out: "handle_request_upstream_mode E party (client_context i) (Some t) body (sv_enclave sv) = Some (Inr (out, s'))" "parse out = a"
      "t \<noteq> CallProgram" "t \<noteq> ExecuteCode"
    using run(2) by (auto simp: serves_def m)
  have "exchange E S C party (t, body, parse) (c, sv) = Some (Inr (parse out, sent_call c, sv\<lparr>sv_enclave := s'\<rparr>))"
    using exchange_correct [OF link out(1,3,4)] fits out(1) by (simp add: call_fits_def m)
  moreover obtain l where "s' = set_ledger l (sv_enclave sv)" using local_call_ledger [OF run(1)] by blast
  ultimately show ?thesis using out(2) B m linked_next [OF link, of l] by simp
qed

text \<open>
  Property C8. Calling the server is calling the ledger. Let a client and its session share a key. Any sequence of operations on
  collections that the application calls, with reads and writes by key and path, queries, histories, indexes and clear,
  returns exactly the answers and exceptions that the same operations return when they are executed one after the other on the ledger
  under the identity of the client, and leaves the ledger in the same state; nothing else of the server changes, and the
  client is ready for the next call. This holds whenever messages and documents are below \<open>2 ^ 32\<close> bytes, also after the 32-bit operation
  identifiers have wrapped around.
\<close>

theorem remote_calls_are_local_calls:
  assumes "linked E S C party i c sv" and "document_laws (ee_bits E)" and "\<forall>n. small (ee_keys E n)"
    and "calls_fit E party (client_context i) (cl_next_operation_id c) reqs (sv_enclave sv)"
    and "local_calls E (client_context i) reqs (sv_enclave sv) = Some (Inr (answers, s'))"
  shows "\<exists>c'. remote_calls E S C party reqs (c, sv) = Some (Inr (answers, c', sv\<lparr>sv_enclave := s'\<rparr>)) \<and>
    linked E S C party i c' (sv\<lparr>sv_enclave := s'\<rparr>)"
  using assms
proof (induction reqs arbitrary: c sv answers s')
  case (Cons req reqs)
  obtain a s1 as where one: "local_call E (client_context i) req (sv_enclave sv) = Some (Inr (a, s1))"
    and rest: "local_calls E (client_context i) reqs s1 = Some (Inr (as, s'))" "answers = a # as"
    using Cons.prems(5) by (auto simp: pbind_eq_Some)
  have fits: "\<forall>x. a = Inr x \<longrightarrow> answer_fits (ee_bits E) x" "calls_fit E party (client_context i) (cl_next_operation_id (sent_call c)) reqs s1"
    "call_fits E party (client_context i) (cl_next_operation_id c) req (sv_enclave sv)"
    using Cons.prems(4) one by (auto simp: sent_call_def)
  note first = exchange_local [OF Cons.prems(1-3) fits(3) one fits(1)]
  show ?case using Cons.IH [OF _ Cons.prems(2,3), of "sent_call c" "sv\<lparr>sv_enclave := s1\<rparr>" as s'] first fits(2) rest by auto
qed simp

end
