(* ===== verification/Wire_Example.thy ===== *)
theory Wire_Example
  imports Wire Json_Example
begin

text \<open>
  A concrete bit stream library, for evaluating messages on concrete inputs: numbers in little-endian bytes, lists and documents
  after their length in four bytes. It satisfies the laws that \<open>Wire\<close> states.
\<close>

section \<open>Numbers\<close>

fun nat_bytes :: "nat \<Rightarrow> nat \<Rightarrow> u8 list" where
  "nat_bytes 0 v = []"
| "nat_bytes (Suc n) v = word_of_nat (v mod 256) # nat_bytes n (v div 256)"

fun bytes_nat :: "u8 list \<Rightarrow> nat" where
  "bytes_nat [] = 0"
| "bytes_nat (b # bs) = unat b + 256 * bytes_nat bs"

definition raw_bytes :: "nat \<Rightarrow> u8 list \<Rightarrow> (u8 list \<times> u8 list) option" where
  "raw_bytes n bs = (if length bs < n then None else Some (take n bs, drop n bs))"

lemma length_nat_bytes [simp]: "length (nat_bytes n v) = n"
  by (induction n arbitrary: v) simp_all

lemma bytes_nat_bytes: "v < 256 ^ n \<Longrightarrow> bytes_nat (nat_bytes n v) = v"
proof (induction n arbitrary: v)
  case (Suc n)
  have "v div 256 < 256 ^ n" using Suc.prems by (simp add: less_mult_imp_div_less mult.commute)
  moreover have "unat (word_of_nat (v mod 256) :: u8) = v mod 256" by (rule unat_char_byte) simp
  ultimately show ?case using Suc.IH by simp
qed simp

lemma raw_bytes_append [simp]: "length bs = n \<Longrightarrow> raw_bytes n (bs @ rest) = Some (bs, rest)"
  by (simp add: raw_bytes_def)

section \<open>Codecs\<close>

definition word_codec :: "nat \<Rightarrow> ('a :: len) word codec" where
  "word_codec n = \<lparr>to_bytes = (\<lambda>w. nat_bytes n (unat w)), of_bytes = (\<lambda>bs. map_option (apfst (\<lambda>b. word_of_nat (bytes_nat b))) (raw_bytes n bs))\<rparr>"

definition pair_codec :: "'a codec \<Rightarrow> 'b codec \<Rightarrow> ('a \<times> 'b) codec" where
  "pair_codec c c' = \<lparr>to_bytes = (\<lambda>(x, y). to_bytes c x @ to_bytes c' y),
     of_bytes = (\<lambda>bs. case of_bytes c bs of None \<Rightarrow> None | Some (x, bs1) \<Rightarrow> map_option (apfst (Pair x)) (of_bytes c' bs1))\<rparr>"

definition map_codec :: "('b \<Rightarrow> 'a) \<Rightarrow> ('a \<Rightarrow> 'b) \<Rightarrow> 'a codec \<Rightarrow> 'b codec" where
  "map_codec f g c = \<lparr>to_bytes = to_bytes c \<circ> f, of_bytes = map_option (apfst g) \<circ> of_bytes c\<rparr>"

fun read_elements :: "nat \<Rightarrow> 'a codec \<Rightarrow> u8 list \<Rightarrow> ('a list \<times> u8 list) option" where
  "read_elements 0 c bs = Some ([], bs)"
| "read_elements (Suc n) c bs =
     (case of_bytes c bs of None \<Rightarrow> None | Some (x, bs1) \<Rightarrow> map_option (apfst (Cons x)) (read_elements n c bs1))"

definition list_codec :: "'a codec \<Rightarrow> 'a list codec" where
  "list_codec c = \<lparr>to_bytes = (\<lambda>xs. nat_bytes 4 (length xs) @ concat (map (to_bytes c) xs)),
     of_bytes = (\<lambda>bs. case raw_bytes 4 bs of None \<Rightarrow> None | Some (n, bs1) \<Rightarrow> read_elements (bytes_nat n) c bs1)\<rparr>"

lemma word_codec_law: "LENGTH('a) = 8 * n \<Longrightarrow> codec_law (\<lambda>_. True) (word_codec n :: ('a :: len) word codec)"
proof -
  assume n: "LENGTH('a) = 8 * n"
  have "unat w < 256 ^ n" for w :: "'a word"
    using unsigned_less [of w, where ?'a = nat] by (simp add: n power_mult)
  then show ?thesis by (simp add: codec_law_def word_codec_def bytes_nat_bytes)
qed

lemma pair_codec_law: "codec_law f c \<Longrightarrow> codec_law g c' \<Longrightarrow> codec_law (\<lambda>(x, y). f x \<and> g y) (pair_codec c c')"
  by (simp add: codec_law_def pair_codec_def)

lemma map_codec_law: "codec_law fit c \<Longrightarrow> (\<And>x. fit' x \<Longrightarrow> fit (f x) \<and> g (f x) = x) \<Longrightarrow> codec_law fit' (map_codec f g c)"
  by (simp add: codec_law_def map_codec_def)

lemma list_codec_law: "codec_law fit c \<Longrightarrow> codec_law (\<lambda>xs. small xs \<and> list_all fit xs) (list_codec c)"
proof -
  assume c: "codec_law fit c"
  have "list_all fit xs \<Longrightarrow> read_elements (length xs) c (concat (map (to_bytes c) xs) @ rest) = Some (xs, rest)" for xs rest
    using c by (induction xs) (simp_all add: codec_law_def)
  then show ?thesis by (simp add: codec_law_def list_codec_def small_def bytes_nat_bytes)
qed

lemma codec_law_weaken: "codec_law fit c \<Longrightarrow> (\<And>x. fit' x \<Longrightarrow> fit x) \<Longrightarrow> codec_law fit' c"
  by (auto simp: codec_law_def)

section \<open>The library\<close>

definition byte_codec :: "u8 codec" where "byte_codec = word_codec 1"

definition order_results :: "OrderResult list" where
  "order_results = [Unknown, Equal, OlderThan, NewerThan, Concurrent]"

definition string_codec :: "string codec" where
  "string_codec = map_codec (map (\<lambda>c. word_of_nat (of_char c))) (map (\<lambda>b. char_of (unat b))) (list_codec byte_codec)"

definition event_codec :: "event_id_t codec" where
  "event_codec = map_codec (\<lambda>e. (ev_shard e, ev_index e, ev_block e)) (\<lambda>(s, i, b). \<lparr>ev_shard = s, ev_index = i, ev_block = b\<rparr>)
     (pair_codec (word_codec 2) (pair_codec (word_codec 2) (word_codec 4)))"

definition nat_bits :: "nat bitstream_lib" where
  "nat_bits =
     \<lparr>bs_bool = map_codec (\<lambda>b. if b then 1 else 0) (\<lambda>w. w \<noteq> 0) byte_codec, bs_u8 = byte_codec, bs_u32 = word_codec 4, bs_u64 = word_codec 8,
      bs_i32 = map_codec (\<lambda>i. word_of_int i :: u32) sint (word_codec 4), bs_string = string_codec, bs_strings = list_codec string_codec,
      bs_event = event_codec, bs_events = list_codec event_codec,
      bs_order = map_codec (enum_number order_results) (\<lambda>n. the (enum_value order_results n)) byte_codec,
      bs_signature = \<lparr>to_bytes = id, of_bytes = raw_bytes 64\<rparr>, bs_raw = raw_bytes, bs_nested = list_codec byte_codec,
      bs_document = map_codec (\<lambda>d. replicate d 1) length (list_codec byte_codec), bs_data = (\<lambda>d. replicate d 1), bs_of_data = length\<rparr>"

lemma byte_codec_law: "codec_law (\<lambda>_. True) byte_codec"
  unfolding byte_codec_def by (rule word_codec_law) simp

lemma nested_law: "codec_law small (list_codec byte_codec)"
  by (rule codec_law_weaken [OF list_codec_law [OF byte_codec_law]]) (simp add: list_all_iff)

lemma string_codec_law: "codec_law small string_codec"
  unfolding string_codec_def by (rule map_codec_law [OF nested_law]) (simp add: small_def comp_def unat_char_byte)

lemma event_codec_law: "codec_law (\<lambda>_. True) event_codec"
proof -
  have "codec_law (\<lambda>_. True) (word_codec 2 :: u16 codec)" "codec_law (\<lambda>_. True) (word_codec 4 :: u32 codec)"
    by (rule word_codec_law, simp)+
  from pair_codec_law [OF this(1) pair_codec_law [OF this]] show ?thesis
    unfolding event_codec_def by (rule map_codec_law) simp
qed

lemma nat_bits_wire: "wire_laws nat_bits"
proof -
  have u32: "codec_law (\<lambda>_. True) (word_codec 4 :: u32 codec)" and u64: "codec_law (\<lambda>_. True) (word_codec 8 :: u64 codec)"
    by (rule word_codec_law, simp)+
  have i32: "codec_law (\<lambda>i. - (2 ^ 31) \<le> i \<and> i < 2 ^ 31) (map_codec (\<lambda>i. word_of_int i :: u32) sint (word_codec 4))"
    by (rule map_codec_law [OF u32]) (simp add: sint_sbintrunc' signed_take_bit_int_eq_self)
  have order: "codec_law (\<lambda>_. True) (map_codec (enum_number order_results) (\<lambda>n. the (enum_value order_results n)) byte_codec)"
  proof (rule map_codec_law [OF byte_codec_law])
    fix r :: OrderResult
    have "r \<in> set order_results" by (cases r) (simp_all add: order_results_def)
    moreover have "length order_results \<le> 256" by (simp add: order_results_def)
    ultimately show "True \<and> the (enum_value order_results (enum_number order_results r)) = r" by (simp add: enum_value_number)
  qed
  have strings: "codec_law (\<lambda>ss. small ss \<and> list_all small ss) (list_codec string_codec)" by (rule list_codec_law [OF string_codec_law])
  have events: "codec_law small (list_codec event_codec)"
    by (rule codec_law_weaken [OF list_codec_law [OF event_codec_law]]) (simp add: list_all_iff)
  have bool: "codec_law (\<lambda>_. True) (map_codec (\<lambda>b. if b then 1 else 0) (\<lambda>w. w \<noteq> 0) byte_codec)"
    by (rule map_codec_law [OF byte_codec_law]) simp
  have doc: "codec_law (\<lambda>d. small (replicate d (1 :: u8))) (map_codec (\<lambda>d. replicate d 1) length (list_codec byte_codec))"
    by (rule map_codec_law [OF nested_law]) simp
  show ?thesis
    unfolding wire_laws_def nat_bits_def bitstream_lib.simps
    by (intro conjI bool byte_codec_law u32 u64 i32 string_codec_law strings event_codec_law events order nested_law doc)
       (simp_all add: codec_law_def)
qed

lemma nat_bits_document: "document_laws nat_bits"
proof -
  have "nat_bytes 4 n = nat_bytes 4 (unat (word_of_nat n :: u32))" for n
  proof -
    have "unat (word_of_nat n :: u32) = n mod 256 ^ 4" by (simp add: unat_of_nat take_bit_eq_mod)
    moreover have "nat_bytes k (n mod 256 ^ k) = nat_bytes k n" for k n
    proof (induction k arbitrary: n)
      case (Suc k)
      have "n mod 256 ^ Suc k mod 256 = n mod 256" by (simp add: mod_mod_cancel)
      moreover have "n mod 256 ^ Suc k div 256 = n div 256 mod 256 ^ k" unfolding power_Suc mod_mult2_eq by simp
      ultimately show ?case using Suc.IH [of "n div 256"] by simp
    qed simp
    ultimately show ?thesis by metis
  qed
  moreover have "concat (map (to_bytes byte_codec) bs) = bs" for bs
  proof (induction bs)
    case (Cons b bs)
    have "unat b mod 256 = unat b" using unsigned_less [of b, where ?'a = nat] by simp
    then show ?case using Cons.IH by (simp add: byte_codec_def word_codec_def numeral_One)
  qed simp
  ultimately show ?thesis
    by (simp add: document_laws_def nat_bits_def map_codec_def list_codec_def word_codec_def)
qed

end
