(* ===== verification/Remote_Example.thy ===== *)
theory Remote_Example
  imports Remote_Call Wire_Example Transaction_System
begin

text \<open>
  A concrete server with one connected client, on concrete libraries, and what the properties of sessions and of the client
  library say about it.
\<close>

section \<open>A server and a client\<close>

definition no_witness_lib :: "nat witness_lib" where
  "no_witness_lib = \<lparr>wl_document = (\<lambda>_. []), wl_operations = (\<lambda>_. Inr []), wl_put = (@), wl_get = (\<lambda>_. Inl JsonError), wl_sign = (\<lambda>_. None),
     wl_verify = (\<lambda>_ _ _. False)\<rparr>"

definition remote_env :: "nat enclave_env" where
  "remote_env = tx_env.extend tx_nat_env (enclave_env.fields nat_bits no_witness_lib 9 \<lparr>id_type = Server, id_name = ''server''\<rparr> (\<lambda>_. ''key'') (\<lambda>_. 0)
     (\<lambda>_. 0) (\<lambda>_ _. []) (\<lambda>_ _ _ _ _ _. None) (\<lambda>_ _ _. None) (\<lambda>_. None))"

definition example_channel :: "nat channel" where
  "example_channel = \<lparr>ch_gcm = example_gcm, ch_bits = nat_bits, ch_residue = (\<lambda>p. replicate (length p) 0)\<rparr>"

definition session_side :: "nat session_env" where
  "session_side = channel.extend example_channel (session_env.fields (\<lambda>_. 7) (\<lambda>_. None) 4 (replicate 16 0))"

definition example_attest :: attest_lib where
  "example_attest = \<lparr>al_key_pair = Some ([1], [2]), al_shared = (\<lambda>_ _. Some [3]), al_sign = (\<lambda>_ _. Some []), al_cmac = (\<lambda>_ _. Some (replicate 16 0)),
     al_sha = (\<lambda>_. Some (replicate 32 0)), al_msg1_size = 4, al_msg1_g_a = id, al_msg2 = (@), al_msg3_g_a = id, al_msg3_mac = take 16,
     al_msg3_report = id, al_info_blob = []\<rparr>"

definition client_side :: "(nat, nat) client_env" where
  "client_side = channel.extend example_channel (client_env.fields example_attest length (\<lambda>_. Inr 0))"

definition example_keys :: dh_keys where
  "example_keys = \<lparr>dk_other_public = [5], dk_public = [2], dk_private = [1], dk_smk = [], dk_mk = [], dk_sk = replicate 16 8, dk_vk = []\<rparr>"

definition connected_client :: "nat client_impl" where
  "connected_client = (new_client ''alice'' ''server'' False ([1], [2]) example_keys)\<lparr>cl_state := Connected\<rparr>"

definition alice_known :: known_identity where
  "alice_known = \<lparr>ki_identity = \<lparr>id_type = Server, id_name = ''alice''\<rparr>, ki_key = [2]\<rparr>"

definition example_enclave :: "nat enclave" where
  "example_enclave = \<lparr>en_world = empty_world, en_downstream = False, en_triggers = [], en_peers = [], en_next_task = 3, en_upstream_op = 1\<rparr>"

definition example_server :: "nat server" where
  "example_server = \<lparr>sv_enclave = example_enclave, sv_identities = [(''alice'', alice_known)],
     sv_parties = no_parties\<lparr>m_remote_parties := [(4, \<lparr>rp_is_peer = False, rp_hostname = [], rp_port = 0, rp_peer_type = ClientPeer, rp_identity = Some alice_known\<rparr>)]\<rparr>,
     sv_sessions = [4 \<mapsto> \<lparr>cs_state = IsConnected, cs_sk_key = replicate 16 8\<rparr>]\<rparr>"

lemma side_fields [simp]:
  "ch_gcm session_side = example_gcm" "ch_bits session_side = nat_bits" "ch_residue session_side p = replicate (length p) 0"
  "ch_gcm client_side = example_gcm" "ch_bits client_side = nat_bits" "ce_attest client_side = example_attest"
  "ee_bits remote_env = nat_bits" "ee_keys remote_env n = ''key''"
  by (simp_all add: session_side_def client_side_def example_channel_def channel.defs session_env.defs client_env.defs remote_env_def tx_env.defs enclave_env.defs)

lemma remote_env_fields [simp]:
  "js_write remote_env = write_fields" "js_parse remote_env = parse_fields" "js_valid remote_env d" "js_empty remote_env d \<longleftrightarrow> d = 0" "js_path remote_env d p = 0"
  by (simp_all add: remote_env_def tx_nat_env_def nat_env_def ledger_env.defs tx_env.defs enclave_env.defs)

lemma sides_ok: "channel_laws session_side" "channel_laws client_side"
  by (simp_all add: channel_laws_def example_gcm_correct nat_bits_wire)

lemma example_linked: "linked remote_env session_side client_side 4 alice_known connected_client example_server"
  using sides_ok
  by (simp add: linked_def connected_client_def new_client_def example_keys_def example_server_def party_identity_def find_party_def no_parties_def example_enclave_def)

section \<open>Sizes\<close>

lemma nat_bits_lengths [simp]:
  "length (to_bytes (bs_u8 nat_bits) x) = 1" "length (to_bytes (bs_u32 nat_bits) y) = 4" "length (to_bytes (bs_bool nat_bits) b) = 1"
  "length (to_bytes (bs_event nat_bits) eid) = 8" "length (to_bytes (bs_string nat_bits) s) = 4 + length s" "length (bs_data nat_bits d) = d"
  "length (to_bytes (bs_document nat_bits) d) = 4 + d"
proof -
  have one: "length (to_bytes byte_codec x) = 1" for x by (simp add: byte_codec_def word_codec_def)
  show "length (to_bytes (bs_string nat_bits) s) = 4 + length s" "length (to_bytes (bs_document nat_bits) d) = 4 + d"
    by (simp_all add: nat_bits_def string_codec_def map_codec_def list_codec_def length_concat comp_def one map_replicate_const sum_list_replicate)
  show "length (to_bytes (bs_event nat_bits) eid) = 8"
    by (simp add: nat_bits_def event_codec_def map_codec_def pair_codec_def word_codec_def split: prod.splits)
qed (simp_all add: nat_bits_def byte_codec_def word_codec_def map_codec_def)

lemma header_lengths [simp]:
  "length (generate_op_request nat_bits op_id t) = 10" "length (answer_message nat_bits task op_id out) = 9 + length out"
  by (simp_all add: generate_op_request_def answer_message_def put_mtype_def)

section \<open>A request of a connected session\<close>

lemma nothing_stored: "has_object remote_env c k (ledger_of example_enclave) = Inr False"
proof -
  have "json_roundtrip remote_env" by (simp add: json_roundtrip_def write_fields_parse)
  from has_object_correct [OF new_ledger_rep [OF this]] show ?thesis by (simp add: ledger_of_def example_enclave_def empty_world_def)
qed


section \<open>What the client accepts\<close>

theorem forged_answer_accepted_witness:
  "\<exists>frame c'. party_encrypt client_side (Some (replicate 16 8)) (answer_message nat_bits 0 1 (to_bytes (bs_bool nat_bits) False)) = Some frame \<and>
     on_network_message client_side (put_etype nat_bits PlainText @ answer_message nat_bits 0 1 (to_bytes (bs_bool nat_bits) True)) connected_client = Inr ([], c') \<and>
     on_network_message client_side frame c' = Inr ([], c') \<and>
     end_call (c_has_object nat_bits ''c'' ''k'') 1 c' = Some (Inr True, connected_client)"
proof -
  let ?answer = "to_bytes (bs_bool nat_bits) False" and ?forged = "to_bytes (bs_bool nat_bits) True"
  have fits: "small (answer_message (ch_bits client_side) 0 1 ?answer)" by (simp add: small_def)
  have c: "cl_state connected_client = Connected" "\<not> cl_unsafe_mode connected_client" "map_of (cl_responses connected_client) 1 = None"
    "dk_sk (cl_keys connected_client) = replicate 16 8"
    by (simp_all add: connected_client_def new_client_def example_keys_def)
  obtain frame where "party_encrypt client_side (Some (dk_sk (cl_keys connected_client))) (answer_message (ch_bits client_side) 0 1 ?answer) = Some frame"
    using frame_round_trip [OF sides_ok(2) fits] by blast
  note forged_answer_accepted [OF sides_ok(2) c(1-3) this fits, of ?forged HasObject "to_bytes (bs_string nat_bits) ''c'' @ to_bytes (bs_string nat_bits) ''k''"
      "snd (snd (c_has_object nat_bits ''c'' ''k''))"] this
  moreover have "snd (snd (c_has_object nat_bits ''c'' ''k'')) ?forged = Inr True"
    using nat_bits_wire wire_reads(1) [OF nat_bits_wire, of True "[]"] by (simp add: c_has_object_def parse_bool_def parse_last_def)
  ultimately show ?thesis using c(4) by (auto simp: c_has_object_def named_def)
qed

theorem client_connects_unverified_witness:
  "\<exists>actions answer. on_network_message client_side
      (put_etype nat_bits Attestation @ put_mtype nat_bits AttestationMessage3 @ to_bytes (bs_u32 nat_bits) 16 @ replicate 16 1)
      (connected_client\<lparr>cl_state := WaitingForMsg3\<rparr>) =
    Inr (actions @ [SendBytes (put_etype nat_bits Attestation @ put_mtype nat_bits AttestationResult @ answer)], connected_client) \<and>
    LogError ''Error, g_a is not same'' \<in> set actions \<and> LogError ''Compare hash failed'' \<in> set actions"
proof -
  let ?c = "connected_client\<lparr>cl_state := WaitingForMsg3\<rparr>" and ?msg3 = "replicate 16 1 :: u8 list"
  have "cl_state ?c = WaitingForMsg3" "\<not> cl_unsafe_mode ?c" "?c\<lparr>cl_state := Connected\<rparr> = connected_client"
    "al_msg3_g_a (ce_attest client_side) ?msg3 \<noteq> dk_other_public (cl_keys ?c)" "al_msg3_report (ce_attest client_side) ?msg3 \<noteq> replicate 32 0 @ replicate 32 0"
    by (simp_all add: connected_client_def new_client_def example_keys_def example_attest_def numeral_eq_Suc)
  moreover have "MAC_SIZE \<le> length ?msg3" "small ?msg3" "al_sha (ce_attest client_side) d = Some (replicate 32 0)" for d
    by (simp_all add: MAC_SIZE_def small_def example_attest_def)
  ultimately show ?thesis using client_connects_unverified [of client_side ?c ?msg3 "replicate 32 0"] nat_bits_wire by fastforce
qed

section \<open>Calls\<close>

text \<open>The client stores an object and asks for it.\<close>

lemma example_local_calls:
  "\<exists>eid s. local_calls remote_env (client_context alice_known) [AppPut ''c'' ''k'' 7, AppHas ''c'' ''k''] example_enclave =
     Some (Inr ([Inr (EventAnswer eid), Inr (BoolAnswer True)], s))"
proof -
  let ?ctx = "client_context alice_known" and ?l = "new_ledger first_store"
  have l: "ledger_of example_enclave = ?l" by (simp add: ledger_of_def example_enclave_def empty_world_def)
  have rep: "ledger_rep remote_env ?l (\<lambda>_ _. [])" by (rule new_ledger_rep) (simp add: json_roundtrip_def write_fields_parse)
  have "length (write_fields (new_version_event ''server://alice'' pb pi 7 v tx)) < EVENT_LIMIT" for pb pi v tx
    using event_length(1) [of "''server://alice''" pb pi 7 v tx] decimal_bytes_length [of 7 1] by (simp add: EVENT_LIMIT_def)
  then have "op_ok remote_env (LPut ?ctx ''c'' ''k'' 7)"
    by (simp add: event_fits_def is_valid_key_def is_alnum_def context_valid_def client_context_def alice_known_def INVALID_IDENTITY_def identity_eq_def
        context_to_string_def identity_to_string_def called_by_program_def)
  then obtain l' where "ledger_step remote_env (LPut ?ctx ''c'' ''k'' 7) ?l = Some (Inr (OutWritten True, l'))"
    "write_result remote_env (set_object ''c'' ''k'' (put_version (context_to_string ?ctx, 7) []) (\<lambda>_ _. [])) ?l l'"
    using put_step [OF rep _ new_ledger_allocates] by (fastforce simp: plain_objects_def all_plain_def)
  then obtain eid where "ledger_put remote_env ?ctx ''c'' ''k'' 7 [] False ?l = Some (Inr (eid, l'))" "has_object remote_env ''c'' ''k'' l' = Inr True"
    using has_object_correct [of remote_env l' _ "''c''" "''k''"]
    by (auto simp: obind_def rbind_eq_Inr write_result_def set_object_def put_version_def split: option.splits)
  then show ?thesis
    using l by (simp add: local_write_def parse_path_def write_allowed_def is_valid_key_def is_alnum_def answer_changed_def answer_def ledger_of_def set_ledger_def)
qed

lemma example_calls_fit:
  "calls_fit remote_env 4 (client_context alice_known) op_id [AppPut ''c'' ''k'' 7, AppHas ''c'' ''k''] example_enclave"
proof -
  have W: "wire_laws nat_bits" and D: "document_laws nat_bits" by (rule nat_bits_wire, rule nat_bits_document)
  have read: "read_value_then nat_bits (to_bytes (bs_document nat_bits) 7) s f = f 7" for s and f :: "nat \<Rightarrow> nat handled"
    by (rule read_value_document [OF W D]) (simp add: small_def)
  have put: "length out = 8" if "handle_request_upstream_mode remote_env 4 ctx (Some PutObject)
      (named nat_bits ''c'' ''k'' @ to_bytes (bs_document nat_bits) 7) s = Some (Inr (out, s'))" for ctx s s' out
    using that W read
    by (auto simp: handle_request_upstream_mode_def handle_put_or_add_def named_def small_def reply_changed_def parse_path_def pbind_eq_Some split: if_splits)
  have has: "length out = 1" if "handle_request_upstream_mode remote_env 4 ctx (Some HasObject) (named nat_bits ''c'' ''k'') s = Some (Inr (out, s'))" for ctx s s' out
    using that W
    by (auto simp: handle_request_upstream_mode_def handle_request_has_object_def named_def small_def reply_def parse_path_def pbind_eq_Some)
  show ?thesis
    by (auto simp: call_fits_def c_put_def c_has_object_def map_call_def small_def named_def [of nat_bits] local_write_def answer_def answer_changed_def pbind_eq_Some parse_path_def
       split: if_splits dest!: put [unfolded named_def append_assoc] has [unfolded named_def])
qed

theorem remote_calls_are_local_calls_witness:
  "\<exists>eid c' sv'. remote_calls remote_env session_side client_side 4 [AppPut ''c'' ''k'' 7, AppHas ''c'' ''k''] (connected_client, example_server) =
     Some (Inr ([Inr (EventAnswer eid), Inr (BoolAnswer True)], c', sv'))"
proof -
  have s: "sv_enclave example_server = example_enclave" by (simp add: example_server_def)
  obtain eid s where "local_calls remote_env (client_context alice_known) [AppPut ''c'' ''k'' 7, AppHas ''c'' ''k''] (sv_enclave example_server) =
     Some (Inr ([Inr (EventAnswer eid), Inr (BoolAnswer True)], s))"
    using example_local_calls unfolding s by blast
  moreover have "\<forall>n. small (ee_keys remote_env n)" "document_laws (ee_bits remote_env)" using nat_bits_document by (simp_all add: small_def)
  ultimately show ?thesis using remote_calls_are_local_calls [OF example_linked] example_calls_fit unfolding s by blast
qed

end
