(* ===== verification/Server_Attestation.thy ===== *)
theory Server_Attestation
  imports Remote_Parties Wire
begin

text \<open>
  The part of the handshake that runs outside the enclave (\<open>server/Attestation.cpp\<close>), for a connection with a client and
  with another server. What the enclave hands over is queued and handled by \<open>update\<close>, which sends the messages of
  the proving side. The SGX calls of that side are the parameter \<open>ra_lib\<close>; a call may fail and is repeated, so it takes the
  number of the attempt.
\<close>

section \<open>State\<close>

datatype AttestationState = ReadyToTellGroupId | WaitingForGroupIdResult | WaitingForMsg2 | AttestationDone

datatype AttestationMode = OneWay | TwoWay_IsInitiator | TwoWay_NotInitiator

record attestation =
  at_mode :: AttestationMode
  at_state :: AttestationState
  at_groupid_result :: "bool option"
  at_msg2 :: "u8 list option"
  at_context :: "u8 list option"

record ra_lib =
  ra_init :: "public_key \<Rightarrow> u8 list option"
  ra_get_msg1 :: "nat \<Rightarrow> u8 list \<Rightarrow> u8 list option"
  ra_proc_msg2 :: "nat \<Rightarrow> u8 list \<Rightarrow> u8 list \<Rightarrow> (u8 list \<times> u8 list option) option"
  ra_get_keys :: "u8 list \<Rightarrow> u8 list option"

text \<open>What the server tells about itself.\<close>

record host_info =
  hi_groupid :: u32
  hi_name :: string
  hi_public_key :: public_key
  hi_upstream_public_key :: "public_key option"

datatype host_action = HostSend "u8 list" | HostSetContext "u8 list" | HostDisconnect

definition new_attestation :: "AttestationMode \<Rightarrow> attestation" where
  "new_attestation mode = \<lparr>at_mode = mode, at_state = ReadyToTellGroupId, at_groupid_result = None, at_msg2 = None, at_context = None\<rparr>"

section \<open>Operations\<close>

definition tell_groupid :: "('d, 'y) bitstream_lib_scheme \<Rightarrow> host_info \<Rightarrow> attestation \<Rightarrow> host_action list \<times> attestation" where
  "tell_groupid B h a =
     ([HostSend (put_etype B Attestation @ put_mtype B TellGroupId @ to_bytes (bs_u32 B) (hi_groupid h) @ to_bytes (bs_string B) (hi_name h) @
        hi_public_key h @ to_bytes (bs_bool B) (hi_upstream_public_key h \<noteq> None) @
        (case hi_upstream_public_key h of None \<Rightarrow> [] | Some key \<Rightarrow> key))],
      a\<lparr>at_state := WaitingForGroupIdResult\<rparr>)"

definition attestation_init :: "('d, 'y) bitstream_lib_scheme \<Rightarrow> host_info \<Rightarrow> attestation \<Rightarrow> (host_action list \<times> attestation) result" where
  "attestation_init B h a =
     (if at_mode a = TwoWay_IsInitiator \<or> at_mode a = OneWay
      then if at_state a \<noteq> ReadyToTellGroupId then Inl (Fatal ''Invalid state'') else Inr (tell_groupid B h a)
      else Inr ([], a))"

definition set_done :: "attestation \<Rightarrow> attestation result" where
  "set_done a = (if at_state a = AttestationDone then Inl (Fatal ''Invalid state'') else Inr (a\<lparr>at_state := AttestationDone\<rparr>))"

definition queue_groupid_result :: "bool \<Rightarrow> attestation \<Rightarrow> attestation" where
  "queue_groupid_result res a = a\<lparr>at_groupid_result := Some res\<rparr>"

definition queue_msg2 :: "u8 list \<Rightarrow> attestation \<Rightarrow> attestation result" where
  "queue_msg2 msg2 a =
     (if at_msg2 a \<noteq> None then Inl (Fatal ''Invalid state: Already got msg2 queued up'') else Inr (a\<lparr>at_msg2 := Some msg2\<rparr>))"

definition NUM_RETRIES :: nat where "NUM_RETRIES = 100"

fun attempt :: "nat \<Rightarrow> nat \<Rightarrow> (nat \<Rightarrow> 'a option) \<Rightarrow> 'a option" where
  "attempt i 0 f = None"
| "attempt i (Suc n) f = (case f i of None \<Rightarrow> attempt (Suc i) n f | Some x \<Rightarrow> Some x)"

text \<open>The call into the enclave that starts the key exchange; it is made with the public key the party has shown.\<close>

definition credb_ra_init :: "'y ra_lib_scheme \<Rightarrow> remote_party_id \<Rightarrow> remote_parties \<Rightarrow> u8 list option result" where
  "credb_ra_init R party r =
     (case find_party party r of
        None \<Rightarrow> Inr None
      | Some p \<Rightarrow> (case rp_identity p of
                     None \<Rightarrow> Inl (RuntimeError ''Identity not set up yet!'')
                   | Some i \<Rightarrow> Inr (ra_init R (ki_key i))))"

definition handle_groupid_result ::
  "('d, 'y) bitstream_lib_scheme \<Rightarrow> 'z ra_lib_scheme \<Rightarrow> remote_party_id \<Rightarrow> remote_parties \<Rightarrow> bool \<Rightarrow> attestation \<Rightarrow>
     (bool \<times> host_action list \<times> attestation) result" where
  "handle_groupid_result B R party r res a =
     (if \<not> res then Inr (False, [], a)
      else rbind (credb_ra_init R party r) (\<lambda>context.
        case context of
          None \<Rightarrow> Inr (False, [], a)
        | Some c \<Rightarrow>
            (case attempt 0 NUM_RETRIES (\<lambda>i. ra_get_msg1 R i c) of
               None \<Rightarrow> Inr (False, [], a\<lparr>at_context := Some c\<rparr>)
             | Some msg1 \<Rightarrow>
                 Inr (True, [HostSend (put_etype B Attestation @ put_mtype B AttestationMessage1 @ msg1)],
                      a\<lparr>at_context := Some c, at_state := WaitingForMsg2\<rparr>))))"

text \<open>The library may return success without a message three.\<close>

definition handle_msg2 ::
  "('d, 'y) bitstream_lib_scheme \<Rightarrow> 'z ra_lib_scheme \<Rightarrow> u8 list \<Rightarrow> attestation \<Rightarrow> (bool \<times> host_action list \<times> attestation) result" where
  "handle_msg2 B R msg2 a =
     (case at_context a of
        None \<Rightarrow> Inl (Fatal ''uninitialised context'')
      | Some c \<Rightarrow>
          (case attempt 0 NUM_RETRIES (\<lambda>i. ra_proc_msg2 R i c msg2) of
             None \<Rightarrow> Inr (False, [], a)
           | Some (c', None) \<Rightarrow> Inr (False, [], a\<lparr>at_context := Some c'\<rparr>)
           | Some (c', Some msg3) \<Rightarrow>
               Inr (True,
                    [HostSend (put_etype B Attestation @ put_mtype B AttestationMessage3 @ to_bytes (bs_u32 B) (word_of_nat (length msg3)) @ msg3),
                     HostSetContext c'],
                    a\<lparr>at_context := Some c', at_state := (if at_mode a = TwoWay_IsInitiator then ReadyToTellGroupId else at_state a)\<rparr>)))"

definition attestation_update ::
  "('d, 'y) bitstream_lib_scheme \<Rightarrow> 'z ra_lib_scheme \<Rightarrow> remote_party_id \<Rightarrow> remote_parties \<Rightarrow> attestation \<Rightarrow>
     (host_action list \<times> attestation) result" where
  "attestation_update B R party r a =
     (let finish = (\<lambda>(res, acts, a'). (acts @ (if res then [] else [HostDisconnect]), a'))
      in case at_state a of
           WaitingForGroupIdResult \<Rightarrow>
             (case at_groupid_result a of
                None \<Rightarrow> Inr ([], a)
              | Some res \<Rightarrow>
                  rbind (handle_groupid_result B R party r res a) (\<lambda>(ok, acts, a'). Inr (finish (ok, acts, a'\<lparr>at_groupid_result := None\<rparr>))))
         | WaitingForMsg2 \<Rightarrow>
             (case at_msg2 a of
                None \<Rightarrow> Inr ([], a)
              | Some msg2 \<Rightarrow> rbind (handle_msg2 B R msg2 a) (\<lambda>(ok, acts, a'). Inr (finish (ok, acts, a'\<lparr>at_msg2 := None\<rparr>))))
         | _ \<Rightarrow> Inr ([], a))"

section \<open>Attempts\<close>

lemma attempt_fails: "attempt i n f = None \<longleftrightarrow> (\<forall>j. i \<le> j \<and> j < i + n \<longrightarrow> f j = None)"
proof (induction n arbitrary: i)
  case (Suc n)
  show ?case
  proof (cases "f i")
    case None
    then have "(\<forall>j. Suc i \<le> j \<and> j < Suc i + n \<longrightarrow> f j = None) \<longleftrightarrow> (\<forall>j. i \<le> j \<and> j < i + Suc n \<longrightarrow> f j = None)"
      by (metis Suc_leI add_Suc_shift le_neq_implies_less Suc_leD)
    then show ?thesis using Suc.IH [of "Suc i"] None by simp
  qed auto
qed auto

end
