(* ===== verification/Peer_Session.thy ===== *)
theory Peer_Session
  imports Client_Session Key_Exchange Server_Attestation
begin

text \<open>
  The session between two servers inside the enclave (\<open>enclave/Peer.cpp\<close>). The two servers attest each other one after the
  other: in the first phase the server that opened the connection proves itself, in the second the other one. The session key is the
  exclusive or of the keys of both exchanges. A connected peer sends requests, answers, forwarded requests,
  notifications of triggers and, to a downstream server, changes of the index.
\<close>

section \<open>State\<close>

datatype PeerState = Attestation_Phase1 | Attestation_Phase2 | PeerConnected

record peer_session =
  pe_state :: PeerState
  pe_is_initiator :: bool
  pe_group_id :: u32
  pe_next_operation_id :: u32
  pe_pending_count :: u16
  pe_keys :: dh_keys
  pe_context :: "u8 list option"
  pe_encryption_key :: "u8 list"
  pe_responses :: "(u32 \<times> u8 list) list"

text \<open>
  An enclave with its sessions. \<open>nd_roots\<close> are the bucket arrays of the primary indexes; on a downstream server they follow those of its
  upstream server.
\<close>

record 'd peer_node =
  nd_server :: "'d server"
  nd_peers :: "remote_party_id \<Rightarrow> peer_session option"
  nd_roots :: "string \<Rightarrow> abstract_map"
  nd_disk_key :: "u8 list"
  nd_upstream_id :: remote_party_id
  nd_upstream_public_key :: public_key

text \<open>
  Besides the channel: both sides of the key exchange, the key pair of the enclave, how the remaining types are written, and the order in
  which the hash table of the collections is traversed.
\<close>

record 'd peer_env = "'d session_env" +
  pv_attest :: attest_lib
  pv_ra :: ra_lib
  pv_private_key :: "u8 list"
  pv_public_key :: public_key
  pv_u16 :: "u16 codec"
  pv_bucket :: "(nat \<times> bucket_t) codec"
  pv_root :: "bucket_t list codec"
  pv_peer_type :: "PeerType codec"
  pv_names :: "ledger \<Rightarrow> string list"

type_synonym 'd peer_served = "(effect list \<times> 'd peer_node) result option"

definition new_peer :: "bool \<Rightarrow> dh_keys \<Rightarrow> u8 list \<Rightarrow> peer_session" where
  "new_peer is_initiator memory key_memory =
     \<lparr>pe_state = Attestation_Phase1, pe_is_initiator = is_initiator, pe_group_id = 0, pe_next_operation_id = 1, pe_pending_count = 0,
      pe_keys = memory, pe_context = None, pe_encryption_key = key_memory, pe_responses = []\<rparr>"

definition peer_encryption_key :: "peer_session \<Rightarrow> u8 list option" where
  "peer_encryption_key p = (if pe_state p \<noteq> PeerConnected then None else Some (pe_encryption_key p))"

definition set_peer :: "remote_party_id \<Rightarrow> peer_session \<Rightarrow> 'd peer_node \<Rightarrow> 'd peer_node" where
  "set_peer party p n = n\<lparr>nd_peers := (nd_peers n)(party \<mapsto> p)\<rparr>"

section \<open>Attestation\<close>

definition attestation_frame :: "('d, 'y) bitstream_lib_scheme \<Rightarrow> MessageType \<Rightarrow> u8 list \<Rightarrow> u8 list" where
  "attestation_frame B t body = put_etype B Attestation @ put_mtype B t @ body"

definition peer_set_connected :: "('d, 'z) peer_env_scheme \<Rightarrow> remote_party_id \<Rightarrow> peer_session \<Rightarrow> effect list \<times> peer_session" where
  "peer_set_connected S party p =
     (let external_key = (case pe_context p of
                            None \<Rightarrow> se_memory S
                          | Some c \<Rightarrow> (case ra_get_keys (pv_ra S) c of None \<Rightarrow> se_memory S | Some k \<Rightarrow> k))
      in ([NotifyDone party],
          p\<lparr>pe_state := PeerConnected, pe_encryption_key := map2 (XOR) external_key (dk_sk (pe_keys p))\<rparr>))"

definition peer_attestation_result ::
  "('d, 'z) peer_env_scheme \<Rightarrow> remote_party_id \<Rightarrow> peer_session \<Rightarrow> u8 list \<Rightarrow> (effect list \<times> peer_session) result option" where
  "peer_attestation_result S party p input =
     read_then (bs_i32 (ch_bits S)) input (\<lambda>status0 input1.
     read_then (bs_i32 (ch_bits S)) input1 (\<lambda>status1 input2.
     read_raw_then (ch_bits S) (se_blob_size S) input2 (\<lambda>info_blob input3.
     read_raw_then (ch_bits S) MAC_SIZE input3 (\<lambda>mac input4.
       if status0 \<noteq> 0 \<or> status1 \<noteq> 0 then Some (Inr ([], p))
       else if pe_state p = Attestation_Phase2 then Some (Inr (peer_set_connected S party p))
       else Some (Inr ([], p\<lparr>pe_state := Attestation_Phase2\<rparr>))))))"

definition peer_tell_group_id ::
  "('d, 'y) enclave_env_scheme \<Rightarrow> ('d, 'z) peer_env_scheme \<Rightarrow> remote_party_id \<Rightarrow> peer_session \<Rightarrow> u8 list \<Rightarrow> (effect list \<times> peer_session) result option" where
  "peer_tell_group_id E S party p input =
     read_then (bs_u32 (ch_bits S)) input (\<lambda>group_id input1.
       Some (Inr ([SendFrame party (attestation_frame (ch_bits S) GroupIdResponse
                     (to_bytes (bs_bool (ch_bits S)) True @ to_bytes (bs_string (ch_bits S)) (id_name (ee_identity E)) @ pv_public_key S))],
                  p\<lparr>pe_group_id := group_id\<rparr>)))"

text \<open>When a step of message one or three fails the message is not answered.\<close>

definition peer_attestation_message_one ::
  "('d, 'z) peer_env_scheme \<Rightarrow> remote_party_id \<Rightarrow> peer_session \<Rightarrow> u8 list \<Rightarrow> (effect list \<times> peer_session) result option" where
  "peer_attestation_message_one S party p input =
     read_raw_then (ch_bits S) (al_msg1_size (pv_attest S)) input (\<lambda>msg1 input1.
       case peer_message_one (pv_attest S) (pv_private_key S) msg1 (pe_keys p) of (answer, keys) \<Rightarrow>
         Some (Inr (case answer of
                      None \<Rightarrow> []
                    | Some msg2 \<Rightarrow> [SendFrame party (attestation_frame (ch_bits S) AttestationMessage2
                                      (to_bytes (bs_u32 (ch_bits S)) (word_of_nat (length msg2)) @ msg2))],
                    p\<lparr>pe_keys := keys\<rparr>)))"

definition peer_attestation_message_three ::
  "('d, 'z) peer_env_scheme \<Rightarrow> remote_party_id \<Rightarrow> peer_session \<Rightarrow> u8 list \<Rightarrow> (effect list \<times> peer_session) result option" where
  "peer_attestation_message_three S party p input =
     read_then (bs_u32 (ch_bits S)) input (\<lambda>msg3_size input1.
     read_raw_then (ch_bits S) (unat msg3_size) input1 (\<lambda>msg3 input2.
     pbind (Some (peer_message_three (pv_attest S) (pe_keys p) msg3)) (\<lambda>answer.
       case answer of
         None \<Rightarrow> Some (Inr ([], p))
       | Some blob \<Rightarrow>
           let result = SendFrame party (attestation_frame (ch_bits S) AttestationResult
                          (to_bytes (bs_i32 (ch_bits S)) 0 @ to_bytes (bs_i32 (ch_bits S)) 0 @ blob))
           in if pe_state p = Attestation_Phase1 then Some (Inr ([result, AskTellGroupId party], p\<lparr>pe_state := Attestation_Phase2\<rparr>))
              else case peer_set_connected S party p of (effs, p') \<Rightarrow> Some (Inr (result # effs, p')))))"

section \<open>Answers\<close>

definition peer_next_operation_id :: "peer_session \<Rightarrow> u32 \<times> peer_session" where
  "peer_next_operation_id p = (pe_next_operation_id p, p\<lparr>pe_next_operation_id := pe_next_operation_id p + 1\<rparr>)"

text \<open>\<open>insert\<close> keeps an answer that is already there.\<close>

definition insert_response :: "u32 \<Rightarrow> u8 list \<Rightarrow> peer_session \<Rightarrow> peer_session" where
  "insert_response op_id resp p =
     (if map_of (pe_responses p) op_id = None then p\<lparr>pe_responses := (op_id, resp) # pe_responses p\<rparr> else p)"

definition peer_op_response ::
  "('d, 'z) peer_env_scheme \<Rightarrow> peer_session \<Rightarrow> u8 list \<Rightarrow> (effect list \<times> peer_session) result option" where
  "peer_op_response S p input =
     read_then (bs_u32 (ch_bits S)) input (\<lambda>task_id input1.
     read_then (bs_u32 (ch_bits S)) input1 (\<lambda>op_id input2.
       Some (Inr (if task_id = 0 then [] else [ResumeTask task_id], insert_response op_id input2 p))))"

text \<open>\<open>None\<close> when there is no answer yet.\<close>

definition peer_receive_response :: "u32 \<Rightarrow> peer_session \<Rightarrow> (u8 list \<times> peer_session) option" where
  "peer_receive_response op_id p =
     (case map_of (pe_responses p) op_id of
        None \<Rightarrow> None
      | Some resp \<Rightarrow> Some (resp, p\<lparr>pe_responses := AList.delete op_id (pe_responses p)\<rparr>))"

definition increment_pending_count :: "peer_session \<Rightarrow> peer_session" where
  "increment_pending_count p = p\<lparr>pe_pending_count := pe_pending_count p + 1\<rparr>"

definition decrement_pending_count :: "peer_session \<Rightarrow> peer_session result" where
  "decrement_pending_count p =
     (if pe_pending_count p = 0 then Inl (RuntimeError ''Pending count broken!'') else Inr (p\<lparr>pe_pending_count := pe_pending_count p - 1\<rparr>))"

text \<open>A message that is waited for: its number, and whether it has arrived.\<close>

definition pending_message_wait :: "(u8 list \<Rightarrow> 'a result) \<Rightarrow> u32 \<Rightarrow> 'a option \<Rightarrow> peer_session \<Rightarrow> ('a option \<times> peer_session) result" where
  "pending_message_wait parse op_id got p =
     (case got of
        Some x \<Rightarrow> Inr (Some x, p)
      | None \<Rightarrow>
          (case peer_receive_response op_id p of
             None \<Rightarrow> Inr (None, p)
           | Some (msg, p1) \<Rightarrow> rbind (parse msg) (\<lambda>x. rbind (decrement_pending_count p1) (\<lambda>p2. Inr (Some x, p2)))))"

section \<open>Requests\<close>

text \<open>A program is called on another server.\<close>

definition peer_call ::
  "('d, 'z) peer_env_scheme \<Rightarrow> remote_party_id \<Rightarrow> string \<Rightarrow> taskid_t \<Rightarrow> string \<Rightarrow> string \<Rightarrow> string list \<Rightarrow> identity_uid_t \<Rightarrow> transaction_id_t \<Rightarrow>
     peer_session \<Rightarrow> u32 \<times> effect list \<times> peer_session" where
  "peer_call S party collection task_id key path args tx_root tx_id p =
     (let B = ch_bits S; (op_id, p') = peer_next_operation_id p
      in (op_id,
          party_send S party (peer_encryption_key p)
            (put_mtype B OperationRequest @ to_bytes (bs_u32 B) task_id @ to_bytes (bs_u32 B) op_id @
             to_bytes (bs_u8 B) (enum_number operation_types CallProgram) @
             to_bytes (bs_string B) collection @ to_bytes (bs_string B) key @ to_bytes (bs_string B) path @ to_bytes (bs_strings B) args @
             to_bytes (bs_u64 B) tx_root @ to_bytes (bs_u32 B) tx_id),
          p'))"

text \<open>
  A server announces its role. The answer holds the key of the disk and the buckets of the primary index of every collection.
\<close>

definition upstream_root :: "('d, 'z) peer_env_scheme \<Rightarrow> 'd peer_node \<Rightarrow> u8 list" where
  "upstream_root S n =
     (let B = ch_bits S; names = pv_names S (ledger_of (sv_enclave (nd_server n)))
      in nd_disk_key n @ to_bytes (bs_u32 B) (word_of_nat (length names)) @
         concat (map (\<lambda>name. to_bytes (bs_string B) name @ to_bytes (pv_root S) (serialize_root (nd_roots n name))) names))"

definition tell_peer_type :: "('d, 'z) peer_env_scheme \<Rightarrow> remote_party_id \<Rightarrow> u8 list \<Rightarrow> 'd peer_node \<Rightarrow> (u8 list \<times> 'd peer_node) result option" where
  "tell_peer_type S party input n =
     read_then (pv_peer_type S) input (\<lambda>peer_type rest.
       let sv = nd_server n; n' = n\<lparr>nd_server := sv\<lparr>sv_parties := set_peer_type party peer_type (sv_parties sv)\<rparr>\<rparr>
       in Some (Inr (to_bytes (bs_nested (ch_bits S)) (upstream_root S n'), n')))"

text \<open>The type of a request, after its two numbers.\<close>

definition request_type :: "('d, 'y) bitstream_lib_scheme \<Rightarrow> u8 list \<Rightarrow> (taskid_t \<times> u32 \<times> OperationType option \<times> u8 list) result" where
  "request_type B input =
     rbind (receive (bs_u32 B) input) (\<lambda>(task_id, input1). rbind (receive (bs_u32 B) input1) (\<lambda>(op_id, input2).
     rbind (receive (bs_u8 B) input2) (\<lambda>(number, input3). Inr (task_id, op_id, enum_value operation_types number, input3))))"

definition peer_op_request ::
  "('d, 'y) enclave_env_scheme \<Rightarrow> ('d, 'z) peer_env_scheme \<Rightarrow> remote_party_id \<Rightarrow> op_context \<Rightarrow> u8 list \<Rightarrow> u8 list \<Rightarrow> 'd peer_node \<Rightarrow>
     (u8 list list \<times> 'd peer_node) result option" where
  "peer_op_request E S party ctx message input n =
     pbind (Some (request_type (ch_bits S) input)) (\<lambda>(task_id, op_id, op_type, input1).
       if op_type = Some TellPeerType \<and> \<not> en_downstream (sv_enclave (nd_server n))
       then pbind (tell_peer_type S party input1 n) (\<lambda>(out, n'). Some (Inr ([response_header (ch_bits S) task_id op_id @ out], n')))
       else pbind (handle_op_request E party ctx message input (sv_enclave (nd_server n))) (\<lambda>(msgs, s).
              Some (Inr (msgs, n\<lparr>nd_server := (nd_server n)\<lparr>sv_enclave := s\<rparr>\<rparr>))))"

definition peer_request ::
  "('d, 'y) enclave_env_scheme \<Rightarrow> ('d, 'z) peer_env_scheme \<Rightarrow> remote_party_id \<Rightarrow> u8 list option \<Rightarrow> u8 list \<Rightarrow> u8 list \<Rightarrow> 'd peer_node \<Rightarrow> 'd peer_served" where
  "peer_request E S party sk message input n =
     (case party_identity party (nd_server n) of
        None \<Rightarrow> Some (Inl (Fatal ''null pointer''))
      | Some i \<Rightarrow>
          pbind (peer_op_request E S party (client_context i) message input n) (\<lambda>(msgs, n').
            Some (Inr (concat (map (\<lambda>msg. if msg = [] then [] else party_send S party sk msg) msgs), n'))))"

text \<open>The answers of a program go to the peer while it runs, not into the answer of the request.\<close>

definition is_async :: "('d, 'y) bitstream_lib_scheme \<Rightarrow> u8 list \<Rightarrow> 'd enclave \<Rightarrow> bool" where
  "is_async B input s =
     (\<not> en_downstream s \<and>
      (case request_type B input of
         Inl _ \<Rightarrow> False
       | Inr (_, _, op_type, _) \<Rightarrow> op_type \<in> {Some CallProgram, Some ExecuteCode}))"

text \<open>
  A downstream server passes on the request of one of its clients. It runs under the identity of that server, not of the client.
\<close>

definition peer_op_forwarded_request ::
  "('d, 'y) enclave_env_scheme \<Rightarrow> ('d, 'z) peer_env_scheme \<Rightarrow> remote_party_id \<Rightarrow> u8 list option \<Rightarrow> u8 list \<Rightarrow> 'd peer_node \<Rightarrow> 'd peer_served" where
  "peer_op_forwarded_request E S party sk input n =
     read_then (bs_u32 (ch_bits S)) input (\<lambda>task_id input1.
     read_then (bs_u32 (ch_bits S)) input1 (\<lambda>op_id input2.
     read_then (bs_nested (ch_bits S)) input2 (\<lambda>forwarded_input input3.
     read_then (bs_u8 (ch_bits S)) forwarded_input (\<lambda>ignore request.
       case party_identity party (nd_server n) of
         None \<Rightarrow> Some (Inl (Fatal ''null pointer''))
       | Some i \<Rightarrow>
           pbind (peer_op_request E S party (client_context i) forwarded_input request n) (\<lambda>(msgs, n').
             let answer = (\<lambda>out. party_send S party sk (response_header (ch_bits S) task_id op_id @ to_bytes (bs_nested (ch_bits S)) out));
                 async = is_async (ch_bits S) request (sv_enclave (nd_server n))
             in Some (Inr ((if async then concat (map (party_send S party sk) msgs) @ answer [] else answer (concat msgs)), n')))))))"

section \<open>Notifications and index changes\<close>

text \<open>The key of any connected party, a client or a server.\<close>

definition party_key :: "remote_party_id \<Rightarrow> 'd peer_node \<Rightarrow> u8 list option" where
  "party_key i n =
     (case nd_peers n i of
        Some p \<Rightarrow> peer_encryption_key p
      | None \<Rightarrow> (case sv_sessions (nd_server n) i of None \<Rightarrow> None | Some c \<Rightarrow> get_encryption_key c))"

definition peer_notify_trigger :: "('d, 'z) peer_env_scheme \<Rightarrow> u8 list \<Rightarrow> 'd peer_node \<Rightarrow> 'd peer_served" where
  "peer_notify_trigger S input n =
     read_then (bs_string (ch_bits S)) input (\<lambda>collection input1.
       let msg = put_mtype (ch_bits S) NotifyTrigger @ to_bytes (bs_string (ch_bits S)) collection;
           known = filter (\<lambda>i. find_party i (sv_parties (nd_server n)) \<noteq> None) (get_triggers collection (sv_enclave (nd_server n)))
       in Some (Inr (concat (map (\<lambda>i. party_send S i (party_key i n) msg) known), n)))"

text \<open>The message that tells a downstream server about a new version: the changed bucket and the block with the event.\<close>

definition index_update_message ::
  "('d, 'z) peer_env_scheme \<Rightarrow> u8 list \<Rightarrow> shard_id_t \<Rightarrow> page_no_t \<Rightarrow> block_index_t \<Rightarrow> u8 list" where
  "index_update_message S index_changes shard invalidated_page block_size =
     put_mtype (ch_bits S) PushIndexUpdate @ to_bytes (bs_nested (ch_bits S)) index_changes @ to_bytes (pv_u16 S) shard @
     to_bytes (bs_u32 (ch_bits S)) invalidated_page @ to_bytes (pv_u16 S) block_size @ to_bytes (bs_string (ch_bits S)) []"

definition index_changes :: "('d, 'z) peer_env_scheme \<Rightarrow> string \<Rightarrow> nat \<times> bucket_t \<Rightarrow> u8 list" where
  "index_changes S collection change =
     to_bytes (bs_string (ch_bits S)) collection @ to_bytes (bs_string (ch_bits S)) [] @ to_bytes (pv_bucket S) change"

definition send_index_updates_to_downstream ::
  "('d, 'z) peer_env_scheme \<Rightarrow> u8 list \<Rightarrow> shard_id_t \<Rightarrow> page_no_t \<Rightarrow> block_index_t \<Rightarrow> 'd peer_node \<Rightarrow> effect list result" where
  "send_index_updates_to_downstream S changes shard page_no block_size n =
     (let downstream = m_downstream_set (sv_parties (nd_server n))
      in if list_all (\<lambda>i. nd_peers n i \<noteq> None) downstream
         then Inr (concat (map (\<lambda>i. party_send S i (party_key i n) (index_update_message S changes shard page_no block_size)) downstream))
         else Inl (Fatal ''Peer in downstream set but not in remote party set''))"

text \<open>Only changes of the primary index, which has the empty name, are applied.\<close>

definition update_index :: "('d, 'z) peer_env_scheme \<Rightarrow> string \<Rightarrow> u8 list \<Rightarrow> abstract_map \<Rightarrow> abstract_map result" where
  "update_index S index changes root =
     (if index \<noteq> [] then Inr root
      else rbind (receive (pv_bucket S) changes) (\<lambda>((bid, new_val), rest).
             if bid < NUM_BUCKETS then Inr (apply_changes bid new_val root) else Inl (Fatal ''out of bounds'')))"

definition put_object_index_from_upstream ::
  "('d, 'z) peer_env_scheme \<Rightarrow> u8 list \<Rightarrow> shard_id_t \<Rightarrow> page_no_t \<Rightarrow> block_index_t \<Rightarrow> 'd peer_node \<Rightarrow> 'd peer_node result" where
  "put_object_index_from_upstream S changes shard_id block_page_no block_size n =
     (let sv = nd_server n; l = ledger_of (sv_enclave sv)
      in if length (m_shards l) \<le> unat shard_id then Inl (Fatal ''out of bounds'')
         else rbind (receive (bs_string (ch_bits S)) changes) (\<lambda>(collection, changes1).
              rbind (receive (bs_string (ch_bits S)) changes1) (\<lambda>(index, changes2).
              let sh = set_pending_block block_page_no block_size (m_shards l ! unat shard_id) in
              rbind (get_collection collection True (l\<lparr>m_shards := (m_shards l)[unat shard_id := sh]\<rparr>)) (\<lambda>(col, l1).
              rbind (update_index S index changes2 (nd_roots n collection)) (\<lambda>root.
                Inr (n\<lparr>nd_server := sv\<lparr>sv_enclave := set_ledger l1 (sv_enclave sv)\<rparr>, nd_roots := (nd_roots n)(collection := root)\<rparr>))))))"

definition peer_push_index_update :: "('d, 'z) peer_env_scheme \<Rightarrow> u8 list \<Rightarrow> 'd peer_node \<Rightarrow> 'd peer_served" where
  "peer_push_index_update S input n =
     read_then (bs_nested (ch_bits S)) input (\<lambda>changes input1.
     read_then (pv_u16 S) input1 (\<lambda>shard input2.
     read_then (bs_u32 (ch_bits S)) input2 (\<lambda>block_page_no input3.
     read_then (pv_u16 S) input3 (\<lambda>block_size input4.
       pbind (Some (put_object_index_from_upstream S changes shard block_page_no block_size n)) (\<lambda>n'. Some (Inr ([], n')))))))"

section \<open>Messages\<close>

definition update_peer :: "remote_party_id \<Rightarrow> 'd peer_node \<Rightarrow> (effect list \<times> peer_session) result option \<Rightarrow> 'd peer_served" where
  "update_peer party n r = pbind r (\<lambda>(effs, p). Some (Inr (effs, set_peer party p n)))"

definition update_server :: "'d peer_node \<Rightarrow> 'd served \<Rightarrow> 'd peer_served" where
  "update_server n r = pbind r (\<lambda>(effs, sv). Some (Inr (effs, n\<lparr>nd_server := sv\<rparr>)))"

definition peer_connected_message ::
  "('d, 'y) enclave_env_scheme \<Rightarrow> ('d, 'z) peer_env_scheme \<Rightarrow> remote_party_id \<Rightarrow> peer_session \<Rightarrow> MessageType option \<Rightarrow> u8 list \<Rightarrow> u8 list \<Rightarrow>
     'd peer_node \<Rightarrow> 'd peer_served" where
  "peer_connected_message E S party p type message input n =
     (case type of
        Some OperationRequest \<Rightarrow> peer_request E S party (peer_encryption_key p) message input n
      | Some NotifyTrigger \<Rightarrow> peer_notify_trigger S input n
      | Some PushIndexUpdate \<Rightarrow> peer_push_index_update S input n
      | Some OperationResponse \<Rightarrow> update_peer party n (peer_op_response S p input)
      | Some ForwardedOperationRequest \<Rightarrow> peer_op_forwarded_request E S party (peer_encryption_key p) input n
      | _ \<Rightarrow> Some (Inr ([], n)))"

definition is_prover :: "peer_session \<Rightarrow> bool" where
  "is_prover p = (pe_is_initiator p \<and> pe_state p = Attestation_Phase1 \<or> \<not> pe_is_initiator p \<and> pe_state p = Attestation_Phase2)"

definition peer_attestation_message ::
  "('d, 'y) enclave_env_scheme \<Rightarrow> ('d, 'z) peer_env_scheme \<Rightarrow> remote_party_id \<Rightarrow> peer_session \<Rightarrow> MessageType option \<Rightarrow> u8 list \<Rightarrow> 'd peer_node \<Rightarrow> 'd peer_served" where
  "peer_attestation_message E S party p type input n =
     (if is_prover p
      then (case type of
              Some GroupIdResponse \<Rightarrow> update_server n (handle_groupid_response E S party input (nd_server n))
            | Some AttestationMessage2 \<Rightarrow> update_server n (handle_attestation_message_two S party input (nd_server n))
            | Some AttestationResult \<Rightarrow> update_peer party n (peer_attestation_result S party p input)
            | _ \<Rightarrow> Some (Inr ([], n)))
      else (case type of
              Some TellGroupId \<Rightarrow> update_peer party n (peer_tell_group_id E S party p input)
            | Some AttestationMessage1 \<Rightarrow> update_peer party n (peer_attestation_message_one S party p input)
            | Some AttestationMessage3 \<Rightarrow> update_peer party n (peer_attestation_message_three S party p input)
            | _ \<Rightarrow> Some (Inr ([], n))))"

definition peer_handle_message ::
  "('d, 'y) enclave_env_scheme \<Rightarrow> ('d, 'z) peer_env_scheme \<Rightarrow> remote_party_id \<Rightarrow> u8 list \<Rightarrow> 'd peer_node \<Rightarrow> 'd peer_served" where
  "peer_handle_message E S party data n =
     (case nd_peers n party of
        None \<Rightarrow> Some (Inr ([], n))
      | Some p \<Rightarrow>
          pbind (Some (party_decrypt S (peer_encryption_key p) data)) (\<lambda>(ok, message).
          read_then (bs_u8 (ch_bits S)) data (\<lambda>encryption _.
          pbind (if enum_value encryption_types encryption = Some Attestation
                 then Some (rbind (receive (bs_u8 (ch_bits S)) message) (\<lambda>(n, rest). Inr rest))
                 else if enum_value encryption_types encryption = Some Encrypted then Some (Inr message)
                 else Some (Inl (Fatal ''Got unexpected encryption type''))) (\<lambda>input.
            if message = [] then Some (Inr ([], n))
            else read_then (bs_u8 (ch_bits S)) input (\<lambda>number input1.
              let type = enum_value message_types number
              in if pe_state p = PeerConnected then peer_connected_message E S party p type message input1 n
                 else peer_attestation_message E S party p type input1 n)))))"

definition node_init_peer :: "remote_party_id \<Rightarrow> string \<Rightarrow> u16 \<Rightarrow> bool \<Rightarrow> dh_keys \<Rightarrow> u8 list \<Rightarrow> 'd peer_node \<Rightarrow> 'd peer_node" where
  "node_init_peer i hostname port is_initiator memory key_memory n =
     (if find_party i (sv_parties (nd_server n)) \<noteq> None then n
      else n\<lparr>nd_server := (nd_server n)\<lparr>sv_parties := init_peer i hostname port (sv_parties (nd_server n))\<rparr>,
             nd_peers := (nd_peers n)(i \<mapsto> new_peer is_initiator memory key_memory)\<rparr>)"

definition set_attestation_context :: "remote_party_id \<Rightarrow> u8 list \<Rightarrow> 'd peer_node \<Rightarrow> 'd peer_node" where
  "set_attestation_context party c n =
     (case nd_peers n party of None \<Rightarrow> n | Some p \<Rightarrow> set_peer party (p\<lparr>pe_context := Some c\<rparr>) n)"

definition peer_insert_response :: "remote_party_id \<Rightarrow> u32 \<Rightarrow> u8 list \<Rightarrow> 'd peer_node \<Rightarrow> 'd peer_node" where
  "peer_insert_response party op_id data n =
     (case nd_peers n party of None \<Rightarrow> n | Some p \<Rightarrow> set_peer party (insert_response op_id data p) n)"

end
