(* ===== verification/Server_Host.thy ===== *)
theory Server_Host
  imports Peer_Session Encrypted_IO
begin

text \<open>
  The server process around the enclave, as far as it takes part in the protocols (\<open>ClientHandler.cpp\<close>, \<open>PeerHandler.cpp\<close>,
  \<open>server/RemoteParties.cpp\<close>, \<open>server/RemoteParty.cpp\<close>, the acceptors, and the calls of \<open>EnclaveHandle.cpp\<close>): it numbers connections, passes
  messages to the enclave, carries out what the enclave asks for, moves the handshake on, and reads files for downstream servers. Sockets are
  outside: what goes to the network is a list of \<open>net_event\<close>s.
\<close>

section \<open>State\<close>

record 'd host =
  ho_node :: "'d peer_node"
  ho_attestations :: "remote_party_id \<Rightarrow> attestation option"
  ho_next_remote_party_id :: remote_party_id
  ho_disk :: disk

record 'd host_env =
  he_enclave :: "'d enclave_env"
  he_peer :: "'d peer_env"
  he_info :: host_info
  he_hash :: "string \<Rightarrow> nat"
  he_key_memory :: dh_keys
  he_encrypt :: bool
  he_connects :: "string \<Rightarrow> bool"

datatype net_event = NetSend remote_party_id "u8 list" | NetClose remote_party_id | NetConnect string

type_synonym 'd hosted = "(net_event list \<times> 'd host) result option"

abbreviation host_bits :: "('d, 'z) host_env_scheme \<Rightarrow> 'd bitstream_lib" where
  "host_bits V \<equiv> ch_bits (he_peer V)"

definition register_remote_party :: "AttestationMode \<Rightarrow> 'd host \<Rightarrow> remote_party_id \<times> 'd host" where
  "register_remote_party mode h =
     (let i = ho_next_remote_party_id h
      in (i, h\<lparr>ho_next_remote_party_id := i + 1, ho_attestations := (ho_attestations h)(i \<mapsto> new_attestation mode)\<rparr>))"

section \<open>What the enclave and the handshake ask for\<close>

fun run_action :: "remote_party_id \<Rightarrow> host_action \<Rightarrow> 'd host \<Rightarrow> net_event list \<times> 'd host" where
  "run_action party (HostSend frame) h = ([NetSend party frame], h)"
| "run_action party (HostSetContext c) h = ([], h\<lparr>ho_node := set_attestation_context party c (ho_node h)\<rparr>)"
| "run_action party HostDisconnect h = ([NetClose party], h)"

fun run_actions :: "remote_party_id \<Rightarrow> host_action list \<Rightarrow> 'd host \<Rightarrow> net_event list \<times> 'd host" where
  "run_actions party [] h = ([], h)"
| "run_actions party (act # acts) h =
     (case run_action party act h of (out, h1) \<Rightarrow> case run_actions party acts h1 of (outs, h2) \<Rightarrow> (out @ outs, h2))"

definition change_attestation ::
  "remote_party_id \<Rightarrow> (attestation \<Rightarrow> (host_action list \<times> attestation) result) \<Rightarrow> 'd host \<Rightarrow> (net_event list \<times> 'd host) result" where
  "change_attestation party f h =
     (case ho_attestations h party of
        None \<Rightarrow> Inl (RuntimeError ''No such remote party!'')
      | Some a \<Rightarrow> rbind (f a) (\<lambda>(acts, a'). Inr (run_actions party acts (h\<lparr>ho_attestations := (ho_attestations h)(party \<mapsto> a')\<rparr>))))"

fun run_effect :: "('d, 'z) host_env_scheme \<Rightarrow> effect \<Rightarrow> 'd host \<Rightarrow> (net_event list \<times> 'd host) result" where
  "run_effect V (SendFrame i frame) h =
     (if ho_attestations h i = None then Inl (RuntimeError ''No such remote party!'') else Inr ([NetSend i frame], h))"
| "run_effect V (QueueGroupIdResult i res) h = change_attestation i (\<lambda>a. Inr ([], queue_groupid_result res a)) h"
| "run_effect V (QueueMsg2 i msg2) h = change_attestation i (\<lambda>a. rbind (queue_msg2 msg2 a) (\<lambda>a'. Inr ([], a'))) h"
| "run_effect V (AskTellGroupId i) h = change_attestation i (\<lambda>a. Inr (tell_groupid (host_bits V) (he_info V) a)) h"
| "run_effect V (NotifyDone i) h = change_attestation i (\<lambda>a. rbind (set_done a) (\<lambda>a'. Inr ([], a'))) h"
| "run_effect V (Disconnect i) h =
     (if ho_attestations h i = None then Inl (RuntimeError ''No such remote party!'') else Inr ([NetClose i], h))"
| "run_effect V (ResumeTask t) h = Inr ([], h)"

fun run_effects :: "('d, 'z) host_env_scheme \<Rightarrow> effect list \<Rightarrow> 'd host \<Rightarrow> (net_event list \<times> 'd host) result" where
  "run_effects V [] h = Inr ([], h)"
| "run_effects V (eff # effs) h =
     rbind (run_effect V eff h) (\<lambda>(out, h1). rbind (run_effects V effs h1) (\<lambda>(outs, h2). Inr (out @ outs, h2)))"

definition update_attestation :: "('d, 'z) host_env_scheme \<Rightarrow> remote_party_id \<Rightarrow> 'd host \<Rightarrow> (net_event list \<times> 'd host) result" where
  "update_attestation V party h =
     change_attestation party (attestation_update (host_bits V) (pv_ra (he_peer V)) party (sv_parties (nd_server (ho_node h)))) h"

text \<open>A call into the enclave, what it asks for, and the handshake after it.\<close>

definition after_enclave ::
  "('d, 'z) host_env_scheme \<Rightarrow> remote_party_id \<Rightarrow> 'd host \<Rightarrow> (effect list \<times> 'd peer_node) result option \<Rightarrow> 'd hosted" where
  "after_enclave V party h r =
     pbind r (\<lambda>(effs, n).
       Some (rbind (run_effects V effs (h\<lparr>ho_node := n\<rparr>)) (\<lambda>(outs, h1).
             rbind (update_attestation V party h1) (\<lambda>(outs', h2). Inr (outs @ outs', h2)))))"

section \<open>Connections\<close>

definition setup_client :: "('d, 'z) host_env_scheme \<Rightarrow> 'd host \<Rightarrow> (remote_party_id \<times> net_event list \<times> 'd host) result option" where
  "setup_client V h =
     (case register_remote_party OneWay h of (i, h1) \<Rightarrow>
        pbind (server_step (he_enclave V) (he_peer V) (ClientConnects i) (nd_server (ho_node h1))) (\<lambda>(effs, sv).
          pbind (Some (change_attestation i (attestation_init (host_bits V) (he_info V)) (h1\<lparr>ho_node := (ho_node h1)\<lparr>nd_server := sv\<rparr>\<rparr>)))
            (\<lambda>(outs, h2). Some (Inr (i, outs, h2)))))"

definition setup_peer ::
  "('d, 'z) host_env_scheme \<Rightarrow> string \<Rightarrow> u16 \<Rightarrow> bool \<Rightarrow> 'd host \<Rightarrow> (remote_party_id \<times> net_event list \<times> 'd host) result" where
  "setup_peer V hostname port is_initiator h =
     (case register_remote_party (if is_initiator then TwoWay_IsInitiator else TwoWay_NotInitiator) h of (i, h1) \<Rightarrow>
        let n = node_init_peer i hostname port is_initiator (he_key_memory V) (se_memory (he_peer V)) (ho_node h1)
        in rbind (change_attestation i (attestation_init (host_bits V) (he_info V)) (h1\<lparr>ho_node := n\<rparr>)) (\<lambda>(outs, h2). Inr (i, outs, h2)))"

definition SERVER_PORT :: int where "SERVER_PORT = 5043"

text \<open>The address of another server: the port is what follows the last colon, read by the C++ library.\<close>

definition parse_url :: "(string \<Rightarrow> int result) \<Rightarrow> string \<Rightarrow> (string \<times> int) result" where
  "parse_url stoi url =
     (if CHR '':'' \<in> set url
      then rbind (stoi (rev (takeWhile (\<lambda>ch. ch \<noteq> CHR '':'') (rev url)))) (\<lambda>port.
             Inr (rev (tl (dropWhile (\<lambda>ch. ch \<noteq> CHR '':'') (rev url))), port))
      else Inr (url, SERVER_PORT))"

definition on_disconnect :: "('d, 'z) host_env_scheme \<Rightarrow> remote_party_id \<Rightarrow> 'd host \<Rightarrow> 'd hosted" where
  "on_disconnect V party h =
     pbind (server_step (he_enclave V) (he_peer V) (ClientLeaves party) (nd_server (ho_node h))) (\<lambda>(effs, sv).
       Some (Inr ([], h\<lparr>ho_node := (ho_node h)\<lparr>nd_server := sv, nd_peers := (nd_peers (ho_node h))(party := None)\<rparr>\<rparr>)))"

section \<open>Messages of other servers\<close>

definition host_op_request :: "('d, 'z) host_env_scheme \<Rightarrow> remote_party_id \<Rightarrow> u8 list \<Rightarrow> 'd host \<Rightarrow> (net_event list \<times> 'd host) result" where
  "host_op_request V party input h =
     (let B = host_bits V in
      rbind (receive (bs_u32 B) input) (\<lambda>(op_id, input1).
      rbind (receive (bs_u8 B) input1) (\<lambda>(number, input2).
        let output = put_etype B PlainText @ put_mtype B OperationResponse @ to_bytes (bs_u32 B) op_id in
        if enum_value operation_types number = Some ReadFromUpstreamDisk
        then rbind (receive (bs_string B) input2) (\<lambda>(path, input3).
             rbind (read_undecrypted_from_disk (he_hash V) path (ho_disk h)) (\<lambda>(file, d).
               Inr ([NetSend party (output @ to_bytes (bs_nested B) (case file of None \<Rightarrow> [] | Some data \<Rightarrow> data))], h\<lparr>ho_disk := d\<rparr>)))
        else Inr ([NetSend party output], h))))"

definition host_op_response :: "('d, 'z) host_env_scheme \<Rightarrow> remote_party_id \<Rightarrow> u8 list \<Rightarrow> 'd host \<Rightarrow> (net_event list \<times> 'd host) result" where
  "host_op_response V party input h =
     rbind (receive (bs_u32 (host_bits V)) input) (\<lambda>(op_id, rest).
       Inr ([], h\<lparr>ho_node := peer_insert_response party op_id rest (ho_node h)\<rparr>))"

definition handle_peer_plain_text_message ::
  "('d, 'z) host_env_scheme \<Rightarrow> remote_party_id \<Rightarrow> u8 list \<Rightarrow> 'd host \<Rightarrow> (net_event list \<times> 'd host) result" where
  "handle_peer_plain_text_message V party input h =
     rbind (receive (bs_u8 (host_bits V)) input) (\<lambda>(number, input1).
       case enum_value message_types number of
         Some OperationRequest \<Rightarrow> host_op_request V party input1 h
       | Some OperationResponse \<Rightarrow> host_op_response V party input1 h
       | _ \<Rightarrow> Inr ([], h))"

definition peer_on_network_message :: "('d, 'z) host_env_scheme \<Rightarrow> remote_party_id \<Rightarrow> u8 list \<Rightarrow> 'd host \<Rightarrow> 'd hosted" where
  "peer_on_network_message V party data h =
     read_then (bs_u8 (host_bits V)) data (\<lambda>number peeker.
       case enum_value encryption_types number of
         Some PlainText \<Rightarrow>
           Some (rbind (handle_peer_plain_text_message V party peeker h) (\<lambda>(outs, h1).
                 rbind (update_attestation V party h1) (\<lambda>(outs', h2). Inr (outs @ outs', h2))))
       | Some _ \<Rightarrow> after_enclave V party h (peer_handle_message (he_enclave V) (he_peer V) party data (ho_node h))
       | None \<Rightarrow> Some (update_attestation V party h))"

section \<open>Messages of clients\<close>

text \<open>
  A client may ask, in plain text, for a connection to another server; every exception is caught. \<open>he_connects\<close> says which connections
  succeed.
\<close>

definition handle_plain_text_message :: "('d, 'z) host_env_scheme \<Rightarrow> remote_party_id \<Rightarrow> u8 list \<Rightarrow> net_event list" where
  "handle_plain_text_message V party msg =
     (let B = host_bits V in
      case rbind (receive (bs_u8 B) msg) (\<lambda>(msg_type, msg1). rbind (receive (bs_u32 B) msg1) (\<lambda>(task_id, msg2).
           rbind (receive (bs_u32 B) msg2) (\<lambda>(op_id, msg3). rbind (receive (bs_u8 B) msg3) (\<lambda>(number, msg4).
           if enum_value operation_types number \<noteq> Some Peer then Inl (RuntimeError ''Unexpected op type'')
           else rbind (receive (bs_string B) msg4) (\<lambda>(remote_address, msg5). Inr (task_id, op_id, remote_address)))))) of
        Inl e \<Rightarrow> []
      | Inr (task_id, op_id, remote_address) \<Rightarrow>
          NetConnect remote_address #
          (if he_connects V remote_address
           then [NetSend party (put_etype B PlainText @ put_mtype B OperationResponse @ to_bytes (bs_u32 B) task_id @ to_bytes (bs_u32 B) op_id @
                   to_bytes (bs_bool B) True)]
           else []))"

definition client_on_network_message :: "('d, 'z) host_env_scheme \<Rightarrow> remote_party_id \<Rightarrow> u8 list \<Rightarrow> 'd host \<Rightarrow> 'd hosted" where
  "client_on_network_message V party data h =
     read_then (bs_u8 (host_bits V)) data (\<lambda>number peeker.
       case enum_value encryption_types number of
         Some PlainText \<Rightarrow> Some (rbind (update_attestation V party h) (\<lambda>(outs, h1). Inr (handle_plain_text_message V party peeker @ outs, h1)))
       | Some _ \<Rightarrow>
           after_enclave V party h
             (pbind (client_handle_message (he_enclave V) (he_peer V) party data (nd_server (ho_node h)))
                (\<lambda>(effs, sv). Some (Inr (effs, (ho_node h)\<lparr>nd_server := sv\<rparr>))))
       | None \<Rightarrow> Some (Inl (RuntimeError ''Unknown encryption type'')))"

end
