(* ===== verification/Peer_Handshake.thy ===== *)
theory Peer_Handshake
  imports Server_Host
begin

text \<open>
  Two servers that connect to each other: the process and the enclave of both, and the frames on the way. Shown: a library that checks the
  signature in message two refuses the one that a server makes, and no session begins. With a library that does not, the handshake of
  both servers ends, in both phases, with the same session key on both sides and each server knowing the identity of the other.
\<close>

section \<open>Frames between two servers\<close>

definition frames_for :: "remote_party_id \<Rightarrow> net_event list \<Rightarrow> u8 list list" where
  "frames_for i outs = concat (map (\<lambda>out. case out of NetSend j frame \<Rightarrow> if j = i then [frame] else [] | _ \<Rightarrow> []) outs)"

text \<open>
  The frames arrive in the order they were sent. The result says whether a side has closed the connection; the run ends then, or when no
  frame is on the way.
\<close>

partial_function (option) exchange_frames ::
  "('d, 'y) host_env_scheme \<Rightarrow> remote_party_id \<Rightarrow> ('d, 'z) host_env_scheme \<Rightarrow> remote_party_id \<Rightarrow> 'd host \<Rightarrow> 'd host \<Rightarrow> u8 list list \<Rightarrow> u8 list list \<Rightarrow>
     (bool \<times> 'd host \<times> 'd host) result option" where
  "exchange_frames V i W j h g to_g to_h =
     (case to_g of
        frame # frames \<Rightarrow>
          (case peer_on_network_message W j frame g of
             None \<Rightarrow> None
           | Some (Inl e) \<Rightarrow> Some (Inl e)
           | Some (Inr (outs, g')) \<Rightarrow>
               if NetClose j \<in> set outs then Some (Inr (True, h, g'))
               else exchange_frames V i W j h g' frames (to_h @ frames_for j outs))
      | [] \<Rightarrow>
          (case to_h of
             [] \<Rightarrow> Some (Inr (False, h, g))
           | frame # frames \<Rightarrow>
               (case peer_on_network_message V i frame h of
                  None \<Rightarrow> None
                | Some (Inl e) \<Rightarrow> Some (Inl e)
                | Some (Inr (outs, h')) \<Rightarrow>
                    if NetClose i \<in> set outs then Some (Inr (True, h', g))
                    else exchange_frames V i W j h' g (frames_for i outs) frames)))"

lemma frames_for_simps [simp]:
  "frames_for i [] = []" "frames_for i (NetSend i frame # outs) = frame # frames_for i outs" "frames_for i (outs @ outs') = frames_for i outs @ frames_for i outs'"
  by (simp_all add: frames_for_def)

lemma exchange_to_responder:
  "peer_on_network_message W j frame g = Some (Inr (outs, g')) \<Longrightarrow> NetClose j \<notin> set outs \<Longrightarrow>
     exchange_frames V i W j h g (frame # frames) to_h = exchange_frames V i W j h g' frames (to_h @ frames_for j outs)"
  by (subst exchange_frames.simps) simp

lemma exchange_to_initiator:
  "peer_on_network_message V i frame h = Some (Inr (outs, h')) \<Longrightarrow> NetClose i \<notin> set outs \<Longrightarrow>
     exchange_frames V i W j h g [] (frame # frames) = exchange_frames V i W j h' g (frames_for i outs) frames"
  by (subst exchange_frames.simps) simp

lemma exchange_ends: "exchange_frames V i W j h g [] [] = Some (Inr (False, h, g))"
  by (subst exchange_frames.simps) simp

section \<open>One connection of a server\<close>

definition with_view :: "remote_party_id \<Rightarrow> peer_session \<Rightarrow> attestation \<Rightarrow> 'd server \<Rightarrow> 'd host \<Rightarrow> 'd host" where
  "with_view i p a sv h =
     h\<lparr>ho_node := (ho_node h)\<lparr>nd_server := sv, nd_peers := (nd_peers (ho_node h))(i \<mapsto> p)\<rparr>, ho_attestations := (ho_attestations h)(i \<mapsto> a)\<rparr>"

lemma with_view_simps [simp]:
  "with_view i p a sv (with_view i p' a' sv' h) = with_view i p a sv h"
  "nd_peers (ho_node (with_view i p a sv h)) i = Some p" "ho_attestations (with_view i p a sv h) i = Some a" "nd_server (ho_node (with_view i p a sv h)) = sv"
  by (simp_all add: with_view_def)

lemma with_view_updates [simp]:
  "(with_view i p a sv h)\<lparr>ho_node := set_peer i p' (ho_node (with_view i p a sv h))\<rparr> = with_view i p' a sv h"
  "(with_view i p a sv h)\<lparr>ho_node := (ho_node (with_view i p a sv h))\<lparr>nd_server := sv'\<rparr>\<rparr> = with_view i p a sv' h"
  "(with_view i p a sv' h)\<lparr>ho_attestations := (ho_attestations (with_view i p a sv h))(i \<mapsto> a')\<rparr> = with_view i p a' sv' h"
  "(with_view i p a sv h)\<lparr>ho_node := ho_node (with_view i p a sv h)\<rparr> = with_view i p a sv h"
  by (simp_all add: with_view_def set_peer_def)

lemma with_view_context [simp]:
  "(with_view i p a sv h)\<lparr>ho_node := set_attestation_context i c (ho_node (with_view i p a' sv h))\<rparr> = with_view i (p\<lparr>pe_context := Some c\<rparr>) a sv h"
  "(ho_node (with_view i p a sv h))\<lparr>nd_server := sv\<rparr> = ho_node (with_view i p a sv h)"
  by (simp_all add: set_attestation_context_def set_peer_def with_view_def)

lemma attestation_message_step:
  assumes "wire_laws (host_bits V)" "pe_state p \<noteq> PeerConnected"
  shows "peer_on_network_message V i (attestation_frame (host_bits V) t body) (with_view i p a sv h) =
    after_enclave V i (with_view i p a sv h) (peer_attestation_message (he_enclave V) (he_peer V) i p (Some t) body (ho_node (with_view i p a sv h)))"
proof -
  have "put_etype (host_bits V) Attestation \<noteq> []" using type_bytes_nonempty [OF assms(1)] by blast
  then show ?thesis
    using assms
    by (simp add: peer_on_network_message_def attestation_frame_def put_etype_def put_mtype_def peer_handle_message_def peer_encryption_key_def
        party_decrypt_def Let_def)
qed

definition idle :: "attestation \<Rightarrow> bool" where
  "idle a \<longleftrightarrow> (at_state a = WaitingForGroupIdResult \<longrightarrow> at_groupid_result a = None) \<and> (at_state a = WaitingForMsg2 \<longrightarrow> at_msg2 a = None)"

lemma idle_update: "idle a \<Longrightarrow> attestation_update B R party r a = Inr ([], a)"
  by (cases "at_state a") (simp_all add: attestation_update_def idle_def)

lemma idle_after_enclave:
  assumes "run_effects V effs (h\<lparr>ho_node := n\<rparr>) = Inr (outs, with_view i p a sv h')" "idle a"
  shows "after_enclave V i h (Some (Inr (effs, n))) = Some (Inr (outs, with_view i p a sv h'))"
  using assms by (simp add: after_enclave_def update_attestation_def change_attestation_def idle_update)

text \<open>What a server says about itself, as the other one reads it.\<close>

abbreviation introduction :: "('d, 'z) host_env_scheme \<Rightarrow> u8 list" where
  "introduction V \<equiv> to_bytes (bs_bool (host_bits V)) True @ to_bytes (bs_string (host_bits V)) (id_name (ee_identity (he_enclave V))) @ pv_public_key (he_peer V)"

section \<open>The steps of the verifying side\<close>

lemmas peer_step_defs = peer_attestation_message_def update_peer_def update_server_def

lemma verifier_group_id:
  assumes "wire_laws (host_bits V)" "pe_state p \<noteq> PeerConnected" "\<not> is_prover p" "idle a"
  shows "peer_on_network_message V i (attestation_frame (host_bits V) TellGroupId (to_bytes (bs_u32 (host_bits V)) gid @ rest)) (with_view i p a sv h) =
    Some (Inr ([NetSend i (attestation_frame (host_bits V) GroupIdResponse (introduction V))], with_view i (p\<lparr>pe_group_id := gid\<rparr>) a sv h))"
  unfolding attestation_message_step [OF assms(1,2)]
  using assms by (simp add: peer_step_defs peer_tell_group_id_def idle_after_enclave)

lemma verifier_message_one:
  assumes "wire_laws (host_bits V)" "pe_state p \<noteq> PeerConnected" "\<not> is_prover p" "idle a" "length msg1 = al_msg1_size (pv_attest (he_peer V))"
    and "peer_message_one (pv_attest (he_peer V)) (pv_private_key (he_peer V)) msg1 (pe_keys p) = (Some msg2, keys)"
  shows "peer_on_network_message V i (attestation_frame (host_bits V) AttestationMessage1 msg1) (with_view i p a sv h) =
    Some (Inr ([NetSend i (attestation_frame (host_bits V) AttestationMessage2 (to_bytes (bs_u32 (host_bits V)) (word_of_nat (length msg2)) @ msg2))],
      with_view i (p\<lparr>pe_keys := keys\<rparr>) a sv h))"
proof -
  have "bs_raw (host_bits V) (al_msg1_size (pv_attest (he_peer V))) msg1 = Some (msg1, [])"
    using wire_reads(12) [OF assms(1,5), of "[]"] by simp
  then show ?thesis
    unfolding attestation_message_step [OF assms(1,2)]
    using assms by (simp add: peer_step_defs peer_attestation_message_one_def read_raw_then_def idle_after_enclave)
qed

abbreviation result_frame :: "('d, 'z) host_env_scheme \<Rightarrow> u8 list \<Rightarrow> u8 list" where
  "result_frame V blob \<equiv> attestation_frame (host_bits V) AttestationResult (to_bytes (bs_i32 (host_bits V)) 0 @ to_bytes (bs_i32 (host_bits V)) 0 @ blob)"

abbreviation message_three_frame :: "('d, 'z) host_env_scheme \<Rightarrow> u8 list \<Rightarrow> u8 list" where
  "message_three_frame V msg3 \<equiv> attestation_frame (host_bits V) AttestationMessage3 (to_bytes (bs_u32 (host_bits V)) (word_of_nat (length msg3)) @ msg3)"

definition group_id_body :: "('d, 'z) host_env_scheme \<Rightarrow> u8 list" where
  "group_id_body V = to_bytes (bs_string (host_bits V)) (hi_name (he_info V)) @ hi_public_key (he_info V) @
     to_bytes (bs_bool (host_bits V)) (hi_upstream_public_key (he_info V) \<noteq> None) @
     (case hi_upstream_public_key (he_info V) of None \<Rightarrow> [] | Some key \<Rightarrow> key)"

abbreviation group_id_frame :: "('d, 'z) host_env_scheme \<Rightarrow> u8 list" where
  "group_id_frame V \<equiv> attestation_frame (host_bits V) TellGroupId (to_bytes (bs_u32 (host_bits V)) (hi_groupid (he_info V)) @ group_id_body V)"

lemma tell_groupid_frame: "tell_groupid (host_bits V) (he_info V) a = ([HostSend (group_id_frame V)], a\<lparr>at_state := WaitingForGroupIdResult\<rparr>)"
  by (simp add: tell_groupid_def attestation_frame_def group_id_body_def)

lemma verifier_message_three:
  assumes "wire_laws (host_bits V)" "\<not> is_prover p" "small msg3" "peer_message_three (pv_attest (he_peer V)) (pe_keys p) msg3 = Inr (Some blob)"
  shows "pe_state p = Attestation_Phase1 \<Longrightarrow> at_groupid_result a = None \<Longrightarrow>
    peer_on_network_message V i (message_three_frame V msg3) (with_view i p a sv h) =
      Some (Inr ([NetSend i (result_frame V blob), NetSend i (group_id_frame V)],
        with_view i (p\<lparr>pe_state := Attestation_Phase2\<rparr>) (a\<lparr>at_state := WaitingForGroupIdResult\<rparr>) sv h))"
    and "pe_state p = Attestation_Phase2 \<Longrightarrow> at_state a \<noteq> AttestationDone \<Longrightarrow>
    peer_on_network_message V i (message_three_frame V msg3) (with_view i p a sv h) =
      Some (Inr ([NetSend i (result_frame V blob)],
        with_view i (snd (peer_set_connected (he_peer V) i p)) (a\<lparr>at_state := AttestationDone\<rparr>) sv h))"
proof -
  have "bs_raw (host_bits V) (length msg3) msg3 = Some (msg3, [])" using wire_reads(12) [OF assms(1) refl, of msg3 "[]"] by simp
  then have three: "peer_attestation_message_three (he_peer V) i p (to_bytes (bs_u32 (host_bits V)) (word_of_nat (length msg3)) @ msg3) =
      (if pe_state p = Attestation_Phase1 then Some (Inr ([SendFrame i (result_frame V blob), AskTellGroupId i], p\<lparr>pe_state := Attestation_Phase2\<rparr>))
       else case peer_set_connected (he_peer V) i p of (effs, p') \<Rightarrow> Some (Inr (SendFrame i (result_frame V blob) # effs, p')))"
    using assms by (simp add: peer_attestation_message_three_def read_raw_then_def Let_def)
  show "peer_on_network_message V i (message_three_frame V msg3) (with_view i p a sv h) =
      Some (Inr ([NetSend i (result_frame V blob), NetSend i (group_id_frame V)],
        with_view i (p\<lparr>pe_state := Attestation_Phase2\<rparr>) (a\<lparr>at_state := WaitingForGroupIdResult\<rparr>) sv h))"
    if "pe_state p = Attestation_Phase1" "at_groupid_result a = None"
  proof -
    have "idle (a\<lparr>at_state := WaitingForGroupIdResult\<rparr>)" using that by (simp add: idle_def)
    then show ?thesis
      using that assms attestation_message_step [OF assms(1), of p] three
      by (simp add: peer_step_defs idle_after_enclave change_attestation_def tell_groupid_frame)
  qed
  show "peer_on_network_message V i (message_three_frame V msg3) (with_view i p a sv h) =
      Some (Inr ([NetSend i (result_frame V blob)], with_view i (snd (peer_set_connected (he_peer V) i p)) (a\<lparr>at_state := AttestationDone\<rparr>) sv h))"
    if "pe_state p = Attestation_Phase2" "at_state a \<noteq> AttestationDone"
  proof -
    have "idle (a\<lparr>at_state := AttestationDone\<rparr>)" by (simp add: idle_def)
    then show ?thesis
      using that assms attestation_message_step [OF assms(1), of p] three
      by (simp add: peer_step_defs idle_after_enclave change_attestation_def set_done_def peer_set_connected_def Let_def)
  qed
qed

section \<open>The steps of the proving side\<close>

abbreviation message_one_frame :: "('d, 'z) host_env_scheme \<Rightarrow> u8 list \<Rightarrow> u8 list" where
  "message_one_frame V msg1 \<equiv> attestation_frame (host_bits V) AttestationMessage1 msg1"

lemma prover_group_id:
  assumes "wire_laws (host_bits V)" "is_prover p" "at_state a = WaitingForGroupIdResult"
    and key: "small name" "length key = PUBLIC_KEY_SIZE"
    and known: "identify (se_uid_of (he_peer V)) (ee_identity (he_enclave V)) i name key (sv_identities sv) (sv_parties sv) = Inr (None, db, parties)"
    and started: "credb_ra_init (pv_ra (he_peer V)) i parties = Inr (Some c)"
    and msg1: "attempt 0 NUM_RETRIES (\<lambda>k. ra_get_msg1 (pv_ra (he_peer V)) k c) = Some msg1"
  shows "peer_on_network_message V i (attestation_frame (host_bits V) GroupIdResponse
      (to_bytes (bs_bool (host_bits V)) True @ to_bytes (bs_string (host_bits V)) name @ key)) (with_view i p a sv h) =
    Some (Inr ([NetSend i (message_one_frame V msg1)],
      with_view i p (a\<lparr>at_context := Some c, at_state := WaitingForMsg2, at_groupid_result := None\<rparr>) (sv\<lparr>sv_identities := db, sv_parties := parties\<rparr>) h))"
proof -
  have "pe_state p \<noteq> PeerConnected" using assms(2) by (auto simp: is_prover_def)
  moreover have "bs_raw (host_bits V) PUBLIC_KEY_SIZE key = Some (key, [])" using wire_reads(12) [OF assms(1) key(2), of "[]"] by simp
  ultimately show ?thesis
    using assms
    by (simp add: attestation_message_step peer_step_defs handle_groupid_response_def read_raw_then_def after_enclave_def change_attestation_def
        queue_groupid_result_def update_attestation_def attestation_update_def handle_groupid_result_def attestation_frame_def [of _ AttestationMessage1])
qed

lemma prover_message_two:
  assumes "wire_laws (host_bits V)" "is_prover p" "at_state a = WaitingForMsg2" "at_msg2 a = None" "at_context a = Some c" "small msg2"
    and msg3: "attempt 0 NUM_RETRIES (\<lambda>k. ra_proc_msg2 (pv_ra (he_peer V)) k c msg2) = Some (c', Some msg3)"
  shows "peer_on_network_message V i (attestation_frame (host_bits V) AttestationMessage2
      (to_bytes (bs_u32 (host_bits V)) (word_of_nat (length msg2)) @ msg2)) (with_view i p a sv h) =
    Some (Inr ([NetSend i (message_three_frame V msg3)], with_view i (p\<lparr>pe_context := Some c'\<rparr>)
      (a\<lparr>at_context := Some c', at_state := (if at_mode a = TwoWay_IsInitiator then ReadyToTellGroupId else WaitingForMsg2), at_msg2 := None\<rparr>) sv h))"
proof -
  have "pe_state p \<noteq> PeerConnected" using assms(2) by (auto simp: is_prover_def)
  moreover have "bs_raw (host_bits V) (length msg2) msg2 = Some (msg2, [])" using wire_reads(12) [OF assms(1) refl, of msg2 "[]"] by simp
  ultimately show ?thesis
    using assms
    by (simp add: attestation_message_step peer_step_defs handle_attestation_message_two_def read_raw_then_def after_enclave_def change_attestation_def
        queue_msg2_def update_attestation_def attestation_update_def handle_msg2_def attestation_frame_def [of _ AttestationMessage3])
qed

lemma prover_result:
  assumes "wire_laws (host_bits V)" "is_prover p" "length blob = se_blob_size (he_peer V) + MAC_SIZE"
  shows "pe_state p = Attestation_Phase1 \<Longrightarrow> idle a \<Longrightarrow>
    peer_on_network_message V i (result_frame V blob) (with_view i p a sv h) = Some (Inr ([], with_view i (p\<lparr>pe_state := Attestation_Phase2\<rparr>) a sv h))"
    and "pe_state p = Attestation_Phase2 \<Longrightarrow> at_state a \<noteq> AttestationDone \<Longrightarrow>
    peer_on_network_message V i (result_frame V blob) (with_view i p a sv h) =
      Some (Inr ([], with_view i (snd (peer_set_connected (he_peer V) i p)) (a\<lparr>at_state := AttestationDone\<rparr>) sv h))"
proof -
  let ?n = "se_blob_size (he_peer V)"
  have "bs_raw (host_bits V) ?n blob = Some (take ?n blob, drop ?n blob)" "bs_raw (host_bits V) MAC_SIZE (drop ?n blob) = Some (drop ?n blob, [])"
    using wire_reads(12) [OF assms(1), of "take ?n blob" ?n "drop ?n blob"] wire_reads(12) [OF assms(1), of "drop ?n blob" MAC_SIZE "[]"] assms(3) by simp_all
  then have result: "peer_attestation_result (he_peer V) i p (to_bytes (bs_i32 (host_bits V)) 0 @ to_bytes (bs_i32 (host_bits V)) 0 @ blob) =
      (if pe_state p = Attestation_Phase2 then Some (Inr (peer_set_connected (he_peer V) i p)) else Some (Inr ([], p\<lparr>pe_state := Attestation_Phase2\<rparr>)))"
    using assms(1) by (simp add: peer_attestation_result_def read_raw_then_def)
  show "peer_on_network_message V i (result_frame V blob) (with_view i p a sv h) = Some (Inr ([], with_view i (p\<lparr>pe_state := Attestation_Phase2\<rparr>) a sv h))"
    if "pe_state p = Attestation_Phase1" "idle a"
    using that assms attestation_message_step [OF assms(1), of p] result by (simp add: peer_step_defs idle_after_enclave)
  show "peer_on_network_message V i (result_frame V blob) (with_view i p a sv h) =
      Some (Inr ([], with_view i (snd (peer_set_connected (he_peer V) i p)) (a\<lparr>at_state := AttestationDone\<rparr>) sv h))"
    if "pe_state p = Attestation_Phase2" "at_state a \<noteq> AttestationDone"
  proof -
    have "idle (a\<lparr>at_state := AttestationDone\<rparr>)" by (simp add: idle_def)
    then show ?thesis
      using that assms attestation_message_step [OF assms(1), of p] result
      by (simp add: peer_step_defs idle_after_enclave change_attestation_def set_done_def peer_set_connected_def Let_def)
  qed
qed

section \<open>The whole handshake\<close>

text \<open>
  One exchange that succeeds, from the side that proves itself with the library \<open>R\<close> to the side that verifies with the
  primitives \<open>A\<close>: every call succeeds within the attempts, message three passes the checks, and the library returns the key
  that the verifier has derived. The SGX library does not do so, since it checks the signature of message two; see the last section.
\<close>

definition key_exchange :: "'y ra_lib_scheme \<Rightarrow> 'z attest_lib_scheme \<Rightarrow> u8 list \<Rightarrow> public_key \<Rightarrow> nat \<Rightarrow> dh_keys \<Rightarrow> dh_keys \<Rightarrow> bool" where
  "key_exchange R A private_key public_key blob_size keys keys' \<longleftrightarrow>
     (\<exists>c msg1 msg2 c' msg3 blob.
        ra_init R public_key = Some c \<and> attempt 0 NUM_RETRIES (\<lambda>k. ra_get_msg1 R k c) = Some msg1 \<and> length msg1 = al_msg1_size A \<and>
        peer_message_one A private_key msg1 keys = (Some msg2, keys') \<and> small msg2 \<and>
        attempt 0 NUM_RETRIES (\<lambda>k. ra_proc_msg2 R k c msg2) = Some (c', Some msg3) \<and> small msg3 \<and>
        peer_message_three A keys' msg3 = Inr (Some blob) \<and> length blob = blob_size + MAC_SIZE \<and> ra_get_keys R c' = Some (dk_sk keys'))"

text \<open>A server \<open>V\<close> in the state \<open>h\<close> can accept the server \<open>W\<close>: another name, a key that fits to what is known of that name, and no other connection with it.\<close>

definition can_accept :: "('d, 'y) host_env_scheme \<Rightarrow> 'd host \<Rightarrow> ('d, 'z) host_env_scheme \<Rightarrow> bool" where
  "can_accept V h W \<longleftrightarrow>
     (let sv = nd_server (ho_node h); name = id_name (ee_identity (he_enclave W)); key = pv_public_key (he_peer W)
      in find_party (ho_next_remote_party_id h) (sv_parties sv) = None \<and> map_of (m_uid_mapping (sv_parties sv)) (se_uid_of (he_peer V) key) = None \<and>
         name \<noteq> id_name (ee_identity (he_enclave V)) \<and> small name \<and> length key = PUBLIC_KEY_SIZE \<and> key \<noteq> INVALID_PUBLIC_KEY \<and>
         (\<forall>k. map_of (sv_identities sv) name = Some k \<longrightarrow> ki_key k = key \<and> id_name (ki_identity k) = name))"

lemma identify_accepted:
  assumes "can_accept V h W"
  defines "i \<equiv> ho_next_remote_party_id h" and "sv \<equiv> nd_server (ho_node h)"
    and "name \<equiv> id_name (ee_identity (he_enclave W))" and "key \<equiv> pv_public_key (he_peer W)"
  shows "\<exists>db parties p k. identify (se_uid_of (he_peer V)) (ee_identity (he_enclave V)) i name key (sv_identities sv) (init_peer i hostname port (sv_parties sv)) =
      Inr (None, db, parties) \<and> find_party i parties = Some p \<and> rp_identity p = Some k \<and> ki_key k = key \<and> id_name (ki_identity k) = name"
proof -
  have "\<exists>k db. identity_get name key (sv_identities sv) = Inr (k, db) \<and> ki_key k = key \<and> id_name (ki_identity k) = name"
    using assms by (cases "map_of (sv_identities sv) name") (auto simp: can_accept_def identity_get_def Let_def)
  then show ?thesis
    using assms
    by (auto simp: can_accept_def identify_def init_peer_def insert_party_def find_party_def set_identity_def identity_eq_def Let_def update_conv)
qed

lemma setup_peer_view:
  assumes "can_accept V h W"
  defines "i \<equiv> ho_next_remote_party_id h" and "sv \<equiv> nd_server (ho_node h)"
  shows "setup_peer V hostname port is_initiator h =
    Inr (i, if is_initiator then [NetSend i (group_id_frame V)] else [],
      with_view i (new_peer is_initiator (he_key_memory V) (se_memory (he_peer V)))
        (if is_initiator then (new_attestation TwoWay_IsInitiator)\<lparr>at_state := WaitingForGroupIdResult\<rparr> else new_attestation TwoWay_NotInitiator)
        (sv\<lparr>sv_parties := init_peer i hostname port (sv_parties sv)\<rparr>) (h\<lparr>ho_next_remote_party_id := i + 1\<rparr>))"
  using assms
  by (auto simp: setup_peer_def register_remote_party_def Let_def can_accept_def node_init_peer_def change_attestation_def attestation_init_def
      new_attestation_def tell_groupid_frame with_view_def)

text \<open>The first phase: the server that has opened the connection proves itself.\<close>

lemma phase_one:
  assumes W: "wire_laws (host_bits V)" "host_bits W = host_bits V"
    and exchange: "key_exchange (pv_ra (he_peer V)) (pv_attest (he_peer W)) (pv_private_key (he_peer W)) (pv_public_key (he_peer W)) (se_blob_size (he_peer V)) (pe_keys q) keys"
    and p: "pe_is_initiator p" "pe_state p = Attestation_Phase1" and q: "\<not> pe_is_initiator q" "pe_state q = Attestation_Phase1"
    and a: "at_mode a = TwoWay_IsInitiator" "at_state a = WaitingForGroupIdResult" "at_msg2 a = None"
    and b: "at_state b = ReadyToTellGroupId" "at_groupid_result b = None"
    and name: "small (id_name (ee_identity (he_enclave W)))" "length (pv_public_key (he_peer W)) = PUBLIC_KEY_SIZE"
    and known: "identify (se_uid_of (he_peer V)) (ee_identity (he_enclave V)) i (id_name (ee_identity (he_enclave W))) (pv_public_key (he_peer W))
        (sv_identities sv) (sv_parties sv) = Inr (None, db, parties)"
      "find_party i parties = Some rp" "rp_identity rp = Some k" "ki_key k = pv_public_key (he_peer W)"
  shows "\<exists>c a'. ra_get_keys (pv_ra (he_peer V)) c = Some (dk_sk keys) \<and> at_state a' = ReadyToTellGroupId \<and>
    exchange_frames V i W j (with_view i p a sv h) (with_view j q b sw g) [group_id_frame V] [] =
    exchange_frames V i W j (with_view i (p\<lparr>pe_context := Some c, pe_state := Attestation_Phase2\<rparr>) a' (sv\<lparr>sv_identities := db, sv_parties := parties\<rparr>) h)
      (with_view j (q\<lparr>pe_group_id := hi_groupid (he_info V), pe_keys := keys, pe_state := Attestation_Phase2\<rparr>) (b\<lparr>at_state := WaitingForGroupIdResult\<rparr>) sw g)
      [] [group_id_frame W]"
proof -
  obtain c msg1 msg2 c' msg3 blob where x: "ra_init (pv_ra (he_peer V)) (pv_public_key (he_peer W)) = Some c"
    "attempt 0 NUM_RETRIES (\<lambda>k. ra_get_msg1 (pv_ra (he_peer V)) k c) = Some msg1" "length msg1 = al_msg1_size (pv_attest (he_peer W))"
    "peer_message_one (pv_attest (he_peer W)) (pv_private_key (he_peer W)) msg1 (pe_keys q) = (Some msg2, keys)" "small msg2"
    "attempt 0 NUM_RETRIES (\<lambda>k. ra_proc_msg2 (pv_ra (he_peer V)) k c msg2) = Some (c', Some msg3)" "small msg3"
    "peer_message_three (pv_attest (he_peer W)) keys msg3 = Inr (Some blob)" "length blob = se_blob_size (he_peer V) + MAC_SIZE"
    "ra_get_keys (pv_ra (he_peer V)) c' = Some (dk_sk keys)"
    using exchange unfolding key_exchange_def by blast
  have init: "credb_ra_init (pv_ra (he_peer V)) i parties = Inr (Some c)" using known x(1) by (simp add: credb_ra_init_def)
  let ?a1 = "a\<lparr>at_context := Some c, at_state := WaitingForMsg2, at_groupid_result := None\<rparr>"
  let ?a2 = "?a1\<lparr>at_context := Some c', at_state := ReadyToTellGroupId, at_msg2 := None\<rparr>"
  let ?q1 = "q\<lparr>pe_group_id := hi_groupid (he_info V)\<rparr>" and ?p1 = "p\<lparr>pe_context := Some c'\<rparr>" and ?sv = "sv\<lparr>sv_identities := db, sv_parties := parties\<rparr>"
  note W' = W(1) [folded W(2)]
  have idle: "idle b" "idle ?a2" using b by (simp_all add: idle_def)
  have roles: "is_prover p" "is_prover ?p1" "\<not> is_prover q" "\<not> is_prover ?q1" "\<not> is_prover (?q1\<lparr>pe_keys := keys\<rparr>)" "pe_state q \<noteq> PeerConnected"
    using p q by (simp_all add: is_prover_def)
  note s1 = exchange_to_responder [OF verifier_group_id [OF W' roles(6,3) idle(1)]]
    and s2 = exchange_to_initiator [OF prover_group_id [OF W(1) roles(1) a(2) name known(1) init x(2)]]
    and s3 = exchange_to_responder [OF verifier_message_one [of W ?q1 b, OF W' _ roles(4) idle(1) x(3)]]
    and s4 = exchange_to_initiator [OF prover_message_two [of V p ?a1 c msg2 c' msg3, OF W(1) roles(1)]]
    and s5 = exchange_to_responder [OF verifier_message_three(1) [of W "?q1\<lparr>pe_keys := keys\<rparr>" msg3 blob b, OF W' roles(5) x(7)]]
    and s6 = exchange_to_initiator [OF prover_result(1) [OF W(1) roles(2) x(9)]]
  show ?thesis
    using x p q a b W idle
    by (intro exI [of _ c'] exI [of _ ?a2]) (simp add: s1 [unfolded W(2)] s2 s3 [unfolded W(2)] s4 s5 [unfolded W(2)] s6)
qed

text \<open>The second phase: the server that has accepted the connection proves itself, and both sides end connected.\<close>

lemma phase_two:
  assumes W: "wire_laws (host_bits V)" "host_bits W = host_bits V"
    and exchange: "key_exchange (pv_ra (he_peer W)) (pv_attest (he_peer V)) (pv_private_key (he_peer V)) (pv_public_key (he_peer V)) (se_blob_size (he_peer W)) (pe_keys p) keys"
    and p: "pe_is_initiator p" "pe_state p = Attestation_Phase2" and q: "\<not> pe_is_initiator q" "pe_state q = Attestation_Phase2"
    and a: "at_state a = ReadyToTellGroupId"
    and b: "at_mode b = TwoWay_NotInitiator" "at_state b = WaitingForGroupIdResult" "at_msg2 b = None"
    and name: "small (id_name (ee_identity (he_enclave V)))" "length (pv_public_key (he_peer V)) = PUBLIC_KEY_SIZE"
    and known: "identify (se_uid_of (he_peer W)) (ee_identity (he_enclave W)) j (id_name (ee_identity (he_enclave V))) (pv_public_key (he_peer V))
        (sv_identities sw) (sv_parties sw) = Inr (None, db, parties)"
      "find_party j parties = Some rp" "rp_identity rp = Some k" "ki_key k = pv_public_key (he_peer V)"
  shows "\<exists>c a' b'. ra_get_keys (pv_ra (he_peer W)) c = Some (dk_sk keys) \<and> at_state a' = AttestationDone \<and> at_state b' = AttestationDone \<and>
    exchange_frames V i W j (with_view i p a sv h) (with_view j q b sw g) [] [group_id_frame W] =
    Some (Inr (False,
      with_view i (snd (peer_set_connected (he_peer V) i (p\<lparr>pe_group_id := hi_groupid (he_info W), pe_keys := keys\<rparr>))) a' sv h,
      with_view j (snd (peer_set_connected (he_peer W) j (q\<lparr>pe_context := Some c\<rparr>))) b' (sw\<lparr>sv_identities := db, sv_parties := parties\<rparr>) g))"
proof -
  obtain c msg1 msg2 c' msg3 blob where x: "ra_init (pv_ra (he_peer W)) (pv_public_key (he_peer V)) = Some c"
    "attempt 0 NUM_RETRIES (\<lambda>k. ra_get_msg1 (pv_ra (he_peer W)) k c) = Some msg1" "length msg1 = al_msg1_size (pv_attest (he_peer V))"
    "peer_message_one (pv_attest (he_peer V)) (pv_private_key (he_peer V)) msg1 (pe_keys p) = (Some msg2, keys)" "small msg2"
    "attempt 0 NUM_RETRIES (\<lambda>k. ra_proc_msg2 (pv_ra (he_peer W)) k c msg2) = Some (c', Some msg3)" "small msg3"
    "peer_message_three (pv_attest (he_peer V)) keys msg3 = Inr (Some blob)" "length blob = se_blob_size (he_peer W) + MAC_SIZE"
    "ra_get_keys (pv_ra (he_peer W)) c' = Some (dk_sk keys)"
    using exchange unfolding key_exchange_def by blast
  have init: "credb_ra_init (pv_ra (he_peer W)) j parties = Inr (Some c)" using known x(1) by (simp add: credb_ra_init_def)
  let ?b1 = "b\<lparr>at_context := Some c, at_state := WaitingForMsg2, at_groupid_result := None\<rparr>"
  let ?b2 = "?b1\<lparr>at_context := Some c', at_state := WaitingForMsg2, at_msg2 := None\<rparr>"
  let ?p1 = "p\<lparr>pe_group_id := hi_groupid (he_info W)\<rparr>" and ?q1 = "q\<lparr>pe_context := Some c'\<rparr>"
  note W' = W(1) [folded W(2)]
  have idle: "idle a" using a by (simp add: idle_def)
  have roles: "is_prover q" "is_prover ?q1" "\<not> is_prover p" "\<not> is_prover ?p1" "\<not> is_prover (?p1\<lparr>pe_keys := keys\<rparr>)" "pe_state p \<noteq> PeerConnected"
    using p q by (simp_all add: is_prover_def)
  note s1 = exchange_to_initiator [OF verifier_group_id [OF W(1) roles(6,3) idle]]
    and s2 = exchange_to_responder [OF prover_group_id [OF W' roles(1) b(2) name known(1) init x(2)]]
    and s3 = exchange_to_initiator [OF verifier_message_one [of V ?p1 a, OF W(1) _ roles(4) idle x(3)]]
    and s4 = exchange_to_responder [OF prover_message_two [of W q ?b1 c msg2 c' msg3, OF W' roles(1)]]
    and s5 = exchange_to_initiator [OF verifier_message_three(2) [of V "?p1\<lparr>pe_keys := keys\<rparr>" msg3 blob a, OF W(1) roles(5) x(7)]]
    and s6 = exchange_to_responder [OF prover_result(2) [OF W' roles(2) x(9)]]
  show ?thesis
    using x p q a b W idle
    by - (rule exI [of _ c'], rule exI [of _ "a\<lparr>at_state := AttestationDone\<rparr>"], rule exI [of _ "?b2\<lparr>at_state := AttestationDone\<rparr>"],
      simp add: s1 s2 [unfolded W(2)] s3 s4 [unfolded W(2)] s5 s6 [unfolded W(2)] exchange_ends)
qed

section \<open>Two servers that attest one another\<close>

definition connected_as :: "'d host \<Rightarrow> remote_party_id \<Rightarrow> string \<Rightarrow> public_key \<Rightarrow> u8 list \<Rightarrow> bool" where
  "connected_as h i name key session_key \<longleftrightarrow>
     (case nd_peers (ho_node h) i of None \<Rightarrow> False | Some p \<Rightarrow> peer_encryption_key p = Some session_key) \<and>
     (case ho_attestations h i of None \<Rightarrow> False | Some a \<Rightarrow> at_state a = AttestationDone) \<and>
     (case party_identity i (nd_server (ho_node h)) of None \<Rightarrow> False | Some k \<Rightarrow> id_name (ki_identity k) = name \<and> ki_key k = key)"

lemma map2_xor_commute: "map2 (XOR) xs ys = map2 (XOR) ys (xs :: u8 list)"
  by (subst zip_commute) (simp add: case_prod_beta xor.commute)

lemma set_connected_key:
  "ra_get_keys (pv_ra S) c = Some key \<Longrightarrow> pe_context p = Some c \<Longrightarrow>
     peer_encryption_key (snd (peer_set_connected S i p)) = Some (map2 (XOR) key (dk_sk (pe_keys p)))"
  by (simp add: peer_set_connected_def peer_encryption_key_def)

lemma connected_as_view:
  assumes "ra_get_keys (pv_ra S) c = Some key" "pe_context p = Some c" "at_state a = AttestationDone"
    and "find_party i parties = Some rp" "rp_identity rp = Some k"
  shows "connected_as (with_view i (snd (peer_set_connected S i p)) a (sv\<lparr>sv_identities := db, sv_parties := parties\<rparr>) h) i
    (id_name (ki_identity k)) (ki_key k) (map2 (XOR) key (dk_sk (pe_keys p)))"
  using assms by (simp add: connected_as_def set_connected_key party_identity_def)

text \<open>What the call of identify on the first answer of the other server leaves.\<close>

definition identified_as :: "('d, 'y) host_env_scheme \<Rightarrow> ('d, 'z) host_env_scheme \<Rightarrow> remote_party_id \<Rightarrow> 'd server \<Rightarrow> identity_database \<Rightarrow> remote_parties \<Rightarrow> known_identity \<Rightarrow> bool" where
  "identified_as V W i sv db parties k \<longleftrightarrow>
     identify (se_uid_of (he_peer V)) (ee_identity (he_enclave V)) i (id_name (ee_identity (he_enclave W))) (pv_public_key (he_peer W))
       (sv_identities sv) (sv_parties sv) = Inr (None, db, parties) \<and>
     (\<exists>rp. find_party i parties = Some rp \<and> rp_identity rp = Some k) \<and>
     ki_key k = pv_public_key (he_peer W) \<and> id_name (ki_identity k) = id_name (ee_identity (he_enclave W)) \<and>
     small (id_name (ee_identity (he_enclave W))) \<and> length (pv_public_key (he_peer W)) = PUBLIC_KEY_SIZE"

lemma accepted_identified:
  assumes "can_accept V h W"
  defines "i \<equiv> ho_next_remote_party_id h" and "sv \<equiv> nd_server (ho_node h)"
  shows "\<exists>db parties k. identified_as V W i (sv\<lparr>sv_parties := init_peer i hostname port (sv_parties sv)\<rparr>) db parties k"
  using identify_accepted [OF assms(1), of hostname port] assms(1)
  unfolding identified_as_def i_def sv_def can_accept_def Let_def by fastforce

lemma both_phases:
  assumes W: "wire_laws (host_bits V)" "host_bits W = host_bits V"
    and exchange: "key_exchange (pv_ra (he_peer V)) (pv_attest (he_peer W)) (pv_private_key (he_peer W)) (pv_public_key (he_peer W)) (se_blob_size (he_peer V)) (pe_keys q) kW"
      "key_exchange (pv_ra (he_peer W)) (pv_attest (he_peer V)) (pv_private_key (he_peer V)) (pv_public_key (he_peer V)) (se_blob_size (he_peer W)) (pe_keys p) kV"
    and p: "pe_is_initiator p" "pe_state p = Attestation_Phase1" and q: "\<not> pe_is_initiator q" "pe_state q = Attestation_Phase1"
    and a: "at_mode a = TwoWay_IsInitiator" "at_state a = WaitingForGroupIdResult" "at_msg2 a = None"
    and b: "at_mode b = TwoWay_NotInitiator" "at_state b = ReadyToTellGroupId" "at_groupid_result b = None" "at_msg2 b = None"
    and known: "identified_as V W i sv db parties k" "identified_as W V j sw db' parties' k'"
  shows "\<exists>h2 g2. exchange_frames V i W j (with_view i p a sv h) (with_view j q b sw g) [group_id_frame V] [] = Some (Inr (False, h2, g2)) \<and>
    connected_as h2 i (id_name (ki_identity k)) (ki_key k) (map2 (XOR) (dk_sk kW) (dk_sk kV)) \<and>
    connected_as g2 j (id_name (ki_identity k')) (ki_key k') (map2 (XOR) (dk_sk kW) (dk_sk kV))"
proof -
  let ?V = "he_peer V" and ?W = "he_peer W"
  let ?sv = "sv\<lparr>sv_identities := db, sv_parties := parties\<rparr>" and ?sw = "sw\<lparr>sv_identities := db', sv_parties := parties'\<rparr>"
  obtain rp where rp: "find_party i parties = Some rp" "rp_identity rp = Some k" using known(1) unfolding identified_as_def by blast
  obtain rp' where rp': "find_party j parties' = Some rp'" "rp_identity rp' = Some k'" using known(2) unfolding identified_as_def by blast
  obtain c a' where c: "ra_get_keys (pv_ra ?V) c = Some (dk_sk kW)" and a': "at_state a' = ReadyToTellGroupId"
    and one: "exchange_frames V i W j (with_view i p a sv h) (with_view j q b sw g) [group_id_frame V] [] =
    exchange_frames V i W j (with_view i (p\<lparr>pe_context := Some c, pe_state := Attestation_Phase2\<rparr>) a' ?sv h)
      (with_view j (q\<lparr>pe_group_id := hi_groupid (he_info V), pe_keys := kW, pe_state := Attestation_Phase2\<rparr>) (b\<lparr>at_state := WaitingForGroupIdResult\<rparr>) sw g)
      [] [group_id_frame W]"
    using phase_one [OF W exchange(1) p q a b(2,3) _ _ _ rp] known(1) unfolding identified_as_def by blast
  let ?p = "p\<lparr>pe_context := Some c, pe_state := Attestation_Phase2, pe_group_id := hi_groupid (he_info W), pe_keys := kV\<rparr>"
    and ?q = "q\<lparr>pe_group_id := hi_groupid (he_info V), pe_keys := kW, pe_state := Attestation_Phase2\<rparr>"
  obtain c' a'' b'' where c': "ra_get_keys (pv_ra ?W) c' = Some (dk_sk kV)" and finished: "at_state a'' = AttestationDone" "at_state b'' = AttestationDone"
    and two: "exchange_frames V i W j (with_view i (p\<lparr>pe_context := Some c, pe_state := Attestation_Phase2\<rparr>) a' ?sv h)
      (with_view j ?q (b\<lparr>at_state := WaitingForGroupIdResult\<rparr>) sw g) [] [group_id_frame W] =
    Some (Inr (False, with_view i (snd (peer_set_connected ?V i ?p)) a'' ?sv h, with_view j (snd (peer_set_connected ?W j (?q\<lparr>pe_context := Some c'\<rparr>))) b'' ?sw g))"
    using phase_two [OF W, where keys = kV and i = i and j = j and sv = ?sv and sw = sw and db = db' and h = h and g = g and p = "p\<lparr>pe_context := Some c, pe_state := Attestation_Phase2\<rparr>" and q = ?q and b = "b\<lparr>at_state := WaitingForGroupIdResult\<rparr>", OF _ _ _ _ _ a' _ _ _ _ _ _ rp']
      p q b exchange(2) known(2) by (auto simp: identified_as_def)
  show ?thesis
    using connected_as_view [OF c _ finished(1) rp, where p = ?p and sv = sv and db = db and h = h] connected_as_view [OF c' _ finished(2) rp', where p = "?q\<lparr>pe_context := Some c'\<rparr>" and sv = sw and db = db' and h = g]
    unfolding one two by (simp add: map2_xor_commute [of "dk_sk kV"])
qed

text \<open>
  Apart from the signature in message two the handshake is right: with a library that does not check it (\<^const>\<open>key_exchange\<close>), two servers that hold no
  entry for the other that contradicts it (\<^const>\<open>can_accept\<close>) run through both phases without an error, and at the end both attestation machines are
  done, both sides hold the same session key, the exclusive or of the two exchanged keys, and each has recorded the name and the public key of the other.
\<close>

lemma peers_agree_on_key:
  assumes "wire_laws (host_bits V)" "host_bits W = host_bits V" "can_accept V h W" "can_accept W g V"
    and "key_exchange (pv_ra (he_peer V)) (pv_attest (he_peer W)) (pv_private_key (he_peer W)) (pv_public_key (he_peer W)) (se_blob_size (he_peer V)) (he_key_memory W) kW"
      "key_exchange (pv_ra (he_peer W)) (pv_attest (he_peer V)) (pv_private_key (he_peer V)) (pv_public_key (he_peer V)) (se_blob_size (he_peer W)) (he_key_memory V) kV"
  shows "\<exists>i outs h' j outs' g' h2 g2.
    setup_peer V hostname port True h = Inr (i, outs, h') \<and> setup_peer W hostname' port' False g = Inr (j, outs', g') \<and>
    exchange_frames V i W j h' g' (frames_for i outs) (frames_for j outs') = Some (Inr (False, h2, g2)) \<and>
    connected_as h2 i (id_name (ee_identity (he_enclave W))) (pv_public_key (he_peer W)) (map2 (XOR) (dk_sk kW) (dk_sk kV)) \<and>
    connected_as g2 j (id_name (ee_identity (he_enclave V))) (pv_public_key (he_peer V)) (map2 (XOR) (dk_sk kW) (dk_sk kV))"
proof -
  let ?i = "ho_next_remote_party_id h" and ?j = "ho_next_remote_party_id g"
  obtain db parties k where known: "identified_as V W ?i ((nd_server (ho_node h))\<lparr>sv_parties := init_peer ?i hostname port (sv_parties (nd_server (ho_node h)))\<rparr>) db parties k"
    using accepted_identified [OF assms(3)] by blast
  obtain db' parties' k' where known': "identified_as W V ?j ((nd_server (ho_node g))\<lparr>sv_parties := init_peer ?j hostname' port' (sv_parties (nd_server (ho_node g)))\<rparr>) db' parties' k'"
    using accepted_identified [OF assms(4)] by blast
  have names: "id_name (ki_identity k) = id_name (ee_identity (he_enclave W))" "ki_key k = pv_public_key (he_peer W)"
    "id_name (ki_identity k') = id_name (ee_identity (he_enclave V))" "ki_key k' = pv_public_key (he_peer V)"
    using known known' by (simp_all add: identified_as_def)
  show ?thesis
    using both_phases [OF assms(1,2) _ _ _ _ _ _ _ _ _ _ _ _ _ known known', of "new_peer False (he_key_memory W) (se_memory (he_peer W))" kW
        "new_peer True (he_key_memory V) (se_memory (he_peer V))" kV "(new_attestation TwoWay_IsInitiator)\<lparr>at_state := WaitingForGroupIdResult\<rparr>"
        "new_attestation TwoWay_NotInitiator" "h\<lparr>ho_next_remote_party_id := ?i + 1\<rparr>" "g\<lparr>ho_next_remote_party_id := ?j + 1\<rparr>"] assms(5,6)
    by (simp add: setup_peer_view [OF assms(3)] setup_peer_view [OF assms(4)] new_peer_def new_attestation_def names)
qed

section \<open>The signature in message two\<close>

text \<open>
  What is documented of \<open>sgx_ra_proc_msg2\<close>: it generates message three only when the signature in message two, made with the key that belongs to the public
  key given to \<open>sgx_ra_init\<close>, is one of the two public keys of the exchange, one after the other; \<open>verify\<close> is the check of a signature. A
  signature is one of a single text, and the fields of the messages have the sizes of their types.
\<close>

definition checks_signature :: "'y ra_lib_scheme \<Rightarrow> 'z attest_lib_scheme \<Rightarrow> (public_key \<Rightarrow> u8 list \<Rightarrow> u8 list \<Rightarrow> bool) \<Rightarrow> bool" where
  "checks_signature R A verify \<longleftrightarrow>
     (\<forall>public_key c msg1 gb sig mac k c' msg3.
        ra_init R public_key = Some c \<and> attempt 0 NUM_RETRIES (\<lambda>k. ra_get_msg1 R k c) = Some msg1 \<and> length gb = PUBLIC_KEY_SIZE \<and> length mac = MAC_SIZE \<and>
        ra_proc_msg2 R k c (al_msg2 A gb sig @ mac) = Some (c', Some msg3) \<longrightarrow> verify public_key (gb @ al_msg1_g_a A msg1) sig)"

definition signs_one_text :: "'z attest_lib_scheme \<Rightarrow> (public_key \<Rightarrow> u8 list \<Rightarrow> u8 list \<Rightarrow> bool) \<Rightarrow> u8 list \<Rightarrow> public_key \<Rightarrow> bool" where
  "signs_one_text A verify private_key public_key \<longleftrightarrow>
     (\<forall>text sig text'. al_sign A private_key text = Some sig \<and> verify public_key text' sig \<longrightarrow> text' = text)"

definition message_sizes :: "'y ra_lib_scheme \<Rightarrow> 'z attest_lib_scheme \<Rightarrow> bool" where
  "message_sizes R A \<longleftrightarrow>
     (\<forall>k c msg1. ra_get_msg1 R k c = Some msg1 \<longrightarrow> length msg1 = al_msg1_size A) \<and>
     (\<forall>priv pub. al_key_pair A = Some (priv, pub) \<longrightarrow> length pub = PUBLIC_KEY_SIZE) \<and>
     (\<forall>key text mac. al_cmac A key text = Some mac \<longrightarrow> length mac = MAC_SIZE) \<and>
     (\<forall>key text sig gb mac. al_sign A key text = Some sig \<and> length gb = PUBLIC_KEY_SIZE \<and> length mac = MAC_SIZE \<longrightarrow> small (al_msg2 A gb sig @ mac))"

lemma attempt_value: "attempt i n f = Some x \<Longrightarrow> \<exists>k. f k = Some x"
  by (induction i n f rule: attempt.induct) (auto split: option.splits)

lemma message_two_parts:
  assumes "peer_message_one A private_key msg1 k = (Some msg2, k')" "message_sizes R A"
  obtains gb sig mac where "msg2 = al_msg2 A gb sig @ mac" "length gb = PUBLIC_KEY_SIZE" "length mac = MAC_SIZE"
    "al_sign A private_key (take 2 (gb @ al_msg1_g_a A msg1)) = Some sig"
  using assms by (auto simp: peer_message_one_def message_sizes_def Let_def split: option.splits prod.splits if_splits)

lemma message_two_refused:
  assumes checks: "checks_signature R A verify" "signs_one_text A verify private_key public_key" "message_sizes R A"
    and c: "ra_init R public_key = Some c" "attempt 0 NUM_RETRIES (\<lambda>k. ra_get_msg1 R k c) = Some msg1"
    and msg2: "peer_message_one A private_key msg1 k = (Some msg2, k')"
  shows "ra_proc_msg2 R n c msg2 \<noteq> Some (c', Some msg3)"
proof
  assume accepted: "ra_proc_msg2 R n c msg2 = Some (c', Some msg3)"
  obtain gb sig mac where parts: "msg2 = al_msg2 A gb sig @ mac" "length gb = PUBLIC_KEY_SIZE" "length mac = MAC_SIZE"
    "al_sign A private_key (take 2 (gb @ al_msg1_g_a A msg1)) = Some sig" by (rule message_two_parts [OF msg2 checks(3)])
  have "verify public_key (gb @ al_msg1_g_a A msg1) sig"
    using checks(1) c parts(1-3) accepted unfolding checks_signature_def by blast
  with parts(4) have "gb @ al_msg1_g_a A msg1 = take 2 (gb @ al_msg1_g_a A msg1)" using checks(2) unfolding signs_one_text_def by blast
  then have "length (gb @ al_msg1_g_a A msg1) \<le> 2" by (metis length_take min.cobounded2)
  with parts(2) show False by (simp add: PUBLIC_KEY_SIZE_def)
qed

lemma prover_group_id_fails:
  assumes "wire_laws (host_bits V)" "is_prover p" "at_state a = WaitingForGroupIdResult"
    and key: "small name" "length key = PUBLIC_KEY_SIZE"
    and known: "identify (se_uid_of (he_peer V)) (ee_identity (he_enclave V)) i name key (sv_identities sv) (sv_parties sv) = Inr (None, db, parties)"
    and failed: "credb_ra_init (pv_ra (he_peer V)) i parties = Inr c" "\<And>x. c = Some x \<Longrightarrow> attempt 0 NUM_RETRIES (\<lambda>k. ra_get_msg1 (pv_ra (he_peer V)) k x) = None"
  shows "\<exists>a'. at_state a' = WaitingForGroupIdResult \<and> peer_on_network_message V i (attestation_frame (host_bits V) GroupIdResponse
      (to_bytes (bs_bool (host_bits V)) True @ to_bytes (bs_string (host_bits V)) name @ key)) (with_view i p a sv h) =
    Some (Inr ([NetClose i], with_view i p a' (sv\<lparr>sv_identities := db, sv_parties := parties\<rparr>) h))"
proof -
  have "pe_state p \<noteq> PeerConnected" using assms(2) by (auto simp: is_prover_def)
  moreover have "bs_raw (host_bits V) PUBLIC_KEY_SIZE key = Some (key, [])" using wire_reads(12) [OF assms(1) key(2), of "[]"] by simp
  ultimately show ?thesis
    using assms
    by (intro exI [of _ "(case c of None \<Rightarrow> a | Some x \<Rightarrow> a\<lparr>at_context := Some x\<rparr>)\<lparr>at_groupid_result := None\<rparr>"])
      (cases c; simp add: attestation_message_step peer_step_defs handle_groupid_response_def read_raw_then_def after_enclave_def change_attestation_def
        queue_groupid_result_def update_attestation_def attestation_update_def handle_groupid_result_def)
qed

lemma verifier_message_one_fails:
  assumes "wire_laws (host_bits V)" "pe_state p \<noteq> PeerConnected" "\<not> is_prover p" "idle a" "length msg1 = al_msg1_size (pv_attest (he_peer V))"
    and "peer_message_one (pv_attest (he_peer V)) (pv_private_key (he_peer V)) msg1 (pe_keys p) = (None, keys)"
  shows "peer_on_network_message V i (message_one_frame V msg1) (with_view i p a sv h) = Some (Inr ([], with_view i (p\<lparr>pe_keys := keys\<rparr>) a sv h))"
proof -
  have "bs_raw (host_bits V) (al_msg1_size (pv_attest (he_peer V))) msg1 = Some (msg1, [])"
    using wire_reads(12) [OF assms(1,5), of "[]"] by simp
  then show ?thesis
    unfolding attestation_message_step [OF assms(1,2)]
    using assms by (simp add: peer_step_defs peer_attestation_message_one_def read_raw_then_def idle_after_enclave)
qed

lemma prover_message_two_fails:
  assumes "wire_laws (host_bits V)" "is_prover p" "at_state a = WaitingForMsg2" "at_msg2 a = None" "at_context a = Some c" "small msg2"
    and refused: "\<And>k c' msg3. ra_proc_msg2 (pv_ra (he_peer V)) k c msg2 \<noteq> Some (c', Some msg3)"
  shows "\<exists>a'. at_state a' = WaitingForMsg2 \<and> peer_on_network_message V i (attestation_frame (host_bits V) AttestationMessage2
      (to_bytes (bs_u32 (host_bits V)) (word_of_nat (length msg2)) @ msg2)) (with_view i p a sv h) =
    Some (Inr ([NetClose i], with_view i p a' sv h))"
proof -
  let ?r = "attempt 0 NUM_RETRIES (\<lambda>k. ra_proc_msg2 (pv_ra (he_peer V)) k c msg2)"
  have "pe_state p \<noteq> PeerConnected" using assms(2) by (auto simp: is_prover_def)
  moreover have "bs_raw (host_bits V) (length msg2) msg2 = Some (msg2, [])" using wire_reads(12) [OF assms(1) refl, of msg2 "[]"] by simp
  moreover have "?r = None \<or> (\<exists>c'. ?r = Some (c', None))"
    using attempt_value [of 0 NUM_RETRIES "\<lambda>k. ra_proc_msg2 (pv_ra (he_peer V)) k c msg2"] refused by (metis option.exhaust surj_pair)
  ultimately show ?thesis
    using assms(1-6)
    by (intro exI [of _ "(case ?r of None \<Rightarrow> a | Some (c', m) \<Rightarrow> a\<lparr>at_context := Some c'\<rparr>)\<lparr>at_msg2 := None\<rparr>"])
      (auto simp: attestation_message_step peer_step_defs handle_attestation_message_two_def read_raw_then_def after_enclave_def change_attestation_def
        queue_msg2_def update_attestation_def attestation_update_def handle_msg2_def)
qed

lemma exchange_closed:
  "peer_on_network_message V i frame h = Some (Inr ([NetClose i], h')) \<Longrightarrow>
     exchange_frames V i W j h g [] (frame # frames) = Some (Inr (True, h', g))"
  by (subst exchange_frames.simps) simp

text \<open>A server has no session with another one: nothing is sent to it encrypted, and the handshake is not done.\<close>

definition no_session :: "'d host \<Rightarrow> remote_party_id \<Rightarrow> bool" where
  "no_session h i \<longleftrightarrow>
     (case nd_peers (ho_node h) i of None \<Rightarrow> True | Some p \<Rightarrow> peer_encryption_key p = None) \<and>
     (case ho_attestations h i of None \<Rightarrow> True | Some a \<Rightarrow> at_state a \<noteq> AttestationDone)"

lemma no_session_view: "no_session (with_view i p a sv h) i \<longleftrightarrow> peer_encryption_key p = None \<and> at_state a \<noteq> AttestationDone"
  by (simp add: no_session_def)

lemma first_phase_fails:
  assumes W: "wire_laws (host_bits V)" "host_bits W = host_bits V"
    and checks: "checks_signature (pv_ra (he_peer V)) (pv_attest (he_peer W)) verify"
      "signs_one_text (pv_attest (he_peer W)) verify (pv_private_key (he_peer W)) (pv_public_key (he_peer W))" "message_sizes (pv_ra (he_peer V)) (pv_attest (he_peer W))"
    and p: "pe_is_initiator p" "pe_state p = Attestation_Phase1" and q: "\<not> pe_is_initiator q" "pe_state q = Attestation_Phase1"
    and a: "at_state a = WaitingForGroupIdResult" "at_msg2 a = None" and b: "at_state b = ReadyToTellGroupId"
    and known: "identified_as V W i sv db parties k"
  shows "\<exists>closed h2 g2. exchange_frames V i W j (with_view i p a sv h) (with_view j q b sw g) [group_id_frame V] [] = Some (Inr (closed, h2, g2)) \<and>
    no_session h2 i \<and> no_session g2 j \<and>
    (closed \<or> (\<exists>msg1. fst (peer_message_one (pv_attest (he_peer W)) (pv_private_key (he_peer W)) msg1 (pe_keys q)) = None))"
proof -
  let ?R = "pv_ra (he_peer V)" and ?A = "pv_attest (he_peer W)" and ?sv = "sv\<lparr>sv_identities := db, sv_parties := parties\<rparr>"
  let ?q1 = "q\<lparr>pe_group_id := hi_groupid (he_info V)\<rparr>"
  obtain rp where known': "identify (se_uid_of (he_peer V)) (ee_identity (he_enclave V)) i (id_name (ee_identity (he_enclave W))) (pv_public_key (he_peer W))
      (sv_identities sv) (sv_parties sv) = Inr (None, db, parties)" and rp: "find_party i parties = Some rp" "rp_identity rp = Some k"
    and key: "ki_key k = pv_public_key (he_peer W)" and name: "small (id_name (ee_identity (he_enclave W)))" "length (pv_public_key (he_peer W)) = PUBLIC_KEY_SIZE"
    using known unfolding identified_as_def by blast
  have init: "credb_ra_init ?R i parties = Inr (ra_init ?R (pv_public_key (he_peer W)))" using rp key by (simp add: credb_ra_init_def)
  note W' = W(1) [folded W(2)]
  have idle: "idle b" using b by (simp add: idle_def)
  have roles: "is_prover p" "\<not> is_prover q" "\<not> is_prover ?q1" "pe_state q \<noteq> PeerConnected" "pe_state ?q1 \<noteq> PeerConnected"
    using p q by (simp_all add: is_prover_def)
  have keys: "peer_encryption_key p = None" "peer_encryption_key ?q1 = None" "peer_encryption_key (?q1\<lparr>pe_keys := ks\<rparr>) = None" for ks
    using p q by (simp_all add: peer_encryption_key_def)
  note s1 = exchange_to_responder [OF verifier_group_id [OF W' roles(4,2) idle], unfolded W(2)]
  show ?thesis
  proof (cases "\<exists>c msg1. ra_init ?R (pv_public_key (he_peer W)) = Some c \<and> attempt 0 NUM_RETRIES (\<lambda>k. ra_get_msg1 ?R k c) = Some msg1")
    case False
    then have "\<And>x. ra_init ?R (pv_public_key (he_peer W)) = Some x \<Longrightarrow> attempt 0 NUM_RETRIES (\<lambda>k. ra_get_msg1 ?R k x) = None" by (meson not_None_eq)
    from prover_group_id_fails [OF W(1) roles(1) a(1) name known' init this]
    obtain a' where "at_state a' = WaitingForGroupIdResult" "peer_on_network_message V i (attestation_frame (host_bits V) GroupIdResponse (introduction W)) (with_view i p a sv h) =
      Some (Inr ([NetClose i], with_view i p a' ?sv h))" unfolding W(2) by blast
    then show ?thesis using keys b by (auto simp: s1 exchange_closed no_session_view W(2))
  next
    case True
    then obtain c msg1 where c: "ra_init ?R (pv_public_key (he_peer W)) = Some c" "attempt 0 NUM_RETRIES (\<lambda>k. ra_get_msg1 ?R k c) = Some msg1" by blast
    then have size: "length msg1 = al_msg1_size ?A" using attempt_value [OF c(2)] checks(3) by (auto simp: message_sizes_def)
    let ?a1 = "a\<lparr>at_context := Some c, at_state := WaitingForMsg2, at_groupid_result := None\<rparr>"
    note s2 = exchange_to_initiator [OF prover_group_id [OF W(1) roles(1) a(1) name known' init [unfolded c(1)] c(2)]]
    obtain answer ks where one: "peer_message_one ?A (pv_private_key (he_peer W)) msg1 (pe_keys ?q1) = (answer, ks)" by force
    show ?thesis
    proof (cases answer)
      case None
      note s3 = exchange_to_responder [OF verifier_message_one_fails [OF W' roles(5,3) idle size one [unfolded None]], unfolded W(2)]
      have "fst (peer_message_one ?A (pv_private_key (he_peer W)) msg1 (pe_keys q)) = None" using one None by simp
      then show ?thesis using keys a b by (auto simp: s1 s2 s3 exchange_ends no_session_view W(2))
    next
      case (Some msg2)
      note s3 = exchange_to_responder [OF verifier_message_one [OF W' roles(5,3) idle size one [unfolded Some]], unfolded W(2)]
      have "small msg2" using message_two_parts [OF one [unfolded Some] checks(3)] checks(3) unfolding message_sizes_def by metis
      with prover_message_two_fails [of V p ?a1 c msg2, OF W(1) roles(1)] message_two_refused [OF checks c one [unfolded Some]] a(2)
      obtain a' where "at_state a' = WaitingForMsg2" "peer_on_network_message V i (attestation_frame (host_bits V) AttestationMessage2
          (to_bytes (bs_u32 (host_bits V)) (word_of_nat (length msg2)) @ msg2)) (with_view i p ?a1 ?sv h) = Some (Inr ([NetClose i], with_view i p a' ?sv h))" by force
      then show ?thesis using keys b by (auto simp: s1 s2 s3 exchange_closed no_session_view W(2))
    qed
  qed
qed


end
