(* ===== verification/Peer_Example.thy ===== *)
theory Peer_Example
  imports Remote_Example Peer_Handshake
begin

text \<open>
  Two concrete servers that have not met, and what the handshake does with them. The toy library derives
  from every exchange the key that the verifying side has drawn; one version of it checks no signatures, the other one does.
\<close>

definition peer_attest :: "u8 \<Rightarrow> attest_lib" where
  "peer_attest n = \<lparr>al_key_pair = Some ([n], [n, n]), al_shared = (\<lambda>_ _. Some [n]), al_sign = (\<lambda>_ _. Some [7]), al_cmac = (\<lambda>_ _. Some (replicate 16 n)),
     al_sha = (\<lambda>_. Some (replicate 32 0)), al_msg1_size = 4, al_msg1_g_a = id, al_msg2 = (@), al_msg3_g_a = (\<lambda>m. take 4 (drop 16 m)),
     al_msg3_mac = take 16, al_msg3_report = drop 20, al_info_blob = replicate 4 0\<rparr>"

definition peer_ra :: ra_lib where
  "peer_ra = \<lparr>ra_init = Some, ra_get_msg1 = (\<lambda>_ _. Some (replicate 4 1)),
     ra_proc_msg2 = (\<lambda>_ _ m. let key = drop (length m - 16) m in Some (key, Some (key @ replicate 4 1 @ replicate 64 0))), ra_get_keys = Some\<rparr>"

definition bucket_codec :: "bucket_t codec" where
  "bucket_codec = map_codec (\<lambda>b. (b_page_no b, b_version b)) (\<lambda>(p, v). \<lparr>b_page_no = p, b_version = v\<rparr>) (pair_codec (word_codec 4) (word_codec 2))"

definition change_codec :: "(nat \<times> bucket_t) codec" where
  "change_codec = pair_codec (map_codec (\<lambda>n. word_of_nat n :: u16) unat (word_codec 2)) bucket_codec"

definition peer_types :: "PeerType list" where
  "peer_types = [UnknownPeer, ClientPeer, PeerServer, DownstreamServer]"

definition peer_type_codec :: "PeerType codec" where
  "peer_type_codec = map_codec (enum_number peer_types) (\<lambda>n. the (enum_value peer_types n)) byte_codec"

definition peer_side :: "u8 \<Rightarrow> nat peer_env" where
  "peer_side n = session_env.extend session_side (peer_env.fields (peer_attest n) peer_ra [n] (replicate 64 n)
     (word_codec 2) change_codec (list_codec bucket_codec) peer_type_codec (\<lambda>l. filter (\<lambda>c. m_collections l c \<noteq> None) [''c'', ''d'']))"

definition host_side :: "u8 \<Rightarrow> string \<Rightarrow> nat host_env" where
  "host_side n name = \<lparr>he_enclave = remote_env\<lparr>ee_identity := \<lparr>id_type = Server, id_name = name\<rparr>\<rparr>, he_peer = peer_side n,
     he_info = \<lparr>hi_groupid = 5, hi_name = name, hi_public_key = replicate 64 n, hi_upstream_public_key = None\<rparr>, he_hash = length, he_key_memory = example_keys,
     he_encrypt = True, he_connects = (\<lambda>_. True)\<rparr>"

definition fresh_server :: "nat server" where
  "fresh_server = \<lparr>sv_enclave = example_enclave, sv_identities = [], sv_parties = no_parties, sv_sessions = Map.empty\<rparr>"

definition fresh_host :: "nat host" where
  "fresh_host = \<lparr>ho_node = \<lparr>nd_server = fresh_server, nd_peers = Map.empty, nd_roots = (\<lambda>_. empty_map), nd_disk_key = replicate 16 9, nd_upstream_id = 0,
     nd_upstream_public_key = INVALID_PUBLIC_KEY\<rparr>, ho_attestations = Map.empty,
     ho_next_remote_party_id = 1, ho_disk = new_disk ''disk'' \<lparr>fs_files = Map.empty, fs_writable = (\<lambda>_. True)\<rparr>\<rparr>"

definition exchanged :: "u8 \<Rightarrow> dh_keys" where
  "exchanged n = \<lparr>dk_other_public = replicate 4 1, dk_public = [n, n], dk_private = [n], dk_smk = replicate 16 n, dk_mk = replicate 16 n, dk_sk = replicate 16 n,
     dk_vk = replicate 16 n\<rparr>"

lemma peer_side_fields [simp]:
  "ch_bits (peer_side n) = nat_bits" "se_blob_size (peer_side n) = 4" "pv_attest (peer_side n) = peer_attest n" "pv_ra (peer_side n) = peer_ra"
  "pv_private_key (peer_side n) = [n]" "pv_public_key (peer_side n) = replicate 64 n" "he_peer (host_side n name) = peer_side n"
  "he_key_memory (host_side n name) = example_keys" "id_name (ee_identity (he_enclave (host_side n name))) = name"
  by (simp_all add: peer_side_def session_side_def example_channel_def session_env.defs peer_env.defs channel.defs host_side_def)

lemma attempt_succeeds: "attempt 0 NUM_RETRIES (\<lambda>_. Some x) = Some x"
  by (simp add: NUM_RETRIES_def eval_nat_numeral)

lemma example_exchange: "key_exchange peer_ra (peer_attest n) [n] (replicate 64 n) 4 example_keys (exchanged n)"
proof -
  have "peer_message_one (peer_attest n) [n] (replicate 4 1) example_keys = (Some ([n, n, 7] @ replicate 16 n), exchanged n)"
    by (simp add: peer_message_one_def peer_attest_def derive_keys_def derive_key_def example_keys_def exchanged_def)
  moreover have "peer_message_three (peer_attest n) (exchanged n) (replicate 16 n @ replicate 4 1 @ replicate 64 0) = Inr (Some (replicate 4 0 @ replicate 16 n))"
    by (simp add: peer_message_three_def peer_attest_def exchanged_def MAC_SIZE_def expected_report_def replicate_add [symmetric])
  ultimately show ?thesis
    unfolding key_exchange_def
    by - (rule exI [of _ "replicate 64 n"], rule exI [of _ "replicate 4 1"], rule exI [of _ "[n, n, 7] @ replicate 16 n"], rule exI [of _ "replicate 16 n"],
      rule exI [of _ "replicate 16 n @ replicate 4 1 @ replicate 64 0"], rule exI [of _ "replicate 4 0 @ replicate 16 n"],
      simp add: attempt_succeeds peer_ra_def peer_attest_def exchanged_def MAC_SIZE_def small_def Let_def)
qed

lemma example_accepts:
  "n \<noteq> 0 \<Longrightarrow> name \<noteq> name' \<Longrightarrow> length name < 2 ^ 32 \<Longrightarrow> can_accept (host_side m name') fresh_host (host_side n name)"
  by (simp add: can_accept_def fresh_host_def fresh_server_def no_parties_def find_party_def PUBLIC_KEY_SIZE_def INVALID_PUBLIC_KEY_def small_def)

lemma example_servers_connect:
  "\<exists>i outs h' j outs' g' h2 g2.
    setup_peer (host_side 1 ''one'') ''two.example'' 5043 True fresh_host = Inr (i, outs, h') \<and>
    setup_peer (host_side 2 ''two'') ''one.example'' 5043 False fresh_host = Inr (j, outs', g') \<and>
    exchange_frames (host_side 1 ''one'') i (host_side 2 ''two'') j h' g' (frames_for i outs) (frames_for j outs') = Some (Inr (False, h2, g2)) \<and>
    connected_as h2 i ''two'' (replicate 64 2) (replicate 16 3) \<and> connected_as g2 j ''one'' (replicate 64 1) (replicate 16 3)"
proof -
  have "map2 (XOR) (dk_sk (exchanged 2)) (dk_sk (exchanged 1)) = replicate 16 3" by (simp add: exchanged_def zip_replicate)
  then show ?thesis
    using peers_agree_on_key [of "host_side 1 ''one''" "host_side 2 ''two''" fresh_host fresh_host "exchanged 2" "exchanged 1"
      "''two.example''" 5043 "''one.example''" 5043] example_exchange example_accepts nat_bits_wire
    by simp
qed

text \<open>The same servers with a library that checks signatures; a signature is the text itself.\<close>

definition signing_attest :: "u8 \<Rightarrow> attest_lib" where
  "signing_attest n = (peer_attest n)\<lparr>al_key_pair := Some ([n], replicate 64 n), al_sign := (\<lambda>_ text. if length text \<le> 128 then Some text else None)\<rparr>"

definition checking_ra :: ra_lib where
  "checking_ra = peer_ra\<lparr>ra_proc_msg2 := (\<lambda>_ _ m.
     let key = drop (length m - 16) m; sig = drop 64 (take (length m - 16) m)
     in if sig = take 64 m @ replicate 4 1 then Some (key, Some (key @ replicate 4 1 @ replicate 64 0)) else None)\<rparr>"

definition checking_side :: "u8 \<Rightarrow> string \<Rightarrow> nat host_env" where
  "checking_side n name = (host_side n name)\<lparr>he_peer := (peer_side n)\<lparr>pv_attest := signing_attest n, pv_ra := checking_ra\<rparr>\<rparr>"

lemma checking_side_fields [simp]:
  "host_bits (checking_side n name) = nat_bits" "pv_attest (he_peer (checking_side n name)) = signing_attest n"
  "pv_ra (he_peer (checking_side n name)) = checking_ra" "pv_private_key (he_peer (checking_side n name)) = [n]"
  "pv_public_key (he_peer (checking_side n name)) = replicate 64 n" "he_key_memory (checking_side n name) = example_keys"
  by (simp_all add: checking_side_def)

lemma checking_side_accepts:
  "n \<noteq> 0 \<Longrightarrow> name \<noteq> name' \<Longrightarrow> length name < 2 ^ 32 \<Longrightarrow> can_accept (checking_side m name') fresh_host (checking_side n name)"
  using example_accepts [of n name name' m] by (simp add: can_accept_def checking_side_def peer_side_def session_env.defs fresh_host_def fresh_server_def no_parties_def)

lemma checking_library:
  "checks_signature checking_ra (signing_attest n) (\<lambda>_ text sig. sig = text)" "signs_one_text (signing_attest n) (\<lambda>_ text sig. sig = text) [n] (replicate 64 n)"
  "message_sizes checking_ra (signing_attest n)"
  by (auto simp: checks_signature_def signs_one_text_def message_sizes_def checking_ra_def peer_ra_def signing_attest_def peer_attest_def attempt_succeeds
      PUBLIC_KEY_SIZE_def MAC_SIZE_def small_def Let_def split: if_splits)

lemma signing_answers: "fst (peer_message_one (signing_attest n) [n] msg1 example_keys) \<noteq> None"
  by (simp add: peer_message_one_def signing_attest_def peer_attest_def derive_keys_def derive_key_def Let_def)


end
