(* ===== verification/Replication.thy ===== *)
theory Replication
  imports Peer_Handshake Hash_Map
begin

text \<open>
  Downstream servers (\<open>enclave/Enclave.cpp\<close>, \<open>server/EnclaveHandle.cpp\<close>): a server that follows another one
  takes over the key of its disk and the buckets of its indexes, reads files from it, and applies the changes of the index it is sent. A
  call that waits for an answer is modelled by the part before and the part after the wait; between them, frames are exchanged with
  the other server.
\<close>

section \<open>Following another server\<close>

definition announcement :: "('d, 'z) peer_env_scheme \<Rightarrow> u32 \<Rightarrow> u8 list" where
  "announcement S op_id =
     put_mtype (ch_bits S) OperationRequest @ to_bytes (bs_u32 (ch_bits S)) 0 @ to_bytes (bs_u32 (ch_bits S)) op_id @
     to_bytes (bs_u8 (ch_bits S)) (enum_number operation_types TellPeerType) @ to_bytes (pv_peer_type S) DownstreamServer"

text \<open>The first part of \<open>set_upstream\<close>: the announcement. The process ends when it is called twice.\<close>

definition set_upstream_begin :: "('d, 'z) peer_env_scheme \<Rightarrow> remote_party_id \<Rightarrow> 'd peer_node \<Rightarrow> (u32 \<times> effect list \<times> 'd peer_node) result" where
  "set_upstream_begin S upstream_id n =
     (let sv = nd_server n in
      if en_downstream (sv_enclave sv) then Inl (Fatal ''Downstream mode has already been set before'')
      else case nd_peers n upstream_id of
             None \<Rightarrow> Inl (Fatal ''null pointer'')
           | Some p \<Rightarrow>
               (case party_identity upstream_id sv of
                  None \<Rightarrow> Inl (RuntimeError ''Identity not set up yet!'')
                | Some k \<Rightarrow>
                    (case peer_next_operation_id p of (op_id, p1) \<Rightarrow>
                       Inr (op_id,
                            party_send S upstream_id (peer_encryption_key p) (announcement S op_id),
                            set_peer upstream_id (increment_pending_count p1)
                              (n\<lparr>nd_server := sv\<lparr>sv_enclave := (sv_enclave sv)\<lparr>en_downstream := True\<rparr>\<rparr>, nd_upstream_id := upstream_id,
                                 nd_upstream_public_key := ki_key k\<rparr>)))))"

fun load_roots :: "('d, 'z) peer_env_scheme \<Rightarrow> nat \<Rightarrow> u8 list \<Rightarrow> 'd peer_node \<Rightarrow> 'd peer_node result" where
  "load_roots S 0 bstream n = Inr n"
| "load_roots S (Suc k) bstream n =
     rbind (receive (bs_string (ch_bits S)) bstream) (\<lambda>(col, bstream1).
     rbind (get_collection col True (ledger_of (sv_enclave (nd_server n)))) (\<lambda>(_, l).
     rbind (receive (pv_root S) bstream1) (\<lambda>(buckets, bstream2).
       load_roots S k bstream2
         (n\<lparr>nd_server := (nd_server n)\<lparr>sv_enclave := set_ledger l (sv_enclave (nd_server n))\<rparr>,
            nd_roots := (nd_roots n)(col := load_root buckets (nd_roots n col))\<rparr>))))"

definition DISK_KEY_SIZE :: nat where "DISK_KEY_SIZE = 16"

text \<open>A wait on the answer of another server; \<open>None\<close> while there is none.\<close>

definition wait_for_bytes :: "('d, 'z) peer_env_scheme \<Rightarrow> remote_party_id \<Rightarrow> u32 \<Rightarrow> 'd peer_node \<Rightarrow> (u8 list \<times> 'd peer_node) result option" where
  "wait_for_bytes S party op_id n =
     (case nd_peers n party of
        None \<Rightarrow> Some (Inl (Fatal ''null pointer''))
      | Some p \<Rightarrow>
          (case pending_message_wait (\<lambda>msg. rbind (receive (bs_nested (ch_bits S)) msg) (\<lambda>(bs, _). Inr bs)) op_id None p of
             Inl e \<Rightarrow> Some (Inl e)
           | Inr (None, _) \<Rightarrow> None
           | Inr (Some bs, p') \<Rightarrow> Some (Inr (bs, set_peer party p' n))))"

definition set_upstream_finish :: "('d, 'z) peer_env_scheme \<Rightarrow> u32 \<Rightarrow> 'd peer_node \<Rightarrow> 'd peer_node result option" where
  "set_upstream_finish S op_id n =
     pbind (wait_for_bytes S (nd_upstream_id n) op_id n) (\<lambda>(bstream, n1).
       case bs_raw (ch_bits S) DISK_KEY_SIZE bstream of
         None \<Rightarrow> Some (Inl (RuntimeError ''bitstream''))
       | Some (disk_key, bstream1) \<Rightarrow>
           Some (rbind (clear_cached_blocks (ledger_of (sv_enclave (nd_server n1)))) (\<lambda>l.
             let n2 = n1\<lparr>nd_disk_key := disk_key, nd_server := (nd_server n1)\<lparr>sv_enclave := set_ledger l (sv_enclave (nd_server n1))\<rparr>\<rparr>
             in rbind (receive (bs_u32 (ch_bits S)) bstream1) (\<lambda>(num, bstream2). load_roots S (unat num) bstream2 n2))))"

section \<open>Reading files of the upstream server\<close>

text \<open>The request travels in plain text, outside of the session.\<close>

definition read_upstream_begin :: "('d, 'z) peer_env_scheme \<Rightarrow> string \<Rightarrow> 'd peer_node \<Rightarrow> (u32 \<times> effect list \<times> 'd peer_node) option" where
  "read_upstream_begin S filename n =
     (let B = ch_bits S in
      case nd_peers n (nd_upstream_id n) of
        None \<Rightarrow> None
      | Some p \<Rightarrow>
          (case peer_next_operation_id p of (op_id, p1) \<Rightarrow>
             Some (op_id,
                   [SendFrame (nd_upstream_id n)
                      (put_etype B PlainText @ put_mtype B OperationRequest @ to_bytes (bs_u32 B) op_id @
                       to_bytes (bs_u8 B) (enum_number operation_types ReadFromUpstreamDisk) @ to_bytes (bs_string B) filename)],
                   set_peer (nd_upstream_id n) (increment_pending_count p1) n)))"

text \<open>The file must not be empty.\<close>

definition read_upstream_finish ::
  "bool \<Rightarrow> ('d, 'z) peer_env_scheme \<Rightarrow> u32 \<Rightarrow> 'd peer_node \<Rightarrow> (u8 list option \<times> 'd peer_node) result option" where
  "read_upstream_finish encrypt S op_id n =
     pbind (wait_for_bytes S (nd_upstream_id n) op_id n) (\<lambda>(encrypted, n1).
       if encrypted = [] then Some (Inr (None, n1))
       else Some (rbind (decrypt_disk encrypt (ch_gcm S) (nd_disk_key n1) encrypted) (\<lambda>data.
              Inr (if data = Some [] then None else data, n1))))"

section \<open>Two servers\<close>

text \<open>
  The server \<open>V\<close>, to which the other one is the party \<open>i\<close>, follows the server \<open>W\<close>, to which it is \<open>j\<close>.
\<close>

definition connect_upstream ::
  "('d, 'y) host_env_scheme \<Rightarrow> remote_party_id \<Rightarrow> ('d, 'z) host_env_scheme \<Rightarrow> remote_party_id \<Rightarrow> 'd host \<Rightarrow> 'd host \<Rightarrow> ('d host \<times> 'd host) result option" where
  "connect_upstream V i W j h g =
     pbind (Some (disk_clear (ho_disk h))) (\<lambda>d.
     pbind (Some (set_upstream_begin (he_peer V) i (ho_node h))) (\<lambda>(op_id, effs, n).
     pbind (Some (run_effects V effs (h\<lparr>ho_disk := d, ho_node := n\<rparr>))) (\<lambda>(outs, h1).
     pbind (exchange_frames V i W j h1 g (frames_for i outs) []) (\<lambda>(closed, h2, g').
     pbind (set_upstream_finish (he_peer V) op_id (ho_node h2)) (\<lambda>n'. Some (Inr (h2\<lparr>ho_node := n'\<rparr>, g')))))))"

definition read_from_upstream_disk ::
  "('d, 'y) host_env_scheme \<Rightarrow> remote_party_id \<Rightarrow> ('d, 'z) host_env_scheme \<Rightarrow> remote_party_id \<Rightarrow> string \<Rightarrow> 'd host \<Rightarrow> 'd host \<Rightarrow>
     (u8 list option \<times> 'd host \<times> 'd host) result option" where
  "read_from_upstream_disk V i W j filename h g =
     (case read_upstream_begin (he_peer V) filename (ho_node h) of
        None \<Rightarrow> Some (Inr (None, h, g))
      | Some (op_id, effs, n) \<Rightarrow>
          pbind (Some (run_effects V effs (h\<lparr>ho_node := n\<rparr>))) (\<lambda>(outs, h1).
          pbind (exchange_frames V i W j h1 g (frames_for i outs) []) (\<lambda>(closed, h2, g').
          pbind (read_upstream_finish (he_encrypt V) (he_peer V) op_id (ho_node h2)) (\<lambda>(data, n'). Some (Inr (data, h2\<lparr>ho_node := n'\<rparr>, g'))))))"

text \<open>
  The end of a write of a new version on the upstream server, by a put or an add: the event is entered into the primary index of the collection, whose pages are
  \<open>stores c\<close>, and the bucket that has changed is sent to every downstream server, with the block that holds the event.
\<close>

record index_write =
  iw_collection :: string
  iw_key :: string
  iw_event :: event_id_t
  iw_shard :: shard_id_t
  iw_block :: page_no_t
  iw_block_size :: block_index_t

abbreviation iw_bucket :: "index_write \<Rightarrow> nat" where
  "iw_bucket w \<equiv> to_bucket hash_string (iw_key w)"

definition upstream_write ::
  "('d, 'z) host_env_scheme \<Rightarrow> (hm_entries \<Rightarrow> nat) \<Rightarrow> index_write \<Rightarrow> 'd host \<Rightarrow> (string \<Rightarrow> hm_store) \<Rightarrow>
     (net_event list \<times> 'd host \<times> (string \<Rightarrow> hm_store)) result option" where
  "upstream_write W bs w g stores =
     (let n = ho_node g; S = he_peer W; c = iw_collection w
      in pbind (hm_insert bs (iw_key w) (iw_event w) (nd_roots n c) (stores c)) (\<lambda>(root, st).
           let n' = n\<lparr>nd_roots := (nd_roots n)(c := root)\<rparr>
           in Some (rbind (send_index_updates_to_downstream S (index_changes S c (hm_changes (iw_bucket w) root)) (iw_shard w) (iw_block w) (iw_block_size w) n')
                      (\<lambda>effs. rbind (run_effects W effs (g\<lparr>ho_node := n'\<rparr>)) (\<lambda>(outs, g'). Inr (outs, g', stores(c := st)))))))"

text \<open>
  The end of a removal: the tombstone is entered into the index, but the change is not recorded and nothing is sent.
\<close>

definition upstream_remove ::
  "(hm_entries \<Rightarrow> nat) \<Rightarrow> index_write \<Rightarrow> 'd host \<Rightarrow> (string \<Rightarrow> hm_store) \<Rightarrow> ('d host \<times> (string \<Rightarrow> hm_store)) result option" where
  "upstream_remove bs w g stores =
     (let n = ho_node g; c = iw_collection w
      in pbind (hm_insert bs (iw_key w) (iw_event w) (nd_roots n c) (stores c)) (\<lambda>(root, st).
           Some (Inr (g\<lparr>ho_node := n\<lparr>nd_roots := (nd_roots n)(c := root)\<rparr>\<rparr>, stores(c := st)))))"

fun replicate_writes ::
  "('d, 'y) host_env_scheme \<Rightarrow> remote_party_id \<Rightarrow> ('d, 'z) host_env_scheme \<Rightarrow> remote_party_id \<Rightarrow> (hm_entries \<Rightarrow> nat) \<Rightarrow> index_write list \<Rightarrow>
     'd host \<Rightarrow> 'd host \<Rightarrow> (string \<Rightarrow> hm_store) \<Rightarrow> ('d host \<times> 'd host \<times> (string \<Rightarrow> hm_store)) result option" where
  "replicate_writes V i W j bs [] h g stores = Some (Inr (h, g, stores))"
| "replicate_writes V i W j bs (w # ws) h g stores =
     pbind (upstream_write W bs w g stores) (\<lambda>(outs, g1, stores1).
     pbind (exchange_frames V i W j h g1 [] (frames_for j outs)) (\<lambda>(closed, h2, g2). replicate_writes V i W j bs ws h2 g2 stores1))"

section \<open>Messages of a session\<close>

text \<open>Both servers use the same libraries, and what one writes the other reads.\<close>

definition same_libraries :: "('d, 'y) host_env_scheme \<Rightarrow> ('d, 'z) host_env_scheme \<Rightarrow> bool" where
  "same_libraries V W \<longleftrightarrow>
     (let S = he_peer V; T = he_peer W
      in channel_laws S \<and> ch_bits T = ch_bits S \<and> ch_gcm T = ch_gcm S \<and> pv_u16 T = pv_u16 S \<and> pv_bucket T = pv_bucket S \<and> pv_root T = pv_root S \<and>
         pv_peer_type T = pv_peer_type S \<and> codec_law (\<lambda>_. True) (pv_u16 S) \<and> codec_law (\<lambda>(b, _). b < NUM_BUCKETS) (pv_bucket S) \<and>
         codec_law (\<lambda>bs. length bs = NUM_BUCKETS) (pv_root S) \<and> codec_law (\<lambda>_. True) (pv_peer_type S))"

lemma party_encrypt_cong: "ch_bits C = ch_bits D \<Longrightarrow> ch_gcm C = ch_gcm D \<Longrightarrow> party_encrypt C sk msg = party_encrypt D sk msg"
  by (cases sk) (simp_all add: party_encrypt_def Let_def cong: option.case_cong)

lemma done_update:
  "ho_attestations h i = Some a \<Longrightarrow> at_state a = AttestationDone \<Longrightarrow> update_attestation V i h = Inr ([], h)"
  by (simp add: update_attestation_def change_attestation_def attestation_update_def fun_upd_idem)

lemma session_message:
  assumes C: "channel_laws (he_peer V)" and frame: "party_encrypt (he_peer V) (Some key) (put_mtype (host_bits V) t @ body) = Some frame"
    and fits: "small (put_mtype (host_bits V) t @ body)"
    and p: "nd_peers (ho_node h) i = Some p" "peer_encryption_key p = Some key"
  shows "peer_on_network_message V i frame h =
    after_enclave V i h (peer_connected_message (he_enclave V) (he_peer V) i p (Some t) (put_mtype (host_bits V) t @ body) body (ho_node h))"
proof -
  have W: "wire_laws (host_bits V)" using C by (simp add: channel_laws_def)
  obtain rest where rest: "frame = put_etype (host_bits V) Encrypted @ rest" "party_decrypt (he_peer V) (Some key) frame = Inr (True, put_mtype (host_bits V) t @ body)"
    using frame_round_trip [OF C fits, of key] frame by (metis option.inject)
  have "of_bytes (bs_u8 (host_bits V)) frame = Some (enum_number encryption_types Encrypted, rest)"
    unfolding rest(1) put_etype_def by (rule wire_reads(2) [OF W])
  moreover have "pe_state p = PeerConnected" using p(2) by (simp add: peer_encryption_key_def split: if_splits)
  moreover have "of_bytes (bs_u8 (host_bits V)) (put_mtype (host_bits V) t @ body) = Some (enum_number message_types t, body)"
    unfolding put_mtype_def by (rule wire_reads(2) [OF W])
  ultimately show ?thesis
    using p rest(2) type_bytes_nonempty [OF W] by (simp add: peer_on_network_message_def peer_handle_message_def)
qed

definition in_session :: "'d host \<Rightarrow> remote_party_id \<Rightarrow> u8 list \<Rightarrow> bool" where
  "in_session h i key \<longleftrightarrow>
     (case nd_peers (ho_node h) i of None \<Rightarrow> False | Some p \<Rightarrow> peer_encryption_key p = Some key) \<and>
     (case ho_attestations h i of None \<Rightarrow> False | Some a \<Rightarrow> at_state a = AttestationDone) \<and>
     party_identity i (nd_server (ho_node h)) \<noteq> None"

lemma in_session_peer:
  assumes "in_session h i key"
  obtains p a where "nd_peers (ho_node h) i = Some p" "peer_encryption_key p = Some key" "ho_attestations h i = Some a" "at_state a = AttestationDone"
  using assms by (auto simp: in_session_def split: option.splits)

lemma connected_in_session: "connected_as h i name pk key \<Longrightarrow> in_session h i key"
  by (auto simp: connected_as_def in_session_def split: option.splits)

lemma in_session_frame:
  assumes "in_session h i key" "nd_peers (ho_node h') = nd_peers (ho_node h)" "ho_attestations h' = ho_attestations h"
    "sv_parties (nd_server (ho_node h')) = sv_parties (nd_server (ho_node h))"
  shows "in_session h' i key"
  using assms by (simp add: in_session_def party_identity_def)

section \<open>One change of the index\<close>

definition change_fits :: "('d, 'z) peer_env_scheme \<Rightarrow> index_write \<Rightarrow> bool" where
  "change_fits S w \<longleftrightarrow>
     small (iw_collection w) \<and>
     (\<forall>b. small (index_changes S (iw_collection w) (iw_bucket w, b)) \<and>
          small (index_update_message S (index_changes S (iw_collection w) (iw_bucket w, b)) (iw_shard w) (iw_block w) (iw_block_size w)))"

lemma iw_bucket_less: "iw_bucket w < NUM_BUCKETS"
  by (simp add: to_bucket_def NUM_BUCKETS_def)

lemma put_index_from_upstream:
  assumes "same_libraries V W" "change_fits (he_peer V) w" and shard: "unat (iw_shard w) < length (m_shards (ledger_of (sv_enclave (nd_server n))))"
  obtains n' where "put_object_index_from_upstream (he_peer V) (index_changes (he_peer V) (iw_collection w) (iw_bucket w, b)) (iw_shard w) block block_size n = Inr n'"
    "nd_roots n' = (nd_roots n)(iw_collection w := apply_changes (iw_bucket w) b (nd_roots n (iw_collection w)))" "nd_peers n' = nd_peers n"
    "sv_parties (nd_server n') = sv_parties (nd_server n)"
    "length (m_shards (ledger_of (sv_enclave (nd_server n')))) = length (m_shards (ledger_of (sv_enclave (nd_server n))))"
proof -
  have W: "wire_laws (host_bits V)" using assms(1) by (simp add: same_libraries_def channel_laws_def Let_def)
  have "of_bytes (pv_bucket (he_peer V)) (to_bytes (pv_bucket (he_peer V)) (iw_bucket w, b) @ []) = Some ((iw_bucket w, b), [])"
    using assms(1) iw_bucket_less unfolding same_libraries_def codec_law_def Let_def by (metis (mono_tags, lifting) case_prodI)
  then have update: "update_index (he_peer V) [] (to_bytes (pv_bucket (he_peer V)) (iw_bucket w, b)) root = Inr (apply_changes (iw_bucket w) b root)" for root
    using iw_bucket_less by (simp add: update_index_def)
  have names: "small (iw_collection w)" "small ([] :: string)" using assms(2) by (simp_all add: change_fits_def small_def)
  let ?l = "ledger_of (sv_enclave (nd_server n))"
  let ?sh = "set_pending_block block block_size (m_shards ?l ! unat (iw_shard w))"
  obtain col l where l: "get_collection (iw_collection w) True (?l\<lparr>m_shards := (m_shards ?l)[unat (iw_shard w) := ?sh]\<rparr>) = Inr (col, l)" "length (m_shards l) = length (m_shards ?l)"
    by (cases "m_collections ?l (iw_collection w)") (auto simp: get_collection_def set_collection_def)
  show thesis
    using that W names shard update l
    by (simp add: put_object_index_from_upstream_def index_changes_def Let_def ledger_of_def set_ledger_def)
qed

lemma push_delivered:
  assumes L: "same_libraries V W" and fits: "change_fits (he_peer V) w" and session: "in_session h i key"
    and shard: "unat (iw_shard w) < length (m_shards (ledger_of (sv_enclave (nd_server (ho_node h)))))"
    and frame: "party_encrypt (he_peer V) (Some key) (index_update_message (he_peer V) (index_changes (he_peer V) (iw_collection w) (iw_bucket w, b))
      (iw_shard w) (iw_block w) (iw_block_size w)) = Some frame"
  obtains h' where "peer_on_network_message V i frame h = Some (Inr ([], h'))" "in_session h' i key"
    "nd_roots (ho_node h') = (nd_roots (ho_node h))(iw_collection w := apply_changes (iw_bucket w) b (nd_roots (ho_node h) (iw_collection w)))"
    "length (m_shards (ledger_of (sv_enclave (nd_server (ho_node h'))))) = length (m_shards (ledger_of (sv_enclave (nd_server (ho_node h)))))"
proof -
  let ?S = "he_peer V" and ?ch = "index_changes (he_peer V) (iw_collection w) (iw_bucket w, b)"
  have C: "channel_laws ?S" "wire_laws (host_bits V)" using L by (simp_all add: same_libraries_def channel_laws_def Let_def)
  have small: "small ?ch" "small (index_update_message ?S ?ch (iw_shard w) (iw_block w) (iw_block_size w))" using fits by (simp_all add: change_fits_def)
  obtain p a where p: "nd_peers (ho_node h) i = Some p" "peer_encryption_key p = Some key" "ho_attestations h i = Some a" "at_state a = AttestationDone"
    by (rule in_session_peer [OF session])
  obtain n' where n': "put_object_index_from_upstream ?S ?ch (iw_shard w) (iw_block w) (iw_block_size w) (ho_node h) = Inr n'"
    "nd_roots n' = (nd_roots (ho_node h))(iw_collection w := apply_changes (iw_bucket w) b (nd_roots (ho_node h) (iw_collection w)))" "nd_peers n' = nd_peers (ho_node h)"
    "sv_parties (nd_server n') = sv_parties (nd_server (ho_node h))"
    "length (m_shards (ledger_of (sv_enclave (nd_server n')))) = length (m_shards (ledger_of (sv_enclave (nd_server (ho_node h)))))"
    by (rule put_index_from_upstream [OF L fits shard])
  have u16: "of_bytes (pv_u16 ?S) (to_bytes (pv_u16 ?S) x @ rest) = Some (x, rest)" for x rest
    using L by (simp add: same_libraries_def codec_law_def Let_def)
  have "peer_push_index_update ?S (to_bytes (bs_nested (host_bits V)) ?ch @ to_bytes (pv_u16 ?S) (iw_shard w) @ to_bytes (bs_u32 (host_bits V)) (iw_block w) @
      to_bytes (pv_u16 ?S) (iw_block_size w) @ to_bytes (bs_string (host_bits V)) []) (ho_node h) = Some (Inr ([], n'))"
    using C(2) small(1) n'(1) by (simp add: peer_push_index_update_def u16)
  then have "peer_on_network_message V i frame h = after_enclave V i h (Some (Inr ([], n')))"
    using session_message [OF C(1) frame [unfolded index_update_message_def] small(2) [unfolded index_update_message_def] p(1,2)]
    by (simp add: peer_connected_message_def)
  then have "peer_on_network_message V i frame h = Some (Inr ([], h\<lparr>ho_node := n'\<rparr>))"
    using p(3,4) done_update [of "h\<lparr>ho_node := n'\<rparr>" i a V] by (simp add: after_enclave_def)
  then show thesis using that n' in_session_frame [OF session, of "h\<lparr>ho_node := n'\<rparr>"] by simp
qed

text \<open>The changes go to every downstream server; one of them is the party \<open>j\<close>.\<close>

definition serves :: "'d host \<Rightarrow> remote_party_id \<Rightarrow> bool" where
  "serves g j \<longleftrightarrow>
     (let ds = m_downstream_set (sv_parties (nd_server (ho_node g)))
      in j \<in> set ds \<and> distinct ds \<and> (\<forall>x \<in> set ds. nd_peers (ho_node g) x \<noteq> None \<and> ho_attestations g x \<noteq> None))"

lemma run_sends:
  assumes "\<forall>x \<in> set ds. ho_attestations g x \<noteq> None"
  shows "\<exists>outs. run_effects W (concat (map (\<lambda>x. party_send S x (k x) msg) ds)) g = Inr (outs, g) \<and>
    (\<forall>j. NetClose j \<notin> set outs) \<and>
    (\<forall>j. distinct ds \<longrightarrow> frames_for j outs = (if j \<in> set ds then (case party_encrypt S (k j) msg of None \<Rightarrow> [] | Some frame \<Rightarrow> [frame]) else []))"
  using assms
proof (induction ds)
  case (Cons x ds)
  then obtain outs where outs: "run_effects W (concat (map (\<lambda>x. party_send S x (k x) msg) ds)) g = Inr (outs, g)" "\<forall>j. NetClose j \<notin> set outs"
    "\<forall>j. distinct ds \<longrightarrow> frames_for j outs = (if j \<in> set ds then (case party_encrypt S (k j) msg of None \<Rightarrow> [] | Some frame \<Rightarrow> [frame]) else [])"
    by auto
  have "ho_attestations g x \<noteq> None" using Cons.prems by simp
  then show ?case
    using outs by (cases "party_encrypt S (k x) msg") (auto simp: party_send_def frames_for_def)
qed simp

lemma hm_insert_bucket:
  assumes "hm_insert bs k v m st = Some (Inr (m', st'))"
  shows "\<exists>b. b_version b = increment (b_version (m_buckets m (to_bucket hash_string k))) \<and> m_buckets m' = (m_buckets m)(to_bucket hash_string k := b)"
  using assms
  by (intro exI [of _ "m_buckets m' (to_bucket hash_string k)"])
    (auto simp: hm_insert_def get_node_def Let_def rbind_eq_Inr set_bucket_def split: sum.splits option.splits prod.splits)

lemma write_sent:
  assumes L: "same_libraries V W" and fits: "change_fits (he_peer V) w" and session: "in_session g j key" and serves: "serves g j"
    and ins: "hm_insert bs (iw_key w) (iw_event w) (nd_roots (ho_node g) (iw_collection w)) (stores (iw_collection w)) = Some (Inr (root, st))"
  obtains outs g' frame where "upstream_write W bs w g stores = Some (Inr (outs, g', stores(iw_collection w := st)))" "frames_for j outs = [frame]"
    "party_encrypt (he_peer V) (Some key) (index_update_message (he_peer V) (index_changes (he_peer V) (iw_collection w) (iw_bucket w, m_buckets root (iw_bucket w)))
      (iw_shard w) (iw_block w) (iw_block_size w)) = Some frame"
    "in_session g' j key" "serves g' j" "nd_roots (ho_node g') = (nd_roots (ho_node g))(iw_collection w := root)"
proof -
  let ?n = "ho_node g" let ?b = "m_buckets root (iw_bucket w)" and ?S = "he_peer W" and ?ds = "m_downstream_set (sv_parties (nd_server ?n))"
  let ?n' = "?n\<lparr>nd_roots := (nd_roots ?n)(iw_collection w := root)\<rparr>"
  let ?msg = "\<lambda>T. index_update_message T (index_changes T (iw_collection w) (iw_bucket w, ?b)) (iw_shard w) (iw_block w) (iw_block_size w)"
  obtain p a where p: "nd_peers ?n j = Some p" "peer_encryption_key p = Some key" by (rule in_session_peer [OF session])
  have same: "?msg ?S = ?msg (he_peer V)" "party_encrypt ?S sk m = party_encrypt (he_peer V) sk m" for sk m
    using L party_encrypt_cong [of ?S "he_peer V"] by (simp_all add: same_libraries_def index_update_message_def index_changes_def Let_def)
  have "channel_laws (he_peer V)" "small (?msg (he_peer V))" using L fits by (simp_all add: same_libraries_def change_fits_def Let_def)
  then obtain frame where frame: "party_encrypt (he_peer V) (Some key) (?msg (he_peer V)) = Some frame" using frame_round_trip by blast
  obtain outs where outs: "run_effects W (concat (map (\<lambda>x. party_send ?S x (party_key x ?n') (?msg ?S)) ?ds)) (g\<lparr>ho_node := ?n'\<rparr>) = Inr (outs, g\<lparr>ho_node := ?n'\<rparr>)"
    "frames_for j outs = (case party_encrypt ?S (party_key j ?n') (?msg ?S) of None \<Rightarrow> [] | Some frame \<Rightarrow> [frame])"
    using run_sends [of ?ds "g\<lparr>ho_node := ?n'\<rparr>" W ?S "\<lambda>x. party_key x ?n'" "?msg ?S"] serves by (auto simp: serves_def Let_def)
  have "party_key j ?n' = Some key" using p by (simp add: party_key_def)
  moreover have "list_all (\<lambda>x. nd_peers ?n' x \<noteq> None) ?ds" using serves by (simp add: serves_def Let_def list_all_iff)
  ultimately have "upstream_write W bs w g stores = Some (Inr (outs, g\<lparr>ho_node := ?n'\<rparr>, stores(iw_collection w := st)))" "frames_for j outs = [frame]"
    using outs same frame ins by (simp_all add: upstream_write_def send_index_updates_to_downstream_def hm_changes_def Let_def)
  then show thesis using that frame in_session_frame [OF session, of "g\<lparr>ho_node := ?n'\<rparr>"] serves by (simp add: serves_def Let_def)
qed

section \<open>A downstream server follows its upstream server\<close>

definition roots_agree :: "string set \<Rightarrow> 'd host \<Rightarrow> 'd host \<Rightarrow> bool" where
  "roots_agree C h g \<longleftrightarrow> (\<forall>c \<in> C. \<forall>b < NUM_BUCKETS. m_buckets (nd_roots (ho_node h) c) b = m_buckets (nd_roots (ho_node g) c) b)"

lemma next_version_not_less: "\<not> version_less (increment v) v"
proof -
  have "unat v < 65536" using unsigned_less [of v, where 'a = nat] by simp
  then show ?thesis by (auto simp: version_less_unat unat_increment mod_if split: if_splits)
qed

lemma roots_agree_step:
  assumes agree: "roots_agree C h g" and w: "iw_collection w \<in> C"
    and root: "b_version b = increment (b_version (m_buckets (nd_roots (ho_node g) (iw_collection w)) (iw_bucket w)))"
      "m_buckets root = (m_buckets (nd_roots (ho_node g) (iw_collection w)))(iw_bucket w := b)"
    and h': "nd_roots (ho_node h') = (nd_roots (ho_node h))(iw_collection w := apply_changes (iw_bucket w) (m_buckets root (iw_bucket w)) (nd_roots (ho_node h) (iw_collection w)))"
    and g': "nd_roots (ho_node g') = (nd_roots (ho_node g))(iw_collection w := root)"
  shows "roots_agree C h' g'"
proof -
  have "m_buckets (nd_roots (ho_node h) (iw_collection w)) (iw_bucket w) = m_buckets (nd_roots (ho_node g) (iw_collection w)) (iw_bucket w)"
    using agree w iw_bucket_less by (simp add: roots_agree_def)
  then have "apply_changes (iw_bucket w) b (nd_roots (ho_node h) (iw_collection w)) = set_bucket (iw_bucket w) b (nd_roots (ho_node h) (iw_collection w))"
    by (simp add: apply_changes_def root(1) next_version_not_less)
  then show ?thesis using agree unfolding roots_agree_def h' g' by (simp add: set_bucket_def root(2))
qed

text \<open>The upstream server: each index is well-formed and has room for the entries to come.\<close>

definition indexes_ok :: "(hm_entries \<Rightarrow> nat) \<Rightarrow> string set \<Rightarrow> nat \<Rightarrow> 'd host \<Rightarrow> (string \<Rightarrow> hm_store) \<Rightarrow> bool" where
  "indexes_ok bs C room g stores \<longleftrightarrow> (\<forall>c \<in> C. hm_inv bs (nd_roots (ho_node g) c, stores c) \<and> room \<le> pages_left (stores c))"

definition written :: "index_write list \<Rightarrow> string \<Rightarrow> (string \<times> event_id_t) list" where
  "written ws c = map (\<lambda>w. (iw_key w, iw_event w)) (filter (\<lambda>w. iw_collection w = c) ws)"

definition entry :: "'d host \<Rightarrow> (string \<Rightarrow> hm_store) \<Rightarrow> string \<Rightarrow> string \<Rightarrow> event_id_t option result option" where
  "entry h stores c k = hm_get k (nd_roots (ho_node h) c) (stores c)"

lemma index_insert:
  assumes ok: "indexes_ok bs C (Suc room) (g :: 'd host) stores" and c: "iw_collection w \<in> C"
  shows "\<exists>root st. hm_insert bs (iw_key w) (iw_event w) (nd_roots (ho_node g) (iw_collection w)) (stores (iw_collection w)) = Some (Inr (root, st)) \<and>
    (\<forall>g' :: 'd host. nd_roots (ho_node g') = (nd_roots (ho_node g))(iw_collection w := root) \<longrightarrow>
       indexes_ok bs C room g' (stores(iw_collection w := st)) \<and>
       (\<forall>c k. entry g' (stores(iw_collection w := st)) c k =
          (if c = iw_collection w \<and> k = iw_key w then Some (Inr (Some (iw_event w))) else entry g stores c k)))"
proof -
  let ?s = "(nd_roots (ho_node g) (iw_collection w), stores (iw_collection w))"
  have "hm_inv bs ?s" "0 < pages_left (snd ?s)" using ok c by (auto simp: indexes_ok_def)
  from hm.ins_ok [OF this, of "iw_key w" "iw_event w"] obtain root st where s': "hm_ins bs (iw_key w) (iw_event w) ?s = Some (Inr (root, st))" "hm_inv bs (root, st)"
    "pages_left (snd ?s) \<le> pages_left st + 1" "\<forall>x. hm_lookup x (root, st) = (if x = iw_key w then Some (Inr (Some (iw_event w))) else hm_lookup x ?s)"
    by (metis surj_pair snd_conv)
  have "indexes_ok bs C room g' (stores(iw_collection w := st))"
    if "nd_roots (ho_node g') = (nd_roots (ho_node g))(iw_collection w := root)" for g' :: "'d host"
    using that s'(2,3) ok c by (fastforce simp: indexes_ok_def)
  then show ?thesis using s'(1,4) by (fastforce simp: entry_def hm_ins_def hm_lookup_def)
qed

lemma replicate_writes_agree:
  fixes h g :: "'d host"
  assumes L: "same_libraries V W"
    and "in_session h i key" "in_session g j key" "serves g j" "roots_agree C h g" "indexes_ok bs C (length ws) g stores"
    and "\<forall>w \<in> set ws. iw_collection w \<in> C \<and> change_fits (he_peer V) w \<and> unat (iw_shard w) < length (m_shards (ledger_of (sv_enclave (nd_server (ho_node h)))))"
  shows "\<exists>h' g' stores'. replicate_writes V i W j bs ws h g stores = Some (Inr (h', g', stores')) \<and> in_session h' i key \<and> in_session g' j key \<and>
    serves g' j \<and> roots_agree C h' g' \<and>
    (\<forall>c k. entry g' stores' c k = (case map_of (rev (written ws c)) k of None \<Rightarrow> entry g stores c k | Some eid \<Rightarrow> Some (Inr (Some eid))))"
  using assms(2-)
proof (induction ws arbitrary: h g stores)
  case (Cons w ws)
  have w: "change_fits (he_peer V) w" "unat (iw_shard w) < length (m_shards (ledger_of (sv_enclave (nd_server (ho_node h)))))" "iw_collection w \<in> C"
    and room: "indexes_ok bs C (Suc (length ws)) g stores" using Cons.prems(5,6) by simp_all
  obtain root st where ins: "hm_insert bs (iw_key w) (iw_event w) (nd_roots (ho_node g) (iw_collection w)) (stores (iw_collection w)) = Some (Inr (root, st))"
    and index: "\<And>g' :: 'd host. nd_roots (ho_node g') = (nd_roots (ho_node g))(iw_collection w := root) \<Longrightarrow> indexes_ok bs C (length ws) g' (stores(iw_collection w := st)) \<and>
       (\<forall>c k. entry g' (stores(iw_collection w := st)) c k =
          (if c = iw_collection w \<and> k = iw_key w then Some (Inr (Some (iw_event w))) else entry g stores c k))"
    using index_insert [OF room w(3)] by blast
  define T where "T = stores(iw_collection w := st)"
  note index = index [folded T_def]
  obtain outs g1 frame where g1: "upstream_write W bs w g stores = Some (Inr (outs, g1, T))" "frames_for j outs = [frame]"
    "party_encrypt (he_peer V) (Some key) (index_update_message (he_peer V) (index_changes (he_peer V) (iw_collection w) (iw_bucket w, m_buckets root (iw_bucket w)))
      (iw_shard w) (iw_block w) (iw_block_size w)) = Some frame" "in_session g1 j key" "serves g1 j"
    "nd_roots (ho_node g1) = (nd_roots (ho_node g))(iw_collection w := root)"
    unfolding T_def by (rule write_sent [OF L w(1) Cons.prems(2,3), of bs stores, OF ins])
  obtain h1 where h1: "peer_on_network_message V i frame h = Some (Inr ([], h1))" "in_session h1 i key"
    "nd_roots (ho_node h1) = (nd_roots (ho_node h))(iw_collection w := apply_changes (iw_bucket w) (m_buckets root (iw_bucket w)) (nd_roots (ho_node h) (iw_collection w)))"
    "length (m_shards (ledger_of (sv_enclave (nd_server (ho_node h1))))) = length (m_shards (ledger_of (sv_enclave (nd_server (ho_node h)))))"
    by (rule push_delivered [OF L w(1) Cons.prems(1) w(2) g1(3)])
  have step: "exchange_frames V i W j h g1 [] (frames_for j outs) = Some (Inr (False, h1, g1))"
    by (simp add: g1(2) exchange_to_initiator [OF h1(1)] exchange_ends)
  have "roots_agree C h1 g1"
    using hm_insert_bucket [OF ins] roots_agree_step [OF Cons.prems(4) w(3) _ _ h1(3) g1(6)] by blast
  then obtain h2 g2 stores2 where rest: "replicate_writes V i W j bs ws h1 g1 T = Some (Inr (h2, g2, stores2))"
    "in_session h2 i key" "in_session g2 j key" "serves g2 j" "roots_agree C h2 g2"
    "\<forall>c k. entry g2 stores2 c k = (case map_of (rev (written ws c)) k of None \<Rightarrow> entry g1 T c k | Some eid \<Rightarrow> Some (Inr (Some eid)))"
    using Cons.IH [OF h1(2) g1(4,5), of T] index [OF g1(6)] Cons.prems(6) h1(4) by auto
  moreover have "replicate_writes V i W j bs (w # ws) h g stores = Some (Inr (h2, g2, stores2))" using g1(1) step rest(1) by simp
  moreover have "entry g2 stores2 c k = (case map_of (rev (written (w # ws) c)) k of None \<Rightarrow> entry g stores c k | Some eid \<Rightarrow> Some (Inr (Some eid)))" for c k
    using index [OF g1(6)] by (simp add: rest(6) written_def map_add_def split: option.split)
  ultimately show ?case by blast
qed (simp add: written_def)

section \<open>Becoming a downstream server\<close>

lemma clear_shards_ok: "unheld d \<Longrightarrow> \<exists>d'. clear_shards is d = Inr d'"
proof (induction "is" arbitrary: d)
  case (Cons i "is")
  let ?d1 = "d\<lparr>disk_shards := (disk_shards d)(i := (disk_shards d i)\<lparr>held := True\<rparr>)\<rparr>"
  have "unheld (unlock_shard i (set_files i [] (?d1\<lparr>m_num_files := k\<rparr>)))" for k
    using Cons.prems by (simp add: unheld_def unlock_shard_def set_files_def)
  then show ?case using Cons by (simp add: Let_def)
qed simp

lemma load_roots_reads:
  assumes "wire_laws (ch_bits S)" "codec_law (\<lambda>bs. length bs = NUM_BUCKETS) (pv_root S)" "list_all small names"
  shows "\<exists>n'. load_roots S (length names) (concat (map (\<lambda>name. to_bytes (bs_string (ch_bits S)) name @ to_bytes (pv_root S) (serialize_root (r name))) names)) n = Inr n' \<and>
    nd_peers n' = nd_peers n \<and> nd_disk_key n' = nd_disk_key n \<and> nd_upstream_id n' = nd_upstream_id n \<and> sv_parties (nd_server n') = sv_parties (nd_server n) \<and>
    length (m_shards (ledger_of (sv_enclave (nd_server n')))) = length (m_shards (ledger_of (sv_enclave (nd_server n)))) \<and>
    (\<forall>c b. b < NUM_BUCKETS \<longrightarrow> m_buckets (nd_roots n' c) b = m_buckets (if c \<in> set names then r c else nd_roots n c) b)"
  using assms(3)
proof (induction names arbitrary: n)
  case (Cons c names)
  have root: "of_bytes (pv_root S) (to_bytes (pv_root S) (serialize_root m) @ rest) = Some (serialize_root m, rest)" for m rest
    using assms(2) unfolding codec_law_def by (simp add: serialize_root_def)
  obtain col l where l: "get_collection c True (ledger_of (sv_enclave (nd_server n))) = Inr (col, l)" "length (m_shards l) = length (m_shards (ledger_of (sv_enclave (nd_server n))))"
    by (cases "m_collections (ledger_of (sv_enclave (nd_server n))) c") (auto simp: get_collection_def set_collection_def)
  show ?case
    using Cons.IH [of "n\<lparr>nd_server := (nd_server n)\<lparr>sv_enclave := set_ledger l (sv_enclave (nd_server n))\<rparr>,
            nd_roots := (nd_roots n)(c := load_root (serialize_root (r c)) (nd_roots n c))\<rparr>"] Cons.prems l assms(1)
    by (auto simp: root load_serialize_root ledger_of_def set_ledger_def)
qed simp

lemma discard_all: "list_all (\<lambda>sh. m_pending_block sh \<noteq> None) shs \<Longrightarrow> \<exists>shs'. discard_pending_blocks shs = Inr shs' \<and> length shs' = length shs"
  by (induction shs) (auto simp: discard_pending_block_def)

text \<open>A server that may follow another one: it follows none yet, and waits for nothing.\<close>

definition can_follow :: "('d, 'z) host_env_scheme \<Rightarrow> 'd host \<Rightarrow> remote_party_id \<Rightarrow> bool" where
  "can_follow V h i \<longleftrightarrow>
     (let s = sv_enclave (nd_server (ho_node h))
      in (\<forall>op_id. small (announcement (he_peer V) op_id)) \<and> unheld (ho_disk h) \<and> \<not> en_downstream s \<and> list_all (\<lambda>sh. m_pending_block sh \<noteq> None) (m_shards (ledger_of s)) \<and>
         (\<forall>p. nd_peers (ho_node h) i = Some p \<longrightarrow> pe_responses p = [] \<and> pe_pending_count p = 0))"

text \<open>The server that is followed: it follows none itself, its messages and names are not too long.\<close>

definition can_lead :: "('d, 'z) host_env_scheme \<Rightarrow> 'd host \<Rightarrow> remote_party_id \<Rightarrow> bool" where
  "can_lead W g j \<longleftrightarrow>
     (let n = ho_node g; names = pv_names (he_peer W) (ledger_of (sv_enclave (nd_server n))); r = sv_parties (nd_server n)
      in \<not> en_downstream (sv_enclave (nd_server n)) \<and> length (nd_disk_key n) = DISK_KEY_SIZE \<and> small names \<and> list_all small names \<and>
         small (upstream_root (he_peer W) n) \<and>
         (\<forall>op_id. small (response_header (host_bits W) 0 op_id @ to_bytes (bs_nested (host_bits W)) (upstream_root (he_peer W) n))) \<and>
         distinct (m_downstream_set r) \<and> (\<forall>x \<in> set (m_downstream_set r). nd_peers n x \<noteq> None \<and> ho_attestations g x \<noteq> None))"

lemma announcement_answered:
  assumes L: "same_libraries V W" and session: "in_session g j key" and lead: "can_lead W g j"
    and fits: "small (announcement (he_peer V) op_id)" and frame: "party_encrypt (he_peer V) (Some key) (announcement (he_peer V) op_id) = Some frame"
  obtains g' answer where "peer_on_network_message W j frame g = Some (Inr ([NetSend j answer], g'))" "in_session g' j key" "serves g' j"
    "party_encrypt (he_peer V) (Some key) (response_header (host_bits V) 0 op_id @ to_bytes (bs_nested (host_bits V)) (upstream_root (he_peer W) (ho_node g))) = Some answer"
    "nd_roots (ho_node g') = nd_roots (ho_node g)" "ho_disk g' = ho_disk g" "nd_disk_key (ho_node g') = nd_disk_key (ho_node g)"
proof -
  let ?S = "he_peer W" and ?n = "ho_node g" let ?sv = "nd_server ?n"
  let ?n' = "?n\<lparr>nd_server := ?sv\<lparr>sv_parties := set_peer_type j DownstreamServer (sv_parties ?sv)\<rparr>\<rparr>"
  let ?msg = "response_header (host_bits W) 0 op_id @ to_bytes (bs_nested (host_bits W)) (upstream_root ?S ?n)"
  have same: "host_bits W = host_bits V" "announcement ?S op_id = announcement (he_peer V) op_id" "party_encrypt ?S sk m = party_encrypt (he_peer V) sk m" for sk m
    using L party_encrypt_cong [of ?S "he_peer V"] by (simp_all add: same_libraries_def announcement_def Let_def)
  have C: "channel_laws ?S" "wire_laws (host_bits V)" using L by (simp_all add: same_libraries_def channel_laws_def Let_def)
  obtain p a where p: "nd_peers ?n j = Some p" "peer_encryption_key p = Some key" "ho_attestations g j = Some a" "at_state a = AttestationDone"
    by (rule in_session_peer [OF session])
  obtain rp k where rp: "find_party j (sv_parties ?sv) = Some rp" "party_identity j ?sv = Some k" "rp_identity rp = Some k"
    using session by (auto simp: in_session_def party_identity_def split: option.splits)
  have "small ?msg" using lead by (simp add: can_lead_def Let_def)
  then obtain answer where answer: "party_encrypt ?S (Some key) ?msg = Some answer" using frame_round_trip [OF C(1)] by blast
  have peer_type: "of_bytes (pv_peer_type ?S) (to_bytes (pv_peer_type ?S) t) = Some (t, [])" for t
    using L unfolding same_libraries_def codec_law_def Let_def by (metis append_Nil2)
  have "?msg \<noteq> []" using type_bytes_nonempty [OF C(2)] same(1) by (simp add: response_header_def)
  moreover have "upstream_root ?S ?n' = upstream_root ?S ?n" by (simp add: upstream_root_def Let_def)
  moreover have "\<not> en_downstream (sv_enclave ?sv)" using lead by (simp add: can_lead_def Let_def)
  ultimately have "peer_connected_message (he_enclave W) ?S j p (Some OperationRequest) m (to_bytes (bs_u32 (host_bits W)) 0 @ to_bytes (bs_u32 (host_bits W)) op_id @
      to_bytes (bs_u8 (host_bits W)) (enum_number operation_types TellPeerType) @ to_bytes (pv_peer_type ?S) DownstreamServer) ?n = Some (Inr ([SendFrame j answer], ?n'))" for m
    using C(2) p(2) rp(2) answer peer_type same(1)
    by (simp add: peer_connected_message_def peer_request_def peer_op_request_def request_type_def tell_peer_type_def party_send_def Let_def)
  then have "peer_on_network_message W j frame g = after_enclave W j g (Some (Inr ([SendFrame j answer], ?n')))"
    using session_message [OF C(1) _ _ p(1,2)] frame fits unfolding same(2,3) [symmetric] by (simp add: announcement_def)
  then have "peer_on_network_message W j frame g = Some (Inr ([NetSend j answer], g\<lparr>ho_node := ?n'\<rparr>))"
    using p(3,4) done_update [of "g\<lparr>ho_node := ?n'\<rparr>" j a W] by (simp add: after_enclave_def)
  moreover have "in_session (g\<lparr>ho_node := ?n'\<rparr>) j key" "serves (g\<lparr>ho_node := ?n'\<rparr>) j"
    using p rp lead by (auto simp: in_session_def serves_def can_lead_def Let_def set_peer_type_def add_downstream_server_def party_identity_def find_party_def update_conv)
  ultimately show thesis using that answer same by simp
qed

lemma answer_received:
  assumes C: "channel_laws (he_peer V)" and p: "nd_peers (ho_node h) i = Some p" "peer_encryption_key p = Some key"
    and a: "ho_attestations h i = Some a" "at_state a = AttestationDone" and new: "map_of (pe_responses p) op_id = None"
    and frame: "party_encrypt (he_peer V) (Some key) (response_header (host_bits V) 0 op_id @ body) = Some frame" "small (response_header (host_bits V) 0 op_id @ body)"
  shows "peer_on_network_message V i frame h =
    Some (Inr ([], h\<lparr>ho_node := set_peer i (p\<lparr>pe_responses := (op_id, body) # pe_responses p\<rparr>) (ho_node h)\<rparr>))"
proof -
  let ?n = "set_peer i (p\<lparr>pe_responses := (op_id, body) # pe_responses p\<rparr>) (ho_node h)"
  have W: "wire_laws (host_bits V)" using C by (simp add: channel_laws_def)
  have "peer_on_network_message V i frame h = after_enclave V i h (Some (Inr ([], ?n)))"
    using session_message [OF C frame(1) [unfolded response_header_def append_assoc] frame(2) [unfolded response_header_def append_assoc] p] W new
    by (simp add: peer_connected_message_def update_peer_def peer_op_response_def insert_response_def)
  then show ?thesis using a done_update [of "h\<lparr>ho_node := ?n\<rparr>" i a V] by (simp add: after_enclave_def)
qed

text \<open>What the server that follows knows after the answer.\<close>

definition quiet :: "'d host \<Rightarrow> remote_party_id \<Rightarrow> bool" where
  "quiet h i \<longleftrightarrow> (case nd_peers (ho_node h) i of None \<Rightarrow> False | Some p \<Rightarrow> pe_responses p = [] \<and> pe_pending_count p = 0)"

lemma wait_answered:
  assumes "wire_laws (ch_bits S)" "nd_peers n i = Some p" "pe_responses p = [(op_id, to_bytes (bs_nested (ch_bits S)) bs)]" "pe_pending_count p = 1" "small bs"
  shows "wait_for_bytes S i op_id n = Some (Inr (bs, set_peer i (p\<lparr>pe_responses := [], pe_pending_count := 0\<rparr>) n))"
  using assms by (simp add: wait_for_bytes_def pending_message_wait_def peer_receive_response_def decrement_pending_count_def)

lemma root_loaded:
  assumes L: "same_libraries V W" and lead: "can_lead W g j"
    and p: "nd_peers n i = Some p" "pe_responses p = [(op_id, to_bytes (bs_nested (host_bits V)) (upstream_root (he_peer W) (ho_node g)))]" "pe_pending_count p = 1"
    and n: "nd_upstream_id n = i" "list_all (\<lambda>sh. m_pending_block sh \<noteq> None) (m_shards (ledger_of (sv_enclave (nd_server n))))"
  obtains n' where "set_upstream_finish (he_peer V) op_id n = Some (Inr n')" "nd_disk_key n' = nd_disk_key (ho_node g)" "nd_upstream_id n' = i"
    "nd_peers n' = (nd_peers n)(i \<mapsto> p\<lparr>pe_responses := [], pe_pending_count := 0\<rparr>)" "sv_parties (nd_server n') = sv_parties (nd_server n)"
    "length (m_shards (ledger_of (sv_enclave (nd_server n')))) = length (m_shards (ledger_of (sv_enclave (nd_server n))))"
    "\<And>c b. c \<in> set (pv_names (he_peer W) (ledger_of (sv_enclave (nd_server (ho_node g))))) \<Longrightarrow> b < NUM_BUCKETS \<Longrightarrow>
       m_buckets (nd_roots n' c) b = m_buckets (nd_roots (ho_node g) c) b"
proof -
  let ?S = "he_peer V" and ?names = "pv_names (he_peer W) (ledger_of (sv_enclave (nd_server (ho_node g))))"
  have W: "wire_laws (host_bits V)" "codec_law (\<lambda>bs. length bs = NUM_BUCKETS) (pv_root ?S)"
    and same: "host_bits W = host_bits V" "pv_root (he_peer W) = pv_root ?S"
    using L by (simp_all add: same_libraries_def channel_laws_def Let_def)
  have fits: "small (upstream_root (he_peer W) (ho_node g))" "length (nd_disk_key (ho_node g)) = DISK_KEY_SIZE" "small ?names" "list_all small ?names"
    using lead by (simp_all add: can_lead_def Let_def)
  obtain shs where shs: "discard_pending_blocks (m_shards (ledger_of (sv_enclave (nd_server n)))) = Inr shs"
    "length shs = length (m_shards (ledger_of (sv_enclave (nd_server n))))"
    using discard_all [OF n(2)] by blast
  let ?n1 = "set_peer i (p\<lparr>pe_responses := [], pe_pending_count := 0\<rparr>) n"
  let ?l = "(ledger_of (sv_enclave (nd_server n)))\<lparr>m_shards := shs\<rparr>"
  let ?n2 = "?n1\<lparr>nd_disk_key := nd_disk_key (ho_node g), nd_server := (nd_server n)\<lparr>sv_enclave := set_ledger ?l (sv_enclave (nd_server n))\<rparr>\<rparr>"
  obtain n' where n': "load_roots ?S (length ?names) (concat (map (\<lambda>name. to_bytes (bs_string (host_bits V)) name @ to_bytes (pv_root ?S) (serialize_root (nd_roots (ho_node g) name))) ?names)) ?n2 = Inr n'"
    "nd_peers n' = nd_peers ?n2" "nd_disk_key n' = nd_disk_key ?n2" "nd_upstream_id n' = nd_upstream_id ?n2" "sv_parties (nd_server n') = sv_parties (nd_server ?n2)"
    "length (m_shards (ledger_of (sv_enclave (nd_server n')))) = length (m_shards (ledger_of (sv_enclave (nd_server ?n2))))"
    "\<forall>c b. b < NUM_BUCKETS \<longrightarrow> m_buckets (nd_roots n' c) b = m_buckets (if c \<in> set ?names then nd_roots (ho_node g) c else nd_roots ?n2 c) b"
    using load_roots_reads [OF W fits(4)] by blast
  have "set_upstream_finish ?S op_id n = Some (Inr n')"
    using wait_answered [OF W(1) p fits(1)] W(1) fits n'(1) shs(1) same n(1)
    by (simp add: set_upstream_finish_def upstream_root_def clear_cached_blocks_def set_peer_def Let_def)
  then show thesis using that [of n'] n' n(1) shs(2) by (simp add: set_peer_def ledger_of_def set_ledger_def)
qed

lemma connect_upstream_ok:
  assumes L: "same_libraries V W" and session: "in_session h i key" "in_session g j key" and follow: "can_follow V h i" and lead: "can_lead W g j"
  obtains h' g' where "connect_upstream V i W j h g = Some (Inr (h', g'))" "in_session h' i key" "in_session g' j key" "serves g' j" "quiet h' i"
    "roots_agree (set (pv_names (he_peer W) (ledger_of (sv_enclave (nd_server (ho_node g)))))) h' g'" "nd_disk_key (ho_node h') = nd_disk_key (ho_node g)"
    "nd_upstream_id (ho_node h') = i" "ho_disk g' = ho_disk g" "nd_disk_key (ho_node g') = nd_disk_key (ho_node g)" "nd_roots (ho_node g') = nd_roots (ho_node g)"
    "length (m_shards (ledger_of (sv_enclave (nd_server (ho_node h'))))) = length (m_shards (ledger_of (sv_enclave (nd_server (ho_node h)))))"
proof -
  let ?S = "he_peer V" and ?n = "ho_node h" let ?sv = "nd_server ?n"
  have C: "channel_laws ?S" and same: "host_bits W = host_bits V" using L by (simp_all add: same_libraries_def Let_def)
  obtain p a where p: "nd_peers ?n i = Some p" "peer_encryption_key p = Some key" "ho_attestations h i = Some a" "at_state a = AttestationDone"
    by (rule in_session_peer [OF session(1)])
  obtain k where k: "party_identity i ?sv = Some k" using session(1) by (auto simp: in_session_def)
  obtain d where d: "disk_clear (ho_disk h) = Inr d"
    using follow clear_shards_ok [of "ho_disk h"] unfolding can_follow_def disk_clear_def Let_def by blast
  let ?op = "pe_next_operation_id p"
  have fits: "small (announcement ?S ?op)" and quiet: "pe_responses p = []" "pe_pending_count p = 0" using follow p(1) by (simp_all add: can_follow_def Let_def)
  obtain frame where frame: "party_encrypt ?S (Some key) (announcement ?S ?op) = Some frame" using frame_round_trip [OF C fits] by blast
  obtain g' answer where g': "peer_on_network_message W j frame g = Some (Inr ([NetSend j answer], g'))" "in_session g' j key" "serves g' j"
    "party_encrypt ?S (Some key) (response_header (host_bits V) 0 ?op @ to_bytes (bs_nested (host_bits V)) (upstream_root (he_peer W) (ho_node g))) = Some answer"
    "nd_roots (ho_node g') = nd_roots (ho_node g)" "ho_disk g' = ho_disk g" "nd_disk_key (ho_node g') = nd_disk_key (ho_node g)"
    by (rule announcement_answered [OF L session(2) lead fits frame])
  let ?p1 = "p\<lparr>pe_next_operation_id := ?op + 1, pe_pending_count := 1\<rparr>"
  let ?n1 = "set_peer i ?p1 (?n\<lparr>nd_server := ?sv\<lparr>sv_enclave := (sv_enclave ?sv)\<lparr>en_downstream := True\<rparr>\<rparr>, nd_upstream_id := i, nd_upstream_public_key := ki_key k\<rparr>)"
  let ?h1 = "h\<lparr>ho_disk := d, ho_node := ?n1\<rparr>"
  let ?p2 = "?p1\<lparr>pe_responses := [(?op, to_bytes (bs_nested (host_bits V)) (upstream_root (he_peer W) (ho_node g)))]\<rparr>"
  let ?h2 = "?h1\<lparr>ho_node := set_peer i ?p2 ?n1\<rparr>"
  have sent: "set_upstream_begin ?S i ?n = Inr (?op, [SendFrame i frame], ?n1)"
    using follow p(1,2) k frame quiet(2)
    by (simp add: set_upstream_begin_def can_follow_def peer_next_operation_id_def increment_pending_count_def party_send_def Let_def)
  have "peer_encryption_key ?p1 = Some key" using p(2) by (simp add: peer_encryption_key_def split: if_splits)
  from answer_received [OF C, of ?h1 i ?p1 key a ?op, OF _ this _ p(4) _ g'(4)]
  have "peer_on_network_message V i answer ?h1 = Some (Inr ([], ?h2))" using p(3) quiet(1) lead same by (simp add: set_peer_def can_lead_def Let_def)
  then have exchange: "exchange_frames V i W j ?h1 g [frame] [] = Some (Inr (False, ?h2, g'))"
    by (simp add: exchange_to_responder [OF g'(1)] exchange_to_initiator exchange_ends)
  obtain n' where n': "set_upstream_finish ?S ?op (ho_node ?h2) = Some (Inr n')" "nd_disk_key n' = nd_disk_key (ho_node g)" "nd_upstream_id n' = i"
    "nd_peers n' = (nd_peers (ho_node ?h2))(i \<mapsto> ?p2\<lparr>pe_responses := [], pe_pending_count := 0\<rparr>)" "sv_parties (nd_server n') = sv_parties (nd_server (ho_node ?h2))"
    "length (m_shards (ledger_of (sv_enclave (nd_server n')))) = length (m_shards (ledger_of (sv_enclave (nd_server (ho_node ?h2)))))"
    "\<And>c b. c \<in> set (pv_names (he_peer W) (ledger_of (sv_enclave (nd_server (ho_node g))))) \<Longrightarrow> b < NUM_BUCKETS \<Longrightarrow>
       m_buckets (nd_roots n' c) b = m_buckets (nd_roots (ho_node g) c) b"
    by (rule root_loaded [OF L lead, of "ho_node ?h2" i ?p2 ?op]) (use follow in \<open>simp_all add: set_peer_def can_follow_def ledger_of_def Let_def\<close>)
  have "connect_upstream V i W j h g = Some (Inr (?h2\<lparr>ho_node := n'\<rparr>, g'))"
    using d sent exchange n'(1) p(3) by (simp add: connect_upstream_def)
  moreover have "in_session (?h2\<lparr>ho_node := n'\<rparr>) i key" "quiet (?h2\<lparr>ho_node := n'\<rparr>) i"
    using p n' k by (simp_all add: in_session_def quiet_def party_identity_def set_peer_def peer_encryption_key_def split: if_splits)
  ultimately show thesis using that n' g' by (simp add: roots_agree_def set_peer_def ledger_of_def)
qed

lemma entry_agree: "roots_agree C h g \<Longrightarrow> c \<in> C \<Longrightarrow> entry h stores c k = entry g stores c k"
  by (simp add: entry_def hm_get_def get_node_def roots_agree_def to_bucket_def NUM_BUCKETS_def Let_def rbind_def split: sum.split)

text \<open>A removal is not replicated: the bucket of the key then differs on the two servers, whatever they had in common before.\<close>

lemma removal_not_replicated:
  assumes agree: "roots_agree C h g" and c: "iw_collection w \<in> C" and run: "upstream_remove bs w g stores = Some (Inr (g', stores'))"
  shows "\<not> roots_agree C h g'"
proof -
  let ?c = "iw_collection w" and ?b = "iw_bucket w"
  from run obtain root st where ins: "hm_insert bs (iw_key w) (iw_event w) (nd_roots (ho_node g) ?c) (stores ?c) = Some (Inr (root, st))"
    and g': "nd_roots (ho_node g') ?c = root"
    by (auto simp: upstream_remove_def pbind_def Let_def split: option.splits sum.splits)
  have "b_version (m_buckets root ?b) \<noteq> b_version (m_buckets (nd_roots (ho_node g) ?c) ?b)"
    using hm_insert_bucket [OF ins] increment_neq by auto
  then have "m_buckets root ?b \<noteq> m_buckets (nd_roots (ho_node g) ?c) ?b" by auto
  moreover have "?b < NUM_BUCKETS" by (simp add: to_bucket_def NUM_BUCKETS_def)
  ultimately show ?thesis using agree c g' unfolding roots_agree_def by metis
qed


end
