(* ===== verification/Upstream_Files.thy ===== *)
theory Upstream_Files
  imports Replication
begin

text \<open>
  What a downstream server reads: the files that its upstream server has written, in any interleaving of writes and reads, through
  the plain text request of the host, the cache of the upstream server's disk, and the decryption with the key that the downstream server
  has been told.
\<close>

section \<open>Plain text messages\<close>

lemma plain_message:
  assumes W: "wire_laws (host_bits V)" and a: "ho_attestations h i = Some a" "at_state a = AttestationDone"
    and handled: "handle_peer_plain_text_message V i (put_mtype (host_bits V) t @ body) h = Inr (outs, h')" "ho_attestations h' = ho_attestations h"
  shows "peer_on_network_message V i (put_etype (host_bits V) PlainText @ put_mtype (host_bits V) t @ body) h = Some (Inr (outs, h'))"
  using W handled a done_update [of h' i a V] by (simp add: peer_on_network_message_def put_etype_def)

definition file_request :: "('d, 'y) bitstream_lib_scheme \<Rightarrow> u32 \<Rightarrow> string \<Rightarrow> u8 list" where
  "file_request B op_id filename =
     put_etype B PlainText @ put_mtype B OperationRequest @ to_bytes (bs_u32 B) op_id @ to_bytes (bs_u8 B) (enum_number operation_types ReadFromUpstreamDisk) @
     to_bytes (bs_string B) filename"

definition file_answer :: "('d, 'y) bitstream_lib_scheme \<Rightarrow> u32 \<Rightarrow> u8 list \<Rightarrow> u8 list" where
  "file_answer B op_id file = put_etype B PlainText @ put_mtype B OperationResponse @ to_bytes (bs_u32 B) op_id @ to_bytes (bs_nested B) file"

lemma file_request_answered:
  assumes W: "wire_laws (host_bits V)" and a: "ho_attestations h i = Some a" "at_state a = AttestationDone"
    and stored: "unheld (ho_disk h)" "cached (he_hash V) (ho_disk h) filename = Some file" "small filename"
  shows "peer_on_network_message V i (file_request (host_bits V) op_id filename) h =
    Some (Inr ([NetSend i (file_answer (host_bits V) op_id file)], h\<lparr>ho_disk := (ho_disk h)\<lparr>m_num_loads := m_num_loads (ho_disk h) + 1\<rparr>\<rparr>))"
proof -
  let ?i = "to_shard (he_hash V) filename"
  have "read_undecrypted_from_disk (he_hash V) filename (ho_disk h) = Inr (Some file, (ho_disk h)\<lparr>m_num_loads := m_num_loads (ho_disk h) + 1\<rparr>)"
    using stored unlock_lock [OF stored(1), of ?i] by (simp add: read_undecrypted_from_disk_def cached_def unlock_shard_def Let_def)
  then have "handle_peer_plain_text_message V i (put_mtype (host_bits V) OperationRequest @ to_bytes (bs_u32 (host_bits V)) op_id @
      to_bytes (bs_u8 (host_bits V)) (enum_number operation_types ReadFromUpstreamDisk) @ to_bytes (bs_string (host_bits V)) filename) h =
    Inr ([NetSend i (file_answer (host_bits V) op_id file)], h\<lparr>ho_disk := (ho_disk h)\<lparr>m_num_loads := m_num_loads (ho_disk h) + 1\<rparr>\<rparr>)"
    using W stored(3) by (simp add: handle_peer_plain_text_message_def put_mtype_def [of _ OperationRequest] host_op_request_def file_answer_def Let_def)
  from plain_message [OF W a this] show ?thesis by (simp add: file_request_def)
qed

lemma file_answer_received:
  assumes W: "wire_laws (host_bits V)" and a: "ho_attestations h i = Some a" "at_state a = AttestationDone"
    and p: "nd_peers (ho_node h) i = Some p" "pe_responses p = []"
  shows "peer_on_network_message V i (file_answer (host_bits V) op_id file) h =
    Some (Inr ([], h\<lparr>ho_node := set_peer i (p\<lparr>pe_responses := [(op_id, to_bytes (bs_nested (host_bits V)) file)]\<rparr>) (ho_node h)\<rparr>))"
proof -
  have "handle_peer_plain_text_message V i (put_mtype (host_bits V) OperationResponse @ to_bytes (bs_u32 (host_bits V)) op_id @ to_bytes (bs_nested (host_bits V)) file) h =
    Inr ([], h\<lparr>ho_node := set_peer i (p\<lparr>pe_responses := [(op_id, to_bytes (bs_nested (host_bits V)) file)]\<rparr>) (ho_node h)\<rparr>)"
    using W p by (simp add: handle_peer_plain_text_message_def put_mtype_def host_op_response_def peer_insert_response_def insert_response_def)
  from plain_message [OF W a this] show ?thesis by (simp add: file_answer_def)
qed

section \<open>One read\<close>

text \<open>The two servers: the first follows the second and waits for nothing, both use the same key for files.\<close>

definition follows :: "('d, 'y) host_env_scheme \<Rightarrow> remote_party_id \<Rightarrow> ('d, 'z) host_env_scheme \<Rightarrow> remote_party_id \<Rightarrow> u8 list \<Rightarrow> 'd host \<Rightarrow> 'd host \<Rightarrow> bool" where
  "follows V i W j key h g \<longleftrightarrow>
     same_libraries V W \<and> he_encrypt V = he_encrypt W \<and> in_session h i key \<and> in_session g j key \<and> quiet h i \<and> nd_upstream_id (ho_node h) = i \<and>
     nd_disk_key (ho_node h) = nd_disk_key (ho_node g) \<and> disk_inv (he_hash W) (ho_disk g) \<and> unheld (ho_disk g)"

abbreviation stored_image :: "('d, 'z) host_env_scheme \<Rightarrow> 'd host \<Rightarrow> u8 list \<Rightarrow> u8 list" where
  "stored_image W g data \<equiv> file_image (he_encrypt W) (ch_gcm (he_peer W)) (nd_disk_key (ho_node g)) data"

lemma upstream_file_read:
  assumes follows: "follows V i W j key h g" and n: "small n" and stored: "cached (he_hash W) (ho_disk g) n = Some (stored_image W g data)" "data \<noteq> []"
    and fits: "length data < 2 ^ 31 - MAC_SIZE"
  obtains h' g' where "read_from_upstream_disk V i W j n h g = Some (Inr (Some data, h', g'))" "follows V i W j key h' g'"
    "cached (he_hash W) (ho_disk g') = cached (he_hash W) (ho_disk g)" "nd_disk_key (ho_node g') = nd_disk_key (ho_node g)"
proof -
  let ?S = "he_peer V" and ?file = "stored_image W g data" and ?g' = "g\<lparr>ho_disk := (ho_disk g)\<lparr>m_num_loads := m_num_loads (ho_disk g) + 1\<rparr>\<rparr>"
  have G: "gcm_correct (ch_gcm (he_peer W))" "ch_gcm ?S = ch_gcm (he_peer W)" and B: "wire_laws (host_bits V)" "host_bits W = host_bits V"
    using follows by (simp_all add: follows_def same_libraries_def channel_laws_def Let_def)
  obtain p a where p: "nd_peers (ho_node h) i = Some p" "peer_encryption_key p = Some key" "ho_attestations h i = Some a" "at_state a = AttestationDone"
    using follows in_session_peer unfolding follows_def by blast
  obtain b where b: "ho_attestations g j = Some b" "at_state b = AttestationDone" using follows in_session_peer unfolding follows_def by blast
  have quiet: "pe_responses p = []" "pe_pending_count p = 0" and up: "nd_upstream_id (ho_node h) = i" using follows p(1) by (simp_all add: follows_def quiet_def)
  have image: "small ?file" "?file \<noteq> []" "decrypt_disk (he_encrypt W) (ch_gcm (he_peer W)) (nd_disk_key (ho_node g)) ?file = Inr (Some data)"
    using file_image_decrypt [OF G(1), of "he_encrypt W" "nd_disk_key (ho_node g)" data] fits stored(2) by (auto simp: small_def MAC_SIZE_def split: if_splits)
  let ?op = "pe_next_operation_id p" let ?p1 = "p\<lparr>pe_next_operation_id := ?op + 1, pe_pending_count := 1\<rparr>"
  let ?p2 = "?p1\<lparr>pe_responses := [(?op, to_bytes (bs_nested (host_bits V)) ?file)]\<rparr>" and ?p3 = "?p1\<lparr>pe_responses := [], pe_pending_count := 0\<rparr>"
  let ?h1 = "h\<lparr>ho_node := set_peer i ?p1 (ho_node h)\<rparr>" let ?h2 = "?h1\<lparr>ho_node := set_peer i ?p2 (ho_node ?h1)\<rparr>"
  let ?h3 = "?h2\<lparr>ho_node := set_peer i ?p3 (ho_node ?h2)\<rparr>"
  have asked: "peer_on_network_message W j (file_request (host_bits V) ?op n) g = Some (Inr ([NetSend j (file_answer (host_bits V) ?op ?file)], ?g'))"
    using file_request_answered [OF _ b, of W n ?file ?op] B follows stored(1) n by (simp add: follows_def)
  have got: "peer_on_network_message V i (file_answer (host_bits V) ?op ?file) ?h1 = Some (Inr ([], ?h2))"
    using file_answer_received [OF B(1), of ?h1 i a ?p1 ?op ?file] p quiet by (simp add: set_peer_def)
  have exchange: "exchange_frames V i W j ?h1 g [file_request (host_bits V) ?op n] [] = Some (Inr (False, ?h2, ?g'))"
    by (simp add: exchange_to_responder [OF asked] exchange_to_initiator [OF got] exchange_ends)
  have "wait_for_bytes ?S i ?op (ho_node ?h2) = Some (Inr (?file, ho_node ?h3))"
    using wait_answered [OF B(1), of "ho_node ?h2" i ?p2 ?op ?file] image(1) by (simp add: set_peer_def)
  then have finish: "read_upstream_finish (he_encrypt V) ?S ?op (ho_node ?h2) = Some (Inr (Some data, ho_node ?h3))"
    using image stored(2) follows G(2) up by (simp add: read_upstream_finish_def follows_def set_peer_def)
  have "read_from_upstream_disk V i W j n h g = Some (Inr (Some data, ?h3, ?g'))"
    using p(1,3) up quiet(2) exchange finish
    by (simp add: read_from_upstream_disk_def read_upstream_begin_def peer_next_operation_id_def increment_pending_count_def file_request_def Let_def)
  moreover have "follows V i W j key ?h3 ?g'"
    using follows p quiet disk_cong [of "ho_disk ?g'" "ho_disk g"]
    by (simp add: follows_def in_session_def quiet_def set_peer_def party_identity_def peer_encryption_key_def unheld_def split: if_splits)
  ultimately show thesis using that by (simp add: cached_def fun_eq_iff)
qed

section \<open>Writes and reads\<close>

text \<open>The enclave of the upstream server writes a file, or the downstream server reads one.\<close>

datatype file_op = UpstreamWrites string "u8 list" | DownstreamReads string

fun run_file_ops ::
  "('d, 'y) host_env_scheme \<Rightarrow> remote_party_id \<Rightarrow> ('d, 'z) host_env_scheme \<Rightarrow> remote_party_id \<Rightarrow> file_op list \<Rightarrow> 'd host \<Rightarrow> 'd host \<Rightarrow>
     (u8 list option list \<times> 'd host \<times> 'd host) result option" where
  "run_file_ops V i W j [] h g = Some (Inr ([], h, g))"
| "run_file_ops V i W j (UpstreamWrites n data # ops) h g =
     pbind (Some (io_write_to_disk (he_encrypt W) (ch_gcm (he_peer W)) (nd_disk_key (ho_node g)) (he_hash W) n data (ho_disk g))) (\<lambda>(ok, d).
       run_file_ops V i W j ops h (g\<lparr>ho_disk := d\<rparr>))"
| "run_file_ops V i W j (DownstreamReads n # ops) h g =
     pbind (read_from_upstream_disk V i W j n h g) (\<lambda>(data, h1, g1).
     pbind (run_file_ops V i W j ops h1 g1) (\<lambda>(outs, h2, g2). Some (Inr (data # outs, h2, g2))))"

text \<open>The reads of a map, and the sequences in which every file is written before it is read.\<close>

fun file_reads :: "file_op list \<Rightarrow> (string \<rightharpoonup> u8 list) \<Rightarrow> u8 list option list" where
  "file_reads [] m = []"
| "file_reads (UpstreamWrites n data # ops) m = file_reads ops (m(n \<mapsto> data))"
| "file_reads (DownstreamReads n # ops) m = m n # file_reads ops m"

fun file_ops_ok :: "file_op list \<Rightarrow> (string \<rightharpoonup> u8 list) \<Rightarrow> bool" where
  "file_ops_ok [] m \<longleftrightarrow> True"
| "file_ops_ok (UpstreamWrites n data # ops) m \<longleftrightarrow> plain_name n \<and> length data < 2 ^ 31 - MAC_SIZE \<and> file_ops_ok ops (m(n \<mapsto> data))"
| "file_ops_ok (DownstreamReads n # ops) m \<longleftrightarrow>
     small n \<and> (case m n of None \<Rightarrow> False | Some data \<Rightarrow> data \<noteq> [] \<and> length data < 2 ^ 31 - MAC_SIZE) \<and> file_ops_ok ops m"

lemma flush_cached: "flush i batch d = Inr d' \<Longrightarrow> cached hash d' = cached hash d"
  by (auto simp: flush_def Let_def cached_def fun_eq_iff rbind_eq_Inr split: if_splits)

lemma disk_write_cached:
  assumes "disk_write hash n data d = Inr (ok, d')" "unheld d"
  shows "cached hash d' = (cached hash d)(n \<mapsto> data)"
proof -
  have "cached hash (unlock_shard i d1) = cached hash d1" for i d1 by (simp add: cached_def fun_eq_iff)
  then show ?thesis
    using assms by (auto simp: disk_write_def Let_def rbind_eq_Inr cached_def fun_eq_iff set_files_def add_pending_def split: if_splits option.splits dest!: flush_cached)
qed

definition holds_files :: "('d, 'z) host_env_scheme \<Rightarrow> 'd host \<Rightarrow> (string \<rightharpoonup> u8 list) \<Rightarrow> bool" where
  "holds_files W g m \<longleftrightarrow> (\<forall>n. cached (he_hash W) (ho_disk g) n = map_option (stored_image W g) (m n))"

lemma upstream_file_written:
  assumes follows: "follows V i W j key h g" and n: "plain_name n" "length data < 2 ^ 31 - MAC_SIZE" and files: "holds_files W g m"
  obtains d where "io_write_to_disk (he_encrypt W) (ch_gcm (he_peer W)) (nd_disk_key (ho_node g)) (he_hash W) n data (ho_disk g) = Inr (True, d)"
    "follows V i W j key h (g\<lparr>ho_disk := d\<rparr>)" "holds_files W (g\<lparr>ho_disk := d\<rparr>) (m(n \<mapsto> data))"
proof -
  have G: "gcm_correct (ch_gcm (he_peer W))" and free: "unheld (ho_disk g)" "disk_inv (he_hash W) (ho_disk g)"
    using follows by (simp_all add: follows_def same_libraries_def channel_laws_def Let_def)
  obtain d where d: "disk_write (he_hash W) n (stored_image W g data) (ho_disk g) = Inr (True, d)" "disk_inv (he_hash W) d" "unheld d"
    using disk_write_ok [OF free(2,1), of n "stored_image W g data"] n(1) by (auto simp: plain_name_def)
  then show thesis
    using that [of d] follows files io_write_image [OF G n] disk_write_cached [OF d(1) free(1)]
    by (simp add: follows_def in_session_def holds_files_def)
qed

text \<open>Property C21. A downstream server reads what its upstream server has written: in every sequence of writes of files by the enclave of the upstream
  server and of reads by the enclave of the downstream server, each read returns the content that was written last under the name, through encryption, the
  cache of the upstream server and the messages between the two. The files must have been written since the upstream server was
  started and must not be empty.\<close>

theorem downstream_reads_upstream_writes:
  assumes "follows V i W j key h g" "holds_files W g m" "file_ops_ok ops m"
  shows "\<exists>h' g'. run_file_ops V i W j ops h g = Some (Inr (file_reads ops m, h', g')) \<and> follows V i W j key h' g'"
  using assms
proof (induction ops arbitrary: h g m)
  case (Cons op ops)
  show ?case
  proof (cases op)
    case (UpstreamWrites n data)
    then obtain d where d: "io_write_to_disk (he_encrypt W) (ch_gcm (he_peer W)) (nd_disk_key (ho_node g)) (he_hash W) n data (ho_disk g) = Inr (True, d)"
      "follows V i W j key h (g\<lparr>ho_disk := d\<rparr>)" "holds_files W (g\<lparr>ho_disk := d\<rparr>) (m(n \<mapsto> data))"
      using upstream_file_written [OF Cons.prems(1) _ _ Cons.prems(2), of n data] Cons.prems(3) by auto
    with Cons.IH [OF d(2,3)] Cons.prems(3) show ?thesis by (simp add: UpstreamWrites d(1) del: fun_upd_apply)
  next
    case (DownstreamReads n)
    then obtain data where data: "small n" "m n = Some data" "data \<noteq> []" "length data < 2 ^ 31 - MAC_SIZE" "file_ops_ok ops m"
      using Cons.prems(3) by (auto split: option.splits)
    then have "cached (he_hash W) (ho_disk g) n = Some (stored_image W g data)" using Cons.prems(2) by (simp add: holds_files_def)
    from upstream_file_read [OF Cons.prems(1) data(1) this data(3,4)]
    obtain h1 g1 where 1: "read_from_upstream_disk V i W j n h g = Some (Inr (Some data, h1, g1))" "follows V i W j key h1 g1"
      "cached (he_hash W) (ho_disk g1) = cached (he_hash W) (ho_disk g)" "nd_disk_key (ho_node g1) = nd_disk_key (ho_node g)" by metis
    then have "holds_files W g1 m" using Cons.prems(2) by (simp add: holds_files_def)
    then show ?thesis using Cons.IH [OF 1(2) _ data(5)] 1(1) data(2) DownstreamReads by fastforce
  qed
qed simp

end
