(* ===== verification/Replication_Example.thy ===== *)
theory Replication_Example
  imports Peer_Example Upstream_Files
begin

text \<open>
  A concrete server that follows another one, and what the properties of replication say about the two.
\<close>

section \<open>Two connected servers\<close>

definition linked_host :: "string \<Rightarrow> u8 \<Rightarrow> nat enclave \<Rightarrow> nat host" where
  "linked_host name n s =
     fresh_host\<lparr>ho_node := (ho_node fresh_host)\<lparr>nd_server := fresh_server\<lparr>sv_enclave := s,
         sv_parties := no_parties\<lparr>m_remote_parties := [(1, \<lparr>rp_is_peer = True, rp_hostname = [], rp_port = 0, rp_peer_type = UnknownPeer,
           rp_identity = Some \<lparr>ki_identity = \<lparr>id_type = Server, id_name = name\<rparr>, ki_key = replicate 64 n\<rparr>\<rparr>)]\<rparr>\<rparr>,
       nd_peers := [1 \<mapsto> (new_peer True example_keys [])\<lparr>pe_state := PeerConnected, pe_encryption_key := replicate 16 3\<rparr>],
       nd_disk_key := replicate 16 n\<rparr>,
     ho_attestations := [1 \<mapsto> (new_attestation TwoWay_IsInitiator)\<lparr>at_state := AttestationDone\<rparr>]\<rparr>"

definition follower :: "nat host" where
  "follower = linked_host ''two'' 2 example_enclave"

definition leader :: "nat host" where
  "leader = linked_host ''one'' 1 (set_ledger (set_collection ''c'' (new_collection ''c'') (new_ledger first_store)) example_enclave)"

lemma linked_host_fields [simp]:
  "party_identity 1 (nd_server (ho_node (linked_host name n s))) = Some \<lparr>ki_identity = \<lparr>id_type = Server, id_name = name\<rparr>, ki_key = replicate 64 n\<rparr>"
  "nd_peers (ho_node (linked_host name n s)) = [1 \<mapsto> (new_peer True example_keys [])\<lparr>pe_state := PeerConnected, pe_encryption_key := replicate 16 3\<rparr>]"
  "ho_attestations (linked_host name n s) = [1 \<mapsto> (new_attestation TwoWay_IsInitiator)\<lparr>at_state := AttestationDone\<rparr>]"
  "sv_enclave (nd_server (ho_node (linked_host name n s))) = s" "nd_disk_key (ho_node (linked_host name n s)) = replicate 16 n"
  "m_downstream_set (sv_parties (nd_server (ho_node (linked_host name n s)))) = []" "ho_disk (linked_host name n s) = ho_disk fresh_host"
  by (simp_all add: linked_host_def fresh_server_def fresh_host_def no_parties_def party_identity_def find_party_def)

lemma linked_host_session: "in_session (linked_host name n s) 1 (replicate 16 3)"
  by (simp add: in_session_def peer_encryption_key_def)

lemma peer_side_more [simp]:
  "ch_gcm (peer_side n) = example_gcm" "pv_u16 (peer_side n) = word_codec 2" "pv_bucket (peer_side n) = change_codec" "pv_root (peer_side n) = list_codec bucket_codec"
  "pv_peer_type (peer_side n) = peer_type_codec" "pv_names (peer_side n) = (\<lambda>l. filter (\<lambda>c. m_collections l c \<noteq> None) [''c'', ''d''])"
  "he_encrypt (host_side n name) = True" "he_hash (host_side n name) = length"
  by (simp_all add: peer_side_def session_side_def example_channel_def session_env.defs peer_env.defs channel.defs host_side_def)

section \<open>The library\<close>

lemma bucket_codec_law: "codec_law (\<lambda>_. True) bucket_codec"
proof -
  have "codec_law (\<lambda>_. True) (word_codec 4 :: u32 codec)" "codec_law (\<lambda>_. True) (word_codec 2 :: u16 codec)" by (rule word_codec_law, simp)+
  from pair_codec_law [OF this] show ?thesis unfolding bucket_codec_def by (rule map_codec_law) simp
qed

lemma change_codec_law: "codec_law (\<lambda>(b, _). b < NUM_BUCKETS) change_codec"
proof -
  have "codec_law (\<lambda>_. True) (word_codec 2 :: u16 codec)" by (rule word_codec_law) simp
  then have "codec_law (\<lambda>b. b < NUM_BUCKETS) (map_codec (\<lambda>n. word_of_nat n :: u16) unat (word_codec 2))"
    by (rule map_codec_law) (simp add: NUM_BUCKETS_def unat_of_nat take_bit_nat_eq_self)
  from pair_codec_law [OF this bucket_codec_law] show ?thesis unfolding change_codec_def by simp
qed

lemma peer_type_codec_law: "codec_law (\<lambda>_. True) peer_type_codec"
  unfolding peer_type_codec_def
proof (rule map_codec_law [OF byte_codec_law])
  fix t :: PeerType
  have "t \<in> set peer_types" by (cases t) (simp_all add: peer_types_def)
  moreover have "length peer_types \<le> 256" by (simp add: peer_types_def)
  ultimately show "True \<and> the (enum_value peer_types (enum_number peer_types t)) = t" by (simp add: enum_value_number)
qed

lemma example_libraries: "same_libraries (host_side n name) (host_side m name')"
proof -
  have "codec_law (\<lambda>_. True) (word_codec 2 :: u16 codec)" by (rule word_codec_law) simp
  moreover have "codec_law (\<lambda>bs. length bs = NUM_BUCKETS) (list_codec bucket_codec)"
    by (rule codec_law_weaken [OF list_codec_law [OF bucket_codec_law]]) (simp add: small_def NUM_BUCKETS_def list_all_iff)
  ultimately show ?thesis
    using change_codec_law peer_type_codec_law by (simp add: same_libraries_def channel_laws_def nat_bits_wire example_gcm_correct)
qed

lemma codec_lengths [simp]:
  "length (to_bytes bucket_codec b) = 6" "length (to_bytes change_codec (n, b)) = 8" "length (to_bytes peer_type_codec t) = 1"
  "length (to_bytes (word_codec k :: ('a :: len) word codec) w) = k" "length (to_bytes (bs_nested nat_bits) bs) = 4 + length bs"
  "length (to_bytes (list_codec bucket_codec) bs') = 4 + 6 * length bs'"
proof -
  show word: "length (to_bytes (word_codec k :: ('a :: len) word codec) w) = k" for k w by (simp add: word_codec_def)
  have byte: "length (to_bytes byte_codec w) = 1" for w by (simp add: byte_codec_def word_codec_def)
  show bucket: "length (to_bytes bucket_codec b) = 6" for b by (simp add: bucket_codec_def map_codec_def pair_codec_def word_codec_def)
  then show "length (to_bytes change_codec (n, b)) = 8" by (simp add: change_codec_def map_codec_def pair_codec_def word_codec_def)
  show "length (to_bytes peer_type_codec t) = 1" using byte by (simp add: peer_type_codec_def map_codec_def)
  show "length (to_bytes (bs_nested nat_bits) bs) = 4 + length bs"
    using byte by (simp add: nat_bits_def list_codec_def length_concat comp_def map_replicate_const sum_list_replicate)
  show "length (to_bytes (list_codec bucket_codec) bs') = 4 + 6 * length bs'"
    using bucket by (simp add: list_codec_def length_concat comp_def map_replicate_const sum_list_replicate)
qed

section \<open>The index\<close>

lemma generate_shards_pending:
  "list_all (\<lambda>sh. m_pending_block sh \<noteq> None) (fst (generate_shards k st)) \<and> length (fst (generate_shards k st)) = k"
  by (induction k arbitrary: st) (simp_all add: generate_block_def Let_def case_prod_beta)

lemma new_ledger_shards:
  "list_all (\<lambda>sh. m_pending_block sh \<noteq> None) (m_shards (new_ledger st))" "length (m_shards (new_ledger st)) = 64"
  using generate_shards_pending [of NUM_SHARDS st] by (simp_all add: new_ledger_def case_prod_beta NUM_SHARDS_def)

lemma example_sessions: "in_session follower 1 (replicate 16 3)" "in_session leader 1 (replicate 16 3)"
  by (simp_all add: follower_def leader_def linked_host_session)

lemma example_ledger: "ledger_of example_enclave = new_ledger first_store"
  by (simp add: ledger_of_def example_enclave_def empty_world_def)

lemma example_can_follow: "can_follow (host_side 2 ''two'') follower 1"
proof -
  have "small (announcement (peer_side 2) op_id)" for op_id by (simp add: small_def announcement_def put_mtype_def)
  then show ?thesis
    using new_ledger_shards(1) [of first_store]
    by (simp add: can_follow_def follower_def example_ledger fresh_host_def new_disk_def empty_shard_def unheld_def new_peer_def Let_def) (simp add: example_enclave_def)
qed

lemma leader_collections: "m_collections (ledger_of (sv_enclave (nd_server (ho_node leader)))) = [''c'' \<mapsto> new_collection ''c'']"
  by (simp add: leader_def ledger_of_def set_ledger_def set_collection_def new_ledger_correct(3))

lemma example_can_lead: "can_lead (host_side 1 ''one'') leader 1"
proof -
  have size: "length (upstream_root (peer_side 1) (ho_node leader)) = 16 + 4 + (5 + (4 + 6 * NUM_BUCKETS))"
    by (simp add: upstream_root_def leader_collections Let_def serialize_root_def) (simp add: leader_def)
  show ?thesis
    unfolding can_lead_def Let_def
    by (simp add: leader_collections DISK_KEY_SIZE_def small_def size response_header_def put_mtype_def NUM_BUCKETS_def)
      (simp add: leader_def example_enclave_def set_ledger_def)
qed

definition example_write :: "event_id_t \<Rightarrow> index_write" where
  "example_write e = \<lparr>iw_collection = ''c'', iw_key = ''k'', iw_event = e, iw_shard = 3, iw_block = 4, iw_block_size = 2\<rparr>"

lemma example_index: "indexes_ok (\<lambda>es. 24 + 600 * length es) {''c''} 2 leader (\<lambda>_. empty_store)"
proof -
  have "node_layout (\<lambda>es :: hm_entries. 24 + 600 * length es)" by (rule node_layout_linear) (simp add: MAX_NODE_SIZE_def)
  from hm_rep_empty [OF this] show ?thesis
    by (auto simp: indexes_ok_def hm_inv_def leader_def linked_host_def fresh_host_def pages_left_def empty_store_def)
qed


section \<open>Files\<close>

definition reading_follower :: "nat host" where
  "reading_follower = follower\<lparr>ho_node := (ho_node follower)\<lparr>nd_disk_key := replicate 16 1, nd_upstream_id := 1\<rparr>\<rparr>"

lemma example_follows: "follows (host_side 2 ''two'') 1 (host_side 1 ''one'') 1 (replicate 16 3) reading_follower leader"
proof -
  have "disk_ready length ''disk/'' (ho_disk fresh_host)"
    using new_disk_ready(1) [of "\<lparr>fs_files = Map.empty, fs_writable = (\<lambda>_. True)\<rparr>" "''disk/''" length] by (simp add: fresh_host_def new_disk_def)
  then show ?thesis
    using example_libraries example_sessions in_session_frame [OF example_sessions(1), of reading_follower]
    by (simp add: follows_def quiet_def reading_follower_def follower_def leader_def disk_ready_def new_peer_def)
qed

theorem downstream_reads_upstream_writes_witness:
  "\<exists>h' g'. run_file_ops (host_side 2 ''two'') 1 (host_side 1 ''one'') 1
      [UpstreamWrites ''a'' [1], UpstreamWrites ''b'' [2], DownstreamReads ''a'', UpstreamWrites ''a'' [3, 4], DownstreamReads ''b'', DownstreamReads ''a'']
      reading_follower leader = Some (Inr ([Some [1], Some [2], Some [3, 4]], h', g'))"
proof -
  have "holds_files (host_side 1 ''one'') leader Map.empty"
    by (simp add: holds_files_def leader_def fresh_host_def cached_def new_disk_def empty_shard_def)
  from downstream_reads_upstream_writes [OF example_follows this, of "[UpstreamWrites ''a'' [1], UpstreamWrites ''b'' [2], DownstreamReads ''a'',
      UpstreamWrites ''a'' [3, 4], DownstreamReads ''b'', DownstreamReads ''a'']"]
  show ?thesis by (auto simp: plain_name_def MAC_SIZE_def small_def)
qed

end
