(* ===== verification/Program_Bindings.thy ===== *)
theory Program_Bindings
  imports Transaction_Executor
begin

text \<open>
  What programs and policies can do: the modules the interpreter offers them (\<open>src/src/enclave/bindings/\<close>), the task that runs a
  program (\<open>ProgramRunner.cpp\<close>, \<open>Task.cpp\<close>, \<open>TaskManager.cpp\<close>) and the modules of a policy (\<open>Ledger.cpp\<close>).
  The interpreter is not part of the sources. It is an argument: it has a state of its own and, whenever it needs one of the modules,
  says which member it looks up or which function it calls with which arguments. So are its conversions between values and documents,
  and other servers. The locks that the calls take through the handle of the program are not part of the ledger model.
\<close>

section \<open>Values\<close>

datatype binding =
    DatabaseMod op_context bool
  | TransactionMod nat
  | NestedTransactionMod nat
  | CollectionMod op_context string
  | TransactionCollectionMod nat string
  | ObjectMod op_context string string
  | OpContextMod op_context
  | OpInfoMod OperationType string

text \<open>
  \<open>NullPtr\<close> is the null pointer, which the interpreter takes for its value None. \<open>'v\<close> are the values the bindings never look into.
  A function is one that a module has given out under a name.
\<close>

datatype ('d, 'v) cow_value =
    NullPtr
  | BoolVal bool
  | IntVal int
  | StrVal string
  | ListVal "('d, 'v) cow_value list"
  | TupleVal "('d, 'v) cow_value list"
  | ModuleVal binding
  | FunctionVal binding string
  | GeneratorVal "'d list_iterator"
  | OtherVal 'v

record ('d, 'v) cow_lib =
  cl_to_document :: "('d, 'v) cow_value \<Rightarrow> 'd result"
  cl_from_document :: "'d \<Rightarrow> ('d, 'v) cow_value"
  cl_unpack_string :: "('d, 'v) cow_value \<Rightarrow> string result"
  cl_cast_string :: "('d, 'v) cow_value \<Rightarrow> string result"
  cl_view :: "'d \<Rightarrow> string \<Rightarrow> bool"
  cl_no_predicates :: 'd
  cl_digest :: "witness \<Rightarrow> ('d, 'v) cow_value"

text \<open>
  Other servers: their names, how one is found, what it means to send it a call, and what happens until its answer is there (other
  tasks run meanwhile). \<open>pn_vote\<close> answers the requests of a commit.
\<close>

record ('d, 'v, 'n) program_net =
  pn_names :: "'n \<Rightarrow> string list result"
  pn_find :: "string \<Rightarrow> 'n \<Rightarrow> identity_uid_t option"
  pn_call :: "identity_uid_t \<Rightarrow> string \<Rightarrow> taskid_t \<Rightarrow> string \<Rightarrow> string \<Rightarrow> string list \<Rightarrow> (identity_uid_t \<times> transaction_id_t) option \<Rightarrow> 'n \<Rightarrow> 'n"
  pn_wait :: "identity_uid_t \<Rightarrow> 'd tx_world \<Rightarrow> 'n \<Rightarrow> ((string + ('d, 'v) cow_value) \<times> 'd tx_world \<times> 'n) option"
  pn_vote :: "'n peers"

record runner =
  rn_task :: taskid_t
  rn_context :: op_context
  rn_uid :: identity_uid_t
  rn_name :: string

section \<open>Members\<close>

text \<open>A null pointer instead of a function: without a runner, as in a policy, there are no transactions and no calls.\<close>

definition database_member :: "op_context \<Rightarrow> bool \<Rightarrow> string \<Rightarrow> ('d, 'v) cow_value result" where
  "database_member ctx has_runner name =
     (let function = Inr (FunctionVal (DatabaseMod ctx has_runner) name)
      in if name = ''name'' then function
         else if name = ''init_transaction'' then (if \<not> has_runner then Inr NullPtr else function)
         else if name = ''peers'' then function
         else if name = ''call_on_peer'' then (if \<not> has_runner then Inr NullPtr else function)
         else if name = ''get_collection'' then function
         else Inl (RuntimeError (''No such method Database::'' @ name)))"

definition transaction_member :: "runner \<Rightarrow> nat \<Rightarrow> 'd tx_world \<Rightarrow> string \<Rightarrow> ('d, 'v) cow_value result" where
  "transaction_member R p w name =
     (if name \<in> {''get_collection'', ''abort'', ''init_transaction'', ''call_on_peer''} \<or> name = ''commit'' \<and> \<not> m_is_remote (tw_objects w p)
      then Inr (FunctionVal (TransactionMod p) name)
      else database_member (rn_context R) True name)"

definition nested_transaction_member :: "runner \<Rightarrow> nat \<Rightarrow> 'd tx_world \<Rightarrow> string \<Rightarrow> ('d, 'v) cow_value result" where
  "nested_transaction_member R p w name =
     (if name = ''commit'' then Inr (FunctionVal (NestedTransactionMod p) name) else transaction_member R p w name)"

definition collection_member :: "op_context \<Rightarrow> string \<Rightarrow> string \<Rightarrow> ('d, 'v) cow_value result" where
  "collection_member ctx c name =
     (if name \<in> {''count_writes'', ''get'', ''has_object'', ''find'', ''put'', ''add''} then Inr (FunctionVal (CollectionMod ctx c) name)
      else Inl (RuntimeError ''failed to get member''))"

definition transaction_collection_member :: "nat \<Rightarrow> string \<Rightarrow> string \<Rightarrow> ('d, 'v) cow_value result" where
  "transaction_collection_member p c name =
     (if name \<in> {''get'', ''check'', ''has_object'', ''find'', ''put'', ''add''} then Inr (FunctionVal (TransactionCollectionMod p c) name)
      else Inl (RuntimeError (''No such method TransactionCollection::'' @ name)))"

definition object_member :: "op_context \<Rightarrow> string \<Rightarrow> string \<Rightarrow> string \<Rightarrow> ('d, 'v) cow_value result" where
  "object_member ctx c key name =
     (if name \<in> {''count_writes'', ''get'', ''contains'', ''put'', ''add''} then Inr (FunctionVal (ObjectMod ctx c key) name)
      else Inl (RuntimeError (''Unknown function: self.'' @ name)))"

definition op_context_member :: "op_context \<Rightarrow> string \<Rightarrow> ('d, 'v) cow_value result" where
  "op_context_member ctx name =
     (if name = ''source_name'' then Inr (StrVal (id_name (oc_identity ctx)))
      else if name = ''source_uri'' then Inr (StrVal (context_to_string ctx))
      else if name = ''type'' then Inr (StrVal (case id_type (oc_identity ctx) of Server \<Rightarrow> ''SERVER'' | Client \<Rightarrow> ''CLIENT''))
      else if name \<in> {''runs_in_tee'', ''called_by_program''} then Inr (FunctionVal (OpContextMod ctx) name)
      else Inl (RuntimeError (''Failed to get member: '' @ name)))"

definition op_info_member :: "OperationType \<Rightarrow> string \<Rightarrow> string \<Rightarrow> ('d, 'v) cow_value result" where
  "op_info_member type target name =
     (if name = ''type'' then
        (case type of
           PutObject \<Rightarrow> Inr (StrVal ''put'') | AddToObject \<Rightarrow> Inr (StrVal ''add'') | GetObject \<Rightarrow> Inr (StrVal ''get'')
         | CallProgram \<Rightarrow> Inr (StrVal ''call'') | _ \<Rightarrow> Inl (RuntimeError ''Unknown op type''))
      else if name = ''is_modification'' then Inr (BoolVal (type = PutObject \<or> type = AddToObject))
      else if name = ''target'' then Inr (StrVal target)
      else Inl (RuntimeError (''Failed to get member: '' @ name)))"

fun get_member :: "runner \<Rightarrow> binding \<Rightarrow> 'd tx_world \<Rightarrow> string \<Rightarrow> ('d, 'v) cow_value result" where
  "get_member R (DatabaseMod ctx has_runner) w name = database_member ctx has_runner name"
| "get_member R (TransactionMod p) w name = transaction_member R p w name"
| "get_member R (NestedTransactionMod p) w name = nested_transaction_member R p w name"
| "get_member R (CollectionMod ctx c) w name = collection_member ctx c name"
| "get_member R (TransactionCollectionMod p c) w name = transaction_collection_member p c name"
| "get_member R (ObjectMod ctx c key) w name = object_member ctx c key name"
| "get_member R (OpContextMod ctx) w name = op_context_member ctx name"
| "get_member R (OpInfoMod type target) w name = op_info_member type target name"

section \<open>Arguments\<close>

definition is_string :: "('d, 'v) cow_value \<Rightarrow> bool" where "is_string v = (case v of StrVal _ \<Rightarrow> True | _ \<Rightarrow> False)"
definition is_list :: "('d, 'v) cow_value \<Rightarrow> bool" where "is_list v = (case v of ListVal _ \<Rightarrow> True | _ \<Rightarrow> False)"
definition is_bool :: "('d, 'v) cow_value \<Rightarrow> bool" where "is_bool v = (case v of BoolVal _ \<Rightarrow> True | _ \<Rightarrow> False)"

definition get_string :: "('d, 'v) cow_value \<Rightarrow> string" where "get_string v = (case v of StrVal s \<Rightarrow> s | _ \<Rightarrow> [])"
definition get_elements :: "('d, 'v) cow_value \<Rightarrow> ('d, 'v) cow_value list" where "get_elements v = (case v of ListVal vs \<Rightarrow> vs | _ \<Rightarrow> [])"

text \<open>The types are asked for one after the other; asking a null pointer ends the process.\<close>

fun all_typed :: "(('d, 'v) cow_value \<Rightarrow> bool) list \<Rightarrow> ('d, 'v) cow_value list \<Rightarrow> bool result" where
  "all_typed (t # ts) (v # vs) =
     (if v = NullPtr then Inl (Fatal ''null pointer'') else if t v then all_typed ts vs else Inr False)"
| "all_typed _ _ = Inr True"

definition check_args :: "string \<Rightarrow> nat \<Rightarrow> (('d, 'v) cow_value \<Rightarrow> bool) list \<Rightarrow> ('d, 'v) cow_value list \<Rightarrow> unit result" where
  "check_args err n ts args =
     (if length args \<noteq> n then Inl (RuntimeError err)
      else rbind (all_typed ts args) (\<lambda>ok. if ok then Inr () else Inl (RuntimeError err)))"

text \<open>
  Where the two conditions are joined by "and", a wrong number of arguments passes when the first is a string, and any argument passes
  when their number is right. The source then reads \<open>args[0]\<close> of an empty vector, or \<open>args[1]\<close> of a vector with one element, and
  it looks up the type behind a null pointer. These are undefined in C++: the errors \<open>missing argument\<close> and \<open>null pointer\<close>, which the source
  does not raise, only mark them, and the theorems about calls leave such calls out.
\<close>

definition check_args_loosely :: "nat \<Rightarrow> ('d, 'v) cow_value list \<Rightarrow> unit result" where
  "check_args_loosely n args =
     (if length args = n then Inr ()
      else case args of
             [] \<Rightarrow> Inl (Fatal ''missing argument'')
           | v # _ \<Rightarrow> if v = NullPtr then Inl (Fatal ''null pointer'') else if is_string v then Inr ()
                      else Inl (RuntimeError ''Invalid number of arguments''))"

definition arg :: "nat \<Rightarrow> ('d, 'v) cow_value list \<Rightarrow> ('d, 'v) cow_value result" where
  "arg i args = (if i < length args then Inr (args ! i) else Inl (Fatal ''missing argument''))"

fun cast_strings :: "('d, 'v) cow_lib \<Rightarrow> ('d, 'v) cow_value list \<Rightarrow> string list result" where
  "cast_strings C [] = Inr []"
| "cast_strings C (v # vs) = rbind (cl_cast_string C v) (\<lambda>s. rbind (cast_strings C vs) (\<lambda>ss. Inr (s # ss)))"

section \<open>Outcomes\<close>

text \<open>Continue with the value of something that does not change the state, or that gives a new ledger.\<close>

definition ask :: "'a result option \<Rightarrow> 'd tx_world \<Rightarrow> 'n \<Rightarrow> ('a \<Rightarrow> ('b, 'd, 'n) execution) \<Rightarrow> ('b, 'd, 'n) execution" where
  "ask r w n f = (case r of None \<Rightarrow> None | Some (Inl e) \<Rightarrow> Some (Inl e, w, n) | Some (Inr x) \<Rightarrow> f x)"

lemma ask_simps [simp]:
  "ask None w n f = None" "ask (Some (Inl e)) w n f = Some (Inl e, w, n)" "ask (Some (Inr x)) w n f = f x"
  by (simp_all add: ask_def)

lemma ask_eq_Some:
  "ask r w n f = Some out \<longleftrightarrow> (\<exists>e. r = Some (Inl e) \<and> out = (Inl e, w, n)) \<or> (\<exists>x. r = Some (Inr x) \<and> f x = Some out)"
  by (auto simp: ask_def split: option.splits sum.splits)

definition give :: "'a \<Rightarrow> 'd tx_world \<Rightarrow> 'n \<Rightarrow> ('a, 'd, 'n) execution" where
  "give v w n = Some (Inr v, w, n)"

definition raise :: "error \<Rightarrow> 'd tx_world \<Rightarrow> 'n \<Rightarrow> ('a, 'd, 'n) execution" where
  "raise e w n = Some (Inl e, w, n)"

definition set_object_of :: "nat \<Rightarrow> ('d transaction \<Rightarrow> 'd transaction) \<Rightarrow> 'd tx_world \<Rightarrow> 'd tx_world" where
  "set_object_of p f w = w\<lparr>tw_objects := (tw_objects w)(p := f (tw_objects w p))\<rparr>"

definition register_op :: "nat \<Rightarrow> 'd operation_info_t \<Rightarrow> 'd tx_world \<Rightarrow> 'd tx_world" where
  "register_op p op = set_object_of p (register_operation op)"

section \<open>Collections and objects\<close>

text \<open>The value that is read, with its event; an invalid event means that there is none.\<close>

definition read_value ::
  "('d, 'z) ledger_env_scheme \<Rightarrow> op_context \<Rightarrow> string \<Rightarrow> string \<Rightarrow> string \<Rightarrow> ledger \<Rightarrow> (event_id_t \<times> 'd) option result option" where
  "read_value E ctx c key path l =
     (case first_value E ctx c key path l of
        None \<Rightarrow> None
      | Some r \<Rightarrow> Some (rbind r (\<lambda>(eid, v).
          if \<not> is_valid eid then Inr None
          else case v of None \<Rightarrow> Inl JsonError | Some d \<Rightarrow> Inr (Some (eid, d)))))"

definition write_value ::
  "('d, 'z) ledger_env_scheme \<Rightarrow> ('d, 'v) cow_lib \<Rightarrow> op_context \<Rightarrow> string \<Rightarrow> string \<Rightarrow> string \<Rightarrow> string \<Rightarrow> ('d, 'v) cow_value \<Rightarrow>
     'd tx_world \<Rightarrow> 'n \<Rightarrow> (('d, 'v) cow_value, 'd, 'n) execution" where
  "write_value E C ctx c key path name v w n =
     ask (Some (cl_to_document C v)) w n (\<lambda>doc.
     ask (if name = ''put'' then ledger_put E ctx c key doc path True (tw_ledger w)
          else ledger_add E ctx c key doc path True (tw_ledger w)) w n (\<lambda>(eid, l).
       give (BoolVal (is_valid eid)) (w\<lparr>tw_ledger := l\<rparr>) n))"

definition collection_call ::
  "('d, 'z) tx_env_scheme \<Rightarrow> ('d, 'v) cow_lib \<Rightarrow> op_context \<Rightarrow> string \<Rightarrow> string \<Rightarrow> ('d, 'v) cow_value list \<Rightarrow>
     'd tx_world \<Rightarrow> 'n \<Rightarrow> (('d, 'v) cow_value, 'd, 'n) execution" where
  "collection_call E C ctx c name args w n =
     (let l = tw_ledger w
      in if name = ''count_writes'' then
           ask (Some (check_args ''Invalid arguments'' 2 [is_string, is_string] args)) w n (\<lambda>_.
           ask (count_writes E ctx c (get_string (args ! 0)) (get_string (args ! 1)) l) w n (\<lambda>k. give (IntVal (uint k)) w n))
         else if name = ''get'' then
           ask (Some (check_args ''Invalid arguments'' 1 [is_string] args)) w n (\<lambda>_.
           case parse_path (get_string (args ! 0)) of (key, path) \<Rightarrow>
           ask (read_value E ctx c key path l) w n (\<lambda>found.
             give (case found of None \<Rightarrow> NullPtr | Some (eid, d) \<Rightarrow> cl_from_document C d) w n))
         else if name = ''has_object'' then
           ask (Some (check_args_loosely 1 args)) w n (\<lambda>_.
           ask (Some (cl_unpack_string C (args ! 0))) w n (\<lambda>key.
           ask (Some (has_object E c key l)) w n (\<lambda>res. give (BoolVal res) w n)))
         else if name = ''find'' then
           ask (Some (check_args ''Invalid number of arguments'' 0 [] args)) w n (\<lambda>_.
           ask (Some (ledger_find E (tx_order E) ctx c (cl_no_predicates C) l)) w n (\<lambda>it. give (GeneratorVal it) w n))
         else if name = ''put'' \<or> name = ''add'' then
           ask (Some (check_args ''Invalid number of arguments'' 2 [is_string] args)) w n (\<lambda>_.
           case parse_path (get_string (args ! 0)) of (key, path) \<Rightarrow> write_value E C ctx c key path name (args ! 1) w n)
         else raise (RuntimeError ''failed to get member'') w n)"

definition object_call ::
  "('d, 'z) tx_env_scheme \<Rightarrow> ('d, 'v) cow_lib \<Rightarrow> op_context \<Rightarrow> string \<Rightarrow> string \<Rightarrow> string \<Rightarrow> ('d, 'v) cow_value list \<Rightarrow>
     'd tx_world \<Rightarrow> 'n \<Rightarrow> (('d, 'v) cow_value, 'd, 'n) execution" where
  "object_call E C ctx c key name args w n =
     (let l = tw_ledger w
      in if name = ''count_writes'' then
           ask (Some (check_args ''Invalid arguments'' 1 [is_string] args)) w n (\<lambda>_.
           ask (count_writes E ctx (get_string (args ! 0)) c key l) w n (\<lambda>k. give (IntVal (uint k)) w n))
         else if name = ''get'' then
           ask (Some (check_args ''Invalid arguments'' 1 [is_string] args)) w n (\<lambda>_.
           ask (read_value E ctx c key (get_string (args ! 0)) l) w n (\<lambda>found.
             case found of
               None \<Rightarrow> raise (RuntimeError ''self does not exist!'') w n
             | Some (eid, d) \<Rightarrow> give (cl_from_document C d) w n))
         else if name = ''contains'' then
           ask (Some (check_args ''Invalid arguments'' 2 [is_string, is_string] args)) w n (\<lambda>_.
           ask (read_value E ctx c key (get_string (args ! 0)) l) w n (\<lambda>found.
             give (BoolVal (case found of None \<Rightarrow> False | Some (eid, d) \<Rightarrow> cl_view C d (get_string (args ! 1)))) w n))
         else if name = ''put'' \<or> name = ''add'' then
           ask (Some (check_args ''Invalid arguments'' 2 [is_string] args)) w n (\<lambda>_.
             write_value E C ctx c key (get_string (args ! 0)) name (args ! 1) w n)
         else raise (RuntimeError (''Unknown function: self.'' @ name)) w n)"

text \<open>
  A collection inside a transaction reads from the ledger and registers what it has read; writes are only registered. Neither a missing
  object nor an invalid key stops a write here. A query is not registered.
\<close>

definition transaction_collection_call ::
  "('d, 'z) tx_env_scheme \<Rightarrow> ('d, 'v) cow_lib \<Rightarrow> runner \<Rightarrow> nat \<Rightarrow> string \<Rightarrow> string \<Rightarrow> ('d, 'v) cow_value list \<Rightarrow>
     'd tx_world \<Rightarrow> 'n \<Rightarrow> (('d, 'v) cow_value, 'd, 'n) execution" where
  "transaction_collection_call E C R p c name args w n =
     (let l = tw_ledger w; task = rn_task R; ctx = rn_context R
      in if name = ''get'' then
           ask (Some (check_args ''Invalid arguments'' 1 [is_string] args)) w n (\<lambda>_.
           let full_path = get_string (args ! 0)
           in case parse_path full_path of (key, path) \<Rightarrow>
           ask (read_value E ctx c key path l) w n (\<lambda>found.
             case found of
               None \<Rightarrow> give NullPtr w n
             | Some (eid, d) \<Rightarrow> give (cl_from_document C d) (register_op p (get_info_t task c full_path eid) w) n))
         else if name = ''check'' then
           ask (Some (check_args_loosely 2 args)) w n (\<lambda>_.
           ask (Some (cl_unpack_string C (args ! 0))) w n (\<lambda>key.
           ask (Some (rbind (arg 1 args) (cl_to_document C))) w n (\<lambda>predicates.
           ask (ledger_check E ctx c key [] predicates l) w n (\<lambda>res.
             give (BoolVal res) (register_op p (check_obj_info_t task c key predicates res) w) n))))
         else if name = ''has_object'' then
           ask (Some (check_args_loosely 1 args)) w n (\<lambda>_.
           ask (Some (cl_unpack_string C (args ! 0))) w n (\<lambda>key.
           ask (Some (has_object E c key l)) w n (\<lambda>res.
             give (BoolVal res) (register_op p (has_obj_info_t task c key res) w) n)))
         else if name = ''find'' then
           ask (Some (check_args ''Invalid number of arguments'' 0 [] args)) w n (\<lambda>_.
           ask (Some (ledger_find E (tx_order E) ctx c (cl_no_predicates C) l)) w n (\<lambda>it. give (GeneratorVal it) w n))
         else if name = ''put'' \<or> name = ''add'' then
           ask (Some (check_args ''Invalid number of arguments'' 2 [is_string] args)) w n (\<lambda>_.
           let full_path = get_string (args ! 0)
           in case parse_path full_path of (key, path) \<Rightarrow>
           ask (Some (if CHR ''.'' \<in> set full_path then has_object E c key l else Inr True)) w n (\<lambda>_.
           ask (Some (cl_to_document C (args ! 1))) w n (\<lambda>doc.
             give (BoolVal True)
               (register_op p (if name = ''put'' then put_info_t task c full_path doc else add_info_t task c full_path doc) w) n)))
         else raise (RuntimeError (''No such method TransactionCollection::'' @ name)) w n)"

section \<open>Databases and transactions\<close>

text \<open>A call on another server, inside a transaction or not.\<close>

definition call_on_peer ::
  "('d, 'v) cow_lib \<Rightarrow> ('d, 'v, 'n) program_net \<Rightarrow> runner \<Rightarrow> nat option \<Rightarrow> ('d, 'v) cow_value list \<Rightarrow> 'd tx_world \<Rightarrow> 'n \<Rightarrow> (('d, 'v) cow_value, 'd, 'n) execution" where
  "call_on_peer C N R tx args w n =
     ask (Some (check_args ''Invalid arguments'' 4 [is_string, is_string, is_string, is_list] args)) w n (\<lambda>_.
     ask (Some (cast_strings C (get_elements (args ! 3)))) w n (\<lambda>pargs.
     let peer_name = get_string (args ! 0); c = get_string (args ! 1)
     in case parse_path (get_string (args ! 2)) of (key, path) \<Rightarrow>
        (case pn_find N peer_name n of
           None \<Rightarrow> raise (RuntimeError (''Failed to find peer '' @ [CHR 0x27] @ peer_name @ [CHR 0x27] @ '' in the database module of python binding'')) w n
         | Some uid \<Rightarrow>
             let root = map_option (\<lambda>p. (m_root (tw_objects w p), m_identifier (tw_objects w p))) tx;
                 n1 = pn_call N uid c (rn_task R) key path pargs root n;
                 w1 = (case tx of None \<Rightarrow> w | Some p \<Rightarrow> set_object_of p (add_child uid) w)
             in (case pn_wait N uid w1 n1 of
                   None \<Rightarrow> None
                 | Some (Inr v, w2, n2) \<Rightarrow> give v w2 n2
                 | Some (Inl err, w2, n2) \<Rightarrow>
                     raise (RuntimeError (''Call failed in the database module of python binding: ['' @ err @ '']'')) w2 n2))))"

definition begin_transaction :: "runner \<Rightarrow> 'd tx_world \<Rightarrow> nat \<times> 'd tx_world" where
  "begin_transaction R w =
     (case init_local_transaction (rn_uid R) Serializable w of
        (p, w1) \<Rightarrow> (p, set_object_of p (init_task (rn_task R) (rn_context R)) w1))"

definition database_call ::
  "('d, 'v) cow_lib \<Rightarrow> ('d, 'v, 'n) program_net \<Rightarrow> runner \<Rightarrow> op_context \<Rightarrow> string \<Rightarrow> ('d, 'v) cow_value list \<Rightarrow> 'd tx_world \<Rightarrow> 'n \<Rightarrow>
     (('d, 'v) cow_value, 'd, 'n) execution" where
  "database_call C N R ctx name args w n =
     (let no_args = check_args ''Invalid number of arguments'' 0 [] args
      in if name = ''name'' then ask (Some no_args) w n (\<lambda>_. give (StrVal (rn_name R)) w n)
         else if name = ''init_transaction'' then
           ask (Some no_args) w n (\<lambda>_. case begin_transaction R w of (p, w1) \<Rightarrow> give (ModuleVal (TransactionMod p)) w1 n)
         else if name = ''peers'' then
           ask (Some no_args) w n (\<lambda>_. ask (Some (pn_names N n)) w n (\<lambda>names. give (ListVal (map StrVal names)) w n))
         else if name = ''call_on_peer'' then call_on_peer C N R None args w n
         else if name = ''get_collection'' then
           ask (Some (check_args ''Invalid number of arguments'' 1 [is_string] args)) w n (\<lambda>_.
             give (ModuleVal (CollectionMod ctx (get_string (args ! 0)))) w n)
         else raise (RuntimeError (''No such method Database::'' @ name)) w n)"

definition transaction_commit ::
  "('d, 'z) tx_env_scheme \<Rightarrow> ('d, 'y) bitstream_lib_scheme \<Rightarrow> ('d, 'v) cow_lib \<Rightarrow> 'n peers \<Rightarrow> nat \<Rightarrow> bool \<Rightarrow> 'd tx_world \<Rightarrow> 'n \<Rightarrow>
     (('d, 'v) cow_value, 'd, 'n) execution" where
  "transaction_commit E B C P p generate_witness w n =
     (case phase_one E B P generate_witness p w n of
        None \<Rightarrow> None
      | Some (Inl e, w1, n1) \<Rightarrow> raise e w1 n1
      | Some (Inr False, w1, n1) \<Rightarrow> give (TupleVal [BoolVal False, StrVal (m_error (tw_objects w1 p))]) w1 n1
      | Some (Inr True, w1, n1) \<Rightarrow>
          (case phase_two E B P generate_witness p w1 n1 of
             None \<Rightarrow> None
           | Some (Inl e, w2, n2) \<Rightarrow> raise e w2 n2
           | Some (Inr witness, w2, n2) \<Rightarrow> give (TupleVal [BoolVal True, if generate_witness then cl_digest C witness else NullPtr]) w2 n2))"

text \<open>The method \<open>abort\<close> of the binding, which its destructor calls too.\<close>

definition transaction_abort :: "('d, 'y) bitstream_lib_scheme \<Rightarrow> 'n peers \<Rightarrow> nat \<Rightarrow> 'd tx_world \<Rightarrow> 'n \<Rightarrow> (unit, 'd, 'n) execution" where
  "transaction_abort B P p w n =
     (let tx = tw_objects w p in if \<not> is_done tx \<and> \<not> m_is_remote tx then executor_abort B P p w n else give () w n)"

definition transaction_call ::
  "('d, 'z) tx_env_scheme \<Rightarrow> ('d, 'y) bitstream_lib_scheme \<Rightarrow> ('d, 'v) cow_lib \<Rightarrow> ('d, 'v, 'n) program_net \<Rightarrow> runner \<Rightarrow> nat \<Rightarrow> string \<Rightarrow>
     ('d, 'v) cow_value list \<Rightarrow> 'd tx_world \<Rightarrow> 'n \<Rightarrow> (('d, 'v) cow_value, 'd, 'n) execution" where
  "transaction_call E B C N R p name args w n =
     (if name = ''get_collection'' then
        ask (Some (check_args ''Invalid number of arguments'' 1 [is_string] args)) w n (\<lambda>_.
          give (ModuleVal (TransactionCollectionMod p (get_string (args ! 0)))) w n)
      else if name = ''abort'' then
        (case transaction_abort B (pn_vote N) p w n of
           None \<Rightarrow> None
         | Some (Inl e, w1, n1) \<Rightarrow> raise e w1 n1
         | Some (Inr u, w1, n1) \<Rightarrow> give NullPtr w1 n1)
      else if name = ''init_transaction'' then
        ask (Some (check_args ''Invalid number of arguments'' 0 [] args)) w n (\<lambda>_.
          give (ModuleVal (NestedTransactionMod p)) (set_object_of p (init_task (rn_task R) (rn_context R)) w) n)
      else if name = ''call_on_peer'' then call_on_peer C N R (Some p) args w n
      else if name = ''commit'' then
        (if args = [] then transaction_commit E B C (pn_vote N) p False w n
         else ask (Some (check_args ''Invalid arguments!'' 1 [is_bool] args)) w n (\<lambda>_.
                transaction_commit E B C (pn_vote N) p (args ! 0 = BoolVal True) w n))
      else raise (RuntimeError (''No such method Database::'' @ name)) w n)"

text \<open>The commit of a nested transaction has no effect of its own.\<close>

definition nested_transaction_call :: "string \<Rightarrow> 'd tx_world \<Rightarrow> 'n \<Rightarrow> (('d, 'v) cow_value, 'd, 'n) execution" where
  "nested_transaction_call name w n =
     (if name = ''commit'' then give (TupleVal [BoolVal True, NullPtr]) w n
      else raise (RuntimeError (''No such method Database::'' @ name)) w n)"

definition runs_in_tee :: "IdentityType \<Rightarrow> bool" where
  "runs_in_tee type = (type = Server)"

definition op_context_call :: "op_context \<Rightarrow> string \<Rightarrow> ('d, 'v) cow_value list \<Rightarrow> 'd tx_world \<Rightarrow> 'n \<Rightarrow> (('d, 'v) cow_value, 'd, 'n) execution" where
  "op_context_call ctx name args w n =
     (if name = ''runs_in_tee'' then
        ask (Some (check_args ''invalid number of arguments'' 0 [] args)) w n (\<lambda>_. give (BoolVal (runs_in_tee (id_type (oc_identity ctx)))) w n)
      else if name = ''called_by_program'' then
        ask (Some (check_args ''invalid number of arguments'' 0 [] args)) w n (\<lambda>_. give (BoolVal (called_by_program ctx)) w n)
      else raise (RuntimeError (''Failed to get member: '' @ name)) w n)"

fun call_function ::
  "('d, 'z) tx_env_scheme \<Rightarrow> ('d, 'y) bitstream_lib_scheme \<Rightarrow> ('d, 'v) cow_lib \<Rightarrow> ('d, 'v, 'n) program_net \<Rightarrow> runner \<Rightarrow> binding \<Rightarrow> string \<Rightarrow>
     ('d, 'v) cow_value list \<Rightarrow> 'd tx_world \<Rightarrow> 'n \<Rightarrow> (('d, 'v) cow_value, 'd, 'n) execution" where
  "call_function E B C N R (DatabaseMod ctx has_runner) name args w n = database_call C N R ctx name args w n"
| "call_function E B C N R (TransactionMod p) name args w n = transaction_call E B C N R p name args w n"
| "call_function E B C N R (NestedTransactionMod p) name args w n = nested_transaction_call name w n"
| "call_function E B C N R (CollectionMod ctx c) name args w n = collection_call E C ctx c name args w n"
| "call_function E B C N R (TransactionCollectionMod p c) name args w n = transaction_collection_call E C R p c name args w n"
| "call_function E B C N R (ObjectMod ctx c key) name args w n = object_call E C ctx c key name args w n"
| "call_function E B C N R (OpContextMod ctx) name args w n = op_context_call ctx name args w n"
| "call_function E B C N R (OpInfoMod type target) name args w n = raise (RuntimeError (''Failed to get member: '' @ name)) w n"

text \<open>The destructor of a module: a transaction that is not done is aborted, also by a transaction nested in it.\<close>

fun destroy :: "('d, 'y) bitstream_lib_scheme \<Rightarrow> ('d, 'v, 'n) program_net \<Rightarrow> binding \<Rightarrow> 'd tx_world \<Rightarrow> 'n \<Rightarrow> (unit, 'd, 'n) execution" where
  "destroy B N (TransactionMod p) w n = transaction_abort B (pn_vote N) p w n"
| "destroy B N (NestedTransactionMod p) w n = transaction_abort B (pn_vote N) p w n"
| "destroy B N _ w n = give () w n"

text \<open>The next element of a query: its key and its value, with the iterator after it; none at the end.\<close>

definition generator_next ::
  "('d, 'z) ledger_env_scheme \<Rightarrow> ('d, 'v) cow_lib \<Rightarrow> ledger \<Rightarrow> 'd list_iterator \<Rightarrow> (('d, 'v) cow_value option \<times> 'd list_iterator) result option" where
  "generator_next E C l it =
     (case list_next E l [] it of
        None \<Rightarrow> None
      | Some r \<Rightarrow> Some (rbind r (\<lambda>((eid, key, hdl), it').
          if \<not> is_valid eid then Inr (None, it')
          else rbind (event_value hdl) (\<lambda>d. Inr (Some (TupleVal [StrVal key, cl_from_document C d]), it')))))"

section \<open>The modules of policies and programs\<close>

text \<open>
  A policy acts under the empty context, for which no policy is asked; the context of the operation is only there to be looked at. The policy
  of a collection has no \<open>self\<close>.
\<close>

definition object_policy_modules :: "op_context \<Rightarrow> string \<Rightarrow> string \<Rightarrow> string \<Rightarrow> OperationType \<Rightarrow> (string \<times> binding) list" where
  "object_policy_modules ctx c key path type =
     [(''db'', DatabaseMod empty_context False), (''self'', ObjectMod empty_context c key), (''op_context'', OpContextMod ctx),
      (''op_info'', OpInfoMod type path)]"

definition collection_policy_modules :: "op_context \<Rightarrow> string \<Rightarrow> OperationType \<Rightarrow> (string \<times> binding) list" where
  "collection_policy_modules ctx path type =
     [(''db'', DatabaseMod empty_context False), (''op_context'', OpContextMod ctx), (''op_info'', OpInfoMod type path)]"

text \<open>A program runs under the name of the server and its own. \<open>tx\<close> is the transaction on another server that has called it.\<close>

definition new_runner :: "identity \<Rightarrow> identity_uid_t \<Rightarrow> string \<Rightarrow> string \<Rightarrow> taskid_t \<Rightarrow> runner" where
  "new_runner idty uid c program task =
     \<lparr>rn_task = task, rn_context = \<lparr>oc_identity = idty, oc_program = c @ ''/'' @ program\<rparr>, rn_uid = uid, rn_name = id_name idty\<rparr>"

definition program_modules ::
  "runner \<Rightarrow> string \<Rightarrow> string \<Rightarrow> (identity_uid_t \<Rightarrow> bool) \<Rightarrow> (identity_uid_t \<times> transaction_id_t) option \<Rightarrow> 'd tx_world \<Rightarrow>
     ((string \<times> binding) list \<times> 'd tx_world) result" where
  "program_modules R c program has_identity tx w =
     rbind (case tx of
              None \<Rightarrow> Inr (DatabaseMod (rn_context R) True, w)
            | Some (root, tx_id) \<Rightarrow>
                rbind (init_remote_transaction has_identity root tx_id Serializable w) (\<lambda>(p, w1).
                  Inr (TransactionMod p, set_object_of p (init_task (rn_task R) (rn_context R)) w1))) (\<lambda>(db, w2).
       Inr ([(''db'', db), (''op_context'', OpContextMod (rn_context R))]
              @ (if program \<noteq> [] then [(''self'', ObjectMod (rn_context R) c program)] else []), w2))"


section \<open>Running a program\<close>

text \<open>What the interpreter asks for, and what it gets.\<close>

datatype ('d, 'v) interpreter_action =
    Finish "('d, 'v) cow_value"
  | Fail error
  | LookUp binding string
  | Invoke binding string "('d, 'v) cow_value list"
  | Advance "'d list_iterator"
  | Release binding

datatype ('d, 'v) interpreter_reply =
    Found "('d, 'v) cow_value"
  | Element "('d, 'v) cow_value option" "'d list_iterator"
  | Released

record ('s, 'd, 'v) interpreter =
  in_next :: "'s \<Rightarrow> ('d, 'v) interpreter_action"
  in_resume :: "'s \<Rightarrow> ('d, 'v) interpreter_reply result \<Rightarrow> 's"
  in_what :: "error \<Rightarrow> string"

definition reply_with :: "('a \<Rightarrow> 'b) \<Rightarrow> ('a, 'd, 'n) execution \<Rightarrow> ('b result \<times> 'd tx_world \<times> 'n) option" where
  "reply_with f r = map_option (\<lambda>(x, w, n). (rbind x (\<lambda>v. Inr (f v)), w, n)) r"

fun perform ::
  "('d, 'z) tx_env_scheme \<Rightarrow> ('d, 'y) bitstream_lib_scheme \<Rightarrow> ('d, 'v) cow_lib \<Rightarrow> ('d, 'v, 'n) program_net \<Rightarrow> runner \<Rightarrow>
     ('d, 'v) interpreter_action \<Rightarrow> 'd tx_world \<Rightarrow> 'n \<Rightarrow> (('d, 'v) interpreter_reply, 'd, 'n) execution" where
  "perform E B C N R (LookUp m name) w n = Some (rbind (get_member R m w name) (\<lambda>v. Inr (Found v)), w, n)"
| "perform E B C N R (Invoke m name args) w n = reply_with Found (call_function E B C N R m name args w n)"
| "perform E B C N R (Advance it) w n = ask (generator_next E C (tw_ledger w) it) w n (\<lambda>(v, it'). give (Element v it') w n)"
| "perform E B C N R (Release m) w n = reply_with (\<lambda>_. Released) (destroy B N m w n)"
| "perform E B C N R (Finish v) w n = give (Found v) w n"
| "perform E B C N R (Fail e) w n = raise e w n"

partial_function (option) execute ::
  "('d, 'z) tx_env_scheme \<Rightarrow> ('d, 'y) bitstream_lib_scheme \<Rightarrow> ('d, 'v) cow_lib \<Rightarrow> ('d, 'v, 'n) program_net \<Rightarrow>
     ('s, 'd, 'v) interpreter \<Rightarrow> runner \<Rightarrow> 's \<Rightarrow> 'd tx_world \<Rightarrow> 'n \<Rightarrow> (('d, 'v) cow_value, 'd, 'n) execution" where
  "execute E B C N I R s w n =
     (case in_next I s of
        Finish v \<Rightarrow> give v w n
      | Fail e \<Rightarrow> raise e w n
      | action \<Rightarrow>
          (case perform E B C N R action w n of
             None \<Rightarrow> None
           | Some (r, w', n') \<Rightarrow> execute E B C N I R (in_resume I s r) w' n'))"

text \<open>A program and the task it is.\<close>

record ('d, 'v) program_task =
  pt_runner :: runner
  pt_errors :: string
  pt_result :: "('d, 'v) cow_value"
  pt_done :: bool

record ('d, 'v) task_manager =
  tm_counter :: taskid_t
  tm_tasks :: "(taskid_t \<times> ('d, 'v) program_task) list"

definition next_identifier :: "('d, 'v) task_manager \<Rightarrow> taskid_t \<times> ('d, 'v) task_manager" where
  "next_identifier M = (tm_counter M, M\<lparr>tm_counter := tm_counter M + 1\<rparr>)"

definition register_task :: "('d, 'v) program_task \<Rightarrow> ('d, 'v) task_manager \<Rightarrow> ('d, 'v) task_manager" where
  "register_task t M =
     (let tid = rn_task (pt_runner t) in if map_of (tm_tasks M) tid \<noteq> None then M else M\<lparr>tm_tasks := (tid, t) # tm_tasks M\<rparr>)"

definition unregister_task :: "taskid_t \<Rightarrow> ('d, 'v) task_manager \<Rightarrow> ('d, 'v) task_manager" where
  "unregister_task tid M = M\<lparr>tm_tasks := AList.delete tid (tm_tasks M)\<rparr>"

definition get_task :: "taskid_t \<Rightarrow> ('d, 'v) task_manager \<Rightarrow> ('d, 'v) program_task result" where
  "get_task tid M = (case map_of (tm_tasks M) tid of None \<Rightarrow> Inl (RuntimeError ''No such task'') | Some t \<Rightarrow> Inr t)"

definition mark_done :: "('d, 'v) program_task \<Rightarrow> ('d, 'v) program_task result" where
  "mark_done t = (if pt_done t then Inl (RuntimeError ''Can't mark done twice!'') else Inr (t\<lparr>pt_done := True\<rparr>))"

text \<open>Only an error of the system ends the process; any other error is kept for the caller.\<close>

definition after_work :: "(error \<Rightarrow> string) \<Rightarrow> ('d, 'v) cow_value result \<Rightarrow> ('d, 'v) program_task \<Rightarrow> ('d, 'v) program_task result" where
  "after_work what r t =
     (case r of
        Inr v \<Rightarrow> mark_done (t\<lparr>pt_result := v\<rparr>)
      | Inl (Fatal e) \<Rightarrow> Inl (Fatal e)
      | Inl e \<Rightarrow> mark_done (t\<lparr>pt_errors := (if pt_errors t \<noteq> [] then pt_errors t @ [CHR 0x0A] @ what e else what e)\<rparr>))"

text \<open>
  \<open>run\<close> switches to the thread of the program. Where the program waits for another server, the thread is left and resumed by
  \<open>handle_op_response\<close>; both are inside \<open>pn_wait\<close>. So a run ends with the program.
\<close>

definition run_program ::
  "('d, 'z) tx_env_scheme \<Rightarrow> ('d, 'y) bitstream_lib_scheme \<Rightarrow> ('d, 'v) cow_lib \<Rightarrow> ('d, 'v, 'n) program_net \<Rightarrow>
     ('s, 'd, 'v) interpreter \<Rightarrow> 's \<Rightarrow> ('d, 'v) program_task \<Rightarrow> ('d, 'v) task_manager \<Rightarrow> 'd tx_world \<Rightarrow> 'n \<Rightarrow>
     (('d, 'v) program_task \<times> ('d, 'v) task_manager, 'd, 'n) execution" where
  "run_program E B C N I s t M w n =
     (case execute E B C N I (pt_runner t) s w n of
        None \<Rightarrow> None
      | Some (r, w1, n1) \<Rightarrow>
          Some (rbind (after_work (in_what I) r t) (\<lambda>t'. Inr (t', unregister_task (rn_task (pt_runner t)) M)), w1, n1))"

end
