(* ===== verification/Program_Transactions.thy ===== *)
theory Program_Transactions
  imports Program_Bindings Transaction_System
begin

text \<open>
  What the modules of programs promise. A call with the wrong arguments has no effect, and what a call returns has the type of the function. Any number of programs that use transactions, with their calls in any order, are serializable: every call of a
  module is a sequence of calls of the transaction system, so that the theorems about the latter carry over.
\<close>

section \<open>Types\<close>

text \<open>The arguments a function takes, and the values it returns.\<close>

definition is_commit_result :: "('d, 'v) cow_value \<Rightarrow> bool" where
  "is_commit_result v = (case v of TupleVal [BoolVal b, x] \<Rightarrow> b \<or> is_string x | _ \<Rightarrow> False)"

definition is_u32 :: "('d, 'v) cow_value \<Rightarrow> bool" where
  "is_u32 v = (case v of IntVal i \<Rightarrow> 0 \<le> i \<and> i < 2 ^ 32 | _ \<Rightarrow> False)"

definition typed_args :: "(('d, 'v) cow_value \<Rightarrow> bool) list \<Rightarrow> ('d, 'v) cow_value list \<Rightarrow> bool" where
  "typed_args ts args \<longleftrightarrow> length args = length ts \<and> list_all2 (\<lambda>t v. t v) ts args"

text \<open>The tests for existence and conditions: the right number of arguments, or a string before anything else.\<close>

definition loosely_typed :: "nat \<Rightarrow> ('d, 'v) cow_value list \<Rightarrow> bool" where
  "loosely_typed k args \<longleftrightarrow> k \<le> length args \<and> (length args = k \<or> is_string (hd args))"

text \<open>The calls whose behaviour is defined: no null pointers, and no argument is read that is not there.\<close>

definition defined_call :: "string \<Rightarrow> ('d, 'v) cow_value list \<Rightarrow> bool" where
  "defined_call name args \<longleftrightarrow> NullPtr \<notin> set args \<and> (name = ''has_object'' \<longrightarrow> args \<noteq> []) \<and> (name = ''check'' \<longrightarrow> 2 \<le> length args)"

fun accepts :: "binding \<Rightarrow> string \<Rightarrow> ('d, 'v) cow_value list \<Rightarrow> bool" where
  "accepts (DatabaseMod ctx hr) name args =
     (if name = ''get_collection'' then typed_args [is_string] args
      else if name = ''call_on_peer'' then typed_args [is_string, is_string, is_string, is_list] args
      else name \<in> {''name'', ''init_transaction'', ''peers''} \<and> args = [])"
| "accepts (TransactionMod p) name args =
     (if name = ''get_collection'' then typed_args [is_string] args
      else if name = ''call_on_peer'' then typed_args [is_string, is_string, is_string, is_list] args
      else if name = ''commit'' then args = [] \<or> typed_args [is_bool] args
      else name = ''abort'' \<or> name = ''init_transaction'' \<and> args = [])"
| "accepts (NestedTransactionMod p) name args = (name = ''commit'')"
| "accepts (CollectionMod ctx c) name args =
     (if name = ''count_writes'' then typed_args [is_string, is_string] args
      else if name = ''get'' then typed_args [is_string] args
      else if name = ''has_object'' then loosely_typed 1 args
      else if name = ''find'' then args = []
      else name \<in> {''put'', ''add''} \<and> typed_args [is_string, \<lambda>_. True] args)"
| "accepts (TransactionCollectionMod p c) name args =
     (if name = ''get'' then typed_args [is_string] args
      else if name = ''has_object'' then loosely_typed 1 args
      else if name = ''check'' then loosely_typed 2 args
      else if name = ''find'' then args = []
      else name \<in> {''put'', ''add''} \<and> typed_args [is_string, \<lambda>_. True] args)"
| "accepts (ObjectMod ctx c key) name args =
     (if name \<in> {''count_writes'', ''get''} then typed_args [is_string] args
      else if name = ''contains'' then typed_args [is_string, is_string] args
      else name \<in> {''put'', ''add''} \<and> typed_args [is_string, \<lambda>_. True] args)"
| "accepts (OpContextMod ctx) name args = (name \<in> {''runs_in_tee'', ''called_by_program''} \<and> args = [])"
| "accepts (OpInfoMod type target) name args = False"

fun returns :: "binding \<Rightarrow> string \<Rightarrow> ('d, 'v) cow_value \<Rightarrow> bool" where
  "returns (DatabaseMod ctx hr) name v =
     (if name = ''name'' then is_string v
      else if name = ''init_transaction'' then (case v of ModuleVal (TransactionMod _) \<Rightarrow> True | _ \<Rightarrow> False)
      else if name = ''peers'' then is_list v \<and> list_all is_string (get_elements v)
      else if name = ''get_collection'' then (case v of ModuleVal (CollectionMod ctx' _) \<Rightarrow> ctx' = ctx | _ \<Rightarrow> False)
      else True)"
| "returns (TransactionMod p) name v =
     (if name = ''get_collection'' then (case v of ModuleVal (TransactionCollectionMod p' _) \<Rightarrow> p' = p | _ \<Rightarrow> False)
      else if name = ''abort'' then v = NullPtr
      else if name = ''init_transaction'' then v = ModuleVal (NestedTransactionMod p)
      else if name = ''commit'' then is_commit_result v
      else True)"
| "returns (NestedTransactionMod p) name v = is_commit_result v"
| "returns (CollectionMod ctx c) name v =
     (if name = ''count_writes'' then is_u32 v
      else if name \<in> {''has_object'', ''put'', ''add''} then is_bool v
      else if name = ''find'' then (case v of GeneratorVal it \<Rightarrow> li_context it = ctx \<and> li_collection it = c | _ \<Rightarrow> False)
      else True)"
| "returns (TransactionCollectionMod p c) name v =
     (if name \<in> {''check'', ''has_object'', ''put'', ''add''} then is_bool v
      else if name = ''find'' then (case v of GeneratorVal it \<Rightarrow> li_collection it = c | _ \<Rightarrow> False)
      else True)"
| "returns (ObjectMod ctx c key) name v =
     (if name = ''count_writes'' then is_u32 v else if name \<in> {''contains'', ''put'', ''add''} then is_bool v else True)"
| "returns (OpContextMod ctx) name v = is_bool v"
| "returns (OpInfoMod type target) name v = True"

lemma typed_args_simps [simp]:
  "typed_args [] args \<longleftrightarrow> args = []" "typed_args (t # ts) [] \<longleftrightarrow> False" "typed_args (t # ts) (v # vs) \<longleftrightarrow> t v \<and> typed_args ts vs"
  by (auto simp: typed_args_def)

lemma all_typed_True: "all_typed ts vs = Inr True \<Longrightarrow> length ts \<le> length vs \<Longrightarrow> list_all2 (\<lambda>t v. t v) ts (take (length ts) vs)"
  by (induction ts vs rule: all_typed.induct) (auto split: if_splits)

lemma check_args_ok:
  assumes "check_args err n ts args = Inr u"
  shows "length args = n" "length ts = n \<Longrightarrow> typed_args ts args" "length ts = 1 \<Longrightarrow> n = 2 \<Longrightarrow> typed_args (ts @ [\<lambda>_. True]) args"
  using assms all_typed_True [of ts args]
  by (auto simp: check_args_def typed_args_def rbind_eq_Inr length_Suc_conv numeral_2_eq_2 split: if_splits)

lemma check_args_loosely_ok:
  "check_args_loosely k args = Inr u \<Longrightarrow> 0 < k \<Longrightarrow> args \<noteq> []"
  "check_args_loosely k args = Inr u \<Longrightarrow> k \<le> length args \<Longrightarrow> loosely_typed k args"
  "check_args_loosely (Suc 0) args = Inr u \<Longrightarrow> loosely_typed (Suc 0) args"
  by (auto simp: check_args_loosely_def loosely_typed_def Suc_le_eq split: list.splits if_splits)

lemmas outcome_simps = ask_eq_Some give_def raise_def Let_def is_string_def is_bool_def is_u32_def is_commit_result_def

lemma strict_args:
  "check_args err n [t] args = Inr u \<Longrightarrow> n = 1 \<Longrightarrow> typed_args [t] args"
  "check_args err n [t1, t2] args = Inr u \<Longrightarrow> n = 2 \<Longrightarrow> typed_args [t1, t2] args"
  "check_args err n [t] args = Inr u \<Longrightarrow> n = 2 \<Longrightarrow> typed_args [t, \<lambda>_. True] args"
  "check_args err n [t1, t2, t3, t4] args = Inr u \<Longrightarrow> n = 4 \<Longrightarrow> typed_args [t1, t2, t3, t4] args"
  "check_args err 0 [] args = Inr u \<Longrightarrow> args = []"
  by (auto dest: check_args_ok(2) check_args_ok(3) [where ts = "[t]", simplified] check_args_ok(1))

lemma uint_u32 [simp]: "uint (k :: u32) < 4294967296"
  using uint_bounded [of k] by simp

definition typed_outcome ::
  "bool \<Rightarrow> (('d, 'v) cow_value \<Rightarrow> bool) \<Rightarrow> 'd tx_world \<Rightarrow> 'n \<Rightarrow> ('d, 'v) cow_value result \<times> 'd tx_world \<times> 'n \<Rightarrow> bool" where
  "typed_outcome accepted T w n out \<longleftrightarrow>
     (case out of
        (Inl e, w', n') \<Rightarrow> accepted \<or> w' = w \<and> n' = n
      | (Inr v, w', n') \<Rightarrow> accepted \<and> T v)"

lemma typed_outcome_simps [simp]:
  "typed_outcome A T w n (Inl e, w', n') \<longleftrightarrow> A \<or> w' = w \<and> n' = n" "typed_outcome A T w n (Inr v, w', n') \<longleftrightarrow> A \<and> T v"
  by (simp_all add: typed_outcome_def)

lemma typed_outcome_accepted [simp]: "typed_outcome True T w n out \<longleftrightarrow> (\<forall>v w' n'. out = (Inr v, w', n') \<longrightarrow> T v)"
  by (cases out) (auto simp: typed_outcome_def split: sum.splits)

lemma ask_args:
  assumes "ask (Some c) w n f = Some out" "\<And>u. c = Inr u \<Longrightarrow> A" "\<And>u v w' n'. A \<Longrightarrow> f u = Some (Inr v, w', n') \<Longrightarrow> T v"
  shows "typed_outcome A T w n out"
  using assms by (cases c; cases out; cases "fst out") auto

lemma ask_value:
  assumes "ask r w n f = Some (Inr v, w', n')" "\<And>x. r = Some (Inr x) \<Longrightarrow> f x = Some (Inr v, w', n') \<Longrightarrow> P"
  shows P
  using assms by (auto simp: ask_eq_Some)

lemma give_value [simp]: "give v w n = Some (Inr v', w', n') \<longleftrightarrow> v' = v \<and> w' = w \<and> n' = n" "raise e w n \<noteq> Some (Inr v', w', n')"
  by (auto simp: give_def raise_def)

lemma write_value_typed: "write_value E C ctx c key path name v w n = Some (Inr x, w', n') \<Longrightarrow> is_bool x"
  by (auto simp: write_value_def is_bool_def elim!: ask_value)

lemma ledger_find_fields: "ledger_find E ord ctx c preds l = Inr it \<Longrightarrow> li_context it = ctx \<and> li_collection it = c"
  by (auto simp: ledger_find_def new_list_iterator_def rbind_eq_Inr split: option.splits if_splits)

lemma if_outcome: "(if b then x else y) = Some out \<Longrightarrow> (b \<Longrightarrow> x = Some out \<Longrightarrow> P) \<Longrightarrow> (\<not> b \<Longrightarrow> y = Some out \<Longrightarrow> P) \<Longrightarrow> P"
  by (simp split: if_splits)

lemma value_types [simp]: "is_bool (BoolVal b)" "is_string (StrVal s)" "is_list (ListVal vs)" "is_u32 (IntVal (uint (k :: u32)))"
  "is_commit_result (TupleVal [BoolVal True, x])" "is_commit_result (TupleVal [BoolVal False, StrVal s])"
  by (simp_all add: is_bool_def is_string_def is_list_def is_u32_def is_commit_result_def)

lemmas typing_rules = ledger_find_fields write_value_typed raise_def

lemma collection_typed:
  "collection_call E C ctx c name args w n = Some out \<Longrightarrow>
     typed_outcome (accepts (CollectionMod ctx c) name args) (returns (CollectionMod ctx c) name) w n out"
  unfolding collection_call_def Let_def
  by (elim if_outcome disjE; (erule ask_args)?; ((simp add: strict_args check_args_loosely_ok; fail)
        | (auto simp: typing_rules elim!: ask_value split: prod.splits)))

lemma object_typed:
  "object_call E C ctx c key name args w n = Some out \<Longrightarrow>
     typed_outcome (accepts (ObjectMod ctx c key) name args) (returns (ObjectMod ctx c key) name) w n out"
  unfolding object_call_def Let_def
  by (elim if_outcome disjE; (erule ask_args)?; ((simp add: strict_args check_args_loosely_ok; fail)
        | (auto simp: typing_rules elim!: ask_value split: prod.splits)))

lemma ask_more:
  assumes "ask r w n f = Some out" "\<And>x. r = Some (Inr x) \<Longrightarrow> f x = Some out \<Longrightarrow> typed_outcome A T w n out"
  shows "typed_outcome A T w n out"
  using assms by (auto simp: ask_eq_Some)

lemma arg_ok: "rbind (arg i args) f = Inr x \<Longrightarrow> i < length args"
  by (simp add: arg_def split: if_splits)

lemma transaction_collection_typed:
  assumes "transaction_collection_call E C R p c name args w n = Some out"
  shows "typed_outcome (accepts (TransactionCollectionMod p c) name args) (returns (TransactionCollectionMod p c) name) w n out"
proof (cases "name = ''check''")
  case True
  have "check_args_loosely 2 args = Inr () \<Longrightarrow> rbind (arg (Suc 0) args) (cl_to_document C) = Inr x \<Longrightarrow> loosely_typed 2 args" for x
    using check_args_loosely_ok(2) [of 2 args] arg_ok [of "Suc 0" args "cl_to_document C" x] by auto
  with True assms show ?thesis
    unfolding transaction_collection_call_def Let_def
    by simp (erule ask_more, erule ask_more, erule ask_args, auto elim!: ask_value)
next
  case False
  with assms show ?thesis
    unfolding transaction_collection_call_def Let_def
    by (simp only: if_False) (elim if_outcome disjE; (erule ask_args)?; ((simp add: strict_args check_args_loosely_ok; fail)
        | (auto simp: typing_rules elim!: ask_value split: prod.splits option.splits)))
qed

lemma call_on_peer_typed:
  assumes "call_on_peer C N R tx args w n = Some out" "\<And>v. T v"
  shows "typed_outcome (typed_args [is_string, is_string, is_string, is_list] args) T w n out"
  using assms(1) unfolding call_on_peer_def by (rule ask_args) (simp_all add: strict_args assms(2))

lemma database_typed:
  "database_call C N R ctx name args w n = Some out \<Longrightarrow>
     typed_outcome (accepts (DatabaseMod ctx hr) name args) (returns (DatabaseMod ctx hr) name) w n out"
  unfolding database_call_def Let_def
  by (elim if_outcome; (erule ask_args)?; ((simp add: strict_args call_on_peer_typed; fail)
        | (auto simp: typing_rules get_elements_def list_all_iff elim!: ask_value split: prod.splits)))

lemma commit_typed: "transaction_commit E B C P p gw w n = Some (Inr v, w', n') \<Longrightarrow> is_commit_result v"
  by (auto simp: transaction_commit_def split: option.splits sum.splits bool.splits)

lemma transaction_typed:
  "transaction_call E B C N R p name args w n = Some out \<Longrightarrow>
     typed_outcome (accepts (TransactionMod p) name args) (returns (TransactionMod p) name) w n out"
  unfolding transaction_call_def
  by (elim if_outcome; (erule ask_args)?; ((simp add: strict_args call_on_peer_typed; fail)
        | (auto simp: typing_rules commit_typed give_def elim!: ask_value split: option.splits sum.splits)))

lemma op_context_typed:
  "op_context_call ctx name args w n = Some out \<Longrightarrow>
     typed_outcome (accepts (OpContextMod ctx) name args) (returns (OpContextMod ctx) name) w n out"
  unfolding op_context_call_def
  by (elim if_outcome; (erule ask_args)?; ((simp add: strict_args; fail) | (auto simp: raise_def)))

text \<open>
  Property C31. The modules of programs are well typed. Take a call whose arguments are no null pointers, and that has an argument when it
  tests for existence and two when it tests a condition; what other calls do is not defined. When the call is not given the arguments its
  function takes, it fails and changes nothing, neither the ledgers nor the transactions nor other servers; and whatever a call returns has the type of the function: a truth value for writes
  and tests, a 32-bit number for a count, a pair for a commit whose second part is a message when the commit has failed, a collection of the same
  transaction and under the same context, and so on. The tests for existence and conditions take the right number of arguments of any type,
  and more of them when the first is a string.
\<close>

theorem program_calls_typed:
  assumes "call_function E B C N R m name args w n = Some out" and "defined_call name args"
  shows "typed_outcome (accepts m name args) (returns m name) w n out"
proof (cases m)
  case (NestedTransactionMod p)
  with assms(1) show ?thesis by (auto simp: nested_transaction_call_def give_def raise_def split: if_splits)
next
  case (OpInfoMod type target)
  with assms(1) show ?thesis by (auto simp: raise_def)
qed (use assms(1) collection_typed object_typed transaction_collection_typed database_typed transaction_typed op_context_typed in
  \<open>simp_all del: accepts.simps returns.simps\<close>)

section \<open>Calls of the transaction system\<close>

lemma tx_steps_trans: "tx_steps E w1 h2 w2 \<Longrightarrow> tx_steps E w0 h1 w1 \<Longrightarrow> tx_steps E w0 (h1 @ h2) w2"
proof (induction rule: tx_steps.induct)
  case (step hist w cmd r w')
  then show ?case using tx_steps.step [of E w0 "h1 @ hist" w cmd r w'] by simp
qed simp

lemma tx_one_step: "command_ok E w cmd \<Longrightarrow> \<not> waits_for_itself w cmd \<Longrightarrow> tx_step E cmd w = Some (r, w') \<Longrightarrow> tx_steps E w (committed_by cmd r w) w'"
  using tx_steps.step [OF tx_steps.start, of E w cmd r w'] by simp

lemma set_object_of_update: "set_object_of p f w = update_object p (f (tw_objects w p)) w"
  by (simp add: set_object_of_def update_object_def)

lemma begin_steps:
  assumes "map_of (tw_transactions w) (rn_uid R, tw_id_counter w) = None" "begin_transaction R w = (p, w')"
  shows "tx_steps E w [] w'"
  using tx_one_step [of E w "TxBegin (rn_uid R) Serializable (rn_task R) (rn_context R)"] assms
  by (auto simp: begin_transaction_def set_object_of_update split: prod.splits)

lemma register_steps:
  assumes "command_ok E w (TxRegister p op)"
  shows "tx_steps E w [] (register_op p op w)"
  using tx_one_step [OF assms, of "Inr Registered"] by (simp add: register_op_def set_object_of_update)

definition local_transaction :: "nat \<Rightarrow> 'd tx_world \<Rightarrow> bool" where
  "local_transaction p w \<longleftrightarrow> p < tw_next_object w \<and> \<not> m_is_remote (tw_objects w p) \<and> m_children (tw_objects w p) = []"

lemma executor_abort_local:
  assumes "local_transaction p w"
  shows "executor_abort B P p w n = map_option (\<lambda>(r, w'). (r, w', n)) (tx_call p abort w)"
  using assms by (auto simp: executor_abort_def local_transaction_def Let_def split: option.splits prod.splits)

lemma abort_steps:
  assumes "local_transaction p w" "transaction_abort B P p w n = Some (r, w', n')"
  shows "tx_steps E w [] w'"
proof (cases "is_done (tw_objects w p)")
  case True
  with assms(2) show ?thesis by (auto simp: transaction_abort_def give_def intro: tx_steps.start)
next
  case False
  with assms have "tx_call p abort w = Some (r, w')"
    using executor_abort_local [OF assms(1), of B P n] by (auto simp: transaction_abort_def local_transaction_def)
  then have "tx_step E (TxAbort p) w = Some (rbind r (\<lambda>_. Inr Discarded), w')" by (simp add: map_reply_def)
  from tx_one_step [OF _ _ this] assms(1) show ?thesis by (simp add: local_transaction_def)
qed

text \<open>Two transactions with the same requests.\<close>

definition same_requests :: "'d transaction \<Rightarrow> 'd transaction \<Rightarrow> bool" where
  "same_requests tx tx' \<longleftrightarrow> m_isolation tx' = m_isolation tx \<and> m_op_contexts tx' = m_op_contexts tx \<and> m_ops tx' = m_ops tx"

lemma same_requests_serial:
  "list_all2 same_requests hist hist' \<Longrightarrow> fold apply_requests hist' H = fold apply_requests hist H \<and> serial_reads E R H hist' = serial_reads E R H hist"
  by (induction arbitrary: H rule: list_all2_induct) (simp_all add: same_requests_def apply_requests_def)

text \<open>The commits a program has been told of: the transactions as they were when it called for the commit.\<close>

definition committed_as :: "nat \<Rightarrow> ('d, 'v) cow_value result \<Rightarrow> 'd tx_world \<Rightarrow> 'd transaction list" where
  "committed_as p r w = (case r of Inr (TupleVal [BoolVal True, _]) \<Rightarrow> [tw_objects w p] | _ \<Rightarrow> [])"

lemma committed_as_simps [simp]:
  "committed_as p (Inl e) w = []" "committed_as p (Inr (TupleVal [BoolVal b, x])) w = (if b then [tw_objects w p] else [])"
  by (simp_all add: committed_as_def)

definition can_commit :: "('d, 'z) tx_env_scheme \<Rightarrow> nat \<Rightarrow> 'd tx_world \<Rightarrow> bool" where
  "can_commit E p w \<longleftrightarrow> local_transaction p w \<and> no_self_block (tw_objects w p) \<and> can_allocate (tl_blocks (tw_tx_ledger w)) \<and>
     unat (m_next_page_no (m_blocks (tw_ledger w))) + NUM_SHARDS < 2 ^ 32 - 1 \<and> record_fits E (tw_objects w p) (tw_ledger w)"

lemma phase_one_local:
  assumes inv: "tx_inv E H w" and ok: "can_commit E p w"
  obtains (wrong) e where "phase_one E B P gw p w n = Some (Inl e, w, n)"
  | (no) w1 where "phase_one E B P gw p w n = Some (Inr False, w1, n)" "tx_steps E w [] w1"
  | (yes) w1 where "phase_one E B P gw p w n = Some (Inr True, w1, n)" "tx_steps E w [] w1" "tx_inv E H w1" "vote_result p w True w1"
proof -
  have p: "p < tw_next_object w" "\<not> m_is_remote (tw_objects w p)" "m_children (tw_objects w p) = []" and free: "no_self_block (tw_objects w p)"
    using ok by (simp_all add: can_commit_def local_transaction_def)
  note one = phase_one_def [of E B P gw p w n] p(2,3)
  show thesis
  proof (cases "m_state (tw_objects w p) = Pending")
    case False
    then show thesis using one wrong_state(1) [of w p E gw] by (intro wrong) (simp add: is_distributed_def)
  next
    case True
    from prepare_ok [OF inv p(1) free True] obtain b w1 where b: "tx_call p (prepare E gw) w = Some (Inr b, w1)" "tx_inv E H w1" "vote_result p w b w1"
      by blast
    then have steps: "tx_steps E w [] w1"
      using tx_one_step [of E w "TxPrepare p gw"] p(1) free by (simp add: map_reply_def)
    show thesis
    proof (cases b)
      case True
      with b steps one show thesis by (intro yes) (simp_all add: is_distributed_def)
    next
      case False
      then have "local_transaction p w1" "m_state (tw_objects w1 p) = Aborted"
        using b(3) p by (simp_all add: vote_result_def local_transaction_def)
      then have "executor_abort B P p w1 n = Some (Inr (), w1, n)" by (simp add: executor_abort_local wrong_state(4))
      with False b(1) steps one show thesis by (intro no) (simp_all add: is_distributed_def)
    qed
  qed
qed

lemma phase_two_local:
  assumes inv: "tx_inv E H w1" and vote: "vote_result p w True w1" and ok: "can_commit E p w"
  obtains wit w2 where "phase_two E B P gw p w1 n = Some (Inr wit, w2, n)" "tx_steps E w1 [tw_objects w1 p] w2"
    "same_requests (tw_objects w p) (tw_objects w1 p)"
proof -
  let ?tx = "tw_objects w p" and ?tx1 = "tw_objects w1 p"
  have same: "same_request (?tx\<lparr>m_state := Prepared\<rparr>) ?tx1" and st: "m_state ?tx1 = Prepared" using vote by (simp_all add: vote_result_def)
  note fields = same_request_fields [OF same]
  have "command_ok E w1 (TxCommit p gw)"
    using ok vote fields
    by (simp add: can_commit_def local_transaction_def vote_result_def record_fits_def commit_op_sets_def cong: sum.case_cong)
  moreover from commit_ok [OF inv this st] obtain wit w2 where w2: "tx_call p (commit E gw) w1 = Some (Inr wit, w2)" by blast
  ultimately have "tx_steps E w1 [?tx1] w2" using tx_one_step [of E w1 "TxCommit p gw"] by (simp add: map_reply_def)
  moreover have "phase_two E B P gw p w1 n = Some (Inr wit, w2, n)"
    using w2 ok vote by (simp add: phase_two_def can_commit_def local_transaction_def vote_result_def)
  ultimately show thesis using fields by (intro that) (simp_all add: same_requests_def)
qed

lemma commit_steps:
  assumes inv: "tx_inv E H w" and ok: "can_commit E p w" and run: "transaction_commit E B C P p gw w n = Some (r, w', n')"
  shows "\<exists>hist. tx_steps E w hist w' \<and> list_all2 same_requests (committed_as p r w) hist"
proof (rule phase_one_local [OF inv ok, of B P gw n])
  fix w1
  assume w1: "phase_one E B P gw p w n = Some (Inr True, w1, n)" "tx_steps E w [] w1" "tx_inv E H w1" "vote_result p w True w1"
  from phase_two_local [OF w1(3,4) ok] obtain wit w2 where w2: "phase_two E B P gw p w1 n = Some (Inr wit, w2, n)"
    "tx_steps E w1 [tw_objects w1 p] w2" "same_requests (tw_objects w p) (tw_objects w1 p)" .
  with tx_steps_trans [OF w2(2) w1(2)] w1(1) run show ?thesis
    by (intro exI [of _ "[tw_objects w1 p]"]) (auto simp: transaction_commit_def give_def)
qed (use run in \<open>auto simp: transaction_commit_def give_def raise_def intro!: exI [of _ "[]"] tx_steps.start\<close>)

section \<open>Programs\<close>

text \<open>
  The calls of a program the development speaks about. Transactions stay on one server. Outside of a transaction there are only reads. Inside,
  there are no queries, and a read finds an object: the code does not register the others. A transaction that is committed does not wait for itself. The
  bounds are those of the transaction system: identifiers do not repeat, and what is written is valid, has no policy, and fits.
\<close>

definition may_register :: "('d, 'z) tx_env_scheme \<Rightarrow> runner \<Rightarrow> nat \<Rightarrow> 'd tx_world \<Rightarrow> bool" where
  "may_register E R p w \<longleftrightarrow>
     (let tx = tw_objects w p
      in p < tw_next_object w \<and> m_state tx = Pending \<and> m_isolation tx = Serializable \<and> length (m_ops tx) < MAX_OPS \<and>
         (case map_of (m_op_contexts tx) (rn_task R) of None \<Rightarrow> False | Some ctx \<Rightarrow> context_valid ctx))"

definition fits_context :: "('d, 'z) tx_env_scheme \<Rightarrow> runner \<Rightarrow> nat \<Rightarrow> 'd operation_info_t \<Rightarrow> 'd tx_world \<Rightarrow> bool" where
  "fits_context E R p op w \<longleftrightarrow>
     (case map_of (m_op_contexts (tw_objects w p)) (rn_task R) of None \<Rightarrow> False | Some ctx \<Rightarrow> request_fits E (context_to_string ctx) op)"

definition put_allowed :: "('d, 'z) tx_env_scheme \<Rightarrow> ('d, 'v) cow_lib \<Rightarrow> runner \<Rightarrow> nat \<Rightarrow> string \<Rightarrow> ('d, 'v) cow_value list \<Rightarrow> 'd tx_world \<Rightarrow> bool" where
  "put_allowed E C R p c args w \<longleftrightarrow>
     (case args of
        [StrVal key, v] \<Rightarrow>
          (case cl_to_document C v of
             Inl e \<Rightarrow> True
           | Inr doc \<Rightarrow> request_ok E Serializable (put_info_t (rn_task R) c key doc) \<and> fits_context E R p (put_info_t (rn_task R) c key doc) w)
      | _ \<Rightarrow> True)"

definition key_allowed :: "('d, 'v) cow_lib \<Rightarrow> ('d, 'v) cow_value list \<Rightarrow> bool" where
  "key_allowed C args \<longleftrightarrow> (case args of [] \<Rightarrow> True | v # _ \<Rightarrow> (case cl_unpack_string C v of Inl e \<Rightarrow> True | Inr key \<Rightarrow> dot_free key))"

definition get_finds :: "('d, 'z) tx_env_scheme \<Rightarrow> runner \<Rightarrow> string \<Rightarrow> ('d, 'v) cow_value list \<Rightarrow> 'd tx_world \<Rightarrow> bool" where
  "get_finds E R c args w \<longleftrightarrow>
     (case args of
        [StrVal full_path] \<Rightarrow>
          (case parse_path full_path of (key, path) \<Rightarrow> read_value E (rn_context R) c key path (tw_ledger w) \<noteq> Some (Inr None))
      | _ \<Rightarrow> True)"

fun invoke_ok :: "('d, 'z) tx_env_scheme \<Rightarrow> ('d, 'v) cow_lib \<Rightarrow> runner \<Rightarrow> binding \<Rightarrow> string \<Rightarrow> ('d, 'v) cow_value list \<Rightarrow> 'd tx_world \<Rightarrow> bool" where
  "invoke_ok E C R (DatabaseMod ctx hr) name args w \<longleftrightarrow>
     name \<noteq> ''call_on_peer'' \<and> (name = ''init_transaction'' \<longrightarrow> map_of (tw_transactions w) (rn_uid R, tw_id_counter w) = None)"
| "invoke_ok E C R (TransactionMod p) name args w \<longleftrightarrow>
     name \<noteq> ''call_on_peer'' \<and> local_transaction p w \<and> (name = ''commit'' \<longrightarrow> can_commit E p w) \<and>
     (name = ''init_transaction'' \<longrightarrow> map_of (m_op_contexts (tw_objects w p)) (rn_task R) \<noteq> None)"
| "invoke_ok E C R (TransactionCollectionMod p c) name args w \<longleftrightarrow>
     may_register E R p w \<and> name \<noteq> ''add'' \<and> name \<noteq> ''find'' \<and> (name = ''put'' \<longrightarrow> put_allowed E C R p c args w) \<and>
     (name = ''get'' \<longrightarrow> get_finds E R c args w) \<and>
     (name = ''check'' \<or> name = ''has_object'' \<longrightarrow> key_allowed C args)"
| "invoke_ok E C R (CollectionMod ctx c) name args w \<longleftrightarrow> name \<noteq> ''put'' \<and> name \<noteq> ''add''"
| "invoke_ok E C R (ObjectMod ctx c key) name args w \<longleftrightarrow> name \<noteq> ''put'' \<and> name \<noteq> ''add''"
| "invoke_ok E C R m name args w \<longleftrightarrow> True"

fun action_ok :: "('d, 'z) tx_env_scheme \<Rightarrow> ('d, 'v) cow_lib \<Rightarrow> runner \<Rightarrow> ('d, 'v) interpreter_action \<Rightarrow> 'd tx_world \<Rightarrow> bool" where
  "action_ok E C R (Invoke m name args) w \<longleftrightarrow> invoke_ok E C R m name args w"
| "action_ok E C R (Release m) w \<longleftrightarrow>
     (case m of TransactionMod p \<Rightarrow> local_transaction p w | NestedTransactionMod p \<Rightarrow> local_transaction p w | _ \<Rightarrow> True)"
| "action_ok E C R action w \<longleftrightarrow> True"

fun committed_to :: "('d, 'v) interpreter_action \<Rightarrow> ('d, 'v) interpreter_reply result \<Rightarrow> 'd tx_world \<Rightarrow> 'd transaction list" where
  "committed_to (Invoke (TransactionMod p) name args) (Inr (Found v)) w = (if name = ''commit'' then committed_as p (Inr v) w else [])"
| "committed_to _ _ w = []"

text \<open>
  Any number of programs, each with a runner of its own: in every step one of them has a module do something. The history lists the
  transactions whose commit has returned true to the program.
\<close>

inductive program_steps ::
  "('d, 'z) tx_env_scheme \<Rightarrow> ('d, 'y) bitstream_lib_scheme \<Rightarrow> ('d, 'v) cow_lib \<Rightarrow> ('d, 'v, 'n) program_net \<Rightarrow> 'd tx_world \<times> 'n \<Rightarrow>
     'd transaction list \<Rightarrow> 'd tx_world \<times> 'n \<Rightarrow> bool" for E B C N s0 where
  start: "program_steps E B C N s0 [] s0"
| step: "program_steps E B C N s0 hist (w, n) \<Longrightarrow> action_ok E C R action w \<Longrightarrow> perform E B C N R action w n = Some (r, w', n') \<Longrightarrow>
     program_steps E B C N s0 (hist @ committed_to action r w) (w', n')"

lemma register_allowed:
  assumes "may_register E R p w" "request_ok E Serializable op" "op_task op = rn_task R" "fits_context E R p op w"
  shows "tx_steps E w [] (register_op p op w)"
  using assms by (intro register_steps) (auto simp: may_register_def Let_def context_ok_def fits_context_def split: option.splits)

lemma read_fits: "may_register E R p w \<Longrightarrow> \<nexists>task c k doc. op = put_info_t task c k doc \<Longrightarrow> \<nexists>task c k. op = remove_info_t task c k \<Longrightarrow> fits_context E R p op w"
  by (cases op) (auto simp: may_register_def fits_context_def request_fits_def Let_def split: option.splits)

lemma ask_steps:
  assumes "ask r w n f = Some (x, w', n')" "\<And>y. r = Some (Inr y) \<Longrightarrow> f y = Some (x, w', n') \<Longrightarrow> tx_steps E w [] w'"
  shows "tx_steps E w [] w'"
  using assms by (auto simp: ask_eq_Some intro: tx_steps.start)

lemma give_steps: "give v w1 n = Some (x, w', n') \<Longrightarrow> tx_steps E w [] w1 \<Longrightarrow> tx_steps E w [] w'"
  and raise_steps: "raise e w n = Some (x, w', n') \<Longrightarrow> tx_steps E w [] w'"
  by (auto simp: give_def raise_def intro: tx_steps.start)

lemma loose_key: "check_args_loosely k args = Inr u \<Longrightarrow> 0 < k \<Longrightarrow> key_allowed C args \<Longrightarrow> cl_unpack_string C (args ! 0) = Inr key \<Longrightarrow> dot_free key"
  using check_args_loosely_ok(1) [of k args u] by (cases args) (auto simp: key_allowed_def)

lemma put_args: "check_args err 2 [is_string] args = Inr u \<Longrightarrow> args = [StrVal (get_string (args ! 0)), args ! 1]"
  using strict_args(3) [of err 2 is_string args u]
  by (auto simp: typed_args_def is_string_def get_string_def length_Suc_conv numeral_2_eq_2 split: cow_value.splits)

lemma put_steps:
  assumes ok: "may_register E R p w" "put_allowed E C R p c args w"
    and args: "check_args err 2 [is_string] args = Inr u" and doc: "cl_to_document C (args ! 1) = Inr doc"
  shows "tx_steps E w [] (register_op p (put_info_t (rn_task R) c (get_string (args ! 0)) doc) w)"
proof (rule register_allowed [OF ok(1)])
  have "put_allowed E C R p c [StrVal (get_string (args ! 0)), args ! 1] w" using ok(2) put_args [OF args] by simp
  then show "request_ok E Serializable (put_info_t (rn_task R) c (get_string (args ! 0)) doc)"
    "fits_context E R p (put_info_t (rn_task R) c (get_string (args ! 0)) doc) w"
    using doc by (simp_all add: put_allowed_def)
qed simp

lemma read_steps:
  assumes "may_register E R p w"
  shows "tx_steps E w [] (register_op p (get_info_t (rn_task R) c key eid) w)"
    "dot_free key \<Longrightarrow> tx_steps E w [] (register_op p (check_obj_info_t (rn_task R) c key preds res) w)"
    "dot_free key \<Longrightarrow> tx_steps E w [] (register_op p (has_obj_info_t (rn_task R) c key res) w)"
  using assms by (auto intro!: register_allowed read_fits)

lemma transaction_collection_steps:
  assumes ok: "invoke_ok E C R (TransactionCollectionMod p c) name args w"
    and run: "transaction_collection_call E C R p c name args w n = Some (r, w', n')"
  shows "tx_steps E w [] w'"
  using run unfolding transaction_collection_call_def Let_def
  by (elim if_outcome disjE; (elim ask_steps give_steps raise_steps)?)
    (use ok in \<open>auto simp: put_steps read_steps loose_key split: prod.splits option.splits
       elim!: ask_steps give_steps intro: tx_steps.start\<close>)

lemma collection_steps:
  assumes ok: "name \<noteq> ''put''" "name \<noteq> ''add''" and run: "collection_call E C ctx c name args w n = Some (r, w', n')"
  shows "tx_steps E w [] w'"
  using run unfolding collection_call_def Let_def
  by (elim if_outcome disjE; (elim ask_steps give_steps raise_steps)?)
    (use ok in \<open>auto split: prod.splits elim!: ask_steps give_steps intro: tx_steps.start\<close>)

lemma object_steps:
  assumes ok: "name \<noteq> ''put''" "name \<noteq> ''add''" and run: "object_call E C ctx c key name args w n = Some (r, w', n')"
  shows "tx_steps E w [] w'"
  using run unfolding object_call_def Let_def
  by (elim if_outcome disjE; (elim ask_steps give_steps raise_steps)?)
    (use ok in \<open>auto split: prod.splits option.splits elim!: ask_steps give_steps raise_steps intro: tx_steps.start\<close>)

lemma database_steps:
  assumes ok: "invoke_ok E C R (DatabaseMod ctx hr) name args w" and run: "database_call C N R ctx name args w n = Some (r, w', n')"
  shows "tx_steps E w [] w'"
  using run unfolding database_call_def Let_def
  by (elim if_outcome; (elim ask_steps give_steps raise_steps)?)
    (use ok in \<open>auto simp: begin_steps split: prod.splits elim!: ask_steps give_steps intro: tx_steps.start\<close>)

lemma op_context_steps: "op_context_call ctx name args w n = Some (r, w', n') \<Longrightarrow> tx_steps E w [] w'"
  unfolding op_context_call_def by (elim if_outcome; elim ask_steps give_steps raise_steps) (auto intro: tx_steps.start)

lemma init_task_again: "map_of (m_op_contexts (tw_objects w p)) task \<noteq> None \<Longrightarrow> set_object_of p (init_task task ctx) w = w"
  by (auto simp: set_object_of_def init_task_def smap_emplace_def)

lemma transaction_commit_call:
  assumes ok: "tx_inv E H w" "can_commit E p w" and run: "transaction_call E B C N R p ''commit'' args w n = Some (r, w', n')"
  shows "\<exists>hist. tx_steps E w hist w' \<and> list_all2 same_requests (committed_as p r w) hist"
proof (cases "args = []")
  case True
  with run show ?thesis by (intro commit_steps [OF ok]) (auto simp: transaction_call_def)
next
  case False
  with run have "ask (Some (check_args ''Invalid arguments!'' 1 [is_bool] args)) w n
      (\<lambda>_. transaction_commit E B C (pn_vote N) p (args ! 0 = BoolVal True) w n) = Some (r, w', n')"
    by (simp add: transaction_call_def)
  then consider e where "r = Inl e" "w' = w" | "transaction_commit E B C (pn_vote N) p (args ! 0 = BoolVal True) w n = Some (r, w', n')"
    by (auto simp: ask_eq_Some)
  then show ?thesis
  proof cases
    case 1
    then show ?thesis by (auto intro: tx_steps.start)
  qed (rule commit_steps [OF ok])
qed

lemma transaction_steps:
  assumes ok: "invoke_ok E C R (TransactionMod p) name args w" "name \<noteq> ''commit''"
    and run: "transaction_call E B C N R p name args w n = Some (r, w', n')"
  shows "tx_steps E w [] w'"
proof -
  have abort: "tx_steps E w [] w1" if "transaction_abort B (pn_vote N) p w n = Some (x, w1, n1)" for x w1 n1
    using that ok(1) by (intro abort_steps [of p w B "pn_vote N" n x]) auto
  show ?thesis using run unfolding transaction_call_def
    by (elim if_outcome; (elim ask_steps give_steps raise_steps)?)
      (use ok in \<open>auto simp: init_task_again give_def raise_def abort split: option.splits sum.splits elim!: ask_steps intro: tx_steps.start\<close>)
qed

lemma destroy_steps:
  assumes "action_ok E C R (Release m) w" "destroy B N m w n = Some (r, w', n')"
  shows "tx_steps E w [] w'"
  using assms by (cases m) (auto simp: give_def intro: abort_steps tx_steps.start)

lemma no_commit:
  assumes "tx_steps E w [] w'" "committed_to action r w = []"
  shows "\<exists>hist. tx_steps E w hist w' \<and> list_all2 same_requests (committed_to action r w) hist"
  using assms by auto

lemma invoke_steps:
  assumes inv: "tx_inv E H w" and ok: "invoke_ok E C R m name args w" and run: "call_function E B C N R m name args w n = Some (x, w', n')"
  shows "\<exists>hist. tx_steps E w hist w' \<and>
    list_all2 same_requests (committed_to (Invoke m name args) (rbind x (\<lambda>v. Inr (Found v))) w) hist"
proof (cases m)
  case (TransactionMod p)
  show ?thesis
  proof (cases "name = ''commit''")
    case True
    with TransactionMod ok run have "\<exists>hist. tx_steps E w hist w' \<and> list_all2 same_requests (committed_as p x w) hist"
      by (intro transaction_commit_call [OF inv]) auto
    with TransactionMod True show ?thesis by (cases x) auto
  next
    case False
    then have "committed_to (Invoke m name args) (rbind x (\<lambda>v. Inr (Found v))) w = []" using TransactionMod by (cases x) simp_all
    with TransactionMod False ok run show ?thesis by (intro no_commit transaction_steps) auto
  qed
next
  case (NestedTransactionMod p)
  with run show ?thesis by (intro no_commit) (auto simp: nested_transaction_call_def give_def raise_def intro: tx_steps.start split: if_splits)
next
  case (OpInfoMod t target)
  with run show ?thesis by (intro no_commit) (auto simp: raise_def intro: tx_steps.start)
qed (use ok run in \<open>auto intro!: no_commit intro: database_steps transaction_collection_steps collection_steps object_steps op_context_steps
   simp del: invoke_ok.simps(1,3)\<close>)

lemma perform_steps:
  assumes inv: "tx_inv E H w" and ok: "action_ok E C R action w" and run: "perform E B C N R action w n = Some (r, w', n')"
  shows "\<exists>hist. tx_steps E w hist w' \<and> list_all2 same_requests (committed_to action r w) hist"
proof (cases action)
  case (Invoke m name args)
  with run obtain x where "call_function E B C N R m name args w n = Some (x, w', n')" "r = rbind x (\<lambda>v. Inr (Found v))"
    by (auto simp: reply_with_def)
  with Invoke ok show ?thesis using invoke_steps [OF inv] by auto
next
  case (Release m)
  with run obtain x where "destroy B N m w n = Some (x, w', n')" by (auto simp: reply_with_def)
  with Release ok show ?thesis by (intro no_commit destroy_steps) auto
next
  case (Advance it)
  with run show ?thesis by (intro no_commit) (auto elim!: ask_steps give_steps intro: tx_steps.start split: prod.splits)
qed (use run in \<open>auto simp: give_def raise_def intro!: no_commit intro: tx_steps.start\<close>)

lemma program_steps_are_calls:
  assumes "program_steps E B C N s0 hist s" "tx_initial E H (fst s0)"
  shows "\<exists>hist'. tx_steps E (fst s0) hist' (fst s) \<and> list_all2 same_requests hist hist'"
  using assms(1)
proof induction
  case (step hist w n R action r w' n')
  then obtain h1 where h1: "tx_steps E (fst s0) h1 w" "list_all2 same_requests hist h1" by auto
  from perform_steps [OF conjunct1 [OF tx_steps_inv [OF h1(1) assms(2)]] step.hyps(2,3)]
  obtain h2 where "tx_steps E w h2 w'" "list_all2 same_requests (committed_to action r w) h2" by blast
  with h1 tx_steps_trans show ?case by (fastforce intro: list_all2_appendI)
qed (auto intro: tx_steps.start)

text \<open>
  Property C13. The transactions of programs are serializable. Take any number of programs and let their calls of the modules interleave in any order: new transactions, transactions
  nested in them, reads of objects that exist, tests and writes of collections inside a transaction, commits, aborts, and the destruction of modules that are no longer
  used. Then the ledger holds exactly the objects that result from executing one after the other the transactions whose commit has
  returned true to their program, with the requests they had when the program called for the commit; and in this serial execution every
  existence test and condition has the answer the program was given in the transaction, and every event the transaction has read holds the current value. Nothing else that
  such programs do reaches the ledger. Calls on other servers, writes outside of transactions and \<open>add\<close> are excluded, and so are, inside of
  transactions, queries and reads that find nothing: the code does not register these, and a commit does not notice when they are out of date. Nothing is said
  about what is read outside of transactions.
\<close>

theorem program_transactions_serializable:
  assumes "program_steps E B C N (w0, n0) hist (w, n)" "tx_initial E H w0"
  shows "ledger_rep E (tw_ledger w) (fold apply_requests hist H) \<and>
    serial_reads E (\<lambda>eid d. rbind (get_event E eid (tw_ledger w)) event_value = Inr d) H hist"
proof -
  from program_steps_are_calls [OF assms(1)] assms(2) obtain hist' where
    steps: "tx_steps E w0 hist' w" and same: "list_all2 same_requests hist hist'" by auto
  have inv: "tx_inv E (fold apply_requests hist' H) w" and reads: "serial_reads E (event_holds E (tw_ledger w)) H hist'"
    using tx_steps_inv [OF steps assms(2)] by auto
  have wf: "json_roundtrip E" "ledger_wf E (tw_ledger w)" using tx_invD(1) [OF inv] by (auto simp: ledger_rep_def)
  have "serial_reads E (\<lambda>eid d. rbind (get_event E eid (tw_ledger w)) event_value = Inr d) H hist'"
    by (rule serial_reads_mono [OF event_holds_value [OF wf] reads])
  then show ?thesis
    using tx_invD(1) [OF inv] same_requests_serial [OF same, of H E] by simp
qed

section \<open>What the modules do not promise\<close>

text \<open>A query inside a transaction is not among its operations, so that the commit does not notice when its result has changed.\<close>

lemma find_not_registered:
  "transaction_collection_call E C R p c ''find'' [] w n = Some (Inr v, w', n') \<Longrightarrow> w' = w"
  by (auto simp: transaction_collection_call_def check_args_def elim!: ask_value)

text \<open>A read that finds nothing is not among them either: the object may be there when the transaction commits.\<close>

lemma missing_get_not_registered:
  assumes "read_value E (rn_context R) c (fst (parse_path s)) (snd (parse_path s)) (tw_ledger w) = Some (Inr None)"
  shows "transaction_collection_call E C R p c ''get'' [StrVal s] w n = Some (Inr NullPtr, w, n)"
  using assms by (simp add: transaction_collection_call_def check_args_def is_string_def get_string_def give_def case_prod_beta)

text \<open>A condition with one argument only reads past the end of the arguments.\<close>

lemma check_misses_argument:
  "cl_unpack_string C (StrVal s) = Inr s \<Longrightarrow>
     transaction_collection_call E C R p c ''check'' [StrVal s] w n = Some (Inl (Fatal ''missing argument''), w, n)"
  by (simp add: transaction_collection_call_def check_args_loosely_def is_string_def arg_def)

text \<open>
  A program that runs in a transaction of another server still writes through \<open>self\<close> at once: what the commit of the transaction
  decides does not matter.
\<close>

lemma self_writes_at_once:
  assumes "program_modules R c program has_identity (Some tx) w = Inr (modules, w1)" "program \<noteq> []"
    and "cl_to_document C v = Inr doc" "ledger_put E (rn_context R) c program doc path True (tw_ledger w1) = Some (Inr (eid, l))"
  shows "map_of modules ''self'' = Some (ObjectMod (rn_context R) c program)"
    and "object_call E C (rn_context R) c program ''put'' [StrVal path, v] w1 n = Some (Inr (BoolVal (is_valid eid)), w1\<lparr>tw_ledger := l\<rparr>, n)"
  using assms by (auto simp: program_modules_def rbind_eq_Inr object_call_def write_value_def check_args_def is_string_def get_string_def give_def)

text \<open>Destroying a nested transaction aborts the transaction around it.\<close>

lemma nested_release_aborts: "destroy B N (NestedTransactionMod p) w n = destroy B N (TransactionMod p) w n"
  by simp

end
