(* ===== verification/Program_Example.thy ===== *)
theory Program_Example
  imports Program_Transactions Wire_Example
begin

text \<open>
  A program that writes an object in a transaction and commits it, as the instance on which the properties of \<open>Program_Transactions\<close>
  are applied. Documents are numbers; there are no other servers.
\<close>

definition number_values :: "(nat, unit) cow_lib" where
  "number_values =
     \<lparr>cl_to_document = (\<lambda>v. case v of IntVal i \<Rightarrow> Inr (nat i) | _ \<Rightarrow> Inl JsonError), cl_from_document = (\<lambda>d. IntVal (int d)),
      cl_unpack_string = (\<lambda>v. case v of StrVal s \<Rightarrow> Inr s | _ \<Rightarrow> Inl (RuntimeError ''not a string'')),
      cl_cast_string = (\<lambda>v. case v of StrVal s \<Rightarrow> Inr s | _ \<Rightarrow> Inl (RuntimeError ''not a string'')),
      cl_view = (\<lambda>d s. False), cl_no_predicates = 0, cl_digest = (\<lambda>w. NullPtr)\<rparr>"

definition no_servers :: "(nat, unit, unit) program_net" where
  "no_servers =
     \<lparr>pn_names = (\<lambda>n. Inr []), pn_find = (\<lambda>name n. None), pn_call = (\<lambda>uid c task key path args tx n. n), pn_wait = (\<lambda>uid w n. None),
      pn_vote = (\<lambda>uid op_type body n. None)\<rparr>"

definition alice_runner :: runner where
  "alice_runner = \<lparr>rn_task = 3, rn_context = alice, rn_uid = 9, rn_name = ''srv''\<rparr>"

abbreviation perform_example ::
  "(nat, unit) interpreter_action \<Rightarrow> nat tx_world \<Rightarrow> ((nat, unit) interpreter_reply, nat, unit) execution" where
  "perform_example action w \<equiv> perform tx_nat_env nat_bits number_values no_servers alice_runner action w ()"

definition put_action :: "(nat, unit) interpreter_action" where
  "put_action = Invoke (TransactionCollectionMod 0 ''c'') ''put'' [StrVal ''k'', IntVal 7]"

definition begun_world :: "nat tx_world" where
  "begun_world = snd (begin_transaction alice_runner empty_world)"

definition program_tx :: "nat transaction" where
  "program_tx = example_tx\<lparr>m_isolation := Serializable\<rparr>"

definition program_world :: "nat tx_world" where
  "program_world = pending_world\<lparr>tw_objects := (tw_objects empty_world)(0 := program_tx)\<rparr>"

lemma begun_world_eq:
  "begun_world = program_world\<lparr>tw_objects := (tw_objects empty_world)(0 := program_tx\<lparr>m_ops := [], m_shard_lock_types := []\<rparr>)\<rparr>"
  by (simp add: begun_world_def begin_transaction_def init_local_transaction_def create_transaction_def empty_world_def Let_def new_transaction_def
    init_task_def smap_emplace_def program_world_def pending_world_def program_tx_def example_tx_def set_object_of_def alice_runner_def fun_eq_iff
    new_handle_def)

lemma begun_reached: "program_steps tx_nat_env nat_bits number_values no_servers (empty_world, ()) [] (begun_world, ())"
proof -
  have "begin_transaction alice_runner empty_world = (0, begun_world)"
    by (simp add: begun_world_def begin_transaction_def init_local_transaction_def create_transaction_def empty_world_def Let_def)
  then have "perform_example (Invoke (DatabaseMod alice True) ''init_transaction'' []) empty_world = Some (Inr (Found (ModuleVal (TransactionMod 0))), begun_world, ())"
    by (simp add: database_call_def check_args_def give_def reply_with_def)
  from program_steps.step [OF program_steps.start _ this] show ?thesis by (simp add: empty_world_def)
qed

lemma put_performed: "perform_example put_action begun_world = Some (Inr (Found (BoolVal True)), program_world, ())"
  by (simp add: put_action_def transaction_collection_call_def check_args_def is_string_def get_string_def parse_path_def number_values_def give_def
    reply_with_def register_op_def set_object_of_def begun_world_eq program_world_def program_tx_def example_tx_def register_operation_def
    set_write_lock_def smap_put_def op_get_shard_def alice_runner_def fun_eq_iff Let_def)

lemma put_reached: "program_steps tx_nat_env nat_bits number_values no_servers (empty_world, ()) [] (program_world, ())"
proof -
  have "action_ok tx_nat_env number_values alice_runner put_action begun_world"
    using example_fits
    by (simp add: put_action_def may_register_def put_allowed_def fits_context_def begun_world_eq program_world_def pending_world_def program_tx_def
      example_tx_def number_values_def alice_runner_def MAX_OPS_def is_valid_key_def is_alnum_def)
  from program_steps.step [OF begun_reached this put_performed] show ?thesis by (simp add: put_action_def)
qed

lemma program_world_inv: "tx_inv tx_nat_env (\<lambda>_ _. []) program_world"
proof -
  obtain hist where "tx_steps tx_nat_env empty_world hist program_world" "list_all2 same_requests [] hist"
    using program_steps_are_calls [OF put_reached] empty_world_initial by auto
  with tx_steps_inv [OF _ empty_world_initial] show ?thesis by fastforce
qed

lemma program_can_commit: "can_commit tx_nat_env 0 program_world"
proof -
  have "ledger_wf tx_nat_env (tw_ledger program_world)" using tx_invD(1) [OF program_world_inv] by (simp add: ledger_rep_def)
  from example_record_fits [OF this, of program_tx] show ?thesis
    using new_ledger_correct(4)
    by (simp add: can_commit_def local_transaction_def program_world_def pending_world_def empty_world_def program_tx_def example_tx_def
      no_self_block_def new_tx_ledger_def tl_generate_block_def new_page_def can_allocate_def word_less_nat_alt NUM_SHARDS_def)
qed

lemma program_prepared: "\<exists>w1. tx_call 0 (prepare tx_nat_env False) program_world = Some (Inr True, w1)"
proof -
  let ?s = "get_shard ''c'' ''k''" and ?E = tx_nat_env and ?w = program_world
  obtain lw where lw: "acquire_locks 0 [(?s, Write)] (tw_locks ?w) = (None, lw)"
    by (simp add: lock_eval program_world_def pending_world_def empty_world_def new_handle_def)
  have "get_op_context 3 program_tx = Inr alice" by (simp add: program_tx_def example_tx_def get_op_context_def)
  then have "validate_write ?E 3 ''c'' ''k'' [] PutObject (tw_ledger ?w) program_tx = Some (Inr True, program_tx)"
    by (rule validate_write_ok [OF tx_invD(1,2) [OF program_world_inv]]) (simp add: is_valid_key_def is_alnum_def)
  then have "prepare ?E False program_tx ?w = Some (Inr True, program_tx\<lparr>m_state := Prepared\<rparr>, ?w\<lparr>tw_locks := lw\<rparr>)"
    using lw by (simp add: prepare_def program_tx_def example_tx_def parse_path_def validate_defs)
  then show ?thesis by (simp add: tx_call_def program_world_def)
qed

lemma program_commits:
  "\<exists>w'. perform_example (Invoke (TransactionMod 0) ''commit'' []) program_world = Some (Inr (Found (TupleVal [BoolVal True, NullPtr])), w', ())"
proof -
  let ?one = "phase_one tx_nat_env nat_bits (pn_vote no_servers) False 0 program_world ()"
  have tx: "tw_objects program_world 0 = program_tx" by (simp add: program_world_def)
  obtain w1 where "tx_call 0 (prepare tx_nat_env False) program_world = Some (Inr True, w1)" using program_prepared by blast
  then have one: "?one = Some (Inr True, w1, ())"
    by (simp add: phase_one_def tx program_tx_def example_tx_def is_distributed_def)
  have "tx_inv tx_nat_env (\<lambda>_ _. []) w1 \<and> vote_result 0 program_world True w1"
    by (rule phase_one_local [OF program_world_inv program_can_commit, of nat_bits "pn_vote no_servers" False "()"]) (use one in auto)
  with phase_two_local [of tx_nat_env _ w1 0 program_world nat_bits "pn_vote no_servers" False "()"] program_can_commit
  obtain wit w2 where "phase_two tx_nat_env nat_bits (pn_vote no_servers) False 0 w1 () = Some (Inr wit, w2, ())" by metis
  with one show ?thesis by (simp add: transaction_call_def transaction_commit_def give_def reply_with_def)
qed

theorem program_transactions_serializable_witness:
  "\<exists>w. program_steps tx_nat_env nat_bits number_values no_servers (empty_world, ()) [program_tx] (w, ()) \<and>
     ledger_rep tx_nat_env (tw_ledger w) (\<lambda>c k. if c = ''c'' \<and> k = ''k'' then [(''client://alice'', 7)] else [])"
proof -
  obtain w where w: "perform_example (Invoke (TransactionMod 0) ''commit'' []) program_world = Some (Inr (Found (TupleVal [BoolVal True, NullPtr])), w, ())"
    using program_commits by blast
  have "action_ok tx_nat_env number_values alice_runner (Invoke (TransactionMod 0) ''commit'' []) program_world"
    using program_can_commit by (simp add: can_commit_def)
  from program_steps.step [OF put_reached this w]
  have steps: "program_steps tx_nat_env nat_bits number_values no_servers (empty_world, ()) [program_tx] (w, ())"
    by (simp add: program_world_def)
  have "fold apply_requests [program_tx] (\<lambda>_ _. []) = (\<lambda>c k. if c = ''c'' \<and> k = ''k'' then [(''client://alice'', 7)] else [])"
    by (simp add: apply_requests_def program_tx_def example_tx_def set_object_def put_version_def INITIAL_VERSION_NO_def fun_eq_iff)
  then show ?thesis using program_transactions_serializable [OF steps empty_world_initial] steps by auto
qed

text \<open>The two ways of a call: one that is given what it takes, and one that is not.\<close>

definition example_call :: "(nat, unit) cow_value list \<Rightarrow> ((nat, unit) cow_value, nat, unit) execution" where
  "example_call args = call_function tx_nat_env nat_bits number_values no_servers alice_runner (TransactionCollectionMod 0 ''c'') ''put'' args begun_world ()"

theorem program_calls_typed_witness:
  "(\<exists>w. example_call [StrVal ''k'', IntVal 7] = Some (Inr (BoolVal True), w, ())) \<and>
   typed_outcome True is_bool begun_world () (the (example_call [StrVal ''k'', IntVal 7])) \<and>
   example_call [IntVal 7] = Some (Inl (RuntimeError ''Invalid number of arguments''), begun_world, ())"
proof -
  have good: "example_call [StrVal ''k'', IntVal 7] = Some (Inr (BoolVal True), program_world, ())"
    using put_performed by (auto simp: put_action_def example_call_def reply_with_def rbind_eq_Inr)
  moreover have "example_call [IntVal 7] = Some (Inl (RuntimeError ''Invalid number of arguments''), begun_world, ())"
    by (simp add: example_call_def transaction_collection_call_def check_args_def)
  moreover have "defined_call ''put'' [StrVal ''k'', IntVal 7]" by (simp add: defined_call_def)
  ultimately show ?thesis
    using program_calls_typed [OF good [unfolded example_call_def]] by simp
qed

end
