(* ===== verification/Python_Converter.thy ===== *)
theory Python_Converter
  imports Encrypted_IO "HOL-Library.AList"
begin

text \<open>
  The conversion between values of Python and documents in the client library for Python
  (\<open>src/client/python_converter.h\<close>). The JSON library is a parameter: a document is what a sequence of calls of its writer
  leaves, and an iteration over a document is a sequence of calls of the handlers. The objects of Python live on a heap, since a dictionary is
  put into its parent before its entries are added. Shown: a value that is converted to a document and back is the same value up to
  what a document cannot hold; booleans come back as numbers.
\<close>

section \<open>Values and events\<close>

text \<open>\<open>'f\<close> are the floating point numbers. A date carries microseconds and a time zone, which the fields of \<open>tm\<close> lack.\<close>

record date_time =
  tm_year :: int
  tm_mon :: int
  tm_mday :: int
  tm_hour :: int
  tm_min :: int
  tm_sec :: int

datatype pykey = KeyStr string | KeyOther

datatype 'f pyval =
    VNone
  | VBool bool
  | VInt int
  | VFloat 'f
  | VStr string
  | VBytes "u8 list"
  | VByteArray "u8 list"
  | VDateTime date_time int "string option"
  | VList "'f pyval list"
  | VDict "(pykey \<times> 'f pyval) list"
  | VOther

datatype 'f json_event =
    EvNull string
  | EvBoolean string bool
  | EvInteger string int
  | EvFloat string 'f
  | EvString string string
  | EvBinary string "u8 list"
  | EvDateTime string date_time
  | EvArrayStart string
  | EvArrayEnd
  | EvMapStart string
  | EvMapEnd

section \<open>From Python to documents\<close>

text \<open>
  The test for numbers comes before the test for booleans, and a boolean of Python is a number. A cast to a 64-bit integer fails
  for larger numbers. The length of a byte array is converted to 32 bits.
\<close>

fun parse_next :: "string \<Rightarrow> 'f pyval \<Rightarrow> 'f json_event list result"
  and parse_list :: "nat \<Rightarrow> 'f pyval list \<Rightarrow> 'f json_event list result"
  and parse_dict :: "(pykey \<times> 'f pyval) list \<Rightarrow> 'f json_event list result" where
  "parse_next key VNone = Inr [EvNull key]"
| "parse_next key (VDict kvs) = rbind (parse_dict kvs) (\<lambda>evs. Inr (EvMapStart key # evs @ [EvMapEnd]))"
| "parse_next key (VList vs) = rbind (parse_list 0 vs) (\<lambda>evs. Inr (EvArrayStart key # evs @ [EvArrayEnd]))"
| "parse_next key (VBool b) = Inr [EvInteger key (if b then 1 else 0)]"
| "parse_next key (VInt i) =
     (if - (2 ^ 63) \<le> i \<and> i < 2 ^ 63 then Inr [EvInteger key i] else Inl (RuntimeError ''Unable to cast Python instance''))"
| "parse_next key (VStr s) = Inr [EvString key s]"
| "parse_next key (VFloat f) = Inr [EvFloat key f]"
| "parse_next key (VByteArray bs) = Inr [EvBinary key (take (length bs mod 2 ^ 32) bs)]"
| "parse_next key (VDateTime d us tz) = Inr [EvDateTime key d]"
| "parse_next key (VBytes bs) = Inl (RuntimeError ''Python to BSON conversion failed: Unknown object type'')"
| "parse_next key VOther = Inl (RuntimeError ''Python to BSON conversion failed: Unknown object type'')"
| "parse_list i [] = Inr []"
| "parse_list i (v # vs) = rbind (parse_next (to_string_nat i) v) (\<lambda>evs. rbind (parse_list (Suc i) vs) (\<lambda>evs'. Inr (evs @ evs')))"
| "parse_dict [] = Inr []"
| "parse_dict (kv # kvs) =
     (case fst kv of
        KeyOther \<Rightarrow> Inl (RuntimeError ''Failed to extract key'')
      | KeyStr s \<Rightarrow> rbind (parse_next s (snd kv)) (\<lambda>evs. rbind (parse_dict kvs) (\<lambda>evs'. Inr (evs @ evs'))))"

section \<open>From documents to Python\<close>

type_synonym addr = nat

datatype 'f pyobj =
    ObjNone
  | ObjBool bool
  | ObjInt int
  | ObjFloat 'f
  | ObjStr string
  | ObjBytes "u8 list"
  | ObjDateTime date_time
  | ObjList "addr list"
  | ObjDict "(string \<times> addr) list"

record 'f converter =
  heap :: "addr \<rightharpoonup> 'f pyobj"
  next_addr :: addr
  parse_stack :: "addr list"

definition new_converter :: "'f converter" where
  "new_converter = \<lparr>heap = Map.empty, next_addr = 0, parse_stack = []\<rparr>"

definition alloc :: "'f pyobj \<Rightarrow> 'f converter \<Rightarrow> addr \<times> 'f converter" where
  "alloc obj c = (next_addr c, c\<lparr>heap := (heap c)(next_addr c \<mapsto> obj), next_addr := next_addr c + 1\<rparr>)"

definition push :: "addr \<Rightarrow> 'f converter \<Rightarrow> 'f converter" where
  "push a c = c\<lparr>parse_stack := a # parse_stack c\<rparr>"

text \<open>A dictionary keeps the place of a key that is set again.\<close>

definition append_child :: "string \<Rightarrow> addr \<Rightarrow> 'f converter \<Rightarrow> 'f converter result" where
  "append_child key obj c =
     (case parse_stack c of
        [] \<Rightarrow> Inl (RuntimeError ''Cannot append child at this point!'')
      | parent # _ \<Rightarrow>
          (case heap c parent of
             Some (ObjDict kvs) \<Rightarrow> Inr (c\<lparr>heap := (heap c)(parent \<mapsto> ObjDict (AList.update (c_str key) obj kvs))\<rparr>)
           | Some (ObjList as) \<Rightarrow> Inr (c\<lparr>heap := (heap c)(parent \<mapsto> ObjList (as @ [obj]))\<rparr>)
           | _ \<Rightarrow> Inl (RuntimeError ''Failed to convert from binary to python document: Cannot append child to this type of object.'')))"

definition add_value :: "string \<Rightarrow> 'f pyobj \<Rightarrow> 'f converter \<Rightarrow> 'f converter result" where
  "add_value key obj c = (case alloc obj c of (a, c1) \<Rightarrow> if key = [] then Inr (push a c1) else append_child key a c1)"

definition start_container :: "string \<Rightarrow> 'f pyobj \<Rightarrow> 'f converter \<Rightarrow> 'f converter result" where
  "start_container key obj c =
     (case alloc obj c of (a, c1) \<Rightarrow> rbind (if key = [] then Inr c1 else append_child key a c1) (\<lambda>c2. Inr (push a c2)))"

definition end_container :: "'f converter \<Rightarrow> 'f converter" where
  "end_container c = (if length (parse_stack c) > 1 then c\<lparr>parse_stack := tl (parse_stack c)\<rparr> else c)"

fun handle_event :: "'f json_event \<Rightarrow> 'f converter \<Rightarrow> 'f converter result" where
  "handle_event (EvNull key) c = add_value key ObjNone c"
| "handle_event (EvBoolean key b) c = add_value key (ObjBool b) c"
| "handle_event (EvInteger key i) c = add_value key (ObjInt i) c"
| "handle_event (EvFloat key f) c = add_value key (ObjFloat f) c"
| "handle_event (EvString key s) c = add_value key (ObjStr (c_str s)) c"
| "handle_event (EvBinary key bs) c = add_value key (ObjBytes bs) c"
| "handle_event (EvDateTime key d) c = add_value key (ObjDateTime d) c"
| "handle_event (EvArrayStart key) c = start_container key (ObjList []) c"
| "handle_event EvArrayEnd c = Inr (end_container c)"
| "handle_event (EvMapStart key) c = start_container key (ObjDict []) c"
| "handle_event EvMapEnd c = Inr (end_container c)"

fun handle_events :: "'f json_event list \<Rightarrow> 'f converter \<Rightarrow> 'f converter result" where
  "handle_events [] c = Inr c"
| "handle_events (ev # evs) c = rbind (handle_event ev c) (handle_events evs)"

definition get_result :: "'f converter \<Rightarrow> addr result" where
  "get_result c = (case parse_stack c of [a] \<Rightarrow> Inr a | _ \<Rightarrow> Inl (RuntimeError ''Json converter in an invalid child''))"

section \<open>The type casters\<close>

record ('d, 'f) py_lib =
  pl_write :: "'f json_event list \<Rightarrow> 'd"
  pl_iterate :: "'d \<Rightarrow> 'f json_event list"
  pl_valid :: "'d \<Rightarrow> bool"
  pl_empty :: "'d \<Rightarrow> bool"

definition load_document :: "('d, 'f) py_lib \<Rightarrow> 'f pyval \<Rightarrow> 'd result" where
  "load_document L v = rbind (parse_next [] v) (\<lambda>evs. Inr (pl_write L evs))"

definition cast_document :: "('d, 'f) py_lib \<Rightarrow> 'd \<Rightarrow> (addr \<times> (addr \<rightharpoonup> 'f pyobj)) result" where
  "cast_document L d =
     (if \<not> pl_valid L d \<or> pl_empty L d then Inr (0, [0 \<mapsto> ObjNone])
      else rbind (handle_events (pl_iterate L d) new_converter) (\<lambda>c. rbind (get_result c) (\<lambda>a. Inr (a, heap c))))"

text \<open>The result of a transaction is a pair: whether it was successful, and nothing or the error.\<close>

definition cast_transaction_result :: "bool \<Rightarrow> string \<Rightarrow> 'f pyval \<times> 'f pyval" where
  "cast_transaction_result success err = (VBool success, if success then VNone else VStr (c_str err))"

section \<open>What a document keeps of a value\<close>

fun normal :: "'f pyval \<Rightarrow> 'f pyval" where
  "normal (VBool b) = VInt (if b then 1 else 0)"
| "normal (VStr s) = VStr (c_str s)"
| "normal (VByteArray bs) = VBytes (take (length bs mod 2 ^ 32) bs)"
| "normal (VDateTime d us tz) = VDateTime d 0 None"
| "normal (VList vs) = VList (map normal vs)"
| "normal (VDict kvs) = VDict (map (\<lambda>(k, v). (k, normal v)) kvs)"
| "normal v = v"

definition plain_key :: "pykey \<Rightarrow> bool" where
  "plain_key k = (case k of KeyOther \<Rightarrow> False | KeyStr s \<Rightarrow> s \<noteq> [] \<and> CHR 0x00 \<notin> set s)"

fun supported :: "'f pyval \<Rightarrow> bool" where
  "supported (VInt i) \<longleftrightarrow> - (2 ^ 63) \<le> i \<and> i < 2 ^ 63"
| "supported (VBytes bs) \<longleftrightarrow> False"
| "supported VOther \<longleftrightarrow> False"
| "supported (VList vs) \<longleftrightarrow> length vs < 2 ^ 32 \<and> list_all supported vs"
| "supported (VDict kvs) \<longleftrightarrow> list_all plain_key (map fst kvs) \<and> distinct (map fst kvs) \<and> list_all (\<lambda>(k, v). supported v) kvs"
| "supported v \<longleftrightarrow> True"

text \<open>The object at an address is a value; all its objects have addresses from \<open>lo\<close> below \<open>hi\<close>.\<close>

fun represents :: "(addr \<rightharpoonup> 'f pyobj) \<Rightarrow> addr \<Rightarrow> addr \<Rightarrow> addr \<Rightarrow> 'f pyval \<Rightarrow> bool"
  and represents_list :: "(addr \<rightharpoonup> 'f pyobj) \<Rightarrow> addr \<Rightarrow> addr \<Rightarrow> addr list \<Rightarrow> 'f pyval list \<Rightarrow> bool"
  and represents_dict :: "(addr \<rightharpoonup> 'f pyobj) \<Rightarrow> addr \<Rightarrow> addr \<Rightarrow> (string \<times> addr) list \<Rightarrow> (pykey \<times> 'f pyval) list \<Rightarrow> bool" where
  "represents H lo hi a VNone \<longleftrightarrow> lo \<le> a \<and> a < hi \<and> H a = Some ObjNone"
| "represents H lo hi a (VBool b) \<longleftrightarrow> lo \<le> a \<and> a < hi \<and> H a = Some (ObjBool b)"
| "represents H lo hi a (VInt i) \<longleftrightarrow> lo \<le> a \<and> a < hi \<and> H a = Some (ObjInt i)"
| "represents H lo hi a (VFloat f) \<longleftrightarrow> lo \<le> a \<and> a < hi \<and> H a = Some (ObjFloat f)"
| "represents H lo hi a (VStr s) \<longleftrightarrow> lo \<le> a \<and> a < hi \<and> H a = Some (ObjStr s)"
| "represents H lo hi a (VBytes bs) \<longleftrightarrow> lo \<le> a \<and> a < hi \<and> H a = Some (ObjBytes bs)"
| "represents H lo hi a (VByteArray bs) \<longleftrightarrow> False"
| "represents H lo hi a (VDateTime d us tz) \<longleftrightarrow> lo \<le> a \<and> a < hi \<and> H a = Some (ObjDateTime d) \<and> us = 0 \<and> tz = None"
| "represents H lo hi a (VList vs) \<longleftrightarrow> lo \<le> a \<and> a < hi \<and> (case H a of Some (ObjList as) \<Rightarrow> represents_list H lo hi as vs | _ \<Rightarrow> False)"
| "represents H lo hi a (VDict kvs) \<longleftrightarrow> lo \<le> a \<and> a < hi \<and> (case H a of Some (ObjDict kas) \<Rightarrow> represents_dict H lo hi kas kvs | _ \<Rightarrow> False)"
| "represents H lo hi a VOther \<longleftrightarrow> False"
| "represents_list H lo hi as [] \<longleftrightarrow> as = []"
| "represents_list H lo hi as (v # vs) \<longleftrightarrow> (case as of [] \<Rightarrow> False | a # as' \<Rightarrow> represents H lo hi a v \<and> represents_list H lo hi as' vs)"
| "represents_dict H lo hi kas [] \<longleftrightarrow> kas = []"
| "represents_dict H lo hi kas (kv # kvs) \<longleftrightarrow>
     (case kas of [] \<Rightarrow> False | (s, a) # kas' \<Rightarrow> fst kv = KeyStr s \<and> represents H lo hi a (snd kv) \<and> represents_dict H lo hi kas' kvs)"

lemma represents_frame:
  assumes "\<And>x. lo \<le> x \<Longrightarrow> x < hi \<Longrightarrow> H' x = H x" "lo' \<le> lo" "hi \<le> hi'"
  shows "represents H lo hi a v \<Longrightarrow> represents H' lo' hi' a v"
    and "represents_list H lo hi as vs \<Longrightarrow> represents_list H' lo' hi' as vs"
    and "represents_dict H lo hi kas kvs \<Longrightarrow> represents_dict H' lo' hi' kas kvs"
  using assms
  by (induction H lo hi a v and H lo hi as vs and H lo hi kas kvs rule: represents_represents_list_represents_dict.induct)
    (auto split: option.splits pyobj.splits list.splits)

lemma represents_addr: "represents H lo hi a v \<Longrightarrow> lo \<le> a \<and> a < hi"
  by (cases v) auto

section \<open>A value is added to its parent\<close>

fun add_to :: "string \<Rightarrow> addr \<Rightarrow> 'f pyobj \<Rightarrow> 'f pyobj" where
  "add_to key a (ObjDict kas) = ObjDict (AList.update (c_str key) a kas)"
| "add_to key a (ObjList as) = ObjList (as @ [a])"
| "add_to key a obj = obj"

definition is_container :: "'f pyobj \<Rightarrow> bool" where
  "is_container obj = (case obj of ObjDict _ \<Rightarrow> True | ObjList _ \<Rightarrow> True | _ \<Rightarrow> False)"

definition open_at :: "addr \<Rightarrow> 'f pyobj \<Rightarrow> 'f converter \<Rightarrow> bool" where
  "open_at t obj c \<longleftrightarrow> (\<exists>rest. parse_stack c = t # rest) \<and> t < next_addr c \<and> heap c t = Some obj \<and> is_container obj"

definition kept :: "addr \<Rightarrow> 'f converter \<Rightarrow> 'f converter \<Rightarrow> bool" where
  "kept t c c' \<longleftrightarrow> parse_stack c' = parse_stack c \<and> next_addr c \<le> next_addr c' \<and> (\<forall>x < next_addr c. x \<noteq> t \<longrightarrow> heap c' x = heap c x)"

definition added :: "string \<Rightarrow> 'f pyval \<Rightarrow> addr \<Rightarrow> 'f pyobj \<Rightarrow> 'f converter \<Rightarrow> 'f converter \<Rightarrow> bool" where
  "added key v t obj c c' \<longleftrightarrow>
     kept t c c' \<and> (\<exists>a. heap c' t = Some (add_to key a obj) \<and> represents (heap c') (next_addr c) (next_addr c') a (normal v))"

lemma append_child_open:
  "open_at t obj c \<Longrightarrow> append_child key a c = Inr (c\<lparr>heap := (heap c)(t \<mapsto> add_to key a obj)\<rparr>)"
  by (cases obj) (auto simp: open_at_def append_child_def is_container_def)

lemma add_value_added:
  assumes "open_at t obj c" "key \<noteq> []" "\<And>H lo hi a. represents H lo hi a (normal v) \<longleftrightarrow> lo \<le> a \<and> a < hi \<and> H a = Some x"
  shows "\<exists>c'. add_value key x c = Inr c' \<and> added key v t obj c c'"
proof -
  let ?c1 = "c\<lparr>heap := (heap c)(next_addr c \<mapsto> x), next_addr := next_addr c + 1\<rparr>"
  have "open_at t obj ?c1" using assms(1) by (auto simp: open_at_def)
  from append_child_open [OF this] show ?thesis
    using assms by (auto simp: add_value_def alloc_def added_def kept_def open_at_def)
qed

lemma kept_trans: "kept t c c1 \<Longrightarrow> kept t c1 c2 \<Longrightarrow> kept t c c2"
  by (auto simp: kept_def)

lemma handle_events_append: "handle_events (evs @ evs') c = rbind (handle_events evs c) (handle_events evs')"
  by (induction evs arbitrary: c) (simp_all add: rbind_assoc rbind_def split: sum.splits)

lemma to_string_nonempty: "to_string_nat n \<noteq> []"
  by (subst to_string_nat.simps) simp

lemma c_str_no_nul: "CHR 0x00 \<notin> set s \<Longrightarrow> c_str s = s"
  by (auto simp: c_str_def takeWhile_eq_all_conv)

lemma open_at_added:
  "open_at t obj c \<Longrightarrow> kept t c c' \<Longrightarrow> heap c' t = Some obj' \<Longrightarrow> is_container obj' \<Longrightarrow> open_at t obj' c'"
  by (auto simp: open_at_def kept_def)

lemma is_container_add_to: "is_container obj \<Longrightarrow> is_container (add_to key a obj)"
  by (cases obj) (auto simp: is_container_def)

text \<open>A value in a container, one way or the other: it is added to the container on the top of the stack.\<close>

definition adds :: "'f pyval \<Rightarrow> bool" where
  "adds v \<longleftrightarrow> (\<forall>key t obj c. key \<noteq> [] \<longrightarrow> open_at t obj c \<longrightarrow>
     (\<exists>evs c'. parse_next key v = Inr evs \<and> handle_events evs c = Inr c' \<and> added key v t obj c c'))"

lemma addsD:
  assumes "adds v" "key \<noteq> []" "open_at t obj c"
  obtains evs c' where "parse_next key v = Inr evs" "handle_events evs c = Inr c'" "added key v t obj c c'"
  using assms unfolding adds_def by blast

lemma added_then:
  assumes "added key v t obj c c1" "kept t c1 c2" "open_at t obj c"
  obtains a where "heap c1 t = Some (add_to key a obj)" "represents (heap c2) (next_addr c) (next_addr c2) a (normal v)"
proof -
  from assms(1) obtain a where a: "heap c1 t = Some (add_to key a obj)"
    "represents (heap c1) (next_addr c) (next_addr c1) a (normal v)" and "kept t c c1"
    by (auto simp: added_def)
  with assms(2,3) have "represents (heap c2) (next_addr c) (next_addr c2) a (normal v)"
    by (intro represents_frame(1) [OF _ _ _ a(2)]) (auto simp: kept_def open_at_def)
  with a(1) show thesis by (rule that)
qed

lemma list_added:
  assumes "\<And>v. v \<in> set vs \<Longrightarrow> adds v" "open_at t (ObjList as) c"
  shows "\<exists>evs c' as'. parse_list i vs = Inr evs \<and> handle_events evs c = Inr c' \<and> kept t c c'
     \<and> heap c' t = Some (ObjList (as @ as')) \<and> represents_list (heap c') (next_addr c) (next_addr c') as' (map normal vs)"
  using assms
proof (induction vs arbitrary: i as c)
  case Nil
  then show ?case by (auto simp: kept_def open_at_def)
next
  case (Cons v vs)
  have "adds v" using Cons.prems(1) by simp
  from addsD [OF this to_string_nonempty [of i] Cons.prems(2)] obtain evs c1 where one: "parse_next (to_string_nat i) v = Inr evs"
    "handle_events evs c = Inr c1" "added (to_string_nat i) v t (ObjList as) c c1" .
  from one(3) obtain b where b: "kept t c c1" "heap c1 t = Some (ObjList (as @ [b]))"
    by (auto simp: added_def)
  from open_at_added [OF Cons.prems(2) b] have "open_at t (ObjList (as @ [b])) c1" by (simp add: is_container_def)
  from Cons.IH [OF _ this, of "Suc i"] Cons.prems(1) obtain evs' c2 as' where rest:
    "parse_list (Suc i) vs = Inr evs'" "handle_events evs' c1 = Inr c2" "kept t c1 c2"
    "heap c2 t = Some (ObjList ((as @ [b]) @ as'))"
    "represents_list (heap c2) (next_addr c1) (next_addr c2) as' (map normal vs)" by auto
  from added_then [OF one(3) rest(3) Cons.prems(2)] b(2)
  have "represents (heap c2) (next_addr c) (next_addr c2) b (normal v)" by auto
  moreover have "represents_list (heap c2) (next_addr c) (next_addr c2) as' (map normal vs)"
    by (rule represents_frame(2) [OF _ _ _ rest(5)]) (use b(1) in \<open>auto simp: kept_def\<close>)
  ultimately show ?case
    using one rest kept_trans [OF b(1) rest(3)] by (auto simp: handle_events_append)
qed

lemma update_new_key: "key \<notin> fst ` set kas \<Longrightarrow> AList.update key a kas = kas @ [(key, a)]"
  by (induction kas) auto

definition dict_supported :: "(pykey \<times> 'f pyval) list \<Rightarrow> (string \<times> addr) list \<Rightarrow> bool" where
  "dict_supported kvs kas \<longleftrightarrow>
     list_all plain_key (map fst kvs) \<and> distinct (map fst kvs) \<and> (\<forall>(k, a) \<in> set kas. KeyStr k \<notin> fst ` set kvs)"

lemma dict_supported_Cons:
  assumes "dict_supported ((k, v) # kvs) kas"
  obtains s where "k = KeyStr s" "s \<noteq> []" "c_str s = s" "\<And>a. AList.update s a kas = kas @ [(s, a)]"
    "\<And>a. dict_supported kvs (kas @ [(s, a)])"
proof (cases k)
  case (KeyStr s)
  with assms have "s \<notin> fst ` set kas" by (auto simp: dict_supported_def)
  moreover from KeyStr assms have "dict_supported kvs (kas @ [(s, a)])" for a by (auto simp: dict_supported_def)
  ultimately show thesis
    using KeyStr assms by (intro that [of s]) (auto simp: dict_supported_def plain_key_def c_str_no_nul update_new_key)
qed (use assms in \<open>simp add: dict_supported_def plain_key_def\<close>)

lemma dict_added:
  assumes "\<And>k v. (k, v) \<in> set kvs \<Longrightarrow> adds v" "dict_supported kvs kas" "open_at t (ObjDict kas) c"
  shows "\<exists>evs c' kas'. parse_dict kvs = Inr evs \<and> handle_events evs c = Inr c' \<and> kept t c c'
     \<and> heap c' t = Some (ObjDict (kas @ kas'))
     \<and> represents_dict (heap c') (next_addr c) (next_addr c') kas' (map (\<lambda>(k, v). (k, normal v)) kvs)"
  using assms
proof (induction kvs arbitrary: kas c)
  case Nil
  then show ?case by (auto simp: kept_def open_at_def)
next
  case (Cons kv kvs)
  obtain k v where kv: "kv = (k, v)" by (cases kv)
  from dict_supported_Cons [OF Cons.prems(2) [unfolded kv]] obtain s where s: "k = KeyStr s" "s \<noteq> []" "c_str s = s"
    "\<And>a. AList.update s a kas = kas @ [(s, a)]" "\<And>a. dict_supported kvs (kas @ [(s, a)])" by metis
  have "adds v" using Cons.prems(1) kv by auto
  from addsD [OF this s(2) Cons.prems(3)] obtain evs c1 where one: "parse_next s v = Inr evs"
    "handle_events evs c = Inr c1" "added s v t (ObjDict kas) c c1" .
  from one(3) s obtain b where b: "kept t c c1" "heap c1 t = Some (ObjDict (kas @ [(s, b)]))"
    by (auto simp: added_def)
  from open_at_added [OF Cons.prems(3) b] have "open_at t (ObjDict (kas @ [(s, b)])) c1" by (simp add: is_container_def)
  moreover have "\<And>k v. (k, v) \<in> set kvs \<Longrightarrow> adds v" using Cons.prems(1) by (metis list.set_intros(2))
  ultimately obtain evs' c2 kas' where rest:
    "parse_dict kvs = Inr evs'" "handle_events evs' c1 = Inr c2" "kept t c1 c2"
    "heap c2 t = Some (ObjDict ((kas @ [(s, b)]) @ kas'))"
    "represents_dict (heap c2) (next_addr c1) (next_addr c2) kas' (map (\<lambda>(k, v). (k, normal v)) kvs)"
    using Cons.IH [OF _ s(5)] by metis
  from added_then [OF one(3) rest(3) Cons.prems(3)] b(2) s(3,4)
  have "represents (heap c2) (next_addr c) (next_addr c2) b (normal v)" by auto
  moreover have "represents_dict (heap c2) (next_addr c) (next_addr c2) kas' (map (\<lambda>(k, v). (k, normal v)) kvs)"
    by (rule represents_frame(3) [OF _ _ _ rest(5)]) (use b(1) in \<open>auto simp: kept_def\<close>)
  ultimately show ?case
    using kv s(1) one rest kept_trans [OF b(1) rest(3)] by (auto simp: handle_events_append)
qed

text \<open>The entries of a container that was started: they are added to it, and it is the value then.\<close>

definition fills :: "'f pyobj \<Rightarrow> 'f pyval \<Rightarrow> 'f json_event list result \<Rightarrow> bool" where
  "fills obj v entries \<longleftrightarrow> (\<forall>c. open_at (next_addr c - 1) obj c \<longrightarrow>
     (\<exists>evs c'. entries = Inr evs \<and> handle_events evs c = Inr c' \<and> kept (next_addr c - 1) c c'
        \<and> represents (heap c') (next_addr c - 1) (next_addr c') (next_addr c - 1) (normal v)))"

lemma fillsD:
  assumes "fills obj v entries" "open_at a obj c" "next_addr c = Suc a"
  obtains evs c' where "entries = Inr evs" "handle_events evs c = Inr c'" "kept a c c'"
    "represents (heap c') a (next_addr c') a (normal v)"
  using assms unfolding fills_def by (metis diff_Suc_1)

lemma fills_list:
  assumes "\<And>v. v \<in> set vs \<Longrightarrow> adds v"
  shows "fills (ObjList []) (VList vs) (parse_list 0 vs)"
  unfolding fills_def
proof (intro allI impI)
  fix c :: "'a converter"
  assume c: "open_at (next_addr c - 1) (ObjList []) c"
  from list_added [of vs, where i = 0, OF assms c] obtain evs c' as' where
    *: "parse_list 0 vs = Inr evs" "handle_events evs c = Inr c'" "kept (next_addr c - 1) c c'"
    "heap c' (next_addr c - 1) = Some (ObjList as')"
    "represents_list (heap c') (next_addr c) (next_addr c') as' (map normal vs)" by auto
  from represents_frame(2) [OF _ _ _ *(5)]
  have "represents_list (heap c') (next_addr c - 1) (next_addr c') as' (map normal vs)" by simp
  then show "\<exists>evs c'. parse_list 0 vs = Inr evs \<and> handle_events evs c = Inr c' \<and> kept (next_addr c - 1) c c'
        \<and> represents (heap c') (next_addr c - 1) (next_addr c') (next_addr c - 1) (normal (VList vs))"
    using * c by (auto simp: kept_def open_at_def)
qed

lemma fills_dict:
  assumes "\<And>k v. (k, v) \<in> set kvs \<Longrightarrow> adds v" "supported (VDict kvs)"
  shows "fills (ObjDict []) (VDict kvs) (parse_dict kvs)"
  unfolding fills_def
proof (intro allI impI)
  fix c :: "'a converter"
  assume c: "open_at (next_addr c - 1) (ObjDict []) c"
  have "dict_supported kvs []" using assms(2) by (simp add: dict_supported_def)
  from dict_added [of kvs, OF _ this c] assms(1) obtain evs c' kas' where
    *: "parse_dict kvs = Inr evs" "handle_events evs c = Inr c'" "kept (next_addr c - 1) c c'"
    "heap c' (next_addr c - 1) = Some (ObjDict kas')"
    "represents_dict (heap c') (next_addr c) (next_addr c') kas' (map (\<lambda>(k, v). (k, normal v)) kvs)"
    by (metis append_Nil)
  from represents_frame(3) [OF _ _ _ *(5)]
  have "represents_dict (heap c') (next_addr c - 1) (next_addr c') kas' (map (\<lambda>(k, v). (k, normal v)) kvs)" by simp
  then show "\<exists>evs c'. parse_dict kvs = Inr evs \<and> handle_events evs c = Inr c' \<and> kept (next_addr c - 1) c c'
        \<and> represents (heap c') (next_addr c - 1) (next_addr c') (next_addr c - 1) (normal (VDict kvs))"
    using * c by (auto simp: kept_def open_at_def)
qed

lemma start_container_open:
  assumes "open_at t obj c" "key \<noteq> []" "is_container e"
  obtains c1 where "start_container key e c = Inr c1" "open_at (next_addr c) e c1" "next_addr c1 = Suc (next_addr c)"
    "parse_stack c1 = next_addr c # parse_stack c" "heap c1 t = Some (add_to key (next_addr c) obj)"
    "\<And>x. x < next_addr c \<Longrightarrow> x \<noteq> t \<Longrightarrow> heap c1 x = heap c x"
proof -
  let ?c1 = "c\<lparr>heap := (heap c)(next_addr c \<mapsto> e), next_addr := next_addr c + 1\<rparr>"
  have "open_at t obj ?c1" using assms(1) by (auto simp: open_at_def)
  from append_child_open [OF this] show thesis
    using assms
    by (intro that [of "?c1\<lparr>heap := (heap ?c1)(t \<mapsto> add_to key (next_addr c) obj), parse_stack := next_addr c # parse_stack c\<rparr>"])
      (auto simp: start_container_def alloc_def push_def open_at_def)
qed

lemma container_adds:
  assumes "fills e v entries" "is_container e"
    and "\<And>key. parse_next key v = rbind entries (\<lambda>evs. Inr (start key # evs @ [stop]))"
    and "\<And>key c. handle_event (start key) c = start_container key e c" "\<And>c. handle_event stop c = Inr (end_container c)"
  shows "adds v"
  unfolding adds_def
proof (intro allI impI)
  fix key :: string and t obj and c :: "'a converter"
  assume key: "key \<noteq> []" and c: "open_at t obj c"
  from start_container_open [OF c key assms(2)] obtain c1 where c1: "start_container key e c = Inr c1"
    "open_at (next_addr c) e c1" "next_addr c1 = Suc (next_addr c)" "parse_stack c1 = next_addr c # parse_stack c"
    "heap c1 t = Some (add_to key (next_addr c) obj)" "\<And>x. x < next_addr c \<Longrightarrow> x \<noteq> t \<Longrightarrow> heap c1 x = heap c x" by metis
  from fillsD [OF assms(1) c1(2,3)] obtain evs c2 where c2: "entries = Inr evs" "handle_events evs c1 = Inr c2"
    "kept (next_addr c) c1 c2" "represents (heap c2) (next_addr c) (next_addr c2) (next_addr c) (normal v)" .
  have "added key v t obj c (c2\<lparr>parse_stack := parse_stack c\<rparr>)"
    unfolding added_def using c1 c2(3,4) c by (auto simp: kept_def open_at_def intro!: exI [of _ "next_addr c"])
  moreover have "end_container c2 = c2\<lparr>parse_stack := parse_stack c\<rparr>"
    using c1(4) c2(3) c by (auto simp: end_container_def kept_def open_at_def)
  ultimately show "\<exists>evs c'. parse_next key v = Inr evs \<and> handle_events evs c = Inr c' \<and> added key v t obj c c'"
    using c1(1) c2(1,2) assms(3-5) by (simp add: handle_events_append)
qed

lemma value_adds:
  assumes "\<And>key. parse_next key v = Inr [ev key]" "\<And>key c. handle_event (ev key) c = add_value key x c"
    and "\<And>H lo hi a. represents H lo hi a (normal v) \<longleftrightarrow> lo \<le> a \<and> a < hi \<and> H a = Some x"
  shows "adds v"
  unfolding adds_def
proof (intro allI impI)
  fix key :: string and t obj and c :: "'a converter"
  assume "key \<noteq> []" "open_at t obj c"
  from add_value_added [OF this(2,1) assms(3)]
  show "\<exists>evs c'. parse_next key v = Inr evs \<and> handle_events evs c = Inr c' \<and> added key v t obj c c'"
    by (auto simp: assms(1,2))
qed

lemma list_adds:
  assumes "\<And>v. v \<in> set vs \<Longrightarrow> adds v"
  shows "adds (VList vs)"
  by (rule container_adds [OF fills_list [OF assms], where start = EvArrayStart and stop = EvArrayEnd]) (simp_all add: is_container_def)

lemma dict_adds:
  assumes "\<And>k v. (k, v) \<in> set kvs \<Longrightarrow> adds v" "supported (VDict kvs)"
  shows "adds (VDict kvs)"
  by (rule container_adds [OF fills_dict [of kvs], where start = EvMapStart and stop = EvMapEnd])
    (use assms in \<open>auto simp add: is_container_def\<close>)

lemma supported_adds: "supported v \<Longrightarrow> adds v"
proof (induction v)
  case (VList vs)
  then show ?case by (intro list_adds) (auto simp: list_all_iff)
next
  case (VDict kvs)
  show ?case
  proof (rule dict_adds [OF _ VDict.prems])
    fix k v assume "(k, v) \<in> set kvs"
    with VDict show "adds v" by (fastforce simp: list_all_iff)
  qed
qed (auto intro: value_adds [where ev = EvNull and x = ObjNone] value_adds [where ev = "\<lambda>k. EvInteger k i" and x = "ObjInt i" for i]
   value_adds [where ev = "\<lambda>k. EvFloat k f" and x = "ObjFloat f" for f]
   value_adds [where ev = "\<lambda>k. EvString k s" and x = "ObjStr (c_str s)" for s]
   value_adds [where ev = "\<lambda>k. EvBinary k (take n bs)" and x = "ObjBytes (take n bs)" for n bs]
   value_adds [where ev = "\<lambda>k. EvDateTime k d" and x = "ObjDateTime d" for d])

section \<open>A round trip\<close>

text \<open>What the type casters need of the JSON library: an iteration over a document that was written gives back what was written.\<close>

definition document_kept :: "('d, 'f) py_lib \<Rightarrow> 'f json_event list \<Rightarrow> bool" where
  "document_kept L evs \<longleftrightarrow> pl_iterate L (pl_write L evs) = evs \<and> pl_valid L (pl_write L evs) \<and> \<not> pl_empty L (pl_write L evs)"

definition converts_to :: "'f json_event list \<Rightarrow> 'f pyval \<Rightarrow> bool" where
  "converts_to evs v \<longleftrightarrow> (\<exists>c a. handle_events evs new_converter = Inr c \<and> get_result c = Inr a \<and> represents (heap c) 0 (next_addr c) a v)"

lemma value_converts: "handle_event ev new_converter = add_value [] x new_converter
   \<Longrightarrow> (\<And>H lo hi a. represents H lo hi a v \<longleftrightarrow> lo \<le> a \<and> a < hi \<and> H a = Some x) \<Longrightarrow> converts_to [ev] v"
  by (simp add: converts_to_def add_value_def alloc_def push_def new_converter_def get_result_def)

lemma container_converts:
  assumes "fills e v entries" "is_container e" "handle_event start new_converter = start_container [] e new_converter"
    "\<And>c. handle_event stop c = Inr (end_container c)"
  shows "\<exists>evs. entries = Inr evs \<and> converts_to (start # evs @ [stop]) (normal v)"
proof -
  let ?c1 = "\<lparr>heap = [0 \<mapsto> e], next_addr = 1, parse_stack = [0]\<rparr>"
  have "open_at 0 e ?c1" using assms(2) by (simp add: open_at_def)
  from fillsD [OF assms(1) this] obtain evs c2 where "entries = Inr evs" "handle_events evs ?c1 = Inr c2"
    "kept 0 ?c1 c2" "represents (heap c2) 0 (next_addr c2) 0 (normal v)" by auto
  then show ?thesis
    using assms(3,4) by (auto simp: converts_to_def handle_events_append start_container_def alloc_def push_def new_converter_def
      end_container_def get_result_def kept_def)
qed

lemma supported_converts:
  assumes "supported v"
  shows "\<exists>evs. parse_next [] v = Inr evs \<and> converts_to evs (normal v)"
proof (cases v)
  case (VList vs)
  with assms have "fills (ObjList []) v (parse_list 0 vs)"
    using fills_list [of vs] supported_adds by (auto simp: list_all_iff)
  from container_converts [OF this, of "EvArrayStart []" EvArrayEnd] VList show ?thesis
    by (auto simp: is_container_def simp del: normal.simps)
next
  case (VDict kvs)
  with assms have "fills (ObjDict []) v (parse_dict kvs)"
    using fills_dict [of kvs] supported_adds by (fastforce simp: list_all_iff)
  from container_converts [OF this, of "EvMapStart []" EvMapEnd] VDict show ?thesis
    by (auto simp: is_container_def simp del: normal.simps)
qed (use assms in \<open>auto intro: value_converts\<close>)

text \<open>
  Property C39. A value that the client library for Python converts to a document and then back to Python is the same value up to what
  \<open>normal\<close> says: a boolean is a number, a byte array is of type bytes and is cut off to its length modulo \<open>2 ^ 32\<close>, a string ends at its first NUL character, and
  a date has neither microseconds nor a time zone. Dictionaries keep the order of their keys and lists the order of their elements, at any depth. The
  keys of a dictionary must be strings that are not empty and have no NUL character, and numbers must have 64 bits. The JSON library gives back what was written.
\<close>

theorem python_round_trip:
  assumes "supported v" "\<And>evs. parse_next [] v = Inr evs \<Longrightarrow> document_kept L evs"
  shows "\<exists>d a H hi. load_document L v = Inr d \<and> cast_document L d = Inr (a, H) \<and> represents H 0 hi a (normal v)"
proof -
  from supported_converts [OF assms(1)] obtain evs where evs: "parse_next [] v = Inr evs" "converts_to evs (normal v)" by blast
  with assms(2) have "document_kept L evs" by simp
  with evs show ?thesis
    by (auto simp: converts_to_def document_kept_def load_document_def cast_document_def)
qed

text \<open>The witness of the round trip: a dictionary with a nested list, on a library whose documents are the events.\<close>

definition event_documents :: "('f json_event list, 'f) py_lib" where
  "event_documents = \<lparr>pl_write = (\<lambda>evs. evs), pl_iterate = (\<lambda>evs. evs), pl_valid = (\<lambda>_. True), pl_empty = (\<lambda>evs. evs = [])\<rparr>"

definition some_value :: "int pyval" where
  "some_value = VDict [(KeyStr ''name'', VStr ''credb''), (KeyStr ''live'', VBool True),
     (KeyStr ''items'', VList [VInt 7, VNone, VDict [(KeyStr ''raw'', VByteArray [1, 2])]])]"

theorem python_round_trip_witness:
  "supported some_value \<and> normal some_value = VDict [(KeyStr ''name'', VStr ''credb''), (KeyStr ''live'', VInt 1),
     (KeyStr ''items'', VList [VInt 7, VNone, VDict [(KeyStr ''raw'', VBytes [1, 2])]])]
   \<and> (\<exists>d a H hi. load_document event_documents some_value = Inr d \<and> cast_document event_documents d = Inr (a, H)
        \<and> represents H 0 hi a (normal some_value))"
proof -
  have s: "supported some_value" by (simp add: some_value_def plain_key_def)
  have "\<And>evs. parse_next [] some_value = Inr evs \<Longrightarrow> document_kept event_documents evs"
    by (auto simp: some_value_def document_kept_def event_documents_def)
  from s python_round_trip [OF s this] show ?thesis
    by (simp add: some_value_def c_str_def)
qed

text \<open>
  An entry with an empty key is lost: its value is taken for the top of the document, pushed onto the stack and popped
  by the end of the dictionary.
\<close>

lemma empty_key_lost:
  "rbind (load_document event_documents (VDict [(KeyStr [], VInt 1)])) (cast_document event_documents)
   = Inr (0, [0 \<mapsto> ObjDict [], 1 \<mapsto> ObjInt 1])"
  by (simp add: load_document_def cast_document_def event_documents_def new_converter_def start_container_def alloc_def push_def add_value_def
    end_container_def get_result_def)

end
