(* ===== verification/Spec2Isabelle.thy ===== *)
theory Spec2Isabelle
  imports Hash_Map_Iter Multi_Map Buffer_Manager Lru_Eviction Lock_Handle Ledger_Query Witness Encrypted_IO Transaction_System
    Index_Clear Remote_Parties Remote_Call Remote_Example Replication_Example
    Program_Example Python_Converter
begin

text \<open>
  CreDB is a document store whose server runs inside a trusted enclave and keeps its data, encrypted, on
  an untrusted disk. Objects are chains of events in append-only blocks; hash tables on pages lead
  from keys to events; a buffer manager caches the pages; transactions lock shards of the ledger; clients and
  other servers send encrypted requests. This development models the enclave (\<open>src/src/enclave\<close>), the
  library that clients use (\<open>src/src/client\<close>) and the utilities of both, and proves them correct layer by layer, up to a
  call of an application that goes over the network to the ledger and back.

  \<^bold>\<open>Parts, from the bottom up.\<close>

  \<^item> \<open>Credb_Prelude\<close>: word types, the \<open>error\<close> and \<open>result\<close> types (every exception, abort and
    early return of the code is a value), the ordered sets and decimal numbers of the C++ library, and the
    interface \<open>step_refinement\<close> for a component and its specification.
  \<^item> \<open>Version_Number\<close> (\<open>version_number.h\<close>): 16-bit version counters with wrap-around comparison.
    They are incremented on every write of a page and allow a reader to recognise an old copy.
  \<^item> \<open>Event_Id\<close> (\<open>event_id.h\<close>, \<open>ledger_pos.h\<close>): event identifiers, ranges and transaction bounds
    with their order, through the interface \<open>position_order\<close>.
  \<^item> \<open>Murmur_Hash\<close> (\<open>MurmurHash2.cpp\<close>, \<open>hash.h\<close>): the hash of keys, executable, and the shard of a
    key.
  \<^item> \<open>Page_Store\<close>: what users of the buffer manager rely on, numbered pages that can be created, read and
    modified. \<open>Buffer_Manager\<close> (\<open>BufferManager.cpp\<close>, \<open>.h\<close>, \<open>.inl\<close>, \<open>Page.h\<close>) models the cache
    itself, with its 32 shards, pin counts, dirty pages, eviction and files, and shows that it
    implements the page store. \<open>Lru_Eviction\<close> models the eviction policy class.
  \<^item> \<open>Abstract_Map\<close> (\<open>AbstractMap.h\<close>, \<open>HashMapNode.h\<close>): the buckets and page chains shared by both
    hash tables, with the version checks that detect rolled-back pages. \<open>Hash_Map\<close> and \<open>Hash_Map_Iter\<close>
    (\<open>HashMap.cpp\<close>): the primary index and its iterators. \<open>Multi_Map\<close> (\<open>MultiMap.cpp\<close>,
    \<open>MultiMapNode.h\<close>): the map of a secondary index.
  \<^item> \<open>RW_Lock\<close> (\<open>RWLockable.inl\<close>): the readers-writer lock as a step relation over any number of threads,
    one step per atomic access. \<open>Lock_Handle\<close> (\<open>LockHandle.cpp\<close>): the accounting of shard locks by
    root and nested handles.
  \<^item> \<open>Block\<close> (\<open>Block.h\<close>, \<open>.inl\<close>): append-only blocks with a growing offset index. \<open>Shard\<close> (\<open>Shard.cpp\<close>):
    the pending block of a shard and the checks on older blocks.
  \<^item> \<open>Object_Event\<close> (\<open>ObjectEventHandle.cpp\<close>, \<open>OpContext.h\<close>, \<open>Identity.h\<close>): events and the identity that
    writes them. \<open>Collection\<close> (\<open>Collection.cpp\<close>, \<open>Index.cpp\<close>): collections and hash indexes.
  \<^item> \<open>Ledger\<close> (\<open>Ledger.cpp\<close>, \<open>Ledger.inl\<close>, \<open>ObjectIterator.cpp\<close>): the operations on objects, one
    definition per function: reading the latest version, policies, iteration over versions, writing,
    removing, closing blocks. \<open>Ledger_Log\<close>, \<open>Ledger_Objects\<close>, \<open>Ledger_Refinement\<close> and
    \<open>Ledger_Properties\<close> hold the proofs, \<open>Json_Example\<close> a concrete JSON library for the examples.
    \<open>Ledger_Query\<close> (\<open>Ledger::find\<close>, \<open>count_objects\<close>, \<open>create_index\<close>, \<open>ObjectListIterator.cpp\<close>,
    \<open>ObjectKeyProvider.cpp\<close>): queries with and without an index. \<open>Ledger_Clear\<close> and \<open>Index_Clear\<close>: \<open>Ledger::clear\<close>,
    on an index that is a map and on the pages of the hash table.
  \<^item> \<open>Base64\<close> (\<open>base64.cpp\<close>) and \<open>Witness\<close> (\<open>Witness.cpp\<close>, \<open>Ledger::create_witness\<close>): signed
    statements about events, their text form and the order of two of them.
  \<^item> \<open>Disk\<close> (\<open>server/Disk.cpp\<close>): the files of the untrusted server and their cache. \<open>Encrypted_IO\<close>
    (\<open>EncryptedIO.cpp\<close>, \<open>LocalEncryptedIO.cpp\<close>, \<open>RemoteEncryptedIO.cpp\<close>): encryption of what is stored there.
  \<^item> \<open>Transaction_Ledger\<close> (\<open>TransactionLedger.cpp\<close>): the log of committed transactions. \<open>Lock_Table\<close>,
    \<open>Transaction\<close> (\<open>Transaction.cpp\<close>, \<open>TransactionManager.cpp\<close>, \<open>op_info.cpp\<close>): transactions with their operations, the
    validation of what they read, and the locks they hold. \<open>Transaction_Effects\<close> and \<open>Transaction_System\<close> hold the
    proofs about any number of transactions that run at the same time. \<open>Transaction_Executor\<close>
    (\<open>TransactionExecutor.cpp\<close>, \<open>TransactionProxy.cpp\<close>): the two phases of a commit, and transactions of clients.
  \<^item> \<open>Wire\<close> (\<open>MessageType.h\<close>, \<open>OperationType.h\<close>, \<open>RemoteParty::encrypt\<close>, \<open>decrypt\<close>): numbers on the
    wire and encrypted frames; \<open>Wire_Example\<close> has a concrete bit stream library. \<open>Request_Handler\<close>
    (\<open>RemoteParty.cpp\<close>): every request a server answers. \<open>Remote_Parties\<close> (\<open>RemoteParties.cpp\<close>,
    \<open>IdentityDatabase.cpp\<close>): the tables of connected clients and servers. \<open>Client_Session\<close>
    (\<open>enclave/Client.cpp\<close>): the session of a client. \<open>Key_Exchange\<close> (\<open>key_derivation.h\<close>, parts of
    \<open>ClientImpl.cpp\<close> and \<open>Peer.cpp\<close>): the handshake.
  \<^item> \<open>Client_Library\<close> (\<open>ClientImpl.cpp\<close>, \<open>CollectionImpl.cpp\<close>, \<open>TransactionImpl.cpp\<close>, \<open>Pending*.h\<close>): the
    connection of a client, its calls and its transactions. \<open>Remote_Call\<close> puts client, session, handlers and ledger
    together; \<open>Remote_Example\<close> evaluates this on concrete libraries.
  \<^item> \<open>Server_Attestation\<close> (\<open>server/Attestation.cpp\<close>): the untrusted side of the handshake. \<open>Peer_Session\<close>
    (\<open>enclave/Peer.cpp\<close>, \<open>PendingMessage.cpp\<close>): the session of another server, in two phases of attestation and then
    with requests, forwarded requests, answers and changes of the index. \<open>Server_Host\<close> (\<open>server/RemoteParties.cpp\<close>,
    \<open>PeerHandler.cpp\<close>, \<open>ClientHandler.cpp\<close>): the process around the enclave, as the events it receives and sends.
    \<open>Peer_Handshake\<close> lets two servers exchange frames; \<open>Peer_Example\<close> has two concrete ones.
  \<^item> \<open>Replication\<close> (\<open>Enclave::set_upstream\<close>, \<open>EnclaveHandle::set_upstream\<close>, the end of
    \<open>Ledger::put_next_version\<close>): a server that follows another one. \<open>Upstream_Files\<close>
    (\<open>Enclave::read_from_upstream_disk\<close>): its reads of files. \<open>Replication_Example\<close> has a concrete pair.
  \<^item> \<open>Program_Bindings\<close> (\<open>bindings/*.cpp\<close>, \<open>ProgramRunner.cpp\<close>, \<open>Task.cpp\<close>, \<open>TaskManager.cpp\<close>): what programs and
    policies can look up and call, and how a program runs. \<open>Program_Transactions\<close> has the proofs, on top of \<open>Transaction_System\<close>,
    \<open>Program_Example\<close> a concrete program.
  \<^item> \<open>Python_Converter\<close> (\<open>client/python_converter.h\<close>): the values of Python and the documents of the client.

  \<^bold>\<open>State and operations.\<close> Classes are records with the fields of the sources; an operation takes and
  returns the state, and returns an element of \<open>result\<close> where the code can throw. Page references are page
  numbers into a store. Integers keep their width. Loops along chains of pages or events, and loops that
  wait for another server, are \<open>partial_function\<close>s over \<open>option\<close>: not returning is \<open>None\<close>, and the
  theorems on them state that a result is returned.

  \<^bold>\<open>What is proved.\<close>

  \<^item> Storage: the buffer manager implements the page store for every sequence of operations and does not lose
    a modified page on eviction; it returns a page unless every cached page is pinned.
  \<^item> Indexes: the primary index implements a finite map and its scan yields every key; the secondary
    index implements a map to multisets; a page or bucket from an earlier state is reported as stale.
  \<^item> Ledger: blocks return what was inserted, also after being written and loaded; the ledger implements a
    store of versioned objects for every sequence of operations; events are permanent; object policies are
    enforced by the operations that ask them.
  \<^item> Queries: find and count return exactly the current documents that match, whatever indexes exist; clear empties a
    collection and nothing else, as long as the buckets of its index are single pages.
  \<^item> Concurrency: the readers-writer lock excludes conflicting holders in every interleaving; a lock
    handle gives back exactly what it acquired.
  \<^item> Transactions: every interleaving leaves what a serial execution of the committed transactions leaves, every call on a
    transaction returns, except the prepare of one that waits for its own lock, and a failed one has no effect.
  \<^item> Storage outside the enclave: what is written is read back through encryption, cache and restarts; witnesses survive
    their text form.
  \<^item> Network: a connected session executes only what its key authenticates; the tables of parties stay consistent; a
    sequence of calls of a client has the answers and the effect of the same operations on the ledger.
  \<^item> Servers: the handshake of two servers ends without a session, since too little is signed for a library that checks the signature, and
    is right apart from that; a downstream server in a session has, after every put and add,
    the index of its upstream server, finds for every key the event written last, and reads the files that were written.
  \<^item> Programs: a call of a module with the wrong arguments has no effect, and what a call returns has its type; any number of programs
    that interleave their calls are serializable, but for the reads that the code does not register, by a simulation of the modules by the transaction system. Values of Python survive
    the conversion to a document and back.
  \<^item> Places where the code does not do what it announces, each as a theorem about the definitions that
    translate it.

  \<^bold>\<open>Layers.\<close> The hash tables work on a \<open>page_store\<close>, which the buffer manager implements
  (\<open>buf: step_refinement\<close>). The ledger works on maps for its primary indexes, which the hash table
  implements (\<open>hm: kv_map\<close>), and on multisets for its secondary indexes, which the multi-map
  implements. It follows one thread; the locks it takes are treated in \<open>Lock_Handle\<close> and \<open>Transaction_System\<close>. The handlers of
  requests call the ledger, the session calls the handlers, and the client library the session, each through the
  bytes that the other side reads.

  \<^bold>\<open>Parameters.\<close> The JSON library and the interpreter of programs are not part of the sources. They
  appear as the arguments of type \<open>json_lib\<close>, \<open>ledger_env\<close>, \<open>tx_env\<close> and \<open>enclave_env\<close>; the theorems that read
  events back assume \<open>json_roundtrip\<close>, that parsing a written array gives the array. The bit stream library is
  \<open>bitstream_lib\<close>, with \<open>wire_laws\<close> and \<open>document_laws\<close>: what is written is read back. Encryption is \<open>aes_gcm\<close> with
  \<open>gcm_correct\<close>, the two sides of the SGX key exchange \<open>attest_lib\<close> and \<open>ra_lib\<close>, signatures are part of \<open>witness_lib\<close>. The byte size of a hash table
  node, the serialisation of a page, the iteration order of unordered containers, the random keys of \<open>put_without_key\<close> and what
  other servers send are arguments too. So is the interpreter (\<open>interpreter\<close>, any machine that looks up and calls members of
  modules), with its conversions of values (\<open>cow_lib\<close>). \<open>Json_Example\<close>, \<open>Wire_Example\<close> and the examples of the theories give
  concrete functions that satisfy the assumptions.

  \<^bold>\<open>Bounds.\<close> Page numbers have 32 bits, so the theorems ask for fewer operations than page numbers. A
  block has 16-bit positions and 32-bit offsets: \<open>DATA_LIMIT\<close> is \<open>2 ^ 32\<close> less the largest index, and since a
  block is closed above 5 kB, every event below \<open>EVENT_LIMIT = 2 ^ 31\<close> bytes fits. Version numbers of
  objects wrap after \<open>2 ^ 32\<close> versions, which the specification of the ledger includes. A transaction has at most
  \<open>MAX_OPS\<close> operations with events of at most \<open>MAX_EVENT\<close> bytes, so that its events fit into the blocks it has locked. Messages are
  shorter than \<open>2 ^ 32\<close> bytes, the range of their length field; operation identifiers may wrap around.

  \<^bold>\<open>Not modelled.\<close> Sockets, threads, the event loop and the command line of the server; the creation of the enclave and of its keys by
  the SGX library; the interpreter of programs, which is not part of the sources, and the switch between the stack of a program and its host, which
  is assembler: a program that waits for another server is resumed inside a parameter. In the ledger, a policy is a parameter that gives a verdict;
  \<open>Program_Bindings\<close> says which modules it has, but what it writes through them is not part of the ledger operation that asks it. The
  copies of vendor cryptography; the JSON parser of the client, a grammar for a parser library; the table that registers the classes of the client
  with Python. A request is one step of the model, at the moment it has its locks.
\<close>

end
